(* ===== verification/Prelude.thy ===== *)
theory Prelude imports Main "HOL-Library.Monad_Syntax" "HOL-Library.Word" begin

text \<open>
  Shared ground of the development: what every component of the Gendo server library uses of C.

  A C function that may dereference a bad pointer, fail an \<open>assert\<close> or loop for ever returns
  an \<open>option\<close>: \<open>None\<close> is "the call does not come back". Pointers are natural numbers, \<open>0\<close> is
  \<open>NULL\<close>. The record \<open>heap\<close> holds the storage every component shares: which blocks are live, the
  outcomes of the coming \<open>malloc\<close> calls, and the two link fields of the intrusive list nodes
  (\<open>struct lib_list\<close>, the first member of every structure that is put on a list, so that the
  address of the node is the address of the structure). Every component extends this record with
  its own fields, so the list operations apply to the state of each of them as they are.
\<close>

section \<open>C values\<close>

type_synonym ptr = nat

abbreviation (input) NULL :: ptr where
  "NULL \<equiv> 0"

text \<open>The return codes of \<open>Server/Include/lib-types.h\<close>.\<close>

definition OK :: int where
  "OK = 0"

definition ERROR :: int where
  "ERROR = - 1"

lemma OK_neq_ERROR [simp]: "OK \<noteq> ERROR" "ERROR \<noteq> OK"
  by (simp_all add: OK_def ERROR_def)

text \<open>\<open>lib_assert\<close> is \<open>assert\<close>: a false condition aborts the process.\<close>

definition lib_assert :: "bool \<Rightarrow> unit option" where
  "lib_assert c = (if c then Some () else None)"

lemma lib_assert_simps [simp]: "lib_assert True = Some ()" "lib_assert False = None"
  by (simp_all add: lib_assert_def)

lemma lib_assert_Some [simp]: "lib_assert c = Some u \<longleftrightarrow> c"
  by (simp add: lib_assert_def)

text \<open>
  Signed 32-bit and unsigned 32-bit results of arithmetic that may leave the range; \<open>c_int\<close> is what
  an assignment to an \<open>int\<close> keeps on the two's complement targets of the server.
\<close>

definition c_int :: "int \<Rightarrow> int" where
  "c_int x = (x + 2 ^ 31) mod 2 ^ 32 - 2 ^ 31"

text \<open>The remainder of C: it has the sign of the dividend.\<close>

definition c_rem :: "int \<Rightarrow> int \<Rightarrow> int" where
  "c_rem a b = (if a < 0 then - ((- a) mod b) else a mod b)"

lemma c_rem_nonneg [simp]: "0 \<le> a \<Longrightarrow> c_rem a b = a mod b"
  by (simp add: c_rem_def)

definition INT_MAX :: int where
  "INT_MAX = 2 ^ 31 - 1"

lemma c_int_id [simp]: "- (2 ^ 31) \<le> x \<Longrightarrow> x < 2 ^ 31 \<Longrightarrow> c_int x = x"
  by (simp add: c_int_def)

lemma c_int_range: "- (2 ^ 31) \<le> c_int x \<and> c_int x < 2 ^ 31"
  using pos_mod_bound [of "2 ^ 32" "x + 2 ^ 31"] pos_mod_sign [of "2 ^ 32" "x + 2 ^ 31"]
  by (simp add: c_int_def)

section \<open>The shared storage\<close>

record heap =
  live :: "ptr \<Rightarrow> bool"
  brk :: ptr
  oom :: "bool list"
  nxt :: "ptr \<Rightarrow> ptr"
  prv :: "ptr \<Rightarrow> ptr"

definition valid :: "'a heap_scheme \<Rightarrow> ptr \<Rightarrow> bool" where
  "valid h p \<longleftrightarrow> p \<noteq> NULL \<and> live h p"

lemma valid_NULL [simp]: "\<not> valid h 0"
  by (simp add: valid_def)

lemma valid_pos: "valid h p \<Longrightarrow> 0 < p"
  by (simp add: valid_def)

lemma valid_cong: "live h' = live h \<Longrightarrow> valid h' = valid h"
  by (simp add: valid_def fun_eq_iff)

text \<open>
  The client's view of \<open>mem_malloc\<close> and \<open>mem_free\<close> (the tracking allocator itself is the theory
  LibMem). The list \<open>oom\<close> holds the outcomes of the coming calls: a call whose outcome is \<open>True\<close>
  fails with \<open>NULL\<close>, and once the list is used up every call succeeds. A block is a fresh address,
  handed out zeroed.
\<close>

definition next_oom :: "'a heap_scheme \<Rightarrow> bool" where
  "next_oom h = (case oom h of [] \<Rightarrow> False | b # _ \<Rightarrow> b)"

definition mem_malloc :: "'a heap_scheme \<Rightarrow> ptr \<times> 'a heap_scheme" where
  "mem_malloc h =
     (if next_oom h then (NULL, h\<lparr>oom := tl (oom h)\<rparr>)
      else (brk h, h\<lparr>live := (live h)(brk h := True), brk := Suc (brk h), oom := tl (oom h),
                     nxt := (nxt h)(brk h := NULL), prv := (prv h)(brk h := NULL)\<rparr>))"

definition mem_free :: "ptr \<Rightarrow> 'a heap_scheme \<Rightarrow> 'a heap_scheme option" where
  "mem_free p h =
     (if p = NULL then Some h
      else if live h p then Some (h\<lparr>live := (live h)(p := False)\<rparr>) else None)"

text \<open>
  An array of \<open>n\<close> structures is one block with consecutive addresses; the call that frees it names
  the length the structure that owns it recorded.
\<close>

definition mem_malloc_array :: "nat \<Rightarrow> 'a heap_scheme \<Rightarrow> ptr \<times> 'a heap_scheme" where
  "mem_malloc_array n h =
     (if next_oom h then (NULL, h\<lparr>oom := tl (oom h)\<rparr>)
      else (brk h, h\<lparr>live := (\<lambda>p. live h p \<or> brk h \<le> p \<and> p < brk h + max 1 n),
                     brk := brk h + max 1 n, oom := tl (oom h),
                     nxt := (\<lambda>p. if brk h \<le> p then NULL else nxt h p),
                     prv := (\<lambda>p. if brk h \<le> p then NULL else prv h p)\<rparr>))"

definition mem_free_array :: "ptr \<Rightarrow> nat \<Rightarrow> 'a heap_scheme \<Rightarrow> 'a heap_scheme option" where
  "mem_free_array p n h =
     (if p = NULL then Some h
      else if live h p
      then Some (h\<lparr>live := (\<lambda>q. live h q \<and> \<not> (p \<le> q \<and> q < p + max 1 n))\<rparr>) else None)"

text \<open>Every address from \<open>brk\<close> on is still unused, and \<open>NULL\<close> is never handed out.\<close>

definition heap_ok :: "'a heap_scheme \<Rightarrow> bool" where
  "heap_ok h \<longleftrightarrow> 0 < brk h \<and> (\<forall>p. live h p \<longrightarrow> p < brk h)"

lemma heap_ok_brk: "heap_ok h \<Longrightarrow> 0 < brk h \<and> \<not> live h (brk h)"
  by (auto simp: heap_ok_def)

lemma heap_ok_cong: "live h' = live h \<Longrightarrow> brk h' = brk h \<Longrightarrow> heap_ok h' = heap_ok h"
  by (simp add: heap_ok_def)

lemma heap_ok_valid: "heap_ok h \<Longrightarrow> valid h p \<Longrightarrow> p < brk h"
  by (auto simp: heap_ok_def valid_def)

lemma mem_malloc_heap_ok: "heap_ok h \<Longrightarrow> mem_malloc h = (p, h') \<Longrightarrow> heap_ok h'"
  by (auto simp: mem_malloc_def heap_ok_def less_Suc_eq split: if_splits)

lemma mem_malloc_fresh:
  "heap_ok h \<Longrightarrow> mem_malloc h = (p, h') \<Longrightarrow> p \<noteq> NULL \<Longrightarrow>
   \<not> valid h p \<and> valid h' p \<and> nxt h' p = NULL \<and> prv h' p = NULL"
  by (auto simp: mem_malloc_def heap_ok_def valid_def split: if_splits)

lemma mem_malloc_frame:
  "heap_ok h \<Longrightarrow> mem_malloc h = (p, h') \<Longrightarrow> valid h q \<Longrightarrow>
   valid h' q \<and> nxt h' q = nxt h q \<and> prv h' q = prv h q"
  by (auto simp: mem_malloc_def heap_ok_def valid_def split: if_splits)

lemma mem_free_heap_ok: "heap_ok h \<Longrightarrow> mem_free p h = Some h' \<Longrightarrow> heap_ok h'"
  by (auto simp: mem_free_def heap_ok_def split: if_splits)

lemma mem_free_valid [simp]:
  "valid h p \<Longrightarrow> mem_free p h = Some (h\<lparr>live := (live h)(p := False)\<rparr>)"
  by (simp add: mem_free_def valid_def)

text \<open>Reading and writing a link field faults outside the live blocks.\<close>

definition get_next :: "'a heap_scheme \<Rightarrow> ptr \<Rightarrow> ptr option" where
  "get_next h p = (if valid h p then Some (nxt h p) else None)"

definition get_prev :: "'a heap_scheme \<Rightarrow> ptr \<Rightarrow> ptr option" where
  "get_prev h p = (if valid h p then Some (prv h p) else None)"

definition set_next :: "ptr \<Rightarrow> ptr \<Rightarrow> 'a heap_scheme \<Rightarrow> 'a heap_scheme option" where
  "set_next p v h = (if valid h p then Some (h\<lparr>nxt := (nxt h)(p := v)\<rparr>) else None)"

definition set_prev :: "ptr \<Rightarrow> ptr \<Rightarrow> 'a heap_scheme \<Rightarrow> 'a heap_scheme option" where
  "set_prev p v h = (if valid h p then Some (h\<lparr>prv := (prv h)(p := v)\<rparr>) else None)"

lemmas heap_access = get_next_def get_prev_def set_next_def set_prev_def

lemma valid_upd [simp]:
  "valid (h\<lparr>nxt := f\<rparr>) = valid h" "valid (h\<lparr>prv := f\<rparr>) = valid h"
  "valid (h\<lparr>oom := b\<rparr>) = valid h" "valid (h\<lparr>brk := n\<rparr>) = valid h"
  by (simp_all add: valid_def fun_eq_iff)

lemma heap_ok_upd [simp]:
  "heap_ok (h\<lparr>nxt := f\<rparr>) = heap_ok h" "heap_ok (h\<lparr>prv := f\<rparr>) = heap_ok h"
  "heap_ok (h\<lparr>oom := b\<rparr>) = heap_ok h"
  by (simp_all add: heap_ok_def)

section \<open>Lists of nodes\<close>

text \<open>
  \<open>links h zs\<close>: each element of \<open>zs\<close> points forward to the following one, which points back.
\<close>

fun links :: "'a heap_scheme \<Rightarrow> ptr list \<Rightarrow> bool" where
  "links h (u # v # zs) = (nxt h u = v \<and> prv h v = u \<and> links h (v # zs))"
| "links h _ = True"

lemma links_append: "links h (us @ w # vs) \<longleftrightarrow> links h (us @ [w]) \<and> links h (w # vs)"
proof (induction us)
  case Nil
  show ?case by simp
next
  case (Cons u us)
  then show ?case by (cases us) auto
qed

lemma links_frame:
  assumes "\<And>u. u \<in> set (butlast zs) \<Longrightarrow> nxt h' u = nxt h u"
    and "\<And>v. v \<in> set (tl zs) \<Longrightarrow> prv h' v = prv h v"
  shows "links h' zs = links h zs"
  using assms
proof (induction zs rule: links.induct)
  case (1 h u v zs)
  then show ?case by (cases zs) auto
qed auto

lemma links_cong: "nxt h' = nxt h \<Longrightarrow> prv h' = prv h \<Longrightarrow> links h' zs = links h zs"
  by (rule links_frame) simp_all

lemma less_two: "(i :: nat) < Suc (Suc 0) \<longleftrightarrow> i = 0 \<or> i = 1"
  by auto

lemma list_ends:
  obtains us where "a # ys = us @ [last (a # ys)]" "us = butlast (a # ys)"
  by (metis append_butlast_last_id list.discI)

lemma snoc_starts:
  obtains vs where "zs @ [e] = hd (zs @ [e]) # vs" "vs = tl (zs @ [e])"
  by (metis append_is_Nil_conv list.collapse not_Cons_self2)

end
