(* ===== verification/LibFile.thy ===== *)
theory LibFile imports Prelude "HOL-Library.Char_ord" begin

text \<open>
  \<open>Server/Lib/lib-file.c\<close>, the part that works on strings: splitting lines into fields, safe
  copies, and the checks of numbers, addresses, masks and names. A C string is the list of its
  characters up to the terminator. The file operations are the theory LibFileLines.
\<close>

section \<open>Characters\<close>

abbreviation (input) NL :: char where "NL \<equiv> CHR 0x0A"
abbreviation (input) TAB :: char where "TAB \<equiv> CHR 0x09"
abbreviation (input) CR :: char where "CR \<equiv> CHR 0x0D"

definition LINE_BUF_LEN :: nat where "LINE_BUF_LEN = 8192"

definition IsSpace :: "int \<Rightarrow> bool" where
  "IsSpace c = (c = 32 \<or> c = 9)"

definition IsEOL :: "int \<Rightarrow> bool" where
  "IsEOL c = (c = 0 \<or> c = 10 \<or> c = 13)"

abbreviation (input) code :: "char \<Rightarrow> int" where
  "code c \<equiv> of_char c"

definition IsNoteLine :: "string \<Rightarrow> bool" where
  "IsNoteLine line = (case dropWhile (\<lambda>c. c = CHR '' '') line of c # _ \<Rightarrow> c = CHR ''#'' | [] \<Rightarrow> False)"

definition IsNull :: "string option \<Rightarrow> bool" where
  "IsNull str = (case str of None \<Rightarrow> True | Some s \<Rightarrow> s = [])"

section \<open>Fields of a line\<close>

text \<open>\<open>NULL\<close> and the empty string stand for the default separators.\<close>

definition seps :: "string option \<Rightarrow> char \<Rightarrow> bool" where
  "seps spchar c = (case spchar of
      Some (s # sp) \<Rightarrow> c \<in> set (s # sp)
    | _ \<Rightarrow> c \<in> {CHR '' '', TAB, NL, CR})"

text \<open>
  \<open>for (; i < f && *line; i++)\<close>: the number counts \<open>f - i\<close>, the last argument is the field between
  \<open>p1\<close> and \<open>p2\<close>. One turn skips the separators in front, passes the field, and one character more.
\<close>

fun field_loop :: "(char \<Rightarrow> bool) \<Rightarrow> nat \<Rightarrow> string \<Rightarrow> string \<Rightarrow> nat \<times> string" where
  "field_loop sp (Suc k) (c # line) cur =
     (let l1 = dropWhile sp (c # line) in
      field_loop sp k (tl (dropWhile (\<lambda>c. \<not> sp c) l1)) (takeWhile (\<lambda>c. \<not> sp c) l1))"
| "field_loop sp k line cur = (k, cur)"

text \<open>
  The last field is found from the end of the line. The character in front of the line, which the
  two loops read before they compare the pointers, has no influence on the result.
\<close>

definition last_field :: "(char \<Rightarrow> bool) \<Rightarrow> string \<Rightarrow> string" where
  "last_field sp line = rev (takeWhile (\<lambda>c. \<not> sp c) (dropWhile sp (rev line)))"

definition pick_field :: "(char \<Rightarrow> bool) \<Rightarrow> string \<Rightarrow> int \<Rightarrow> string option" where
  "pick_field sp line f =
     (let (missing, field) =
        (if f = - 1 then (0, last_field sp line)
         else if f < 0 then (1, [])
         else field_loop sp (nat f) line [])
      in if missing \<noteq> 0 \<or> field = [] then None else Some field)"

definition GetField :: "string \<Rightarrow> string option \<Rightarrow> int \<Rightarrow> string option" where
  "GetField line spchar f =
     (case pick_field (seps spchar) line f of
        None \<Rightarrow> None
      | Some field \<Rightarrow> Some (take (LINE_BUF_LEN - 1) field))"

text \<open>
  \<open>vgetw\<close> copies into the caller's array of \<open>len\<close> bytes; field \<open>0\<close> is what follows the first field
  and the blanks behind it. The outer option is for an array without room for a terminator.
\<close>

definition vgetw :: "string \<Rightarrow> string option \<Rightarrow> int \<Rightarrow> int \<Rightarrow> string option option" where
  "vgetw line spchar f len =
     (if len \<le> 0 then None
      else if f = 0
      then Some (Some (take (nat len - 1)
             (dropWhile (\<lambda>c. IsSpace (code c)) (dropWhile (\<lambda>c. \<not> seps spchar c) line))))
      else Some (case pick_field (seps spchar) line f of
                   None \<Rightarrow> None
                 | Some field \<Rightarrow> Some (take (nat len - 1) field)))"

text \<open>\<open>get_word\<close> does not know the size of the caller's array, here \<open>cap\<close>: a longer field overruns it.\<close>

definition get_word :: "nat \<Rightarrow> string \<Rightarrow> string option \<Rightarrow> int \<Rightarrow> (bool \<times> string) option" where
  "get_word cap line spchar f =
     (case pick_field (seps spchar) line f of
        None \<Rightarrow> Some (False, [])
      | Some field \<Rightarrow> if List.length field < cap then Some (True, field) else None)"

text \<open>
  \<open>spilt_line2fields\<close>: the fields it stores; what it returns is their number. The separators are
  the caller's string as it is, or the default ones for \<open>NULL\<close>.
\<close>

definition raw_seps :: "string option \<Rightarrow> char \<Rightarrow> bool" where
  "raw_seps spc c = (case spc of Some sp \<Rightarrow> c \<in> set sp | None \<Rightarrow> c \<in> {CHR '' '', TAB, NL, CR})"

fun spilt_loop :: "(char \<Rightarrow> bool) \<Rightarrow> nat \<Rightarrow> string \<Rightarrow> string list" where
  "spilt_loop sp 0 line = []"
| "spilt_loop sp (Suc k) line =
     (let l1 = dropWhile sp line
      in if l1 = [] then []
      else takeWhile (\<lambda>c. \<not> sp c) l1 # spilt_loop sp k (tl (dropWhile (\<lambda>c. \<not> sp c) l1)))"

definition spilt_line2fields :: "string option \<Rightarrow> string option \<Rightarrow> nat \<Rightarrow> string list" where
  "spilt_line2fields line spc argc =
     (case line of None \<Rightarrow> [] | Some l \<Rightarrow> spilt_loop (raw_seps spc) argc l)"

text \<open>
  The comparison of the first words of a line with \<open>argv\<close>, in which a \<open>NULL\<close> matches every word.
\<close>

fun match_words :: "(char \<Rightarrow> bool) \<Rightarrow> string option list \<Rightarrow> string \<Rightarrow> bool" where
  "match_words sp [] line = False"
| "match_words sp (a # as) line =
     (let l1 = dropWhile sp line;
          p = takeWhile (\<lambda>c. \<not> sp c) l1
      in if a \<noteq> None \<and> a \<noteq> Some p then False
      else if as = [] then True
      else match_words sp as (tl (dropWhile (\<lambda>c. \<not> sp c) l1)))"

section \<open>Copies\<close>

text \<open>
  The arguments \<open>to\<close> and \<open>from\<close> may be \<open>NULL\<close>. The outer option is for a copy past the array of
  \<open>len\<close> bytes; the comparison in \<open>safecat\<close> is made in \<open>size_t\<close>.
\<close>

definition safecpy :: "string option \<Rightarrow> string option \<Rightarrow> int \<Rightarrow> string option option" where
  "safecpy to from len =
     (case (to, from) of
        (Some _, Some s) \<Rightarrow> if len \<le> 0 then None else Some (Some (take (nat len - 1) s))
      | _ \<Rightarrow> Some None)"

definition safecat :: "string option \<Rightarrow> string option \<Rightarrow> int \<Rightarrow> string option option" where
  "safecat to from len =
     (case (to, from) of
        (Some t, Some s) \<Rightarrow>
          if (word_of_int (len - 1) :: 64 word) - of_nat (List.length t) < of_nat (List.length s)
          then Some None
          else if int (List.length t + List.length s) < len then Some (Some (t @ s)) else None
      | _ \<Rightarrow> Some None)"

section \<open>Numbers\<close>

definition isspace :: "char \<Rightarrow> bool" where
  "isspace c = (c = CHR '' '' \<or> (9 \<le> code c \<and> code c \<le> 13))"

definition digit_val :: "char \<Rightarrow> int" where
  "digit_val c =
     (if CHR ''0'' \<le> c \<and> c \<le> CHR ''9'' then code c - 48
      else if CHR ''a'' \<le> c \<and> c \<le> CHR ''z'' then code c - 87
      else if CHR ''A'' \<le> c \<and> c \<le> CHR ''Z'' then code c - 55
      else 99)"

definition digits_of :: "int \<Rightarrow> string \<Rightarrow> string" where
  "digits_of b s = takeWhile (\<lambda>c. digit_val c < b) s"

definition digits_value :: "int \<Rightarrow> string \<Rightarrow> int" where
  "digits_value b ds = foldl (\<lambda>v c. v * b + digit_val c) 0 ds"

text \<open>The value of \<open>strtol\<close>, clamped to \<open>long\<close>, and what follows the number (all of it without one).\<close>

definition strtol :: "int \<Rightarrow> string \<Rightarrow> int \<times> string" where
  "strtol base s =
     (let s1 = dropWhile isspace s;
          neg = (s1 \<noteq> [] \<and> hd s1 = CHR ''-'');
          s2 = (if s1 \<noteq> [] \<and> (hd s1 = CHR ''-'' \<or> hd s1 = CHR ''+'') then tl s1 else s1);
          hex = (2 < List.length s2 \<and> s2 ! 0 = CHR ''0'' \<and> (s2 ! 1 = CHR ''x'' \<or> s2 ! 1 = CHR ''X'') \<and>
                 digit_val (s2 ! 2) < 16);
          b = (if base = 0 then (if hex then 16 else if s2 \<noteq> [] \<and> hd s2 = CHR ''0'' then 8 else 10) else base);
          s3 = (if b = 16 \<and> hex then drop 2 s2 else s2);
          ds = digits_of b s3;
          v = (if neg then - digits_value b ds else digits_value b ds)
      in if ds = [] then (0, s)
      else (max (- (2 ^ 63)) (min (2 ^ 63 - 1) v), drop (List.length ds) s3))"

definition atoi :: "string \<Rightarrow> int" where
  "atoi s = c_int (fst (strtol 10 s))"

definition atob :: "string option \<Rightarrow> bool" where
  "atob val = (case val of None \<Rightarrow> False | Some s \<Rightarrow> s \<noteq> [] \<and> atoi s \<noteq> 0)"

definition IsNum :: "string option \<Rightarrow> bool" where
  "IsNum s = (case s of None \<Rightarrow> False
     | Some s \<Rightarrow> snd (strtol 0 (dropWhile (\<lambda>c. c \<in> {CHR '' '', CHR ''0'', TAB}) s)) = [])"

definition IsHexNum :: "string option \<Rightarrow> bool" where
  "IsHexNum s = (case s of None \<Rightarrow> False | Some s \<Rightarrow> s \<noteq> [] \<and> snd (strtol 16 s) = [])"

definition hextoi :: "string \<Rightarrow> int" where
  "hextoi s = c_int (fst (strtol 16 s))"

section \<open>Addresses\<close>

text \<open>
  \<open>inet_addr\<close> is the C library's; \<open>unsigned long\<close> has 64 bits, the answer is extended with zeros.
\<close>

definition INADDR_NONE :: "32 word" where "INADDR_NONE = 0xffffffff"

definition swap_bytes :: "64 word \<Rightarrow> 64 word" where
  "swap_bytes addr =
     drop_bit 24 (and addr 0xff000000) + drop_bit 8 (and addr 0xff0000)
     + push_bit 8 (and addr 0xff00) + push_bit 24 (and addr 0xff)"

text \<open>\<open>for (i = 0; i <= 32; i++)\<close>, the number counts the turns left.\<close>

fun mask_loop :: "nat \<Rightarrow> 64 word \<Rightarrow> bool" where
  "mask_loop 0 swap = True"
| "mask_loop (Suc k) swap =
     (if swap \<noteq> 0 \<and> and swap 0x80000000 = 0 then False
      else if swap = 0 then True
      else mask_loop k (push_bit 1 swap))"

definition IsGoodMask :: "(string \<Rightarrow> 32 word) \<Rightarrow> string option \<Rightarrow> bool" where
  "IsGoodMask inet_addr str =
     (case str of None \<Rightarrow> False
      | Some s \<Rightarrow>
          let addr = inet_addr s
          in if addr = INADDR_NONE \<and> s \<noteq> ''255.255.255.255'' then False
          else mask_loop 33 (swap_bytes (ucast addr)))"

text \<open>Four dotted parts from \<open>0\<close> to \<open>255\<close>.\<close>

definition octets_ok :: "string \<Rightarrow> bool" where
  "octets_ok ip = list_all (\<lambda>i. case GetField ip (Some ''.'') i of
       None \<Rightarrow> False | Some f \<Rightarrow> f \<noteq> [] \<and> 0 \<le> atoi f \<and> atoi f \<le> 255) [1, 2, 3, 4]"

definition ip_seps :: string where
  "ip_seps = [CHR '' '', TAB, CHR ''/'', NL, CR]"

definition IsGoodIp :: "(string \<Rightarrow> 32 word) \<Rightarrow> string option \<Rightarrow> bool" where
  "IsGoodIp inet_addr ip =
     (case ip of None \<Rightarrow> False
      | Some ip \<Rightarrow>
         (case GetField ip (Some ip_seps) 1 of None \<Rightarrow> False
          | Some f \<Rightarrow>
             if inet_addr f = INADDR_NONE then False
             else if \<not> octets_ok ip then False
             else
               (case vgetw ip (Some ip_seps) 2 256 of
                  Some (Some msk) \<Rightarrow>
                    if CHR ''.'' \<notin> set msk
                    then IsNum (Some msk) \<and> 0 \<le> atoi msk \<and> atoi msk \<le> 32
                    else if inet_addr msk = INADDR_NONE \<and> msk \<noteq> ''255.255.255.255'' then False
                    else octets_ok msk \<and> IsGoodMask inet_addr (Some msk)
                | _ \<Rightarrow> True)))"

definition mac_seps :: string where
  "mac_seps = [CHR '':'', TAB, CHR '' '']"

definition mac_part_ok :: "string \<Rightarrow> int \<Rightarrow> bool" where
  "mac_part_ok str n =
     (case vgetw str (Some mac_seps) n (int LINE_BUF_LEN) of
        Some (Some buf) \<Rightarrow> IsHexNum (Some buf) \<and> 0 \<le> hextoi buf \<and> hextoi buf \<le> 0xff
      | _ \<Rightarrow> False)"

definition IsGoodMac :: "string \<Rightarrow> bool" where
  "IsGoodMac str \<longleftrightarrow> list_all (mac_part_ok str) [1, 2, 3, 4, 5, 6] \<and>
     vgetw str (Some mac_seps) 7 (int LINE_BUF_LEN) = Some None"

definition get_network :: "(string \<Rightarrow> 32 word) \<Rightarrow> (32 word \<Rightarrow> string) \<Rightarrow> string \<Rightarrow> string \<Rightarrow> string" where
  "get_network inet_addr inet_ntoa ip netmask = inet_ntoa (and (inet_addr ip) (inet_addr netmask))"

section \<open>Names\<close>

definition isalpha :: "char \<Rightarrow> bool" where
  "isalpha c = ((CHR ''a'' \<le> c \<and> c \<le> CHR ''z'') \<or> (CHR ''A'' \<le> c \<and> c \<le> CHR ''Z''))"

definition isalnum :: "char \<Rightarrow> bool" where
  "isalnum c = (isalpha c \<or> (CHR ''0'' \<le> c \<and> c \<le> CHR ''9''))"

text \<open>\<open>strstr\<close> for one character.\<close>

definition IsGoodCmd :: "string \<Rightarrow> bool" where
  "IsGoodCmd str = (CHR '';'' \<notin> set str)"

text \<open>The terminator of an empty string counts as its first character.\<close>

definition name_start :: "string \<Rightarrow> bool" where
  "name_start str = (case str of [] \<Rightarrow> False | c # _ \<Rightarrow> isalpha c \<or> 128 \<le> code c)"

definition IsGoodName :: "string \<Rightarrow> bool" where
  "IsGoodName str =
     (name_start str \<and> list_all (\<lambda>c. isalnum c \<or> c \<in> set ''_'' \<or> 128 \<le> code c) (tl str))"

definition IsGoodDNS :: "string \<Rightarrow> bool" where
  "IsGoodDNS str =
     (name_start str \<and> list_all (\<lambda>c. isalnum c \<or> c \<in> set ''_.'' \<or> 128 \<le> code c) (tl str))"

section \<open>Fields and their specification\<close>

declare dropWhile_eq_Nil_conv [simp del]

text \<open>The fields of a line: its longest runs without a separator.\<close>

function tokens :: "(char \<Rightarrow> bool) \<Rightarrow> string \<Rightarrow> string list" where
  "tokens sp line =
     (let l1 = dropWhile sp line
      in if l1 = [] then []
      else takeWhile (\<lambda>c. \<not> sp c) l1 # tokens sp (dropWhile (\<lambda>c. \<not> sp c) l1))"
  by auto
termination
proof (relation "measure (\<lambda>(sp, line). List.length line)")
  fix sp :: "char \<Rightarrow> bool" and line l1 :: string
  assume l1: "l1 = dropWhile sp line" "l1 \<noteq> []"
  then have "\<not> sp (hd l1)" using hd_dropWhile [of sp line] by blast
  then have "dropWhile (\<lambda>c. \<not> sp c) l1 = dropWhile (\<lambda>c. \<not> sp c) (tl l1)"
    using l1(2) by (cases l1) simp_all
  also have "List.length \<dots> \<le> List.length (tl l1)" by (rule length_dropWhile_le)
  also have "\<dots> < List.length l1" using l1(2) by (cases l1) simp_all
  also have "\<dots> \<le> List.length line" unfolding l1(1) by (rule length_dropWhile_le)
  finally show "((sp, dropWhile (\<lambda>c. \<not> sp c) l1), (sp, line)) \<in> measure (\<lambda>(sp, line). List.length line)"
    by simp
qed simp

declare tokens.simps [simp del]

text \<open>After a field one separator is passed with it: it makes no difference to the fields.\<close>

lemma dropWhile_after_field:
  "dropWhile sp (tl (dropWhile (\<lambda>c. \<not> sp c) l)) = dropWhile sp (dropWhile (\<lambda>c. \<not> sp c) l)"
proof (cases "dropWhile (\<lambda>c. \<not> sp c) l")
  case (Cons c rest)
  then have "sp c" using hd_dropWhile [of "\<lambda>c. \<not> sp c" l] by simp
  then show ?thesis using Cons by simp
qed simp

lemma tokens_after_field:
  "tokens sp (tl (dropWhile (\<lambda>c. \<not> sp c) l)) = tokens sp (dropWhile (\<lambda>c. \<not> sp c) l)"
  by (subst (1 2) tokens.simps) (simp add: dropWhile_after_field)

lemma spilt_loop_take: "spilt_loop sp k line = take k (tokens sp line)"
proof (induction k arbitrary: line)
  case (Suc k)
  then show ?case by (subst tokens.simps) (simp add: Let_def tokens_after_field)
qed simp

lemma tokens_Nil [simp]: "tokens sp [] = []"
  by (subst tokens.simps) simp

lemma tokens_nonempty: "t \<in> set (tokens sp line) \<Longrightarrow> t \<noteq> []"
proof (induction sp line rule: tokens.induct)
  case (1 sp line)
  let ?l1 = "dropWhile sp line"
  show ?case
  proof (cases "?l1 = []")
    case True
    then show ?thesis using "1.prems" by (subst (asm) tokens.simps) simp
  next
    case False
    then have ns: "\<not> sp (hd ?l1)" using hd_dropWhile by blast
    have "takeWhile (\<lambda>c. \<not> sp c) ?l1 \<noteq> []" using False ns by (cases ?l1) simp_all
    moreover have "t = takeWhile (\<lambda>c. \<not> sp c) ?l1 \<or> t \<in> set (tokens sp (dropWhile (\<lambda>c. \<not> sp c) ?l1))"
      using "1.prems" False by (subst (asm) tokens.simps) (simp add: Let_def)
    ultimately show ?thesis using "1.IH" [OF refl False] by (elim disjE) simp_all
  qed
qed

text \<open>The loop of \<open>GetField\<close> stops on the field it counts to, or with an empty one past the end.\<close>

lemma field_loop_tokens:
  "(case field_loop sp (Suc k) line cur of (m, fld) \<Rightarrow> if m \<noteq> 0 \<or> fld = [] then None else Some fld) =
   (if k < List.length (tokens sp line) then Some (tokens sp line ! k) else None)"
proof (induction k arbitrary: line cur)
  case 0
  show ?case
  proof (cases line)
    case (Cons c rest)
    let ?l1 = "dropWhile sp line"
    have t: "tokens sp line = (if ?l1 = [] then []
        else takeWhile (\<lambda>c. \<not> sp c) ?l1 # tokens sp (dropWhile (\<lambda>c. \<not> sp c) ?l1))"
      by (subst tokens.simps) (simp add: Let_def)
    have "?l1 \<noteq> [] \<Longrightarrow> takeWhile (\<lambda>c. \<not> sp c) ?l1 \<noteq> []"
      using hd_dropWhile [of sp line] by (cases ?l1) auto
    then show ?thesis using Cons t by (auto simp: Let_def)
  qed simp
next
  case (Suc k)
  show ?case
  proof (cases line)
    case (Cons c rest)
    let ?l1 = "dropWhile sp line"
    let ?l3 = "tl (dropWhile (\<lambda>c. \<not> sp c) ?l1)"
    have t: "tokens sp line = (if ?l1 = [] then [] else takeWhile (\<lambda>c. \<not> sp c) ?l1 # tokens sp ?l3)"
      by (subst tokens.simps) (simp add: Let_def tokens_after_field)
    have "field_loop sp (Suc (Suc k)) line cur = field_loop sp (Suc k) ?l3 (takeWhile (\<lambda>c. \<not> sp c) ?l1)"
      using Cons by (simp add: Let_def)
    then show ?thesis using Suc.IH [of ?l3 "takeWhile (\<lambda>c. \<not> sp c) ?l1"] t by (cases "?l1 = []") simp_all
  qed simp
qed

lemma pick_field_tokens:
  "0 < f \<Longrightarrow> pick_field sp line f =
     (let ts = tokens sp line in if nat f \<le> List.length ts then Some (ts ! (nat f - 1)) else None)"
proof -
  assume f: "0 < f"
  define k where "k = nat f - 1"
  have k: "nat f = Suc k" using f by (simp add: k_def)
  show ?thesis using f field_loop_tokens [of sp k line "[]"]
    by (simp add: pick_field_def k Let_def Suc_le_eq split: prod.splits)
qed

section \<open>Masks\<close>

lemma top_bit: "and s 0x80000000 = (0 :: 64 word) \<longleftrightarrow> \<not> bit s 31"
  using and_exp_eq_0_iff_not_bit [of s 31] by simp

lemma shift_nonzero:
  assumes "(s :: 64 word) \<noteq> 0" "take_bit 32 s = s" "n \<le> 32"
  shows "push_bit n s \<noteq> 0"
proof
  assume z: "push_bit n s = 0"
  obtain j where j: "bit s j" using assms(1) by (metis bit_eq_iff bit_0_eq bot_apply bot_bool_def)
  then have "bit (take_bit 32 s) j" using assms(2) by simp
  then have "j < 32" by (simp add: bit_simps)
  then have "bit (push_bit n s) (n + j)" using j assms(3) by (simp add: bit_simps)
  then show False using z by simp
qed

lemma mask_loop_shifts:
  "k \<le> 32 \<Longrightarrow> s \<noteq> 0 \<Longrightarrow> take_bit 32 s = s \<Longrightarrow> \<not> mask_loop (Suc k) (push_bit (32 - k) s)"
proof (induction k)
  case 0
  have "\<not> bit (push_bit 32 s) 31" by (simp add: bit_simps)
  moreover have "push_bit 32 s \<noteq> (0 :: 64 word)" by (rule shift_nonzero) (use 0 in simp_all)
  ultimately show ?case by (simp add: top_bit)
next
  case (Suc k)
  have "push_bit (32 - Suc k) s \<noteq> (0 :: 64 word)" by (rule shift_nonzero) (use Suc in simp_all)
  moreover have "push_bit 1 (push_bit (32 - Suc k) s) = push_bit (32 - k) s"
    unfolding push_bit_push_bit using Suc.prems(1) by (intro arg_cong [where f = "\<lambda>n. push_bit n s"]) simp
  ultimately show ?case using Suc by auto
qed

text \<open>The byte swap, bit by bit.\<close>

lemma byte_masks:
  "(0xff000000 :: 64 word) = push_bit 24 (mask 8)" "(0xff0000 :: 64 word) = push_bit 16 (mask 8)"
  "(0xff00 :: 64 word) = push_bit 8 (mask 8)" "(0xff :: 64 word) = mask 8"
  by (simp_all add: mask_eq_exp_minus_1 push_bit_eq_mult)

lemma swap_bytes_or:
  "swap_bytes a = or (or (or (drop_bit 24 (and a (push_bit 24 (mask 8)))) (drop_bit 8 (and a (push_bit 16 (mask 8)))))
     (push_bit 8 (and a (push_bit 8 (mask 8))))) (push_bit 24 (and a (mask 8)))"
proof -
  have dis: "and x y = 0 \<Longrightarrow> x + y = or x y" for x y :: "64 word"
    by (rule disjunctive_add_eq_or)
  show ?thesis
    unfolding swap_bytes_def byte_masks
    by (subst dis, rule bit_word_eqI, force simp: bit_simps)+ (rule refl)
qed

lemma bit_swap_bytes:
  "n < 64 \<Longrightarrow> bit (swap_bytes a) n \<longleftrightarrow>
     (if n < 8 then bit a (n + 24) else if n < 16 then bit a (n + 8)
      else if n < 24 then bit a (n - 8) else if n < 32 then bit a (n - 24) else False)"
  by (auto simp: swap_bytes_or bit_simps add.commute)

lemma swap_bytes_low: "take_bit 32 (swap_bytes a) = swap_bytes a"
  by (rule bit_word_eqI) (auto simp: bit_simps bit_swap_bytes)

lemma swap_bytes_zero:
  assumes "swap_bytes (ucast (a :: 32 word)) = 0"
  shows "a = 0"
proof (rule bit_word_eqI)
  fix n assume n: "n < LENGTH(32)"
  have z: "\<not> bit (swap_bytes (ucast a)) m" for m using assms by simp
  show "bit a n = bit (0 :: 32 word) n"
    using n z [of "n - 24"] z [of "n - 8"] z [of "n + 8"] z [of "n + 24"]
    by (auto simp: bit_swap_bytes bit_simps split: if_splits)
qed

section \<open>Properties\<close>

text \<open>\<open>GetField\<close> with a positive number returns that one of the fields \<open>spilt_line2fields\<close> cuts the
  line into (cut to the size of its buffer), and \<open>NULL\<close> when the line has fewer; both use the fields
  of the specification \<open>tokens\<close>, the longest runs without a separator.\<close>

theorem GetField_splits:
  assumes "sp \<noteq> []" "0 < f"
  shows "GetField line (Some sp) f =
      (let ts = spilt_line2fields (Some line) (Some sp) (nat f)
       in if List.length ts = nat f then Some (take (LINE_BUF_LEN - 1) (last ts)) else None) \<and>
    spilt_line2fields (Some line) (Some sp) (nat f) = take (nat f) (tokens (\<lambda>c. c \<in> set sp) line)"
proof -
  have r: "raw_seps (Some sp) = (\<lambda>c. c \<in> set sp)" by (simp add: raw_seps_def fun_eq_iff)
  have s: "seps (Some sp) = (\<lambda>c. c \<in> set sp)" using assms(1) by (cases sp) (simp_all add: seps_def fun_eq_iff)
  let ?ts = "tokens (\<lambda>c. c \<in> set sp) line"
  have l: "last (take (nat f) ?ts) = ?ts ! (nat f - 1)" if "nat f \<le> List.length ?ts"
  proof -
    have "take (nat f) ?ts \<noteq> []" using that assms(2) by auto
    then show ?thesis using that by (simp add: last_conv_nth)
  qed
  have sl: "spilt_line2fields (Some line) (Some sp) (nat f) = take (nat f) ?ts"
    by (simp add: spilt_line2fields_def r spilt_loop_take)
  show ?thesis
    unfolding sl GetField_def s pick_field_tokens [OF assms(2)] Let_def using l
    by (auto simp: min_def)
qed

theorem GetField_splits_witness:
  "GetField ''a bc  d'' (Some '' '') 3 =
      (let ts = spilt_line2fields (Some ''a bc  d'') (Some '' '') (nat 3)
       in if List.length ts = nat 3 then Some (take (LINE_BUF_LEN - 1) (last ts)) else None)"
  by (rule GetField_splits [THEN conjunct1]) simp_all

text \<open>\<open>IsGoodMask\<close> shifts a 64-bit \<open>unsigned long\<close> in which the bits shifted out of the lower half
  never get lost: it accepts the mask \<open>0.0.0.0\<close> and refuses every other, \<open>255.255.255.0\<close> included.\<close>

theorem IsGoodMask_only_zero:
  "IsGoodMask inet_addr (Some s) \<longleftrightarrow> inet_addr s = 0"
proof -
  let ?w = "swap_bytes (ucast (inet_addr s))"
  show ?thesis
  proof (cases "inet_addr s = 0")
    case True
    have "swap_bytes 0 = 0" by (rule bit_word_eqI) (simp add: bit_swap_bytes)
    then have "mask_loop 33 ?w" using True by (simp add: numeral_eq_Suc)
    then show ?thesis using True by (simp add: IsGoodMask_def INADDR_NONE_def)
  next
    case False
    then have "?w \<noteq> 0" using swap_bytes_zero by blast
    then have "\<not> mask_loop (Suc 32) (push_bit (32 - 32) ?w)"
      by (intro mask_loop_shifts swap_bytes_low) simp_all
    then have "\<not> mask_loop 33 ?w" by (simp add: eval_nat_numeral)
    then show ?thesis using False by (simp add: IsGoodMask_def Let_def)
  qed
qed

text \<open>\<open>safecat\<close> on a string that fits its array appends when the result still fits with its
  terminator and answers \<open>NULL\<close> otherwise; it never writes past the array.\<close>

theorem safecat_bounded:
  assumes "int (List.length t) < len" "len < 2 ^ 31" "List.length s < 2 ^ 63"
  shows "safecat (Some t) (Some s) len =
    Some (if int (List.length t + List.length s) < len then Some (t @ s) else None)"
proof -
  define k where "k = len - 1 - int (List.length t)"
  have u: "(word_of_int (len - 1) :: 64 word) - of_nat (List.length t) = word_of_int k"
    by (simp add: k_def)
  have "uint (word_of_int k :: 64 word) = k"
    unfolding uint_word_of_int
    by (rule mod_pos_pos_trivial) (use assms in \<open>simp_all add: k_def\<close>)
  moreover have "uint (of_nat (List.length s) :: 64 word) = int (List.length s)"
    using assms(3) by (simp add: unsigned_of_nat take_bit_nat_eq_self)
  ultimately have "(word_of_int k :: 64 word) < of_nat (List.length s) \<longleftrightarrow> k < int (List.length s)"
    by (simp add: word_less_def)
  then show ?thesis unfolding safecat_def u by (auto simp: k_def)
qed

theorem safecat_bounded_witness:
  "safecat (Some ''ab'') (Some ''cde'') 6 = Some (Some ''abcde'') \<and> safecat (Some ''ab'') (Some ''cde'') 5 = Some None"
  using safecat_bounded [of "''ab''" 6 "''cde''"] safecat_bounded [of "''ab''" 5 "''cde''"] by simp

end
