(* ===== verification/LibFileLines.thy ===== *)
theory LibFileLines imports LibFile begin

text \<open>
  \<open>Server/Lib/lib-file.c\<close>, the part that works on files: reading and editing a text file line by
  line, and the lock with a time-out. A file is the string of its characters, a stream is what is
  left to read. Files that exist can be read and written, apart from \<open>open\<close> and \<open>fopen\<close> calls that the
  system refuses, whose outcomes the state lists. The specification of the editing functions is a
  list of lines.
\<close>

section \<open>The file system\<close>

record fsys =
  files :: "string \<Rightarrow> string option"
  deny :: "bool list"

text \<open>The longest path \<open>sprintf\<close> may build in the array \<open>tmpname\<close>.\<close>

definition PATH_MAX :: nat where "PATH_MAX = 4096"

definition refused :: "fsys \<Rightarrow> bool \<times> fsys" where
  "refused fs = (case deny fs of [] \<Rightarrow> (False, fs) | d # ds \<Rightarrow> (d, fs\<lparr>deny := ds\<rparr>))"

definition put_file :: "string \<Rightarrow> string option \<Rightarrow> fsys \<Rightarrow> fsys" where
  "put_file name c fs = fs\<lparr>files := (files fs)(name := c)\<rparr>"

text \<open>\<open>open\<close> with \<open>O_CREAT | O_TRUNC\<close>, and \<open>fopen\<close> of a file that must exist: is it open, what is in it.\<close>

definition open_trunc :: "string \<Rightarrow> fsys \<Rightarrow> bool \<times> fsys" where
  "open_trunc name fs = (let (no, fs) = refused fs in if no then (False, fs) else (True, put_file name (Some []) fs))"

definition fopen_old :: "string \<Rightarrow> fsys \<Rightarrow> string option \<times> fsys" where
  "fopen_old name fs = (let (no, fs) = refused fs in if no then (None, fs) else (files fs name, fs))"

section \<open>Streams\<close>

text \<open>\<open>fgets\<close> into an array of \<open>LINE_BUF_LEN\<close> bytes: up to the end of the line, or until the array is full.\<close>

definition fgets :: "string \<Rightarrow> (string \<times> string) option" where
  "fgets s =
     (if s = [] then None
      else
        let n = min (LINE_BUF_LEN - 1) (Suc (List.length (takeWhile (\<lambda>c. c \<noteq> NL) s)))
        in Some (take n s, drop n s))"

lemma fgets_shorter: "fgets s = Some (l, r) \<Longrightarrow> List.length r < List.length s"
  by (auto simp: fgets_def Let_def LINE_BUF_LEN_def split: if_splits)

fun skip_lines :: "nat \<Rightarrow> string \<Rightarrow> bool \<times> string" where
  "skip_lines 0 s = (True, s)"
| "skip_lines (Suc k) s = (case fgets s of None \<Rightarrow> (False, s) | Some (_, r) \<Rightarrow> skip_lines k r)"

definition FileToLine :: "int \<Rightarrow> string \<Rightarrow> bool \<times> string" where
  "FileToLine line s = skip_lines (nat (line - 1)) s"

text \<open>What \<open>GetLine\<close> makes of the line it returns: cut at its end, blanks removed on both sides.\<close>

definition clean_line :: "string \<Rightarrow> string" where
  "clean_line buf =
     dropWhile (\<lambda>c. IsSpace (code c))
       (rev (dropWhile (\<lambda>c. IsSpace (code c) \<or> IsEOL (code c))
          (rev (takeWhile (\<lambda>c. \<not> IsEOL (code c)) buf))))"

function GetLine :: "string \<Rightarrow> (string \<times> string) option" where
  "GetLine s =
     (case fgets s of
        None \<Rightarrow> None
      | Some (line, r) \<Rightarrow>
          if IsNoteLine line \<or> IsEOL (code (hd line)) \<or> clean_line line = [] then GetLine r
          else Some (clean_line line, r))"
  by auto
termination by (relation "measure List.length") (auto dest: fgets_shorter)

declare GetLine.simps [simp del]

lemma GetLine_shorter: "GetLine s = Some (p, r) \<Longrightarrow> List.length r < List.length s"
proof (induction s rule: GetLine.induct)
  case (1 s)
  obtain l r1 where fg: "fgets s = Some (l, r1)"
    using "1.prems" by (subst (asm) GetLine.simps) (auto split: option.splits)
  have lt: "List.length r1 < List.length s" using fg by (rule fgets_shorter)
  have g: "GetLine s = (if IsNoteLine l \<or> IsEOL (code (hd l)) \<or> clean_line l = [] then GetLine r1
      else Some (clean_line l, r1))"
    by (subst GetLine.simps) (simp add: fg)
  show ?case
  proof (cases "IsNoteLine l \<or> IsEOL (code (hd l)) \<or> clean_line l = []")
    case True
    then have "GetLine r1 = Some (p, r)" using "1.prems" g by argo
    then show ?thesis using "1.IH" [OF fg refl True] lt by simp
  next
    case False
    then show ?thesis using "1.prems" g lt by simp
  qed
qed

text \<open>The number of the line that ends where \<open>k\<close> characters are left.\<close>

function line_ending :: "nat \<Rightarrow> string \<Rightarrow> int \<Rightarrow> int" where
  "line_ending k s i =
     (case fgets s of
        None \<Rightarrow> i
      | Some (_, r) \<Rightarrow> if List.length r = k then i + 1 else line_ending k r (i + 1))"
  by auto
termination by (relation "measure (\<lambda>(k, s, i). List.length s)") (auto dest: fgets_shorter)

declare line_ending.simps [simp del]

function field_line :: "string \<Rightarrow> (string \<Rightarrow> bool) \<Rightarrow> string \<Rightarrow> int" where
  "field_line all found s =
     (case GetLine s of
        None \<Rightarrow> 0
      | Some (p, r) \<Rightarrow> if found p then line_ending (List.length r) all 0 else field_line all found r)"
  by auto
termination by (relation "measure (\<lambda>(all, found, s). List.length s)") (auto dest: GetLine_shorter)

declare field_line.simps [simp del]

section \<open>Queries\<close>

definition FileExist :: "string \<Rightarrow> fsys \<Rightarrow> bool" where
  "FileExist fname fs = (files fs fname \<noteq> None)"

definition IsInFileField :: "string \<Rightarrow> string \<Rightarrow> int \<Rightarrow> fsys \<Rightarrow> int \<times> fsys" where
  "IsInFileField fname str f fs =
     (let (fp, fs) = fopen_old fname fs
      in case fp of None \<Rightarrow> (0, fs)
         | Some s \<Rightarrow>
             (field_line s (\<lambda>p. if f = - 2 then p = str else GetField p None f = Some str) s, fs))"

definition IsInFileField2 :: "string \<Rightarrow> string \<Rightarrow> string option \<Rightarrow> int \<Rightarrow> fsys \<Rightarrow> int \<times> fsys" where
  "IsInFileField2 fname str sp f fs =
     (let (fp, fs) = fopen_old fname fs
      in case fp of None \<Rightarrow> (0, fs)
         | Some s \<Rightarrow> (field_line s (\<lambda>p. GetField p sp f = Some str) s, fs))"

function count_gets :: "string \<Rightarrow> int \<Rightarrow> int" where
  "count_gets s n = (case fgets s of None \<Rightarrow> n | Some (_, r) \<Rightarrow> count_gets r (n + 1))"
  by auto
termination by (relation "measure (\<lambda>(s, n). List.length s)") (auto dest: fgets_shorter)

declare count_gets.simps [simp del]

definition CountLine :: "string \<Rightarrow> fsys \<Rightarrow> int \<times> fsys" where
  "CountLine fn fs =
     (let (fp, fs) = fopen_old fn fs
      in case fp of None \<Rightarrow> (- 1, fs) | Some s \<Rightarrow> (count_gets s 0, fs))"

text \<open>\<open>p\<close> is static: without a turn of the loop it is still the last line an earlier call read.\<close>

fun read_lines :: "nat \<Rightarrow> string \<Rightarrow> string option \<Rightarrow> string option option" where
  "read_lines 0 s p = Some p"
| "read_lines (Suc k) s p = (case fgets s of None \<Rightarrow> None | Some (l, r) \<Rightarrow> read_lines k r (Some l))"

definition get_word_of_line ::
  "string option \<Rightarrow> string \<Rightarrow> string option \<Rightarrow> int \<Rightarrow> int \<Rightarrow> fsys \<Rightarrow> string option \<times> fsys"
where
  "get_word_of_line last_p filename spchar ln f fs =
     (let (fp, fs) = fopen_old filename fs
      in case fp of None \<Rightarrow> (None, fs)
         | Some s \<Rightarrow>
             (case read_lines (nat ln) s last_p of
                None \<Rightarrow> (None, fs)
              | Some None \<Rightarrow> (None, fs)
              | Some (Some p) \<Rightarrow> (GetField p spchar f, fs)))"

function words_lines :: "(char \<Rightarrow> bool) \<Rightarrow> string option list \<Rightarrow> string \<Rightarrow> int \<Rightarrow> int list \<Rightarrow> int list" where
  "words_lines sp argv s n ln =
     (if List.length ln < 1023
      then (case fgets s of
              None \<Rightarrow> ln
            | Some (line, r) \<Rightarrow>
                words_lines sp argv r (n + 1) (if match_words sp argv line then ln @ [n + 1] else ln))
      else ln)"
  by auto
termination by (relation "measure (\<lambda>(sp, argv, s, n, ln). List.length s)") (auto dest: fgets_shorter)

declare words_lines.simps [simp del]

definition get_line_of_words ::
  "string \<Rightarrow> string option \<Rightarrow> string option list \<Rightarrow> fsys \<Rightarrow> int list option \<times> fsys"
where
  "get_line_of_words filename spc argv fs =
     (let (fp, fs) = fopen_old filename fs
      in case fp of None \<Rightarrow> (None, fs) | Some s \<Rightarrow> (Some (words_lines (raw_seps spc) argv s 0 []), fs))"

section \<open>Copying\<close>

text \<open>
  The loop of \<open>FileCP\<close> over the values the coming \<open>read\<close> and \<open>write\<close> calls return. \<open>len\<close> is a \<open>size_t\<close>,
  so that \<open>len < 0\<close> never holds, and \<open>write\<close>'s answer is converted to the same type.
\<close>

definition to_size :: "int \<Rightarrow> 64 word" where
  "to_size r = word_of_int r"

partial_function (option) cp_loop :: "(nat \<Rightarrow> int) \<Rightarrow> (nat \<Rightarrow> int) \<Rightarrow> nat \<Rightarrow> bool option" where
  "cp_loop rd wr i =
     (if to_size (rd i) = 0 then Some True
      else if to_size (wr i) \<noteq> to_size (rd i) then Some False
      else cp_loop rd wr (Suc i))"

text \<open>The effect on the files when the reads and writes succeed.\<close>

definition FileCP :: "string \<Rightarrow> string \<Rightarrow> fsys \<Rightarrow> bool \<times> fsys" where
  "FileCP src dst fs =
     (case files fs src of
        None \<Rightarrow>
          let (_, fs) = open_trunc src fs;
              (_, fs) = open_trunc dst fs
          in (True, fs)
      | Some _ \<Rightarrow>
          let (no, fs) = refused fs
          in if no then (False, fs)
          else
            let (ok, fs) = open_trunc dst fs
            in if \<not> ok then (False, fs)
            else (True, put_file dst (files fs src) fs))"

section \<open>Editing\<close>

text \<open>
  The three functions that rewrite a file share their beginning: copy it, open the copy, remove
  its name, find the line and cut the file in front of it. The result is the text before the line
  and what is left of the copy.
\<close>

datatype cut_result = CutFailed | Cut string string

definition cut_at_line :: "string \<Rightarrow> int \<Rightarrow> fsys \<Rightarrow> (cut_result \<times> fsys) option" where
  "cut_at_line fname ln fs = do {
     _ \<leftarrow> lib_assert (List.length fname + 3 < PATH_MAX);
     let tmpname = fname @ ''tmp'';
     let (ok, fs) = FileCP fname tmpname fs;
     if \<not> ok then Some (CutFailed, fs)
     else
       let (tmp, fs) = fopen_old tmpname fs
       in case tmp of None \<Rightarrow> Some (CutFailed, fs)
          | Some t \<Rightarrow>
              let fs = put_file tmpname None fs;
                  rest = snd (FileToLine ln t);
                  before = take (List.length t - List.length rest) t;
                  fs = (if files fs fname = None then fs else put_file fname (Some before) fs)
              in Some (Cut before rest, fs) }"

text \<open>\<open>fopen(fname, "a")\<close> and what is printed at its end.\<close>

definition append_to :: "string \<Rightarrow> string \<Rightarrow> fsys \<Rightarrow> bool \<times> fsys" where
  "append_to fname text fs =
     (let (no, fs) = refused fs
      in if no then (False, fs)
      else (True, put_file fname (Some ((case files fs fname of None \<Rightarrow> [] | Some c \<Rightarrow> c) @ text)) fs))"

definition InsertLine :: "string \<Rightarrow> string \<Rightarrow> int \<Rightarrow> fsys \<Rightarrow> (bool \<times> fsys) option" where
  "InsertLine fname line ln fs = do {
     (c, fs) \<leftarrow> cut_at_line fname ln fs;
     case c of CutFailed \<Rightarrow> Some (False, fs)
     | Cut _ rest \<Rightarrow> Some (append_to fname (line @ [NL] @ rest) fs) }"

definition DeleteSomeLine :: "string \<Rightarrow> int \<Rightarrow> int \<Rightarrow> fsys \<Rightarrow> (bool \<times> fsys) option" where
  "DeleteSomeLine fname ln num fs = do {
     (c, fs) \<leftarrow> cut_at_line fname ln fs;
     case c of CutFailed \<Rightarrow> Some (False, fs)
     | Cut _ rest \<Rightarrow>
         if num < 0 then Some (True, fs)
         else Some (append_to fname (snd (skip_lines (nat num) rest)) fs) }"

definition DeleteLine :: "string \<Rightarrow> int \<Rightarrow> fsys \<Rightarrow> (bool \<times> fsys) option" where
  "DeleteLine fname ln fs = DeleteSomeLine fname ln 1 fs"

definition ReplaceLine :: "string \<Rightarrow> string \<Rightarrow> int \<Rightarrow> fsys \<Rightarrow> (bool \<times> fsys) option" where
  "ReplaceLine fname line ln fs = do {
     (c, fs) \<leftarrow> cut_at_line fname ln fs;
     case c of CutFailed \<Rightarrow> Some (False, fs)
     | Cut _ rest \<Rightarrow> Some (append_to fname (line @ [NL] @ snd (skip_lines 1 rest)) fs) }"

text \<open>
  \<open>AppendLine\<close> reads the last character, or \<open>EOF\<close> (\<open>-1\<close>) from an empty file, which is not the end of a
  line. Without a name the call of \<open>fopen\<close> does not come back.
\<close>

definition AppendLine :: "string option \<Rightarrow> string \<Rightarrow> fsys \<Rightarrow> (bool \<times> fsys) option" where
  "AppendLine fname line fs = do {
     name \<leftarrow> fname;
     let (fp, fs) = fopen_old name fs;
     case fp of None \<Rightarrow> Some (False, fs)
     | Some s \<Rightarrow>
         let c = (if s = [] then - 1 else code (last s));
             sep = (if IsEOL c then [] else [NL])
         in Some (True, put_file name (Some (s @ sep @ line @ [NL])) fs) }"

function keep_lines :: "(string \<Rightarrow> bool) \<Rightarrow> string \<Rightarrow> string" where
  "keep_lines P s = (case fgets s of None \<Rightarrow> [] | Some (line, r) \<Rightarrow> (if P line then line else []) @ keep_lines P r)"
  by auto
termination by (relation "measure (\<lambda>(P, s). List.length s)") (auto dest: fgets_shorter)

declare keep_lines.simps [simp del]

text \<open>The temporary file is opened for appending: what it held before comes first.\<close>

definition delete_lines_of_words ::
  "string \<Rightarrow> string option \<Rightarrow> string option list \<Rightarrow> fsys \<Rightarrow> (int \<times> fsys) option"
where
  "delete_lines_of_words filename spc argv fs = do {
     _ \<leftarrow> lib_assert (List.length filename + 3 < PATH_MAX);
     let tmpname = filename @ ''tmp'';
     let (fp, fs) = fopen_old filename fs;
     case fp of None \<Rightarrow> Some (1, fs)
     | Some s \<Rightarrow>
         let (ok, fs) = append_to tmpname (keep_lines (\<lambda>line. \<not> match_words (raw_seps spc) argv line) s) fs
         in if \<not> ok then Some (1, fs)
         else Some (0, put_file tmpname None (put_file filename (files fs tmpname) fs)) }"

section \<open>The lock with a time-out\<close>

text \<open>
  What \<open>fcntl(F_SETLKW)\<close> can answer: the lock, an interruption at some time, or another error. The
  loop waits again after an interruption until \<open>die_time\<close> has come.
\<close>

datatype lock_answer = Locked | Interrupted int | LockError

definition WAIT_FOREVER :: int where "WAIT_FOREVER = - 1"
definition NO_WAIT :: int where "NO_WAIT = 0"

fun lock_wait :: "int \<Rightarrow> int \<Rightarrow> lock_answer list \<Rightarrow> int option" where
  "lock_wait timeout die_time [] = None"
| "lock_wait timeout die_time (Locked # as) = Some 0"
| "lock_wait timeout die_time (LockError # as) = Some (- 1)"
| "lock_wait timeout die_time (Interrupted t # as) =
     (if timeout = WAIT_FOREVER then lock_wait timeout die_time as
      else if t < die_time then lock_wait timeout die_time as
      else Some (- 1))"

definition lock_byte :: "int \<Rightarrow> int \<Rightarrow> lock_answer list \<Rightarrow> int option" where
  "lock_byte timeout now answers =
     (if timeout = NO_WAIT
      then (case answers of Locked # _ \<Rightarrow> Some 0 | _ # _ \<Rightarrow> Some (- 1) | [] \<Rightarrow> None)
      else lock_wait timeout (now + timeout) answers)"

text \<open>\<open>fd\<close> is the descriptor the system hands out.\<close>

definition init_lock :: "int \<Rightarrow> string \<Rightarrow> fsys \<Rightarrow> int \<times> fsys" where
  "init_lock fd lock_file fs = (let (ok, fs) = open_trunc lock_file fs in (if ok then fd else - 1, fs))"

section \<open>Files as lists of lines\<close>

definition whole :: "string \<Rightarrow> bool" where
  "whole l \<longleftrightarrow> l \<noteq> [] \<and> last l = NL \<and> NL \<notin> set (butlast l) \<and> List.length l < LINE_BUF_LEN"

lemma fgets_whole:
  assumes "whole l"
  shows "fgets (l @ r) = Some (l, r)"
proof -
  obtain x where l: "l = x @ [NL]" "NL \<notin> set x" "List.length x < LINE_BUF_LEN - 1"
  proof
    show "l = butlast l @ [NL]" using assms append_butlast_last_id [of l] by (simp add: whole_def)
  qed (use assms in \<open>auto simp: whole_def LINE_BUF_LEN_def\<close>)
  have "takeWhile (\<lambda>c. c \<noteq> NL) (l @ r) = x"
  proof -
    have "takeWhile (\<lambda>c. c \<noteq> NL) (x @ NL # r) = x" using l(2) by (subst takeWhile_append2) auto
    then show ?thesis using l(1) by simp
  qed
  then show ?thesis using l by (simp add: fgets_def)
qed

lemma fgets_Nil [simp]: "fgets [] = None"
  by (simp add: fgets_def)

lemma skip_lines_whole:
  "list_all whole ls \<Longrightarrow> skip_lines k (concat ls) = (k \<le> List.length ls, concat (drop k ls))"
proof (induction k arbitrary: ls)
  case (Suc k)
  then show ?case by (cases ls) (simp_all add: fgets_whole)
qed simp

lemma put_file_simps [simp]:
  "files (put_file n c fs) = (files fs)(n := c)" "deny (put_file n c fs) = deny fs"
  by (simp_all add: put_file_def)

lemma no_refusal [simp]: "deny fs = [] \<Longrightarrow> refused fs = (False, fs)"
  by (simp add: refused_def)

lemma name_tmp [simp]: "name @ ''tmp'' \<noteq> name" "name \<noteq> name @ ''tmp''"
  by simp_all

text \<open>Cutting a file in front of a line, when nothing is refused.\<close>

lemma cut_at_line_whole:
  assumes f: "files fs fname = Some (concat ls)" and w: "list_all whole ls" and d: "deny fs = []"
    and n: "List.length fname + 3 < PATH_MAX" and ln: "1 \<le> ln" "nat ln \<le> Suc (List.length ls)"
  shows "\<exists>fs'. cut_at_line fname ln fs =
      Some (Cut (concat (take (nat ln - 1) ls)) (concat (drop (nat ln - 1) ls)), fs') \<and>
    files fs' = (files fs)(fname @ ''tmp'' := None, fname := Some (concat (take (nat ln - 1) ls))) \<and> deny fs' = []"
proof -
  let ?k = "nat ln - 1" and ?t = "concat ls"
  have nl: "nat (ln - 1) = ?k" using ln by simp
  have sk: "snd (FileToLine ln ?t) = concat (drop ?k ls)"
    by (simp add: FileToLine_def nl skip_lines_whole [OF w])
  have cat: "concat ls = concat (take ?k ls) @ concat (drop ?k ls)"
    by (metis append_take_drop_id concat_append)
  have "take (List.length ?t - List.length (concat (drop ?k ls))) ?t = concat (take ?k ls)"
    by (subst (1 2) cat) simp
  then show ?thesis
    using f d n by (simp add: cut_at_line_def FileCP_def open_trunc_def fopen_old_def Let_def sk fun_upd_twist)
qed

lemma append_to_ok:
  "deny fs = [] \<Longrightarrow> files fs fname = Some c \<Longrightarrow> append_to fname t fs = (True, put_file fname (Some (c @ t)) fs)"
  by (simp add: append_to_def)

lemma ReplaceLine_whole:
  assumes "files fs fname = Some (concat ls)" "list_all whole ls" "deny fs = []"
    "List.length fname + 3 < PATH_MAX" "1 \<le> ln" "nat ln \<le> Suc (List.length ls)"
  shows "\<exists>fs'. ReplaceLine fname line ln fs = Some (True, fs') \<and> deny fs' = [] \<and>
    files fs' = (files fs)(fname @ ''tmp'' := None,
      fname := Some (concat (take (nat ln - 1) ls @ (line @ [NL]) # drop (nat ln) ls)))"
proof -
  have w: "list_all whole (drop (nat ln - 1) ls)" using assms(2) by (auto simp: list_all_iff dest: in_set_dropD)
  have d: "drop 1 (drop (nat ln - 1) ls) = drop (nat ln) ls" using assms(5) by simp
  have "snd (skip_lines 1 (concat (drop (nat ln - 1) ls))) = concat (drop (nat ln) ls)"
    unfolding skip_lines_whole [OF w] d by simp
  then show ?thesis
    using cut_at_line_whole [OF assms] by (auto simp: ReplaceLine_def append_to_ok)
qed

lemma InsertLine_whole:
  assumes "files fs fname = Some (concat ls)" "list_all whole ls" "deny fs = []"
    "List.length fname + 3 < PATH_MAX" "1 \<le> ln" "nat ln \<le> Suc (List.length ls)"
  shows "\<exists>fs'. InsertLine fname line ln fs = Some (True, fs') \<and> deny fs' = [] \<and>
    files fs' = (files fs)(fname @ ''tmp'' := None,
      fname := Some (concat (take (nat ln - 1) ls @ (line @ [NL]) # drop (nat ln - 1) ls)))"
  using cut_at_line_whole [OF assms] by (auto simp: InsertLine_def append_to_ok)

lemma DeleteSomeLine_whole:
  assumes "files fs fname = Some (concat ls)" "list_all whole ls" "deny fs = []"
    "List.length fname + 3 < PATH_MAX" "1 \<le> ln" "nat ln \<le> Suc (List.length ls)" "0 \<le> num"
  shows "\<exists>fs'. DeleteSomeLine fname ln num fs = Some (True, fs') \<and> deny fs' = [] \<and>
    files fs' = (files fs)(fname @ ''tmp'' := None,
      fname := Some (concat (take (nat ln - 1) ls @ drop (nat ln - 1 + nat num) ls)))"
proof -
  have w: "list_all whole (drop (nat ln - 1) ls)" using assms(2) by (auto simp: list_all_iff dest: in_set_dropD)
  have "snd (skip_lines (nat num) (concat (drop (nat ln - 1) ls))) = concat (drop (nat ln - 1 + nat num) ls)"
    unfolding skip_lines_whole [OF w] by (simp add: add.commute)
  then show ?thesis
    using cut_at_line_whole [OF assms(1-6)] assms(7) by (auto simp: DeleteSomeLine_def append_to_ok)
qed

section \<open>Finding a line\<close>

definition has_text :: "string \<Rightarrow> bool" where
  "has_text l \<longleftrightarrow> \<not> (IsNoteLine l \<or> IsEOL (code (hd l)) \<or> clean_line l = [])"

lemma GetLine_whole:
  "whole l \<Longrightarrow> GetLine (l @ r) = (if has_text l then Some (clean_line l, r) else GetLine r)"
  by (subst GetLine.simps) (simp add: fgets_whole has_text_def)

lemma GetLine_Nil [simp]: "GetLine [] = None"
  by (subst GetLine.simps) (simp add: fgets_def)

lemma line_ending_whole:
  "list_all whole us \<Longrightarrow> us \<noteq> [] \<Longrightarrow>
   line_ending (List.length r) (concat us @ r) i = i + int (List.length us)"
proof (induction us arbitrary: i)
  case (Cons u us)
  show ?case
  proof (cases us)
    case Nil
    then show ?thesis using Cons.prems by (subst line_ending.simps) (simp add: fgets_whole)
  next
    case (Cons v vs)
    then have "0 < List.length (concat us)" using Cons.prems(1) by (auto simp: whole_def)
    then show ?thesis
      using Cons.IH [of "i + 1"] Cons.prems(1) Cons
      by (subst line_ending.simps) (simp add: fgets_whole)
  qed
qed simp

definition line_index :: "(string \<Rightarrow> bool) \<Rightarrow> string list \<Rightarrow> nat" where
  "line_index found ls = List.length (takeWhile (\<lambda>l. \<not> (has_text l \<and> found (clean_line l))) ls)"

lemma field_line_same: "GetLine s = GetLine s' \<Longrightarrow> field_line all found s = field_line all found s'"
  by (subst (1 2) field_line.simps) simp

lemma field_line_whole:
  "list_all whole (us @ ls) \<Longrightarrow>
   field_line (concat (us @ ls)) found (concat ls) =
     (if line_index found ls < List.length ls then int (List.length us + line_index found ls) + 1 else 0)"
proof (induction ls arbitrary: us)
  case Nil
  show ?case by (subst field_line.simps) (simp add: line_index_def)
next
  case (Cons l ls)
  have w: "whole l" using Cons.prems by simp
  have ih: "field_line (concat (us @ l # ls)) found (concat ls) =
      (if line_index found ls < List.length ls then int (Suc (List.length us) + line_index found ls) + 1 else 0)"
    using Cons.IH [of "us @ [l]"] Cons.prems by simp
  show ?case
  proof (cases "has_text l")
    case False
    then have "field_line (concat (us @ l # ls)) found (concat (l # ls)) =
        field_line (concat (us @ l # ls)) found (concat ls)"
      by (intro field_line_same) (simp add: GetLine_whole [OF w])
    then show ?thesis using ih False by (simp add: line_index_def)
  next
    case True
    show ?thesis
    proof (cases "found (clean_line l)")
      case f: True
      have "line_ending (List.length (concat ls)) (concat (us @ [l]) @ concat ls) 0 = int (List.length (us @ [l]))"
        using line_ending_whole [of "us @ [l]" "concat ls" 0] Cons.prems by simp
      then show ?thesis
        using True f by (subst field_line.simps) (simp add: GetLine_whole [OF w] line_index_def)
    next
      case False
      then show ?thesis
        using True ih by (subst field_line.simps) (simp add: GetLine_whole [OF w] line_index_def)
    qed
  qed
qed

section \<open>Properties\<close>

text \<open>On a file of whole lines each shorter than the line buffer, \<open>InsertLine\<close>, \<open>ReplaceLine\<close> and
  \<open>DeleteSomeLine\<close> do to the list of lines what their names say, return true, and touch no other file
  than the temporary copy, which is gone afterwards.\<close>

theorem edit_lines_ok:
  assumes "files fs fname = Some (concat ls)" "list_all whole ls" "deny fs = []"
    "List.length fname + 3 < PATH_MAX" "1 \<le> ln" "nat ln \<le> Suc (List.length ls)" "0 \<le> num"
  shows "\<exists>fs1 fs2 fs3.
    InsertLine fname line ln fs = Some (True, fs1) \<and>
    ReplaceLine fname line ln fs = Some (True, fs2) \<and>
    DeleteSomeLine fname ln num fs = Some (True, fs3) \<and>
    files fs1 = (files fs)(fname @ ''tmp'' := None,
      fname := Some (concat (take (nat ln - 1) ls @ (line @ [NL]) # drop (nat ln - 1) ls))) \<and>
    files fs2 = (files fs)(fname @ ''tmp'' := None,
      fname := Some (concat (take (nat ln - 1) ls @ (line @ [NL]) # drop (nat ln) ls))) \<and>
    files fs3 = (files fs)(fname @ ''tmp'' := None,
      fname := Some (concat (take (nat ln - 1) ls @ drop (nat ln - 1 + nat num) ls)))"
  using InsertLine_whole [OF assms(1-6)] ReplaceLine_whole [OF assms(1-6)] DeleteSomeLine_whole [OF assms]
  by blast

definition fs_demo :: fsys where
  "fs_demo = \<lparr>files = (\<lambda>n. if n = ''f'' then Some (concat [[CHR ''a'', NL], [CHR ''b'', NL]]) else None), deny = []\<rparr>"

theorem edit_lines_ok_witness:
  "\<exists>fs1 fs2 fs3.
    InsertLine ''f'' ''x'' 2 fs_demo = Some (True, fs1) \<and>
    ReplaceLine ''f'' ''x'' 2 fs_demo = Some (True, fs2) \<and>
    DeleteSomeLine ''f'' 2 1 fs_demo = Some (True, fs3) \<and>
    files fs1 ''f'' = Some [CHR ''a'', NL, CHR ''x'', NL, CHR ''b'', NL] \<and>
    files fs2 ''f'' = Some [CHR ''a'', NL, CHR ''x'', NL] \<and> files fs3 ''f'' = Some [CHR ''a'', NL]"
proof -
  have "files fs_demo ''f'' = Some (concat [[CHR ''a'', NL], [CHR ''b'', NL]])" "deny fs_demo = []"
    by (simp_all add: fs_demo_def)
  then show ?thesis
    using edit_lines_ok [of fs_demo "''f''" "[[CHR ''a'', NL], [CHR ''b'', NL]]" 2 1 "''x''"]
    by (auto simp: whole_def LINE_BUF_LEN_def PATH_MAX_def eval_nat_numeral)
qed

text \<open>\<open>FileCP\<close> tests the answer of \<open>read\<close> in an unsigned variable: when \<open>read\<close> and the \<open>write\<close> it then
  attempts keep failing, the copy never comes to an end, where a failure was to be reported.\<close>

theorem FileCP_read_error_loops:
  assumes "\<forall>i \<ge> n. rd i = - 1 \<and> wr i = - 1"
  shows "cp_loop rd wr n = None"
proof -
  have ne: "to_size (- 1) \<noteq> 0" by (simp add: to_size_def)
  have never: "\<not> (rd' = rd \<and> wr' = wr \<and> n \<le> i)" if c: "cp_loop rd' wr' i = Some b" for rd' wr' i b
  proof (rule cp_loop.raw_induct [OF _ c, where P = "\<lambda>rd' wr' i b. \<not> (rd' = rd \<and> wr' = wr \<and> n \<le> i)"])
    fix f rd' wr' i b
    assume IH: "\<And>rd' wr' i b. f rd' wr' i = Some b \<Longrightarrow> \<not> (rd' = rd \<and> wr' = wr \<and> n \<le> i)"
      and r: "(if to_size (rd' i) = 0 then Some True
        else if to_size (wr' i) \<noteq> to_size (rd' i) then Some False else f rd' wr' (Suc i)) = Some b"
    show "\<not> (rd' = rd \<and> wr' = wr \<and> n \<le> i)"
    proof
      assume a: "rd' = rd \<and> wr' = wr \<and> n \<le> i"
      have "f rd wr (Suc i) = Some b" using r a assms ne by auto
      then show False using IH [of rd wr "Suc i" b] a by simp
    qed
  qed
  then show ?thesis by (cases "cp_loop rd wr n") blast+
qed

theorem FileCP_read_error_loops_witness: "cp_loop (\<lambda>_. - 1) (\<lambda>_. - 1) 0 = None"
  by (rule FileCP_read_error_loops) simp

end
