(* ===== verification/LibConfig.thy ===== *)
theory LibConfig imports LibFileLines begin

text \<open>
  \<open>Server/Lib/lib-config.c\<close>: the configuration file of the servers, one "name value" line per parameter,
  with a table of names and defaults. Each call takes the lock file first.
\<close>

section \<open>The table\<close>

datatype config_type =
    GAS_IP | GAS_PORT | GAS_DEBUG_PORT | GAS_MAX_THREAD | GAS_MAX_CONN | GAS_ID
  | DBS_IP | DBS_PORT | DBS_DB_NAME | DBS_DB_USER | DBS_DB_PWD | DBS_DB_CONNECT
  | LGS_IP | LGS_PORT | AES_CRYPT_STRING

definition CONFIG_FILE :: string where "CONFIG_FILE = ''/gendo/conf/config.sys''"
definition CONFIG_LOCK_FILE :: string where "CONFIG_LOCK_FILE = ''/tmp/config.lock''"

type_synonym config_pacos = "config_type \<times> string \<times> string"

definition cfg_pacos :: "config_pacos list" where
  "cfg_pacos =
    [(GAS_IP, ''gas_ip'', ''127.0.0.1''),
     (GAS_PORT, ''gas_port'', ''8888''),
     (GAS_DEBUG_PORT, ''gas_debug_port'', ''8889''),
     (GAS_MAX_THREAD, ''gas_max_thread'', ''8''),
     (GAS_MAX_CONN, ''gas_max_connect'', ''1024''),
     (GAS_ID, ''gas_id'', ''1''),
     (DBS_IP, ''db_server_ip'', ''127.0.0.1''),
     (DBS_PORT, ''db_server_port'', ''3306''),
     (DBS_DB_NAME, ''db_server_dbname'', ''openvpn''),
     (DBS_DB_USER, ''db_server_user'', ''root''),
     (DBS_DB_PWD, ''db_server_pwd'', ''root''),
     (DBS_DB_CONNECT, ''db_server_connect'', ''20''),
     (LGS_IP, ''log_server_ip'', ''127.0.0.1''),
     (LGS_PORT, ''log_server_port'', ''8890''),
     (AES_CRYPT_STRING, ''AES_crypt_string'', ''1234567890-=][po'')]"

section \<open>The operations\<close>

text \<open>The result string, \<open>None\<close> when none is written. \<open>fd\<close> is the descriptor of the lock file.\<close>

fun config_get_loop :: "config_type \<Rightarrow> config_pacos list \<Rightarrow> fsys \<Rightarrow> (int \<times> string option \<times> fsys) option" where
  "config_get_loop k [] fs = Some (ERROR, None, fs)"
| "config_get_loop k ((i, name, default_val) # rest) fs =
     (if i = k
      then
        let (line, fs) = IsInFileField CONFIG_FILE name 1 fs
        in if line \<noteq> 0
        then (let (fp, fs) = fopen_old CONFIG_FILE fs
              in case fp of None \<Rightarrow> Some (ERROR, None, fs)
                 | Some s \<Rightarrow> do {
                     (p, _) \<leftarrow> GetLine (snd (FileToLine line s));
                     w \<leftarrow> vgetw p None 0 (int LINE_BUF_LEN);
                     Some (OK, w, fs) })
        else Some (OK, Some default_val, fs)
      else config_get_loop k rest fs)"

definition config_get :: "int \<Rightarrow> config_type \<Rightarrow> fsys \<Rightarrow> (int \<times> string option \<times> fsys) option" where
  "config_get fd k fs =
     (let (lock_fd, fs) = init_lock fd CONFIG_LOCK_FILE fs
      in if lock_fd < 0 then Some (ERROR, None, fs) else config_get_loop k cfg_pacos fs)"

text \<open>
  The editing functions return the C truth values \<open>1\<close> and \<open>0\<close>; what \<open>vsprintf\<close> prints into \<open>vbuf\<close> is the
  argument \<open>v\<close>. The two arrays have \<open>LINE_BUF_LEN\<close> bytes.
\<close>

definition c_bool :: "bool \<Rightarrow> int" where "c_bool b = (if b then 1 else 0)"

fun config_set_loop :: "config_type \<Rightarrow> string \<Rightarrow> config_pacos list \<Rightarrow> int \<Rightarrow> fsys \<Rightarrow> (int \<times> fsys) option" where
  "config_set_loop k v [] ret fs = Some (ret, fs)"
| "config_set_loop k v ((i, name, default_val) # rest) ret fs =
     (if i = k
      then do {
        _ \<leftarrow> lib_assert (List.length name + 1 + List.length v < LINE_BUF_LEN);
        let buf = name @ '' '' @ v;
        let (line, fs) = IsInFileField CONFIG_FILE name 1 fs;
        (b, fs) \<leftarrow> (if line \<noteq> 0 then ReplaceLine CONFIG_FILE buf line fs
                    else AppendLine (Some CONFIG_FILE) buf fs);
        config_set_loop k v rest (c_bool b) fs }
      else config_set_loop k v rest ret fs)"

definition config_set :: "int \<Rightarrow> config_type \<Rightarrow> string \<Rightarrow> fsys \<Rightarrow> (int \<times> fsys) option" where
  "config_set fd k v fs =
     (let (lock_fd, fs) = init_lock fd CONFIG_LOCK_FILE fs
      in if lock_fd < 0 then Some (ERROR, fs)
      else do {
        _ \<leftarrow> lib_assert (List.length v < LINE_BUF_LEN);
        (ret, fs) \<leftarrow> config_set_loop k v cfg_pacos ERROR fs;
        Some (if ret = 1 then OK else ret, fs) })"

fun config_remove_loop :: "config_type \<Rightarrow> config_pacos list \<Rightarrow> fsys \<Rightarrow> (int \<times> fsys) option" where
  "config_remove_loop k [] fs = Some (ERROR, fs)"
| "config_remove_loop k ((i, name, default_val) # rest) fs =
     (if i = k
      then
        let (line, fs) = IsInFileField CONFIG_FILE name 1 fs
        in if line \<noteq> 0
        then do { (b, fs) \<leftarrow> DeleteLine CONFIG_FILE line fs; Some (c_bool b, fs) }
        else config_remove_loop k rest fs
      else config_remove_loop k rest fs)"

definition config_remove :: "int \<Rightarrow> config_type \<Rightarrow> fsys \<Rightarrow> (int \<times> fsys) option" where
  "config_remove fd k fs =
     (let (lock_fd, fs) = init_lock fd CONFIG_LOCK_FILE fs
      in if lock_fd < 0 then Some (ERROR, fs)
      else do {
        (ret, fs) \<leftarrow> config_remove_loop k cfg_pacos fs;
        Some (if ret = 1 then OK else ret, fs) })"

section \<open>The table as a function\<close>

fun cfg_name :: "config_type \<Rightarrow> string" where
  "cfg_name GAS_IP = ''gas_ip''" | "cfg_name GAS_PORT = ''gas_port''"
| "cfg_name GAS_DEBUG_PORT = ''gas_debug_port''" | "cfg_name GAS_MAX_THREAD = ''gas_max_thread''"
| "cfg_name GAS_MAX_CONN = ''gas_max_connect''" | "cfg_name GAS_ID = ''gas_id''"
| "cfg_name DBS_IP = ''db_server_ip''" | "cfg_name DBS_PORT = ''db_server_port''"
| "cfg_name DBS_DB_NAME = ''db_server_dbname''" | "cfg_name DBS_DB_USER = ''db_server_user''"
| "cfg_name DBS_DB_PWD = ''db_server_pwd''" | "cfg_name DBS_DB_CONNECT = ''db_server_connect''"
| "cfg_name LGS_IP = ''log_server_ip''" | "cfg_name LGS_PORT = ''log_server_port''"
| "cfg_name AES_CRYPT_STRING = ''AES_crypt_string''"

definition cfg_value :: "config_type \<Rightarrow> string" where
  "cfg_value k = snd (snd (hd (filter (\<lambda>e. fst e = k) cfg_pacos)))"

lemma cfg_pacos_split:
  obtains pre post where "cfg_pacos = pre @ (k, cfg_name k, cfg_value k) # post"
    "\<forall>e \<in> set pre. fst e \<noteq> k" "\<forall>e \<in> set post. fst e \<noteq> k"
proof -
  have "(k, cfg_name k, cfg_value k) \<in> set cfg_pacos"
    by (cases k) (simp_all add: cfg_pacos_def cfg_value_def)
  then obtain pre post where e: "cfg_pacos = pre @ (k, cfg_name k, cfg_value k) # post"
    by (meson split_list)
  have "distinct (map fst cfg_pacos)" by (simp add: cfg_pacos_def)
  then show ?thesis using that [OF e] unfolding e by (auto simp: image_iff)
qed

lemma config_get_loop_skip:
  "\<forall>e \<in> set pre. fst e \<noteq> k \<Longrightarrow> config_get_loop k (pre @ rest) fs = config_get_loop k rest fs"
  by (induction pre) auto

lemma config_set_loop_skip:
  "\<forall>e \<in> set pre. fst e \<noteq> k \<Longrightarrow> config_set_loop k v (pre @ rest) ret fs = config_set_loop k v rest ret fs"
  by (induction pre) auto

lemma config_set_loop_none:
  "\<forall>e \<in> set post. fst e \<noteq> k \<Longrightarrow> config_set_loop k v post ret fs = Some (ret, fs)"
  by (induction post) auto

lemma config_get_loop_table:
  "config_get_loop k cfg_pacos fs = config_get_loop k [(k, cfg_name k, cfg_value k)] fs"
proof -
  obtain pre post where c: "cfg_pacos = pre @ (k, cfg_name k, cfg_value k) # post"
    "\<forall>e \<in> set pre. fst e \<noteq> k"
    by (rule cfg_pacos_split)
  show ?thesis unfolding c(1) config_get_loop_skip [OF c(2)] by simp
qed

lemma config_set_loop_table:
  "config_set_loop k v cfg_pacos ret fs = config_set_loop k v [(k, cfg_name k, cfg_value k)] ret fs"
proof -
  obtain pre post where c: "cfg_pacos = pre @ (k, cfg_name k, cfg_value k) # post"
    "\<forall>e \<in> set pre. fst e \<noteq> k" "\<forall>e \<in> set post. fst e \<noteq> k"
    by (rule cfg_pacos_split)
  show ?thesis unfolding c(1) config_set_loop_skip [OF c(2)] by (simp add: config_set_loop_none [OF c(3)] Let_def case_prod_unfold)
qed

definition plain :: "char \<Rightarrow> bool" where
  "plain c \<longleftrightarrow> c \<notin> {CHR '' '', TAB, NL, CR, CHR ''#'', CHR 0x00}"

lemma cfg_name_plain: "cfg_name k \<noteq> [] \<and> list_all plain (cfg_name k) \<and> List.length (cfg_name k) < 20"
  by (cases k) (simp_all add: plain_def)

section \<open>Reading back what was set\<close>

text \<open>A value that a line can carry: no line ends, and no blank at either end.\<close>

definition clean_value :: "string \<Rightarrow> bool" where
  "clean_value v \<longleftrightarrow> v \<noteq> [] \<and> list_all (\<lambda>c. \<not> IsEOL (code c)) v \<and>
     \<not> IsSpace (code (hd v)) \<and> \<not> IsSpace (code (last v)) \<and> List.length v + 32 < LINE_BUF_LEN"

definition cfg_line :: "config_type \<Rightarrow> string \<Rightarrow> string" where
  "cfg_line k v = cfg_name k @ '' '' @ v"

lemma code_iff: "code c = 32 \<longleftrightarrow> c = CHR '' ''" "code c = 9 \<longleftrightarrow> c = TAB" "code c = 0 \<longleftrightarrow> c = CHR 0x00"
    "code c = 10 \<longleftrightarrow> c = NL" "code c = 13 \<longleftrightarrow> c = CR"
proof -
  have inj: "(of_char c :: int) = of_char d \<longleftrightarrow> c = d" for c d
    using of_char_eq_iff [of c d] by (metis of_char_of of_nat_of_char of_nat_eq_iff char_of_nat)
  show "code c = 32 \<longleftrightarrow> c = CHR '' ''" "code c = 9 \<longleftrightarrow> c = TAB" "code c = 0 \<longleftrightarrow> c = CHR 0x00"
    "code c = 10 \<longleftrightarrow> c = NL" "code c = 13 \<longleftrightarrow> c = CR"
    using inj [of c "CHR '' ''"] inj [of c TAB] inj [of c "CHR 0x00"] inj [of c NL] inj [of c CR] by simp_all
qed

lemma eol_iff: "IsEOL (code c) \<longleftrightarrow> c \<in> {NL, CR, CHR 0x00}" and space_iff: "IsSpace (code c) \<longleftrightarrow> c \<in> {CHR '' '', TAB}"
  by (auto simp: IsEOL_def IsSpace_def code_iff)

lemma plain_char: "plain c \<Longrightarrow> \<not> IsEOL (code c) \<and> \<not> IsSpace (code c) \<and> c \<noteq> CHR ''#''"
  by (auto simp: plain_def eol_iff space_iff)

text \<open>The line of a parameter, as it stands in the file and as it is read.\<close>

lemma cfg_line_clean:
  assumes v: "clean_value v"
  shows "whole (cfg_line k v @ [NL])" "has_text (cfg_line k v @ [NL])"
    "clean_line (cfg_line k v @ [NL]) = cfg_line k v"
    "GetField (cfg_line k v) None 1 = Some (cfg_name k)"
    "vgetw (cfg_line k v) None 0 (int LINE_BUF_LEN) = Some (Some v)"
proof -
  let ?n = "cfg_name k" and ?l = "cfg_line k v"
  note n = cfg_name_plain [of k]
  obtain a as where na: "?n = a # as" using n by (cases ?n) auto
  have pl: "\<And>c. c \<in> set ?n \<Longrightarrow> plain c" using n by (simp add: list_all_iff)
  have noeol: "\<And>c. c \<in> set ?l \<Longrightarrow> \<not> IsEOL (code c)"
    using pl plain_char v by (auto simp: cfg_line_def clean_value_def list_all_iff eol_iff)
  have hdl: "hd ?l = a" "?l \<noteq> []" by (simp_all add: cfg_line_def na)
  have pa: "plain a" using pl na by simp
  have lastl: "last ?l = last v" using v by (simp add: cfg_line_def clean_value_def)
  show w: "whole (?l @ [NL])"
    using noeol v n by (auto simp: whole_def eol_iff cfg_line_def clean_value_def butlast_append)
  have tw: "takeWhile (\<lambda>c. \<not> IsEOL (code c)) (?l @ [NL]) = ?l"
    using noeol by (subst takeWhile_append2) (simp_all add: eol_iff)
  have "dropWhile (\<lambda>c. IsSpace (code c) \<or> IsEOL (code c)) (rev ?l) = rev ?l"
  proof -
    have "hd (rev ?l) = last v" using hdl(2) lastl by (simp add: hd_rev)
    moreover have "\<not> IsSpace (code (last v))" "\<not> IsEOL (code (last v))"
      using v noeol lastl hdl(2) last_in_set [of ?l] by (auto simp: clean_value_def)
    ultimately show ?thesis using hdl(2) by (cases "rev ?l") auto
  qed
  moreover have "dropWhile (\<lambda>c. IsSpace (code c)) ?l = ?l"
    using plain_char [OF pa] by (simp add: cfg_line_def na)
  ultimately show cl: "clean_line (?l @ [NL]) = ?l" by (simp add: clean_line_def tw)
  have "\<not> IsNoteLine (?l @ [NL])"
    using plain_char [OF pa] by (simp add: IsNoteLine_def cfg_line_def na space_iff)
  then show "has_text (?l @ [NL])"
    using plain_char [OF pa] hdl cl by (simp add: has_text_def cfg_line_def na)
  let ?sp = "seps None"
  have sep: "?sp c \<longleftrightarrow> c \<in> {CHR '' '', TAB, NL, CR}" for c by (simp add: seps_def)
  have nsep: "\<And>c. c \<in> set ?n \<Longrightarrow> \<not> ?sp c" using pl by (auto simp: plain_def sep)
  have sp: "?sp (CHR '' '')" by (simp add: sep)
  have tk: "takeWhile (\<lambda>c. \<not> ?sp c) ?l = ?n" "dropWhile (\<lambda>c. \<not> ?sp c) ?l = CHR '' '' # v"
    using nsep sp by (simp_all add: cfg_line_def takeWhile_append2 dropWhile_append2)
  have dw: "dropWhile ?sp ?l = ?l" using nsep by (simp add: cfg_line_def na)
  have "tokens ?sp ?l = ?n # tokens ?sp (CHR '' '' # v)"
    using hdl(2) by (subst tokens.simps) (simp add: dw tk)
  then have "pick_field ?sp ?l 1 = Some ?n" by (simp add: pick_field_tokens)
  moreover have "List.length ?n \<le> LINE_BUF_LEN - 1" using n by (simp add: LINE_BUF_LEN_def)
  ultimately show "GetField ?l None 1 = Some ?n" by (simp add: GetField_def)
  have "dropWhile (\<lambda>c. IsSpace (code c)) (CHR '' '' # v) = v"
    using v by (cases v) (simp_all add: space_iff clean_value_def)
  moreover have "List.length v \<le> LINE_BUF_LEN - 1" using v by (simp add: clean_value_def LINE_BUF_LEN_def)
  ultimately show "vgetw ?l None 0 (int LINE_BUF_LEN) = Some (Some v)"
    by (simp add: vgetw_def tk LINE_BUF_LEN_def)
qed

lemma IsInFileField_whole:
  assumes "files fs fname = Some (concat ls)" "deny fs = []" "list_all whole ls" "f \<noteq> - 2"
  shows "IsInFileField fname str f fs =
    (let i = line_index (\<lambda>p. GetField p None f = Some str) ls
     in (if i < List.length ls then int i + 1 else 0, fs))"
  using field_line_whole [of "[]" ls] assms by (simp add: IsInFileField_def fopen_old_def Let_def)

text \<open>Reading a parameter whose line is the first one of its name.\<close>

abbreviation (input) of_name :: "config_type \<Rightarrow> string \<Rightarrow> bool" where
  "of_name k p \<equiv> GetField p None 1 = Some (cfg_name k)"

lemma config_get_found:
  assumes f: "files fs CONFIG_FILE = Some (concat (us @ (cfg_line k v @ [NL]) # ds))" and d: "deny fs = []"
    and w: "list_all whole us" "list_all whole ds" and v: "clean_value v"
    and fst: "\<forall>l \<in> set us. \<not> (has_text l \<and> of_name k (clean_line l))" and fd: "0 \<le> fd"
  shows "\<exists>fs'. config_get fd k fs = Some (OK, Some v, fs')"
proof -
  let ?l = "cfg_line k v @ [NL]"
  note c = cfg_line_clean [OF v, of k]
  let ?ls = "us @ ?l # ds"
  have wl: "list_all whole ?ls" using w c(1) by simp
  have "takeWhile (\<lambda>l. \<not> (has_text l \<and> of_name k (clean_line l))) ?ls = us"
    using fst c by (subst takeWhile_append2) auto
  then have i: "line_index (of_name k) ?ls = List.length us" by (simp add: line_index_def)
  let ?fs = "put_file CONFIG_LOCK_FILE (Some []) fs"
  have f': "files ?fs CONFIG_FILE = Some (concat ?ls)" using f by (simp add: CONFIG_FILE_def CONFIG_LOCK_FILE_def)
  have d': "deny ?fs = []" using d by simp
  have il: "init_lock fd CONFIG_LOCK_FILE fs = (fd, ?fs)" using d by (simp add: init_lock_def open_trunc_def)
  have inf: "IsInFileField CONFIG_FILE (cfg_name k) 1 ?fs = (int (List.length us) + 1, ?fs)"
    using IsInFileField_whole [OF f' d' wl, of 1 "cfg_name k"] by (simp add: i Let_def)
  have "snd (FileToLine (int (List.length us) + 1) (concat ?ls)) = ?l @ concat ds"
    using skip_lines_whole [OF wl, of "List.length us"] by (simp add: FileToLine_def)
  then have g: "GetLine (snd (FileToLine (int (List.length us) + 1) (concat ?ls))) = Some (cfg_line k v, concat ds)"
    using GetLine_whole [OF c(1)] c(2,3) by simp
  have fo: "fopen_old CONFIG_FILE ?fs = (Some (concat ?ls), ?fs)" using f' d' by (simp add: fopen_old_def)
  have "config_get_loop k [(k, cfg_name k, cfg_value k)] ?fs = Some (OK, Some v, ?fs)"
    using inf fo g c(5) by simp
  then show ?thesis using fd il by (simp add: config_get_def config_get_loop_table)
qed

lemma config_set_stored:
  assumes f: "files fs CONFIG_FILE = Some (concat ls)" and w: "list_all whole ls" and d: "deny fs = []"
    and v: "clean_value v" and fd: "0 \<le> fd" and ne: "ls \<noteq> []"
  shows "\<exists>fs' us ds. config_set fd k v fs = Some (OK, fs') \<and> deny fs' = [] \<and>
    files fs' CONFIG_FILE = Some (concat (us @ (cfg_line k v @ [NL]) # ds)) \<and>
    list_all whole us \<and> list_all whole ds \<and> (\<forall>l \<in> set us. \<not> (has_text l \<and> of_name k (clean_line l)))"
proof -
  let ?i = "line_index (of_name k) ls"
  let ?us = "take ?i ls"
  have us: "?us = takeWhile (\<lambda>l. \<not> (has_text l \<and> of_name k (clean_line l))) ls"
    by (simp add: line_index_def takeWhile_eq_take [symmetric])
  have fst: "\<forall>l \<in> set ?us. \<not> (has_text l \<and> of_name k (clean_line l))"
    unfolding us by (auto dest: set_takeWhileD)
  let ?fs = "put_file CONFIG_LOCK_FILE (Some []) fs"
  have f': "files ?fs CONFIG_FILE = Some (concat ls)" using f by (simp add: CONFIG_FILE_def CONFIG_LOCK_FILE_def)
  have d': "deny ?fs = []" using d by simp
  have il: "init_lock fd CONFIG_LOCK_FILE fs = (fd, ?fs)" using d by (simp add: init_lock_def open_trunc_def)
  have len: "List.length (cfg_name k) + 1 + List.length v < LINE_BUF_LEN" "List.length v < LINE_BUF_LEN"
    using v cfg_name_plain [of k] by (simp_all add: clean_value_def)
  have inf: "IsInFileField CONFIG_FILE (cfg_name k) 1 ?fs = (if ?i < List.length ls then int ?i + 1 else 0, ?fs)"
    using IsInFileField_whole [OF f' d' w, of 1 "cfg_name k"] by (simp add: Let_def)
  have wu: "list_all whole ?us" using w by (auto simp: list_all_iff dest: in_set_takeD)
  show ?thesis
  proof (cases "?i < List.length ls")
    case True
    have nm: "List.length CONFIG_FILE + 3 < PATH_MAX" by (simp add: CONFIG_FILE_def PATH_MAX_def)
    have ni: "nat (int ?i + 1) = Suc ?i" by simp
    have le: "1 \<le> int ?i + 1" "nat (int ?i + 1) \<le> Suc (List.length ls)" using True by simp_all
    obtain fs' where r: "ReplaceLine CONFIG_FILE (cfg_line k v) (int ?i + 1) ?fs = Some (True, fs')" "deny fs' = []"
      "files fs' = (files ?fs)(CONFIG_FILE @ ''tmp'' := None,
        CONFIG_FILE := Some (concat (take (nat (int ?i + 1) - 1) ls @ (cfg_line k v @ [NL]) # drop (nat (int ?i + 1)) ls)))"
      using ReplaceLine_whole [OF f' w d' nm le, of "cfg_line k v"] by blast
    have "config_set fd k v fs = Some (OK, fs')"
      using fd il inf True r(1) len
      by (simp add: config_set_def config_set_loop_table Let_def cfg_line_def c_bool_def)
    moreover have "files fs' CONFIG_FILE = Some (concat (?us @ (cfg_line k v @ [NL]) # drop (Suc ?i) ls))"
      using r(3) unfolding ni by simp
    moreover have "list_all whole (drop (Suc ?i) ls)" using w by (auto simp: list_all_iff dest: in_set_dropD)
    ultimately show ?thesis using r(2) wu fst by blast
  next
    case False
    then have all: "?us = ls" by simp
    obtain xs l where ls: "ls = xs @ [l]" using ne by (metis rev_exhaust)
    have "whole l" using w ls by simp
    then have "last (concat ls) = NL" "concat ls \<noteq> []"
      using ls by (auto simp: whole_def last_append)
    then have eol: "IsEOL (code (last (concat ls)))" by (simp add: IsEOL_def)
    let ?fs' = "put_file CONFIG_FILE (Some (concat ls @ cfg_line k v @ [NL])) ?fs"
    have "AppendLine (Some CONFIG_FILE) (cfg_line k v) ?fs = Some (True, ?fs')"
      using f' d' eol \<open>concat ls \<noteq> []\<close> by (simp add: AppendLine_def fopen_old_def Let_def del: concat_eq_Nil_conv)
    then have "config_set fd k v fs = Some (OK, ?fs')"
      using fd il inf False len
      by (simp add: config_set_def config_set_loop_table Let_def cfg_line_def c_bool_def)
    moreover have "files ?fs' CONFIG_FILE = Some (concat (ls @ (cfg_line k v @ [NL]) # []))" by simp
    moreover have "list_all whole []" by simp
    moreover have "deny ?fs' = []" using d by simp
    ultimately show ?thesis using w fst unfolding all by blast
  qed
qed

section \<open>Properties\<close>

text \<open>C14: a value without line ends and without blanks at its ends that \<open>config_set\<close> has stored, whether
  the parameter was in the file before or not, is what \<open>config_get\<close> returns.\<close>

theorem config_set_then_get:
  assumes "files fs CONFIG_FILE = Some (concat ls)" "list_all whole ls" "ls \<noteq> []" "deny fs = []"
    "clean_value v" "0 \<le> fd"
  shows "\<exists>fs' fs''. config_set fd k v fs = Some (OK, fs') \<and> config_get fd k fs' = Some (OK, Some v, fs'')"
  using config_set_stored [OF assms(1,2,4,5,6,3), of k] config_get_found [OF _ _ _ _ assms(5) _ assms(6)]
  by metis

definition cfg_demo :: fsys where
  "cfg_demo = \<lparr>files = (\<lambda>n. if n = CONFIG_FILE then Some (concat [''gas_ip 1.2.3.4'' @ [NL]]) else None), deny = []\<rparr>"

theorem config_set_then_get_witness:
  "\<exists>fs' fs''. config_set 5 GAS_PORT ''9999'' cfg_demo = Some (OK, fs') \<and>
     config_get 5 GAS_PORT fs' = Some (OK, Some ''9999'', fs'')"
  by (rule config_set_then_get [where ls = "[''gas_ip 1.2.3.4'' @ [NL]]"])
    (simp_all add: cfg_demo_def whole_def LINE_BUF_LEN_def clean_value_def IsEOL_def IsSpace_def)

text \<open>\<open>config_set\<close> reports success when the file cannot be written: the functions that edit it return
  \<open>0\<close> for failure, and \<open>0\<close> is \<open>OK\<close>.\<close>

theorem config_set_hides_failure:
  assumes "files fs CONFIG_FILE = None" "deny fs = []" "List.length v + 32 < LINE_BUF_LEN" "0 \<le> fd"
  shows "\<exists>fs'. config_set fd k v fs = Some (OK, fs') \<and> files fs' CONFIG_FILE = None"
proof -
  let ?fs = "put_file CONFIG_LOCK_FILE (Some []) fs"
  have f: "files ?fs CONFIG_FILE = None" using assms(1) by (simp add: CONFIG_FILE_def CONFIG_LOCK_FILE_def)
  have "List.length (cfg_name k) + 1 + List.length v < LINE_BUF_LEN" "List.length v < LINE_BUF_LEN"
    using assms(3) cfg_name_plain [of k] by simp_all
  then have "config_set fd k v fs = Some (OK, ?fs)"
    using f assms(2,4)
    by (simp add: config_set_def config_set_loop_table init_lock_def open_trunc_def IsInFileField_def
        fopen_old_def AppendLine_def Let_def c_bool_def OK_def)
  then show ?thesis using f by blast
qed

theorem config_set_hides_failure_witness:
  "\<exists>fs'. config_set 5 GAS_PORT ''9999'' \<lparr>files = (\<lambda>_. None), deny = []\<rparr> = Some (OK, fs') \<and>
     files fs' CONFIG_FILE = None"
  by (rule config_set_hides_failure) (simp_all add: LINE_BUF_LEN_def)

end
