(* ===== verification/LibString.thy ===== *)
theory LibString imports Prelude LibFile begin

text \<open>
  \<open>Server/Lib/lib-string.c\<close>: splitting a string into the caller's buffers, the check of a user name,
  and the conversion between character sets (\<open>iconv\<close> itself is a parameter).
\<close>

section \<open>Splitting\<close>

text \<open>
  \<open>memcpy(dst[i], p, len)\<close>: no terminator is written; \<open>None\<close> is a write outside the array of buffers
  or past the end of the buffer.
\<close>

definition put_piece :: "nat \<Rightarrow> string \<Rightarrow> string list \<Rightarrow> string list option" where
  "put_piece i p dst =
     (if i < length dst \<and> length p \<le> length (dst ! i)
      then Some (dst[i := p @ drop (length p) (dst ! i)]) else None)"

text \<open>The loop with \<open>start\<close> as what is left of the string; the result is the return value, \<open>dst\<close> and \<open>*n\<close>.\<close>

lemma after_piece_shorter: "s \<noteq> [] \<Longrightarrow> length (tl (dropWhile P s)) < length s"
  using length_dropWhile_le [of P s] by (cases "dropWhile P s") auto

function split_loop :: "char \<Rightarrow> string \<Rightarrow> nat \<Rightarrow> string list \<Rightarrow> int \<Rightarrow> (int \<times> string list \<times> int) option" where
  "split_loop split start i dst n =
     (if start \<noteq> [] \<and> split \<in> set start
      then if n < int i then Some (- 1, dst, n)
           else do {
             dst \<leftarrow> put_piece i (takeWhile (\<lambda>c. c \<noteq> split) start) dst;
             split_loop split (tl (dropWhile (\<lambda>c. c \<noteq> split) start)) (Suc i) dst n }
      else if start \<noteq> []
      then do {
        dst \<leftarrow> put_piece i start dst;
        Some (0, dst, int (Suc i)) }
      else Some (0, dst, int i))"
  by auto
termination
  by (relation "measure (\<lambda>(split, start, i, dst, n). length start)") (auto simp: after_piece_shorter simp del: length_tl)

declare split_loop.simps [simp del]

definition lib_string_split ::
  "string option \<Rightarrow> char \<Rightarrow> string list option \<Rightarrow> int option \<Rightarrow> (int \<times> (string list \<times> int) option) option"
where
  "lib_string_split src split dst n =
     (case (src, dst, n) of
        (Some s, Some d, Some k) \<Rightarrow>
          if split = CHR 0x00 then Some (- 1, None)
          else map_option (\<lambda>(rc, d, k). (rc, Some (d, k))) (split_loop split s 0 d k)
      | _ \<Rightarrow> Some (- 1, None))"

section \<open>Names\<close>

definition MAX_NAME_LEN :: nat where "MAX_NAME_LEN = 32"

definition lib_name_sanity :: "string option \<Rightarrow> int" where
  "lib_name_sanity name =
     (case name of None \<Rightarrow> - 1
      | Some s \<Rightarrow>
          if length s \<le> 0 \<or> MAX_NAME_LEN \<le> length s then - 1
          else if \<exists>cur \<in> set [0..<length s]. \<not> isalnum (s ! cur) then - 1
          else 0)"

section \<open>Printed numbers\<close>

text \<open>The conversions \<open>%d\<close>, \<open>%02x\<close> and \<open>%02X\<close> of the C library, for the components that print with them.\<close>

definition digit_char :: "nat \<Rightarrow> char" where
  "digit_char d = ''0123456789'' ! d"

fun dec_digits :: "nat \<Rightarrow> string" where
  "dec_digits n = (if n < 10 then [digit_char n] else dec_digits (n div 10) @ [digit_char (n mod 10)])"

declare dec_digits.simps [simp del]

definition fmt_d :: "int \<Rightarrow> string" where
  "fmt_d x = (if x < 0 then CHR ''-'' # dec_digits (nat (- x)) else dec_digits (nat x))"

definition fmt_02x :: "8 word \<Rightarrow> string" where
  "fmt_02x b = [''0123456789abcdef'' ! (unat b div 16), ''0123456789abcdef'' ! (unat b mod 16)]"

definition fmt_02X :: "8 word \<Rightarrow> string" where
  "fmt_02X b = [''0123456789ABCDEF'' ! (unat b div 16), ''0123456789ABCDEF'' ! (unat b mod 16)]"

section \<open>Character sets\<close>

text \<open>
  \<open>iconv_open\<close> answers a descriptor, \<open>iconv\<close> the number of characters it converted in a non-reversible
  way (\<open>-1\<close> on an error) and what it put into the zeroed output buffer.
\<close>

definition lib_code_convert ::
  "(string \<Rightarrow> string \<Rightarrow> int) \<Rightarrow> (int \<Rightarrow> string \<Rightarrow> nat \<Rightarrow> int \<times> string) \<Rightarrow>
   string \<Rightarrow> string \<Rightarrow> string \<Rightarrow> nat \<Rightarrow> nat \<Rightarrow> int \<times> string option"
where
  "lib_code_convert iconv_open iconv from_charset to_charset inbuf inlen outlen =
     (let cd = iconv_open to_charset from_charset
      in if cd = 0 then (- 1, None)
      else let (rc, out) = iconv cd (take inlen inbuf) outlen
           in (if 0 < rc then 0 else - 1,
               Some (out @ replicate (outlen - length out) (CHR 0x00))))"

definition lib_u2g where
  "lib_u2g iconv_open iconv inbuf inlen outlen =
     lib_code_convert iconv_open iconv ''utf-8'' ''gb2312'' inbuf inlen outlen"

definition lib_g2u where
  "lib_g2u iconv_open iconv inbuf inlen outlen =
     lib_code_convert iconv_open iconv ''gb2312'' ''utf-8'' inbuf inlen outlen"

definition lib_a2u where
  "lib_a2u iconv_open iconv inbuf inlen outlen =
     lib_code_convert iconv_open iconv ''ascii'' ''utf-8'' inbuf inlen outlen"

lemma lib_code_convert_exact_is_error:
  "iconv_open to_cs from_cs \<noteq> 0 \<Longrightarrow> fst (iconv (iconv_open to_cs from_cs) (take inlen inbuf) outlen) = 0 \<Longrightarrow>
   fst (lib_code_convert iconv_open iconv from_cs to_cs inbuf inlen outlen) = - 1"
  by (simp add: lib_code_convert_def Let_def case_prod_unfold)

section \<open>What the split delivers\<close>

text \<open>The reference: the pieces between the separators, without an empty one at the end.\<close>

function pieces :: "char \<Rightarrow> string \<Rightarrow> string list" where
  "pieces c s =
     (if s = [] then []
      else takeWhile (\<lambda>x. x \<noteq> c) s # pieces c (tl (dropWhile (\<lambda>x. x \<noteq> c) s)))"
  by auto
termination by (relation "measure (\<lambda>(c, s). length s)") (auto simp: after_piece_shorter simp del: length_tl)

declare pieces.simps [simp del]

lemma pieces_Nil [simp]: "pieces c [] = []"
  by (subst pieces.simps) simp

lemma pieces_step: "s \<noteq> [] \<Longrightarrow>
    pieces c s = takeWhile (\<lambda>x. x \<noteq> c) s # pieces c (tl (dropWhile (\<lambda>x. x \<noteq> c) s))"
  by (subst pieces.simps) simp

lemma takeWhile_no_sep: "c \<notin> set s \<Longrightarrow> takeWhile (\<lambda>x. x \<noteq> c) s = s \<and> dropWhile (\<lambda>x. x \<noteq> c) s = []"
  by (induction s) auto

lemma pieces_last: "s \<noteq> [] \<Longrightarrow> c \<notin> set s \<Longrightarrow> pieces c s = [s]"
  by (simp add: pieces_step takeWhile_no_sep)

text \<open>The buffers from number \<open>i\<close> on, with the pieces written over their beginnings.\<close>

definition written :: "nat \<Rightarrow> string list \<Rightarrow> string list \<Rightarrow> string list" where
  "written i ps dst =
     take i dst @ map2 (\<lambda>p d. p @ drop (length p) d) ps (take (length ps) (drop i dst)) @ drop (i + length ps) dst"

lemma written_Nil [simp]: "written i [] dst = dst"
  by (simp add: written_def)

lemma written_step:
  assumes "i < length dst"
  shows "written (Suc i) ps (dst[i := p @ drop (length p) (dst ! i)]) = written i (p # ps) dst"
proof -
  have d: "drop i dst = dst ! i # drop (Suc i) dst"
    using assms by (simp add: Cons_nth_drop_Suc)
  show ?thesis
    using assms by (simp add: written_def d take_Suc_conv_app_nth drop_update_swap)
qed

definition roomy :: "nat \<Rightarrow> string list \<Rightarrow> string list \<Rightarrow> bool" where
  "roomy i ps dst \<longleftrightarrow> (\<forall>k < length ps. i + k < length dst \<and> length (ps ! k) \<le> length (dst ! (i + k)))"

lemma roomy_Cons:
  "roomy i (p # ps) dst \<longleftrightarrow> i < length dst \<and> length p \<le> length (dst ! i) \<and> roomy (Suc i) ps dst"
  by (auto simp: roomy_def less_Suc_eq_0_disj nth_Cons split: nat.splits)

lemma split_loop_ok:
  assumes "roomy i (pieces c s) dst" and "int (i + length (pieces c s)) \<le> n + 1"
  shows "split_loop c s i dst n = Some (0, written i (pieces c s) dst, int (i + length (pieces c s)))"
  using assms
proof (induction c s i dst n rule: split_loop.induct)
  case (1 c s i dst n)
  consider "s = []" | "s \<noteq> []" "c \<notin> set s" | "s \<noteq> []" "c \<in> set s" by blast
  then show ?case
  proof cases
    case 1
    then show ?thesis by (subst split_loop.simps) simp
  next
    case 2
    then have "put_piece i s dst = Some (written i [s] dst)"
      using "1.prems" written_step [of i dst "[]" s] by (simp add: pieces_last roomy_Cons put_piece_def)
    then show ?thesis using 2 by (subst split_loop.simps) (simp add: pieces_last)
  next
    case 3
    define p where "p = takeWhile (\<lambda>x. x \<noteq> c) s"
    define r where "r = tl (dropWhile (\<lambda>x. x \<noteq> c) s)"
    define d where "d = dst[i := p @ drop (length p) (dst ! i)]"
    have ps: "pieces c s = p # pieces c r" using 3 by (simp add: pieces_step p_def r_def)
    have fits: "i < length dst" "length p \<le> length (dst ! i)" and room: "roomy (Suc i) (pieces c r) dst"
      using "1.prems"(1) by (simp_all add: ps roomy_Cons)
    have put: "put_piece i p dst = Some d" using fits by (simp add: put_piece_def d_def)
    have n: "\<not> n < int i" using "1.prems"(2) ps by simp
    have room': "roomy (Suc i) (pieces c r) d" using room by (auto simp: roomy_def d_def)
    have "split_loop c r (Suc i) d n = Some (0, written (Suc i) (pieces c r) d, int (Suc i + length (pieces c r)))"
      unfolding r_def
    proof (rule "1.IH")
      show "roomy (Suc i) (pieces c (tl (dropWhile (\<lambda>x. x \<noteq> c) s))) d" using room' by (simp add: r_def)
      show "int (Suc i + length (pieces c (tl (dropWhile (\<lambda>x. x \<noteq> c) s)))) \<le> n + 1"
        using "1.prems"(2) ps by (simp add: r_def)
    qed (use 3 n put in \<open>simp_all add: p_def\<close>)
    moreover have "split_loop c s i dst n = split_loop c r (Suc i) d n"
      using 3 n put by (subst split_loop.simps) (simp add: p_def r_def)
    moreover have "written (Suc i) (pieces c r) d = written i (pieces c s) dst"
      using fits written_step [of i dst "pieces c r" p] by (simp add: d_def ps)
    ultimately show ?thesis using ps by simp
  qed
qed

lemma split_loop_overruns:
  assumes "i \<le> length dst" and "length dst < i + length (pieces c s)" and "n = int (length dst)"
  shows "split_loop c s i dst n = None"
  using assms
proof (induction c s i dst n rule: split_loop.induct)
  case (1 c s i dst n)
  have s: "s \<noteq> []" using "1.prems" by auto
  have n: "\<not> n < int i" using "1.prems" by simp
  show ?case
  proof (cases "c \<in> set s")
    case False
    then have "i = length dst" using "1.prems" s by (simp add: pieces_last)
    then show ?thesis using s False by (subst split_loop.simps) (simp add: put_piece_def)
  next
    case True
    show ?thesis
    proof (cases "put_piece i (takeWhile (\<lambda>x. x \<noteq> c) s) dst")
      case None
      then show ?thesis using s True n by (subst split_loop.simps) simp
    next
      case (Some d)
      then have i: "i < length dst" "length d = length dst"
        by (auto simp: put_piece_def split: if_splits)
      have "split_loop c (tl (dropWhile (\<lambda>x. x \<noteq> c) s)) (Suc i) d n = None"
        using s True n Some by (intro "1.IH") (use i "1.prems" pieces_step [OF s, of c] in auto)
      then show ?thesis using s True n Some by (subst split_loop.simps) simp
    qed
  qed
qed

section \<open>Properties\<close>

text \<open>When the array has a buffer large enough for every piece and \<open>*n\<close> on entry is at least the number of pieces less one, \<open>lib_string_split\<close> succeeds: the pieces between the separators (an empty one at the end is left out) stand at the beginnings of the buffers in order, the rest of each buffer and the further buffers are as before, and \<open>*n\<close> is the number of pieces.\<close>
theorem lib_string_split_ok:
  assumes "c \<noteq> CHR 0x00" and "roomy 0 (pieces c s) dst" and "int (length (pieces c s)) \<le> n + 1"
  shows "lib_string_split (Some s) c (Some dst) (Some n)
       = Some (0, Some (written 0 (pieces c s) dst, int (length (pieces c s))))"
  using assms split_loop_ok [of 0 c s dst n] by (simp add: lib_string_split_def)

lemma pieces_demo: "pieces CHR '','' ''ab,,c'' = [''ab'', [], ''c'']"
  by (simp add: pieces_step)

theorem lib_string_split_ok_witness:
  "lib_string_split (Some ''ab,,c'') CHR '','' (Some [''....'', ''....'', ''....'']) (Some 2)
   = Some (0, Some ([''ab..'', ''....'', ''c...''], 3))"
  using lib_string_split_ok [of "CHR '',''" "''ab,,c''" "[''....'', ''....'', ''....'']" 2]
  by (simp add: pieces_demo written_def roomy_Cons) (simp add: roomy_def)

text \<open>The bound the caller gives protects nothing: with an array of exactly \<open>*n\<close> buffers and more than \<open>*n\<close> pieces in the string, \<open>lib_string_split\<close> never returns its error, it writes outside of its buffers (the check \<open>*n < i\<close> comes one too late, and the last piece is not checked at all).\<close>
theorem lib_string_split_overruns:
  assumes "c \<noteq> CHR 0x00" and "length dst < length (pieces c s)"
  shows "lib_string_split (Some s) c (Some dst) (Some (int (length dst))) = None"
  using assms split_loop_overruns [of 0 dst c s] by (simp add: lib_string_split_def)

theorem lib_string_split_overruns_witness:
  "lib_string_split (Some ''ab,,c'') CHR '','' (Some [''....'', ''....'']) (Some 2) = None"
  using lib_string_split_overruns [of "CHR '',''" "[''....'', ''....'']" "''ab,,c''"] by (simp add: pieces_demo)

text \<open>A name is accepted exactly when it has 1 to 31 characters, all letters and digits.\<close>

lemma lib_name_sanity_iff:
  "lib_name_sanity (Some s) = 0 \<longleftrightarrow> 1 \<le> length s \<and> length s < 32 \<and> (\<forall>c \<in> set s. isalnum c)"
  by (auto simp: lib_name_sanity_def MAX_NAME_LEN_def all_set_conv_all_nth Suc_le_eq)

end
