(* ===== verification/Bytes.thy ===== *)
theory Bytes imports Prelude begin

text \<open>
  Machine integers as the bytes they occupy on the little-endian targets of the server, and the
  conversion to network order.
\<close>

unbundle bit_operations_syntax

type_synonym byte = "8 word"

definition le32 :: "32 word \<Rightarrow> byte list" where
  "le32 w = [ucast w, ucast (drop_bit 8 w), ucast (drop_bit 16 w), ucast (drop_bit 24 w)]"

definition word_of_bytes :: "byte list \<Rightarrow> 32 word" where
  "word_of_bytes bs =
     ucast (bs ! 0) OR push_bit 8 (ucast (bs ! 1)) OR push_bit 16 (ucast (bs ! 2)) OR push_bit 24 (ucast (bs ! 3))"

text \<open>\<open>htonl\<close> and \<open>ntohl\<close> reverse the bytes.\<close>

definition htonl :: "32 word \<Rightarrow> 32 word" where
  "htonl w = word_of_bytes (rev (le32 w))"

lemma le32_length [simp]: "length (le32 w) = 4"
  by (simp add: le32_def)

lemma drop_bit_join:
  fixes b0 b1 b2 b3 :: byte
  defines "w \<equiv> (ucast b0 OR push_bit 8 (ucast b1) OR push_bit 16 (ucast b2) OR push_bit 24 (ucast b3) :: 32 word)"
  shows "le32 w = [b0, b1, b2, b3]"
proof -
  have out: "\<not> bit b n" if "8 \<le> n" for b :: byte and n
    using that bit_imp_le_length [of b n] by auto
  have "ucast w = b0" "ucast (drop_bit 8 w) = b1" "ucast (drop_bit 16 w) = b2" "ucast (drop_bit 24 w) = b3"
    by (rule bit_eqI; auto simp: w_def bit_simps out)+
  then show ?thesis by (simp add: le32_def)
qed

lemma le32_onto:
  assumes "length bs = 4"
  obtains w where "le32 w = bs"
proof -
  obtain b0 b1 b2 b3 where "bs = [b0, b1, b2, b3]"
    using assms by (auto simp: numeral_eq_Suc length_Suc_conv)
  then show ?thesis using that drop_bit_join [of b0 b1 b2 b3] by blast
qed


lemma le32_word_of_bytes: "length bs = 4 \<Longrightarrow> le32 (word_of_bytes bs) = bs"
proof -
  assume "length bs = 4"
  then obtain b0 b1 b2 b3 where "bs = [b0, b1, b2, b3]"
    by (auto simp: numeral_eq_Suc length_Suc_conv)
  then show ?thesis using drop_bit_join [of b0 b1 b2 b3] by (simp add: word_of_bytes_def)
qed

lemma word_of_bytes_le32 [simp]: "word_of_bytes (le32 w) = w"
proof (rule bit_eqI)
  fix n assume "possible_bit TYPE(32 word) n"
  then have n: "n < 32" by (simp add: possible_bit_word)
  have out: "\<not> bit b m" if "8 \<le> m" for b :: byte and m
    using that bit_imp_le_length [of b m] by auto
  consider "n < 8" | "8 \<le> n" "n < 16" | "16 \<le> n" "n < 24" | "24 \<le> n" by linarith
  then show "bit (word_of_bytes (le32 w)) n = bit w n"
    using n by cases (auto simp: word_of_bytes_def le32_def bit_simps)
qed

lemma le32_inj: "le32 v = le32 w \<longleftrightarrow> v = w"
  by (metis word_of_bytes_le32)

lemma htonl_htonl [simp]: "htonl (htonl w) = w"
  by (simp add: htonl_def le32_word_of_bytes)

end
