(* ===== verification/LibTicket.thy ===== *)
theory LibTicket imports LibConfig LibString Bytes begin

text \<open>
  \<open>Server/Lib/lib-ticket.c\<close>: user tickets (hashed, then encrypted in two blocks), the hexadecimal
  encoding of passwords and the session cookies. The ciphers and digests are OpenSSL's and appear as
  parameters: \<open>AES_encrypt k\<close> and \<open>AES_decrypt k\<close> on 16-byte blocks under the 16-byte key \<open>k\<close>, \<open>SHA1\<close>
  with 20 bytes, and the two MD5 steps over a context.
\<close>

unbundle bit_operations_syntax

type_synonym cipher = "byte list \<Rightarrow> byte list \<Rightarrow> byte list"

definition USER_TICKET_LEN :: nat where "USER_TICKET_LEN = 32"
definition AES_BLOCK_SIZE :: nat where "AES_BLOCK_SIZE = 16"

section \<open>Keys\<close>

text \<open>The static variables of the file; an expanded key is named by the string it was made from.\<close>

record crypt =
  lib_cryptstr :: "byte list"
  lib_encrypt_key :: "byte list"
  lib_decrypt_key :: "byte list"

definition bytes_of :: "string \<Rightarrow> byte list" where
  "bytes_of s = map (\<lambda>c. of_char c) s"

definition TICKET_AES_CRYPT_STRING :: string where
  "TICKET_AES_CRYPT_STRING = ''1234567890-=][po''"

definition lib_crypt_set_AEScryptstr :: "byte list \<Rightarrow> crypt \<Rightarrow> crypt option" where
  "lib_crypt_set_AEScryptstr s cr =
     (if AES_BLOCK_SIZE \<le> length s then Some (cr\<lparr>lib_cryptstr := take AES_BLOCK_SIZE s\<rparr>) else None)"

definition lib_crypt_get_AEScryptstr :: "crypt \<Rightarrow> byte list" where
  "lib_crypt_get_AEScryptstr cr = lib_cryptstr cr"

text \<open>
  \<open>config_get\<close> copies the configured value into an array of 17 zero bytes: \<open>None\<close> when it does not fit.
\<close>

definition lib_crypt_init :: "int \<Rightarrow> fsys \<Rightarrow> crypt \<Rightarrow> (crypt \<times> fsys) option" where
  "lib_crypt_init fd fs cr = do {
     (rc, v, fs) \<leftarrow> config_get fd AES_CRYPT_STRING fs;
     s \<leftarrow> (if rc \<noteq> 0 then Some TICKET_AES_CRYPT_STRING
          else case v of
                 None \<Rightarrow> Some []
               | Some w \<Rightarrow> if length w < AES_BLOCK_SIZE + 1 then Some w else None);
     let key = take AES_BLOCK_SIZE (bytes_of s @ replicate AES_BLOCK_SIZE 0);
     Some (cr\<lparr>lib_cryptstr := key, lib_encrypt_key := key, lib_decrypt_key := key\<rparr>, fs) }"

section \<open>Tickets\<close>

record user_ticket =
  userid :: "32 word"
  lastlogin :: "32 word"
  ut_random :: "32 word"
  ut_hash :: "byte list"

text \<open>The bytes of the structure on a little-endian machine.\<close>

definition ticket_bytes :: "user_ticket \<Rightarrow> byte list" where
  "ticket_bytes ut = le32 (userid ut) @ le32 (lastlogin ut) @ le32 (ut_random ut) @ ut_hash ut"

definition lib_ticket_hash :: "(byte list \<Rightarrow> byte list) \<Rightarrow> byte list \<Rightarrow> nat \<Rightarrow> byte list" where
  "lib_ticket_hash SHA1 buf len = SHA1 (take len buf)"

text \<open>The loop of \<open>lib_ticket_encrypt\<close> and \<open>lib_ticket_decrypt\<close>: block by block from \<open>ticket\<close> to \<open>buf\<close>.\<close>

function crypt_loop :: "(byte list \<Rightarrow> byte list) \<Rightarrow> nat \<Rightarrow> byte list \<Rightarrow> byte list \<Rightarrow> byte list" where
  "crypt_loop f i ticket buf =
     (if i < USER_TICKET_LEN
      then crypt_loop f (i + 16) ticket (take i buf @ f (take 16 (drop i ticket)) @ drop (i + 16) buf)
      else buf)"
  by auto
termination by (relation "measure (\<lambda>(f, i, ticket, buf). USER_TICKET_LEN - i)") auto

declare crypt_loop.simps [simp del]

definition lib_ticket_encrypt :: "cipher \<Rightarrow> crypt \<Rightarrow> byte list \<Rightarrow> byte list" where
  "lib_ticket_encrypt AES_encrypt cr ticket =
     crypt_loop (AES_encrypt (lib_encrypt_key cr)) 0 ticket (replicate USER_TICKET_LEN 0)"

definition lib_ticket_decrypt :: "cipher \<Rightarrow> crypt \<Rightarrow> byte list \<Rightarrow> byte list" where
  "lib_ticket_decrypt AES_decrypt cr ticket =
     crypt_loop (AES_decrypt (lib_decrypt_key cr)) 0 ticket (replicate USER_TICKET_LEN 0)"

definition lib_ticket_unhash :: "(byte list \<Rightarrow> byte list) \<Rightarrow> byte list \<Rightarrow> nat \<Rightarrow> byte list \<Rightarrow> bool" where
  "lib_ticket_unhash SHA1 buf len hash = (take 20 hash = SHA1 (take len buf))"

text \<open>The return value, the ticket, and the structure with its hash filled in.\<close>

definition lib_ticket_generate ::
  "cipher \<Rightarrow> (byte list \<Rightarrow> byte list) \<Rightarrow> crypt \<Rightarrow> user_ticket \<Rightarrow> int \<times> byte list \<times> user_ticket"
where
  "lib_ticket_generate AES_encrypt SHA1 cr ut =
     (let ut = ut\<lparr>ut_hash := lib_ticket_hash SHA1 (ticket_bytes ut) 12\<rparr>;
          ticket = take USER_TICKET_LEN (ticket_bytes ut)
      in (OK, lib_ticket_encrypt AES_encrypt cr ticket, ut))"

definition lib_ticket_verify ::
  "cipher \<Rightarrow> (byte list \<Rightarrow> byte list) \<Rightarrow> crypt \<Rightarrow> byte list \<Rightarrow> int \<times> byte list"
where
  "lib_ticket_verify AES_decrypt SHA1 cr ticket =
     (let ticket = lib_ticket_decrypt AES_decrypt cr ticket
      in if \<not> lib_ticket_unhash SHA1 ticket 12 (drop 12 ticket) then (ERROR, ticket) else (OK, ticket))"

definition lib_ticket_encrypt_pwd :: "cipher \<Rightarrow> crypt \<Rightarrow> byte list \<Rightarrow> byte list" where
  "lib_ticket_encrypt_pwd AES_encrypt cr pwd = lib_ticket_encrypt AES_encrypt cr pwd"

definition lib_ticket_decrypt_pwd :: "cipher \<Rightarrow> crypt \<Rightarrow> byte list \<Rightarrow> byte list" where
  "lib_ticket_decrypt_pwd AES_decrypt cr pwd = lib_ticket_decrypt AES_decrypt cr pwd"

definition is_same_ticket :: "byte list \<Rightarrow> byte list \<Rightarrow> bool" where
  "is_same_ticket old new = (take USER_TICKET_LEN old = take USER_TICKET_LEN new)"

text \<open>What \<open>lib_ticket_dump\<close> prints.\<close>

definition lib_ticket_dump :: "byte list \<Rightarrow> string" where
  "lib_ticket_dump ticket =
     ''ticket = [0X '' @ concat (map (\<lambda>b. CHR '' '' # fmt_02x b) (take USER_TICKET_LEN ticket)) @ '']'' @ [NL]"

section \<open>Hexadecimal strings\<close>

definition HEX_TAG :: byte where "HEX_TAG = 0x0F"
definition HEX_BUF :: string where "HEX_BUF = ''0123456789ABCDEF''"

definition cstoi :: "char \<Rightarrow> int" where
  "cstoi ch =
     (if ch = CHR ''0'' then 0 else if ch = CHR ''1'' then 1 else if ch = CHR ''2'' then 2
      else if ch = CHR ''3'' then 3 else if ch = CHR ''4'' then 4 else if ch = CHR ''5'' then 5
      else if ch = CHR ''6'' then 6 else if ch = CHR ''7'' then 7 else if ch = CHR ''8'' then 8
      else if ch = CHR ''9'' then 9 else if ch = CHR ''A'' then 10 else if ch = CHR ''B'' then 11
      else if ch = CHR ''C'' then 12 else if ch = CHR ''D'' then 13 else if ch = CHR ''E'' then 14
      else if ch = CHR ''F'' then 15 else - 1)"

text \<open>\<open>hh\<close> and \<open>hl\<close> are \<open>char\<close>s, \<open>temp\<close> an \<open>unsigned char\<close>: the digit \<open>- 1\<close> of a bad character becomes \<open>0xF0\<close>.\<close>

definition hex_byte :: "char \<Rightarrow> char \<Rightarrow> byte" where
  "hex_byte h l = (let temp = word_of_int (cstoi h * 16) :: byte in temp + word_of_int (cstoi l))"

text \<open>
  \<open>n\<close> more bytes from the characters from \<open>tp\<close> on, the terminator included: \<open>None\<close> is a read past it.
\<close>

fun decode_loop :: "nat \<Rightarrow> string \<Rightarrow> byte list option" where
  "decode_loop 0 tp = Some []"
| "decode_loop (Suc n) (h # l # tp) = do {
     bs \<leftarrow> decode_loop n tp;
     Some (hex_byte h l # bs) }"
| "decode_loop (Suc n) tp = None"

definition lib_ticket_decode_str :: "string option \<Rightarrow> byte list option \<Rightarrow> (int \<times> byte list option) option" where
  "lib_ticket_decode_str opwd npwd =
     (case (opwd, npwd) of
        (Some s, Some dst) \<Rightarrow> do {
          bs \<leftarrow> decode_loop 32 (s @ [CHR 0x00]);
          _ \<leftarrow> (if 32 \<le> length dst then Some () else None);
          Some (OK, Some (bs @ drop 32 dst)) }
      | _ \<Rightarrow> Some (ERROR, npwd))"

text \<open>\<open>memcpy(npwd, buftp, strlen(buftp))\<close>: without a zero byte \<open>strlen\<close> reads past the 32 bytes.\<close>

definition lib_ticket_decode_pwd ::
  "cipher \<Rightarrow> crypt \<Rightarrow> string option \<Rightarrow> byte list option \<Rightarrow> (int \<times> byte list option) option"
where
  "lib_ticket_decode_pwd AES_decrypt cr opwd npwd =
     (case (opwd, npwd) of
        (Some s, Some dst) \<Rightarrow> do {
          bs \<leftarrow> decode_loop 32 (s @ [CHR 0x00]);
          let buftp = lib_ticket_decrypt_pwd AES_decrypt cr bs;
          let pwd = takeWhile (\<lambda>b. b \<noteq> 0) buftp;
          _ \<leftarrow> (if 0 \<in> set buftp \<and> length pwd \<le> length dst then Some () else None);
          Some (OK, Some (pwd @ drop (length pwd) dst)) }
      | _ \<Rightarrow> Some (ERROR, npwd))"

fun encode_loop :: "nat \<Rightarrow> byte list \<Rightarrow> string option" where
  "encode_loop 0 tp = Some []"
| "encode_loop (Suc n) (hx # tp) = do {
     let hl = hx AND HEX_TAG;
     let hh = drop_bit 4 hx AND HEX_TAG;
     cs \<leftarrow> encode_loop n tp;
     Some (HEX_BUF ! unat hh # HEX_BUF ! unat hl # cs) }"
| "encode_loop (Suc n) [] = None"

definition lib_encode_str :: "byte list option \<Rightarrow> string option \<Rightarrow> (int \<times> string option) option" where
  "lib_encode_str src dst =
     (case src of
        None \<Rightarrow> Some (- 1, dst)
      | Some s \<Rightarrow> do {
          cs \<leftarrow> encode_loop 32 s;
          d \<leftarrow> dst;
          _ \<leftarrow> (if 64 \<le> length d then Some () else None);
          Some (0, Some (cs @ drop 64 d)) })"

section \<open>Cookies\<close>

text \<open>
  The context of MD5 is a static variable, \<open>'m\<close>. The digest is appended to the string that is in the
  caller's buffer, 32 characters and the terminator for each call.
\<close>

definition lib_cookie_init :: "'m \<Rightarrow> 'm" where
  "lib_cookie_init MD5_Init = MD5_Init"

definition lib_cookie_create ::
  "('m \<Rightarrow> byte list \<Rightarrow> 'm) \<Rightarrow> ('m \<Rightarrow> byte list \<times> 'm) \<Rightarrow> string option \<Rightarrow> int \<Rightarrow> int \<Rightarrow> 'm \<Rightarrow>
   int \<times> string option \<times> 'm"
where
  "lib_cookie_create MD5_Update MD5_Final cookie uid random ctx =
     (case cookie of
        None \<Rightarrow> (- 1, None, ctx)
      | Some s \<Rightarrow>
          let buffer = fmt_d uid @ fmt_d random;
              ctx = MD5_Update ctx (bytes_of buffer);
              (md, ctx) = MD5_Final ctx
          in (0, Some (s @ concat (map fmt_02X (take 16 md))), ctx))"

section \<open>The block cipher over a ticket\<close>

lemma crypt_loop_two:
  assumes "length t = 32" and "\<And>b. length b = 16 \<Longrightarrow> length (f b) = 16"
  shows "crypt_loop f 0 t (replicate USER_TICKET_LEN 0) = f (take 16 t) @ f (drop 16 t)"
proof -
  have a: "length (f (take 16 t)) = 16" and b: "length (f (drop 16 t)) = 16"
    using assms by simp_all
  have t: "take 16 (drop 16 t) = drop 16 t" using assms(1) by simp
  have three: "crypt_loop f 32 t buf = buf" for buf
    by (subst crypt_loop.simps) (simp add: USER_TICKET_LEN_def)
  have two: "crypt_loop f 16 t buf = take 16 buf @ f (drop 16 t) @ drop 32 buf" for buf
    by (subst crypt_loop.simps) (simp add: USER_TICKET_LEN_def three t)
  show ?thesis
    by (subst crypt_loop.simps) (simp add: USER_TICKET_LEN_def two a b)
qed

lemma crypt_loop_inverse:
  assumes "length t = 32" and "\<And>b. length b = 16 \<Longrightarrow> length (f b) = 16"
    and "\<And>b. length b = 16 \<Longrightarrow> length (g b) = 16" and "\<And>b. length b = 16 \<Longrightarrow> g (f b) = b"
  shows "length (crypt_loop f 0 t (replicate USER_TICKET_LEN 0)) = 32"
    and "crypt_loop g 0 (crypt_loop f 0 t (replicate USER_TICKET_LEN 0)) (replicate USER_TICKET_LEN 0) = t"
proof -
  define u where "u = crypt_loop f 0 t (replicate USER_TICKET_LEN 0)"
  have u: "u = f (take 16 t) @ f (drop 16 t)"
    using crypt_loop_two [of t f] assms(1,2) by (simp add: u_def)
  have l: "length (f (take 16 t)) = 16" "length (f (drop 16 t)) = 16" using assms(1,2) by simp_all
  then show 1: "length u = 32" by (simp add: u)
  have "crypt_loop g 0 u (replicate USER_TICKET_LEN 0) = g (take 16 u) @ g (drop 16 u)"
    using crypt_loop_two [of u g] 1 assms(3) by simp
  also have "\<dots> = t" using l assms(1,4) by (simp add: u)
  finally show "crypt_loop g 0 u (replicate USER_TICKET_LEN 0) = t" .
qed

lemma ticket_onto:
  assumes "length t = 32"
  obtains ut where "ticket_bytes ut = t" "length (ut_hash ut) = 20"
proof -
  obtain a where a: "le32 a = take 4 t" using assms le32_onto [of "take 4 t"] by auto
  obtain b where b: "le32 b = take 4 (drop 4 t)" using assms le32_onto [of "take 4 (drop 4 t)"] by auto
  obtain c where c: "le32 c = take 4 (drop 8 t)" using assms le32_onto [of "take 4 (drop 8 t)"] by auto
  let ?u = "\<lparr>userid = a, lastlogin = b, ut_random = c, ut_hash = drop 12 t\<rparr>"
  have s: "take 4 (drop n t) @ drop (n + 4) t = drop n t" for n
    by (metis append_take_drop_id drop_drop add.commute)
  have "ticket_bytes ?u = take 4 t @ take 4 (drop 4 t) @ take 4 (drop 8 t) @ drop 12 t"
    by (simp add: ticket_bytes_def a b c)
  also have "\<dots> = t" using s [of 8] s [of 4] s [of 0] by simp
  finally show ?thesis using that [of ?u] assms by simp
qed

text \<open>What the code relies on of the cipher and the digest.\<close>

definition aes_ok :: "cipher \<Rightarrow> cipher \<Rightarrow> bool" where
  "aes_ok enc dec \<longleftrightarrow>
     (\<forall>k b. length b = 16 \<longrightarrow>
        length (enc k b) = 16 \<and> length (dec k b) = 16 \<and> dec k (enc k b) = b \<and> enc k (dec k b) = b)"

lemma decrypt_encrypt:
  assumes "aes_ok enc dec" and "lib_decrypt_key cr = lib_encrypt_key cr" and "length t = 32"
  shows "length (lib_ticket_encrypt enc cr t) = 32 \<and> lib_ticket_decrypt dec cr (lib_ticket_encrypt enc cr t) = t"
  using assms crypt_loop_inverse [of t "enc (lib_encrypt_key cr)" "dec (lib_decrypt_key cr)"]
  by (simp add: aes_ok_def lib_ticket_encrypt_def lib_ticket_decrypt_def)

lemma encrypt_decrypt:
  assumes "aes_ok enc dec" and "lib_decrypt_key cr = lib_encrypt_key cr" and "length t = 32"
  shows "length (lib_ticket_decrypt dec cr t) = 32 \<and> lib_ticket_encrypt enc cr (lib_ticket_decrypt dec cr t) = t"
  using assms crypt_loop_inverse [of t "dec (lib_decrypt_key cr)" "enc (lib_encrypt_key cr)"]
  by (simp add: aes_ok_def lib_ticket_encrypt_def lib_ticket_decrypt_def)

lemma ticket_bytes_parts: "take 12 (ticket_bytes ut) = le32 (userid ut) @ le32 (lastlogin ut) @ le32 (ut_random ut)"
    "drop 12 (ticket_bytes ut) = ut_hash ut"
  by (simp_all add: ticket_bytes_def)

lemma take_12_hash [simp]: "take 12 (ticket_bytes (ut\<lparr>ut_hash := v\<rparr>)) = take 12 (ticket_bytes ut)"
  by (simp add: ticket_bytes_parts)

text \<open>The hash field of the plain ticket and the bytes it is the hash of.\<close>

lemma generate_plain:
  fixes ut :: user_ticket
  assumes "\<And>b. length (SHA1 b) = 20"
  defines "p \<equiv> take 12 (ticket_bytes ut) @ SHA1 (take 12 (ticket_bytes ut))"
  shows "lib_ticket_generate enc SHA1 cr ut
       = (OK, lib_ticket_encrypt enc cr p, ut\<lparr>ut_hash := SHA1 (take 12 (ticket_bytes ut))\<rparr>)" and "length p = 32"
proof -
  let ?u = "ut\<lparr>ut_hash := SHA1 (take 12 (ticket_bytes ut))\<rparr>"
  show len: "length p = 32" by (simp add: p_def assms(1) ticket_bytes_def)
  have "ticket_bytes ?u = p"
    using ticket_bytes_parts(2) [of ?u] append_take_drop_id [of 12 "ticket_bytes ?u"] by (simp add: p_def)
  then show "lib_ticket_generate enc SHA1 cr ut
       = (OK, lib_ticket_encrypt enc cr p, ut\<lparr>ut_hash := SHA1 (take 12 (ticket_bytes ut))\<rparr>)"
    using len by (simp add: lib_ticket_generate_def lib_ticket_hash_def Let_def USER_TICKET_LEN_def)
qed

section \<open>Properties of the tickets\<close>

text \<open>C15: The server accepts exactly the tickets it made: with one key on both sides, a cipher whose two directions undo each other on 16-byte blocks and a 20-byte digest, \<open>lib_ticket_verify\<close> answers \<open>OK\<close> for 32 bytes if and only if they are what \<open>lib_ticket_generate\<close> returns for some user, time and random number; and what verification leaves in the buffer is then that structure in plain, with its hash.\<close>
theorem ticket_verify_iff_generated:
  assumes "aes_ok enc dec" and "\<And>b. length (SHA1 b) = 20" and "lib_decrypt_key cr = lib_encrypt_key cr"
    and "length t = 32"
  shows "(fst (lib_ticket_verify dec SHA1 cr t) = OK \<longleftrightarrow> (\<exists>ut. t = fst (snd (lib_ticket_generate enc SHA1 cr ut)))) \<and>
         (\<forall>ut. t = fst (snd (lib_ticket_generate enc SHA1 cr ut)) \<longrightarrow>
            snd (lib_ticket_verify dec SHA1 cr t) = ticket_bytes (snd (snd (lib_ticket_generate enc SHA1 cr ut))))"
proof -
  define d where "d = lib_ticket_decrypt dec cr t"
  have d: "length d = 32" "lib_ticket_encrypt enc cr d = t"
    using encrypt_decrypt [OF assms(1,3,4)] by (simp_all add: d_def)
  have v: "lib_ticket_verify dec SHA1 cr t = (if drop 12 d = SHA1 (take 12 d) then OK else ERROR, d)"
    using d(1) by (simp add: lib_ticket_verify_def lib_ticket_unhash_def Let_def flip: d_def)
  have plain: "d = take 12 (ticket_bytes ut) @ SHA1 (take 12 (ticket_bytes ut)) \<and>
      d = ticket_bytes (snd (snd (lib_ticket_generate enc SHA1 cr ut)))"
    if "t = fst (snd (lib_ticket_generate enc SHA1 cr ut))" for ut
  proof -
    let ?p = "take 12 (ticket_bytes ut) @ SHA1 (take 12 (ticket_bytes ut))"
    have g: "lib_ticket_generate enc SHA1 cr ut
        = (OK, lib_ticket_encrypt enc cr ?p, ut\<lparr>ut_hash := SHA1 (take 12 (ticket_bytes ut))\<rparr>)" and l: "length ?p = 32"
      using generate_plain [of SHA1] assms(2) by simp_all
    have "d = ?p" using that g decrypt_encrypt [OF assms(1,3) l] by (simp add: d_def)
    moreover have "ticket_bytes (ut\<lparr>ut_hash := SHA1 (take 12 (ticket_bytes ut))\<rparr>) = ?p"
      using ticket_bytes_parts(2) [of "ut\<lparr>ut_hash := SHA1 (take 12 (ticket_bytes ut))\<rparr>"]
        append_take_drop_id [of 12 "ticket_bytes (ut\<lparr>ut_hash := SHA1 (take 12 (ticket_bytes ut))\<rparr>)"] by simp
    ultimately show ?thesis using g by simp
  qed
  have made: "\<exists>ut. t = fst (snd (lib_ticket_generate enc SHA1 cr ut))" if ok: "drop 12 d = SHA1 (take 12 d)"
  proof -
    obtain ut where ut: "ticket_bytes ut = d" using ticket_onto [OF d(1)] by blast
    have "take 12 (ticket_bytes ut) @ SHA1 (take 12 (ticket_bytes ut)) = d"
      using ok append_take_drop_id [of 12 d] by (simp add: ut)
    then have "fst (snd (lib_ticket_generate enc SHA1 cr ut)) = t"
      using generate_plain(1) [of SHA1 enc cr ut] assms(2) d(2) by simp
    then show ?thesis by blast
  qed
  have ok: "fst (lib_ticket_verify dec SHA1 cr t) = OK \<longleftrightarrow> drop 12 d = SHA1 (take 12 d)"
    and rest: "snd (lib_ticket_verify dec SHA1 cr t) = d" by (simp_all add: v)
  have gen: "drop 12 d = SHA1 (take 12 d)" if "t = fst (snd (lib_ticket_generate enc SHA1 cr ut))" for ut
  proof -
    have "length (take 12 (ticket_bytes ut)) = 12" by (simp add: ticket_bytes_def)
    then show ?thesis using plain [OF that] by simp
  qed
  show ?thesis
    unfolding ok rest using made gen plain by blast
qed

definition crypt_demo :: crypt where
  "crypt_demo = \<lparr>lib_cryptstr = [], lib_encrypt_key = [3], lib_decrypt_key = [3]\<rparr>"

definition ut_demo :: user_ticket where
  "ut_demo = \<lparr>userid = 7, lastlogin = 0x01020304, ut_random = 9, ut_hash = []\<rparr>"

theorem ticket_verify_iff_generated_witness:
  "fst (lib_ticket_verify (\<lambda>k b. rev b) (\<lambda>b. replicate 20 5) crypt_demo
     (fst (snd (lib_ticket_generate (\<lambda>k b. rev b) (\<lambda>b. replicate 20 5) crypt_demo ut_demo)))) = OK"
proof -
  let ?t = "fst (snd (lib_ticket_generate (\<lambda>k b. rev b) (\<lambda>b. replicate 20 5) crypt_demo ut_demo))"
  have aes: "aes_ok (\<lambda>k b. rev b) (\<lambda>k b. rev b)" by (simp add: aes_ok_def)
  have len: "length ?t = 32"
    using generate_plain(1) [of "\<lambda>b. replicate 20 5" "\<lambda>k b. rev b" crypt_demo ut_demo]
      generate_plain(2) [of "\<lambda>b. replicate 20 5" ut_demo]
      decrypt_encrypt [OF aes, of crypt_demo] by (simp add: crypt_demo_def)
  show ?thesis
    using ticket_verify_iff_generated [OF aes, of "\<lambda>b. replicate 20 5" crypt_demo ?t] len
    by (auto simp: crypt_demo_def)
qed

section \<open>The hexadecimal encoding\<close>

lemma cstoi_HEX_BUF: "k < 16 \<Longrightarrow> cstoi (HEX_BUF ! k) = int k"
  by (simp add: HEX_BUF_def less_Suc_eq numeral_eq_Suc) (auto simp: cstoi_def)

lemma nibbles:
  fixes b :: byte
  shows "unat (b AND HEX_TAG) = unat b mod 16" and "unat (drop_bit 4 b) mod 16 = unat b div 16"
proof -
  have m: "x AND HEX_TAG = take_bit 4 x" for x :: byte
    by (simp add: take_bit_eq_mask HEX_TAG_def mask_eq_exp_minus_1)
  have t: "unat (take_bit 4 x) = unat x mod 16" for x :: byte
    by (simp only: unsigned_take_bit_eq) (simp add: take_bit_eq_mod)
  show "unat (b AND HEX_TAG) = unat b mod 16"
    by (simp only: m t)
  have "unat b < 256" using unsigned_less [where 'a = nat, of b] by simp
  then show "unat (drop_bit 4 b) mod 16 = unat b div 16"
    by (simp only: unat_drop_bit_eq) (simp add: drop_bit_eq_div)
qed

lemma hex_byte_digits: "hex_byte (HEX_BUF ! unat (drop_bit 4 b AND HEX_TAG)) (HEX_BUF ! unat (b AND HEX_TAG)) = b"
proof -
  have lt: "unat b div 16 < 16" using unsigned_less [where 'a = nat, of b] by simp
  have "int (unat b div 16) * 16 + int (unat b mod 16) = uint b"
    by (simp add: zdiv_int zmod_int)
  then have "word_of_int (int (unat b div 16) * 16) + word_of_int (int (unat b mod 16)) = b"
    by (simp only: wi_hom_add) (simp only: word_of_int_uint)
  then show ?thesis using lt by (simp add: hex_byte_def nibbles cstoi_HEX_BUF)
qed

lemma encode_decode_loop:
  "n \<le> length s \<Longrightarrow>
   \<exists>cs. encode_loop n s = Some cs \<and> length cs = 2 * n \<and> set cs \<subseteq> set HEX_BUF \<and>
        (\<forall>rest. decode_loop n (cs @ rest) = Some (take n s))"
proof (induction n arbitrary: s)
  case 0
  then show ?case by simp
next
  case (Suc n)
  then obtain hx s' where s: "s = hx # s'" by (cases s) auto
  obtain cs where cs: "encode_loop n s' = Some cs" "length cs = 2 * n" "set cs \<subseteq> set HEX_BUF"
      "\<forall>rest. decode_loop n (cs @ rest) = Some (take n s')"
    using Suc.IH [of s'] Suc.prems s by fastforce
  have "unat hx div 16 < length HEX_BUF" "unat hx mod 16 < length HEX_BUF"
    using unsigned_less [where 'a = nat, of hx] by (simp_all add: HEX_BUF_def)
  then have "HEX_BUF ! unat (drop_bit 4 hx AND HEX_TAG) \<in> set HEX_BUF" "HEX_BUF ! unat (hx AND HEX_TAG) \<in> set HEX_BUF"
    by (auto simp only: nibbles intro!: nth_mem)
  then show ?case using cs by (simp add: s hex_byte_digits)
qed

text \<open>Encoding and decoding are inverse: for 32 bytes and a destination with room for 64 characters \<open>lib_encode_str\<close> writes 64 upper-case hexadecimal digits and touches nothing behind them, and \<open>lib_ticket_decode_str\<close> turns that text, whatever follows it, back into the same 32 bytes.\<close>
theorem encode_decode_str:
  assumes "length src = 32" and "64 \<le> length dst" and "32 \<le> length out"
  shows "\<exists>cs. lib_encode_str (Some src) (Some dst) = Some (0, Some (cs @ drop 64 dst)) \<and> length cs = 64 \<and>
              set cs \<subseteq> set HEX_BUF \<and>
              lib_ticket_decode_str (Some (cs @ drop 64 dst)) (Some out) = Some (OK, Some (src @ drop 32 out))"
proof -
  obtain cs where "encode_loop 32 src = Some cs" "length cs = 64" "set cs \<subseteq> set HEX_BUF"
      "\<forall>rest. decode_loop 32 (cs @ rest) = Some src"
    using encode_decode_loop [of 32 src] assms(1) by auto
  then show ?thesis using assms by (simp add: lib_encode_str_def lib_ticket_decode_str_def)
qed

theorem encode_decode_str_witness:
  "\<exists>cs. lib_encode_str (Some (replicate 32 0xAB)) (Some (replicate 65 CHR 0x00)) = Some (0, Some (cs @ [CHR 0x00])) \<and>
        length cs = 64 \<and>
        lib_ticket_decode_str (Some (cs @ [CHR 0x00])) (Some (replicate 33 0)) = Some (OK, Some (replicate 32 0xAB @ [0]))"
proof -
  have "drop 64 (replicate 65 (CHR 0x00)) = [CHR 0x00]" "drop 32 (replicate 33 (0 :: byte)) = [0]"
    by (simp_all add: drop_replicate)
  then show ?thesis
    using encode_decode_str [of "replicate 32 0xAB" "replicate 65 (CHR 0x00)" "replicate 33 0"] by auto
qed

section \<open>Cookies\<close>

text \<open>The number of characters a call adds to the buffer.\<close>

lemma lib_cookie_create_length:
  assumes "\<And>c. length (fst (MD5_Final c)) = 16"
  shows "\<exists>hex. fst (snd (lib_cookie_create MD5_Update MD5_Final (Some s) uid r ctx)) = Some (s @ hex) \<and> length hex = 32"
proof -
  have "length (concat (map fmt_02X bs)) = 2 * length bs" for bs
    by (induction bs) (simp_all add: fmt_02X_def)
  then show ?thesis
    using assms by (simp add: lib_cookie_create_def Let_def case_prod_unfold)
qed

text \<open>The cookie does not determine the session it is for: the user number and the random number are printed one after the other without a separator, so that the pairs 1, 23 and 12, 3 give the same cookie from the same context, whatever the digest is.\<close>
theorem cookie_collision:
  "lib_cookie_create MD5_Update MD5_Final cookie 1 23 ctx = lib_cookie_create MD5_Update MD5_Final cookie 12 3 ctx"
  by (simp add: lib_cookie_create_def fmt_d_def dec_digits.simps split: option.splits)

section \<open>The key\<close>

text \<open>Without the lock file the key is the built-in one.\<close>

lemma lib_crypt_init_default:
  assumes "init_lock fd CONFIG_LOCK_FILE fs = (- 1, fs')"
  shows "\<exists>fs'. lib_crypt_init fd fs cr =
           Some (cr\<lparr>lib_cryptstr := bytes_of TICKET_AES_CRYPT_STRING, lib_encrypt_key := bytes_of TICKET_AES_CRYPT_STRING,
                   lib_decrypt_key := bytes_of TICKET_AES_CRYPT_STRING\<rparr>, fs')"
  using assms
  by (simp add: lib_crypt_init_def config_get_def TICKET_AES_CRYPT_STRING_def AES_BLOCK_SIZE_def bytes_of_def ERROR_def Let_def)

end
