(* ===== verification/LibSocket.thy ===== *)
theory LibSocket imports Bytes LibString begin

text \<open>
  \<open>Server/Lib/lib-socket.c\<close>: the socket wrappers. The answers of the coming system calls are part of
  the state, each the value returned and the \<open>errno\<close> it leaves; once the list is used up a call
  answers 0. Received data comes as a list of pieces, of the sizes the network delivers.
\<close>

section \<open>System calls\<close>

type_synonym answer = "int \<times> int"

record sock =
  answers :: "answer list"
  closed :: "int list"

definition EINTR :: int where "EINTR = 4"
definition EAGAIN :: int where "EAGAIN = 11"
definition EWOULDBLOCK :: int where "EWOULDBLOCK = 11"
definition EINPROGRESS :: int where "EINPROGRESS = 115"
definition SOCK_STREAM :: int where "SOCK_STREAM = 1"
definition SOCK_DGRAM :: int where "SOCK_DGRAM = 2"

definition sys_call :: "'a sock_scheme \<Rightarrow> int \<times> int \<times> 'a sock_scheme" where
  "sys_call s = (case answers s of
      [] \<Rightarrow> (0, 0, s)
    | (ret, err) # as \<Rightarrow> (ret, err, s\<lparr>answers := as\<rparr>))"

definition IS_SOCKET_SHOULD_CONTINUE :: "int \<Rightarrow> bool" where
  "IS_SOCKET_SHOULD_CONTINUE err = (err = EINTR)"

definition IS_SOCKET_ACCEPT_NO_NEW :: "int \<Rightarrow> bool" where
  "IS_SOCKET_ACCEPT_NO_NEW err = (err = EWOULDBLOCK \<or> err = EAGAIN)"

text \<open>\<open>while (1) { ret = call(...); if (ret < 0 && interrupted) continue; return ret; }\<close>\<close>

fun retry_answers :: "answer list \<Rightarrow> int \<times> int \<times> answer list" where
  "retry_answers [] = (0, 0, [])"
| "retry_answers ((ret, err) # as) =
     (if ret < 0 \<and> IS_SOCKET_SHOULD_CONTINUE err then retry_answers as else (ret, err, as))"

definition retry_call :: "'a sock_scheme \<Rightarrow> int \<times> int \<times> 'a sock_scheme" where
  "retry_call s = (let (ret, err, as) = retry_answers (answers s) in (ret, err, s\<lparr>answers := as\<rparr>))"

definition close_fd :: "int \<Rightarrow> 'a sock_scheme \<Rightarrow> 'a sock_scheme" where
  "close_fd fd s = s\<lparr>closed := fd # closed s\<rparr>"

section \<open>Wrappers\<close>

definition lib_socket_tcp_nodelay :: "int \<Rightarrow> 'a sock_scheme \<Rightarrow> int \<times> 'a sock_scheme" where
  "lib_socket_tcp_nodelay fd s =
     (if fd \<le> 0 then (- 1, s)
      else let (ret, _, s) = sys_call s in (if ret = - 1 then - 1 else 0, s))"

definition lib_socket :: "int \<Rightarrow> 'a sock_scheme \<Rightarrow> int \<times> 'a sock_scheme" where
  "lib_socket type s =
     (let (fd, _, s) = sys_call s
      in if fd \<le> 0 then (- 1, s)
      else let s = (if type = SOCK_STREAM then snd (lib_socket_tcp_nodelay fd s) else s)
           in (fd, s))"

definition lib_socketpair :: "'a sock_scheme \<Rightarrow> int \<times> 'a sock_scheme" where
  "lib_socketpair s = (let (ret, _, s) = sys_call s in (ret, s))"

definition lib_bind :: "int \<Rightarrow> 'a sock_scheme \<Rightarrow> int \<times> 'a sock_scheme" where
  "lib_bind fd s = (let (ret, _, s) = sys_call s in (ret, s))"

definition lib_connect_nonblock :: "int \<Rightarrow> 'a sock_scheme \<Rightarrow> int \<times> int \<times> 'a sock_scheme" where
  "lib_connect_nonblock fd s = retry_call s"

definition lib_connect :: "int \<Rightarrow> 'a sock_scheme \<Rightarrow> int \<times> 'a sock_scheme" where
  "lib_connect fd s = (let (ret, _, s) = retry_call s in (ret, s))"

definition lib_accept :: "int \<Rightarrow> 'a sock_scheme \<Rightarrow> int \<times> 'a sock_scheme" where
  "lib_accept fd s =
     (let (ret, _, s) = retry_call s
      in if ret < 0 then (ret, s) else (ret, snd (lib_socket_tcp_nodelay ret s)))"

definition lib_accept_nonblock :: "int \<Rightarrow> 'a sock_scheme \<Rightarrow> int \<times> 'a sock_scheme" where
  "lib_accept_nonblock fd s =
     (let (ret, err, s) = sys_call s
      in if ret < 0 then (if IS_SOCKET_ACCEPT_NO_NEW err then (OK, s) else (ret, s)) else (ret, s))"

definition lib_send :: "int \<Rightarrow> 'a sock_scheme \<Rightarrow> int \<times> 'a sock_scheme" where
  "lib_send fd s = (let (ret, _, s) = retry_call s in (ret, s))"

definition lib_sendto :: "int \<Rightarrow> 'a sock_scheme \<Rightarrow> int \<times> 'a sock_scheme" where
  "lib_sendto fd s = (let (ret, _, s) = retry_call s in (ret, s))"

definition lib_close :: "int \<Rightarrow> 'a sock_scheme \<Rightarrow> int \<times> 'a sock_scheme" where
  "lib_close fd s = (OK, if 0 < fd then close_fd fd s else s)"

definition lib_set_fd_timeout :: "int \<Rightarrow> int \<Rightarrow> 'a sock_scheme \<Rightarrow> int \<times> 'a sock_scheme" where
  "lib_set_fd_timeout fd timeout s =
     (if timeout \<le> 0 then (OK, s)
      else let (ret, _, s) = sys_call s in (if ret < 0 then ERROR else OK, s))"

definition lib_select :: "int \<Rightarrow> 'a sock_scheme \<Rightarrow> int \<times> 'a sock_scheme" where
  "lib_select seconds s = (let (ret, _, s) = sys_call s in (ret, s))"

text \<open>
  \<open>lib_sendn\<close> over the answers of \<open>send\<close>: what was handed over, and the return value. An answer of
  zero is treated like an error and read with whatever \<open>errno\<close> is left over.
\<close>

fun sendn_loop :: "nat \<Rightarrow> byte list \<Rightarrow> byte list \<Rightarrow> answer list \<Rightarrow> (bool \<times> byte list \<times> answer list)" where
  "sendn_loop 0 data out as = (True, out, as)"
| "sendn_loop (Suc n) data out [] = (False, out, [])"
| "sendn_loop (Suc n) data out ((nwritten, err) # as) =
     (if nwritten \<le> 0
      then if IS_SOCKET_SHOULD_CONTINUE err then sendn_loop (Suc n) data out as else (False, out, as)
      else sendn_loop (Suc n - nat nwritten) (drop (nat nwritten) data) (out @ take (nat nwritten) data) as)"

definition lib_sendn :: "int \<Rightarrow> byte list \<Rightarrow> int \<Rightarrow> 'a sock_scheme \<Rightarrow> int \<times> byte list \<times> 'a sock_scheme" where
  "lib_sendn fd buf len s =
     (let (ok, out, as) = sendn_loop (nat len) buf [] (answers s)
      in (if ok then len else - 1, out, s\<lparr>answers := as\<rparr>))"

section \<open>Receiving\<close>

text \<open>
  What \<open>recv\<close> finds: some bytes (none: the peer has closed), an interruption, or another error. The
  end of the list is the end of the stream.
\<close>

datatype recv_ev = Data "byte list" | Interrupted | Failed

text \<open>\<open>recv(fd, ptr, n, flags)\<close>: the return value, \<open>errno\<close>, the bytes stored.\<close>

fun recv_call :: "nat \<Rightarrow> recv_ev list \<Rightarrow> int \<times> int \<times> byte list \<times> recv_ev list" where
  "recv_call n [] = (0, 0, [], [])"
| "recv_call n (Interrupted # es) = (- 1, EINTR, [], es)"
| "recv_call n (Failed # es) = (- 1, 0, [], es)"
| "recv_call n (Data bs # es) =
     (if length bs \<le> n then (int (length bs), 0, bs, es)
      else (int n, 0, take n bs, Data (drop n bs) # es))"

text \<open>Storing what arrives at an offset of the caller's array; \<open>None\<close> is a write past its end.\<close>

definition put_bytes :: "nat \<Rightarrow> byte list \<Rightarrow> byte list \<Rightarrow> byte list option" where
  "put_bytes off bs buf =
     (if off + length bs \<le> length buf then Some (take off buf @ bs @ drop (off + length bs) buf) else None)"

fun recv_retry :: "nat \<Rightarrow> recv_ev list \<Rightarrow> int \<times> byte list \<times> recv_ev list" where
  "recv_retry n (Interrupted # es) = recv_retry n es"
| "recv_retry n es = (let (ret, _, bs, es) = recv_call n es in (ret, bs, es))"

definition lib_recv :: "int \<Rightarrow> nat \<Rightarrow> byte list \<Rightarrow> int \<Rightarrow> recv_ev list \<Rightarrow> (int \<times> byte list \<times> recv_ev list) option" where
  "lib_recv fd off buf len es = do {
     let (ret, bs, es) = recv_retry (nat len) es;
     buf \<leftarrow> put_bytes off bs buf;
     Some (ret, buf, es) }"

definition lib_recvfrom :: "int \<Rightarrow> byte list \<Rightarrow> int \<Rightarrow> recv_ev list \<Rightarrow> (int \<times> byte list \<times> recv_ev list) option" where
  "lib_recvfrom fd buf len es = lib_recv fd 0 buf len es"

text \<open>
  The loop of \<open>lib_recvn\<close>: \<open>nleft\<close> bytes to come, \<open>got\<close> those stored. The second interruption ends it,
  however many bytes came between the two.
\<close>

fun recvn_loop :: "nat \<Rightarrow> byte list \<Rightarrow> nat \<Rightarrow> recv_ev list \<Rightarrow> int \<times> byte list \<times> recv_ev list" where
  "recvn_loop 0 got trycnt es = (int (length got), got, es)"
| "recvn_loop (Suc n) got trycnt [] = (0, got, [])"
| "recvn_loop (Suc n) got trycnt (Interrupted # es) =
     (if 2 \<le> Suc trycnt then (- 1, got, es) else recvn_loop (Suc n) got (Suc trycnt) es)"
| "recvn_loop (Suc n) got trycnt (Failed # es) = (- 1, got, es)"
| "recvn_loop (Suc n) got trycnt (Data bs # es) =
     (if bs = [] then (0, got, es)
      else if length bs \<le> Suc n then recvn_loop (Suc n - length bs) (got @ bs) trycnt es
      else (int (length got + Suc n), got @ take (Suc n) bs, Data (drop (Suc n) bs) # es))"

definition lib_recvn :: "int \<Rightarrow> nat \<Rightarrow> byte list \<Rightarrow> int \<Rightarrow> recv_ev list \<Rightarrow> (int \<times> byte list \<times> recv_ev list) option" where
  "lib_recvn fd off buf len es = do {
     let (ret, bs, es) = recvn_loop (nat len) [] 0 es;
     buf \<leftarrow> put_bytes off bs buf;
     Some (ret, buf, es) }"

text \<open>\<open>sel\<close> is the answer of \<open>select\<close>; a positive one means the only descriptor of the set is readable.\<close>

definition lib_recv_timeout ::
  "int \<Rightarrow> byte list \<Rightarrow> int \<Rightarrow> int \<Rightarrow> recv_ev list \<Rightarrow> (int \<times> byte list \<times> recv_ev list) option"
where
  "lib_recv_timeout fd buf len sel es = (if sel \<le> 0 then Some (sel, buf, es) else lib_recv fd 0 buf len es)"

definition lib_recvn_timeout ::
  "int \<Rightarrow> byte list \<Rightarrow> int \<Rightarrow> int \<Rightarrow> recv_ev list \<Rightarrow> (int \<times> byte list \<times> recv_ev list) option"
where
  "lib_recvn_timeout fd buf len sel es = (if sel \<le> 0 then Some (sel, buf, es) else lib_recvn fd 0 buf len es)"

section \<open>Messages\<close>

text \<open>\<open>msg_head_t\<close>: type, length of the payload, payload. A size computed in \<open>size_t\<close> has 64 bits.\<close>

definition MSG_HEAD_LEN :: nat where "MSG_HEAD_LEN = 8"
definition MAX_MSG_LEN :: int where "MAX_MSG_LEN = 1024 * 1024"

record msg_head =
  msg :: "32 word"
  len :: "32 word"
  payload :: "byte list"

definition head_bytes :: "msg_head \<Rightarrow> byte list" where
  "head_bytes m = le32 (msg m) @ le32 (len m)"

text \<open>\<open>lib_sendn\<close> of the head and \<open>n\<close> bytes of payload: \<open>None\<close> is a read past the end of the message.\<close>

definition send_frame :: "int \<Rightarrow> msg_head \<Rightarrow> 32 word \<Rightarrow> 'a sock_scheme \<Rightarrow> (int \<times> byte list \<times> 'a sock_scheme) option" where
  "send_frame fd m n s =
     (let sz = 8 + uint n
      in if length (payload m) < unat n then None
      else
        let (i, out, s) = lib_sendn fd (head_bytes m @ take (unat n) (payload m)) (c_int sz) s
        in Some (if i mod 2 ^ 64 \<noteq> sz then - 1 else c_int sz, out, s))"

definition lib_send_msg :: "int \<Rightarrow> msg_head option \<Rightarrow> 'a sock_scheme \<Rightarrow> (int \<times> byte list \<times> 'a sock_scheme) option" where
  "lib_send_msg fd pmsg s =
     (case pmsg of
        None \<Rightarrow> Some (- 1, [], s)
      | Some m \<Rightarrow> if fd \<le> 0 then Some (- 1, [], s) else send_frame fd m (len m) s)"

text \<open>The head is converted in place and stays converted.\<close>

definition lib_send_msg_htonl ::
  "int \<Rightarrow> msg_head option \<Rightarrow> 'a sock_scheme \<Rightarrow> (int \<times> byte list \<times> msg_head option \<times> 'a sock_scheme) option"
where
  "lib_send_msg_htonl fd pmsg s =
     (case pmsg of
        None \<Rightarrow> Some (- 1, [], pmsg, s)
      | Some m \<Rightarrow>
          if fd \<le> 0 then Some (- 1, [], pmsg, s)
          else
            let n = len m;
                m = m\<lparr>msg := htonl (msg m), len := htonl (len m)\<rparr>
            in do { (i, out, s) \<leftarrow> send_frame fd m n s; Some (i, out, Some m, s) })"

text \<open>The fields of the head in the receiver's array.\<close>

definition msg_of :: "byte list \<Rightarrow> 32 word" where
  "msg_of buf = word_of_bytes (take 4 buf)"

definition len_of :: "byte list \<Rightarrow> 32 word" where
  "len_of buf = word_of_bytes (take 4 (drop 4 buf))"

definition too_long :: "32 word \<Rightarrow> int \<Rightarrow> bool" where
  "too_long n sz = (MAX_MSG_LEN < uint n \<or> (sz - 8) mod 2 ^ 64 < uint n)"

definition recv_payload :: "int \<Rightarrow> byte list \<Rightarrow> recv_ev list \<Rightarrow> (int \<times> byte list \<times> recv_ev list) option" where
  "recv_payload fd buf es = do {
     let n = uint (len_of buf);
     (i, buf, es) \<leftarrow> lib_recvn fd MSG_HEAD_LEN buf n es;
     if i mod 2 ^ 32 \<noteq> uint (len_of buf) then Some (- 1, buf, es)
     else Some (uint (len_of buf) + 8, buf, es) }"

definition lib_recv_msg :: "int \<Rightarrow> byte list option \<Rightarrow> int \<Rightarrow> recv_ev list \<Rightarrow> (int \<times> byte list option \<times> recv_ev list) option" where
  "lib_recv_msg fd buf sz es =
     (case buf of
        None \<Rightarrow> Some (- 1, None, es)
      | Some b \<Rightarrow>
          if fd \<le> 0 then Some (- 1, Some b, es)
          else do {
            (i, b, es) \<leftarrow> lib_recvn fd 0 b 8 es;
            if i \<noteq> 8 then Some (- 1, Some b, es)
            else if too_long (len_of b) sz then Some (- 1, Some b, es)
            else do { (i, b, es) \<leftarrow> recv_payload fd b es; Some (i, Some b, es) } })"

definition lib_recv_msg_ntohl ::
  "int \<Rightarrow> byte list option \<Rightarrow> int \<Rightarrow> recv_ev list \<Rightarrow> (int \<times> byte list option \<times> recv_ev list) option"
where
  "lib_recv_msg_ntohl fd buf sz es =
     (case buf of
        None \<Rightarrow> Some (- 1, None, es)
      | Some b \<Rightarrow>
          if fd \<le> 0 then Some (- 1, Some b, es)
          else do {
            (i, b, es) \<leftarrow> lib_recvn fd 0 b 8 es;
            if i \<noteq> 8 then Some (- 1, Some b, es)
            else
              let b = le32 (htonl (msg_of b)) @ le32 (htonl (len_of b)) @ drop 8 b
              in if too_long (len_of b) sz then Some (- 1, Some b, es)
              else do { (i, b, es) \<leftarrow> recv_payload fd b es; Some (i, Some b, es) } })"

text \<open>The first test reads the length from the array before anything has been received into it.\<close>

definition lib_recv_msg_timeout ::
  "int \<Rightarrow> byte list option \<Rightarrow> int \<Rightarrow> int \<Rightarrow> recv_ev list \<Rightarrow> (int \<times> byte list option \<times> recv_ev list) option"
where
  "lib_recv_msg_timeout fd buf sz sel es =
     (case buf of
        None \<Rightarrow> Some (- 1, None, es)
      | Some b \<Rightarrow>
          if fd \<le> 0 then Some (- 1, Some b, es)
          else if length b < 8 then None
          else if sz mod 2 ^ 64 < uint (len_of b) + 8 then Some (- 1, Some b, es)
          else do {
            (i, b, es) \<leftarrow> lib_recvn_timeout fd b 8 sel es;
            if i \<noteq> 8 then Some (i, Some b, es)
            else if too_long (len_of b) sz then Some (- 1, Some b, es)
            else do { (i, b, es) \<leftarrow> recv_payload fd b es; Some (i, Some b, es) } })"

definition lib_sendto_msg :: "int \<Rightarrow> msg_head option \<Rightarrow> 'a sock_scheme \<Rightarrow> int \<times> 'a sock_scheme" where
  "lib_sendto_msg fd pmsg s =
     (if pmsg = None \<or> fd \<le> 0 then (- 1, s)
      else let (i, s) = lib_send fd s in (if i \<le> 0 then - 1 else i, s))"

definition lib_recvfrom_msg ::
  "int \<Rightarrow> byte list option \<Rightarrow> int \<Rightarrow> recv_ev list \<Rightarrow> (int \<times> byte list option \<times> recv_ev list) option"
where
  "lib_recvfrom_msg fd buf sz es =
     (case buf of
        None \<Rightarrow> Some (- 1, None, es)
      | Some b \<Rightarrow>
          if fd \<le> 0 \<or> sz \<le> 0 then Some (- 1, Some b, es)
          else do { (i, b, es) \<leftarrow> lib_recvfrom fd b sz es; Some (i, Some b, es) })"

section \<open>Opening connections\<close>

text \<open>
  The steps that decide about success, in the order of the calls. \<open>close_err\<close> is the error exit after
  the socket has been opened.
\<close>

definition close_err :: "int \<Rightarrow> 'a sock_scheme \<Rightarrow> int \<times> 'a sock_scheme" where
  "close_err fd s = (ERROR, close_fd fd s)"

definition SUN_PATH_LEN :: nat where "SUN_PATH_LEN = 108"

definition lib_server_unix :: "string option \<Rightarrow> int \<Rightarrow> 'a sock_scheme \<Rightarrow> (int \<times> 'a sock_scheme) option" where
  "lib_server_unix sun_path type s =
     (case sun_path of
        None \<Rightarrow> Some (ERROR, s)
      | Some path \<Rightarrow>
          let (fd, s) = lib_socket type s
          in if fd \<le> 0 then Some (ERROR, s)
          else let (ret, _, s) = sys_call s
          in if ret \<noteq> OK then Some (close_err fd s)
          else if SUN_PATH_LEN \<le> length path then None
          else let (ret, _, s) = sys_call s
          in if ret \<noteq> OK then Some (close_err fd s)
          else if type = SOCK_STREAM
          then (let (ret, _, s) = sys_call s
                in if ret \<noteq> OK then Some (close_err fd s) else Some (fd, s))
          else Some (fd, s))"

definition lib_client_unix :: "string option \<Rightarrow> int \<Rightarrow> 'a sock_scheme \<Rightarrow> (int \<times> 'a sock_scheme) option" where
  "lib_client_unix sun_path type s =
     (case sun_path of
        None \<Rightarrow> Some (ERROR, s)
      | Some path \<Rightarrow>
          let (fd, s) = lib_socket type s
          in if fd \<le> 0 then Some (ERROR, s)
          else if SUN_PATH_LEN \<le> length path then None
          else let (ret, _, s) = sys_call s
          in if ret < 0 then Some (close_err fd s) else Some (fd, s))"

definition lib_server_udp :: "'a sock_scheme \<Rightarrow> int \<times> 'a sock_scheme" where
  "lib_server_udp s =
     (let (fd, s) = lib_socket SOCK_DGRAM s
      in if fd \<le> 0 then (ERROR, s)
      else let (ret, _, s) = sys_call s
      in if ret \<noteq> OK then close_err fd s
      else let (ret, s) = lib_bind fd s
      in if ret \<noteq> OK then close_err fd s else (fd, s))"

definition bind_listen :: "int \<Rightarrow> 'a sock_scheme \<Rightarrow> int \<times> 'a sock_scheme" where
  "bind_listen fd s =
     (let (ret, s) = lib_bind fd s
      in if ret \<noteq> OK then close_err fd s
      else let (ret, _, s) = sys_call s
      in if ret \<noteq> OK then close_err fd s else (fd, s))"

text \<open>The two \<open>fcntl\<close> calls in between are not checked.\<close>

definition lib_server_nonblock :: "'a sock_scheme \<Rightarrow> int \<times> 'a sock_scheme" where
  "lib_server_nonblock s =
     (let (fd, s) = lib_socket SOCK_STREAM s
      in if fd \<le> 0 then (ERROR, s)
      else let (ret, _, s) = sys_call s
      in if ret \<noteq> OK then close_err fd s
      else let (flag, _, s) = sys_call s;
               (_, _, s) = sys_call s
      in bind_listen fd s)"

definition lib_server :: "'a sock_scheme \<Rightarrow> int \<times> 'a sock_scheme" where
  "lib_server s =
     (let (fd, s) = lib_socket SOCK_STREAM s
      in if fd \<le> 0 then (ERROR, s)
      else let (ret, _, s) = sys_call s
      in if ret \<noteq> OK then close_err fd s
      else bind_listen fd s)"

text \<open>\<open>resolve\<close> tells whether \<open>gethostbyname_r\<close> finds the name; without a name the local host is used.\<close>

definition lib_client :: "(string \<Rightarrow> bool) \<Rightarrow> string option \<Rightarrow> int \<Rightarrow> 'a sock_scheme \<Rightarrow> int \<times> 'a sock_scheme" where
  "lib_client resolve ipstr type s =
     (if (case ipstr of None \<Rightarrow> False | Some name \<Rightarrow> \<not> resolve name) then (ERROR, s)
      else let (fd, s) = lib_socket type s
      in if fd \<le> 0 then (ERROR, s)
      else let (ret, s) = lib_connect fd s
      in if ret < 0 then close_err fd s else (fd, s))"

definition lib_client2 ::
  "(string \<Rightarrow> bool) \<Rightarrow> string option \<Rightarrow> int \<Rightarrow> int \<Rightarrow> 'a sock_scheme \<Rightarrow> int \<times> 'a sock_scheme"
where
  "lib_client2 resolve ipstr localip type s =
     (if (case ipstr of None \<Rightarrow> False | Some name \<Rightarrow> \<not> resolve name) then (ERROR, s)
      else let (fd, s) = lib_socket type s
      in if fd \<le> 0 then (ERROR, s)
      else let (bound, s) = (if localip \<noteq> 0 then (let (ret, _, s) = sys_call s in (0 \<le> ret, s)) else (True, s))
      in if \<not> bound then close_err fd s
      else let (ret, s) = lib_connect fd s
      in if ret < 0 then close_err fd s else (fd, s))"

text \<open>
  After an unfinished connect \<open>select\<close> answers, then \<open>getsockopt\<close>, whose second number here is the
  pending error it delivers.
\<close>

definition failed_connect :: "int \<Rightarrow> 'a sock_scheme \<Rightarrow> int \<times> 'a sock_scheme" where
  "failed_connect fd s = (let (_, _, s) = sys_call s; (_, s) = lib_close fd s in (ERROR, s))"

definition lib_client_timeout :: "'a sock_scheme \<Rightarrow> int \<times> 'a sock_scheme" where
  "lib_client_timeout s =
     (let (fd, s) = lib_socket SOCK_STREAM s
      in if fd \<le> 0 then (ERROR, s)
      else let (flags, _, s) = sys_call s;
               (_, _, s) = sys_call s;
               (ret, err, s) = lib_connect_nonblock fd s
      in if ret < 0
      then
        if err \<noteq> EINPROGRESS then failed_connect fd s
        else let (ret, _, s) = sys_call s
        in if ret \<le> 0 then failed_connect fd s
        else let (ret, error, s) = sys_call s
        in if ret < 0 \<or> error \<noteq> 0 then failed_connect fd s
        else let (_, _, s) = sys_call s in (fd, s)
      else let (_, _, s) = sys_call s in (fd, s))"

section \<open>Addresses\<close>

text \<open>The dotted form of an address whose first byte is the lowest one.\<close>

definition inet_ntoa_r :: "32 word \<Rightarrow> string" where
  "inet_ntoa_r ina =
     (case le32 ina of
        [a, b, c, d] \<Rightarrow> dec_digits (unat a) @ ''.'' @ dec_digits (unat b) @ ''.'' @ dec_digits (unat c) @ ''.'' @ dec_digits (unat d)
      | _ \<Rightarrow> [])"

definition lib_inet_ntoa_r :: "32 word \<Rightarrow> string" where
  "lib_inet_ntoa_r ipaddr = inet_ntoa_r (htonl ipaddr)"

definition lib_inet_ntoa :: "(32 word \<Rightarrow> string) \<Rightarrow> 32 word \<Rightarrow> string" where
  "lib_inet_ntoa inet_ntoa ipaddr = inet_ntoa (htonl ipaddr)"

definition lib_inet_aton :: "(string \<Rightarrow> 32 word) \<Rightarrow> string \<Rightarrow> 32 word" where
  "lib_inet_aton inet_aton ipstr = htonl (inet_aton ipstr)"

definition lib_inet_addr :: "(string \<Rightarrow> 32 word) \<Rightarrow> string \<Rightarrow> int" where
  "lib_inet_addr inet_addr ipstr =
     (let ip = inet_addr ipstr in if ip = INADDR_NONE \<or> ip = 0 then ERROR else OK)"

definition lib_peerip :: "32 word \<Rightarrow> string \<Rightarrow> 'a sock_scheme \<Rightarrow> int \<times> string \<times> 'a sock_scheme" where
  "lib_peerip addr buf s =
     (let (ret, _, s) = sys_call s
      in if ret < 0 then (ERROR, buf, s) else (OK, inet_ntoa_r addr, s))"

section \<open>Streams\<close>

text \<open>The bytes of a stream that brings nothing but data, in non-empty pieces.\<close>

fun stream_of :: "recv_ev list \<Rightarrow> byte list" where
  "stream_of (Data bs # es) = bs @ stream_of es"
| "stream_of _ = []"

definition steady :: "recv_ev list \<Rightarrow> bool" where
  "steady es \<longleftrightarrow> (\<forall>e \<in> set es. \<exists>bs. e = Data bs \<and> bs \<noteq> [])"

lemma steady_simps [simp]:
  "steady []" "steady (Data bs # es) \<longleftrightarrow> bs \<noteq> [] \<and> steady es"
  "\<not> steady (Interrupted # es)" "\<not> steady (Failed # es)"
  by (auto simp: steady_def)

lemma recvn_loop_steady:
  "steady es \<Longrightarrow> n \<le> length (stream_of es) \<Longrightarrow>
   \<exists>es'. recvn_loop n got t es = (int (length got + n), got @ take n (stream_of es), es') \<and>
         steady es' \<and> stream_of es' = drop n (stream_of es)"
proof (induction n got t es rule: recvn_loop.induct)
  case (5 n got t bs es)
  show ?case
  proof (cases "length bs \<le> Suc n")
    case True
    have "\<exists>es'. recvn_loop (Suc n - length bs) (got @ bs) t es
        = (int (length (got @ bs) + (Suc n - length bs)), (got @ bs) @ take (Suc n - length bs) (stream_of es), es') \<and>
          steady es' \<and> stream_of es' = drop (Suc n - length bs) (stream_of es)"
      by (rule "5.IH") (use "5.prems" True in auto)
    moreover have "int (length (got @ bs) + (Suc n - length bs)) = int (length got + Suc n)" using True by simp
    ultimately show ?thesis using "5.prems" True by simp
  next
    case False
    then have "take (Suc n) (bs @ stream_of es) = take (Suc n) bs" "drop (Suc n) (bs @ stream_of es) = drop (Suc n) bs @ stream_of es"
      by simp_all
    then show ?thesis using "5.prems" False by (simp del: take_append drop_append)
  qed
qed auto

lemma lib_recvn_steady:
  assumes "steady es" and "nat n \<le> length (stream_of es)" and "off + nat n \<le> length buf" and "0 \<le> n"
  shows "\<exists>es'. lib_recvn fd off buf n es
         = Some (n, take off buf @ take (nat n) (stream_of es) @ drop (off + nat n) buf, es') \<and>
       steady es' \<and> stream_of es' = drop (nat n) (stream_of es)"
proof -
  obtain es' where "recvn_loop (nat n) [] 0 es = (int (nat n), take (nat n) (stream_of es), es')"
      "steady es'" "stream_of es' = drop (nat n) (stream_of es)"
    using recvn_loop_steady [OF assms(1,2), of "[]" 0] by auto
  then show ?thesis using assms by (simp add: lib_recvn_def put_bytes_def min_def)
qed

text \<open>What a receiver makes of a frame, however it is cut into pieces.\<close>

definition frame :: "msg_head \<Rightarrow> byte list" where
  "frame m = head_bytes m @ take (unat (len m)) (payload m)"

definition fits :: "msg_head \<Rightarrow> int \<Rightarrow> bool" where
  "fits m sz \<longleftrightarrow> unat (len m) \<le> length (payload m) \<and> uint (len m) \<le> MAX_MSG_LEN \<and> 8 + uint (len m) \<le> sz \<and> sz < 2 ^ 31"

lemma fitsD:
  assumes "fits m sz"
  shows "8 + unat (len m) \<le> nat sz" "unat (len m) \<le> length (payload m)" "uint (len m) \<le> MAX_MSG_LEN"
    "8 + uint (len m) \<le> sz" "sz < 2 ^ 31"
proof -
  have "uint (len m) = int (unat (len m))" by simp
  then have "int (8 + unat (len m)) \<le> sz" using assms by (simp add: fits_def)
  then show "8 + unat (len m) \<le> nat sz" by linarith
  show "unat (len m) \<le> length (payload m)" "uint (len m) \<le> MAX_MSG_LEN"
    "8 + uint (len m) \<le> sz" "sz < 2 ^ 31" using assms by (simp_all add: fits_def)
qed

lemma head_length [simp]: "length (head_bytes m) = 8"
  by (simp add: head_bytes_def)

lemma head_fields:
  "take 8 buf = head_bytes m \<Longrightarrow> 8 \<le> length buf \<Longrightarrow> msg_of buf = msg m \<and> len_of buf = len m"
proof -
  assume t: "take 8 buf = head_bytes m" and l: "8 \<le> length buf"
  have "take 4 buf = take 4 (take 8 buf)" "take 4 (drop 4 buf) = drop 4 (take 8 buf)"
    by (simp_all add: drop_take)
  then show ?thesis by (simp add: t msg_of_def len_of_def head_bytes_def)
qed

lemma recv_payload_steady:
  assumes m: "fits m sz" and es: "steady es" "stream_of es = take (unat (len m)) (payload m) @ rest"
    and b: "take 8 buf = head_bytes m" "length buf = nat sz"
  shows "\<exists>es'. recv_payload fd buf es = Some (8 + uint (len m), frame m @ drop (length (frame m)) buf, es') \<and>
     steady es' \<and> stream_of es' = rest"
proof -
  let ?n = "uint (len m)"
  have nn: "nat ?n = unat (len m)" by simp
  have l: "8 + unat (len m) \<le> length buf" "unat (len m) \<le> length (payload m)" "?n \<le> MAX_MSG_LEN"
    using fitsD [OF m] b(2) by simp_all
  have s: "nat ?n \<le> length (stream_of es)" using es l by simp
  obtain es' where r: "lib_recvn fd 8 buf ?n es
        = Some (?n, take 8 buf @ take (nat ?n) (stream_of es) @ drop (8 + nat ?n) buf, es')"
      "steady es'" "stream_of es' = drop (nat ?n) (stream_of es)"
    using lib_recvn_steady [OF es(1) s, of 8 buf fd] l by auto
  have t: "take (nat ?n) (stream_of es) = take (unat (len m)) (payload m)" "drop (nat ?n) (stream_of es) = rest"
    using es l by simp_all
  let ?b = "frame m @ drop (length (frame m)) buf"
  have fl: "length (frame m) = 8 + unat (len m)" using l by (simp add: frame_def)
  have bf: "take 8 buf @ take (nat ?n) (stream_of es) @ drop (8 + nat ?n) buf = ?b"
    unfolding t fl b(1) by (simp add: frame_def)
  have len: "len_of buf = len m" using head_fields [OF b(1)] l by simp
  have len': "len_of ?b = len m"
    using head_fields [of ?b m] l fl by (simp add: frame_def)
  have "?n mod 2 ^ 32 = ?n" using l(3) by (simp add: MAX_MSG_LEN_def)
  moreover have "lib_recvn fd 8 buf ?n es = Some (?n, ?b, es')" using r(1) unfolding bf .
  moreover have "stream_of es' = rest" using r(3) unfolding t(2) .
  ultimately show ?thesis
    using r(2) len len' by (simp add: recv_payload_def MSG_HEAD_LEN_def)
qed

lemma lib_recv_msg_steady:
  assumes m: "fits m sz" and es: "steady es" "stream_of es = frame m @ rest" and b: "length buf = nat sz" and fd: "0 < fd"
  shows "\<exists>es'. lib_recv_msg fd (Some buf) sz es = Some (8 + uint (len m), Some (frame m @ drop (length (frame m)) buf), es') \<and>
     steady es' \<and> stream_of es' = rest"
proof -
  have l: "8 \<le> length buf" "uint (len m) \<le> MAX_MSG_LEN" "8 + uint (len m) \<le> sz" "sz < 2 ^ 31"
    using fitsD [OF m] b by simp_all
  obtain es1 where r: "lib_recvn fd 0 buf 8 es = Some (8, head_bytes m @ drop 8 buf, es1)"
      "steady es1" "stream_of es1 = take (unat (len m)) (payload m) @ rest"
    using lib_recvn_steady [OF es(1), of 8 0 buf fd] es(2) l(1) by (auto simp: frame_def)
  let ?b = "head_bytes m @ drop 8 buf"
  have t: "take 8 ?b = head_bytes m" "length ?b = nat sz" using l(1) b by simp_all
  have "len_of ?b = len m" using head_fields [OF t(1)] l(1) by simp
  moreover have "8 \<le> sz" using l(3) unsigned_greater_eq [where 'a = int, of "len m"] by linarith
  then have "(sz - 8) mod 2 ^ 64 = sz - 8" using l(4) by simp
  then have "\<not> too_long (len m) sz" using l by (simp add: too_long_def)
  moreover obtain es' where "recv_payload fd ?b es1 = Some (8 + uint (len m), frame m @ drop (length (frame m)) ?b, es')"
      "steady es'" "stream_of es' = rest"
    using recv_payload_steady [OF m r(2,3) t] by blast
  moreover have "drop (length (frame m)) ?b = drop (length (frame m)) buf" by (simp add: frame_def add.commute)
  ultimately show ?thesis using r(1) fd by (simp add: lib_recv_msg_def)
qed

lemma sendn_loop_all:
  "sendn_loop n data out as = (True, out', as') \<Longrightarrow> length data = n \<Longrightarrow> out' = out @ data"
proof (induction n data out as rule: sendn_loop.induct)
  case (3 n data out nw err as)
  show ?case
  proof (cases "nw \<le> 0")
    case True
    then show ?thesis using 3 by (simp split: if_splits)
  next
    case False
    then have "out' = (out @ take (nat nw) data) @ drop (nat nw) data"
      using 3 by (intro "3.IH"(2)) auto
    then show ?thesis by simp
  qed
qed auto

section \<open>Properties\<close>

lemma lib_send_msg_frame:
  assumes "lib_send_msg fd (Some m) s = Some (r, out, s')" and "r \<noteq> - 1" and "fits m sz"
  shows "r = 8 + uint (len m)" "out = frame m"
proof -
  let ?n = "8 + uint (len m)"
  have b: "0 \<le> uint (len m)" "uint (len m) \<le> MAX_MSG_LEN" by (simp, rule fitsD(3) [OF assms(3)])
  then have c: "c_int ?n = ?n" "?n mod 2 ^ 64 = ?n" by (simp_all add: MAX_MSG_LEN_def)
  have "fd > 0" using assms(1,2) by (cases "fd \<le> 0") (auto simp: lib_send_msg_def)
  then have "send_frame fd m (len m) s = Some (r, out, s')" using assms(1) by (simp add: lib_send_msg_def)
  then obtain i where i: "lib_sendn fd (frame m) ?n s = (i, out, s')" "r = (if i mod 2 ^ 64 \<noteq> ?n then - 1 else ?n)"
    by (auto simp: send_frame_def Let_def c(1) frame_def split: if_splits prod.splits)
  then show r: "r = ?n" using assms(2) by (simp split: if_splits)
  have ok: "i mod 2 ^ 64 = ?n" using i assms(2) by (simp split: if_splits)
  obtain ok' as where l: "sendn_loop (nat ?n) (frame m) [] (answers s) = (ok', out, as)" "i = (if ok' then ?n else - 1)"
    using i(1) by (auto simp: lib_sendn_def split: prod.splits)
  have "ok'" using ok l(2) b by (cases ok') (auto simp: MAX_MSG_LEN_def)
  moreover have "length (frame m) = nat ?n" using fitsD(2) [OF assms(3)] by (simp add: frame_def nat_add_distrib)
  ultimately show "out = frame m" using sendn_loop_all [of "nat ?n" "frame m" "[]" "answers s" out as] l(1) by simp
qed

text \<open>C16: A message that \<open>lib_send_msg\<close> reports as sent arrives whole: if it was small enough for the protocol, then however the kernel cut it on the way out and however the network cuts it on the way in (pieces of any size, further messages behind it), \<open>lib_recv_msg\<close> with a large enough array returns the length of head and payload, puts exactly these bytes at the front of the array, leaves the rest of it alone, and leaves the following bytes in the stream.\<close>
theorem msg_send_recv:
  assumes "lib_send_msg fd (Some m) s = Some (r, out, s')" and "r \<noteq> - 1" and "0 < fd'" and "fits m sz"
    and "length buf = nat sz" and "steady es" and "stream_of es = out @ rest"
  shows "r = 8 + uint (len m) \<and> out = frame m \<and>
    (\<exists>es'. lib_recv_msg fd' (Some buf) sz es = Some (r, Some (out @ drop (length out) buf), es') \<and>
           steady es' \<and> stream_of es' = rest)"
  using lib_recv_msg_steady [OF assms(4,6) _ assms(5,3)] assms(7) lib_send_msg_frame [OF assms(1,2,4)] by simp

definition msg_demo :: msg_head where
  "msg_demo = \<lparr>msg = 0x10001, len = 3, payload = [7, 8, 9]\<rparr>"

theorem msg_send_recv_witness:
  "\<exists>es'. lib_recv_msg 4 (Some (replicate 16 0)) 16 [Data (take 5 (frame msg_demo)), Data (drop 5 (frame msg_demo) @ [1])]
     = Some (11, Some (frame msg_demo @ replicate 5 0), es') \<and> stream_of es' = [1]"
proof -
  have f: "frame msg_demo = le32 0x10001 @ le32 3 @ [7, 8, 9]" by (simp add: frame_def head_bytes_def msg_demo_def)
  have s: "lib_send_msg 5 (Some msg_demo) \<lparr>answers = [(4, 0), (- 1, EINTR), (7, 0)], closed = []\<rparr>
      = Some (11, frame msg_demo, \<lparr>answers = [], closed = []\<rparr>)"
    by code_simp
  have "fits msg_demo 16" by (simp add: fits_def msg_demo_def MAX_MSG_LEN_def)
  then show ?thesis
    using msg_send_recv [OF s, of 4 16 "replicate 16 0" "[Data (take 5 (frame msg_demo)), Data (drop 5 (frame msg_demo) @ [1])]" "[1]"]
    by (auto simp: f drop_replicate le32_def)
qed

text \<open>A receiver gives up on a healthy connection: when two signals interrupt \<open>lib_recvn\<close> while one block is on its way, the call answers -1 although data came in between, the bytes read so far are lost to the caller, and the stream is left in the middle of the block.\<close>
theorem recvn_second_interrupt:
  assumes "d1 \<noteq> []" and "d2 \<noteq> []" and "length (d1 @ d2) < nat n" and "off + nat n \<le> length buf"
  shows "\<exists>buf'. lib_recvn fd off buf n (Data d1 # Interrupted # Data d2 # Interrupted # es) = Some (- 1, buf', es)"
proof -
  obtain k where k: "nat n = Suc k" using assms(3) by (cases "nat n") auto
  obtain j where j: "Suc k - length d1 = Suc j" using assms(3) k by (cases "Suc k - length d1") auto
  obtain i where i: "Suc j - length d2 = Suc i" using assms(3) k j by (cases "Suc j - length d2") auto
  have "length d1 \<le> Suc k" "length d2 \<le> Suc j" using assms(3) k j by auto
  then have "recvn_loop (nat n) [] 0 (Data d1 # Interrupted # Data d2 # Interrupted # es) = (- 1, d1 @ d2, es)"
    using assms(1,2) by (simp add: k j i)
  then show ?thesis using assms(3,4) by (simp add: lib_recvn_def put_bytes_def)
qed

theorem recvn_second_interrupt_witness:
  "\<exists>buf'. lib_recvn 5 0 (replicate 8 0) 8 [Data [1], Interrupted, Data [2, 3], Interrupted, Data [4, 5, 6, 7, 8]]
     = Some (- 1, buf', [Data [4, 5, 6, 7, 8]])"
  by (rule recvn_second_interrupt) simp_all

section \<open>No descriptor is lost\<close>

lemma sys_call_closed [simp]: "closed (snd (snd (sys_call s))) = closed s"
  by (simp add: sys_call_def split: list.splits prod.splits)

lemma retry_call_closed [simp]: "closed (snd (snd (retry_call s))) = closed s"
  by (simp add: retry_call_def Let_def case_prod_unfold)

lemma nodelay_closed [simp]: "closed (snd (lib_socket_tcp_nodelay fd s)) = closed s"
  by (simp add: lib_socket_tcp_nodelay_def Let_def case_prod_unfold)

lemma lib_socket_closed [simp]: "closed (snd (lib_socket type s)) = closed s"
  by (simp add: lib_socket_def Let_def case_prod_unfold)

lemma lib_socket_range: "fst (lib_socket type s) \<le> 0 \<longleftrightarrow> fst (lib_socket type s) = - 1"
  by (simp add: lib_socket_def Let_def case_prod_unfold)

lemma lib_bind_closed [simp]: "closed (snd (lib_bind fd s)) = closed s"
  by (simp add: lib_bind_def Let_def case_prod_unfold)

lemma lib_connect_closed [simp]: "closed (snd (lib_connect fd s)) = closed s"
  "closed (snd (snd (lib_connect_nonblock fd s))) = closed s"
  by (simp_all add: lib_connect_def lib_connect_nonblock_def Let_def case_prod_unfold)

lemma lib_accept_closed [simp]: "closed (snd (lib_accept fd s)) = closed s"
  by (simp add: lib_accept_def Let_def case_prod_unfold)

lemma close_err_simps [simp]: "fst (close_err fd s) = ERROR" "closed (snd (close_err fd s)) = fd # closed s"
  by (simp_all add: close_err_def close_fd_def)

definition settled :: "int \<Rightarrow> 'a sock_scheme \<Rightarrow> int \<times> 'a sock_scheme \<Rightarrow> bool" where
  "settled type s r =
     (let sfd = fst (lib_socket type s)
      in if 0 < fst r then fst r = sfd \<and> closed (snd r) = closed s
         else fst r = ERROR \<and> closed (snd r) = (if 0 < sfd then sfd # closed s else closed s))"

lemmas open_simps = settled_def Let_def case_prod_unfold ERROR_def [symmetric]

lemma bind_listen_settled: "0 < fd \<Longrightarrow>
    (fst (bind_listen fd s) = fd \<and> closed (snd (bind_listen fd s)) = closed s) \<or>
    (fst (bind_listen fd s) = ERROR \<and> closed (snd (bind_listen fd s)) = fd # closed s)"
  by (auto simp: bind_listen_def Let_def case_prod_unfold)

lemma ERROR_neg: "\<not> 0 < ERROR"
  by (simp add: ERROR_def)

lemma lib_server_settled: "settled SOCK_STREAM s (lib_server s)" "settled SOCK_STREAM s (lib_server_nonblock s)"
  using bind_listen_settled [of "fst (lib_socket SOCK_STREAM s)" "snd (snd (sys_call (snd (lib_socket SOCK_STREAM s))))"]
    bind_listen_settled [of "fst (lib_socket SOCK_STREAM s)"
      "snd (snd (sys_call (snd (snd (sys_call (snd (snd (sys_call (snd (lib_socket SOCK_STREAM s))))))))))"]
  by (auto simp: lib_server_def lib_server_nonblock_def open_simps ERROR_neg)

lemma lib_server_udp_settled: "settled SOCK_DGRAM s (lib_server_udp s)"
  by (auto simp: lib_server_udp_def open_simps ERROR_neg)

lemma lib_client_settled: "settled type s (lib_client resolve None type s)"
  by (auto simp: lib_client_def open_simps ERROR_neg)

lemma lib_client2_settled: "settled type s (lib_client2 resolve None localip type s)"
  by (auto simp: lib_client2_def open_simps ERROR_neg)

lemma failed_connect_simps [simp]: "fst (failed_connect fd s) = ERROR"
    "0 < fd \<Longrightarrow> closed (snd (failed_connect fd s)) = fd # closed s"
  by (simp_all add: failed_connect_def lib_close_def close_fd_def Let_def case_prod_unfold)

lemma lib_client_timeout_settled: "settled SOCK_STREAM s (lib_client_timeout s)"
  by (auto simp: lib_client_timeout_def open_simps ERROR_neg)

text \<open>Opening a connection or a listening socket never loses a descriptor, whatever the system calls answer: each of the constructors either returns the descriptor its \<open>lib_socket\<close> call opened and has closed nothing, or returns \<open>ERROR\<close> and has closed exactly that descriptor, once, if there was one.\<close>
theorem sockets_settled:
  "settled SOCK_STREAM s (lib_server s) \<and> settled SOCK_STREAM s (lib_server_nonblock s) \<and>
   settled SOCK_DGRAM s (lib_server_udp s) \<and> settled type s (lib_client resolve None type s) \<and>
   settled type s (lib_client2 resolve None localip type s) \<and> settled SOCK_STREAM s (lib_client_timeout s)"
  using lib_server_settled lib_server_udp_settled lib_client_settled lib_client2_settled lib_client_timeout_settled
  by blast

end
