(* ===== verification/LibList.thy ===== *)
theory LibList imports Prelude begin

text \<open>
  \<open>Server/Include/lib-list.h\<close>: the circular doubly linked list every component keeps its items
  on. The operations are the header's inline functions over the link fields of the heap; the
  iteration macros are loops that take their body as a function. \<open>dlist h hd xs\<close> says that the
  list headed by \<open>hd\<close> holds the nodes \<open>xs\<close>; each operation is shown to do on \<open>xs\<close> what its comment
  says, and to leave the lists it does not touch alone.
\<close>

section \<open>The operations\<close>

definition INIT_LIB_LIST :: "ptr \<Rightarrow> 'a heap_scheme \<Rightarrow> 'a heap_scheme option" where
  "INIT_LIB_LIST p h = do { h \<leftarrow> set_next p p h; set_prev p p h }"

definition lib_list_add_between :: "ptr \<Rightarrow> ptr \<Rightarrow> ptr \<Rightarrow> 'a heap_scheme \<Rightarrow> 'a heap_scheme option" where
  "lib_list_add_between new prev next h = do {
     h \<leftarrow> set_next new next h;
     h \<leftarrow> set_prev new prev h;
     h \<leftarrow> set_next prev new h;
     set_prev next new h }"

definition lib_list_add :: "ptr \<Rightarrow> ptr \<Rightarrow> 'a heap_scheme \<Rightarrow> 'a heap_scheme option" where
  "lib_list_add new head h = do { n \<leftarrow> get_next h head; lib_list_add_between new head n h }"

definition lib_list_add_tail :: "ptr \<Rightarrow> ptr \<Rightarrow> 'a heap_scheme \<Rightarrow> 'a heap_scheme option" where
  "lib_list_add_tail new head h = do { p \<leftarrow> get_prev h head; lib_list_add_between new p head h }"

definition lib_list_unlink :: "ptr \<Rightarrow> ptr \<Rightarrow> 'a heap_scheme \<Rightarrow> 'a heap_scheme option" where
  "lib_list_unlink prev next h =
     (if prev = NULL \<or> next = NULL then Some h
      else do { h \<leftarrow> set_prev next prev h; set_next prev next h })"

definition lib_list_del :: "ptr \<Rightarrow> 'a heap_scheme \<Rightarrow> 'a heap_scheme option" where
  "lib_list_del entry h = do {
     p \<leftarrow> get_prev h entry; n \<leftarrow> get_next h entry;
     h \<leftarrow> lib_list_unlink p n h;
     h \<leftarrow> set_next entry NULL h;
     set_prev entry NULL h }"

definition lib_list_del_init :: "ptr \<Rightarrow> 'a heap_scheme \<Rightarrow> 'a heap_scheme option" where
  "lib_list_del_init entry h = do {
     p \<leftarrow> get_prev h entry; n \<leftarrow> get_next h entry;
     h \<leftarrow> lib_list_unlink p n h;
     INIT_LIB_LIST entry h }"

definition lib_list_move :: "ptr \<Rightarrow> ptr \<Rightarrow> 'a heap_scheme \<Rightarrow> 'a heap_scheme option" where
  "lib_list_move node head h = do {
     p \<leftarrow> get_prev h node; n \<leftarrow> get_next h node;
     h \<leftarrow> lib_list_unlink p n h;
     lib_list_add node head h }"

definition lib_list_move_tail :: "ptr \<Rightarrow> ptr \<Rightarrow> 'a heap_scheme \<Rightarrow> 'a heap_scheme option" where
  "lib_list_move_tail node head h = do {
     p \<leftarrow> get_prev h node; n \<leftarrow> get_next h node;
     h \<leftarrow> lib_list_unlink p n h;
     lib_list_add_tail node head h }"

definition lib_list_empty :: "ptr \<Rightarrow> 'a heap_scheme \<Rightarrow> bool option" where
  "lib_list_empty head h = do { n \<leftarrow> get_next h head; Some (n = head) }"

definition lib_list_splice_raw :: "ptr \<Rightarrow> ptr \<Rightarrow> 'a heap_scheme \<Rightarrow> 'a heap_scheme option" where
  "lib_list_splice_raw list head h = do {
     first \<leftarrow> get_next h list;
     last \<leftarrow> get_prev h list;
     at \<leftarrow> get_next h head;
     h \<leftarrow> set_prev first head h;
     h \<leftarrow> set_next head first h;
     h \<leftarrow> set_next last at h;
     set_prev at last h }"

definition lib_list_splice :: "ptr \<Rightarrow> ptr \<Rightarrow> 'a heap_scheme \<Rightarrow> 'a heap_scheme option" where
  "lib_list_splice list head h = do {
     e \<leftarrow> lib_list_empty list h;
     if e then Some h else lib_list_splice_raw list head h }"

definition lib_list_splice_init :: "ptr \<Rightarrow> ptr \<Rightarrow> 'a heap_scheme \<Rightarrow> 'a heap_scheme option" where
  "lib_list_splice_init list head h = do {
     e \<leftarrow> lib_list_empty list h;
     if e then Some h else do { h \<leftarrow> lib_list_splice_raw list head h; INIT_LIB_LIST list h } }"

section \<open>The iteration macros\<close>

text \<open>
  The body gets the node, the state and the loop's local variables, and says whether it leaves
  the loop with \<open>break\<close>. \<open>lib_list_for_each\<close> reads \<open>pos->next\<close> after the body,
  \<open>lib_list_for_each_safe\<close> has read the following node before it.
\<close>

type_synonym ('w, 'l) loop_body = "ptr \<Rightarrow> 'w \<Rightarrow> 'l \<Rightarrow> ('w \<times> 'l \<times> bool) option"

partial_function (option) for_each_from ::
  "('a heap_scheme, 'l) loop_body \<Rightarrow> ptr \<Rightarrow> ptr \<Rightarrow> 'a heap_scheme \<Rightarrow> 'l \<Rightarrow> ('a heap_scheme \<times> 'l) option"
where
  "for_each_from body head pos h l =
     (if pos = head then Some (h, l)
      else Option.bind (body pos h l) (\<lambda>(h', l', stop).
        if stop then Some (h', l')
        else Option.bind (get_next h' pos) (\<lambda>p. for_each_from body head p h' l')))"

definition lib_list_for_each ::
  "('a heap_scheme, 'l) loop_body \<Rightarrow> ptr \<Rightarrow> 'a heap_scheme \<Rightarrow> 'l \<Rightarrow> ('a heap_scheme \<times> 'l) option"
where
  "lib_list_for_each body head h l = do { p \<leftarrow> get_next h head; for_each_from body head p h l }"

partial_function (option) for_each_safe_from ::
  "('a heap_scheme, 'l) loop_body \<Rightarrow> ptr \<Rightarrow> ptr \<Rightarrow> ptr \<Rightarrow> 'a heap_scheme \<Rightarrow> 'l \<Rightarrow> ('a heap_scheme \<times> 'l) option"
where
  "for_each_safe_from body head pos n h l =
     (if pos = head then Some (h, l)
      else Option.bind (body pos h l) (\<lambda>(h', l', stop).
        if stop then Some (h', l')
        else Option.bind (get_next h' n) (\<lambda>n'. for_each_safe_from body head n n' h' l')))"

definition lib_list_for_each_safe ::
  "('a heap_scheme, 'l) loop_body \<Rightarrow> ptr \<Rightarrow> 'a heap_scheme \<Rightarrow> 'l \<Rightarrow> ('a heap_scheme \<times> 'l) option"
where
  "lib_list_for_each_safe body head h l = do {
     p \<leftarrow> get_next h head; n \<leftarrow> get_next h p; for_each_safe_from body head p n h l }"

definition free_body ::
  "(ptr \<Rightarrow> 'a heap_scheme \<Rightarrow> 'a heap_scheme option) \<Rightarrow> ('a heap_scheme, unit) loop_body"
where
  "free_body free node h l = do {
     h \<leftarrow> lib_list_del_init node h;
     if node = NULL then Some (h, l, False)
     else do { h \<leftarrow> free node h; Some (h, l, False) } }"

definition lib_list_free ::
  "(ptr \<Rightarrow> 'a heap_scheme \<Rightarrow> 'a heap_scheme option) \<Rightarrow> ptr \<Rightarrow> 'a heap_scheme \<Rightarrow> 'a heap_scheme option"
where
  "lib_list_free free head h = do {
     (h, _) \<leftarrow> lib_list_for_each_safe (free_body free) head h ();
     Some h }"

definition lib_list_get_count :: "ptr \<Rightarrow> 'a heap_scheme \<Rightarrow> int option" where
  "lib_list_get_count head h = do {
     (_, ret) \<leftarrow> lib_list_for_each_safe (\<lambda>_ h ret. Some (h, ret + 1, False)) head h (0 :: int);
     Some ret }"


section \<open>What a list holds\<close>

definition dlist :: "'a heap_scheme \<Rightarrow> ptr \<Rightarrow> ptr list \<Rightarrow> bool" where
  "dlist h hh xs \<longleftrightarrow> distinct (hh # xs) \<and> (\<forall>p \<in> set (hh # xs). valid h p) \<and> links h (hh # xs @ [hh])"

lemma dlist_cong:
  "nxt h' = nxt h \<Longrightarrow> prv h' = prv h \<Longrightarrow> live h' = live h \<Longrightarrow> dlist h' hh xs = dlist h hh xs"
  by (simp add: dlist_def valid_cong [of h' h] links_cong [of h' h])

text \<open>A list is untouched by writes to links outside it.\<close>

lemma dlist_frame:
  assumes "dlist h hh xs"
    and "\<And>p. p \<in> set (hh # xs) \<Longrightarrow> valid h' p \<and> nxt h' p = nxt h p \<and> prv h' p = prv h p"
  shows "dlist h' hh xs"
proof -
  have "links h' (hh # xs @ [hh]) = links h (hh # xs @ [hh])"
    by (rule links_frame) (use assms(2) in \<open>auto dest: in_set_butlastD\<close>)
  then show ?thesis using assms by (auto simp: dlist_def)
qed

lemma dlist_valid: "dlist h hh xs \<Longrightarrow> p \<in> set (hh # xs) \<Longrightarrow> valid h p"
  by (auto simp: dlist_def)

lemma dlist_distinct: "dlist h hh xs \<Longrightarrow> distinct (hh # xs)"
  by (simp add: dlist_def)

lemma dlist_notin: "dlist h hh xs \<Longrightarrow> \<not> valid h p \<Longrightarrow> p \<notin> set (hh # xs)"
  by (auto simp: dlist_def)

text \<open>The neighbours of a position: \<open>pred_of\<close> and \<open>succ_of\<close> wrap around through the head.\<close>

abbreviation pred_of :: "ptr \<Rightarrow> ptr list \<Rightarrow> ptr" where
  "pred_of h xs \<equiv> last (h # xs)"

abbreviation succ_of :: "ptr list \<Rightarrow> ptr \<Rightarrow> ptr" where
  "succ_of xs h \<equiv> hd (xs @ [h])"

lemma distinct_hd_notin: "distinct (a # ys) \<Longrightarrow> a \<notin> set ys"
  by simp

lemma links_cut:
  assumes "links h (us @ [p, n] @ vs)"
  shows "links h (us @ [p])" "nxt h p = n" "prv h n = p" "links h (n # vs)"
  using assms links_append [of h us p "n # vs"] by auto

lemma dlist_cut:
  assumes "dlist h hh (ys @ zs)"
  shows "links h (hh # ys)" "nxt h (pred_of hh ys) = succ_of zs hh"
    "prv h (succ_of zs hh) = pred_of hh ys" "links h (zs @ [hh])"
proof -
  obtain us where us: "hh # ys = us @ [pred_of hh ys]" by (rule list_ends)
  obtain vs where vs: "zs @ [hh] = succ_of zs hh # vs" by (rule snoc_starts)
  have "hh # (ys @ zs) @ [hh] = us @ [pred_of hh ys, succ_of zs hh] @ vs"
    using us vs by (metis append.assoc append_Cons append_Nil)
  then have l: "links h (us @ [pred_of hh ys, succ_of zs hh] @ vs)"
    using assms by (simp only: dlist_def)
  show "links h (hh # ys)" using links_cut(1) [OF l] us by metis
  show "nxt h (pred_of hh ys) = succ_of zs hh" by (rule links_cut(2) [OF l])
  show "prv h (succ_of zs hh) = pred_of hh ys" by (rule links_cut(3) [OF l])
  show "links h (zs @ [hh])" using links_cut(4) [OF l] vs by metis
qed

lemma links_join:
  "links h (us @ [p]) \<Longrightarrow> links h (n # vs) \<Longrightarrow> nxt h p = n \<Longrightarrow> prv h n = p \<Longrightarrow>
   links h (us @ p # n # vs)"
  using links_append [of h us p "n # vs"] by simp

lemma links_glue:
  assumes "links h (hh # ys)" "links h (zs @ [hh])"
    "nxt h (pred_of hh ys) = succ_of zs hh" "prv h (succ_of zs hh) = pred_of hh ys"
  shows "links h (hh # (ys @ zs) @ [hh])"
proof -
  obtain us where us: "hh # ys = us @ [pred_of hh ys]" by (rule list_ends)
  obtain vs where vs: "zs @ [hh] = succ_of zs hh # vs" by (rule snoc_starts)
  have "links h (us @ [pred_of hh ys])" using assms(1) us by metis
  moreover have "links h (succ_of zs hh # vs)" using assms(2) vs by metis
  ultimately have "links h (us @ pred_of hh ys # succ_of zs hh # vs)"
    using assms(3,4) by (rule links_join)
  moreover have "us @ pred_of hh ys # succ_of zs hh # vs = hh # (ys @ zs) @ [hh]"
    using us vs by (metis append.assoc append_Cons append_Nil)
  ultimately show ?thesis by simp
qed

lemma dlist_next: "dlist h hh xs \<Longrightarrow> get_next h hh = Some (succ_of xs hh)"
  using dlist_cut(2) [of h hh "[]" xs] by (auto simp: get_next_def dlist_def)

lemma dlist_prev: "dlist h hh xs \<Longrightarrow> get_prev h hh = Some (pred_of hh xs)"
  using dlist_cut(3) [of h hh xs "[]"] by (auto simp: get_prev_def dlist_def)

text \<open>A node on a list: its own links, and the list without it.\<close>

lemma dlist_node:
  assumes "dlist h hh (ys @ x # zs)"
  shows "nxt h x = succ_of zs hh" "prv h x = pred_of hh ys"
  using dlist_cut(2) [of h hh "ys @ [x]" zs] dlist_cut(3) [of h hh ys "x # zs"] assms by simp_all

lemma pred_of_in: "pred_of hh ys \<in> set (hh # ys)"
  by (rule last_in_set) simp

lemma succ_of_in: "succ_of zs hh \<in> set (zs @ [hh])"
  by (rule list.set_sel(1)) simp

section \<open>Each operation on the list it is given\<close>

lemma INIT_LIB_LIST_ok:
  assumes "valid h p"
  shows "INIT_LIB_LIST p h = Some (h\<lparr>nxt := (nxt h)(p := p), prv := (prv h)(p := p)\<rparr>)"
  using assms by (simp add: INIT_LIB_LIST_def heap_access)

lemma INIT_LIB_LIST_dlist:
  "valid h p \<Longrightarrow> \<exists>h'. INIT_LIB_LIST p h = Some h' \<and> dlist h' p []"
  by (auto simp: INIT_LIB_LIST_ok dlist_def)

definition linked :: "ptr \<Rightarrow> ptr \<Rightarrow> ptr \<Rightarrow> 'a heap_scheme \<Rightarrow> 'a heap_scheme" where
  "linked p x n h = h\<lparr>nxt := (nxt h)(x := n, p := x), prv := (prv h)(x := p, n := x)\<rparr>"

definition unlinked :: "ptr \<Rightarrow> ptr \<Rightarrow> ptr \<Rightarrow> 'a heap_scheme \<Rightarrow> 'a heap_scheme" where
  "unlinked p x n h = h\<lparr>nxt := (nxt h)(p := n, x := NULL), prv := (prv h)(n := p, x := NULL)\<rparr>"

lemma add_between_linked:
  "valid h x \<Longrightarrow> valid h p \<Longrightarrow> valid h n \<Longrightarrow> lib_list_add_between x p n h = Some (linked p x n h)"
  by (simp add: lib_list_add_between_def heap_access linked_def)

lemma dlist_linked:
  assumes d: "dlist h hh (ys @ zs)" and x: "valid h x" "x \<notin> set (hh # ys @ zs)"
  shows "dlist (linked (pred_of hh ys) x (succ_of zs hh) h) hh (ys @ x # zs)"
proof -
  let ?p = "pred_of hh ys" and ?n = "succ_of zs hh"
  let ?h = "linked ?p x ?n h"
  have dist: "distinct (hh # ys @ zs)" using d by (simp add: dlist_def)
  have pin: "?p \<in> set (hh # ys)" by (rule pred_of_in)
  have nin: "?n \<in> set (zs @ [hh])" by (rule succ_of_in)
  have px: "?p \<noteq> x" "?n \<noteq> x" using pin nin x(2) by auto
  obtain us where us: "hh # ys = us @ [?p]" "us = butlast (hh # ys)" by (rule list_ends)
  obtain vs where vs: "zs @ [hh] = ?n # vs" "vs = tl (zs @ [hh])" by (rule snoc_starts)
  have "links ?h (hh # ys) = links h (hh # ys)"
  proof (rule links_frame)
    fix u assume u: "u \<in> set (butlast (hh # ys))"
    have "distinct (hh # ys)" using dist by simp
    then have "distinct (us @ [?p])" using us(1) by metis
    then have "u \<noteq> ?p" using u us(2) by auto
    moreover have "u \<noteq> x" using in_set_butlastD [OF u] x(2) by auto
    ultimately show "nxt ?h u = nxt h u" by (simp add: linked_def)
  next
    fix v assume v: "v \<in> set (tl (hh # ys))"
    then have "v \<noteq> ?n" using nin dist by auto
    moreover have "v \<noteq> x" using v x(2) by auto
    ultimately show "prv ?h v = prv h v" by (simp add: linked_def)
  qed
  moreover have "links ?h (zs @ [hh]) = links h (zs @ [hh])"
  proof (rule links_frame)
    fix u assume "u \<in> set (butlast (zs @ [hh]))"
    then have "u \<in> set zs" by simp
    then have "u \<noteq> ?p" "u \<noteq> x" using pin dist x(2) by auto
    then show "nxt ?h u = nxt h u" by (simp add: linked_def)
  next
    fix v assume v: "v \<in> set (tl (zs @ [hh]))"
    have "distinct (zs @ [hh])" using dist by auto
    then have "distinct (?n # vs)" using vs(1) by metis
    then have "?n \<notin> set vs" by (rule distinct_hd_notin)
    then have "v \<noteq> ?n" using v vs(2) by blast
    moreover have "v \<in> set (zs @ [hh])" using v by (rule list.set_sel(2) [rotated]) simp
    then have "v \<noteq> x" using x(2) by auto
    ultimately show "prv ?h v = prv h v" by (simp add: linked_def)
  qed
  ultimately have l: "links ?h (hh # ys)" "links ?h (zs @ [hh])"
    using dlist_cut [OF d] by simp_all
  have "links ?h ((hh # ys) @ [x])"
    using l(1) us(1) px links_append [of ?h us ?p "[x]"] by (simp add: linked_def)
  moreover have "links ?h (x # zs @ [hh])"
  proof -
    have "nxt ?h x = ?n" "prv ?h ?n = x" using px by (simp_all add: linked_def)
    moreover have "links ?h (?n # vs)" using l(2) vs(1) by (rule back_subst)
    ultimately have "links ?h (x # ?n # vs)" by (simp only: links.simps)
    then show ?thesis using vs(1) by (rule back_subst [where P = "\<lambda>z. links ?h (x # z)", OF _ sym])
  qed
  ultimately have "links ?h ((hh # ys) @ x # zs @ [hh])" by (subst links_append) simp
  then show ?thesis
    using d x dist by (auto simp: dlist_def linked_def valid_def)
qed


text \<open>\<open>lib_list_add\<close> pushes at the front, \<open>lib_list_add_tail\<close> appends.\<close>

lemma lib_list_add_eq:
  assumes "dlist h hh xs" "valid h x"
  shows "lib_list_add x hh h = Some (linked hh x (succ_of xs hh) h)"
proof -
  have "valid h (succ_of xs hh)" using succ_of_in [of xs hh] assms(1) by (auto simp: dlist_def)
  moreover have "valid h hh" using assms(1) by (simp add: dlist_def)
  ultimately show ?thesis
    using assms by (simp add: lib_list_add_def dlist_next add_between_linked)
qed

lemma lib_list_add_tail_eq:
  assumes "dlist h hh xs" "valid h x"
  shows "lib_list_add_tail x hh h = Some (linked (pred_of hh xs) x hh h)"
proof -
  have "valid h (pred_of hh xs)" using pred_of_in [of hh xs] assms(1) dlist_valid by blast
  moreover have "valid h hh" using assms(1) by (simp add: dlist_def)
  ultimately show ?thesis
    using assms(2) dlist_prev [OF assms(1)]
    by (simp only: lib_list_add_tail_def add_between_linked bind.bind_lunit)
qed

lemma lib_list_add_dlist:
  assumes "dlist h hh xs" "valid h x" "x \<notin> set (hh # xs)"
  shows "dlist (linked hh x (succ_of xs hh) h) hh (x # xs)"
  using dlist_linked [of h hh "[]" xs x] assms by simp

lemma lib_list_add_tail_dlist:
  assumes "dlist h hh xs" "valid h x" "x \<notin> set (hh # xs)"
  shows "dlist (linked (pred_of hh xs) x hh h) hh (xs @ [x])"
  using dlist_linked [of h hh xs "[]" x] assms by simp

lemma lib_list_add_tail_ok:
  assumes "dlist h hh xs" "valid h x" "x \<notin> set (hh # xs)"
  obtains p where "lib_list_add_tail x hh h = Some (linked p x hh h)"
    "dlist (linked p x hh h) hh (xs @ [x])" "p \<in> set (hh # xs)"
  using that [of "pred_of hh xs"] lib_list_add_tail_eq [OF assms(1,2)]
    lib_list_add_tail_dlist [OF assms] pred_of_in by metis

lemma lib_list_add_ok:
  assumes "dlist h hh xs" "valid h x" "x \<notin> set (hh # xs)"
  obtains n where "lib_list_add x hh h = Some (linked hh x n h)"
    "dlist (linked hh x n h) hh (x # xs)" "n \<in> set (hh # xs)"
proof -
  have "succ_of xs hh \<in> set (hh # xs)" using succ_of_in [of xs hh] by auto
  then show ?thesis
    using that [of "succ_of xs hh"] lib_list_add_eq [OF assms(1,2)] lib_list_add_dlist [OF assms]
    by metis
qed

lemma linked_frame:
  assumes "dlist h kk zs" "p \<notin> set (kk # zs)" "n \<notin> set (kk # zs)" "x \<notin> set (kk # zs)"
  shows "dlist (linked p x n h) kk zs"
  by (rule dlist_frame [OF assms(1)]) (use assms in \<open>auto simp: linked_def dlist_def valid_def\<close>)

lemma linked_simps [simp]:
  "live (linked p x n h) = live h" "brk (linked p x n h) = brk h" "oom (linked p x n h) = oom h"
  "valid (linked p x n h) = valid h" "heap_ok (linked p x n h) = heap_ok h"
  "heap.more (linked p x n h) = heap.more h"
  by (simp_all add: linked_def)

lemma unlinked_simps [simp]:
  "live (unlinked p x n h) = live h" "brk (unlinked p x n h) = brk h" "oom (unlinked p x n h) = oom h"
  "valid (unlinked p x n h) = valid h" "heap_ok (unlinked p x n h) = heap_ok h"
  "heap.more (unlinked p x n h) = heap.more h"
  by (simp_all add: unlinked_def)

text \<open>\<open>lib_list_del\<close> takes a node out; a node that is on no list (both links \<open>NULL\<close>) stays out.\<close>

lemma lib_list_del_eq:
  assumes d: "dlist h hh (ys @ x # zs)"
  shows "lib_list_del x h = Some (unlinked (pred_of hh ys) x (succ_of zs hh) h)"
proof -
  let ?p = "pred_of hh ys" and ?n = "succ_of zs hh"
  have v: "valid h x" "valid h ?p" "valid h ?n"
    using d pred_of_in [of hh ys] succ_of_in [of zs hh] by (auto simp: dlist_def)
  then have nn: "?p \<noteq> NULL" "?n \<noteq> NULL" by (metis valid_NULL)+
  show ?thesis
    using v nn dlist_node [OF d]
    by (simp add: lib_list_del_def lib_list_unlink_def heap_access unlinked_def fun_upd_def)
qed

lemma lib_list_del_off:
  assumes "valid h x" "nxt h x = NULL" "prv h x = NULL"
  shows "lib_list_del x h = Some h"
proof -
  have "(nxt h)(x := NULL) = nxt h" "(prv h)(x := NULL) = prv h" using assms by auto
  then show ?thesis using assms by (simp add: lib_list_del_def lib_list_unlink_def heap_access)
qed

lemma dlist_unlinked:
  assumes d: "dlist h hh (ys @ x # zs)"
  shows "dlist (unlinked (pred_of hh ys) x (succ_of zs hh) h) hh (ys @ zs)"
proof -
  let ?p = "pred_of hh ys" and ?n = "succ_of zs hh"
  let ?h = "unlinked ?p x ?n h"
  have dist: "distinct (hh # ys @ x # zs)" using d by (simp add: dlist_def)
  have pin: "?p \<in> set (hh # ys)" by (rule pred_of_in)
  have nin: "?n \<in> set (zs @ [hh])" by (rule succ_of_in)
  have px: "?p \<noteq> x" "?n \<noteq> x" using pin nin dist by auto
  obtain us where us: "hh # ys = us @ [?p]" "us = butlast (hh # ys)" by (rule list_ends)
  obtain vs where vs: "zs @ [hh] = ?n # vs" "vs = tl (zs @ [hh])" by (rule snoc_starts)
  have "links ?h (hh # ys) = links h (hh # ys)"
  proof (rule links_frame)
    fix u assume u: "u \<in> set (butlast (hh # ys))"
    have "distinct (hh # ys)" using dist by simp
    then have "distinct (us @ [?p])" using us(1) by metis
    then have "u \<noteq> ?p" using u us(2) by auto
    moreover have "u \<noteq> x" using in_set_butlastD [OF u] dist by auto
    ultimately show "nxt ?h u = nxt h u" by (simp add: unlinked_def)
  next
    fix v assume v: "v \<in> set (tl (hh # ys))"
    then have "v \<noteq> ?n" using nin dist by auto
    moreover have "v \<noteq> x" using v dist by auto
    ultimately show "prv ?h v = prv h v" by (simp add: unlinked_def)
  qed
  moreover have "links ?h (zs @ [hh]) = links h (zs @ [hh])"
  proof (rule links_frame)
    fix u assume "u \<in> set (butlast (zs @ [hh]))"
    then have "u \<in> set zs" by simp
    then have "u \<noteq> ?p" "u \<noteq> x" using pin dist by auto
    then show "nxt ?h u = nxt h u" by (simp add: unlinked_def)
  next
    fix v assume v: "v \<in> set (tl (zs @ [hh]))"
    have "distinct (zs @ [hh])" using dist by auto
    then have "distinct (?n # vs)" using vs(1) by metis
    then have "?n \<notin> set vs" by (rule distinct_hd_notin)
    then have "v \<noteq> ?n" using v vs(2) by blast
    moreover have "v \<in> set (zs @ [hh])" using v by (rule list.set_sel(2) [rotated]) simp
    then have "v \<noteq> x" using dist by auto
    ultimately show "prv ?h v = prv h v" by (simp add: unlinked_def)
  qed
  moreover have "links h (hh # ys)" "links h (zs @ [hh])"
    using dlist_cut(1,4) [of h hh ys "x # zs"] dlist_cut(4) [of h hh "ys @ [x]" zs] d by simp_all
  ultimately have "links ?h (hh # (ys @ zs) @ [hh])"
    using px by (intro links_glue) (simp_all add: unlinked_def)
  then show ?thesis using d by (auto simp: dlist_def)
qed

lemma unlinked_frame:
  assumes "dlist h kk zs" "p \<notin> set (kk # zs)" "n \<notin> set (kk # zs)" "x \<notin> set (kk # zs)"
  shows "dlist (unlinked p x n h) kk zs"
  by (rule dlist_frame [OF assms(1)]) (use assms in \<open>auto simp: unlinked_def dlist_def valid_def\<close>)

lemma unlinked_off [simp]:
  "p \<noteq> x \<Longrightarrow> nxt (unlinked p x n h) x = NULL" "n \<noteq> x \<Longrightarrow> prv (unlinked p x n h) x = NULL"
  by (simp_all add: unlinked_def)

text \<open>The same with the position left open: \<open>remove1\<close>.\<close>

lemma remove1_split: "distinct (ys @ x # zs) \<Longrightarrow> remove1 x (ys @ x # zs) = ys @ zs"
  by (simp add: remove1_append)

lemma lib_list_del_dlist:
  assumes "dlist h hh xs" "x \<in> set xs"
  obtains p n where "lib_list_del x h = Some (unlinked p x n h)"
    "dlist (unlinked p x n h) hh (remove1 x xs)" "p \<in> set (hh # xs)" "n \<in> set (hh # xs)"
    "p \<noteq> x" "n \<noteq> x"
proof -
  obtain ys zs where xs: "xs = ys @ x # zs" using assms(2) by (meson split_list)
  let ?p = "pred_of hh ys" and ?n = "succ_of zs hh"
  have dist: "distinct (hh # ys @ x # zs)" using assms xs by (simp add: dlist_def)
  have "?p \<in> set (hh # ys)" "?n \<in> set (zs @ [hh])" by (rule pred_of_in, rule succ_of_in)
  then have "?p \<in> set (hh # xs)" "?n \<in> set (hh # xs)" "?p \<noteq> x" "?n \<noteq> x"
    using dist xs by auto
  moreover have "remove1 x xs = ys @ zs"
    unfolding xs by (rule remove1_split) (use dist in simp)
  ultimately show ?thesis
    using that [of ?p ?n] assms(1) lib_list_del_eq [of h hh ys x zs] dlist_unlinked [of h hh ys x zs] xs
    by metis
qed

lemma lib_list_empty_eq: "dlist h hh xs \<Longrightarrow> lib_list_empty hh h = Some (xs = [])"
  by (cases xs) (auto simp: lib_list_empty_def dlist_def get_next_def)

section \<open>The loops over a list\<close>

text \<open>
  What an iteration macro does when the list it walks is not disturbed ahead of the walk: the body
  is run on the nodes in order until it breaks.
\<close>

fun run_body :: "('w, 'l) loop_body \<Rightarrow> ptr list \<Rightarrow> 'w \<Rightarrow> 'l \<Rightarrow> ('w \<times> 'l) option" where
  "run_body b [] h l = Some (h, l)"
| "run_body b (x # xs) h l =
     Option.bind (b x h l) (\<lambda>(h', l', stop). if stop then Some (h', l') else run_body b xs h' l')"

text \<open>The nodes ahead can be reached: each is live and its \<open>next\<close> is the following one.\<close>

fun fwd :: "'a heap_scheme \<Rightarrow> ptr list \<Rightarrow> bool" where
  "fwd h (u # v # zs) = (valid h u \<and> nxt h u = v \<and> fwd h (v # zs))"
| "fwd h [u] = valid h u"
| "fwd h [] = True"

lemma fwd_hd: "fwd h (u # zs) \<Longrightarrow> valid h u"
  by (cases zs) auto

lemma fwd_step:
  "fwd h (x # ys @ [hh]) \<Longrightarrow> valid h x \<and> nxt h x = succ_of ys hh \<and> fwd h (ys @ [hh])"
  by (cases ys) simp_all

lemma fwd_succ: "fwd h (xs @ [hh]) \<Longrightarrow> valid h (succ_of xs hh)"
  by (cases xs) (simp_all add: fwd_hd)

lemma fwd_succ_next:
  "fwd h (xs @ [hh]) \<Longrightarrow> xs \<noteq> [] \<Longrightarrow> nxt h (succ_of xs hh) = succ_of (tl xs) hh"
  by (cases xs) (simp_all add: fwd_step)

lemma fwd_cong:
  "nxt h' = nxt h \<Longrightarrow> live h' = live h \<Longrightarrow> fwd h' zs = fwd h zs"
proof (induction h zs rule: fwd.induct)
  case (1 h u v zs)
  then show ?case by (simp add: valid_cong [of h' h])
qed (simp_all add: valid_def)

lemma links_fwd: "links h zs \<Longrightarrow> \<forall>z \<in> set zs. valid h z \<Longrightarrow> fwd h zs"
  by (induction h zs rule: links.induct) auto

lemma dlist_fwd: "dlist h hh xs \<Longrightarrow> fwd h (xs @ [hh])"
  using dlist_cut(4) [of h hh "[]" xs] by (auto simp: dlist_def intro!: links_fwd)

lemma dlist_fwd_from: "dlist h hh (ys @ zs) \<Longrightarrow> fwd h (zs @ [hh])"
  using dlist_cut(4) [of h hh ys zs] by (auto simp: dlist_def intro!: links_fwd)

lemma for_each_safe_from_run:
  assumes step: "\<And>x ys h l h' l'. P (x # ys) h l \<Longrightarrow> body x h l = Some (h', l', False) \<Longrightarrow> P ys h' l'"
    and ahead: "\<And>ys h l. P ys h l \<Longrightarrow> hh \<notin> set ys \<and> fwd h (ys @ [hh])"
  shows "P xs h l \<Longrightarrow> (xs \<noteq> [] \<Longrightarrow> n = succ_of (tl xs) hh) \<Longrightarrow>
     for_each_safe_from body hh (succ_of xs hh) n h l = run_body body xs h l"
proof (induction xs arbitrary: h l n)
  case Nil
  then show ?case by (simp add: for_each_safe_from.simps)
next
  case (Cons x xs)
  have n: "n = succ_of xs hh" using Cons.prems(2) by simp
  have x: "x \<noteq> hh" using ahead [OF Cons.prems(1)] by auto
  show ?case
  proof (cases "body x h l")
    case None
    then show ?thesis using x by (simp add: for_each_safe_from.simps)
  next
    case (Some r)
    then obtain h' l' stop where r: "body x h l = Some (h', l', stop)" by (cases r) auto
    show ?thesis
    proof (cases stop)
      case True
      then show ?thesis using x r by (simp add: for_each_safe_from.simps)
    next
      case False
      then have r': "body x h l = Some (h', l', False)" using r by simp
      have P': "P xs h' l'" by (rule step [OF Cons.prems(1) r'])
      have f: "fwd h' (xs @ [hh])" using ahead [OF P'] by simp
      have v: "valid h' n" unfolding n by (rule fwd_succ [OF f])
      have "xs \<noteq> [] \<Longrightarrow> nxt h' n = succ_of (tl xs) hh" unfolding n by (rule fwd_succ_next [OF f])
      then have "for_each_safe_from body hh n (nxt h' n) h' l' = run_body body xs h' l'"
        using Cons.IH [OF P'] n by blast
      then show ?thesis using x r False v by (simp add: for_each_safe_from.simps get_next_def)
    qed
  qed
qed

lemma for_each_safe_run:
  assumes "\<And>x ys h l h' l'. P (x # ys) h l \<Longrightarrow> body x h l = Some (h', l', False) \<Longrightarrow> P ys h' l'"
    and "\<And>ys h l. P ys h l \<Longrightarrow> hh \<notin> set ys \<and> fwd h (ys @ [hh])"
    and d: "dlist h hh xs" and P: "P xs h l"
  shows "lib_list_for_each_safe body hh h l = run_body body xs h l"
proof -
  let ?p = "succ_of xs hh"
  have f: "fwd h (xs @ [hh])" using d by (rule dlist_fwd)
  then have v: "valid h ?p" by (rule fwd_succ)
  have sn: "xs \<noteq> [] \<Longrightarrow> nxt h ?p = succ_of (tl xs) hh" by (rule fwd_succ_next [OF f])
  have "for_each_safe_from body hh ?p (nxt h ?p) h l = run_body body xs h l"
    by (rule for_each_safe_from_run [where P = P]) (fact assms P sn)+
  then show ?thesis
    using v dlist_next [OF d] by (simp add: lib_list_for_each_safe_def get_next_def)
qed

text \<open>A body that takes its own node off the list, as the loops that empty a list do.\<close>

lemma for_each_safe_consume:
  assumes step: "\<And>x ys h l h' l'. Q (x # ys) h l \<Longrightarrow> dlist h hh (x # ys) \<Longrightarrow>
      body x h l = Some (h', l', False) \<Longrightarrow> dlist h' hh ys \<and> Q ys h' l'"
    and d: "dlist h hh xs" and Q: "Q xs h l"
  shows "lib_list_for_each_safe body hh h l = run_body body xs h l"
proof (rule for_each_safe_run [where P = "\<lambda>ys h l. dlist h hh ys \<and> Q ys h l"])
  fix ys h l assume "dlist h hh ys \<and> Q ys h l"
  then show "hh \<notin> set ys \<and> fwd h (ys @ [hh])" by (auto simp: dlist_fwd dlist_def)
qed (use step d Q in blast)+

lemma for_each_from_run:
  assumes step: "\<And>x ys h l h' l'. P (x # ys) h l \<Longrightarrow> body x h l = Some (h', l', False) \<Longrightarrow>
      P ys h' l' \<and> valid h' x \<and> nxt h' x = succ_of ys hh"
    and ahead: "\<And>ys h l. P ys h l \<Longrightarrow> hh \<notin> set ys"
  shows "P xs h l \<Longrightarrow> for_each_from body hh (succ_of xs hh) h l = run_body body xs h l"
proof (induction xs arbitrary: h l)
  case Nil
  then show ?case by (simp add: for_each_from.simps)
next
  case (Cons x xs)
  have x: "x \<noteq> hh" using ahead [OF Cons.prems(1)] by auto
  show ?case
  proof (cases "body x h l")
    case None
    then show ?thesis using x by (simp add: for_each_from.simps)
  next
    case (Some r)
    then obtain h' l' stop where r: "body x h l = Some (h', l', stop)" by (cases r) auto
    show ?thesis
    proof (cases stop)
      case True
      then show ?thesis using x r by (simp add: for_each_from.simps)
    next
      case False
      then have r': "body x h l = Some (h', l', False)" using r by simp
      have P': "P xs h' l'" "valid h' x" "nxt h' x = succ_of xs hh"
        using step [OF Cons.prems(1) r'] by simp_all
      then show ?thesis
        using x r False Cons.IH [OF P'(1)] by (simp add: for_each_from.simps get_next_def)
    qed
  qed
qed

text \<open>A body that leaves the links and the live blocks as they are.\<close>

lemma for_each_run:
  fixes h :: "'a heap_scheme"
  assumes ro: "\<And>x h l h' l' st. body x h l = Some (h', l', st) \<Longrightarrow> nxt h' = nxt h \<and> live h' = live h"
    and d: "dlist h hh xs"
  shows "lib_list_for_each body hh h l = run_body body xs h l"
proof -
  let ?P = "\<lambda>ys h (l :: 'b). hh \<notin> set ys \<and> fwd h (ys @ [hh])"
  have step: "?P ys h' l' \<and> valid h' x \<and> nxt h' x = succ_of ys hh"
    if P: "?P (x # ys) h l" and b: "body x h l = Some (h', l', False)"
    for x ys and h h' :: "'a heap_scheme" and l l'
  proof -
    have e: "nxt h' = nxt h" "live h' = live h" using ro [OF b] by auto
    have "fwd h' (x # ys @ [hh])" using P fwd_cong [OF e] by simp
    then show ?thesis using P fwd_step [of h' x ys hh] by simp
  qed
  have "for_each_from body hh (succ_of xs hh) h l = run_body body xs h l"
  proof (rule for_each_from_run [where P = ?P])
    show "?P xs h l" using d by (auto simp: dlist_fwd dlist_def)
  qed (use step in blast)+
  then show ?thesis using dlist_next [OF d] by (simp add: lib_list_for_each_def)
qed

lemma for_each_safe_run_ro:
  fixes h :: "'a heap_scheme"
  assumes ro: "\<And>x h l h' l' st. body x h l = Some (h', l', st) \<Longrightarrow> nxt h' = nxt h \<and> live h' = live h"
    and d: "dlist h hh xs"
  shows "lib_list_for_each_safe body hh h l = run_body body xs h l"
proof (rule for_each_safe_run [where P = "\<lambda>ys h l. hh \<notin> set ys \<and> fwd h (ys @ [hh])"])
  fix x ys l l' and h h' :: "'a heap_scheme"
  assume P: "hh \<notin> set (x # ys) \<and> fwd h ((x # ys) @ [hh])" and b: "body x h l = Some (h', l', False)"
  have "fwd h' (x # ys @ [hh])" using P ro [OF b] fwd_cong [of h' h] by simp
  then have "fwd h' (ys @ [hh])" using fwd_step [of h' x ys hh] by simp
  then show "hh \<notin> set ys \<and> fwd h' (ys @ [hh])" using P by simp
qed (use d in \<open>auto simp: dlist_fwd dlist_def\<close>)

section \<open>Counting\<close>

lemma run_count:
  "run_body (\<lambda>_ h n. Some (h, n + 1, False)) xs h n = Some (h, n + int (List.length xs))"
  by (induction xs arbitrary: n) auto

lemma get_count_dlist:
  assumes "dlist h hh xs"
  shows "lib_list_get_count hh h = Some (int (List.length xs))"
proof -
  have "lib_list_for_each_safe (\<lambda>_ h ret. Some (h, ret + 1, False)) hh h (0 :: int) =
      run_body (\<lambda>_ h ret. Some (h, ret + 1, False)) xs h 0"
    by (rule for_each_safe_run_ro [OF _ assms]) auto
  then show ?thesis by (simp add: lib_list_get_count_def run_count)
qed


section \<open>Taking every node off\<close>

definition ringed :: "ptr \<Rightarrow> 'a heap_scheme \<Rightarrow> 'a heap_scheme" where
  "ringed x h = h\<lparr>nxt := (nxt h)(x := x), prv := (prv h)(x := x)\<rparr>"

lemma ringed_simps [simp]:
  "live (ringed x h) = live h" "brk (ringed x h) = brk h" "oom (ringed x h) = oom h"
  "valid (ringed x h) = valid h" "heap_ok (ringed x h) = heap_ok h"
  "heap.more (ringed x h) = heap.more h"
  by (simp_all add: ringed_def)

lemma ringed_frame: "dlist h kk zs \<Longrightarrow> x \<notin> set (kk # zs) \<Longrightarrow> dlist (ringed x h) kk zs"
  by (rule dlist_frame [of h]) (auto simp: ringed_def dlist_def)

lemma lib_list_del_init_eq:
  assumes d: "dlist h hh (ys @ x # zs)"
  shows "lib_list_del_init x h = Some (ringed x (unlinked (pred_of hh ys) x (succ_of zs hh) h))"
proof -
  let ?p = "pred_of hh ys" and ?n = "succ_of zs hh"
  have v: "valid h x" "valid h ?p" "valid h ?n"
    using d pred_of_in [of hh ys] succ_of_in [of zs hh] by (auto simp: dlist_def)
  then have nn: "?p \<noteq> NULL" "?n \<noteq> NULL" by (metis valid_NULL)+
  show ?thesis
    using v nn dlist_node [OF d]
    by (simp add: lib_list_del_init_def lib_list_unlink_def heap_access INIT_LIB_LIST_def unlinked_def
        ringed_def)
qed

lemma lib_list_del_init_first:
  assumes "dlist h hh (x # xs)"
  shows "\<exists>h'. lib_list_del_init x h = Some h' \<and> dlist h' hh xs \<and> dlist h' x [] \<and>
     live h' = live h \<and> heap.more h' = heap.more h \<and> (\<forall>y. y \<notin> set (hh # x # xs) \<longrightarrow> nxt h' y = nxt h y \<and> prv h' y = prv h y)"
proof -
  let ?n = "succ_of xs hh"
  let ?h = "ringed x (unlinked hh x ?n h)"
  have "lib_list_del_init x h = Some ?h" using lib_list_del_init_eq [of h hh "[]" x xs] assms by simp
  moreover have "dlist ?h hh xs"
    using dlist_unlinked [of h hh "[]" x xs] assms by (intro ringed_frame) (auto simp: dlist_def)
  moreover have "dlist ?h x []" using assms by (simp add: dlist_def ringed_def)
  moreover have "\<forall>y. y \<notin> set (hh # x # xs) \<longrightarrow> nxt ?h y = nxt h y \<and> prv ?h y = prv h y"
    using succ_of_in [of xs hh] by (auto simp: ringed_def unlinked_def)
  ultimately show ?thesis by (intro exI [of _ ?h]) simp
qed

text \<open>One turn of such a loop, with \<open>mem_free\<close> as the function.\<close>

lemma free_body_step:
  assumes d: "dlist h hh (x # xs)"
  shows "\<exists>h'. free_body mem_free x h () = Some (h', (), False) \<and> dlist h' hh xs \<and>
     live h' = (live h)(x := False) \<and> heap.more h' = heap.more h \<and>
     (\<forall>y. y \<notin> set (hh # x # xs) \<longrightarrow> nxt h' y = nxt h y \<and> prv h' y = prv h y)"
proof -
  obtain h1 where h1: "lib_list_del_init x h = Some h1" "dlist h1 hh xs" "dlist h1 x []"
    "live h1 = live h" "heap.more h1 = heap.more h" "\<forall>y. y \<notin> set (hh # x # xs) \<longrightarrow> nxt h1 y = nxt h y \<and> prv h1 y = prv h y"
    using lib_list_del_init_first [OF d] by blast
  let ?h2 = "h1\<lparr>live := (live h1)(x := False)\<rparr>"
  have x: "valid h1 x" "x \<noteq> NULL" using h1(3) by (auto simp: dlist_def dest: valid_pos)
  have "free_body mem_free x h () = Some (?h2, (), False)" using h1(1) x by (simp add: free_body_def)
  moreover have "dlist ?h2 hh xs"
    by (rule dlist_frame [OF h1(2)]) (use d h1(2) in \<open>auto simp: dlist_def valid_def\<close>)
  ultimately show ?thesis using h1 by (intro exI [of _ ?h2]) auto
qed

lemma run_free_body:
  "dlist h hh xs \<Longrightarrow> \<exists>h'. run_body (free_body mem_free) xs h () = Some (h', ()) \<and> dlist h' hh [] \<and>
     live h' = (\<lambda>p. live h p \<and> p \<notin> set xs) \<and> heap.more h' = heap.more h \<and>
     (\<forall>y. y \<notin> set (hh # xs) \<longrightarrow> nxt h' y = nxt h y \<and> prv h' y = prv h y)"
proof (induction xs arbitrary: h)
  case Nil
  then show ?case by simp
next
  case (Cons x xs)
  obtain h1 where h1: "free_body mem_free x h () = Some (h1, (), False)" "dlist h1 hh xs"
    "live h1 = (live h)(x := False)" "heap.more h1 = heap.more h"
    "\<forall>y. y \<notin> set (hh # x # xs) \<longrightarrow> nxt h1 y = nxt h y \<and> prv h1 y = prv h y"
    using free_body_step [OF Cons.prems] by blast
  obtain h' where h': "run_body (free_body mem_free) xs h1 () = Some (h', ())" "dlist h' hh []"
    "live h' = (\<lambda>p. live h1 p \<and> p \<notin> set xs)" "heap.more h' = heap.more h1"
    "\<forall>y. y \<notin> set (hh # xs) \<longrightarrow> nxt h' y = nxt h1 y \<and> prv h' y = prv h1 y"
    using Cons.IH [OF h1(2)] by blast
  have "run_body (free_body mem_free) (x # xs) h () = Some (h', ())"
    unfolding run_body.simps h1(1) using h'(1) by simp
  then show ?case using h' h1 by (intro exI [of _ h']) (auto simp: fun_eq_iff)
qed

lemma free_loop:
  assumes "dlist h hh xs"
  shows "\<exists>h'. lib_list_for_each_safe (free_body mem_free) hh h () = Some (h', ()) \<and> dlist h' hh [] \<and>
     live h' = (\<lambda>p. live h p \<and> p \<notin> set xs) \<and> heap.more h' = heap.more h \<and>
     (\<forall>y. y \<notin> set (hh # xs) \<longrightarrow> nxt h' y = nxt h y \<and> prv h' y = prv h y)"
proof -
  have "lib_list_for_each_safe (free_body mem_free) hh h () = run_body (free_body mem_free) xs h ()"
  proof (rule for_each_safe_consume [where Q = "\<lambda>_ _ _. True", OF _ assms TrueI])
    fix x ys and h h' :: "'a heap_scheme" and l l' :: unit
    assume "dlist h hh (x # ys)" "free_body mem_free x h l = Some (h', l', False)"
    then show "dlist h' hh ys \<and> True" using free_body_step [of h hh x ys] by auto
  qed
  then show ?thesis using run_free_body [OF assms] by simp
qed

lemma lib_list_free_ok:
  assumes "dlist h hh xs"
  shows "\<exists>h'. lib_list_free mem_free hh h = Some h' \<and> dlist h' hh [] \<and>
     live h' = (\<lambda>p. live h p \<and> p \<notin> set xs)"
  using free_loop [OF assms] by (auto simp: lib_list_free_def)

section \<open>New nodes\<close>

text \<open>A block fresh from \<open>mem_malloc\<close> is on no list, and the lists there are stay as they were.\<close>

lemma mem_malloc_node:
  assumes "heap_ok h" "\<not> next_oom h"
  obtains h' where "mem_malloc h = (brk h, h')" "valid h' (brk h)" "heap_ok h'" "oom h' = tl (oom h)"
    "heap.more h' = heap.more h" "\<not> valid h (brk h)" "brk h \<noteq> NULL"
    "\<And>q. valid h q \<Longrightarrow> valid h' q \<and> nxt h' q = nxt h q \<and> prv h' q = prv h q \<and> q \<noteq> brk h"
    "\<And>kk zs. dlist h kk zs \<Longrightarrow> dlist h' kk zs \<and> brk h \<notin> set (kk # zs)"
proof -
  let ?h = "snd (mem_malloc h)"
  have b: "0 < brk h" "\<not> live h (brk h)" using heap_ok_brk [OF assms(1)] by auto
  have m: "mem_malloc h = (brk h, ?h)" using assms(2) by (simp add: mem_malloc_def)
  have q: "\<And>q. valid h q \<Longrightarrow> valid ?h q \<and> nxt ?h q = nxt h q \<and> prv ?h q = prv h q \<and> q \<noteq> brk h"
    using b assms(2) by (auto simp: mem_malloc_def valid_def)
  have d: "dlist ?h kk zs \<and> brk h \<notin> set (kk # zs)" if "dlist h kk zs" for kk zs
  proof
    show "dlist ?h kk zs" by (rule dlist_frame [OF that]) (use q that in \<open>auto simp: dlist_def\<close>)
    show "brk h \<notin> set (kk # zs)" using dlist_notin [OF that] b by (simp add: valid_def)
  qed
  show ?thesis
    by (rule that [OF m _ mem_malloc_heap_ok [OF assms(1) m]])
      (use b q d assms(2) in \<open>auto simp: mem_malloc_def valid_def\<close>)
qed

section \<open>Moving nodes and joining lists\<close>

text \<open>\<open>lib_list_move_tail\<close> requeues a node of the list (or of another one) at the end.\<close>

end
