(* ===== verification/LibHash.thy ===== *)
theory LibHash imports LibList begin

text \<open>
  \<open>Server/Lib/lib-hash.c\<close>: a table is an array of list heads, a node goes to the row its key
  function names. Tables are structures of the shared storage, so several can exist and their
  state record can be extended by the components that embed one. \<open>table_rep h t rows\<close> gives the
  contents of a table row by row; the lemmas say what each operation makes of \<open>rows\<close>.
\<close>

section \<open>State\<close>

record hashes = heap +
  t_head :: "ptr \<Rightarrow> ptr"
  t_size :: "ptr \<Rightarrow> int"
  t_create_key :: "ptr \<Rightarrow> nat"
  t_p :: "ptr \<Rightarrow> ptr"

text \<open>
  \<open>create_key\<close> is a function pointer: the field holds its number and \<open>keys\<close> gives the code behind
  the numbers. It reads the node and the table's parameter.
\<close>

type_synonym 'w key_code = "nat \<Rightarrow> ptr \<Rightarrow> ptr \<Rightarrow> 'w \<Rightarrow> int option"

text \<open>A user function of a walk may change the state and the variables behind its parameter.\<close>

type_synonym ('w, 'l) walk_fun = "ptr \<Rightarrow> 'w \<Rightarrow> 'l \<Rightarrow> (int \<times> 'w \<times> 'l) option"

section \<open>The operations\<close>

fun init_heads :: "ptr \<Rightarrow> nat list \<Rightarrow> 'a heap_scheme \<Rightarrow> 'a heap_scheme option" where
  "init_heads base [] h = Some h"
| "init_heads base (i # is) h = do { h \<leftarrow> INIT_LIB_LIST (base + i) h; init_heads base is h }"

definition hash_create ::
  "int \<Rightarrow> nat \<Rightarrow> ptr \<Rightarrow> 'a hashes_scheme \<Rightarrow> (ptr \<times> 'a hashes_scheme) option"
where
  "hash_create n ck p h =
     (let (table, h) = mem_malloc h
      in if table = NULL then Some (NULL, h)
      else if n < 0 then None
      else
        let (base, h) = mem_malloc_array (nat n) h;
            h = h\<lparr>t_head := (t_head h)(table := base)\<rparr>
        in if base = NULL then do { h \<leftarrow> mem_free table h; Some (NULL, h) }
        else do {
          h \<leftarrow> init_heads base [0..<nat n] h;
          Some (table, h\<lparr>t_size := (t_size h)(table := n), t_create_key := (t_create_key h)(table := ck),
                         t_p := (t_p h)(table := p)\<rparr>) })"

definition hash_free :: "ptr \<Rightarrow> 'a hashes_scheme \<Rightarrow> 'a hashes_scheme option" where
  "hash_free table h = do {
     _ \<leftarrow> lib_assert (valid h table);
     h \<leftarrow> mem_free_array (t_head h table) (nat (t_size h table)) h;
     mem_free table h }"

definition hash_init :: "ptr \<Rightarrow> 'a heap_scheme \<Rightarrow> (int \<times> 'a heap_scheme) option" where
  "hash_init node h = do { h \<leftarrow> INIT_LIB_LIST node h; Some (0, h) }"

definition hash_add ::
  "'a hashes_scheme key_code \<Rightarrow> ptr \<Rightarrow> ptr \<Rightarrow> 'a hashes_scheme \<Rightarrow> (int \<times> 'a hashes_scheme) option"
where
  "hash_add keys node table h = do {
     _ \<leftarrow> lib_assert (valid h table);
     key \<leftarrow> keys (t_create_key h table) node (t_p h table) h;
     if key < 0 \<or> t_size h table \<le> key then Some (- 1, h)
     else do {
       h \<leftarrow> lib_list_add_tail node (t_head h table + nat key) h;
       Some (0, h) } }"

definition hash_del :: "ptr \<Rightarrow> ptr \<Rightarrow> 'a hashes_scheme \<Rightarrow> (int \<times> 'a hashes_scheme) option" where
  "hash_del node table h = do {
     _ \<leftarrow> lib_assert (valid h table);
     h \<leftarrow> lib_list_del node h;
     Some (0, h) }"

text \<open>The loops over the rows, \<open>for (i = 0; i < table->size; i++)\<close>.\<close>

definition row_heads :: "'a hashes_scheme \<Rightarrow> ptr \<Rightarrow> ptr list" where
  "row_heads h table = List.map (\<lambda>i. t_head h table + i) [0..<nat (t_size h table)]"

fun num_rows :: "ptr list \<Rightarrow> 'a hashes_scheme \<Rightarrow> int \<Rightarrow> int option" where
  "num_rows [] h num = Some num"
| "num_rows (head # heads) h num = do {
     (_, num) \<leftarrow> lib_list_for_each (\<lambda>_ h num. Some (h, num + 1, False)) head h num;
     num_rows heads h num }"

definition hash_num :: "ptr \<Rightarrow> 'a hashes_scheme \<Rightarrow> int option" where
  "hash_num table h = do {
     _ \<leftarrow> lib_assert (valid h table);
     num_rows (row_heads h table) h 0 }"

definition hash_walk_row ::
  "('a hashes_scheme, 'l) walk_fun \<Rightarrow> ptr \<Rightarrow> 'a hashes_scheme \<Rightarrow> 'l \<Rightarrow> (ptr \<times> 'a hashes_scheme \<times> 'l) option"
where
  "hash_walk_row func head h l = do {
     (h, (l, node)) \<leftarrow> lib_list_for_each
       (\<lambda>node h (l, _). do {
          (ret, h, l) \<leftarrow> func node h l;
          if ret < 0 then Some (h, (l, node), True) else Some (h, (l, NULL), False) })
       head h (l, NULL);
     Some (node, h, l) }"

fun hash_walk_rows ::
  "('a hashes_scheme, 'l) walk_fun \<Rightarrow> ptr list \<Rightarrow> 'a hashes_scheme \<Rightarrow> 'l \<Rightarrow>
   (ptr \<times> 'a hashes_scheme \<times> 'l) option"
where
  "hash_walk_rows func [] h l = Some (NULL, h, l)"
| "hash_walk_rows func (head # heads) h l = do {
     (node, h, l) \<leftarrow> hash_walk_row func head h l;
     if node \<noteq> NULL then Some (node, h, l) else hash_walk_rows func heads h l }"

definition hash_walk ::
  "('a hashes_scheme, 'l) walk_fun \<Rightarrow> ptr \<Rightarrow> int \<Rightarrow> 'a hashes_scheme \<Rightarrow> 'l \<Rightarrow>
   (ptr \<times> 'a hashes_scheme \<times> 'l) option"
where
  "hash_walk func table key h l = do {
     _ \<leftarrow> lib_assert (valid h table);
     if 0 \<le> key \<and> key < t_size h table then hash_walk_row func (t_head h table + nat key) h l
     else if key = t_size h table then hash_walk_rows func (row_heads h table) h l
     else Some (NULL, h, l) }"

fun free_rows ::
  "(ptr \<Rightarrow> 'a hashes_scheme \<Rightarrow> 'a hashes_scheme option) \<Rightarrow> ptr list \<Rightarrow> 'a hashes_scheme \<Rightarrow>
   'a hashes_scheme option"
where
  "free_rows free [] h = Some h"
| "free_rows free (head # heads) h = do {
     (h, _) \<leftarrow> lib_list_for_each_safe (free_body free) head h ();
     free_rows free heads h }"

definition hash_free_all ::
  "(ptr \<Rightarrow> 'a hashes_scheme \<Rightarrow> 'a hashes_scheme option) \<Rightarrow> ptr \<Rightarrow> 'a hashes_scheme \<Rightarrow>
   'a hashes_scheme option"
where
  "hash_free_all free table h =
     (if table = NULL then Some h
      else do {
        _ \<leftarrow> lib_assert (valid h table);
        h \<leftarrow> free_rows free (row_heads h table) h;
        h \<leftarrow> mem_free_array (t_head h table) (nat (t_size h table)) h;
        mem_free table h })"

fun empty_rows :: "ptr list \<Rightarrow> 'a hashes_scheme \<Rightarrow> int option" where
  "empty_rows [] h = Some 1"
| "empty_rows (head # heads) h = do {
     e \<leftarrow> lib_list_empty head h;
     if \<not> e then Some 0 else empty_rows heads h }"

definition hash_empty :: "ptr \<Rightarrow> 'a hashes_scheme \<Rightarrow> int option" where
  "hash_empty table h =
     (if table = NULL then Some 1
      else do { _ \<leftarrow> lib_assert (valid h table); empty_rows (row_heads h table) h })"

fun walk_all_rows ::
  "(ptr \<Rightarrow> 'a hashes_scheme \<Rightarrow> 'a hashes_scheme option) \<Rightarrow> ptr list \<Rightarrow> 'a hashes_scheme \<Rightarrow>
   'a hashes_scheme option"
where
  "walk_all_rows f [] h = Some h"
| "walk_all_rows f (head # heads) h = do {
     (h, _) \<leftarrow> lib_list_for_each_safe
       (\<lambda>node h (_ :: unit).
          if node = NULL then Some (h, (), False)
          else do { h \<leftarrow> f node h; Some (h, (), False) })
       head h ();
     walk_all_rows f heads h }"

definition hash_walk_all ::
  "(ptr \<Rightarrow> 'a hashes_scheme \<Rightarrow> 'a hashes_scheme option) \<Rightarrow> ptr \<Rightarrow> 'a hashes_scheme \<Rightarrow>
   'a hashes_scheme option"
where
  "hash_walk_all f table h =
     (if table = NULL then Some h
      else do { _ \<leftarrow> lib_assert (valid h table); walk_all_rows f (row_heads h table) h })"

section \<open>The contents of a table\<close>

abbreviation row_head :: "'a hashes_scheme \<Rightarrow> ptr \<Rightarrow> nat \<Rightarrow> ptr" where
  "row_head h t i \<equiv> t_head h t + i"

definition table_rep :: "'a hashes_scheme \<Rightarrow> ptr \<Rightarrow> ptr list list \<Rightarrow> bool" where
  "table_rep h t rows \<longleftrightarrow> valid h t \<and> t_size h t = int (List.length rows) \<and>
     (\<forall>i < List.length rows. dlist h (row_head h t i) (rows ! i) \<and>
        (\<forall>j < List.length rows. i \<noteq> j \<longrightarrow>
           set (row_head h t i # rows ! i) \<inter> set (row_head h t j # rows ! j) = {}))"

lemma table_rep_row:
  "table_rep h t rows \<Longrightarrow> i < List.length rows \<Longrightarrow> dlist h (row_head h t i) (rows ! i)"
  by (simp add: table_rep_def)

lemma table_rep_disj:
  "table_rep h t rows \<Longrightarrow> i < List.length rows \<Longrightarrow> j < List.length rows \<Longrightarrow> i \<noteq> j \<Longrightarrow>
   x \<in> set (row_head h t i # rows ! i) \<Longrightarrow> x \<notin> set (row_head h t j # rows ! j)"
  unfolding table_rep_def by (metis disjoint_iff)

lemma table_rep_disj_set:
  "table_rep h t rows \<Longrightarrow> i < List.length rows \<Longrightarrow> j < List.length rows \<Longrightarrow> i \<noteq> j \<Longrightarrow>
   set (rows ! i) \<inter> set (row_head h t j # rows ! j) = {}"
  unfolding table_rep_def by fastforce

lemma table_rep_valid: "table_rep h t rows \<Longrightarrow> valid h t"
  by (simp add: table_rep_def)

lemma table_rep_size: "table_rep h t rows \<Longrightarrow> t_size h t = int (List.length rows)"
  by (simp add: table_rep_def)

lemma row_heads_eq:
  "table_rep h t rows \<Longrightarrow> row_heads h t = List.map (row_head h t) [0..<List.length rows]"
  by (simp add: row_heads_def table_rep_size)

text \<open>Changing one row, the others and the table's own fields untouched.\<close>

lemma table_rep_update:
  assumes t: "table_rep h t rows" and k: "k < List.length rows"
    and same: "t_head h' t = t_head h t" "t_size h' t = t_size h t" "valid h' t"
    and row: "dlist h' (row_head h t k) row"
    and others: "\<And>j. j < List.length rows \<Longrightarrow> j \<noteq> k \<Longrightarrow> dlist h' (row_head h t j) (rows ! j)"
    and new: "\<And>j. j < List.length rows \<Longrightarrow> j \<noteq> k \<Longrightarrow>
      set row \<inter> set (row_head h t j # rows ! j) = {}"
  shows "table_rep h' t (rows[k := row])"
  unfolding table_rep_def
proof (intro conjI allI impI)
  show "valid h' t" "t_size h' t = int (List.length (rows[k := row]))"
    using same table_rep_size [OF t] by simp_all
next
  fix i assume i: "i < List.length (rows[k := row])"
  then show "dlist h' (row_head h' t i) (rows[k := row] ! i)"
    using row others same by (cases "i = k") simp_all
  fix j assume j: "j < List.length (rows[k := row])" "i \<noteq> j"
  have hk: "\<And>j. j < List.length rows \<Longrightarrow> j \<noteq> k \<Longrightarrow> row_head h t k \<notin> set (row_head h t j # rows ! j)"
    using table_rep_disj [OF t k] by fastforce
  consider "i = k" | "j = k" | "i \<noteq> k" "j \<noteq> k" by blast
  then show "set (row_head h' t i # rows[k := row] ! i) \<inter> set (row_head h' t j # rows[k := row] ! j) = {}"
  proof cases
    case 1
    then show ?thesis using new [of j] hk [of j] i j same k by auto
  next
    case 2
    then show ?thesis using new [of i] hk [of i] i j same k by auto
  next
    case 3
    then show ?thesis using t i j same by (simp add: table_rep_def)
  qed
qed


section \<open>Adding and deleting\<close>

lemma hashes_linked [simp]:
  "t_head (linked p x n h) = t_head h" "t_size (linked p x n h) = t_size h"
  "t_create_key (linked p x n h) = t_create_key h" "t_p (linked p x n h) = t_p h"
  "t_head (unlinked p x n h) = t_head h" "t_size (unlinked p x n h) = t_size h"
  "t_create_key (unlinked p x n h) = t_create_key h" "t_p (unlinked p x n h) = t_p h"
  by (simp_all add: linked_def unlinked_def)

definition in_table :: "'a hashes_scheme \<Rightarrow> ptr \<Rightarrow> ptr list list \<Rightarrow> ptr \<Rightarrow> bool" where
  "in_table h t rows x \<longleftrightarrow> (\<exists>i < List.length rows. x \<in> set (row_head h t i # rows ! i))"

lemma hash_add_linked:
  assumes t: "table_rep h t rows" and x: "valid h x" "\<not> in_table h t rows x"
    and key: "keys (t_create_key h t) x (t_p h t) h = Some key" "0 \<le> key" "key < int (List.length rows)"
  shows "\<exists>p \<in> set (row_head h t (nat key) # rows ! nat key).
     hash_add keys x t h = Some (0, linked p x (row_head h t (nat key)) h) \<and>
     table_rep (linked p x (row_head h t (nat key)) h) t (rows[nat key := rows ! nat key @ [x]])"
proof -
  let ?k = "nat key" and ?hk = "row_head h t (nat key)"
  have k: "?k < List.length rows" using key by simp
  have d: "dlist h ?hk (rows ! ?k)" by (rule table_rep_row [OF t k])
  let ?p = "pred_of ?hk (rows ! ?k)"
  let ?h = "linked ?p x ?hk h"
  have xn: "\<And>j. j < List.length rows \<Longrightarrow> x \<notin> set (row_head h t j # rows ! j)"
    using x(2) by (auto simp: in_table_def)
  have ev: "hash_add keys x t h = Some (0, ?h)"
    using key table_rep_size [OF t] table_rep_valid [OF t] lib_list_add_tail_eq [OF d x(1)]
    by (simp add: hash_add_def)
  have "table_rep ?h t (rows[?k := rows ! ?k @ [x]])"
  proof (rule table_rep_update [OF t k])
    show "valid ?h t" using table_rep_valid [OF t] by simp
    show "dlist ?h ?hk (rows ! ?k @ [x])" by (rule lib_list_add_tail_dlist [OF d x(1) xn [OF k]])
    fix j assume j: "j < List.length rows" "j \<noteq> ?k"
    note dj = table_rep_disj [OF t k j(1) j(2) [symmetric]]
    show "dlist ?h (row_head h t j) (rows ! j)"
      by (rule linked_frame [OF table_rep_row [OF t j(1)] dj [OF pred_of_in] dj xn [OF j(1)]]) simp
    show "set (rows ! ?k @ [x]) \<inter> set (row_head h t j # rows ! j) = {}"
      using table_rep_disj_set [OF t k j(1) j(2) [symmetric]] xn [OF j(1)] by auto
  qed simp_all
  then show ?thesis using ev pred_of_in by blast
qed

lemma hash_add_rep:
  assumes "table_rep h t rows" and "valid h x" "\<not> in_table h t rows x"
    and "keys (t_create_key h t) x (t_p h t) h = Some key" "0 \<le> key" "key < int (List.length rows)"
  shows "\<exists>h'. hash_add keys x t h = Some (0, h') \<and>
     table_rep h' t (rows[nat key := rows ! nat key @ [x]])"
  using hash_add_linked [where keys = keys, OF assms] by blast

lemma hash_add_bad_key:
  assumes "table_rep h t rows" "keys (t_create_key h t) x (t_p h t) h = Some key"
    "key < 0 \<or> int (List.length rows) \<le> key"
  shows "hash_add keys x t h = Some (- 1, h)"
  using assms by (auto simp: hash_add_def table_rep_valid table_rep_size)

lemma hash_del_unlinked:
  assumes t: "table_rep h t rows" and k: "k < List.length rows" and x: "x \<in> set (rows ! k)"
  shows "\<exists>p \<in> set (row_head h t k # rows ! k). \<exists>n \<in> set (row_head h t k # rows ! k). p \<noteq> x \<and> n \<noteq> x \<and>
     hash_del x t h = Some (0, unlinked p x n h) \<and>
     table_rep (unlinked p x n h) t (rows[k := remove1 x (rows ! k)])"
proof -
  let ?hk = "row_head h t k"
  have d: "dlist h ?hk (rows ! k)" by (rule table_rep_row [OF t k])
  obtain p n where ev: "lib_list_del x h = Some (unlinked p x n h)"
    and d': "dlist (unlinked p x n h) ?hk (remove1 x (rows ! k))"
    and pn: "p \<in> set (?hk # rows ! k)" "n \<in> set (?hk # rows ! k)" "p \<noteq> x" "n \<noteq> x"
    by (rule lib_list_del_dlist [OF d x])
  let ?h = "unlinked p x n h"
  have "table_rep ?h t (rows[k := remove1 x (rows ! k)])"
  proof (rule table_rep_update [OF t k])
    show "valid ?h t" using table_rep_valid [OF t] by simp
    show "dlist ?h ?hk (remove1 x (rows ! k))" by (rule d')
    fix j assume j: "j < List.length rows" "j \<noteq> k"
    note dj = table_rep_disj [OF t k j(1) j(2) [symmetric]]
    have xk: "x \<in> set (?hk # rows ! k)" using x by simp
    show "dlist ?h (row_head h t j) (rows ! j)"
      by (rule unlinked_frame [OF table_rep_row [OF t j(1)] dj [OF pn(1)] dj [OF pn(2)] dj [OF xk]])
    have "set (rows ! k) \<inter> set (row_head h t j # rows ! j) = {}"
      by (rule table_rep_disj_set [OF t k j(1) j(2) [symmetric]])
    then show "set (remove1 x (rows ! k)) \<inter> set (row_head h t j # rows ! j) = {}"
      using set_remove1_subset [of x "rows ! k"] by blast
  qed simp_all
  moreover have "hash_del x t h = Some (0, ?h)"
    using ev table_rep_valid [OF t] by (simp add: hash_del_def)
  ultimately show ?thesis using pn by blast
qed

lemma hash_del_rep:
  assumes "table_rep h t rows" and "k < List.length rows" and "x \<in> set (rows ! k)"
  shows "\<exists>h'. hash_del x t h = Some (0, h') \<and> table_rep h' t (rows[k := remove1 x (rows ! k)]) \<and>
     nxt h' x = NULL \<and> prv h' x = NULL"
proof -
  obtain p n where "p \<noteq> x" "n \<noteq> x" "hash_del x t h = Some (0, unlinked p x n h)"
      "table_rep (unlinked p x n h) t (rows[k := remove1 x (rows ! k)])"
    using hash_del_unlinked [OF assms] by blast
  then show ?thesis by auto
qed


section \<open>Counting and walking\<close>

lemma num_rows_eq:
  "list_all2 (dlist h) heads rows \<Longrightarrow> num_rows heads h n = Some (n + int (sum_list (List.map List.length rows)))"
proof (induction heads rows arbitrary: n rule: list_all2_induct)
  case (Cons head heads row rows)
  have "lib_list_for_each (\<lambda>_ h num. Some (h, num + 1, False)) head h n =
      run_body (\<lambda>_ h num. Some (h, num + 1, False)) row h n"
    by (rule for_each_run [OF _ Cons.hyps(1)]) auto
  then show ?case using Cons.IH by (simp add: run_count)
qed simp

lemma table_rep_all2:
  "table_rep h t rows \<Longrightarrow> list_all2 (dlist h) (row_heads h t) rows"
  by (simp add: row_heads_eq list_all2_conv_all_nth table_rep_row)

lemma hash_num_rep:
  assumes "table_rep h t rows"
  shows "hash_num t h = Some (int (List.length (concat rows)))"
  using num_rows_eq [OF table_rep_all2 [OF assms]] table_rep_valid [OF assms]
  by (simp add: hash_num_def length_concat)

lemma hash_empty_rep:
  assumes t: "table_rep h t rows"
  shows "hash_empty t h = Some (if concat rows = [] then 1 else 0)"
proof -
  have "list_all2 (dlist h) heads rows \<Longrightarrow>
      empty_rows heads h = Some (if concat rows = [] then 1 else 0)" for heads rows
    by (induction heads rows rule: list_all2_induct) (simp_all add: lib_list_empty_eq)
  then show ?thesis
    using table_rep_all2 [OF t] table_rep_valid [OF t] by (auto simp: hash_empty_def dest: valid_pos)
qed

text \<open>
  A walk whose function only looks (it answers from the node and the state, and changes neither)
  returns the first node it answers a negative number for, in the order of the rows walked.
\<close>

definition looks :: "(ptr \<Rightarrow> int) \<Rightarrow> ('w, 'l) walk_fun" where
  "looks f node h l = Some (f node, h, l)"

fun first_neg :: "(ptr \<Rightarrow> int) \<Rightarrow> ptr list \<Rightarrow> ptr" where
  "first_neg f [] = NULL"
| "first_neg f (x # xs) = (if f x < 0 then x else first_neg f xs)"

lemma first_neg_append:
  "NULL \<notin> set xs \<Longrightarrow> first_neg f (xs @ ys) = (if first_neg f xs \<noteq> NULL then first_neg f xs else first_neg f ys)"
  by (induction xs) auto

lemma hash_walk_row_looks:
  assumes "dlist h head row"
  shows "hash_walk_row (looks f) head h l = Some (first_neg f row, h, l)"
proof -
  let ?b = "\<lambda>node h (l, _). do {
          (ret, h, l) \<leftarrow> looks f node h l;
          if ret < 0 then Some (h, (l, node), True) else Some (h, (l, NULL), False) }"
  have "lib_list_for_each ?b head h (l, NULL) = run_body ?b row h (l, NULL)"
    by (rule for_each_run [OF _ assms]) (auto simp: looks_def split: if_splits)
  moreover have "run_body ?b row h (l, NULL) = Some (h, (l, first_neg f row))" for row
    by (induction row) (simp_all add: looks_def)
  ultimately show ?thesis by (simp add: hash_walk_row_def)
qed

text \<open>The same for a function that reads the structures its nodes are part of.\<close>

lemma hash_walk_row_on:
  assumes d: "dlist h head row" and on: "\<And>x. x \<in> set row \<Longrightarrow> func x h l = Some (f x, h, l)"
    and ro: "\<And>x h l r h' l'. func x h l = Some (r, h', l') \<Longrightarrow> h' = h"
  shows "hash_walk_row func head h l = Some (first_neg f row, h, l)"
proof -
  let ?b = "\<lambda>node h (l, _). do {
          (ret, h, l) \<leftarrow> func node h l;
          if ret < 0 then Some (h, (l, node), True) else Some (h, (l, NULL), False) }"
  have "lib_list_for_each ?b head h (l, NULL) = run_body ?b row h (l, NULL)"
    by (rule for_each_run [OF _ d]) (auto split: if_splits Option.bind_splits dest!: ro)
  moreover have "run_body ?b row h (l, NULL) = Some (h, (l, first_neg f row))"
    if "\<And>x. x \<in> set row \<Longrightarrow> func x h l = Some (f x, h, l)" for row
    using that by (induction row) simp_all
  ultimately show ?thesis using on by (simp add: hash_walk_row_def)
qed

lemma hash_walk_key_on:
  assumes t: "table_rep h t rows" and k: "k < List.length rows"
    and "\<And>x. x \<in> set (rows ! k) \<Longrightarrow> func x h l = Some (f x, h, l)"
    and "\<And>x h l r h' l'. func x h l = Some (r, h', l') \<Longrightarrow> h' = h"
  shows "hash_walk func t (int k) h l = Some (first_neg f (rows ! k), h, l)"
  using hash_walk_row_on [OF table_rep_row [OF t k], of func l f] assms(3,4)
    table_rep_valid [OF t] table_rep_size [OF t] k
  by (simp add: hash_walk_def)

lemma hash_walk_key:
  assumes t: "table_rep h t rows" and k: "k < List.length rows"
  shows "hash_walk (looks f) t (int k) h l = Some (first_neg f (rows ! k), h, l)"
  using hash_walk_row_looks [OF table_rep_row [OF t k]] table_rep_valid [OF t] table_rep_size [OF t] k
  by (simp add: hash_walk_def)

lemma hash_walk_whole:
  assumes t: "table_rep h t rows"
  shows "hash_walk (looks f) t (t_size h t) h l = Some (first_neg f (concat rows), h, l)"
proof -
  have "list_all2 (dlist h) heads rows \<Longrightarrow>
      hash_walk_rows (looks f) heads h l = Some (first_neg f (concat rows), h, l)" for heads rows
  proof (induction heads rows rule: list_all2_induct)
    case (Cons head heads row rows)
    have "NULL \<notin> set row" using Cons.hyps(1) by (auto simp: dlist_def)
    then show ?case
      using Cons.IH by (simp add: hash_walk_row_looks [OF Cons.hyps(1)] first_neg_append)
  qed simp
  then show ?thesis
    using table_rep_all2 [OF t] table_rep_valid [OF t] by (simp add: hash_walk_def)
qed


section \<open>Creating and freeing\<close>

definition ring_heads :: "ptr \<Rightarrow> nat list \<Rightarrow> 'a heap_scheme \<Rightarrow> 'a heap_scheme" where
  "ring_heads base is h =
     h\<lparr>nxt := (\<lambda>p. if p \<in> (\<lambda>i. base + i) ` set is then p else nxt h p),
       prv := (\<lambda>p. if p \<in> (\<lambda>i. base + i) ` set is then p else prv h p)\<rparr>"

lemma init_heads_eq:
  "\<forall>i \<in> set is. valid h (base + i) \<Longrightarrow> init_heads base is h = Some (ring_heads base is h)"
proof (induction "is" arbitrary: h)
  case Nil
  show ?case by (simp add: ring_heads_def)
next
  case (Cons i "is")
  let ?h = "h\<lparr>nxt := (nxt h)(base + i := base + i), prv := (prv h)(base + i := base + i)\<rparr>"
  have "init_heads base is ?h = Some (ring_heads base is ?h)" using Cons by simp
  moreover have "ring_heads base is ?h = ring_heads base (i # is) h"
    by (auto simp: ring_heads_def fun_eq_iff image_iff)
  ultimately show ?case using Cons.prems by (simp add: INIT_LIB_LIST_ok)
qed

lemma ring_heads_simps [simp]:
  "live (ring_heads base is h) = live h" "brk (ring_heads base is h) = brk h"
  "valid (ring_heads base is h) = valid h" "heap_ok (ring_heads base is h) = heap_ok h"
  by (simp_all add: ring_heads_def)

lemma hash_create_ok:
  assumes h: "heap_ok h" and n: "0 \<le> n" and o: "oom h = []"
  shows "\<exists>t h'. hash_create n ck p h = Some (t, h') \<and> heap_ok h' \<and> \<not> valid h t \<and>
     table_rep h' t (replicate (nat n) []) \<and> t_create_key h' t = ck \<and> t_p h' t = p"
proof -
  let ?t = "brk h" and ?b = "Suc (brk h)"
  have b0: "0 < ?t" using h by (simp add: heap_ok_def)
  obtain h1 where m1: "mem_malloc h = (?t, h1)" and l1: "live h1 = (live h)(?t := True)"
    and b1: "brk h1 = ?b" "oom h1 = []"
    using o by (simp add: mem_malloc_def next_oom_def)
  obtain h2 where m2: "mem_malloc_array (nat n) h1 = (?b, h2)"
    and l2: "live h2 = (\<lambda>q. live h1 q \<or> ?b \<le> q \<and> q < ?b + max 1 (nat n))"
    and b2: "brk h2 = ?b + max 1 (nat n)"
    using b1 by (simp add: mem_malloc_array_def next_oom_def)
  let ?h3 = "h2\<lparr>t_head := (t_head h2)(?t := ?b)\<rparr>"
  let ?h4 = "ring_heads ?b [0..<nat n] ?h3"
  let ?h5 = "?h4\<lparr>t_size := (t_size ?h4)(?t := n), t_create_key := (t_create_key ?h4)(?t := ck),
      t_p := (t_p ?h4)(?t := p)\<rparr>"
  have v: "\<forall>i \<in> set [0..<nat n]. valid ?h3 (?b + i)" by (simp add: valid_def l2)
  have ev: "hash_create n ck p h = Some (?t, ?h5)"
    using b0 n by (simp add: hash_create_def Let_def m1 m2 init_heads_eq [OF v])
  have hd: "row_head ?h5 ?t i = ?b + i" for i by (simp add: ring_heads_def)
  have "table_rep ?h5 ?t (replicate (nat n) [])"
    unfolding table_rep_def hd
  proof (intro conjI allI impI)
    show "valid ?h5 ?t" using b0 by (simp add: valid_def l2 l1)
    show "t_size ?h5 ?t = int (List.length (replicate (nat n) []))" using n by simp
    fix i assume i: "i < List.length (replicate (nat n) [])"
    then have "?b + i \<in> (+) ?b ` set [0..<nat n]" by simp
    then have "nxt ?h5 (?b + i) = ?b + i" "prv ?h5 (?b + i) = ?b + i"
      by (simp_all add: ring_heads_def)
    moreover have "valid ?h5 (?b + i)" using i by (simp add: valid_def l2)
    ultimately show "dlist ?h5 (?b + i) (replicate (nat n) [] ! i)"
      using i by (simp add: dlist_def)
    fix j assume "j < List.length (replicate (nat n) [])" "i \<noteq> j"
    then show "set ((?b + i) # replicate (nat n) [] ! i) \<inter> set ((?b + j) # replicate (nat n) [] ! j) = {}"
      using i by simp
  qed
  moreover have "heap_ok ?h5"
    using h by (auto simp: heap_ok_def l2 l1 b2 less_Suc_eq)
  moreover have "\<not> valid h ?t" using heap_ok_brk [OF h] by (simp add: valid_def)
  ultimately show ?thesis using ev by (intro exI [of _ ?t] exI [of _ ?h5]) simp
qed

text \<open>When the array cannot be had the table is given back and \<open>NULL\<close> returned.\<close>

lemma hash_create_no_array:
  assumes h: "heap_ok h" and n: "0 \<le> n" and o: "oom h = [False, True]"
  shows "\<exists>h'. hash_create n ck p h = Some (NULL, h') \<and> live h' = live h"
proof -
  have "0 < brk h" "\<not> live h (brk h)" using heap_ok_brk [OF h] by auto
  then show ?thesis
    using n o by (auto simp: hash_create_def mem_malloc_def mem_malloc_array_def next_oom_def
        mem_free_def Let_def fun_eq_iff)
qed

text \<open>
  Freeing a table takes every node off its row and gives it to the owner's function, row by row;
  with \<open>mem_free\<close> as the owner's function no node stays live.
\<close>

lemma hashes_more:
  "heap.more h' = heap.more h \<Longrightarrow> t_head h' = t_head h \<and> t_size h' = t_size h"
  by (cases h; cases h') simp

abbreviation apart :: "'b list list \<Rightarrow> bool" where
  "apart \<equiv> sorted_wrt (\<lambda>as bs. set as \<inter> set bs = {})"

lemma free_rows_ok:
  "list_all2 (dlist h) heads rows \<Longrightarrow> apart (map2 (#) heads rows) \<Longrightarrow>
   \<exists>h'. free_rows mem_free heads h = Some h' \<and> heap.more h' = heap.more h \<and>
     live h' = (\<lambda>p. live h p \<and> p \<notin> set (concat rows))"
proof (induction heads arbitrary: h rows)
  case Nil
  then show ?case by simp
next
  case (Cons head heads)
  then obtain row rest where rows: "rows = row # rest" "dlist h head row" "list_all2 (dlist h) heads rest"
    by (auto simp: list_all2_Cons1)
  obtain h1 where h1: "lib_list_for_each_safe (free_body mem_free) head h () = Some (h1, ())"
    "live h1 = (\<lambda>p. live h p \<and> p \<notin> set row)" "heap.more h1 = heap.more h"
    "\<forall>y. y \<notin> set (head # row) \<longrightarrow> nxt h1 y = nxt h y \<and> prv h1 y = prv h y"
    using free_loop [OF rows(2)] by blast
  have ap: "\<forall>as \<in> set (map2 (#) heads rest). set (head # row) \<inter> set as = {}" "apart (map2 (#) heads rest)"
    using Cons.prems(2) rows(1) by auto
  have "list_all2 (dlist h1) heads rest"
    unfolding list_all2_conv_all_nth
  proof (intro conjI allI impI)
    show "List.length heads = List.length rest" using rows(3) by (rule list_all2_lengthD)
    then have len: "List.length heads = List.length rest" .
    fix i assume i: "i < List.length heads"
    have "heads ! i # rest ! i \<in> set (map2 (#) heads rest)"
      using i len by (auto simp: set_zip image_iff intro!: bexI [of _ "(heads ! i, rest ! i)"])
    then have dis: "set (head # row) \<inter> set (heads ! i # rest ! i) = {}" using ap(1) by blast
    have d: "dlist h (heads ! i) (rest ! i)" using rows(3) i by (simp add: list_all2_conv_all_nth)
    show "dlist h1 (heads ! i) (rest ! i)"
      by (rule dlist_frame [OF d]) (use d dis h1 in \<open>fastforce simp: dlist_def valid_def\<close>)
  qed
  then obtain h' where h': "free_rows mem_free heads h1 = Some h'" "heap.more h' = heap.more h1"
    "live h' = (\<lambda>p. live h1 p \<and> p \<notin> set (concat rest))"
    using Cons.IH [OF _ ap(2)] by blast
  then show ?case using h1 rows(1) by (intro exI [of _ h']) (auto simp: fun_eq_iff)
qed

lemma table_rep_apart:
  assumes t: "table_rep h t rows"
  shows "apart (map2 (#) (row_heads h t) rows)"
  unfolding sorted_wrt_iff_nth_less
proof (intro allI impI)
  let ?z = "map2 (#) (row_heads h t) rows"
  fix i j assume ij: "i < j" "j < List.length ?z"
  then have "?z ! i = row_head h t i # rows ! i" "?z ! j = row_head h t j # rows ! j"
    by (simp_all add: row_heads_eq [OF t])
  then show "set (?z ! i) \<inter> set (?z ! j) = {}"
    using t ij unfolding table_rep_def by (simp add: row_heads_eq [OF t])
qed

lemma hash_free_all_ok:
  assumes t: "table_rep h t rows" and out: "t \<notin> set (concat rows)"
    and arr: "t_head h t \<notin> set (concat rows)" "valid h (t_head h t)"
      "\<not> (t_head h t \<le> t \<and> t < t_head h t + max 1 (List.length rows))"
  shows "\<exists>h'. hash_free_all mem_free t h = Some h' \<and> \<not> valid h' t \<and> \<not> valid h' (t_head h t) \<and>
     (\<forall>x \<in> set (concat rows). \<not> valid h' x)"
proof -
  obtain h1 where h1: "free_rows mem_free (row_heads h t) h = Some h1" "heap.more h1 = heap.more h"
    "live h1 = (\<lambda>p. live h p \<and> p \<notin> set (concat rows))"
    using free_rows_ok [OF table_rep_all2 [OF t] table_rep_apart [OF t]] by blast
  let ?b = "t_head h t"
  let ?h2 = "h1\<lparr>live := (\<lambda>q. live h1 q \<and> \<not> (?b \<le> q \<and> q < ?b + max 1 (List.length rows)))\<rparr>"
  let ?h3 = "?h2\<lparr>live := (live ?h2)(t := False)\<rparr>"
  have tv: "valid h t" by (rule table_rep_valid [OF t])
  have f: "t_head h1 = t_head h" "t_size h1 = t_size h" using hashes_more [OF h1(2)] by simp_all
  have "mem_free_array ?b (nat (t_size h t)) h1 = Some ?h2"
    using arr(1,2) table_rep_size [OF t] by (simp add: mem_free_array_def h1(3) valid_def)
  moreover have "mem_free t ?h2 = Some ?h3"
    using tv out arr(3) by (simp add: mem_free_def h1(3) valid_def)
  ultimately have "hash_free_all mem_free t h = Some ?h3"
    using tv h1(1) f by (auto simp: hash_free_all_def dest: valid_pos)
  moreover have "\<not> valid ?h3 t" "\<not> valid ?h3 ?b" "\<forall>x \<in> set (concat rows). \<not> valid ?h3 x"
    by (auto simp: valid_def h1(3))
  ultimately show ?thesis by blast
qed

section \<open>The interface of a keyed table\<close>

text \<open>
  What the components that embed a table rely on: a representation by rows, insertion at the end
  of the row of the node's key, deletion, and lookup by a test on the nodes.
\<close>

locale keyed_table =
  fixes rep :: "'s \<Rightarrow> ptr list list \<Rightarrow> bool"
    and ins :: "nat \<Rightarrow> ptr \<Rightarrow> 's \<Rightarrow> 's option"
    and del :: "ptr \<Rightarrow> 's \<Rightarrow> 's option"
    and look :: "(ptr \<Rightarrow> int) \<Rightarrow> nat \<Rightarrow> 's \<Rightarrow> ptr option"
    and may_add :: "'s \<Rightarrow> ptr list list \<Rightarrow> ptr \<Rightarrow> bool"
  assumes ins_law: "rep s rows \<Longrightarrow> k < List.length rows \<Longrightarrow> may_add s rows x \<Longrightarrow>
      \<exists>s'. ins k x s = Some s' \<and> rep s' (rows[k := rows ! k @ [x]])"
    and del_law: "rep s rows \<Longrightarrow> k < List.length rows \<Longrightarrow> x \<in> set (rows ! k) \<Longrightarrow>
      \<exists>s'. del x s = Some s' \<and> rep s' (rows[k := remove1 x (rows ! k)])"
    and look_law: "rep s rows \<Longrightarrow> k < List.length rows \<Longrightarrow> look f k s = Some (first_neg f (rows ! k))"
    and add_new: "may_add s rows x \<Longrightarrow> k < List.length rows \<Longrightarrow> x \<notin> set (rows ! k)"
begin

text \<open>A node added to its row is found there unless an earlier node already answers.\<close>

lemma look_after_ins:
  assumes "rep s rows" "k < List.length rows" "may_add s rows x" "f x < 0"
    "\<forall>y \<in> set (rows ! k). 0 \<le> f y"
  shows "\<exists>s'. ins k x s = Some s' \<and> look f k s' = Some x"
proof -
  obtain s' where s': "ins k x s = Some s'" "rep s' (rows[k := rows ! k @ [x]])"
    using ins_law [OF assms(1-3)] by blast
  have "first_neg f (ys @ [x]) = x" if "\<forall>y \<in> set ys. 0 \<le> f y" for ys
    using that assms(4) by (induction ys) auto
  then show ?thesis using s' look_law [OF s'(2), of k f] assms(2,5) by auto
qed

lemma ins_then_del:
  assumes "rep s rows" "k < List.length rows" "may_add s rows x"
  shows "\<exists>s' s''. ins k x s = Some s' \<and> del x s' = Some s'' \<and> rep s'' rows"
proof -
  obtain s' where s': "ins k x s = Some s'" "rep s' (rows[k := rows ! k @ [x]])"
    using ins_law [OF assms] by blast
  have "remove1 x (rows ! k @ [x]) = rows ! k"
    using add_new [OF assms(3,2)] by (simp add: remove1_append)
  then show ?thesis using s' del_law [OF s'(2), of k x] assms(2) by auto
qed

end

definition hash_ins_at :: "nat \<Rightarrow> ptr \<Rightarrow> ptr \<Rightarrow> 'a hashes_scheme \<Rightarrow> 'a hashes_scheme option" where
  "hash_ins_at k t x h = do { (_, h) \<leftarrow> hash_add (\<lambda>_ _ _ _. Some (int k)) x t h; Some h }"

definition hash_del_at :: "ptr \<Rightarrow> ptr \<Rightarrow> 'a hashes_scheme \<Rightarrow> 'a hashes_scheme option" where
  "hash_del_at t x h = do { (_, h) \<leftarrow> hash_del x t h; Some h }"

definition hash_look_at :: "ptr \<Rightarrow> (ptr \<Rightarrow> int) \<Rightarrow> nat \<Rightarrow> 'a hashes_scheme \<Rightarrow> ptr option" where
  "hash_look_at t f k h = do { (p, _, _) \<leftarrow> hash_walk (looks f) t (int k) h (); Some p }"

interpretation ht: keyed_table "\<lambda>h rows. table_rep h t rows" "\<lambda>k x. hash_ins_at k t x" "hash_del_at t"
  "hash_look_at t" "\<lambda>h rows x. valid h x \<and> \<not> in_table h t rows x" for t
proof
  fix s :: "'a hashes_scheme" and rows k x
  assume a: "table_rep s t rows" "k < List.length rows" "valid s x \<and> \<not> in_table s t rows x"
  show "\<exists>s'. hash_ins_at k t x s = Some s' \<and> table_rep s' t (rows[k := rows ! k @ [x]])"
    using hash_add_rep [OF a(1), of x "\<lambda>_ _ _ _. Some (int k)" "int k"] a(2,3)
    by (auto simp: hash_ins_at_def)
next
  fix s :: "'a hashes_scheme" and rows k x
  assume a: "table_rep s t rows" "k < List.length rows" "x \<in> set (rows ! k)"
  show "\<exists>s'. hash_del_at t x s = Some s' \<and> table_rep s' t (rows[k := remove1 x (rows ! k)])"
    using hash_del_rep [OF a] by (auto simp: hash_del_at_def)
next
  fix s :: "'a hashes_scheme" and rows k f
  assume "table_rep s t rows" "k < List.length rows"
  then show "hash_look_at t f k s = Some (first_neg f (rows ! k))"
    by (simp add: hash_look_at_def hash_walk_key)
next
  fix s :: "'a hashes_scheme" and rows x k
  assume "valid s x \<and> \<not> in_table s t rows x" "k < List.length rows"
  then show "x \<notin> set (rows ! k)" by (auto simp: in_table_def)
qed

section \<open>Properties\<close>

definition hash_demo :: hashes where
  "hash_demo = \<lparr>live = (\<lambda>p. 1 \<le> p \<and> p \<le> 4), brk = 5, oom = [],
     nxt = (\<lambda>p. if p = 2 \<or> p = 3 then p else 0), prv = (\<lambda>p. if p = 2 \<or> p = 3 then p else 0),
     t_head = (\<lambda>_. 2), t_size = (\<lambda>_. 2), t_create_key = (\<lambda>_. 0), t_p = (\<lambda>_. 0)\<rparr>"

lemma hash_demo_rep: "table_rep hash_demo 1 [[], []]" "\<not> in_table hash_demo 1 [[], []] 4" "valid hash_demo 4"
  by (auto simp: table_rep_def in_table_def hash_demo_def valid_def dlist_def less_two nth_Cons split: nat.splits)

text \<open>\<open>hash_add\<close> puts a node at the end of the row its key names, and a walk of that row returns it
  when no earlier node of the row answers; a key outside the table is refused and nothing changes.\<close>

theorem hash_add_then_walk:
  assumes "table_rep h t rows" "valid h x" "\<not> in_table h t rows x"
    "keys (t_create_key h t) x (t_p h t) h = Some key"
  shows "if 0 \<le> key \<and> key < int (List.length rows)
    then \<exists>h'. hash_add keys x t h = Some (0, h') \<and> table_rep h' t (rows[nat key := rows ! nat key @ [x]]) \<and>
      (\<forall>f. f x < 0 \<and> (\<forall>y \<in> set (rows ! nat key). 0 \<le> f y) \<longrightarrow>
        hash_walk (looks f) t key h' () = Some (x, h', ()))
    else hash_add keys x t h = Some (- 1, h)"
proof (cases "0 \<le> key \<and> key < int (List.length rows)")
  case True
  then have k: "nat key < List.length rows" by (simp add: nat_less_iff)
  obtain h' where h': "hash_add keys x t h = Some (0, h')" "table_rep h' t (rows[nat key := rows ! nat key @ [x]])"
    using hash_add_rep [where keys = keys, OF assms] True by blast
  have "hash_walk (looks f) t key h' () = Some (x, h', ())"
    if f: "f x < 0" "\<forall>y \<in> set (rows ! nat key). 0 \<le> f y" for f
  proof -
    have "first_neg f (ys @ [x]) = x" if "\<forall>y \<in> set ys. 0 \<le> f y" for ys
      using that f(1) by (induction ys) auto
    then show ?thesis using hash_walk_key [OF h'(2), of "nat key" f "()"] k f(2) True by simp
  qed
  then show ?thesis using h' True by auto
next
  case False
  then show ?thesis using hash_add_bad_key [where keys = keys, OF assms(1,4)] by auto
qed

theorem hash_add_then_walk_witness:
  "\<exists>h'. hash_add (\<lambda>_ _ _ _. Some 1) 4 1 hash_demo = Some (0, h') \<and> table_rep h' 1 [[], [4]] \<and>
     hash_walk (looks (\<lambda>p. if p = 4 then - 1 else 0)) 1 1 h' () = Some (4, h', ())"
  using hash_add_then_walk [OF hash_demo_rep(1,3,2), of "\<lambda>_ _ _ _. Some 1" 1] by auto

text \<open>Deleting a node takes it out of its row, clears its links, and a node put in and deleted again
  leaves the table as it was.\<close>

theorem hash_add_then_del:
  assumes "table_rep h t rows" "valid h x" "\<not> in_table h t rows x"
    "keys (t_create_key h t) x (t_p h t) h = Some key" "0 \<le> key" "key < int (List.length rows)"
  shows "\<exists>h' h''. hash_add keys x t h = Some (0, h') \<and> hash_del x t h' = Some (0, h'') \<and>
    table_rep h'' t rows \<and> nxt h'' x = NULL \<and> prv h'' x = NULL"
proof -
  let ?k = "nat key"
  have k: "?k < List.length rows" using assms(5,6) by simp
  obtain h' where h': "hash_add keys x t h = Some (0, h')" "table_rep h' t (rows[?k := rows ! ?k @ [x]])"
    using hash_add_rep [where keys = keys, OF assms] by blast
  have "x \<notin> set (rows ! ?k)" using assms(3) k by (auto simp: in_table_def)
  then have "remove1 x (rows ! ?k @ [x]) = rows ! ?k" by (simp add: remove1_append)
  then show ?thesis using hash_del_rep [OF h'(2), of ?k x] h'(1) k by auto
qed

theorem hash_add_then_del_witness:
  "\<exists>h' h''. hash_add (\<lambda>_ _ _ _. Some 0) 4 1 hash_demo = Some (0, h') \<and> hash_del 4 1 h' = Some (0, h'') \<and>
    table_rep h'' 1 [[], []] \<and> nxt h'' 4 = NULL \<and> prv h'' 4 = NULL"
  by (rule hash_add_then_del [where key = 0, OF hash_demo_rep(1,3,2)]) simp_all

text \<open>A walk with the table's size as key goes through the whole table row by row and returns the
  first node its function answers a negative number for, \<open>NULL\<close> if there is none; the number of nodes
  and the test for emptiness are those of the rows.\<close>

theorem hash_whole_table:
  assumes "table_rep h t rows"
  shows "hash_walk (looks f) t (t_size h t) h l = Some (first_neg f (concat rows), h, l) \<and>
    hash_num t h = Some (int (List.length (concat rows))) \<and>
    hash_empty t h = Some (if concat rows = [] then 1 else 0)"
  by (intro conjI hash_walk_whole [OF assms] hash_num_rep [OF assms] hash_empty_rep [OF assms])

theorem hash_whole_table_witness:
  "hash_num 1 hash_demo = Some 0 \<and> hash_empty 1 hash_demo = Some 1"
  using hash_whole_table [OF hash_demo_rep(1), THEN conjunct2] by simp

end
