(* ===== verification/FdTable.thy ===== *)
theory FdTable imports LibHash "HOL-Library.Multiset" begin

text \<open>
  Hash tables whose nodes are filed under a descriptor: the shape of the set of IO objects (LibIo) and
  of the reactor's table of servers (LibPoll), the map from descriptors to nodes it stands for, and the
  contract both of them offer: \<open>fd_registry\<close>.
\<close>

section \<open>Nodes by descriptor\<close>

text \<open>
  A table whose rows are filed by the descriptor \<open>f\<close> of its nodes, no two of them with the same one.
  The reactor's table of servers has the same shape.
\<close>

definition nodes :: "ptr list list \<Rightarrow> ptr list" where
  "nodes rows = concat rows"

definition filed :: "(ptr \<Rightarrow> int) \<Rightarrow> nat \<Rightarrow> ptr list list \<Rightarrow> bool" where
  "filed f n rows \<longleftrightarrow> length rows = n \<and>
     (\<forall>k < n. \<forall>x \<in> set (rows ! k). 0 \<le> f x \<and> f x mod int n = int k) \<and>
     distinct (nodes rows) \<and> inj_on f (set (nodes rows))"

definition fd_cmp :: "(ptr \<Rightarrow> int) \<Rightarrow> int \<Rightarrow> ptr \<Rightarrow> int" where
  "fd_cmp f fd x = (if fd = f x then ERROR else OK)"

lemma in_nodes: "x \<in> set (nodes rows) \<longleftrightarrow> (\<exists>k < length rows. x \<in> set (rows ! k))"
  unfolding nodes_def by (auto simp: in_set_conv_nth [of _ rows]) (metis nth_mem)

lemma nth_nodes: "k < length rows \<Longrightarrow> x \<in> set (rows ! k) \<Longrightarrow> x \<in> set (nodes rows)"
  by (auto simp: in_nodes)

lemma filed_cong:
  assumes e: "\<And>x. x \<in> set (nodes rows) \<Longrightarrow> g x = f x"
  shows "filed g n rows = filed f n rows"
proof -
  have i: "inj_on g (set (nodes rows)) = inj_on f (set (nodes rows))"
    by (rule inj_on_cong) (rule e)
  have k: "(\<forall>k < n. \<forall>x \<in> set (rows ! k). 0 \<le> g x \<and> g x mod int n = int k) =
      (\<forall>k < n. \<forall>x \<in> set (rows ! k). 0 \<le> f x \<and> f x mod int n = int k)" if "length rows = n"
    using that e nth_nodes [of _ rows] by auto
  show ?thesis unfolding filed_def i using k by blast
qed

lemma filed_row:
  assumes "filed f n rows" and "x \<in> set (nodes rows)"
  shows "0 \<le> f x \<and> nat (f x mod int n) < length rows \<and> x \<in> set (rows ! nat (f x mod int n))"
proof -
  obtain k where k: "k < length rows" "x \<in> set (rows ! k)" using assms(2) by (auto simp: in_nodes)
  then have "0 \<le> f x" "f x mod int n = int k" using assms(1) by (auto simp: filed_def)
  then show ?thesis using k by simp
qed

lemma first_neg_cmp:
  "first_neg (fd_cmp f fd) xs = (case List.find (\<lambda>x. f x = fd) xs of None \<Rightarrow> NULL | Some x \<Rightarrow> x)"
  by (induction xs) (auto simp: fd_cmp_def ERROR_def OK_def)

lemma find_filed:
  assumes r: "filed f n rows" and x: "x \<in> set (nodes rows)"
  shows "first_neg (fd_cmp f (f x)) (rows ! nat (f x mod int n)) = x"
proof -
  let ?row = "rows ! nat (f x mod int n)"
  have xr: "x \<in> set ?row" and k: "nat (f x mod int n) < length rows" using filed_row [OF r x] by blast+
  have "List.find (\<lambda>y. f y = f x) ?row \<noteq> None" using xr by (auto simp: find_None_iff)
  then obtain y where y: "List.find (\<lambda>y. f y = f x) ?row = Some y" by blast
  then have yr: "y \<in> set ?row" "f y = f x" by (auto simp: find_Some_iff)
  have "inj_on f (set (nodes rows))" using r by (simp add: filed_def)
  then have "y = x" using inj_onD [OF _ yr(2) nth_nodes [OF k yr(1)] x] by blast
  then show ?thesis using y by (simp add: first_neg_cmp)
qed

lemma find_filed_none:
  assumes "fd \<notin> f ` set (nodes rows)" and "k < length rows"
  shows "first_neg (fd_cmp f fd) (rows ! k) = NULL"
proof -
  have "List.find (\<lambda>x. f x = fd) (rows ! k) = None"
    using assms(1) nth_nodes [OF assms(2)] by (auto simp: find_None_iff)
  then show ?thesis by (simp add: first_neg_cmp)
qed

lemma mset_nodes_update:
  "k < length rows \<Longrightarrow> mset (nodes (rows[k := row])) + mset (rows ! k) = mset (nodes rows) + mset row"
proof (induction rows arbitrary: k)
  case (Cons r rs)
  show ?case
  proof (cases k)
    case 0
    then show ?thesis by (simp add: nodes_def)
  next
    case (Suc j)
    then have "mset (nodes (rs[j := row])) + mset (rs ! j) = mset (nodes rs) + mset row"
      using Cons by simp
    then show ?thesis using Suc by (simp add: nodes_def add.assoc)
  qed
qed simp

lemma mset_nodes_add:
  assumes "k < length rows"
  shows "mset (nodes (rows[k := rows ! k @ [x]])) = mset (x # nodes rows)"
proof -
  have "mset (nodes (rows[k := rows ! k @ [x]])) + mset (rows ! k) = mset (x # nodes rows) + mset (rows ! k)"
    using mset_nodes_update [OF assms, of "rows ! k @ [x]"] by (simp add: add.commute)
  then show ?thesis by (rule add_right_imp_eq)
qed

lemma mset_nodes_remove:
  assumes k: "k < length rows" and x: "x \<in> set (rows ! k)"
  shows "mset (x # nodes (rows[k := remove1 x (rows ! k)])) = mset (nodes rows)"
proof -
  have m: "mset (rows ! k) = add_mset x (mset (remove1 x (rows ! k)))" using x by simp
  have "mset (nodes (rows[k := remove1 x (rows ! k)])) + mset (rows ! k) = mset (nodes rows) + mset (remove1 x (rows ! k))"
    using mset_nodes_update [OF k] by blast
  moreover have "mset (x # nodes (rows[k := remove1 x (rows ! k)])) + mset (remove1 x (rows ! k))
      = mset (nodes (rows[k := remove1 x (rows ! k)])) + mset (rows ! k)"
    by (subst m) simp
  ultimately have "mset (x # nodes (rows[k := remove1 x (rows ! k)])) + mset (remove1 x (rows ! k))
      = mset (nodes rows) + mset (remove1 x (rows ! k))" by argo
  then show ?thesis by (rule add_right_imp_eq)
qed

lemma same_mset: "mset xs = mset ys \<Longrightarrow> set xs = set ys \<and> distinct xs = distinct ys \<and> length xs = length ys"
  using mset_eq_imp_distinct_iff mset_eq_length mset_eq_setD by blast

lemma nodes_add:
  assumes "k < length rows"
  shows "set (nodes (rows[k := rows ! k @ [x]])) = insert x (set (nodes rows))"
    "distinct (nodes (rows[k := rows ! k @ [x]])) \<longleftrightarrow> x \<notin> set (nodes rows) \<and> distinct (nodes rows)"
    "length (nodes (rows[k := rows ! k @ [x]])) = Suc (length (nodes rows))"
  using same_mset [OF mset_nodes_add [OF assms, of x]] by simp_all

lemma nodes_remove:
  assumes "k < length rows" and x: "x \<in> set (rows ! k)" and "distinct (nodes rows)"
  shows "set (nodes (rows[k := remove1 x (rows ! k)])) = set (nodes rows) - {x}"
    "distinct (nodes (rows[k := remove1 x (rows ! k)]))"
    "Suc (length (nodes (rows[k := remove1 x (rows ! k)]))) = length (nodes rows)"
  using same_mset [OF mset_nodes_remove [OF assms(1,2)]] assms(3) by auto

lemma filed_add:
  assumes r: "filed f n rows" and "0 < n" and x: "0 \<le> f x" "x \<notin> set (nodes rows)" "f x \<notin> f ` set (nodes rows)"
  shows "filed f n (rows[nat (f x mod int n) := rows ! nat (f x mod int n) @ [x]])"
proof -
  let ?k = "nat (f x mod int n)"
  let ?new = "rows[?k := rows ! ?k @ [x]]"
  have l: "length rows = n" and d: "distinct (nodes rows)" and i: "inj_on f (set (nodes rows))"
    using r by (simp_all add: filed_def)
  have k: "?k < length rows" using l assms(2) by (simp add: nat_less_iff)
  have rows: "0 \<le> f y \<and> f y mod int n = int j" if "j < n" "y \<in> set (?new ! j)" for j y
  proof (cases "j = ?k")
    case True
    then have "y \<in> set (rows ! j) \<or> y = x" using that k by auto
    then show ?thesis
    proof
      assume "y \<in> set (rows ! j)"
      then show ?thesis using r that(1) by (simp add: filed_def)
    next
      assume "y = x"
      then show ?thesis using x(1) True assms(2) by simp
    qed
  next
    case False
    then show ?thesis using r that by (simp add: filed_def)
  qed
  have "length ?new = n" and "distinct (nodes ?new)" and "inj_on f (set (nodes ?new))"
    using l d i x unfolding nodes_add [OF k] by (simp_all add: inj_on_insert)
  then show ?thesis unfolding filed_def using rows by blast
qed

lemma filed_remove:
  assumes r: "filed f n rows" and k: "k < length rows" and x: "x \<in> set (rows ! k)"
  shows "filed f n (rows[k := remove1 x (rows ! k)])"
proof -
  let ?new = "rows[k := remove1 x (rows ! k)]"
  have l: "length rows = n" and d: "distinct (nodes rows)" and i: "inj_on f (set (nodes rows))"
    using r by (simp_all add: filed_def)
  have rows: "0 \<le> f y \<and> f y mod int n = int j" if "j < n" "y \<in> set (?new ! j)" for j y
  proof (cases "j = k")
    case True
    then have "y \<in> set (rows ! j)" using that k set_remove1_subset [of x "rows ! k"] by auto
    then show ?thesis using r that(1) by (simp add: filed_def)
  next
    case False
    then show ?thesis using r that by (simp add: filed_def)
  qed
  have "inj_on f (set (nodes rows) - {x})" using i by (rule inj_on_subset) blast
  then have "inj_on f (set (nodes ?new))" by (simp only: nodes_remove(1) [OF k x d])
  then show ?thesis
    unfolding filed_def using l nodes_remove(2) [OF k x d] rows by (simp only: length_list_update) blast
qed

lemma nodes_empty [simp]: "nodes (replicate n []) = []"
  by (simp add: nodes_def)

lemma table_rep_cong:
  assumes "live h' = live h" "nxt h' = nxt h" "prv h' = prv h" "t_head h' = t_head h" "t_size h' = t_size h"
  shows "table_rep h' t rows = table_rep h t rows"
proof -
  have "dlist h' = dlist h" by (rule ext)+ (rule dlist_cong, simp_all add: assms)
  then show ?thesis by (simp add: table_rep_def assms valid_cong [OF assms(1)])
qed

section \<open>The map a table stands for\<close>

definition fd_map :: "(ptr \<Rightarrow> int) \<Rightarrow> ptr list list \<Rightarrow> int \<Rightarrow> ptr option" where
  "fd_map f rows fd = List.find (\<lambda>x. f x = fd) (nodes rows)"

lemma fd_map_Some:
  assumes "filed f n rows"
  shows "fd_map f rows fd = Some x \<longleftrightarrow> x \<in> set (nodes rows) \<and> f x = fd"
proof
  assume "fd_map f rows fd = Some x"
  then show "x \<in> set (nodes rows) \<and> f x = fd" by (auto simp: fd_map_def find_Some_iff)
next
  assume x: "x \<in> set (nodes rows) \<and> f x = fd"
  then have "fd_map f rows fd \<noteq> None" by (auto simp: fd_map_def find_None_iff)
  then obtain y where y: "fd_map f rows fd = Some y" by blast
  then have "y \<in> set (nodes rows)" "f y = f x" using x by (auto simp: fd_map_def find_Some_iff)
  moreover have "inj_on f (set (nodes rows))" using assms by (simp add: filed_def)
  ultimately have "y = x" using x by (blast dest: inj_onD)
  then show "fd_map f rows fd = Some x" using y by simp
qed

lemma fd_map_None: "fd_map f rows fd = None \<longleftrightarrow> fd \<notin> f ` set (nodes rows)"
  by (auto simp: fd_map_def find_None_iff)

lemma fd_map_lookup:
  assumes r: "filed f n rows" and n: "0 < n" and fd: "0 \<le> fd"
  shows "first_neg (fd_cmp f fd) (rows ! nat (fd mod int n)) = (case fd_map f rows fd of None \<Rightarrow> NULL | Some x \<Rightarrow> x)"
proof (cases "fd_map f rows fd")
  case None
  have "nat (fd mod int n) < length rows" using r n by (simp add: filed_def nat_less_iff)
  then have "first_neg (fd_cmp f fd) (rows ! nat (fd mod int n)) = NULL"
    using None fd_map_None [of f rows fd] by (intro find_filed_none) blast+
  then show ?thesis using None by simp
next
  case (Some x)
  then show ?thesis using find_filed [OF r, of x] fd_map_Some [OF r, of fd x] by auto
qed

lemma map_eq_by_Some: "(\<And>fd x. m fd = Some x \<longleftrightarrow> m' fd = Some x) \<Longrightarrow> m = m'"
  by (rule ext) (metis not_None_eq)

lemma fd_map_remove:
  assumes r: "filed f n rows" and k: "k < length rows" and x: "x \<in> set (rows ! k)"
  shows "fd_map f (rows[k := remove1 x (rows ! k)]) = (fd_map f rows)(f x := None)"
proof (rule map_eq_by_Some)
  fix fd y
  have i: "inj_on f (set (nodes rows))" and d: "distinct (nodes rows)" using r by (simp_all add: filed_def)
  note s = nodes_remove(1) [OF k x d]
  have xn: "x \<in> set (nodes rows)" by (rule nth_nodes [OF k x])
  show "fd_map f (rows[k := remove1 x (rows ! k)]) fd = Some y \<longleftrightarrow> ((fd_map f rows)(f x := None)) fd = Some y"
    unfolding fd_map_Some [OF filed_remove [OF r k x]] s fun_upd_apply
    using fd_map_Some [OF r, of fd y] xn inj_onD [OF i, of y x] by auto
qed

lemma fd_map_add:
  assumes r: "filed f n rows" and "0 < n" and x: "0 \<le> f x" "x \<notin> set (nodes rows)" "fd_map f rows (f x) = None"
  shows "fd_map f (rows[nat (f x mod int n) := rows ! nat (f x mod int n) @ [x]]) = (fd_map f rows)(f x \<mapsto> x)"
proof (rule map_eq_by_Some)
  fix fd y
  have new: "f x \<notin> f ` set (nodes rows)" using x(3) by (simp add: fd_map_None)
  have k: "nat (f x mod int n) < length rows" using r assms(2) by (simp add: filed_def nat_less_iff)
  show "fd_map f (rows[nat (f x mod int n) := rows ! nat (f x mod int n) @ [x]]) fd = Some y
      \<longleftrightarrow> ((fd_map f rows)(f x \<mapsto> x)) fd = Some y"
    unfolding fd_map_Some [OF filed_add [OF r assms(2) x(1,2) new]] nodes_add(1) [OF k] fun_upd_apply
    using fd_map_Some [OF r, of fd y] new by (auto simp: image_iff)
qed

section \<open>The contract\<close>

text \<open>
  A registry looks a descriptor up and removes what is filed under it; \<open>reg s m\<close> says that the state
  \<open>s\<close> holds the map \<open>m\<close>, and \<open>legal\<close> is the range of descriptors it can remove.
\<close>

locale fd_registry =
  fixes reg :: "'s \<Rightarrow> (int \<Rightarrow> ptr option) \<Rightarrow> bool"
    and lookup :: "int \<Rightarrow> 's \<Rightarrow> ptr option"
    and remove :: "int \<Rightarrow> 's \<Rightarrow> (int \<times> 's) option"
    and legal :: "int \<Rightarrow> bool"
  assumes lookup_reg: "reg s m \<Longrightarrow> 0 \<le> fd \<Longrightarrow> lookup fd s = Some (case m fd of None \<Rightarrow> NULL | Some x \<Rightarrow> x)"
    and remove_reg: "reg s m \<Longrightarrow> m fd = Some x \<Longrightarrow> legal fd \<Longrightarrow> \<exists>s'. remove fd s = Some (OK, s') \<and> reg s' (m(fd := None))"
    and remove_unknown: "reg s m \<Longrightarrow> m fd = None \<Longrightarrow> 0 \<le> fd \<Longrightarrow> remove fd s = Some (ERROR, s)"
    and legal_range: "legal fd \<Longrightarrow> 0 \<le> fd"
begin

lemma removed_is_unknown:
  assumes "reg s m" and "m fd = Some x" and "legal fd"
  shows "\<exists>s'. remove fd s = Some (OK, s') \<and> reg s' (m(fd := None)) \<and> lookup fd s' = Some NULL \<and>
     remove fd s' = Some (ERROR, s')"
proof -
  obtain s' where s': "remove fd s = Some (OK, s')" "reg s' (m(fd := None))"
    using remove_reg [OF assms] by blast
  then show ?thesis
    using lookup_reg [OF s'(2) legal_range [OF assms(3)]] remove_unknown [OF s'(2) _ legal_range [OF assms(3)]] by simp
qed

lemma others_stay:
  assumes "reg s m" and "m fd = Some x" and "legal fd" and "fd' \<noteq> fd" and "0 \<le> fd'"
  shows "\<exists>s'. remove fd s = Some (OK, s') \<and> lookup fd' s' = lookup fd' s"
proof -
  obtain s' where s': "remove fd s = Some (OK, s')" "reg s' (m(fd := None))"
    using remove_reg [OF assms(1-3)] by blast
  then show ?thesis
    using lookup_reg [OF s'(2) assms(5)] lookup_reg [OF assms(1,5)] assms(4) by simp
qed

text \<open>Removing a list of different descriptors, one after the other, removes them all.\<close>

fun remove_all :: "int list \<Rightarrow> 's \<Rightarrow> 's option" where
  "remove_all [] s = Some s"
| "remove_all (fd # fds) s = do { (_, s) \<leftarrow> remove fd s; remove_all fds s }"

lemma remove_all_reg:
  "reg s m \<Longrightarrow> (\<And>fd. fd \<in> set fds \<Longrightarrow> legal fd) \<Longrightarrow>
   \<exists>s'. remove_all fds s = Some s' \<and> reg s' (\<lambda>fd. if fd \<in> set fds then None else m fd)"
proof (induction fds arbitrary: s m)
  case Nil
  then show ?case by simp
next
  case (Cons fd fds)
  have l: "legal fd" and ls: "\<And>fd. fd \<in> set fds \<Longrightarrow> legal fd" using Cons.prems(2) by auto
  obtain rc s1 where s1: "remove fd s = Some (rc, s1)" "reg s1 (m(fd := None))"
  proof (cases "m fd")
    case None
    then have "m(fd := None) = m" by (simp add: fun_eq_iff)
    then show ?thesis using that remove_unknown [OF Cons.prems(1) None legal_range [OF l]] Cons.prems(1) by auto
  next
    case (Some x)
    then show ?thesis using that remove_reg [OF Cons.prems(1) Some l] by blast
  qed
  obtain s' where s': "remove_all fds s1 = Some s'" "reg s' (\<lambda>fd'. if fd' \<in> set fds then None else (m(fd := None)) fd')"
    using Cons.IH [OF s1(2) ls] by blast
  have "(\<lambda>fd'. if fd' \<in> set fds then None else (m(fd := None)) fd') = (\<lambda>fd'. if fd' \<in> set (fd # fds) then None else m fd')"
    by auto
  then show ?case using s1(1) s' by simp
qed

end

section \<open>Tables and the heap around them\<close>

lemma table_rep_frame:
  assumes t: "table_rep h t rows" and same: "t_head h' t = t_head h t" "t_size h' t = t_size h t" "valid h' t"
    and f: "\<And>q. in_table h t rows q \<Longrightarrow> valid h' q \<and> nxt h' q = nxt h q \<and> prv h' q = prv h q"
  shows "table_rep h' t rows"
proof -
  have "dlist h' (row_head h t i) (rows ! i)" if i: "i < length rows" for i
    by (rule dlist_frame [OF table_rep_row [OF t i]]) (rule f, use i in \<open>auto simp: in_table_def\<close>)
  then show ?thesis using t same by (simp add: table_rep_def)
qed

lemma in_table_valid: "table_rep h t rows \<Longrightarrow> in_table h t rows q \<Longrightarrow> valid h q"
  unfolding in_table_def by (blast dest: dlist_valid table_rep_row)

lemma in_table_nodes: "x \<in> set (nodes rows) \<Longrightarrow> in_table h t rows x"
  by (auto simp: in_table_def in_nodes)

lemma table_rep_freed:
  assumes t: "table_rep h t rows" and x: "\<not> in_table h t rows x" "x \<noteq> t"
  shows "table_rep (h\<lparr>live := (live h)(x := False)\<rparr>) t rows"
proof (rule table_rep_frame [OF t])
  show "valid (h\<lparr>live := (live h)(x := False)\<rparr>) t" using table_rep_valid [OF t] x(2) by (simp add: valid_def)
  fix q assume "in_table h t rows q"
  then show "valid (h\<lparr>live := (live h)(x := False)\<rparr>) q \<and> nxt (h\<lparr>live := (live h)(x := False)\<rparr>) q = nxt h q \<and>
      prv (h\<lparr>live := (live h)(x := False)\<rparr>) q = prv h q"
    using in_table_valid [OF t] x(1) by (auto simp: valid_def)
qed simp_all

text \<open>A node that has been taken out is in the table no more.\<close>

lemma removed_not_in_table:
  assumes t: "table_rep h t rows" and k: "k < length rows" and x: "x \<in> set (rows ! k)"
    and same: "t_head h' t = t_head h t"
  shows "\<not> in_table h' t (rows[k := remove1 x (rows ! k)]) x"
proof
  assume "in_table h' t (rows[k := remove1 x (rows ! k)]) x"
  then obtain i where i: "i < length rows" "x \<in> set (row_head h t i # rows[k := remove1 x (rows ! k)] ! i)"
    by (auto simp: in_table_def same)
  have d: "distinct (row_head h t k # rows ! k)" by (rule dlist_distinct [OF table_rep_row [OF t k]])
  show False
  proof (cases "i = k")
    case True
    then show ?thesis using i x d k by auto
  next
    case False
    then have "x \<notin> set (row_head h t i # rows ! i)" using table_rep_disj [OF t k i(1) _, of x] x by auto
    then show ?thesis using i(2) False by simp
  qed
qed

end
