(* ===== verification/LibIo.thy ===== *)
theory LibIo imports FdTable begin

text \<open>
  \<open>Server/Lib/lib-io.c\<close> and \<open>lib-io.h\<close>: the IO objects of the duplexer, and the set of them that is
  searched by descriptor: a hash table of 200 rows with a counter beside it.
\<close>

unbundle bit_operations_syntax

section \<open>State\<close>

text \<open>\<open>lib_io_t\<close>; its first member, the hash node, is at the address of the object. The two message
  buffers are the strings of what they hold. Encoders and decoders are function pointers, \<open>0\<close> for none.\<close>

record lib_io =
  peer :: ptr
  state :: "32 word"
  pfun_encode :: nat
  pfun_decode :: nat
  io_fd :: int
  ip :: string
  port :: int
  idx :: "32 word"
  svccount :: "32 word"
  kp :: int
  param1 :: ptr
  param2 :: ptr
  last_time :: int
  txtotal :: "32 word"
  rxtotal :: "32 word"
  txbyte :: "32 word"
  rxbyte :: "32 word"
  flag :: "32 word"
  txbuf :: string
  rxbuf :: string

definition zero_io :: lib_io where
  "zero_io = \<lparr>peer = NULL, state = 0, pfun_encode = 0, pfun_decode = 0, io_fd = 0, ip = [], port = 0,
     idx = 0, svccount = 0, kp = 0, param1 = NULL, param2 = NULL, last_time = 0, txtotal = 0,
     rxtotal = 0, txbyte = 0, rxbyte = 0, flag = 0, txbuf = [], rxbuf = []\<rparr>"

record ios = hashes +
  io :: "ptr \<Rightarrow> lib_io"
  io_ht :: "ptr \<Rightarrow> ptr"
  io_cnt :: "ptr \<Rightarrow> int"

section \<open>Flags\<close>

definition lib_set_bit :: "32 word \<Rightarrow> 32 word \<Rightarrow> 32 word" where
  "lib_set_bit fl b = fl OR b"

definition lib_unset_bit :: "32 word \<Rightarrow> 32 word \<Rightarrow> 32 word" where
  "lib_unset_bit fl b = fl AND NOT b"

definition is_bit_set :: "32 word \<Rightarrow> 32 word \<Rightarrow> bool" where
  "is_bit_set fl b = (fl AND b \<noteq> 0)"

definition IO_STATE_SELF_BIT :: "32 word" where "IO_STATE_SELF_BIT = 1"
definition IO_STATE_PEER_BIT :: "32 word" where "IO_STATE_PEER_BIT = 2"
definition IO_STATE_OUTSIDE_BIT :: "32 word" where "IO_STATE_OUTSIDE_BIT = 4"
definition IO_STATE_OK_BIT :: "32 word" where "IO_STATE_OK_BIT = 8"

lemmas io_bits = IO_STATE_SELF_BIT_def IO_STATE_PEER_BIT_def IO_STATE_OUTSIDE_BIT_def IO_STATE_OK_BIT_def

definition io_set_self_ready :: "lib_io \<Rightarrow> lib_io" where
  "io_set_self_ready s = s\<lparr>state := lib_set_bit (state s) IO_STATE_SELF_BIT\<rparr>"

definition io_unset_self_ready :: "lib_io \<Rightarrow> lib_io" where
  "io_unset_self_ready s = s\<lparr>state := lib_unset_bit (state s) IO_STATE_SELF_BIT\<rparr>"

definition is_io_self_ready :: "lib_io \<Rightarrow> bool" where
  "is_io_self_ready s = is_bit_set (state s) IO_STATE_SELF_BIT"

definition io_set_peer_ready :: "lib_io \<Rightarrow> lib_io" where
  "io_set_peer_ready s = s\<lparr>state := lib_set_bit (state s) IO_STATE_PEER_BIT\<rparr>"

definition io_unset_peer_ready :: "lib_io \<Rightarrow> lib_io" where
  "io_unset_peer_ready s = s\<lparr>state := lib_unset_bit (state s) IO_STATE_PEER_BIT\<rparr>"

definition is_io_peer_ready :: "lib_io \<Rightarrow> bool" where
  "is_io_peer_ready s = is_bit_set (state s) IO_STATE_PEER_BIT"

definition io_set_outside :: "lib_io \<Rightarrow> lib_io" where
  "io_set_outside s = s\<lparr>state := lib_set_bit (state s) IO_STATE_OUTSIDE_BIT\<rparr>"

definition io_set_inside :: "lib_io \<Rightarrow> lib_io" where
  "io_set_inside s = s\<lparr>state := lib_unset_bit (state s) IO_STATE_OUTSIDE_BIT\<rparr>"

definition is_io_outside :: "lib_io \<Rightarrow> bool" where
  "is_io_outside s = is_bit_set (state s) IO_STATE_OUTSIDE_BIT"

definition io_set_ok :: "lib_io \<Rightarrow> lib_io" where
  "io_set_ok s = s\<lparr>state := lib_set_bit (state s) IO_STATE_OK_BIT\<rparr>"

definition io_set_stop :: "lib_io \<Rightarrow> lib_io" where
  "io_set_stop s = s\<lparr>state := lib_unset_bit (state s) IO_STATE_OK_BIT\<rparr>"

definition is_io_ok :: "lib_io \<Rightarrow> bool" where
  "is_io_ok s = is_bit_set (state s) IO_STATE_OK_BIT"

section \<open>The set\<close>

definition IO_SET_HASH_SIZE :: int where "IO_SET_HASH_SIZE = 200"

definition io_hash_fd :: "int \<Rightarrow> int" where
  "io_hash_fd fd = c_rem fd IO_SET_HASH_SIZE"

text \<open>The number of \<open>io_hash_creat_key\<close> among the key functions.\<close>

definition IO_KEY :: nat where "IO_KEY = 1"

definition io_hash_creat_key :: "ptr \<Rightarrow> 'a ios_scheme \<Rightarrow> int option" where
  "io_hash_creat_key node h = (if valid h node then Some (io_hash_fd (io_fd (io h node))) else None)"

definition io_keys :: "'a ios_scheme key_code" where
  "io_keys ck node p h = (if ck = IO_KEY then io_hash_creat_key node h else None)"

definition io_compare_fd :: "ptr \<Rightarrow> int \<Rightarrow> 'a ios_scheme \<Rightarrow> int option" where
  "io_compare_fd node fd h =
     (if valid h node then Some (if fd = io_fd (io h node) then ERROR else OK) else None)"

definition io_get_by_fd :: "ptr \<Rightarrow> int \<Rightarrow> 'a ios_scheme \<Rightarrow> ptr option" where
  "io_get_by_fd pset fd h = do {
     _ \<leftarrow> (if valid h pset then Some () else None);
     (pnode, _, _) \<leftarrow> hash_walk (\<lambda>node h l. do { r \<leftarrow> io_compare_fd node fd h; Some (r, h, l) })
       (io_ht h pset) (io_hash_fd fd) h ();
     Some pnode }"

definition io_add :: "ptr \<Rightarrow> ptr \<Rightarrow> 'a ios_scheme \<Rightarrow> (int \<times> 'a ios_scheme) option" where
  "io_add pset pio h = do {
     _ \<leftarrow> (if valid h pset then Some () else None);
     (ret, h) \<leftarrow> hash_add io_keys pio (io_ht h pset) h;
     if ret \<noteq> 0 then Some (ret, h)
     else Some (ret, h\<lparr>io_cnt := (io_cnt h)(pset := c_int (io_cnt h pset + 1))\<rparr>) }"

definition io_del :: "ptr \<Rightarrow> ptr \<Rightarrow> 'a ios_scheme \<Rightarrow> (int \<times> 'a ios_scheme) option" where
  "io_del pset pio h = do {
     _ \<leftarrow> (if valid h pset then Some () else None);
     (ret, h) \<leftarrow> hash_del pio (io_ht h pset) h;
     if ret \<noteq> 0 then Some (ret, h)
     else Some (ret, h\<lparr>io_cnt := (io_cnt h)(pset := c_int (io_cnt h pset - 1))\<rparr>) }"

definition io_del_by_fd :: "ptr \<Rightarrow> int \<Rightarrow> 'a ios_scheme \<Rightarrow> (int \<times> 'a ios_scheme) option" where
  "io_del_by_fd pset fd h = do {
     pio \<leftarrow> io_get_by_fd pset fd h;
     if pio = NULL then Some (ERROR, h) else io_del pset pio h }"

definition io_set_new :: "'a ios_scheme \<Rightarrow> (ptr \<times> 'a ios_scheme) option" where
  "io_set_new h = do {
     let (pset, h) = mem_malloc h;
     _ \<leftarrow> lib_assert (pset \<noteq> NULL);
     let h = h\<lparr>io_cnt := (io_cnt h)(pset := 0)\<rparr>;
     (ht, h) \<leftarrow> hash_create IO_SET_HASH_SIZE IO_KEY NULL h;
     let h = h\<lparr>io_ht := (io_ht h)(pset := ht)\<rparr>;
     if ht = NULL then do { h \<leftarrow> mem_free pset h; Some (NULL, h) } else Some (pset, h) }"

definition io_init :: "ptr \<Rightarrow> 'a ios_scheme \<Rightarrow> 'a ios_scheme option" where
  "io_init sio h = do {
     let h = h\<lparr>io := (io h)(sio := zero_io)\<rparr>;
     (_, h) \<leftarrow> hash_init sio h;
     Some h }"

definition io_new :: "'a ios_scheme \<Rightarrow> (ptr \<times> 'a ios_scheme) option" where
  "io_new h = do {
     let (pio, h) = mem_malloc h;
     _ \<leftarrow> lib_assert (pio \<noteq> NULL);
     h \<leftarrow> io_init pio h;
     Some (pio, h) }"

section \<open>The set's operations\<close>

definition io_rep :: "'a ios_scheme \<Rightarrow> ptr \<Rightarrow> ptr list list \<Rightarrow> bool" where
  "io_rep h s rows \<longleftrightarrow> valid h s \<and> table_rep h (io_ht h s) rows \<and> t_create_key h (io_ht h s) = IO_KEY \<and>
     filed (\<lambda>x. io_fd (io h x)) 200 rows \<and> io_cnt h s = int (length (nodes rows))"

lemma ios_linked [simp]:
  "io (linked p x n h) = io h" "io_ht (linked p x n h) = io_ht h" "io_cnt (linked p x n h) = io_cnt h"
  "io (unlinked p x n h) = io h" "io_ht (unlinked p x n h) = io_ht h" "io_cnt (unlinked p x n h) = io_cnt h"
  by (simp_all add: linked_def unlinked_def)

lemma table_rep_io_cnt [simp]: "table_rep (h\<lparr>io_cnt := c\<rparr>) t rows = table_rep h t rows"
  by (rule table_rep_cong) simp_all

lemma valid_io_cnt [simp]: "valid (h\<lparr>io_cnt := c\<rparr>) = valid h"
  by (simp add: valid_def fun_eq_iff)

lemma io_get_eq:
  assumes "io_rep h s rows" and "0 \<le> fd"
  shows "io_get_by_fd s fd h
       = Some (first_neg (fd_cmp (\<lambda>x. io_fd (io h x)) fd) (rows ! nat (fd mod 200)))"
proof -
  have t: "table_rep h (io_ht h s) rows" and l: "length rows = 200"
    using assms(1) by (simp_all add: io_rep_def filed_def)
  have k: "nat (fd mod 200) < length rows" using l by (simp add: nat_less_iff)
  have "hash_walk (\<lambda>node h l. do { r \<leftarrow> io_compare_fd node fd h; Some (r, h, l) }) (io_ht h s) (int (nat (fd mod 200))) h ()
      = Some (first_neg (fd_cmp (\<lambda>x. io_fd (io h x)) fd) (rows ! nat (fd mod 200)), h, ())"
  proof (rule hash_walk_key_on [OF t k])
    fix x assume "x \<in> set (rows ! nat (fd mod 200))"
    then have "valid h x" using dlist_valid [OF table_rep_row [OF t k]] by simp
    then show "do { r \<leftarrow> io_compare_fd x fd h; Some (r, h, ()) } = Some (fd_cmp (\<lambda>x. io_fd (io h x)) fd x, h, ())"
      by (simp add: io_compare_fd_def fd_cmp_def)
  qed (auto split: Option.bind_splits)
  then show ?thesis
    using assms by (simp add: io_get_by_fd_def io_rep_def io_hash_fd_def IO_SET_HASH_SIZE_def)
qed

lemma io_add_ok:
  assumes s: "io_rep h s rows" and x: "valid h x" "\<not> in_table h (io_ht h s) rows x" "0 \<le> io_fd (io h x)"
    "io_fd (io h x) \<notin> (\<lambda>y. io_fd (io h y)) ` set (nodes rows)" and c: "length (nodes rows) < 2 ^ 31 - 1"
  defines "k \<equiv> nat (io_fd (io h x) mod 200)"
  shows "\<exists>h'. io_add s x h = Some (0, h') \<and> io_rep h' s (rows[k := rows ! k @ [x]]) \<and> io h' = io h"
proof -
  have t: "table_rep h (io_ht h s) rows" and f: "filed (\<lambda>x. io_fd (io h x)) 200 rows" and l: "length rows = 200"
    and ck: "t_create_key h (io_ht h s) = IO_KEY" and v: "valid h s" and n: "io_cnt h s = int (length (nodes rows))"
    using s by (simp_all add: io_rep_def filed_def)
  have xn: "x \<notin> set (nodes rows)" using x(2) by (auto simp: in_nodes in_table_def)
  have k: "k < length rows" using l by (simp add: k_def nat_less_iff)
  let ?key = "io_fd (io h x) mod 200"
  have key: "io_keys (t_create_key h (io_ht h s)) x (t_p h (io_ht h s)) h = Some ?key"
    using x(1,3) by (simp add: io_keys_def ck io_hash_creat_key_def io_hash_fd_def IO_SET_HASH_SIZE_def)
  have rng: "0 \<le> ?key" "?key < int (length rows)" using l by simp_all
  obtain p where add: "hash_add io_keys x (io_ht h s) h = Some (0, linked p x (row_head h (io_ht h s) k) h)"
      and t': "table_rep (linked p x (row_head h (io_ht h s) k) h) (io_ht h s) (rows[k := rows ! k @ [x]])"
    using hash_add_linked [where keys = io_keys, OF t x(1,2) key rng] unfolding k_def by blast
  let ?h = "linked p x (row_head h (io_ht h s) k) h"
  have cn: "c_int (io_cnt h s + 1) = int (Suc (length (nodes rows)))" using n c by simp
  have f': "filed (\<lambda>x. io_fd (io h x)) 200 (rows[k := rows ! k @ [x]])"
    using filed_add [OF f _ x(3) xn x(4)] by (simp add: k_def)
  show ?thesis
    using t' f' v ck add cn nodes_add(3) [OF k, of x]
    by (simp add: io_add_def io_rep_def)
qed

lemma io_del_ok:
  assumes s: "io_rep h s rows" and k: "k < length rows" and x: "x \<in> set (rows ! k)" and c: "length (nodes rows) < 2 ^ 31"
  shows "\<exists>h'. io_del s x h = Some (0, h') \<and> io_rep h' s (rows[k := remove1 x (rows ! k)]) \<and> io h' = io h"
proof -
  have t: "table_rep h (io_ht h s) rows" and f: "filed (\<lambda>x. io_fd (io h x)) 200 rows" and d: "distinct (nodes rows)"
    and ck: "t_create_key h (io_ht h s) = IO_KEY" and v: "valid h s" and n: "io_cnt h s = int (length (nodes rows))"
    using s by (simp_all add: io_rep_def filed_def)
  obtain p m where del: "hash_del x (io_ht h s) h = Some (0, unlinked p x m h)"
      and t': "table_rep (unlinked p x m h) (io_ht h s) (rows[k := remove1 x (rows ! k)])"
    using hash_del_unlinked [OF t k x] by blast
  have l: "Suc (length (nodes (rows[k := remove1 x (rows ! k)]))) = length (nodes rows)"
    by (rule nodes_remove(3) [OF k x d])
  then have cn: "c_int (io_cnt h s - 1) = int (length (nodes (rows[k := remove1 x (rows ! k)])))"
    using n c by (simp flip: l)
  show ?thesis
    using t' filed_remove [OF f k x] v ck del cn by (simp add: io_del_def io_rep_def)
qed

text \<open>The set offers the contract of a registry.\<close>

definition io_reg :: "ptr \<Rightarrow> 'a ios_scheme \<Rightarrow> (int \<Rightarrow> ptr option) \<Rightarrow> bool" where
  "io_reg s h m \<longleftrightarrow> (\<exists>rows. io_rep h s rows \<and> length (nodes rows) < 2 ^ 31 \<and> m = fd_map (\<lambda>x. io_fd (io h x)) rows)"

lemma io_get_map:
  assumes "io_rep h s rows" and "0 \<le> fd"
  shows "io_get_by_fd s fd h = Some (case fd_map (\<lambda>x. io_fd (io h x)) rows fd of None \<Rightarrow> NULL | Some x \<Rightarrow> x)"
proof -
  have f: "filed (\<lambda>x. io_fd (io h x)) 200 rows" using assms(1) by (simp add: io_rep_def)
  show ?thesis using io_get_eq [OF assms] fd_map_lookup [OF f _ assms(2)] by simp
qed

lemma io_nodes_valid:
  assumes s: "io_rep h s rows" and x: "x \<in> set (nodes rows)"
  shows "x \<noteq> NULL"
proof -
  obtain k where k: "k < length rows" "x \<in> set (rows ! k)" using x by (auto simp: in_nodes)
  have "dlist h (row_head h (io_ht h s) k) (rows ! k)" using s k(1) by (simp add: io_rep_def table_rep_row)
  then show ?thesis using dlist_valid [of h _ "rows ! k" x] k(2) by (auto dest: valid_pos)
qed

interpretation ioset: fd_registry "io_reg s" "io_get_by_fd s" "io_del_by_fd s" "\<lambda>fd. 0 \<le> fd" for s
proof
  fix h :: "'a ios_scheme" and m fd x
  show "io_get_by_fd s fd h = Some (case m fd of None \<Rightarrow> NULL | Some x \<Rightarrow> x)" if "io_reg s h m" "0 \<le> fd"
    using that by (auto simp: io_reg_def io_get_map)
  show "io_del_by_fd s fd h = Some (ERROR, h)" if "io_reg s h m" "m fd = None" "0 \<le> fd"
    using that by (auto simp: io_reg_def io_del_by_fd_def io_get_map)
  show "\<exists>h'. io_del_by_fd s fd h = Some (OK, h') \<and> io_reg s h' (m(fd := None))"
    if asm: "io_reg s h m" "m fd = Some x" "0 \<le> fd"
  proof -
    obtain rows where r: "io_rep h s rows" "length (nodes rows) < 2 ^ 31" "m = fd_map (\<lambda>x. io_fd (io h x)) rows"
      using asm(1) by (auto simp: io_reg_def)
    then have f: "filed (\<lambda>x. io_fd (io h x)) 200 rows" by (simp add: io_rep_def)
    have x: "x \<in> set (nodes rows)" "io_fd (io h x) = fd" using asm(2) fd_map_Some [OF f] by (simp_all add: r(3))
    obtain k where k: "k < length rows" "x \<in> set (rows ! k)" using x(1) by (auto simp: in_nodes)
    obtain h' where h': "io_del s x h = Some (0, h')" "io_rep h' s (rows[k := remove1 x (rows ! k)])" "io h' = io h"
      using io_del_ok [OF r(1) k r(2)] by blast
    have "distinct (nodes rows)" using f by (simp add: filed_def)
    then have "length (nodes (rows[k := remove1 x (rows ! k)])) < 2 ^ 31" using nodes_remove(3) [OF k] r(2) by simp
    then have "io_reg s h' (m(fd := None))"
      using h' fd_map_remove [OF f k] by (auto simp: io_reg_def r(3) x(2))
    moreover have "io_del_by_fd s fd h = Some (OK, h')"
      using io_get_map [OF r(1) asm(3)] asm(2) h'(1) io_nodes_valid [OF r(1) x(1)] by (simp add: io_del_by_fd_def r(3) OK_def)
    ultimately show ?thesis by blast
  qed
qed

text \<open>An IO object that is filed under a descriptor the set does not hold yet is found again by that descriptor, the counter goes up by one and the set keeps its shape; deleting by the descriptor takes exactly that object out, brings the counter back, and after it the descriptor is unknown and deleting it again is an error that changes nothing.\<close>
theorem io_add_get_del:
  assumes "io_rep h s rows" and "valid h x" and "\<not> in_table h (io_ht h s) rows x" and "0 \<le> io_fd (io h x)"
    and "io_fd (io h x) \<notin> (\<lambda>y. io_fd (io h y)) ` set (nodes rows)" and "length (nodes rows) < 2 ^ 31 - 1"
  shows "\<exists>h' h''. io_add s x h = Some (0, h') \<and> io_get_by_fd s (io_fd (io h x)) h' = Some x \<and>
      io_cnt h' s = io_cnt h s + 1 \<and> io_del_by_fd s (io_fd (io h x)) h' = Some (0, h'') \<and> io_rep h'' s rows \<and>
      io_get_by_fd s (io_fd (io h x)) h'' = Some NULL \<and> io_del_by_fd s (io_fd (io h x)) h'' = Some (ERROR, h'')"
proof -
  let ?fd = "io_fd (io h x)"
  define k where "k = nat (?fd mod 200)"
  define rows' where "rows' = rows[k := rows ! k @ [x]]"
  obtain h' where a: "io_add s x h = Some (0, h')" "io_rep h' s rows'" "io h' = io h"
    using io_add_ok [OF assms] unfolding rows'_def k_def by blast
  have l: "length rows = 200" using assms(1) by (simp add: io_rep_def filed_def)
  then have k: "k < length rows" by (simp add: k_def nat_less_iff)
  have xn: "x \<notin> set (nodes rows)" using assms(3) by (auto simp: in_nodes in_table_def)
  have xin: "x \<in> set (nodes rows')" using nodes_add(1) [OF k] by (simp add: rows'_def)
  have f': "filed (\<lambda>x. io_fd (io h x)) 200 rows'" using a(2,3) by (simp add: io_rep_def)
  have get: "io_get_by_fd s ?fd h' = Some x"
    using io_get_eq [OF a(2) assms(4)] find_filed [OF f' xin] a(3) by (simp add: k_def)
  have cnt: "io_cnt h' s = io_cnt h s + 1"
    using a(2) assms(1) nodes_add(3) [OF k, of x] by (simp add: io_rep_def rows'_def)
  have c': "length (nodes rows') < 2 ^ 31" using assms(6) nodes_add(3) [OF k, of x] by (simp add: rows'_def)
  have k': "k < length rows'" "x \<in> set (rows' ! k)" using k by (simp_all add: rows'_def)
  obtain h'' where d: "io_del s x h' = Some (0, h'')" "io_rep h'' s (rows'[k := remove1 x (rows' ! k)])" "io h'' = io h'"
    using io_del_ok [OF a(2) k' c'] by blast
  have "x \<notin> set (rows ! k)" using xn nth_nodes [OF k] by blast
  then have bk: "rows'[k := remove1 x (rows' ! k)] = rows"
    using k by (simp add: rows'_def remove1_append)
  have x0: "x \<noteq> NULL" using assms(2) by (auto simp: valid_def)
  have del: "io_del_by_fd s ?fd h' = Some (0, h'')" using get d(1) x0 by (simp add: io_del_by_fd_def)
  have rep: "io_rep h'' s rows" using d(2) by (simp add: bk)
  have gone: "io_get_by_fd s ?fd h'' = Some NULL"
    using io_get_eq [OF rep assms(4)] find_filed_none [OF assms(5) k] d(3) a(3) by (simp add: k_def)
  show ?thesis
    using a(1) get cnt del rep gone by (simp add: io_del_by_fd_def)
qed

definition io_demo :: ios where
  "io_demo = \<lparr>live = (\<lambda>p. 1 \<le> p \<and> p \<le> 203), brk = 204, oom = [],
     nxt = (\<lambda>p. if 3 \<le> p \<and> p \<le> 202 then p else 0), prv = (\<lambda>p. if 3 \<le> p \<and> p \<le> 202 then p else 0),
     t_head = (\<lambda>_. 3), t_size = (\<lambda>_. 200), t_create_key = (\<lambda>_. IO_KEY), t_p = (\<lambda>_. 0),
     io = (\<lambda>_. zero_io\<lparr>io_fd := 205\<rparr>), io_ht = (\<lambda>_. 2), io_cnt = (\<lambda>_. 0)\<rparr>"

lemma io_demo_rep: "io_rep io_demo 1 (replicate 200 [])"
proof -
  have "table_rep io_demo 2 (replicate 200 [])"
    by (auto simp: table_rep_def io_demo_def valid_def dlist_def)
  then show ?thesis
    by (simp add: io_rep_def filed_def) (simp add: io_demo_def valid_def)
qed

theorem io_add_get_del_witness:
  "\<exists>h' h''. io_add 1 203 io_demo = Some (0, h') \<and> io_get_by_fd 1 205 h' = Some 203 \<and>
      io_del_by_fd 1 205 h' = Some (0, h'') \<and> io_get_by_fd 1 205 h'' = Some NULL"
proof -
  have "valid io_demo 203" "io_fd (io io_demo 203) = 205" "0 \<le> io_fd (io io_demo 203)"
    and "\<not> in_table io_demo (io_ht io_demo 1) (replicate 200 []) 203"
    by (auto simp: io_demo_def valid_def in_table_def)
  then show ?thesis using io_add_get_del [OF io_demo_rep, of 203] by auto
qed

section \<open>Flags do not disturb each other\<close>

lemma is_bit_set_same: "b \<noteq> 0 \<Longrightarrow> is_bit_set (lib_set_bit fl b) b" "\<not> is_bit_set (lib_unset_bit fl b) b"
proof -
  have "(fl OR b) AND b = b" "(fl AND NOT b) AND b = 0" by (rule bit_eqI; auto simp: bit_simps)+
  then show "b \<noteq> 0 \<Longrightarrow> is_bit_set (lib_set_bit fl b) b" "\<not> is_bit_set (lib_unset_bit fl b) b"
    by (simp_all add: is_bit_set_def lib_set_bit_def lib_unset_bit_def)
qed

lemma is_bit_set_other:
  assumes "b AND c = 0"
  shows "is_bit_set (lib_set_bit fl b) c = is_bit_set fl c" "is_bit_set (lib_unset_bit fl b) c = is_bit_set fl c"
proof -
  have n: "\<not> (bit b n \<and> bit c n)" for n using assms bit_and_iff [of b c n] by simp
  have "(fl OR b) AND c = fl AND c" "(fl AND NOT b) AND c = fl AND c"
    by (rule bit_eqI; use n in \<open>auto simp: bit_simps\<close>)+
  then show "is_bit_set (lib_set_bit fl b) c = is_bit_set fl c" "is_bit_set (lib_unset_bit fl b) c = is_bit_set fl c"
    by (simp_all add: is_bit_set_def lib_set_bit_def lib_unset_bit_def)
qed

end
