(* ===== verification/LibMem.thy ===== *)
theory LibMem imports LibList begin

text \<open>
  \<open>Server/Lib/lib-mem.c\<close>: the tracking allocator behind \<open>mem_malloc\<close> and \<open>mem_free\<close>. A tracked block
  is a \<open>struct mem_struct\<close>, the caller's bytes and a closing magic word; tracked blocks are kept
  on the list \<open>mem_list\<close>. Addresses are byte addresses here: the caller's pointer is the block's
  address plus \<open>sizeof (struct mem_struct)\<close>, and the closing word is read at its byte address, so
  that a caller who writes one word too far destroys it. The lemmas show that the list holds
  exactly the blocks handed out and not yet returned, and what the two magic words detect.
\<close>

section \<open>State\<close>

datatype hook_ref = HookNull | HookDefault | HookUser

record memtool = heap +
  mem_on :: int
  mem_hook :: hook_ref
  mem_list :: ptr
  m_size :: "ptr \<Rightarrow> int"
  m_module :: "ptr \<Rightarrow> int"
  m_file :: "ptr \<Rightarrow> string"
  m_line :: "ptr \<Rightarrow> int"
  m_magic :: "ptr \<Rightarrow> 32 word"
  word_at :: "ptr \<Rightarrow> 32 word"
  mem_errs :: "(int \<times> int \<times> string \<times> int) list"

definition MEM_MAGIC :: "32 word" where
  "MEM_MAGIC = 0xABCDE987"

definition MEM_MALLOC_FAILED :: int where "MEM_MALLOC_FAILED = 1"
definition MEM_FREE_INVALID1 :: int where "MEM_FREE_INVALID1 = 2"
definition MEM_FREE_INVALID2 :: int where "MEM_FREE_INVALID2 = 3"

definition MAX_FILE_COMPILE_PATH :: nat where
  "MAX_FILE_COMPILE_PATH = 256"

text \<open>Two pointers, four \<open>int\<close>s and the path: the size of the header on the 64-bit server.\<close>

definition mem_struct_bytes :: int where
  "mem_struct_bytes = 288"

section \<open>The C library's allocator\<close>

text \<open>
  \<open>malloc\<close> of a negative length (converted to \<open>size_t\<close>) cannot be met; otherwise the coming outcome
  decides. \<open>free\<close> of something that is not the start of a live block does not come back.
\<close>

definition sys_malloc :: "int \<Rightarrow> 'a memtool_scheme \<Rightarrow> ptr \<times> 'a memtool_scheme" where
  "sys_malloc n h =
     (if n < 0 then (NULL, h)
      else if next_oom h then (NULL, h\<lparr>oom := tl (oom h)\<rparr>)
      else (brk h, h\<lparr>live := (live h)(brk h := True), brk := brk h + max 1 (nat n),
                     oom := tl (oom h)\<rparr>))"

section \<open>The operations\<close>

definition mem_default_hook :: "int \<Rightarrow> ptr \<Rightarrow> 'a memtool_scheme \<Rightarrow> 'a memtool_scheme option" where
  "mem_default_hook code m h =
     (if valid h m
      then Some (h\<lparr>mem_errs := mem_errs h @ [(code, m_module h m, m_file h m, m_line h m)]\<rparr>)
      else None)"

definition call_hook ::
  "(int \<Rightarrow> ptr \<Rightarrow> 'a memtool_scheme \<Rightarrow> 'a memtool_scheme option) \<Rightarrow>
   int \<Rightarrow> ptr \<Rightarrow> 'a memtool_scheme \<Rightarrow> 'a memtool_scheme option"
where
  "call_hook user code m h =
     (case mem_hook h of
        HookNull \<Rightarrow> None
      | HookDefault \<Rightarrow> mem_default_hook code m h
      | HookUser \<Rightarrow> user code m h)"

definition lib_mem_malloc ::
  "(int \<Rightarrow> ptr \<Rightarrow> 'a memtool_scheme \<Rightarrow> 'a memtool_scheme option) \<Rightarrow>
   int \<Rightarrow> string \<Rightarrow> int \<Rightarrow> 'a memtool_scheme \<Rightarrow> (ptr \<times> 'a memtool_scheme) option"
where
  "lib_mem_malloc user sz file line h =
     (if mem_on h = 0 then Some (sys_malloc sz h)
      else
        let len = c_int (mem_struct_bytes + sz + 4);
            (m, h) = sys_malloc len h
        in if m = NULL then do { h \<leftarrow> call_hook user MEM_MALLOC_FAILED NULL h; Some (NULL, h) }
        else if sz < 0 then None
        else do {
          let magicp = m + nat (mem_struct_bytes + sz);
          let h = h\<lparr>m_size := (m_size h)(m := len), m_line := (m_line h)(m := line),
                    m_file := (m_file h)(m := take MAX_FILE_COMPILE_PATH file),
                    m_module := (m_module h)(m := 0), m_magic := (m_magic h)(m := MEM_MAGIC),
                    word_at := (word_at h)(magicp := MEM_MAGIC)\<rparr>;
          h \<leftarrow> lib_list_add_tail m (mem_list h) h;
          Some (m + nat mem_struct_bytes, h) })"

text \<open>The header of the block a caller's pointer belongs to, read by \<open>free\<close> and \<open>check\<close>.\<close>

definition hdr_of :: "ptr \<Rightarrow> ptr" where
  "hdr_of p = p - nat mem_struct_bytes"

definition closing :: "'a memtool_scheme \<Rightarrow> ptr \<Rightarrow> 32 word" where
  "closing h m = word_at h (nat (int m + m_size h m - 4))"

definition lib_mem_free ::
  "(int \<Rightarrow> ptr \<Rightarrow> 'a memtool_scheme \<Rightarrow> 'a memtool_scheme option) \<Rightarrow>
   ptr \<Rightarrow> string \<Rightarrow> int \<Rightarrow> 'a memtool_scheme \<Rightarrow> 'a memtool_scheme option"
where
  "lib_mem_free user p file line h =
     (if mem_on h = 0 then Prelude.mem_free p h
      else if p = NULL then Some h
      else
        let m = hdr_of p
        in if \<not> valid h m then None
        else if m_magic h m \<noteq> MEM_MAGIC then call_hook user MEM_FREE_INVALID1 m h
        else
          let h = h\<lparr>m_file := (m_file h)(m := take MAX_FILE_COMPILE_PATH file),
                    m_line := (m_line h)(m := line)\<rparr>
          in if closing h m \<noteq> MEM_MAGIC then call_hook user MEM_FREE_INVALID2 m h
          else do { h \<leftarrow> lib_list_del m h; Prelude.mem_free m h })"

definition lib_mem_check ::
  "(int \<Rightarrow> ptr \<Rightarrow> 'a memtool_scheme \<Rightarrow> 'a memtool_scheme option) \<Rightarrow>
   ptr \<Rightarrow> 'a memtool_scheme \<Rightarrow> (int \<times> 'a memtool_scheme) option"
where
  "lib_mem_check user p h =
     (if mem_on h = 0 then Some (OK, h)
      else
        let m = hdr_of p
        in if \<not> valid h m then None
        else if m_magic h m \<noteq> MEM_MAGIC
        then do { h \<leftarrow> call_hook user MEM_FREE_INVALID1 m h; Some (ERROR, h) }
        else if closing h m \<noteq> MEM_MAGIC
        then do { h \<leftarrow> call_hook user MEM_FREE_INVALID2 m h; Some (ERROR, h) }
        else Some (OK, h))"

text \<open>One line of the listing: bytes behind the header, the caller's pointer, file, line, header intact.\<close>

type_synonym mem_row = "int \<times> ptr \<times> string \<times> int \<times> bool"

definition mem_row_of :: "'a memtool_scheme \<Rightarrow> ptr \<Rightarrow> mem_row" where
  "mem_row_of h m = (m_size h m - mem_struct_bytes, m + nat mem_struct_bytes, m_file h m, m_line h m,
     m_magic h m = MEM_MAGIC)"

definition lib_mem_show :: "'a memtool_scheme \<Rightarrow> mem_row list option" where
  "lib_mem_show h = do {
     (_, rows) \<leftarrow> lib_list_for_each (\<lambda>m h rows. Some (h, rows @ [mem_row_of h m], False)) (mem_list h) h [];
     Some rows }"

definition mem_init :: "bool \<Rightarrow> int \<Rightarrow> 'a memtool_scheme \<Rightarrow> 'a memtool_scheme" where
  "mem_init hook_given on h =
     h\<lparr>mem_hook := if hook_given then HookUser else HookDefault, mem_on := on\<rparr>"

section \<open>The tracked blocks\<close>

text \<open>
  \<open>mem_ok h bs\<close>: the list holds the headers \<open>bs\<close>, oldest first, each with a sound opening magic and
  inside the used part of the address space, and every one of them lies above \<open>mem_list\<close> itself.
\<close>

definition mem_ok :: "'a memtool_scheme \<Rightarrow> ptr list \<Rightarrow> bool" where
  "mem_ok h bs \<longleftrightarrow> mem_on h \<noteq> 0 \<and> heap_ok h \<and> dlist h (mem_list h) bs \<and>
     (\<forall>m \<in> set bs. m_magic h m = MEM_MAGIC \<and> mem_struct_bytes + 4 \<le> m_size h m \<and>
        int m + m_size h m \<le> int (brk h))"

lemmas mem_consts = MEM_MALLOC_FAILED_def MEM_FREE_INVALID1_def MEM_FREE_INVALID2_def
  mem_struct_bytes_def MAX_FILE_COMPILE_PATH_def

lemma mem_ok_list: "mem_ok h bs \<Longrightarrow> dlist h (mem_list h) bs"
  by (simp add: mem_ok_def)

lemma sys_malloc_fresh:
  assumes "heap_ok h" "sys_malloc n h = (p, h')" "p \<noteq> NULL"
  shows "p = brk h" "0 \<le> n" "h' = h\<lparr>live := (live h)(p := True), brk := p + max 1 (nat n), oom := tl (oom h)\<rparr>"
  using assms by (auto simp: sys_malloc_def heap_ok_def split: if_splits)

lemma sys_malloc_null:
  "heap_ok h \<Longrightarrow> sys_malloc n h = (NULL, h') \<Longrightarrow> h' = h \<or> h' = h\<lparr>oom := tl (oom h)\<rparr>"
  by (auto simp: sys_malloc_def heap_ok_def split: if_splits)

lemma hdr_of_user [simp]: "hdr_of (m + nat mem_struct_bytes) = m"
  by (simp add: hdr_of_def)


text \<open>A block is handed out: it is new, it is last on the list, and its closing word is sound.\<close>

lemma lib_mem_malloc_ok:
  assumes ok: "mem_ok h bs" and sz: "0 \<le> sz" "sz + 292 < 2 ^ 31" and o: "\<not> next_oom h"
  shows "\<exists>h'. lib_mem_malloc user sz file line h = Some (brk h + 288, h') \<and>
     mem_ok h' (bs @ [brk h]) \<and> closing h' (brk h) = MEM_MAGIC \<and> m_size h' (brk h) = sz + 292 \<and>
     (\<forall>m \<in> set bs. closing h' m = closing h m \<and> m_size h' m = m_size h m)"
proof -
  let ?m = "brk h" and ?len = "sz + 292"
  let ?h1 = "h\<lparr>live := (live h)(?m := True), brk := ?m + max 1 (nat ?len), oom := tl (oom h)\<rparr>"
  let ?h2 = "?h1\<lparr>m_size := (m_size h)(?m := ?len), m_line := (m_line h)(?m := line),
      m_file := (m_file h)(?m := take MAX_FILE_COMPILE_PATH file),
      m_module := (m_module h)(?m := 0), m_magic := (m_magic h)(?m := MEM_MAGIC),
      word_at := (word_at h)(?m + nat (288 + sz) := MEM_MAGIC)\<rparr>"
  have hok: "heap_ok h" and d: "dlist h (mem_list h) bs" and on: "mem_on h \<noteq> 0"
    using ok by (simp_all add: mem_ok_def)
  have len: "c_int (mem_struct_bytes + sz + 4) = ?len"
    using sz by (simp add: mem_struct_bytes_def)
  have m0: "?m \<noteq> 0" using hok by (simp add: heap_ok_def)
  have new: "?m \<notin> set (mem_list h # bs)"
    using heap_ok_brk [OF hok] dlist_notin [OF d] by (simp add: valid_def)
  have v2: "valid ?h2 = valid ?h1" by (rule valid_cong) simp
  have d2: "dlist ?h2 (mem_list h) bs"
    by (rule dlist_frame [OF d]) (use d in \<open>auto simp: dlist_def valid_def\<close>)
  have vm: "valid ?h2 ?m" using m0 by (simp add: valid_def)
  let ?h3 = "linked (pred_of (mem_list h) bs) ?m (mem_list h) ?h2"
  have add: "lib_list_add_tail ?m (mem_list h) ?h2 = Some ?h3"
    by (rule lib_list_add_tail_eq [OF d2 vm])
  have sys: "sys_malloc ?len h = (?m, ?h1)" using sz o by (simp add: sys_malloc_def)
  have ev: "lib_mem_malloc user sz file line h = Some (?m + 288, ?h3)"
  proof -
    have "lib_mem_malloc user sz file line h =
        do { h \<leftarrow> lib_list_add_tail ?m (mem_list h) ?h2; Some (?m + 288, h) }"
      using on m0 sz(1) unfolding lib_mem_malloc_def len Let_def sys by (simp add: mem_struct_bytes_def)
    then show ?thesis by (simp only: add bind.bind_lunit)
  qed
  have d3: "dlist ?h3 (mem_list h) (bs @ [?m])"
    by (rule lib_list_add_tail_dlist [OF d2 vm new])
  have top: "\<And>m. m \<in> set bs \<Longrightarrow> int m + m_size h m \<le> int ?m \<and> 292 \<le> m_size h m"
    using ok by (auto simp: mem_ok_def mem_struct_bytes_def)
  have nm: "\<And>m. m \<in> set bs \<Longrightarrow> m \<noteq> ?m" using new by auto
  have cl: "\<And>m. m \<in> set bs \<Longrightarrow> closing ?h3 m = closing h m \<and> m_size ?h3 m = m_size h m"
  proof -
    fix m assume m: "m \<in> set bs"
    have "nat (int m + m_size h m - 4) \<noteq> ?m + nat (288 + sz)" using top [OF m] sz by linarith
    then show "closing ?h3 m = closing h m \<and> m_size ?h3 m = m_size h m"
      using nm [OF m] by (simp add: closing_def linked_def)
  qed
  have hok3: "heap_ok ?h3" using hok by (auto simp: heap_ok_def)
  have "mem_ok ?h3 (bs @ [?m])"
    unfolding mem_ok_def
  proof (intro conjI ballI)
    show "mem_on ?h3 \<noteq> 0" using on by (simp add: linked_def)
    show "heap_ok ?h3" by (rule hok3)
    show "dlist ?h3 (mem_list ?h3) (bs @ [?m])" using d3 by (simp add: linked_def)
    fix m assume m: "m \<in> set (bs @ [?m])"
    show "m_magic ?h3 m = MEM_MAGIC" using m ok by (auto simp: linked_def mem_ok_def)
    show "mem_struct_bytes + 4 \<le> m_size ?h3 m"
      using m top sz by (auto simp: linked_def mem_struct_bytes_def)
    show "int m + m_size ?h3 m \<le> int (brk ?h3)"
      using m top nm sz by (fastforce simp: linked_def)
  qed
  moreover have "closing ?h3 ?m = MEM_MAGIC" using sz by (simp add: closing_def linked_def nat_add_distrib)
  moreover have "m_size ?h3 ?m = ?len" by (simp add: linked_def)
  ultimately show ?thesis using ev cl by blast
qed


text \<open>A sound block is taken back: it leaves the list and is no longer live.\<close>

lemma lib_mem_free_ok:
  assumes ok: "mem_ok h bs" and m: "m \<in> set bs" and c: "closing h m = MEM_MAGIC"
  shows "\<exists>h'. lib_mem_free user (m + 288) file line h = Some h' \<and> mem_ok h' (remove1 m bs) \<and>
     \<not> valid h' m \<and> (\<forall>b \<in> set (remove1 m bs). closing h' b = closing h b \<and> m_size h' b = m_size h b)"
proof -
  have d: "dlist h (mem_list h) bs" and on: "mem_on h \<noteq> 0" and hok: "heap_ok h"
    using ok by (simp_all add: mem_ok_def)
  have vm: "valid h m" using d m by (simp add: dlist_def)
  have ml: "mem_list h \<noteq> m" "distinct bs" using d m by (auto simp: dlist_def)
  let ?h1 = "h\<lparr>m_file := (m_file h)(m := take MAX_FILE_COMPILE_PATH file),
    m_line := (m_line h)(m := line)\<rparr>"
  have d1: "dlist ?h1 (mem_list h) bs"
    by (rule dlist_frame [OF d]) (use d in \<open>auto simp: dlist_def valid_def\<close>)
  obtain p n where del: "lib_list_del m ?h1 = Some (unlinked p m n ?h1)"
    and d2: "dlist (unlinked p m n ?h1) (mem_list h) (remove1 m bs)"
    by (rule lib_list_del_dlist [OF d1 m]) blast
  let ?h2 = "unlinked p m n ?h1"
  let ?h3 = "?h2\<lparr>live := (live ?h2)(m := False)\<rparr>"
  have v2: "valid ?h2 m" using vm by (simp add: valid_def)
  have "lib_mem_free user (m + 288) file line h =
      do { h \<leftarrow> lib_list_del m ?h1; mem_free m h }"
    using on vm c ok m by (simp add: lib_mem_free_def Let_def hdr_of_def mem_struct_bytes_def
        mem_ok_def closing_def)
  then have ev: "lib_mem_free user (m + 288) file line h = Some ?h3"
    using v2 by (simp add: del mem_free_def valid_def)
  have nin: "m \<notin> set (mem_list h # remove1 m bs)" using ml by auto
  have d3: "dlist ?h3 (mem_list h) (remove1 m bs)"
    by (rule dlist_frame [OF d2]) (use d2 nin in \<open>auto simp: dlist_def valid_def\<close>)
  have "heap_ok ?h3" using hok by (auto simp: heap_ok_def)
  then have "mem_ok ?h3 (remove1 m bs)"
    using on d3 ok by (auto simp: mem_ok_def unlinked_def dest: notin_set_remove1)
  moreover have "\<not> valid ?h3 m" by (simp add: valid_def)
  moreover have "\<forall>b \<in> set (remove1 m bs). closing ?h3 b = closing h b \<and> m_size ?h3 b = m_size h b"
    by (simp add: closing_def unlinked_def)
  ultimately show ?thesis using ev by blast
qed

text \<open>
  A block whose owner wrote past its end is reported with code 3 and kept: it stays live and on the
  list. A second \<open>free\<close> of a block reads a header that is gone.
\<close>

lemma lib_mem_free_overrun:
  assumes ok: "mem_ok h bs" and m: "m \<in> set bs" and c: "closing h m \<noteq> MEM_MAGIC"
    and hk: "mem_hook h = HookDefault"
  shows "\<exists>h'. lib_mem_free user (m + 288) file line h = Some h' \<and> mem_ok h' bs \<and> valid h' m \<and>
     mem_errs h' = mem_errs h @
       [(MEM_FREE_INVALID2, m_module h m, take MAX_FILE_COMPILE_PATH file, line)]"
proof -
  have d: "dlist h (mem_list h) bs" and on: "mem_on h \<noteq> 0" and hok: "heap_ok h"
    using ok by (simp_all add: mem_ok_def)
  have vm: "valid h m" using d m by (simp add: dlist_def)
  let ?h1 = "h\<lparr>m_file := (m_file h)(m := take MAX_FILE_COMPILE_PATH file),
    m_line := (m_line h)(m := line)\<rparr>"
  let ?h2 = "?h1\<lparr>mem_errs := mem_errs h @
    [(MEM_FREE_INVALID2, m_module h m, take MAX_FILE_COMPILE_PATH file, line)]\<rparr>"
  have ev: "lib_mem_free user (m + 288) file line h = Some ?h2"
    using on vm c ok m hk by (simp add: lib_mem_free_def Let_def hdr_of_def mem_struct_bytes_def
        mem_ok_def closing_def call_hook_def mem_default_hook_def valid_def)
  have "dlist ?h2 (mem_list h) bs"
    by (rule dlist_frame [OF d]) (use d in \<open>auto simp: dlist_def valid_def\<close>)
  moreover have "heap_ok ?h2" using hok by (auto simp: heap_ok_def)
  ultimately have "mem_ok ?h2 bs" using ok by (simp add: mem_ok_def)
  moreover have "valid ?h2 m" using vm by (simp add: valid_def)
  ultimately show ?thesis using ev by auto
qed

lemma lib_mem_free_gone:
  "mem_on h \<noteq> 0 \<Longrightarrow> p \<noteq> NULL \<Longrightarrow> \<not> valid h (hdr_of p) \<Longrightarrow> lib_mem_free user p file line h = None"
  by (simp add: lib_mem_free_def Let_def)

text \<open>\<open>mem_check\<close> accepts a block exactly while both magic words stand.\<close>

lemma lib_mem_check_ok:
  assumes ok: "mem_ok h bs" and m: "m \<in> set bs" and hk: "mem_hook h = HookDefault"
  shows "\<exists>h'. lib_mem_check user (m + 288) h =
    Some (if closing h m = MEM_MAGIC then OK else ERROR, h')"
proof -
  have "valid h m" using ok m by (simp add: mem_ok_def dlist_def)
  then show ?thesis
    using ok m hk by (simp add: lib_mem_check_def Let_def hdr_of_def mem_struct_bytes_def mem_ok_def
        call_hook_def mem_default_hook_def)
qed

text \<open>
  The default hook reads the header it is given, but a failed \<open>malloc\<close> has none to give: with the
  default hook the allocator does not survive the first failure it is meant to report.
\<close>

lemma lib_mem_malloc_no_memory:
  assumes "mem_on h \<noteq> 0" "mem_hook h = HookDefault" "next_oom h"
  shows "lib_mem_malloc user sz file line h = None"
  using assms
  by (simp add: lib_mem_malloc_def Let_def sys_malloc_def call_hook_def mem_default_hook_def
      split: if_splits)

text \<open>The listing has one row per tracked block, oldest first.\<close>

lemma run_mem_rows:
  "run_body (\<lambda>m h rows. Some (h, rows @ [mem_row_of h m], False)) bs h rows =
   Some (h, rows @ List.map (mem_row_of h) bs)"
  by (induction bs arbitrary: rows) auto

lemma lib_mem_show_rows:
  assumes "mem_ok h bs"
  shows "lib_mem_show h = Some (List.map (mem_row_of h) bs)"
proof -
  have "lib_list_for_each (\<lambda>m h rows. Some (h, rows @ [mem_row_of h m], False)) (mem_list h) h [] =
      run_body (\<lambda>m h rows. Some (h, rows @ [mem_row_of h m], False)) bs h []"
    by (rule for_each_run [OF _ mem_ok_list [OF assms]]) auto
  then show ?thesis by (simp add: lib_mem_show_def run_mem_rows)
qed

lemma lib_mem_malloc_hook:
  assumes "lib_mem_malloc user sz file line h = Some (p, h')" "mem_hook h = HookDefault"
  shows "mem_hook h' = HookDefault"
  using assms
  by (auto simp: lib_mem_malloc_def Let_def sys_malloc_def call_hook_def mem_default_hook_def
      lib_list_add_tail_def lib_list_add_between_def heap_access valid_def bind_eq_Some_conv split: if_splits)

section \<open>Properties\<close>

text \<open>A tracked block that is handed out and given back leaves the list of tracked blocks as it was,
  and is not live any more, whatever the file and line the two calls are made from.\<close>

theorem mem_malloc_free_roundtrip:
  assumes "mem_ok h bs" "0 \<le> sz" "sz + 292 < 2 ^ 31" "\<not> next_oom h"
  shows "\<exists>p h1 h2. lib_mem_malloc user sz file line h = Some (p, h1) \<and> mem_ok h1 (bs @ [hdr_of p]) \<and>
     lib_mem_free user p file' line' h1 = Some h2 \<and> mem_ok h2 bs \<and> \<not> valid h2 (hdr_of p)"
proof -
  let ?b = "brk h"
  obtain h1 where h1: "lib_mem_malloc user sz file line h = Some (?b + 288, h1)" "mem_ok h1 (bs @ [?b])"
    "closing h1 ?b = MEM_MAGIC"
    using lib_mem_malloc_ok [OF assms] by blast
  have b: "?b \<in> set (bs @ [?b])" by simp
  obtain h2 where h2: "lib_mem_free user (?b + 288) file' line' h1 = Some h2"
    "mem_ok h2 (remove1 ?b (bs @ [?b]))" "\<not> valid h2 ?b"
    using lib_mem_free_ok [OF h1(2) b h1(3)] by blast
  have "?b \<notin> set bs" using mem_ok_list [OF h1(2)] by (auto simp: dlist_def)
  then have "remove1 ?b (bs @ [?b]) = bs" by (simp add: remove1_append)
  moreover have "hdr_of (?b + 288) = ?b" by (simp add: hdr_of_def mem_struct_bytes_def)
  ultimately show ?thesis using h1 h2 by (intro exI [of _ "?b + 288"] exI [of _ h1] exI [of _ h2]) simp
qed

definition mem_demo :: memtool where
  "mem_demo = \<lparr>live = (\<lambda>p. p = 1), brk = 2, oom = [], nxt = (\<lambda>_. 1), prv = (\<lambda>_. 1),
     mem_on = 1, mem_hook = HookDefault, mem_list = 1, m_size = (\<lambda>_. 0), m_module = (\<lambda>_. 0),
     m_file = (\<lambda>_. []), m_line = (\<lambda>_. 0), m_magic = (\<lambda>_. 0), word_at = (\<lambda>_. 0), mem_errs = []\<rparr>"

lemma mem_demo_ok: "mem_ok mem_demo []" "\<not> next_oom mem_demo" "mem_hook mem_demo = HookDefault"
  by (simp_all add: mem_ok_def heap_ok_def dlist_def valid_def next_oom_def mem_demo_def)

theorem mem_malloc_free_roundtrip_witness:
  "\<exists>p h1 h2. lib_mem_malloc (\<lambda>_ _ h. Some h) 10 ''a.c'' 7 mem_demo = Some (p, h1) \<and>
     mem_ok h1 ([] @ [hdr_of p]) \<and> lib_mem_free (\<lambda>_ _ h. Some h) p ''b.c'' 9 h1 = Some h2 \<and>
     mem_ok h2 [] \<and> \<not> valid h2 (hdr_of p)"
  by (rule mem_malloc_free_roundtrip) (use mem_demo_ok in simp_all)

text \<open>A caller who overwrites the word behind the bytes it asked for is found out when it frees the
  block: the default hook logs code \<open>MEM_FREE_INVALID2\<close> with the place of the \<open>free\<close>, and the block is
  not released but stays live and on the list.\<close>

theorem mem_overrun_detected:
  assumes "mem_ok h bs" "0 \<le> sz" "sz + 292 < 2 ^ 31" "\<not> next_oom h" "w \<noteq> MEM_MAGIC"
    "mem_hook h = HookDefault"
  shows "\<exists>p h1 h2. lib_mem_malloc user sz file line h = Some (p, h1) \<and>
     lib_mem_free user p file' line' (h1\<lparr>word_at := (word_at h1)(p + nat sz := w)\<rparr>) = Some h2 \<and>
     mem_ok h2 (bs @ [hdr_of p]) \<and> valid h2 (hdr_of p) \<and>
     (\<exists>md. mem_errs h2 = mem_errs h1 @ [(MEM_FREE_INVALID2, md, take MAX_FILE_COMPILE_PATH file', line')])"
proof -
  let ?b = "brk h"
  obtain h1 where h1: "lib_mem_malloc user sz file line h = Some (?b + 288, h1)" "mem_ok h1 (bs @ [?b])"
    "m_size h1 ?b = sz + 292"
    using lib_mem_malloc_ok [OF assms(1-4)] by blast
  have hk: "mem_hook h1 = HookDefault"
    by (rule lib_mem_malloc_hook [OF h1(1) assms(6)])
  let ?w = "h1\<lparr>word_at := (word_at h1)(?b + 288 + nat sz := w)\<rparr>"
  have "mem_ok ?w (bs @ [?b])"
    using h1(2) by (simp add: mem_ok_def heap_ok_def dlist_cong [of ?w h1])
  moreover have "nat (int ?b + m_size ?w ?b - 4) = ?b + 288 + nat sz" using h1(3) assms(2) by simp
  then have "closing ?w ?b \<noteq> MEM_MAGIC" using assms(5) by (simp add: closing_def)
  ultimately obtain h2 where h2: "lib_mem_free user (?b + 288) file' line' ?w = Some h2"
    "mem_ok h2 (bs @ [?b])" "valid h2 ?b"
    "mem_errs h2 = mem_errs h1 @ [(MEM_FREE_INVALID2, m_module h1 ?b, take MAX_FILE_COMPILE_PATH file', line')]"
    using lib_mem_free_overrun [of ?w "bs @ [?b]" ?b user file' line'] hk by auto
  have "hdr_of (?b + 288) = ?b" by (simp add: hdr_of_def mem_struct_bytes_def)
  then show ?thesis
    using h1(1) h2 by (intro exI [of _ "?b + 288"] exI [of _ h1] exI [of _ h2]) simp
qed

theorem mem_overrun_detected_witness:
  "\<exists>p h1 h2. lib_mem_malloc (\<lambda>_ _ h. Some h) 10 ''a.c'' 7 mem_demo = Some (p, h1) \<and>
     lib_mem_free (\<lambda>_ _ h. Some h) p ''b.c'' 9 (h1\<lparr>word_at := (word_at h1)(p + nat 10 := 0)\<rparr>) = Some h2 \<and>
     mem_ok h2 ([] @ [hdr_of p]) \<and> valid h2 (hdr_of p) \<and>
     (\<exists>md. mem_errs h2 = mem_errs h1 @ [(MEM_FREE_INVALID2, md, take MAX_FILE_COMPILE_PATH ''b.c'', 9)])"
  by (rule mem_overrun_detected) (use mem_demo_ok in \<open>simp_all add: MEM_MAGIC_def\<close>)

end
