(* ===== verification/LibIndexCache.thy ===== *)
theory LibIndexCache imports LibList begin

text \<open>
  \<open>Server/Lib/lib-index-cache.c\<close>: a cache of items under numeric identifiers, an array of slots with
  the occupied slots threaded on a list in order of insertion. \<open>cache_rep h ic m xs\<close> says that the
  cache maps slot \<open>i\<close> to item \<open>m i\<close> (\<open>NULL\<close> for none) and that \<open>xs\<close> are the occupied slots; the
  lemmas give what each operation makes of them, and the corner cases in which the counter \<open>cur\<close>
  and the contents part.
\<close>

section \<open>State\<close>

text \<open>
  The structure embeds the head of its list behind its first members, so it takes two addresses:
  \<open>ic\<close> and the head \<open>ic + 1\<close>. The items of the array are nodes themselves. Function pointers are
  numbers, \<open>0\<close> for none.
\<close>

record idx_caches = heap +
  ic_name :: "ptr \<Rightarrow> string"
  ic_max :: "ptr \<Rightarrow> int"
  ic_cur :: "ptr \<Rightarrow> int"
  fun_on_delete :: "ptr \<Rightarrow> nat"
  ic_p1 :: "ptr \<Rightarrow> ptr"
  ic_ary :: "ptr \<Rightarrow> ptr"
  item_data :: "ptr \<Rightarrow> ptr"
  item_ref :: "ptr \<Rightarrow> int"

abbreviation (input) ic_list :: "ptr \<Rightarrow> ptr" where
  "ic_list ic \<equiv> Suc ic"

definition IDX_CACHE_MAX :: int where
  "IDX_CACHE_MAX = 10000000"

definition MAX_NAME_LEN :: nat where
  "MAX_NAME_LEN = 32"

type_synonym 'w on_delete = "nat \<Rightarrow> ptr \<Rightarrow> ptr \<Rightarrow> 'w \<Rightarrow> 'w option"

section \<open>The operations\<close>

definition idx_cache_init ::
  "string \<Rightarrow> int \<Rightarrow> nat \<Rightarrow> ptr \<Rightarrow> 'a idx_caches_scheme \<Rightarrow> (ptr \<times> 'a idx_caches_scheme) option"
where
  "idx_cache_init name mx del_fun p h =
     (if IDX_CACHE_MAX < mx then Some (NULL, h)
      else
        let (ic, h) = mem_malloc_array 2 h
        in if ic = NULL then Some (NULL, h)
        else do {
          let h = h\<lparr>ic_name := (ic_name h)(ic := take MAX_NAME_LEN name),
                    ic_max := (ic_max h)(ic := mx), ic_cur := (ic_cur h)(ic := 0),
                    fun_on_delete := (fun_on_delete h)(ic := del_fun), ic_p1 := (ic_p1 h)(ic := p)\<rparr>;
          h \<leftarrow> INIT_LIB_LIST (ic_list ic) h;
          _ \<leftarrow> lib_assert (0 \<le> mx);
          let (ary, h) = mem_malloc_array (nat mx) h;
          let h = h\<lparr>ic_ary := (ic_ary h)(ic := ary)\<rparr>;
          if ary = NULL then do { h \<leftarrow> mem_free_array ic 2 h; Some (NULL, h) }
          else Some (ic, h\<lparr>item_data := (\<lambda>q. if ary \<le> q then NULL else item_data h q),
                           item_ref := (\<lambda>q. if ary \<le> q then 0 else item_ref h q)\<rparr>) })"

fun finl_slots ::
  "'a idx_caches_scheme on_delete \<Rightarrow> ptr \<Rightarrow> nat list \<Rightarrow> 'a idx_caches_scheme \<Rightarrow> 'a idx_caches_scheme option"
where
  "finl_slots del ic [] h = Some h"
| "finl_slots del ic (i # is) h = do {
     let p = item_data h (ic_ary h ic + i);
     h \<leftarrow> (if p \<noteq> NULL \<and> fun_on_delete h ic \<noteq> 0 then del (fun_on_delete h ic) (ic_p1 h ic) p h else Some h);
     finl_slots del ic is h }"

definition idx_cache_finl ::
  "'a idx_caches_scheme on_delete \<Rightarrow> ptr \<Rightarrow> 'a idx_caches_scheme \<Rightarrow> 'a idx_caches_scheme option"
where
  "idx_cache_finl del ic h =
     (if ic = NULL then Some h
      else do {
        _ \<leftarrow> lib_assert (valid h ic);
        h \<leftarrow> finl_slots del ic [0..<nat (ic_max h ic)] h;
        h \<leftarrow> mem_free_array (ic_ary h ic) (nat (ic_max h ic)) h;
        mem_free_array ic 2 h })"

text \<open>
  \<open>id >= ic->max\<close> compares as unsigned, and so does \<open>id % ic->max\<close> divide.
\<close>

definition id_outside :: "'a idx_caches_scheme \<Rightarrow> ptr \<Rightarrow> 32 word \<Rightarrow> bool" where
  "id_outside h ic iid \<longleftrightarrow> word_of_int (ic_max h ic) \<le> iid"

definition slot :: "'a idx_caches_scheme \<Rightarrow> ptr \<Rightarrow> 32 word \<Rightarrow> ptr" where
  "slot h ic iid = ic_ary h ic + unat (iid mod word_of_int (ic_max h ic))"

definition idx_cache_delete_internal ::
  "'a idx_caches_scheme on_delete \<Rightarrow> ptr \<Rightarrow> 32 word \<Rightarrow> 'a idx_caches_scheme \<Rightarrow> 'a idx_caches_scheme option"
where
  "idx_cache_delete_internal del ic iid h = do {
     _ \<leftarrow> lib_assert (valid h ic);
     if id_outside h ic iid then Some h
     else do {
       let e = slot h ic iid;
       let p = item_data h e;
       let h = h\<lparr>item_data := (item_data h)(e := NULL)\<rparr>;
       h \<leftarrow> lib_list_del e h;
       let h = h\<lparr>ic_cur := (ic_cur h)(ic := ic_cur h ic - 1)\<rparr>;
       if p \<noteq> NULL \<and> fun_on_delete h ic \<noteq> 0
       then del (fun_on_delete h ic) (ic_p1 h ic) p h else Some h } }"

text \<open>The same steps under the lock, which is released before the call back.\<close>

definition idx_cache_delete ::
  "'a idx_caches_scheme on_delete \<Rightarrow> ptr \<Rightarrow> 32 word \<Rightarrow> 'a idx_caches_scheme \<Rightarrow> 'a idx_caches_scheme option"
where
  "idx_cache_delete del ic iid h = do {
     _ \<leftarrow> lib_assert (valid h ic);
     if id_outside h ic iid then Some h
     else do {
       let e = slot h ic iid;
       let p = item_data h e;
       let h = h\<lparr>item_data := (item_data h)(e := NULL)\<rparr>;
       h \<leftarrow> lib_list_del e h;
       let h = h\<lparr>ic_cur := (ic_cur h)(ic := ic_cur h ic - 1)\<rparr>;
       if p \<noteq> NULL \<and> fun_on_delete h ic \<noteq> 0
       then del (fun_on_delete h ic) (ic_p1 h ic) p h else Some h } }"

definition idx_cache_get :: "ptr \<Rightarrow> 32 word \<Rightarrow> 'a idx_caches_scheme \<Rightarrow> ptr option" where
  "idx_cache_get ic iid h = do {
     _ \<leftarrow> lib_assert (valid h ic);
     if id_outside h ic iid then Some NULL else Some (item_data h (slot h ic iid)) }"

text \<open>An identifier outside is answered with \<open>NULL\<close>, which is the \<open>int\<close> \<open>0\<close>, that is \<open>OK\<close>.\<close>

definition idx_cache_update ::
  "ptr \<Rightarrow> 32 word \<Rightarrow> ptr \<Rightarrow> 'a idx_caches_scheme \<Rightarrow> (int \<times> 'a idx_caches_scheme) option"
where
  "idx_cache_update ic iid data_updated h = do {
     _ \<leftarrow> lib_assert (valid h ic);
     if id_outside h ic iid then Some (0, h)
     else Some (OK, h\<lparr>item_data := (item_data h)(slot h ic iid := data_updated)\<rparr>) }"

definition idx_cache_get_next :: "ptr \<Rightarrow> 'a idx_caches_scheme \<Rightarrow> ptr" where
  "idx_cache_get_next ic h = NULL"

text \<open>
  The walk: \<open>cmp\<close> and \<open>job\<close> may be absent; \<open>found\<close> keeps its value from one item to the next.
\<close>

type_synonym ('w, 'l) item_fun = "(ptr \<Rightarrow> 'w \<Rightarrow> 'l \<Rightarrow> (int \<times> 'w \<times> 'l) option) option"

definition walk_item ::
  "('a idx_caches_scheme, 'l) item_fun \<Rightarrow> ('a idx_caches_scheme, 'l) item_fun \<Rightarrow> int \<Rightarrow>
   ('a idx_caches_scheme, 'l \<times> int) loop_body"
where
  "walk_item cmp job once e h ls = do {
     let (l, found) = ls;
     (found, h, l) \<leftarrow> (case cmp of None \<Rightarrow> Some (found, h, l) | Some f \<Rightarrow> f (item_data h e) h l);
     (h, l) \<leftarrow> (case job of None \<Rightarrow> Some (h, l)
        | Some g \<Rightarrow> if found \<noteq> 0 then do { (_, h, l) \<leftarrow> g (item_data h e) h l; Some (h, l) } else Some (h, l));
     Some (h, (l, found), found \<noteq> 0 \<and> once \<noteq> 0) }"

definition idx_cache_walk ::
  "ptr \<Rightarrow> ('a idx_caches_scheme, 'l) item_fun \<Rightarrow> ('a idx_caches_scheme, 'l) item_fun \<Rightarrow> int \<Rightarrow>
   'a idx_caches_scheme \<Rightarrow> 'l \<Rightarrow> ('a idx_caches_scheme \<times> 'l) option"
where
  "idx_cache_walk ic walk_cmp walk_job once h caller = do {
     _ \<leftarrow> lib_assert (valid h ic);
     (h, (caller, _)) \<leftarrow> lib_list_for_each (walk_item walk_cmp walk_job once) (ic_list ic) h (caller, 1);
     Some (h, caller) }"

definition idx_cache_get_count :: "ptr \<Rightarrow> 'a idx_caches_scheme \<Rightarrow> int option" where
  "idx_cache_get_count ic h = do { _ \<leftarrow> lib_assert (valid h ic); Some (ic_cur h ic) }"

definition idx_cache_get_capacity :: "ptr \<Rightarrow> 'a idx_caches_scheme \<Rightarrow> int option" where
  "idx_cache_get_capacity ic h = do { _ \<leftarrow> lib_assert (valid h ic); Some (ic_max h ic) }"

definition idx_cache_put ::
  "ptr \<Rightarrow> 32 word \<Rightarrow> ptr \<Rightarrow> 'a idx_caches_scheme \<Rightarrow> (int \<times> 'a idx_caches_scheme) option"
where
  "idx_cache_put ic iid param h = do {
     _ \<leftarrow> lib_assert (valid h ic);
     if id_outside h ic iid then Some (ERROR, h)
     else do {
       let e = slot h ic iid;
       if item_data h e \<noteq> NULL then Some (ERROR, h)
       else do {
         let h = h\<lparr>item_data := (item_data h)(e := param)\<rparr>;
         h \<leftarrow> lib_list_add_tail e (ic_list ic) h;
         let h = h\<lparr>ic_cur := (ic_cur h)(ic := ic_cur h ic + 1)\<rparr>;
         _ \<leftarrow> lib_assert (ic_cur h ic < ic_max h ic);
         Some (OK, h) } } }"

text \<open>\<open>clear\<close> has no check of the identifier: a large one addresses another slot, modulo \<open>max\<close>.\<close>

definition idx_cache_clear :: "ptr \<Rightarrow> 32 word \<Rightarrow> 'a idx_caches_scheme \<Rightarrow> 'a idx_caches_scheme option" where
  "idx_cache_clear ic iid h = do {
     _ \<leftarrow> lib_assert (valid h ic \<and> (word_of_int (ic_max h ic) :: 32 word) \<noteq> 0);
     let e = slot h ic iid;
     if item_data h e \<noteq> NULL
     then do {
       let h = h\<lparr>item_data := (item_data h)(e := NULL)\<rparr>;
       h \<leftarrow> lib_list_del e h;
       Some (h\<lparr>ic_cur := (ic_cur h)(ic := ic_cur h ic - 1)\<rparr>) }
     else Some h }"

fun flush_slots ::
  "'a idx_caches_scheme on_delete \<Rightarrow> ptr \<Rightarrow> nat list \<Rightarrow> 'a idx_caches_scheme \<Rightarrow> 'a idx_caches_scheme option"
where
  "flush_slots del ic [] h = Some h"
| "flush_slots del ic (i # is) h = do {
     let e = ic_ary h ic + i;
     let p = item_data h e;
     h \<leftarrow> (if p \<noteq> NULL
       then do {
         let h = h\<lparr>item_data := (item_data h)(e := NULL)\<rparr>;
         h \<leftarrow> lib_list_del e h;
         Some (h\<lparr>ic_cur := (ic_cur h)(ic := ic_cur h ic - 1)\<rparr>) }
       else Some h);
     h \<leftarrow> (if p \<noteq> NULL \<and> fun_on_delete h ic \<noteq> 0 then del (fun_on_delete h ic) (ic_p1 h ic) p h else Some h);
     flush_slots del ic is h }"

definition idx_cache_flush ::
  "'a idx_caches_scheme on_delete \<Rightarrow> ptr \<Rightarrow> 'a idx_caches_scheme \<Rightarrow> 'a idx_caches_scheme option"
where
  "idx_cache_flush del ic h =
     (if ic = NULL then Some h
      else do { _ \<leftarrow> lib_assert (valid h ic); flush_slots del ic [0..<nat (ic_max h ic)] h })"

section \<open>The contents of a cache\<close>

definition slot_at :: "'a idx_caches_scheme \<Rightarrow> ptr \<Rightarrow> nat \<Rightarrow> ptr" where
  "slot_at h ic i = ic_ary h ic + i"

definition cache_rep :: "'a idx_caches_scheme \<Rightarrow> ptr \<Rightarrow> (nat \<Rightarrow> ptr) \<Rightarrow> nat list \<Rightarrow> bool" where
  "cache_rep h ic m xs \<longleftrightarrow> valid h ic \<and> 0 \<le> ic_max h ic \<and> ic_max h ic \<le> IDX_CACHE_MAX \<and>
     ic_cur h ic = int (List.length xs) \<and>
     dlist h (ic_list ic) (List.map (slot_at h ic) xs) \<and>
     (\<forall>i < nat (ic_max h ic). valid h (slot_at h ic i) \<and> slot_at h ic i \<noteq> ic_list ic \<and>
        item_data h (slot_at h ic i) = m i \<and> (m i \<noteq> NULL \<longleftrightarrow> i \<in> set xs) \<and>
        (m i = NULL \<longrightarrow> nxt h (slot_at h ic i) = NULL \<and> prv h (slot_at h ic i) = NULL)) \<and>
     (\<forall>i \<in> set xs. i < nat (ic_max h ic))"


lemma cache_rep_facts:
  assumes "cache_rep h ic m xs"
  shows "valid h ic" "ic_cur h ic = int (List.length xs)"
    "dlist h (ic_list ic) (List.map (slot_at h ic) xs)" "0 \<le> ic_max h ic" "ic_max h ic \<le> IDX_CACHE_MAX"
    "\<And>i. i < nat (ic_max h ic) \<Longrightarrow> valid h (slot_at h ic i) \<and> slot_at h ic i \<noteq> ic_list ic \<and>
        item_data h (slot_at h ic i) = m i \<and> (m i \<noteq> NULL \<longleftrightarrow> i \<in> set xs) \<and>
        (m i = NULL \<longrightarrow> nxt h (slot_at h ic i) = NULL \<and> prv h (slot_at h ic i) = NULL)"
    "\<And>i. i \<in> set xs \<Longrightarrow> i < nat (ic_max h ic)"
  using assms unfolding cache_rep_def by blast+

lemma unat_max:
  assumes "cache_rep h ic m xs"
  shows "unat (word_of_int (ic_max h ic) :: 32 word) = nat (ic_max h ic)"
proof -
  have "0 \<le> ic_max h ic" "ic_max h ic < 2 ^ 32"
    using cache_rep_facts(4,5) [OF assms] by (simp_all add: IDX_CACHE_MAX_def)
  then show ?thesis by (simp add: unsigned_of_int take_bit_int_eq_self)
qed

lemma id_outside_iff:
  assumes "cache_rep h ic m xs"
  shows "id_outside h ic iid \<longleftrightarrow> nat (ic_max h ic) \<le> unat iid"
  by (simp add: id_outside_def word_le_nat_alt unat_max [OF assms])

lemma slot_eq:
  assumes "cache_rep h ic m xs" "unat iid < nat (ic_max h ic)"
  shows "slot h ic iid = slot_at h ic (unat iid)"
  using assms(2) by (simp add: slot_def slot_at_def unat_mod unat_max [OF assms(1)])

lemma slot_at_inj [simp]: "slot_at h ic i = slot_at h ic j \<longleftrightarrow> i = j"
  by (simp add: slot_at_def)

lemma map_slot_in [simp]: "slot_at h ic i \<in> slot_at h ic ` set xs \<longleftrightarrow> i \<in> set xs"
  by (auto simp: slot_at_def)

lemma map_remove1_slot:
  "List.map (slot_at h ic) (remove1 i xs) = remove1 (slot_at h ic i) (List.map (slot_at h ic) xs)"
  by (induction xs) auto

text \<open>Reading a slot.\<close>

lemma idx_cache_get_rep:
  assumes "cache_rep h ic m xs"
  shows "idx_cache_get ic iid h = Some (if unat iid < nat (ic_max h ic) then m (unat iid) else NULL)"
  using assms cache_rep_facts [OF assms]
  by (simp add: idx_cache_get_def id_outside_iff [OF assms] slot_eq [OF assms])

text \<open>Putting an item into a free slot: it is found there and last in the order of the walk.\<close>

lemma idx_cache_put_rep:
  assumes r: "cache_rep h ic m xs" and i: "unat iid < nat (ic_max h ic)" and free: "m (unat iid) = NULL"
    and p: "param \<noteq> NULL" and room: "int (List.length xs) + 1 < ic_max h ic"
  shows "\<exists>h'. idx_cache_put ic iid param h = Some (OK, h') \<and>
     cache_rep h' ic (m(unat iid := param)) (xs @ [unat iid]) \<and> ic_max h' = ic_max h"
proof -
  let ?i = "unat iid" and ?ns = "List.map (slot_at h ic) xs"
  let ?e = "slot_at h ic ?i"
  note f = cache_rep_facts [OF r]
  have ix: "?i \<notin> set xs" using f(6) [OF i] free by blast
  let ?h1 = "h\<lparr>item_data := (item_data h)(?e := param)\<rparr>"
  have d1: "dlist ?h1 (ic_list ic) ?ns" using f(3) by (simp add: dlist_cong [of ?h1 h])
  have ve: "valid ?h1 ?e" using f(6) [OF i] by (simp add: valid_def)
  have en: "?e \<notin> set (ic_list ic # ?ns)" using f(6) [OF i] ix by simp
  obtain q where add: "lib_list_add_tail ?e (ic_list ic) ?h1 = Some (linked q ?e (ic_list ic) ?h1)"
    and d2: "dlist (linked q ?e (ic_list ic) ?h1) (ic_list ic) (?ns @ [?e])"
    and pin: "q \<in> set (ic_list ic # ?ns)"
    by (rule lib_list_add_tail_ok [OF d1 ve en])
  let ?h2 = "linked q ?e (ic_list ic) ?h1"
  let ?h3 = "?h2\<lparr>ic_cur := (ic_cur h)(ic := ic_cur h ic + 1)\<rparr>"
  have sl: "slot_at ?h3 ic = slot_at h ic" by (simp add: slot_at_def fun_eq_iff linked_def)
  have d3: "dlist ?h3 (ic_list ic) (List.map (slot_at ?h3 ic) (xs @ [?i]))"
    using d2 by (simp add: sl dlist_cong [of ?h3 ?h2])
  have ev: "idx_cache_put ic iid param h = Some (OK, ?h3)"
    using r i free f(1,2) f(6) [OF i] room add
    by (simp add: idx_cache_put_def id_outside_iff [OF r] slot_eq [OF r] Let_def linked_def)
  have v3: "valid ?h3 = valid h" by (simp add: valid_def fun_eq_iff)
  have qn: "q \<noteq> slot_at h ic j" if "j < nat (ic_max h ic)" "m j = NULL" for j
    using that pin f(6) [OF that(1)] by auto
  have "cache_rep ?h3 ic (m(?i := param)) (xs @ [?i])"
    unfolding cache_rep_def sl v3
  proof (intro conjI allI ballI impI)
    show "dlist ?h3 (ic_list ic) (List.map (slot_at h ic) (xs @ [?i]))" using d3 by (simp only: sl)
    fix j assume j: "j < nat (ic_max ?h3 ic)" "(m(?i := param)) j = NULL"
    have "j \<noteq> ?i" "m j = NULL" using j(2) p by (auto split: if_splits)
    moreover have "j < nat (ic_max h ic)" using j(1) by (simp add: linked_def)
    ultimately show "nxt ?h3 (slot_at h ic j) = NULL" "prv ?h3 (slot_at h ic j) = NULL"
      using qn [of j] f(6) [of j] f(6) [OF i] by (auto simp: linked_def)
  qed (use f p i in \<open>auto simp: linked_def\<close>)
  moreover have "ic_max ?h3 = ic_max h" by (simp add: linked_def)
  ultimately show ?thesis using ev by blast
qed


lemma idx_cache_put_busy:
  assumes r: "cache_rep h ic m xs" and i: "unat iid < nat (ic_max h ic)" and busy: "m (unat iid) \<noteq> NULL"
  shows "idx_cache_put ic iid param h = Some (ERROR, h)"
  using r i busy cache_rep_facts(1) [OF r] cache_rep_facts(6) [OF r i]
  by (simp add: idx_cache_put_def id_outside_iff [OF r] slot_eq [OF r] Let_def)

text \<open>
  The assertion \<open>cur < max\<close> comes after the increment: the put that would fill the cache aborts, so
  a cache of \<open>max\<close> slots never holds \<open>max\<close> items.
\<close>

lemma idx_cache_put_full:
  assumes r: "cache_rep h ic m xs" and i: "unat iid < nat (ic_max h ic)" and free: "m (unat iid) = NULL"
    and last: "int (List.length xs) + 1 = ic_max h ic"
  shows "idx_cache_put ic iid param h = None"
proof -
  let ?e = "slot_at h ic (unat iid)" and ?ns = "List.map (slot_at h ic) xs"
  note f = cache_rep_facts [OF r]
  let ?h1 = "h\<lparr>item_data := (item_data h)(?e := param)\<rparr>"
  have d1: "dlist ?h1 (ic_list ic) ?ns" using f(3) by (simp add: dlist_cong [of ?h1 h])
  have ve: "valid ?h1 ?e" using f(6) [OF i] by (simp add: valid_def)
  have en: "?e \<notin> set (ic_list ic # ?ns)" using f(6) [OF i] free by simp
  obtain q where add: "lib_list_add_tail ?e (ic_list ic) ?h1 = Some (linked q ?e (ic_list ic) ?h1)"
    by (rule lib_list_add_tail_ok [OF d1 ve en])
  show ?thesis
    using r i free f(1,2) f(6) [OF i] last add
    by (simp add: idx_cache_put_def id_outside_iff [OF r] slot_eq [OF r] Let_def linked_def)
qed

text \<open>Deleting an item: gone from its slot and the list, handed to the call back.\<close>

lemma idx_cache_delete_rep:
  assumes r: "cache_rep h ic m xs" and i: "unat iid < nat (ic_max h ic)" and busy: "m (unat iid) \<noteq> NULL"
  shows "\<exists>h'. cache_rep h' ic (m(unat iid := NULL)) (remove1 (unat iid) xs) \<and>
     idx_cache_delete del ic iid h =
       (if fun_on_delete h ic = 0 then Some h' else del (fun_on_delete h ic) (ic_p1 h ic) (m (unat iid)) h')"
proof -
  let ?i = "unat iid" and ?ns = "List.map (slot_at h ic) xs"
  let ?e = "slot_at h ic ?i"
  note f = cache_rep_facts [OF r]
  have ix: "?i \<in> set xs" using f(6) [OF i] busy by blast
  let ?h1 = "h\<lparr>item_data := (item_data h)(?e := NULL)\<rparr>"
  have d1: "dlist ?h1 (ic_list ic) ?ns" using f(3) by (simp add: dlist_cong [of ?h1 h])
  have en: "?e \<in> set ?ns" using ix by simp
  obtain p n where ev1: "lib_list_del ?e ?h1 = Some (unlinked p ?e n ?h1)"
    and d2: "dlist (unlinked p ?e n ?h1) (ic_list ic) (remove1 ?e ?ns)"
    and pn: "p \<in> set (ic_list ic # ?ns)" "n \<in> set (ic_list ic # ?ns)" "p \<noteq> ?e" "n \<noteq> ?e"
    by (rule lib_list_del_dlist [OF d1 en])
  let ?h2 = "unlinked p ?e n ?h1"
  let ?h3 = "?h2\<lparr>ic_cur := (ic_cur h)(ic := ic_cur h ic - 1)\<rparr>"
  have sl: "slot_at ?h3 ic = slot_at h ic" by (simp add: slot_at_def fun_eq_iff unlinked_def)
  have v3: "valid ?h3 = valid h" by (simp add: valid_def fun_eq_iff)
  have dx: "distinct xs" using f(3) by (auto simp: dlist_def distinct_map)
  have rm: "remove1 ?e ?ns = List.map (slot_at h ic) (remove1 ?i xs)"
    by (rule map_remove1_slot [symmetric])
  have off: "nxt ?h3 ?e = NULL" "prv ?h3 ?e = NULL" using pn by (simp_all add: unlinked_def)
  have qn: "p \<noteq> slot_at h ic j \<and> n \<noteq> slot_at h ic j" if "j < nat (ic_max h ic)" "m j = NULL" for j
    using that pn f(6) [OF that(1)] by auto
  have "cache_rep ?h3 ic (m(?i := NULL)) (remove1 ?i xs)"
    unfolding cache_rep_def sl v3
  proof (intro conjI allI ballI impI)
    show "dlist ?h3 (ic_list ic) (List.map (slot_at h ic) (remove1 ?i xs))"
      using d2 rm by (simp add: dlist_cong [of ?h3 ?h2])
    have "Suc (List.length (remove1 ?i xs)) = List.length xs"
      using ix length_pos_if_in_set [OF ix] unfolding length_remove1 by simp
    then show "ic_cur ?h3 ic = int (List.length (remove1 ?i xs))" using f(2) by simp
    fix j assume j: "j < nat (ic_max ?h3 ic)" "(m(?i := NULL)) j = NULL"
    have jm: "j < nat (ic_max h ic)" using j(1) by (simp add: unlinked_def)
    show "nxt ?h3 (slot_at h ic j) = NULL" "prv ?h3 (slot_at h ic j) = NULL"
    proof (atomize (full), cases "j = ?i")
      case False
      then have "m j = NULL" using j(2) by simp
      then show "nxt ?h3 (slot_at h ic j) = NULL \<and> prv ?h3 (slot_at h ic j) = NULL"
        using False qn [OF jm] f(6) [OF jm] by (simp add: unlinked_def)
    qed (use off in simp)
  qed (use f i busy off dx in \<open>auto simp: unlinked_def dest: notin_set_remove1\<close>)
  moreover have "idx_cache_delete del ic iid h = (if fun_on_delete h ic = 0 then Some ?h3
      else del (fun_on_delete h ic) (ic_p1 h ic) (m ?i) ?h3)"
    using r i busy f(1) f(6) [OF i] ev1
    by (simp add: idx_cache_delete_def id_outside_iff [OF r] slot_eq [OF r] Let_def unlinked_def)
  ultimately show ?thesis by blast
qed

text \<open>
  Deleting an empty slot still counts down: the counter then disagrees with the contents, and on an
  empty cache it is negative.
\<close>

lemma idx_cache_delete_empty:
  assumes r: "cache_rep h ic m xs" and i: "unat iid < nat (ic_max h ic)" and free: "m (unat iid) = NULL"
  shows "\<exists>h'. idx_cache_delete del ic iid h = Some h' \<and>
     idx_cache_get_count ic h' = Some (int (List.length xs) - 1) \<and>
     dlist h' (ic_list ic) (List.map (slot_at h ic) xs)"
proof -
  let ?e = "slot_at h ic (unat iid)"
  note f = cache_rep_facts [OF r]
  let ?h1 = "h\<lparr>item_data := (item_data h)(?e := NULL)\<rparr>"
  let ?h3 = "?h1\<lparr>ic_cur := (ic_cur h)(ic := ic_cur h ic - 1)\<rparr>"
  have "lib_list_del ?e ?h1 = Some ?h1"
    by (rule lib_list_del_off) (use f(6) [OF i] free in \<open>auto simp: valid_def\<close>)
  then have "idx_cache_delete del ic iid h = Some ?h3"
    using r i free f(1) f(6) [OF i]
    by (simp add: idx_cache_delete_def id_outside_iff [OF r] slot_eq [OF r] Let_def)
  moreover have "idx_cache_get_count ic ?h3 = Some (int (List.length xs) - 1)"
    using f(1,2) by (simp add: idx_cache_get_count_def valid_def)
  moreover have "dlist ?h3 (ic_list ic) (List.map (slot_at h ic) xs)"
    using f(3) by (simp add: dlist_cong [of ?h3 h])
  ultimately show ?thesis by blast
qed

text \<open>The walk with a test and \<open>once\<close>: the job is done for the first item that passes, and no other.\<close>

fun first_match :: "('b \<Rightarrow> bool) \<Rightarrow> 'b list \<Rightarrow> 'b list" where
  "first_match P [] = []"
| "first_match P (x # xs) = (if P x then [x] else first_match P xs)"

lemma idx_cache_walk_once:
  assumes r: "cache_rep h ic m xs" and once: "once \<noteq> 0"
  shows "idx_cache_walk ic (Some (\<lambda>p h l. Some (if P p then 1 else 0, h, l)))
       (Some (\<lambda>p h l. Some (0, h, l @ [p]))) once h l =
     Some (h, l @ first_match P (List.map m xs))"
proof -
  note f = cache_rep_facts [OF r]
  let ?c = "Some (\<lambda>p h l. Some (if P p then 1 else 0 :: int, h, l))"
  let ?j = "Some (\<lambda>p h l. Some (0 :: int, h, l @ [p]))"
  let ?b = "walk_item ?c ?j once"
  have loop: "lib_list_for_each ?b (ic_list ic) h (l, 1) = run_body ?b (List.map (slot_at h ic) xs) h (l, 1)"
    by (rule for_each_run [OF _ f(3)]) (auto simp: walk_item_def split: if_splits)
  have run: "\<exists>fo. run_body ?b (List.map (slot_at h ic) ys) h (l, f0) =
      Some (h, (l @ first_match P (List.map m ys), fo))" if "set ys \<subseteq> set xs" for ys f0
    using that
  proof (induction ys arbitrary: f0)
    case (Cons y ys)
    have "item_data h (slot_at h ic y) = m y" using f(6,7) Cons.prems by auto
    then show ?case using Cons once by (simp add: walk_item_def)
  qed simp
  obtain fo where "run_body ?b (List.map (slot_at h ic) xs) h (l, 1) =
      Some (h, (l @ first_match P (List.map m xs), fo))"
    using run [of xs 1] by auto
  then show ?thesis using f(1) loop by (simp add: idx_cache_walk_def)
qed

section \<open>Properties\<close>

definition cache_demo :: idx_caches where
  "cache_demo = \<lparr>live = (\<lambda>p. 1 \<le> p \<and> p \<le> 4), brk = 5, oom = [],
     nxt = (\<lambda>p. if p = 2 then 2 else 0), prv = (\<lambda>p. if p = 2 then 2 else 0),
     ic_name = (\<lambda>_. ''users''), ic_max = (\<lambda>_. 2), ic_cur = (\<lambda>_. 0), fun_on_delete = (\<lambda>_. 0),
     ic_p1 = (\<lambda>_. 0), ic_ary = (\<lambda>_. 3), item_data = (\<lambda>_. 0), item_ref = (\<lambda>_. 0)\<rparr>"

lemma cache_demo_rep: "cache_rep cache_demo 1 (\<lambda>_. NULL) []"
  by (auto simp: cache_rep_def cache_demo_def valid_def dlist_def slot_at_def IDX_CACHE_MAX_def)

text \<open>An item put under a free identifier is found there, and deleting it hands it to the owner's
  function once and leaves the cache as it was before.\<close>

theorem idx_cache_put_get_delete:
  assumes r: "cache_rep h ic m xs" and i: "unat iid < nat (ic_max h ic)" and free: "m (unat iid) = NULL"
    and p: "param \<noteq> NULL" and room: "int (List.length xs) + 1 < ic_max h ic"
  shows "\<exists>h' h''. idx_cache_put ic iid param h = Some (OK, h') \<and> idx_cache_get ic iid h' = Some param \<and>
    cache_rep h'' ic m xs \<and>
    idx_cache_delete del ic iid h' =
      (if fun_on_delete h' ic = 0 then Some h'' else del (fun_on_delete h' ic) (ic_p1 h' ic) param h'')"
proof -
  let ?i = "unat iid"
  obtain h' where h': "idx_cache_put ic iid param h = Some (OK, h')"
    "cache_rep h' ic (m(?i := param)) (xs @ [?i])" "ic_max h' = ic_max h"
    using idx_cache_put_rep [OF r i free p room] by blast
  have i': "?i < nat (ic_max h' ic)" using i h'(3) by simp
  have "?i \<notin> set xs" using cache_rep_facts(6) [OF r i] free by blast
  then have rm: "remove1 ?i (xs @ [?i]) = xs" by (simp add: remove1_append)
  have m: "(m(?i := param, ?i := NULL)) = m" using free by auto
  have busy: "(m(?i := param)) ?i \<noteq> NULL" using p by simp
  obtain h'' where "cache_rep h'' ic m xs" "idx_cache_delete del ic iid h' =
      (if fun_on_delete h' ic = 0 then Some h'' else del (fun_on_delete h' ic) (ic_p1 h' ic) param h'')"
    using idx_cache_delete_rep [OF h'(2) i' busy, of del] unfolding rm m by auto
  moreover have "idx_cache_get ic iid h' = Some param" using idx_cache_get_rep [OF h'(2), of iid] i' by simp
  ultimately show ?thesis using h'(1) by blast
qed

theorem idx_cache_put_get_delete_witness:
  "\<exists>h' h''. idx_cache_put 1 0 77 cache_demo = Some (OK, h') \<and> idx_cache_get 1 0 h' = Some 77 \<and>
    cache_rep h'' 1 (\<lambda>_. NULL) [] \<and>
    idx_cache_delete (\<lambda>_ _ _ h. Some h) 1 0 h' =
      (if fun_on_delete h' 1 = 0 then Some h'' else Some h'')"
  using idx_cache_put_get_delete [OF cache_demo_rep, of 0 77 "\<lambda>_ _ _ h. Some h"]
  by (simp add: cache_demo_def)

text \<open>A put under an occupied identifier is refused and leaves the cache unchanged, and the put that
  would occupy the last free slot aborts on the assertion behind it.\<close>

theorem idx_cache_put_refused:
  assumes "cache_rep h ic m xs" "unat iid < nat (ic_max h ic)"
  shows "(m (unat iid) \<noteq> NULL \<longrightarrow> idx_cache_put ic iid param h = Some (ERROR, h)) \<and>
    (m (unat iid) = NULL \<and> int (List.length xs) + 1 = ic_max h ic \<longrightarrow> idx_cache_put ic iid param h = None)"
  using idx_cache_put_busy [OF assms] idx_cache_put_full [OF assms] by blast

definition cache_demo1 :: idx_caches where
  "cache_demo1 = cache_demo\<lparr>ic_max := (\<lambda>_. 1)\<rparr>"

lemma cache_demo1_rep: "cache_rep cache_demo1 1 (\<lambda>_. NULL) []"
  by (auto simp: cache_rep_def cache_demo1_def cache_demo_def valid_def dlist_def slot_at_def IDX_CACHE_MAX_def)

theorem idx_cache_put_refused_witness:
  "idx_cache_put 1 0 77 cache_demo1 = None"
  using idx_cache_put_refused [OF cache_demo1_rep, of 0 77] by (simp add: cache_demo1_def)

text \<open>Deleting an identifier that holds nothing still counts down, so that the count the cache reports
  is one less than the number of its items; the items themselves stay.\<close>

theorem idx_cache_count_drifts:
  assumes "cache_rep h ic m xs" "unat iid < nat (ic_max h ic)" "m (unat iid) = NULL"
  shows "\<exists>h'. idx_cache_delete del ic iid h = Some h' \<and>
     idx_cache_get_count ic h' = Some (int (List.length xs) - 1) \<and>
     dlist h' (ic_list ic) (List.map (slot_at h ic) xs)"
  by (rule idx_cache_delete_empty [OF assms])

theorem idx_cache_count_drifts_witness:
  "\<exists>h'. idx_cache_delete (\<lambda>_ _ _ h. Some h) 1 0 cache_demo = Some h' \<and>
     idx_cache_get_count 1 h' = Some (- 1) \<and> dlist h' 2 []"
  using idx_cache_count_drifts [OF cache_demo_rep, of 0 "\<lambda>_ _ _ h. Some h"]
  by (simp add: cache_demo_def numeral_2_eq_2)

end
