(* ===== verification/LibTimer.thy ===== *)
theory LibTimer imports LibList begin

text \<open>
  \<open>Server/Lib/lib-timer.c\<close>: the process-wide list of timers. A timer keeps the time left in a 32-bit
  field; a tick of the clock takes the elapsed time off every running timer and calls the ones that
  have run out. The lemmas describe starting, stopping and one tick, and show what becomes of the
  timers that were started to run for ever.
\<close>

section \<open>State\<close>

record timers = heap +
  timer_list :: ptr
  expires :: "ptr \<Rightarrow> 32 word"
  timeout_fun :: "ptr \<Rightarrow> nat"
  timeout_param :: "ptr \<Rightarrow> ptr"
  delete_fun :: "ptr \<Rightarrow> nat"
  delete_param :: "ptr \<Rightarrow> ptr"

type_synonym 'w call_back = "nat \<Rightarrow> ptr \<Rightarrow> 'w \<Rightarrow> 'w option"

section \<open>The operations\<close>

definition timer_init ::
  "ptr \<Rightarrow> nat \<Rightarrow> ptr \<Rightarrow> nat \<Rightarrow> ptr \<Rightarrow> 'a timers_scheme \<Rightarrow> (int \<times> 'a timers_scheme) option"
where
  "timer_init tp t_fun t_p d_fun d_p h = do {
     h \<leftarrow> INIT_LIB_LIST tp h;
     Some (OK, h\<lparr>expires := (expires h)(tp := 0), timeout_fun := (timeout_fun h)(tp := t_fun),
                 timeout_param := (timeout_param h)(tp := t_p), delete_fun := (delete_fun h)(tp := d_fun),
                 delete_param := (delete_param h)(tp := d_p)\<rparr>) }"

definition has_timer :: "ptr \<Rightarrow> 'a timers_scheme \<Rightarrow> int option" where
  "has_timer tp h = do {
     (_, ret) \<leftarrow> lib_list_for_each
       (\<lambda>tp1 h ret. if tp1 = tp then Some (h, 1, True) else Some (h, ret, False)) (timer_list h) h (0 :: int);
     Some ret }"

text \<open>
  \<open>unsigned long\<close> has 64 bits on the server: the marker \<open>0 - 1\<close> is cut to 32 bits when it is stored,
  and a stored value is extended with zeros when it is compared.
\<close>

definition FOREVER :: "64 word" where
  "FOREVER = 0 - 1"

definition timer_start :: "ptr \<Rightarrow> 64 word \<Rightarrow> 'a timers_scheme \<Rightarrow> (int \<times> 'a timers_scheme) option" where
  "timer_start tp time h = do {
     has \<leftarrow> has_timer tp h;
     if has \<noteq> 0 then Some (ERROR, h)
     else do {
       _ \<leftarrow> lib_assert (valid h tp);
       let h = h\<lparr>expires := (expires h)(tp := if time = 0 then ucast FOREVER else ucast time)\<rparr>;
       h \<leftarrow> lib_list_add tp (timer_list h) h;
       Some (OK, h) } }"

definition timer_stop :: "ptr \<Rightarrow> 'a timers_scheme \<Rightarrow> (int \<times> 'a timers_scheme) option" where
  "timer_stop tp h = do {
     has \<leftarrow> has_timer tp h;
     if has = 0 then Some (ERROR, h)
     else do {
       h \<leftarrow> lib_list_del tp h;
       Some (OK, h\<lparr>expires := (expires h)(tp := 0)\<rparr>) } }"

definition timer_reset :: "ptr \<Rightarrow> 64 word \<Rightarrow> 'a timers_scheme \<Rightarrow> (int \<times> 'a timers_scheme) option" where
  "timer_reset tp time h = do {
     (_, h) \<leftarrow> timer_stop tp h;
     (_, h) \<leftarrow> timer_start tp time h;
     Some (OK, h) }"

text \<open>
  One pass over the list. The call back may start and stop timers itself, and must not free the
  following node, which the loop has already read.
\<close>

definition timeout_body ::
  "'a timers_scheme call_back \<Rightarrow> 64 word \<Rightarrow> ('a timers_scheme, unit) loop_body"
where
  "timeout_body call time tp h l =
     (if (ucast (expires h tp) :: 64 word) = FOREVER then Some (h, l, False)
      else if time < ucast (expires h tp)
      then Some (h\<lparr>expires := (expires h)(tp := expires h tp - ucast time)\<rparr>, l, False)
      else do {
        h \<leftarrow> lib_list_del tp h;
        let h = h\<lparr>expires := (expires h)(tp := 0)\<rparr>;
        h \<leftarrow> (if timeout_fun h tp \<noteq> 0 then call (timeout_fun h tp) (timeout_param h tp) h else Some h);
        Some (h, l, False) })"

definition timer_timeout_callback ::
  "'a timers_scheme call_back \<Rightarrow> 64 word \<Rightarrow> 'a timers_scheme \<Rightarrow> (int \<times> 'a timers_scheme) option"
where
  "timer_timeout_callback call time h = do {
     (h, _) \<leftarrow> lib_list_for_each_safe (timeout_body call time) (timer_list h) h ();
     Some (OK, h) }"

definition delete_body ::
  "'a timers_scheme call_back \<Rightarrow> 64 word \<Rightarrow> ('a timers_scheme, unit) loop_body"
where
  "delete_body call time tp h l =
     (if (ucast (expires h tp) :: 64 word) = FOREVER then Some (h, l, False)
      else if time < ucast (expires h tp)
      then Some (h\<lparr>expires := (expires h)(tp := expires h tp - ucast time)\<rparr>, l, False)
      else do {
        h \<leftarrow> lib_list_del tp h;
        let h = h\<lparr>expires := (expires h)(tp := 0)\<rparr>;
        h \<leftarrow> (if delete_fun h tp \<noteq> 0 then call (delete_fun h tp) (delete_param h tp) h else Some h);
        Some (h, l, False) })"

definition timer_delete_callback ::
  "'a timers_scheme call_back \<Rightarrow> 64 word \<Rightarrow> 'a timers_scheme \<Rightarrow> (int \<times> 'a timers_scheme) option"
where
  "timer_delete_callback call time h = do {
     (h, _) \<leftarrow> lib_list_for_each_safe (delete_body call time) (timer_list h) h ();
     Some (OK, h) }"

text \<open>The lines \<open>show_timer\<close> prints: the timer's address and the time left.\<close>

definition show_timer :: "'a timers_scheme \<Rightarrow> (ptr \<times> 32 word) list option" where
  "show_timer h = do {
     (_, rows) \<leftarrow> lib_list_for_each (\<lambda>tp h rows. Some (h, rows @ [(tp, expires h tp)], False)) (timer_list h) h [];
     Some rows }"

section \<open>Starting and stopping\<close>

lemma timers_linked [simp]:
  "timer_list (linked p x n h) = timer_list h" "expires (linked p x n h) = expires h"
  "timer_list (unlinked p x n h) = timer_list h" "expires (unlinked p x n h) = expires h"
  "timeout_fun (unlinked p x n h) = timeout_fun h" "timeout_param (unlinked p x n h) = timeout_param h"
  "delete_fun (unlinked p x n h) = delete_fun h" "delete_param (unlinked p x n h) = delete_param h"
  by (simp_all add: linked_def unlinked_def)

lemma has_timer_eq:
  assumes "dlist h (timer_list h) xs"
  shows "has_timer tp h = Some (if tp \<in> set xs then 1 else 0)"
proof -
  let ?b = "\<lambda>tp1 h ret. if tp1 = tp then Some (h, 1, True) else Some (h, ret, False)"
  have "lib_list_for_each ?b (timer_list h) h (0 :: int) = run_body ?b xs h 0"
    by (rule for_each_run [OF _ assms]) (auto split: if_splits)
  moreover have "run_body ?b xs h (0 :: int) = Some (h, if tp \<in> set xs then 1 else 0)"
    by (induction xs) auto
  ultimately show ?thesis by (simp add: has_timer_def)
qed

lemma timer_start_ok:
  assumes d: "dlist h (timer_list h) xs" and v: "valid h tp" and new: "tp \<notin> set (timer_list h # xs)"
  shows "\<exists>h'. timer_start tp time h = Some (OK, h') \<and> dlist h' (timer_list h') (tp # xs) \<and>
     expires h' = (expires h)(tp := if time = 0 then - 1 else ucast time)"
proof -
  let ?e = "if time = 0 then ucast FOREVER else ucast time :: 32 word"
  let ?h1 = "h\<lparr>expires := (expires h)(tp := ?e)\<rparr>"
  have d1: "dlist ?h1 (timer_list h) xs" using d by (simp add: dlist_cong [of ?h1 h])
  have v1: "valid ?h1 tp" using v by (simp add: valid_def)
  obtain n where "lib_list_add tp (timer_list h) ?h1 = Some (linked (timer_list h) tp n ?h1)"
    "dlist (linked (timer_list h) tp n ?h1) (timer_list h) (tp # xs)"
    by (rule lib_list_add_ok [OF d1 v1 new])
  moreover have "ucast FOREVER = (- 1 :: 32 word)"
    by (rule bit_word_eqI) (simp add: FOREVER_def bit_simps)
  ultimately show ?thesis
    using new v has_timer_eq [OF d, of tp] by (auto simp: timer_start_def Let_def)
qed

lemma timer_start_twice:
  "dlist h (timer_list h) xs \<Longrightarrow> tp \<in> set xs \<Longrightarrow> timer_start tp time h = Some (ERROR, h)"
  by (simp add: timer_start_def has_timer_eq)

lemma timer_stop_ok:
  assumes d: "dlist h (timer_list h) xs" and tp: "tp \<in> set xs"
  shows "\<exists>h'. timer_stop tp h = Some (OK, h') \<and> dlist h' (timer_list h') (remove1 tp xs) \<and>
     expires h' tp = 0"
proof -
  obtain p n where ev: "lib_list_del tp h = Some (unlinked p tp n h)"
    and d': "dlist (unlinked p tp n h) (timer_list h) (remove1 tp xs)"
    by (rule lib_list_del_dlist [OF d tp]) blast
  let ?h = "(unlinked p tp n h)\<lparr>expires := (expires h)(tp := 0)\<rparr>"
  have "dlist ?h (timer_list h) (remove1 tp xs)"
    using d' by (simp add: dlist_cong [of ?h "unlinked p tp n h"])
  then show ?thesis using ev has_timer_eq [OF d, of tp] tp
    by (intro exI [of _ ?h]) (simp add: timer_stop_def)
qed

section \<open>One tick\<close>

text \<open>
  The call backs are recorded in the order they are made: \<open>fired\<close> is the log of a run.
\<close>

record timer_run = timers +
  fired :: "(nat \<times> ptr) list"

definition log_fire :: "timer_run call_back" where
  "log_fire f p h = Some (h\<lparr>fired := fired h @ [(f, p)]\<rparr>)"

definition running :: "64 word \<Rightarrow> timer_run \<Rightarrow> ptr \<Rightarrow> bool" where
  "running time h tp \<longleftrightarrow> time < ucast (expires h tp)"

text \<open>The 64-bit marker is never seen in a 32-bit field: no timer is exempt from the tick.\<close>

lemma uint_widen: "uint (ucast (e :: 32 word) :: 64 word) = uint e"
proof -
  have "uint e < 2 ^ 64" using uint_lt2p [of e] by simp
  then have "take_bit 64 (uint e) = uint e" by (intro take_bit_int_eq_self) simp_all
  then show ?thesis by (simp add: unsigned_ucast_eq)
qed

lemma never_forever: "(ucast (e :: 32 word) :: 64 word) \<noteq> FOREVER"
proof
  assume a: "(ucast e :: 64 word) = FOREVER"
  have "uint (FOREVER :: 64 word) = 2 ^ 64 - 1"
    by (simp add: FOREVER_def unsigned_minus_1_eq_mask mask_eq_exp_minus_1)
  then have "uint e = 2 ^ 64 - 1" using uint_widen [of e] unfolding a by simp
  then show False using uint_lt2p [of e] by simp
qed

definition fires :: "64 word \<Rightarrow> timer_run \<Rightarrow> ptr \<Rightarrow> (nat \<times> ptr) list" where
  "fires time h tp =
     (if running time h tp \<or> timeout_fun h tp = 0 then [] else [(timeout_fun h tp, timeout_param h tp)])"

definition left :: "64 word \<Rightarrow> timer_run \<Rightarrow> ptr \<Rightarrow> 32 word" where
  "left time h tp = (if running time h tp then expires h tp - ucast time else 0)"

definition same_timers :: "timer_run \<Rightarrow> timer_run \<Rightarrow> bool" where
  "same_timers h' h \<longleftrightarrow> timer_list h' = timer_list h \<and> timeout_fun h' = timeout_fun h \<and>
     timeout_param h' = timeout_param h \<and> live h' = live h"

lemma timeout_body_step:
  assumes d: "dlist h (timer_list h) (us @ x # ys)"
  shows "\<exists>h'. timeout_body log_fire time x h l = Some (h', l, False) \<and> same_timers h' h \<and>
     dlist h' (timer_list h) ((us @ (if running time h x then [x] else [])) @ ys) \<and>
     expires h' = (expires h)(x := left time h x) \<and> fired h' = fired h @ fires time h x"
proof (cases "running time h x")
  case True
  let ?h = "h\<lparr>expires := (expires h)(x := expires h x - ucast time)\<rparr>"
  have "timeout_body log_fire time x h l = Some (?h, l, False)"
    using True by (simp add: timeout_body_def never_forever running_def)
  moreover have "dlist ?h (timer_list h) (us @ x # ys)" using d by (simp add: dlist_cong [of ?h h])
  ultimately show ?thesis
    using True by (intro exI [of _ ?h]) (simp add: same_timers_def fires_def left_def)
next
  case False
  have x: "x \<in> set (us @ x # ys)" by simp
  obtain p n where ev: "lib_list_del x h = Some (unlinked p x n h)"
    and d1: "dlist (unlinked p x n h) (timer_list h) (remove1 x (us @ x # ys))"
    by (rule lib_list_del_dlist [OF d x]) blast
  have rm: "remove1 x (us @ x # ys) = us @ ys"
    by (rule remove1_split) (use d in \<open>simp add: dlist_def\<close>)
  let ?h1 = "(unlinked p x n h)\<lparr>expires := (expires h)(x := 0)\<rparr>"
  let ?h = "?h1\<lparr>fired := fired h @ fires time h x\<rparr>"
  have fu: "fired (unlinked p x n h) = fired h" by (simp add: unlinked_def)
  have "timeout_body log_fire time x h l = Some (?h, l, False)"
    using False ev fu by (simp add: timeout_body_def never_forever running_def Let_def log_fire_def fires_def)
  moreover have "dlist ?h (timer_list h) (us @ ys)"
    using d1 unfolding rm by (simp add: dlist_cong [of ?h "unlinked p x n h"])
  ultimately show ?thesis
    using False by (intro exI [of _ ?h]) (simp add: same_timers_def left_def)
qed

lemma run_timeout:
  "dlist h (timer_list h) (us @ xs) \<Longrightarrow>
   \<exists>h'. run_body (timeout_body log_fire time) xs h () = Some (h', ()) \<and> same_timers h' h \<and>
     dlist h' (timer_list h) (us @ List.filter (running time h) xs) \<and>
     fired h' = fired h @ concat (List.map (fires time h) xs) \<and>
     (\<forall>x. expires h' x = (if x \<in> set xs then left time h x else expires h x))"
proof (induction xs arbitrary: h us)
  case Nil
  then show ?case by (simp add: same_timers_def)
next
  case (Cons x xs)
  let ?us = "us @ (if running time h x then [x] else [])"
  obtain h1 where h1: "timeout_body log_fire time x h () = Some (h1, (), False)" "same_timers h1 h"
    "dlist h1 (timer_list h) (?us @ xs)" "expires h1 = (expires h)(x := left time h x)"
    "fired h1 = fired h @ fires time h x"
    using timeout_body_step [OF Cons.prems] by blast
  have tl: "timer_list h1 = timer_list h" using h1(2) by (simp add: same_timers_def)
  obtain h' where h': "run_body (timeout_body log_fire time) xs h1 () = Some (h', ())" "same_timers h' h1"
    "dlist h' (timer_list h) (?us @ List.filter (running time h1) xs)"
    "fired h' = fired h1 @ concat (List.map (fires time h1) xs)"
    "\<forall>x. expires h' x = (if x \<in> set xs then left time h1 x else expires h1 x)"
    using Cons.IH [of h1 ?us] h1(3) tl by auto
  have x: "x \<notin> set xs" using Cons.prems by (auto simp: dlist_def)
  have same: "running time h1 y = running time h y" "fires time h1 y = fires time h y"
    "left time h1 y = left time h y" if "y \<noteq> x" for y
    using that h1(2,4) by (simp_all add: running_def fires_def left_def same_timers_def)
  have ne: "\<And>y. y \<in> set xs \<Longrightarrow> y \<noteq> x" using x by blast
  have fl: "List.filter (running time h1) xs = List.filter (running time h) xs"
    by (intro filter_cong refl same ne)
  have mp: "List.map (fires time h1) xs = List.map (fires time h) xs"
    by (intro map_cong refl same ne)
  have "\<forall>z. expires h' z = (if z \<in> set (x # xs) then left time h z else expires h z)"
    using h'(5) h1(4) same(3) ne by (metis fun_upd_apply set_ConsD list.set_intros)
  moreover have "dlist h' (timer_list h) (us @ List.filter (running time h) (x # xs))"
    using h'(3) unfolding fl by (simp split: if_splits)
  moreover have "fired h' = fired h @ concat (List.map (fires time h) (x # xs))"
    using h'(4) unfolding mp h1(5) by simp
  moreover have "run_body (timeout_body log_fire time) (x # xs) h () = Some (h', ())"
    using h1(1) h'(1) by simp
  moreover have "same_timers h' h" using h1(2) h'(2) by (simp add: same_timers_def)
  ultimately show ?case by blast
qed

lemma timer_tick:
  assumes d: "dlist h (timer_list h) xs"
  shows "\<exists>h'. timer_timeout_callback log_fire time h = Some (OK, h') \<and>
     dlist h' (timer_list h') (List.filter (running time h) xs) \<and>
     fired h' = fired h @ concat (List.map (fires time h) xs) \<and>
     (\<forall>x. expires h' x = (if x \<in> set xs then left time h x else expires h x))"
proof -
  let ?P = "\<lambda>ys h' (l :: unit). timer_list h' = timer_list h \<and> (\<exists>us. dlist h' (timer_list h) (us @ ys))"
  have "lib_list_for_each_safe (timeout_body log_fire time) (timer_list h) h () =
      run_body (timeout_body log_fire time) xs h ()"
  proof (rule for_each_safe_run [where P = ?P, OF _ _ d])
    fix x ys h1 l h2 l'
    assume P: "?P (x # ys) h1 l" and b: "timeout_body log_fire time x h1 l = Some (h2, l', False)"
    then obtain us where d1: "dlist h1 (timer_list h1) (us @ x # ys)" by auto
    obtain h3 where h3: "timeout_body log_fire time x h1 l = Some (h3, l, False)" "same_timers h3 h1"
      "dlist h3 (timer_list h1) ((us @ (if running time h1 x then [x] else [])) @ ys)"
      using timeout_body_step [OF d1, of time l] by blast
    then have "h3 = h2" using b by simp
    then have "timer_list h2 = timer_list h" "timer_list h1 = timer_list h"
      using P h3(2) by (simp_all add: same_timers_def)
    then show "?P ys h2 l'" using h3(3) \<open>h3 = h2\<close> by metis
  next
    fix ys h1 l assume "?P ys h1 l"
    then show "timer_list h \<notin> set ys \<and> fwd h1 (ys @ [timer_list h])"
      using dlist_fwd_from by (auto simp: dlist_def)
  next
    show "?P xs h ()" using d by (auto intro: exI [of _ "[]"])
  qed
  moreover have "dlist h (timer_list h) ([] @ xs)" using d by simp
  ultimately show ?thesis
    using run_timeout [of h "[]" xs time] by (auto simp: timer_timeout_callback_def same_timers_def)
qed

text \<open>
  A timer started with time \<open>0\<close>, which the code means to run for ever, is stored as \<open>2 ^ 32 - 1\<close> and
  counts down like any other.
\<close>

lemma forever_runs_down:
  assumes d: "dlist h (timer_list h) xs" and x: "x \<in> set xs" and e: "expires h x = - 1" and t: "0 < time"
  shows "\<exists>h'. timer_timeout_callback log_fire time h = Some (OK, h') \<and> expires h' x \<noteq> - 1"
proof -
  obtain h' where h': "timer_timeout_callback log_fire time h = Some (OK, h')"
    "\<forall>x. expires h' x = (if x \<in> set xs then left time h x else expires h x)"
    using timer_tick [OF d, of time] by blast
  have "left time h x \<noteq> - 1"
  proof (cases "running time h x")
    case True
    have "(ucast time :: 32 word) \<noteq> 0"
    proof
      assume z: "(ucast time :: 32 word) = 0"
      have "uint time < uint (ucast (expires h x) :: 64 word)" using True by (simp add: running_def word_less_def)
      also have "uint (ucast (expires h x) :: 64 word) < 2 ^ 32"
        using uint_lt2p [of "expires h x"] by (simp add: uint_widen)
      finally have lt: "uint time < 2 ^ 32" .
      have "uint (ucast time :: 32 word) = uint time"
        using lt by (simp add: unsigned_ucast_eq take_bit_int_eq_self_iff)
      then show False using z t by (simp add: word_less_def)
    qed
    then show ?thesis using True e by (simp add: left_def)
  qed (simp add: left_def)
  then show ?thesis using h' x by auto
qed

section \<open>Properties\<close>

definition timer_demo :: timer_run where
  "timer_demo = \<lparr>live = (\<lambda>p. 1 \<le> p \<and> p \<le> 3), brk = 4, oom = [],
     nxt = (\<lambda>p. if p = 3 then 1 else p + 1), prv = (\<lambda>p. if p = 1 then 3 else p - 1),
     timer_list = 1, expires = (\<lambda>p. if p = 2 then 5 else - 1), timeout_fun = (\<lambda>_. 9),
     timeout_param = (\<lambda>p. p), delete_fun = (\<lambda>_. 0), delete_param = (\<lambda>_. 0), fired = []\<rparr>"

lemma timer_demo_list: "dlist timer_demo (timer_list timer_demo) [2, 3]"
  by (auto simp: dlist_def timer_demo_def valid_def)

text \<open>One tick takes the elapsed time off every timer that still has more left, takes the others off
  the list in its order with their time set to \<open>0\<close>, and calls the time-out function of each of these
  that has one, exactly once and in the order of the list.\<close>

theorem timer_tick_ok:
  assumes "dlist h (timer_list h) xs"
  shows "\<exists>h'. timer_timeout_callback log_fire time h = Some (OK, h') \<and>
     dlist h' (timer_list h') (List.filter (running time h) xs) \<and>
     fired h' = fired h @ concat (List.map (fires time h) xs) \<and>
     (\<forall>x. expires h' x = (if x \<in> set xs then left time h x else expires h x))"
  by (rule timer_tick [OF assms])

theorem timer_tick_ok_witness:
  "\<exists>h'. timer_timeout_callback log_fire 7 timer_demo = Some (OK, h') \<and>
     fired h' = fired timer_demo @ concat (List.map (fires 7 timer_demo) [2, 3])"
  using timer_tick_ok [OF timer_demo_list, of 7] by blast

text \<open>A timer started with time \<open>0\<close>, which stands for no limit, is stored with \<open>2 ^ 32 - 1\<close> and is
  counted down by the next tick, because the 32-bit field never equals the 64-bit marker it is compared with.\<close>

theorem timer_forever_ends:
  assumes "dlist h (timer_list h) xs" "x \<in> set xs" "expires h x = - 1" "0 < time"
  shows "\<exists>h'. timer_timeout_callback log_fire time h = Some (OK, h') \<and> expires h' x \<noteq> - 1"
  by (rule forever_runs_down [OF assms])

theorem timer_forever_ends_witness:
  "\<exists>h'. timer_timeout_callback log_fire 7 timer_demo = Some (OK, h') \<and> expires h' 3 \<noteq> - 1"
  by (rule timer_forever_ends [OF timer_demo_list]) (simp_all add: timer_demo_def)

end
