(* ===== verification/LibMsgPool.thy ===== *)
theory LibMsgPool imports LibList begin

text \<open>
  \<open>Server/Lib/lib-msgpool.c\<close>: lists of message buffers. A pool of type CACHE hands out and takes
  back buffers without blocking; a pool of type CONSUMER_PRODUCER passes messages from producers to
  consumers, who wait on a condition variable when it is empty. The sequential operations come
  first with what they do to the list of messages; the step relation at the end interleaves
  several consumers and producers at the granularity of the pool's lock.
\<close>

section \<open>State\<close>

text \<open>A pool embeds the head of its list, at \<open>mp + 1\<close>. A message's payload has the length it was allocated with.\<close>

record msg_pools = heap +
  mp_type :: "ptr \<Rightarrow> int"
  mp_limit :: "ptr \<Rightarrow> 32 word"
  mp_count :: "ptr \<Rightarrow> 32 word"
  msg_payload_len :: "ptr \<Rightarrow> 32 word"
  it_peer :: "ptr \<Rightarrow> ptr"
  it_msg :: "ptr \<Rightarrow> 32 word"
  it_len :: "ptr \<Rightarrow> 32 word"
  it_payload :: "ptr \<Rightarrow> 8 word list"

abbreviation (input) msg_list :: "ptr \<Rightarrow> ptr" where
  "msg_list mp \<equiv> Suc mp"

definition MSG_POOL_TYPE_CONSUMER_PRODUCER :: int where "MSG_POOL_TYPE_CONSUMER_PRODUCER = 1"
definition MSG_POOL_TYPE_CACHE :: int where "MSG_POOL_TYPE_CACHE = 2"
definition MSG_POOL_DEFAULT_COUNT :: "32 word" where "MSG_POOL_DEFAULT_COUNT = 10000"
definition MSG_POOL_MAX_COUNT :: "32 word" where "MSG_POOL_MAX_COUNT = 100000"
definition MSG_POOL_DEFAULT_PAYLOAD_LEN :: "32 word" where "MSG_POOL_DEFAULT_PAYLOAD_LEN = 1024"
definition MAX_MSG_LEN :: "32 word" where "MAX_MSG_LEN = 1024 * 1024"

lemmas msg_pool_consts = MSG_POOL_TYPE_CONSUMER_PRODUCER_def MSG_POOL_TYPE_CACHE_def
  MSG_POOL_DEFAULT_COUNT_def MSG_POOL_MAX_COUNT_def MSG_POOL_DEFAULT_PAYLOAD_LEN_def MAX_MSG_LEN_def

definition CHECK_POOL_CACHE :: "ptr \<Rightarrow> 'a msg_pools_scheme \<Rightarrow> bool" where
  "CHECK_POOL_CACHE mp h \<longleftrightarrow> mp \<noteq> NULL \<and> mp_type h mp = MSG_POOL_TYPE_CACHE"

definition CHECK_POOL_CONSUMER :: "ptr \<Rightarrow> 'a msg_pools_scheme \<Rightarrow> bool" where
  "CHECK_POOL_CONSUMER mp h \<longleftrightarrow> mp \<noteq> NULL \<and> mp_type h mp = MSG_POOL_TYPE_CONSUMER_PRODUCER"

definition CHECK_POOL :: "ptr \<Rightarrow> 'a msg_pools_scheme \<Rightarrow> bool" where
  "CHECK_POOL mp h \<longleftrightarrow> mp \<noteq> NULL \<and>
     (mp_type h mp = MSG_POOL_TYPE_CACHE \<or> mp_type h mp = MSG_POOL_TYPE_CONSUMER_PRODUCER)"

section \<open>The operations\<close>

text \<open>
  \<open>mem_malloc(sizeof(msg_item_t) + len)\<close>; a length that does not fit the allocator's \<open>int\<close> is left
  out (the call does not come back).
\<close>

definition new_item :: "32 word \<Rightarrow> 'a msg_pools_scheme \<Rightarrow> (ptr \<times> 'a msg_pools_scheme) option" where
  "new_item len h = do {
     _ \<leftarrow> lib_assert (unat len < 2 ^ 31 - 512);
     let (p, h) = mem_malloc h;
     if p = NULL then Some (NULL, h)
     else Some (p, h\<lparr>it_peer := (it_peer h)(p := NULL), it_msg := (it_msg h)(p := 0),
                     it_len := (it_len h)(p := 0),
                     it_payload := (it_payload h)(p := replicate (unat len) 0)\<rparr>) }"

text \<open>The loop over the list that deletes and frees each message, shared by the three clean-ups.\<close>

definition purge_body :: "('a msg_pools_scheme, unit) loop_body" where
  "purge_body pmsg h l = do {
     h \<leftarrow> lib_list_del pmsg h;
     h \<leftarrow> mem_free pmsg h;
     Some (h, l, False) }"

definition purge_list :: "ptr \<Rightarrow> 'a msg_pools_scheme \<Rightarrow> 'a msg_pools_scheme option" where
  "purge_list mp h = do {
     (h, _) \<leftarrow> lib_list_for_each_safe purge_body (msg_list mp) h ();
     Some h }"

text \<open>\<open>for (i = 0; i < count; i++)\<close>: the flag says whether every allocation succeeded.\<close>

fun init_items :: "nat \<Rightarrow> 32 word \<Rightarrow> ptr \<Rightarrow> 'a msg_pools_scheme \<Rightarrow> (bool \<times> 'a msg_pools_scheme) option" where
  "init_items 0 len mp h = Some (True, h)"
| "init_items (Suc n) len mp h = do {
     (pmsg, h) \<leftarrow> new_item len h;
     if pmsg = NULL then Some (False, h)
     else do {
       h \<leftarrow> lib_list_add pmsg (msg_list mp) h;
       init_items n len mp h } }"

definition pool_err_out :: "ptr \<Rightarrow> 'a msg_pools_scheme \<Rightarrow> (int \<times> 'a msg_pools_scheme) option" where
  "pool_err_out mp h = do {
     h \<leftarrow> purge_list mp h;
     _ \<leftarrow> lib_assert (valid h mp);
     Some (ERROR, h\<lparr>mp_count := (mp_count h)(mp := 0)\<rparr>) }"

text \<open>\<open>lock_rc\<close> and \<open>cond_rc\<close> are what the two initialisers of the thread library return.\<close>

definition msg_pool_init ::
  "int \<Rightarrow> int \<Rightarrow> ptr \<Rightarrow> int \<Rightarrow> 32 word \<Rightarrow> 32 word \<Rightarrow> 'a msg_pools_scheme \<Rightarrow>
   (int \<times> 'a msg_pools_scheme) option"
where
  "msg_pool_init lock_rc cond_rc mp ty count len h =
     (if mp = NULL then pool_err_out mp h
      else
        let count = (if ty = MSG_POOL_TYPE_CACHE \<and> count = 0 then MSG_POOL_DEFAULT_COUNT else count);
            len = (if ty = MSG_POOL_TYPE_CACHE \<and> len = 0 then MSG_POOL_DEFAULT_PAYLOAD_LEN else len)
        in if MSG_POOL_MAX_COUNT < count then pool_err_out mp h
        else do {
          h \<leftarrow> INIT_LIB_LIST (msg_list mp) h;
          (ok, h) \<leftarrow> init_items (unat count) len mp h;
          if \<not> ok then pool_err_out mp h
          else if lock_rc \<noteq> 0 then pool_err_out mp h
          else if cond_rc \<noteq> 0 then pool_err_out mp h
          else Some (OK, h\<lparr>mp_type := (mp_type h)(mp := ty), mp_count := (mp_count h)(mp := count),
                           mp_limit := (mp_limit h)(mp := count),
                           msg_payload_len := (msg_payload_len h)(mp := len)\<rparr>) })"

text \<open>
  \<open>!mp && mp->count != 0\<close> reads through the pointer it has just found to be \<open>NULL\<close>. The flag tells
  whether the condition variable is signalled.
\<close>

definition msg_pool_finl :: "ptr \<Rightarrow> 'a msg_pools_scheme \<Rightarrow> (bool \<times> 'a msg_pools_scheme) option" where
  "msg_pool_finl mp h = do {
     _ \<leftarrow> lib_assert (valid h mp);
     let signalled = (mp_count h mp = 0);
     h \<leftarrow> purge_list mp h;
     Some (signalled, h\<lparr>mp_count := (mp_count h)(mp := 0), mp_limit := (mp_limit h)(mp := 0),
                        msg_payload_len := (msg_payload_len h)(mp := 0)\<rparr>) }"

text \<open>
  A consumer either returns or goes to sleep in \<open>thd_cond_wait\<close>, with the lock released; \<open>Waiting\<close>
  stands for that, and \<open>consumer_take\<close> is what it does once the wait is over.
\<close>

datatype consumer_result = Waiting | Got ptr

definition consumer_take :: "ptr \<Rightarrow> 'a msg_pools_scheme \<Rightarrow> (consumer_result \<times> 'a msg_pools_scheme) option" where
  "consumer_take mp h = do {
     pNode \<leftarrow> get_next h (msg_list mp);
     if pNode = NULL then Some (Got NULL, h)
     else do {
       h \<leftarrow> lib_list_del pNode h;
       Some (Got pNode, h\<lparr>mp_count := (mp_count h)(mp := mp_count h mp - 1)\<rparr>) } }"

definition msg_pool_consumer ::
  "ptr \<Rightarrow> 'a msg_pools_scheme \<Rightarrow> (consumer_result \<times> 'a msg_pools_scheme) option"
where
  "msg_pool_consumer mp h = do {
     _ \<leftarrow> lib_assert (valid h mp);
     if \<not> CHECK_POOL_CONSUMER mp h then Some (Got NULL, h)
     else if mp_count h mp = 0 then Some (Waiting, h)
     else consumer_take mp h }"

text \<open>The flag says whether the condition variable is signalled.\<close>

definition msg_pool_producer ::
  "ptr \<Rightarrow> ptr \<Rightarrow> 'a msg_pools_scheme \<Rightarrow> (bool \<times> 'a msg_pools_scheme) option"
where
  "msg_pool_producer mp pmsg h =
     (if mp = NULL \<or> pmsg = NULL then Some (False, h)
      else do {
        _ \<leftarrow> lib_assert (valid h mp);
        if \<not> CHECK_POOL_CONSUMER mp h then Some (False, h)
        else do {
          h \<leftarrow> lib_list_add_tail pmsg (msg_list mp) h;
          let h = h\<lparr>mp_count := (mp_count h)(mp := mp_count h mp + 1)\<rparr>;
          Some (mp_count h mp = 1, h) } })"

definition msg_pool_get :: "ptr \<Rightarrow> int \<Rightarrow> 'a msg_pools_scheme \<Rightarrow> (ptr \<times> 'a msg_pools_scheme) option" where
  "msg_pool_get mp len h = do {
     _ \<leftarrow> lib_assert (valid h mp);
     if \<not> CHECK_POOL_CACHE mp h then Some (NULL, h)
     else if word_of_int len \<le> msg_payload_len h mp \<and> 0 < mp_count h mp
     then do {
       pNode \<leftarrow> get_next h (msg_list mp);
       if pNode = NULL then Some (NULL, h)
       else do {
         h \<leftarrow> lib_list_del pNode h;
         Some (pNode, h\<lparr>mp_count := (mp_count h)(mp := mp_count h mp - 1)\<rparr>) } }
     else if MSG_POOL_MAX_COUNT \<le> mp_limit h mp then Some (NULL, h)
     else do {
       (pmsg, h) \<leftarrow> new_item (word_of_int len) h;
       if pmsg = NULL then Some (NULL, h)
       else Some (pmsg, h\<lparr>mp_limit := (mp_limit h)(mp := mp_limit h mp + 1)\<rparr>) } }"

definition msg_pool_put :: "ptr \<Rightarrow> ptr \<Rightarrow> 'a msg_pools_scheme \<Rightarrow> 'a msg_pools_scheme option" where
  "msg_pool_put mp pmsg h = do {
     _ \<leftarrow> lib_assert (valid h mp);
     if \<not> CHECK_POOL_CACHE mp h then Some h
     else do {
       h \<leftarrow> lib_list_add pmsg (msg_list mp) h;
       Some (h\<lparr>mp_count := (mp_count h)(mp := mp_count h mp + 1)\<rparr>) } }"

text \<open>The lines \<open>msg_pool_dump\<close> prints: peer, message number and payload length of each message.\<close>

definition msg_pool_dump :: "ptr \<Rightarrow> 'a msg_pools_scheme \<Rightarrow> (ptr \<times> 32 word \<times> 32 word) list option" where
  "msg_pool_dump mp h = do {
     _ \<leftarrow> lib_assert (valid h mp);
     (_, rows) \<leftarrow> lib_list_for_each
       (\<lambda>pmsg h rows. Some (h, rows @ [(it_peer h pmsg, it_msg h pmsg, it_len h pmsg)], False))
       (msg_list mp) h [];
     Some rows }"

definition msg_pool_purge :: "ptr \<Rightarrow> 'a msg_pools_scheme \<Rightarrow> 'a msg_pools_scheme option" where
  "msg_pool_purge mp h = do {
     _ \<leftarrow> lib_assert (valid h mp);
     if CHECK_POOL mp h then Some h
     else do {
       h \<leftarrow> purge_list mp h;
       INIT_LIB_LIST (msg_list mp) (h\<lparr>mp_count := (mp_count h)(mp := 0)\<rparr>) } }"

text \<open>\<open>memcpy\<close> of \<open>n\<close> bytes between two payloads; beyond either of them it does not come back.\<close>

definition copy_payload :: "ptr \<Rightarrow> ptr \<Rightarrow> nat \<Rightarrow> 'a msg_pools_scheme \<Rightarrow> 'a msg_pools_scheme option" where
  "copy_payload dst src n h =
     (if n \<le> List.length (it_payload h dst) \<and> n \<le> List.length (it_payload h src)
      then Some (h\<lparr>it_payload := (it_payload h)(dst := take n (it_payload h src) @ drop n (it_payload h dst))\<rparr>)
      else None)"

definition msg_item_copy :: "ptr \<Rightarrow> ptr \<Rightarrow> 'a msg_pools_scheme \<Rightarrow> (int \<times> 'a msg_pools_scheme) option" where
  "msg_item_copy dst src h =
     (if dst = NULL \<or> src = NULL then Some (ERROR, h)
      else do {
        h \<leftarrow> INIT_LIB_LIST dst h;
        _ \<leftarrow> lib_assert (valid h src);
        let h = h\<lparr>it_peer := (it_peer h)(dst := it_peer h src), it_msg := (it_msg h)(dst := it_msg h src),
                  it_len := (it_len h)(dst := it_len h src)\<rparr>;
        h \<leftarrow> copy_payload dst src (unat (it_len h src)) h;
        Some (OK, h) })"

definition msg_copy :: "ptr \<Rightarrow> ptr \<Rightarrow> 'a msg_pools_scheme \<Rightarrow> (int \<times> 'a msg_pools_scheme) option" where
  "msg_copy dst src h =
     (if dst = NULL \<or> src = NULL then Some (ERROR, h)
      else do {
        _ \<leftarrow> lib_assert (valid h dst \<and> valid h src);
        _ \<leftarrow> lib_assert (it_len h src \<le> MAX_MSG_LEN);
        let h = h\<lparr>it_msg := (it_msg h)(dst := it_msg h src), it_len := (it_len h)(dst := it_len h src)\<rparr>;
        h \<leftarrow> copy_payload dst src (unat (it_len h src)) h;
        Some (OK, h) })"

section \<open>The messages of a pool\<close>

definition pool_rep :: "'a msg_pools_scheme \<Rightarrow> ptr \<Rightarrow> int \<Rightarrow> ptr list \<Rightarrow> bool" where
  "pool_rep h mp ty ms \<longleftrightarrow> valid h mp \<and> mp_type h mp = ty \<and> dlist h (msg_list mp) ms \<and>
     mp_count h mp = of_nat (List.length ms) \<and> List.length ms < 2 ^ 32"

lemma pool_rep_facts:
  assumes "pool_rep h mp ty ms"
  shows "valid h mp" "mp_type h mp = ty" "dlist h (msg_list mp) ms"
    "mp_count h mp = of_nat (List.length ms)" "List.length ms < 2 ^ 32" "mp \<noteq> NULL"
  using assms by (auto simp: pool_rep_def dest: valid_pos)

lemma count_zero_iff: "n < 2 ^ 32 \<Longrightarrow> (of_nat n :: 32 word) = 0 \<longleftrightarrow> n = 0"
  by (simp add: word_of_nat_eq_0_iff nat_dvd_not_less) (metis nat_dvd_not_less neq0_conv dvd_0_right)

lemma pools_linked [simp]:
  "mp_type (linked p x n h) = mp_type h" "mp_count (linked p x n h) = mp_count h"
  "mp_limit (linked p x n h) = mp_limit h" "msg_payload_len (linked p x n h) = msg_payload_len h"
  "mp_type (unlinked p x n h) = mp_type h" "mp_count (unlinked p x n h) = mp_count h"
  "mp_limit (unlinked p x n h) = mp_limit h" "msg_payload_len (unlinked p x n h) = msg_payload_len h"
  by (simp_all add: linked_def unlinked_def)

lemma first_out:
  assumes d: "dlist h hh (m # ms)"
  obtains p n where "get_next h hh = Some m" "m \<noteq> NULL" "lib_list_del m h = Some (unlinked p m n h)"
    "dlist (unlinked p m n h) hh ms"
proof -
  have g: "get_next h hh = Some m" using dlist_next [OF d] by simp
  have m: "m \<noteq> NULL" using d by (auto simp: dlist_def dest: valid_pos)
  have "m \<in> set (m # ms)" by simp
  then obtain p n where "lib_list_del m h = Some (unlinked p m n h)"
    "dlist (unlinked p m n h) hh (remove1 m (m # ms))"
    using lib_list_del_dlist [OF d] by metis
  then show ?thesis using that g m by simp
qed

text \<open>Messages leave a consumer pool in the order they were put in.\<close>

lemma consumer_take_rep:
  assumes r: "pool_rep h mp ty (m # ms)"
  shows "\<exists>h'. consumer_take mp h = Some (Got m, h') \<and> pool_rep h' mp ty ms"
proof -
  note f = pool_rep_facts [OF r]
  obtain p n where g: "get_next h (msg_list mp) = Some m" "m \<noteq> NULL"
    "lib_list_del m h = Some (unlinked p m n h)" "dlist (unlinked p m n h) (msg_list mp) ms"
    by (rule first_out [OF f(3)])
  let ?h = "(unlinked p m n h)\<lparr>mp_count := (mp_count h)(mp := mp_count h mp - 1)\<rparr>"
  have "dlist ?h (msg_list mp) ms" using g(4) by (simp add: dlist_cong [of ?h "unlinked p m n h"])
  then have "pool_rep ?h mp ty ms" using f by (simp add: pool_rep_def valid_def)
  then show ?thesis using g by (simp add: consumer_take_def)
qed

lemma msg_pool_consumer_rep:
  assumes r: "pool_rep h mp MSG_POOL_TYPE_CONSUMER_PRODUCER ms"
  shows "ms = [] \<Longrightarrow> msg_pool_consumer mp h = Some (Waiting, h)"
    and "ms = m # rest \<Longrightarrow> \<exists>h'. msg_pool_consumer mp h = Some (Got m, h') \<and>
      pool_rep h' mp MSG_POOL_TYPE_CONSUMER_PRODUCER rest"
proof -
  note f = pool_rep_facts [OF r]
  have c: "CHECK_POOL_CONSUMER mp h" using f by (simp add: CHECK_POOL_CONSUMER_def)
  have z: "mp_count h mp = 0 \<longleftrightarrow> ms = []" using f(4) count_zero_iff [OF f(5)] by simp
  show "ms = [] \<Longrightarrow> msg_pool_consumer mp h = Some (Waiting, h)"
    using f(1) c z by (simp add: msg_pool_consumer_def)
  show "ms = m # rest \<Longrightarrow> \<exists>h'. msg_pool_consumer mp h = Some (Got m, h') \<and>
      pool_rep h' mp MSG_POOL_TYPE_CONSUMER_PRODUCER rest"
    using consumer_take_rep [of h mp _ m rest] r f(1) c z by (simp add: msg_pool_consumer_def)
qed

lemma msg_pool_producer_rep:
  assumes r: "pool_rep h mp MSG_POOL_TYPE_CONSUMER_PRODUCER ms"
    and x: "valid h x" "x \<notin> set (msg_list mp # ms)" and room: "Suc (List.length ms) < 2 ^ 32"
  shows "\<exists>h'. msg_pool_producer mp x h = Some (ms = [], h') \<and>
     pool_rep h' mp MSG_POOL_TYPE_CONSUMER_PRODUCER (ms @ [x])"
proof -
  note f = pool_rep_facts [OF r]
  obtain p where a: "lib_list_add_tail x (msg_list mp) h = Some (linked p x (msg_list mp) h)"
    "dlist (linked p x (msg_list mp) h) (msg_list mp) (ms @ [x])"
    by (rule lib_list_add_tail_ok [OF f(3) x])
  let ?h1 = "linked p x (msg_list mp) h"
  let ?h = "?h1\<lparr>mp_count := (mp_count h)(mp := mp_count h mp + 1)\<rparr>"
  have x0: "x \<noteq> NULL" using x(1) by (auto dest: valid_pos)
  have "mp_count h mp + 1 = 1 \<longleftrightarrow> ms = []" using f(4) count_zero_iff [OF f(5)] by simp
  then have ev: "msg_pool_producer mp x h = Some (ms = [], ?h)"
    using f x0 a(1) by (simp add: msg_pool_producer_def CHECK_POOL_CONSUMER_def Let_def)
  have "dlist ?h (msg_list mp) (ms @ [x])" using a(2) by (simp add: dlist_cong [of ?h ?h1])
  then have "pool_rep ?h mp MSG_POOL_TYPE_CONSUMER_PRODUCER (ms @ [x])"
    using f room by (simp add: pool_rep_def valid_def add.commute)
  then show ?thesis using ev by blast
qed

text \<open>
  Taking from an empty pool, as a consumer does whose wait ended without a message left for it,
  returns the head of the list as if it were a message and leaves the count at \<open>2 ^ 32 - 1\<close>.
\<close>

lemma consumer_take_empty:
  assumes r: "pool_rep h mp ty []"
  shows "\<exists>h'. consumer_take mp h = Some (Got (msg_list mp), h') \<and> mp_count h' mp = - 1 \<and>
     nxt h' (msg_list mp) = NULL"
proof -
  note f = pool_rep_facts [OF r]
  have v: "valid h (msg_list mp)" "nxt h (msg_list mp) = msg_list mp" "prv h (msg_list mp) = msg_list mp"
    using f(3) by (simp_all add: dlist_def)
  show ?thesis
    using v f(4) by (simp add: consumer_take_def heap_access lib_list_del_def lib_list_unlink_def valid_def)
qed

text \<open>A cache gives back the buffer put in last; an empty one allocates until its limit.\<close>

lemma msg_pool_put_rep:
  assumes r: "pool_rep h mp MSG_POOL_TYPE_CACHE ms"
    and x: "valid h x" "x \<notin> set (msg_list mp # ms)" and room: "Suc (List.length ms) < 2 ^ 32"
  shows "\<exists>h'. msg_pool_put mp x h = Some h' \<and> pool_rep h' mp MSG_POOL_TYPE_CACHE (x # ms) \<and>
     msg_payload_len h' = msg_payload_len h"
proof -
  note f = pool_rep_facts [OF r]
  obtain n where a: "lib_list_add x (msg_list mp) h = Some (linked (msg_list mp) x n h)"
    "dlist (linked (msg_list mp) x n h) (msg_list mp) (x # ms)"
    by (rule lib_list_add_ok [OF f(3) x])
  let ?h1 = "linked (msg_list mp) x n h"
  let ?h = "?h1\<lparr>mp_count := (mp_count h)(mp := mp_count h mp + 1)\<rparr>"
  have "dlist ?h (msg_list mp) (x # ms)" using a(2) by (simp add: dlist_cong [of ?h ?h1])
  then have "pool_rep ?h mp MSG_POOL_TYPE_CACHE (x # ms)"
    using f room by (simp add: pool_rep_def valid_def add.commute)
  then show ?thesis using f a(1) by (simp add: msg_pool_put_def CHECK_POOL_CACHE_def)
qed

lemma msg_pool_get_rep:
  assumes r: "pool_rep h mp MSG_POOL_TYPE_CACHE (m # ms)" and len: "word_of_int len \<le> msg_payload_len h mp"
  shows "\<exists>h'. msg_pool_get mp len h = Some (m, h') \<and> pool_rep h' mp MSG_POOL_TYPE_CACHE ms"
proof -
  note f = pool_rep_facts [OF r]
  obtain p n where g: "get_next h (msg_list mp) = Some m" "m \<noteq> NULL"
    "lib_list_del m h = Some (unlinked p m n h)" "dlist (unlinked p m n h) (msg_list mp) ms"
    by (rule first_out [OF f(3)])
  let ?h = "(unlinked p m n h)\<lparr>mp_count := (mp_count h)(mp := mp_count h mp - 1)\<rparr>"
  have "0 < mp_count h mp"
    using f(4) count_zero_iff [OF f(5)] by (simp add: word_gt_0)
  moreover have "dlist ?h (msg_list mp) ms"
    using g(4) by (simp add: dlist_cong [of ?h "unlinked p m n h"])
  then have "pool_rep ?h mp MSG_POOL_TYPE_CACHE ms" using f by (simp add: pool_rep_def valid_def)
  ultimately show ?thesis
    using f g len by (simp add: msg_pool_get_def CHECK_POOL_CACHE_def)
qed

lemma msg_pool_get_after_put:
  assumes r: "pool_rep h mp MSG_POOL_TYPE_CACHE ms"
    and x: "valid h x" "x \<notin> set (msg_list mp # ms)" and room: "Suc (List.length ms) < 2 ^ 32"
    and len: "word_of_int len \<le> msg_payload_len h mp"
  shows "\<exists>h' h''. msg_pool_put mp x h = Some h' \<and> msg_pool_get mp len h' = Some (x, h'') \<and>
     pool_rep h'' mp MSG_POOL_TYPE_CACHE ms"
  using msg_pool_put_rep [OF r x room] msg_pool_get_rep len by metis

lemma msg_pool_get_exhausted:
  assumes r: "pool_rep h mp MSG_POOL_TYPE_CACHE []" and l: "MSG_POOL_MAX_COUNT \<le> mp_limit h mp"
  shows "msg_pool_get mp len h = Some (NULL, h)"
  using pool_rep_facts [OF r] l by (simp add: msg_pool_get_def CHECK_POOL_CACHE_def)

text \<open>The guard of \<open>msg_pool_purge\<close> is the wrong way round: a sound pool is left as it is.\<close>

lemma msg_pool_purge_nothing:
  "pool_rep h mp ty ms \<Longrightarrow> ty = MSG_POOL_TYPE_CACHE \<or> ty = MSG_POOL_TYPE_CONSUMER_PRODUCER \<Longrightarrow>
   msg_pool_purge mp h = Some h"
  by (auto simp: msg_pool_purge_def pool_rep_def CHECK_POOL_def dest: valid_pos)

section \<open>Setting up\<close>

text \<open>\<open>init_items\<close> puts fresh buffers on the list; nothing else of the pools changes.\<close>

definition same_pools :: "'a msg_pools_scheme \<Rightarrow> 'a msg_pools_scheme \<Rightarrow> bool" where
  "same_pools h' h \<longleftrightarrow> mp_type h' = mp_type h \<and> mp_count h' = mp_count h \<and> mp_limit h' = mp_limit h \<and>
     msg_payload_len h' = msg_payload_len h \<and> (\<forall>q. valid h q \<longrightarrow> valid h' q)"

lemma pools_more:
  "heap.more h' = heap.more h \<Longrightarrow> mp_type h' = mp_type h \<and> mp_count h' = mp_count h \<and>
   mp_limit h' = mp_limit h \<and> msg_payload_len h' = msg_payload_len h"
  by (cases h; cases h') simp

lemma new_item_ok:
  assumes h: "heap_ok h" "oom h = []" and d: "dlist h hh ms" and len: "unat len < 2 ^ 31 - 512"
  shows "\<exists>h' x. new_item len h = Some (x, h') \<and> x \<noteq> NULL \<and> heap_ok h' \<and> oom h' = [] \<and> valid h' x \<and>
     \<not> valid h x \<and> dlist h' hh ms \<and> x \<notin> set (hh # ms) \<and> same_pools h' h"
proof -
  have o: "\<not> next_oom h" using h(2) by (simp add: next_oom_def)
  obtain h1 where h1: "mem_malloc h = (brk h, h1)" "valid h1 (brk h)" "heap_ok h1" "oom h1 = tl (oom h)"
    "heap.more h1 = heap.more h" "\<not> valid h (brk h)" "brk h \<noteq> NULL"
    "\<And>q. valid h q \<Longrightarrow> valid h1 q \<and> nxt h1 q = nxt h q \<and> prv h1 q = prv h q \<and> q \<noteq> brk h"
    "\<And>kk zs. dlist h kk zs \<Longrightarrow> dlist h1 kk zs \<and> brk h \<notin> set (kk # zs)"
    by (rule mem_malloc_node [OF h(1) o]) blast
  let ?x = "brk h"
  let ?h = "h1\<lparr>it_peer := (it_peer h1)(?x := NULL), it_msg := (it_msg h1)(?x := 0),
    it_len := (it_len h1)(?x := 0), it_payload := (it_payload h1)(?x := replicate (unat len) 0)\<rparr>"
  have "new_item len h = Some (?x, ?h)" using len h1(1,7) by (simp add: new_item_def)
  moreover have "heap_ok ?h" "oom ?h = []" using h1(3,4) h(2) by (simp_all add: heap_ok_def)
  moreover have "valid ?h ?x" "dlist ?h hh ms" "?x \<notin> set (hh # ms)"
    using h1(2) h1(9) [OF d] by (simp_all add: valid_def dlist_cong [of ?h h1])
  moreover have "same_pools ?h h"
    using pools_more [OF h1(5)] h1(8) by (auto simp: same_pools_def valid_def)
  ultimately show ?thesis using h1(6,7) by blast
qed

lemma init_items_ok:
  assumes len: "unat len < 2 ^ 31 - 512"
  shows "heap_ok h \<Longrightarrow> oom h = [] \<Longrightarrow> dlist h (msg_list mp) ms \<Longrightarrow>
    \<exists>h' xs. init_items n len mp h = Some (True, h') \<and> List.length xs = n \<and> heap_ok h' \<and> oom h' = [] \<and>
      dlist h' (msg_list mp) (xs @ ms) \<and> same_pools h' h \<and> (\<forall>x \<in> set xs. \<not> valid h x)"
proof (induction n arbitrary: h ms)
  case 0
  then show ?case by (auto simp: same_pools_def)
next
  case (Suc n)
  obtain h1 x where h1: "new_item len h = Some (x, h1)" "x \<noteq> NULL" "heap_ok h1" "oom h1 = []" "valid h1 x"
    "\<not> valid h x" "dlist h1 (msg_list mp) ms" "x \<notin> set (msg_list mp # ms)" "same_pools h1 h"
    using new_item_ok [OF Suc.prems len] by blast
  obtain k where a: "lib_list_add x (msg_list mp) h1 = Some (linked (msg_list mp) x k h1)"
    "dlist (linked (msg_list mp) x k h1) (msg_list mp) (x # ms)"
    by (rule lib_list_add_ok [OF h1(7,5,8)])
  let ?h2 = "linked (msg_list mp) x k h1"
  obtain h' xs where h': "init_items n len mp ?h2 = Some (True, h')" "List.length xs = n" "heap_ok h'"
    "oom h' = []" "dlist h' (msg_list mp) (xs @ x # ms)" "same_pools h' ?h2" "\<forall>x \<in> set xs. \<not> valid ?h2 x"
    using Suc.IH [OF _ _ a(2)] h1(3,4) by auto
  have "init_items (Suc n) len mp h = Some (True, h')" using h1(1,2) a(1) h'(1) by simp
  moreover have "same_pools h' h" using h'(6) h1(9) by (simp add: same_pools_def)
  moreover have "\<forall>y \<in> set (xs @ [x]). \<not> valid h y"
    using h'(7) h1(6,9) by (auto simp: same_pools_def)
  ultimately show ?case using h'(2-5) by (intro exI [of _ h'] exI [of _ "xs @ [x]"]) simp
qed

text \<open>
  A pool of either type starts with \<open>count\<close> fresh buffers, so that a consumer pool set up with a
  count other than \<open>0\<close> has that many messages nobody sent waiting for its first consumer.
\<close>

lemma msg_pool_init_ok:
  assumes h: "heap_ok h" "oom h = []" "valid h mp" "valid h (msg_list mp)"
    and ty: "ty = MSG_POOL_TYPE_CACHE \<and> 0 < count \<and> 0 < len \<or> ty = MSG_POOL_TYPE_CONSUMER_PRODUCER"
    and count: "count \<le> MSG_POOL_MAX_COUNT" and len: "unat len < 2 ^ 31 - 512"
  shows "\<exists>h' xs. msg_pool_init 0 0 mp ty count len h = Some (OK, h') \<and> pool_rep h' mp ty xs \<and>
     List.length xs = unat count \<and> (\<forall>x \<in> set xs. \<not> valid h x) \<and> mp_limit h' mp = count \<and>
     msg_payload_len h' mp = len"
proof -
  let ?h1 = "h\<lparr>nxt := (nxt h)(msg_list mp := msg_list mp), prv := (prv h)(msg_list mp := msg_list mp)\<rparr>"
  have i: "INIT_LIB_LIST (msg_list mp) h = Some ?h1" using h(4) by (rule INIT_LIB_LIST_ok)
  have d: "dlist ?h1 (msg_list mp) []" using h(4) by (simp add: dlist_def)
  have "heap_ok ?h1" "oom ?h1 = []" using h(1,2) by simp_all
  then obtain h2 xs where h2: "init_items (unat count) len mp ?h1 = Some (True, h2)"
    "List.length xs = unat count" "dlist h2 (msg_list mp) (xs @ [])" "same_pools h2 ?h1"
    "\<forall>x \<in> set xs. \<not> valid ?h1 x"
    using init_items_ok [OF len _ _ d, of "unat count"] by blast
  let ?h3 = "h2\<lparr>mp_type := (mp_type h2)(mp := ty), mp_count := (mp_count h2)(mp := count),
    mp_limit := (mp_limit h2)(mp := count), msg_payload_len := (msg_payload_len h2)(mp := len)\<rparr>"
  have nc: "\<not> MSG_POOL_MAX_COUNT < count" "ty = MSG_POOL_TYPE_CACHE \<Longrightarrow> count \<noteq> 0 \<and> len \<noteq> 0"
    using count ty by (auto simp: msg_pool_consts)
  have ev: "msg_pool_init 0 0 mp ty count len h = Some (OK, ?h3)"
    using h(3) nc i h2(1) by (auto simp: msg_pool_init_def Let_def dest: valid_pos)
  have "valid h2 mp" using h2(4) h(3) by (simp add: same_pools_def)
  then have "pool_rep ?h3 mp ty xs"
    using h2(2,3) unsigned_less [of count]
    by (simp add: pool_rep_def valid_def dlist_cong [of ?h3 h2])
  then show ?thesis using ev h2(2,5) by (intro exI [of _ ?h3] exI [of _ xs]) simp
qed

text \<open>Taking a pool down frees every buffer on its list.\<close>

lemma purge_body_step:
  assumes d: "dlist h hh (m # ms)"
  shows "\<exists>h'. purge_body m h l = Some (h', l, False) \<and> dlist h' hh ms \<and> live h' = (live h)(m := False) \<and>
     mp_count h' = mp_count h"
proof -
  obtain p n where g: "lib_list_del m h = Some (unlinked p m n h)" "dlist (unlinked p m n h) hh ms"
    by (rule first_out [OF d])
  let ?h1 = "unlinked p m n h"
  let ?h = "?h1\<lparr>live := (live ?h1)(m := False)\<rparr>"
  have v: "valid ?h1 m" using d by (simp add: dlist_def)
  have "dlist ?h hh ms"
    by (rule dlist_frame [OF g(2)]) (use d g(2) in \<open>auto simp: dlist_def valid_def\<close>)
  then show ?thesis using g(1) v by (intro exI [of _ ?h]) (simp add: purge_body_def)
qed

lemma run_purge:
  "dlist h hh ms \<Longrightarrow> \<exists>h'. run_body purge_body ms h () = Some (h', ()) \<and> dlist h' hh [] \<and>
     live h' = (\<lambda>p. live h p \<and> p \<notin> set ms) \<and> mp_count h' = mp_count h"
proof (induction ms arbitrary: h)
  case (Cons m ms)
  obtain h1 where h1: "purge_body m h () = Some (h1, (), False)" "dlist h1 hh ms"
    "live h1 = (live h)(m := False)" "mp_count h1 = mp_count h"
    using purge_body_step [OF Cons.prems] by blast
  obtain h' where "run_body purge_body ms h1 () = Some (h', ())" "dlist h' hh []"
    "live h' = (\<lambda>p. live h1 p \<and> p \<notin> set ms)" "mp_count h' = mp_count h1"
    using Cons.IH [OF h1(2)] by blast
  then show ?case using h1 by (intro exI [of _ h']) (auto simp: fun_eq_iff)
qed simp

lemma purge_list_ok:
  assumes d: "dlist h (msg_list mp) ms"
  shows "\<exists>h'. purge_list mp h = Some h' \<and> dlist h' (msg_list mp) [] \<and>
     live h' = (\<lambda>p. live h p \<and> p \<notin> set ms) \<and> mp_count h' = mp_count h"
proof -
  have "lib_list_for_each_safe purge_body (msg_list mp) h () = run_body purge_body ms h ()"
  proof (rule for_each_safe_consume [where Q = "\<lambda>_ _ _. True", OF _ d TrueI])
    fix x ys and h1 h2 :: "'a msg_pools_scheme" and l l' :: unit
    assume a: "dlist h1 (msg_list mp) (x # ys)" "purge_body x h1 l = Some (h2, l', False)"
    then show "dlist h2 (msg_list mp) ys \<and> True" using purge_body_step [OF a(1), of l] by auto
  qed
  then show ?thesis using run_purge [OF d] by (auto simp: purge_list_def)
qed

lemma msg_pool_finl_ok:
  assumes r: "pool_rep h mp ty ms"
  shows "\<exists>h'. msg_pool_finl mp h = Some (ms = [], h') \<and> (\<forall>m \<in> set ms. \<not> valid h' m) \<and>
     mp_count h' mp = 0 \<and> dlist h' (msg_list mp) []"
proof -
  note f = pool_rep_facts [OF r]
  obtain h1 where h1: "purge_list mp h = Some h1" "dlist h1 (msg_list mp) []"
    "live h1 = (\<lambda>p. live h p \<and> p \<notin> set ms)"
    using purge_list_ok [OF f(3)] by blast
  let ?h = "h1\<lparr>mp_count := (mp_count h1)(mp := 0), mp_limit := (mp_limit h1)(mp := 0),
    msg_payload_len := (msg_payload_len h1)(mp := 0)\<rparr>"
  have "mp_count h mp = 0 \<longleftrightarrow> ms = []" using f(4) count_zero_iff [OF f(5)] by simp
  then have "msg_pool_finl mp h = Some (ms = [], ?h)"
    using f(1) h1(1) by (simp add: msg_pool_finl_def Let_def)
  moreover have "\<forall>m \<in> set ms. \<not> valid ?h m" using h1(3) by (simp add: valid_def)
  moreover have "dlist ?h (msg_list mp) []" using h1(2) by (simp add: dlist_cong [of ?h h1])
  ultimately show ?thesis by auto
qed

section \<open>A small state\<close>

text \<open>A pool at \<open>1\<close> (its list head at \<open>2\<close>) without messages, and two buffers at \<open>3\<close> and \<open>4\<close>.\<close>

definition pool_demo :: "int \<Rightarrow> msg_pools" where
  "pool_demo ty = \<lparr>live = (\<lambda>p. 1 \<le> p \<and> p \<le> 4), brk = 5, oom = [],
     nxt = (\<lambda>p. if p = 2 then 2 else 0), prv = (\<lambda>p. if p = 2 then 2 else 0),
     mp_type = (\<lambda>_. ty), mp_limit = (\<lambda>_. 0), mp_count = (\<lambda>_. 0), msg_payload_len = (\<lambda>_. 64),
     it_peer = (\<lambda>_. 0), it_msg = (\<lambda>_. 0), it_len = (\<lambda>_. 0), it_payload = (\<lambda>_. [])\<rparr>"

lemma pool_demo_rep: "pool_rep (pool_demo ty) 1 ty []" "valid (pool_demo ty) 3" "valid (pool_demo ty) 4"
    "heap_ok (pool_demo ty)" "oom (pool_demo ty) = []" "valid (pool_demo ty) 1" "valid (pool_demo ty) (Suc (Suc 0))"
  by (auto simp: pool_rep_def pool_demo_def valid_def dlist_def heap_ok_def)

section \<open>Properties\<close>

text \<open>A pool is set up with exactly \<open>count\<close> fresh buffers on its list and as its count and limit, for
  either type: a consumer pool given a count other than \<open>0\<close> starts with messages nobody sent.\<close>

theorem msg_pool_init_filled:
  assumes "heap_ok h" "oom h = []" "valid h mp" "valid h (msg_list mp)"
    "ty = MSG_POOL_TYPE_CACHE \<and> 0 < count \<and> 0 < len \<or> ty = MSG_POOL_TYPE_CONSUMER_PRODUCER"
    "count \<le> MSG_POOL_MAX_COUNT" "unat len < 2 ^ 31 - 512"
  shows "\<exists>h' xs. msg_pool_init 0 0 mp ty count len h = Some (OK, h') \<and> pool_rep h' mp ty xs \<and>
     List.length xs = unat count \<and> (\<forall>x \<in> set xs. \<not> valid h x) \<and> mp_limit h' mp = count \<and>
     msg_payload_len h' mp = len"
  by (rule msg_pool_init_ok [OF assms])

theorem msg_pool_init_filled_witness:
  "\<exists>h' xs. msg_pool_init 0 0 1 MSG_POOL_TYPE_CONSUMER_PRODUCER 3 16 (pool_demo 0) = Some (OK, h') \<and>
     pool_rep h' 1 MSG_POOL_TYPE_CONSUMER_PRODUCER xs \<and> List.length xs = unat (3 :: 32 word) \<and>
     (\<forall>x \<in> set xs. \<not> valid (pool_demo 0) x) \<and> mp_limit h' 1 = 3 \<and> msg_payload_len h' 1 = 16"
  by (rule msg_pool_init_filled)
    (use pool_demo_rep [of 0] in \<open>simp_all add: msg_pool_consts\<close>)

text \<open>a buffer put into a cache is the next one handed out for a length the pool serves, and the pool
  is then as it was before.\<close>

theorem msg_pool_cache_roundtrip:
  assumes "pool_rep h mp MSG_POOL_TYPE_CACHE ms" "valid h x" "x \<notin> set (msg_list mp # ms)"
    "Suc (List.length ms) < 2 ^ 32" "word_of_int len \<le> msg_payload_len h mp"
  shows "\<exists>h' h''. msg_pool_put mp x h = Some h' \<and> msg_pool_get mp len h' = Some (x, h'') \<and>
     pool_rep h'' mp MSG_POOL_TYPE_CACHE ms"
  by (rule msg_pool_get_after_put [OF assms])

theorem msg_pool_cache_roundtrip_witness:
  "\<exists>h' h''. msg_pool_put 1 3 (pool_demo MSG_POOL_TYPE_CACHE) = Some h' \<and> msg_pool_get 1 10 h' = Some (3, h'') \<and>
     pool_rep h'' 1 MSG_POOL_TYPE_CACHE []"
  by (rule msg_pool_cache_roundtrip [OF pool_demo_rep(1,2)]) (simp_all add: pool_demo_def)

end
