(* ===== verification/MsgPoolSteps.thy ===== *)
theory MsgPoolSteps imports LibMsgPool begin

text \<open>
  Consumers and producers of one pool, interleaved. Every operation runs under the pool's lock, so
  a step is one operation, or the part of a consumer before or after its wait. The theory shows
  that the pool is a sound queue for a single consumer, and what two consumers can see.
\<close>

section \<open>The step relation\<close>

text \<open>
  \<open>idle\<close> consumers are outside the pool, \<open>asleep\<close> ones wait unsignalled, \<open>awake\<close> ones have been
  signalled and wait for the lock. \<open>sent\<close> and \<open>taken\<close> are the messages put in and got out so far.
  A signal wakes one sleeper if there is one. The wait of POSIX may also return with no signal: that
  is the step \<open>spurious\<close>, and \<open>woken\<close> counts how often it happened in the run.
\<close>

record pool_sys =
  mem :: msg_pools
  idle :: nat
  asleep :: nat
  awake :: nat
  sent :: "ptr list"
  taken :: "ptr list"
  woken :: nat

inductive pool_step :: "ptr \<Rightarrow> pool_sys \<Rightarrow> pool_sys \<Rightarrow> bool" for mp where
  enter_get: "\<lbrakk> 0 < idle s; msg_pool_consumer mp (mem s) = Some (Got m, h) \<rbrakk> \<Longrightarrow>
     pool_step mp s (s\<lparr>mem := h, taken := taken s @ [m]\<rparr>)"
| enter_wait: "\<lbrakk> idle s = Suc k; msg_pool_consumer mp (mem s) = Some (Waiting, h) \<rbrakk> \<Longrightarrow>
     pool_step mp s (s\<lparr>mem := h, idle := k, asleep := Suc (asleep s)\<rparr>)"
| produce: "\<lbrakk> valid (mem s) x; dlist (mem s) (msg_list mp) ms; x \<notin> set (msg_list mp # ms);
     Suc (List.length ms) < 2 ^ 32; msg_pool_producer mp x (mem s) = Some (sig, h) \<rbrakk> \<Longrightarrow>
     pool_step mp s
       (if sig \<and> 0 < asleep s
        then s\<lparr>mem := h, sent := sent s @ [x], asleep := asleep s - 1, awake := Suc (awake s)\<rparr>
        else s\<lparr>mem := h, sent := sent s @ [x]\<rparr>)"
| resume: "\<lbrakk> awake s = Suc k; consumer_take mp (mem s) = Some (Got m, h) \<rbrakk> \<Longrightarrow>
     pool_step mp s (s\<lparr>mem := h, awake := k, idle := Suc (idle s), taken := taken s @ [m]\<rparr>)"
| spurious: "asleep s = Suc k \<Longrightarrow>
     pool_step mp s (s\<lparr>asleep := k, awake := Suc (awake s), woken := Suc (woken s)\<rparr>)"

inductive pool_reach :: "ptr \<Rightarrow> pool_sys \<Rightarrow> pool_sys \<Rightarrow> bool" for mp s where
  start: "pool_reach mp s s"
| more: "pool_reach mp s t \<Longrightarrow> pool_step mp t u \<Longrightarrow> pool_reach mp s u"

inductive_cases pool_stepE: "pool_step mp s t"

definition pool_start :: "ptr \<Rightarrow> nat \<Rightarrow> msg_pools \<Rightarrow> pool_sys" where
  "pool_start mp n h = \<lparr>mem = h, idle = n, asleep = 0, awake = 0, sent = [], taken = [], woken = 0\<rparr>"

section \<open>One consumer\<close>

text \<open>The invariant speaks of the runs in which no wait has returned by itself.\<close>

definition one_inv :: "ptr \<Rightarrow> pool_sys \<Rightarrow> bool" where
  "one_inv mp s \<longleftrightarrow> (\<exists>q. pool_rep (mem s) mp MSG_POOL_TYPE_CONSUMER_PRODUCER q \<and>
     sent s = taken s @ q \<and> idle s + asleep s + awake s = 1 \<and>
     (0 < asleep s \<longrightarrow> q = []) \<and> (0 < awake s \<longrightarrow> q \<noteq> []))"

lemma dlist_unique:
  assumes "dlist h hh xs" "dlist h hh ys"
  shows "xs = ys"
proof -
  have fwd_unique: "xs = ys" if "fwd h (a # xs @ [hh])" "fwd h (a # ys @ [hh])" "hh \<notin> set xs" "hh \<notin> set ys"
    for a xs ys
    using that
  proof (induction xs arbitrary: a ys)
    case Nil
    then show ?case by (cases ys) auto
  next
    case (Cons x xs)
    then show ?case by (cases ys) auto
  qed
  have "fwd h (hh # xs @ [hh])" "fwd h (hh # ys @ [hh])"
    using assms by (auto simp: dlist_def intro!: links_fwd)
  then show ?thesis using fwd_unique [of hh xs ys] assms by (auto simp: dlist_def)
qed

lemma one_inv_step:
  assumes inv: "one_inv mp s" and step: "pool_step mp s t" and calm: "woken t = 0"
  shows "one_inv mp t"
proof -
  obtain q where r: "pool_rep (mem s) mp MSG_POOL_TYPE_CONSUMER_PRODUCER q" and sq: "sent s = taken s @ q"
    and n: "idle s + asleep s + awake s = 1" and i: "0 < asleep s \<longrightarrow> q = []" "0 < awake s \<longrightarrow> q \<noteq> []"
    using inv by (auto simp: one_inv_def)
  note c = msg_pool_consumer_rep [OF r]
  show ?thesis
    using step
  proof (cases rule: pool_step.cases)
    case (enter_get m h)
    then obtain m' rest where q: "q = m' # rest" using c(1) by (cases q) auto
    then have "m' = m" "pool_rep h mp MSG_POOL_TYPE_CONSUMER_PRODUCER rest" using c(2) enter_get by auto
    then show ?thesis using q sq n i enter_get by (auto simp: one_inv_def)
  next
    case (enter_wait k h)
    then have "q = []" using c(2) by (cases q) fastforce+
    then show ?thesis using c(1) r sq n i enter_wait by (auto simp: one_inv_def)
  next
    case (produce x ms sig h)
    have "ms = q" using produce(3) pool_rep_facts(3) [OF r] dlist_unique by blast
    then have "sig = (q = [])" "pool_rep h mp MSG_POOL_TYPE_CONSUMER_PRODUCER (q @ [x])"
      using msg_pool_producer_rep [OF r, of x] produce by auto
    then show ?thesis using sq n i produce(1) by (auto simp: one_inv_def)
  next
    case (resume k m h)
    then obtain m' rest where q: "q = m' # rest" using i(2) by (cases q) auto
    then have "m' = m" "pool_rep h mp MSG_POOL_TYPE_CONSUMER_PRODUCER rest"
      using consumer_take_rep [of "mem s" mp _ m' rest] r resume by auto
    then show ?thesis using q sq n i resume by (auto simp: one_inv_def)
  next
    case (spurious k)
    then show ?thesis using calm by simp
  qed
qed

lemma woken_step: "pool_step mp s t \<Longrightarrow> woken s \<le> woken t"
  by (cases rule: pool_step.cases) (auto split: if_splits)

lemma one_inv_reach:
  assumes "pool_reach mp s t" "one_inv mp s" "woken t = 0"
  shows "one_inv mp t"
  using assms
proof (induction rule: pool_reach.induct)
  case (more t u)
  then have "woken t = 0" using woken_step [of mp t u] by simp
  then show ?case using more one_inv_step [of mp t u] by simp
qed simp

lemma one_inv_start:
  "pool_rep h mp MSG_POOL_TYPE_CONSUMER_PRODUCER [] \<Longrightarrow> one_inv mp (pool_start mp 1 h)"
  by (auto simp: one_inv_def pool_start_def)

text \<open>
  With one consumer whose waits return only on a signal, the messages taken are the messages sent,
  in order, up to those still queued, and the consumer never sleeps on a message.
\<close>

lemma single_consumer_fifo:
  assumes "pool_rep h mp MSG_POOL_TYPE_CONSUMER_PRODUCER []" "pool_reach mp (pool_start mp 1 h) t"
    "woken t = 0"
  shows "\<exists>q. sent t = taken t @ q \<and> dlist (mem t) (msg_list mp) q \<and> (0 < asleep t \<longrightarrow> q = []) \<and>
     (0 < awake t \<longrightarrow> q \<noteq> [])"
  using one_inv_reach [OF assms(2) one_inv_start [OF assms(1)] assms(3)]
  by (auto simp: one_inv_def pool_rep_def)

text \<open>The run in which the consumer waits, a message comes, and the consumer takes it.\<close>

lemma single_consumer_run:
  assumes r: "pool_rep h mp MSG_POOL_TYPE_CONSUMER_PRODUCER []" and x: "valid h x" "x \<noteq> msg_list mp"
  shows "\<exists>t. pool_reach mp (pool_start mp 1 h) t \<and> sent t = [x] \<and> taken t = [x] \<and> woken t = 0"
proof -
  let ?s0 = "pool_start mp 1 h"
  have w: "msg_pool_consumer mp h = Some (Waiting, h)" using msg_pool_consumer_rep(1) [OF r] by simp
  let ?s1 = "?s0\<lparr>mem := h, idle := 0, asleep := 1\<rparr>"
  have s1: "pool_step mp ?s0 ?s1"
    using enter_wait [of ?s0 0 mp h] w by (simp add: pool_start_def)
  have xn: "x \<notin> set (msg_list mp # [])" using x by simp
  obtain h2 where h2: "msg_pool_producer mp x h = Some (True, h2)"
    "pool_rep h2 mp MSG_POOL_TYPE_CONSUMER_PRODUCER [x]"
    using msg_pool_producer_rep [OF r x(1) xn] by auto
  let ?s2 = "?s1\<lparr>mem := h2, sent := [x], asleep := 0, awake := 1\<rparr>"
  have s2: "pool_step mp ?s1 ?s2"
    using produce [of ?s1 x mp "[]" True h2] h2(1) x pool_rep_facts(3) [OF r] by (simp add: pool_start_def)
  obtain h3 where h3: "consumer_take mp h2 = Some (Got x, h3)"
    using consumer_take_rep [OF h2(2)] by blast
  let ?s3 = "?s2\<lparr>mem := h3, awake := 0, idle := 1, taken := [x]\<rparr>"
  have s3: "pool_step mp ?s2 ?s3"
    using resume [of ?s2 0 mp x h3] h3 by (simp add: pool_start_def)
  have "pool_reach mp ?s0 ?s3" by (intro start more [OF _ s3] more [OF _ s2] more [OF _ s1])
  then show ?thesis by (intro exI [of _ ?s3]) (simp add: pool_start_def)
qed

text \<open>One wait that returns by itself is enough: the \<open>if\<close> does not look at the count again.\<close>

lemma spurious_takes_head:
  assumes r: "pool_rep h mp MSG_POOL_TYPE_CONSUMER_PRODUCER []"
  shows "\<exists>t. pool_reach mp (pool_start mp 1 h) t \<and> woken t = 1 \<and> sent t = [] \<and> taken t = [msg_list mp] \<and>
     mp_count (mem t) mp = - 1"
proof -
  let ?s0 = "pool_start mp 1 h"
  have w: "msg_pool_consumer mp h = Some (Waiting, h)" using msg_pool_consumer_rep(1) [OF r] by simp
  let ?s1 = "?s0\<lparr>mem := h, idle := 0, asleep := 1\<rparr>"
  have s1: "pool_step mp ?s0 ?s1"
    using enter_wait [of ?s0 0 mp h] w by (simp add: pool_start_def)
  let ?s2 = "?s1\<lparr>asleep := 0, awake := 1, woken := 1\<rparr>"
  have s2: "pool_step mp ?s1 ?s2"
    using spurious [of ?s1 0 mp] by (simp add: pool_start_def)
  obtain h3 where h3: "consumer_take mp h = Some (Got (msg_list mp), h3)" "mp_count h3 mp = - 1"
    using consumer_take_empty [OF r] by blast
  let ?s3 = "?s2\<lparr>mem := h3, awake := 0, idle := 1, taken := [msg_list mp]\<rparr>"
  have s3: "pool_step mp ?s2 ?s3"
    using resume [of ?s2 0 mp "msg_list mp" h3] h3(1) by (simp add: pool_start_def)
  have "pool_reach mp ?s0 ?s3" by (intro start more [OF _ s3] more [OF _ s2] more [OF _ s1])
  then show ?thesis using h3(2) by (intro exI [of _ ?s3]) (simp add: pool_start_def)
qed

section \<open>Two consumers\<close>

text \<open>
  The wait is guarded by \<open>if\<close> and not by \<open>while\<close>: a consumer that was signalled can find that
  another one has taken the message meanwhile, and then takes the head of the list itself.
\<close>

lemma two_consumers_take_head:
  assumes r: "pool_rep h mp MSG_POOL_TYPE_CONSUMER_PRODUCER []" and x: "valid h x" "x \<noteq> msg_list mp"
  shows "\<exists>t. pool_reach mp (pool_start mp 2 h) t \<and> sent t = [x] \<and> taken t = [x, msg_list mp] \<and>
     mp_count (mem t) mp = - 1 \<and> woken t = 0"
proof -
  let ?s0 = "pool_start mp 2 h"
  have w: "msg_pool_consumer mp h = Some (Waiting, h)" using msg_pool_consumer_rep(1) [OF r] by simp
  let ?s1 = "?s0\<lparr>mem := h, idle := 1, asleep := 1\<rparr>"
  have s1: "pool_step mp ?s0 ?s1"
    using enter_wait [of ?s0 1 mp h] w by (simp add: pool_start_def)
  have xn: "x \<notin> set (msg_list mp # [])" using x by simp
  obtain h2 where h2: "msg_pool_producer mp x h = Some (True, h2)"
    "pool_rep h2 mp MSG_POOL_TYPE_CONSUMER_PRODUCER [x]"
    using msg_pool_producer_rep [OF r x(1) xn] by auto
  let ?s2 = "?s1\<lparr>mem := h2, sent := [x], asleep := 0, awake := 1\<rparr>"
  have s2: "pool_step mp ?s1 ?s2"
    using produce [of ?s1 x mp "[]" True h2] h2(1) x pool_rep_facts(3) [OF r] by (simp add: pool_start_def)
  obtain h3 where h3: "msg_pool_consumer mp h2 = Some (Got x, h3)"
    "pool_rep h3 mp MSG_POOL_TYPE_CONSUMER_PRODUCER []"
    using msg_pool_consumer_rep(2) [OF h2(2)] by auto
  let ?s3 = "?s2\<lparr>mem := h3, taken := [x]\<rparr>"
  have s3: "pool_step mp ?s2 ?s3"
    using enter_get [of ?s2 mp x h3] h3(1) by (simp add: pool_start_def)
  obtain h4 where h4: "consumer_take mp h3 = Some (Got (msg_list mp), h4)" "mp_count h4 mp = - 1"
    using consumer_take_empty [OF h3(2)] by blast
  let ?s4 = "?s3\<lparr>mem := h4, awake := 0, idle := 2, taken := [x, msg_list mp]\<rparr>"
  have s4: "pool_step mp ?s3 ?s4"
    using resume [of ?s3 0 mp "msg_list mp" h4] h4(1) by (simp add: pool_start_def numeral_2_eq_2)
  have "pool_reach mp ?s0 ?s4" by (intro start more [OF _ s4] more [OF _ s3] more [OF _ s2] more [OF _ s1])
  moreover have "sent ?s4 = [x]" "taken ?s4 = [x, msg_list mp]" "woken ?s4 = 0" by (simp_all add: pool_start_def)
  ultimately show ?thesis using h4(2) by (intro exI [of _ ?s4]) simp
qed

text \<open>
  A producer signals only when the count becomes \<open>1\<close>: with two consumers asleep, two messages in a
  row wake one of them, and the other sleeps on beside a queued message.
\<close>

lemma two_consumers_lost_wakeup:
  assumes r: "pool_rep h mp MSG_POOL_TYPE_CONSUMER_PRODUCER []"
    and x: "valid h x" "x \<noteq> msg_list mp" and y: "valid h y" "y \<noteq> msg_list mp" "x \<noteq> y"
  shows "\<exists>t. pool_reach mp (pool_start mp 2 h) t \<and> asleep t = 1 \<and> awake t = 0 \<and> taken t = [x] \<and>
     dlist (mem t) (msg_list mp) [y] \<and> woken t = 0"
proof -
  let ?s0 = "pool_start mp 2 h"
  have w: "msg_pool_consumer mp h = Some (Waiting, h)" using msg_pool_consumer_rep(1) [OF r] by simp
  let ?s1 = "?s0\<lparr>mem := h, idle := 1, asleep := 1\<rparr>"
  have s1: "pool_step mp ?s0 ?s1"
    using enter_wait [of ?s0 1 mp h] w by (simp add: pool_start_def)
  let ?s2 = "?s1\<lparr>mem := h, idle := 0, asleep := 2\<rparr>"
  have s2: "pool_step mp ?s1 ?s2"
    using enter_wait [of ?s1 0 mp h] w by (simp add: pool_start_def numeral_2_eq_2)
  have xn: "x \<notin> set (msg_list mp # [])" using x by simp
  obtain h3 where h3: "msg_pool_producer mp x h = Some (True, h3)"
    "pool_rep h3 mp MSG_POOL_TYPE_CONSUMER_PRODUCER [x]" "valid h3 y"
  proof -
    obtain p where a: "lib_list_add_tail x (msg_list mp) h = Some (linked p x (msg_list mp) h)"
      by (rule lib_list_add_tail_ok [OF pool_rep_facts(3) [OF r] x(1) xn])
    obtain h3 where e: "msg_pool_producer mp x h = Some (True, h3)"
      "pool_rep h3 mp MSG_POOL_TYPE_CONSUMER_PRODUCER [x]"
      using msg_pool_producer_rep [OF r x(1) xn] by auto
    have "live h3 = live h"
      using e(1) a pool_rep_facts [OF r] x(1)
      by (auto simp: msg_pool_producer_def CHECK_POOL_CONSUMER_def Let_def dest: valid_pos split: if_splits)
    then show ?thesis using that e y(1) by (simp add: valid_def)
  qed
  let ?s3 = "?s2\<lparr>mem := h3, sent := [x], asleep := 1, awake := 1\<rparr>"
  have s3: "pool_step mp ?s2 ?s3"
    using produce [of ?s2 x mp "[]" True h3] h3(1) x pool_rep_facts(3) [OF r] by (simp add: pool_start_def)
  have yn: "y \<notin> set (msg_list mp # [x])" using y by simp
  obtain h4 where h4: "msg_pool_producer mp y h3 = Some (False, h4)"
    "pool_rep h4 mp MSG_POOL_TYPE_CONSUMER_PRODUCER [x, y]"
    using msg_pool_producer_rep [OF h3(2,3) yn] by auto
  let ?s4 = "?s3\<lparr>mem := h4, sent := [x, y]\<rparr>"
  have s4: "pool_step mp ?s3 ?s4"
    using produce [of ?s3 y mp "[x]" False h4] h4(1) h3(3) yn pool_rep_facts(3) [OF h3(2)]
    by (simp add: pool_start_def)
  obtain h5 where h5: "consumer_take mp h4 = Some (Got x, h5)"
    "pool_rep h5 mp MSG_POOL_TYPE_CONSUMER_PRODUCER [y]"
    using consumer_take_rep [OF h4(2)] by blast
  let ?s5 = "?s4\<lparr>mem := h5, awake := 0, idle := 1, taken := [x]\<rparr>"
  have s5: "pool_step mp ?s4 ?s5"
    using resume [of ?s4 0 mp x h5] h5(1) by (simp add: pool_start_def)
  have "pool_reach mp ?s0 ?s5"
    by (intro start more [OF _ s5] more [OF _ s4] more [OF _ s3] more [OF _ s2] more [OF _ s1])
  then show ?thesis using pool_rep_facts(3) [OF h5(2)] by (intro exI [of _ ?s5]) (simp add: pool_start_def)
qed

section \<open>Properties\<close>

text \<open>C1: for one consumer and any number of producers, in every interleaving of their operations in
  which the consumer's wait returns only when it was signalled (no spurious wake-up, which POSIX allows and
  against which the code does not guard), the messages taken are the messages sent, in order, up to those
  still on the list; the consumer sleeps only while the list is empty, and when it was signalled there is a
  message for it.\<close>

theorem msg_pool_single_consumer:
  assumes "pool_rep h mp MSG_POOL_TYPE_CONSUMER_PRODUCER []" "pool_reach mp (pool_start mp 1 h) t"
    "woken t = 0"
  shows "\<exists>q. sent t = taken t @ q \<and> dlist (mem t) (msg_list mp) q \<and> (0 < asleep t \<longrightarrow> q = []) \<and>
     (0 < awake t \<longrightarrow> q \<noteq> [])"
  by (rule single_consumer_fifo [OF assms])

theorem msg_pool_single_consumer_witness:
  "\<exists>t q. pool_reach 1 (pool_start 1 1 (pool_demo MSG_POOL_TYPE_CONSUMER_PRODUCER)) t \<and> sent t = [3] \<and>
     taken t = [3] \<and> sent t = taken t @ q \<and> dlist (mem t) (msg_list 1) q"
proof -
  obtain t where t: "pool_reach 1 (pool_start 1 1 (pool_demo MSG_POOL_TYPE_CONSUMER_PRODUCER)) t"
    "sent t = [3]" "taken t = [3]" "woken t = 0"
    using single_consumer_run [OF pool_demo_rep(1,2)] by (auto simp: numeral_2_eq_2)
  show ?thesis using msg_pool_single_consumer [OF pool_demo_rep(1) t(1,4)] t by auto
qed

text \<open>C3: a single wait that returns with no signal, as POSIX allows, breaks the pool even for one consumer:
  a run exists in which nothing was sent and the consumer is given the head of the list itself as a message,
  and the count becomes \<open>2 ^ 32 - 1\<close>, because the wait is guarded by \<open>if\<close> and not by \<open>while\<close>.\<close>

theorem msg_pool_spurious_wakeup:
  assumes "pool_rep h mp MSG_POOL_TYPE_CONSUMER_PRODUCER []"
  shows "\<exists>t. pool_reach mp (pool_start mp 1 h) t \<and> woken t = 1 \<and> sent t = [] \<and> taken t = [msg_list mp] \<and>
     mp_count (mem t) mp = - 1"
  by (rule spurious_takes_head [OF assms])

theorem msg_pool_spurious_wakeup_witness:
  "\<exists>t. pool_reach 1 (pool_start 1 1 (pool_demo MSG_POOL_TYPE_CONSUMER_PRODUCER)) t \<and> woken t = 1 \<and>
     sent t = [] \<and> taken t = [2] \<and> mp_count (mem t) 1 = - 1"
  using msg_pool_spurious_wakeup [OF pool_demo_rep(1)] by (simp add: numeral_2_eq_2)

text \<open>C2: with two consumers a run with no spurious wake-up exists in which one message is sent and two are taken: the second
  consumer gets the head of the list itself, and the count becomes \<open>2 ^ 32 - 1\<close>.\<close>

theorem msg_pool_two_consumers:
  assumes "pool_rep h mp MSG_POOL_TYPE_CONSUMER_PRODUCER []" "valid h x" "x \<noteq> msg_list mp"
  shows "\<exists>t. pool_reach mp (pool_start mp 2 h) t \<and> sent t = [x] \<and> taken t = [x, msg_list mp] \<and>
     mp_count (mem t) mp = - 1 \<and> woken t = 0"
  by (rule two_consumers_take_head [OF assms])

theorem msg_pool_two_consumers_witness:
  "\<exists>t. pool_reach 1 (pool_start 1 2 (pool_demo MSG_POOL_TYPE_CONSUMER_PRODUCER)) t \<and> sent t = [3] \<and>
     taken t = [3, 2] \<and> mp_count (mem t) 1 = - 1 \<and> woken t = 0"
  using msg_pool_two_consumers [OF pool_demo_rep(1,2)] by (simp add: numeral_2_eq_2)

text \<open>C4: a producer signals only the message that makes the count \<open>1\<close>: with two consumers asleep, a run
  with no spurious wake-up exists that ends with one of them still asleep and unsignalled beside a queued message.\<close>

theorem msg_pool_lost_wakeup:
  assumes "pool_rep h mp MSG_POOL_TYPE_CONSUMER_PRODUCER []" "valid h x" "x \<noteq> msg_list mp"
    "valid h y" "y \<noteq> msg_list mp" "x \<noteq> y"
  shows "\<exists>t. pool_reach mp (pool_start mp 2 h) t \<and> asleep t = 1 \<and> awake t = 0 \<and> taken t = [x] \<and>
     dlist (mem t) (msg_list mp) [y] \<and> woken t = 0"
  by (rule two_consumers_lost_wakeup [OF assms])

theorem msg_pool_lost_wakeup_witness:
  "\<exists>t. pool_reach 1 (pool_start 1 2 (pool_demo MSG_POOL_TYPE_CONSUMER_PRODUCER)) t \<and> asleep t = 1 \<and>
     awake t = 0 \<and> taken t = [3] \<and> dlist (mem t) 2 [4] \<and> woken t = 0"
  using msg_pool_lost_wakeup [OF pool_demo_rep(1,2) _ pool_demo_rep(3)] by (simp add: numeral_2_eq_2)

end
