(* ===== verification/LibPoll.thy ===== *)
theory LibPoll imports LibIo LibSocket begin

text \<open>
  \<open>Server/Lib/lib-poll.c\<close>: the epoll reactor. This theory has the state, the creation of a reactor and
  the operations that register and remove descriptors, timers and signals; the loop \<open>poll_wait\<close> and
  the acceptors are in LibPollLoop.

  A \<open>poll_poll_t\<close> at address \<open>p\<close> has its list heads \<open>timer_list\<close> at \<open>p + 1\<close> and \<open>signal_list\<close> at \<open>p + 2\<close>. The
  epoll instance of the kernel is the map \<open>interest\<close> from its descriptor to the descriptors it watches
  and their events. The answers of the other system calls come from \<open>net\<close>, as in LibSocket, and \<open>net\<close>
  keeps the descriptors that have been closed. The mutex of \<open>pBase\<close> makes its operations atomic.
\<close>

section \<open>State\<close>

record poll_poll =
  magic :: int
  server_list :: ptr
  pFun_itr :: nat
  pItr_param :: ptr
  pSig_srv :: ptr
  last_act_srv :: int
  last_act_tmr :: int
  last_act_sig :: int
  last_act_fd :: int
  ep_fd :: int
  max_event :: int
  max_conn :: int
  pipe_rd :: int
  pipe_wr :: int
  min_timeout :: int
  pid :: int
  run :: int

record poll_server =
  ep_events :: "32 word"
  srv_poll :: ptr
  server_fd :: int
  pFun_svr :: nat
  pParam :: ptr
  pFun_del :: nat
  pParam_del :: ptr
  srv_last_time :: int
  idle_timeout :: int

record poll_signal =
  sig_poll :: ptr
  sig_no :: int
  pFun_sig :: nat
  sig_param :: ptr
  notify :: int
  old_sig :: nat

record poll_timer =
  tmr_poll :: ptr
  pFun_tmr :: nat
  tmr_param :: ptr
  timeout :: int
  times :: int
  notify_times :: int
  last_notify :: int

text \<open>\<open>poll_acceptor_t\<close>, \<open>poll_connector_t\<close> and \<open>poll_recvor_t\<close> have the same members.\<close>

record poll_conn =
  conn_poll :: ptr
  conn_fd :: int
  socket_timeout :: int
  conn_fun :: nat
  conn_param :: ptr

record poll_duplexer =
  dup_poll :: ptr
  accept_fd :: int
  dup_timeout :: int
  pfun_peer :: nat
  pfun_accept :: nat
  pfun_del :: nat
  param_accept :: ptr
  param_del :: ptr

record polls = ios +
  pBase :: ptr
  base_poll :: "ptr \<Rightarrow> ptr"
  ppoll :: "ptr \<Rightarrow> poll_poll"
  psrv :: "ptr \<Rightarrow> poll_server"
  psig :: "ptr \<Rightarrow> poll_signal"
  ptmr :: "ptr \<Rightarrow> poll_timer"
  pconn :: "ptr \<Rightarrow> poll_conn"
  pdup :: "ptr \<Rightarrow> poll_duplexer"
  now :: int
  getpid :: int
  net :: sock
  interest :: "int \<Rightarrow> int \<Rightarrow> 32 word option"
  handler :: "int \<Rightarrow> nat"

text \<open>The call backs: what the numbers in the function pointers stand for.\<close>

record 'w poll_codes =
  svr_code :: "nat \<Rightarrow> int \<Rightarrow> int \<Rightarrow> ptr \<Rightarrow> 'w \<Rightarrow> (int \<times> 'w) option"
  tmr_code :: "nat \<Rightarrow> ptr \<Rightarrow> 'w \<Rightarrow> (int \<times> 'w) option"
  sig_code :: "nat \<Rightarrow> int \<Rightarrow> ptr \<Rightarrow> 'w \<Rightarrow> (int \<times> 'w) option"
  itr_code :: "nat \<Rightarrow> ptr \<Rightarrow> 'w \<Rightarrow> (int \<times> 'w) option"
  del_code :: "nat \<Rightarrow> int \<Rightarrow> ptr \<Rightarrow> ptr \<Rightarrow> 'w \<Rightarrow> (int \<times> 'w) option"

section \<open>Constants\<close>

definition POLL_MAX_EVENT_NUM :: int where "POLL_MAX_EVENT_NUM = 50000"
definition POLL_HASH_SIZE :: int where "POLL_HASH_SIZE = 50000"
definition POLL_MAGIC :: int where "POLL_MAGIC = 0x12345678"
definition POLL_MAX_CLEAN_IDLE_FD_TIME :: int where "POLL_MAX_CLEAN_IDLE_FD_TIME = 60 * 20"
definition POLL_TIMEOUT_DEFAULT :: int where "POLL_TIMEOUT_DEFAULT = - 1"
definition POLL_EVENT_IN :: int where "POLL_EVENT_IN = 1"
definition POLL_EVENT_OUT :: int where "POLL_EVENT_OUT = 2"
definition POLL_EVENT_ERR :: int where "POLL_EVENT_ERR = 4"
definition POLL_FUNC_IDLE :: int where "POLL_FUNC_IDLE = 0"
definition POLL_FUNC_DEL :: int where "POLL_FUNC_DEL = 1"
definition EPOLLIN :: "32 word" where "EPOLLIN = 1"
definition EPOLLOUT :: "32 word" where "EPOLLOUT = 4"
definition EPOLLERR :: "32 word" where "EPOLLERR = 8"
definition EPOLLHUP :: "32 word" where "EPOLLHUP = 16"

text \<open>The functions of this file among the server call backs, and the key function of the table.\<close>

definition SVR_SIGNAL :: nat where "SVR_SIGNAL = 1"
definition SVR_ACCEPT :: nat where "SVR_ACCEPT = 2"
definition SVR_RECVFROM :: nat where "SVR_RECVFROM = 3"
definition SVR_DUPLEX :: nat where "SVR_DUPLEX = 4"
definition SIG_HANDLER :: nat where "SIG_HANDLER = 1"
definition POLL_KEY :: nat where "POLL_KEY = 2"

section \<open>Access\<close>

definition get_poll :: "ptr \<Rightarrow> 'a polls_scheme \<Rightarrow> poll_poll option" where
  "get_poll p h = (if valid h p then Some (ppoll h p) else None)"

definition upd_poll :: "ptr \<Rightarrow> (poll_poll \<Rightarrow> poll_poll) \<Rightarrow> 'a polls_scheme \<Rightarrow> 'a polls_scheme option" where
  "upd_poll p f h = (if valid h p then Some (h\<lparr>ppoll := (ppoll h)(p := f (ppoll h p))\<rparr>) else None)"

definition get_srv :: "ptr \<Rightarrow> 'a polls_scheme \<Rightarrow> poll_server option" where
  "get_srv p h = (if valid h p then Some (psrv h p) else None)"

definition upd_srv :: "ptr \<Rightarrow> (poll_server \<Rightarrow> poll_server) \<Rightarrow> 'a polls_scheme \<Rightarrow> 'a polls_scheme option" where
  "upd_srv p f h = (if valid h p then Some (h\<lparr>psrv := (psrv h)(p := f (psrv h p))\<rparr>) else None)"

definition get_sig :: "ptr \<Rightarrow> 'a polls_scheme \<Rightarrow> poll_signal option" where
  "get_sig p h = (if valid h p then Some (psig h p) else None)"

definition upd_sig :: "ptr \<Rightarrow> (poll_signal \<Rightarrow> poll_signal) \<Rightarrow> 'a polls_scheme \<Rightarrow> 'a polls_scheme option" where
  "upd_sig p f h = (if valid h p then Some (h\<lparr>psig := (psig h)(p := f (psig h p))\<rparr>) else None)"

definition get_tmr :: "ptr \<Rightarrow> 'a polls_scheme \<Rightarrow> poll_timer option" where
  "get_tmr p h = (if valid h p then Some (ptmr h p) else None)"

definition upd_tmr :: "ptr \<Rightarrow> (poll_timer \<Rightarrow> poll_timer) \<Rightarrow> 'a polls_scheme \<Rightarrow> 'a polls_scheme option" where
  "upd_tmr p f h = (if valid h p then Some (h\<lparr>ptmr := (ptmr h)(p := f (ptmr h p))\<rparr>) else None)"

abbreviation timer_list :: "ptr \<Rightarrow> ptr" where "timer_list p \<equiv> p + 1"
abbreviation signal_list :: "ptr \<Rightarrow> ptr" where "signal_list p \<equiv> p + 2"

text \<open>A system call whose \<open>errno\<close> does not matter, and the closing of a descriptor.\<close>

definition net_call :: "'a polls_scheme \<Rightarrow> int \<times> 'a polls_scheme" where
  "net_call h = (let (ret, _, s) = sys_call (net h) in (ret, h\<lparr>net := s\<rparr>))"

definition net_close :: "int \<Rightarrow> 'a polls_scheme \<Rightarrow> 'a polls_scheme" where
  "net_close fd h = h\<lparr>net := snd (lib_close fd (net h))\<rparr>"

definition net_accept :: "int \<Rightarrow> 'a polls_scheme \<Rightarrow> int \<times> 'a polls_scheme" where
  "net_accept fd h = (let (ret, s) = lib_accept fd (net h) in (ret, h\<lparr>net := s\<rparr>))"

text \<open>
  \<open>epoll_ctl\<close>: adding a descriptor that is watched already, or changing one that is not, fails in any
  case; the next answer may make it fail besides. Taking one out is never checked by the callers.
\<close>

definition watch :: "int \<Rightarrow> int \<Rightarrow> 32 word option \<Rightarrow> 'a polls_scheme \<Rightarrow> 'a polls_scheme" where
  "watch ep fd ev h = h\<lparr>interest := (interest h)(ep := (interest h ep)(fd := ev))\<rparr>"

definition epoll_add :: "int \<Rightarrow> int \<Rightarrow> 32 word \<Rightarrow> 'a polls_scheme \<Rightarrow> int \<times> 'a polls_scheme" where
  "epoll_add ep fd ev h =
     (let (ret, h) = net_call h
      in if ret < 0 \<or> interest h ep fd \<noteq> None then (- 1, h) else (0, watch ep fd (Some ev) h))"

definition epoll_mod :: "int \<Rightarrow> int \<Rightarrow> 32 word \<Rightarrow> 'a polls_scheme \<Rightarrow> int \<times> 'a polls_scheme" where
  "epoll_mod ep fd ev h =
     (let (ret, h) = net_call h
      in if ret < 0 \<or> interest h ep fd = None then (- 1, h) else (0, watch ep fd (Some ev) h))"

section \<open>Call backs\<close>

definition poll_server_safe :: "ptr \<Rightarrow> int \<Rightarrow> 'a polls_scheme \<Rightarrow> int option" where
  "poll_server_safe p fd h = do {
     pp \<leftarrow> get_poll p h;
     Some (if last_act_srv pp \<noteq> POLL_FUNC_DEL \<or> (last_act_srv pp = POLL_FUNC_DEL \<and> last_act_fd pp \<noteq> fd)
           then OK else ERROR) }"

definition poll_call_timer :: "'a polls_scheme poll_codes \<Rightarrow> ptr \<Rightarrow> 'a polls_scheme \<Rightarrow> (int \<times> 'a polls_scheme) option" where
  "poll_call_timer cds t h = do {
     tm \<leftarrow> get_tmr t h;
     h \<leftarrow> upd_poll (tmr_poll tm) (\<lambda>pp. pp\<lparr>last_act_tmr := POLL_FUNC_IDLE, last_act_fd := - 1\<rparr>) h;
     if pFun_tmr tm \<noteq> 0 then tmr_code cds (pFun_tmr tm) (tmr_param tm) h else Some (0, h) }"

definition poll_call_signal :: "'a polls_scheme poll_codes \<Rightarrow> ptr \<Rightarrow> 'a polls_scheme \<Rightarrow> (int \<times> 'a polls_scheme) option" where
  "poll_call_signal cds s h = do {
     sg \<leftarrow> get_sig s h;
     h \<leftarrow> upd_poll (sig_poll sg) (\<lambda>pp. pp\<lparr>last_act_sig := POLL_FUNC_IDLE, last_act_fd := - 1\<rparr>) h;
     if pFun_sig sg \<noteq> 0 then sig_code cds (pFun_sig sg) (sig_no sg) (sig_param sg) h else Some (0, h) }"

text \<open>Two checked \<open>fcntl\<close> calls.\<close>

definition poll_set_pipe :: "int \<Rightarrow> 'a polls_scheme \<Rightarrow> int \<times> 'a polls_scheme" where
  "poll_set_pipe fd h =
     (let (flags, h) = net_call h
      in if flags < 0 then (ERROR, h)
      else let (ret, h) = net_call h in (if ret < 0 then ERROR else OK, h))"

definition poll_sig :: "'a polls_scheme poll_codes \<Rightarrow> ptr \<Rightarrow> 'a polls_scheme \<Rightarrow> 'a polls_scheme option" where
  "poll_sig cds p h = do {
     (h, _) \<leftarrow> lib_list_for_each_safe
       (\<lambda>node h (_ :: unit). do {
          sg \<leftarrow> get_sig node h;
          if 0 < notify sg
          then do {
            h \<leftarrow> upd_sig node (\<lambda>sg. sg\<lparr>notify := 0\<rparr>) h;
            (_, h) \<leftarrow> poll_call_signal cds node h;
            Some (h, (), False) }
          else Some (h, (), False) })
       (signal_list p) h ();
     Some h }"

definition poll_get_sig_by_no :: "ptr \<Rightarrow> int \<Rightarrow> 'a polls_scheme \<Rightarrow> ptr option" where
  "poll_get_sig_by_no p no h = do {
     (_, r) \<leftarrow> lib_list_for_each
       (\<lambda>node h r. do {
          sg \<leftarrow> get_sig node h;
          if sig_no sg = no then Some (h, node, True) else Some (h, r, False) })
       (signal_list p) h NULL;
     Some r }"

text \<open>The handler marks the signal in every reactor of the process that has it; the byte it writes into
  the pipe wakes the loop.\<close>

definition poll_signal_handle :: "int \<Rightarrow> 'a polls_scheme \<Rightarrow> 'a polls_scheme option" where
  "poll_signal_handle signum h =
     (if pBase h = NULL then Some h
      else do {
        (h, _) \<leftarrow> lib_list_for_each_safe
          (\<lambda>node h (_ :: unit).
             let p = base_poll h node
             in if p = NULL then Some (h, (), True)
             else do {
               pp \<leftarrow> get_poll p h;
               if magic pp \<noteq> POLL_MAGIC then Some (h, (), False)
               else if pid pp \<noteq> getpid h then Some (h, (), False)
               else do {
                 sg \<leftarrow> poll_get_sig_by_no p signum h;
                 if sg = NULL then Some (h, (), False)
                 else if 0 < pipe_wr pp
                 then do { h \<leftarrow> upd_sig sg (\<lambda>s. s\<lparr>notify := 1\<rparr>) h; Some (h, (), False) }
                 else Some (h, (), False) } })
          (pBase h) h ();
        Some h })"

section \<open>The table of servers\<close>

definition poll_hash_fd :: "int \<Rightarrow> int" where
  "poll_hash_fd fd = c_rem fd POLL_HASH_SIZE"

definition poll_hash_creat_key :: "ptr \<Rightarrow> 'a polls_scheme \<Rightarrow> int option" where
  "poll_hash_creat_key node h = do { srv \<leftarrow> get_srv node h; Some (poll_hash_fd (server_fd srv)) }"

definition poll_keys :: "'a polls_scheme key_code" where
  "poll_keys ck node p h = (if ck = POLL_KEY then poll_hash_creat_key node h else io_keys ck node p h)"

definition poll_compare_fd :: "ptr \<Rightarrow> int \<Rightarrow> 'a polls_scheme \<Rightarrow> int option" where
  "poll_compare_fd node fd h = do { srv \<leftarrow> get_srv node h; Some (if fd = server_fd srv then ERROR else OK) }"

definition poll_get_server_by_fd :: "ptr \<Rightarrow> int \<Rightarrow> 'a polls_scheme \<Rightarrow> ptr option" where
  "poll_get_server_by_fd p fd h = do {
     pp \<leftarrow> get_poll p h;
     (node, _, _) \<leftarrow> hash_walk (\<lambda>node h l. do { r \<leftarrow> poll_compare_fd node fd h; Some (r, h, l) })
       (server_list pp) (poll_hash_fd fd) h ();
     Some node }"

definition poll_del_fd :: "ptr \<Rightarrow> int \<Rightarrow> 'a polls_scheme \<Rightarrow> 'a polls_scheme option" where
  "poll_del_fd p fd h = do { pp \<leftarrow> get_poll p h; Some (watch (ep_fd pp) fd None h) }"

definition poll_free_srv_list :: "ptr \<Rightarrow> 'a polls_scheme \<Rightarrow> 'a polls_scheme option" where
  "poll_free_srv_list node h =
     (if node = NULL then Some h
      else do {
        srv \<leftarrow> get_srv node h;
        h \<leftarrow> poll_del_fd (srv_poll srv) (server_fd srv) h;
        mem_free node h })"

definition poll_free_sig_list :: "ptr \<Rightarrow> 'a polls_scheme \<Rightarrow> 'a polls_scheme option" where
  "poll_free_sig_list node h = (if node = NULL then Some h else mem_free node h)"

definition poll_free_tmr_list :: "ptr \<Rightarrow> 'a polls_scheme \<Rightarrow> 'a polls_scheme option" where
  "poll_free_tmr_list node h = (if node = NULL then Some h else mem_free node h)"

definition poll_self_fun_signal ::
  "'a polls_scheme poll_codes \<Rightarrow> int \<Rightarrow> int \<Rightarrow> ptr \<Rightarrow> 'a polls_scheme \<Rightarrow> (int \<times> 'a polls_scheme) option"
where
  "poll_self_fun_signal cds fd type param h =
     (if param = NULL then Some (ERROR, h)
      else if type = POLL_EVENT_IN then do { h \<leftarrow> poll_sig cds param h; Some (OK, h) }
      else Some (OK, h))"

section \<open>All reactors of the process\<close>

definition poll_base_get :: "ptr \<Rightarrow> 'a polls_scheme \<Rightarrow> ptr option" where
  "poll_base_get p h =
     (if pBase h = NULL then Some NULL
      else do {
        (_, node, found) \<leftarrow> lib_list_for_each
          (\<lambda>node h (_, found). if base_poll h node = p then Some (h, (node, True), True) else Some (h, (node, found), False))
          (pBase h) h (NULL, False);
        Some (if found then node else NULL) })"

definition poll_base_add :: "ptr \<Rightarrow> 'a polls_scheme \<Rightarrow> (int \<times> 'a polls_scheme) option" where
  "poll_base_add p h = do {
     (ok, h) \<leftarrow>
       (if pBase h = NULL
        then (let (b, h) = mem_malloc h; h = h\<lparr>pBase := b\<rparr>
              in if b = NULL then Some (False, h)
              else do { h \<leftarrow> INIT_LIB_LIST b h; Some (True, h) })
        else Some (True, h));
     if \<not> ok then Some (ERROR, h)
     else do {
       old \<leftarrow> poll_base_get p h;
       if old \<noteq> NULL then Some (OK, h)
       else
         let (node, h) = mem_malloc h
         in if node = NULL then Some (ERROR, h)
         else do {
           let h = h\<lparr>base_poll := (base_poll h)(node := p)\<rparr>;
           h \<leftarrow> lib_list_add node (pBase h) h;
           Some (OK, h) } } }"

definition poll_base_del :: "ptr \<Rightarrow> 'a polls_scheme \<Rightarrow> (int \<times> 'a polls_scheme) option" where
  "poll_base_del p h =
     (if pBase h = NULL then Some (OK, h)
      else do {
        node \<leftarrow> poll_base_get p h;
        if node \<noteq> NULL
        then do { h \<leftarrow> lib_list_del node h; h \<leftarrow> mem_free node h; Some (OK, h) }
        else Some (OK, h) })"

definition poll_get_server :: "ptr \<Rightarrow> int \<Rightarrow> 'a polls_scheme \<Rightarrow> ptr option" where
  "poll_get_server p fd h = poll_get_server_by_fd p fd h"

definition poll_init :: "'a polls_scheme \<Rightarrow> 'a polls_scheme" where
  "poll_init h = h\<lparr>pBase := NULL\<rparr>"

section \<open>Creating and freeing a reactor\<close>

definition zero_poll :: poll_poll where
  "zero_poll = \<lparr>magic = 0, server_list = NULL, pFun_itr = 0, pItr_param = NULL, pSig_srv = NULL, last_act_srv = 0,
     last_act_tmr = 0, last_act_sig = 0, last_act_fd = 0, ep_fd = 0, max_event = 0, max_conn = 0, pipe_rd = 0,
     pipe_wr = 0, min_timeout = 0, pid = 0, run = 0\<rparr>"

definition poll_new :: "int \<Rightarrow> 'a polls_scheme \<Rightarrow> (ptr \<times> 'a polls_scheme) option" where
  "poll_new mx h =
     (let (p, h) = mem_malloc_array 3 h
      in if p = NULL then Some (NULL, h)
      else
        let (ep, h) = net_call h
        in if ep < 0 then do { h \<leftarrow> mem_free_array p 3 h; Some (NULL, h) }
        else do {
          let h = h\<lparr>ppoll := (ppoll h)(p := zero_poll\<lparr>ep_fd := ep, magic := POLL_MAGIC\<rparr>)\<rparr>;
          (t, h) \<leftarrow> hash_create POLL_HASH_SIZE POLL_KEY NULL h;
          h \<leftarrow> upd_poll p (\<lambda>pp. pp\<lparr>server_list := t\<rparr>) h;
          if t = NULL then do { h \<leftarrow> mem_free_array p 3 h; Some (NULL, h) }
          else do {
            h \<leftarrow> INIT_LIB_LIST (timer_list p) h;
            h \<leftarrow> INIT_LIB_LIST (signal_list p) h;
            h \<leftarrow> upd_poll p (\<lambda>pp. pp\<lparr>max_event := mx, max_conn := 0, pid := getpid h, pFun_itr := 0,
                   pItr_param := NULL\<rparr>) h;
            Some (p, h) } })"

definition poll_stop :: "ptr \<Rightarrow> 'a polls_scheme \<Rightarrow> (int \<times> 'a polls_scheme) option" where
  "poll_stop p h =
     (if p = NULL then Some (ERROR, h)
      else do { h \<leftarrow> upd_poll p (\<lambda>pp. pp\<lparr>run := 0\<rparr>) h; Some (OK, h) })"

definition poll_free :: "ptr \<Rightarrow> 'a polls_scheme \<Rightarrow> 'a polls_scheme option" where
  "poll_free p h =
     (if p = NULL then Some h
      else do {
        pp \<leftarrow> get_poll p h;
        if magic pp \<noteq> POLL_MAGIC then Some h
        else do {
          (_, h) \<leftarrow> poll_stop p h;
          h \<leftarrow> hash_free_all poll_free_srv_list (server_list pp) h;
          h \<leftarrow> lib_list_free poll_free_sig_list (signal_list p) h;
          h \<leftarrow> lib_list_free poll_free_tmr_list (timer_list p) h;
          let h = net_close (ep_fd pp) h;
          let h = (if 0 < pipe_rd pp then net_close (pipe_rd pp) h else h);
          let h = (if 0 < pipe_wr pp then net_close (pipe_wr pp) h else h);
          (_, h) \<leftarrow> poll_base_del p h;
          mem_free_array p 3 h } })"

section \<open>Servers\<close>

definition zero_server :: poll_server where
  "zero_server = \<lparr>ep_events = 0, srv_poll = NULL, server_fd = 0, pFun_svr = 0, pParam = NULL, pFun_del = 0,
     pParam_del = NULL, srv_last_time = 0, idle_timeout = 0\<rparr>"

text \<open>
  The two functions that register a descriptor share the part behind their arguments' test: the
  structure, filled in but for the events, the kernel's set, the counter and the table.
\<close>

definition add_server :: "ptr \<Rightarrow> poll_server \<Rightarrow> 'a polls_scheme \<Rightarrow> (ptr \<times> 'a polls_scheme) option" where
  "add_server p srv h =
     (let (s, h) = mem_malloc h
      in if s = NULL then Some (NULL, h)
      else do {
        let h = h\<lparr>psrv := (psrv h)(s := srv\<lparr>srv_poll := p, ep_events := EPOLLIN OR EPOLLERR OR EPOLLHUP\<rparr>)\<rparr>;
        pp \<leftarrow> get_poll p h;
        let (ret, h) = epoll_add (ep_fd pp) (server_fd srv) (EPOLLIN OR EPOLLERR OR EPOLLHUP) h;
        if ret < 0 then do { h \<leftarrow> mem_free s h; Some (NULL, h) }
        else do {
          h \<leftarrow> upd_poll p (\<lambda>pp. pp\<lparr>max_conn := c_int (max_conn pp + 1)\<rparr>) h;
          (_, h) \<leftarrow> hash_add poll_keys s (server_list pp) h;
          Some (s, h) } })"

definition poll_add_server_with_idle_timeout ::
  "ptr \<Rightarrow> int \<Rightarrow> nat \<Rightarrow> ptr \<Rightarrow> int \<Rightarrow> 'a polls_scheme \<Rightarrow> (ptr \<times> 'a polls_scheme) option"
where
  "poll_add_server_with_idle_timeout p fd pFunSrv param idle h =
     (if p = NULL \<or> pFunSrv = 0 \<or> fd < 0 then Some (NULL, h)
      else add_server p (zero_server\<lparr>server_fd := fd, pFun_svr := pFunSrv, pParam := param, idle_timeout := idle\<rparr>) h)"

definition poll_add_server :: "ptr \<Rightarrow> int \<Rightarrow> nat \<Rightarrow> ptr \<Rightarrow> 'a polls_scheme \<Rightarrow> (ptr \<times> 'a polls_scheme) option" where
  "poll_add_server p fd pFunSrv param h = poll_add_server_with_idle_timeout p fd pFunSrv param 0 h"

definition poll_add_server_with_delete_callback ::
  "ptr \<Rightarrow> int \<Rightarrow> nat \<Rightarrow> ptr \<Rightarrow> nat \<Rightarrow> ptr \<Rightarrow> 'a polls_scheme \<Rightarrow> (ptr \<times> 'a polls_scheme) option"
where
  "poll_add_server_with_delete_callback p fd pFunSrv param pFunDelCb paramDel h =
     (if p = NULL \<or> pFunSrv = 0 \<or> fd < 0 then Some (NULL, h)
      else add_server p (zero_server\<lparr>server_fd := fd, pFun_svr := pFunSrv, pParam := param,
             pFun_del := pFunDelCb, pParam_del := paramDel\<rparr>) h)"

definition poll_del_server :: "'a polls_scheme poll_codes \<Rightarrow> ptr \<Rightarrow> 'a polls_scheme \<Rightarrow> (int \<times> 'a polls_scheme) option" where
  "poll_del_server cds s h =
     (if s = NULL then Some (ERROR, h)
      else do {
        srv \<leftarrow> get_srv s h;
        let p = srv_poll srv;
        if p = NULL then Some (ERROR, h)
        else if server_fd srv \<le> 0 \<or> POLL_MAX_EVENT_NUM \<le> server_fd srv then Some (ERROR, h)
        else do {
          h \<leftarrow> upd_poll p (\<lambda>pp. pp\<lparr>last_act_srv := POLL_FUNC_DEL, last_act_fd := server_fd srv,
                 max_conn := c_int (max_conn pp - 1)\<rparr>) h;
          h \<leftarrow> poll_del_fd p (server_fd srv) h;
          pp \<leftarrow> get_poll p h;
          (_, h) \<leftarrow> hash_del s (server_list pp) h;
          h \<leftarrow> (if 0 < server_fd srv
               then do {
                 let h = net_close (server_fd srv) h;
                 (_, h) \<leftarrow> (if pFun_del srv \<noteq> 0
                           then del_code cds (pFun_del srv) (server_fd srv) s (pParam_del srv) h
                           else Some (0, h));
                 upd_srv s (\<lambda>srv. srv\<lparr>server_fd := 0\<rparr>) h }
               else Some h);
          h \<leftarrow> mem_free s h;
          Some (OK, h) } })"

definition poll_del_server_by_fd ::
  "'a polls_scheme poll_codes \<Rightarrow> ptr \<Rightarrow> int \<Rightarrow> 'a polls_scheme \<Rightarrow> (int \<times> 'a polls_scheme) option"
where
  "poll_del_server_by_fd cds p fd h = do {
     s \<leftarrow> poll_get_server_by_fd p fd h;
     if p = NULL then Some (ERROR, h) else poll_del_server cds s h }"

text \<open>The events asked for, as flags.\<close>

definition wants :: "32 word \<Rightarrow> int \<Rightarrow> bool" where
  "wants event e = (event AND word_of_int e \<noteq> 0)"

definition set_events :: "32 word \<Rightarrow> 32 word \<Rightarrow> 32 word" where
  "set_events event ev =
     (let ev = (if wants event POLL_EVENT_IN then ev OR EPOLLIN else ev);
          ev = (if wants event POLL_EVENT_OUT then ev OR EPOLLOUT else ev)
      in if wants event POLL_EVENT_ERR then ev OR EPOLLERR else ev)"

definition unset_events :: "32 word \<Rightarrow> 32 word \<Rightarrow> 32 word" where
  "unset_events event ev =
     (let ev = (if wants event POLL_EVENT_IN then ev AND NOT EPOLLIN else ev);
          ev = (if wants event POLL_EVENT_OUT then ev AND NOT EPOLLOUT else ev)
      in if wants event POLL_EVENT_ERR then ev AND NOT EPOLLERR else ev)"

definition change_events :: "(32 word \<Rightarrow> 32 word) \<Rightarrow> ptr \<Rightarrow> 'a polls_scheme \<Rightarrow> (int \<times> 'a polls_scheme) option" where
  "change_events f s h =
     (if s = NULL then Some (ERROR, h)
      else do {
        srv \<leftarrow> get_srv s h;
        if srv_poll srv = NULL then Some (ERROR, h)
        else do {
          h \<leftarrow> upd_srv s (\<lambda>srv. srv\<lparr>ep_events := f (ep_events srv)\<rparr>) h;
          pp \<leftarrow> get_poll (srv_poll srv) h;
          let (ret, h) = epoll_mod (ep_fd pp) (server_fd srv) (f (ep_events srv)) h;
          Some (if ret < 0 then ERROR else OK, h) } })"

definition poll_set :: "ptr \<Rightarrow> 32 word \<Rightarrow> 'a polls_scheme \<Rightarrow> (int \<times> 'a polls_scheme) option" where
  "poll_set s event h = change_events (set_events event) s h"

definition poll_unset :: "ptr \<Rightarrow> 32 word \<Rightarrow> 'a polls_scheme \<Rightarrow> (int \<times> 'a polls_scheme) option" where
  "poll_unset s event h = change_events (unset_events event) s h"

definition poll_set_interrupt :: "ptr \<Rightarrow> nat \<Rightarrow> ptr \<Rightarrow> 'a polls_scheme \<Rightarrow> (int \<times> 'a polls_scheme) option" where
  "poll_set_interrupt p pFunItr param h =
     (if p = NULL \<or> pFunItr = 0 then Some (ERROR, h)
      else do {
        h \<leftarrow> upd_poll p (\<lambda>pp. pp\<lparr>pFun_itr := pFunItr, pItr_param := param\<rparr>) h;
        Some (OK, h) })"

definition poll_unset_interrupt :: "ptr \<Rightarrow> 'a polls_scheme \<Rightarrow> (int \<times> 'a polls_scheme) option" where
  "poll_unset_interrupt p h =
     (if p = NULL then Some (ERROR, h)
      else do {
        h \<leftarrow> upd_poll p (\<lambda>pp. pp\<lparr>pFun_itr := 0, pItr_param := NULL\<rparr>) h;
        Some (OK, h) })"

section \<open>Timers\<close>

definition poll_add_timer ::
  "ptr \<Rightarrow> int \<Rightarrow> int \<Rightarrow> nat \<Rightarrow> ptr \<Rightarrow> 'a polls_scheme \<Rightarrow> (ptr \<times> 'a polls_scheme) option"
where
  "poll_add_timer p tmo tms pFunTmr param h =
     (if p = NULL then Some (NULL, h)
      else if tmo \<le> 0 \<and> tmo \<noteq> POLL_TIMEOUT_DEFAULT then Some (NULL, h)
      else
        let (t, h) = mem_malloc h
        in if t = NULL then Some (NULL, h)
        else do {
          let h = h\<lparr>ptmr := (ptmr h)(t := \<lparr>tmr_poll = p, pFun_tmr = pFunTmr, tmr_param = param,
                   timeout = c_int tmo, times = c_int tms, notify_times = 0, last_notify = 0\<rparr>)\<rparr>;
          h \<leftarrow> lib_list_add t (timer_list p) h;
          Some (t, h) })"

text \<open>The smallest time-out of the timers that are left, \<open>0\<close> for none.\<close>

definition min_body :: "ptr \<Rightarrow> ptr \<Rightarrow> 'a polls_scheme \<Rightarrow> unit \<Rightarrow> ('a polls_scheme \<times> unit \<times> bool) option" where
  "min_body p node h (_ :: unit) = do {
     tm \<leftarrow> get_tmr node h;
     pp \<leftarrow> get_poll p h;
     h \<leftarrow> (if min_timeout pp = 0 then upd_poll p (\<lambda>pp. pp\<lparr>min_timeout := timeout tm\<rparr>) h else Some h);
     pp \<leftarrow> get_poll p h;
     h \<leftarrow> (if timeout tm < min_timeout pp then upd_poll p (\<lambda>pp. pp\<lparr>min_timeout := timeout tm\<rparr>) h else Some h);
     Some (h, (), False) }"

definition poll_del_timer :: "ptr \<Rightarrow> 'a polls_scheme \<Rightarrow> (int \<times> 'a polls_scheme) option" where
  "poll_del_timer t h =
     (if t = NULL then Some (ERROR, h)
      else do {
        tm \<leftarrow> get_tmr t h;
        let p = tmr_poll tm;
        if p = NULL then Some (ERROR, h)
        else do {
          h \<leftarrow> upd_poll p (\<lambda>pp. pp\<lparr>last_act_tmr := POLL_FUNC_DEL\<rparr>) h;
          h \<leftarrow> lib_list_del t h;
          h \<leftarrow> mem_free t h;
          h \<leftarrow> upd_poll p (\<lambda>pp. pp\<lparr>min_timeout := 0\<rparr>) h;
          (h, _) \<leftarrow> lib_list_for_each (min_body p) (timer_list p) h ();
          Some (OK, h) } })"

definition init_timer_body ::
  "int \<Rightarrow> int \<Rightarrow> ptr \<Rightarrow> 'a polls_scheme \<Rightarrow> int \<Rightarrow> ('a polls_scheme \<times> int \<times> bool) option"
where
  "init_timer_body default_timeout now_time node h mn = do {
     h \<leftarrow> upd_tmr node (\<lambda>tm. tm\<lparr>last_notify := now_time\<rparr>) h;
     tm \<leftarrow> get_tmr node h;
     h \<leftarrow> (if timeout tm = POLL_TIMEOUT_DEFAULT
          then upd_tmr node (\<lambda>tm. tm\<lparr>timeout := default_timeout\<rparr>) h else Some h);
     tm \<leftarrow> get_tmr node h;
     Some (h, if timeout tm < mn then timeout tm else mn, False) }"

definition poll_init_timer :: "ptr \<Rightarrow> int \<Rightarrow> 'a polls_scheme \<Rightarrow> 'a polls_scheme option" where
  "poll_init_timer p default_timeout h = do {
     (h, mn) \<leftarrow> lib_list_for_each (init_timer_body default_timeout (now h)) (timer_list p) h default_timeout;
     upd_poll p (\<lambda>pp. pp\<lparr>min_timeout := mn\<rparr>) h }"

definition timer_body ::
  "'a polls_scheme poll_codes \<Rightarrow> int \<Rightarrow> ptr \<Rightarrow> 'a polls_scheme \<Rightarrow> unit \<Rightarrow> ('a polls_scheme \<times> unit \<times> bool) option"
where
  "timer_body cds now_time node h (_ :: unit) = do {
     tm \<leftarrow> get_tmr node h;
     if timeout tm \<le> now_time - last_notify tm
     then
       if times tm \<le> notify_times tm \<and> times tm \<noteq> 0
       then do { (_, h) \<leftarrow> poll_del_timer node h; Some (h, (), False) }
       else do {
         h \<leftarrow> upd_tmr node (\<lambda>tm. tm\<lparr>notify_times := c_int (notify_times tm + 1), last_notify := now_time\<rparr>) h;
         (_, h) \<leftarrow> poll_call_timer cds node h;
         Some (h, (), False) }
     else Some (h, (), False) }"

definition poll_check_timer :: "'a polls_scheme poll_codes \<Rightarrow> ptr \<Rightarrow> int \<Rightarrow> 'a polls_scheme \<Rightarrow> 'a polls_scheme option" where
  "poll_check_timer cds p now_time h = do {
     (h, _) \<leftarrow> lib_list_for_each_safe (timer_body cds now_time) (timer_list p) h ();
     Some h }"

section \<open>Signals\<close>

definition close_pipe :: "ptr \<Rightarrow> 'a polls_scheme \<Rightarrow> 'a polls_scheme option" where
  "close_pipe p h = do {
     pp \<leftarrow> get_poll p h;
     let h = net_close (pipe_wr pp) (net_close (pipe_rd pp) h);
     upd_poll p (\<lambda>pp. pp\<lparr>pipe_rd := 0, pipe_wr := 0\<rparr>) h }"

text \<open>
  The pipe of a reactor that has no signal yet: its two descriptors, made non-blocking, and the server
  that reads it. \<open>False\<close> is the return with \<open>NULL\<close>, after freeing the new signal.
\<close>

definition open_pipe :: "ptr \<Rightarrow> 'a polls_scheme \<Rightarrow> (bool \<times> 'a polls_scheme) option" where
  "open_pipe p h =
     (let (ret, h) = net_call h
      in if ret < 0
      then do { h \<leftarrow> upd_poll p (\<lambda>pp. pp\<lparr>pipe_rd := 0, pipe_wr := 0\<rparr>) h; Some (False, h) }
      else
        let (rd, h) = net_call h;
            (wr, h) = net_call h
        in do {
          h \<leftarrow> upd_poll p (\<lambda>pp. pp\<lparr>pipe_rd := rd, pipe_wr := wr\<rparr>) h;
          let (ret, h) = poll_set_pipe rd h;
          if ret < 0 then do { h \<leftarrow> close_pipe p h; Some (False, h) }
          else
            let (ret, h) = poll_set_pipe wr h
            in if ret < 0 then do { h \<leftarrow> close_pipe p h; Some (False, h) }
            else do {
              (srv, h) \<leftarrow> poll_add_server p rd SVR_SIGNAL p h;
              h \<leftarrow> upd_poll p (\<lambda>pp. pp\<lparr>pSig_srv := srv\<rparr>) h;
              if srv = NULL then do { h \<leftarrow> close_pipe p h; Some (False, h) }
              else do {
                (_, h) \<leftarrow> poll_set srv (word_of_int (POLL_EVENT_IN + POLL_EVENT_ERR)) h;
                Some (True, h) } } })"

definition poll_add_signal :: "ptr \<Rightarrow> int \<Rightarrow> nat \<Rightarrow> ptr \<Rightarrow> 'a polls_scheme \<Rightarrow> (ptr \<times> 'a polls_scheme) option" where
  "poll_add_signal p sigNum pFunSig param h =
     (if p = NULL then Some (NULL, h)
      else do {
        (ret, h) \<leftarrow> poll_base_add p h;
        if ret < 0 then Some (NULL, h)
        else
          let (s, h) = mem_malloc h
          in if s = NULL then Some (NULL, h)
          else do {
            none \<leftarrow> lib_list_empty (signal_list p) h;
            (ok, h) \<leftarrow> (if none then open_pipe p h else Some (True, h));
            if \<not> ok then do { h \<leftarrow> mem_free s h; Some (NULL, h) }
            else do {
              let h = h\<lparr>psig := (psig h)(s := \<lparr>sig_poll = p, sig_no = sigNum, pFun_sig = pFunSig, sig_param = param,
                       notify = 0, old_sig = 0\<rparr>)\<rparr>;
              h \<leftarrow> lib_list_add s (signal_list p) h;
              let (ret, h) = net_call h;
              if ret < 0
              then do { h \<leftarrow> lib_list_del s h; h \<leftarrow> mem_free s h; Some (NULL, h) }
              else do {
                h \<leftarrow> upd_sig s (\<lambda>sg. sg\<lparr>old_sig := handler h sigNum\<rparr>) h;
                Some (s, h\<lparr>handler := (handler h)(sigNum := SIG_HANDLER)\<rparr>) } } } })"

definition poll_del_signal :: "'a polls_scheme poll_codes \<Rightarrow> ptr \<Rightarrow> 'a polls_scheme \<Rightarrow> (int \<times> 'a polls_scheme) option" where
  "poll_del_signal cds s h =
     (if s = NULL then Some (ERROR, h)
      else do {
        sg \<leftarrow> get_sig s h;
        let p = sig_poll sg;
        if p = NULL then Some (ERROR, h)
        else do {
          let h = h\<lparr>handler := (handler h)(sig_no sg := old_sig sg)\<rparr>;
          h \<leftarrow> upd_poll p (\<lambda>pp. pp\<lparr>last_act_sig := POLL_FUNC_DEL\<rparr>) h;
          h \<leftarrow> lib_list_del s h;
          h \<leftarrow> mem_free s h;
          none \<leftarrow> lib_list_empty (signal_list p) h;
          if none
          then do {
            pp \<leftarrow> get_poll p h;
            (_, h) \<leftarrow> poll_del_server cds (pSig_srv pp) h;
            h \<leftarrow> close_pipe p h;
            Some (OK, h) }
          else Some (OK, h) } })"

section \<open>Frames\<close>

lemma polls_linked [simp]:
  "ppoll (linked p x n h) = ppoll h" "psrv (linked p x n h) = psrv h" "psig (linked p x n h) = psig h"
  "ptmr (linked p x n h) = ptmr h" "interest (linked p x n h) = interest h" "net (linked p x n h) = net h"
  "now (linked p x n h) = now h" "pBase (linked p x n h) = pBase h"
  "ppoll (unlinked p x n h) = ppoll h" "psrv (unlinked p x n h) = psrv h" "psig (unlinked p x n h) = psig h"
  "ptmr (unlinked p x n h) = ptmr h" "interest (unlinked p x n h) = interest h" "net (unlinked p x n h) = net h"
  "now (unlinked p x n h) = now h" "pBase (unlinked p x n h) = pBase h"
  by (simp_all add: linked_def unlinked_def)

lemma valid_polls [simp]:
  "valid (h\<lparr>ppoll := a\<rparr>) = valid h" "valid (h\<lparr>psrv := b\<rparr>) = valid h" "valid (h\<lparr>psig := c\<rparr>) = valid h"
  "valid (h\<lparr>ptmr := d\<rparr>) = valid h" "valid (h\<lparr>interest := e\<rparr>) = valid h" "valid (h\<lparr>net := f\<rparr>) = valid h"
  "valid (h\<lparr>now := g\<rparr>) = valid h" "valid (h\<lparr>handler := i\<rparr>) = valid h"
  by (simp_all add: valid_def fun_eq_iff)

lemma table_rep_polls [simp]:
  "table_rep (h\<lparr>ppoll := a\<rparr>) t rows = table_rep h t rows" "table_rep (h\<lparr>psrv := b\<rparr>) t rows = table_rep h t rows"
  "table_rep (h\<lparr>interest := e\<rparr>) t rows = table_rep h t rows" "table_rep (h\<lparr>net := f\<rparr>) t rows = table_rep h t rows"
  "table_rep (h\<lparr>ptmr := d\<rparr>) t rows = table_rep h t rows" "table_rep (h\<lparr>psig := c\<rparr>) t rows = table_rep h t rows"
  "table_rep (h\<lparr>now := g\<rparr>) t rows = table_rep h t rows"
  by (rule table_rep_cong; simp)+

lemma dlist_polls [simp]:
  "dlist (h\<lparr>ppoll := a\<rparr>) hh xs = dlist h hh xs" "dlist (h\<lparr>psrv := b\<rparr>) hh xs = dlist h hh xs"
  "dlist (h\<lparr>interest := e\<rparr>) hh xs = dlist h hh xs" "dlist (h\<lparr>net := f\<rparr>) hh xs = dlist h hh xs"
  "dlist (h\<lparr>ptmr := d\<rparr>) hh xs = dlist h hh xs" "dlist (h\<lparr>psig := c\<rparr>) hh xs = dlist h hh xs"
  "dlist (h\<lparr>now := g\<rparr>) hh xs = dlist h hh xs"
  by (rule dlist_cong; simp)+

lemma polls_more:
  assumes "heap.more h' = heap.more h"
  shows "ppoll h' = ppoll h" "psrv h' = psrv h" "psig h' = psig h" "ptmr h' = ptmr h" "interest h' = interest h"
    "net h' = net h" "t_head h' = t_head h" "t_size h' = t_size h" "t_create_key h' = t_create_key h" "now h' = now h"
    "t_p h' = t_p h"
  using assms by (cases h; cases h'; simp)+

lemma net_call_eq: "net_call h = (fst (sys_call (net h)), h\<lparr>net := snd (snd (sys_call (net h)))\<rparr>)"
  by (simp add: net_call_def case_prod_unfold Let_def)

lemma in_table_cong: "t_head h' t = t_head h t \<Longrightarrow> in_table h' t rows x = in_table h t rows x"
  by (simp add: in_table_def)

lemmas poll_access = get_poll_def upd_poll_def get_srv_def upd_srv_def get_tmr_def upd_tmr_def get_sig_def upd_sig_def

section \<open>The reactor as a registry of servers\<close>

text \<open>
  The invariant: the table files each server under its descriptor, every server knows its reactor, the
  counter is the number of servers, and the kernel watches exactly the descriptors in the table.
\<close>

definition reactor :: "'a polls_scheme \<Rightarrow> ptr \<Rightarrow> ptr list list \<Rightarrow> bool" where
  "reactor h p rows \<longleftrightarrow>
     valid h p \<and> p \<notin> set (nodes rows) \<and> server_list (ppoll h p) \<notin> set (nodes rows) \<and>
     table_rep h (server_list (ppoll h p)) rows \<and> t_create_key h (server_list (ppoll h p)) = POLL_KEY \<and>
     filed (\<lambda>x. server_fd (psrv h x)) 50000 rows \<and>
     (\<forall>x \<in> set (nodes rows). srv_poll (psrv h x) = p) \<and>
     max_conn (ppoll h p) = int (length (nodes rows)) \<and>
     (\<forall>fd. interest h (ep_fd (ppoll h p)) fd \<noteq> None \<longleftrightarrow> (\<exists>x \<in> set (nodes rows). server_fd (psrv h x) = fd))"

lemma reactor_nodes_valid:
  assumes "reactor h p rows" and "x \<in> set (nodes rows)"
  shows "valid h x"
  using assms in_table_valid in_table_nodes unfolding reactor_def by blast

lemma poll_get_eq:
  assumes r: "reactor h p rows" and fd: "0 \<le> fd"
  shows "poll_get_server_by_fd p fd h
       = Some (case fd_map (\<lambda>x. server_fd (psrv h x)) rows fd of None \<Rightarrow> NULL | Some x \<Rightarrow> x)"
proof -
  let ?t = "server_list (ppoll h p)" and ?f = "\<lambda>x. server_fd (psrv h x)"
  have t: "table_rep h ?t rows" and f: "filed ?f 50000 rows" and v: "valid h p"
    using r by (simp_all add: reactor_def)
  have k: "nat (fd mod 50000) < length rows" using f by (simp add: filed_def nat_less_iff)
  have "hash_walk (\<lambda>node h l. do { r \<leftarrow> poll_compare_fd node fd h; Some (r, h, l) }) ?t (int (nat (fd mod 50000))) h ()
      = Some (first_neg (fd_cmp ?f fd) (rows ! nat (fd mod 50000)), h, ())"
  proof (rule hash_walk_key_on [OF t k])
    fix x assume "x \<in> set (rows ! nat (fd mod 50000))"
    then have "valid h x" using reactor_nodes_valid [OF r] nth_nodes [OF k] by blast
    then show "do { r \<leftarrow> poll_compare_fd x fd h; Some (r, h, ()) } = Some (fd_cmp ?f fd x, h, ())"
      by (simp add: poll_compare_fd_def fd_cmp_def get_srv_def)
  qed (auto split: Option.bind_splits)
  moreover have "poll_hash_fd fd = int (nat (fd mod 50000))" using fd by (simp add: poll_hash_fd_def POLL_HASH_SIZE_def)
  moreover have "first_neg (fd_cmp ?f fd) (rows ! nat (fd mod 50000)) = (case fd_map ?f rows fd of None \<Rightarrow> NULL | Some x \<Rightarrow> x)"
    using fd_map_lookup [OF f _ fd] by simp
  ultimately show ?thesis using v by (simp add: poll_get_server_by_fd_def get_poll_def)
qed

abbreviation fds_of :: "'a polls_scheme \<Rightarrow> ptr list list \<Rightarrow> int \<Rightarrow> ptr option" where
  "fds_of h rows \<equiv> fd_map (\<lambda>x. server_fd (psrv h x)) rows"

lemma reactor_watched:
  assumes "reactor h p rows"
  shows "interest h (ep_fd (ppoll h p)) fd = None \<longleftrightarrow> fds_of h rows fd = None"
proof -
  have "interest h (ep_fd (ppoll h p)) fd \<noteq> None \<longleftrightarrow> (\<exists>x \<in> set (nodes rows). server_fd (psrv h x) = fd)"
    using assms unfolding reactor_def by blast
  then show ?thesis unfolding fd_map_None image_iff by blast
qed

lemma fresh_not_in_table:
  assumes "table_rep h t rows" and "\<not> valid h x"
  shows "\<not> in_table h t rows x"
  using assms in_table_valid by blast

lemma table_rep_malloced:
  assumes t: "table_rep h t rows" and m: "heap_ok h" "mem_malloc h = (s, h')" and e: "heap.more h' = heap.more h"
  shows "table_rep h' t rows"
proof (rule table_rep_frame [OF t])
  show "t_head h' t = t_head h t" "t_size h' t = t_size h t" using e by (cases h; cases h'; simp)+
  show "valid h' t" using mem_malloc_frame [OF m table_rep_valid [OF t]] by simp
  show "in_table h t rows q \<Longrightarrow> valid h' q \<and> nxt h' q = nxt h q \<and> prv h' q = prv h q" for q
    using mem_malloc_frame [OF m] in_table_valid [OF t] by blast
qed

lemma add_server_ok:
  assumes r: "reactor h p rows" and m: "heap_ok h" "\<not> next_oom h" and n: "\<not> fst (sys_call (net h)) < 0"
    and fd: "0 \<le> server_fd srv" "fds_of h rows (server_fd srv) = None" and c: "length (nodes rows) < 2 ^ 31 - 1"
  defines "k \<equiv> nat (server_fd srv mod 50000)" and "ev \<equiv> EPOLLIN OR EPOLLERR OR EPOLLHUP"
  shows "\<exists>h'. add_server p srv h = Some (brk h, h') \<and> brk h \<noteq> NULL \<and> reactor h' p (rows[k := rows ! k @ [brk h]]) \<and>
     fds_of h' (rows[k := rows ! k @ [brk h]]) = (fds_of h rows)(server_fd srv \<mapsto> brk h) \<and>
     psrv h' = (psrv h)(brk h := srv\<lparr>srv_poll := p, ep_events := ev\<rparr>) \<and>
     ppoll h' = (ppoll h)(p := (ppoll h p)\<lparr>max_conn := max_conn (ppoll h p) + 1\<rparr>) \<and> heap_ok h'"
proof -
  let ?s = "brk h" and ?t = "server_list (ppoll h p)" and ?ep = "ep_fd (ppoll h p)" and ?fd = "server_fd srv"
  let ?f = "\<lambda>x. server_fd (psrv h x)"
  obtain h1 where h1: "mem_malloc h = (?s, h1)" "valid h1 ?s" "heap_ok h1" "heap.more h1 = heap.more h"
      "\<not> valid h ?s" "?s \<noteq> NULL" "\<And>q. valid h q \<Longrightarrow> valid h1 q \<and> nxt h1 q = nxt h q \<and> prv h1 q = prv h q \<and> q \<noteq> ?s"
    by (rule mem_malloc_node [OF m]) (rule that)
  note e = polls_more [OF h1(4)]
  have t: "table_rep h ?t rows" and f: "filed ?f 50000 rows" and v: "valid h p" and ck: "t_create_key h ?t = POLL_KEY"
    and mc: "max_conn (ppoll h p) = int (length (nodes rows))" and pn: "p \<notin> set (nodes rows)" "?t \<notin> set (nodes rows)"
    and own: "\<And>x. x \<in> set (nodes rows) \<Longrightarrow> srv_poll (psrv h x) = p"
    using r by (simp_all add: reactor_def)
  have sn: "?s \<notin> set (nodes rows)" using reactor_nodes_valid [OF r] h1(5) by blast
  have ps: "p \<noteq> ?s" "?t \<noteq> ?s" using v table_rep_valid [OF t] h1(5) by auto
  have l: "length rows = 50000" using f by (simp add: filed_def)
  then have k: "k < length rows" by (simp add: k_def nat_less_iff)
  define sv where "sv = srv\<lparr>srv_poll := p, ep_events := ev\<rparr>"
  define h2 where "h2 = watch ?ep ?fd (Some ev) (h1\<lparr>psrv := (psrv h)(?s := sv), net := snd (snd (sys_call (net h)))\<rparr>)"
  define h3 where "h3 = h2\<lparr>ppoll := (ppoll h)(p := (ppoll h p)\<lparr>max_conn := max_conn (ppoll h p) + 1\<rparr>)\<rparr>"
  have un: "interest h ?ep ?fd = None" using reactor_watched [OF r] fd(2) by simp
  have c': "c_int (max_conn (ppoll h p) + 1) = max_conn (ppoll h p) + 1" using mc c by simp
  have pre: "add_server p srv h = do { (_, h) \<leftarrow> hash_add poll_keys ?s ?t h3; Some (?s, h) }"
    using h1 v ps n un c' e h1(7) [OF v]
    by (simp add: add_server_def get_poll_def upd_poll_def epoll_add_def net_call_eq Let_def h3_def h2_def watch_def
        sv_def ev_def)
  have vs: "valid h3 = valid h1" by (simp add: h3_def h2_def watch_def)
  have t3: "table_rep h3 ?t rows"
    using table_rep_malloced [OF t m(1) h1(1,4)] by (simp add: h3_def h2_def watch_def)
  have f3: "t_head h3 = t_head h" "t_create_key h3 = t_create_key h" "t_p h3 = t_p h" "psrv h3 = (psrv h)(?s := sv)"
    "ppoll h3 = (ppoll h)(p := (ppoll h p)\<lparr>max_conn := max_conn (ppoll h p) + 1\<rparr>)"
    "interest h3 = (interest h)(?ep := (interest h ?ep)(?fd := Some ev))"
    using e by (simp_all add: h3_def h2_def watch_def)
  let ?key = "?fd mod 50000"
  have key: "poll_keys (t_create_key h3 ?t) ?s (t_p h3 ?t) h3 = Some ?key"
    using h1(2) fd(1) by (simp add: poll_keys_def poll_hash_creat_key_def poll_hash_fd_def POLL_HASH_SIZE_def
        get_srv_def f3 ck vs sv_def)
  have new: "\<not> in_table h3 ?t rows ?s"
    using fresh_not_in_table [OF t h1(5)] in_table_cong [of h3 ?t h rows ?s] by (simp add: f3)
  obtain q where add: "hash_add poll_keys ?s ?t h3 = Some (0, linked q ?s (row_head h3 ?t k) h3)"
      and t4: "table_rep (linked q ?s (row_head h3 ?t k) h3) ?t (rows[k := rows ! k @ [?s]])"
    using hash_add_linked [where keys = poll_keys, OF t3 _ new key] h1(2) l unfolding k_def by (auto simp: vs)
  let ?h = "linked q ?s (row_head h3 ?t k) h3" and ?rows = "rows[k := rows ! k @ [?s]]"
  note ns = nodes_add(1) [OF k, of ?s]
  let ?g = "\<lambda>x. server_fd (psrv ?h x)"
  have same: "filed ?g 50000 rows = filed ?f 50000 rows" "fd_map ?g rows = fd_map ?f rows"
  proof -
    have eq: "?g x = ?f x" if "x \<in> set (nodes rows)" for x using that sn by (auto simp: f3)
    then show "filed ?g 50000 rows = filed ?f 50000 rows" by (rule filed_cong)
    have "List.find (\<lambda>x. ?g x = fd) xs = List.find (\<lambda>x. ?f x = fd) xs" if "set xs \<subseteq> set (nodes rows)" for xs fd
      using that eq by (induction xs) auto
    then show "fd_map ?g rows = fd_map ?f rows" by (simp add: fd_map_def fun_eq_iff)
  qed
  have gs: "?g ?s = ?fd" by (simp add: f3 sv_def)
  have gf: "filed ?g 50000 rows" using f same(1) by blast
  have gm: "fd_map ?g rows (?g ?s) = None" using fd(2) unfolding gs same(2) .
  have g0: "0 \<le> ?g ?s" using fd(1) unfolding gs .
  have g0': "?g ?s \<notin> ?g ` set (nodes rows)" using gm by (simp only: fd_map_None not_False_eq_True)
  have f': "filed ?g 50000 ?rows"
    using filed_add [OF gf _ g0 sn g0'] gs by (simp add: k_def)
  have m': "fd_map ?g ?rows = (fd_map ?f rows)(?fd \<mapsto> ?s)"
    using fd_map_add [OF gf _ g0 sn gm] gs same(2) by (simp add: k_def)
  have "reactor ?h p ?rows"
    unfolding reactor_def
  proof (intro conjI allI ballI)
    show "valid ?h p" using h1(7) [OF v] by (simp add: vs)
    show "p \<notin> set (nodes ?rows)" "server_list (ppoll ?h p) \<notin> set (nodes ?rows)" using pn ps ns by (simp_all add: f3)
    show "table_rep ?h (server_list (ppoll ?h p)) ?rows" using t4 by (simp add: f3)
    show "t_create_key ?h (server_list (ppoll ?h p)) = POLL_KEY" using ck by (simp add: f3)
    show "filed ?g 50000 ?rows" by (rule f')
    show "srv_poll (psrv ?h x) = p" if "x \<in> set (nodes ?rows)" for x
      using that own sn by (auto simp: ns f3 sv_def)
    show "max_conn (ppoll ?h p) = int (length (nodes ?rows))" using mc nodes_add(3) [OF k, of ?s] by (simp add: f3)
    fix fd
    have "interest ?h (ep_fd (ppoll ?h p)) fd = None \<longleftrightarrow> fd_map ?g ?rows fd = None"
      unfolding m' using reactor_watched [OF r, of fd] by (simp add: f3)
    then show "interest ?h (ep_fd (ppoll ?h p)) fd \<noteq> None \<longleftrightarrow> (\<exists>x \<in> set (nodes ?rows). ?g x = fd)"
      unfolding fd_map_None by (auto simp: image_iff)
  qed
  moreover have "add_server p srv h = Some (?s, ?h)" using pre add by simp
  moreover have "heap_ok ?h" using h1(3) by (simp add: h3_def h2_def watch_def heap_ok_def)
  moreover have "psrv ?h = (psrv h)(?s := srv\<lparr>srv_poll := p, ep_events := ev\<rparr>)" by (simp add: f3 sv_def)
  moreover have "ppoll ?h = (ppoll h)(p := (ppoll h p)\<lparr>max_conn := max_conn (ppoll h p) + 1\<rparr>)" by (simp add: f3)
  ultimately show ?thesis using h1(6) m' by blast
qed

lemma reactor_row:
  assumes r: "reactor h p rows" and k: "k < length rows" and s: "s \<in> set (rows ! k)"
  shows "valid h s" "srv_poll (psrv h s) = p" "s \<noteq> p" "s \<noteq> server_list (ppoll h p)" "s \<in> set (nodes rows)"
  using reactor_nodes_valid [OF r nth_nodes [OF k s]] nth_nodes [OF k s] r by (auto simp: reactor_def)

lemma fd_map_cong:
  assumes "\<And>x. x \<in> set (nodes rows) \<Longrightarrow> g x = f x"
  shows "fd_map g rows = fd_map f rows"
proof -
  have "List.find (\<lambda>x. g x = fd) xs = List.find (\<lambda>x. f x = fd) xs" if "set xs \<subseteq> set (nodes rows)" for xs fd
    using that assms by (induction xs) auto
  then show ?thesis by (simp add: fd_map_def fun_eq_iff)
qed

text \<open>The state between the first and the last part of \<open>poll_del_server\<close>.\<close>

definition deleted :: "ptr \<Rightarrow> ptr \<Rightarrow> 'a polls_scheme \<Rightarrow> 'a polls_scheme" where
  "deleted p s h =
     (let pp = ppoll h p; fd = server_fd (psrv h s)
      in watch (ep_fd pp) fd None
           (h\<lparr>ppoll := (ppoll h)(p := pp\<lparr>last_act_srv := POLL_FUNC_DEL, last_act_fd := fd, max_conn := max_conn pp - 1\<rparr>)\<rparr>))"

lemma deleted_simps [simp]:
  "valid (deleted p s h) = valid h" "nxt (deleted p s h) = nxt h" "prv (deleted p s h) = prv h" "live (deleted p s h) = live h"
  "t_head (deleted p s h) = t_head h" "t_size (deleted p s h) = t_size h" "t_create_key (deleted p s h) = t_create_key h"
  "psrv (deleted p s h) = psrv h" "table_rep (deleted p s h) t rows = table_rep h t rows"
  "now (deleted p s h) = now h" "ptmr (deleted p s h) = ptmr h" "psig (deleted p s h) = psig h"
  by (simp_all add: deleted_def watch_def Let_def)

lemma deleted_poll [simp]:
  "server_list (ppoll (deleted p s h) p) = server_list (ppoll h p)" "ep_fd (ppoll (deleted p s h) p) = ep_fd (ppoll h p)"
  "max_conn (ppoll (deleted p s h) p) = max_conn (ppoll h p) - 1" "run (ppoll (deleted p s h) p) = run (ppoll h p)"
  "interest (deleted p s h) (ep_fd (ppoll h p))
     = (interest h (ep_fd (ppoll h p)))(server_fd (psrv h s) := None)"
  "net (deleted p s h) = net h"
  by (simp_all add: deleted_def watch_def Let_def)

lemma poll_del_server_ok:
  assumes r: "reactor h p rows" and k: "k < length rows" and s: "s \<in> set (rows ! k)" and c: "length (nodes rows) \<le> 2 ^ 31"
    and fd: "0 < server_fd (psrv h s)" "server_fd (psrv h s) < 50000" and d: "pFun_del (psrv h s) = 0"
  defines "rows' \<equiv> rows[k := remove1 s (rows ! k)]"
  shows "\<exists>h'. poll_del_server cds s h = Some (OK, h') \<and> reactor h' p rows' \<and>
     fds_of h' rows' = (fds_of h rows)(server_fd (psrv h s) := None) \<and>
     live h' = (live h)(s := False) \<and> closed (net h') = server_fd (psrv h s) # closed (net h) \<and>
     psrv h' = (psrv h)(s := (psrv h s)\<lparr>server_fd := 0\<rparr>) \<and> run (ppoll h' p) = run (ppoll h p) \<and> now h' = now h \<and>
     server_list (ppoll h' p) = server_list (ppoll h p) \<and> t_head h' = t_head h"
proof -
  let ?t = "server_list (ppoll h p)" and ?f = "\<lambda>x. server_fd (psrv h x)" and ?d = "deleted p s h"
  note own = reactor_row [OF r k s]
  have t: "table_rep h ?t rows" and f: "filed ?f 50000 rows" and v: "valid h p" and ck: "t_create_key h ?t = POLL_KEY"
    and mc: "max_conn (ppoll h p) = int (length (nodes rows))" and pn: "p \<notin> set (nodes rows)" "?t \<notin> set (nodes rows)"
    and ow: "\<And>x. x \<in> set (nodes rows) \<Longrightarrow> srv_poll (psrv h x) = p"
    using r by (simp_all add: reactor_def)
  have dist: "distinct (nodes rows)" using f by (simp add: filed_def)
  note ns = nodes_remove [OF k s dist]
  have p0: "p \<noteq> NULL" using v by (auto dest: valid_pos)
  have s0: "s \<noteq> NULL" using own(1) by (auto dest: valid_pos)
  have c': "c_int (max_conn (ppoll h p) - 1) = max_conn (ppoll h p) - 1"
    using mc c ns(3) by simp
  have td: "table_rep ?d ?t rows" using t by simp
  obtain a b where del: "hash_del s ?t ?d = Some (0, unlinked a s b ?d)"
      and t': "table_rep (unlinked a s b ?d) ?t rows'"
    using hash_del_unlinked [OF td k s] unfolding rows'_def by blast
  let ?u = "unlinked a s b ?d"
  define h' where "h' = (net_close (server_fd (psrv h s)) ?u)\<lparr>psrv := (psrv h)(s := (psrv h s)\<lparr>server_fd := 0\<rparr>),
      live := (live h)(s := False)\<rparr>"
  have ev: "poll_del_server cds s h = Some (OK, h')"
    using own v p0 s0 fd d c' del
    by (simp add: poll_del_server_def get_srv_def upd_poll_def get_poll_def poll_del_fd_def upd_srv_def Let_def
        POLL_MAX_EVENT_NUM_def deleted_def watch_def net_close_def h'_def mem_free_def valid_def)
  have F: "ppoll h' = ppoll ?d" "psrv h' = (psrv h)(s := (psrv h s)\<lparr>server_fd := 0\<rparr>)" "interest h' = interest ?d"
    "live h' = (live h)(s := False)" "now h' = now h" "t_create_key h' = t_create_key h" "t_head h' = t_head h"
    "closed (net h') = server_fd (psrv h s) # closed (net h)"
    using fd by (simp_all add: h'_def net_close_def lib_close_def close_fd_def)
  have sn: "s \<notin> set (nodes rows')" using ns(1) by (simp add: rows'_def)
  have nodes': "set (nodes rows') = set (nodes rows) - {s}" using ns(1) by (simp add: rows'_def)
  let ?g = "\<lambda>x. server_fd (psrv h' x)"
  have gf: "?g x = ?f x" if "x \<in> set (nodes rows')" for x using that sn by (auto simp: F)
  have f': "filed ?g 50000 rows'"
    using filed_remove [OF f k s] filed_cong [of rows' ?g ?f 50000] gf unfolding rows'_def by blast
  have m': "fd_map ?g rows' = (fd_map ?f rows)(?f s := None)"
    using fd_map_remove [OF f k s] fd_map_cong [of rows' ?g ?f] gf unfolding rows'_def by simp
  have gone: "\<not> in_table ?u ?t rows' s"
    using removed_not_in_table [OF td k s, of ?u] unfolding rows'_def by simp
  have "table_rep (?u\<lparr>live := (live ?u)(s := False)\<rparr>) ?t rows'"
    using table_rep_freed [OF t' gone] own(4) by simp
  then have t'': "table_rep h' ?t rows'"
    using table_rep_cong [of h' "?u\<lparr>live := (live ?u)(s := False)\<rparr>" ?t rows'] by (simp add: h'_def net_close_def)
  have "reactor h' p rows'"
    unfolding reactor_def
  proof (intro conjI allI ballI)
    show "valid h' p" using v own(3) by (simp add: valid_def F)
    show "p \<notin> set (nodes rows')" "server_list (ppoll h' p) \<notin> set (nodes rows')" using pn nodes' by (simp_all add: F)
    show "table_rep h' (server_list (ppoll h' p)) rows'" using t'' by (simp add: F)
    show "t_create_key h' (server_list (ppoll h' p)) = POLL_KEY" using ck by (simp add: F)
    show "filed ?g 50000 rows'" by (rule f')
    show "srv_poll (psrv h' x) = p" if "x \<in> set (nodes rows')" for x using that ow nodes' by (simp add: F)
    show "max_conn (ppoll h' p) = int (length (nodes rows'))" using mc ns(3) by (simp add: F rows'_def)
    fix fd
    have "interest h' (ep_fd (ppoll h' p)) fd = None \<longleftrightarrow> fd_map ?g rows' fd = None"
      unfolding m' using reactor_watched [OF r, of fd] by (simp add: F)
    then show "interest h' (ep_fd (ppoll h' p)) fd \<noteq> None \<longleftrightarrow> (\<exists>x \<in> set (nodes rows'). ?g x = fd)"
      unfolding fd_map_None by (auto simp: image_iff)
  qed
  then show ?thesis using ev F m' by auto
qed

text \<open>The contract, for reactors whose servers have no delete call back.\<close>

definition poll_reg :: "ptr \<Rightarrow> 'a polls_scheme \<Rightarrow> (int \<Rightarrow> ptr option) \<Rightarrow> bool" where
  "poll_reg p h m \<longleftrightarrow> (\<exists>rows. reactor h p rows \<and> (\<forall>x \<in> set (nodes rows). pFun_del (psrv h x) = 0) \<and>
     length (nodes rows) < 2 ^ 31 \<and> m = fds_of h rows)"

definition removable :: "int \<Rightarrow> bool" where
  "removable fd \<longleftrightarrow> 0 < fd \<and> fd < 50000"

text \<open>Deleting a registered server by its address.\<close>

lemma poll_del_server_reg:
  assumes g: "poll_reg p h m" and s: "m fd = Some s" and l: "removable fd"
  shows "\<exists>h'. poll_del_server cds s h = Some (OK, h') \<and> poll_reg p h' (m(fd := None)) \<and>
     live h' = (live h)(s := False) \<and> closed (net h') = fd # closed (net h) \<and>
     psrv h' = (psrv h)(s := (psrv h s)\<lparr>server_fd := 0\<rparr>) \<and> run (ppoll h' p) = run (ppoll h p) \<and> now h' = now h"
proof -
  obtain rows where r: "reactor h p rows" "\<forall>x \<in> set (nodes rows). pFun_del (psrv h x) = 0"
      "length (nodes rows) < 2 ^ 31" "m = fds_of h rows"
    using g unfolding poll_reg_def by blast
  have f: "filed (\<lambda>x. server_fd (psrv h x)) 50000 rows" using r(1) by (simp add: reactor_def)
  have xn: "s \<in> set (nodes rows)" "server_fd (psrv h s) = fd" using s fd_map_Some [OF f] by (simp_all add: r(4))
  then obtain k where k: "k < length rows" "s \<in> set (rows ! k)" by (auto simp: in_nodes)
  let ?rows = "rows[k := remove1 s (rows ! k)]"
  have fd: "0 < server_fd (psrv h s)" "server_fd (psrv h s) < 50000" using l xn(2) by (simp_all add: removable_def)
  obtain h' where h': "poll_del_server cds s h = Some (OK, h')" "reactor h' p ?rows"
      "fds_of h' ?rows = (fds_of h rows)(fd := None)" "live h' = (live h)(s := False)"
      "closed (net h') = fd # closed (net h)" "psrv h' = (psrv h)(s := (psrv h s)\<lparr>server_fd := 0\<rparr>)"
      "run (ppoll h' p) = run (ppoll h p)" "now h' = now h"
    using poll_del_server_ok [OF r(1) k _ fd, of cds] r(2,3) xn by auto
  have "distinct (nodes rows)" using f by (simp add: filed_def)
  note ns = nodes_remove [OF k this]
  have "poll_reg p h' (m(fd := None))"
    unfolding poll_reg_def
  proof (intro exI conjI)
    show "reactor h' p ?rows" by (rule h'(2))
    show "\<forall>y \<in> set (nodes ?rows). pFun_del (psrv h' y) = 0" using r(2) ns(1) by (simp add: h'(6))
    show "length (nodes ?rows) < 2 ^ 31" using ns(3) r(3) by simp
    show "m(fd := None) = fds_of h' ?rows" by (simp add: h'(3) r(4))
  qed
  then show ?thesis using h' by blast
qed

lemma poll_del_by_fd_ok:
  assumes g: "poll_reg p h m" and x: "m fd = Some x" and l: "removable fd"
  shows "\<exists>h'. poll_del_server_by_fd cds p fd h = Some (OK, h') \<and> poll_reg p h' (m(fd := None)) \<and>
     live h' = (live h)(x := False) \<and> closed (net h') = fd # closed (net h)"
proof -
  have r: "\<exists>rows. reactor h p rows \<and> m = fds_of h rows" using g unfolding poll_reg_def by blast
  then have "p \<noteq> NULL" by (auto simp: reactor_def dest: valid_pos)
  moreover have "poll_get_server_by_fd p fd h = Some x"
    using r x l poll_get_eq [of h p _ fd] by (auto simp: removable_def)
  ultimately show ?thesis using poll_del_server_reg [OF g x l] by (auto simp: poll_del_server_by_fd_def)
qed

text \<open>A descriptor that is 0 or at least 50000 is refused, although it could be registered.\<close>

lemma poll_del_by_fd_refused:
  assumes g: "poll_reg p h m" and x: "m fd = Some x" and l: "0 \<le> fd" "\<not> removable fd"
  shows "poll_del_server_by_fd cds p fd h = Some (ERROR, h)"
proof -
  obtain rows where r: "reactor h p rows" "m = fds_of h rows" using g unfolding poll_reg_def by blast
  have f: "filed (\<lambda>x. server_fd (psrv h x)) 50000 rows" using r(1) by (simp add: reactor_def)
  have xn: "x \<in> set (nodes rows)" "server_fd (psrv h x) = fd" using x fd_map_Some [OF f] by (simp_all add: r(2))
  have v: "valid h x" "srv_poll (psrv h x) = p" "valid h p"
    using reactor_nodes_valid [OF r(1) xn(1)] r(1) xn(1) by (simp_all add: reactor_def)
  then have n: "x \<noteq> NULL" "p \<noteq> NULL" by (auto dest: valid_pos)
  have "poll_get_server_by_fd p fd h = Some x" using poll_get_eq [OF r(1) l(1)] x by (simp add: r(2))
  then show ?thesis
    using n v xn(2) l by (auto simp: poll_del_server_by_fd_def poll_del_server_def get_srv_def removable_def POLL_MAX_EVENT_NUM_def)
qed

interpretation reactor_reg: fd_registry "poll_reg p" "poll_get_server_by_fd p" "poll_del_server_by_fd cds p" removable
  for p and cds :: "'a polls_scheme poll_codes"
proof
  fix h :: "'a polls_scheme" and m fd x
  show "poll_get_server_by_fd p fd h = Some (case m fd of None \<Rightarrow> NULL | Some x \<Rightarrow> x)" if "poll_reg p h m" "0 \<le> fd"
    using that by (auto simp: poll_reg_def poll_get_eq)
  show "\<exists>h'. poll_del_server_by_fd cds p fd h = Some (OK, h') \<and> poll_reg p h' (m(fd := None))"
    if "poll_reg p h m" "m fd = Some x" "removable fd"
    using poll_del_by_fd_ok [OF that] by blast
  show "poll_del_server_by_fd cds p fd h = Some (ERROR, h)" if "poll_reg p h m" "m fd = None" "0 \<le> fd"
  proof -
    have "p \<noteq> NULL" using that(1) by (auto simp: poll_reg_def reactor_def dest: valid_pos)
    then show ?thesis using that by (auto simp: poll_reg_def poll_get_eq poll_del_server_by_fd_def poll_del_server_def)
  qed
  show "0 \<le> fd" if "removable fd" using that by (simp add: removable_def)
qed

lemma poll_add_ok:
  assumes g: "poll_reg p h m" and m: "heap_ok h" "\<not> next_oom h" and n: "\<not> fst (sys_call (net h)) < 0"
    and fd: "0 \<le> fd" "m fd = None" and c: "\<And>rows. reactor h p rows \<Longrightarrow> length (nodes rows) < 2 ^ 31 - 1" and fn: "fn \<noteq> 0"
  shows "\<exists>h'. poll_add_server_with_idle_timeout p fd fn param idle h = Some (brk h, h') \<and> brk h \<noteq> NULL \<and>
     poll_reg p h' (m(fd \<mapsto> brk h)) \<and> heap_ok h' \<and> srv_last_time (psrv h' (brk h)) = 0 \<and>
     idle_timeout (psrv h' (brk h)) = idle"
proof -
  obtain rows where r: "reactor h p rows" "\<forall>x \<in> set (nodes rows). pFun_del (psrv h x) = 0" "m = fds_of h rows"
    using g unfolding poll_reg_def by blast
  define srv where "srv = zero_server\<lparr>server_fd := fd, pFun_svr := fn, pParam := param, idle_timeout := idle\<rparr>"
  have srv: "server_fd srv = fd" "pFun_del srv = 0" "srv_last_time srv = 0" "idle_timeout srv = idle"
    by (simp_all add: srv_def zero_server_def)
  define rows' where "rows' = rows[nat (fd mod 50000) := rows ! nat (fd mod 50000) @ [brk h]]"
  obtain h' where h': "add_server p srv h = Some (brk h, h')" "brk h \<noteq> NULL" "reactor h' p rows'"
      "fds_of h' rows' = (fds_of h rows)(fd \<mapsto> brk h)"
      "psrv h' = (psrv h)(brk h := srv\<lparr>srv_poll := p, ep_events := EPOLLIN OR EPOLLERR OR EPOLLHUP\<rparr>)" "heap_ok h'"
    using add_server_ok [OF r(1) m n, of srv] fd c [OF r(1)] srv(1) r(3) unfolding rows'_def by auto
  have "length rows = 50000" using r(1) by (simp add: reactor_def filed_def)
  then have k: "nat (fd mod 50000) < length rows" by (simp add: nat_less_iff)
  have "poll_reg p h' (m(fd \<mapsto> brk h))"
    unfolding poll_reg_def
  proof (intro exI conjI)
    show "reactor h' p rows'" by (rule h'(3))
    show "\<forall>x \<in> set (nodes rows'). pFun_del (psrv h' x) = 0"
      using r(2) srv(2) nodes_add(1) [OF k] by (simp add: h'(5) rows'_def)
    show "length (nodes rows') < 2 ^ 31" using nodes_add(3) [OF k] c [OF r(1)] by (simp add: rows'_def)
    show "m(fd \<mapsto> brk h) = fds_of h' rows'" by (simp add: h'(4) r(3))
  qed
  moreover have "p \<noteq> NULL" using r(1) by (auto simp: reactor_def dest: valid_pos)
  ultimately show ?thesis
    using h'(1,2,5,6) fd(1) fn srv(3,4) by (simp add: poll_add_server_with_idle_timeout_def flip: srv_def)
qed

text \<open>Changes elsewhere leave the reactor as it is.\<close>

lemma reactor_frame:
  assumes r: "reactor h p rows" and t: "table_rep h' (server_list (ppoll h p)) rows" and v: "valid h' p"
    and pp: "server_list (ppoll h' p) = server_list (ppoll h p)" "ep_fd (ppoll h' p) = ep_fd (ppoll h p)"
      "max_conn (ppoll h' p) = max_conn (ppoll h p)"
    and ck: "t_create_key h' (server_list (ppoll h p)) = t_create_key h (server_list (ppoll h p))"
    and s: "\<And>x. x \<in> set (nodes rows) \<Longrightarrow> server_fd (psrv h' x) = server_fd (psrv h x) \<and> srv_poll (psrv h' x) = srv_poll (psrv h x)"
    and i: "interest h' (ep_fd (ppoll h p)) = interest h (ep_fd (ppoll h p))"
  shows "reactor h' p rows" and "fds_of h' rows = fds_of h rows"
proof -
  have f: "filed (\<lambda>x. server_fd (psrv h' x)) 50000 rows = filed (\<lambda>x. server_fd (psrv h x)) 50000 rows"
    by (rule filed_cong) (simp add: s)
  show "reactor h' p rows" using r t v s unfolding reactor_def pp ck i f by auto
  show "fds_of h' rows = fds_of h rows" by (rule fd_map_cong) (simp add: s)
qed

lemma poll_add_refused:
  assumes g: "poll_reg p h m" and m: "heap_ok h" "\<not> next_oom h" and fn: "fn \<noteq> 0" "0 \<le> fd"
    and bad: "fst (sys_call (net h)) < 0 \<or> m fd \<noteq> None"
  shows "\<exists>h'. poll_add_server_with_idle_timeout p fd fn param idle h = Some (NULL, h') \<and> poll_reg p h' m \<and>
     (\<forall>q. live h' q = live h q)"
proof -
  obtain rows where r: "reactor h p rows" "\<forall>x \<in> set (nodes rows). pFun_del (psrv h x) = 0" "length (nodes rows) < 2 ^ 31"
      "m = fds_of h rows"
    using g unfolding poll_reg_def by blast
  let ?s = "brk h" and ?t = "server_list (ppoll h p)"
  obtain h1 where h1: "mem_malloc h = (?s, h1)" "valid h1 ?s" "heap.more h1 = heap.more h" "\<not> valid h ?s" "?s \<noteq> NULL"
      "\<And>q. valid h q \<Longrightarrow> valid h1 q \<and> nxt h1 q = nxt h q \<and> prv h1 q = prv h q \<and> q \<noteq> ?s"
    by (rule mem_malloc_node [OF m]) (rule that)
  note e = polls_more [OF h1(3)]
  have v: "valid h p" and t: "table_rep h ?t rows" using r(1) by (simp_all add: reactor_def)
  then have p0: "p \<noteq> NULL" by (auto dest: valid_pos)
  have live1: "live h1 = (live h)(?s := True)" using h1(1) m(2) by (auto simp: mem_malloc_def)
  have un: "interest h (ep_fd (ppoll h p)) fd \<noteq> None \<longleftrightarrow> m fd \<noteq> None"
    using reactor_watched [OF r(1), of fd] r(4) by simp
  define sv where "sv = zero_server\<lparr>server_fd := fd, pFun_svr := fn, pParam := param, idle_timeout := idle, srv_poll := p,
      ep_events := EPOLLIN OR EPOLLERR OR EPOLLHUP\<rparr>"
  define h' where "h' = h1\<lparr>psrv := (psrv h)(?s := sv), net := snd (snd (sys_call (net h))), live := live h\<rparr>"
  have off: "(live h)(?s := False) = live h" using h1(4,5) by (auto simp: valid_def fun_eq_iff)
  have "poll_add_server_with_idle_timeout p fd fn param idle h = Some (NULL, h')"
    using h1(1,2,5) h1(6) [OF v] fn p0 bad un e live1 off
    by (auto simp: poll_add_server_with_idle_timeout_def add_server_def get_poll_def epoll_add_def net_call_eq Let_def
        mem_free_def valid_def h'_def sv_def zero_server_def)
  moreover have "poll_reg p h' m"
  proof -
    have sn: "?s \<notin> set (nodes rows)" using reactor_nodes_valid [OF r(1)] h1(4) by blast
    have vs: "valid h' = valid h" by (simp add: h'_def valid_def fun_eq_iff)
    have t': "table_rep h' ?t rows"
      by (rule table_rep_frame [OF t]) (use e h1(6) in_table_valid [OF t] table_rep_valid [OF t] in \<open>auto simp: vs\<close>, auto simp: h'_def)
    have F: "ppoll h' = ppoll h" "interest h' = interest h" "t_create_key h' = t_create_key h" "psrv h' = (psrv h)(?s := sv)"
      using e by (simp_all add: h'_def)
    have own: "server_fd (psrv h' x) = server_fd (psrv h x) \<and> srv_poll (psrv h' x) = srv_poll (psrv h x)"
      if "x \<in> set (nodes rows)" for x using that sn by (auto simp: F)
    have "reactor h' p rows" "fds_of h' rows = fds_of h rows"
      using reactor_frame [OF r(1) t' _ _ _ _ _ own] v by (simp_all add: F vs)
    moreover have "\<forall>x \<in> set (nodes rows). pFun_del (psrv h' x) = 0" using r(2) sn by (auto simp: F)
    ultimately show ?thesis unfolding poll_reg_def using r(3,4) by metis
  qed
  ultimately show ?thesis by (auto simp: h'_def)
qed

section \<open>Properties\<close>

text \<open>C17: the reactor's registration of descriptors refines a map from descriptors to servers, and the kernel's interest
  set, the table and the counter \<open>max_conn\<close> stay in step with it. Registering a descriptor that is not registered extends
  the map by the new server; when it is registered already, or the kernel refuses it, the map and the memory stay as they
  were. Looking a descriptor up reads the map. Deleting by descriptor removes it from the map, frees the server's memory
  and closes the descriptor, when it lies between 1 and 49999; a descriptor that is 0 or 50000 and more is registered like
  any other, and its deletion is refused and changes nothing. This is for a well-formed heap whose next allocation
  succeeds, descriptors that are not negative, a call back that is not 0, servers without a delete call back, and fewer
  than \<open>2 ^ 31 - 1\<close> servers.\<close>
theorem poll_registry_refines:
  assumes "poll_reg p h m" and "heap_ok h" and "\<not> next_oom h" and "0 \<le> fd" and "fn \<noteq> 0"
    and "max_conn (ppoll h p) < 2 ^ 31 - 1"
  shows "(if fst (sys_call (net h)) < 0 \<or> m fd \<noteq> None
     then \<exists>h'. poll_add_server p fd fn param h = Some (NULL, h') \<and> poll_reg p h' m \<and> (\<forall>q. live h' q = live h q)
     else \<exists>h'. poll_add_server p fd fn param h = Some (brk h, h') \<and> poll_reg p h' (m(fd \<mapsto> brk h))) \<and>
   poll_get_server p fd h = Some (case m fd of None \<Rightarrow> NULL | Some x \<Rightarrow> x) \<and>
   (case m fd of
      None \<Rightarrow> removable fd \<longrightarrow> poll_del_server_by_fd cds p fd h = Some (ERROR, h)
    | Some x \<Rightarrow>
        if removable fd
        then \<exists>h'. poll_del_server_by_fd cds p fd h = Some (OK, h') \<and> poll_reg p h' (m(fd := None)) \<and>
          live h' = (live h)(x := False) \<and> closed (net h') = fd # closed (net h)
        else poll_del_server_by_fd cds p fd h = Some (ERROR, h))"
proof (intro conjI impI)
  have c: "length (nodes rows) < 2 ^ 31 - 1" if "reactor h p rows" for rows
    using that assms(6) by (simp add: reactor_def)
  show "if fst (sys_call (net h)) < 0 \<or> m fd \<noteq> None
     then \<exists>h'. poll_add_server p fd fn param h = Some (NULL, h') \<and> poll_reg p h' m \<and> (\<forall>q. live h' q = live h q)
     else \<exists>h'. poll_add_server p fd fn param h = Some (brk h, h') \<and> poll_reg p h' (m(fd \<mapsto> brk h))"
    unfolding poll_add_server_def
    using poll_add_refused [OF assms(1-3,5,4)] poll_add_ok [OF assms(1-3) _ assms(4) _ c assms(5)] by (simp split: if_splits) blast
  show "poll_get_server p fd h = Some (case m fd of None \<Rightarrow> NULL | Some x \<Rightarrow> x)"
    unfolding poll_get_server_def by (rule reactor_reg.lookup_reg [OF assms(1,4)])
  show "case m fd of
      None \<Rightarrow> removable fd \<longrightarrow> poll_del_server_by_fd cds p fd h = Some (ERROR, h)
    | Some x \<Rightarrow>
        if removable fd
        then \<exists>h'. poll_del_server_by_fd cds p fd h = Some (OK, h') \<and> poll_reg p h' (m(fd := None)) \<and>
          live h' = (live h)(x := False) \<and> closed (net h') = fd # closed (net h)
        else poll_del_server_by_fd cds p fd h = Some (ERROR, h)"
    using reactor_reg.remove_unknown [OF assms(1) _ assms(4)] poll_del_by_fd_ok [OF assms(1)]
      poll_del_by_fd_refused [OF assms(1) _ assms(4)]
    by (simp split: option.split)
qed

text \<open>A reactor at address 10 with an empty table of 50000 rows, as \<open>poll_new\<close> leaves it.\<close>

definition polls_demo :: polls where
  "polls_demo = \<lparr>live = (\<lambda>p. 10 \<le> p \<and> p \<le> 50019), brk = 50020, oom = [], nxt = (\<lambda>p. p), prv = (\<lambda>p. p),
     t_head = (\<lambda>_. 20), t_size = (\<lambda>_. 50000), t_create_key = (\<lambda>_. POLL_KEY), t_p = (\<lambda>_. 0),
     io = (\<lambda>_. zero_io), io_ht = (\<lambda>_. 0), io_cnt = (\<lambda>_. 0), pBase = 0, base_poll = (\<lambda>_. 0),
     ppoll = (\<lambda>_. zero_poll\<lparr>magic := POLL_MAGIC, server_list := 13, ep_fd := 3, max_event := 100, pid := 7\<rparr>),
     psrv = (\<lambda>_. zero_server), psig = (\<lambda>_. \<lparr>sig_poll = 10, sig_no = 0, pFun_sig = 0, sig_param = 0, notify = 0, old_sig = 0\<rparr>),
     ptmr = (\<lambda>_. \<lparr>tmr_poll = 10, pFun_tmr = 0, tmr_param = 0, timeout = 0, times = 0, notify_times = 0, last_notify = 0\<rparr>),
     pconn = (\<lambda>_. \<lparr>conn_poll = 10, conn_fd = 0, socket_timeout = 0, conn_fun = 0, conn_param = 0\<rparr>),
     pdup = (\<lambda>_. \<lparr>dup_poll = 10, accept_fd = 0, dup_timeout = 0, pfun_peer = 0, pfun_accept = 0, pfun_del = 0,
       param_accept = 0, param_del = 0\<rparr>),
     now = 1000, getpid = 7, net = \<lparr>answers = [], closed = []\<rparr>, interest = (\<lambda>_ _. None), handler = (\<lambda>_. 0)\<rparr>"

lemma polls_demo_reactor: "reactor polls_demo 10 (replicate 50000 [])"
proof -
  have "table_rep polls_demo 13 (replicate 50000 [])"
    by (auto simp: table_rep_def polls_demo_def valid_def dlist_def)
  then show ?thesis
    by (simp add: reactor_def filed_def) (simp add: polls_demo_def valid_def zero_poll_def)
qed

lemma polls_demo_reg: "poll_reg 10 polls_demo (\<lambda>_. None)" "heap_ok polls_demo" "\<not> next_oom polls_demo"
  "max_conn (ppoll polls_demo 10) = 0" "fst (sys_call (net polls_demo)) = 0" "brk polls_demo = 50020"
proof -
  show "poll_reg 10 polls_demo (\<lambda>_. None)"
    unfolding poll_reg_def using polls_demo_reactor by (auto simp: fd_map_def fun_eq_iff intro!: exI [of _ "replicate 50000 []"])
qed (auto simp: polls_demo_def heap_ok_def next_oom_def zero_poll_def sys_call_def)

theorem poll_registry_refines_witness:
  "(\<exists>h'. poll_add_server 10 5 9 0 polls_demo = Some (50020, h') \<and> poll_reg 10 h' [5 \<mapsto> 50020]) \<and>
   poll_get_server 10 5 polls_demo = Some NULL"
  using poll_registry_refines [OF polls_demo_reg(1-3), of 5 9 0] polls_demo_reg by simp

end
