(* ===== verification/LibPollLoop.thy ===== *)
theory LibPollLoop imports LibPoll begin

text \<open>
  The running half of \<open>Server/Lib/lib-poll.c\<close>: the acceptor, connector, receiver and duplexer, the
  dispatch of the events of one round, the loop \<open>poll_wait\<close>, and the timer call back that closes idle
  descriptors. A server's call back is a number; the numbers \<open>SVR_SIGNAL\<close> to \<open>SVR_DUPLEX\<close> are the
  functions of this file, every other number is the user's, given by \<open>svr_code\<close>.

  The loop is driven by a script of rounds. A round says what \<open>lib_time_get\<close> returns and what
  \<open>epoll_wait\<close> answers for the time-out it is given. The loop is \<open>Waiting\<close> when the script has ended
  before it returned.
\<close>

section \<open>Acceptors, connectors and receivers\<close>

definition get_conn :: "ptr \<Rightarrow> 'a polls_scheme \<Rightarrow> poll_conn option" where
  "get_conn c h = (if valid h c then Some (pconn h c) else None)"

definition get_dup :: "ptr \<Rightarrow> 'a polls_scheme \<Rightarrow> poll_duplexer option" where
  "get_dup d h = (if valid h d then Some (pdup h d) else None)"

definition poll_set_fd_timeout :: "int \<Rightarrow> int \<Rightarrow> 'a polls_scheme \<Rightarrow> int \<times> 'a polls_scheme" where
  "poll_set_fd_timeout fd tmo h =
     (if tmo \<le> 0 then (OK, h)
      else let (ret, h) = net_call h in (if ret < 0 then ERROR else OK, h))"

text \<open>The test both acceptors make, and the refusal of a connection.\<close>

definition poll_full :: "poll_poll \<Rightarrow> bool" where
  "poll_full pp \<longleftrightarrow> c_int (max_event pp - 10) \<le> max_conn pp"

definition poll_refuse :: "int \<Rightarrow> 'a polls_scheme \<Rightarrow> int \<times> 'a polls_scheme" where
  "poll_refuse fd h =
     (let (acceptFd, h) = net_accept fd h
      in if acceptFd < 0 then (ERROR, h) else (OK, net_close acceptFd h))"

definition poll_accept ::
  "'a polls_scheme poll_codes \<Rightarrow> int \<Rightarrow> int \<Rightarrow> ptr \<Rightarrow> 'a polls_scheme \<Rightarrow> (int \<times> 'a polls_scheme) option"
where
  "poll_accept cds fd type param h =
     (if param = NULL then Some (ERROR, h)
      else if type = POLL_EVENT_IN
      then do {
        ac \<leftarrow> get_conn param h;
        pp \<leftarrow> get_poll (conn_poll ac) h;
        if poll_full pp then Some (poll_refuse fd h)
        else
          let (acceptFd, h) = net_accept fd h
          in if acceptFd < 0 then Some (ERROR, h)
          else
            let (ret, h) = poll_set_fd_timeout acceptFd (socket_timeout ac) h
            in if ret < 0 then Some (ERROR, net_close acceptFd h)
            else do {
              (srv, h) \<leftarrow> poll_add_server_with_idle_timeout (conn_poll ac) acceptFd (conn_fun ac) (conn_param ac) 1 h;
              if srv = NULL then Some (ERROR, net_close acceptFd h) else Some (OK, h) } }
      else do {
        ac \<leftarrow> get_conn param h;
        (_, h) \<leftarrow> svr_code cds (conn_fun ac) fd POLL_EVENT_ERR (conn_param ac) h;
        Some (ERROR, h) })"

definition poll_acceptor :: "ptr \<Rightarrow> 'a polls_scheme \<Rightarrow> (ptr \<times> 'a polls_scheme) option" where
  "poll_acceptor pAccept h =
     (if pAccept = NULL then Some (NULL, h)
      else do {
        ac \<leftarrow> get_conn pAccept h;
        if conn_fd ac < 0 \<or> conn_poll ac = NULL \<or> conn_fun ac = 0 then Some (NULL, h)
        else poll_add_server (conn_poll ac) (conn_fd ac) SVR_ACCEPT pAccept h })"

text \<open>The value returned when the time-out cannot be set is \<open>ERROR\<close> converted to a pointer, not \<open>NULL\<close>.\<close>

definition ERROR_PTR :: ptr where "ERROR_PTR = 2 ^ 64 - 1"

definition poll_connector :: "ptr \<Rightarrow> 'a polls_scheme \<Rightarrow> (ptr \<times> 'a polls_scheme) option" where
  "poll_connector pConnect h =
     (if pConnect = NULL then Some (NULL, h)
      else do {
        co \<leftarrow> get_conn pConnect h;
        if conn_fd co < 0 \<or> conn_poll co = NULL \<or> conn_fun co = 0 then Some (NULL, h)
        else
          let (ret, h) = poll_set_fd_timeout (conn_fd co) (socket_timeout co) h
          in if ret < 0 then Some (ERROR_PTR, h)
          else poll_add_server (conn_poll co) (conn_fd co) (conn_fun co) (conn_param co) h })"

definition poll_recvfrom ::
  "'a polls_scheme poll_codes \<Rightarrow> int \<Rightarrow> int \<Rightarrow> ptr \<Rightarrow> 'a polls_scheme \<Rightarrow> (int \<times> 'a polls_scheme) option"
where
  "poll_recvfrom cds fd type param h =
     (if param = NULL then Some (ERROR, h)
      else do {
        rc \<leftarrow> get_conn param h;
        if type = POLL_EVENT_IN
        then do { (_, h) \<leftarrow> svr_code cds (conn_fun rc) fd POLL_EVENT_IN (conn_param rc) h; Some (OK, h) }
        else do { (_, h) \<leftarrow> svr_code cds (conn_fun rc) fd POLL_EVENT_ERR (conn_param rc) h; Some (ERROR, h) } })"

definition poll_recvor :: "ptr \<Rightarrow> 'a polls_scheme \<Rightarrow> (ptr \<times> 'a polls_scheme) option" where
  "poll_recvor pRecvor h =
     (if pRecvor = NULL then Some (NULL, h)
      else do {
        rc \<leftarrow> get_conn pRecvor h;
        if conn_fd rc < 0 \<or> conn_poll rc = NULL \<or> conn_fun rc = 0 then Some (NULL, h)
        else poll_add_server (conn_poll rc) (conn_fd rc) SVR_RECVFROM pRecvor h })"

section \<open>The duplexer\<close>

text \<open>
  The IO object goes to the peer's function as an \<open>int\<close>. The test that precedes the call is on the
  function; a refusal by the reactor leaves the IO object to nobody.
\<close>

definition poll_io_duplex ::
  "'a polls_scheme poll_codes \<Rightarrow> int \<Rightarrow> int \<Rightarrow> ptr \<Rightarrow> 'a polls_scheme \<Rightarrow> (int \<times> 'a polls_scheme) option"
where
  "poll_io_duplex cds fd type param h =
     (if param = NULL then Some (ERROR, h)
      else if type = POLL_EVENT_IN
      then do {
        du \<leftarrow> get_dup param h;
        pp \<leftarrow> get_poll (dup_poll du) h;
        if poll_full pp then Some (poll_refuse fd h)
        else
          let (acceptFd, h) = net_accept fd h
          in if acceptFd < 0 then Some (ERROR, h)
          else
            let (ret, h) = poll_set_fd_timeout acceptFd (dup_timeout du) h
            in if ret < 0 then Some (ERROR, net_close acceptFd h)
            else do {
              (pio, h) \<leftarrow> io_new h;
              let h = h\<lparr>io := (io h)(pio := (io_set_outside (io_set_self_ready (io h pio)))\<lparr>io_fd := acceptFd\<rparr>)\<rparr>;
              if pfun_peer du = 0
              then do { h \<leftarrow> mem_free pio (net_close acceptFd h); Some (ERROR, h) }
              else do {
                (ret, h) \<leftarrow> svr_code cds (pfun_peer du) (c_int (int pio)) 0 param h;
                if ret \<noteq> 0
                then do { h \<leftarrow> mem_free pio (net_close acceptFd h); Some (OK, h) }
                else do {
                  du \<leftarrow> get_dup param h;
                  o' \<leftarrow> (if valid h pio then Some (io h pio) else None);
                  (srv, h) \<leftarrow> poll_add_server_with_delete_callback (dup_poll du) (io_fd o') (pfun_accept du)
                    (param_accept du) (pfun_del du) (param_del du) h;
                  if srv = NULL then Some (ERROR, net_close acceptFd h) else Some (OK, h) } } } }
      else do {
        du \<leftarrow> get_dup param h;
        (_, h) \<leftarrow> svr_code cds (pfun_accept du) fd POLL_EVENT_ERR (param_accept du) h;
        Some (ERROR, h) })"

definition poll_io_duplexer :: "ptr \<Rightarrow> 'a polls_scheme \<Rightarrow> (ptr \<times> 'a polls_scheme) option" where
  "poll_io_duplexer pIoDuplex h =
     (if pIoDuplex = NULL then Some (NULL, h)
      else do {
        du \<leftarrow> get_dup pIoDuplex h;
        if accept_fd du < 0 \<or> dup_poll du = NULL \<or> pfun_accept du = 0 then Some (NULL, h)
        else poll_add_server (dup_poll du) (accept_fd du) SVR_DUPLEX pIoDuplex h })"

section \<open>The dispatch of a round's events\<close>

definition svr_dispatch ::
  "'a polls_scheme poll_codes \<Rightarrow> nat \<Rightarrow> int \<Rightarrow> int \<Rightarrow> ptr \<Rightarrow> 'a polls_scheme \<Rightarrow> (int \<times> 'a polls_scheme) option"
where
  "svr_dispatch cds f fd type param h =
     (if f = SVR_SIGNAL then poll_self_fun_signal cds fd type param h
      else if f = SVR_ACCEPT then poll_accept cds fd type param h
      else if f = SVR_RECVFROM then poll_recvfrom cds fd type param h
      else if f = SVR_DUPLEX then poll_io_duplex cds fd type param h
      else svr_code cds f fd type param h)"

definition poll_call_server ::
  "'a polls_scheme poll_codes \<Rightarrow> ptr \<Rightarrow> int \<Rightarrow> 'a polls_scheme \<Rightarrow> (int \<times> 'a polls_scheme) option"
where
  "poll_call_server cds s type h = do {
     srv \<leftarrow> get_srv s h;
     h \<leftarrow> upd_poll (srv_poll srv) (\<lambda>pp. pp\<lparr>last_act_srv := POLL_FUNC_IDLE, last_act_fd := - 1\<rparr>) h;
     if pFun_svr srv \<noteq> 0 then svr_dispatch cds (pFun_svr srv) (server_fd srv) type (pParam srv) h
     else Some (ERROR, h) }"

text \<open>The type a server is called with; an event with neither flag is an error or a hang-up.\<close>

definition event_type :: "32 word \<Rightarrow> int" where
  "event_type ev = (if ev AND EPOLLIN \<noteq> 0 then POLL_EVENT_IN else if ev AND EPOLLOUT \<noteq> 0 then POLL_EVENT_OUT
     else POLL_EVENT_ERR)"

text \<open>
  One event: a descriptor no longer registered is passed over. After the call the server's
  structure is written, whatever the call did to it, and a result other than \<open>OK\<close> deletes it.
\<close>

definition dispatch_event ::
  "'a polls_scheme poll_codes \<Rightarrow> ptr \<Rightarrow> int \<Rightarrow> int \<Rightarrow> 32 word \<Rightarrow> 'a polls_scheme \<Rightarrow> 'a polls_scheme option"
where
  "dispatch_event cds p nowtime fd ev h =
     (if fd < 0 then Some h
      else do {
        s \<leftarrow> poll_get_server_by_fd p fd h;
        if s = NULL then Some h
        else do {
          (ret, h) \<leftarrow> poll_call_server cds s (event_type ev) h;
          h \<leftarrow> upd_srv s (\<lambda>srv. srv\<lparr>srv_last_time := nowtime\<rparr>) h;
          if ret \<noteq> 0 then do { (_, h) \<leftarrow> poll_del_server cds s h; Some h } else Some h } })"

fun dispatch_events ::
  "'a polls_scheme poll_codes \<Rightarrow> ptr \<Rightarrow> int \<Rightarrow> (int \<times> 32 word) list \<Rightarrow> 'a polls_scheme \<Rightarrow> 'a polls_scheme option"
where
  "dispatch_events cds p nowtime [] h = Some h"
| "dispatch_events cds p nowtime ((fd, ev) # evs) h = do {
     pp \<leftarrow> get_poll p h;
     if run pp = 0 then Some h
     else do {
       h \<leftarrow> dispatch_event cds p nowtime fd ev h;
       dispatch_events cds p nowtime evs h } }"

section \<open>The loop\<close>

datatype wait_answer = Events "(int \<times> 32 word) list" | Failed int

datatype wait_result = Returned int | Waiting

type_synonym wait_round = "int \<times> (int \<Rightarrow> wait_answer)"

definition call_interrupt :: "'a polls_scheme poll_codes \<Rightarrow> ptr \<Rightarrow> 'a polls_scheme \<Rightarrow> (int \<times> 'a polls_scheme) option" where
  "call_interrupt cds p h = do {
     pp \<leftarrow> get_poll p h;
     if pFun_itr pp \<noteq> 0 then itr_code cds (pFun_itr pp) (pItr_param pp) h else Some (OK, h) }"

text \<open>
  The reading of the clock, the timers and the time-out of one round: \<open>lasttime\<close>, \<open>nowtime\<close> and the
  milliseconds given to \<open>epoll_wait\<close>. Without a time-out the clock is not read and \<open>nowtime\<close> stays.
\<close>

definition round_clock ::
  "'a polls_scheme poll_codes \<Rightarrow> ptr \<Rightarrow> int \<Rightarrow> int \<Rightarrow> int \<Rightarrow> 'a polls_scheme \<Rightarrow> (int \<times> int \<times> int \<times> 'a polls_scheme) option"
where
  "round_clock cds p tmo lasttime nowtime h =
     (if 0 \<le> tmo
      then do {
        let nowtime = now h;
        h \<leftarrow> poll_check_timer cds p nowtime h;
        let lasttime = (if lasttime \<le> nowtime then nowtime + tmo else lasttime);
        Some (lasttime, nowtime, c_int ((lasttime - nowtime) * 1000), h) }
      else Some (lasttime, nowtime, - 1, h))"

fun wait_loop ::
  "'a polls_scheme poll_codes \<Rightarrow> ptr \<Rightarrow> int \<Rightarrow> int \<Rightarrow> int \<Rightarrow> wait_round list \<Rightarrow> 'a polls_scheme \<Rightarrow>
   (wait_result \<times> 'a polls_scheme) option"
where
  "wait_loop cds p tmo lasttime nowtime [] h = do {
     pp \<leftarrow> get_poll p h;
     if run pp = 0 then Some (Returned OK, h)
     else if magic pp \<noteq> POLL_MAGIC then Some (Returned ERROR, h)
     else Some (Waiting, h) }"
| "wait_loop cds p tmo lasttime nowtime ((t, answer) # rounds) h = do {
     pp \<leftarrow> get_poll p h;
     if run pp = 0 then Some (Returned OK, h)
     else if magic pp \<noteq> POLL_MAGIC then Some (Returned ERROR, h)
     else do {
       (lasttime, nowtime, tOut, h) \<leftarrow> round_clock cds p tmo lasttime nowtime (h\<lparr>now := t\<rparr>);
       (ret, h) \<leftarrow> call_interrupt cds p h;
       if ret \<noteq> OK then Some (Returned OK, h)
       else do {
         pp \<leftarrow> get_poll p h;
         if run pp \<noteq> 1 then Some (Returned OK, h)
         else
           case answer tOut of
             Failed err \<Rightarrow>
               if err = EINTR
               then do {
                 (ret, h) \<leftarrow> call_interrupt cds p h;
                 if ret \<noteq> OK then Some (Returned OK, h) else wait_loop cds p tmo lasttime nowtime rounds h }
               else Some (Returned OK, h)
           | Events evs \<Rightarrow>
               if POLL_MAX_EVENT_NUM < int (length evs) then None
               else do {
                 h \<leftarrow> dispatch_events cds p nowtime evs h;
                 wait_loop cds p tmo lasttime nowtime rounds h } } } }"

definition poll_wait ::
  "'a polls_scheme poll_codes \<Rightarrow> ptr \<Rightarrow> int \<Rightarrow> wait_round list \<Rightarrow> 'a polls_scheme \<Rightarrow> (wait_result \<times> 'a polls_scheme) option"
where
  "poll_wait cds p tmo rounds h =
     (if p = NULL then Some (Returned ERROR, h)
      else do {
        pp \<leftarrow> get_poll p h;
        none \<leftarrow> hash_empty (server_list pp) h;
        no_timer \<leftarrow> lib_list_empty (timer_list p) h;
        no_signal \<leftarrow> lib_list_empty (signal_list p) h;
        if none \<noteq> 0 \<and> no_timer \<and> no_signal then Some (Returned OK, h)
        else if tmo < - 1 \<or> (tmo = - 1 \<and> \<not> no_timer) then Some (Returned ERROR, h)
        else do {
          h \<leftarrow> poll_init_timer p tmo h;
          h \<leftarrow> upd_poll p (\<lambda>pp. pp\<lparr>run := 1\<rparr>) h;
          wait_loop cds p tmo (now h + tmo) 0 rounds h } })"

section \<open>Cleaning idle descriptors\<close>

definition is_idle :: "int \<Rightarrow> poll_server \<Rightarrow> bool" where
  "is_idle now_time srv \<longleftrightarrow> idle_timeout srv \<noteq> 0 \<and> POLL_MAX_CLEAN_IDLE_FD_TIME < now_time - srv_last_time srv"

definition idle_body ::
  "'a polls_scheme poll_codes \<Rightarrow> int \<Rightarrow> ptr \<Rightarrow> 'a polls_scheme \<Rightarrow> unit \<Rightarrow> ('a polls_scheme \<times> unit \<times> bool) option"
where
  "idle_body cds now_time s h (_ :: unit) =
     (if s = NULL then Some (h, (), False)
      else do {
        srv \<leftarrow> get_srv s h;
        if is_idle now_time srv
        then do { (_, h) \<leftarrow> poll_del_server cds s h; Some (h, (), False) }
        else Some (h, (), False) })"

fun clean_rows :: "'a polls_scheme poll_codes \<Rightarrow> int \<Rightarrow> ptr list \<Rightarrow> 'a polls_scheme \<Rightarrow> 'a polls_scheme option" where
  "clean_rows cds now_time [] h = Some h"
| "clean_rows cds now_time (head # heads) h = do {
     (h, _) \<leftarrow> lib_list_for_each_safe (idle_body cds now_time) head h ();
     clean_rows cds now_time heads h }"

definition poll_timer_clean_idle_fd :: "'a polls_scheme poll_codes \<Rightarrow> ptr \<Rightarrow> 'a polls_scheme \<Rightarrow> (int \<times> 'a polls_scheme) option" where
  "poll_timer_clean_idle_fd cds p h =
     (if p = NULL then Some (ERROR, h)
      else do {
        pp \<leftarrow> get_poll p h;
        let table = server_list pp;
        if table = NULL then Some (ERROR, h)
        else do {
          _ \<leftarrow> lib_assert (valid h table);
          h \<leftarrow> clean_rows cds (now h) (row_heads h table) h;
          Some (OK, h) } })"

section \<open>Calling a server keeps the registry\<close>

lemmas poll_safe = net_call_eq Let_def case_prod_unfold

definition called :: "ptr \<Rightarrow> 'a polls_scheme \<Rightarrow> 'a polls_scheme" where
  "called p h = h\<lparr>ppoll := (ppoll h)(p := (ppoll h p)\<lparr>last_act_srv := POLL_FUNC_IDLE, last_act_fd := - 1\<rparr>)\<rparr>"

definition touched :: "ptr \<Rightarrow> int \<Rightarrow> 'a polls_scheme \<Rightarrow> 'a polls_scheme" where
  "touched s t h = h\<lparr>psrv := (psrv h)(s := (psrv h s)\<lparr>srv_last_time := t\<rparr>)\<rparr>"

lemma called_simps [simp]:
  "valid (called p h) = valid h" "psrv (called p h) = psrv h" "net (called p h) = net h" "live (called p h) = live h"
  "run (ppoll (called p h) p) = run (ppoll h p)" "now (called p h) = now h"
  by (simp_all add: called_def)

lemma touched_simps [simp]:
  "valid (touched s t h) = valid h" "ppoll (touched s t h) = ppoll h" "net (touched s t h) = net h"
  "live (touched s t h) = live h" "now (touched s t h) = now h"
  "server_fd (psrv (touched s t h) x) = server_fd (psrv h x)" "srv_poll (psrv (touched s t h) x) = srv_poll (psrv h x)"
  "pFun_del (psrv (touched s t h) x) = pFun_del (psrv h x)" "pFun_svr (psrv (touched s t h) x) = pFun_svr (psrv h x)"
  by (simp_all add: touched_def)

lemma reactor_called:
  assumes "reactor h p rows"
  shows "reactor (called p h) p rows" "fds_of (called p h) rows = fds_of h rows"
proof -
  have "table_rep (called p h) (server_list (ppoll h p)) rows" "valid (called p h) p"
    using assms by (simp_all add: reactor_def called_def)
  then show "reactor (called p h) p rows" by (rule reactor_frame [OF assms]) (simp_all add: called_def)
qed simp

lemma reactor_touched:
  assumes "reactor h p rows"
  shows "reactor (touched s t h) p rows" "fds_of (touched s t h) rows = fds_of h rows"
proof -
  have "table_rep (touched s t h) (server_list (ppoll h p)) rows" "valid (touched s t h) p"
    using assms by (simp_all add: reactor_def touched_def)
  then show "reactor (touched s t h) p rows" by (rule reactor_frame [OF assms]) (simp_all add: touched_def)
qed simp

text \<open>The registry restricted to servers whose call back is the user's and who have no delete call back.\<close>

definition plain_reg :: "ptr \<Rightarrow> 'a polls_scheme \<Rightarrow> (int \<Rightarrow> ptr option) \<Rightarrow> bool" where
  "plain_reg p h m \<longleftrightarrow> poll_reg p h m \<and> (\<forall>fd x. m fd = Some x \<longrightarrow> SVR_DUPLEX < pFun_svr (psrv h x))"

lemma poll_reg_called: "poll_reg p h m \<Longrightarrow> poll_reg p (called p h) m"
  unfolding poll_reg_def using reactor_called by (metis called_simps(2))

lemma poll_reg_touched: "poll_reg p h m \<Longrightarrow> poll_reg p (touched s t h) m"
  unfolding poll_reg_def using reactor_touched by (metis touched_simps(8))

lemma plain_reg_called: "plain_reg p h m \<Longrightarrow> plain_reg p (called p h) m"
  by (simp add: plain_reg_def poll_reg_called)

lemma plain_reg_touched: "plain_reg p h m \<Longrightarrow> plain_reg p (touched s t h) m"
  by (simp add: plain_reg_def poll_reg_touched)

lemma poll_reg_server:
  assumes "poll_reg p h m" and "m fd = Some s"
  shows "valid h s" "valid h p" "srv_poll (psrv h s) = p" "server_fd (psrv h s) = fd" "pFun_del (psrv h s) = 0"
    "s \<noteq> NULL" "p \<noteq> NULL" "s \<noteq> p"
proof -
  obtain rows where r: "reactor h p rows" "\<forall>x \<in> set (nodes rows). pFun_del (psrv h x) = 0" "m = fds_of h rows"
    using assms(1) unfolding poll_reg_def by blast
  then have s: "s \<in> set (nodes rows)" "server_fd (psrv h s) = fd"
    using assms(2) fd_map_Some [of "\<lambda>x. server_fd (psrv h x)" 50000 rows] by (auto simp: reactor_def)
  then show "valid h s" "srv_poll (psrv h s) = p" "server_fd (psrv h s) = fd" "pFun_del (psrv h s) = 0" "valid h p" "s \<noteq> p"
    using r reactor_nodes_valid [OF r(1)] by (auto simp: reactor_def)
  then show "s \<noteq> NULL" "p \<noteq> NULL" by (auto dest: valid_pos)
qed

text \<open>What a dispatched event does to a registered server.\<close>

lemma dispatch_event_eq:
  assumes g: "poll_reg p h m" and s: "m fd = Some s" and fd: "0 \<le> fd" and f: "SVR_DUPLEX < pFun_svr (psrv h s)"
  shows "dispatch_event cds p t fd ev h = do {
     (ret, h) \<leftarrow> svr_code cds (pFun_svr (psrv h s)) fd (event_type ev) (pParam (psrv h s)) (called p h);
     h \<leftarrow> upd_srv s (\<lambda>srv. srv\<lparr>srv_last_time := t\<rparr>) h;
     if ret \<noteq> 0 then do { (_, h) \<leftarrow> poll_del_server cds s h; Some h } else Some h }"
proof -
  note o = poll_reg_server [OF g s]
  have "poll_get_server_by_fd p fd h = Some s" using reactor_reg.lookup_reg [OF g fd] s by simp
  then show ?thesis
    using o fd f by (simp add: dispatch_event_def poll_call_server_def get_srv_def upd_poll_def svr_dispatch_def
        SVR_SIGNAL_def SVR_ACCEPT_def SVR_RECVFROM_def SVR_DUPLEX_def flip: called_def)
qed

lemma dispatch_event_unknown:
  "poll_reg p h m \<Longrightarrow> m fd = None \<Longrightarrow> 0 \<le> fd \<Longrightarrow> dispatch_event cds p t fd ev h = Some h"
  using reactor_reg.lookup_reg [of p h m fd] by (simp add: dispatch_event_def)

section \<open>Properties of the dispatch\<close>

text \<open>The reactor of \<open>polls_demo\<close> with one server, at address 14, for descriptor 5.\<close>

definition demo_server :: poll_server where
  "demo_server = zero_server\<lparr>srv_poll := 10, server_fd := 5, pFun_svr := 9, idle_timeout := 1\<rparr>"

definition polls_demo_5 :: polls where
  "polls_demo_5 = polls_demo\<lparr>
     nxt := (\<lambda>p. p)(25 := 14, 14 := 25), prv := (\<lambda>p. p)(25 := 14, 14 := 25),
     psrv := (\<lambda>_. demo_server), now := 2000, interest := (\<lambda>_. [5 \<mapsto> EPOLLIN]),
     ppoll := (\<lambda>_. zero_poll\<lparr>magic := POLL_MAGIC, server_list := 13, ep_fd := 3, max_event := 100, max_conn := 1,
       pid := 7, run := 1\<rparr>)\<rparr>"

lemma demo_nodes: "nodes ((replicate 50000 [])[5 := [14]]) = [14]"
proof -
  have "length (nodes ((replicate 50000 [])[5 := [14 :: nat]])) = 1" "set (nodes ((replicate 50000 [])[5 := [14 :: nat]])) = {14}"
    using nodes_add(1,3) [of 5 "replicate 50000 []" 14] by simp_all
  then show ?thesis by (cases "nodes ((replicate 50000 [])[5 := [14 :: nat]])") auto
qed

lemma polls_demo_5_reactor: "reactor polls_demo_5 10 ((replicate 50000 [])[5 := [14]])"
proof -
  have "table_rep polls_demo_5 13 ((replicate 50000 [])[5 := [14]])"
    by (auto simp: table_rep_def polls_demo_5_def polls_demo_def valid_def dlist_def nth_list_update)
  then show ?thesis
    by (simp add: reactor_def filed_def demo_nodes nth_list_update)
      (simp add: polls_demo_5_def polls_demo_def valid_def zero_poll_def zero_server_def demo_server_def)
qed

lemma polls_demo_5_reg: "poll_reg 10 polls_demo_5 [5 \<mapsto> 14]" "plain_reg 10 polls_demo_5 [5 \<mapsto> 14]"
  "run (ppoll polls_demo_5 10) = 1" "psrv polls_demo_5 x = demo_server" "now polls_demo_5 = 2000" "closed (net polls_demo_5) = []"
proof -
  let ?rows = "(replicate 50000 [])[5 := [14]]"
  have fd: "server_fd (psrv polls_demo_5 x) = 5" "pFun_del (psrv polls_demo_5 x) = 0" "pFun_svr (psrv polls_demo_5 x) = 9" for x
    by (simp_all add: polls_demo_5_def demo_server_def zero_server_def)
  have "filed (\<lambda>x. server_fd (psrv polls_demo_5 x)) 50000 ?rows" using polls_demo_5_reactor by (simp add: reactor_def)
  note f = fd_map_Some [OF this]
  have "[5 \<mapsto> 14] = fds_of polls_demo_5 ?rows"
  proof (rule map_eq_by_Some)
    fix d x
    show "[5 \<mapsto> 14] d = Some x \<longleftrightarrow> fds_of polls_demo_5 ?rows d = Some x"
      unfolding f by (auto simp: demo_nodes fd)
  qed
  then show "poll_reg 10 polls_demo_5 [5 \<mapsto> 14]"
    unfolding poll_reg_def using polls_demo_5_reactor demo_nodes fd by (intro exI [of _ ?rows]) simp
  then show "plain_reg 10 polls_demo_5 [5 \<mapsto> 14]" by (simp add: plain_reg_def SVR_DUPLEX_def fd)
qed (simp_all add: polls_demo_5_def polls_demo_def)

text \<open>C18: A server's call back must not delete its own server. When it does, the reactor writes the time of the last event into the freed structure: for every registered descriptor whose user call back deletes the server by its descriptor, whatever it returns and whatever events follow, the dispatch of the event is undefined.\<close>
theorem dispatch_self_delete_crashes:
  assumes "poll_reg p h m" and "m fd = Some s" and "removable fd" and "run (ppoll h p) \<noteq> 0"
    and "SVR_DUPLEX < pFun_svr (psrv h s)"
    and "\<And>type h'. svr_code cds (pFun_svr (psrv h s)) fd type (pParam (psrv h s)) h'
         = do { (_, h'') \<leftarrow> poll_del_server_by_fd cds' p fd h'; Some (r, h'') }"
  shows "dispatch_events cds p t ((fd, ev) # evs) h = None"
proof -
  have fd: "0 \<le> fd" using assms(3) by (simp add: removable_def)
  obtain h' where h': "poll_del_server_by_fd cds' p fd (called p h) = Some (OK, h')" "live h' = (live h)(s := False)"
    using poll_del_by_fd_ok [OF poll_reg_called [OF assms(1)] assms(2,3), of cds'] by auto
  have "\<not> valid h' s" using h'(2) by (simp add: valid_def)
  then have "dispatch_event cds p t fd ev h = None"
    using h'(1) by (simp add: dispatch_event_eq [OF assms(1,2) fd assms(5)] assms(6) upd_srv_def)
  moreover have "valid h p" using poll_reg_server [OF assms(1,2)] by simp
  ultimately show ?thesis using assms(4) by (simp add: get_poll_def)
qed

definition no_codes :: "'a polls_scheme poll_codes" where
  "no_codes = \<lparr>svr_code = (\<lambda>_ _ _ _ h. Some (0, h)), tmr_code = (\<lambda>_ _ h. Some (0, h)), sig_code = (\<lambda>_ _ _ h. Some (0, h)),
     itr_code = (\<lambda>_ _ h. Some (0, h)), del_code = (\<lambda>_ _ _ _ h. Some (0, h))\<rparr>"

theorem dispatch_self_delete_crashes_witness:
  "dispatch_events (no_codes\<lparr>svr_code := (\<lambda>_ fd _ _ h. do { (_, h) \<leftarrow> poll_del_server_by_fd no_codes 10 fd h; Some (0, h) })\<rparr>)
     10 7 [(5, EPOLLIN)] polls_demo_5 = None"
  by (rule dispatch_self_delete_crashes [OF polls_demo_5_reg(1), where s = 14 and cds' = no_codes and r = 0])
    (simp_all add: polls_demo_5_reg demo_server_def zero_server_def removable_def SVR_DUPLEX_def)

text \<open>The descriptors among the events whose call back reports a failure.\<close>

definition failing :: "(int \<Rightarrow> int \<Rightarrow> int) \<Rightarrow> (int \<times> 32 word) list \<Rightarrow> int set" where
  "failing reply evs = {fd. \<exists>ev. (fd, ev) \<in> set evs \<and> reply fd (event_type ev) \<noteq> 0}"

lemma failing_Cons:
  "failing reply ((fd, ev) # evs) = (if reply fd (event_type ev) \<noteq> 0 then insert fd (failing reply evs) else failing reply evs)"
  by (auto simp: failing_def)

lemma finite_failing: "finite (failing reply evs)"
  by (rule finite_subset [of _ "fst ` set evs"]) (force simp: failing_def)+

text \<open>A call back that answers \<open>reply\<close> and, whatever else it does, keeps the registry and closes nothing.\<close>

definition replies :: "'a polls_scheme poll_codes \<Rightarrow> ptr \<Rightarrow> (int \<Rightarrow> int \<Rightarrow> int) \<Rightarrow> bool" where
  "replies cds p reply \<longleftrightarrow>
     (\<forall>h m f fd ty param. plain_reg p h m \<longrightarrow> m fd \<noteq> None \<longrightarrow>
        (\<exists>h'. svr_code cds f fd ty param h = Some (reply fd ty, h') \<and> plain_reg p h' m \<and>
           closed (net h') = closed (net h) \<and> run (ppoll h' p) = run (ppoll h p)))"

lemma dispatch_event_reply:
  fixes ev :: "32 word"
  assumes g: "plain_reg p h m" and c: "replies cds p reply" and l: "removable fd"
  defines "bad \<equiv> m fd \<noteq> None \<and> reply fd (event_type ev) \<noteq> 0"
  shows "\<exists>h'. dispatch_event cds p t fd ev h = Some h' \<and> plain_reg p h' (if bad then m(fd := None) else m) \<and>
     closed (net h') = (if bad then [fd] else []) @ closed (net h) \<and> run (ppoll h' p) = run (ppoll h p)"
proof (cases "m fd")
  case None
  then show ?thesis using g l dispatch_event_unknown [of p h m fd] by (simp add: bad_def plain_reg_def removable_def)
next
  case (Some s)
  have fd: "0 \<le> fd" using l by (simp add: removable_def)
  have r: "poll_reg p h m" and f: "SVR_DUPLEX < pFun_svr (psrv h s)" using g Some by (auto simp: plain_reg_def)
  obtain h1 where h1: "svr_code cds (pFun_svr (psrv h s)) fd (event_type ev) (pParam (psrv h s)) (called p h)
        = Some (reply fd (event_type ev), h1)" "plain_reg p h1 m" "closed (net h1) = closed (net h)"
      "run (ppoll h1 p) = run (ppoll h p)"
    using c plain_reg_called [OF g] Some unfolding replies_def by fastforce
  let ?h = "touched s t h1"
  have g2: "plain_reg p ?h m" by (rule plain_reg_touched [OF h1(2)])
  have v: "valid h1 s" using poll_reg_server [of p h1 m fd s] h1(2) Some by (simp add: plain_reg_def)
  have e: "dispatch_event cds p t fd ev h
      = (if reply fd (event_type ev) \<noteq> 0 then do { (_, h) \<leftarrow> poll_del_server cds s ?h; Some h } else Some ?h)"
    using h1(1) v by (simp add: dispatch_event_eq [OF r Some fd f] upd_srv_def flip: touched_def)
  show ?thesis
  proof (cases bad)
    case True
    obtain h' where h': "poll_del_server cds s ?h = Some (OK, h')" "poll_reg p h' (m(fd := None))"
        "closed (net h') = fd # closed (net ?h)" "psrv h' = (psrv ?h)(s := (psrv ?h s)\<lparr>server_fd := 0\<rparr>)"
        "run (ppoll h' p) = run (ppoll ?h p)"
      using poll_del_server_reg [of p ?h m fd s cds] g2 Some l by (auto simp: plain_reg_def)
    have "plain_reg p h' (m(fd := None))" using g2 h'(2,4) by (auto simp: plain_reg_def)
    then show ?thesis using True e h' h1(3,4) by (simp add: bad_def)
  next
    case False
    then show ?thesis using Some e g2 h1(3,4) by (simp add: bad_def)
  qed
qed

text \<open>C19: one round of a running reactor, for any list of events of descriptors between 1 and 49999: an event whose call back
  reports a failure removes the descriptor from the registry and closes it once, even when the descriptor occurs again in
  the round; every other registered descriptor stays, and events of unknown descriptors change nothing. This is for
  servers with a user's call back and no delete call back, and for call backs whose answer depends on the descriptor and
  the kind of event only; besides answering, a call back may change anything but the registry, the descriptors closed so
  far and the flag that keeps the reactor running.\<close>
theorem dispatch_closes_failed:
  assumes "plain_reg p h m" and "replies cds p reply" and "run (ppoll h p) \<noteq> 0"
    and "\<forall>(fd, ev) \<in> set evs. removable fd"
  shows "\<exists>h'. dispatch_events cds p t evs h = Some h' \<and> plain_reg p h' (m |` (- failing reply evs)) \<and>
     set (closed (net h')) = set (closed (net h)) \<union> (failing reply evs \<inter> dom m) \<and>
     length (closed (net h')) = length (closed (net h)) + card (failing reply evs \<inter> dom m) \<and>
     run (ppoll h' p) = run (ppoll h p)"
  using assms(1,3,4)
proof (induction evs arbitrary: h m)
  case Nil
  then show ?case by (simp add: failing_def)
next
  case (Cons e evs)
  obtain fd ev where e: "e = (fd, ev)" by (cases e)
  let ?bad = "m fd \<noteq> None \<and> reply fd (event_type ev) \<noteq> 0"
  let ?m = "if ?bad then m(fd := None) else m"
  obtain h1 where h1: "dispatch_event cds p t fd ev h = Some h1" "plain_reg p h1 ?m"
      "closed (net h1) = (if ?bad then [fd] else []) @ closed (net h)" "run (ppoll h1 p) = run (ppoll h p)"
    using dispatch_event_reply [OF Cons.prems(1) assms(2), of fd] Cons.prems(3) e by fastforce
  obtain h' where h': "dispatch_events cds p t evs h1 = Some h'" "plain_reg p h' (?m |` (- failing reply evs))"
      "set (closed (net h')) = set (closed (net h1)) \<union> (failing reply evs \<inter> dom ?m)"
      "length (closed (net h')) = length (closed (net h1)) + card (failing reply evs \<inter> dom ?m)"
      "run (ppoll h' p) = run (ppoll h1 p)"
    using Cons.IH [OF h1(2)] Cons.prems h1(4) by auto
  have v: "valid h p" using Cons.prems(1) by (auto simp: plain_reg_def poll_reg_def reactor_def)
  have m: "?m |` (- failing reply evs) = m |` (- failing reply (e # evs))"
    by (auto simp: e failing_Cons restrict_map_def fun_eq_iff)
  have s: "set (closed (net h')) = set (closed (net h)) \<union> (failing reply (e # evs) \<inter> dom m)"
    using h'(3) h1(3) by (auto simp: e failing_Cons)
  have c: "length (closed (net h')) = length (closed (net h)) + card (failing reply (e # evs) \<inter> dom m)"
  proof (cases ?bad)
    case True
    then have "failing reply (e # evs) \<inter> dom m = insert fd (failing reply evs \<inter> dom ?m)" by (auto simp: e failing_Cons)
    moreover have "fd \<notin> failing reply evs \<inter> dom ?m" using True by simp
    ultimately show ?thesis using h'(4) h1(3) True finite_failing [of reply evs] by simp
  next
    case False
    then have "failing reply (e # evs) \<inter> dom m = failing reply evs \<inter> dom ?m" by (auto simp: e failing_Cons)
    then show ?thesis using h'(4) h1(3) False by simp
  qed
  show ?case using h'(1,2,5) h1(1,4) s c v m Cons.prems(2) by (simp add: e get_poll_def)
qed

theorem dispatch_closes_failed_witness:
  "\<exists>h'. dispatch_events (no_codes\<lparr>svr_code := (\<lambda>_ fd _ _ h. Some (if fd = 5 then - 1 else 0, h))\<rparr>)
      10 7 [(5, EPOLLIN), (6, EPOLLIN), (5, EPOLLERR)] polls_demo_5 = Some h' \<and> plain_reg 10 h' Map.empty \<and>
      length (closed (net h')) = 1"
proof -
  let ?c = "no_codes\<lparr>svr_code := (\<lambda>_ fd _ _ h. Some (if fd = 5 then - 1 else 0, h))\<rparr> :: polls poll_codes"
  let ?r = "\<lambda>fd (_ :: int). if fd = 5 then - 1 else (0 :: int)"
  let ?e = "[(5, EPOLLIN), (6, EPOLLIN), (5, EPOLLERR)]"
  have c: "replies ?c 10 ?r" by (simp add: replies_def)
  have f: "failing ?r ?e = {5}" by (auto simp: failing_def)
  have "run (ppoll polls_demo_5 10) \<noteq> 0" "\<forall>(fd, ev) \<in> set ?e. removable fd"
    by (simp_all add: polls_demo_5_reg removable_def)
  note d = dispatch_closes_failed [OF polls_demo_5_reg(2) c this, of 7, unfolded f]
  have "[5 \<mapsto> 14] |` (- {5 :: int}) = Map.empty" "{5 :: int} \<inter> dom [5 \<mapsto> 14 :: nat] = {5}" by auto
  then show ?thesis using d polls_demo_5_reg(6) by auto
qed

end
