(* ===== verification/LibPollTimers.thy ===== *)
theory LibPollTimers imports LibPollLoop begin

text \<open>
  The timers of a reactor (\<open>poll_del_timer\<close>, \<open>poll_check_timer\<close> of \<open>Server/Lib/lib-poll.c\<close>) and the cleaning of
  its idle descriptors (\<open>poll_timer_clean_idle_fd\<close>): which timers fire, in which order and how often, what
  \<open>min_timeout\<close> is worth after a deletion, and which descriptors the cleaning closes.
\<close>

section \<open>The timers of a reactor\<close>

definition timers :: "'a polls_scheme \<Rightarrow> ptr \<Rightarrow> ptr list \<Rightarrow> bool" where
  "timers h p ts \<longleftrightarrow> valid h p \<and> p \<notin> set ts \<and> dlist h (timer_list p) ts \<and> (\<forall>t \<in> set ts. tmr_poll (ptmr h t) = p)"

definition min_step :: "int \<Rightarrow> int \<Rightarrow> int" where
  "min_step m x = (let m = (if m = 0 then x else m) in if x < m then x else m)"

definition with_min :: "ptr \<Rightarrow> int \<Rightarrow> 'a polls_scheme \<Rightarrow> 'a polls_scheme" where
  "with_min p m h = h\<lparr>ppoll := (ppoll h)(p := (ppoll h p)\<lparr>min_timeout := m\<rparr>)\<rparr>"

lemma with_min_simps [simp]:
  "valid (with_min p m h) = valid h" "ptmr (with_min p m h) = ptmr h" "min_timeout (ppoll (with_min p m h) p) = m"
  "nxt (with_min p m h) = nxt h" "prv (with_min p m h) = prv h" "live (with_min p m h) = live h"
  "with_min p n (with_min p m h) = with_min p n h" "with_min p (min_timeout (ppoll h p)) h = h"
  "polls.more (with_min p m h) = polls.more h"
  by (simp_all add: with_min_def)

lemma min_body_eq:
  assumes "valid h p" and "valid h t"
  shows "min_body p t h u = Some (with_min p (min_step (min_timeout (ppoll h p)) (timeout (ptmr h t))) h, (), False)"
proof -
  have w: "upd_poll p (\<lambda>pp. pp\<lparr>min_timeout := m\<rparr>) h = Some (with_min p m h)" if "valid h p" for m and h :: "'a polls_scheme"
    using that by (simp add: upd_poll_def with_min_def)
  show ?thesis
    using assms by (simp add: min_body_def get_tmr_def get_poll_def w min_step_def)
qed

lemma run_min:
  assumes "valid h p" and "\<forall>t \<in> set ts. valid h t"
  shows "run_body (min_body p) ts h () = Some (with_min p (foldl min_step (min_timeout (ppoll h p)) (map (\<lambda>t. timeout (ptmr h t)) ts)) h, ())"
  using assms by (induction ts arbitrary: h) (simp_all add: min_body_eq)

lemma min_body_links: "min_body p t h u = Some (h', u', st) \<Longrightarrow> nxt h' = nxt h \<and> live h' = live h"
  by (auto simp: min_body_def upd_poll_def split: Option.bind_splits if_splits)

text \<open>Deleting a timer.\<close>

lemma polls_more_unlinked [simp]: "polls.more (unlinked p x n h) = polls.more h"
  by (simp add: unlinked_def)

lemma poll_del_timer_ok:
  assumes ts: "timers h p ts" and t: "t \<in> set ts"
  shows "\<exists>h'. poll_del_timer t h = Some (OK, h') \<and> timers h' p (remove1 t ts) \<and> ptmr h' = ptmr h \<and>
     live h' = (live h)(t := False) \<and> polls.more h' = polls.more h \<and>
     min_timeout (ppoll h' p) = foldl min_step 0 (map (\<lambda>t. timeout (ptmr h t)) (remove1 t ts))"
proof -
  have v: "valid h p" and pt: "p \<notin> set ts" and d: "dlist h (timer_list p) ts" and o: "tmr_poll (ptmr h t) = p"
    using ts t by (simp_all add: timers_def)
  have vt: "valid h t" "t \<noteq> timer_list p" "t \<notin> set (remove1 t ts)" "p \<noteq> t"
    using d t pt by (auto simp: dlist_def)
  then have n: "p \<noteq> NULL" "t \<noteq> NULL" using v by (auto dest: valid_pos)
  let ?h1 = "h\<lparr>ppoll := (ppoll h)(p := (ppoll h p)\<lparr>last_act_tmr := POLL_FUNC_DEL\<rparr>)\<rparr>"
  have "dlist ?h1 (timer_list p) ts" using d by simp
  then obtain a b where u: "lib_list_del t ?h1 = Some (unlinked a t b ?h1)"
      "dlist (unlinked a t b ?h1) (timer_list p) (remove1 t ts)"
    using t by (rule lib_list_del_dlist)
  define h2 where "h2 = (unlinked a t b ?h1)\<lparr>live := (live h)(t := False)\<rparr>"
  define h3 where "h3 = with_min p 0 h2"
  have d2: "dlist h2 (timer_list p) (remove1 t ts)"
    by (rule dlist_frame [OF u(2)]) (use dlist_valid [OF u(2)] vt in \<open>auto simp: h2_def valid_def\<close>)
  then have d3: "dlist h3 (timer_list p) (remove1 t ts)" by (subst dlist_cong [of h3 h2]) (simp_all add: h3_def)
  have v2: "valid h2 p" "valid h3 p" using v vt(4) by (simp_all add: h2_def h3_def valid_def)
  have tm: "ptmr h3 = ptmr h" by (simp add: h3_def h2_def)
  let ?m = "foldl min_step 0 (map (\<lambda>t. timeout (ptmr h t)) (remove1 t ts))"
  have "lib_list_for_each (min_body p) (timer_list p) h3 () = run_body (min_body p) (remove1 t ts) h3 ()"
    by (rule for_each_run [OF _ d3]) (rule min_body_links)
  also have "\<dots> = Some (with_min p ?m h3, ())"
    using run_min [OF v2(2), of "remove1 t ts"] dlist_valid [OF d3] tm by (simp add: h3_def)
  finally have l: "lib_list_for_each (min_body p) (timer_list p) h3 () = Some (with_min p ?m h3, ())" .
  have "mem_free t (unlinked a t b ?h1) = Some h2" using vt n by (simp add: mem_free_def h2_def valid_def)
  moreover have "upd_poll p (\<lambda>pp. pp\<lparr>min_timeout := 0\<rparr>) h2 = Some h3" using v2 by (simp add: upd_poll_def h3_def with_min_def)
  ultimately have ev: "poll_del_timer t h = Some (OK, with_min p ?m h3)"
    using v vt n o u(1) l by (simp add: poll_del_timer_def get_tmr_def upd_poll_def)
  have "timers (with_min p ?m h3) p (remove1 t ts)"
    unfolding timers_def
  proof (intro conjI ballI)
    show "valid (with_min p ?m h3) p" using v2 by simp
    show "p \<notin> set (remove1 t ts)" using pt set_remove1_subset [of t ts] by blast
    show "dlist (with_min p ?m h3) (timer_list p) (remove1 t ts)" by (subst dlist_cong [OF _ _ _]) (use d3 in simp_all)
    show "tmr_poll (ptmr (with_min p ?m h3) x) = p" if "x \<in> set (remove1 t ts)" for x
      using ts that set_remove1_subset [of t ts] by (auto simp: timers_def tm)
  qed
  then show ?thesis using ev tm by (simp add: h3_def h2_def)
qed

text \<open>The scan against the minimum.\<close>

lemma foldl_min_step:
  "\<forall>x \<in> set xs. x \<noteq> 0 \<Longrightarrow> m \<noteq> 0 \<Longrightarrow> foldl min_step m xs = Min (insert m (set xs))"
proof (induction xs arbitrary: m)
  case (Cons x xs)
  have "min_step m x = min m x" "min m x \<noteq> 0" using Cons.prems by (auto simp: min_step_def min_def)
  then have "foldl min_step m (x # xs) = Min (insert (min m x) (set xs))" using Cons by simp
  also have "\<dots> = Min (insert m (set (x # xs)))"
    by (cases "xs = []") (simp_all add: min.assoc insert_commute)
  finally show ?case .
qed simp

lemma foldl_min_step_0:
  assumes "\<forall>x \<in> set xs. x \<noteq> 0"
  shows "foldl min_step 0 xs = (if xs = [] then 0 else Min (set xs))"
  using assms foldl_min_step [of "tl xs" "hd xs"] by (cases xs) (auto simp: min_step_def)

text \<open>Deleting a timer takes it off the reactor's list, frees it, and recomputes \<open>min_timeout\<close>: for timers whose time-out is not 0 the scan, with 0 as its mark for "none yet", gives the least time-out of the timers left, and 0 when none is left.\<close>
theorem poll_del_timer_min:
  assumes "timers h p ts" and "t \<in> set ts" and "\<forall>t \<in> set ts. timeout (ptmr h t) \<noteq> 0"
  shows "\<exists>h'. poll_del_timer t h = Some (OK, h') \<and> timers h' p (remove1 t ts) \<and> ptmr h' = ptmr h \<and>
     live h' = (live h)(t := False) \<and>
     min_timeout (ppoll h' p)
       = (if remove1 t ts = [] then 0 else Min ((\<lambda>t. timeout (ptmr h t)) ` set (remove1 t ts)))"
proof -
  have "\<forall>x \<in> set (map (\<lambda>t. timeout (ptmr h t)) (remove1 t ts)). x \<noteq> 0"
    using assms(3) set_remove1_subset [of t ts] by auto
  note m = foldl_min_step_0 [OF this]
  obtain h' where h': "poll_del_timer t h = Some (OK, h')" "timers h' p (remove1 t ts)" "ptmr h' = ptmr h"
      "live h' = (live h)(t := False)"
      "min_timeout (ppoll h' p) = foldl min_step 0 (map (\<lambda>t. timeout (ptmr h t)) (remove1 t ts))"
    using poll_del_timer_ok [OF assms(1,2)] by blast
  have "min_timeout (ppoll h' p) = (if remove1 t ts = [] then 0 else Min ((\<lambda>t. timeout (ptmr h t)) ` set (remove1 t ts)))"
    unfolding h'(5) m by (simp only: map_is_Nil_conv set_map)
  then show ?thesis using h'(1-4) by blast
qed

text \<open>Three timers of \<open>polls_demo\<close>, at 15, 16 and 17, due at 1030, 1005 and 1020.\<close>

definition demo_timer :: "int \<Rightarrow> poll_timer" where
  "demo_timer tmo = \<lparr>tmr_poll = 10, pFun_tmr = 9, tmr_param = 0, timeout = tmo, times = 0, notify_times = 0, last_notify = 1000\<rparr>"

definition timers_demo :: polls where
  "timers_demo = polls_demo\<lparr>
     nxt := (\<lambda>p. p)(11 := 15, 15 := 16, 16 := 17, 17 := 11),
     prv := (\<lambda>p. p)(15 := 11, 16 := 15, 17 := 16, 11 := 17),
     ptmr := (\<lambda>_. demo_timer 30)(16 := demo_timer 5, 17 := demo_timer 20)\<rparr>"

lemma timers_demo_ok: "timers timers_demo 10 [15, 16, 17]"
  by (simp add: timers_def timers_demo_def polls_demo_def dlist_def valid_def demo_timer_def)

theorem poll_del_timer_min_witness:
  "\<exists>h'. poll_del_timer 16 timers_demo = Some (OK, h') \<and> min_timeout (ppoll h' 10) = 20"
  using poll_del_timer_min [OF timers_demo_ok, of 16] by (auto simp: timers_demo_def demo_timer_def)

section \<open>Checking the timers\<close>

definition due :: "int \<Rightarrow> poll_timer \<Rightarrow> bool" where
  "due t0 tm \<longleftrightarrow> timeout tm \<le> t0 - last_notify tm"

definition expired :: "poll_timer \<Rightarrow> bool" where
  "expired tm \<longleftrightarrow> times tm \<le> notify_times tm \<and> times tm \<noteq> 0"

definition notified :: "int \<Rightarrow> poll_timer \<Rightarrow> poll_timer" where
  "notified t0 tm = tm\<lparr>notify_times := c_int (notify_times tm + 1), last_notify := t0\<rparr>"

text \<open>
  Call backs that keep the timers and act on the rest of the program, the extension of the state, by
  \<open>F\<close>; their results are ignored.
\<close>

definition timer_codes :: "'a polls_scheme poll_codes \<Rightarrow> ptr \<Rightarrow> (nat \<Rightarrow> ptr \<Rightarrow> 'a \<Rightarrow> 'a) \<Rightarrow> bool" where
  "timer_codes cds p F \<longleftrightarrow>
     (\<forall>h ts f param. timers h p ts \<longrightarrow>
        (\<exists>r h'. tmr_code cds f param h = Some (r, h') \<and> timers h' p ts \<and> ptmr h' = ptmr h \<and>
           polls.more h' = F f param (polls.more h)))"

definition fire :: "(nat \<Rightarrow> ptr \<Rightarrow> 'a \<Rightarrow> 'a) \<Rightarrow> poll_timer \<Rightarrow> 'a \<Rightarrow> 'a" where
  "fire F tm = (if pFun_tmr tm \<noteq> 0 then F (pFun_tmr tm) (tmr_param tm) else (\<lambda>a. a))"

lemma timers_cong:
  assumes "timers h p ts" and "live h' = live h" "nxt h' = nxt h" "prv h' = prv h"
    and "\<And>t. t \<in> set ts \<Longrightarrow> tmr_poll (ptmr h' t) = tmr_poll (ptmr h t)"
  shows "timers h' p ts"
  using assms dlist_cong [of h' h] valid_cong [of h' h] by (simp add: timers_def)

lemma call_timer_ok:
  assumes ts: "timers h p ts" and t: "t \<in> set ts" and c: "timer_codes cds p F"
  shows "\<exists>r h'. poll_call_timer cds t h = Some (r, h') \<and> timers h' p ts \<and> ptmr h' = ptmr h \<and>
     polls.more h' = fire F (ptmr h t) (polls.more h)"
proof -
  let ?h = "h\<lparr>ppoll := (ppoll h)(p := (ppoll h p)\<lparr>last_act_tmr := POLL_FUNC_IDLE, last_act_fd := - 1\<rparr>)\<rparr>"
  have h: "timers ?h p ts" by (rule timers_cong [OF ts]) simp_all
  have v: "valid h p" "valid h t" "tmr_poll (ptmr h t) = p" using ts t by (auto simp: timers_def dlist_def)
  show ?thesis
  proof (cases "pFun_tmr (ptmr h t) = 0")
    case True
    then show ?thesis using v h by (simp add: poll_call_timer_def get_tmr_def upd_poll_def fire_def)
  next
    case False
    obtain r h' where "tmr_code cds (pFun_tmr (ptmr h t)) (tmr_param (ptmr h t)) ?h = Some (r, h')" "timers h' p ts"
        "ptmr h' = ptmr ?h" "polls.more h' = F (pFun_tmr (ptmr h t)) (tmr_param (ptmr h t)) (polls.more ?h)"
      using c h unfolding timer_codes_def by blast
    then show ?thesis using v False by (simp add: poll_call_timer_def get_tmr_def upd_poll_def fire_def)
  qed
qed

text \<open>One timer: deleted when it is due and has had its number of notifications, called when it is due.\<close>

lemma timer_body_ok:
  assumes ts: "timers h p (xs @ t # ys)" and c: "timer_codes cds p F"
  defines "tm \<equiv> ptmr h t"
  shows "\<exists>h'. timer_body cds t0 t h u = Some (h', (), False) \<and>
     timers h' p (xs @ (if due t0 tm \<and> expired tm then ys else t # ys)) \<and>
     ptmr h' = (if due t0 tm \<and> \<not> expired tm then (ptmr h)(t := notified t0 tm) else ptmr h) \<and>
     polls.more h' = (if due t0 tm \<and> \<not> expired tm then fire F tm (polls.more h) else polls.more h)"
proof -
  have v: "valid h t" and dist: "distinct (xs @ t # ys)" using ts by (auto simp: timers_def dlist_def)
  have rem: "remove1 t (xs @ t # ys) = xs @ ys" by (rule remove1_split [OF dist])
  show ?thesis
  proof (cases "due t0 tm")
    case False
    then show ?thesis using v ts by (simp add: timer_body_def get_tmr_def due_def tm_def)
  next
    case d: True
    show ?thesis
    proof (cases "expired tm")
      case True
      obtain h' where "poll_del_timer t h = Some (OK, h')" "timers h' p (xs @ ys)" "ptmr h' = ptmr h"
          "polls.more h' = polls.more h"
        using poll_del_timer_ok [OF ts, of t, unfolded rem] by auto
      then show ?thesis using v d True by (simp add: timer_body_def get_tmr_def due_def tm_def expired_def)
    next
      case False
      let ?h = "h\<lparr>ptmr := (ptmr h)(t := notified t0 tm)\<rparr>"
      have "timers ?h p (xs @ t # ys)" by (rule timers_cong [OF ts]) (simp_all add: notified_def tm_def)
      then obtain r h' where "poll_call_timer cds t ?h = Some (r, h')" "timers h' p (xs @ t # ys)" "ptmr h' = ptmr ?h"
          "polls.more h' = fire F (ptmr ?h t) (polls.more ?h)"
        using call_timer_ok [OF _ _ c, of ?h "xs @ t # ys" t] by auto
      then show ?thesis using v d False
        by (auto simp: timer_body_def get_tmr_def upd_tmr_def due_def tm_def expired_def notified_def fire_def)
    qed
  qed
qed

abbreviation fires :: "int \<Rightarrow> poll_timer \<Rightarrow> bool" where
  "fires t0 tm \<equiv> due t0 tm \<and> \<not> expired tm"

lemma run_timers:
  assumes c: "timer_codes cds p F"
  shows "timers h p (xs @ ys) \<Longrightarrow> \<exists>h'. run_body (timer_body cds t0) ys h () = Some (h', ()) \<and>
     timers h' p (xs @ filter (\<lambda>t. \<not> (due t0 (ptmr h t) \<and> expired (ptmr h t))) ys) \<and>
     ptmr h' = (\<lambda>t. if t \<in> set ys \<and> fires t0 (ptmr h t) then notified t0 (ptmr h t) else ptmr h t) \<and>
     polls.more h' = fold (\<lambda>t. fire F (ptmr h t)) (filter (\<lambda>t. fires t0 (ptmr h t)) ys) (polls.more h)"
proof (induction ys arbitrary: h xs)
  case Nil
  then show ?case by (simp add: fun_eq_iff)
next
  case (Cons t ys)
  let ?tm = "ptmr h t"
  obtain h1 where h1: "timer_body cds t0 t h () = Some (h1, (), False)"
      "timers h1 p (xs @ (if due t0 ?tm \<and> expired ?tm then ys else t # ys))"
      "ptmr h1 = (if fires t0 ?tm then (ptmr h)(t := notified t0 ?tm) else ptmr h)"
      "polls.more h1 = (if fires t0 ?tm then fire F ?tm (polls.more h) else polls.more h)"
    using timer_body_ok [OF Cons.prems c, of t0 "()"] by blast
  have "t \<notin> set ys" using Cons.prems by (auto simp: timers_def dlist_def)
  then have same: "ptmr h1 s = ptmr h s" if "s \<in> set ys" for s using that h1(3) by auto
  then have f: "filter (\<lambda>t. Q (ptmr h1 t)) ys = filter (\<lambda>t. Q (ptmr h t)) ys" for Q by (auto intro: filter_cong)
  have g: "fold (\<lambda>t. fire F (ptmr h1 t)) (filter Q ys) a = fold (\<lambda>t. fire F (ptmr h t)) (filter Q ys) a" for Q a
    by (rule fold_cong) (use same in auto)
  let ?xs = "if due t0 ?tm \<and> expired ?tm then xs else xs @ [t]"
  have "timers h1 p (?xs @ ys)" using h1(2) by (cases "due t0 ?tm \<and> expired ?tm") auto
  from Cons.IH [OF this] obtain h' where h': "run_body (timer_body cds t0) ys h1 () = Some (h', ())"
      "timers h' p (?xs @ filter (\<lambda>t. \<not> (due t0 (ptmr h t) \<and> expired (ptmr h t))) ys)"
      "ptmr h' = (\<lambda>t. if t \<in> set ys \<and> fires t0 (ptmr h1 t) then notified t0 (ptmr h1 t) else ptmr h1 t)"
      "polls.more h' = fold (\<lambda>t. fire F (ptmr h t)) (filter (\<lambda>t. fires t0 (ptmr h t)) ys) (polls.more h1)"
    unfolding f [of "\<lambda>tm. \<not> (due t0 tm \<and> expired tm)"] f [of "fires t0"] g by blast
  have "ptmr h' = (\<lambda>s. if s \<in> set (t # ys) \<and> fires t0 (ptmr h s) then notified t0 (ptmr h s) else ptmr h s)"
    using \<open>t \<notin> set ys\<close> by (auto simp: h'(3) h1(3) fun_eq_iff)
  then show ?case using h1(1) h'(1,2,4) h1(4) by auto
qed

text \<open>One pass over the timers. Exactly the timers that are due at the time of the pass fire, each once and in the order of the list; a due timer that has had its number of notifications is deleted instead, and a timer whose number is 0 is never deleted. A timer that fires has its count raised (at the width of an \<open>int\<close>) and its time set; all other timers stay as they were.\<close>
theorem poll_check_timer_fires_due:
  assumes "timers h p ts" and "timer_codes cds p F"
  shows "\<exists>h'. poll_check_timer cds p t0 h = Some h' \<and>
     timers h' p (filter (\<lambda>t. \<not> (due t0 (ptmr h t) \<and> expired (ptmr h t))) ts) \<and>
     ptmr h' = (\<lambda>t. if t \<in> set ts \<and> fires t0 (ptmr h t) then notified t0 (ptmr h t) else ptmr h t) \<and>
     polls.more h' = fold (\<lambda>t. fire F (ptmr h t)) (filter (\<lambda>t. fires t0 (ptmr h t)) ts) (polls.more h)"
proof -
  let ?b = "timer_body cds t0"
  have "lib_list_for_each_safe ?b (timer_list p) h () = run_body ?b ts h ()"
  proof (rule for_each_safe_run [where P = "\<lambda>ys h _. \<exists>xs. timers h p (xs @ ys)"])
    fix x ys and g g' :: "'a polls_scheme" and l l'
    assume "\<exists>xs. timers g p (xs @ x # ys)" and b: "?b x g l = Some (g', l', False)"
    then obtain xs where "timers g p (xs @ x # ys)" by blast
    from timer_body_ok [OF this assms(2), of t0 l] b
    have "timers g' p (xs @ (if due t0 (ptmr g x) \<and> expired (ptmr g x) then ys else x # ys))" by auto
    then have "timers g' p (xs @ ys) \<or> timers g' p ((xs @ [x]) @ ys)" by (simp split: if_splits)
    then show "\<exists>xs. timers g' p (xs @ ys)" by blast
  next
    fix ys and g :: "'a polls_scheme" and l :: unit
    assume "\<exists>xs. timers g p (xs @ ys)"
    then obtain xs where "dlist g (timer_list p) (xs @ ys)" by (auto simp: timers_def)
    then show "timer_list p \<notin> set ys \<and> fwd g (ys @ [timer_list p])" using dlist_fwd_from by (auto simp: dlist_def)
  next
    show "dlist h (timer_list p) ts" "\<exists>xs. timers h p (xs @ ts)"
      using assms(1) by (auto simp: timers_def intro: exI [of _ "[]"])
  qed
  moreover obtain h' where "run_body ?b ts h () = Some (h', ())"
      "timers h' p (filter (\<lambda>t. \<not> (due t0 (ptmr h t) \<and> expired (ptmr h t))) ts)"
      "ptmr h' = (\<lambda>t. if t \<in> set ts \<and> fires t0 (ptmr h t) then notified t0 (ptmr h t) else ptmr h t)"
      "polls.more h' = fold (\<lambda>t. fire F (ptmr h t)) (filter (\<lambda>t. fires t0 (ptmr h t)) ts) (polls.more h)"
    using run_timers [OF assms(2), of h "[]" ts] assms(1) by auto
  ultimately show ?thesis by (auto simp: poll_check_timer_def)
qed

theorem poll_check_timer_fires_due_witness:
  "\<exists>h'. poll_check_timer no_codes 10 1010 timers_demo = Some h' \<and> last_notify (ptmr h' 16) = 1010 \<and>
     last_notify (ptmr h' 15) = 1000"
proof -
  have "timer_codes (no_codes :: polls poll_codes) 10 (\<lambda>_ _ a. a)" by (simp add: timer_codes_def no_codes_def)
  from poll_check_timer_fires_due [OF timers_demo_ok this, of 1010] show ?thesis
    by (auto simp: timers_demo_def demo_timer_def due_def expired_def notified_def)
qed

section \<open>Cleaning idle descriptors\<close>

text \<open>The servers the cleaning removes: idle ones whose descriptor \<open>poll_del_server\<close> accepts.\<close>

definition wiped :: "int \<Rightarrow> poll_server \<Rightarrow> bool" where
  "wiped t0 srv \<longleftrightarrow> is_idle t0 srv \<and> removable (server_fd srv)"

definition settled_reactor :: "'a polls_scheme \<Rightarrow> ptr \<Rightarrow> ptr list list \<Rightarrow> bool" where
  "settled_reactor h p rows \<longleftrightarrow> reactor h p rows \<and> (\<forall>x \<in> set (nodes rows). pFun_del (psrv h x) = 0) \<and> length (nodes rows) < 2 ^ 31"

definition same_table :: "ptr \<Rightarrow> 'a polls_scheme \<Rightarrow> 'a polls_scheme \<Rightarrow> bool" where
  "same_table p h h' \<longleftrightarrow> server_list (ppoll h' p) = server_list (ppoll h p) \<and> t_head h' = t_head h"

text \<open>The server's structure after the pass.\<close>

definition wipe :: "int \<Rightarrow> ptr set \<Rightarrow> (ptr \<Rightarrow> poll_server) \<Rightarrow> ptr \<Rightarrow> poll_server" where
  "wipe t0 S f x = (if x \<in> S \<and> wiped t0 (f x) then (f x)\<lparr>server_fd := 0\<rparr> else f x)"

lemma wipe_insert: "x \<notin> S \<Longrightarrow> wipe t0 S (wipe t0 {x} f) = wipe t0 (insert x S) f"
  by (auto simp: wipe_def fun_eq_iff)

lemma wipe_Un: "A \<inter> B = {} \<Longrightarrow> wipe t0 B (wipe t0 A f) = wipe t0 (A \<union> B) f"
  by (auto simp: wipe_def fun_eq_iff)

lemma wipe_off: "x \<notin> S \<Longrightarrow> wipe t0 S f x = f x"
  by (simp add: wipe_def)

lemma reactor_row_distinct:
  assumes "reactor h p rows" and "k < length rows"
  shows "distinct (rows ! k)"
proof -
  have "dlist h (row_head h (server_list (ppoll h p)) k) (rows ! k)"
    using assms by (auto simp: reactor_def intro: table_rep_row)
  then show ?thesis by (simp add: dlist_def)
qed

lemma idle_body_ok:
  fixes t0 :: int
  assumes r: "settled_reactor h p rows" and k: "k < length rows" and e: "rows ! k = xs @ s # ys"
  defines "w \<equiv> wiped t0 (psrv h s)"
  shows "\<exists>h'. idle_body cds t0 s h u = Some (h', (), False) \<and>
     settled_reactor h' p (rows[k := xs @ (if w then ys else s # ys)]) \<and> same_table p h h' \<and>
     psrv h' = wipe t0 {s} (psrv h) \<and>
     closed (net h') = (if w then [server_fd (psrv h s)] else []) @ closed (net h)"
proof -
  have R: "reactor h p rows" and pd: "\<forall>x \<in> set (nodes rows). pFun_del (psrv h x) = 0" and l: "length (nodes rows) < 2 ^ 31"
    using r by (simp_all add: settled_reactor_def)
  have s: "s \<in> set (rows ! k)" using e by simp
  note o = reactor_row [OF R k s]
  have f: "filed (\<lambda>x. server_fd (psrv h x)) 50000 rows" using R by (simp add: reactor_def)
  then have dist: "distinct (nodes rows)" by (simp add: filed_def)
  note ns = nodes_remove [OF k s dist]
  have p0: "p \<noteq> NULL" "s \<noteq> NULL" using R o(1) by (auto simp: reactor_def dest: valid_pos)
  have same: "rows[k := xs @ s # ys] = rows" using e by (metis list_update_id)
  show ?thesis
  proof (cases w)
    case True
    have fd: "0 < server_fd (psrv h s)" "server_fd (psrv h s) < 50000" and i: "is_idle t0 (psrv h s)"
      using True by (simp_all add: w_def wiped_def removable_def)
    obtain h' where h': "poll_del_server cds s h = Some (OK, h')" "reactor h' p (rows[k := remove1 s (rows ! k)])"
        "closed (net h') = server_fd (psrv h s) # closed (net h)" "psrv h' = (psrv h)(s := (psrv h s)\<lparr>server_fd := 0\<rparr>)"
        "server_list (ppoll h' p) = server_list (ppoll h p)" "t_head h' = t_head h"
      using poll_del_server_ok [OF R k s _ fd, of cds] pd l o(5) by auto
    have "distinct (rows ! k)" by (rule reactor_row_distinct [OF R k])
    then have rm: "remove1 s (rows ! k) = xs @ ys" unfolding e by (rule remove1_split)
    have "settled_reactor h' p (rows[k := remove1 s (rows ! k)])"
      unfolding settled_reactor_def using h'(2) ns pd l by (simp add: h'(4))
    then show ?thesis
      using True h' o(1) p0 i rm by (simp add: idle_body_def get_srv_def same_table_def wipe_def w_def fun_eq_iff)
  next
    case False
    have "idle_body cds t0 s h u = Some (h, (), False)"
    proof (cases "is_idle t0 (psrv h s)")
      case True
      then have "server_fd (psrv h s) \<le> 0 \<or> 50000 \<le> server_fd (psrv h s)" using False by (auto simp: w_def wiped_def removable_def)
      then have "poll_del_server cds s h = Some (ERROR, h)"
        using o p0 by (simp add: poll_del_server_def get_srv_def POLL_MAX_EVENT_NUM_def)
      then show ?thesis using True o(1) p0 by (simp add: idle_body_def get_srv_def)
    qed (use o(1) p0 in \<open>simp add: idle_body_def get_srv_def\<close>)
    then show ?thesis using False r same by (simp add: same_table_def wipe_def w_def fun_eq_iff)
  qed
qed

lemma run_idle:
  "settled_reactor h p rows \<Longrightarrow> k < length rows \<Longrightarrow> rows ! k = xs @ ys \<Longrightarrow>
   \<exists>h'. run_body (idle_body cds t0) ys h () = Some (h', ()) \<and>
     settled_reactor h' p (rows[k := xs @ filter (\<lambda>x. \<not> wiped t0 (psrv h x)) ys]) \<and> same_table p h h' \<and>
     psrv h' = wipe t0 (set ys) (psrv h) \<and>
     set (closed (net h')) = set (closed (net h)) \<union> {server_fd (psrv h x) | x. x \<in> set ys \<and> wiped t0 (psrv h x)}"
proof (induction ys arbitrary: h rows xs)
  case Nil
  then have "rows[k := xs] = rows" by (metis append_Nil2 list_update_id)
  then show ?case using Nil by (simp add: same_table_def wipe_def fun_eq_iff)
next
  case (Cons s ys)
  let ?w = "wiped t0 (psrv h s)"
  let ?rows = "rows[k := xs @ (if ?w then ys else s # ys)]" and ?xs = "if ?w then xs else xs @ [s]"
  obtain h1 where h1: "idle_body cds t0 s h () = Some (h1, (), False)" "settled_reactor h1 p ?rows" "same_table p h h1"
      "psrv h1 = wipe t0 {s} (psrv h)" "closed (net h1) = (if ?w then [server_fd (psrv h s)] else []) @ closed (net h)"
    using idle_body_ok [OF Cons.prems, of cds t0 "()"] by blast
  have "reactor h p rows" using Cons.prems(1) by (simp add: settled_reactor_def)
  then have "distinct (rows ! k)" using Cons.prems(2) by (rule reactor_row_distinct)
  then have s: "s \<notin> set ys" using Cons.prems(3) by simp
  then have same: "psrv h1 x = psrv h x" if "x \<in> set ys" for x using that by (auto simp: h1(4) wipe_def)
  then have f: "filter (\<lambda>x. \<not> wiped t0 (psrv h1 x)) ys = filter (\<lambda>x. \<not> wiped t0 (psrv h x)) ys" by (auto intro: filter_cong)
  have row: "?rows ! k = ?xs @ ys" using Cons.prems(2) by simp
  obtain h' where h': "run_body (idle_body cds t0) ys h1 () = Some (h', ())"
      "settled_reactor h' p (?rows[k := ?xs @ filter (\<lambda>x. \<not> wiped t0 (psrv h x)) ys])" "same_table p h1 h'"
      "psrv h' = wipe t0 (set ys) (psrv h1)"
      "set (closed (net h')) = set (closed (net h1)) \<union> {server_fd (psrv h1 x) | x. x \<in> set ys \<and> wiped t0 (psrv h1 x)}"
    using Cons.IH [OF h1(2) _ row] Cons.prems(2) unfolding f by auto
  have "{server_fd (psrv h1 x) | x. x \<in> set ys \<and> wiped t0 (psrv h1 x)} = {server_fd (psrv h x) | x. x \<in> set ys \<and> wiped t0 (psrv h x)}"
    using same by force
  then have c: "set (closed (net h')) = set (closed (net h)) \<union> {server_fd (psrv h x) | x. x \<in> set (s # ys) \<and> wiped t0 (psrv h x)}"
    unfolding h'(5) h1(5) by auto
  have "psrv h' = wipe t0 (set (s # ys)) (psrv h)" using wipe_insert [OF s] by (simp add: h'(4) h1(4))
  moreover have "?rows[k := ?xs @ filter (\<lambda>x. \<not> wiped t0 (psrv h x)) ys]
      = rows[k := xs @ filter (\<lambda>x. \<not> wiped t0 (psrv h x)) (s # ys)]" by simp
  ultimately show ?case using h1(1,3) h'(1,2,3) c by (simp add: same_table_def)
qed

text \<open>One row, and all rows.\<close>

lemma idle_row_ok:
  assumes r: "settled_reactor h p rows" and k: "k < length rows"
  shows "\<exists>h'. lib_list_for_each_safe (idle_body cds t0) (row_head h (server_list (ppoll h p)) k) h () = Some (h', ()) \<and>
     settled_reactor h' p (rows[k := filter (\<lambda>x. \<not> wiped t0 (psrv h x)) (rows ! k)]) \<and> same_table p h h' \<and>
     psrv h' = wipe t0 (set (rows ! k)) (psrv h) \<and>
     set (closed (net h')) = set (closed (net h)) \<union> {server_fd (psrv h x) | x. x \<in> set (rows ! k) \<and> wiped t0 (psrv h x)}"
proof -
  let ?t = "server_list (ppoll h p)" and ?b = "idle_body cds t0"
  let ?P = "\<lambda>ys g (_ :: unit). \<exists>rows xs. settled_reactor g p rows \<and> same_table p h g \<and> k < length rows \<and> rows ! k = xs @ ys"
  have "lib_list_for_each_safe ?b (row_head h ?t k) h () = run_body ?b (rows ! k) h ()"
  proof (rule for_each_safe_run [where P = ?P])
    fix x ys and g g' :: "'a polls_scheme" and l l'
    assume "?P (x # ys) g l" and b: "?b x g l = Some (g', l', False)"
    then obtain rows xs where g: "settled_reactor g p rows" "same_table p h g" "k < length rows" "rows ! k = xs @ x # ys" by blast
    let ?xs = "if wiped t0 (psrv g x) then xs else xs @ [x]"
    have "settled_reactor g' p (rows[k := xs @ (if wiped t0 (psrv g x) then ys else x # ys)])" "same_table p g g'"
      using idle_body_ok [OF g(1,3,4), of cds t0 l] b by auto
    moreover have "rows[k := xs @ (if wiped t0 (psrv g x) then ys else x # ys)] ! k = ?xs @ ys" using g(3) by simp
    ultimately show "?P ys g' l'" using g(2,3) unfolding same_table_def by (metis length_list_update)
  next
    fix ys and g :: "'a polls_scheme" and l :: unit
    assume "?P ys g l"
    then obtain rows xs where g: "settled_reactor g p rows" "same_table p h g" "k < length rows" "rows ! k = xs @ ys" by blast
    have "dlist g (row_head g (server_list (ppoll g p)) k) (rows ! k)"
      using g(1,3) by (auto simp: settled_reactor_def reactor_def intro: table_rep_row)
    then have "dlist g (row_head h ?t k) (xs @ ys)" using g(2,4) by (simp add: same_table_def)
    then show "row_head h ?t k \<notin> set ys \<and> fwd g (ys @ [row_head h ?t k])" using dlist_fwd_from by (auto simp: dlist_def)
  next
    show "dlist h (row_head h ?t k) (rows ! k)"
      using r k by (auto simp: settled_reactor_def reactor_def intro: table_rep_row)
    show "?P (rows ! k) h ()" using r k by (intro exI [of _ rows] exI [of _ "[]"]) (simp add: same_table_def)
  qed
  then show ?thesis using run_idle [OF r k, of "[]" "rows ! k" cds t0] by simp
qed

lemma nodes_append: "nodes (A @ B) = nodes A @ nodes B"
  by (simp add: nodes_def)

lemma nodes_Cons: "nodes (r # B) = r @ nodes B"
  by (simp add: nodes_def)

lemma clean_rows_ok:
  "settled_reactor h p (A @ B) \<Longrightarrow> distinct (nodes (A @ B)) \<Longrightarrow> base = t_head h (server_list (ppoll h p)) \<Longrightarrow>
   \<exists>h'. clean_rows cds t0 (List.map (\<lambda>i. base + i) [length A..<length A + length B]) h = Some h' \<and>
     settled_reactor h' p (A @ List.map (filter (\<lambda>x. \<not> wiped t0 (psrv h x))) B) \<and>
     psrv h' = wipe t0 (set (nodes B)) (psrv h) \<and>
     set (closed (net h')) = set (closed (net h)) \<union> {server_fd (psrv h x) | x. x \<in> set (nodes B) \<and> wiped t0 (psrv h x)}"
proof (induction B arbitrary: h A)
  case Nil
  then show ?case by (simp add: wipe_def fun_eq_iff nodes_def)
next
  case (Cons r B)
  let ?q = "\<lambda>h x. \<not> wiped t0 (psrv h x)"
  have k: "length A < length (A @ r # B)" by simp
  obtain h1 where h1: "lib_list_for_each_safe (idle_body cds t0) (base + length A) h () = Some (h1, ())"
      "settled_reactor h1 p ((A @ [filter (?q h) r]) @ B)" "same_table p h h1"
      "psrv h1 = wipe t0 (set r) (psrv h)"
      "set (closed (net h1)) = set (closed (net h)) \<union> {server_fd (psrv h x) | x. x \<in> set r \<and> wiped t0 (psrv h x)}"
    using idle_row_ok [OF Cons.prems(1) k, of cds t0] Cons.prems(3) by auto
  have apart: "set r \<inter> set (nodes B) = {}" using Cons.prems(2) by (auto simp: nodes_append nodes_Cons)
  then have same: "psrv h1 x = psrv h x" if "x \<in> set (nodes B)" for x using that by (auto simp: h1(4) wipe_def)
  have f: "List.map (filter (?q h1)) B = List.map (filter (?q h)) B"
  proof (rule map_cong [OF refl], rule filter_cong [OF refl])
    fix b x assume "b \<in> set B" "x \<in> set b"
    then have "x \<in> set (nodes B)" by (auto simp: nodes_def)
    then show "?q h1 x = ?q h x" using same by simp
  qed
  have d: "distinct (nodes ((A @ [filter (?q h) r]) @ B))" using Cons.prems(2) by (auto simp: nodes_append nodes_Cons)
  have base: "base = t_head h1 (server_list (ppoll h1 p))" using Cons.prems(3) h1(3) by (simp add: same_table_def)
  obtain h' where h': "clean_rows cds t0 (List.map (\<lambda>i. base + i) [Suc (length A)..<Suc (length A) + length B]) h1 = Some h'"
      "settled_reactor h' p ((A @ [filter (?q h) r]) @ List.map (filter (?q h)) B)"
      "psrv h' = wipe t0 (set (nodes B)) (psrv h1)"
      "set (closed (net h')) = set (closed (net h1)) \<union> {server_fd (psrv h1 x) | x. x \<in> set (nodes B) \<and> wiped t0 (psrv h1 x)}"
    using Cons.IH [OF h1(2) d base] unfolding f by auto
  have "{server_fd (psrv h1 x) | x. x \<in> set (nodes B) \<and> wiped t0 (psrv h1 x)}
      = {server_fd (psrv h x) | x. x \<in> set (nodes B) \<and> wiped t0 (psrv h x)}"
    using same by force
  then have c: "set (closed (net h')) = set (closed (net h)) \<union>
      {server_fd (psrv h x) | x. x \<in> set (nodes (r # B)) \<and> wiped t0 (psrv h x)}"
    unfolding h'(4) h1(5) by (auto simp: nodes_Cons)
  have "[length A..<length A + length (r # B)] = length A # [Suc (length A)..<Suc (length A) + length B]"
    using upt_conv_Cons [of "length A" "length A + length (r # B)"] by (simp del: upt_Suc)
  then have e: "clean_rows cds t0 (List.map (\<lambda>i. base + i) [length A..<length A + length (r # B)]) h = Some h'"
    using h1(1) h'(1) by simp
  have "psrv h' = wipe t0 (set (nodes (r # B))) (psrv h)" using wipe_Un [OF apart] by (simp add: h'(3) h1(4) nodes_Cons)
  then show ?case using e h'(2) c by auto
qed

text \<open>The cleaning of idle descriptors removes, frees and closes exactly the servers that were registered with an idle time-out, whose time of the last event is more than 1200 seconds before the uptime, and whose descriptor lies in the range \<open>poll_del_server\<close> accepts; every other server stays registered. A new connection has the time 0 until its first event, so on a host that is up for more than twenty minutes it counts as idle at once.\<close>
theorem clean_idle_removes_idle:
  assumes "poll_reg p h m"
  defines "gone \<equiv> {fd. \<exists>x. m fd = Some x \<and> idle_timeout (psrv h x) \<noteq> 0 \<and> 1200 < now h - srv_last_time (psrv h x) \<and> removable fd}"
  shows "\<exists>h'. poll_timer_clean_idle_fd cds p h = Some (OK, h') \<and> poll_reg p h' (m |` (- gone)) \<and>
     set (closed (net h')) = set (closed (net h)) \<union> gone"
proof -
  obtain rows where r: "settled_reactor h p rows" "m = fds_of h rows"
    using assms(1) unfolding poll_reg_def settled_reactor_def by blast
  let ?t = "server_list (ppoll h p)" and ?n = "now h" and ?q = "\<lambda>x. \<not> wiped (now h) (psrv h x)"
  have R: "reactor h p rows" using r(1) by (simp add: settled_reactor_def)
  then have f: "filed (\<lambda>x. server_fd (psrv h x)) 50000 rows" and v: "valid h p" and t: "table_rep h ?t rows"
    by (simp_all add: reactor_def)
  have dist: "distinct (nodes ([] @ rows))" using f by (simp add: filed_def)
  note ok = clean_rows_ok [where A = "[]" and B = rows, OF _ dist refl, of h p cds "now h"]
  obtain h' where h': "clean_rows cds ?n (List.map (\<lambda>i. t_head h ?t + i) [0..<length rows]) h = Some h'"
      "settled_reactor h' p (List.map (filter ?q) rows)" "psrv h' = wipe ?n (set (nodes rows)) (psrv h)"
      "set (closed (net h')) = set (closed (net h)) \<union> {server_fd (psrv h x) | x. x \<in> set (nodes rows) \<and> wiped ?n (psrv h x)}"
    using ok r(1) by auto
  have w: "wiped ?n (psrv h x) \<longleftrightarrow> idle_timeout (psrv h x) \<noteq> 0 \<and> 1200 < ?n - srv_last_time (psrv h x) \<and> removable (server_fd (psrv h x))" for x
    by (auto simp: wiped_def is_idle_def POLL_MAX_CLEAN_IDLE_FD_TIME_def)
  have m: "m fd = Some x \<longleftrightarrow> x \<in> set (nodes rows) \<and> server_fd (psrv h x) = fd" for fd x
    unfolding r(2) by (rule fd_map_Some [OF f])
  have g: "gone = {server_fd (psrv h x) | x. x \<in> set (nodes rows) \<and> wiped ?n (psrv h x)}"
    unfolding gone_def m w by auto
  let ?rows = "List.map (filter ?q) rows"
  have R': "reactor h' p ?rows" using h'(2) by (simp add: settled_reactor_def)
  then have f': "filed (\<lambda>x. server_fd (psrv h' x)) 50000 ?rows" by (simp add: reactor_def)
  have n': "nodes ?rows = filter ?q (nodes rows)" by (simp add: nodes_def filter_concat)
  have inj: "x = y" if "x \<in> set (nodes rows)" "y \<in> set (nodes rows)" "server_fd (psrv h x) = server_fd (psrv h y)" for x y
    using f that unfolding filed_def inj_on_def by blast
  have "m |` (- gone) = fds_of h' ?rows"
  proof (rule map_eq_by_Some)
    fix fd x
    have "x \<in> set (nodes rows) \<Longrightarrow> server_fd (psrv h x) = fd \<Longrightarrow> fd \<in> gone \<longleftrightarrow> wiped ?n (psrv h x)"
      unfolding g using inj by blast
    then have "(m |` (- gone)) fd = Some x \<longleftrightarrow> x \<in> set (nodes rows) \<and> server_fd (psrv h x) = fd \<and> ?q x"
      using m [of fd x] by (auto simp: restrict_map_def)
    also have "\<dots> \<longleftrightarrow> fds_of h' ?rows fd = Some x"
      unfolding fd_map_Some [OF f'] n' by (auto simp: h'(3) wipe_def)
    finally show "(m |` (- gone)) fd = Some x \<longleftrightarrow> fds_of h' ?rows fd = Some x" .
  qed
  then have "poll_reg p h' (m |` (- gone))"
    using h'(2) unfolding poll_reg_def settled_reactor_def by blast
  moreover have "p \<noteq> NULL" "?t \<noteq> NULL" "valid h ?t" using v table_rep_valid [OF t] by (auto dest: valid_pos)
  then have "poll_timer_clean_idle_fd cds p h = Some (OK, h')"
    using v h'(1) row_heads_eq [OF t] by (simp add: poll_timer_clean_idle_fd_def get_poll_def)
  ultimately show ?thesis using h'(4) g by blast
qed

theorem clean_idle_removes_idle_witness:
  "\<exists>h'. poll_timer_clean_idle_fd no_codes 10 polls_demo_5 = Some (OK, h') \<and> poll_reg 10 h' Map.empty \<and>
     set (closed (net h')) = {5}"
proof -
  have "{fd. \<exists>x. [5 \<mapsto> 14] fd = Some x \<and> idle_timeout (psrv polls_demo_5 x) \<noteq> 0 \<and>
      1200 < now polls_demo_5 - srv_last_time (psrv polls_demo_5 x) \<and> removable fd} = {5}"
    by (auto simp: polls_demo_5_reg demo_server_def zero_server_def removable_def)
  moreover have "[5 \<mapsto> 14] |` (- {5 :: int}) = Map.empty" by auto
  ultimately show ?thesis
    using clean_idle_removes_idle [OF polls_demo_5_reg(1), of no_codes] polls_demo_5_reg(6) by simp
qed

end
