(* ===== verification/LibHandlePool.thy ===== *)
theory LibHandlePool imports LibList begin

text \<open>
  \<open>Server/Lib/lib-handle-pool.c\<close>: the pool of handles (database connections and the like). A handle is
  idle, busy or out of order; taking one marks the first idle handle busy, giving it back makes it idle
  again, and \<open>hp_keeplive_walk\<close> reopens those out of order. The functions that open and close a handle are
  numbers here and \<open>open_code\<close>, \<open>close_code\<close> give their code. The pool's lock makes each operation atomic.
\<close>

section \<open>State\<close>

record handle =
  hd_idx :: int
  hd_state :: int
  hd_handle :: ptr
  hd_ctx :: ptr
  hd_file :: string
  hd_line :: int
  hd_open :: nat
  hd_close :: nat

record handle_pool = heap +
  hp_count :: int
  hp_list :: ptr
  hp_sem :: int
  binit :: bool
  hds :: "ptr \<Rightarrow> handle"

record 'w handle_codes =
  open_code :: "nat \<Rightarrow> ptr \<Rightarrow> 'w \<Rightarrow> (int \<times> 'w) option"
  close_code :: "nat \<Rightarrow> ptr \<Rightarrow> 'w \<Rightarrow> (int \<times> 'w) option"

definition HANDLE_NONE :: int where "HANDLE_NONE = 2"
definition HANDLE_BUSY :: int where "HANDLE_BUSY = 1"
definition HANDLE_IDLE :: int where "HANDLE_IDLE = 0"
definition MAX_FILE_PATH :: nat where "MAX_FILE_PATH = 256"

definition get_hd :: "ptr \<Rightarrow> 'a handle_pool_scheme \<Rightarrow> handle option" where
  "get_hd p h = (if valid h p then Some (hds h p) else None)"

definition upd_hd :: "ptr \<Rightarrow> (handle \<Rightarrow> handle) \<Rightarrow> 'a handle_pool_scheme \<Rightarrow> 'a handle_pool_scheme option" where
  "upd_hd p f h = (if valid h p then Some (h\<lparr>hds := (hds h)(p := f (hds h p))\<rparr>) else None)"

definition is_hd_ok :: "handle \<Rightarrow> bool" where
  "is_hd_ok d \<longleftrightarrow> HANDLE_IDLE = hd_state d \<and> hd_handle d \<noteq> NULL"

section \<open>Taking and giving back\<close>

definition take_body :: "string \<Rightarrow> int \<Rightarrow> ptr \<Rightarrow> 'a handle_pool_scheme \<Rightarrow> ptr \<Rightarrow> ('a handle_pool_scheme \<times> ptr \<times> bool) option" where
  "take_body file line p h found = do {
     d \<leftarrow> get_hd p h;
     if is_hd_ok d
     then do {
       h \<leftarrow> upd_hd p (\<lambda>d. d\<lparr>hd_state := HANDLE_BUSY, hd_file := take MAX_FILE_PATH file, hd_line := line\<rparr>) h;
       Some (h, p, True) }
     else Some (h, found, False) }"

definition hp_get_handle :: "string \<Rightarrow> int \<Rightarrow> 'a handle_pool_scheme \<Rightarrow> (ptr \<times> 'a handle_pool_scheme) option" where
  "hp_get_handle file line h =
     (if hp_count h \<le> 0 then Some (NULL, h)
      else do {
        (h, found) \<leftarrow> lib_list_for_each_safe (take_body file line) (hp_list h) h NULL;
        Some (found, h) })"

definition hp_put_handle :: "ptr \<Rightarrow> 'a handle_pool_scheme \<Rightarrow> 'a handle_pool_scheme option" where
  "hp_put_handle p h =
     (if p = NULL then Some h
      else do {
        d \<leftarrow> get_hd p h;
        upd_hd p (\<lambda>d. d\<lparr>hd_state := (if hd_handle d \<noteq> NULL \<and> hd_state d = HANDLE_BUSY then HANDLE_IDLE else HANDLE_NONE),
          hd_line := 0\<rparr>) h })"

section \<open>Opening and closing\<close>

text \<open>The result of the close is overwritten by that of the open, when there is an open function.\<close>

definition hp_reinit_handle ::
  "'a handle_pool_scheme handle_codes \<Rightarrow> ptr \<Rightarrow> 'a handle_pool_scheme \<Rightarrow> (int \<times> 'a handle_pool_scheme) option"
where
  "hp_reinit_handle cds p h = do {
     _ \<leftarrow> lib_assert (p \<noteq> NULL);
     d \<leftarrow> get_hd p h;
     (ret, h) \<leftarrow> (if hd_close d \<noteq> 0 then close_code cds (hd_close d) p h else Some (0, h));
     d \<leftarrow> get_hd p h;
     (ret, h) \<leftarrow> (if hd_open d \<noteq> 0 then open_code cds (hd_open d) p h else Some (ret, h));
     h \<leftarrow> upd_hd p (\<lambda>d. d\<lparr>hd_state := (if ret \<noteq> 0 then HANDLE_NONE else HANDLE_IDLE)\<rparr>) h;
     Some (ret, h) }"

definition zero_handle :: handle where
  "zero_handle = \<lparr>hd_idx = 0, hd_state = 0, hd_handle = NULL, hd_ctx = NULL, hd_file = [], hd_line = 0, hd_open = 0, hd_close = 0\<rparr>"

definition hp_new_handle ::
  "'a handle_pool_scheme handle_codes \<Rightarrow> nat \<Rightarrow> nat \<Rightarrow> ptr \<Rightarrow> 'a handle_pool_scheme \<Rightarrow> (int \<times> 'a handle_pool_scheme) option"
where
  "hp_new_handle cds pfn_open pfn_close ctx h =
     (let (p, h) = mem_malloc h
      in if p = NULL then Some (ERROR, h)
      else do {
        let h = h\<lparr>hds := (hds h)(p := zero_handle\<lparr>hd_ctx := ctx, hd_open := pfn_open, hd_close := pfn_close,
                 hd_state := HANDLE_IDLE\<rparr>)\<rparr>;
        _ \<leftarrow> lib_assert (pfn_open \<noteq> 0);
        (ret, h) \<leftarrow> open_code cds pfn_open p h;
        if ret \<noteq> 0 then do { h \<leftarrow> mem_free p h; Some (ERROR, h) }
        else do {
          h \<leftarrow> lib_list_add p (hp_list h) h;
          let h = h\<lparr>hp_count := c_int (hp_count h + 1)\<rparr>;
          h \<leftarrow> upd_hd p (\<lambda>d. d\<lparr>hd_idx := hp_count h\<rparr>) h;
          Some (OK, h) } })"

definition hp_get_count :: "'a handle_pool_scheme \<Rightarrow> int" where
  "hp_get_count h = hp_count h"

text \<open>\<open>lock_rc\<close> and \<open>sem_rc\<close> are the results of the two initialisers.\<close>

definition hp_init :: "int \<Rightarrow> int \<Rightarrow> int \<Rightarrow> 'a handle_pool_scheme \<Rightarrow> (int \<times> 'a handle_pool_scheme) option" where
  "hp_init lock_rc sem_rc count h =
     (if binit h then Some (ERROR, h)
      else do {
        h \<leftarrow> INIT_LIB_LIST (hp_list h) h;
        if lock_rc \<noteq> 0 \<or> sem_rc \<noteq> 0
        then do { h \<leftarrow> INIT_LIB_LIST (hp_list h) h; Some (ERROR, h) }
        else Some (OK, h\<lparr>hp_count := 0, hp_sem := count, binit := True\<rparr>) })"

definition finl_body ::
  "'a handle_pool_scheme handle_codes \<Rightarrow> ptr \<Rightarrow> 'a handle_pool_scheme \<Rightarrow> unit \<Rightarrow> ('a handle_pool_scheme \<times> unit \<times> bool) option"
where
  "finl_body cds p h (_ :: unit) = do {
     h \<leftarrow> lib_list_del p h;
     d \<leftarrow> get_hd p h;
     (_, h) \<leftarrow> (if hd_close d \<noteq> 0 then close_code cds (hd_close d) p h else Some (0, h));
     h \<leftarrow> mem_free p h;
     Some (h, (), False) }"

definition hp_finl :: "'a handle_pool_scheme handle_codes \<Rightarrow> 'a handle_pool_scheme \<Rightarrow> (int \<times> 'a handle_pool_scheme) option" where
  "hp_finl cds h = do {
     (h, _) \<leftarrow> lib_list_for_each_safe (finl_body cds) (hp_list h) h ();
     h \<leftarrow> INIT_LIB_LIST (hp_list h) h;
     Some (OK, h\<lparr>hp_count := 0, hp_sem := 0, binit := False\<rparr>) }"

definition walk_body ::
  "'a handle_pool_scheme handle_codes \<Rightarrow> ptr \<Rightarrow> 'a handle_pool_scheme \<Rightarrow> unit \<Rightarrow> ('a handle_pool_scheme \<times> unit \<times> bool) option"
where
  "walk_body cds p h (_ :: unit) = do {
     d \<leftarrow> get_hd p h;
     if hd_state d = HANDLE_NONE then do { (_, h) \<leftarrow> hp_reinit_handle cds p h; Some (h, (), False) }
     else Some (h, (), False) }"

definition hp_keeplive_walk :: "'a handle_pool_scheme handle_codes \<Rightarrow> 'a handle_pool_scheme \<Rightarrow> (int \<times> 'a handle_pool_scheme) option" where
  "hp_keeplive_walk cds h =
     (if hp_count h \<le> 0 then Some (OK, h)
      else do {
        (h, _) \<leftarrow> lib_list_for_each_safe (walk_body cds) (hp_list h) h ();
        Some (OK, h) })"

section \<open>The pool's contents\<close>

definition pool :: "'a handle_pool_scheme \<Rightarrow> ptr list \<Rightarrow> bool" where
  "pool h ps \<longleftrightarrow> dlist h (hp_list h) ps \<and> hp_count h = int (length ps) \<and> length ps < 2 ^ 31"

definition hd_typed :: "handle \<Rightarrow> bool" where
  "hd_typed d \<longleftrightarrow> hd_state d \<in> {HANDLE_IDLE, HANDLE_BUSY, HANDLE_NONE} \<and> length (hd_file d) \<le> MAX_FILE_PATH"

definition pool_typed :: "'a handle_pool_scheme \<Rightarrow> ptr list \<Rightarrow> bool" where
  "pool_typed h ps \<longleftrightarrow> pool h ps \<and> (\<forall>p \<in> set ps. hd_typed (hds h p))"

lemmas hd_states = HANDLE_IDLE_def HANDLE_BUSY_def HANDLE_NONE_def

definition taken :: "string \<Rightarrow> int \<Rightarrow> handle \<Rightarrow> handle" where
  "taken pt lno d = d\<lparr>hd_state := HANDLE_BUSY, hd_file := take MAX_FILE_PATH pt, hd_line := lno\<rparr>"

definition given_back :: "handle \<Rightarrow> handle" where
  "given_back d = d\<lparr>hd_state := (if hd_handle d \<noteq> NULL \<and> hd_state d = HANDLE_BUSY then HANDLE_IDLE else HANDLE_NONE), hd_line := 0\<rparr>"

definition set_hd :: "ptr \<Rightarrow> handle \<Rightarrow> 'a handle_pool_scheme \<Rightarrow> 'a handle_pool_scheme" where
  "set_hd p d h = h\<lparr>hds := (hds h)(p := d)\<rparr>"

lemma set_hd_simps [simp]:
  "valid (set_hd p d h) = valid h" "dlist (set_hd p d h) hh ps = dlist h hh ps" "hp_list (set_hd p d h) = hp_list h"
  "hp_count (set_hd p d h) = hp_count h" "hds (set_hd p d h) = (hds h)(p := d)"
  "pool (set_hd p d h) ps = pool h ps"
  by (simp_all add: set_hd_def valid_def fun_eq_iff dlist_cong [of "h\<lparr>hds := (hds h)(p := d)\<rparr>" h] pool_def)

lemma upd_hd_set: "valid h p \<Longrightarrow> upd_hd p f h = Some (set_hd p (f (hds h p)) h)"
  by (simp add: upd_hd_def set_hd_def)

lemma pool_valid: "pool h ps \<Longrightarrow> p \<in> set ps \<Longrightarrow> valid h p \<and> p \<noteq> NULL"
  by (auto simp: pool_def dlist_def dest: valid_pos)

lemma pool_typed_set:
  "pool_typed h ps \<Longrightarrow> (p \<in> set ps \<longrightarrow> hd_typed d) \<Longrightarrow> pool_typed (set_hd p d h) ps"
  by (simp add: pool_typed_def)

text \<open>The first handle in the list that can be taken.\<close>

lemma run_take:
  assumes "\<forall>p \<in> set ps. valid h p"
  shows "run_body (take_body pt lno) ps h r = Some (case List.find (\<lambda>p. is_hd_ok (hds h p)) ps of
      None \<Rightarrow> (h, r) | Some p \<Rightarrow> (set_hd p (taken pt lno (hds h p)) h, p))"
  using assms by (induction ps) (auto simp: take_body_def get_hd_def upd_hd_set taken_def)

lemma take_links: "take_body pt lno p h r = Some (h', r', st) \<Longrightarrow> nxt h' = nxt h \<and> live h' = live h"
  by (auto simp: take_body_def upd_hd_def split: Option.bind_splits if_splits)

lemma hp_get_handle_eq:
  assumes p: "pool h ps"
  shows "hp_get_handle pt lno h = Some (case List.find (\<lambda>p. is_hd_ok (hds h p)) ps of
      None \<Rightarrow> (NULL, h) | Some p \<Rightarrow> (p, set_hd p (taken pt lno (hds h p)) h))"
proof (cases ps)
  case Nil
  then show ?thesis using p by (simp add: hp_get_handle_def pool_def)
next
  case (Cons a as)
  have "lib_list_for_each_safe (take_body pt lno) (hp_list h) h NULL = run_body (take_body pt lno) ps h NULL"
    using p by (intro for_each_safe_run_ro take_links) (auto simp: pool_def)
  then show ?thesis
    using p Cons run_take [of ps h pt lno NULL] pool_valid [OF p]
    by (simp add: hp_get_handle_def pool_def split: option.split)
qed

lemma hp_put_handle_eq:
  "pool h ps \<Longrightarrow> p \<in> set ps \<Longrightarrow> hp_put_handle p h = Some (set_hd p (given_back (hds h p)) h)"
  using pool_valid [of h ps p] by (simp add: hp_put_handle_def get_hd_def upd_hd_set given_back_def)

lemma find_idle_Some:
  "List.find (\<lambda>p. is_hd_ok (hds h p)) ps = Some p \<Longrightarrow> p \<in> set ps \<and> is_hd_ok (hds h p)"
  by (auto simp: find_Some_iff)

section \<open>Properties\<close>

text \<open>C20: Taking a handle: the result is \<open>NULL\<close> exactly when no handle of the pool is idle and open; otherwise it is a handle of the pool that was idle, is busy afterwards with the caller's position recorded, and no other handle changes. So a second take before it is given back never returns the same handle; giving it back makes the pool's next take find it idle again. The pool stays well formed throughout.\<close>
theorem hp_handles_exclusive:
  assumes "pool_typed h ps"
  shows "\<exists>p h'. hp_get_handle pt lno h = Some (p, h') \<and> pool_typed h' ps \<and>
     (p = NULL \<longleftrightarrow> (\<forall>q \<in> set ps. \<not> is_hd_ok (hds h q))) \<and>
     (if p = NULL then h' = h
      else p \<in> set ps \<and> is_hd_ok (hds h p) \<and> hds h' = (hds h)(p := taken pt lno (hds h p)) \<and>
        (\<exists>p' h''. hp_get_handle pt2 lno2 h' = Some (p', h'') \<and> p' \<noteq> p) \<and>
        (\<exists>h''. hp_put_handle p h' = Some h'' \<and> pool_typed h'' ps \<and> is_hd_ok (hds h'' p)))"
proof -
  have pl: "pool h ps" using assms by (simp add: pool_typed_def)
  show ?thesis
  proof (cases "List.find (\<lambda>p. is_hd_ok (hds h p)) ps")
    case None
    then have "\<forall>q \<in> set ps. \<not> is_hd_ok (hds h q)" by (simp add: find_None_iff)
    then show ?thesis using None assms hp_get_handle_eq [OF pl, of pt lno] by simp
  next
    case (Some p)
    note i = find_idle_Some [OF Some]
    let ?d = "taken pt lno (hds h p)"
    let ?h = "set_hd p ?d h"
    have p0: "p \<noteq> NULL" using pool_valid [OF pl] i by blast
    have ev: "hp_get_handle pt lno h = Some (p, ?h)" using Some hp_get_handle_eq [OF pl, of pt lno] by simp
    have typed: "hd_typed (hds h p)" using assms i by (simp add: pool_typed_def)
    have t: "pool_typed ?h ps" by (rule pool_typed_set [OF assms]) (simp add: hd_typed_def taken_def)
    then have pl': "pool ?h ps" by (simp add: pool_typed_def)
    have "\<not> is_hd_ok (hds ?h p)" by (simp add: is_hd_ok_def taken_def hd_states)
    then have n: "List.find (\<lambda>q. is_hd_ok (hds ?h q)) ps \<noteq> Some p" using find_idle_Some [of ?h ps p] by blast
    have other: "\<exists>p' h''. hp_get_handle pt2 lno2 ?h = Some (p', h'') \<and> p' \<noteq> p"
    proof (cases "List.find (\<lambda>q. is_hd_ok (hds ?h q)) ps")
      case None
      then show ?thesis unfolding hp_get_handle_eq [OF pl', of pt2 lno2] using p0 by simp
    next
      case (Some q)
      then have "q \<noteq> p" using n by auto
      then show ?thesis unfolding hp_get_handle_eq [OF pl', of pt2 lno2] Some by simp
    qed
    let ?g = "set_hd p (given_back (hds ?h p)) ?h"
    have "hp_put_handle p ?h = Some ?g" by (rule hp_put_handle_eq [OF pl']) (use i in simp)
    moreover have "pool_typed ?g ps"
      by (rule pool_typed_set [OF t]) (simp add: hd_typed_def given_back_def taken_def hd_states)
    moreover have "is_hd_ok (hds ?g p)" using i by (simp add: is_hd_ok_def given_back_def taken_def)
    ultimately have gb: "\<exists>h''. hp_put_handle p ?h = Some h'' \<and> pool_typed h'' ps \<and> is_hd_ok (hds h'' p)" by blast
    show ?thesis
      by (intro exI [of _ p] exI [of _ ?h] conjI) (use ev t i p0 other gb in auto)
  qed
qed

definition hp_demo :: handle_pool where
  "hp_demo = \<lparr>live = (\<lambda>p. 1 \<le> p \<and> p \<le> 3), brk = 4, oom = [], nxt = (\<lambda>_. 1)(1 := 2, 2 := 3), prv = (\<lambda>_. 1)(1 := 3, 3 := 2),
     hp_count = 2, hp_list = 1, hp_sem = 2, binit = True,
     hds = (\<lambda>_. zero_handle\<lparr>hd_handle := 77\<rparr>)(2 := zero_handle\<lparr>hd_state := HANDLE_NONE\<rparr>)\<rparr>"

lemma hp_demo_typed: "pool_typed hp_demo [2, 3]"
  by (simp add: pool_typed_def pool_def hp_demo_def dlist_def valid_def hd_typed_def zero_handle_def hd_states)

theorem hp_handles_exclusive_witness:
  "\<exists>h'. hp_get_handle ''db.c'' 12 hp_demo = Some (3, h') \<and> pool_typed h' [2, 3] \<and> hd_line (hds h' 3) = 12"
proof -
  obtain p h' where h': "hp_get_handle ''db.c'' 12 hp_demo = Some (p, h')" "pool_typed h' [2, 3]"
      "p = NULL \<longleftrightarrow> (\<forall>q \<in> set [2, 3]. \<not> is_hd_ok (hds hp_demo q))"
      "p \<noteq> NULL \<longrightarrow> p \<in> set [2, 3] \<and> is_hd_ok (hds hp_demo p) \<and> hds h' = (hds hp_demo)(p := taken ''db.c'' 12 (hds hp_demo p))"
    using hp_handles_exclusive [OF hp_demo_typed, of "''db.c''" 12] by metis
  have "is_hd_ok (hds hp_demo 3)" "\<not> is_hd_ok (hds hp_demo 2)"
    by (simp_all add: hp_demo_def is_hd_ok_def zero_handle_def hd_states)
  then have "p = 3" using h'(3,4) by auto
  then show ?thesis using h' by (simp add: taken_def)
qed

text \<open>
  Giving a handle back twice: in between another caller may have taken it, and then the second
  call makes it idle while that caller still uses it.
\<close>

lemma hp_double_put_shares:
  assumes "pool_typed h [p]" and "is_hd_ok (hds h p)"
  shows "\<exists>h1 h2 h3 h4 h5. hp_get_handle f1 l1 h = Some (p, h1) \<and> hp_put_handle p h1 = Some h2 \<and>
     hp_get_handle f2 l2 h2 = Some (p, h3) \<and> hp_put_handle p h3 = Some h4 \<and> hp_get_handle f3 l3 h4 = Some (p, h5)"
proof -
  have v: "pool h [p]" using assms(1) by (simp add: pool_typed_def)
  have g: "\<exists>g'. hp_get_handle f l g = Some (p, g') \<and> pool g' [p] \<and> hds g' p = taken f l (hds g p)"
    if "pool g [p]" "is_hd_ok (hds g p)" for f l and g :: "'a handle_pool_scheme"
    using hp_get_handle_eq [OF that(1), of f l] that by simp
  have b: "\<exists>g'. hp_put_handle p g = Some g' \<and> pool g' [p] \<and> is_hd_ok (hds g' p)"
    if "pool g [p]" "hds g p = taken f l d" "hd_handle d \<noteq> NULL" for f l d and g :: "'a handle_pool_scheme"
    using hp_put_handle_eq [OF that(1), of p] that by (simp add: given_back_def taken_def is_hd_ok_def)
  obtain h1 where h1: "hp_get_handle f1 l1 h = Some (p, h1)" "pool h1 [p]" "hds h1 p = taken f1 l1 (hds h p)"
    using g [OF v assms(2)] by blast
  obtain h2 where h2: "hp_put_handle p h1 = Some h2" "pool h2 [p]" "is_hd_ok (hds h2 p)"
    using b [OF h1(2,3)] assms(2) by (auto simp: is_hd_ok_def)
  obtain h3 where h3: "hp_get_handle f2 l2 h2 = Some (p, h3)" "pool h3 [p]" "hds h3 p = taken f2 l2 (hds h2 p)"
    using g [OF h2(2,3)] by blast
  obtain h4 where h4: "hp_put_handle p h3 = Some h4" "pool h4 [p]" "is_hd_ok (hds h4 p)"
    using b [OF h3(2,3)] h2(3) by (auto simp: is_hd_ok_def)
  obtain h5 where "hp_get_handle f3 l3 h4 = Some (p, h5)" using g [OF h4(2,3)] by blast
  then show ?thesis using h1(1) h2(1) h3(1) h4(1) by blast
qed

end
