(* ===== verification/LibDb.thy ===== *)
theory LibDb imports LibList begin

text \<open>
  \<open>Server/Lib/lib-db.c\<close>: the pool of MySQL connections and the connections made on demand. The MySQL
  client library is a parameter: a record of what its calls return and do to the rest of the state. The
  pool's lock makes each operation atomic; its semaphore counts the handles that can be taken, and a
  caller that finds it at 0 sleeps.
\<close>

section \<open>State\<close>

record db_handle =
  db_st :: int
  mysql :: ptr
  db_file :: string
  db_line :: int

record db_server =
  svr_ip :: string
  svr_port :: int
  svr_user :: string
  svr_pwd :: string
  svr_name :: string

record dbs = heap +
  db_count :: int
  db_list :: ptr
  db_sem :: int
  dbh :: "ptr \<Rightarrow> db_handle"
  instant_svr :: db_server

text \<open>
  A row of a result is a list of columns, \<open>None\<close> for an SQL \<open>NULL\<close>. A stored result is the list of its
  rows, \<open>None\<close> when the statement has none.
\<close>

type_synonym db_row = "string option list"

record 'w mysql_api =
  mysql_init :: "'w \<Rightarrow> ptr \<times> 'w"
  mysql_real_connect :: "ptr \<Rightarrow> db_server \<Rightarrow> 'w \<Rightarrow> bool \<times> 'w"
  mysql_close :: "ptr \<Rightarrow> 'w \<Rightarrow> 'w"
  mysql_real_query :: "ptr \<Rightarrow> string \<Rightarrow> 'w \<Rightarrow> int \<times> 'w"
  mysql_store_result :: "ptr \<Rightarrow> 'w \<Rightarrow> db_row list option \<times> 'w"
  mysql_errno :: "ptr \<Rightarrow> 'w \<Rightarrow> int"

definition DB_HANDLE_BUSY :: int where "DB_HANDLE_BUSY = 1"
definition DB_HANDLE_IDLE :: int where "DB_HANDLE_IDLE = 0"
definition DB_MAX_PATH :: nat where "DB_MAX_PATH = 256"
definition DB_NAME_LEN :: nat where "DB_NAME_LEN = 32"

text \<open>The single quote of SQL, and the statement every connection begins with.\<close>

definition sql_quote :: string where "sql_quote = [CHR 0x27]"

definition SET_NAMES :: string where "SET_NAMES = ''SET NAMES '' @ sql_quote @ ''utf8'' @ sql_quote"

definition get_dbh :: "ptr \<Rightarrow> 'a dbs_scheme \<Rightarrow> db_handle option" where
  "get_dbh p h = (if valid h p then Some (dbh h p) else None)"

definition upd_dbh :: "ptr \<Rightarrow> (db_handle \<Rightarrow> db_handle) \<Rightarrow> 'a dbs_scheme \<Rightarrow> 'a dbs_scheme option" where
  "upd_dbh p f h = (if valid h p then Some (h\<lparr>dbh := (dbh h)(p := f (dbh h p))\<rparr>) else None)"

definition zero_dbh :: db_handle where
  "zero_dbh = \<lparr>db_st = 0, mysql = NULL, db_file = [], db_line = 0\<rparr>"

section \<open>The pool\<close>

datatype db_got = DbSleeps | DbGot ptr

definition db_take_body :: "string \<Rightarrow> int \<Rightarrow> ptr \<Rightarrow> 'a dbs_scheme \<Rightarrow> ptr \<Rightarrow> ('a dbs_scheme \<times> ptr \<times> bool) option" where
  "db_take_body path l p h found = do {
     d \<leftarrow> get_dbh p h;
     if db_st d = DB_HANDLE_IDLE
     then do {
       h \<leftarrow> upd_dbh p (\<lambda>d. d\<lparr>db_st := DB_HANDLE_BUSY, db_file := take DB_MAX_PATH path, db_line := l\<rparr>) h;
       Some (h, p, True) }
     else Some (h, found, False) }"

definition db_get_handle :: "string \<Rightarrow> int \<Rightarrow> 'a dbs_scheme \<Rightarrow> (db_got \<times> 'a dbs_scheme) option" where
  "db_get_handle path l h =
     (if db_count h \<le> 0 then Some (DbGot NULL, h)
      else if db_sem h \<le> 0 then Some (DbSleeps, h)
      else do {
        let h = h\<lparr>db_sem := db_sem h - 1\<rparr>;
        (h, found) \<leftarrow> lib_list_for_each_safe (db_take_body path l) (db_list h) h NULL;
        Some (DbGot found, h) })"

text \<open>The semaphore is raised whatever is given back, \<open>NULL\<close> included.\<close>

definition db_put_handle :: "ptr \<Rightarrow> 'a dbs_scheme \<Rightarrow> 'a dbs_scheme option" where
  "db_put_handle p h = do {
     h \<leftarrow> (if p \<noteq> NULL then upd_dbh p (\<lambda>d. d\<lparr>db_st := DB_HANDLE_IDLE, db_file := [], db_line := 0\<rparr>) h else Some h);
     Some (h\<lparr>db_sem := db_sem h + 1\<rparr>) }"

text \<open>The connection of a handle: the new \<open>MYSQL\<close> pointer is stored even when connecting fails.\<close>

definition db_connect_init :: "'a dbs_scheme mysql_api \<Rightarrow> db_server \<Rightarrow> 'a dbs_scheme \<Rightarrow> int \<times> ptr \<times> 'a dbs_scheme" where
  "db_connect_init api svr h =
     (let (m, h) = mysql_init api h
      in if m = NULL then (ERROR, NULL, h)
      else
        let (ok, h) = mysql_real_connect api m svr h
        in if \<not> ok then (ERROR, m, mysql_close api m h)
        else
          let (_, h) = mysql_real_query api m SET_NAMES h;
              (_, h) = mysql_real_query api m ''SET CHARACTER SET utf8'' h
          in (OK, m, h))"

definition db_connect_destroy :: "'a dbs_scheme mysql_api \<Rightarrow> ptr \<Rightarrow> 'a dbs_scheme \<Rightarrow> 'a dbs_scheme" where
  "db_connect_destroy api m h = (if m \<noteq> NULL then mysql_close api m h else h)"

fun db_init_handles :: "'a dbs_scheme mysql_api \<Rightarrow> db_server \<Rightarrow> nat \<Rightarrow> 'a dbs_scheme \<Rightarrow> (bool \<times> 'a dbs_scheme) option" where
  "db_init_handles api svr 0 h = Some (True, h)"
| "db_init_handles api svr (Suc n) h =
     (let (p, h) = mem_malloc h
      in if p = NULL then Some (False, h)
      else do {
        let h = h\<lparr>dbh := (dbh h)(p := zero_dbh)\<rparr>;
        let (ret, m, h) = db_connect_init api svr h;
        h \<leftarrow> upd_dbh p (\<lambda>d. d\<lparr>mysql := m\<rparr>) h;
        if ret \<noteq> 0 then Some (False, h)
        else do {
          h \<leftarrow> upd_dbh p (\<lambda>d. d\<lparr>db_st := DB_HANDLE_IDLE\<rparr>) h;
          h \<leftarrow> lib_list_add p (db_list h) h;
          db_init_handles api svr n h } })"

definition db_drop_body :: "'a dbs_scheme mysql_api \<Rightarrow> ptr \<Rightarrow> 'a dbs_scheme \<Rightarrow> 'a dbs_scheme option" where
  "db_drop_body api p h = do {
     h \<leftarrow> lib_list_del p h;
     d \<leftarrow> get_dbh p h;
     mem_free p (db_connect_destroy api (mysql d) h) }"

definition db_init_err :: "'a dbs_scheme mysql_api \<Rightarrow> 'a dbs_scheme \<Rightarrow> (int \<times> 'a dbs_scheme) option" where
  "db_init_err api h = do {
     (h, _) \<leftarrow> lib_list_for_each_safe (\<lambda>p h (_ :: unit). do { h \<leftarrow> db_drop_body api p h; Some (h, (), False) }) (db_list h) h ();
     h \<leftarrow> INIT_LIB_LIST (db_list h) h;
     Some (ERROR, h) }"

text \<open>\<open>lock_rc\<close> and \<open>sem_rc\<close> are the results of the two initialisers.\<close>

definition db_pool_init ::
  "'a dbs_scheme mysql_api \<Rightarrow> int \<Rightarrow> int \<Rightarrow> db_server \<Rightarrow> int \<Rightarrow> 'a dbs_scheme \<Rightarrow> (int \<times> 'a dbs_scheme) option"
where
  "db_pool_init api lock_rc sem_rc svr count h = do {
     h \<leftarrow> INIT_LIB_LIST (db_list h) h;
     (ok, h) \<leftarrow> db_init_handles api svr (nat count) h;
     if \<not> ok \<or> lock_rc \<noteq> 0 \<or> sem_rc \<noteq> 0 then db_init_err api h
     else Some (OK, h\<lparr>db_sem := count, db_count := count\<rparr>) }"

text \<open>A busy handle ends the loop with \<open>ERROR\<close>; the flag of the loop says so.\<close>

definition db_finl_body :: "'a dbs_scheme mysql_api \<Rightarrow> ptr \<Rightarrow> 'a dbs_scheme \<Rightarrow> bool \<Rightarrow> ('a dbs_scheme \<times> bool \<times> bool) option" where
  "db_finl_body api p h busy = do {
     d \<leftarrow> get_dbh p h;
     if db_st d = DB_HANDLE_IDLE then do { h \<leftarrow> db_drop_body api p h; Some (h, busy, False) }
     else Some (h, True, True) }"

definition db_pool_finl :: "'a dbs_scheme mysql_api \<Rightarrow> 'a dbs_scheme \<Rightarrow> (int \<times> 'a dbs_scheme) option" where
  "db_pool_finl api h = do {
     (h, busy) \<leftarrow> lib_list_for_each_safe (db_finl_body api) (db_list h) h False;
     if busy then Some (ERROR, h)
     else do {
       h \<leftarrow> INIT_LIB_LIST (db_list h) h;
       Some (OK, h\<lparr>db_sem := 0, db_count := 0\<rparr>) } }"

text \<open>The lines \<open>db_pool_dump\<close> prints: number, busy, file and line of each handle.\<close>

definition db_pool_dump :: "'a dbs_scheme \<Rightarrow> (int \<times> bool \<times> string \<times> int) list option" where
  "db_pool_dump h = do {
     (_, rows) \<leftarrow> lib_list_for_each_safe
       (\<lambda>p h rows. do {
          d \<leftarrow> get_dbh p h;
          Some (h, rows @ [(int (length rows), db_st d = DB_HANDLE_BUSY, db_file d, db_line d)], False) })
       (db_list h) h [];
     Some rows }"

section \<open>Queries\<close>

definition HANDLE_CHECK :: "ptr \<Rightarrow> 'a dbs_scheme \<Rightarrow> bool option" where
  "HANDLE_CHECK p h =
     (if p = NULL then Some False
      else do { d \<leftarrow> get_dbh p h; Some (db_st d = DB_HANDLE_BUSY \<and> mysql d \<noteq> NULL) })"

text \<open>The call back is called once for each row, always with \<open>NULL\<close> for the row.\<close>

definition db_query ::
  "'a dbs_scheme mysql_api \<Rightarrow> ptr \<Rightarrow> string \<Rightarrow> (ptr \<Rightarrow> 'a dbs_scheme \<Rightarrow> 'a dbs_scheme) option \<Rightarrow> 'a dbs_scheme \<Rightarrow>
   (int \<times> 'a dbs_scheme) option"
where
  "db_query api p sql cb h = do {
     ok \<leftarrow> HANDLE_CHECK p h;
     if \<not> ok then Some (ERROR, h)
     else do {
       d \<leftarrow> get_dbh p h;
       let (ret, h) = mysql_real_query api (mysql d) sql h;
       if ret \<noteq> 0 then Some (ERROR, h)
       else
         let (res, h) = mysql_store_result api (mysql d) h
         in case res of
              None \<Rightarrow> Some (if mysql_errno api (mysql d) h \<noteq> 0 then ERROR else ret, h)
            | Some rows \<Rightarrow> Some (ret, case cb of None \<Rightarrow> h | Some f \<Rightarrow> fold (\<lambda>_. f NULL) rows h) } }"

section \<open>Connections on demand\<close>

text \<open>\<open>strcpy\<close> into a field of \<open>MAX_NAME_LEN\<close> bytes; a longer string would write over its neighbours.\<close>

definition db_set_instant_server :: "db_server \<Rightarrow> 'a dbs_scheme \<Rightarrow> 'a dbs_scheme option" where
  "db_set_instant_server svr h = do {
     _ \<leftarrow> lib_assert (length (svr_ip svr) < DB_NAME_LEN \<and> length (svr_user svr) < DB_NAME_LEN \<and>
       length (svr_pwd svr) < DB_NAME_LEN \<and> length (svr_name svr) < DB_NAME_LEN);
     Some (h\<lparr>instant_svr := svr\<rparr>) }"

definition db_get_instant_handle :: "'a dbs_scheme mysql_api \<Rightarrow> 'a dbs_scheme \<Rightarrow> (ptr \<times> 'a dbs_scheme) option" where
  "db_get_instant_handle api h = do {
     let (p, h) = mem_malloc h;
     _ \<leftarrow> lib_assert (p \<noteq> NULL);
     let h = h\<lparr>dbh := (dbh h)(p := zero_dbh)\<rparr>;
     let (m, h) = mysql_init api h;
     h \<leftarrow> upd_dbh p (\<lambda>d. d\<lparr>mysql := m\<rparr>) h;
     if m = NULL then do { h \<leftarrow> mem_free p h; Some (NULL, h) }
     else
       let (ok, h) = mysql_real_connect api m (instant_svr h) h
       in if \<not> ok then do { h \<leftarrow> mem_free p (mysql_close api m h); Some (NULL, h) }
       else let (_, h) = mysql_real_query api m SET_NAMES h in Some (p, h) }"

text \<open>The test reads through the pointer it has found to be \<open>NULL\<close>.\<close>

definition db_put_instant_handle :: "'a dbs_scheme mysql_api \<Rightarrow> ptr \<Rightarrow> 'a dbs_scheme \<Rightarrow> 'a dbs_scheme option" where
  "db_put_instant_handle api p h = do {
     d \<leftarrow> get_dbh p h;
     mem_free p (mysql_close api (mysql d) h) }"

definition db_set_handle_utf8 :: "'a dbs_scheme mysql_api \<Rightarrow> ptr \<Rightarrow> 'a dbs_scheme \<Rightarrow> 'a dbs_scheme option" where
  "db_set_handle_utf8 api p h = do {
     d \<leftarrow> get_dbh p h;
     let (_, h) = mysql_real_query api (mysql d) SET_NAMES h;
     Some h }"

section \<open>The semaphore counts the idle handles\<close>

definition idle_handles :: "'a dbs_scheme \<Rightarrow> ptr list \<Rightarrow> ptr list" where
  "idle_handles h ps = filter (\<lambda>p. db_st (dbh h p) = DB_HANDLE_IDLE) ps"

definition db_pool :: "'a dbs_scheme \<Rightarrow> ptr list \<Rightarrow> bool" where
  "db_pool h ps \<longleftrightarrow> dlist h (db_list h) ps \<and> db_count h = int (length ps) \<and> ps \<noteq> [] \<and>
     db_sem h = int (length (idle_handles h ps)) \<and>
     (\<forall>p \<in> set ps. db_st (dbh h p) \<in> {DB_HANDLE_IDLE, DB_HANDLE_BUSY})"

lemma db_valid: "db_pool h ps \<Longrightarrow> p \<in> set ps \<Longrightarrow> valid h p \<and> p \<noteq> NULL"
  by (auto simp: db_pool_def dlist_def dest: valid_pos)

lemma run_db_take:
  assumes "\<forall>p \<in> set ps. valid h p"
  shows "run_body (db_take_body path l) ps h r = Some (case idle_handles h ps of
      [] \<Rightarrow> (h, r)
    | p # _ \<Rightarrow> (h\<lparr>dbh := (dbh h)(p := (dbh h p)\<lparr>db_st := DB_HANDLE_BUSY, db_file := take DB_MAX_PATH path, db_line := l\<rparr>)\<rparr>, p))"
  using assms by (induction ps) (auto simp: db_take_body_def get_dbh_def upd_dbh_def idle_handles_def)

lemma db_take_links: "db_take_body path l p h r = Some (h', r', st) \<Longrightarrow> nxt h' = nxt h \<and> live h' = live h"
  by (auto simp: db_take_body_def upd_dbh_def split: Option.bind_splits if_splits)

lemma idle_after:
  assumes "distinct ps" and "p \<in> set ps"
  shows "db_st d \<noteq> DB_HANDLE_IDLE \<Longrightarrow> idle_handles (h\<lparr>dbh := (dbh h)(p := d)\<rparr>) ps = remove1 p (idle_handles h ps)"
    and "db_st d = DB_HANDLE_IDLE \<Longrightarrow> db_st (dbh h p) \<noteq> DB_HANDLE_IDLE \<Longrightarrow>
      length (idle_handles (h\<lparr>dbh := (dbh h)(p := d)\<rparr>) ps) = Suc (length (idle_handles h ps))"
proof -
  have same: "idle_handles (h\<lparr>dbh := (dbh h)(p := d)\<rparr>) xs = idle_handles h xs" if "p \<notin> set xs" for xs
    using that unfolding idle_handles_def by (intro filter_cong) auto
  show "idle_handles (h\<lparr>dbh := (dbh h)(p := d)\<rparr>) ps = remove1 p (idle_handles h ps)" if "db_st d \<noteq> DB_HANDLE_IDLE"
    using assms
  proof (induction ps)
    case (Cons a ps)
    show ?case
    proof (cases "a = p")
      case True
      then show ?thesis using same [of ps] Cons.prems that
        by (auto simp: idle_handles_def remove1_idem)
    qed (use Cons that in \<open>auto simp: idle_handles_def\<close>)
  qed simp
  show "length (idle_handles (h\<lparr>dbh := (dbh h)(p := d)\<rparr>) ps) = Suc (length (idle_handles h ps))"
    if "db_st d = DB_HANDLE_IDLE" "db_st (dbh h p) \<noteq> DB_HANDLE_IDLE"
    using assms
  proof (induction ps)
    case (Cons a ps)
    show ?case
    proof (cases "a = p")
      case True
      then show ?thesis using same [of ps] Cons.prems that by (auto simp: idle_handles_def)
    qed (use Cons that in \<open>auto simp: idle_handles_def\<close>)
  qed simp
qed

text \<open>
  A caller that does not sleep gets an idle handle, never \<open>NULL\<close>; giving it back restores the pool.
  Giving back \<open>NULL\<close> raises the semaphore alone, and the pool loses the property.
\<close>

lemma db_pool_cong:
  assumes "dlist h (db_list h) ps" "live h' = live h" "nxt h' = nxt h" "prv h' = prv h" "db_list h' = db_list h"
  shows "dlist h' (db_list h') ps"
  using assms dlist_cong [of h' h] by simp

lemma db_get_handle_ok:
  assumes p: "db_pool h ps"
  shows "db_get_handle path l h = Some (DbSleeps, h) \<and> idle_handles h ps = [] \<or>
    (\<exists>q h'. db_get_handle path l h = Some (DbGot q, h') \<and> q \<in> set ps \<and> db_st (dbh h q) = DB_HANDLE_IDLE \<and>
       db_st (dbh h' q) = DB_HANDLE_BUSY \<and> db_pool h' ps)"
proof (cases "idle_handles h ps")
  case Nil
  then show ?thesis using p by (simp add: db_get_handle_def db_pool_def)
next
  case (Cons q qs)
  let ?d = "(dbh h q)\<lparr>db_st := DB_HANDLE_BUSY, db_file := take DB_MAX_PATH path, db_line := l\<rparr>"
  let ?h1 = "h\<lparr>db_sem := db_sem h - 1\<rparr>" and ?h = "h\<lparr>db_sem := db_sem h - 1, dbh := (dbh h)(q := ?d)\<rparr>"
  have q: "q \<in> set ps" "db_st (dbh h q) = DB_HANDLE_IDLE"
  proof -
    have "q \<in> set (idle_handles h ps)" using Cons by simp
    then show "q \<in> set ps" "db_st (dbh h q) = DB_HANDLE_IDLE" by (simp_all add: idle_handles_def)
  qed
  have d: "dlist h (db_list h) ps" and dist: "distinct ps" and sem: "db_sem h = 1 + int (length qs)"
    using p Cons by (auto simp: db_pool_def dlist_def)
  have d1: "dlist ?h1 (db_list h) ps" by (subst dlist_cong [of ?h1 h]) (use d in simp_all)
  have v: "\<forall>p \<in> set ps. valid ?h1 p" using dlist_valid [OF d1] by simp
  have "lib_list_for_each_safe (db_take_body path l) (db_list h) ?h1 NULL = run_body (db_take_body path l) ps ?h1 NULL"
    by (rule for_each_safe_run_ro [OF db_take_links d1])
  also have "\<dots> = Some (?h, q)" using run_db_take [OF v, of path l NULL] Cons by (simp add: idle_handles_def)
  finally have lp: "lib_list_for_each_safe (db_take_body path l) (db_list h) ?h1 NULL = Some (?h, q)" .
  have "0 < db_count h" "0 < db_sem h" using p sem by (auto simp: db_pool_def)
  then have ev: "db_get_handle path l h = Some (DbGot q, ?h)" using lp by (simp add: db_get_handle_def)
  have i: "idle_handles ?h ps = qs"
    using idle_after(1) [OF dist q(1), of ?d h] Cons by (simp add: idle_handles_def DB_HANDLE_BUSY_def DB_HANDLE_IDLE_def)
  have "dlist ?h (db_list ?h) ps" by (rule db_pool_cong [OF d]) simp_all
  moreover define g where "g = ?h"
  ultimately have g: "dlist g (db_list g) ps" "idle_handles g ps = qs" "db_sem g = int (length qs)" "db_count g = db_count h"
    "dbh g = (dbh h)(q := ?d)" "db_get_handle path l h = Some (DbGot q, g)"
    using i sem ev by simp_all
  have "db_pool g ps" unfolding db_pool_def g(2-5) using g(1) p by (auto simp: db_pool_def)
  moreover have "db_st (dbh g q) = DB_HANDLE_BUSY" by (simp add: g(5))
  ultimately show ?thesis using g(6) q by blast
qed

lemma db_put_handle_ok:
  assumes p: "db_pool h ps" and q: "q \<in> set ps" "db_st (dbh h q) = DB_HANDLE_BUSY"
  shows "\<exists>h'. db_put_handle q h = Some h' \<and> db_pool h' ps \<and> db_st (dbh h' q) = DB_HANDLE_IDLE"
proof -
  let ?d = "(dbh h q)\<lparr>db_st := DB_HANDLE_IDLE, db_file := [], db_line := 0\<rparr>"
  let ?h = "h\<lparr>dbh := (dbh h)(q := ?d), db_sem := db_sem h + 1\<rparr>"
  have d: "dlist h (db_list h) ps" and dist: "distinct ps" using p by (auto simp: db_pool_def dlist_def)
  have "length (idle_handles ?h ps) = Suc (length (idle_handles h ps))"
    using idle_after(2) [OF dist q(1), of ?d h] q(2) by (simp add: idle_handles_def DB_HANDLE_BUSY_def DB_HANDLE_IDLE_def)
  moreover have "dlist ?h (db_list ?h) ps" by (rule db_pool_cong [OF d]) simp_all
  ultimately have "db_pool ?h ps" using p by (auto simp: db_pool_def)
  moreover have "db_put_handle q h = Some ?h" using db_valid [OF p q(1)] by (simp add: db_put_handle_def upd_dbh_def)
  ultimately show ?thesis by (intro exI [of _ ?h]) simp
qed

lemma db_put_null_breaks:
  assumes "db_pool h ps"
  shows "\<exists>h'. db_put_handle NULL h = Some h' \<and> \<not> db_pool h' ps"
  using assms by (simp add: db_put_handle_def db_pool_def idle_handles_def)

section \<open>Setting the pool up\<close>

text \<open>A server that accepts every connection; the library keeps what it knows in a part of the state of its own.\<close>

definition mysql_up :: "'a dbs_scheme mysql_api \<Rightarrow> bool" where
  "mysql_up api \<longleftrightarrow>
     (\<forall>h. \<exists>m f. mysql_init api h = (m, dbs.more_update f h) \<and> m \<noteq> NULL) \<and>
     (\<forall>m svr h. \<exists>f. mysql_real_connect api m svr h = (True, dbs.more_update f h)) \<and>
     (\<forall>m sql h. \<exists>ret f. mysql_real_query api m sql h = (ret, dbs.more_update f h))"

lemma db_connect_up:
  assumes "mysql_up api"
  shows "\<exists>m f. db_connect_init api svr h = (OK, m, dbs.more_update f h) \<and> m \<noteq> NULL"
proof -
  obtain m f1 where 1: "mysql_init api h = (m, dbs.more_update f1 h)" "m \<noteq> NULL"
    using assms unfolding mysql_up_def by blast
  let ?h1 = "dbs.more_update f1 h"
  obtain f2 where 2: "mysql_real_connect api m svr ?h1 = (True, dbs.more_update f2 ?h1)"
    using assms unfolding mysql_up_def by blast
  let ?h2 = "dbs.more_update f2 ?h1"
  obtain r3 f3 where 3: "mysql_real_query api m SET_NAMES ?h2 = (r3, dbs.more_update f3 ?h2)"
    using assms unfolding mysql_up_def by blast
  let ?h3 = "dbs.more_update f3 ?h2"
  obtain r4 f4 where 4: "mysql_real_query api m ''SET CHARACTER SET utf8'' ?h3 = (r4, dbs.more_update f4 ?h3)"
    using assms unfolding mysql_up_def by blast
  have "dbs.more_update f4 ?h3 = dbs.more_update (\<lambda>x. f4 (f3 (f2 (f1 x)))) h" by (cases h) simp
  then have "db_connect_init api svr h = (OK, m, dbs.more_update (\<lambda>x. f4 (f3 (f2 (f1 x)))) h)"
    using 1 2 3 4 by (simp add: db_connect_init_def del: dbs.simps)
  then show ?thesis using 1(2) by blast
qed

lemma dbs_linked [simp]:
  "dbh (linked a x n h) = dbh h" "db_list (linked a x n h) = db_list h" "db_count (linked a x n h) = db_count h"
  by (cases h; simp add: linked_def)+

lemma dbs_more_eq: "heap.more h' = heap.more h \<Longrightarrow> dbh h' = dbh h \<and> db_list h' = db_list h"
  by (cases h; cases h') simp

definition ready :: "'a dbs_scheme \<Rightarrow> ptr list \<Rightarrow> bool" where
  "ready h ps \<longleftrightarrow> heap_ok h \<and> oom h = [] \<and> dlist h (db_list h) ps \<and> (\<forall>p \<in> set ps. db_st (dbh h p) = DB_HANDLE_IDLE)"

lemma db_init_one:
  assumes up: "mysql_up api" and r: "ready h ps"
  shows "\<exists>h' p. db_init_handles api svr (Suc n) h = db_init_handles api svr n h' \<and> ready h' (p # ps)"
proof -
  have h: "heap_ok h" "oom h = []" "dlist h (db_list h) ps" "\<forall>p \<in> set ps. db_st (dbh h p) = DB_HANDLE_IDLE"
    using r by (simp_all add: ready_def)
  have o: "\<not> next_oom h" using h(2) by (simp add: next_oom_def)
  obtain h1 where h1: "mem_malloc h = (brk h, h1)" "valid h1 (brk h)" "heap_ok h1" "oom h1 = tl (oom h)"
    "heap.more h1 = heap.more h" "brk h \<noteq> NULL" "\<And>kk zs. dlist h kk zs \<Longrightarrow> dlist h1 kk zs \<and> brk h \<notin> set (kk # zs)"
    by (rule mem_malloc_node [OF h(1) o]) (rule that)
  let ?p = "brk h" and ?l = "db_list h"
  have e1: "dbh h1 = dbh h" "db_list h1 = ?l" using dbs_more_eq [OF h1(5)] by auto
  define h2 where "h2 = h1\<lparr>dbh := (dbh h1)(?p := zero_dbh)\<rparr>"
  obtain m f where c: "db_connect_init api svr h2 = (OK, m, dbs.more_update f h2)" using db_connect_up [OF up] by blast
  define h3 where "h3 = dbs.more_update f h2"
  define h4 where "h4 = h3\<lparr>dbh := (dbh h3)(?p := (zero_dbh\<lparr>mysql := m\<rparr>)\<lparr>db_st := DB_HANDLE_IDLE\<rparr>)\<rparr>"
  have s4: "live h4 = live h1" "nxt h4 = nxt h1" "prv h4 = prv h1" "brk h4 = brk h1" "oom h4 = oom h1" "db_list h4 = ?l"
    "dbh h4 = (dbh h)(?p := (zero_dbh\<lparr>mysql := m\<rparr>)\<lparr>db_st := DB_HANDLE_IDLE\<rparr>)"
    by (simp_all add: h4_def h3_def h2_def e1)
  have d4: "dlist h4 ?l ps" and n4: "?p \<notin> set (?l # ps)" using h1(7) [OF h(3)] dlist_cong [OF s4(2,3,1)] by blast+
  have v4: "valid h4 ?p" using h1(2) s4(1) by (simp add: valid_def)
  obtain k where a: "lib_list_add ?p ?l h4 = Some (linked ?l ?p k h4)" "dlist (linked ?l ?p k h4) ?l (?p # ps)"
    by (rule lib_list_add_ok [OF d4 v4 n4])
  have u1: "upd_dbh ?p (\<lambda>d. d\<lparr>mysql := m\<rparr>) h3 = Some (h3\<lparr>dbh := (dbh h3)(?p := zero_dbh\<lparr>mysql := m\<rparr>)\<rparr>)"
    using h1(2) by (simp add: upd_dbh_def h3_def h2_def valid_def)
  have u2: "upd_dbh ?p (\<lambda>d. d\<lparr>db_st := DB_HANDLE_IDLE\<rparr>) (h3\<lparr>dbh := (dbh h3)(?p := zero_dbh\<lparr>mysql := m\<rparr>)\<rparr>) = Some h4"
    using h1(2) by (simp add: upd_dbh_def h4_def h3_def h2_def valid_def)
  have "db_init_handles api svr (Suc n) h = db_init_handles api svr n (linked ?l ?p k h4)"
    using h1(1,6) c u1 u2 a(1) s4(6) by (simp add: h2_def [symmetric] h3_def [symmetric] OK_def Let_def)
  moreover have "ready (linked ?l ?p k h4) (?p # ps)"
    using a(2) s4 h h1(3,4) n4 by (auto simp: ready_def heap_ok_def)
  ultimately show ?thesis by blast
qed

lemma db_init_handles_ok:
  assumes "mysql_up api"
  shows "ready h ps \<Longrightarrow> \<exists>h' qs. db_init_handles api svr n h = Some (True, h') \<and> length qs = n \<and> ready h' (qs @ ps)"
proof (induction n arbitrary: h ps)
  case (Suc n)
  obtain h1 p where h1: "db_init_handles api svr (Suc n) h = db_init_handles api svr n h1" "ready h1 (p # ps)"
    using db_init_one [OF assms Suc.prems] by blast
  obtain h' qs where "db_init_handles api svr n h1 = Some (True, h')" "length qs = n" "ready h' (qs @ p # ps)"
    using Suc.IH [OF h1(2)] by blast
  then show ?case using h1(1) by (intro exI [of _ h'] exI [of _ "qs @ [p]"]) simp
qed simp

text \<open>With a server that answers, the pool starts with as many idle handles as asked for.\<close>

lemma db_pool_init_ok:
  assumes "mysql_up api" "heap_ok h" "oom h = []" "valid h (db_list h)" "0 < n"
  shows "\<exists>h' ps. db_pool_init api 0 0 svr n h = Some (OK, h') \<and> db_pool h' ps \<and> idle_handles h' ps = ps \<and> int (length ps) = n"
proof -
  let ?l = "db_list h"
  let ?h1 = "h\<lparr>nxt := (nxt h)(?l := ?l), prv := (prv h)(?l := ?l)\<rparr>"
  have i: "INIT_LIB_LIST ?l h = Some ?h1" using assms(4) by (rule INIT_LIB_LIST_ok)
  have "ready ?h1 []" using assms by (simp add: ready_def dlist_def)
  then obtain h2 ps where h2: "db_init_handles api svr (nat n) ?h1 = Some (True, h2)" "length ps = nat n" "ready h2 ps"
    using db_init_handles_ok [OF assms(1), of ?h1 "[]" svr "nat n"] by auto
  let ?h = "h2\<lparr>db_sem := n, db_count := n\<rparr>"
  have ev: "db_pool_init api 0 0 svr n h = Some (OK, ?h)" using i h2(1) by (simp add: db_pool_init_def)
  have id: "idle_handles ?h ps = ps" using h2(3) by (auto simp: idle_handles_def ready_def filter_id_conv)
  have "dlist ?h (db_list ?h) ps" by (rule db_pool_cong [of h2]) (use h2(3) in \<open>simp_all add: ready_def\<close>)
  then have "db_pool ?h ps" using h2(2,3) id assms(5) by (auto simp: db_pool_def ready_def)
  then show ?thesis using ev id h2(2) assms(5) by (intro exI [of _ ?h] exI [of _ ps]) simp
qed

end
