(* ===== verification/LibThread.thy ===== *)
theory LibThread imports LibIo begin

text \<open>
  \<open>Server/Lib/lib-thread.c\<close>: the pool of worker threads. The theory has the pool's data and the parts of
  its functions that run under its lock; LibThreadSteps interleaves a dispatcher, the workers and the
  shutdown. What the thread library returns is an argument, and the conditions that are signalled are
  logged in \<open>signals\<close>.

  A \<open>thread_pool_t\<close> at address \<open>p\<close> has its list heads \<open>idle_list\<close> at \<open>p + 1\<close> and \<open>busy_list\<close> at \<open>p + 2\<close>.
  All threads of the pool are on the first, idle or not; their state says which.
\<close>

section \<open>State\<close>

record thread_item =
  pfunc :: nat
  th_arg1 :: ptr
  th_arg2 :: ptr
  th_file :: string
  th_line :: int
  th_state :: "32 word"
  th_pool :: ptr

record thread_pool =
  threads_num :: int
  max_threads :: int
  idle_threads :: int
  is_shutdown :: int
  tp_init :: bool

datatype thread_signal = mIdleCond ptr | mFullCond ptr | mEmptyCond ptr | thread_cond ptr

record threads = heap +
  thd :: "ptr \<Rightarrow> thread_item"
  tpool :: "ptr \<Rightarrow> thread_pool"
  global_thread_pool :: ptr
  signals :: "thread_signal list"

text \<open>What the thread library answers when a thread is created.\<close>

record thread_answers =
  get_stack_rc :: int
  old_size :: int
  set_stack_rc :: int
  create_rc :: int

definition THD_STATE_BUSY :: "32 word" where "THD_STATE_BUSY = 1"
definition MIN_THREAD_STACK_SIZE :: int where "MIN_THREAD_STACK_SIZE = 2 ^ 17"
definition THD_MAX_PATH :: nat where "THD_MAX_PATH = 256"

abbreviation idle_list :: "ptr \<Rightarrow> ptr" where "idle_list p \<equiv> p + 1"
abbreviation busy_list :: "ptr \<Rightarrow> ptr" where "busy_list p \<equiv> p + 2"

definition get_thd :: "ptr \<Rightarrow> 'a threads_scheme \<Rightarrow> thread_item option" where
  "get_thd t h = (if valid h t then Some (thd h t) else None)"

definition upd_thd :: "ptr \<Rightarrow> (thread_item \<Rightarrow> thread_item) \<Rightarrow> 'a threads_scheme \<Rightarrow> 'a threads_scheme option" where
  "upd_thd t f h = (if valid h t then Some (h\<lparr>thd := (thd h)(t := f (thd h t))\<rparr>) else None)"

definition get_tp :: "ptr \<Rightarrow> 'a threads_scheme \<Rightarrow> thread_pool option" where
  "get_tp p h = (if valid h p then Some (tpool h p) else None)"

definition upd_tp :: "ptr \<Rightarrow> (thread_pool \<Rightarrow> thread_pool) \<Rightarrow> 'a threads_scheme \<Rightarrow> 'a threads_scheme option" where
  "upd_tp p f h = (if valid h p then Some (h\<lparr>tpool := (tpool h)(p := f (tpool h p))\<rparr>) else None)"

definition signal :: "thread_signal \<Rightarrow> 'a threads_scheme \<Rightarrow> 'a threads_scheme" where
  "signal s h = h\<lparr>signals := signals h @ [s]\<rparr>"

section \<open>Threads of a pool\<close>

definition is_thread_busy :: "thread_item \<Rightarrow> bool" where "is_thread_busy t = is_bit_set (th_state t) THD_STATE_BUSY"
definition is_thread_idle :: "thread_item \<Rightarrow> bool" where "is_thread_idle t = (\<not> is_bit_set (th_state t) THD_STATE_BUSY)"
definition set_thread_idle :: "thread_item \<Rightarrow> thread_item" where
  "set_thread_idle t = t\<lparr>th_state := lib_unset_bit (th_state t) THD_STATE_BUSY\<rparr>"
definition set_thread_busy :: "thread_item \<Rightarrow> thread_item" where
  "set_thread_busy t = t\<lparr>th_state := lib_set_bit (th_state t) THD_STATE_BUSY\<rparr>"

definition IS_NO_IDLE_AND_EXCEED_LIMIT :: "thread_pool \<Rightarrow> bool" where
  "IS_NO_IDLE_AND_EXCEED_LIMIT p \<longleftrightarrow> idle_threads p \<le> 0 \<and> max_threads p \<le> threads_num p"

definition IS_NO_IDLE_AND_BELOW_LIMIT :: "thread_pool \<Rightarrow> bool" where
  "IS_NO_IDLE_AND_BELOW_LIMIT p \<longleftrightarrow> idle_threads p \<le> 0 \<and> threads_num p < max_threads p"

definition IS_IDLE :: "thread_pool \<Rightarrow> bool" where "IS_IDLE p \<longleftrightarrow> 0 < idle_threads p"

definition get_thread_pool :: "'a threads_scheme \<Rightarrow> ptr" where "get_thread_pool h = global_thread_pool h"

definition thread_insert_new :: "ptr \<Rightarrow> ptr \<Rightarrow> 'a threads_scheme \<Rightarrow> 'a threads_scheme option" where
  "thread_insert_new p t h = do {
     h \<leftarrow> lib_list_add t (idle_list p) h;
     upd_tp p (\<lambda>tp. tp\<lparr>threads_num := c_int (threads_num tp + 1)\<rparr>) h }"

definition thread_remove_new :: "ptr \<Rightarrow> ptr \<Rightarrow> 'a threads_scheme \<Rightarrow> 'a threads_scheme option" where
  "thread_remove_new p t h = do {
     h \<leftarrow> lib_list_del t h;
     upd_tp p (\<lambda>tp. tp\<lparr>threads_num := c_int (threads_num tp - 1)\<rparr>) h }"

definition thread_put_idle :: "ptr \<Rightarrow> 'a threads_scheme \<Rightarrow> 'a threads_scheme option" where
  "thread_put_idle t h = do {
     h \<leftarrow> upd_thd t set_thread_idle h;
     th \<leftarrow> get_thd t h;
     upd_tp (th_pool th) (\<lambda>tp. tp\<lparr>idle_threads := c_int (idle_threads tp + 1)\<rparr>) h }"

definition idle_body :: "ptr \<Rightarrow> ptr \<Rightarrow> 'a threads_scheme \<Rightarrow> ptr \<Rightarrow> ('a threads_scheme \<times> ptr \<times> bool) option" where
  "idle_body p t h found = do {
     th \<leftarrow> get_thd t h;
     if is_thread_idle th
     then do {
       h \<leftarrow> upd_thd t set_thread_busy h;
       h \<leftarrow> upd_tp p (\<lambda>tp. tp\<lparr>idle_threads := c_int (idle_threads tp - 1)\<rparr>) h;
       Some (h, t, True) }
     else Some (h, found, False) }"

definition thread_get_idle :: "ptr \<Rightarrow> 'a threads_scheme \<Rightarrow> (ptr \<times> 'a threads_scheme) option" where
  "thread_get_idle p h = do {
     (h, t) \<leftarrow> lib_list_for_each (idle_body p) (idle_list p) h NULL;
     Some (t, h) }"

definition thread_put_busy :: "ptr \<Rightarrow> 'a threads_scheme \<Rightarrow> (ptr \<times> 'a threads_scheme) option" where
  "thread_put_busy t h = do { h \<leftarrow> upd_thd t set_thread_busy h; Some (t, h) }"

definition thread_pop_busy :: "ptr \<Rightarrow> ptr" where
  "thread_pop_busy t = t"

definition reclaim_thread :: "ptr \<Rightarrow> ptr \<Rightarrow> 'a threads_scheme \<Rightarrow> (int \<times> 'a threads_scheme) option" where
  "reclaim_thread p t h = do {
     tp \<leftarrow> get_tp p h;
     if idle_threads tp < max_threads tp
     then do {
       h \<leftarrow> thread_put_idle t h;
       tp \<leftarrow> get_tp p h;
       let h = (if threads_num tp \<le> idle_threads tp then signal (mFullCond p) h else h);
       Some (OK, signal (mIdleCond p) h) }
     else Some (ERROR, signal (mIdleCond p) h) }"

text \<open>The end of a thread that was not taken back, lines 166 to 173.\<close>

definition thread_retire :: "ptr \<Rightarrow> 'a threads_scheme \<Rightarrow> 'a threads_scheme option" where
  "thread_retire t h = do {
     th \<leftarrow> get_thd t h;
     h \<leftarrow> thread_remove_new (th_pool th) t h;
     mem_free t h }"

text \<open>The last lines of a thread that leaves its loop because of the shutdown.\<close>

definition thread_leave :: "ptr \<Rightarrow> 'a threads_scheme \<Rightarrow> 'a threads_scheme option" where
  "thread_leave p h = do {
     tp \<leftarrow> get_tp p h;
     Some (if threads_num tp \<le> 0 then signal (mEmptyCond p) h else h) }"

section \<open>Dispatching a job\<close>

text \<open>
  Both dispatch functions are the same but for the pool. A dispatch that finds no idle thread and the
  limit reached sleeps on \<open>mIdleCond\<close>. Otherwise it returns, and a thread was started for the job, an idle
  one was woken, or nobody has it.
\<close>

datatype worker = Nobody | Started ptr | Woken ptr

datatype dispatch_result = DispatchSleeps | Dispatched int worker

definition new_thread ::
  "thread_answers \<Rightarrow> ptr \<Rightarrow> nat \<Rightarrow> ptr \<Rightarrow> ptr \<Rightarrow> string \<Rightarrow> int \<Rightarrow> 'a threads_scheme \<Rightarrow> (dispatch_result \<times> 'a threads_scheme) option"
where
  "new_thread ans p pfun arg1 arg2 path l h = do {
     let (t, h) = mem_malloc h;
     _ \<leftarrow> lib_assert (t \<noteq> NULL);
     let h = h\<lparr>thd := (thd h)(t := \<lparr>pfunc = pfun, th_arg1 = arg1, th_arg2 = arg2, th_file = take THD_MAX_PATH path,
              th_line = l, th_state = 0, th_pool = p\<rparr>)\<rparr>;
     h \<leftarrow> INIT_LIB_LIST t h;
     if get_stack_rc ans \<noteq> 0 then Some (Dispatched 0 Nobody, h)
     else if MIN_THREAD_STACK_SIZE < old_size ans \<and> set_stack_rc ans \<noteq> 0 then Some (Dispatched 0 Nobody, h)
     else do {
       h \<leftarrow> upd_thd t set_thread_busy h;
       h \<leftarrow> thread_insert_new p t h;
       if create_rc ans = 0 then Some (Dispatched 0 (Started t), h)
       else do {
         h \<leftarrow> thread_remove_new p t h;
         h \<leftarrow> mem_free t h;
         Some (Dispatched (- 1) Nobody, h) } } }"

definition assign_idle ::
  "ptr \<Rightarrow> nat \<Rightarrow> ptr \<Rightarrow> ptr \<Rightarrow> string \<Rightarrow> int \<Rightarrow> 'a threads_scheme \<Rightarrow> (dispatch_result \<times> 'a threads_scheme) option"
where
  "assign_idle p pfun arg1 arg2 path l h = do {
     (t, h) \<leftarrow> thread_get_idle p h;
     if t = NULL then Some (Dispatched 0 Nobody, h)
     else do {
       h \<leftarrow> upd_thd t (\<lambda>th. th\<lparr>pfunc := pfun, th_arg1 := arg1, th_arg2 := arg2, th_file := take THD_MAX_PATH path,
              th_line := l, th_pool := p\<rparr>) h;
       Some (Dispatched 0 (Woken t), signal (thread_cond t) h) } }"

definition thread_dispatch_with_tp ::
  "thread_answers \<Rightarrow> nat \<Rightarrow> ptr \<Rightarrow> ptr \<Rightarrow> ptr \<Rightarrow> string \<Rightarrow> int \<Rightarrow> 'a threads_scheme \<Rightarrow> (dispatch_result \<times> 'a threads_scheme) option"
where
  "thread_dispatch_with_tp ans pfun arg1 arg2 p path l h = do {
     _ \<leftarrow> lib_assert (p \<noteq> NULL);
     tp \<leftarrow> get_tp p h;
     if IS_NO_IDLE_AND_EXCEED_LIMIT tp then Some (DispatchSleeps, h)
     else if IS_NO_IDLE_AND_BELOW_LIMIT tp then new_thread ans p pfun arg1 arg2 path l h
     else if IS_IDLE tp then assign_idle p pfun arg1 arg2 path l h
     else Some (Dispatched 0 Nobody, h) }"

definition thread_dispatch ::
  "thread_answers \<Rightarrow> nat \<Rightarrow> ptr \<Rightarrow> ptr \<Rightarrow> string \<Rightarrow> int \<Rightarrow> 'a threads_scheme \<Rightarrow> (dispatch_result \<times> 'a threads_scheme) option"
where
  "thread_dispatch ans pfun arg1 arg2 path l h =
     thread_dispatch_with_tp ans pfun arg1 arg2 (get_thread_pool h) path l h"

section \<open>Creating and freeing a pool\<close>

text \<open>The default for a limit that is not positive is overwritten by the next line.\<close>

definition create_thread_pool :: "ptr \<Rightarrow> int \<Rightarrow> 'a threads_scheme \<Rightarrow> (int \<times> 'a threads_scheme) option" where
  "create_thread_pool p max_thread h =
     (if p = NULL then Some (ERROR, h)
      else do {
        tp \<leftarrow> get_tp p h;
        if tp_init tp then Some (ERROR, h)
        else do {
          h \<leftarrow> (if max_thread \<le> 0 then upd_tp p (\<lambda>tp. tp\<lparr>max_threads := 2\<rparr>) h else Some h);
          h \<leftarrow> upd_tp p (\<lambda>tp. tp\<lparr>max_threads := max_thread\<rparr>) h;
          h \<leftarrow> upd_tp p (\<lambda>tp. tp\<lparr>idle_threads := 0, threads_num := 0, is_shutdown := 0\<rparr>) h;
          h \<leftarrow> INIT_LIB_LIST (idle_list p) h;
          h \<leftarrow> INIT_LIB_LIST (busy_list p) h;
          h \<leftarrow> upd_tp p (\<lambda>tp. tp\<lparr>tp_init := True\<rparr>) h;
          Some (OK, h) } })"

definition free_thread_idle_list :: "ptr \<Rightarrow> 'a threads_scheme \<Rightarrow> 'a threads_scheme option" where
  "free_thread_idle_list t h = (if t = NULL then Some h else mem_free t h)"

text \<open>
  \<open>free_thread_pool\<close> in the pieces between its two waits: the shutdown is announced (\<open>True\<close>: it waits for
  \<open>mFullCond\<close>), every thread is signalled (\<open>True\<close>: it waits for \<open>mEmptyCond\<close>), and the rest is freed.
\<close>

definition shutdown_begin :: "ptr \<Rightarrow> 'a threads_scheme \<Rightarrow> (bool \<times> 'a threads_scheme) option" where
  "shutdown_begin p h = do {
     h \<leftarrow> upd_tp p (\<lambda>tp. tp\<lparr>is_shutdown := 1\<rparr>) h;
     tp \<leftarrow> get_tp p h;
     Some (idle_threads tp < threads_num tp, h) }"

definition shutdown_wake :: "ptr \<Rightarrow> 'a threads_scheme \<Rightarrow> (bool \<times> 'a threads_scheme) option" where
  "shutdown_wake p h = do {
     (h, _) \<leftarrow> lib_list_for_each_safe
       (\<lambda>t h (_ :: unit). if t \<noteq> NULL then Some (signal (thread_cond t) h, (), False) else Some (h, (), False)) (idle_list p) h ();
     tp \<leftarrow> get_tp p h;
     Some (0 < threads_num tp, h) }"

definition shutdown_end :: "ptr \<Rightarrow> 'a threads_scheme \<Rightarrow> 'a threads_scheme option" where
  "shutdown_end p h = do {
     h \<leftarrow> lib_list_free free_thread_idle_list (idle_list p) h;
     upd_tp p (\<lambda>tp. tp\<lparr>idle_threads := 0, tp_init := False\<rparr>) h }"

text \<open>With nothing to wait for the three follow each other; \<open>None\<close> as the first component stands for a wait.\<close>

definition free_thread_pool :: "ptr \<Rightarrow> 'a threads_scheme \<Rightarrow> (unit option \<times> 'a threads_scheme) option" where
  "free_thread_pool p h =
     (if p = NULL then Some (Some (), h)
      else do {
        tp \<leftarrow> get_tp p h;
        if \<not> tp_init tp then Some (Some (), h)
        else do {
          (waits, h) \<leftarrow> shutdown_begin p h;
          if waits then Some (None, h)
          else do {
            (waits, h) \<leftarrow> shutdown_wake p h;
            if waits then Some (None, h)
            else do { h \<leftarrow> shutdown_end p h; Some (Some (), h) } } } })"

definition get_max_threads :: "'a threads_scheme \<Rightarrow> int option" where
  "get_max_threads h = do { tp \<leftarrow> get_tp (get_thread_pool h) h; Some (max_threads tp) }"

text \<open>The rows \<open>thread_pool_dump\<close> prints: number, the list it is on, file and line.\<close>

definition dump_rows :: "string \<Rightarrow> ptr \<Rightarrow> 'a threads_scheme \<Rightarrow> (int \<times> string \<times> string \<times> int) list \<Rightarrow>
  ('a threads_scheme \<times> (int \<times> string \<times> string \<times> int) list) option"
where
  "dump_rows st hh h rows = lib_list_for_each_safe
     (\<lambda>t h rows. do { th \<leftarrow> get_thd t h; Some (h, rows @ [(int (length rows) + 1, st, th_file th, th_line th)], False) }) hh h rows"

definition thread_pool_dump :: "'a threads_scheme \<Rightarrow> (int \<times> string \<times> string \<times> int) list option" where
  "thread_pool_dump h = do {
     let p = get_thread_pool h;
     (h, rows) \<leftarrow> dump_rows ''idle'' (idle_list p) h [];
     (_, rows) \<leftarrow> dump_rows ''busy'' (busy_list p) h rows;
     Some rows }"

definition thread_pool_init :: "int \<Rightarrow> 'a threads_scheme \<Rightarrow> (int \<times> 'a threads_scheme) option" where
  "thread_pool_init max_thread h = create_thread_pool (get_thread_pool h) max_thread h"

definition zero_pool :: thread_pool where
  "zero_pool = \<lparr>threads_num = 0, max_threads = 0, idle_threads = 0, is_shutdown = 0, tp_init = False\<rparr>"

definition thread_pool_new :: "int \<Rightarrow> 'a threads_scheme \<Rightarrow> (ptr \<times> 'a threads_scheme) option" where
  "thread_pool_new max_thread h = do {
     let (p, h) = mem_malloc_array 3 h;
     _ \<leftarrow> lib_assert (p \<noteq> NULL);
     let h = h\<lparr>tpool := (tpool h)(p := zero_pool)\<rparr>;
     (ret, h) \<leftarrow> create_thread_pool p max_thread h;
     Some (if ret \<noteq> 0 then NULL else p, h) }"

definition thread_pool_finl :: "'a threads_scheme \<Rightarrow> (int option \<times> 'a threads_scheme) option" where
  "thread_pool_finl h = do {
     (done, h) \<leftarrow> free_thread_pool (get_thread_pool h) h;
     Some (case done of None \<Rightarrow> None | Some _ \<Rightarrow> Some OK, h) }"

definition monitor_threads_num :: "'a threads_scheme \<Rightarrow> int option" where
  "monitor_threads_num h = do { tp \<leftarrow> get_tp (get_thread_pool h) h; Some (threads_num tp) }"

end
