(* ===== verification/LibThreadSteps.thy ===== *)
theory LibThreadSteps imports LibThread begin

text \<open>
  The thread pool of \<open>Server/Lib/lib-thread.c\<close> with its dispatcher, its workers and its shutdown
  interleaved. A worker runs \<open>thread_wrapper\<close>; its position in that function is its \<open>pc\<close>. The pool's lock
  makes each of the steps atomic, and between the two waits of \<open>free_thread_pool\<close> the lock is held. A wait
  for a condition ends when the condition is signalled, or by itself, as POSIX allows: the three \<open>stray\<close> steps
  are the waits of the code that do not look again, and \<open>strays\<close> counts these steps. The wait of the dispatcher is
  in a \<open>while\<close> loop, so a return without a signal does nothing there.
\<close>

section \<open>The step relation\<close>

datatype worker_pc = AtTest | InJob | Reclaiming | Sleeping | Leaving | Ended

datatype shutdown_pc = Running | WaitFull | ToWake | WaitEmpty | ToEnd | Closed

record tsys =
  th :: threads
  pc :: "ptr \<Rightarrow> worker_pc"
  shut :: shutdown_pc
  strays :: nat

definition lock_free :: "tsys \<Rightarrow> bool" where
  "lock_free s \<longleftrightarrow> shut s \<notin> {ToWake, ToEnd}"

text \<open>The signals sent from one state to the next, and the shutdown that waits for one of them.\<close>

definition sent_since :: "threads \<Rightarrow> threads \<Rightarrow> thread_signal list" where
  "sent_since h h' = drop (length (signals h)) (signals h')"

definition heard :: "ptr \<Rightarrow> thread_signal list \<Rightarrow> shutdown_pc \<Rightarrow> shutdown_pc" where
  "heard p sigs u =
     (if u = WaitFull \<and> mFullCond p \<in> set sigs then ToWake
      else if u = WaitEmpty \<and> mEmptyCond p \<in> set sigs then ToEnd else u)"

definition woken :: "thread_signal list \<Rightarrow> (ptr \<Rightarrow> worker_pc) \<Rightarrow> ptr \<Rightarrow> worker_pc" where
  "woken sigs pcs t = (if pcs t = Sleeping \<and> thread_cond t \<in> set sigs then AtTest else pcs t)"

definition begun :: "worker \<Rightarrow> (ptr \<Rightarrow> worker_pc) \<Rightarrow> ptr \<Rightarrow> worker_pc" where
  "begun w pcs = (case w of Started t \<Rightarrow> pcs(t := AtTest) | _ \<Rightarrow> pcs)"

inductive tp_step :: "ptr \<Rightarrow> tsys \<Rightarrow> tsys \<Rightarrow> bool" for p where
  dispatch: "\<lbrakk> lock_free s; thread_dispatch_with_tp ans f a b p path l (th s) = Some (Dispatched r w, h) \<rbrakk> \<Longrightarrow>
     tp_step p s (s\<lparr>th := h, pc := begun w (woken (sent_since (th s) h) (pc s))\<rparr>)"
| test: "\<lbrakk> pc s t = AtTest; get_tp p (th s) = Some tp \<rbrakk> \<Longrightarrow>
     tp_step p s (s\<lparr>pc := (pc s)(t := if is_shutdown tp \<noteq> 0 then Leaving else InJob)\<rparr>)"
| job: "pc s t = InJob \<Longrightarrow> tp_step p s (s\<lparr>pc := (pc s)(t := Reclaiming)\<rparr>)"
| reclaimed: "\<lbrakk> pc s t = Reclaiming; lock_free s; reclaim_thread p t (th s) = Some (r, h); r = OK \<rbrakk> \<Longrightarrow>
     tp_step p s (s\<lparr>th := h, pc := (pc s)(t := Sleeping), shut := heard p (sent_since (th s) h) (shut s)\<rparr>)"
| retired: "\<lbrakk> pc s t = Reclaiming; lock_free s; reclaim_thread p t (th s) = Some (r, h); r \<noteq> OK;
     thread_retire t h = Some h' \<rbrakk> \<Longrightarrow>
     tp_step p s (s\<lparr>th := h', pc := (pc s)(t := Ended), shut := heard p (sent_since (th s) h') (shut s)\<rparr>)"
| leave: "\<lbrakk> pc s t = Leaving; thread_leave p (th s) = Some h \<rbrakk> \<Longrightarrow>
     tp_step p s (s\<lparr>th := h, pc := (pc s)(t := Ended), shut := heard p (sent_since (th s) h) (shut s)\<rparr>)"
| shut_begin: "\<lbrakk> shut s = Running; shutdown_begin p (th s) = Some (waits, h) \<rbrakk> \<Longrightarrow>
     tp_step p s (s\<lparr>th := h, shut := (if waits then WaitFull else ToWake)\<rparr>)"
| shut_wake: "\<lbrakk> shut s = ToWake; shutdown_wake p (th s) = Some (waits, h) \<rbrakk> \<Longrightarrow>
     tp_step p s (s\<lparr>th := h, pc := woken (sent_since (th s) h) (pc s), shut := (if waits then WaitEmpty else ToEnd)\<rparr>)"
| shut_end: "\<lbrakk> shut s = ToEnd; shutdown_end p (th s) = Some h \<rbrakk> \<Longrightarrow> tp_step p s (s\<lparr>th := h, shut := Closed\<rparr>)"
| stray_full: "shut s = WaitFull \<Longrightarrow> tp_step p s (s\<lparr>shut := ToWake, strays := Suc (strays s)\<rparr>)"
| stray_empty: "shut s = WaitEmpty \<Longrightarrow> tp_step p s (s\<lparr>shut := ToEnd, strays := Suc (strays s)\<rparr>)"
| stray_worker: "pc s t = Sleeping \<Longrightarrow> tp_step p s (s\<lparr>pc := (pc s)(t := AtTest), strays := Suc (strays s)\<rparr>)"

inductive tp_reach :: "ptr \<Rightarrow> tsys \<Rightarrow> tsys \<Rightarrow> bool" for p s where
  start: "tp_reach p s s"
| further: "tp_reach p s t \<Longrightarrow> tp_step p t u \<Longrightarrow> tp_reach p s u"

inductive_cases tp_stepE: "tp_step p s t"

definition tp_start :: "threads \<Rightarrow> tsys" where
  "tp_start h = \<lparr>th = h, pc = (\<lambda>_. Ended), shut = Running, strays = 0\<rparr>"

section \<open>The pool's data\<close>

definition idle_in :: "threads \<Rightarrow> ptr list \<Rightarrow> ptr list" where
  "idle_in h ts = filter (\<lambda>t. is_thread_idle (thd h t)) ts"

definition tp_rep :: "threads \<Rightarrow> ptr \<Rightarrow> ptr list \<Rightarrow> bool" where
  "tp_rep h p ts \<longleftrightarrow> valid h p \<and> p \<notin> set ts \<and> dlist h (idle_list p) ts \<and> heap_ok h \<and>
     threads_num (tpool h p) = int (length ts) \<and> idle_threads (tpool h p) = int (length (idle_in h ts)) \<and>
     int (length ts) \<le> max_threads (tpool h p) \<and> max_threads (tpool h p) < 2 ^ 31 \<and>
     (\<forall>t \<in> set ts. th_pool (thd h t) = p)"

lemma thread_bits [simp]:
  "is_thread_idle (set_thread_busy t) = False" "is_thread_idle (set_thread_idle t) = True"
  "th_pool (set_thread_busy t) = th_pool t" "th_pool (set_thread_idle t) = th_pool t"
proof -
  have "(x OR 1) AND 1 = (1 :: 32 word)" "(x AND NOT 1) AND 1 = (0 :: 32 word)" for x :: "32 word"
    by (rule bit_eqI; auto simp: bit_simps)+
  then show "is_thread_idle (set_thread_busy t) = False" "is_thread_idle (set_thread_idle t) = True"
    by (simp_all add: is_thread_idle_def set_thread_busy_def set_thread_idle_def is_bit_set_def lib_set_bit_def
        lib_unset_bit_def THD_STATE_BUSY_def)
qed (simp_all add: set_thread_busy_def set_thread_idle_def)

lemma tp_rep_facts:
  assumes "tp_rep h p ts"
  shows "valid h p" "p \<notin> set ts" "dlist h (idle_list p) ts" "heap_ok h" "threads_num (tpool h p) = int (length ts)"
    "idle_threads (tpool h p) = int (length (idle_in h ts))" "int (length ts) \<le> max_threads (tpool h p)"
    "max_threads (tpool h p) < 2 ^ 31" "distinct ts" "p \<noteq> NULL" "length (idle_in h ts) \<le> length ts"
    "int (length ts) < 2 ^ 31"
  using assms by (auto simp: tp_rep_def dlist_def idle_in_def dest: valid_pos)

lemma tp_member: "tp_rep h p ts \<Longrightarrow> t \<in> set ts \<Longrightarrow> valid h t \<and> th_pool (thd h t) = p \<and> t \<noteq> p \<and> t \<noteq> NULL"
  by (auto simp: tp_rep_def dlist_def dest: valid_pos)

text \<open>What a change of one thread's state does to the number of idle ones.\<close>

lemma idle_in_upd:
  assumes "distinct ts" and "t \<in> set ts"
  shows "is_thread_idle x \<Longrightarrow> \<not> is_thread_idle (thd h t) \<Longrightarrow>
      length (idle_in (h\<lparr>thd := (thd h)(t := x)\<rparr>) ts) = Suc (length (idle_in h ts))"
    and "\<not> is_thread_idle x \<Longrightarrow> is_thread_idle (thd h t) \<Longrightarrow>
      Suc (length (idle_in (h\<lparr>thd := (thd h)(t := x)\<rparr>) ts)) = length (idle_in h ts)"
proof -
  obtain xs ys where ts: "ts = xs @ t # ys" using assms(2) by (meson split_list)
  then have n: "t \<notin> set xs" "t \<notin> set ys" using assms(1) by auto
  have same: "idle_in (h\<lparr>thd := (thd h)(t := x)\<rparr>) zs = idle_in h zs" if "t \<notin> set zs" for zs
    unfolding idle_in_def by (rule filter_cong) (use that in auto)
  have app: "idle_in g (as @ bs) = idle_in g as @ idle_in g bs" for g as bs by (simp add: idle_in_def)
  have cons: "idle_in g (a # bs) = (if is_thread_idle (thd g a) then a # idle_in g bs else idle_in g bs)" for g a bs
    by (simp add: idle_in_def)
  show "is_thread_idle x \<Longrightarrow> \<not> is_thread_idle (thd h t) \<Longrightarrow>
      length (idle_in (h\<lparr>thd := (thd h)(t := x)\<rparr>) ts) = Suc (length (idle_in h ts))"
    and "\<not> is_thread_idle x \<Longrightarrow> is_thread_idle (thd h t) \<Longrightarrow>
      Suc (length (idle_in (h\<lparr>thd := (thd h)(t := x)\<rparr>) ts)) = length (idle_in h ts)"
    by (simp_all add: ts app cons same [OF n(1)] same [OF n(2)])
qed

lemma threads_linked [simp]:
  "thd (linked a b c h) = thd h" "tpool (linked a b c h) = tpool h" "signals (linked a b c h) = signals h"
  "thd (unlinked a b c h) = thd h" "tpool (unlinked a b c h) = tpool h" "signals (unlinked a b c h) = signals h"
  by (simp_all add: linked_def unlinked_def)

lemma threads_more:
  assumes "heap.more h' = heap.more h"
  shows "thd h' = thd h" "tpool h' = tpool h" "signals h' = signals h"
  using assms by (cases h; cases h'; simp)+

text \<open>The pool depends on the links, the threads on the list and the counters only.\<close>

lemma tp_rep_frame:
  assumes r: "tp_rep h p ts" and d: "dlist h' (idle_list p) ts" and v: "valid h' p" "heap_ok h'"
    and t: "\<And>t. t \<in> set ts \<Longrightarrow> thd h' t = thd h t"
    and n: "threads_num (tpool h' p) = threads_num (tpool h p)" "idle_threads (tpool h' p) = idle_threads (tpool h p)"
      "max_threads (tpool h' p) = max_threads (tpool h p)"
  shows "tp_rep h' p ts"
proof -
  have "idle_in h' ts = idle_in h ts" unfolding idle_in_def by (rule filter_cong) (simp_all add: t)
  then show ?thesis using r d v n t by (simp add: tp_rep_def)
qed

lemma dlist_threads [simp]:
  "dlist (h\<lparr>thd := a\<rparr>) hh xs = dlist h hh xs" "dlist (h\<lparr>tpool := b\<rparr>) hh xs = dlist h hh xs"
  "dlist (h\<lparr>signals := c\<rparr>) hh xs = dlist h hh xs"
  by (rule dlist_cong; simp)+

lemma valid_threads [simp]:
  "valid (h\<lparr>thd := a\<rparr>) = valid h" "valid (h\<lparr>tpool := b\<rparr>) = valid h" "valid (h\<lparr>signals := c\<rparr>) = valid h"
  "heap_ok (h\<lparr>thd := a\<rparr>) = heap_ok h" "heap_ok (h\<lparr>tpool := b\<rparr>) = heap_ok h" "heap_ok (h\<lparr>signals := c\<rparr>) = heap_ok h"
  by (simp_all add: valid_def fun_eq_iff heap_ok_def)

lemma signal_simps [simp]:
  "thd (signal x h) = thd h" "tpool (signal x h) = tpool h" "signals (signal x h) = signals h @ [x]"
  "valid (signal x h) = valid h" "heap_ok (signal x h) = heap_ok h" "dlist (signal x h) hh xs = dlist h hh xs"
  by (simp_all add: signal_def)

lemma tp_rep_signal [simp]: "tp_rep (signal x h) p ts = tp_rep h p ts"
  by (simp add: tp_rep_def idle_in_def)

section \<open>What each piece does to the pool\<close>

text \<open>The parts of the state that a piece leaves alone.\<close>

definition keeps :: "ptr \<Rightarrow> ptr set \<Rightarrow> threads \<Rightarrow> threads \<Rightarrow> bool" where
  "keeps p S h h' \<longleftrightarrow> (\<forall>t \<in> S. thd h' t = thd h t) \<and> is_shutdown (tpool h' p) = is_shutdown (tpool h p)"

lemma thread_insert_new_ok:
  assumes r: "tp_rep h p ts" and t: "valid h t" "t \<notin> set ts" "t \<noteq> p" "t \<noteq> idle_list p"
    and i: "\<not> is_thread_idle (thd h t)" "th_pool (thd h t) = p" and room: "int (length ts) < max_threads (tpool h p)"
  shows "\<exists>h'. thread_insert_new p t h = Some h' \<and> tp_rep h' p (t # ts) \<and> thd h' = thd h \<and>
     is_shutdown (tpool h' p) = is_shutdown (tpool h p) \<and> signals h' = signals h \<and> live h' = live h"
proof -
  note f = tp_rep_facts [OF r]
  obtain n where a: "lib_list_add t (idle_list p) h = Some (linked (idle_list p) t n h)"
      "dlist (linked (idle_list p) t n h) (idle_list p) (t # ts)"
    using lib_list_add_ok [OF f(3) t(1)] t(2,4) by auto
  let ?h = "linked (idle_list p) t n h"
  let ?g = "?h\<lparr>tpool := (tpool h)(p := (tpool h p)\<lparr>threads_num := threads_num (tpool h p) + 1\<rparr>)\<rparr>"
  have c: "c_int (threads_num (tpool h p) + 1) = threads_num (tpool h p) + 1" using f(5,8) room by simp
  have "thread_insert_new p t h = Some ?g" using a(1) f(1) c by (simp add: thread_insert_new_def upd_tp_def)
  moreover have "idle_in ?g (t # ts) = idle_in h ts" using i by (simp add: idle_in_def)
  then have "tp_rep ?g p (t # ts)"
    unfolding tp_rep_def using f a(2) t i room r by (simp add: tp_rep_def)
  ultimately show ?thesis by (intro exI [of _ ?g]) simp
qed

lemma thread_remove_ok:
  assumes r: "tp_rep h p ts" and t: "t \<in> set ts" "\<not> is_thread_idle (thd h t)"
  shows "\<exists>h' h''. thread_remove_new p t h = Some h' \<and> mem_free t h' = Some h'' \<and> tp_rep h'' p (remove1 t ts) \<and>
     thd h'' = thd h \<and> is_shutdown (tpool h'' p) = is_shutdown (tpool h p) \<and> signals h'' = signals h"
proof -
  note f = tp_rep_facts [OF r] and m = tp_member [OF r t(1)]
  obtain a b where u: "lib_list_del t h = Some (unlinked a t b h)" "dlist (unlinked a t b h) (idle_list p) (remove1 t ts)"
    by (rule lib_list_del_dlist [OF f(3) t(1)])
  let ?h = "(unlinked a t b h)\<lparr>tpool := (tpool h)(p := (tpool h p)\<lparr>threads_num := threads_num (tpool h p) - 1\<rparr>)\<rparr>"
  let ?g = "?h\<lparr>live := (live h)(t := False)\<rparr>"
  have len: "length (remove1 t ts) = length ts - 1" "0 < length ts" using t(1) by (auto simp: length_remove1)
  then have leni: "int (length (remove1 t ts)) = int (length ts) - 1" by linarith
  have c: "c_int (threads_num (tpool h p) - 1) = threads_num (tpool h p) - 1" using f(5,12) len(2) by simp
  have out: "t \<notin> set (idle_list p # remove1 t ts)" using f(3,9) t(1) by (auto simp: dlist_def)
  have rm: "thread_remove_new p t h = Some ?h" using u(1) f(1) c by (simp add: thread_remove_new_def upd_tp_def)
  have fr: "mem_free t ?h = Some ?g" using m by (simp add: mem_free_def valid_def)
  have d: "dlist ?g (idle_list p) (remove1 t ts)"
  proof (rule dlist_frame [OF u(2)])
    fix q assume "q \<in> set (idle_list p # remove1 t ts)"
    then show "valid ?g q \<and> nxt ?g q = nxt (unlinked a t b h) q \<and> prv ?g q = prv (unlinked a t b h) q"
      using dlist_valid [OF u(2), of q] out by (auto simp: valid_def)
  qed
  have "idle_in ?g (remove1 t ts) = idle_in h ts"
    unfolding idle_in_def using t(2) by (simp add: filter_remove1)
  then have "tp_rep ?g p (remove1 t ts)"
    unfolding tp_rep_def using f d m leni r set_remove1_subset [of t ts]
    by (auto simp: tp_rep_def valid_def heap_ok_def)
  then show ?thesis using rm fr by (intro exI [of _ ?h] exI [of _ ?g]) simp
qed

text \<open>Starting a thread for a job.\<close>

lemma new_thread_ok:
  assumes r: "tp_rep h p ts" and room: "threads_num (tpool h p) < max_threads (tpool h p)"
    and ev: "new_thread ans p f a b path l h = Some (x, h')"
  shows "(\<exists>ret. x = Dispatched ret Nobody \<and> tp_rep h' p ts \<or>
       (\<exists>t. x = Dispatched ret (Started t) \<and> t \<notin> set ts \<and> tp_rep h' p (t # ts) \<and> \<not> is_thread_idle (thd h' t))) \<and>
     keeps p (set ts) h h' \<and> signals h' = signals h"
proof -
  note f = tp_rep_facts [OF r]
  have no: "\<not> next_oom h"
  proof
    assume "next_oom h"
    then show False using ev by (simp add: new_thread_def mem_malloc_def)
  qed
  let ?t = "brk h"
  obtain h1 where h1: "mem_malloc h = (?t, h1)" "valid h1 ?t" "heap_ok h1" "heap.more h1 = heap.more h"
      "\<not> valid h ?t" "?t \<noteq> NULL" "\<And>q. valid h q \<Longrightarrow> valid h1 q \<and> nxt h1 q = nxt h q \<and> prv h1 q = prv h q \<and> q \<noteq> ?t"
      "\<And>kk zs. dlist h kk zs \<Longrightarrow> dlist h1 kk zs \<and> ?t \<notin> set (kk # zs)"
    by (rule mem_malloc_node [OF f(4) no]) (rule that)
  note e = threads_more [OF h1(4)]
  have off: "?t \<notin> set (idle_list p # ts)" using h1(8) [OF f(3)] by simp
  have tp: "?t \<noteq> p" using h1(7) [OF f(1)] by simp
  let ?x = "\<lparr>pfunc = f, th_arg1 = a, th_arg2 = b, th_file = take THD_MAX_PATH path, th_line = l, th_state = 0, th_pool = p\<rparr>"
  define h2 where "h2 = ringed ?t (h1\<lparr>thd := (thd h)(?t := ?x)\<rparr>)"
  have init: "INIT_LIB_LIST ?t (h1\<lparr>thd := (thd h)(?t := ?x)\<rparr>) = Some h2"
    using h1(2) by (subst INIT_LIB_LIST_ok) (simp_all add: h2_def ringed_def)
  have F2: "thd h2 = (thd h)(?t := ?x)" "tpool h2 = tpool h" "signals h2 = signals h" "valid h2 = valid h1" "heap_ok h2 = heap_ok h1"
    using e by (simp_all add: h2_def ringed_def valid_def heap_ok_def fun_eq_iff)
  have d2: "dlist h2 (idle_list p) ts"
    unfolding h2_def by (rule ringed_frame [OF _ off]) (use h1(8) [OF f(3)] in simp)
  have r2: "tp_rep h2 p ts"
    by (rule tp_rep_frame [OF r d2]) (use h1(3) h1(7) [OF f(1)] off in \<open>auto simp: F2\<close>)
  define h3 where "h3 = h2\<lparr>thd := (thd h2)(?t := set_thread_busy ?x)\<rparr>"
  have r3: "tp_rep h3 p ts"
    by (rule tp_rep_frame [OF r2]) (use d2 f h1(3) h1(7) [OF f(1)] off in \<open>auto simp: h3_def F2\<close>)
  have F3: "thd h3 ?t = set_thread_busy ?x" "tpool h3 = tpool h" "signals h3 = signals h" "valid h3 ?t"
    using h1(2) F2 by (simp_all add: h3_def)
  have t3: "?t \<noteq> idle_list p" "?t \<notin> set ts" using off by auto
  obtain h4 where h4: "thread_insert_new p ?t h3 = Some h4" "tp_rep h4 p (?t # ts)" "thd h4 = thd h3"
      "is_shutdown (tpool h4 p) = is_shutdown (tpool h3 p)" "signals h4 = signals h3"
    using thread_insert_new_ok [OF r3 F3(4) t3(2) tp t3(1)] room f(5) by (auto simp: F3)
  have same: "\<forall>t \<in> set ts. thd h2 t = thd h t" "\<forall>t \<in> set ts. thd h3 t = thd h t" using t3(2) by (auto simp: F2 h3_def)
  have busy: "\<not> is_thread_idle (thd h4 ?t)" by (simp add: h4(3) F3(1))
  obtain g g' where g: "thread_remove_new p ?t h4 = Some g" "mem_free ?t g = Some g'" "tp_rep g' p ts" "thd g' = thd h4"
      "is_shutdown (tpool g' p) = is_shutdown (tpool h4 p)" "signals g' = signals h4"
    using thread_remove_ok [OF h4(2) _ busy] by auto
  have upd: "upd_thd ?t set_thread_busy h2 = Some h3" using h1(2) by (simp add: upd_thd_def h3_def F2)
  have "new_thread ans p f a b path l h =
      (if get_stack_rc ans \<noteq> 0 then Some (Dispatched 0 Nobody, h2)
       else if MIN_THREAD_STACK_SIZE < old_size ans \<and> set_stack_rc ans \<noteq> 0 then Some (Dispatched 0 Nobody, h2)
       else if create_rc ans = 0 then Some (Dispatched 0 (Started ?t), h4) else Some (Dispatched (- 1) Nobody, g'))"
    using h1(1,6) e init upd h4(1) g(1,2) by (simp add: new_thread_def)
  then show ?thesis
    using ev r2 h4(2) g(3) busy t3(2) same by (auto simp: keeps_def F2 F3 h4 g split: if_splits)
qed

text \<open>Handing a job to an idle thread.\<close>

lemma find_idle_body:
  assumes "\<forall>t \<in> set ts. valid h t" and "valid h p"
  shows "run_body (idle_body p) ts h r = Some (case idle_in h ts of
      [] \<Rightarrow> (h, r)
    | t # _ \<Rightarrow> (h\<lparr>thd := (thd h)(t := set_thread_busy (thd h t)),
        tpool := (tpool h)(p := (tpool h p)\<lparr>idle_threads := c_int (idle_threads (tpool h p) - 1)\<rparr>)\<rparr>, t))"
  using assms by (induction ts) (auto simp: idle_body_def get_thd_def upd_thd_def upd_tp_def idle_in_def)

lemma idle_body_links: "idle_body p t h r = Some (h', r', st) \<Longrightarrow> nxt h' = nxt h \<and> live h' = live h"
  by (auto simp: idle_body_def upd_thd_def upd_tp_def split: Option.bind_splits if_splits)

lemma thread_get_idle_ok:
  assumes r: "tp_rep h p ts" and i: "0 < idle_threads (tpool h p)"
  shows "\<exists>t h'. thread_get_idle p h = Some (t, h') \<and> t \<in> set ts \<and> is_thread_idle (thd h t) \<and>
     thd h' = (thd h)(t := set_thread_busy (thd h t)) \<and> tp_rep h' p ts \<and>
     is_shutdown (tpool h' p) = is_shutdown (tpool h p) \<and> signals h' = signals h \<and> valid h' = valid h"
proof -
  note f = tp_rep_facts [OF r]
  obtain t us where us: "idle_in h ts = t # us" using i f(6) by (cases "idle_in h ts") auto
  then have t: "t \<in> set ts" "is_thread_idle (thd h t)"
  proof -
    have "t \<in> set (idle_in h ts)" using us by simp
    then show "t \<in> set ts" "is_thread_idle (thd h t)" by (simp_all add: idle_in_def)
  qed
  let ?x = "set_thread_busy (thd h t)"
  have c: "c_int (idle_threads (tpool h p) - 1) = idle_threads (tpool h p) - 1" using i f(6,11,12) by simp
  define g where "g = h\<lparr>thd := (thd h)(t := ?x), tpool := (tpool h)(p := (tpool h p)\<lparr>idle_threads := idle_threads (tpool h p) - 1\<rparr>)\<rparr>"
  have "lib_list_for_each (idle_body p) (idle_list p) h NULL = run_body (idle_body p) ts h NULL"
    by (rule for_each_run [OF idle_body_links f(3)])
  also have "\<dots> = Some (g, t)"
    using find_idle_body [of ts h p NULL] us tp_member [OF r] f(1) c by (simp add: g_def)
  finally have ev: "thread_get_idle p h = Some (t, g)" by (simp add: thread_get_idle_def)
  have "idle_in g ts = idle_in (h\<lparr>thd := (thd h)(t := ?x)\<rparr>) ts" by (simp add: g_def idle_in_def)
  then have n: "int (length (idle_in g ts)) = idle_threads (tpool h p) - 1"
    using idle_in_upd(2) [OF f(9) t(1), of ?x h] t(2) f(6) by simp
  have "tp_rep g p ts"
    unfolding tp_rep_def using f n r by (auto simp: tp_rep_def g_def)
  then show ?thesis using ev t by (intro exI [of _ t] exI [of _ g]) (simp add: g_def)
qed

lemma assign_idle_ok:
  assumes r: "tp_rep h p ts" and i: "0 < idle_threads (tpool h p)"
    and ev: "assign_idle p f a b path l h = Some (x, h')"
  shows "\<exists>t. x = Dispatched 0 (Woken t) \<and> t \<in> set ts \<and> is_thread_idle (thd h t) \<and> \<not> is_thread_idle (thd h' t) \<and>
     tp_rep h' p ts \<and> keeps p (set ts - {t}) h h' \<and> signals h' = signals h @ [thread_cond t]"
proof -
  obtain t g where g: "thread_get_idle p h = Some (t, g)" "t \<in> set ts" "is_thread_idle (thd h t)"
      "thd g = (thd h)(t := set_thread_busy (thd h t))" "tp_rep g p ts"
      "is_shutdown (tpool g p) = is_shutdown (tpool h p)" "signals g = signals h" "valid g = valid h"
    using thread_get_idle_ok [OF r i] by blast
  note m = tp_member [OF r g(2)] and f = tp_rep_facts [OF g(5)]
  let ?u = "\<lambda>th. th\<lparr>pfunc := f, th_arg1 := a, th_arg2 := b, th_file := take THD_MAX_PATH path, th_line := l, th_pool := p\<rparr>"
  let ?g = "g\<lparr>thd := (thd g)(t := ?u (thd g t))\<rparr>"
  have e: "h' = signal (thread_cond t) ?g" "x = Dispatched 0 (Woken t)"
    using ev g(1,8) m by (auto simp: assign_idle_def upd_thd_def)
  have st: "is_thread_idle (?u th) = is_thread_idle th" for th by (simp add: is_thread_idle_def)
  have "idle_in ?g ts = idle_in g ts" unfolding idle_in_def by (rule filter_cong) (auto simp: st)
  then have "tp_rep ?g p ts" using g(5) by (auto simp: tp_rep_def)
  then show ?thesis using e g by (intro exI [of _ t]) (auto simp: keeps_def st)
qed

lemma dispatch_ok:
  assumes r: "tp_rep h p ts" and ev: "thread_dispatch_with_tp ans f a b p path l h = Some (Dispatched ret w, h')"
  shows "case w of
      Nobody \<Rightarrow> tp_rep h' p ts \<and> keeps p (set ts) h h' \<and> signals h' = signals h
    | Started t \<Rightarrow> t \<notin> set ts \<and> tp_rep h' p (t # ts) \<and> \<not> is_thread_idle (thd h' t) \<and> keeps p (set ts) h h' \<and>
        signals h' = signals h
    | Woken t \<Rightarrow> t \<in> set ts \<and> \<not> is_thread_idle (thd h' t) \<and> tp_rep h' p ts \<and> keeps p (set ts - {t}) h h' \<and>
        signals h' = signals h @ [thread_cond t]"
proof -
  let ?tp = "tpool h p"
  note f = tp_rep_facts [OF r]
  consider (new) "IS_NO_IDLE_AND_BELOW_LIMIT ?tp" "\<not> IS_NO_IDLE_AND_EXCEED_LIMIT ?tp"
    | (idle) "IS_IDLE ?tp" "\<not> IS_NO_IDLE_AND_BELOW_LIMIT ?tp" "\<not> IS_NO_IDLE_AND_EXCEED_LIMIT ?tp"
    | (none) "\<not> IS_IDLE ?tp" "\<not> IS_NO_IDLE_AND_BELOW_LIMIT ?tp" "\<not> IS_NO_IDLE_AND_EXCEED_LIMIT ?tp"
    | (sleeps) "IS_NO_IDLE_AND_EXCEED_LIMIT ?tp"
    by blast
  then show ?thesis
  proof cases
    case new
    then have "new_thread ans p f a b path l h = Some (Dispatched ret w, h')" and "threads_num ?tp < max_threads ?tp"
      using ev f(1,10) by (simp_all add: thread_dispatch_with_tp_def get_tp_def IS_NO_IDLE_AND_BELOW_LIMIT_def)
    then show ?thesis using new_thread_ok [OF r] by fastforce
  next
    case idle
    then have "assign_idle p f a b path l h = Some (Dispatched ret w, h')" and "0 < idle_threads ?tp"
      using ev f(1,10) by (simp_all add: thread_dispatch_with_tp_def get_tp_def IS_IDLE_def)
    then show ?thesis using assign_idle_ok [OF r] by fastforce
  next
    case none
    then show ?thesis by (auto simp: IS_IDLE_def IS_NO_IDLE_AND_BELOW_LIMIT_def IS_NO_IDLE_AND_EXCEED_LIMIT_def)
  next
    case sleeps
    then show ?thesis using ev f(1,10) by (simp add: thread_dispatch_with_tp_def get_tp_def)
  qed
qed

text \<open>A busy thread is always taken back: with it not among the idle ones these are fewer than the limit.\<close>

lemma reclaim_ok:
  assumes r: "tp_rep h p ts" and t: "t \<in> set ts" "\<not> is_thread_idle (thd h t)"
  shows "\<exists>h'. reclaim_thread p t h = Some (OK, h') \<and> tp_rep h' p ts \<and>
     thd h' = (thd h)(t := set_thread_idle (thd h t)) \<and> is_shutdown (tpool h' p) = is_shutdown (tpool h p) \<and>
     set (sent_since h h') \<subseteq> {mFullCond p, mIdleCond p} \<and>
     (length ts \<le> Suc (length (idle_in h ts)) \<longrightarrow> mFullCond p \<in> set (sent_since h h'))"
proof -
  note f = tp_rep_facts [OF r] and m = tp_member [OF r t(1)]
  let ?x = "set_thread_idle (thd h t)"
  let ?h1 = "h\<lparr>thd := (thd h)(t := ?x)\<rparr>"
  have n: "length (idle_in ?h1 ts) = Suc (length (idle_in h ts))" using idle_in_upd(1) [OF f(9) t(1), of ?x h] t(2) by simp
  have le: "length (idle_in ?h1 ts) \<le> length ts" by (simp add: idle_in_def)
  have lt: "idle_threads (tpool h p) < max_threads (tpool h p)" using n le f(6,7) by simp
  have c: "c_int (idle_threads (tpool h p) + 1) = idle_threads (tpool h p) + 1" using lt f(6,8) by simp
  define g where "g = h\<lparr>thd := (thd h)(t := ?x), tpool := (tpool h)(p := (tpool h p)\<lparr>idle_threads := idle_threads (tpool h p) + 1\<rparr>)\<rparr>"
  have "idle_in g ts = idle_in ?h1 ts" by (simp add: g_def idle_in_def)
  then have "tp_rep g p ts"
    unfolding tp_rep_def using f n r by (auto simp: tp_rep_def g_def)
  moreover have "thread_put_idle t h = Some g"
    using m f(1) c by (simp add: thread_put_idle_def upd_thd_def get_thd_def upd_tp_def g_def)
  moreover define g' where "g' = (if threads_num (tpool g p) \<le> idle_threads (tpool g p) then signal (mFullCond p) g else g)"
  moreover have "valid g p" using f(1) by (simp add: g_def)
  ultimately have "reclaim_thread p t h = Some (OK, signal (mIdleCond p) g')" "tp_rep (signal (mIdleCond p) g') p ts"
    "thd g' = thd g" "tpool g' = tpool g" "signals g' = signals g \<or> signals g' = signals g @ [mFullCond p]"
    "length ts \<le> Suc (length (idle_in h ts)) \<Longrightarrow> signals g' = signals g @ [mFullCond p]"
    using lt f(1,5,6) by (auto simp: reclaim_thread_def get_tp_def g_def)
  then show ?thesis by (intro exI [of _ "signal (mIdleCond p) g'"]) (auto simp: g_def sent_since_def)
qed

lemma run_signal:
  assumes "NULL \<notin> set ts"
  shows "run_body (\<lambda>t h (_ :: unit). if t \<noteq> NULL then Some (signal (thread_cond t) h, (), False) else Some (h, (), False)) ts h ()
     = Some (h\<lparr>signals := signals h @ List.map thread_cond ts\<rparr>, ())"
  using assms
proof (induction ts arbitrary: h)
  case (Cons t ts)
  then show ?case using Cons.IH [of "signal (thread_cond t) h"] by (simp add: signal_def)
qed simp

lemma shutdown_wake_ok:
  assumes r: "tp_rep h p ts"
  shows "shutdown_wake p h = Some (ts \<noteq> [], h\<lparr>signals := signals h @ List.map thread_cond ts\<rparr>)"
proof -
  note f = tp_rep_facts [OF r]
  let ?b = "\<lambda>t h (_ :: unit). if t \<noteq> NULL then Some (signal (thread_cond t) h, (), False) else Some (h, (), False)"
  have "NULL \<notin> set ts" using f(3) by (auto simp: dlist_def dest: valid_pos)
  note run = run_signal [OF this, of h]
  have "lib_list_for_each_safe ?b (idle_list p) h () = run_body ?b ts h ()"
    by (rule for_each_safe_run_ro [OF _ f(3)]) (auto simp: signal_def split: if_splits)
  then have "lib_list_for_each_safe ?b (idle_list p) h () = Some (h\<lparr>signals := signals h @ List.map thread_cond ts\<rparr>, ())"
    unfolding run .
  then show ?thesis using f(1,5) by (auto simp: shutdown_wake_def get_tp_def)
qed

section \<open>The invariant\<close>

definition workers :: "tsys \<Rightarrow> ptr \<Rightarrow> ptr list \<Rightarrow> bool" where
  "workers s p ts \<longleftrightarrow> tp_rep (th s) p ts \<and>
     (\<forall>t. pc s t \<in> {InJob, Reclaiming} \<longrightarrow> t \<in> set ts \<and> \<not> is_thread_idle (thd (th s) t)) \<and>
     (\<forall>t. pc s t = AtTest \<longrightarrow> t \<in> set ts \<and> (\<not> is_thread_idle (thd (th s) t) \<or> is_shutdown (tpool (th s) p) \<noteq> 0)) \<and>
     (\<forall>t. pc s t = Sleeping \<longrightarrow> t \<in> set ts) \<and> (shut s \<noteq> Running \<longrightarrow> is_shutdown (tpool (th s) p) \<noteq> 0)"

definition tp_inv :: "ptr \<Rightarrow> nat \<Rightarrow> tsys \<Rightarrow> bool" where
  "tp_inv p n s \<longleftrightarrow> (\<exists>ts. workers s p ts \<and> n \<le> length ts)"

lemma inv_dispatch:
  assumes w: "workers s p ts" and ev: "thread_dispatch_with_tp ans f a b p path l (th s) = Some (Dispatched r x, h)"
  shows "\<exists>ts'. workers (s\<lparr>th := h, pc := begun x (woken (sent_since (th s) h) (pc s))\<rparr>) p ts' \<and> length ts \<le> length ts'"
proof -
  have r: "tp_rep (th s) p ts" using w by (simp add: workers_def)
  note d = dispatch_ok [OF r ev]
  show ?thesis
  proof (cases x)
    case Nobody
    then show ?thesis using d w by (intro exI [of _ ts]) (auto simp: workers_def keeps_def sent_since_def begun_def woken_def)
  next
    case (Started t)
    then show ?thesis using d w
      by (intro exI [of _ "t # ts"]) (auto simp: workers_def keeps_def sent_since_def begun_def woken_def)
  next
    case (Woken t)
    then have d': "t \<in> set ts" "\<not> is_thread_idle (thd h t)" "tp_rep h p ts" "keeps p (set ts - {t}) (th s) h"
        "sent_since (th s) h = [thread_cond t]"
      using d by (simp_all add: sent_since_def)
    have same: "is_thread_idle (thd h u) \<longrightarrow> u \<in> set ts \<longrightarrow> u \<noteq> t \<and> is_thread_idle (thd (th s) u)" for u
      using d'(2,4) by (cases "u = t") (auto simp: keeps_def)
    have sd: "is_shutdown (tpool h p) = is_shutdown (tpool (th s) p)" using d'(4) by (simp add: keeps_def)
    have "workers (s\<lparr>th := h, pc := woken [thread_cond t] (pc s)\<rparr>) p ts"
      using w d'(1-3) same sd by (auto simp: workers_def woken_def)
    then show ?thesis using Woken d'(5) by (intro exI [of _ ts]) (simp add: begun_def)
  qed
qed

lemma heard_Running: "heard p sigs u = Running \<longleftrightarrow> u = Running"
  by (auto simp: heard_def)

lemma inv_step:
  assumes i: "tp_inv p n s" and st: "tp_step p s t" and u: "shut s \<noteq> ToEnd" and calm: "strays t = strays s"
  shows "tp_inv p n t"
proof -
  obtain ts where w: "workers s p ts" and n: "n \<le> length ts" using i by (auto simp: tp_inv_def)
  have r: "tp_rep (th s) p ts" using w by (simp add: workers_def)
  show ?thesis
    using st
  proof cases
    case (dispatch ans f a b path l r' x h)
    then show ?thesis using inv_dispatch [OF w dispatch(3)] n by (auto simp: tp_inv_def)
  next
    case (test y tp)
    then have "workers t p ts" using w by (auto simp: workers_def get_tp_def split: if_splits)
    then show ?thesis using n by (auto simp: tp_inv_def)
  next
    case (job y)
    then have "workers t p ts" using w by (auto simp: workers_def)
    then show ?thesis using n by (auto simp: tp_inv_def)
  next
    case (reclaimed y rc h)
    then have y: "y \<in> set ts" "\<not> is_thread_idle (thd (th s) y)" using w by (auto simp: workers_def)
    obtain h' where h': "reclaim_thread p y (th s) = Some (OK, h')" "tp_rep h' p ts"
        "thd h' = (thd (th s))(y := set_thread_idle (thd (th s) y))" "is_shutdown (tpool h' p) = is_shutdown (tpool (th s) p)"
      using reclaim_ok [OF r y] by blast
    then have "workers t p ts" using reclaimed w y by (auto simp: workers_def heard_Running)
    then show ?thesis using n by (auto simp: tp_inv_def)
  next
    case (retired y rc h h')
    then have y: "y \<in> set ts" "\<not> is_thread_idle (thd (th s) y)" using w by (auto simp: workers_def)
    then show ?thesis using reclaim_ok [OF r y] retired by auto
  next
    case (leave y h)
    then have h: "h = th s \<or> h = signal (mEmptyCond p) (th s)" by (auto simp: thread_leave_def get_tp_def split: if_splits)
    then have "workers t p ts" using leave w by (auto simp: workers_def heard_Running)
    then show ?thesis using n by (auto simp: tp_inv_def)
  next
    case (shut_begin wt h)
    let ?h = "(th s)\<lparr>tpool := (tpool (th s))(p := (tpool (th s) p)\<lparr>is_shutdown := 1\<rparr>)\<rparr>"
    have h: "h = ?h" using shut_begin tp_rep_facts(1) [OF r] by (simp add: shutdown_begin_def upd_tp_def get_tp_def)
    have "tp_rep ?h p ts"
      by (rule tp_rep_frame [OF r]) (use tp_rep_facts [OF r] in auto)
    then have "workers t p ts" using shut_begin w by (auto simp: workers_def h)
    then show ?thesis using n by (auto simp: tp_inv_def)
  next
    case (shut_wake wt h)
    then have h: "h = (th s)\<lparr>signals := signals (th s) @ List.map thread_cond ts\<rparr>"
      using shutdown_wake_ok [OF r] by simp
    have "tp_rep h p ts"
      unfolding h by (rule tp_rep_frame [OF r]) (use tp_rep_facts [OF r] in auto)
    then have "workers t p ts" using shut_wake w by (auto simp: workers_def woken_def h)
    then show ?thesis using n by (auto simp: tp_inv_def)
  next
    case shut_end
    then show ?thesis using u by simp
  qed (use calm in simp_all)
qed

lemma step_from_running:
  "tp_step p s t \<Longrightarrow> shut t = Running \<Longrightarrow> shut s = Running"
  by (auto elim!: tp_stepE simp: heard_Running split: if_splits)

lemma strays_step: "tp_step p s t \<Longrightarrow> strays s \<le> strays t"
  by (cases rule: tp_step.cases) auto

lemma inv_while_running:
  assumes "tp_rep h p []" and "tp_reach p (tp_start h) s" and "shut s = Running" and "strays s = 0"
  shows "tp_inv p 0 s"
  using assms(2,3,4)
proof (induction rule: tp_reach.induct)
  case start
  then show ?case using assms(1) by (auto simp: tp_inv_def workers_def tp_start_def intro: exI [of _ "[]"])
next
  case (further t u)
  then have "strays t = 0" "shut t = Running" using strays_step [of p t u] step_from_running [of p t u] by auto
  then show ?case using further inv_step [of p 0 t u] by simp
qed

lemma shutdown_step:
  assumes i: "tp_inv p 1 s" and u: "shut s \<notin> {ToEnd, Closed}" and st: "tp_step p s t"
    and calm: "strays t = strays s"
  shows "tp_inv p 1 t \<and> shut t \<notin> {ToEnd, Closed}"
proof
  show "tp_inv p 1 t" using inv_step [OF i st] u calm by simp
  obtain ts where w: "workers s p ts" and n: "1 \<le> length ts" using i unfolding tp_inv_def by blast
  then have n: "ts \<noteq> []" by auto
  have r: "tp_rep (th s) p ts" using w by (simp add: workers_def)
  have num: "\<not> threads_num (tpool (th s) p) \<le> 0" using tp_rep_facts(5) [OF r] n by simp
  show "shut t \<notin> {ToEnd, Closed}"
    using st
  proof cases
    case (reclaimed y rc h)
    then have y: "y \<in> set ts" "\<not> is_thread_idle (thd (th s) y)" using w by (auto simp: workers_def)
    then have "mEmptyCond p \<notin> set (sent_since (th s) h)" using reclaim_ok [OF r y] reclaimed by auto
    then show ?thesis using reclaimed u by (auto simp: heard_def split: if_splits)
  next
    case (retired y rc h h')
    then have y: "y \<in> set ts" "\<not> is_thread_idle (thd (th s) y)" using w by (auto simp: workers_def)
    then show ?thesis using reclaim_ok [OF r y] retired by auto
  next
    case (leave y h)
    then have "h = th s" using num by (auto simp: thread_leave_def get_tp_def split: if_splits)
    then show ?thesis using leave u by (simp add: sent_since_def heard_def)
  next
    case (shut_wake wt h)
    then show ?thesis using shutdown_wake_ok [OF r] n by auto
  qed (use u calm in auto)
qed

section \<open>The shutdown of a pool that has worked never ends\<close>

text \<open>C21: once a pool has started a thread, freeing the pool does not come back, in every interleaving of
  dispatchers, workers and the shutdown in which every wait for a condition returns only on its signal (no
  spurious wake-up, which POSIX allows and which the waits guarded by \<open>if\<close> would take for the signal): the
  number of threads stays positive, because a worker that leaves its loop does not count itself out, so the
  signal that no thread is left is never sent, and the shutdown never gets past its second wait.\<close>

theorem pool_shutdown_never_ends:
  assumes "tp_rep h p []" and "tp_reach p (tp_start h) s" and "shut s = Running"
    and "0 < threads_num (tpool (th s) p)" and "tp_reach p s s'" and "strays s' = 0"
  shows "shut s' \<notin> {ToEnd, Closed} \<and> 0 < threads_num (tpool (th s') p)"
proof -
  have "strays s \<le> strays s'" using assms(5) by (induction rule: tp_reach.induct) (auto dest: strays_step)
  then have "strays s = 0" using assms(6) by simp
  then obtain ts where "workers s p ts" using inv_while_running [OF assms(1-3)] by (auto simp: tp_inv_def)
  moreover then have "ts \<noteq> []" using assms(4) tp_rep_facts(5) [of "th s" p ts] by (auto simp: workers_def)
  ultimately have i: "tp_inv p 1 s" by (auto simp: tp_inv_def Suc_le_eq)
  have "tp_inv p 1 s' \<and> shut s' \<notin> {ToEnd, Closed}"
    using assms(5,6)
  proof (induction rule: tp_reach.induct)
    case start
    then show ?case using i assms(3) by simp
  next
    case (further t u)
    then have "strays t = 0" using strays_step [of p t u] by simp
    then show ?case using further shutdown_step [of p t u] by simp
  qed
  then show ?thesis using tp_rep_facts(5) by (fastforce simp: tp_inv_def workers_def)
qed

text \<open>A pool of at most two threads, and a run that ends with nobody left to signal the shutdown.\<close>

definition tp_demo :: threads where
  "tp_demo = \<lparr>live = (\<lambda>p. 1 \<le> p \<and> p \<le> 3), brk = 4, oom = [], nxt = (\<lambda>p. p), prv = (\<lambda>p. p),
     thd = (\<lambda>_. \<lparr>pfunc = 0, th_arg1 = 0, th_arg2 = 0, th_file = [], th_line = 0, th_state = 0, th_pool = 1\<rparr>),
     tpool = (\<lambda>_. zero_pool\<lparr>max_threads := 2, tp_init := True\<rparr>), global_thread_pool = 1, signals = []\<rparr>"

lemma tp_demo_rep: "tp_rep tp_demo 1 []"
  by (simp add: tp_rep_def tp_demo_def dlist_def valid_def heap_ok_def idle_in_def zero_pool_def)

lemma tp_demo_dispatch:
  "\<exists>h. thread_dispatch_with_tp \<lparr>get_stack_rc = 0, old_size = 0, set_stack_rc = 0, create_rc = 0\<rparr> 9 0 0 1 [] 0 tp_demo
     = Some (Dispatched 0 (Started 4), h)"
  by (simp add: thread_dispatch_with_tp_def get_tp_def tp_demo_def valid_def IS_NO_IDLE_AND_EXCEED_LIMIT_def zero_pool_def
      IS_NO_IDLE_AND_BELOW_LIMIT_def new_thread_def mem_malloc_def next_oom_def INIT_LIB_LIST_def heap_access
      MIN_THREAD_STACK_SIZE_def upd_thd_def upd_tp_def thread_insert_new_def lib_list_add_def lib_list_add_between_def)

lemma tp_demo_run:
  "\<exists>s s'. tp_reach 1 (tp_start tp_demo) s \<and> shut s = Running \<and> 0 < threads_num (tpool (th s) 1) \<and> tp_reach 1 s s' \<and>
     shut s' = WaitEmpty \<and> (\<forall>t. pc s' t = Ended) \<and> strays s' = 0"
proof -
  obtain h1 where h1: "thread_dispatch_with_tp \<lparr>get_stack_rc = 0, old_size = 0, set_stack_rc = 0, create_rc = 0\<rparr> 9 0 0 1 [] 0 tp_demo
     = Some (Dispatched 0 (Started 4), h1)"
    using tp_demo_dispatch by blast
  have r1: "tp_rep h1 1 [4]" "\<not> is_thread_idle (thd h1 4)" "is_shutdown (tpool h1 1) = 0" "signals h1 = signals tp_demo"
    using dispatch_ok [OF tp_demo_rep h1] by (simp_all add: keeps_def tp_demo_def zero_pool_def)
  note f1 = tp_rep_facts [OF r1(1)]
  define s1 where "s1 = \<lparr>th = h1, pc = (\<lambda>_. Ended)(4 := AtTest), shut = Running, strays = 0\<rparr>"
  have "thread_dispatch_with_tp \<lparr>get_stack_rc = 0, old_size = 0, set_stack_rc = 0, create_rc = 0\<rparr> 9 0 0 1 [] 0
      (th (tp_start tp_demo)) = Some (Dispatched 0 (Started 4), h1)" using h1 by (simp add: tp_start_def)
  moreover have "woken [] (\<lambda>_. Ended) = (\<lambda>_. Ended)" by (simp add: woken_def fun_eq_iff)
  ultimately have "tp_step 1 (tp_start tp_demo) s1"
    using tp_step.dispatch [of "tp_start tp_demo"] r1(4)
    by (force simp: tp_start_def lock_free_def s1_def sent_since_def begun_def)
  then have a: "tp_reach 1 (tp_start tp_demo) s1" by (rule tp_reach.further [OF tp_reach.start])
  define s2 where "s2 = s1\<lparr>pc := (\<lambda>_. Ended)(4 := InJob)\<rparr>"
  have "tp_step 1 s1 s2"
    using tp_step.test [of s1 4 1 "tpool h1 1"] f1(1) r1(3) by (simp add: s1_def s2_def get_tp_def)
  note b = tp_reach.further [OF tp_reach.start this]
  define s3 where "s3 = s1\<lparr>pc := (\<lambda>_. Ended)(4 := Reclaiming)\<rparr>"
  have "tp_step 1 s2 s3" using tp_step.job [of s2 4 1] by (simp add: s1_def s2_def s3_def)
  note b = tp_reach.further [OF b this]
  define h4 where "h4 = h1\<lparr>tpool := (tpool h1)(1 := (tpool h1 1)\<lparr>is_shutdown := 1\<rparr>)\<rparr>"
  define s4 where "s4 = s3\<lparr>th := h4, shut := WaitFull\<rparr>"
  have r4: "tp_rep h4 1 [4]" by (rule tp_rep_frame [OF r1(1)]) (use f1 in \<open>auto simp: h4_def\<close>)
  have i: "idle_in h1 [4] = []" "thd h4 = thd h1" using r1(2) by (simp_all add: idle_in_def h4_def)
  have "shutdown_begin 1 h1 = Some (True, h4)" using f1(1,5,6) i by (simp add: shutdown_begin_def upd_tp_def get_tp_def h4_def)
  then have "tp_step 1 s3 s4" using tp_step.shut_begin [of s3 1 True h4] by (simp add: s1_def s3_def s4_def)
  note b = tp_reach.further [OF b this]
  obtain h5 where h5: "reclaim_thread 1 4 h4 = Some (OK, h5)" "tp_rep h5 1 [4]"
      "is_shutdown (tpool h5 1) = is_shutdown (tpool h4 1)" "mFullCond 1 \<in> set (sent_since h4 h5)"
    using reclaim_ok [OF r4, of 4] r1(2) i(2) by auto
  define s5 where "s5 = \<lparr>th = h5, pc = (\<lambda>_. Ended)(4 := Sleeping), shut = ToWake, strays = 0\<rparr>"
  have "tp_step 1 s4 s5"
    using tp_step.reclaimed [of s4 4 1 OK h5] h5(1,4) by (simp add: s1_def s3_def s4_def s5_def lock_free_def heard_def)
  note b = tp_reach.further [OF b this]
  define h6 where "h6 = h5\<lparr>signals := signals h5 @ List.map thread_cond [4]\<rparr>"
  define s6 where "s6 = \<lparr>th = h6, pc = (\<lambda>_. Ended)(4 := AtTest), shut = WaitEmpty, strays = 0\<rparr>"
  have "tp_step 1 s5 s6"
  proof -
    have "woken [thread_cond 4] ((\<lambda>_. Ended)(4 := Sleeping)) = (\<lambda>_. Ended)(4 := AtTest)" by (auto simp: woken_def fun_eq_iff)
    then show ?thesis
      using tp_step.shut_wake [of s5 1 True h6] shutdown_wake_ok [OF h5(2)]
      by (simp add: s5_def s6_def h6_def sent_since_def)
  qed
  note b = tp_reach.further [OF b this]
  have sd: "is_shutdown (tpool h6 1) = 1" "threads_num (tpool h6 1) = 1" "valid h6 1"
    using h5(3) tp_rep_facts [OF h5(2)] by (simp_all add: h6_def h4_def)
  define s7 where "s7 = s6\<lparr>pc := (\<lambda>_. Ended)(4 := Leaving)\<rparr>"
  have "tp_step 1 s6 s7" using tp_step.test [of s6 4 1 "tpool h6 1"] sd by (simp add: s6_def s7_def get_tp_def)
  note b = tp_reach.further [OF b this]
  define s8 where "s8 = s6\<lparr>pc := (\<lambda>_. Ended)(4 := Ended)\<rparr>"
  have "thread_leave 1 h6 = Some h6" using sd by (simp add: thread_leave_def get_tp_def)
  then have "tp_step 1 s7 s8"
    using tp_step.leave [of s7 4 1 h6] by (simp add: s6_def s7_def s8_def sent_since_def heard_def)
  note b = tp_reach.further [OF b this]
  have "shut s1 = Running" "0 < threads_num (tpool (th s1) 1)" using f1(5) by (simp_all add: s1_def)
  then show ?thesis using a b by (intro exI [of _ s1] exI [of _ s8]) (simp add: s6_def s8_def)
qed

theorem pool_shutdown_never_ends_witness:
  "\<exists>s'. tp_reach 1 (tp_start tp_demo) s' \<and> shut s' = WaitEmpty \<and> (\<forall>t. pc s' t = Ended) \<and> 0 < threads_num (tpool (th s') 1)"
proof -
  obtain s s' where s: "tp_reach 1 (tp_start tp_demo) s" "shut s = Running" "0 < threads_num (tpool (th s) 1)"
      "tp_reach 1 s s'" "shut s' = WaitEmpty" "\<forall>t. pc s' t = Ended" "strays s' = 0"
    using tp_demo_run by blast
  have "tp_reach 1 (tp_start tp_demo) s'" using s(4,1) by (induction rule: tp_reach.induct) (auto intro: tp_reach.further)
  then show ?thesis using pool_shutdown_never_ends [OF tp_demo_rep s(1-4,7)] s(5,6) by blast
qed

end
