(* ===== verification/GasUser.thy ===== *)
theory GasUser imports LibDb LibSocket LibTicket begin

text \<open>
  \<open>Server/gas/gas-user.c\<close>: what the gateway asks the database for: whether a user's password is right,
  the user's data, the list of servers. The statements are printed into arrays of 512 bytes, the results
  into the message that is to be the reply, at the offsets of the fields of \<open>user_t\<close> and \<open>server_t\<close> of
  \<open>Include/lib-msg.h\<close>. MySQL is the parameter of LibDb; a call that needs a handle of the pool may sleep.
\<close>

section \<open>Fields of a reply\<close>

datatype 'r db_call = Blocks | Done 'r

definition SQL_LEN :: nat where "SQL_LEN = 512"
definition TYPE_ALL :: int where "TYPE_ALL = 15"
definition SIZEOF_USER :: nat where "SIZEOF_USER = 544"
definition SIZEOF_SERVER :: nat where "SIZEOF_SERVER = 300"
definition MAX_SERVER_LIST :: nat where "MAX_SERVER_LIST = 64"
definition SIZEOF_SERVER_LIST :: nat where "SIZEOF_SERVER_LIST = 4 + MAX_SERVER_LIST * SIZEOF_SERVER"

definition le64 :: "64 word \<Rightarrow> byte list" where
  "le64 w = le32 (ucast w) @ le32 (ucast (drop_bit 32 w))"

text \<open>\<open>row[i]\<close>: reading beyond the columns does not come back, and neither do \<open>atoi\<close> and \<open>strcpy\<close> of \<open>NULL\<close>.\<close>

definition col :: "db_row \<Rightarrow> nat \<Rightarrow> string option" where
  "col row i = (if i < length row then row ! i else None)"

definition put_int :: "nat \<Rightarrow> string option \<Rightarrow> byte list \<Rightarrow> byte list option" where
  "put_int off c buf = (case c of None \<Rightarrow> None | Some s \<Rightarrow> put_bytes off (le32 (word_of_int (atoi s))) buf)"

definition put_int64 :: "nat \<Rightarrow> string option \<Rightarrow> byte list \<Rightarrow> byte list option" where
  "put_int64 off c buf = (case c of None \<Rightarrow> None | Some s \<Rightarrow> put_bytes off (le64 (word_of_int (fst (strtol 10 s)))) buf)"

text \<open>\<open>strcpy\<close> knows no limit; \<open>snprintf\<close> with \<open>%s\<close> does, and prints \<open>(null)\<close> for \<open>NULL\<close>.\<close>

definition put_strcpy :: "nat \<Rightarrow> string option \<Rightarrow> byte list \<Rightarrow> byte list option" where
  "put_strcpy off c buf = (case c of None \<Rightarrow> None | Some s \<Rightarrow> put_bytes off (bytes_of s @ [0]) buf)"

definition put_snprintf :: "nat \<Rightarrow> nat \<Rightarrow> string option \<Rightarrow> byte list \<Rightarrow> byte list option" where
  "put_snprintf off n c buf =
     put_bytes off (bytes_of (take (n - 1) (case c of None \<Rightarrow> ''(null)'' | Some s \<Rightarrow> s)) @ [0]) buf"

text \<open>A statement and its result, as the functions below all ask for it.\<close>

datatype query_result = QueryFailed | NoResult | Rows "db_row list"

definition query_rows :: "'a dbs_scheme mysql_api \<Rightarrow> ptr \<Rightarrow> string \<Rightarrow> 'a dbs_scheme \<Rightarrow> query_result \<times> 'a dbs_scheme" where
  "query_rows api m sql h =
     (let (ret, h) = mysql_real_query api m sql h
      in if ret \<noteq> 0 then (QueryFailed, h)
      else
        let (res, h) = mysql_store_result api m h
        in (case res of
              None \<Rightarrow> if mysql_errno api m h \<noteq> 0 then QueryFailed else NoResult
            | Some rows \<Rightarrow> Rows rows, h))"

section \<open>Is the password right?\<close>

definition auth_sql :: "string \<Rightarrow> string \<Rightarrow> string" where
  "auth_sql name pwd =
     ''select count(*) from user where username='' @ sql_quote @ name @ sql_quote @
     '' and password='' @ sql_quote @ pwd @ sql_quote"

definition auth_count :: "query_result \<Rightarrow> int option" where
  "auth_count r =
     (case r of Rows (row # _) \<Rightarrow> (case col row 0 of None \<Rightarrow> None | Some s \<Rightarrow> Some (atoi s)) | _ \<Rightarrow> Some 0)"

definition gas_db_user_auth ::
  "'a dbs_scheme mysql_api \<Rightarrow> string \<Rightarrow> string \<Rightarrow> 'a dbs_scheme \<Rightarrow> (bool \<times> 'a dbs_scheme) option"
where
  "gas_db_user_auth api name pwd h = do {
     (p, h) \<leftarrow> db_get_instant_handle api h;
     if p = NULL then Some (False, h)
     else do {
       let sql = auth_sql name pwd;
       _ \<leftarrow> lib_assert (length sql < SQL_LEN);
       h \<leftarrow> db_set_handle_utf8 api p h;
       d \<leftarrow> get_dbh p h;
       let (r, h) = query_rows api (mysql d) sql h;
       n \<leftarrow> auth_count r;
       h \<leftarrow> db_put_instant_handle api p h;
       Some (n = 1, h) } }"

section \<open>The data of a user\<close>

text \<open>The format string goes on over three lines of the source, with the tabs and blanks they start with.\<close>

definition USER_COLUMNS :: string where
  "USER_COLUMNS =
     ''id,username, password,active,creation, name,email, '' @ [CHR 0x09, CHR 0x09] @
     ''       note, quota_cycle,quota_bytes,quota_used,quota_name,'' @ [CHR 0x09, CHR 0x09] @
     ''       quota_expire,history_bytes,enabled,level, quota_start, hobby,login_cnt, type''"

definition user_sql :: "string \<Rightarrow> string" where
  "user_sql name = ''select '' @ USER_COLUMNS @ '' from user where username='' @ sql_quote @ name @ sql_quote"

text \<open>The fields of the \<open>user_t\<close> at offset \<open>u\<close> of the message, in the order they are written.\<close>

definition put_user :: "nat \<Rightarrow> db_row \<Rightarrow> byte list \<Rightarrow> byte list option" where
  "put_user u row b = do {
     b \<leftarrow> put_int u (col row 0) b;
     b \<leftarrow> put_snprintf (u + 4) MAX_NAME_LEN (col row 1) b;
     b \<leftarrow> put_snprintf (u + 36) MAX_NAME_LEN (col row 2) b;
     b \<leftarrow> put_int (u + 68) (col row 3) b;
     b \<leftarrow> put_strcpy (u + 72) (col row 4) b;
     b \<leftarrow> put_snprintf (u + 104) MAX_NAME_LEN (col row 5) b;
     b \<leftarrow> put_strcpy (u + 136) (col row 6) b;
     b \<leftarrow> put_snprintf (u + 168) (MAX_NAME_LEN * 4) (col row 7) b;
     b \<leftarrow> put_int (u + 296) (col row 8) b;
     b \<leftarrow> put_int64 (u + 304) (col row 9) b;
     b \<leftarrow> put_int64 (u + 312) (col row 10) b;
     b \<leftarrow> put_snprintf (u + 320) (MAX_NAME_LEN * 4) (col row 11) b;
     b \<leftarrow> put_strcpy (u + 448) (col row 12) b;
     b \<leftarrow> put_int64 (u + 480) (col row 13) b;
     b \<leftarrow> put_int (u + 488) (col row 14) b;
     b \<leftarrow> put_int (u + 492) (col row 15) b;
     b \<leftarrow> put_strcpy (u + 496) (col row 16) b;
     b \<leftarrow> put_int (u + 528) (col row 17) b;
     b \<leftarrow> put_int (u + 532) (col row 18) b;
     put_int (u + 536) (col row 19) b }"

text \<open>
  A pool without handles makes the function return \<open>false\<close>, which is the \<open>0\<close> of success. A result
  without a row stops the process.
\<close>

definition gas_db_user_info ::
  "'a dbs_scheme mysql_api \<Rightarrow> string \<Rightarrow> nat \<Rightarrow> byte list \<Rightarrow> 'a dbs_scheme \<Rightarrow> (int db_call \<times> byte list \<times> 'a dbs_scheme) option"
where
  "gas_db_user_info api name u buf h = do {
     (got, h) \<leftarrow> db_get_handle ''gas-user.c'' 64 h;
     case got of
       DbSleeps \<Rightarrow> Some (Blocks, buf, h)
     | DbGot p \<Rightarrow>
         if p = NULL then Some (Done 0, buf, h)
         else do {
           let sql = user_sql name;
           _ \<leftarrow> lib_assert (length sql < SQL_LEN);
           h \<leftarrow> db_set_handle_utf8 api p h;
           d \<leftarrow> get_dbh p h;
           let (r, h) = query_rows api (mysql d) sql h;
           (ret, buf) \<leftarrow>
             (case r of
                QueryFailed \<Rightarrow> Some (ERROR, buf)
              | NoResult \<Rightarrow> Some (OK, buf)
              | Rows [] \<Rightarrow> None
              | Rows (row # _) \<Rightarrow> do { buf \<leftarrow> put_user u row buf; Some (OK, buf) });
           h \<leftarrow> db_put_handle p h;
           Some (Done ret, buf, h) } }"

definition lastlogin_sql :: "string \<Rightarrow> string" where
  "lastlogin_sql name =
     ''update user set login_cnt=login_cnt+1, login_latest=CURRENT_TIMESTAMP where username='' @
     sql_quote @ name @ sql_quote @ '';''"

definition gas_db_user_update_lastlogin ::
  "'a dbs_scheme mysql_api \<Rightarrow> string \<Rightarrow> 'a dbs_scheme \<Rightarrow> 'a dbs_scheme option"
where
  "gas_db_user_update_lastlogin api name h = do {
     (p, h) \<leftarrow> db_get_instant_handle api h;
     if p = NULL then Some h
     else do {
       let sql = lastlogin_sql name;
       _ \<leftarrow> lib_assert (length sql < SQL_LEN);
       h \<leftarrow> db_set_handle_utf8 api p h;
       d \<leftarrow> get_dbh p h;
       let (_, h) = mysql_real_query api (mysql d) sql h;
       db_put_instant_handle api p h } }"

section \<open>The list of servers\<close>

definition servers_sql :: "int \<Rightarrow> string" where
  "servers_sql ty =
     (if ty = TYPE_ALL then ''select * from server limit 0,30''
      else ''select * from server where type='' @ fmt_d ty @ '' limit 0,30'')"

definition put_server :: "nat \<Rightarrow> db_row \<Rightarrow> byte list \<Rightarrow> byte list option" where
  "put_server s row b = do {
     b \<leftarrow> put_int s (col row 0) b;
     b \<leftarrow> put_strcpy (s + 4) (col row 1) b;
     b \<leftarrow> put_snprintf (s + 36) MAX_NAME_LEN (col row 2) b;
     b \<leftarrow> put_snprintf (s + 68) (MAX_NAME_LEN * 2) (col row 3) b;
     b \<leftarrow> put_int (s + 132) (col row 4) b;
     b \<leftarrow> put_int (s + 136) (col row 5) b;
     b \<leftarrow> put_int (s + 140) (col row 6) b;
     b \<leftarrow> put_int (s + 144) (col row 7) b;
     b \<leftarrow> put_int (s + 148) (col row 8) b;
     b \<leftarrow> put_strcpy (s + 152) (col row 9) b;
     b \<leftarrow> put_int (s + 280) (col row 10) b;
     put_snprintf (s + 284) (MAX_NAME_LEN div 2) (col row 11) b }"

text \<open>The loop over the rows has no bound of its own; it ends with the result.\<close>

fun put_servers :: "nat \<Rightarrow> db_row list \<Rightarrow> byte list \<Rightarrow> (nat \<times> byte list) option" where
  "put_servers i [] b = Some (i, b)"
| "put_servers i (row # rows) b = do {
     b \<leftarrow> put_server (4 + i * SIZEOF_SERVER) row b;
     put_servers (Suc i) rows b }"

definition gas_db_server_info ::
  "'a dbs_scheme mysql_api \<Rightarrow> int \<Rightarrow> byte list \<Rightarrow> 'a dbs_scheme \<Rightarrow> (int db_call \<times> byte list \<times> 'a dbs_scheme) option"
where
  "gas_db_server_info api ty buf h = do {
     (got, h) \<leftarrow> db_get_handle ''gas-user.c'' 151 h;
     case got of
       DbSleeps \<Rightarrow> Some (Blocks, buf, h)
     | DbGot p \<Rightarrow>
         if p = NULL then Some (Done 0, buf, h)
         else do {
           let sql = servers_sql ty;
           _ \<leftarrow> lib_assert (length sql < SQL_LEN);
           h \<leftarrow> db_set_handle_utf8 api p h;
           d \<leftarrow> get_dbh p h;
           let (r, h) = query_rows api (mysql d) sql h;
           (ret, buf) \<leftarrow>
             (case r of
                QueryFailed \<Rightarrow> Some (ERROR, buf)
              | NoResult \<Rightarrow> Some (OK, buf)
              | Rows rows \<Rightarrow> do {
                  (n, buf) \<leftarrow> put_servers 0 rows buf;
                  buf \<leftarrow> put_bytes 0 (le32 (of_nat n)) buf;
                  Some (OK, buf) });
           h \<leftarrow> db_put_handle p h;
           Some (Done ret, buf, h) } }"

section \<open>The text of a statement\<close>

text \<open>
  MySQL reads a statement outside and inside string literals; in a literal a backslash takes the next
  character with it and two quotes stand for one. \<open>sql_code\<close> is the statement with each literal
  replaced by \<open>?\<close>: what the database executes, with the values left out.
\<close>

datatype sql_state = Code | Literal | Escaped | Quote

definition SQL_QUOTE :: char where "SQL_QUOTE = CHR 0x27"
definition SQL_BACKSLASH :: char where "SQL_BACKSLASH = CHR 0x5C"

fun sql_scan :: "sql_state \<Rightarrow> string \<Rightarrow> string" where
  "sql_scan st [] = []"
| "sql_scan Code (c # s) = (if c = SQL_QUOTE then CHR ''?'' # sql_scan Literal s else c # sql_scan Code s)"
| "sql_scan Literal (c # s) =
     (if c = SQL_QUOTE then sql_scan Quote s
      else if c = SQL_BACKSLASH then sql_scan Escaped s else sql_scan Literal s)"
| "sql_scan Escaped (c # s) = sql_scan Literal s"
| "sql_scan Quote (c # s) = (if c = SQL_QUOTE then sql_scan Literal s else c # sql_scan Code s)"

definition sql_code :: "string \<Rightarrow> string" where
  "sql_code sql = sql_scan Code sql"

definition plain :: "string \<Rightarrow> bool" where
  "plain s \<longleftrightarrow> (\<forall>c \<in> set s. c \<noteq> SQL_QUOTE \<and> c \<noteq> SQL_BACKSLASH)"

lemma sql_quote_eq: "sql_quote = [SQL_QUOTE]"
  by (simp add: sql_quote_def SQL_QUOTE_def)

lemma plain_append [simp]: "plain (s @ t) \<longleftrightarrow> plain s \<and> plain t"
  by (auto simp: plain_def)

lemma scan_literal: "plain s \<Longrightarrow> sql_scan Literal (s @ t) = sql_scan Literal t"
  by (induction s) (simp_all add: plain_def)

lemma scan_code: "plain s \<Longrightarrow> sql_scan Code (s @ t) = s @ sql_scan Code t"
  by (induction s) (simp_all add: plain_def)

text \<open>A literal with a plain value, and the text after it unless that starts with a quote.\<close>

lemma scan_value:
  assumes "plain v" "t = [] \<or> hd t \<noteq> SQL_QUOTE"
  shows "sql_scan Code (sql_quote @ v @ sql_quote @ t) = CHR ''?'' # sql_scan Code t"
  using assms by (cases t) (simp_all add: sql_quote_eq scan_literal)

lemma plain_texts:
  "plain ''select count(*) from user where username=''" "plain '' and password=''" "plain '' or username=''"
  by (simp_all add: plain_def SQL_QUOTE_def SQL_BACKSLASH_def)

lemma isalnum_plain: "lib_name_sanity (Some s) = 0 \<Longrightarrow> plain s"
proof -
  have "\<not> isalnum SQL_QUOTE" "\<not> isalnum SQL_BACKSLASH" by (simp_all add: SQL_QUOTE_def SQL_BACKSLASH_def isalnum_def isalpha_def)
  then show "lib_name_sanity (Some s) = 0 \<Longrightarrow> plain s" by (auto simp: lib_name_sanity_iff plain_def)
qed

definition AUTH_CODE :: string where
  "AUTH_CODE = ''select count(*) from user where username=? and password=?''"

lemma auth_sql_code:
  assumes "plain name" "plain pwd"
  shows "sql_code (auth_sql name pwd @ t) = AUTH_CODE @ sql_scan Quote t"
proof -
  have h: "sql_quote @ name @ sql_quote @ '' and password='' @ u = sql_quote @ name @ sql_quote @ (CHR '' '' # ''and password='' @ u)" for u
    by simp
  have "sql_code (auth_sql name pwd @ t) =
    ''select count(*) from user where username='' @ sql_scan Code (sql_quote @ name @ sql_quote @ '' and password='' @ sql_quote @ pwd @ sql_quote @ t)"
    by (simp only: sql_code_def auth_sql_def append_assoc scan_code [OF plain_texts(1)])
  also have "sql_scan Code (sql_quote @ name @ sql_quote @ '' and password='' @ sql_quote @ pwd @ sql_quote @ t) =
    CHR ''?'' # sql_scan Code ('' and password='' @ sql_quote @ pwd @ sql_quote @ t)"
    by (rule scan_value [OF assms(1)]) (simp add: SQL_QUOTE_def)
  also have "\<dots> = CHR ''?'' # '' and password='' @ CHR ''?'' # sql_scan Quote t"
    using assms(2) by (simp only: scan_code [OF plain_texts(2)]) (simp add: sql_quote_eq scan_literal)
  finally show ?thesis by (simp add: AUTH_CODE_def)
qed

text \<open>A password with a quote goes on as part of the statement.\<close>

definition injected :: "string \<Rightarrow> string" where
  "injected name = sql_quote @ '' or username='' @ sql_quote @ name"

lemma auth_sql_injected:
  "auth_sql name (injected name) = auth_sql name [] @ '' or username='' @ sql_quote @ name @ sql_quote"
  by (simp add: auth_sql_def injected_def)

section \<open>A database that answers\<close>

text \<open>\<open>mysql_close\<close> changes nothing but the library's own part of the state, and a statement has one row as its result.\<close>

definition mysql_closes :: "'a dbs_scheme mysql_api \<Rightarrow> bool" where
  "mysql_closes api \<longleftrightarrow> (\<forall>m h. \<exists>f. mysql_close api m h = dbs.more_update f h)"

definition mysql_answers :: "'a dbs_scheme mysql_api \<Rightarrow> string \<Rightarrow> db_row \<Rightarrow> bool" where
  "mysql_answers api sql row \<longleftrightarrow> (\<forall>m h. \<exists>f. query_rows api m sql h = (Rows [row], dbs.more_update f h))"

lemma more_update_simps:
  "live (dbs.more_update f h) = live h" "brk (dbs.more_update f h) = brk h" "oom (dbs.more_update f h) = oom h"
  "dbh (dbs.more_update f h) = dbh h" "db_count (dbs.more_update f h) = db_count h"
  by simp_all

lemma db_get_instant_up:
  assumes up: "mysql_up api" and h: "heap_ok h" "oom h = []"
  shows "\<exists>p h'. db_get_instant_handle api h = Some (p, h') \<and> p \<noteq> NULL \<and> valid h' p \<and> heap_ok h' \<and> oom h' = [] \<and>
    db_count h' = db_count h"
proof -
  have o: "\<not> next_oom h" using h(2) by (simp add: next_oom_def)
  obtain h1 where h1: "mem_malloc h = (brk h, h1)" "valid h1 (brk h)" "heap_ok h1" "oom h1 = tl (oom h)"
    "heap.more h1 = heap.more h" "brk h \<noteq> NULL"
    by (rule mem_malloc_node [OF h(1) o]) (rule that)
  have cnt: "db_count h1 = db_count h" using h1(5) by (cases h; cases h1) simp
  let ?p = "brk h"
  define h2 where "h2 = h1\<lparr>dbh := (dbh h1)(?p := zero_dbh)\<rparr>"
  obtain m f1 where 1: "mysql_init api h2 = (m, dbs.more_update f1 h2)" "m \<noteq> NULL"
    using up unfolding mysql_up_def by blast
  define h3 where "h3 = (dbs.more_update f1 h2)\<lparr>dbh := (dbh h2)(?p := zero_dbh\<lparr>mysql := m\<rparr>)\<rparr>"
  obtain f2 where 2: "mysql_real_connect api m (instant_svr h3) h3 = (True, dbs.more_update f2 h3)"
    using up unfolding mysql_up_def by blast
  obtain r f3 where 3: "mysql_real_query api m SET_NAMES (dbs.more_update f2 h3) = (r, dbs.more_update f3 (dbs.more_update f2 h3))"
    using up unfolding mysql_up_def by blast
  have v2: "valid h2 ?p" using h1(2) by (simp add: h2_def valid_def)
  have u: "upd_dbh ?p (\<lambda>d. d\<lparr>mysql := m\<rparr>) (dbs.more_update f1 h2) = Some h3"
    using v2 by (simp add: upd_dbh_def valid_def h3_def) (simp add: h2_def)
  have "db_get_instant_handle api h = Some (?p, dbs.more_update f3 (dbs.more_update f2 h3))"
    using h1(1,6) 1 2 3 u by (simp add: db_get_instant_handle_def h2_def [symmetric])
  moreover have "valid (dbs.more_update f3 (dbs.more_update f2 h3)) ?p" "heap_ok (dbs.more_update f3 (dbs.more_update f2 h3))"
    "oom (dbs.more_update f3 (dbs.more_update f2 h3)) = []" "db_count (dbs.more_update f3 (dbs.more_update f2 h3)) = db_count h"
    using h1(2,3,4) h(2) cnt by (simp_all add: valid_def heap_ok_def h3_def h2_def)
  ultimately show ?thesis using h1(6) by blast
qed

lemma db_put_instant_up:
  assumes "mysql_closes api" "valid h p" "heap_ok h" "oom h = []"
  shows "\<exists>h'. db_put_instant_handle api p h = Some h' \<and> heap_ok h' \<and> oom h' = [] \<and> db_count h' = db_count h"
proof -
  obtain f where f: "mysql_close api (mysql (dbh h p)) h = dbs.more_update f h"
    using assms(1) unfolding mysql_closes_def by blast
  have v: "valid (dbs.more_update f h) p" using assms(2) by (simp add: valid_def)
  have "db_put_instant_handle api p h = Some ((dbs.more_update f h)\<lparr>live := (live h)(p := False)\<rparr>)"
    using assms(2) f mem_free_valid [OF v] by (simp add: db_put_instant_handle_def get_dbh_def)
  then show ?thesis using assms(3,4) by (simp add: heap_ok_def)
qed

lemma db_set_utf8_up:
  assumes "mysql_up api" "valid h p"
  shows "\<exists>f. db_set_handle_utf8 api p h = Some (dbs.more_update f h)"
proof -
  obtain r f where "mysql_real_query api (mysql (dbh h p)) SET_NAMES h = (r, dbs.more_update f h)"
    using assms(1) unfolding mysql_up_def by blast
  then show ?thesis using assms(2) by (auto simp: db_set_handle_utf8_def get_dbh_def)
qed

text \<open>The login is accepted exactly when the count for the statement is \<open>1\<close>.\<close>

lemma gas_db_user_auth_up:
  assumes up: "mysql_up api" "mysql_closes api" and ans: "mysql_answers api (auth_sql name pwd) row" "col row 0 = Some s"
    and sql: "length (auth_sql name pwd) < SQL_LEN" and h: "heap_ok h" "oom h = []"
  shows "\<exists>h'. gas_db_user_auth api name pwd h = Some (atoi s = 1, h') \<and> heap_ok h' \<and> oom h' = [] \<and> db_count h' = db_count h"
proof -
  obtain p h1 where 1: "db_get_instant_handle api h = Some (p, h1)" "p \<noteq> NULL" "valid h1 p" "heap_ok h1" "oom h1 = []"
    "db_count h1 = db_count h"
    using db_get_instant_up [OF up(1) h] by blast
  obtain f where 2: "db_set_handle_utf8 api p h1 = Some (dbs.more_update f h1)"
    using db_set_utf8_up [OF up(1) 1(3)] by blast
  let ?h2 = "dbs.more_update f h1"
  obtain k where 3: "query_rows api (mysql (dbh h1 p)) (auth_sql name pwd) ?h2 = (Rows [row], dbs.more_update k ?h2)"
    using ans(1) unfolding mysql_answers_def by blast
  have v: "valid (dbs.more_update k ?h2) p" "heap_ok (dbs.more_update k ?h2)" "oom (dbs.more_update k ?h2) = []"
    "valid ?h2 p" "dbh ?h2 p = dbh h1 p" "db_count (dbs.more_update k ?h2) = db_count h"
    using 1 by (simp_all add: valid_def heap_ok_def)
  obtain h' where 4: "db_put_instant_handle api p (dbs.more_update k ?h2) = Some h'" "heap_ok h'" "oom h' = []"
    "db_count h' = db_count h"
    using db_put_instant_up [OF up(2) v(1-3)] v(6) by auto
  have "gas_db_user_auth api name pwd h = Some (atoi s = 1, h')"
    using 1(1,2) 2 3 4(1) v(4,5) sql ans(2)
    by (simp add: gas_db_user_auth_def get_dbh_def auth_count_def Let_def)
  then show ?thesis using 4 by blast
qed

lemma gas_db_user_update_lastlogin_up:
  assumes up: "mysql_up api" "mysql_closes api" and sql: "length (lastlogin_sql name) < SQL_LEN" and h: "heap_ok h" "oom h = []"
  shows "\<exists>h'. gas_db_user_update_lastlogin api name h = Some h'"
proof -
  obtain p h1 where 1: "db_get_instant_handle api h = Some (p, h1)" "p \<noteq> NULL" "valid h1 p" "heap_ok h1" "oom h1 = []"
    using db_get_instant_up [OF up(1) h] by blast
  obtain f where 2: "db_set_handle_utf8 api p h1 = Some (dbs.more_update f h1)"
    using db_set_utf8_up [OF up(1) 1(3)] by blast
  let ?h2 = "dbs.more_update f h1"
  obtain r k where 3: "mysql_real_query api (mysql (dbh h1 p)) (lastlogin_sql name) ?h2 = (r, dbs.more_update k ?h2)"
    using up(1) unfolding mysql_up_def by blast
  have v: "valid (dbs.more_update k ?h2) p" "heap_ok (dbs.more_update k ?h2)" "oom (dbs.more_update k ?h2) = []"
    "valid ?h2 p" "dbh ?h2 p = dbh h1 p"
    using 1 by (simp_all add: valid_def heap_ok_def)
  obtain h' where 4: "db_put_instant_handle api p (dbs.more_update k ?h2) = Some h'"
    using db_put_instant_up [OF up(2) v(1-3)] by auto
  have "gas_db_user_update_lastlogin api name h = Some h'"
    using 1(1,2) 2 3 4 v(4,5) sql by (simp add: gas_db_user_update_lastlogin_def get_dbh_def Let_def)
  then show ?thesis by blast
qed

end
