(* ===== verification/LibMsgConsumer.thy ===== *)
theory LibMsgConsumer imports LibMsgPool LibThread LibString begin

text \<open>
  \<open>Server/Lib/lib-msg-consumer.c\<close>: a consumer has two message pools, a cache of free buffers and a pool
  that passes messages from producers to its loop. The loop handles a message itself or hands it to a
  worker of the thread pool, after which the buffer goes back to the cache. The state joins the message
  pools of LibMsgPool with the thread pools of LibThread, which live in a memory of their own
  (\<open>mc_threads\<close>); the functions of the owner are parameters.

  A \<open>msg_consumer_t\<close> at \<open>mc\<close> has \<open>pool_cache\<close> at \<open>mc + 1\<close> (the head of its list at \<open>mc + 2\<close>) and
  \<open>pool_consumer\<close> at \<open>mc + 3\<close> (head at \<open>mc + 4\<close>).
\<close>

section \<open>State\<close>

record msg_consumer =
  mc_name :: string
  mc_run :: int
  mc_initialised :: int
  consumer_fun :: nat
  producer_fun :: nat
  consumer_param :: ptr
  producer_param :: ptr
  is_multi_thread :: int

record consumers = msg_pools +
  mcons :: "ptr \<Rightarrow> msg_consumer"
  mc_threads :: threads

text \<open>The functions of the owner: number, parameter and message.\<close>

record 'w mc_codes =
  consume :: "nat \<Rightarrow> ptr \<Rightarrow> ptr \<Rightarrow> 'w \<Rightarrow> (int \<times> 'w) option"
  produce :: "nat \<Rightarrow> ptr \<Rightarrow> ptr \<Rightarrow> 'w \<Rightarrow> (int \<times> 'w) option"

abbreviation (input) pool_cache :: "ptr \<Rightarrow> ptr" where "pool_cache mc \<equiv> mc + 1"
abbreviation (input) pool_consumer :: "ptr \<Rightarrow> ptr" where "pool_consumer mc \<equiv> mc + 3"

definition get_mc :: "ptr \<Rightarrow> 'a consumers_scheme \<Rightarrow> msg_consumer option" where
  "get_mc mc h = do { _ \<leftarrow> lib_assert (valid h mc); Some (mcons h mc) }"

definition upd_mc :: "ptr \<Rightarrow> (msg_consumer \<Rightarrow> msg_consumer) \<Rightarrow> 'a consumers_scheme \<Rightarrow> 'a consumers_scheme option" where
  "upd_mc mc f h = do { _ \<leftarrow> lib_assert (valid h mc); Some (h\<lparr>mcons := (mcons h)(mc := f (mcons h mc))\<rparr>) }"

section \<open>The operations\<close>

definition IS_MC_RUN :: "ptr \<Rightarrow> 'a consumers_scheme \<Rightarrow> bool option" where
  "IS_MC_RUN mc h =
     (if mc = NULL then Some False
      else do { c \<leftarrow> get_mc mc h; Some (mc_initialised c \<noteq> 0 \<and> mc_run c \<noteq> 0) })"

definition mc_get_msg_from_cache :: "ptr \<Rightarrow> 'a consumers_scheme \<Rightarrow> (ptr \<times> 'a consumers_scheme) option" where
  "mc_get_msg_from_cache mc h = do {
     _ \<leftarrow> lib_assert (valid h (pool_cache mc));
     msg_pool_get (pool_cache mc) (sint (msg_payload_len h (pool_cache mc))) h }"

definition mc_get_msg_from_consumer :: "ptr \<Rightarrow> 'a consumers_scheme \<Rightarrow> (consumer_result \<times> 'a consumers_scheme) option" where
  "mc_get_msg_from_consumer mc h = msg_pool_consumer (pool_consumer mc) h"

definition mc_put_msg_to_cache :: "ptr \<Rightarrow> ptr \<Rightarrow> 'a consumers_scheme \<Rightarrow> 'a consumers_scheme option" where
  "mc_put_msg_to_cache mc pmsg h = msg_pool_put (pool_cache mc) pmsg h"

text \<open>The flag says whether a waiting consumer is signalled.\<close>

definition mc_put_msg_to_consumer :: "ptr \<Rightarrow> ptr \<Rightarrow> 'a consumers_scheme \<Rightarrow> (bool \<times> 'a consumers_scheme) option" where
  "mc_put_msg_to_consumer mc pmsg h = msg_pool_producer (pool_consumer mc) pmsg h"

text \<open>What both initialisers write once the pools are there; \<open>strncpy\<close> stops at \<open>MAX_NAME_LEN\<close>.\<close>

definition mc_setup ::
  "ptr \<Rightarrow> string \<Rightarrow> nat \<Rightarrow> ptr \<Rightarrow> nat \<Rightarrow> ptr \<Rightarrow> int \<Rightarrow> 'a consumers_scheme \<Rightarrow> 'a consumers_scheme option"
where
  "mc_setup mc name cfun cparam pfun pparam multi h =
     upd_mc mc (\<lambda>c. c\<lparr>consumer_fun := cfun, consumer_param := cparam, producer_fun := pfun,
       producer_param := pparam, is_multi_thread := multi, mc_name := take MAX_NAME_LEN name,
       mc_initialised := 1\<rparr>) h"

text \<open>What the initialisers of the thread library return, for the cache and for the consumer pool.\<close>

record pool_answers =
  cache_lock_rc :: int
  cache_cond_rc :: int
  cons_lock_rc :: int
  cons_cond_rc :: int

definition mc_init_pools ::
  "pool_answers \<Rightarrow> ptr \<Rightarrow> 32 word \<Rightarrow> 32 word \<Rightarrow> 32 word \<Rightarrow> 32 word \<Rightarrow> 'a consumers_scheme \<Rightarrow> (bool \<times> 'a consumers_scheme) option"
where
  "mc_init_pools rc mc cnt len ccnt clen h = do {
     (ret, h) \<leftarrow> msg_pool_init (cache_lock_rc rc) (cache_cond_rc rc) (pool_cache mc) MSG_POOL_TYPE_CACHE cnt len h;
     if ret \<noteq> 0 then Some (False, h)
     else do {
       (ret, h) \<leftarrow> msg_pool_init (cons_lock_rc rc) (cons_cond_rc rc) (pool_consumer mc) MSG_POOL_TYPE_CONSUMER_PRODUCER ccnt clen h;
       Some (ret = 0, h) } }"

definition mc_multi_thread_init ::
  "pool_answers \<Rightarrow> ptr \<Rightarrow> string \<Rightarrow> nat \<Rightarrow> ptr \<Rightarrow> nat \<Rightarrow> ptr \<Rightarrow> int \<Rightarrow> 'a consumers_scheme \<Rightarrow> (int \<times> 'a consumers_scheme) option"
where
  "mc_multi_thread_init rc mc name cfun cparam pfun pparam multi h =
     (if mc = NULL then Some (ERROR, h)
      else do {
        _ \<leftarrow> lib_assert (valid h (pool_cache mc));
        (ok, h) \<leftarrow> mc_init_pools rc mc (mp_count h (pool_cache mc)) (msg_payload_len h (pool_cache mc)) 0 0 h;
        if \<not> ok then Some (ERROR, h)
        else do { h \<leftarrow> mc_setup mc name cfun cparam pfun pparam multi h; Some (OK, h) } })"

text \<open>The count of buffers is passed to both pools.\<close>

definition mc_init_with_msglen ::
  "pool_answers \<Rightarrow> ptr \<Rightarrow> string \<Rightarrow> nat \<Rightarrow> ptr \<Rightarrow> nat \<Rightarrow> ptr \<Rightarrow> int \<Rightarrow> int \<Rightarrow> int \<Rightarrow> 'a consumers_scheme \<Rightarrow> (int \<times> 'a consumers_scheme) option"
where
  "mc_init_with_msglen rc mc name cfun cparam pfun pparam cnt len multi h =
     (if mc = NULL then Some (ERROR, h)
      else do {
        (ok, h) \<leftarrow> mc_init_pools rc mc (word_of_int cnt) (word_of_int len) (word_of_int cnt) (word_of_int len) h;
        if \<not> ok then Some (ERROR, h)
        else do { h \<leftarrow> mc_setup mc name cfun cparam pfun pparam multi h; Some (OK, h) } })"

definition mc_stop :: "ptr \<Rightarrow> 'a consumers_scheme \<Rightarrow> 'a consumers_scheme option" where
  "mc_stop mc h = (if mc \<noteq> NULL then upd_mc mc (\<lambda>c. c\<lparr>mc_run := 0\<rparr>) h else Some h)"

definition mc_start :: "ptr \<Rightarrow> 'a consumers_scheme \<Rightarrow> 'a consumers_scheme option" where
  "mc_start mc h = (if mc \<noteq> NULL then upd_mc mc (\<lambda>c. c\<lparr>mc_run := 1\<rparr>) h else Some h)"

definition mc_finl :: "ptr \<Rightarrow> 'a consumers_scheme \<Rightarrow> 'a consumers_scheme option" where
  "mc_finl mc h = do {
     running \<leftarrow> IS_MC_RUN mc h;
     h \<leftarrow> (if running then mc_stop mc h else Some h);
     h \<leftarrow> upd_mc mc (\<lambda>c. c\<lparr>mc_run := 0, mc_initialised := 0, consumer_fun := 0, consumer_param := NULL,
            producer_fun := 0, producer_param := NULL\<rparr>) h;
     (_, h) \<leftarrow> msg_pool_finl (pool_cache mc) h;
     (_, h) \<leftarrow> msg_pool_finl (pool_consumer mc) h;
     Some h }"

definition mc_consumer_thread_wrapper ::
  "'a consumers_scheme mc_codes \<Rightarrow> ptr \<Rightarrow> ptr \<Rightarrow> 'a consumers_scheme \<Rightarrow> 'a consumers_scheme option"
where
  "mc_consumer_thread_wrapper cds mc pmsg h = do {
     c \<leftarrow> get_mc mc h;
     (_, h) \<leftarrow> consume cds (consumer_fun c) (consumer_param c) pmsg h;
     mc_put_msg_to_cache mc pmsg h }"

text \<open>
  The number under which the thread pool knows \<open>mc_consumer_thread_wrapper\<close>, and the two ways a loop
  hands a message to it: to the pool of the process, or to the one that is the consumer's parameter.
\<close>

definition WRAPPER :: nat where "WRAPPER = 1"

definition dispatch_new :: "thread_answers \<Rightarrow> ptr \<Rightarrow> ptr \<Rightarrow> ptr \<Rightarrow> 'a consumers_scheme \<Rightarrow> (dispatch_result \<times> 'a consumers_scheme) option" where
  "dispatch_new ans param mc pmsg h = do {
     (r, t) \<leftarrow> thread_dispatch ans WRAPPER mc pmsg ''lib-msg-consumer.c'' 169 (mc_threads h);
     Some (r, h\<lparr>mc_threads := t\<rparr>) }"

definition dispatch_tp :: "thread_answers \<Rightarrow> ptr \<Rightarrow> ptr \<Rightarrow> ptr \<Rightarrow> 'a consumers_scheme \<Rightarrow> (dispatch_result \<times> 'a consumers_scheme) option" where
  "dispatch_tp ans param mc pmsg h = do {
     (r, t) \<leftarrow> thread_dispatch_with_tp ans WRAPPER mc pmsg param ''lib-msg-consumer.c'' 197 (mc_threads h);
     Some (r, h\<lparr>mc_threads := t\<rparr>) }"

text \<open>
  A round of the loop once it has a message. The result is false when the dispatcher goes to sleep
  because all workers are busy. Without a function the message is dropped.
\<close>

definition mc_handle ::
  "(ptr \<Rightarrow> ptr \<Rightarrow> ptr \<Rightarrow> 'a consumers_scheme \<Rightarrow> (dispatch_result \<times> 'a consumers_scheme) option) \<Rightarrow>
   'a consumers_scheme mc_codes \<Rightarrow> ptr \<Rightarrow> ptr \<Rightarrow> 'a consumers_scheme \<Rightarrow> (bool \<times> 'a consumers_scheme) option"
where
  "mc_handle dispatch cds mc pmsg h = do {
     c \<leftarrow> get_mc mc h;
     if consumer_fun c \<noteq> 0 \<and> is_multi_thread c = 0
     then do {
       (_, h) \<leftarrow> consume cds (consumer_fun c) (consumer_param c) pmsg h;
       h \<leftarrow> mc_put_msg_to_cache mc pmsg h;
       Some (True, h) }
     else if consumer_fun c \<noteq> 0 \<and> is_multi_thread c \<noteq> 0
     then do {
       (r, h) \<leftarrow> dispatch (consumer_param c) mc pmsg h;
       Some (r \<noteq> DispatchSleeps, h) }
     else Some (True, h) }"

text \<open>
  How a loop ends: it returns, it sleeps until a message or a worker is there, or it still runs after
  the number of rounds given.
\<close>

datatype mc_end = McReturns int | McAsleep | McWaitsForWorker ptr | McStillRuns

fun mc_loop ::
  "(ptr \<Rightarrow> ptr \<Rightarrow> ptr \<Rightarrow> 'a consumers_scheme \<Rightarrow> (dispatch_result \<times> 'a consumers_scheme) option) \<Rightarrow>
   'a consumers_scheme mc_codes \<Rightarrow> ptr \<Rightarrow> nat \<Rightarrow> 'a consumers_scheme \<Rightarrow> (mc_end \<times> 'a consumers_scheme) option"
where
  "mc_loop dispatch cds mc 0 h = Some (McStillRuns, h)"
| "mc_loop dispatch cds mc (Suc n) h = do {
     running \<leftarrow> IS_MC_RUN mc h;
     if \<not> running then Some (McReturns OK, h)
     else do {
       (r, h) \<leftarrow> mc_get_msg_from_consumer mc h;
       case r of
         Waiting \<Rightarrow> Some (McAsleep, h)
       | Got pmsg \<Rightarrow>
           if pmsg = NULL then Some (McReturns OK, h)
           else do {
             (go, h) \<leftarrow> mc_handle dispatch cds mc pmsg h;
             if go then mc_loop dispatch cds mc n h else Some (McWaitsForWorker pmsg, h) } } }"

definition mc_consumer_run ::
  "thread_answers \<Rightarrow> 'a consumers_scheme mc_codes \<Rightarrow> ptr \<Rightarrow> nat \<Rightarrow> 'a consumers_scheme \<Rightarrow> (mc_end \<times> 'a consumers_scheme) option"
where
  "mc_consumer_run ans cds mc n h = mc_loop (dispatch_new ans) cds mc n h"

definition mc_consumer_run_with_tp ::
  "thread_answers \<Rightarrow> 'a consumers_scheme mc_codes \<Rightarrow> ptr \<Rightarrow> nat \<Rightarrow> 'a consumers_scheme \<Rightarrow> (mc_end \<times> 'a consumers_scheme) option"
where
  "mc_consumer_run_with_tp ans cds mc n h = mc_loop (dispatch_tp ans) cds mc n h"

definition mc_producer_get_msg_len :: "ptr \<Rightarrow> 'a consumers_scheme \<Rightarrow> int option" where
  "mc_producer_get_msg_len mc h =
     (if mc \<noteq> NULL then do { _ \<leftarrow> lib_assert (valid h (pool_cache mc)); Some (sint (msg_payload_len h (pool_cache mc))) }
      else Some 0)"

definition mc_producer_get_msg :: "ptr \<Rightarrow> 'a consumers_scheme \<Rightarrow> (ptr \<times> 'a consumers_scheme) option" where
  "mc_producer_get_msg mc h = mc_get_msg_from_cache mc h"

definition mc_producer_run ::
  "'a consumers_scheme mc_codes \<Rightarrow> ptr \<Rightarrow> ptr \<Rightarrow> 'a consumers_scheme \<Rightarrow> (int \<times> 'a consumers_scheme) option"
where
  "mc_producer_run cds mc pmsg h =
     (if pmsg = NULL then Some (ERROR, h)
      else do {
        c \<leftarrow> get_mc mc h;
        (_, h) \<leftarrow> (if producer_fun c \<noteq> 0 then produce cds (producer_fun c) (producer_param c) pmsg h else Some (0, h));
        (_, h) \<leftarrow> mc_put_msg_to_consumer mc pmsg h;
        Some (OK, h) })"

section \<open>The buffers of a consumer\<close>

text \<open>\<open>cs\<close> are the free buffers of the cache, \<open>ms\<close> the messages that wait for the loop, the next one first.\<close>

definition mc_pools :: "'a consumers_scheme \<Rightarrow> ptr \<Rightarrow> ptr list \<Rightarrow> ptr list \<Rightarrow> bool" where
  "mc_pools h mc cs ms \<longleftrightarrow> valid h mc \<and> pool_rep h (pool_cache mc) MSG_POOL_TYPE_CACHE cs \<and>
     pool_rep h (pool_consumer mc) MSG_POOL_TYPE_CONSUMER_PRODUCER ms \<and> set cs \<inter> set ms = {} \<and>
     msg_list (pool_cache mc) \<notin> set ms \<and> msg_list (pool_consumer mc) \<notin> set cs \<and>
     List.length cs + List.length ms < 2 ^ 32"

text \<open>A step that touches the pools and nothing else.\<close>

definition mc_same :: "'a consumers_scheme \<Rightarrow> 'a consumers_scheme \<Rightarrow> bool" where
  "mc_same h' h \<longleftrightarrow> live h' = live h \<and> mcons h' = mcons h \<and> it_payload h' = it_payload h \<and>
     mc_threads h' = mc_threads h \<and> consumers.more h' = consumers.more h"

text \<open>The heads of the messages.\<close>

definition msg_heads :: "'a consumers_scheme \<Rightarrow> (ptr \<Rightarrow> ptr) \<times> (ptr \<Rightarrow> 32 word) \<times> (ptr \<Rightarrow> 32 word)" where
  "msg_heads h = (it_peer h, it_msg h, it_len h)"

lemma msg_heads_links [simp]:
  "it_peer (unlinked p x n h) = it_peer h" "it_msg (unlinked p x n h) = it_msg h" "it_len (unlinked p x n h) = it_len h"
  "it_peer (linked p x n h) = it_peer h" "it_msg (linked p x n h) = it_msg h" "it_len (linked p x n h) = it_len h"
  by (simp_all add: unlinked_def linked_def)

lemma mc_threads_links [simp]:
  "mc_threads (unlinked p x n h) = mc_threads h" "mc_threads (linked p x n h) = mc_threads h"
  by (cases h; simp add: unlinked_def linked_def)+

lemma mc_same_links [simp]:
  "mc_same ((unlinked p x n h)\<lparr>mp_count := c\<rparr>) h" "mc_same ((linked p x n h)\<lparr>mp_count := c\<rparr>) h"
  by (simp_all add: mc_same_def) (simp_all add: linked_def unlinked_def)

lemma pool_rep_frame:
  assumes "pool_rep h mp ty ms" "dlist h' (msg_list mp) ms" "valid h' mp" "mp_type h' mp = mp_type h mp"
    "mp_count h' mp = mp_count h mp"
  shows "pool_rep h' mp ty ms"
  using assms by (simp add: pool_rep_def)

text \<open>Taking the first node of one pool and putting a node into one, with the list of another kept.\<close>

lemma pool_out:
  assumes r: "pool_rep h mp ty (m # ms)" and o: "dlist h kk zs"
    and apart: "set (kk # zs) \<inter> set (msg_list mp # m # ms) = {}"
  obtains p n where "get_next h (msg_list mp) = Some m" "m \<noteq> NULL" "lib_list_del m h = Some (unlinked p m n h)"
    "pool_rep ((unlinked p m n h)\<lparr>mp_count := (mp_count h)(mp := mp_count h mp - 1)\<rparr>) mp ty ms"
    "dlist ((unlinked p m n h)\<lparr>mp_count := (mp_count h)(mp := mp_count h mp - 1)\<rparr>) kk zs"
proof -
  note f = pool_rep_facts [OF r]
  have mi: "m \<in> set (m # ms)" by simp
  obtain p n where d: "lib_list_del m h = Some (unlinked p m n h)"
    "dlist (unlinked p m n h) (msg_list mp) (remove1 m (m # ms))" "p \<in> set (msg_list mp # m # ms)"
    "n \<in> set (msg_list mp # m # ms)"
    by (rule lib_list_del_dlist [OF f(3) mi])
  have nx: "get_next h (msg_list mp) = Some m" using dlist_next [OF f(3)] by simp
  have m: "m \<noteq> NULL" using f(3) by (auto simp: dlist_def dest: valid_pos)
  let ?h = "(unlinked p m n h)\<lparr>mp_count := (mp_count h)(mp := mp_count h mp - 1)\<rparr>"
  have same: "dlist ?h qq ws = dlist (unlinked p m n h) qq ws" for qq ws by (rule dlist_cong) simp_all
  have "p \<notin> set (kk # zs)" "n \<notin> set (kk # zs)" "m \<notin> set (kk # zs)" using d(3,4) apart by auto
  then have "dlist ?h kk zs" using unlinked_frame [OF o] same by blast
  moreover have "dlist ?h (msg_list mp) ms" using d(2) same by simp
  then have "pool_rep ?h mp ty ms" using f by (simp add: pool_rep_def valid_def)
  ultimately show ?thesis using that [OF nx m d(1)] by blast
qed

lemma pool_in:
  assumes r: "pool_rep h mp ty ms" and d: "dlist (linked p x n h) (msg_list mp) ms'"
    and l: "List.length ms' = Suc (List.length ms)" "List.length ms' < 2 ^ 32"
    and o: "dlist h kk zs" "p \<notin> set (kk # zs)" "n \<notin> set (kk # zs)" "x \<notin> set (kk # zs)"
  shows "pool_rep ((linked p x n h)\<lparr>mp_count := (mp_count h)(mp := mp_count h mp + 1)\<rparr>) mp ty ms'"
    "dlist ((linked p x n h)\<lparr>mp_count := (mp_count h)(mp := mp_count h mp + 1)\<rparr>) kk zs"
proof -
  note f = pool_rep_facts [OF r]
  let ?h = "(linked p x n h)\<lparr>mp_count := (mp_count h)(mp := mp_count h mp + 1)\<rparr>"
  have same: "dlist ?h qq ws = dlist (linked p x n h) qq ws" for qq ws by (rule dlist_cong) simp_all
  show "dlist ?h kk zs" using linked_frame [OF o] same by blast
  have "dlist ?h (msg_list mp) ms'" using d same by blast
  then show "pool_rep ?h mp ty ms'" using f l by (simp add: pool_rep_def valid_def add.commute)
qed

lemma mc_poolsD:
  assumes "mc_pools h mc cs ms"
  shows "pool_rep h (pool_cache mc) MSG_POOL_TYPE_CACHE cs" "pool_rep h (pool_consumer mc) MSG_POOL_TYPE_CONSUMER_PRODUCER ms"
    "set (msg_list (pool_cache mc) # cs) \<inter> set (msg_list (pool_consumer mc) # ms) = {}"
    "dlist h (msg_list (pool_cache mc)) cs" "dlist h (msg_list (pool_consumer mc)) ms" "valid h mc"
    "List.length cs + List.length ms < 2 ^ 32"
  using assms by (auto simp: mc_pools_def pool_rep_def)

lemma mc_poolsI:
  assumes "valid h mc" "pool_rep h (pool_cache mc) MSG_POOL_TYPE_CACHE cs"
    "pool_rep h (pool_consumer mc) MSG_POOL_TYPE_CONSUMER_PRODUCER ms"
    "set (msg_list (pool_cache mc) # cs) \<inter> set (msg_list (pool_consumer mc) # ms) = {}"
    "List.length cs + List.length ms < 2 ^ 32"
  shows "mc_pools h mc cs ms"
  using assms by (auto simp: mc_pools_def)

text \<open>The four moves: a buffer leaves the cache, is sent, is taken by the loop, and comes back.\<close>

lemma mc_take:
  assumes r: "mc_pools h mc cs (m # ms)"
  shows "\<exists>h'. mc_get_msg_from_consumer mc h = Some (Got m, h') \<and> mc_pools h' mc cs ms \<and> mc_same h' h \<and>
     m \<noteq> NULL \<and> valid h' m \<and> m \<notin> set (msg_list (pool_cache mc) # cs) \<and> m \<notin> set (msg_list (pool_consumer mc) # ms)"
proof -
  let ?mp = "pool_consumer mc"
  note d = mc_poolsD [OF r]
  note f = pool_rep_facts [OF d(2)] and g = pool_rep_facts [OF d(1)]
  obtain p n where o: "get_next h (msg_list ?mp) = Some m" "m \<noteq> NULL" "lib_list_del m h = Some (unlinked p m n h)"
    "pool_rep ((unlinked p m n h)\<lparr>mp_count := (mp_count h)(?mp := mp_count h ?mp - 1)\<rparr>) ?mp MSG_POOL_TYPE_CONSUMER_PRODUCER ms"
    "dlist ((unlinked p m n h)\<lparr>mp_count := (mp_count h)(?mp := mp_count h ?mp - 1)\<rparr>) (msg_list (pool_cache mc)) cs"
    by (rule pool_out [OF d(2,4,3)])
  let ?h = "(unlinked p m n h)\<lparr>mp_count := (mp_count h)(?mp := mp_count h ?mp - 1)\<rparr>"
  have m: "valid h m" "m \<notin> set (msg_list ?mp # ms)" using f(3) by (auto simp: dlist_def)
  have "mp_count h ?mp \<noteq> 0" using f(4) count_zero_iff [OF f(5)] by simp
  then have ev: "mc_get_msg_from_consumer mc h = Some (Got m, ?h)"
    using f(1,2) o(1-3)
    by (simp add: mc_get_msg_from_consumer_def msg_pool_consumer_def CHECK_POOL_CONSUMER_def consumer_take_def)
  have "pool_rep ?h (pool_cache mc) MSG_POOL_TYPE_CACHE cs"
    by (rule pool_rep_frame [OF d(1) o(5)]) (use g(1) in \<open>simp_all add: valid_def\<close>)
  then have "mc_pools ?h mc cs ms"
    using o(4) d(3,6,7) by (intro mc_poolsI) (auto simp: valid_def)
  then show ?thesis using ev m o(2) d(3) by (intro exI [of _ ?h]) (auto simp: valid_def)
qed

lemma mc_take_free:
  assumes r: "mc_pools h mc (x # cs) ms"
  shows "\<exists>h'. mc_get_msg_from_cache mc h = Some (x, h') \<and> mc_pools h' mc cs ms \<and> mc_same h' h \<and>
     x \<noteq> NULL \<and> valid h' x \<and> x \<notin> set (msg_list (pool_cache mc) # cs) \<and> x \<notin> set (msg_list (pool_consumer mc) # ms) \<and>
     msg_heads h' = msg_heads h"
proof -
  let ?mp = "pool_cache mc"
  note d = mc_poolsD [OF r]
  note f = pool_rep_facts [OF d(1)] and g = pool_rep_facts [OF d(2)]
  have ap: "set (msg_list (pool_consumer mc) # ms) \<inter> set (msg_list ?mp # x # cs) = {}" using d(3) by blast
  obtain p n where o: "get_next h (msg_list ?mp) = Some x" "x \<noteq> NULL" "lib_list_del x h = Some (unlinked p x n h)"
    "pool_rep ((unlinked p x n h)\<lparr>mp_count := (mp_count h)(?mp := mp_count h ?mp - 1)\<rparr>) ?mp MSG_POOL_TYPE_CACHE cs"
    "dlist ((unlinked p x n h)\<lparr>mp_count := (mp_count h)(?mp := mp_count h ?mp - 1)\<rparr>) (msg_list (pool_consumer mc)) ms"
    by (rule pool_out [OF d(1,5) ap])
  let ?h = "(unlinked p x n h)\<lparr>mp_count := (mp_count h)(?mp := mp_count h ?mp - 1)\<rparr>"
  have x: "valid h x" "x \<notin> set (msg_list ?mp # cs)" using f(3) by (auto simp: dlist_def)
  have "0 < mp_count h ?mp" using f(4) count_zero_iff [OF f(5)] by (simp add: word_gt_0)
  then have ev: "mc_get_msg_from_cache mc h = Some (x, ?h)"
    using f(1,2) o(1-3)
    by (simp add: mc_get_msg_from_cache_def msg_pool_get_def CHECK_POOL_CACHE_def)
  have "pool_rep ?h (pool_consumer mc) MSG_POOL_TYPE_CONSUMER_PRODUCER ms"
    by (rule pool_rep_frame [OF d(2) o(5)]) (use g(1) in \<open>simp_all add: valid_def\<close>)
  then have "mc_pools ?h mc cs ms"
    using o(4) d(3,6,7) by (intro mc_poolsI) (auto simp: valid_def)
  then show ?thesis using ev x o(2) d(3) by (intro exI [of _ ?h]) (auto simp: valid_def msg_heads_def)
qed

lemma mc_give:
  assumes r: "mc_pools h mc cs ms" and x: "valid h x" "x \<notin> set (msg_list (pool_cache mc) # cs)"
    "x \<notin> set (msg_list (pool_consumer mc) # ms)" and room: "Suc (List.length cs + List.length ms) < 2 ^ 32"
  shows "\<exists>h'. mc_put_msg_to_cache mc x h = Some h' \<and> mc_pools h' mc (x # cs) ms \<and> mc_same h' h"
proof -
  let ?mp = "pool_cache mc"
  note d = mc_poolsD [OF r]
  note f = pool_rep_facts [OF d(1)] and g = pool_rep_facts [OF d(2)]
  obtain n where a: "lib_list_add x (msg_list ?mp) h = Some (linked (msg_list ?mp) x n h)"
    "dlist (linked (msg_list ?mp) x n h) (msg_list ?mp) (x # cs)" "n \<in> set (msg_list ?mp # cs)"
    by (rule lib_list_add_ok [OF f(3) x(1,2)])
  let ?h = "(linked (msg_list ?mp) x n h)\<lparr>mp_count := (mp_count h)(?mp := mp_count h ?mp + 1)\<rparr>"
  have ev: "mc_put_msg_to_cache mc x h = Some ?h"
    using f(1,2) a(1) by (simp add: mc_put_msg_to_cache_def msg_pool_put_def CHECK_POOL_CACHE_def)
  have away: "msg_list ?mp \<notin> set (msg_list (pool_consumer mc) # ms)" "n \<notin> set (msg_list (pool_consumer mc) # ms)"
    using d(3) a(3) by auto
  have p: "pool_rep ?h ?mp MSG_POOL_TYPE_CACHE (x # cs)" "dlist ?h (msg_list (pool_consumer mc)) ms"
    by (rule pool_in [OF d(1) a(2) _ _ d(5) away x(3)]; use room in simp)+
  have "pool_rep ?h (pool_consumer mc) MSG_POOL_TYPE_CONSUMER_PRODUCER ms"
    by (rule pool_rep_frame [OF d(2) p(2)]) (use g(1) in \<open>simp_all add: valid_def\<close>)
  then have "mc_pools ?h mc (x # cs) ms"
    using p(1) d(3,6) x(3) room by (intro mc_poolsI) (auto simp: valid_def)
  then show ?thesis using ev by (intro exI [of _ ?h]) simp
qed

lemma mc_send:
  assumes r: "mc_pools h mc cs ms" and x: "valid h x" "x \<notin> set (msg_list (pool_cache mc) # cs)"
    "x \<notin> set (msg_list (pool_consumer mc) # ms)" and room: "Suc (List.length cs + List.length ms) < 2 ^ 32"
  shows "\<exists>sig h'. mc_put_msg_to_consumer mc x h = Some (sig, h') \<and> mc_pools h' mc cs (ms @ [x]) \<and> mc_same h' h \<and>
     msg_heads h' = msg_heads h"
proof -
  let ?mp = "pool_consumer mc"
  note d = mc_poolsD [OF r]
  note f = pool_rep_facts [OF d(2)] and g = pool_rep_facts [OF d(1)]
  obtain q where a: "lib_list_add_tail x (msg_list ?mp) h = Some (linked q x (msg_list ?mp) h)"
    "dlist (linked q x (msg_list ?mp) h) (msg_list ?mp) (ms @ [x])" "q \<in> set (msg_list ?mp # ms)"
    by (rule lib_list_add_tail_ok [OF f(3) x(1,3)])
  let ?h = "(linked q x (msg_list ?mp) h)\<lparr>mp_count := (mp_count h)(?mp := mp_count h ?mp + 1)\<rparr>"
  have x0: "x \<noteq> NULL" using x(1) by (auto dest: valid_pos)
  have ev: "\<exists>sig. mc_put_msg_to_consumer mc x h = Some (sig, ?h)"
    using f(1,2,6) x0 a(1) by (simp add: mc_put_msg_to_consumer_def msg_pool_producer_def CHECK_POOL_CONSUMER_def Let_def)
  have away: "q \<notin> set (msg_list (pool_cache mc) # cs)" "msg_list ?mp \<notin> set (msg_list (pool_cache mc) # cs)"
    using d(3) a(3) by auto
  have p: "pool_rep ?h ?mp MSG_POOL_TYPE_CONSUMER_PRODUCER (ms @ [x])" "dlist ?h (msg_list (pool_cache mc)) cs"
    by (rule pool_in [OF d(2) a(2) _ _ d(4) away x(2)]; use room in simp)+
  have "pool_rep ?h (pool_cache mc) MSG_POOL_TYPE_CACHE cs"
    by (rule pool_rep_frame [OF d(1) p(2)]) (use g(1) in \<open>simp_all add: valid_def\<close>)
  then have "mc_pools ?h mc cs (ms @ [x])"
    using p(1) d(3,6) x(2) room by (intro mc_poolsI) (auto simp: valid_def)
  then show ?thesis using ev by (auto simp: msg_heads_def intro!: exI [of _ ?h])
qed

lemma mc_more [simp]: "mc_pools (consumers.more_update g h) mc cs ms = mc_pools h mc cs ms"
proof -
  have d: "dlist (consumers.more_update g h) kk zs = dlist h kk zs" for kk zs by (rule dlist_cong) simp_all
  show ?thesis by (simp add: mc_pools_def pool_rep_def d valid_def)
qed

lemma mc_pools_cong:
  assumes "live h' = live h" "nxt h' = nxt h" "prv h' = prv h" "mp_type h' = mp_type h" "mp_count h' = mp_count h"
  shows "mc_pools h' mc cs ms = mc_pools h mc cs ms"
proof -
  have "dlist h' kk zs = dlist h kk zs" for kk zs by (rule dlist_cong) (use assms in simp_all)
  then show ?thesis using assms by (simp add: mc_pools_def pool_rep_def valid_def)
qed

section \<open>The loop\<close>

text \<open>
  A round on its own thread: the function is called and the buffer goes back to the cache. Of the pools
  and the messages the function changes nothing but the message it is given, which it may write a reply over.
\<close>

definition serves :: "'a consumers_scheme mc_codes \<Rightarrow> (8 word list \<Rightarrow> ptr \<Rightarrow> 'a \<Rightarrow> 'a) \<Rightarrow> bool" where
  "serves cds act \<longleftrightarrow> (\<forall>f param m h. \<exists>r a b c. consume cds f param m h =
     Some (r, consumers.more_update (act (it_payload h m) m)
       (h\<lparr>it_msg := (it_msg h)(m := a), it_len := (it_len h)(m := b), it_payload := (it_payload h)(m := c)\<rparr>)))"

lemma mc_handle_single:
  assumes r: "mc_pools h mc cs ms" and x: "valid h x" "x \<notin> set (msg_list (pool_cache mc) # cs)"
      "x \<notin> set (msg_list (pool_consumer mc) # ms)" and room: "Suc (List.length cs + List.length ms) < 2 ^ 32"
    and c: "consumer_fun (mcons h mc) \<noteq> 0" "is_multi_thread (mcons h mc) = 0" and s: "serves cds act"
  shows "\<exists>h'. mc_handle dispatch cds mc x h = Some (True, h') \<and> mc_pools h' mc (x # cs) ms \<and>
     mcons h' = mcons h \<and> (\<forall>y. y \<noteq> x \<longrightarrow> it_payload h' y = it_payload h y) \<and>
     consumers.more h' = act (it_payload h x) x (consumers.more h)"
proof -
  have v: "valid h mc" using r by (simp add: mc_pools_def)
  obtain ret m l b where ret: "consume cds (consumer_fun (mcons h mc)) (consumer_param (mcons h mc)) x h =
      Some (ret, consumers.more_update (act (it_payload h x) x)
        (h\<lparr>it_msg := (it_msg h)(x := m), it_len := (it_len h)(x := l), it_payload := (it_payload h)(x := b)\<rparr>))"
    using s unfolding serves_def by blast
  define g where "g = consumers.more_update (act (it_payload h x) x)
    (h\<lparr>it_msg := (it_msg h)(x := m), it_len := (it_len h)(x := l), it_payload := (it_payload h)(x := b)\<rparr>)"
  have e: "live g = live h" "nxt g = nxt h" "prv g = prv h" "mp_type g = mp_type h" "mp_count g = mp_count h"
    "mcons g = mcons h" "it_payload g = (it_payload h)(x := b)"
    "consumers.more g = act (it_payload h x) x (consumers.more h)" by (simp_all add: g_def)
  have rg: "mc_pools g mc cs ms" "valid g x" using r x(1) mc_pools_cong [OF e(1-5)] e(1) by (simp_all add: valid_def)
  obtain h' where h': "mc_put_msg_to_cache mc x g = Some h'" "mc_pools h' mc (x # cs) ms" "mc_same h' g"
    using mc_give [OF rg x(2,3) room] by blast
  show ?thesis using v c ret [folded g_def] h' e(6-8) by (simp add: mc_handle_def get_mc_def mc_same_def)
qed

lemma IS_MC_RUN_valid:
  "valid h mc \<Longrightarrow> IS_MC_RUN mc h = Some (mc_initialised (mcons h mc) \<noteq> 0 \<and> mc_run (mcons h mc) \<noteq> 0)"
  by (auto simp: IS_MC_RUN_def get_mc_def dest: valid_pos)

lemma mc_loop_idle:
  assumes "mc_pools h mc cs []" "mc_initialised (mcons h mc) \<noteq> 0" "mc_run (mcons h mc) \<noteq> 0"
  shows "mc_loop dispatch cds mc (Suc k) h = Some (McAsleep, h)"
proof -
  have v: "valid h mc" and pr: "pool_rep h (pool_consumer mc) MSG_POOL_TYPE_CONSUMER_PRODUCER []"
    using assms(1) by (simp_all add: mc_pools_def)
  have "mc_get_msg_from_consumer mc h = Some (Waiting, h)"
    unfolding mc_get_msg_from_consumer_def by (rule msg_pool_consumer_rep(1) [OF pr]) simp
  then show ?thesis using assms v by (simp add: IS_MC_RUN_valid)
qed

lemma mc_loop_single:
  assumes "mc_pools h mc cs ms" "List.length ms < n"
    "mc_initialised (mcons h mc) \<noteq> 0" "mc_run (mcons h mc) \<noteq> 0"
    "consumer_fun (mcons h mc) \<noteq> 0" "is_multi_thread (mcons h mc) = 0" "serves cds act"
  shows "\<exists>h'. mc_loop dispatch cds mc n h = Some (McAsleep, h') \<and> mc_pools h' mc (rev ms @ cs) [] \<and>
     mcons h' = mcons h \<and>
     consumers.more h' = fold (\<lambda>m. act (it_payload h m) m) ms (consumers.more h)"
  using assms
proof (induction ms arbitrary: h cs n)
  case Nil
  then obtain k where n: "n = Suc k" by (cases n) auto
  show ?case using mc_loop_idle [OF Nil.prems(1,3,4)] Nil.prems by (simp add: n)
next
  case (Cons m ms)
  then obtain k where n: "n = Suc k" by (cases n) auto
  have v: "valid h mc" using Cons.prems by (simp add: mc_pools_def)
  obtain h1 where h1: "mc_get_msg_from_consumer mc h = Some (Got m, h1)" "mc_pools h1 mc cs ms" "mc_same h1 h"
    "m \<noteq> NULL" "valid h1 m" "m \<notin> set (msg_list (pool_cache mc) # cs)" "m \<notin> set (msg_list (pool_consumer mc) # ms)"
    using mc_take [OF Cons.prems(1)] by blast
  have room: "Suc (List.length cs + List.length ms) < 2 ^ 32" using Cons.prems(1) by (simp add: mc_pools_def)
  have cf: "consumer_fun (mcons h1 mc) \<noteq> 0" "is_multi_thread (mcons h1 mc) = 0"
    using h1(3) Cons.prems(5,6) by (simp_all add: mc_same_def)
  obtain h2 where h2: "mc_handle dispatch cds mc m h1 = Some (True, h2)" "mc_pools h2 mc (m # cs) ms"
    "mcons h2 = mcons h1" "\<forall>y. y \<noteq> m \<longrightarrow> it_payload h2 y = it_payload h1 y"
    "consumers.more h2 = act (it_payload h1 m) m (consumers.more h1)"
    using mc_handle_single [OF h1(2) h1(5-7) room cf Cons.prems(7)] by blast
  have pre: "mc_initialised (mcons h2 mc) \<noteq> 0" "mc_run (mcons h2 mc) \<noteq> 0" "consumer_fun (mcons h2 mc) \<noteq> 0"
    "is_multi_thread (mcons h2 mc) = 0"
    using Cons.prems(3-6) h2(3) h1(3) by (simp_all add: mc_same_def)
  have "List.length ms < k" using Cons.prems(2) n by simp
  then obtain h' where h': "mc_loop dispatch cds mc k h2 = Some (McAsleep, h')"
    "mc_pools h' mc (rev ms @ m # cs) []" "mcons h' = mcons h2"
    "consumers.more h' = fold (\<lambda>m. act (it_payload h2 m) m) ms (consumers.more h2)"
    using Cons.IH [OF h2(2) _ pre Cons.prems(7)] by blast
  have "mc_loop dispatch cds mc n h = Some (McAsleep, h')"
    using Cons.prems v h1(1,4) h2(1) h'(1) by (simp add: n IS_MC_RUN_valid get_mc_def)
  moreover have "fold (\<lambda>m. act (it_payload h2 m) m) ms z = fold (\<lambda>m. act (it_payload h m) m) ms z" for z
    by (rule fold_cong) (use h1(3,7) h2(4) in \<open>auto simp: mc_same_def\<close>)
  ultimately show ?case using h' h1(3) h2(3-5) by (simp add: mc_same_def)
qed

text \<open>Without a function each message is taken from the pool and goes nowhere.\<close>

lemma mc_loop_no_function:
  assumes "mc_pools h mc cs ms" "List.length ms < n"
    "mc_initialised (mcons h mc) \<noteq> 0" "mc_run (mcons h mc) \<noteq> 0" "consumer_fun (mcons h mc) = 0"
  shows "\<exists>h'. mc_loop dispatch cds mc n h = Some (McAsleep, h') \<and> mc_pools h' mc cs []"
  using assms
proof (induction ms arbitrary: h n)
  case Nil
  then obtain k where n: "n = Suc k" by (cases n) auto
  show ?case using mc_loop_idle [OF Nil.prems(1,3,4)] Nil.prems by (simp add: n)
next
  case (Cons m ms)
  then obtain k where n: "n = Suc k" by (cases n) auto
  have v: "valid h mc" using Cons.prems by (simp add: mc_pools_def)
  obtain h1 where h1: "mc_get_msg_from_consumer mc h = Some (Got m, h1)" "mc_pools h1 mc cs ms" "mc_same h1 h"
    "m \<noteq> NULL" using mc_take [OF Cons.prems(1)] by blast
  have v1: "valid h1 mc" using h1(2) by (simp add: mc_pools_def)
  have "mcons h1 = mcons h" using h1(3) by (simp add: mc_same_def)
  moreover obtain h' where "mc_loop dispatch cds mc k h1 = Some (McAsleep, h')" "mc_pools h' mc cs []"
    using Cons.IH [OF h1(2), of k] Cons.prems n calculation by auto
  ultimately show ?case
    using Cons.prems v v1 h1(1,4) by (simp add: n IS_MC_RUN_valid get_mc_def mc_handle_def)
qed

section \<open>Properties\<close>

text \<open>C24: a consumer that runs in the mode without worker threads (\<open>is_multi_thread\<close> is \<open>0\<close>), with a function
  that always returns and changes, of pools and messages, nothing but the message it is given: while no
  producer adds to the queue, the loop calls the function on every waiting message in the order they were
  sent, each once and with the payload it was sent with, whatever the function wrote over the earlier ones,
  gives every buffer back to the cache, and then sleeps until the next message; this takes no more rounds
  than there are messages, and one.\<close>

theorem consumer_handles_in_order:
  assumes "mc_pools h mc cs ms" "List.length ms < n"
    "mc_initialised (mcons h mc) \<noteq> 0" "mc_run (mcons h mc) \<noteq> 0"
    "consumer_fun (mcons h mc) \<noteq> 0" "is_multi_thread (mcons h mc) = 0" "serves cds act"
  shows "\<exists>h'. mc_consumer_run ans cds mc n h = Some (McAsleep, h') \<and> mc_pools h' mc (rev ms @ cs) [] \<and>
     consumers.more h' = fold (\<lambda>m. act (it_payload h m) m) ms (consumers.more h)"
  using mc_loop_single [OF assms, of "dispatch_new ans"] by (auto simp: mc_consumer_run_def)

text \<open>A consumer at \<open>1\<close> with a free buffer at \<open>7\<close> and a message at \<open>6\<close>; its function logs the messages and writes over them.\<close>

definition mc_demo :: "ptr list consumers_scheme" where
  "mc_demo = \<lparr>live = (\<lambda>p. 1 \<le> p \<and> p \<le> 7), brk = 8, oom = [],
     nxt = (\<lambda>p. if p = 5 then 6 else if p = 6 then 5 else if p = 3 then 7 else 3),
     prv = (\<lambda>p. if p = 5 then 6 else if p = 6 then 5 else if p = 3 then 7 else 3),
     mp_type = (\<lambda>p. if p = 2 then MSG_POOL_TYPE_CACHE else MSG_POOL_TYPE_CONSUMER_PRODUCER),
     mp_limit = (\<lambda>_. 2), mp_count = (\<lambda>_. 1), msg_payload_len = (\<lambda>_. 64),
     it_peer = (\<lambda>_. 0), it_msg = (\<lambda>_. 0), it_len = (\<lambda>_. 0), it_payload = (\<lambda>_. []),
     mcons = (\<lambda>_. \<lparr>mc_name = ''gas'', mc_run = 1, mc_initialised = 1, consumer_fun = 1, producer_fun = 0,
       consumer_param = NULL, producer_param = NULL, is_multi_thread = 0\<rparr>),
     mc_threads = \<lparr>live = (\<lambda>_. False), brk = 1, oom = [], nxt = (\<lambda>_. 0), prv = (\<lambda>_. 0),
       thd = (\<lambda>_. \<lparr>pfunc = 0, th_arg1 = 0, th_arg2 = 0, th_file = [], th_line = 0, th_state = 0, th_pool = 0\<rparr>),
       tpool = (\<lambda>_. zero_pool), global_thread_pool = 0, signals = []\<rparr>,
     \<dots> = []\<rparr>"

definition logging :: "ptr list consumers_scheme mc_codes" where
  "logging = \<lparr>consume = (\<lambda>_ _ m h. Some (0, consumers.more_update (\<lambda>ms. ms @ [m])
       (h\<lparr>it_msg := (it_msg h)(m := 1), it_len := (it_len h)(m := 1), it_payload := (it_payload h)(m := [7])\<rparr>))),
     produce = (\<lambda>_ _ _ h. Some (0, h))\<rparr>"

lemma logging_serves: "serves logging (\<lambda>_ m ms. ms @ [m])"
  unfolding serves_def logging_def by auto

lemma mc_demo_pools: "mc_pools mc_demo 1 [7] [6]"
  by (auto simp: mc_pools_def pool_rep_def dlist_def valid_def mc_demo_def)

theorem consumer_handles_in_order_witness:
  "\<exists>h'. mc_consumer_run \<lparr>get_stack_rc = 0, old_size = 0, set_stack_rc = 0, create_rc = 0\<rparr> logging 1 2 mc_demo =
     Some (McAsleep, h') \<and> mc_pools h' 1 ([6] @ [7]) [] \<and> consumers.more h' = [6]"
  using consumer_handles_in_order [OF mc_demo_pools _ _ _ _ _ logging_serves, of 2
      "\<lparr>get_stack_rc = 0, old_size = 0, set_stack_rc = 0, create_rc = 0\<rparr>"]
  by (simp add: mc_demo_def)

end
