(* ===== verification/LibEvt.thy ===== *)
theory LibEvt imports LibList LibSocket begin

text \<open>
  \<open>Server/Lib/lib-libevt.c\<close>: the server's layer over libevent. A pool holds the base of the event loop
  and the list of the items that are armed in it: connections, timers and signals. libevent itself is a
  parameter, a function for each of its calls; the calls of the system are answered as in LibSocket.

  A \<open>libevt_pool_t\<close> at \<open>p\<close> has the head of its list at \<open>p + 1\<close>; an item is its own list node.
\<close>

section \<open>State\<close>

record libevt_pool =
  lp_max :: int
  lp_cur :: int
  evt_base :: ptr
  lp_ctx :: ptr

record libevt =
  evt_fd :: int
  evt_last_time :: int
  evt_idle_timeout :: int
  evt_pool :: ptr
  evt_ctx :: ptr
  new_cb :: nat
  delete_cb :: nat
  event_cb :: nat

record libevt_acceptor =
  la_ip :: string
  la_port :: int
  la_socket_timeout :: int
  la_idle_timeout :: int
  la_pool :: ptr
  la_ctx :: ptr
  la_event_cb :: nat

record libevt_connector =
  lc_ip :: string
  lc_port :: int
  lc_connect_fd :: int
  lc_pool :: ptr
  lc_ctx :: ptr
  lc_event_cb :: nat

record evts = heap +
  epool :: "ptr \<Rightarrow> libevt_pool"
  eitem :: "ptr \<Rightarrow> libevt"
  acceptor :: "ptr \<Rightarrow> libevt_acceptor"
  connector :: "ptr \<Rightarrow> libevt_connector"
  enet :: sock

text \<open>
  libevent: a new base, arming an event (item, base, descriptor or signal, flags, call back and its
  argument), its timeout, disarming, listening and the loop.
\<close>

record 'w libevent =
  event_base_new :: "'w \<Rightarrow> ptr \<times> 'w"
  event_assign :: "ptr \<Rightarrow> ptr \<Rightarrow> int \<Rightarrow> int \<Rightarrow> nat \<Rightarrow> ptr \<Rightarrow> 'w \<Rightarrow> int \<times> 'w"
  event_add :: "ptr \<Rightarrow> int option \<Rightarrow> 'w \<Rightarrow> int \<times> 'w"
  event_del :: "ptr \<Rightarrow> 'w \<Rightarrow> int \<times> 'w"
  evconnlistener_new_bind :: "ptr \<Rightarrow> nat \<Rightarrow> ptr \<Rightarrow> string \<Rightarrow> int \<Rightarrow> 'w \<Rightarrow> ptr \<times> 'w"
  evconnlistener_set_error_cb :: "ptr \<Rightarrow> nat \<Rightarrow> 'w \<Rightarrow> 'w"
  event_base_dispatch :: "ptr \<Rightarrow> 'w \<Rightarrow> int \<times> 'w"

definition EV_READ_PERSIST :: int where "EV_READ_PERSIST = 0x02 + 0x10"
definition EV_PERSIST :: int where "EV_PERSIST = 0x10"
definition EV_SIGNAL_PERSIST :: int where "EV_SIGNAL_PERSIST = 0x08 + 0x10"

text \<open>The numbers of the two call backs of this file.\<close>

definition ACCEPT_CONN_CB :: nat where "ACCEPT_CONN_CB = 1"
definition ACCEPT_ERROR_CB :: nat where "ACCEPT_ERROR_CB = 2"

abbreviation (input) evt_list :: "ptr \<Rightarrow> ptr" where "evt_list p \<equiv> p + 1"

definition get_pool :: "ptr \<Rightarrow> 'a evts_scheme \<Rightarrow> libevt_pool option" where
  "get_pool p h = do { _ \<leftarrow> lib_assert (valid h p); Some (epool h p) }"

definition upd_pool :: "ptr \<Rightarrow> (libevt_pool \<Rightarrow> libevt_pool) \<Rightarrow> 'a evts_scheme \<Rightarrow> 'a evts_scheme option" where
  "upd_pool p f h = do { _ \<leftarrow> lib_assert (valid h p); Some (h\<lparr>epool := (epool h)(p := f (epool h p))\<rparr>) }"

definition get_evt :: "ptr \<Rightarrow> 'a evts_scheme \<Rightarrow> libevt option" where
  "get_evt e h = do { _ \<leftarrow> lib_assert (valid h e); Some (eitem h e) }"

definition upd_evt :: "ptr \<Rightarrow> (libevt \<Rightarrow> libevt) \<Rightarrow> 'a evts_scheme \<Rightarrow> 'a evts_scheme option" where
  "upd_evt e f h = do { _ \<leftarrow> lib_assert (valid h e); Some (h\<lparr>eitem := (eitem h)(e := f (eitem h e))\<rparr>) }"

definition evt_close :: "int \<Rightarrow> 'a evts_scheme \<Rightarrow> 'a evts_scheme" where
  "evt_close fd h = h\<lparr>enet := snd (lib_close fd (enet h))\<rparr>"

section \<open>Pools and items\<close>

definition libevt_set_recv_timeout :: "int \<Rightarrow> int \<Rightarrow> 'a evts_scheme \<Rightarrow> int \<times> 'a evts_scheme" where
  "libevt_set_recv_timeout fd tmo h =
     (if tmo \<le> 0 then (OK, h)
      else let (ret, _, s) = sys_call (enet h) in (if ret < 0 then ERROR else OK, h\<lparr>enet := s\<rparr>))"

definition libevt_pool_new :: "'a evts_scheme libevent \<Rightarrow> int \<Rightarrow> ptr \<Rightarrow> 'a evts_scheme \<Rightarrow> (ptr \<times> 'a evts_scheme) option" where
  "libevt_pool_new api mx ctx h =
     (if mx \<le> 0 then Some (NULL, h)
      else
        let (p, h) = mem_malloc_array 2 h
        in if p = NULL then Some (NULL, h)
        else
          let (base, h) = event_base_new api h
          in if base = NULL then do { h \<leftarrow> mem_free_array p 2 h; Some (NULL, h) }
          else do {
            h \<leftarrow> upd_pool p (\<lambda>pp. \<lparr>lp_max = mx, lp_cur = 0, evt_base = base, lp_ctx = ctx\<rparr>) h;
            h \<leftarrow> INIT_LIB_LIST (evt_list p) h;
            Some (p, h) })"

definition libevt_pool_set_ctx :: "ptr \<Rightarrow> ptr \<Rightarrow> 'a evts_scheme \<Rightarrow> 'a evts_scheme option" where
  "libevt_pool_set_ctx p ctx h = (if p \<noteq> NULL then upd_pool p (\<lambda>pp. pp\<lparr>lp_ctx := ctx\<rparr>) h else Some h)"

text \<open>The number of items is counted and never compared with \<open>max\<close>. \<open>now_time\<close> is the time of day.\<close>

definition libevt_new ::
  "int \<Rightarrow> ptr \<Rightarrow> int \<Rightarrow> nat \<Rightarrow> nat \<Rightarrow> nat \<Rightarrow> ptr \<Rightarrow> 'a evts_scheme \<Rightarrow> (ptr \<times> 'a evts_scheme) option"
where
  "libevt_new now_time p fd ncb dcb ecb ctx h =
     (if p = NULL then Some (NULL, h)
      else
        let (e, h) = mem_malloc h
        in if e = NULL then Some (NULL, h)
        else do {
          let h = h\<lparr>eitem := (eitem h)(e := \<lparr>evt_fd = fd, evt_last_time = now_time, evt_idle_timeout = 1,
                  evt_pool = p, evt_ctx = ctx, new_cb = ncb, delete_cb = dcb, event_cb = ecb\<rparr>)\<rparr>;
          h \<leftarrow> INIT_LIB_LIST e h;
          h \<leftarrow> lib_list_add e (evt_list p) h;
          h \<leftarrow> upd_pool p (\<lambda>pp. pp\<lparr>lp_cur := c_int (lp_cur pp + 1)\<rparr>) h;
          Some (e, h) })"

definition libevt_del :: "ptr \<Rightarrow> 'a evts_scheme \<Rightarrow> (int \<times> 'a evts_scheme) option" where
  "libevt_del e h =
     (if e = NULL then Some (ERROR, h)
      else do {
        ev \<leftarrow> get_evt e h;
        let p = evt_pool ev;
        if p = NULL then Some (ERROR, h)
        else do {
          h \<leftarrow> lib_list_del e h;
          h \<leftarrow> upd_pool p (\<lambda>pp. pp\<lparr>lp_cur := c_int (lp_cur pp - 1)\<rparr>) h;
          h \<leftarrow> mem_free e h;
          Some (OK, h) } })"

definition libevt_clean :: "'a evts_scheme libevent \<Rightarrow> ptr \<Rightarrow> 'a evts_scheme \<Rightarrow> (int \<times> 'a evts_scheme) option" where
  "libevt_clean api e h =
     (if e = NULL then Some (ERROR, h)
      else do {
        let (_, h) = event_del api e h;
        ev \<leftarrow> get_evt e h;
        let h = evt_close (evt_fd ev) h;
        (_, h) \<leftarrow> libevt_del e h;
        Some (OK, h) })"

section \<open>Connections\<close>

definition drop_evt :: "ptr \<Rightarrow> int \<Rightarrow> 'a evts_scheme \<Rightarrow> 'a evts_scheme option" where
  "drop_evt e fd h = do {
     (_, h) \<leftarrow> libevt_del e h;
     Some (evt_close fd h) }"

text \<open>Arming the item \<open>e\<close> of a new connection with what the acceptor \<open>acc\<close> asks for.\<close>

definition arm_conn ::
  "'a evts_scheme libevent \<Rightarrow> ptr \<Rightarrow> int \<Rightarrow> libevt_acceptor \<Rightarrow> ptr \<Rightarrow> 'a evts_scheme \<Rightarrow> 'a evts_scheme option"
where
  "arm_conn api base fd acc e h =
     (let (ret, h) = event_assign api e base fd EV_READ_PERSIST (la_event_cb acc) e h
      in if ret \<noteq> 0 then drop_evt e fd h
      else do {
        (ret, h) \<leftarrow>
          (if 0 < la_idle_timeout acc
           then do {
             h \<leftarrow> upd_evt e (\<lambda>ev. ev\<lparr>evt_idle_timeout := la_idle_timeout acc\<rparr>) h;
             Some (event_add api e (Some (la_idle_timeout acc)) h) }
           else Some (event_add api e None h));
        if ret \<noteq> 0 then drop_evt e fd h else Some h })"

text \<open>
  The call back of the listener, whose base is \<open>base\<close>, for a new descriptor \<open>fd\<close>; \<open>a\<close> is the acceptor.
  The descriptor stays open when its time-out cannot be set or there is no memory for the item.
\<close>

definition libevt_accept_conn_cb ::
  "'a evts_scheme libevent \<Rightarrow> int \<Rightarrow> ptr \<Rightarrow> int \<Rightarrow> ptr \<Rightarrow> 'a evts_scheme \<Rightarrow> 'a evts_scheme option"
where
  "libevt_accept_conn_cb api now_time base fd a h =
     (if base = NULL \<or> a = NULL then Some h
      else do {
        _ \<leftarrow> lib_assert (valid h a);
        let acc = acceptor h a;
        let p = la_pool acc;
        if p = NULL then Some h
        else do {
          pp \<leftarrow> get_pool p h;
          if base \<noteq> evt_base pp then Some h
          else
            let (ret, h) = (if 0 < la_socket_timeout acc then libevt_set_recv_timeout fd (la_socket_timeout acc) h else (0, h))
            in if ret \<noteq> 0 then Some h
            else do {
              (e, h) \<leftarrow> libevt_new now_time p fd 0 0 0 (la_ctx acc) h;
              if e = NULL then Some h else arm_conn api base fd acc e h } } })"

definition libevt_acceptor :: "'a evts_scheme libevent \<Rightarrow> ptr \<Rightarrow> ptr \<Rightarrow> 'a evts_scheme \<Rightarrow> (int \<times> 'a evts_scheme) option" where
  "libevt_acceptor api p a h =
     (if p = NULL \<or> a = NULL then Some (ERROR, h)
      else do {
        pp \<leftarrow> get_pool p h;
        if evt_base pp = NULL then Some (ERROR, h)
        else do {
          _ \<leftarrow> lib_assert (valid h a);
          let h = h\<lparr>acceptor := (acceptor h)(a := (acceptor h a)\<lparr>la_pool := p\<rparr>)\<rparr>;
          let (l, h) = evconnlistener_new_bind api (evt_base pp) ACCEPT_CONN_CB a (la_ip (acceptor h a)) (la_port (acceptor h a)) h;
          if l = NULL then Some (ERROR, h)
          else Some (OK, evconnlistener_set_error_cb api l ACCEPT_ERROR_CB h) } })"

definition libevt_connector ::
  "'a evts_scheme libevent \<Rightarrow> (string \<Rightarrow> bool) \<Rightarrow> int \<Rightarrow> ptr \<Rightarrow> ptr \<Rightarrow> 'a evts_scheme \<Rightarrow> (int \<times> 'a evts_scheme) option"
where
  "libevt_connector api resolve now_time p c h =
     (if p = NULL \<or> c = NULL then Some (ERROR, h)
      else do {
        pp \<leftarrow> get_pool p h;
        (base, h) \<leftarrow>
          (if evt_base pp = NULL
           then
             let (base, h) = event_base_new api h
             in if base = NULL then Some (NULL, h)
             else do { h \<leftarrow> upd_pool p (\<lambda>pp. pp\<lparr>evt_base := base\<rparr>) h; Some (base, h) }
           else Some (evt_base pp, h));
        if base = NULL then Some (ERROR, h)
        else do {
          _ \<leftarrow> lib_assert (valid h c);
          let h = h\<lparr>connector := (connector h)(c := (connector h c)\<lparr>lc_pool := p\<rparr>)\<rparr>;
          let (fd, s) = lib_client resolve (Some (lc_ip (connector h c))) SOCK_STREAM (enet h);
          let h = h\<lparr>enet := s\<rparr>;
          if fd \<le> 0 then Some (ERROR, h)
          else do {
            let h = h\<lparr>connector := (connector h)(c := (connector h c)\<lparr>lc_connect_fd := fd\<rparr>)\<rparr>;
            (e, h) \<leftarrow> libevt_new now_time p fd 0 0 0 (lc_ctx (connector h c)) h;
            if e = NULL then Some (ERROR, h)
            else
              let (ret, h) = event_assign api e base fd EV_READ_PERSIST (lc_event_cb (connector h c)) e h
              in if ret \<noteq> 0 then do { h \<leftarrow> drop_evt e fd h; Some (ERROR, h) }
              else
                let (ret, h) = event_add api e None h
                in if ret \<noteq> 0 then do { h \<leftarrow> drop_evt e fd h; Some (ERROR, h) } else Some (OK, h) } } })"

section \<open>Timers, signals and the loop\<close>

text \<open>What the two share: an item without descriptor, armed with its call back, given up on failure.\<close>

definition arm_item ::
  "'a evts_scheme libevent \<Rightarrow> int \<Rightarrow> ptr \<Rightarrow> int \<Rightarrow> int \<Rightarrow> nat \<Rightarrow> int option \<Rightarrow> ptr \<Rightarrow> 'a evts_scheme \<Rightarrow> (int \<times> 'a evts_scheme) option"
where
  "arm_item api now_time p fd flags cb tmo param h =
     (if p = NULL then Some (ERROR, h)
      else do {
        pp \<leftarrow> get_pool p h;
        if evt_base pp = NULL then Some (ERROR, h)
        else do {
          (e, h) \<leftarrow> libevt_new now_time p (- 1) 0 0 0 param h;
          if e = NULL then Some (ERROR, h)
          else
            let (ret, h) = event_assign api e (evt_base pp) fd flags cb param h
            in if ret \<noteq> 0 then do { (_, h) \<leftarrow> libevt_del e h; Some (ERROR, h) }
            else
              let (ret, h) = event_add api e tmo h
              in if ret < 0 then do { (_, h) \<leftarrow> libevt_del e h; Some (ERROR, h) } else Some (OK, h) } })"

definition libevt_timer ::
  "'a evts_scheme libevent \<Rightarrow> int \<Rightarrow> ptr \<Rightarrow> int \<Rightarrow> nat \<Rightarrow> ptr \<Rightarrow> 'a evts_scheme \<Rightarrow> (int \<times> 'a evts_scheme) option"
where
  "libevt_timer api now_time p secs cb param h = arm_item api now_time p (- 1) EV_PERSIST cb (Some secs) param h"

definition libevt_signal ::
  "'a evts_scheme libevent \<Rightarrow> int \<Rightarrow> ptr \<Rightarrow> int \<Rightarrow> nat \<Rightarrow> ptr \<Rightarrow> 'a evts_scheme \<Rightarrow> (int \<times> 'a evts_scheme) option"
where
  "libevt_signal api now_time p sig cb param h = arm_item api now_time p sig EV_SIGNAL_PERSIST cb None param h"

definition libevt_run :: "'a evts_scheme libevent \<Rightarrow> ptr \<Rightarrow> 'a evts_scheme \<Rightarrow> (int \<times> 'a evts_scheme) option" where
  "libevt_run api p h =
     (if p = NULL then Some (ERROR, h)
      else do {
        pp \<leftarrow> get_pool p h;
        if evt_base pp = NULL then Some (ERROR, h) else Some (event_base_dispatch api (evt_base pp) h) })"

section \<open>The items of a pool\<close>

definition evt_pool_rep :: "'a evts_scheme \<Rightarrow> ptr \<Rightarrow> ptr list \<Rightarrow> bool" where
  "evt_pool_rep h p es \<longleftrightarrow> heap_ok h \<and> valid h p \<and> dlist h (evt_list p) es \<and> p \<notin> set es \<and>
     lp_cur (epool h p) = int (List.length es) \<and> List.length es < 2 ^ 31 - 1 \<and>
     (\<forall>e \<in> set es. evt_pool (eitem h e) = p)"

lemma evt_pool_rep_facts:
  assumes "evt_pool_rep h p es"
  shows "heap_ok h" "valid h p" "dlist h (evt_list p) es" "p \<notin> set es" "p \<noteq> NULL"
    "lp_cur (epool h p) = int (List.length es)" "List.length es < 2 ^ 31 - 1"
    "\<And>e. e \<in> set es \<Longrightarrow> evt_pool (eitem h e) = p"
  using assms by (auto simp: evt_pool_rep_def dest: valid_pos)

lemma evts_links [simp]:
  "epool (linked a x n h) = epool h" "eitem (linked a x n h) = eitem h" "enet (linked a x n h) = enet h"
  "acceptor (linked a x n h) = acceptor h" "evts.more (linked a x n h) = evts.more h"
  "epool (unlinked a x n h) = epool h" "eitem (unlinked a x n h) = eitem h" "enet (unlinked a x n h) = enet h"
  "acceptor (unlinked a x n h) = acceptor h" "evts.more (unlinked a x n h) = evts.more h"
  by (cases h; simp add: linked_def unlinked_def)+

lemma evt_pool_rep_more [simp]: "evt_pool_rep (evts.more_update g h) p es = evt_pool_rep h p es"
proof -
  have d: "dlist (evts.more_update g h) kk zs = dlist h kk zs" for kk zs by (rule dlist_cong) simp_all
  show ?thesis by (simp add: evt_pool_rep_def d valid_def heap_ok_def)
qed

lemma evt_pool_rep_enet [simp]: "evt_pool_rep (h\<lparr>enet := s\<rparr>) p es = evt_pool_rep h p es"
proof -
  have d: "dlist (h\<lparr>enet := s\<rparr>) kk zs = dlist h kk zs" for kk zs by (rule dlist_cong) simp_all
  show ?thesis by (simp add: evt_pool_rep_def d valid_def heap_ok_def)
qed

lemma evts_more_eq:
  "heap.more h' = heap.more h \<Longrightarrow> epool h' = epool h \<and> eitem h' = eitem h \<and> acceptor h' = acceptor h \<and>
   enet h' = enet h \<and> evts.more h' = evts.more h"
  by (cases h; cases h') simp

text \<open>A new item is at the front of the list and counted, however many the pool holds.\<close>

lemma libevt_new_ok:
  assumes r: "evt_pool_rep h p es" and o: "\<not> next_oom h" and room: "Suc (List.length es) < 2 ^ 31 - 1"
  shows "\<exists>h' e. libevt_new now_time p fd ncb dcb ecb ctx h = Some (e, h') \<and> e \<noteq> NULL \<and> \<not> valid h e \<and>
     evt_pool_rep h' p (e # es) \<and> evt_fd (eitem h' e) = fd \<and> evt_ctx (eitem h' e) = ctx \<and> enet h' = enet h \<and>
     acceptor h' = acceptor h \<and> evt_base (epool h' p) = evt_base (epool h p) \<and> evts.more h' = evts.more h"
proof -
  note f = evt_pool_rep_facts [OF r]
  obtain h1 where h1: "mem_malloc h = (brk h, h1)" "valid h1 (brk h)" "heap_ok h1"
    "heap.more h1 = heap.more h" "\<not> valid h (brk h)" "brk h \<noteq> NULL"
    "\<And>q. valid h q \<Longrightarrow> valid h1 q \<and> nxt h1 q = nxt h q \<and> prv h1 q = prv h q \<and> q \<noteq> brk h"
    "\<And>kk zs. dlist h kk zs \<Longrightarrow> dlist h1 kk zs \<and> brk h \<notin> set (kk # zs)"
    by (rule mem_malloc_node [OF f(1) o]) (rule that)
  let ?e = "brk h"
  define item where "item = \<lparr>evt_fd = fd, evt_last_time = now_time, evt_idle_timeout = 1, evt_pool = p,
    evt_ctx = ctx, new_cb = ncb, delete_cb = dcb, event_cb = ecb\<rparr>"
  define g where "g = h1\<lparr>eitem := (eitem h1)(?e := item), nxt := (nxt h1)(?e := ?e), prv := (prv h1)(?e := ?e)\<rparr>"
  have i: "INIT_LIB_LIST ?e (h1\<lparr>eitem := (eitem h1)(?e := item)\<rparr>) = Some g"
    unfolding g_def using INIT_LIB_LIST_ok [of "h1\<lparr>eitem := (eitem h1)(?e := item)\<rparr>" ?e] h1(2) by (simp add: valid_def)
  have eh: "epool h1 = epool h" "eitem h1 = eitem h" "enet h1 = enet h" "acceptor h1 = acceptor h"
    "evts.more h1 = evts.more h" using evts_more_eq [OF h1(4)] by auto
  have d1: "dlist h1 (evt_list p) es" and ng: "?e \<notin> set (evt_list p # es)" using h1(8) [OF f(3)] by blast+
  have vg: "valid g ?e" "valid g p" using h1(2) h1(7) [OF f(2)] by (simp_all add: g_def valid_def)
  have dg: "dlist g (evt_list p) es"
    by (rule dlist_frame [OF d1]) (use ng dlist_valid [OF d1] in \<open>auto simp: g_def valid_def\<close>)
  obtain k where a: "lib_list_add ?e (evt_list p) g = Some (linked (evt_list p) ?e k g)"
    "dlist (linked (evt_list p) ?e k g) (evt_list p) (?e # es)"
    by (rule lib_list_add_ok [OF dg vg(1) ng])
  define h2 where "h2 = linked (evt_list p) ?e k g"
  have pn: "?e \<noteq> p" using f(2) h1(5) by auto
  let ?h = "h2\<lparr>epool := (epool h2)(p := (epool h2 p)\<lparr>lp_cur := c_int (lp_cur (epool h2 p) + 1)\<rparr>)\<rparr>"
  have ev: "libevt_new now_time p fd ncb dcb ecb ctx h = Some (?e, ?h)"
    using f(5) h1(1,6) i a(1) vg(2)
    by (simp add: libevt_new_def item_def upd_pool_def h2_def)
  have d: "dlist ?h (evt_list p) (?e # es)"
    using a(2) dlist_cong [of ?h h2 "evt_list p" "?e # es"] by (simp add: h2_def)
  have s: "epool h2 = epool h" "eitem h2 = (eitem h)(?e := item)" "enet h2 = enet h" "acceptor h2 = acceptor h"
    "evts.more h2 = evts.more h" "heap_ok h2" "valid h2 p"
    using eh h1(3) vg(2) by (simp_all add: h2_def g_def heap_ok_def valid_def)
  have "evt_pool_rep ?h p (?e # es)"
    using d s f pn room h1(5) by (auto simp: evt_pool_rep_def valid_def item_def heap_ok_def)
  then show ?thesis using ev h1(5,6) s
    by (intro exI [of _ ?h] exI [of _ ?e]) (simp add: item_def)
qed

lemma length_remove1_in: "e \<in> set es \<Longrightarrow> Suc (List.length (remove1 e es)) = List.length es"
  by (induction es) (auto simp del: length_remove1)

lemma libevt_del_ok:
  assumes r: "evt_pool_rep h p es" and e: "e \<in> set es"
  shows "\<exists>h'. libevt_del e h = Some (OK, h') \<and> evt_pool_rep h' p (remove1 e es) \<and> \<not> valid h' e \<and>
     enet h' = enet h \<and> evts.more h' = evts.more h"
proof -
  note f = evt_pool_rep_facts [OF r]
  have ve: "valid h e" "e \<noteq> NULL" using f(3) e by (auto simp: dlist_def dest: valid_pos)
  obtain a n where d: "lib_list_del e h = Some (unlinked a e n h)"
    "dlist (unlinked a e n h) (evt_list p) (remove1 e es)"
    by (rule lib_list_del_dlist [OF f(3) e])
  define h1 where "h1 = (unlinked a e n h)\<lparr>epool := (epool h)(p := (epool h p)\<lparr>lp_cur := c_int (lp_cur (epool h p) - 1)\<rparr>)\<rparr>"
  define h2 where "h2 = h1\<lparr>live := (live h1)(e := False)\<rparr>"
  have lv: "live h1 = live h" by (simp add: h1_def)
  have ev: "libevt_del e h = Some (OK, h2)"
    using ve f(2,5,8) e d(1) by (simp add: libevt_del_def get_evt_def upd_pool_def valid_def h1_def h2_def mem_free_def)
  have ds: "distinct (evt_list p # es)" by (rule dlist_distinct [OF f(3)])
  have ne: "e \<notin> set (evt_list p # remove1 e es)" using ds e by auto
  have d1: "dlist h1 (evt_list p) (remove1 e es)"
    using d(2) dlist_cong [of h1 "unlinked a e n h" "evt_list p" "remove1 e es"] by (simp add: h1_def)
  have d2: "dlist h2 (evt_list p) (remove1 e es)"
    by (rule dlist_frame [OF d1]) (use ne dlist_valid [OF d1] in \<open>auto simp: h2_def valid_def\<close>)
  have pe: "p \<noteq> e" using f(4) e by auto
  have l: "int (List.length (remove1 e es)) = int (List.length es) - 1"
    using length_remove1_in [OF e] by linarith
  have sub: "set (remove1 e es) \<subseteq> set es" by (rule set_remove1_subset)
  have hk: "heap_ok h2" using f(1) by (auto simp: h2_def h1_def heap_ok_def)
  have "lp_cur (epool h2 p) = int (List.length (remove1 e es))"
    using f(6,7) l by (simp add: h2_def h1_def)
  then have "evt_pool_rep h2 p (remove1 e es)"
    using d2 f(2,4,7,8) pe sub l hk lv
    by (auto simp: evt_pool_rep_def valid_def h2_def h1_def)
  then show ?thesis using ev by (intro exI [of _ h2]) (simp add: h2_def h1_def valid_def)
qed

section \<open>Accepting\<close>

text \<open>libevent keeps its own books: arming an event changes nothing of the pool, whatever it answers.\<close>

definition evt_frame :: "'a evts_scheme libevent \<Rightarrow> bool" where
  "evt_frame api \<longleftrightarrow>
     (\<forall>e b fd fl cb arg h. \<exists>ret g. event_assign api e b fd fl cb arg h = (ret, evts.more_update g h)) \<and>
     (\<forall>e t h. \<exists>ret g. event_add api e t h = (ret, evts.more_update g h))"

text \<open>A connection that is given up is taken off the list and closed.\<close>

lemma drop_evt_ok:
  assumes r: "evt_pool_rep h p (e # es)" and fd: "0 < fd"
  shows "\<exists>h'. drop_evt e fd h = Some h' \<and> evt_pool_rep h' p es \<and> closed (enet h') = fd # closed (enet h)"
proof -
  obtain h1 where h1: "libevt_del e h = Some (OK, h1)" "evt_pool_rep h1 p es" "enet h1 = enet h"
    using libevt_del_ok [OF r, of e] by auto
  then show ?thesis using fd by (simp add: drop_evt_def evt_close_def lib_close_def close_fd_def)
qed

lemma evt_pool_rep_upd:
  assumes r: "evt_pool_rep h p es" and e: "e \<in> set es" and f: "\<And>ev. evt_pool (f ev) = evt_pool ev"
  shows "\<exists>h'. upd_evt e f h = Some h' \<and> evt_pool_rep h' p es \<and> enet h' = enet h \<and> evts.more h' = evts.more h \<and>
     eitem h' = (eitem h)(e := f (eitem h e))"
proof -
  let ?h = "h\<lparr>eitem := (eitem h)(e := f (eitem h e))\<rparr>"
  have v: "valid h e" using evt_pool_rep_facts(3) [OF r] e by (auto simp: dlist_def)
  have "dlist ?h kk zs = dlist h kk zs" for kk zs by (rule dlist_cong) simp_all
  then have "evt_pool_rep ?h p es" using r f by (auto simp: evt_pool_rep_def valid_def heap_ok_def)
  then show ?thesis using v by (intro exI [of _ ?h]) (simp add: upd_evt_def)
qed

text \<open>The part of the call back from the new item on.\<close>

lemma armed_or_closed:
  assumes r: "evt_pool_rep h p (e # es)" and fr: "evt_frame api" and fd: "0 < fd"
    and item: "evt_fd (eitem h e) = fd" "evt_ctx (eitem h e) = ctx"
  shows "\<exists>h'. arm_conn api base fd acc e h = Some h' \<and>
     ((evt_pool_rep h' p (e # es) \<and> evt_fd (eitem h' e) = fd \<and> evt_ctx (eitem h' e) = ctx \<and>
       closed (enet h') = closed (enet h)) \<or>
      (evt_pool_rep h' p es \<and> closed (enet h') = fd # closed (enet h)))"
    (is "\<exists>h'. ?run = Some h' \<and> ?out h'")
proof -
  obtain ret g where as: "event_assign api e base fd EV_READ_PERSIST (la_event_cb acc) e h = (ret, evts.more_update g h)"
    using fr unfolding evt_frame_def by blast
  have r1: "evt_pool_rep (evts.more_update g h) p (e # es)" using r by simp
  show ?thesis
  proof (cases "ret = 0")
    case False
    then show ?thesis using drop_evt_ok [OF r1 fd] as by (auto simp: arm_conn_def)
  next
    case True
    obtain h2 tmo where h2: "evt_pool_rep h2 p (e # es)" "enet h2 = enet h" "evt_fd (eitem h2 e) = fd"
      "evt_ctx (eitem h2 e) = ctx"
      "(if 0 < la_idle_timeout acc
        then do { h \<leftarrow> upd_evt e (\<lambda>ev. ev\<lparr>evt_idle_timeout := la_idle_timeout acc\<rparr>) (evts.more_update g h);
                  Some (event_add api e (Some (la_idle_timeout acc)) h) }
        else Some (event_add api e None (evts.more_update g h))) = Some (event_add api e tmo h2)"
    proof (cases "0 < la_idle_timeout acc")
      case True
      obtain h2 where "upd_evt e (\<lambda>ev. ev\<lparr>evt_idle_timeout := la_idle_timeout acc\<rparr>) (evts.more_update g h) = Some h2"
        "evt_pool_rep h2 p (e # es)" "enet h2 = enet h"
        "eitem h2 = (eitem h)(e := (eitem h e)\<lparr>evt_idle_timeout := la_idle_timeout acc\<rparr>)"
        using evt_pool_rep_upd [OF r1, of e "\<lambda>ev. ev\<lparr>evt_idle_timeout := la_idle_timeout acc\<rparr>"] by auto
      then show ?thesis using that [of h2 "Some (la_idle_timeout acc)"] True item by simp
    next
      case False
      then show ?thesis using that [of "evts.more_update g h" None] r1 item by simp
    qed
    obtain ret' g' where ad: "event_add api e tmo h2 = (ret', evts.more_update g' h2)"
      using fr unfolding evt_frame_def by blast
    have run: "?run = (if ret' \<noteq> 0 then drop_evt e fd (evts.more_update g' h2) else Some (evts.more_update g' h2))"
      unfolding arm_conn_def as using True h2(5) ad by simp
    have r2: "evt_pool_rep (evts.more_update g' h2) p (e # es)" using h2(1) by simp
    show ?thesis unfolding run using drop_evt_ok [OF r2 fd] r2 h2(2-4) by auto
  qed
qed

lemma libevt_new_oom:
  assumes "evt_pool_rep h p es" "next_oom h"
  shows "\<exists>h'. libevt_new now_time p fd ncb dcb ecb ctx h = Some (NULL, h') \<and> evt_pool_rep h' p es \<and> enet h' = enet h"
proof -
  let ?h = "h\<lparr>oom := tl (oom h)\<rparr>"
  have "dlist ?h kk zs = dlist h kk zs" for kk zs by (rule dlist_cong) simp_all
  then have "evt_pool_rep ?h p es" using assms(1) by (simp add: evt_pool_rep_def valid_def heap_ok_def)
  then show ?thesis using assms(2) evt_pool_rep_facts(5) [OF assms(1)]
    by (simp add: libevt_new_def mem_malloc_def)
qed

text \<open>What the call back does once the time-out of the descriptor has been set.\<close>

lemma accept_from_new:
  assumes r: "evt_pool_rep h p es" and o: "\<not> next_oom h" and room: "Suc (List.length es) < 2 ^ 31 - 1"
    and fr: "evt_frame api" and fd: "0 < fd"
  shows "\<exists>h'. (do {
      (e, h) \<leftarrow> libevt_new now_time p fd 0 0 0 ctx h;
      if e = NULL then Some h else arm_conn api base fd acc e h }) = Some h' \<and>
     ((\<exists>e. \<not> valid h e \<and> evt_pool_rep h' p (e # es) \<and> evt_fd (eitem h' e) = fd \<and> evt_ctx (eitem h' e) = ctx \<and>
       closed (enet h') = closed (enet h)) \<or>
      (evt_pool_rep h' p es \<and> closed (enet h') = fd # closed (enet h)))"
proof -
  obtain h1 e where h1: "libevt_new now_time p fd 0 0 0 ctx h = Some (e, h1)" "e \<noteq> NULL" "\<not> valid h e"
    "evt_pool_rep h1 p (e # es)" "evt_fd (eitem h1 e) = fd" "evt_ctx (eitem h1 e) = ctx" "enet h1 = enet h"
    using libevt_new_ok [OF r o room] by blast
  note arm = armed_or_closed [OF h1(4) fr fd h1(5,6), of base acc]
  show ?thesis using arm h1(3,7) unfolding h1(1) by (auto simp: h1(2))
qed

section \<open>Properties\<close>

text \<open>A new connection ends up in exactly one of three ways: it is an item of the pool, armed with the
  acceptor's call back and context, whatever the pool's maximum; or arming it failed and it is closed; or
  its time-out could not be set or there was no memory, and it is neither in the pool nor closed.\<close>

theorem accept_conn_outcome:
  assumes r: "evt_pool_rep h p es" and a: "valid h a" "la_pool (acceptor h a) = p"
    and base: "base = evt_base (epool h p)" "base \<noteq> NULL" and fr: "evt_frame api" and fd: "0 < fd"
    and room: "Suc (List.length es) < 2 ^ 31 - 1"
  shows "\<exists>h'. libevt_accept_conn_cb api now_time base fd a h = Some h' \<and>
    (if next_oom h \<or> 0 < la_socket_timeout (acceptor h a) \<and> fst (sys_call (enet h)) < 0
     then evt_pool_rep h' p es \<and> closed (enet h') = closed (enet h)
     else (\<exists>e. \<not> valid h e \<and> evt_pool_rep h' p (e # es) \<and> evt_fd (eitem h' e) = fd \<and>
             evt_ctx (eitem h' e) = la_ctx (acceptor h a) \<and> closed (enet h') = closed (enet h)) \<or>
          (evt_pool_rep h' p es \<and> closed (enet h') = fd # closed (enet h)))"
proof -
  note f = evt_pool_rep_facts [OF r]
  let ?acc = "acceptor h a"
  obtain ret err s where sc: "sys_call (enet h) = (ret, err, s)" by (cases "sys_call (enet h)") auto
  have cs: "closed s = closed (enet h)" using sys_call_closed [of "enet h"] by (simp add: sc)
  define h1 where "h1 = (if 0 < la_socket_timeout ?acc then h\<lparr>enet := s\<rparr> else h)"
  have r1: "evt_pool_rep h1 p es" using r by (simp add: h1_def)
  have k: "closed (enet h1) = closed (enet h)" "next_oom h1 = next_oom h" "valid h1 = valid h"
    using cs by (simp_all add: h1_def next_oom_def valid_def fun_eq_iff)
  have pre: "a \<noteq> NULL" "get_pool p h = Some (epool h p)" "p \<noteq> NULL" using a(1) f(2) f(5) by (auto simp: get_pool_def dest: valid_pos)
  have st: "(if 0 < la_socket_timeout ?acc then libevt_set_recv_timeout fd (la_socket_timeout ?acc) h else (0, h)) =
     (if 0 < la_socket_timeout ?acc \<and> ret < 0 then ERROR else 0, h1)"
    using sc by (simp add: libevt_set_recv_timeout_def h1_def OK_def)
  have E: "ERROR \<noteq> 0" by (simp add: ERROR_def)
  consider "0 < la_socket_timeout ?acc" "ret < 0" | "\<not> (0 < la_socket_timeout ?acc \<and> ret < 0)" "next_oom h"
    | "\<not> (0 < la_socket_timeout ?acc \<and> ret < 0)" "\<not> next_oom h" by blast
  then show ?thesis
  proof cases
    case 1
    then have "libevt_accept_conn_cb api now_time base fd a h = Some h1"
      using a base pre st E by (simp add: libevt_accept_conn_cb_def)
    then show ?thesis using 1 sc r1 k by simp
  next
    case 2
    obtain h' where "libevt_new now_time p fd 0 0 0 (la_ctx ?acc) h1 = Some (NULL, h')" "evt_pool_rep h' p es"
      "enet h' = enet h1" using libevt_new_oom [OF r1] 2(2) k(2) by blast
    then show ?thesis using a base pre st 2 k by (simp add: libevt_accept_conn_cb_def)
  next
    case 3
    note step = accept_from_new [OF r1 _ room fr fd, of now_time "la_ctx ?acc" base ?acc]
    have eq: "libevt_accept_conn_cb api now_time base fd a h = (do {
        (e, h) \<leftarrow> libevt_new now_time p fd 0 0 0 (la_ctx ?acc) h1;
        if e = NULL then Some h else arm_conn api base fd ?acc e h })"
      unfolding libevt_accept_conn_cb_def using a base pre st 3(1) by (simp add: Let_def)
    have nc: "\<not> (next_oom h \<or> 0 < la_socket_timeout ?acc \<and> fst (sys_call (enet h)) < 0)"
      using 3 sc by auto
    show ?thesis unfolding if_not_P [OF nc] eq using step 3(2) unfolding k by blast
  qed
qed

text \<open>A pool at \<open>1\<close> that may hold one item and holds none, and an acceptor at \<open>3\<close>.\<close>

definition evt_demo :: evts where
  "evt_demo = \<lparr>live = (\<lambda>p. 1 \<le> p \<and> p \<le> 3), brk = 4, oom = [], nxt = (\<lambda>_. 2), prv = (\<lambda>_. 2),
     epool = (\<lambda>_. \<lparr>lp_max = 1, lp_cur = 0, evt_base = 9, lp_ctx = 0\<rparr>),
     eitem = (\<lambda>_. \<lparr>evt_fd = 0, evt_last_time = 0, evt_idle_timeout = 0, evt_pool = 0, evt_ctx = 0, new_cb = 0,
       delete_cb = 0, event_cb = 0\<rparr>),
     acceptor = (\<lambda>_. \<lparr>la_ip = ''0.0.0.0'', la_port = 80, la_socket_timeout = 5, la_idle_timeout = 60, la_pool = 1,
       la_ctx = 8, la_event_cb = 3\<rparr>),
     connector = (\<lambda>_. \<lparr>lc_ip = '''', lc_port = 0, lc_connect_fd = 0, lc_pool = 0, lc_ctx = 0, lc_event_cb = 0\<rparr>),
     enet = \<lparr>answers = [(- 1, 22)], closed = []\<rparr>\<rparr>"

definition libevent_demo :: "'w libevent" where
  "libevent_demo = \<lparr>event_base_new = (\<lambda>h. (9, h)), event_assign = (\<lambda>_ _ _ _ _ _ h. (0, h)), event_add = (\<lambda>_ _ h. (0, h)),
     event_del = (\<lambda>_ h. (0, h)), evconnlistener_new_bind = (\<lambda>_ _ _ _ _ h. (9, h)),
     evconnlistener_set_error_cb = (\<lambda>_ _ h. h), event_base_dispatch = (\<lambda>_ h. (0, h))\<rparr>"

lemma libevent_demo_frame: "evt_frame libevent_demo"
  unfolding evt_frame_def
  by (intro conjI allI exI [of _ "0 :: int"] exI [of _ "\<lambda>x. x"]) (simp_all add: libevent_demo_def)

lemma evt_demo_rep: "evt_pool_rep evt_demo 1 []"
  by (simp add: evt_pool_rep_def evt_demo_def heap_ok_def valid_def dlist_def)

lemma evt_demo_facts:
  "valid evt_demo 3" "la_pool (acceptor evt_demo 3) = 1" "9 = evt_base (epool evt_demo 1)" "(9 :: ptr) \<noteq> NULL"
  "0 < la_socket_timeout (acceptor evt_demo 3)" "fst (sys_call (enet evt_demo)) < 0" "closed (enet evt_demo) = []"
  by (simp_all add: evt_demo_def valid_def sys_call_def)

theorem accept_conn_outcome_witness:
  "\<exists>h'. libevt_accept_conn_cb libevent_demo 100 9 7 3 evt_demo = Some h' \<and> evt_pool_rep h' 1 [] \<and>
     closed (enet h') = []"
proof -
  have "0 < (7 :: int)" "Suc (List.length ([] :: ptr list)) < 2 ^ 31 - 1" by simp_all
  from accept_conn_outcome [OF evt_demo_rep evt_demo_facts(1-4) libevent_demo_frame this, of 100]
  show ?thesis by (simp only: evt_demo_facts(5-7) simp_thms if_True)
qed

end
