(* ===== verification/GasMsg.thy ===== *)
theory GasMsg imports GasUser LibMsgConsumer LibEvt begin

text \<open>
  \<open>Server/gas/gas-user-msg.c\<close>: the messages of the clients. The call back of a connection receives a
  message into one static buffer, copies it into a buffer of the message pool and queues it; a worker
  later handles it and writes the reply over it. The state joins the message pools, the database, the
  connections and the sockets; the static buffer is an item of the memory of messages.
\<close>

section \<open>State\<close>

record lvl_mp =
  pmc_msg_high :: ptr
  pmc_msg_mid :: ptr
  pmc_msg_low :: ptr
  ptp_high :: ptr
  ptp_mid :: ptr
  ptp_low :: ptr
  thd_high :: int
  thd_mid :: int
  thd_low :: int

text \<open>\<open>g_in\<close> is what the sockets bring next, \<open>g_out\<close> what was sent, \<open>g_lvl\<close> the \<open>lvl_mp_t\<close> structures by address.\<close>

record 'd gas = consumers +
  g_db :: "'d dbs_scheme"
  g_evts :: evts
  g_in :: "recv_ev list"
  g_out :: "(int \<times> byte list) list"
  g_lvl :: "ptr \<Rightarrow> lvl_mp"
  user_msg_buf :: ptr

definition MSG_GAS_USER_START :: "32 word" where "MSG_GAS_USER_START = 0x10000"
definition MSG_GAS_USER_LOGIN :: "32 word" where "MSG_GAS_USER_LOGIN = 0x10001"
definition MSG_GAS_SERVER_LIST :: "32 word" where "MSG_GAS_SERVER_LIST = 0x10005"
definition MSG_GAS_USER_END :: "32 word" where "MSG_GAS_USER_END = 0x10006"
definition ERR_GAS_USER_LOGIN_AUTH_FAIL :: int where "ERR_GAS_USER_LOGIN_AUTH_FAIL = 0xF0000"
definition ERR_GAS_USER_LOGIN_NAME_SANITY :: int where "ERR_GAS_USER_LOGIN_NAME_SANITY = 0xF0001"
definition ERR_GAS_SERVER_LIST_FAIL :: int where "ERR_GAS_SERVER_LIST_FAIL = 0xF0002"
definition MID_MSG_LEN :: nat where "MID_MSG_LEN = 1024 * 50"
definition SIZEOF_LOGIN_ACK :: nat where "SIZEOF_LOGIN_ACK = 8 + SIZEOF_USER"
definition EV_TIMEOUT :: int where "EV_TIMEOUT = 1"
definition EV_READ :: int where "EV_READ = 2"

lemmas gas_consts = MSG_GAS_USER_START_def MSG_GAS_USER_LOGIN_def MSG_GAS_SERVER_LIST_def MSG_GAS_USER_END_def
  ERR_GAS_USER_LOGIN_AUTH_FAIL_def ERR_GAS_USER_LOGIN_NAME_SANITY_def ERR_GAS_SERVER_LIST_FAIL_def
  MID_MSG_LEN_def SIZEOF_LOGIN_ACK_def SIZEOF_USER_def

definition GAS_USER_MSG_CHECK :: "ptr \<Rightarrow> ('d, 'a) gas_scheme \<Rightarrow> bool" where
  "GAS_USER_MSG_CHECK pmsg g \<longleftrightarrow>
     MSG_GAS_USER_START < it_msg g pmsg \<and> it_msg g pmsg < MSG_GAS_USER_END \<and> unat (it_len g pmsg) \<le> MID_MSG_LEN"

section \<open>Replies\<close>

text \<open>\<open>lib_send_msg((int)pmsg->peer, &pmsg->msg)\<close>; the result is only logged.\<close>

definition send_reply :: "ptr \<Rightarrow> ('d, 'a) gas_scheme \<Rightarrow> ('d, 'a) gas_scheme option" where
  "send_reply pmsg g = do {
     let fd = c_int (int (it_peer g pmsg));
     (_, out, s) \<leftarrow> lib_send_msg fd (Some \<lparr>msg = it_msg g pmsg, len = it_len g pmsg, payload = it_payload g pmsg\<rparr>) (enet (g_evts g));
     Some (g\<lparr>g_evts := (g_evts g)\<lparr>enet := s\<rparr>, g_out := g_out g @ [(fd, out)]\<rparr>) }"

definition set_payload :: "ptr \<Rightarrow> byte list \<Rightarrow> ('d, 'a) gas_scheme \<Rightarrow> ('d, 'a) gas_scheme" where
  "set_payload pmsg b g = g\<lparr>it_payload := (it_payload g)(pmsg := b)\<rparr>"

text \<open>
  The name and the password of a \<open>user_login_t\<close>: 32 bytes each are copied and the last one is made the
  end of the string, although the password's field has 48.
\<close>

definition c_string :: "byte list \<Rightarrow> string" where
  "c_string bs = map (\<lambda>b. char_of (unat b)) (takeWhile (\<lambda>b. b \<noteq> 0) bs)"

definition login_name :: "byte list \<Rightarrow> string" where
  "login_name b = c_string (take (MAX_NAME_LEN - 1) b)"

definition login_pwd :: "byte list \<Rightarrow> string" where
  "login_pwd b = c_string (take (MAX_NAME_LEN - 1) (drop MAX_NAME_LEN b))"

definition login_reply :: "ptr \<Rightarrow> int \<Rightarrow> ('d, 'a) gas_scheme \<Rightarrow> (int db_call \<times> ('d, 'a) gas_scheme) option" where
  "login_reply pmsg ret g = do {
     let g = g\<lparr>it_len := (it_len g)(pmsg := of_nat SIZEOF_LOGIN_ACK)\<rparr>;
     b \<leftarrow> put_bytes 0 (le32 (word_of_int ret)) (it_payload g pmsg);
     b \<leftarrow> (if ret \<noteq> 0 then put_bytes 8 (replicate SIZEOF_USER 0) b else Some b);
     g \<leftarrow> send_reply pmsg (set_payload pmsg b g);
     Some (Done OK, g) }"

definition gas_user_login ::
  "'d dbs_scheme mysql_api \<Rightarrow> ptr \<Rightarrow> ('d, 'a) gas_scheme \<Rightarrow> (int db_call \<times> ('d, 'a) gas_scheme) option"
where
  "gas_user_login api pmsg g = do {
     _ \<leftarrow> lib_assert (valid g pmsg);
     let b = it_payload g pmsg;
     _ \<leftarrow> lib_assert (2 * MAX_NAME_LEN \<le> length b);
     let name = login_name b;
     let pwd = login_pwd b;
     if lib_name_sanity (Some name) \<noteq> 0 then login_reply pmsg ERR_GAS_USER_LOGIN_NAME_SANITY g
     else do {
       (ok, db) \<leftarrow> gas_db_user_auth api name pwd (g_db g);
       if \<not> ok then login_reply pmsg ERR_GAS_USER_LOGIN_AUTH_FAIL (g\<lparr>g_db := db\<rparr>)
       else do {
         (r, b, db) \<leftarrow> gas_db_user_info api name 8 b db;
         let g = set_payload pmsg b (g\<lparr>g_db := db\<rparr>);
         case r of
           Blocks \<Rightarrow> Some (Blocks, g)
         | Done ret \<Rightarrow>
             if ret \<noteq> 0 then login_reply pmsg ERR_GAS_USER_LOGIN_AUTH_FAIL g
             else do {
               db \<leftarrow> gas_db_user_update_lastlogin api name (g_db g);
               login_reply pmsg 0 (g\<lparr>g_db := db\<rparr>) } } } }"

definition gas_server_list ::
  "'d dbs_scheme mysql_api \<Rightarrow> ptr \<Rightarrow> ('d, 'a) gas_scheme \<Rightarrow> (int db_call \<times> ('d, 'a) gas_scheme) option"
where
  "gas_server_list api pmsg g = do {
     _ \<leftarrow> lib_assert (valid g pmsg);
     (r, b, db) \<leftarrow> gas_db_server_info api TYPE_ALL (it_payload g pmsg) (g_db g);
     let g = set_payload pmsg b (g\<lparr>g_db := db\<rparr>);
     case r of
       Blocks \<Rightarrow> Some (Blocks, g)
     | Done ret \<Rightarrow> do {
         let g = g\<lparr>it_len := (it_len g)(pmsg := of_nat SIZEOF_SERVER_LIST)\<rparr>;
         b \<leftarrow> (if ret \<noteq> 0 then put_bytes 0 (replicate SIZEOF_SERVER_LIST 0) b else Some b);
         g \<leftarrow> send_reply pmsg (set_payload pmsg b g);
         Some (Done OK, g) } }"

section \<open>Dispatch\<close>

definition ras_user_msg_handle ::
  "'d dbs_scheme mysql_api \<Rightarrow> ptr \<Rightarrow> ptr \<Rightarrow> ('d, 'a) gas_scheme \<Rightarrow> (int db_call \<times> ('d, 'a) gas_scheme) option"
where
  "ras_user_msg_handle api param pmsg g = do {
     _ \<leftarrow> lib_assert (valid g pmsg);
     if \<not> GAS_USER_MSG_CHECK pmsg g then Some (Done ERROR, g)
     else if it_msg g pmsg = MSG_GAS_USER_LOGIN then gas_user_login api pmsg g
     else if it_msg g pmsg = MSG_GAS_SERVER_LIST then gas_server_list api pmsg g
     else Some (Done ERROR, g) }"

text \<open>\<open>lib_recv_msg(fd, user_msg_buf, MAX_MSG_LEN)\<close> into the static buffer.\<close>

definition recv_static :: "int \<Rightarrow> ('d, 'a) gas_scheme \<Rightarrow> (int \<times> ('d, 'a) gas_scheme) option" where
  "recv_static fd g = do {
     let p = user_msg_buf g;
     (ret, buf, es) \<leftarrow> lib_recv_msg fd (Some (le32 (it_msg g p) @ le32 (it_len g p) @ it_payload g p)) LibSocket.MAX_MSG_LEN (g_in g);
     case buf of
       None \<Rightarrow> None
     | Some b \<Rightarrow> Some (ret, g\<lparr>it_msg := (it_msg g)(p := msg_of b), it_len := (it_len g)(p := len_of b),
         it_payload := (it_payload g)(p := drop 8 b), g_in := es\<rparr>) }"

definition clean_evt :: "evts libevent \<Rightarrow> ptr \<Rightarrow> ('d, 'a) gas_scheme \<Rightarrow> ('d, 'a) gas_scheme option" where
  "clean_evt lapi e g = do {
     (_, ev) \<leftarrow> libevt_clean lapi e (g_evts g);
     Some (g\<lparr>g_evts := ev\<rparr>) }"

definition ras_user_msg_recv ::
  "evts libevent \<Rightarrow> ('d, 'a) gas_scheme mc_codes \<Rightarrow> int \<Rightarrow> int \<Rightarrow> ptr \<Rightarrow> ('d, 'a) gas_scheme \<Rightarrow> ('d, 'a) gas_scheme option"
where
  "ras_user_msg_recv lapi cds fd ty e g = do {
     _ \<leftarrow> lib_assert (e \<noteq> NULL);
     ev \<leftarrow> get_evt e (g_evts g);
     _ \<leftarrow> lib_assert (evt_ctx ev \<noteq> NULL);
     _ \<leftarrow> lib_assert (fd = evt_fd ev);
     if ty = EV_TIMEOUT then clean_evt lapi e g
     else if ty \<noteq> EV_READ then clean_evt lapi e g
     else do {
       (ret, g) \<leftarrow> recv_static fd g;
       if ret \<le> 0 then clean_evt lapi e g
       else do {
         let pmc = pmc_msg_high (g_lvl g (evt_ctx ev));
         _ \<leftarrow> lib_assert (pmc \<noteq> NULL);
         (pmsg, g) \<leftarrow> mc_producer_get_msg pmc g;
         if pmsg = NULL then Some g
         else do {
           (_, g) \<leftarrow> msg_copy pmsg (user_msg_buf g) g;
           let g = g\<lparr>it_peer := (it_peer g)(pmsg := nat fd)\<rparr>;
           (_, g) \<leftarrow> mc_producer_run cds pmc pmsg g;
           Some g } } } }"

section \<open>Receiving\<close>

lemma gas_more:
  "consumers.more g' = consumers.more g \<Longrightarrow> g_db g' = g_db g \<and> g_evts g' = g_evts g \<and> g_in g' = g_in g \<and>
   g_out g' = g_out g \<and> g_lvl g' = g_lvl g \<and> user_msg_buf g' = user_msg_buf g"
  by (cases g; cases g') simp

text \<open>The static buffer after a message: its head and its payload, with the old bytes behind it.\<close>

definition static_ok :: "('d, 'a) gas_scheme \<Rightarrow> bool" where
  "static_ok g \<longleftrightarrow> valid g (user_msg_buf g) \<and>
     length (it_payload g (user_msg_buf g)) + 8 = nat LibSocket.MAX_MSG_LEN"

definition holds_msg :: "('d, 'a) gas_scheme \<Rightarrow> ptr \<Rightarrow> msg_head \<Rightarrow> bool" where
  "holds_msg g p m \<longleftrightarrow> it_msg g p = msg m \<and> it_len g p = len m \<and> unat (len m) \<le> length (it_payload g p) \<and>
     take (unat (len m)) (it_payload g p) = take (unat (len m)) (payload m)"

lemma recv_static_ok:
  assumes s: "static_ok g" and m: "fits m LibSocket.MAX_MSG_LEN" "steady (g_in g)" "stream_of (g_in g) = frame m @ rest"
    and fd: "0 < fd"
  shows "\<exists>g'. recv_static fd g = Some (8 + uint (len m), g') \<and> holds_msg g' (user_msg_buf g) m \<and>
     live g' = live g \<and> nxt g' = nxt g \<and> prv g' = prv g \<and> mp_type g' = mp_type g \<and> mp_count g' = mp_count g \<and>
     mcons g' = mcons g \<and> g_evts g' = g_evts g \<and> g_lvl g' = g_lvl g \<and> user_msg_buf g' = user_msg_buf g \<and>
     stream_of (g_in g') = rest \<and> mp_limit g' = mp_limit g \<and> (\<forall>x. x \<noteq> user_msg_buf g \<longrightarrow> it_payload g' x = it_payload g x)"
proof -
  let ?p = "user_msg_buf g"
  let ?buf = "le32 (it_msg g ?p) @ le32 (it_len g ?p) @ it_payload g ?p"
  have bl: "length ?buf = nat LibSocket.MAX_MSG_LEN" using s by (simp add: static_ok_def)
  obtain es where r: "lib_recv_msg fd (Some ?buf) LibSocket.MAX_MSG_LEN (g_in g) =
      Some (8 + uint (len m), Some (frame m @ drop (length (frame m)) ?buf), es)" "stream_of es = rest"
    using lib_recv_msg_steady [OF m(1,2,3) bl fd] by blast
  let ?b = "frame m @ drop (length (frame m)) ?buf"
  have pl: "unat (len m) \<le> length (payload m)" using fitsD [OF m(1)] by simp
  have t: "take 8 ?b = head_bytes m" "8 \<le> length ?b" by (simp_all add: frame_def)
  have hf: "msg_of ?b = msg m" "len_of ?b = len m" using head_fields [OF t] by auto
  have d: "drop 8 ?b = take (unat (len m)) (payload m) @ drop (length (frame m)) ?buf" by (simp add: frame_def)
  let ?g = "g\<lparr>it_msg := (it_msg g)(?p := msg m), it_len := (it_len g)(?p := len m),
    it_payload := (it_payload g)(?p := drop 8 ?b), g_in := es\<rparr>"
  have "recv_static fd g = Some (8 + uint (len m), ?g)"
    unfolding recv_static_def by (simp only: Let_def r(1) bind.bind_lunit prod.case option.case hf)
  moreover have "holds_msg ?g ?p m" using pl d by (simp add: holds_msg_def)
  ultimately show ?thesis using r(2) by (intro exI [of _ ?g]) simp
qed

text \<open>The copy from the static buffer into a buffer of the pool is bounded by the longest message, not by that buffer.\<close>

lemma msg_copy_static:
  assumes h: "holds_msg g p m" "uint (len m) \<le> LibSocket.MAX_MSG_LEN" and v: "valid g p" "valid g x" "p \<noteq> x"
  shows "if unat (len m) \<le> length (it_payload g x)
    then \<exists>g'. msg_copy x p g = Some (OK, g') \<and> holds_msg g' x m \<and> live g' = live g \<and> nxt g' = nxt g \<and> prv g' = prv g \<and>
      mp_type g' = mp_type g \<and> mp_count g' = mp_count g \<and> mcons g' = mcons g \<and> consumers.more g' = consumers.more g
    else msg_copy x p g = None"
proof -
  have nn: "x \<noteq> NULL" "p \<noteq> NULL" using v by (auto dest: valid_pos)
  have "uint (len m) \<le> uint (LibMsgPool.MAX_MSG_LEN)"
    using h(2) by (simp add: LibMsgPool.MAX_MSG_LEN_def LibSocket.MAX_MSG_LEN_def)
  then have le: "it_len g p \<le> LibMsgPool.MAX_MSG_LEN" using h(1) by (simp add: word_le_def holds_msg_def)
  let ?n = "unat (len m)"
  let ?g = "g\<lparr>it_msg := (it_msg g)(x := msg m), it_len := (it_len g)(x := len m),
    it_payload := (it_payload g)(x := take ?n (it_payload g p) @ drop ?n (it_payload g x))\<rparr>"
  have ev: "msg_copy x p g = (if ?n \<le> length (it_payload g x) then Some (OK, ?g) else None)"
    using nn v le h(1) by (simp add: msg_copy_def copy_payload_def holds_msg_def)
  show ?thesis
  proof (cases "?n \<le> length (it_payload g x)")
    case True
    have "length (take ?n (it_payload g p)) = length (take ?n (payload m))" "?n \<le> length (it_payload g p)"
      using h(1) by (simp_all add: holds_msg_def)
    then have "?n \<le> length (payload m)" by simp
    then have "holds_msg ?g x m" using True h(1) by (simp add: holds_msg_def)
    then show ?thesis using ev True by (simp add: exI [of _ ?g])
  qed (use ev in simp)
qed

lemma ras_user_msg_recv_ok:
  assumes e: "valid (g_evts g) e" "evt_ctx (eitem (g_evts g) e) = l" "l \<noteq> NULL" "evt_fd (eitem (g_evts g) e) = fd" "0 < fd"
    and lv: "pmc_msg_high (g_lvl g l) = mc" and pools: "mc_pools g mc (x # cs) ms" and pf: "producer_fun (mcons g mc) = 0"
    and st: "static_ok g" "user_msg_buf g \<noteq> x"
    and m: "fits m LibSocket.MAX_MSG_LEN" "steady (g_in g)" "stream_of (g_in g) = frame m @ rest"
  shows "if unat (len m) \<le> length (it_payload g x)
    then \<exists>g'. ras_user_msg_recv lapi cds fd EV_READ e g = Some g' \<and> mc_pools g' mc cs (ms @ [x]) \<and>
      holds_msg g' x m \<and> it_peer g' x = nat fd \<and> stream_of (g_in g') = rest
    else ras_user_msg_recv lapi cds fd EV_READ e g = None"
proof -
  let ?p = "user_msg_buf g"
  obtain g1 where g1: "recv_static fd g = Some (8 + uint (len m), g1)" "holds_msg g1 ?p m" "live g1 = live g"
    "nxt g1 = nxt g" "prv g1 = prv g" "mp_type g1 = mp_type g" "mp_count g1 = mp_count g" "mcons g1 = mcons g"
    "g_lvl g1 = g_lvl g" "user_msg_buf g1 = ?p" "\<forall>y. y \<noteq> ?p \<longrightarrow> it_payload g1 y = it_payload g y"
    "stream_of (g_in g1) = rest"
    using recv_static_ok [OF st(1) m e(5)] by blast
  have p1: "mc_pools g1 mc (x # cs) ms" using pools mc_pools_cong [OF g1(3-7)] by blast
  obtain g2 where g2: "mc_get_msg_from_cache mc g1 = Some (x, g2)" "mc_pools g2 mc cs ms" "mc_same g2 g1" "x \<noteq> NULL"
    "valid g2 x" "x \<notin> set (msg_list (pool_cache mc) # cs)" "x \<notin> set (msg_list (pool_consumer mc) # ms)"
    "msg_heads g2 = msg_heads g1"
    using mc_take_free [OF p1] by blast
  have s2: "live g2 = live g" "mcons g2 = mcons g" "it_payload g2 = it_payload g1" "user_msg_buf g2 = ?p"
    "stream_of (g_in g2) = rest"
    using g2(3) g1(3,8,10,12) gas_more [of g2 g1] by (simp_all add: mc_same_def)
  have h2: "holds_msg g2 ?p m" using g1(2) g2(8) s2(3) by (simp add: holds_msg_def msg_heads_def)
  have vp: "valid g2 ?p" using st(1) s2(1) by (simp add: static_ok_def valid_def)
  have ul: "uint (len m) \<le> LibSocket.MAX_MSG_LEN" using fitsD(3) [OF m(1)] .
  have px: "it_payload g2 x = it_payload g x" using st(2) g1(11) s2(3) by simp
  note cp = msg_copy_static [OF h2 ul vp g2(5) st(2), unfolded px]
  have mcn: "mc \<noteq> NULL" using mc_poolsD(6) [OF pools] by (auto dest: valid_pos)
  have ty: "EV_READ \<noteq> EV_TIMEOUT" by (simp add: EV_READ_def EV_TIMEOUT_def)
  have en: "e \<noteq> NULL" using e(1) by (auto dest: valid_pos)
  have pos: "\<not> 8 + uint (len m) \<le> 0" using unsigned_greater_eq [where 'a = int, of "len m"] by linarith
  have run: "ras_user_msg_recv lapi cds fd EV_READ e g = do {
       (_, g) \<leftarrow> msg_copy x ?p g2;
       let g = g\<lparr>it_peer := (it_peer g)(x := nat fd)\<rparr>;
       (_, g) \<leftarrow> mc_producer_run cds mc x g;
       Some g }"
    using e en ty g1(1,9) lv mcn pos g2(1,4) s2(4)
    by (simp add: ras_user_msg_recv_def get_evt_def mc_producer_get_msg_def)
  show ?thesis
  proof (cases "unat (len m) \<le> length (it_payload g x)")
    case False
    then show ?thesis using cp run by simp
  next
    case True
    then obtain g3 where g3: "msg_copy x ?p g2 = Some (OK, g3)" "holds_msg g3 x m" "live g3 = live g2" "nxt g3 = nxt g2"
      "prv g3 = prv g2" "mp_type g3 = mp_type g2" "mp_count g3 = mp_count g2" "mcons g3 = mcons g2"
      "consumers.more g3 = consumers.more g2"
      using cp by auto
    define g4 where "g4 = g3\<lparr>it_peer := (it_peer g3)(x := nat fd)\<rparr>"
    have eqs: "live g4 = live g2" "nxt g4 = nxt g2" "prv g4 = prv g2" "mp_type g4 = mp_type g2"
      "mp_count g4 = mp_count g2" using g3 by (simp_all add: g4_def)
    have p4: "mc_pools g4 mc cs ms" using g2(2) mc_pools_cong [OF eqs] by blast
    have v4: "valid g4 x" using g2(5) eqs(1) by (simp add: valid_def)
    have room: "Suc (List.length cs + List.length ms) < 2 ^ 32" using mc_poolsD(7) [OF pools] by simp
    obtain sig g5 where g5: "mc_put_msg_to_consumer mc x g4 = Some (sig, g5)" "mc_pools g5 mc cs (ms @ [x])" "mc_same g5 g4"
      "msg_heads g5 = msg_heads g4"
      using mc_send [OF p4 v4 g2(6,7) room] by blast
    have pf4: "producer_fun (mcons g4 mc) = 0" "valid g4 mc"
      using pf s2(2) g3(8) mc_poolsD(6) [OF p4] by (simp_all add: g4_def)
    have "mc_producer_run cds mc x g4 = Some (OK, g5)"
      using g2(4) pf4 g5(1) by (simp add: mc_producer_run_def get_mc_def)
    then have "ras_user_msg_recv lapi cds fd EV_READ e g = Some g5"
      using run g3(1) by (simp add: g4_def)
    moreover have "stream_of (g_in g5) = rest"
      using g5(3) g3(9) s2(5) gas_more [of g5 g4] gas_more [of g3 g2] by (simp add: mc_same_def g4_def)
    moreover have "holds_msg g5 x m \<and> it_peer g5 x = nat fd"
      using g5(3,4) g3(2) by (simp add: holds_msg_def msg_heads_def mc_same_def g4_def)
    ultimately show ?thesis using True g5(2) by auto
  qed
qed

text \<open>With no buffer free and the pool grown to its limit the message is read and dropped.\<close>

lemma ras_user_msg_recv_full:
  assumes e: "valid (g_evts g) e" "evt_ctx (eitem (g_evts g) e) = l" "l \<noteq> NULL" "evt_fd (eitem (g_evts g) e) = fd" "0 < fd"
    and lv: "pmc_msg_high (g_lvl g l) = mc" and pools: "mc_pools g mc [] ms"
    and lim: "MSG_POOL_MAX_COUNT \<le> mp_limit g (pool_cache mc)" and st: "static_ok g"
    and m: "fits m LibSocket.MAX_MSG_LEN" "steady (g_in g)" "stream_of (g_in g) = frame m @ rest"
  shows "\<exists>g'. ras_user_msg_recv lapi cds fd EV_READ e g = Some g' \<and> mc_pools g' mc [] ms \<and> stream_of (g_in g') = rest"
proof -
  obtain g1 where g1: "recv_static fd g = Some (8 + uint (len m), g1)" "live g1 = live g"
    "nxt g1 = nxt g" "prv g1 = prv g" "mp_type g1 = mp_type g" "mp_count g1 = mp_count g"
    "g_lvl g1 = g_lvl g" "stream_of (g_in g1) = rest" "mp_limit g1 = mp_limit g"
    using recv_static_ok [OF st m e(5)] by blast
  have p1: "mc_pools g1 mc [] ms" using pools mc_pools_cong [OF g1(2-6)] by blast
  have r1: "pool_rep g1 (pool_cache mc) MSG_POOL_TYPE_CACHE []" using p1 by (simp add: mc_pools_def)
  have none: "mc_producer_get_msg mc g1 = Some (NULL, g1)"
    using msg_pool_get_exhausted [OF r1] lim g1(9) pool_rep_facts(1) [OF r1]
    by (simp add: mc_producer_get_msg_def mc_get_msg_from_cache_def)
  have mcn: "mc \<noteq> NULL" using mc_poolsD(6) [OF pools] by (auto dest: valid_pos)
  have ty: "EV_READ \<noteq> EV_TIMEOUT" by (simp add: EV_READ_def EV_TIMEOUT_def)
  have en: "e \<noteq> NULL" using e(1) by (auto dest: valid_pos)
  have pos: "\<not> 8 + uint (len m) \<le> 0" using unsigned_greater_eq [where 'a = int, of "len m"] by linarith
  have "ras_user_msg_recv lapi cds fd EV_READ e g = Some g1"
    using e en ty g1(1,7) lv mcn pos none by (simp add: ras_user_msg_recv_def get_evt_def)
  then show ?thesis using p1 g1(8) by blast
qed

section \<open>The statement of a login\<close>

text \<open>The payload of a login message: name and password in their fields, filled up with zeros.\<close>

definition login_msg :: "string \<Rightarrow> string \<Rightarrow> byte list \<Rightarrow> byte list" where
  "login_msg name pwd rest =
     bytes_of name @ replicate (MAX_NAME_LEN - length name) 0 @ bytes_of pwd @ replicate (48 - length pwd) 0 @ rest"

lemma unat_of_char: "unat (of_char c :: 8 word) = of_char c" for c :: char
proof -
  have "(of_char c :: 8 word) = of_nat (of_char c)" by (simp add: of_nat_of_char)
  moreover have "(of_char c :: nat) < 2 ^ 8" using nat_of_char_less_256 [of c] by simp
  ultimately show ?thesis by (simp only: unat_of_nat) (simp add: take_bit_nat_eq_self)
qed

lemma of_char_zero: "(of_char c :: 8 word) = 0 \<Longrightarrow> c = CHR 0x00" for c :: char
proof -
  assume "(of_char c :: 8 word) = 0"
  then have a: "(of_char c :: nat) = 0" using unat_of_char [of c] by simp
  have "c = char_of (of_char c :: nat)" by simp
  also have "\<dots> = CHR 0x00" by (simp only: a) (simp add: char_of_def)
  finally show ?thesis .
qed

lemma c_string_bytes:
  assumes "CHR 0x00 \<notin> set s"
  shows "c_string (bytes_of s @ replicate n 0) = s"
proof -
  have "takeWhile (\<lambda>b. b \<noteq> 0) (bytes_of s @ replicate n 0) = bytes_of s"
    using assms of_char_zero by (subst takeWhile_append2) (auto simp: bytes_of_def takeWhile_replicate)
  then show ?thesis by (simp add: c_string_def bytes_of_def unat_of_char o_def)
qed

lemma login_fields:
  assumes "CHR 0x00 \<notin> set name" "CHR 0x00 \<notin> set pwd" "length name < MAX_NAME_LEN" "length pwd < MAX_NAME_LEN"
  shows "login_name (login_msg name pwd rest) = name" "login_pwd (login_msg name pwd rest) = pwd"
proof -
  have l: "length (bytes_of s) = length s" for s by (simp add: bytes_of_def)
  have t: "take k (bytes_of s @ replicate j 0 @ u) = bytes_of s @ replicate (k - length s) 0"
    if "length s \<le> k" "k \<le> length s + j" for k j s u
    using that by (simp add: l)
  have "take (MAX_NAME_LEN - 1) (login_msg name pwd rest) = bytes_of name @ replicate (MAX_NAME_LEN - 1 - length name) 0"
    unfolding login_msg_def by (rule t) (use assms(3) in simp_all)
  then show "login_name (login_msg name pwd rest) = name"
    using c_string_bytes [OF assms(1)] by (simp add: login_name_def)
  have d: "drop MAX_NAME_LEN (login_msg name pwd rest) = bytes_of pwd @ replicate (48 - length pwd) 0 @ rest"
    using assms(3) by (simp add: login_msg_def l)
  have "take (MAX_NAME_LEN - 1) (drop MAX_NAME_LEN (login_msg name pwd rest)) =
      bytes_of pwd @ replicate (MAX_NAME_LEN - 1 - length pwd) 0"
    unfolding d by (rule t) (use assms(4) in \<open>simp_all add: MAX_NAME_LEN_def\<close>)
  then show "login_pwd (login_msg name pwd rest) = pwd"
    using c_string_bytes [OF assms(2)] by (simp add: login_pwd_def)
qed

lemma sane_no_nul: "lib_name_sanity (Some s) = 0 \<Longrightarrow> CHR 0x00 \<notin> set s"
  by (auto simp: lib_name_sanity_iff isalnum_def isalpha_def)

lemma injected_code:
  assumes "lib_name_sanity (Some name) = 0"
  shows "sql_code (auth_sql name (injected name)) = AUTH_CODE @ '' or username=?''"
proof -
  have p: "plain name" by (rule isalnum_plain [OF assms])
  have e: "plain []" by (simp add: plain_def)
  have "sql_scan Quote ('' or username='' @ sql_quote @ name @ sql_quote) = '' or username='' @ sql_scan Code (sql_quote @ name @ sql_quote @ [])"
    using scan_code [OF plain_texts(3), of "sql_quote @ name @ sql_quote"] by (simp add: SQL_QUOTE_def)
  also have "sql_scan Code (sql_quote @ name @ sql_quote @ []) = ''?''" by (subst scan_value [OF p]) simp_all
  finally show ?thesis unfolding auth_sql_injected by (subst auth_sql_code [OF p e]) simp
qed

lemma injected_fields:
  assumes "lib_name_sanity (Some name) = 0" "length name \<le> 16"
  shows "login_name (login_msg name (injected name) os) = name"
    and "login_pwd (login_msg name (injected name) os) = injected name"
    and "2 * MAX_NAME_LEN \<le> length (login_msg name (injected name) os)"
proof -
  have n: "CHR 0x00 \<notin> set name" by (rule sane_no_nul [OF assms(1)])
  have i: "CHR 0x00 \<notin> set (injected name)" "length (injected name) < MAX_NAME_LEN" "length name < MAX_NAME_LEN"
    using n assms(2) by (auto simp: injected_def sql_quote_def MAX_NAME_LEN_def)
  show "login_name (login_msg name (injected name) os) = name" "login_pwd (login_msg name (injected name) os) = injected name"
    by (rule login_fields [OF n i(1,3,2)])+
  show "2 * MAX_NAME_LEN \<le> length (login_msg name (injected name) os)"
    using i by (simp add: login_msg_def bytes_of_def MAX_NAME_LEN_def)
qed

lemma injected_sql_fits: "length name \<le> 16 \<Longrightarrow> length (auth_sql name (injected name)) < SQL_LEN"
  by (simp add: auth_sql_def injected_def sql_quote_def SQL_LEN_def)

text \<open>The branches of a login.\<close>

lemma gas_user_login_insane:
  "valid g pmsg \<Longrightarrow> 2 * MAX_NAME_LEN \<le> length (it_payload g pmsg) \<Longrightarrow>
   lib_name_sanity (Some (login_name (it_payload g pmsg))) \<noteq> 0 \<Longrightarrow>
   gas_user_login api pmsg g = login_reply pmsg ERR_GAS_USER_LOGIN_NAME_SANITY g"
  by (simp add: gas_user_login_def)

lemma gas_user_login_accepted:
  assumes "valid g pmsg" "2 * MAX_NAME_LEN \<le> length (it_payload g pmsg)" "login_name (it_payload g pmsg) = name"
    "lib_name_sanity (Some name) = 0" "gas_db_user_auth api name (login_pwd (it_payload g pmsg)) (g_db g) = Some (True, db1)"
    "gas_db_user_info api name 8 (it_payload g pmsg) db1 = Some (Done 0, b2, db2)"
    "gas_db_user_update_lastlogin api name db2 = Some db3"
  shows "gas_user_login api pmsg g = login_reply pmsg 0 ((set_payload pmsg b2 g)\<lparr>g_db := db3\<rparr>)"
  using assms by (simp add: gas_user_login_def set_payload_def)

section \<open>Properties\<close>

text \<open>C22: one whole message of at most \<open>MAX_MSG_LEN\<close> bytes arrives on the connection of a client, whose
  consumer has no \<open>producer_fun\<close>. If a buffer of the pool is free: with a payload that fits that buffer the
  message is queued last for the workers, with its head, its payload and the descriptor for the reply;
  with a longer one, up to the megabyte that \<open>lib_recv_msg\<close> lets through, the copy runs past the end of the
  buffer. If no buffer is free and the pool has grown to its limit, the message is read off the connection
  and dropped, and the queue stays as it was.\<close>

theorem recv_queues_or_overflows:
  assumes "valid (g_evts g) e" "evt_ctx (eitem (g_evts g) e) = l" "l \<noteq> NULL" "evt_fd (eitem (g_evts g) e) = fd" "0 < fd"
    "pmc_msg_high (g_lvl g l) = mc" "mc_pools g mc free ms" "producer_fun (mcons g mc) = 0"
    "static_ok g" "user_msg_buf g \<notin> set free"
    "fits m LibSocket.MAX_MSG_LEN" "steady (g_in g)" "stream_of (g_in g) = frame m @ rest"
    "free = [] \<Longrightarrow> MSG_POOL_MAX_COUNT \<le> mp_limit g (pool_cache mc)"
  shows "case free of
      [] \<Rightarrow> \<exists>g'. ras_user_msg_recv lapi cds fd EV_READ e g = Some g' \<and> mc_pools g' mc [] ms \<and> stream_of (g_in g') = rest
    | x # cs \<Rightarrow>
        if unat (len m) \<le> length (it_payload g x)
        then \<exists>g'. ras_user_msg_recv lapi cds fd EV_READ e g = Some g' \<and> mc_pools g' mc cs (ms @ [x]) \<and>
          holds_msg g' x m \<and> it_peer g' x = nat fd \<and> stream_of (g_in g') = rest
        else ras_user_msg_recv lapi cds fd EV_READ e g = None"
proof (cases free)
  case Nil
  show ?thesis unfolding Nil list.case
    by (rule ras_user_msg_recv_full [OF assms(1-6) assms(7) [unfolded Nil] assms(14) [OF Nil] assms(9,11-13)])
next
  case (Cons x cs)
  have x: "user_msg_buf g \<noteq> x" using assms(10) Cons by simp
  show ?thesis unfolding Cons list.case
    by (rule ras_user_msg_recv_ok [OF assms(1-6) assms(7) [unfolded Cons] assms(8,9) x assms(11-13)])
qed

text \<open>A gateway with one free buffer of \<open>MID_MSG_LEN\<close> bytes at \<open>7\<close> and its static buffer at \<open>8\<close>; the
  connection of \<open>LibEvt.evt_demo\<close> brings a message of \<open>MID_MSG_LEN + 1\<close> bytes.\<close>

definition long_msg :: msg_head where
  "long_msg = \<lparr>msg = MSG_GAS_USER_LOGIN, len = 51201, payload = replicate 51201 0\<rparr>"

definition gas_demo :: "unit gas" where
  "gas_demo = \<lparr>live = (\<lambda>p. 1 \<le> p \<and> p \<le> 8), brk = 9, oom = [],
     nxt = (\<lambda>p. if p = 5 then 6 else if p = 6 then 5 else if p = 3 then 7 else 3),
     prv = (\<lambda>p. if p = 5 then 6 else if p = 6 then 5 else if p = 3 then 7 else 3),
     mp_type = (\<lambda>p. if p = 2 then MSG_POOL_TYPE_CACHE else MSG_POOL_TYPE_CONSUMER_PRODUCER),
     mp_limit = (\<lambda>_. 2), mp_count = (\<lambda>_. 1), msg_payload_len = (\<lambda>_. 51200),
     it_peer = (\<lambda>_. 0), it_msg = (\<lambda>_. 0), it_len = (\<lambda>_. 0),
     it_payload = (\<lambda>p. if p = 8 then replicate (1024 * 1024 - 8) 0 else replicate MID_MSG_LEN 0),
     mcons = mcons mc_demo, mc_threads = mc_threads mc_demo,
     g_db = \<lparr>live = (\<lambda>_. False), brk = 1, oom = [], nxt = (\<lambda>_. 0), prv = (\<lambda>_. 0), db_count = 0, db_list = 0, db_sem = 0,
       dbh = (\<lambda>_. zero_dbh), instant_svr = \<lparr>svr_ip = [], svr_port = 0, svr_user = [], svr_pwd = [], svr_name = []\<rparr>\<rparr>,
     g_evts = evt_demo\<lparr>eitem := (\<lambda>_. \<lparr>evt_fd = 5, evt_last_time = 0, evt_idle_timeout = 0, evt_pool = 0, evt_ctx = 9,
       new_cb = 0, delete_cb = 0, event_cb = 0\<rparr>)\<rparr>,
     g_in = [Data (frame long_msg)], g_out = [],
     g_lvl = (\<lambda>_. \<lparr>pmc_msg_high = 1, pmc_msg_mid = 0, pmc_msg_low = 0, ptp_high = 0, ptp_mid = 0, ptp_low = 0,
       thd_high = 8, thd_mid = 0, thd_low = 0\<rparr>),
     user_msg_buf = 8\<rparr>"

lemma gas_demo_facts:
  "valid (g_evts gas_demo) 3" "evt_ctx (eitem (g_evts gas_demo) 3) = 9" "(9 :: ptr) \<noteq> NULL"
  "evt_fd (eitem (g_evts gas_demo) 3) = 5" "(0 :: int) < 5" "pmc_msg_high (g_lvl gas_demo 9) = 1"
  "mc_pools gas_demo 1 [7] [6]" "producer_fun (mcons gas_demo 1) = 0" "static_ok gas_demo" "user_msg_buf gas_demo \<noteq> 7"
  by (auto simp: gas_demo_def evt_demo_def valid_def mc_pools_def pool_rep_def dlist_def mc_demo_def static_ok_def
    LibSocket.MAX_MSG_LEN_def)

lemma long_msg_facts:
  "fits long_msg LibSocket.MAX_MSG_LEN" "steady (g_in gas_demo)" "stream_of (g_in gas_demo) = frame long_msg @ []"
  "\<not> unat (len long_msg) \<le> length (it_payload gas_demo 7)"
proof -
  have "frame long_msg \<noteq> []" by (simp add: frame_def head_bytes_def le32_def)
  then show "steady (g_in gas_demo)" "stream_of (g_in gas_demo) = frame long_msg @ []" by (simp_all add: gas_demo_def)
qed (simp_all add: fits_def long_msg_def LibSocket.MAX_MSG_LEN_def gas_demo_def MID_MSG_LEN_def)

text \<open>The same gateway when a short message comes, and with no buffer free and the pool at its limit.\<close>

definition short_msg :: msg_head where
  "short_msg = \<lparr>msg = MSG_GAS_USER_LOGIN, len = 4, payload = [1, 2, 3, 4]\<rparr>"

definition gas_short :: "unit gas" where "gas_short = gas_demo\<lparr>g_in := [Data (frame short_msg)]\<rparr>"

definition gas_full :: "unit gas" where
  "gas_full = gas_short\<lparr>nxt := (nxt gas_demo)(3 := 3), prv := (prv gas_demo)(3 := 3),
     mp_count := (mp_count gas_demo)(2 := 0), mp_limit := (\<lambda>_. MSG_POOL_MAX_COUNT)\<rparr>"

lemma gas_short_facts:
  "valid (g_evts gas_short) 3" "evt_ctx (eitem (g_evts gas_short) 3) = 9" "evt_fd (eitem (g_evts gas_short) 3) = 5"
  "pmc_msg_high (g_lvl gas_short 9) = 1" "mc_pools gas_short 1 [7] [6]" "producer_fun (mcons gas_short 1) = 0"
  "static_ok gas_short" "user_msg_buf gas_short \<notin> set [7]"
  using gas_demo_facts mc_pools_cong [of gas_short gas_demo 1 "[7]" "[6]"]
  by (simp_all add: gas_short_def static_ok_def valid_def)

lemma gas_full_facts:
  "valid (g_evts gas_full) 3" "evt_ctx (eitem (g_evts gas_full) 3) = 9" "evt_fd (eitem (g_evts gas_full) 3) = 5"
  "pmc_msg_high (g_lvl gas_full 9) = 1" "mc_pools gas_full 1 [] [6]" "producer_fun (mcons gas_full 1) = 0"
  "static_ok gas_full" "user_msg_buf gas_full \<notin> set []"
  using gas_short_facts(1-4,6,7)
  by (auto simp: gas_full_def static_ok_def valid_def)
    (auto simp: gas_short_def gas_demo_def valid_def mc_pools_def pool_rep_def dlist_def)

lemma short_msg_facts:
  "fits short_msg LibSocket.MAX_MSG_LEN" "steady (g_in gas_short)" "stream_of (g_in gas_short) = frame short_msg @ []"
  "steady (g_in gas_full)" "stream_of (g_in gas_full) = frame short_msg @ []"
  "unat (len short_msg) \<le> length (it_payload gas_short 7)"
proof -
  have "frame short_msg \<noteq> []" by (simp add: frame_def head_bytes_def le32_def)
  then show "steady (g_in gas_short)" "stream_of (g_in gas_short) = frame short_msg @ []"
    "steady (g_in gas_full)" "stream_of (g_in gas_full) = frame short_msg @ []"
    by (simp_all add: gas_short_def gas_full_def)
qed (simp_all add: fits_def short_msg_def LibSocket.MAX_MSG_LEN_def gas_short_def gas_demo_def MID_MSG_LEN_def)

definition gas_codes :: "unit gas mc_codes" where
  "gas_codes = \<lparr>consume = (\<lambda>_ _ _ g. Some (0, g)), produce = (\<lambda>_ _ _ g. Some (0, g))\<rparr>"

theorem recv_queues_or_overflows_witness:
  "(\<exists>g'. ras_user_msg_recv libevent_demo gas_codes 5 EV_READ 3 gas_short = Some g' \<and> mc_pools g' 1 [] [6, 7] \<and>
      holds_msg g' 7 short_msg \<and> it_peer g' 7 = 5) \<and>
    ras_user_msg_recv libevent_demo gas_codes 5 EV_READ 3 gas_demo = None \<and>
    (\<exists>g'. ras_user_msg_recv libevent_demo gas_codes 5 EV_READ 3 gas_full = Some g' \<and> mc_pools g' 1 [] [6])"
proof (intro conjI)
  have nn: "(9 :: ptr) \<noteq> NULL" "(0 :: int) < 5" by simp_all
  show "\<exists>g'. ras_user_msg_recv libevent_demo gas_codes 5 EV_READ 3 gas_short = Some g' \<and> mc_pools g' 1 [] [6, 7] \<and>
      holds_msg g' 7 short_msg \<and> it_peer g' 7 = 5"
    using recv_queues_or_overflows [OF gas_short_facts(1,2) nn(1) gas_short_facts(3) nn(2) gas_short_facts(4-8)
      short_msg_facts(1-3), of libevent_demo gas_codes] short_msg_facts(6) by auto
  show "ras_user_msg_recv libevent_demo gas_codes 5 EV_READ 3 gas_demo = None"
    using recv_queues_or_overflows [OF gas_demo_facts(1-9) _ long_msg_facts(1-3), of libevent_demo gas_codes]
      gas_demo_facts(10) long_msg_facts(4) by auto
  show "\<exists>g'. ras_user_msg_recv libevent_demo gas_codes 5 EV_READ 3 gas_full = Some g' \<and> mc_pools g' 1 [] [6]"
    using recv_queues_or_overflows [OF gas_full_facts(1,2) nn(1) gas_full_facts(3) nn(2) gas_full_facts(4-8)
      short_msg_facts(1,4,5), of libevent_demo gas_codes] by (auto simp: gas_full_def)
qed

text \<open>C23: a message of a client can hold any name of at most 16 letters and digits and, in its password field,
  a text that ends the literal of the password. The name is checked, and a login whose name has another
  character is answered with \<open>ERR_GAS_USER_LOGIN_NAME_SANITY\<close> without a look at the database. The password
  is not: the statement sent to the database has a second condition, \<open>or username=?\<close>, where a
  password free of quotes and backslashes gives the intended statement. When the database can be reached
  and counts one user for the statement with the second condition, \<open>gas_db_user_auth\<close> accepts, and the
  login is answered with success once the user's data were fetched and the date of the login was stored.\<close>

theorem login_injection:
  assumes "lib_name_sanity (Some name) = 0" "length name \<le> 16"
    "valid g pmsg" "it_payload g pmsg = login_msg name (injected name) os"
    "mysql_up api" "mysql_closes api" "heap_ok (g_db g)" "oom (g_db g) = []"
    "mysql_answers api (auth_sql name (injected name)) [Some ''1'']"
  shows "sql_code (auth_sql name (injected name)) = AUTH_CODE @ '' or username=?'' \<and>
    (\<forall>pwd. plain pwd \<longrightarrow> sql_code (auth_sql name pwd) = AUTH_CODE) \<and>
    (\<exists>db1. gas_db_user_auth api name (injected name) (g_db g) = Some (True, db1) \<and>
      (\<forall>b2 db2 db3. gas_db_user_info api name 8 (it_payload g pmsg) db1 = Some (Done 0, b2, db2) \<longrightarrow>
        gas_db_user_update_lastlogin api name db2 = Some db3 \<longrightarrow>
        gas_user_login api pmsg g = login_reply pmsg 0 ((set_payload pmsg b2 g)\<lparr>g_db := db3\<rparr>))) \<and>
    (\<forall>p. valid g p \<longrightarrow> 2 * MAX_NAME_LEN \<le> length (it_payload g p) \<longrightarrow>
      lib_name_sanity (Some (login_name (it_payload g p))) \<noteq> 0 \<longrightarrow>
      gas_user_login api p g = login_reply p ERR_GAS_USER_LOGIN_NAME_SANITY g)"
proof (intro conjI allI impI)
  note f = injected_fields [OF assms(1,2), of os, folded assms(4)]
  have c: "col [Some ''1''] 0 = Some ''1''" "atoi ''1'' = 1" by (simp add: col_def, code_simp)
  obtain db1 where db1: "gas_db_user_auth api name (injected name) (g_db g) = Some (True, db1)"
    using gas_db_user_auth_up [OF assms(5,6,9) c(1) injected_sql_fits [OF assms(2)] assms(7,8)] c(2) by auto
  note acc = gas_user_login_accepted [OF assms(3) f(3,1) assms(1) db1 [folded f(2)]]
  show "\<exists>db1. gas_db_user_auth api name (injected name) (g_db g) = Some (True, db1) \<and>
      (\<forall>b2 db2 db3. gas_db_user_info api name 8 (it_payload g pmsg) db1 = Some (Done 0, b2, db2) \<longrightarrow>
        gas_db_user_update_lastlogin api name db2 = Some db3 \<longrightarrow>
        gas_user_login api pmsg g = login_reply pmsg 0 ((set_payload pmsg b2 g)\<lparr>g_db := db3\<rparr>))"
    by (rule exI [of _ db1]) (use db1 acc in simp)
  show "sql_code (auth_sql name pwd) = AUTH_CODE" if "plain pwd" for pwd
    using auth_sql_code [OF isalnum_plain [OF assms(1)] that, of "[]"] by simp
qed (simp_all add: injected_code [OF assms(1)] gas_user_login_insane)

text \<open>The message of \<open>bob\<close>, at \<open>7\<close>, and a database with no pooled handle that counts one for every statement.\<close>

definition count_one :: "unit dbs_scheme mysql_api" where
  "count_one = \<lparr>mysql_init = (\<lambda>h. (7, h)), mysql_real_connect = (\<lambda>_ _ h. (True, h)), mysql_close = (\<lambda>_ h. h),
     mysql_real_query = (\<lambda>_ _ h. (0, h)), mysql_store_result = (\<lambda>_ h. (Some [[Some ''1'']], h)), mysql_errno = (\<lambda>_ _. 0)\<rparr>"

definition gas_bob :: "unit gas" where
  "gas_bob = gas_demo\<lparr>it_payload := (\<lambda>_. login_msg ''bob'' (injected ''bob'') (replicate 512 0))\<rparr>"

lemma count_one_facts: "mysql_up count_one" "mysql_closes count_one" "mysql_answers count_one sql [Some ''1'']"
proof -
  have id: "\<exists>f. h = dbs.more_update f h" for h :: "unit dbs_scheme" by (rule exI [of _ "\<lambda>x. x"]) simp
  show "mysql_up count_one" unfolding mysql_up_def count_one_def by (simp add: id)
  show "mysql_closes count_one" unfolding mysql_closes_def count_one_def by (simp add: id)
  show "mysql_answers count_one sql [Some ''1'']" unfolding mysql_answers_def query_rows_def count_one_def by (simp add: id)
qed

lemma gas_bob_facts:
  "valid gas_bob 7" "it_payload gas_bob 7 = login_msg ''bob'' (injected ''bob'') (replicate 512 0)"
  "heap_ok (g_db gas_bob)" "oom (g_db gas_bob) = []" "db_count (g_db gas_bob) = 0"
  by (simp_all add: gas_bob_def gas_demo_def valid_def heap_ok_def)

theorem login_injection_witness:
  "\<exists>b db. gas_user_login count_one 7 gas_bob = login_reply 7 0 ((set_payload 7 b gas_bob)\<lparr>g_db := db\<rparr>)"
proof -
  have n: "lib_name_sanity (Some ''bob'') = 0" "length ''bob'' \<le> 16"
    by (simp_all add: lib_name_sanity_iff isalnum_def isalpha_def)
  let ?b = "it_payload gas_bob 7"
  have c: "col [Some ''1''] 0 = Some ''1''" by (simp add: col_def)
  obtain db1 where db1: "gas_db_user_auth count_one ''bob'' (injected ''bob'') (g_db gas_bob) = Some (atoi ''1'' = 1, db1)"
    "heap_ok db1" "oom db1 = []" "db_count db1 = 0"
    using gas_db_user_auth_up [OF count_one_facts c injected_sql_fits [OF n(2)] gas_bob_facts(3,4)] gas_bob_facts(5) by auto
  have i: "gas_db_user_info count_one ''bob'' 8 ?b db1 = Some (Done 0, ?b, db1)"
    using db1(4) by (simp add: gas_db_user_info_def db_get_handle_def)
  have s: "length (lastlogin_sql ''bob'') < SQL_LEN" by (simp add: lastlogin_sql_def sql_quote_def SQL_LEN_def)
  obtain db3 where "gas_db_user_update_lastlogin count_one ''bob'' db1 = Some db3"
    using gas_db_user_update_lastlogin_up [OF count_one_facts(1,2) s db1(2,3)] by blast
  then have "gas_user_login count_one 7 gas_bob = login_reply 7 0 ((set_payload 7 ?b gas_bob)\<lparr>g_db := db3\<rparr>)"
    using login_injection [OF n gas_bob_facts(1,2) count_one_facts(1,2) gas_bob_facts(3,4) count_one_facts(3)] db1(1) i
    by auto
  then show ?thesis by blast
qed

end
