(* ===== verification/GasMain.thy ===== *)
theory GasMain imports GasMsg LibMem begin

text \<open>
  \<open>Server/gas/gas-main.c\<close>: the gateway put together. \<open>main\<close> reads the configuration, opens the database
  pool, sets up the listener in libevent, the pools of threads and messages, and runs the event loop; the
  thread of high priority runs the consumer of messages, another answers a debug connection. The work of
  the threads is not part of \<open>main\<close>; it is handed to the thread pool and modelled in the theories below.
\<close>

section \<open>State\<close>

record ras_config =
  ras_ip :: string
  ras_port :: int
  ras_debug_port :: int
  ras_max_thread :: int
  ras_max_conn :: int
  ras_id :: int
  db_user :: string
  db_pwd :: string
  db_name :: string
  dbs_ip :: string
  dbs_port :: int
  dbs_connect :: int
  lgs_ip :: string
  lgs_port :: int

text \<open>
  The gateway's globals: configuration, files, the allocator's bookkeeping, the log server, and the
  addresses of \<open>ras_lvl_msg_pool\<close>, \<open>evt_user_acceptor\<close>, and of what \<open>evt_pool\<close> and \<open>user_msg_pool\<close> point to.
\<close>

record 'd gateway = "'d gas" +
  g_cf :: ras_config
  g_fs :: fsys
  g_mem :: memtool
  g_log :: "string \<times> int \<times> int"
  ras_lvl_msg_pool :: ptr
  evt_user_acceptor :: ptr
  evt_pool_at :: ptr
  user_msg_pool :: ptr

text \<open>The numbers of the functions that are handed on as call backs and jobs, and of the signals.\<close>

definition RAS_USER_MSG_RECV :: nat where "RAS_USER_MSG_RECV = 3"
definition RAS_SIGNAL_CB :: nat where "RAS_SIGNAL_CB = 4"
definition RAS_USER_MSG_HANDLE :: nat where "RAS_USER_MSG_HANDLE = 1"
definition RAS_HIGH_THREAD :: nat where "RAS_HIGH_THREAD = 2"
definition RAS_DEBUG_THREAD :: nat where "RAS_DEBUG_THREAD = 3"
definition SIGHUP :: int where "SIGHUP = 1"
definition SIGPIPE :: int where "SIGPIPE = 13"
definition LOG_DISP_ALL :: int where "LOG_DISP_ALL = 3"
definition RAS_HIGH_PRIORITY_THREAD :: int where "RAS_HIGH_PRIORITY_THREAD = 8"

section \<open>Configuration\<close>

text \<open>
  \<open>config_get\<close> into a field or an array of 32 bytes; \<open>fd\<close> is the descriptor the lock file is opened with.
  No value is \<open>None\<close> of the inner option; a value that does not fit is written over what follows.
\<close>

definition read_config :: "int \<Rightarrow> config_type \<Rightarrow> fsys \<Rightarrow> (string option \<times> fsys) option" where
  "read_config fd k fs = do {
     (rc, v, fs) \<leftarrow> config_get fd k fs;
     if rc \<noteq> 0 then Some (None, fs)
     else do {
       let s = (case v of None \<Rightarrow> [] | Some w \<Rightarrow> w);
       _ \<leftarrow> lib_assert (length s < MAX_NAME_LEN);
       Some (Some s, fs) } }"

definition config_items :: "(config_type \<times> (string \<Rightarrow> ras_config \<Rightarrow> ras_config)) list" where
  "config_items =
     [(GAS_IP, \<lambda>s c. c\<lparr>ras_ip := s\<rparr>),
      (GAS_PORT, \<lambda>s c. c\<lparr>ras_port := atoi s\<rparr>),
      (GAS_DEBUG_PORT, \<lambda>s c. c\<lparr>ras_debug_port := atoi s\<rparr>),
      (GAS_MAX_CONN, \<lambda>s c. c\<lparr>ras_max_conn := atoi s\<rparr>),
      (GAS_MAX_THREAD, \<lambda>s c. c\<lparr>ras_max_thread := atoi s\<rparr>),
      (GAS_ID, \<lambda>s c. c\<lparr>ras_id := atoi s\<rparr>),
      (DBS_IP, \<lambda>s c. c\<lparr>dbs_ip := s\<rparr>),
      (DBS_PORT, \<lambda>s c. c\<lparr>dbs_port := atoi s\<rparr>),
      (DBS_DB_CONNECT, \<lambda>s c. c\<lparr>dbs_connect := atoi s\<rparr>),
      (DBS_DB_NAME, \<lambda>s c. c\<lparr>db_name := s\<rparr>),
      (DBS_DB_USER, \<lambda>s c. c\<lparr>db_user := s\<rparr>),
      (DBS_DB_PWD, \<lambda>s c. c\<lparr>db_pwd := s\<rparr>),
      (LGS_IP, \<lambda>s c. c\<lparr>lgs_ip := s\<rparr>),
      (LGS_PORT, \<lambda>s c. c\<lparr>lgs_port := atoi s\<rparr>)]"

fun config_items_loop ::
  "int \<Rightarrow> (config_type \<times> (string \<Rightarrow> ras_config \<Rightarrow> ras_config)) list \<Rightarrow> ras_config \<Rightarrow> fsys \<Rightarrow> (int \<times> ras_config \<times> fsys) option"
where
  "config_items_loop fd [] c fs = Some (OK, c, fs)"
| "config_items_loop fd ((k, put) # items) c fs = do {
     (s, fs) \<leftarrow> read_config fd k fs;
     case s of
       None \<Rightarrow> Some (ERROR, c, fs)
     | Some v \<Rightarrow> config_items_loop fd items (put v c) fs }"

definition ras_config_init :: "int \<Rightarrow> ('d, 'a) gateway_scheme \<Rightarrow> (int \<times> ('d, 'a) gateway_scheme) option" where
  "ras_config_init fd g = do {
     (ret, c, fs) \<leftarrow> config_items_loop fd config_items (g_cf g) (g_fs g);
     Some (ret, g\<lparr>g_cf := c, g_fs := fs\<rparr>) }"

text \<open>The server that both kinds of database connections use.\<close>

definition db_server_of :: "ras_config \<Rightarrow> db_server" where
  "db_server_of c = \<lparr>svr_ip = dbs_ip c, svr_port = dbs_port c, svr_user = db_user c, svr_pwd = db_pwd c, svr_name = db_name c\<rparr>"

definition ras_init ::
  "'d dbs_scheme mysql_api \<Rightarrow> int \<Rightarrow> int \<Rightarrow> int \<Rightarrow> ('d, 'a) gateway_scheme \<Rightarrow> (int \<times> ('d, 'a) gateway_scheme) option"
where
  "ras_init api fd lock_rc sem_rc g = do {
     let g = g\<lparr>g_mem := mem_init True 1 (g_mem g)\<rparr>;
     (ret, g) \<leftarrow> ras_config_init fd g;
     if ret \<noteq> 0 then Some (ERROR, g)
     else do {
       let svr = db_server_of (g_cf g);
       (ret, db) \<leftarrow> db_pool_init api lock_rc sem_rc svr (ras_max_thread (g_cf g)) (g_db g);
       if ret \<noteq> 0 then Some (ERROR, g\<lparr>g_db := db\<rparr>)
       else do {
         db \<leftarrow> db_set_instant_server svr db;
         _ \<leftarrow> lib_assert (length (lgs_ip (g_cf g)) < MAX_NAME_LEN);
         Some (OK, g\<lparr>g_db := db, g_log := (lgs_ip (g_cf g), lgs_port (g_cf g), LOG_DISP_ALL)\<rparr>) } } }"

section \<open>Events\<close>

definition ras_signal_init :: "evts libevent \<Rightarrow> int \<Rightarrow> ('d, 'a) gateway_scheme \<Rightarrow> (int \<times> ('d, 'a) gateway_scheme) option" where
  "ras_signal_init lapi now_time g = do {
     let p = evt_pool_at g;
     (ret, ev) \<leftarrow> libevt_signal lapi now_time p SIGPIPE RAS_SIGNAL_CB p (g_evts g);
     if ret \<noteq> 0 then Some (1, g\<lparr>g_evts := ev\<rparr>)
     else do {
       (ret, ev) \<leftarrow> libevt_signal lapi now_time p SIGHUP RAS_SIGNAL_CB p ev;
       Some (if ret \<noteq> 0 then 1 else ret, g\<lparr>g_evts := ev\<rparr>) } }"

definition user_acceptor_of :: "ptr \<Rightarrow> ras_config \<Rightarrow> libevt_acceptor" where
  "user_acceptor_of ctx c = \<lparr>la_ip = ''0.0.0.0'', la_port = ras_port c, la_socket_timeout = 1, la_idle_timeout = 60 * 10,
     la_pool = NULL, la_ctx = ctx, la_event_cb = RAS_USER_MSG_RECV\<rparr>"

definition ras_poll_init_with_libevt ::
  "evts libevent \<Rightarrow> int \<Rightarrow> ('d, 'a) gateway_scheme \<Rightarrow> (int \<times> ('d, 'a) gateway_scheme) option"
where
  "ras_poll_init_with_libevt lapi now_time g = do {
     (p, ev) \<leftarrow> libevt_pool_new lapi (c_int (ras_max_conn (g_cf g) + 1000)) NULL (g_evts g);
     let g = g\<lparr>evt_pool_at := p, g_evts := ev\<rparr>;
     if p = NULL then Some (ERROR, g)
     else do {
       let a = evt_user_acceptor g;
       let ev = ev\<lparr>acceptor := (acceptor ev)(a := user_acceptor_of (ras_lvl_msg_pool g) (g_cf g))\<rparr>;
       (ret, ev) \<leftarrow> libevt_acceptor lapi p a ev;
       let g = g\<lparr>g_evts := ev\<rparr>;
       if ret \<noteq> 0 then Some (1, g)
       else do {
         (ret, g) \<leftarrow> ras_signal_init lapi now_time g;
         Some (if ret \<noteq> 0 then 1 else OK, g) } } }"

section \<open>Messages and threads\<close>

definition set_lvl :: "(lvl_mp \<Rightarrow> lvl_mp) \<Rightarrow> ('d, 'a) gateway_scheme \<Rightarrow> ('d, 'a) gateway_scheme" where
  "set_lvl f g = g\<lparr>g_lvl := (g_lvl g)(ras_lvl_msg_pool g := f (g_lvl g (ras_lvl_msg_pool g)))\<rparr>"

definition ras_msg_pool_init :: "('d, 'a) gateway_scheme \<Rightarrow> int \<times> ('d, 'a) gateway_scheme" where
  "ras_msg_pool_init g =
     (let (mc, g) = mem_malloc_array 5 g;
          g = g\<lparr>user_msg_pool := mc\<rparr>
      in if mc = NULL then (ERROR, g)
      else (OK, set_lvl (\<lambda>l. l\<lparr>pmc_msg_high := mc, pmc_msg_mid := NULL, pmc_msg_low := NULL\<rparr>) g))"

text \<open>
  The thread of high priority with \<open>lvl\<close> its argument: the consumer is set up with 100 buffers of
  \<open>MID_MSG_LEN\<close> bytes and runs, here for \<open>n\<close> rounds at most. The result of the set-up is not looked at.
\<close>

definition high_priority_setup ::
  "pool_answers \<Rightarrow> ptr \<Rightarrow> ('d, 'a) gateway_scheme \<Rightarrow> ('d, 'a) gateway_scheme option"
where
  "high_priority_setup rc lvl g = do {
     let mc = pmc_msg_high (g_lvl g lvl);
     g \<leftarrow> upd_mc mc (\<lambda>c. c\<lparr>mc_name := ''ras-high-thread''\<rparr>) g;
     let g = g\<lparr>mp_count := (mp_count g)(pool_cache mc := 100),
               msg_payload_len := (msg_payload_len g)(pool_cache mc := of_nat MID_MSG_LEN)\<rparr>;
     (_, g) \<leftarrow> mc_multi_thread_init rc mc ''ras-user-low-thread'' RAS_USER_MSG_HANDLE (ptp_high (g_lvl g lvl)) 0 NULL 1 g;
     mc_start mc g }"

definition ras_user_high_priority_thread ::
  "pool_answers \<Rightarrow> thread_answers \<Rightarrow> ('d, 'a) gateway_scheme mc_codes \<Rightarrow> ptr \<Rightarrow> nat \<Rightarrow> ('d, 'a) gateway_scheme \<Rightarrow>
   (mc_end \<times> ('d, 'a) gateway_scheme) option"
where
  "ras_user_high_priority_thread rc ans cds lvl n g = do {
     g \<leftarrow> high_priority_setup rc lvl g;
     mc_consumer_run_with_tp ans cds (pmc_msg_high (g_lvl g lvl)) n g }"

text \<open>The two jobs of the base pool; a dispatch that sleeps holds up \<open>main\<close>.\<close>

definition start_job :: "thread_answers \<Rightarrow> nat \<Rightarrow> int \<Rightarrow> ptr \<Rightarrow> ('d, 'a) gateway_scheme \<Rightarrow> (bool \<times> ('d, 'a) gateway_scheme) option" where
  "start_job ans job l arg g = do {
     (r, t) \<leftarrow> thread_dispatch ans job arg NULL ''gas-main.c'' l (mc_threads g);
     Some (r \<noteq> DispatchSleeps, g\<lparr>mc_threads := t\<rparr>) }"

definition ras_thread_init ::
  "thread_answers \<Rightarrow> thread_answers \<Rightarrow> ('d, 'a) gateway_scheme \<Rightarrow> (int db_call \<times> ('d, 'a) gateway_scheme) option"
where
  "ras_thread_init ans1 ans2 g = do {
     (ret, t) \<leftarrow> thread_pool_init 4 (mc_threads g);
     let g = g\<lparr>mc_threads := t\<rparr>;
     if ret \<noteq> 0 then Some (Done ERROR, g)
     else do {
       (tp, t) \<leftarrow> thread_pool_new RAS_HIGH_PRIORITY_THREAD (mc_threads g);
       let g = g\<lparr>mc_threads := t\<rparr>;
       if tp = NULL then Some (Done ERROR, g)
       else do {
         let g = set_lvl (\<lambda>l. l\<lparr>ptp_high := tp, thd_high := RAS_HIGH_PRIORITY_THREAD\<rparr>) g;
         (go, g) \<leftarrow> start_job ans1 RAS_HIGH_THREAD 295 (ras_lvl_msg_pool g) g;
         if \<not> go then Some (Blocks, g)
         else do {
           (go, g) \<leftarrow> start_job ans2 RAS_DEBUG_THREAD 296 NULL g;
           Some (if go then Done OK else Blocks, g) } } } }"

text \<open>
  A debug connection: messages of up to 1024 bytes are read, none does anything, until one cannot be
  received; then the connection is closed and the next one accepted. Both loops are cut after a number of
  turns. The flags say whether a session and the thread have ended.
\<close>

fun debug_session :: "nat \<Rightarrow> int \<Rightarrow> recv_ev list \<Rightarrow> (bool \<times> recv_ev list) option" where
  "debug_session 0 fd es = Some (False, es)"
| "debug_session (Suc k) fd es = do {
     (n, _, es) \<leftarrow> lib_recv_msg fd (Some (replicate 1024 0)) 1024 es;
     if n \<le> 0 then Some (True, es) else debug_session k fd es }"

fun debug_loop :: "nat \<Rightarrow> nat \<Rightarrow> int \<Rightarrow> ('d, 'a) gateway_scheme \<Rightarrow> ('d, 'a) gateway_scheme option" where
  "debug_loop 0 turns svr_fd g = Some g"
| "debug_loop (Suc k) turns svr_fd g = do {
     let (fd, s) = lib_accept svr_fd (enet (g_evts g));
     (ended, es) \<leftarrow> debug_session turns fd (g_in g);
     let g = g\<lparr>g_in := es, g_evts := (g_evts g)\<lparr>enet := s\<rparr>\<rparr>;
     if ended then debug_loop k turns svr_fd (g\<lparr>g_evts := evt_close fd (g_evts g)\<rparr>) else Some g }"

definition ras_debug_thread :: "nat \<Rightarrow> nat \<Rightarrow> ('d, 'a) gateway_scheme \<Rightarrow> (bool \<times> ('d, 'a) gateway_scheme) option" where
  "ras_debug_thread k turns g =
     (let (svr_fd, s) = lib_server (enet (g_evts g));
          g = g\<lparr>g_evts := (g_evts g)\<lparr>enet := s\<rparr>\<rparr>
      in if svr_fd \<le> 0 then Some (True, g)
      else do { g \<leftarrow> debug_loop k turns svr_fd g; Some (False, g) })"

section \<open>main\<close>

text \<open>The answers of the system and the libraries to one run of \<open>main\<close>.\<close>

record ('d, 'a) world =
  w_mysql :: "'d dbs_scheme mysql_api"
  w_libevent :: "evts libevent"
  w_time :: int
  w_lock_fd :: int
  w_lock_rc :: int
  w_sem_rc :: int
  w_thread1 :: thread_answers
  w_thread2 :: thread_answers
  w_stack :: "byte list"

text \<open>
  \<open>main\<close> returns, or runs the event loop and stays in the loop after it for ever, or sleeps for ever in a
  wait that nobody ends.
\<close>

datatype main_end = MainReturns int | MainServes int | MainSleeps

definition main_out :: "('d, 'a) gateway_scheme \<Rightarrow> (main_end \<times> ('d, 'a) gateway_scheme) option" where
  "main_out g = do {
     (r, t) \<leftarrow> thread_pool_finl (mc_threads g);
     let g = g\<lparr>mc_threads := t\<rparr>;
     case r of
       None \<Rightarrow> Some (MainSleeps, g)
     | Some _ \<Rightarrow>
         if user_msg_pool g \<noteq> NULL
         then do {
           g \<leftarrow> mc_stop (user_msg_pool g) g;
           g \<leftarrow> mc_finl (user_msg_pool g) g;
           Some (MainReturns OK, g) }
         else Some (MainReturns OK, g) }"

text \<open>From the dump of the servers on; \<open>w_stack\<close> is what the array for it holds before.\<close>

definition main_serve :: "('d, 'a) world \<Rightarrow> ('d, 'a) gateway_scheme \<Rightarrow> (main_end \<times> ('d, 'a) gateway_scheme) option" where
  "main_serve w g = do {
     (r, _, db) \<leftarrow> gas_db_server_info (w_mysql w) TYPE_ALL (w_stack w) (g_db g);
     let g = g\<lparr>g_db := db\<rparr>;
     case r of
       Blocks \<Rightarrow> Some (MainSleeps, g)
     | Done _ \<Rightarrow> do {
         (ret, ev) \<leftarrow> libevt_run (w_libevent w) (evt_pool_at g) (g_evts g);
         Some (MainServes ret, g\<lparr>g_evts := ev\<rparr>) } }"

definition main_start :: "('d, 'a) world \<Rightarrow> ('d, 'a) gateway_scheme \<Rightarrow> (main_end \<times> ('d, 'a) gateway_scheme) option" where
  "main_start w g = do {
     (ret, g) \<leftarrow> ras_init (w_mysql w) (w_lock_fd w) (w_lock_rc w) (w_sem_rc w) g;
     if ret \<noteq> 0 then main_out g
     else do {
       let (ret, g) = ras_msg_pool_init g;
       if ret \<noteq> 0 then main_out g
       else do {
         (ret, g) \<leftarrow> ras_poll_init_with_libevt (w_libevent w) (w_time w) g;
         if ret \<noteq> 0 then main_out g
         else do {
           (r, g) \<leftarrow> ras_thread_init (w_thread1 w) (w_thread2 w) g;
           case r of
             Blocks \<Rightarrow> Some (MainSleeps, g)
           | Done ret \<Rightarrow> if ret \<noteq> 0 then main_out g else main_serve w g } } } }"

definition gas_main ::
  "('d, 'a) world \<Rightarrow> string list \<Rightarrow> ('d, 'a) gateway_scheme \<Rightarrow> (main_end \<times> ('d, 'a) gateway_scheme) option"
where
  "gas_main w argv g =
     (if length argv < 2 then Some (MainReturns OK, g)
      else if argv ! 1 = ''-h'' \<or> argv ! 1 = ''-help'' then Some (MainReturns OK, g)
      else
        let port = atoi (argv ! 1)
        in if port \<le> 0 \<or> 65535 < port then Some (MainReturns (- 1), g)
        else main_start w (g\<lparr>g_cf := (g_cf g)\<lparr>ras_port := port\<rparr>\<rparr>))"

section \<open>The port\<close>

text \<open>Two gateways that differ at most in the port of the configuration.\<close>

definition with_port :: "int \<Rightarrow> ('d, 'a) gateway_scheme \<Rightarrow> ('d, 'a) gateway_scheme" where
  "with_port n g = g\<lparr>g_cf := (g_cf g)\<lparr>ras_port := n\<rparr>\<rparr>"

lemma config_forgets_port:
  "config_items_loop fd config_items (c\<lparr>ras_port := p\<rparr>) fs = Some (OK, r) \<Longrightarrow>
   config_items_loop fd config_items (c\<lparr>ras_port := q\<rparr>) fs = Some (OK, r)"
  unfolding config_items_def
  by (auto split: Option.bind_splits option.splits)

lemma ras_config_init_forgets:
  assumes "ras_config_init fd (with_port p g) = Some (OK, g')"
  shows "ras_config_init fd (with_port q g) = Some (OK, g')"
proof -
  obtain c fs where c: "config_items_loop fd config_items ((g_cf g)\<lparr>ras_port := p\<rparr>) (g_fs g) = Some (OK, c, fs)"
    "g' = g\<lparr>g_cf := c, g_fs := fs\<rparr>"
    using assms by (auto simp: ras_config_init_def with_port_def split: Option.bind_splits)
  then show ?thesis
    using config_forgets_port [of fd p "g_cf g" "g_fs g" "(c, fs)" q]
    by (simp add: ras_config_init_def with_port_def)
qed

lemma ras_init_forgets:
  assumes "ras_init api fd lock_rc sem_rc (with_port p g) = Some (OK, g')"
  shows "ras_init api fd lock_rc sem_rc (with_port q g) = Some (OK, g')"
proof -
  let ?m = "\<lambda>g. g\<lparr>g_mem := mem_init True 1 (g_mem g)\<rparr>"
  have m: "?m (with_port n g) = with_port n (?m g)" for n by (cases g) (simp add: with_port_def)
  have E: "ERROR \<noteq> OK" by (simp add: ERROR_def OK_def)
  obtain g1 where g1: "ras_config_init fd (with_port p (?m g)) = Some (OK, g1)"
    using assms E by (auto simp: ras_init_def Let_def m OK_def split: Option.bind_splits if_splits)
  note g2 = ras_config_init_forgets [OF g1, of q]
  have "ras_init api fd lock_rc sem_rc (with_port q g) = ras_init api fd lock_rc sem_rc (with_port p g)"
    unfolding ras_init_def Let_def m g1 g2 by simp
  then show ?thesis using assms by simp
qed

section \<open>Properties\<close>

text \<open>The port on the command line is checked and then forgotten: once the configuration can be read, the
  gateway is set up in the same way, down to the port it listens on, whatever valid port it was started
  with; the port is that of the configuration file or its default.\<close>

theorem main_ignores_port:
  assumes "ras_init (w_mysql w) (w_lock_fd w) (w_lock_rc w) (w_sem_rc w) (with_port (atoi p) g) = Some (OK, g')"
    "0 < atoi p" "atoi p \<le> 65535" "0 < atoi q" "atoi q \<le> 65535" "p \<notin> {''-h'', ''-help''}" "q \<notin> {''-h'', ''-help''}"
  shows "gas_main w [prog, p] g = gas_main w [prog, q] g"
proof -
  have s: "ras_init (w_mysql w) (w_lock_fd w) (w_lock_rc w) (w_sem_rc w) (with_port (atoi q) g) = Some (OK, g')"
    by (rule ras_init_forgets [OF assms(1)])
  have "gas_main w [prog, x] g = main_start w (with_port (atoi x) g)"
    if "0 < atoi x" "atoi x \<le> 65535" "x \<notin> {''-h'', ''-help''}" for x
    using that by (simp add: gas_main_def with_port_def Let_def)
  moreover have "main_start w (with_port (atoi p) g) = main_start w (with_port (atoi q) g)"
    unfolding main_start_def assms(1) s by simp
  ultimately show ?thesis using assms by simp
qed

text \<open>
  A gateway without configuration file, so that every value is the default, whose database answers; the
  head of the list of handles is at \<open>1\<close>.
\<close>

definition db_up :: "'a dbs_scheme mysql_api" where
  "db_up = \<lparr>mysql_init = (\<lambda>h. (7, h)), mysql_real_connect = (\<lambda>_ _ h. (True, h)), mysql_close = (\<lambda>_ h. h),
     mysql_real_query = (\<lambda>_ _ h. (0, h)), mysql_store_result = (\<lambda>_ h. (None, h)), mysql_errno = (\<lambda>_ _. 0)\<rparr>"

lemma db_up_ok: "mysql_up db_up"
proof -
  have id: "\<exists>f. h = dbs.more_update f h" for h :: "'a dbs_scheme" by (rule exI [of _ "\<lambda>x. x"]) simp
  show ?thesis unfolding mysql_up_def db_up_def by (simp add: id)
qed

definition no_config :: ras_config where
  "no_config = \<lparr>ras_ip = [], ras_port = 0, ras_debug_port = 0, ras_max_thread = 0, ras_max_conn = 0, ras_id = 0,
     db_user = [], db_pwd = [], db_name = [], dbs_ip = [], dbs_port = 0, dbs_connect = 0, lgs_ip = [], lgs_port = 0\<rparr>"

definition gateway_demo :: "unit gateway" where
  "gateway_demo = gas.extend
     (gas_demo\<lparr>g_db := \<lparr>live = (\<lambda>p. p = 1), brk = 2, oom = [], nxt = (\<lambda>_. 0), prv = (\<lambda>_. 0), db_count = 0, db_list = 1,
        db_sem = 0, dbh = (\<lambda>_. zero_dbh),
        instant_svr = \<lparr>svr_ip = [], svr_port = 0, svr_user = [], svr_pwd = [], svr_name = []\<rparr>\<rparr>\<rparr>)
     (gateway.fields no_config \<lparr>files = (\<lambda>_. None), deny = []\<rparr>
        \<lparr>live = (\<lambda>_. False), brk = 1, oom = [], nxt = (\<lambda>_. 0), prv = (\<lambda>_. 0), mem_on = 0,
          mem_hook = HookDefault, mem_list = 0, m_size = (\<lambda>_. 0), m_module = (\<lambda>_. 0), m_file = (\<lambda>_. []),
          m_line = (\<lambda>_. 0), m_magic = (\<lambda>_. 0), word_at = (\<lambda>_. 0), mem_errs = []\<rparr>
        ([], 0, 0) 9 3 0 0)"

lemma read_config_default:
  assumes "files fs CONFIG_FILE = None" "deny fs = []" "0 \<le> fd" "(k, name, v) \<in> set cfg_pacos" "length v < MAX_NAME_LEN"
  shows "\<exists>fs'. read_config fd k fs = Some (Some v, fs') \<and> files fs' CONFIG_FILE = None \<and> deny fs' = []"
  using assms
  by (auto simp: read_config_def config_get_def init_lock_def open_trunc_def put_file_def refused_def fopen_old_def IsInFileField_def
      cfg_pacos_def CONFIG_FILE_def CONFIG_LOCK_FILE_def MAX_NAME_LEN_def OK_def)

definition default_of :: "config_type \<Rightarrow> string" where
  "default_of k = (case find (\<lambda>(i, _). i = k) cfg_pacos of Some (_, _, v) \<Rightarrow> v | None \<Rightarrow> [])"

lemma config_items_default:
  assumes "0 \<le> fd"
  shows "files fs CONFIG_FILE = None \<Longrightarrow> deny fs = [] \<Longrightarrow>
    \<forall>(k, put) \<in> set items. (\<exists>name. (k, name, default_of k) \<in> set cfg_pacos) \<and> length (default_of k) < MAX_NAME_LEN \<Longrightarrow>
    \<exists>fs'. config_items_loop fd items c fs = Some (OK, fold (\<lambda>(k, put). put (default_of k)) items c, fs')"
proof (induction items arbitrary: c fs)
  case (Cons kp items)
  obtain k put where kp: "kp = (k, put)" by (cases kp)
  obtain name where n: "(k, name, default_of k) \<in> set cfg_pacos" "length (default_of k) < MAX_NAME_LEN"
    using Cons.prems(3) kp by auto
  obtain fs1 where f: "read_config fd k fs = Some (Some (default_of k), fs1)" "files fs1 CONFIG_FILE = None" "deny fs1 = []"
    using read_config_default [OF Cons.prems(1,2) assms n] by blast
  then show ?case using Cons.IH [OF f(2,3), of "put (default_of k) c"] Cons.prems(3) kp by simp
qed simp

lemma defaults_known:
  "\<forall>(k, put) \<in> set config_items. (\<exists>name. (k, name, default_of k) \<in> set cfg_pacos) \<and> length (default_of k) < MAX_NAME_LEN"
  by (simp add: config_items_def default_of_def cfg_pacos_def MAX_NAME_LEN_def)

definition default_config :: ras_config where
  "default_config = \<lparr>ras_ip = ''127.0.0.1'', ras_port = 8888, ras_debug_port = 8889, ras_max_thread = 8, ras_max_conn = 1024,
     ras_id = 1, db_user = ''root'', db_pwd = ''root'', db_name = ''openvpn'', dbs_ip = ''127.0.0.1'', dbs_port = 3306,
     dbs_connect = 20, lgs_ip = ''127.0.0.1'', lgs_port = 8890\<rparr>"

lemma default_numbers:
  "atoi ''8888'' = 8888" "atoi ''8889'' = 8889" "atoi ''8'' = 8" "atoi ''1024'' = 1024" "atoi ''1'' = 1"
  "atoi ''3306'' = 3306" "atoi ''20'' = 20" "atoi ''8890'' = 8890" "atoi ''80'' = 80" "atoi ''8080'' = 8080"
  by code_simp+

lemma fold_defaults: "fold (\<lambda>(k, put). put (default_of k)) config_items c = default_config"
  by (cases c) (simp add: config_items_def default_of_def cfg_pacos_def default_numbers default_config_def)

lemma gateway_demo_facts:
  "g_cf gateway_demo = no_config" "files (g_fs gateway_demo) CONFIG_FILE = None" "deny (g_fs gateway_demo) = []"
  "heap_ok (g_db gateway_demo)" "oom (g_db gateway_demo) = []" "valid (g_db gateway_demo) (db_list (g_db gateway_demo))"
  by (simp_all add: gateway_demo_def gas.defs gateway.defs gas_demo_def heap_ok_def valid_def)

lemma gateway_demo_init: "\<exists>g'. ras_init db_up 5 0 0 (with_port n gateway_demo) = Some (OK, g')"
proof -
  let ?g = "with_port n gateway_demo"
  let ?g1 = "?g\<lparr>g_mem := mem_init True 1 (g_mem ?g)\<rparr>"
  have w: "g_fs ?g1 = g_fs gateway_demo" "g_db ?g1 = g_db gateway_demo" by (simp_all add: with_port_def)
  obtain fs' where c: "config_items_loop 5 config_items (g_cf ?g1) (g_fs ?g1) = Some (OK, default_config, fs')"
    using config_items_default [OF _ _ _ defaults_known, of 5 "g_fs ?g1" "g_cf ?g1"] gateway_demo_facts(2,3) w
    by (auto simp: fold_defaults)
  let ?g2 = "?g1\<lparr>g_cf := default_config, g_fs := fs'\<rparr>"
  have i: "ras_config_init 5 ?g1 = Some (OK, ?g2)" using c by (simp add: ras_config_init_def)
  have d: "g_db ?g2 = g_db gateway_demo" "g_cf ?g2 = default_config" using w by simp_all
  have "0 < ras_max_thread default_config" by (simp add: default_config_def)
  then obtain db where db: "db_pool_init db_up 0 0 (db_server_of default_config) (ras_max_thread default_config) (g_db gateway_demo) = Some (OK, db)"
    using db_pool_init_ok [OF db_up_ok gateway_demo_facts(4-6)] by blast
  have s: "db_set_instant_server (db_server_of default_config) db = Some (db\<lparr>instant_svr := db_server_of default_config\<rparr>)"
    by (simp add: db_set_instant_server_def db_server_of_def default_config_def DB_NAME_LEN_def)
  have l: "length (lgs_ip default_config) < MAX_NAME_LEN" by (simp add: default_config_def MAX_NAME_LEN_def)
  show ?thesis unfolding ras_init_def Let_def i using d db s l by (simp add: OK_def)
qed

theorem main_ignores_port_witness:
  "\<exists>w. gas_main w [''gas'', ''80''] gateway_demo = gas_main w [''gas'', ''8080''] gateway_demo"
proof -
  let ?a = "\<lparr>get_stack_rc = 0, old_size = 0, set_stack_rc = 0, create_rc = 0\<rparr>"
  let ?w = "\<lparr>w_mysql = db_up, w_libevent = libevent_demo, w_time = 0, w_lock_fd = 5, w_lock_rc = 0, w_sem_rc = 0,
    w_thread1 = ?a, w_thread2 = ?a, w_stack = []\<rparr>"
  obtain g' where "ras_init db_up 5 0 0 (with_port (atoi ''80'') gateway_demo) = Some (OK, g')"
    using gateway_demo_init by blast
  then have "ras_init (w_mysql ?w) (w_lock_fd ?w) (w_lock_rc ?w) (w_sem_rc ?w) (with_port (atoi ''80'') gateway_demo) = Some (OK, g')"
    by simp
  from main_ignores_port [OF this, of "''8080''" "''gas''"] show ?thesis
    by (intro exI [of _ ?w]) (simp add: default_numbers)
qed

end
