(* ===== verification/RopAES.thy ===== *)
theory RopAES imports LibTicket LibSocket begin

text \<open>
  \<open>Client/RopCltLib/RopAES.cpp\<close>: the client's encryption of buffers and files. A buffer is the list of
  the bytes of an array from the address that is passed on; reading or writing past its end, a failed
  \<open>assert\<close> and the use of a key that was never set are \<open>None\<close>. OpenSSL is a parameter: the two ciphers,
  which work on blocks of 16 bytes, the function that expands a key, and the digest.
\<close>

section \<open>The object\<close>

definition ROP_AES_KEY_SIZE :: nat where "ROP_AES_KEY_SIZE = 16"
definition ROP_AES_KEY_DEFAULT :: string where "ROP_AES_KEY_DEFAULT = ''GendoCloudVPNKey''"

text \<open>An expanded key is named by the bytes it was made from; \<open>set_key_rc\<close> is what the expansion returns for a number of bits.\<close>

record ssl =
  set_key_rc :: "int \<Rightarrow> int"
  AES_encrypt :: cipher
  AES_decrypt :: cipher

record rop_aes =
  m_key :: "byte list"
  m_enctype :: int
  m_enckey :: "byte list option"
  m_deckey :: "byte list option"

definition expand_key :: "ssl \<Rightarrow> byte list \<Rightarrow> int \<Rightarrow> (int \<times> byte list option) option" where
  "expand_key api key bits =
     (let rc = set_key_rc api bits
      in if rc \<noteq> 0 then Some (rc, None)
      else if bits \<le> 8 * int (length key) then Some (0, Some (take (nat (bits div 8)) key)) else None)"

text \<open>\<open>m_key\<close> has 17 bytes; the last one is never set and is left out: expanding a longer key reads past what is set.\<close>

definition RopAES_new :: "ssl \<Rightarrow> byte list \<Rightarrow> int \<Rightarrow> rop_aes option" where
  "RopAES_new api key enc_type =
     (if length key < ROP_AES_KEY_SIZE then None
      else do {
        let k = take ROP_AES_KEY_SIZE key;
        (ret, ek) \<leftarrow> expand_key api k enc_type;
        if ret \<noteq> 0 then Some \<lparr>m_key = k, m_enctype = enc_type, m_enckey = None, m_deckey = None\<rparr>
        else do {
          (ret, dk) \<leftarrow> expand_key api k enc_type;
          Some \<lparr>m_key = k, m_enctype = enc_type, m_enckey = ek, m_deckey = (if ret \<noteq> 0 then None else dk)\<rparr> } })"

definition RopAES_default :: "ssl \<Rightarrow> rop_aes option" where
  "RopAES_default api = RopAES_new api (bytes_of ROP_AES_KEY_DEFAULT) 128"

section \<open>Blocks\<close>

text \<open>The loop of \<open>Encrypt\<close> and \<open>Decrypt\<close> from offset \<open>i\<close> on; a block is read and written whole.\<close>

function block_loop :: "(byte list \<Rightarrow> byte list) \<Rightarrow> nat \<Rightarrow> nat \<Rightarrow> byte list \<Rightarrow> byte list \<Rightarrow> (nat \<times> byte list) option" where
  "block_loop f n i input dest =
     (if i < n
      then if i + 16 \<le> length input
        then do {
          dest \<leftarrow> put_bytes i (f (take 16 (drop i input))) dest;
          block_loop f n (i + 16) input dest }
        else None
      else Some (i, dest))"
  by auto
termination by (relation "measure (\<lambda>(f, n, i, input, dest). n - i)") auto

declare block_loop.simps [simp del]

definition crypt_buffer :: "(byte list \<Rightarrow> byte list) option \<Rightarrow> byte list \<Rightarrow> int \<Rightarrow> byte list \<Rightarrow> int \<Rightarrow> (int \<times> byte list) option" where
  "crypt_buffer key_fun input len1 dest len2 =
     (if len2 < len1 then Some (- 1, dest)
      else if len1 \<le> 0 then Some (0, dest)
      else do {
        f \<leftarrow> key_fun;
        (i, dest) \<leftarrow> block_loop f (nat len1) 0 input dest;
        Some (int i, dest) })"

definition Encrypt :: "ssl \<Rightarrow> rop_aes \<Rightarrow> byte list \<Rightarrow> int \<Rightarrow> byte list \<Rightarrow> int \<Rightarrow> (int \<times> byte list) option" where
  "Encrypt api a = crypt_buffer (map_option (AES_encrypt api) (m_enckey a))"

definition Decrypt :: "ssl \<Rightarrow> rop_aes \<Rightarrow> byte list \<Rightarrow> int \<Rightarrow> byte list \<Rightarrow> int \<Rightarrow> (int \<times> byte list) option" where
  "Decrypt api a = crypt_buffer (map_option (AES_decrypt api) (m_deckey a))"

section \<open>Hexadecimal text\<close>

definition A2I :: "byte \<Rightarrow> int" where
  "A2I a =
     (if a = 0x30 then 0 else if a = 0x31 then 1 else if a = 0x32 then 2 else if a = 0x33 then 3
      else if a = 0x34 then 4 else if a = 0x35 then 5 else if a = 0x36 then 6 else if a = 0x37 then 7
      else if a = 0x38 then 8 else if a = 0x39 then 9 else if a = 0x61 \<or> a = 0x41 then 10
      else if a = 0x62 \<or> a = 0x42 then 11 else if a = 0x63 \<or> a = 0x43 then 12 else if a = 0x64 \<or> a = 0x44 then 13
      else if a = 0x65 \<or> a = 0x45 then 14 else if a = 0x66 \<or> a = 0x46 then 15 else - 1)"

text \<open>The loop of \<open>Hex2Mem\<close> with \<open>n\<close> characters to go; for an odd number the character behind the last is read, too.\<close>

fun unhex_loop :: "nat \<Rightarrow> byte list \<Rightarrow> nat \<Rightarrow> byte list \<Rightarrow> (bool \<times> byte list) option" where
  "unhex_loop 0 input j dest = Some (True, dest)"
| "unhex_loop (Suc n) (h # rest) j dest =
     (if A2I h < 0 then Some (False, dest)
      else case rest of
        [] \<Rightarrow> None
      | l # rest \<Rightarrow>
          if A2I l < 0 then Some (False, dest)
          else do {
            dest \<leftarrow> put_bytes j [word_of_int (A2I h * 16 + A2I l)] dest;
            unhex_loop (n - 1) rest (j + 1) dest })"
| "unhex_loop (Suc n) [] j dest = None"

definition Hex2Mem :: "byte list \<Rightarrow> int \<Rightarrow> byte list \<Rightarrow> int \<Rightarrow> (int \<times> byte list) option" where
  "Hex2Mem input len1 dest len2 = do {
     let half = (if len1 < 0 then - ((- len1) div 2) else len1 div 2);
     _ \<leftarrow> lib_assert (half \<le> len2);
     (ok, dest) \<leftarrow> unhex_loop (nat len1) input 0 dest;
     Some (if ok then half else - 1, dest) }"

text \<open>\<open>%X\<close> of a number below 16, and what \<open>sprintf\<close> stores: the digit and a terminator.\<close>

definition hex_digit :: "byte \<Rightarrow> byte" where
  "hex_digit d = (if d < 10 then 0x30 + d else 0x37 + d)"

fun hex_loop :: "nat \<Rightarrow> byte list \<Rightarrow> nat \<Rightarrow> byte list \<Rightarrow> byte list option" where
  "hex_loop 0 input j dest = Some dest"
| "hex_loop (Suc n) (b # input) j dest = do {
     dest \<leftarrow> put_bytes j [hex_digit (drop_bit 4 b AND 0x0F), 0] dest;
     dest \<leftarrow> put_bytes (j + 1) [hex_digit (b AND 0x0F), 0] dest;
     hex_loop n input (j + 2) dest }"
| "hex_loop (Suc n) [] j dest = None"

definition Mem2Hex :: "byte list \<Rightarrow> int \<Rightarrow> byte list \<Rightarrow> int \<Rightarrow> (int \<times> byte list) option" where
  "Mem2Hex input len1 dest len2 = do {
     _ \<leftarrow> lib_assert (2 * len1 \<le> len2);
     dest \<leftarrow> hex_loop (nat len1) input 0 dest;
     Some (len1 * 2, dest) }"

text \<open>
  The block between the two is allocated with 16 bytes to spare. That of \<open>EncryptWithHex\<close> is not cleared; what it
  holds before has no influence, since only what \<open>Encrypt\<close> has written is read.
\<close>

definition EncryptWithHex :: "ssl \<Rightarrow> rop_aes \<Rightarrow> byte list \<Rightarrow> int \<Rightarrow> byte list \<Rightarrow> int \<Rightarrow> (int \<times> byte list) option" where
  "EncryptWithHex api a input len1 dest len2 =
     (if len1 + 16 < 0 then None
      else do {
        (n, buf) \<leftarrow> Encrypt api a input len1 (replicate (nat (len1 + 16)) 0) (len1 + 16);
        if n \<le> 0 then Some (- 1, dest) else Mem2Hex buf n dest len2 })"

definition DecryptWithHex :: "ssl \<Rightarrow> rop_aes \<Rightarrow> byte list \<Rightarrow> int \<Rightarrow> byte list \<Rightarrow> int \<Rightarrow> (int \<times> byte list) option" where
  "DecryptWithHex api a input len1 dest len2 =
     (if len1 + 16 < 0 then None
      else do {
        (n, buf) \<leftarrow> Hex2Mem input len1 (replicate (nat (len1 + 16)) 0) (len1 + 16);
        if n < 0 then Some (- 1, dest) else Decrypt api a buf n dest len2 })"

text \<open>The digest of a string as 64 digits with a terminator.\<close>

definition SHA256 :: "(byte list \<Rightarrow> byte list) \<Rightarrow> byte list \<Rightarrow> byte list \<Rightarrow> byte list option" where
  "SHA256 digest input dest =
     put_bytes 0 (bytes_of (concat (map fmt_02x (take 32 (digest (takeWhile (\<lambda>b. b \<noteq> 0) input))))) @ [0]) dest"

section \<open>What the loops compute\<close>

text \<open>A length rounded up to whole blocks, and a cipher applied to each block of a buffer.\<close>

definition pad16 :: "nat \<Rightarrow> nat" where
  "pad16 n = 16 * ((n + 15) div 16)"

function ecb :: "(byte list \<Rightarrow> byte list) \<Rightarrow> byte list \<Rightarrow> byte list" where
  "ecb f xs = (if xs = [] then [] else f (take 16 xs) @ ecb f (drop 16 xs))"
  by auto
termination by (relation "measure (\<lambda>(f, xs). length xs)") auto

declare ecb.simps [simp del]

lemma pad16_bounds: "n \<le> pad16 n" "pad16 n < n + 16" "16 dvd pad16 n"
  unfolding pad16_def by presburger+

lemma pad16_block: "16 dvd i \<Longrightarrow> i < n \<Longrightarrow> i + 16 \<le> pad16 n"
proof (elim dvdE)
  fix k assume "i = 16 * k" "i < n"
  then have "(16 * k + 16) div 16 \<le> (n + 15) div 16" by (intro div_le_mono) simp
  then show ?thesis using \<open>i = 16 * k\<close> by (simp add: pad16_def)
qed

lemma pad16_end: "16 dvd i \<Longrightarrow> n \<le> i \<Longrightarrow> i \<le> pad16 n \<Longrightarrow> i = pad16 n"
  using pad16_bounds [of n] by (auto elim!: dvdE)

lemma pad16_idem [simp]: "16 dvd n \<Longrightarrow> pad16 n = n"
  by (auto simp: pad16_def elim!: dvdE)

lemma ecb_Nil [simp]: "ecb f [] = []"
  by (subst ecb.simps) simp

definition keeps_block :: "(byte list \<Rightarrow> byte list) \<Rightarrow> bool" where
  "keeps_block f \<longleftrightarrow> (\<forall>b. length b = 16 \<longrightarrow> length (f b) = 16)"

lemma ecb_length [simp]: "keeps_block f \<Longrightarrow> 16 dvd length xs \<Longrightarrow> length (ecb f xs) = length xs"
proof (induction xs rule: length_induct)
  case (1 xs)
  show ?case
  proof (cases "xs = []")
    case False
    then have l: "16 \<le> length xs" using 1(3) by (auto elim!: dvdE simp: neq_Nil_conv)
    then have "length (ecb f (drop 16 xs)) = length xs - 16" "length (f (take 16 xs)) = 16"
      using 1 False by (auto simp: keeps_block_def dvd_diff_nat)
    then show ?thesis using l False by (subst ecb.simps) simp
  qed simp
qed

lemma ecb_inverse:
  assumes "\<And>b. length b = 16 \<Longrightarrow> length (f b) = 16 \<and> g (f b) = b" "16 dvd length xs"
  shows "ecb g (ecb f xs) = xs"
  using assms(2)
proof (induction xs rule: length_induct)
  case (1 xs)
  show ?case
  proof (cases "xs = []")
    case False
    then have l: "length (take 16 xs) = 16" using 1(2) by (auto elim!: dvdE simp: neq_Nil_conv min_def)
    have "ecb g (ecb f (drop 16 xs)) = drop 16 xs" using 1 False by (simp add: dvd_diff_nat)
    moreover have "ecb f xs = f (take 16 xs) @ ecb f (drop 16 xs)" using False by (subst ecb.simps) simp
    moreover have "f (take 16 xs) \<noteq> []" using assms(1) [OF l] by auto
    ultimately show ?thesis using assms(1) [OF l] by (subst ecb.simps) simp
  qed simp
qed

lemma block_loop_ecb:
  "keeps_block f \<Longrightarrow> 16 dvd i \<Longrightarrow> i \<le> pad16 n \<Longrightarrow> pad16 n \<le> length input \<Longrightarrow> pad16 n \<le> length dest \<Longrightarrow>
   block_loop f n i input dest =
     Some (pad16 n, take i dest @ ecb f (take (pad16 n - i) (drop i input)) @ drop (pad16 n) dest)"
proof (induction f n i input dest rule: block_loop.induct)
  case (1 f n i input dest)
  show ?case
  proof (cases "i < n")
    case True
    let ?p = "pad16 n" and ?b = "f (take 16 (drop i input))"
    let ?o = "take i dest @ ?b @ drop (i + 16) dest"
    have p: "i + 16 \<le> ?p" using pad16_block "1.prems" True by blast
    have b: "length ?b = 16" using "1.prems" p by (simp add: keeps_block_def)
    have put: "put_bytes i ?b dest = Some ?o" using b p "1.prems" by (simp add: put_bytes_def)
    have "block_loop f n (i + 16) input ?o =
        Some (?p, take (i + 16) ?o @ ecb f (take (?p - (i + 16)) (drop (i + 16) input)) @ drop ?p ?o)"
      using "1.IH" [OF True _ put] "1.prems" p b by simp
    moreover have "take (i + 16) ?o = take i dest @ ?b" "drop ?p ?o = drop ?p dest"
      using b p "1.prems" by simp_all
    moreover have "ecb f (take (?p - i) (drop i input)) = ?b @ ecb f (take (?p - (i + 16)) (drop (i + 16) input))"
    proof -
      have ne: "take (?p - i) (drop i input) \<noteq> []" using p "1.prems" by auto
      have "drop 16 (take (?p - i) (drop i input)) = take (?p - (i + 16)) (drop (i + 16) input)"
        by (simp add: drop_take add.commute)
      moreover have "take 16 (take (?p - i) (drop i input)) = take 16 (drop i input)" using p by simp
      ultimately show ?thesis using ne by (subst ecb.simps) simp
    qed
    ultimately show ?thesis using True put p "1.prems" by (subst block_loop.simps) simp
  next
    case False
    then have "i = pad16 n" using pad16_end "1.prems" by simp
    then show ?thesis using False by (subst block_loop.simps) simp
  qed
qed

lemma Encrypt_ok:
  assumes "keeps_block (AES_encrypt api k)" "m_enckey a = Some k" "0 < n" "int n \<le> len2"
    "pad16 n \<le> length input" "pad16 n \<le> length dest"
  shows "Encrypt api a input (int n) dest len2 =
    Some (int (pad16 n), ecb (AES_encrypt api k) (take (pad16 n) input) @ drop (pad16 n) dest)"
  using assms block_loop_ecb [of _ 0 n input dest] by (simp add: Encrypt_def crypt_buffer_def)

lemma Decrypt_ok:
  assumes "keeps_block (AES_decrypt api k)" "m_deckey a = Some k" "0 < n" "int n \<le> len2"
    "pad16 n \<le> length input" "pad16 n \<le> length dest"
  shows "Decrypt api a input (int n) dest len2 =
    Some (int (pad16 n), ecb (AES_decrypt api k) (take (pad16 n) input) @ drop (pad16 n) dest)"
  using assms block_loop_ecb [of _ 0 n input dest] by (simp add: Decrypt_def crypt_buffer_def)

section \<open>The digits\<close>

definition hex :: "byte list \<Rightarrow> byte list" where
  "hex bs = concat (map (\<lambda>b. [hex_digit (drop_bit 4 b AND 0x0F), hex_digit (b AND 0x0F)]) bs)"

lemma hex_simps [simp]:
  "hex [] = []" "hex (b # bs) = hex_digit (drop_bit 4 b AND 0x0F) # hex_digit (b AND 0x0F) # hex bs"
  "hex (bs @ cs) = hex bs @ hex cs"
  by (simp_all add: hex_def)

lemma hex_length [simp]: "length (hex bs) = 2 * length bs"
  by (induction bs) simp_all

lemma A2I_hex_digit:
  assumes "d < (16 :: byte)"
  shows "A2I (hex_digit d) = uint d" "hex_digit d \<noteq> 0" "hex_digit d \<noteq> 10"
proof -
  have all: "list_all (\<lambda>k. A2I (hex_digit (word_of_nat k)) = int k \<and> hex_digit (word_of_nat k) \<noteq> 0 \<and>
      hex_digit (word_of_nat k) \<noteq> 10) [0..<16]"
    by code_simp
  have "unat d < 16" using assms by (simp add: word_less_nat_alt)
  then have "A2I (hex_digit (word_of_nat (unat d))) = int (unat d) \<and> hex_digit (word_of_nat (unat d)) \<noteq> 0 \<and>
      hex_digit (word_of_nat (unat d)) \<noteq> 10"
    by (intro all [unfolded list_all_iff, rule_format]) simp
  moreover have d: "word_of_nat (unat d) = d" by simp
  ultimately show "A2I (hex_digit d) = uint d" "hex_digit d \<noteq> 0" "hex_digit d \<noteq> 10"
    unfolding d uint_nat by blast+
qed

lemma nibble_nat: "unat (x AND 0x0F :: byte) = unat x mod 16"
  using nibbles(1) [of x] by (simp only: HEX_TAG_def)

lemma nibble_less: "x AND 0x0F < (16 :: byte)"
  unfolding word_less_nat_alt nibble_nat by simp

lemma nibbles_join: "word_of_int (uint (drop_bit 4 b AND 0x0F) * 16 + uint (b AND 0x0F)) = (b :: byte)"
proof -
  have "unat (drop_bit 4 b AND 0x0F) * 16 + unat (b AND 0x0F) = unat b"
    by (simp only: nibble_nat nibbles(2) div_mult_mod_eq)
  then have "int (unat (drop_bit 4 b AND 0x0F) * 16 + unat (b AND 0x0F)) = int (unat b)" by (rule arg_cong)
  then have "uint (drop_bit 4 b AND 0x0F) * 16 + uint (b AND 0x0F) = uint b"
    by (simp only: of_nat_add of_nat_mult of_nat_numeral uint_nat [symmetric])
  then show ?thesis by (simp only: word_of_int_uint)
qed

lemma nibbles_join_swap: "word_of_int (uint (b AND 0x0F) + uint (drop_bit 4 b AND 0x0F) * 16) = (b :: byte)"
  by (simp only: nibbles_join add.commute [of "uint (b AND 0x0F)"])

lemma hex_text: "c \<in> set (hex bs) \<Longrightarrow> c \<noteq> 0 \<and> c \<noteq> 10"
  by (auto simp: hex_def A2I_hex_digit nibble_less)

lemma put_bytes_ok [simp]:
  "j + length bs \<le> length out \<Longrightarrow> put_bytes j bs out = Some (take j out @ bs @ drop (j + length bs) out)"
  by (simp add: put_bytes_def)

lemma hex_loop_ok:
  "n \<le> length input \<Longrightarrow> j + 2 * n < length dest \<Longrightarrow>
   hex_loop n input j dest = Some (if n = 0 then dest else take j dest @ hex (take n input) @ 0 # drop (j + 2 * n + 1) dest)"
proof (induction n input j dest rule: hex_loop.induct)
  case (2 n b input j dest)
  let ?h = "hex_digit (drop_bit 4 b AND 0x0F)" and ?l = "hex_digit (b AND 0x0F)"
  let ?o1 = "take j dest @ [?h, 0] @ drop (j + 2) dest"
  let ?o2 = "take j dest @ [?h, ?l, 0] @ drop (j + 3) dest"
  have p1: "put_bytes j [?h, 0] dest = Some ?o1" using 2(3) by simp
  have p2: "put_bytes (j + 1) [?l, 0] ?o1 = Some ?o2" using 2(3) by (simp add: numeral_3_eq_3)
  have "hex_loop n input (j + 2) ?o2 = Some (if n = 0 then ?o2
      else take (j + 2) ?o2 @ hex (take n input) @ 0 # drop (j + 2 + 2 * n + 1) ?o2)"
    using "2.IH" [OF p1 p2] 2(2,3) by simp
  moreover have "take (j + 2) ?o2 = take j dest @ [?h, ?l]" "drop (j + 2 + 2 * n + 1) ?o2 = drop (j + 2 * Suc n + 1) dest"
    using 2(3) by (simp_all add: numeral_3_eq_3 add.commute)
  moreover have "drop (j + 2 * Suc 0 + 1) dest = drop (j + 3) dest" by (simp add: numeral_3_eq_3)
  ultimately show ?case using p1 p2 by simp
qed auto

lemma unhex_loop_ok:
  "j + length bs \<le> length dest \<Longrightarrow>
   unhex_loop (2 * length bs) (hex bs @ rest) j dest = Some (True, take j dest @ bs @ drop (j + length bs) dest)"
proof (induction bs arbitrary: j dest)
  case (Cons b bs)
  let ?o = "take j dest @ [b] @ drop (j + 1) dest"
  have "unhex_loop (2 * length bs) (hex bs @ rest) (j + 1) ?o =
      Some (True, take (j + 1) ?o @ bs @ drop (j + 1 + length bs) ?o)"
    using Cons by simp
  moreover have "0 \<le> uint (x :: byte)" for x by simp
  ultimately show ?case using Cons.prems
    by (simp add: A2I_hex_digit nibble_less nibbles_join nibbles_join_swap not_less add.commute del: of_int_add of_int_mult)
qed simp

end
