(* ===== verification/RopAESFile.thy ===== *)
theory RopAESFile imports RopAES begin

text \<open>
  \<open>Client/RopCltLib/RopAES.cpp\<close>: the encryption of whole files, line by line for text, in pieces of 2048
  bytes for other files, row by row for an array of strings. A file is the list of the bytes that its
  stream delivers. The main lemmas are the round trips and the inputs on which the code leaves its arrays.
  The code opens text files in text mode, so on Windows the bytes of the stream are not those on the disk
  (line ends are translated, Ctrl-Z ends the file); that translation is outside the model.
\<close>

section \<open>Files and strings\<close>

text \<open>\<open>dlocked\<close>: the files that cannot be opened for writing.\<close>

record disk =
  dfiles :: "string \<Rightarrow> byte list option"
  dlocked :: "string \<Rightarrow> bool"

definition MAX_FILE_TEXT_LINE_SIZE :: nat where "MAX_FILE_TEXT_LINE_SIZE = 4096"
definition MAX_FILE_PATH_SIZE :: nat where "MAX_FILE_PATH_SIZE = 256"

definition write_file :: "string \<Rightarrow> byte list \<Rightarrow> 'a disk_scheme \<Rightarrow> 'a disk_scheme" where
  "write_file name c d = d\<lparr>dfiles := (dfiles d)(name := Some c)\<rparr>"

text \<open>\<open>sprintf(in, "%s\\%s", path, file)\<close> into an array of 256 bytes.\<close>

definition full_path :: "string \<Rightarrow> string \<Rightarrow> string option" where
  "full_path path name =
     (let p = path @ CHR 0x5C # name in if length p < MAX_FILE_PATH_SIZE then Some p else None)"

definition fgets_bytes :: "nat \<Rightarrow> byte list \<Rightarrow> (byte list \<times> byte list) option" where
  "fgets_bytes n s =
     (if s = [] then None
      else let k = min (n - 1) (Suc (length (takeWhile (\<lambda>b. b \<noteq> 10) s))) in Some (take k s, drop k s))"

text \<open>\<open>fgets\<close> puts a terminator behind the line, and the array keeps what it holds further on.\<close>

definition put_line :: "byte list \<Rightarrow> byte list \<Rightarrow> byte list" where
  "put_line l line = l @ 0 # drop (Suc (length l)) line"

definition c_str :: "byte list \<Rightarrow> byte list option" where
  "c_str buf = (if 0 \<in> set buf then Some (takeWhile (\<lambda>b. b \<noteq> 0) buf) else None)"

definition zeros :: "byte list" where
  "zeros = replicate MAX_FILE_TEXT_LINE_SIZE 0"

lemma fgets_shorter_bytes: "1 < n \<Longrightarrow> fgets_bytes n s = Some (l, r) \<Longrightarrow> s = l @ r \<and> l \<noteq> []"
  by (auto simp: fgets_bytes_def Let_def split: if_splits)

section \<open>Text\<close>

function enc_text_loop :: "ssl \<Rightarrow> rop_aes \<Rightarrow> byte list \<Rightarrow> byte list \<Rightarrow> byte list \<Rightarrow> byte list option" where
  "enc_text_loop api a s line acc =
     (case fgets_bytes MAX_FILE_TEXT_LINE_SIZE s of
        None \<Rightarrow> Some acc
      | Some (l, r) \<Rightarrow> do {
          let line = put_line l line;
          str \<leftarrow> c_str line;
          (_, enc_line) \<leftarrow> EncryptWithHex api a line (int (length str)) zeros (int MAX_FILE_TEXT_LINE_SIZE);
          e \<leftarrow> c_str enc_line;
          enc_text_loop api a r line (acc @ e @ [10]) })"
  by auto
termination
  by (relation "measure (\<lambda>(api, a, s, line, acc). length s)")
    (auto dest!: fgets_shorter_bytes [rotated] simp: MAX_FILE_TEXT_LINE_SIZE_def)

declare enc_text_loop.simps [simp del]

definition EncryptTextFile :: "ssl \<Rightarrow> rop_aes \<Rightarrow> string \<Rightarrow> string \<Rightarrow> string \<Rightarrow> string \<Rightarrow> 'a disk_scheme \<Rightarrow> (int \<times> 'a disk_scheme) option" where
  "EncryptTextFile api a in_path in_file out_path out_file d = do {
     src \<leftarrow> full_path in_path in_file;
     out \<leftarrow> full_path out_path out_file;
     if dfiles d src = None \<or> dlocked d out then Some (- 1, d)
     else do {
       let d = write_file out [] d;
       c \<leftarrow> enc_text_loop api a (the (dfiles d src)) zeros [];
       Some (0, write_file out c d) } }"

text \<open>
  The character in front of the terminator is removed, whatever it is; for a line that begins with a zero byte
  that is a write in front of the array.
\<close>

function dec_text_loop :: "ssl \<Rightarrow> rop_aes \<Rightarrow> byte list \<Rightarrow> byte list \<Rightarrow> byte list \<Rightarrow> (int \<times> byte list) option" where
  "dec_text_loop api a s line acc =
     (case fgets_bytes MAX_FILE_TEXT_LINE_SIZE s of
        None \<Rightarrow> Some (0, acc)
      | Some (l, r) \<Rightarrow> do {
          let line = put_line l line;
          str \<leftarrow> c_str line;
          let n = length str;
          _ \<leftarrow> lib_assert (0 < n);
          let line = line[n - 1 := 0];
          (ret, enc_line) \<leftarrow> DecryptWithHex api a line (int (n - 1)) zeros (int MAX_FILE_TEXT_LINE_SIZE);
          if ret < 0 then Some (- 1, acc)
          else do {
            e \<leftarrow> c_str enc_line;
            dec_text_loop api a r line (acc @ e) } })"
  by auto
termination
  by (relation "measure (\<lambda>(api, a, s, line, acc). length s)")
    (auto dest!: fgets_shorter_bytes [rotated] simp: MAX_FILE_TEXT_LINE_SIZE_def)

declare dec_text_loop.simps [simp del]

text \<open>When the output cannot be opened, its null stream is closed.\<close>

definition DecryptTextFile :: "ssl \<Rightarrow> rop_aes \<Rightarrow> string \<Rightarrow> string \<Rightarrow> string \<Rightarrow> string \<Rightarrow> 'a disk_scheme \<Rightarrow> (int \<times> 'a disk_scheme) option" where
  "DecryptTextFile api a in_path in_file out_path out_file d = do {
     src \<leftarrow> full_path in_path in_file;
     out \<leftarrow> full_path out_path out_file;
     if dfiles d src = None then Some (- 1, d)
     else if dlocked d out then None
     else do {
       let d = write_file out [] d;
       (ret, c) \<leftarrow> dec_text_loop api a (the (dfiles d src)) zeros [];
       Some (ret, write_file out c d) } }"

section \<open>Binary files\<close>

text \<open>
  The end of the file shows only when \<open>fread\<close> gets less than it asked for, \<open>PIECE\<close> bytes. The result of the
  cipher is the number of bytes handed to \<open>fwrite\<close>: for \<open>- 1\<close> that is more than any array holds.
\<close>

definition PIECE :: nat where "PIECE = MAX_FILE_TEXT_LINE_SIZE div 2"

definition write_piece :: "byte list \<Rightarrow> int \<Rightarrow> byte list option" where
  "write_piece buf n = (if 0 \<le> n \<and> nat n \<le> length buf then Some (take (nat n) buf) else None)"

function enc_bin_loop :: "ssl \<Rightarrow> rop_aes \<Rightarrow> byte list \<Rightarrow> byte list \<Rightarrow> byte list \<Rightarrow> byte list \<Rightarrow> byte list option" where
  "enc_bin_loop api a s line enc_line acc = do {
     let n = min PIECE (length s);
     let line = take n s @ drop n line;
     (ret, enc_line) \<leftarrow> EncryptWithHex api a line (int n) (zeros @ drop MAX_FILE_TEXT_LINE_SIZE enc_line) (int MAX_FILE_TEXT_LINE_SIZE);
     w \<leftarrow> write_piece enc_line ret;
     if length s < PIECE then Some (acc @ w) else enc_bin_loop api a (drop PIECE s) line enc_line (acc @ w) }"
  by auto
termination
  by (relation "measure (\<lambda>(api, a, s, line, enc_line, acc). length s)") (auto simp: PIECE_def MAX_FILE_TEXT_LINE_SIZE_def)

declare enc_bin_loop.simps [simp del]

definition EncryptBinary :: "ssl \<Rightarrow> rop_aes \<Rightarrow> string \<Rightarrow> string \<Rightarrow> string \<Rightarrow> string \<Rightarrow> 'a disk_scheme \<Rightarrow> (int \<times> 'a disk_scheme) option" where
  "EncryptBinary api a in_path in_file out_path out_file d = do {
     src \<leftarrow> full_path in_path in_file;
     out \<leftarrow> full_path out_path out_file;
     if dfiles d src = None \<or> dlocked d out then Some (- 1, d)
     else do {
       let d = write_file out [] d;
       c \<leftarrow> enc_bin_loop api a (the (dfiles d src)) zeros (zeros @ replicate 128 0) [];
       Some (0, write_file out c d) } }"

function dec_bin_loop :: "ssl \<Rightarrow> rop_aes \<Rightarrow> byte list \<Rightarrow> byte list \<Rightarrow> byte list \<Rightarrow> byte list option" where
  "dec_bin_loop api a s line acc = do {
     let n = min PIECE (length s);
     let line = take n s @ drop n line;
     (ret, enc_line) \<leftarrow> DecryptWithHex api a line (int n) zeros (int MAX_FILE_TEXT_LINE_SIZE);
     w \<leftarrow> write_piece enc_line ret;
     if length s < PIECE then Some (acc @ w) else dec_bin_loop api a (drop PIECE s) line (acc @ w) }"
  by auto
termination
  by (relation "measure (\<lambda>(api, a, s, line, acc). length s)") (auto simp: PIECE_def MAX_FILE_TEXT_LINE_SIZE_def)

declare dec_bin_loop.simps [simp del]

definition DecryptBinary :: "ssl \<Rightarrow> rop_aes \<Rightarrow> string \<Rightarrow> string \<Rightarrow> string \<Rightarrow> string \<Rightarrow> 'a disk_scheme \<Rightarrow> (int \<times> 'a disk_scheme) option" where
  "DecryptBinary api a in_path in_file out_path out_file d = do {
     src \<leftarrow> full_path in_path in_file;
     out \<leftarrow> full_path out_path out_file;
     if dfiles d src = None \<or> dlocked d out then Some (- 1, d)
     else do {
       let d = write_file out [] d;
       c \<leftarrow> dec_bin_loop api a (the (dfiles d src)) zeros [];
       Some (0, write_file out c d) } }"

section \<open>Arrays of strings\<close>

text \<open>The rows from \<open>cur\<close> on, \<open>n\<close> of them, of an array whose rows have \<open>col_size\<close> bytes; \<open>strcpy\<close> needs room in the line.\<close>

fun enc_rows :: "ssl \<Rightarrow> rop_aes \<Rightarrow> byte list \<Rightarrow> nat \<Rightarrow> nat \<Rightarrow> nat \<Rightarrow> byte list \<Rightarrow> byte list \<Rightarrow> byte list option" where
  "enc_rows api a buf col_size 0 cur line acc = Some acc"
| "enc_rows api a buf col_size (Suc n) cur line acc = do {
     str \<leftarrow> c_str (drop (cur * col_size) buf);
     _ \<leftarrow> lib_assert (length str < MAX_FILE_TEXT_LINE_SIZE);
     let line = put_line str line;
     (_, enc_line) \<leftarrow> EncryptWithHex api a line (int (length str)) zeros (int MAX_FILE_TEXT_LINE_SIZE);
     e \<leftarrow> c_str enc_line;
     enc_rows api a buf col_size n (Suc cur) line (acc @ e @ [10]) }"

definition EncryptFileByBufAry :: "ssl \<Rightarrow> rop_aes \<Rightarrow> string \<Rightarrow> string \<Rightarrow> byte list \<Rightarrow> int \<Rightarrow> nat \<Rightarrow> 'a disk_scheme \<Rightarrow> (int \<times> 'a disk_scheme) option" where
  "EncryptFileByBufAry api a out_path out_file buf row col_size d = do {
     out \<leftarrow> full_path out_path out_file;
     if dlocked d out then Some (- 1, d)
     else do {
       c \<leftarrow> enc_rows api a buf col_size (nat row) 0 zeros [];
       Some (0, write_file out c d) } }"

text \<open>The row is copied first and the number of rows looked at afterwards. The result: return value, array, number of rows.\<close>

function dec_rows :: "ssl \<Rightarrow> rop_aes \<Rightarrow> byte list \<Rightarrow> nat \<Rightarrow> int \<Rightarrow> nat \<Rightarrow> byte list \<Rightarrow> byte list \<Rightarrow> (int \<times> byte list \<times> int) option" where
  "dec_rows api a s col_size row cur line buf =
     (case fgets_bytes MAX_FILE_TEXT_LINE_SIZE s of
        None \<Rightarrow> Some (0, buf, int cur)
      | Some (l, r) \<Rightarrow> do {
          let line = put_line l line;
          str \<leftarrow> c_str line;
          let n = length str;
          _ \<leftarrow> lib_assert (0 < n);
          let line = line[n - 1 := 0];
          (ret, dec_line) \<leftarrow> DecryptWithHex api a line (int (n - 1)) zeros (int MAX_FILE_TEXT_LINE_SIZE);
          if ret < 0 then Some (- 2, buf, row)
          else do {
            e \<leftarrow> c_str dec_line;
            buf \<leftarrow> put_bytes (cur * col_size) (e @ [0]) buf;
            if row \<le> int cur then Some (0, buf, int cur)
            else dec_rows api a r col_size row (Suc cur) line buf } })"
  by auto
termination
  by (relation "measure (\<lambda>(api, a, s, col_size, row, cur, line, buf). length s)")
    (auto dest!: fgets_shorter_bytes [rotated] simp: MAX_FILE_TEXT_LINE_SIZE_def)

declare dec_rows.simps [simp del]

definition DecryptFileToBufAry ::
  "ssl \<Rightarrow> rop_aes \<Rightarrow> string \<Rightarrow> string \<Rightarrow> byte list \<Rightarrow> int \<Rightarrow> nat \<Rightarrow> 'a disk_scheme \<Rightarrow> (int \<times> byte list \<times> int) option"
where
  "DecryptFileToBufAry api a in_path in_file buf row col_size d = do {
     src \<leftarrow> full_path in_path in_file;
     case dfiles d src of
       None \<Rightarrow> Some (- 1, buf, row)
     | Some s \<Rightarrow> dec_rows api a s col_size row 0 zeros buf }"

section \<open>One line\<close>

text \<open>What the code relies on of OpenSSL, and an object whose two keys are the same.\<close>

definition ssl_ok :: "ssl \<Rightarrow> bool" where
  "ssl_ok api \<longleftrightarrow> aes_ok (AES_encrypt api) (AES_decrypt api) \<and> set_key_rc api 128 = 0"

definition keyed :: "rop_aes \<Rightarrow> byte list \<Rightarrow> bool" where
  "keyed a k \<longleftrightarrow> m_enckey a = Some k \<and> m_deckey a = Some k"

lemma RopAES_keyed: "ssl_ok api \<Longrightarrow> RopAES_new api key 128 = Some a \<Longrightarrow> \<exists>k. keyed a k"
  by (auto simp: RopAES_new_def expand_key_def ssl_ok_def keyed_def ROP_AES_KEY_SIZE_def Let_def split: if_splits)

lemma ssl_ok_blocks:
  "ssl_ok api \<Longrightarrow> keeps_block (AES_encrypt api k) \<and> keeps_block (AES_decrypt api k)"
  "ssl_ok api \<Longrightarrow> 16 dvd length xs \<Longrightarrow> ecb (AES_decrypt api k) (ecb (AES_encrypt api k) xs) = xs"
  by (simp_all add: ssl_ok_def aes_ok_def keeps_block_def ecb_inverse)

lemma zeros_length [simp]: "length zeros = 4096"
  by (simp add: zeros_def MAX_FILE_TEXT_LINE_SIZE_def)

lemma drop_zeros: "drop n zeros = replicate (4096 - n) 0"
  by (simp add: zeros_def MAX_FILE_TEXT_LINE_SIZE_def)

lemma c_str_ends: "0 \<notin> set l \<Longrightarrow> c_str (l @ 0 # rest) = Some l"
  by (induction l) (auto simp: c_str_def)

lemma put_line_facts:
  "0 \<notin> set l \<Longrightarrow> c_str (put_line l line) = Some l"
  "length l < length line \<Longrightarrow> length (put_line l line) = length line"
  by (simp_all add: put_line_def c_str_ends)

text \<open>The digits a buffer of \<open>n\<close> bytes turns into.\<close>

definition digits :: "ssl \<Rightarrow> byte list \<Rightarrow> byte list \<Rightarrow> nat \<Rightarrow> byte list" where
  "digits api k line n = hex (ecb (AES_encrypt api k) (take (pad16 n) line))"

lemma digits_facts:
  assumes "ssl_ok api" "pad16 n \<le> length line"
  shows "length (digits api k line n) = 2 * pad16 n" "0 \<notin> set (digits api k line n)" "10 \<notin> set (digits api k line n)"
  using assms ssl_ok_blocks(1) [OF assms(1)] hex_text pad16_bounds(3) by (auto simp: digits_def min_def)

lemma EncryptWithHex_ok:
  assumes "ssl_ok api" "keyed a k" "0 < n" "pad16 n \<le> length line" "2 * pad16 n < length dest" "2 * pad16 n \<le> m"
  shows "EncryptWithHex api a line (int n) dest (int m) =
    Some (int (2 * pad16 n), digits api k line n @ 0 # drop (2 * pad16 n + 1) dest)"
proof -
  let ?E = "ecb (AES_encrypt api k) (take (pad16 n) line)"
  let ?b = "replicate (nat (int n + 16)) (0 :: byte)"
  note p = pad16_bounds [of n]
  have l: "length ?E = pad16 n" using ssl_ok_blocks(1) [OF assms(1)] assms(4) p by simp
  have "pad16 n \<le> length ?b" using p by simp
  then have "Encrypt api a line (int n) ?b (int n + 16) = Some (int (pad16 n), ?E @ drop (pad16 n) ?b)"
    using Encrypt_ok [of api k a n] ssl_ok_blocks(1) [OF assms(1)] assms by (simp add: keyed_def)
  moreover have "hex_loop (pad16 n) (?E @ drop (pad16 n) ?b) 0 dest = Some (hex ?E @ 0 # drop (2 * pad16 n + 1) dest)"
    using hex_loop_ok [of "pad16 n" "?E @ drop (pad16 n) ?b" 0 dest] l p assms by simp
  moreover have "2 * int (pad16 n) \<le> int m" using assms(6) by linarith
  moreover have "0 < pad16 n" using p assms(3) by linarith
  ultimately show ?thesis by (simp add: EncryptWithHex_def Mem2Hex_def digits_def)
qed

lemma EncryptWithHex_empty: "EncryptWithHex api a line 0 dest m = Some (- 1, dest)"
  by (simp add: EncryptWithHex_def Encrypt_def crypt_buffer_def)

lemma DecryptWithHex_ok:
  assumes "ssl_ok api" "keyed a k" "16 dvd length xs" "length xs \<le> length dest" "length xs \<le> m"
  shows "DecryptWithHex api a (hex (ecb (AES_encrypt api k) xs) @ rest) (int (2 * length xs)) dest (int m) =
    Some (int (length xs), xs @ drop (length xs) dest)"
proof -
  let ?E = "ecb (AES_encrypt api k) xs" and ?n = "length xs"
  let ?b = "replicate (2 * ?n + 16) (0 :: byte)"
  have l: "length ?E = ?n" using ssl_ok_blocks(1) [OF assms(1)] assms(3) by simp
  have h: "Hex2Mem (hex ?E @ rest) (int (2 * ?n)) ?b (int (2 * ?n) + 16) = Some (int ?n, ?E @ drop ?n ?b)"
    using unhex_loop_ok [of 0 ?E ?b rest] l by (simp add: Hex2Mem_def nat_mult_distrib)
  have n: "nat (int (2 * ?n) + 16) = 2 * ?n + 16" by simp
  show ?thesis
  proof (cases "xs = []")
    case True
    then show ?thesis using h unfolding DecryptWithHex_def n by (simp add: Decrypt_def crypt_buffer_def)
  next
    case False
    have "Decrypt api a (?E @ drop ?n ?b) (int ?n) dest (int m) = Some (int ?n, xs @ drop ?n dest)"
      using Decrypt_ok [of api k a ?n "int m" "?E @ drop ?n ?b" dest] False assms l ssl_ok_blocks [OF assms(1)]
      by (simp add: keyed_def)
    then show ?thesis using h unfolding DecryptWithHex_def n by simp
  qed
qed

text \<open>Encrypting a line and reading it back, with whatever the two arrays hold behind it.\<close>

lemma enc_line_ok:
  assumes "ssl_ok api" "keyed a k" "0 \<notin> set l" "length l \<le> 2032" "length line = 4096"
  obtains ret buf where
    "EncryptWithHex api a (put_line l line) (int (length l)) zeros (int MAX_FILE_TEXT_LINE_SIZE) = Some (ret, buf)"
    "c_str buf = Some (digits api k (put_line l line) (length l))"
proof (cases "l = []")
  case True
  moreover have "c_str zeros = Some []" by (simp add: zeros_def c_str_def MAX_FILE_TEXT_LINE_SIZE_def)
  ultimately show ?thesis using that by (simp add: EncryptWithHex_empty digits_def pad16_def)
next
  case False
  have p: "pad16 (length l) \<le> 2032" using assms(4) unfolding pad16_def by presburger
  have "length (put_line l line) = 4096" using assms put_line_facts(2) [of l line] by simp
  then show ?thesis
    using that EncryptWithHex_ok [of api a k "length l" "put_line l line" zeros MAX_FILE_TEXT_LINE_SIZE] assms False p
      c_str_ends [OF digits_facts(2)]
    by (simp add: MAX_FILE_TEXT_LINE_SIZE_def)
qed

lemma dec_line_ok:
  assumes "ssl_ok api" "keyed a k" "0 \<notin> set l" "length l \<le> 2032" "length line = 4096"
  defines "x \<equiv> digits api k (put_line l line) (length l)"
  obtains ret buf where
    "DecryptWithHex api a (x @ rest) (int (length x)) zeros (int MAX_FILE_TEXT_LINE_SIZE) = Some (ret, buf)" "0 \<le> ret"
    "c_str buf = Some l"
proof -
  let ?p = "pad16 (length l)"
  let ?xs = "take ?p (put_line l line)"
  have p: "?p \<le> 2032" using assms(4) unfolding pad16_def by presburger
  have n: "length (put_line l line) = 4096" using assms put_line_facts(2) [of l line] by simp
  then have xs: "length ?xs = ?p" "16 dvd ?p" using p pad16_bounds(3) by simp_all
  have x: "x = hex (ecb (AES_encrypt api k) ?xs)" "length x = 2 * ?p"
    using digits_facts(1) [OF assms(1)] n p by (simp_all add: x_def digits_def)
  have "DecryptWithHex api a (x @ rest) (int (length x)) zeros (int MAX_FILE_TEXT_LINE_SIZE) = Some (int ?p, ?xs @ drop ?p zeros)"
    using DecryptWithHex_ok [of api a k ?xs zeros MAX_FILE_TEXT_LINE_SIZE rest] assms(1,2) xs p x
    by (simp add: MAX_FILE_TEXT_LINE_SIZE_def)
  moreover have "\<exists>r. ?xs @ drop ?p zeros = l @ 0 # r"
  proof (cases "length l < ?p")
    case True
    then show ?thesis by (auto simp: put_line_def take_Cons')
  next
    case False
    then have "?p = length l" using pad16_bounds(1) [of "length l"] by simp
    moreover have "4096 - length l = Suc (4095 - length l)" using assms(4) by simp
    ultimately show ?thesis by (simp add: put_line_def drop_zeros)
  qed
  ultimately show ?thesis using that [of "int ?p"] c_str_ends [OF assms(3)] by auto
qed

section \<open>Text files\<close>

text \<open>The lines \<open>fgets\<close> delivers.\<close>

function text_lines :: "byte list \<Rightarrow> byte list list" where
  "text_lines s = (case fgets_bytes MAX_FILE_TEXT_LINE_SIZE s of None \<Rightarrow> [] | Some (l, r) \<Rightarrow> l # text_lines r)"
  by auto
termination
  by (relation "measure length") (auto dest!: fgets_shorter_bytes [rotated] simp: MAX_FILE_TEXT_LINE_SIZE_def)

declare text_lines.simps [simp del]

lemma fgets_bytes_line:
  "10 \<notin> set e \<Longrightarrow> length e < 4095 \<Longrightarrow> fgets_bytes MAX_FILE_TEXT_LINE_SIZE (e @ 10 # c) = Some (e @ [10], c)"
proof -
  assume a: "10 \<notin> set e" "length e < 4095"
  have "takeWhile (\<lambda>b. b \<noteq> 10) (e @ 10 # c) = e" using a(1) by (induction e) auto
  then show ?thesis using a(2) by (simp add: fgets_bytes_def MAX_FILE_TEXT_LINE_SIZE_def Let_def)
qed

lemma put_line_cut:
  "(put_line (e @ [10]) line)[length e := 0] = e @ 0 # 0 # drop (length e + 2) line"
  by (simp add: put_line_def list_update_append numeral_2_eq_2)

text \<open>One line written by the encryption, read by the decryption: the line is back, and the array is ready for the next.\<close>

lemma dec_step:
  assumes "ssl_ok api" "keyed a k" "0 \<notin> set l" "length l \<le> 2032" "length line = 4096" "length line' = 4096"
  defines "e \<equiv> digits api k (put_line l line) (length l)"
  defines "short \<equiv> (put_line (e @ [10]) line')[length e := 0]"
  obtains ret buf where "fgets_bytes MAX_FILE_TEXT_LINE_SIZE (e @ 10 # c) = Some (e @ [10], c)"
    "c_str (put_line (e @ [10]) line') = Some (e @ [10])" "length short = 4096"
    "DecryptWithHex api a short (int (length e)) zeros (int MAX_FILE_TEXT_LINE_SIZE) = Some (ret, buf)" "\<not> ret < 0"
    "c_str buf = Some l"
proof -
  have p: "pad16 (length l) \<le> 2032" using assms(4) unfolding pad16_def by presburger
  have n: "length (put_line l line) = 4096" using assms put_line_facts(2) [of l line] by simp
  have e: "length e \<le> 4064" "0 \<notin> set e" "10 \<notin> set e"
    using digits_facts [OF assms(1)] n p by (simp_all add: e_def)
  have short: "short = e @ 0 # 0 # drop (length e + 2) line'" unfolding short_def by (rule put_line_cut)
  obtain ret buf where "DecryptWithHex api a short (int (length e)) zeros (int MAX_FILE_TEXT_LINE_SIZE) = Some (ret, buf)"
      "0 \<le> ret" "c_str buf = Some l"
    using dec_line_ok [OF assms(1-5)] unfolding short e_def by metis
  moreover have "fgets_bytes MAX_FILE_TEXT_LINE_SIZE (e @ 10 # c) = Some (e @ [10], c)"
    using fgets_bytes_line e by simp
  moreover have "c_str (put_line (e @ [10]) line') = Some (e @ [10])" using put_line_facts(1) [of "e @ [10]"] e by simp
  moreover have "length short = 4096" using e assms(6) by (simp add: short)
  ultimately show ?thesis using that by auto
qed

lemma text_loops:
  assumes "ssl_ok api" "keyed a k"
  shows "0 \<notin> set s \<Longrightarrow> \<forall>l \<in> set (text_lines s). length l \<le> 2032 \<Longrightarrow> length line = 4096 \<Longrightarrow>
    \<exists>c. enc_text_loop api a s line acc = Some (acc @ c) \<and>
        (\<forall>line' acc'. length line' = 4096 \<longrightarrow> dec_text_loop api a c line' acc' = Some (0, acc' @ s))"
proof (induction s arbitrary: line acc rule: text_lines.induct)
  case (1 s)
  show ?case
  proof (cases "fgets_bytes MAX_FILE_TEXT_LINE_SIZE s")
    case None
    then have "s = []" by (auto simp: fgets_bytes_def Let_def split: if_splits)
    then show ?thesis
      by (intro exI [of _ "[]"]) (simp add: enc_text_loop.simps dec_text_loop.simps fgets_bytes_def)
  next
    case (Some lr)
    obtain l r where lr: "lr = (l, r)" by (cases lr)
    have s: "s = l @ r"
      using fgets_shorter_bytes [of MAX_FILE_TEXT_LINE_SIZE s l r] Some lr by (simp add: MAX_FILE_TEXT_LINE_SIZE_def)
    have lines: "text_lines s = l # text_lines r" using Some lr by (subst text_lines.simps) simp
    have l: "0 \<notin> set l" "length l \<le> 2032" "0 \<notin> set r" "\<forall>l \<in> set (text_lines r). length l \<le> 2032"
      using "1.prems"(1,2) s lines by auto
    let ?line = "put_line l line"
    let ?e = "digits api k ?line (length l)"
    have n: "length ?line = 4096" using put_line_facts(2) [of l line] l "1.prems" by simp
    obtain c where c: "enc_text_loop api a r ?line (acc @ ?e @ [10]) = Some ((acc @ ?e @ [10]) @ c)"
      "\<And>line' acc'. length line' = 4096 \<Longrightarrow> dec_text_loop api a c line' acc' = Some (0, acc' @ r)"
      using "1.IH" [OF Some lr [symmetric] l(3,4) n, of "acc @ ?e @ [10]"] by blast
    have "enc_text_loop api a s line acc = Some (acc @ ?e @ 10 # c)"
      by (rule enc_line_ok [OF assms l(1,2) "1.prems"(3)])
        (subst enc_text_loop.simps, simp add: c(1) Some lr put_line_facts(1) [OF l(1)])
    moreover have "dec_text_loop api a (?e @ 10 # c) line' acc' = Some (0, acc' @ s)" if "length line' = 4096" for line' acc'
      by (rule dec_step [OF assms l(1,2) "1.prems"(3) that, of c]) (subst dec_text_loop.simps, simp add: c(2) s)
    ultimately show ?thesis by auto
  qed
qed

text \<open>C25: a text file without zero bytes whose lines have at most 2032 bytes comes back byte for byte when it is
  encrypted into a second file and that file is decrypted into a third, whatever the key and whatever bytes
  the padding of the lines takes over from earlier lines.\<close>

theorem text_file_roundtrip:
  assumes "ssl_ok api" "RopAES_new api key 128 = Some a"
    "full_path p f = Some src" "full_path q g = Some mid" "full_path r h = Some out" "mid \<noteq> src" "mid \<noteq> out"
    "dfiles d src = Some s" "\<not> dlocked d mid" "\<not> dlocked d out"
    "0 \<notin> set s" "\<forall>l \<in> set (text_lines s). length l \<le> 2032"
  shows "\<exists>d1 d2. EncryptTextFile api a p f q g d = Some (0, d1) \<and> DecryptTextFile api a q g r h d1 = Some (0, d2) \<and>
    dfiles d2 out = Some s"
proof -
  obtain k where k: "keyed a k" using RopAES_keyed assms(1,2) by blast
  obtain c where c: "enc_text_loop api a s zeros [] = Some c" "dec_text_loop api a c zeros [] = Some (0, s)"
    using text_loops [OF assms(1) k assms(11,12), of zeros "[]"] by auto
  show ?thesis using assms c by (auto simp: EncryptTextFile_def DecryptTextFile_def write_file_def)
qed

text \<open>A cipher that adds one to each byte, for concrete runs.\<close>

definition ssl_demo :: ssl where
  "ssl_demo = \<lparr>set_key_rc = (\<lambda>_. 0), AES_encrypt = (\<lambda>_. map (\<lambda>b. b + 1)), AES_decrypt = (\<lambda>_. map (\<lambda>b. b - 1))\<rparr>"

lemma ssl_demo_ok: "ssl_ok ssl_demo"
  by (auto simp: ssl_ok_def ssl_demo_def aes_ok_def comp_def)

lemma demo_key: "\<exists>a. RopAES_new ssl_demo (replicate 16 7) 128 = Some a"
  by (simp add: RopAES_new_def expand_key_def ssl_demo_def ROP_AES_KEY_SIZE_def Let_def)

definition disk_demo :: "byte list \<Rightarrow> disk" where
  "disk_demo s = \<lparr>dfiles = (\<lambda>n. if n = ''d'' @ [CHR 0x5C] @ ''a'' then Some s else None), dlocked = (\<lambda>_. False)\<rparr>"

lemma demo_paths:
  "full_path ''d'' ''a'' = Some (''d'' @ [CHR 0x5C] @ ''a'')" "full_path ''d'' ''b'' = Some (''d'' @ [CHR 0x5C] @ ''b'')"
  "full_path ''d'' ''c'' = Some (''d'' @ [CHR 0x5C] @ ''c'')"
  by (simp_all add: full_path_def MAX_FILE_PATH_SIZE_def)

theorem text_file_roundtrip_witness:
  "\<exists>a d1 d2. EncryptTextFile ssl_demo a ''d'' ''a'' ''d'' ''b'' (disk_demo [65, 66, 10, 67]) = Some (0, d1) \<and>
     DecryptTextFile ssl_demo a ''d'' ''b'' ''d'' ''c'' d1 = Some (0, d2) \<and>
     dfiles d2 (''d'' @ [CHR 0x5C] @ ''c'') = Some [65, 66, 10, 67]"
proof -
  obtain a where a: "RopAES_new ssl_demo (replicate 16 7) 128 = Some a" using demo_key by blast
  have f: "fgets_bytes MAX_FILE_TEXT_LINE_SIZE [65, 66, 10, 67] = Some ([65, 66, 10], [67])"
    "fgets_bytes MAX_FILE_TEXT_LINE_SIZE [67] = Some ([67], [])" "fgets_bytes MAX_FILE_TEXT_LINE_SIZE [] = None"
    by (simp_all add: fgets_bytes_def MAX_FILE_TEXT_LINE_SIZE_def numeral_3_eq_3 min_def)
  have "text_lines [] = []" by (subst text_lines.simps) (simp add: f)
  moreover have "text_lines [67] = [[67]]" using calculation by (subst text_lines.simps) (simp add: f)
  ultimately have "text_lines [65, 66, 10, 67] = [[65, 66, 10], [67]]" by (subst text_lines.simps) (simp add: f)
  then show ?thesis
    using text_file_roundtrip [OF ssl_demo_ok a demo_paths, of "disk_demo [65, 66, 10, 67]" "[65, 66, 10, 67]"]
    by (fastforce simp: disk_demo_def)
qed

section \<open>Other files\<close>

lemma ecb_append: "16 dvd length xs \<Longrightarrow> ecb f (xs @ ys) = ecb f xs @ ecb f ys"
proof (induction xs rule: length_induct)
  case (1 xs)
  show ?case
  proof (cases "xs = []")
    case False
    then have l: "16 \<le> length xs" using 1(2) by (auto elim!: dvdE simp: neq_Nil_conv)
    then have "ecb f (drop 16 xs @ ys) = ecb f (drop 16 xs) @ ecb f ys" using 1 False by (simp add: dvd_diff_nat)
    then show ?thesis using l False by (subst (1 2) ecb.simps) simp
  qed simp
qed

text \<open>Reading the digits of \<open>xs\<close> in pieces gives \<open>xs\<close>.\<close>

lemma dec_bin_digits:
  assumes "ssl_ok api" "keyed a k"
  shows "16 dvd length xs \<Longrightarrow> dec_bin_loop api a (hex (ecb (AES_encrypt api k) xs)) line acc = Some (acc @ xs)"
proof (induction xs arbitrary: line acc rule: length_induct)
  case (1 xs)
  let ?E = "ecb (AES_encrypt api k)"
  have piece: "DecryptWithHex api a (hex (?E ys) @ rest) (int (2 * length ys)) zeros (int MAX_FILE_TEXT_LINE_SIZE) =
      Some (int (length ys), ys @ drop (length ys) zeros)" if "16 dvd length ys" "length ys \<le> 1024" for ys rest
    using DecryptWithHex_ok [OF assms that(1), of zeros 4096 rest] that(2) by (simp add: MAX_FILE_TEXT_LINE_SIZE_def)
  have l: "length (?E xs) = length xs" using ssl_ok_blocks(1) [OF assms(1)] "1.prems" by simp
  show ?case
  proof (cases "length xs < 1024")
    case True
    then show ?thesis using piece [OF "1.prems"] l
      by (subst dec_bin_loop.simps) (simp add: write_piece_def PIECE_def MAX_FILE_TEXT_LINE_SIZE_def Let_def nat_mult_distrib)
  next
    case False
    let ?a = "take 1024 xs" and ?b = "drop 1024 xs"
    have d: "16 dvd length ?a" "16 dvd length ?b" "length ?a = 1024" using False "1.prems" by (simp_all add: dvd_diff_nat)
    have "hex (?E xs) = hex (?E ?a) @ hex (?E ?b)" using ecb_append [OF d(1), of "AES_encrypt api k" ?b] by simp
    moreover have "length (hex (?E ?a)) = 2048" using ssl_ok_blocks(1) [OF assms(1)] d by simp
    ultimately have t: "take 2048 (hex (?E xs)) = hex (?E ?a)" "drop 2048 (hex (?E xs)) = hex (?E ?b)" by simp_all
    have "dec_bin_loop api a (hex (?E ?b)) line (acc @ ?a) = Some ((acc @ ?a) @ ?b)" for line
      using "1.IH" d False by simp
    then show ?thesis using piece [OF d(1)] d(3) l t False
      by (subst dec_bin_loop.simps) (simp add: write_piece_def PIECE_def MAX_FILE_TEXT_LINE_SIZE_def Let_def)
  qed
qed

lemma pad16_shift: "pad16 (n + 2048) = pad16 n + 2048"
  unfolding pad16_def by presburger

lemma enc_bin_digits:
  assumes "ssl_ok api" "keyed a k"
  shows "length s mod 2048 \<noteq> 0 \<Longrightarrow> length line = 4096 \<Longrightarrow> length enc_line = 4224 \<Longrightarrow>
    \<exists>pad. enc_bin_loop api a s line enc_line acc = Some (acc @ hex (ecb (AES_encrypt api k) (s @ pad))) \<and>
          length (s @ pad) = pad16 (length s)"
proof (induction s arbitrary: line enc_line acc rule: length_induct)
  case (1 s)
  let ?E = "ecb (AES_encrypt api k)"
  let ?n = "min 2048 (length s)"
  let ?line = "take ?n s @ drop ?n line"
  let ?z = "zeros @ drop 4096 enc_line"
  have n: "0 < ?n" "pad16 ?n \<le> 2048" using "1.prems"(1) unfolding pad16_def by (auto intro!: Nat.gr0I)
  have enc: "EncryptWithHex api a ?line (int ?n) ?z (int 4096) =
      Some (int (2 * pad16 ?n), digits api k ?line ?n @ 0 # drop (2 * pad16 ?n + 1) ?z)"
    using EncryptWithHex_ok [OF assms n(1), of ?line ?z 4096] n(2) "1.prems" by simp
  have dl: "length (digits api k ?line ?n) = 2 * pad16 ?n"
    using digits_facts(1) [OF assms(1)] n(2) "1.prems" by simp
  have w: "write_piece (digits api k ?line ?n @ 0 # drop (2 * pad16 ?n + 1) ?z) (int (2 * pad16 ?n)) = Some (digits api k ?line ?n)"
    using dl by (simp add: write_piece_def nat_mult_distrib)
  show ?case
  proof (cases "length s < 2048")
    case True
    let ?pad = "take (pad16 (length s) - length s) (drop (length s) line)"
    have "length s \<le> pad16 (length s)" by (rule pad16_bounds)
    then have "take (pad16 ?n) ?line = s @ ?pad" using True by simp
    moreover have "length (s @ ?pad) = pad16 (length s)"
      using True n(2) pad16_bounds(1) [of "length s"] "1.prems"(2) by simp
    ultimately show ?thesis using enc w True
      by (subst enc_bin_loop.simps) (auto simp: PIECE_def MAX_FILE_TEXT_LINE_SIZE_def Let_def digits_def intro!: exI [of _ ?pad])
  next
    case False
    let ?a = "take 2048 s" and ?b = "drop 2048 s"
    let ?e = "digits api k ?line 2048"
    let ?l2 = "?e @ 0 # drop 4097 ?z"
    have p: "pad16 2048 = 2048" by (simp add: pad16_def)
    have b: "length ?b mod 2048 \<noteq> 0" "length ?b < length s"
      using "1.prems"(1) False by (simp_all add: le_mod_geq)
    have nn: "?n = 2048" using False by simp
    have "length ?line = 4096" "length ?l2 = 4224" using "1.prems" nn dl p by simp_all
    then obtain pad where pad: "enc_bin_loop api a ?b ?line ?l2 (acc @ ?e) = Some ((acc @ ?e) @ hex (?E (?b @ pad)))"
        "length (?b @ pad) = pad16 (length ?b)"
      using "1.IH" [rule_format, OF b(2,1)] by blast
    have "?e = hex (?E ?a)" using False by (simp add: digits_def p)
    moreover have "hex (?E (s @ pad)) = hex (?E ?a) @ hex (?E (?b @ pad))"
      using ecb_append [of ?a "AES_encrypt api k" "?b @ pad"] False by (simp flip: append_assoc)
    moreover have "length (s @ pad) = pad16 (length s)"
      using pad(2) pad16_shift [of "length ?b"] False by simp
    ultimately show ?thesis using enc w pad nn p False
      by (subst enc_bin_loop.simps) (auto simp: PIECE_def MAX_FILE_TEXT_LINE_SIZE_def Let_def intro!: exI [of _ pad])
  qed
qed

text \<open>A file whose length is not a multiple of 2048 bytes comes back from encryption and decryption with up to 15
  bytes more at its end, the rest of its last block; only a length that is a multiple of 16 comes back as it was.\<close>

theorem binary_file_roundtrip:
  assumes "ssl_ok api" "RopAES_new api key 128 = Some a"
    "full_path p f = Some src" "full_path q g = Some mid" "full_path r h = Some out" "mid \<noteq> src" "mid \<noteq> out"
    "dfiles d src = Some s" "\<not> dlocked d mid" "\<not> dlocked d out" "length s mod 2048 \<noteq> 0"
  shows "\<exists>d1 d2 pad. EncryptBinary api a p f q g d = Some (0, d1) \<and> DecryptBinary api a q g r h d1 = Some (0, d2) \<and>
    dfiles d2 out = Some (s @ pad) \<and> length (s @ pad) = pad16 (length s)"
proof -
  obtain k where k: "keyed a k" using RopAES_keyed assms(1,2) by blast
  obtain pad where pad: "enc_bin_loop api a s zeros (zeros @ replicate 128 0) [] = Some (hex (ecb (AES_encrypt api k) (s @ pad)))"
      "length (s @ pad) = pad16 (length s)"
    using enc_bin_digits [OF assms(1) k assms(11), of zeros "zeros @ replicate 128 0" "[]"] by auto
  have "dec_bin_loop api a (hex (ecb (AES_encrypt api k) (s @ pad))) zeros [] = Some (s @ pad)"
    using dec_bin_digits [OF assms(1) k, of "s @ pad" zeros "[]"] pad(2) pad16_bounds(3) by simp
  then show ?thesis using assms pad by (auto simp: EncryptBinary_def DecryptBinary_def write_file_def)
qed

theorem binary_file_roundtrip_witness:
  "\<exists>a d1 d2 pad. EncryptBinary ssl_demo a ''d'' ''a'' ''d'' ''b'' (disk_demo [1, 2, 0]) = Some (0, d1) \<and>
     DecryptBinary ssl_demo a ''d'' ''b'' ''d'' ''c'' d1 = Some (0, d2) \<and>
     dfiles d2 (''d'' @ [CHR 0x5C] @ ''c'') = Some ([1, 2, 0] @ pad) \<and> length pad = 13"
proof -
  obtain a where a: "RopAES_new ssl_demo (replicate 16 7) 128 = Some a" using demo_key by blast
  show ?thesis
    using binary_file_roundtrip [OF ssl_demo_ok a demo_paths, of "disk_demo [1, 2, 0]" "[1, 2, 0]"]
    by (fastforce simp: disk_demo_def pad16_def)
qed

text \<open>A file of a multiple of 2048 bytes, the empty one, too: the last piece is empty, and its \<open>- 1\<close> goes to \<open>fwrite\<close>.\<close>

lemma empty_piece: "enc_bin_loop api a [] line enc_line acc = None"
  by (subst enc_bin_loop.simps)
    (simp add: PIECE_def MAX_FILE_TEXT_LINE_SIZE_def Let_def EncryptWithHex_empty write_piece_def)

lemma binary_empty_overrun:
  assumes "full_path p f = Some src" "full_path q g = Some mid" "mid \<noteq> src" "dfiles d src = Some []" "\<not> dlocked d mid"
  shows "EncryptBinary api a p f q g d = None"
  using assms empty_piece by (simp add: EncryptBinary_def write_file_def)

section \<open>Arrays\<close>

text \<open>The rows of an array, \<open>n\<close> of them from number \<open>cur\<close> on.\<close>

definition rows_at :: "byte list \<Rightarrow> nat \<Rightarrow> nat \<Rightarrow> byte list list \<Rightarrow> bool" where
  "rows_at buf col_size cur rows \<longleftrightarrow>
     (\<forall>i < length rows. c_str (drop ((cur + i) * col_size) buf) = Some (rows ! i) \<and> length (rows ! i) \<le> 2032 \<and>
        length (rows ! i) < col_size)"

lemma rows_at_Cons:
  "rows_at buf col_size cur (l # rows) \<longleftrightarrow>
     c_str (drop (cur * col_size) buf) = Some l \<and> length l \<le> 2032 \<and> length l < col_size \<and> rows_at buf col_size (Suc cur) rows"
  by (auto simp: rows_at_def All_less_Suc2)

lemma c_str_no_zero: "c_str b = Some l \<Longrightarrow> 0 \<notin> set l"
  by (auto simp: c_str_def dest: set_takeWhileD split: if_splits)

lemma rows_overflow:
  assumes "ssl_ok api" "keyed a k"
  shows "rows_at buf col_size cur rows \<Longrightarrow> length line = 4096 \<Longrightarrow> rows \<noteq> [] \<Longrightarrow>
    \<exists>c. enc_rows api a buf col_size (length rows) cur line acc = Some (acc @ c) \<and>
        (\<forall>line' cur' dest. length line' = 4096 \<longrightarrow> length dest = (cur' + length rows - 1) * col_size \<longrightarrow>
           dec_rows api a c col_size (int (cur' + length rows - 1)) cur' line' dest = None)"
proof (induction rows arbitrary: cur line acc)
  case (Cons l rows)
  have l: "c_str (drop (cur * col_size) buf) = Some l" "length l \<le> 2032" "length l < col_size" "0 \<notin> set l"
      "rows_at buf col_size (Suc cur) rows"
    using Cons.prems(1) c_str_no_zero by (auto simp: rows_at_Cons)
  let ?line = "put_line l line"
  let ?e = "digits api k ?line (length l)"
  have n: "length ?line = 4096" using put_line_facts(2) [of l line] l Cons.prems(2) by simp
  have max: "length l < MAX_FILE_TEXT_LINE_SIZE" using l(2) by (simp add: MAX_FILE_TEXT_LINE_SIZE_def)
  have enc: "enc_rows api a buf col_size (length (l # rows)) cur line acc =
      enc_rows api a buf col_size (length rows) (Suc cur) ?line (acc @ ?e @ [10])"
    by (rule enc_line_ok [OF assms l(4,2) Cons.prems(2)]) (simp add: Let_def l(1) max put_line_facts(1) [OF l(4)])
  show ?case
  proof (cases "rows = []")
    case True
    have "dec_rows api a (?e @ [10]) col_size (int cur') cur' line' dest = None"
      if "length line' = 4096" "length dest = cur' * col_size" for line' cur' dest
    proof -
      have "put_bytes (cur' * col_size) (l @ [0]) dest = None" using that(2) by (simp add: put_bytes_def)
      then show ?thesis
        by - (rule dec_step [OF assms l(4,2) Cons.prems(2) that(1), of "[]"], subst dec_rows.simps, simp)
    qed
    then show ?thesis using enc True by (intro exI [of _ "?e @ [10]"]) simp
  next
    case False
    obtain c where c: "enc_rows api a buf col_size (length rows) (Suc cur) ?line (acc @ ?e @ [10]) = Some ((acc @ ?e @ [10]) @ c)"
      "\<And>line' cur' dest. length line' = 4096 \<Longrightarrow> length dest = (cur' + length rows - 1) * col_size \<Longrightarrow>
         dec_rows api a c col_size (int (cur' + length rows - 1)) cur' line' dest = None"
      using Cons.IH [OF l(5) n False, of "acc @ ?e @ [10]"] by blast
    have "dec_rows api a (?e @ 10 # c) col_size (int (cur' + length (l # rows) - 1)) cur' line' dest = None"
      if "length line' = 4096" "length dest = (cur' + length (l # rows) - 1) * col_size" for line' cur' dest
    proof -
      have fits: "cur' * col_size + length (l @ [0]) \<le> length dest"
      proof -
        have "cur' * col_size + col_size \<le> (cur' + length rows) * col_size"
          using False by (cases rows) (simp_all add: algebra_simps)
        then show ?thesis using l(3) that(2) by simp
      qed
      have "int (Suc cur' + length rows - 1) = int (cur' + length (l # rows) - 1)" by simp
      then show ?thesis
        using c(2) [of _ _ "Suc cur'"] fits that(2) False
        by - (rule dec_step [OF assms l(4,2) Cons.prems(2) that(1), of c], subst dec_rows.simps, simp)
    qed
    then show ?thesis using enc c(1) by (intro exI [of _ "?e @ 10 # c"]) simp
  qed
qed simp

text \<open>When a file holds one row more than the array it is decrypted into, the row is copied before the number of
  rows is looked at, past the end of the array; \<open>EncryptFileByBufAry\<close> writes such a file without complaint.\<close>

theorem decrypt_array_overflows:
  assumes "ssl_ok api" "RopAES_new api key 128 = Some a" "full_path p f = Some mid" "\<not> dlocked d mid"
    "rows_at buf col_size 0 rows" "rows \<noteq> []" "length dest = (length rows - 1) * col_size"
  shows "\<exists>d1. EncryptFileByBufAry api a p f buf (int (length rows)) col_size d = Some (0, d1) \<and>
    DecryptFileToBufAry api a p f dest (int (length rows) - 1) col_size d1 = None"
proof -
  obtain k where k: "keyed a k" using RopAES_keyed assms(1,2) by blast
  obtain c where c: "enc_rows api a buf col_size (length rows) 0 zeros [] = Some c"
      "dec_rows api a c col_size (int (length rows - 1)) 0 zeros dest = None"
  proof -
    have dest: "length dest = (0 + length rows - 1) * col_size" using assms(7) by simp
    have i: "int (0 + length rows - 1) = int (length rows - 1)" by simp
    show ?thesis
      using rows_overflow [OF assms(1) k assms(5) zeros_length assms(6), of "[]"] that
      unfolding append_Nil by (metis dest i zeros_length)
  qed
  have "int (length rows - 1) = int (length rows) - 1" using assms(6) by (cases rows) simp_all
  then show ?thesis using assms(3,4) c by (simp add: EncryptFileByBufAry_def DecryptFileToBufAry_def write_file_def)
qed

theorem decrypt_array_overflows_witness:
  "\<exists>a d1. EncryptFileByBufAry ssl_demo a ''d'' ''b'' [65, 0, 66, 0] 2 2 (disk_demo []) = Some (0, d1) \<and>
     DecryptFileToBufAry ssl_demo a ''d'' ''b'' [0, 0] 1 2 d1 = None"
proof -
  obtain a where a: "RopAES_new ssl_demo (replicate 16 7) 128 = Some a" using demo_key by blast
  have "rows_at [65, 0, 66, 0] 2 0 [[65], [66]]" by (simp add: rows_at_Cons c_str_def) (simp add: rows_at_def)
  then show ?thesis
    using decrypt_array_overflows [OF ssl_demo_ok a demo_paths(2), of "disk_demo []" "[65, 0, 66, 0]" 2 "[[65], [66]]" "[0, 0]"]
    by (fastforce simp: disk_demo_def)
qed

end
