(* ===== verification/RopQueue.thy ===== *)
theory RopQueue imports Prelude begin

text \<open>
  \<open>Client/RopCltLib/RopQueue.cpp\<close>: the client's bounded queue of pointers, a ring in an array. Its numbers are
  32-bit words. The specification is a list of bounded length; the laws of a bounded queue are a locale, which
  the ring interprets. \<open>Push\<close> and \<open>Pop\<close> test the size before they enter the critical section, and \<open>Pop\<close> reads
  the item after it has left it: the last part shows what another thread can do in between.
\<close>

section \<open>State\<close>

record queue =
  base :: "32 word"
  q_size :: "32 word"
  capacity :: "32 word"
  max_size :: "32 word"
  q_data :: "ptr list"

text \<open>\<open>sizeof (Queue)\<close> without its open array, and the number of bytes that are asked for.\<close>

definition SIZEOF_QUEUE :: nat where "SIZEOF_QUEUE = 16"

definition QUEUE_BYTE_ALLOCATION :: "32 word \<Rightarrow> 32 word" where
  "QUEUE_BYTE_ALLOCATION n = of_nat SIZEOF_QUEUE + n * 4"

text \<open>
  The object's \<open>q\<close> after the constructor: the inner \<open>None\<close> is \<open>NULL\<close>. \<open>mem\<close> says whether the system has the
  memory; nothing is allocated for 0 bytes. An allocation too small for the head is a write past it.
\<close>

definition RopQueue_new :: "bool \<Rightarrow> 32 word \<Rightarrow> queue option option" where
  "RopQueue_new mem n =
     (let sz = unat (QUEUE_BYTE_ALLOCATION n)
      in if sz = 0 \<or> \<not> mem then Some None
      else if sz < SIZEOF_QUEUE then None
      else Some (Some \<lparr>base = 0, q_size = 0, capacity = n, max_size = 0,
                       q_data = replicate ((sz - SIZEOF_QUEUE) div 4) NULL\<rparr>))"

definition QUEUE_ADD_INDEX :: "queue \<Rightarrow> 32 word \<Rightarrow> 32 word \<Rightarrow> 32 word" where
  "QUEUE_ADD_INDEX q v inc = (let v = v + inc in if capacity q \<le> v then v - capacity q else v)"

definition UPDATE_MAX_SIZE :: "queue \<Rightarrow> queue" where
  "UPDATE_MAX_SIZE q = (if max_size q < q_size q then q\<lparr>max_size := q_size q\<rparr> else q)"

definition slot :: "queue \<Rightarrow> 32 word \<Rightarrow> ptr option" where
  "slot q i = (if unat i < length (q_data q) then Some (q_data q ! unat i) else None)"

definition set_slot :: "32 word \<Rightarrow> ptr \<Rightarrow> queue \<Rightarrow> queue option" where
  "set_slot i item q =
     (if unat i < length (q_data q) then Some (q\<lparr>q_data := (q_data q)[unat i := item]\<rparr>) else None)"

section \<open>Operations\<close>

text \<open>Each operation in the stretches that run without another thread: what is in the critical section, and what is not.\<close>

definition push_locked :: "ptr \<Rightarrow> queue \<Rightarrow> queue option" where
  "push_locked item q = do {
     let dest = QUEUE_ADD_INDEX q (base q) (q_size q);
     q \<leftarrow> set_slot dest item q;
     Some (UPDATE_MAX_SIZE (q\<lparr>q_size := q_size q + 1\<rparr>)) }"

definition Push :: "ptr \<Rightarrow> queue \<Rightarrow> (ptr \<times> queue) option" where
  "Push item q =
     (if q_size q = capacity q then Some (NULL, q)
      else do { q \<leftarrow> push_locked item q; Some (item, q) })"

definition pop_locked :: "queue \<Rightarrow> 32 word \<times> queue" where
  "pop_locked q =
     (base q, UPDATE_MAX_SIZE (q\<lparr>base := QUEUE_ADD_INDEX q (base q) 1, q_size := q_size q - 1\<rparr>))"

definition Pop :: "queue \<Rightarrow> (ptr \<times> queue) option" where
  "Pop q =
     (if q_size q = 0 then Some (NULL, q)
      else do {
        let (oldbase, q) = pop_locked q;
        item \<leftarrow> slot q oldbase;
        Some (item, q) })"

text \<open>The loop of \<open>Extract\<close> with \<open>k\<close> items to go: the number of items taken out and the queue.\<close>

fun extract_loop :: "ptr \<Rightarrow> nat \<Rightarrow> 32 word \<Rightarrow> 32 word \<Rightarrow> nat \<Rightarrow> queue \<Rightarrow> (nat \<times> queue) option" where
  "extract_loop item 0 src dest n q = Some (n, q)"
| "extract_loop item (Suc k) src dest n q = do {
     x \<leftarrow> slot q src;
     if item = x
     then extract_loop item k (QUEUE_ADD_INDEX q src 1) dest (Suc n) (q\<lparr>q_size := q_size q - 1\<rparr>)
     else do {
       q \<leftarrow> set_slot dest x q;
       extract_loop item k (QUEUE_ADD_INDEX q src 1) (QUEUE_ADD_INDEX q dest 1) n q } }"

definition Extract :: "ptr \<Rightarrow> queue \<Rightarrow> (ptr \<times> queue) option" where
  "Extract item q = do {
     (n, q) \<leftarrow> extract_loop item (unat (q_size q)) (base q) (base q) 0 q;
     Some (if n \<noteq> 0 then item else NULL, q) }"

definition Count :: "queue \<Rightarrow> 32 word" where
  "Count q = q_size q"

section \<open>The ring as a list\<close>

text \<open>The items at the places \<open>a\<close> to \<open>b - 1\<close>, counted from the base.\<close>

abbreviation place :: "queue \<Rightarrow> nat \<Rightarrow> nat" where
  "place q i \<equiv> (unat (base q) + i) mod length (q_data q)"

definition ring :: "queue \<Rightarrow> nat \<Rightarrow> nat \<Rightarrow> ptr list" where
  "ring q a b = map (\<lambda>i. q_data q ! place q i) [a..<b]"

definition q_list :: "queue \<Rightarrow> ptr list" where
  "q_list q = ring q 0 (unat (q_size q))"

text \<open>The index arithmetic stays within 32 bits for up to \<open>2 ^ 31\<close> places.\<close>

definition queue_ok :: "queue \<Rightarrow> bool" where
  "queue_ok q \<longleftrightarrow>
     unat (capacity q) = length (q_data q) \<and> length (q_data q) \<le> 2 ^ 31 \<and> unat (q_size q) \<le> length (q_data q) \<and>
     (unat (base q) < length (q_data q) \<or> q_data q = [])"

lemma ring_length [simp]: "length (ring q a b) = b - a"
  by (simp add: ring_def)

lemma q_list_length: "length (q_list q) = unat (q_size q)"
  by (simp add: q_list_def)

lemma ring_Suc: "a \<le> b \<Longrightarrow> ring q a (Suc b) = ring q a b @ [q_data q ! place q b]"
  by (simp add: ring_def)

lemma ring_Cons: "a < b \<Longrightarrow> ring q a b = q_data q ! place q a # ring q (Suc a) b"
  by (simp add: ring_def upt_conv_Cons)

lemma place_inj:
  assumes "i < j" "j < length (q_data q)"
  shows "place q i \<noteq> place q j"
proof
  assume "place q i = place q j"
  then have "length (q_data q) dvd j - i"
    using mod_eq_dvd_iff_nat [of "unat (base q) + i" "unat (base q) + j" "length (q_data q)"] assms(1) by auto
  then show False using assms by (auto dest: dvd_imp_le)
qed

lemma ring_update:
  assumes "b \<le> length (q_data q)" "j < length (q_data q)" "j < a \<or> b \<le> j"
  shows "ring (q\<lparr>q_data := (q_data q)[place q j := x]\<rparr>) a b = ring q a b"
proof -
  have ne: "place q j \<noteq> place q i" if "a \<le> i" "i < b" for i
    using that assms place_inj [of i j q] place_inj [of j i q] by fastforce
  show ?thesis unfolding ring_def by (rule map_cong) (use ne in auto)
qed

lemma ring_cong: "base q' = base q \<Longrightarrow> q_data q' = q_data q \<Longrightarrow> ring q' a b = ring q a b"
  by (simp add: ring_def)

lemma add_index:
  assumes "unat (capacity q) = length (q_data q)" "length (q_data q) \<le> 2 ^ 31" "unat v < length (q_data q)"
    "unat inc \<le> length (q_data q)"
  shows "unat (QUEUE_ADD_INDEX q v inc) = (unat v + unat inc) mod length (q_data q)"
proof -
  have s: "unat (v + inc) = unat v + unat inc" using assms by (subst unat_add_lem [symmetric]) simp
  show ?thesis
  proof (cases "capacity q \<le> v + inc")
    case True
    then have "unat (v + inc - capacity q) = unat v + unat inc - length (q_data q)"
      using assms(1) s by (simp add: unat_sub)
    moreover have "length (q_data q) \<le> unat v + unat inc" using True s assms(1) by (simp add: word_le_nat_alt)
    ultimately show ?thesis using True assms by (simp add: QUEUE_ADD_INDEX_def Let_def le_mod_geq)
  next
    case False
    then have "unat v + unat inc < length (q_data q)" using s assms(1) by (simp add: word_le_nat_alt)
    then show ?thesis using False s by (simp add: QUEUE_ADD_INDEX_def Let_def)
  qed
qed

lemma add_place:
  assumes "unat (capacity q) = length (q_data q)" "length (q_data q) \<le> 2 ^ 31" "0 < length (q_data q)" "unat v = place q i"
  shows "unat (QUEUE_ADD_INDEX q v 1) = place q (Suc i)"
  using add_index [of q v 1] assms by (simp add: mod_Suc_eq Suc_leI)

lemma UPDATE_MAX_SIZE_fields [simp]:
  "base (UPDATE_MAX_SIZE q) = base q" "q_size (UPDATE_MAX_SIZE q) = q_size q" "capacity (UPDATE_MAX_SIZE q) = capacity q"
  "q_data (UPDATE_MAX_SIZE q) = q_data q"
  by (simp_all add: UPDATE_MAX_SIZE_def)

lemma push_locked_list:
  assumes "queue_ok q" "q_size q \<noteq> capacity q"
  shows "\<exists>q'. push_locked item q = Some q' \<and> queue_ok q' \<and> q_list q' = q_list q @ [item] \<and> capacity q' = capacity q \<and>
    base q' = base q \<and> q_data q' = (q_data q)[place q (unat (q_size q)) := item]"
proof -
  let ?n = "length (q_data q)" and ?s = "unat (q_size q)"
  let ?q = "q\<lparr>q_data := (q_data q)[place q ?s := item]\<rparr>"
  have s: "?s < ?n" "unat (q_size q + 1) = Suc ?s" "unat (base q) < ?n"
  proof -
    have "?s \<noteq> unat (capacity q)" using assms(2) by (simp add: word_unat_eq_iff)
    then show 1: "?s < ?n" using assms(1) by (simp add: queue_ok_def)
    then have "?s + unat (1 :: 32 word) < 2 ^ 32" using assms(1) by (simp add: queue_ok_def)
    then show "unat (q_size q + 1) = Suc ?s" using unat_add_lem [of "q_size q" 1] by simp
    have "q_data q \<noteq> []" using 1 by (metis less_nat_zero_code list.size(3))
    then show "unat (base q) < ?n" using assms(1) by (auto simp: queue_ok_def)
  qed
  have i: "unat (QUEUE_ADD_INDEX q (base q) (q_size q)) = place q ?s"
    using add_index [of q "base q" "q_size q"] assms(1) s by (simp add: queue_ok_def)
  have "place q ?s < ?n" using s(1) by (intro mod_less_divisor) linarith
  then have "push_locked item q = Some (UPDATE_MAX_SIZE (?q\<lparr>q_size := q_size q + 1\<rparr>))"
    by (simp add: push_locked_def set_slot_def i)
  moreover have "ring (UPDATE_MAX_SIZE (?q\<lparr>q_size := q_size q + 1\<rparr>)) 0 (Suc ?s) = q_list q @ [item]"
  proof -
    have "ring (UPDATE_MAX_SIZE (?q\<lparr>q_size := q_size q + 1\<rparr>)) 0 (Suc ?s) = ring ?q 0 (Suc ?s)" by (rule ring_cong) simp_all
    also have "\<dots> = ring q 0 ?s @ [item]"
      using ring_update [of ?s q ?s 0 item] s(1) \<open>place q ?s < ?n\<close> by (simp add: ring_Suc)
    finally show ?thesis by (simp add: q_list_def)
  qed
  ultimately show ?thesis using assms(1) s by (simp add: queue_ok_def q_list_def)
qed

lemma pop_locked_list:
  assumes "queue_ok q" "q_size q \<noteq> 0"
  shows "\<exists>q' x. pop_locked q = (base q, q') \<and> slot q' (base q) = Some x \<and> queue_ok q' \<and> q_list q = x # q_list q' \<and>
    capacity q' = capacity q \<and> q_data q' = q_data q \<and> q_size q' = q_size q - 1"
proof -
  let ?n = "length (q_data q)" and ?s = "unat (q_size q)"
  let ?b = "QUEUE_ADD_INDEX q (base q) 1"
  have s: "0 < ?s" "unat (q_size q - 1) = ?s - 1" "unat (base q) < ?n" "0 < ?n"
  proof -
    show 1: "0 < ?s" using assms(2) by (simp add: unat_gt_0)
    then show 2: "0 < ?n" using assms(1) by (auto simp: queue_ok_def)
    show "unat (q_size q - 1) = ?s - 1" using assms(2) by (simp add: unat_minus_one)
    show "unat (base q) < ?n" using assms(1) 2 by (auto simp: queue_ok_def)
  qed
  have b: "unat ?b = place q 1" using add_place [of q "base q" 0] assms(1) s by (simp add: queue_ok_def)
  define q' where "q' = UPDATE_MAX_SIZE (q\<lparr>base := ?b, q_size := q_size q - 1\<rparr>)"
  have f: "base q' = ?b" "q_data q' = q_data q" "q_size q' = q_size q - 1" "capacity q' = capacity q"
    by (simp_all add: q'_def)
  have pl: "(unat ?b + i) mod ?n = place q (Suc i)" for i
    by (simp add: b mod_add_left_eq)
  have "ring q' 0 (?s - 1) = ring q 1 ?s"
    unfolding ring_def by (rule nth_equalityI) (simp_all add: pl f)
  then have "q_list q = q_data q ! unat (base q) # q_list q'"
    using s ring_Cons [of 0 ?s q] by (simp add: q_list_def f)
  moreover have "place q 1 < ?n" using s(4) by (rule mod_less_divisor)
  ultimately show ?thesis using assms(1) s
    by (intro exI [of _ q'] exI [of _ "q_data q ! unat (base q)"])
      (auto simp: pop_locked_def q'_def slot_def queue_ok_def b)
qed

text \<open>
  \<open>Extract\<close> with \<open>d\<close> items kept and the items from place \<open>j\<close> on still to be looked at: the kept ones are moved
  together at the base.
\<close>

lemma extract_list:
  assumes "unat (capacity q) = length (q_data q)" "length (q_data q) \<le> 2 ^ 31" "d \<le> j" "j + k \<le> length (q_data q)"
    "unat src = place q j" "unat dest = place q d" "unat (q_size q) = d + k" "0 < length (q_data q)"
  shows "\<exists>q' m. extract_loop item k src dest n q = Some (n + m, q') \<and> (0 < m \<longleftrightarrow> item \<in> set (ring q j (j + k))) \<and>
    base q' = base q \<and> capacity q' = capacity q \<and> length (q_data q') = length (q_data q) \<and> unat (q_size q') \<le> d + k \<and>
    q_list q' = ring q 0 d @ filter (\<lambda>x. x \<noteq> item) (ring q j (j + k))"
  using assms
proof (induction k arbitrary: j d src dest n q)
  case 0
  then show ?case by (intro exI [of _ q] exI [of _ 0]) (simp add: q_list_def ring_def)
next
  case (Suc k)
  let ?N = "length (q_data q)"
  let ?x = "q_data q ! place q j"
  have pl: "place q i < ?N" for i using Suc.prems(8) by simp
  have x: "slot q src = Some ?x" using Suc.prems(5) pl by (simp add: slot_def)
  have src: "unat (QUEUE_ADD_INDEX q src 1) = place q (Suc j)"
    using add_place [OF Suc.prems(1,2,8,5)] by simp
  have tail: "ring q j (j + Suc k) = ?x # ring q (Suc j) (Suc j + k)" by (simp add: ring_Cons)
  show ?case
  proof (cases "item = ?x")
    case True
    let ?q = "q\<lparr>q_size := q_size q - 1\<rparr>"
    have add: "QUEUE_ADD_INDEX ?q = QUEUE_ADD_INDEX q" by (simp add: QUEUE_ADD_INDEX_def fun_eq_iff Let_def)
    have "q_size q \<noteq> 0" using Suc.prems(7) by (auto simp: unat_gt_0 [symmetric])
    then have sz: "unat (q_size ?q) = d + k" using Suc.prems(7) by (simp add: unat_minus_one)
    have r: "ring ?q a b = ring q a b" for a b by (rule ring_cong) simp_all
    obtain q' m where "extract_loop item k (QUEUE_ADD_INDEX q src 1) dest (Suc n) ?q = Some (Suc n + m, q')"
      "base q' = base q" "capacity q' = capacity q" "length (q_data q') = ?N" "unat (q_size q') \<le> d + k"
      "q_list q' = ring q 0 d @ filter (\<lambda>x. x \<noteq> item) (ring q (Suc j) (Suc j + k))"
      using Suc.IH [of ?q d "Suc j" "QUEUE_ADD_INDEX q src 1" dest "Suc n"] Suc.prems src sz unfolding r by auto
    then show ?thesis using x True tail by (intro exI [of _ q'] exI [of _ "Suc m"]) simp
  next
    case False
    let ?q = "q\<lparr>q_data := (q_data q)[place q d := ?x]\<rparr>"
    have set: "set_slot dest ?x q = Some ?q" using Suc.prems(6) pl by (simp add: set_slot_def)
    have add: "QUEUE_ADD_INDEX ?q = QUEUE_ADD_INDEX q" by (simp add: QUEUE_ADD_INDEX_def fun_eq_iff Let_def)
    have dest: "unat (QUEUE_ADD_INDEX q dest 1) = place q (Suc d)"
      using add_place [OF Suc.prems(1,2,8,6)] by simp
    have dN: "d < ?N" using Suc.prems(3,4) by simp
    have r1: "ring ?q 0 (Suc d) = ring q 0 d @ [?x]"
      using ring_update [of d q d 0 ?x] dN pl by (simp add: ring_Suc)
    have r2: "ring ?q (Suc j) (Suc j + k) = ring q (Suc j) (Suc j + k)"
      using ring_update [of "Suc j + k" q d "Suc j" ?x] dN Suc.prems(3,4) by simp
    obtain q' m where "extract_loop item k (QUEUE_ADD_INDEX q src 1) (QUEUE_ADD_INDEX q dest 1) n ?q = Some (n + m, q')"
      "0 < m \<longleftrightarrow> item \<in> set (ring ?q (Suc j) (Suc j + k))"
      "base q' = base q" "capacity q' = capacity q" "length (q_data q') = ?N" "unat (q_size q') \<le> Suc d + k"
      "q_list q' = ring ?q 0 (Suc d) @ filter (\<lambda>x. x \<noteq> item) (ring ?q (Suc j) (Suc j + k))"
      using Suc.IH [of ?q "Suc d" "Suc j" "QUEUE_ADD_INDEX q src 1" "QUEUE_ADD_INDEX q dest 1" n] Suc.prems src dest by auto
    then show ?thesis using x False tail set add r1 r2
      by (intro exI [of _ q'] exI [of _ m]) auto
  qed
qed

lemma Extract_list:
  assumes "queue_ok q"
  shows "\<exists>q'. Extract item q = Some (if item \<in> set (q_list q) then item else NULL, q') \<and> queue_ok q' \<and>
    capacity q' = capacity q \<and> q_list q' = filter (\<lambda>x. x \<noteq> item) (q_list q)"
proof (cases "q_data q = []")
  case True
  then have "unat (q_size q) = 0" "q_list q = []" using assms by (simp_all add: queue_ok_def q_list_def ring_def)
  then show ?thesis using assms by (simp add: Extract_def)
next
  case False
  have "unat (base q) = place q 0" using assms False by (auto simp: queue_ok_def)
  then obtain q' m where
    "extract_loop item (unat (q_size q)) (base q) (base q) 0 q = Some (m, q')" "0 < m \<longleftrightarrow> item \<in> set (q_list q)"
    "base q' = base q" "capacity q' = capacity q" "length (q_data q') = length (q_data q)" "unat (q_size q') \<le> unat (q_size q)"
    "q_list q' = filter (\<lambda>x. x \<noteq> item) (q_list q)"
    using extract_list [of q 0 0 "unat (q_size q)" "base q" "base q" item 0] assms False
    by (auto simp: queue_ok_def q_list_def ring_def)
  then show ?thesis using assms False by (intro exI [of _ q']) (auto simp: Extract_def queue_ok_def)
qed

section \<open>The interface\<close>

text \<open>
  A bounded queue of pointers: what each operation returns and what it makes of the list of items, for a
  queue of \<open>cap\<close> places.
\<close>

locale bounded_queue =
  fixes ok :: "'q \<Rightarrow> bool" and items :: "'q \<Rightarrow> ptr list" and cap :: "'q \<Rightarrow> nat"
    and push :: "ptr \<Rightarrow> 'q \<Rightarrow> (ptr \<times> 'q) option" and pop :: "'q \<Rightarrow> (ptr \<times> 'q) option"
    and take_out :: "ptr \<Rightarrow> 'q \<Rightarrow> (ptr \<times> 'q) option" and count_items :: "'q \<Rightarrow> nat"
  assumes bounded: "ok q \<Longrightarrow> length (items q) \<le> cap q"
    and count_law: "ok q \<Longrightarrow> count_items q = length (items q)"
    and push_full: "ok q \<Longrightarrow> length (items q) = cap q \<Longrightarrow> push p q = Some (NULL, q)"
    and push_room: "ok q \<Longrightarrow> length (items q) < cap q \<Longrightarrow>
      \<exists>q'. push p q = Some (p, q') \<and> ok q' \<and> cap q' = cap q \<and> items q' = items q @ [p]"
    and pop_empty: "ok q \<Longrightarrow> items q = [] \<Longrightarrow> pop q = Some (NULL, q)"
    and pop_item: "ok q \<Longrightarrow> items q = x # xs \<Longrightarrow> \<exists>q'. pop q = Some (x, q') \<and> ok q' \<and> cap q' = cap q \<and> items q' = xs"
    and extract_law: "ok q \<Longrightarrow>
      \<exists>q'. take_out p q = Some (if p \<in> set (items q) then p else NULL, q') \<and> ok q' \<and> cap q' = cap q \<and>
           items q' = filter (\<lambda>x. x \<noteq> p) (items q)"

text \<open>A program over a queue, on the operations and on the list.\<close>

datatype q_op = QPush ptr | QPop | QExtract ptr | QCount

fun spec_op :: "nat \<Rightarrow> q_op \<Rightarrow> ptr list \<Rightarrow> ptr \<times> ptr list" where
  "spec_op n (QPush p) xs = (if length xs = n then (NULL, xs) else (p, xs @ [p]))"
| "spec_op n QPop xs = (case xs of [] \<Rightarrow> (NULL, []) | x # xs \<Rightarrow> (x, xs))"
| "spec_op n (QExtract p) xs = (if p \<in> set xs then p else NULL, filter (\<lambda>x. x \<noteq> p) xs)"
| "spec_op n QCount xs = (length xs, xs)"

fun spec_run :: "nat \<Rightarrow> q_op list \<Rightarrow> ptr list \<Rightarrow> ptr list \<times> ptr list" where
  "spec_run n [] xs = ([], xs)"
| "spec_run n (p # ps) xs = (let (r, xs) = spec_op n p xs; (rs, xs) = spec_run n ps xs in (r # rs, xs))"

fun queue_op :: "q_op \<Rightarrow> queue \<Rightarrow> (ptr \<times> queue) option" where
  "queue_op (QPush p) q = Push p q"
| "queue_op QPop q = Pop q"
| "queue_op (QExtract p) q = Extract p q"
| "queue_op QCount q = Some (unat (Count q), q)"

fun run_ops :: "(q_op \<Rightarrow> 'q \<Rightarrow> (ptr \<times> 'q) option) \<Rightarrow> q_op list \<Rightarrow> 'q \<Rightarrow> (ptr list \<times> 'q) option" where
  "run_ops step [] q = Some ([], q)"
| "run_ops step (p # ps) q = do { (r, q) \<leftarrow> step p q; (rs, q) \<leftarrow> run_ops step ps q; Some (r # rs, q) }"

context bounded_queue begin

lemma one_op:
  assumes "ok q"
    and "step = (\<lambda>p q. case p of QPush x \<Rightarrow> push x q | QPop \<Rightarrow> pop q | QExtract x \<Rightarrow> take_out x q | QCount \<Rightarrow> Some (count_items q, q))"
  shows "\<exists>q'. step p q = Some (fst (spec_op (cap q) p (items q)), q') \<and> ok q' \<and> cap q' = cap q \<and> items q' = snd (spec_op (cap q) p (items q))"
proof (cases p)
  case (QPush x)
  then show ?thesis
    using push_full [OF assms(1)] push_room [OF assms(1)] bounded [OF assms(1)] assms le_neq_implies_less by fastforce
next
  case QPop
  then show ?thesis using pop_empty [OF assms(1)] pop_item [OF assms(1)] assms by (cases "items q") auto
next
  case (QExtract x)
  then show ?thesis using extract_law [OF assms(1)] assms(2) by fastforce
next
  case QCount
  then show ?thesis using count_law [OF assms(1)] assms by simp
qed

lemma run_spec:
  assumes "step = (\<lambda>p q. case p of QPush x \<Rightarrow> push x q | QPop \<Rightarrow> pop q | QExtract x \<Rightarrow> take_out x q | QCount \<Rightarrow> Some (count_items q, q))"
  shows "ok q \<Longrightarrow> \<exists>q'. run_ops step ps q = Some (fst (spec_run (cap q) ps (items q)), q') \<and> ok q' \<and>
    items q' = snd (spec_run (cap q) ps (items q))"
proof (induction ps arbitrary: q)
  case (Cons p ps)
  obtain q1 where q1: "step p q = Some (fst (spec_op (cap q) p (items q)), q1)" "ok q1" "cap q1 = cap q"
      "items q1 = snd (spec_op (cap q) p (items q))"
    using one_op [OF Cons.prems assms] by blast
  show ?case using Cons.IH [OF q1(2)] q1 by (auto simp: Let_def split_beta)
qed simp

end

interpretation ring_queue: bounded_queue queue_ok q_list "\<lambda>q. unat (capacity q)" Push Pop Extract "\<lambda>q. unat (Count q)"
proof unfold_locales
  fix q p assume ok: "queue_ok q"
  then show "length (q_list q) \<le> unat (capacity q)" "unat (Count q) = length (q_list q)"
    by (simp_all add: q_list_length queue_ok_def Count_def)
  show "Push p q = Some (NULL, q)" if "length (q_list q) = unat (capacity q)"
    using that by (simp add: q_list_length Push_def word_unat_eq_iff)
  show "\<exists>q'. Push p q = Some (p, q') \<and> queue_ok q' \<and> unat (capacity q') = unat (capacity q) \<and> q_list q' = q_list q @ [p]"
    if "length (q_list q) < unat (capacity q)"
    using push_locked_list [OF ok, of p] that by (auto simp: q_list_length Push_def)
  show "Pop q = Some (NULL, q)" if "q_list q = []"
    using that q_list_length [of q] by (simp add: Pop_def unat_eq_0)
  show "\<exists>q'. Pop q = Some (x, q') \<and> queue_ok q' \<and> unat (capacity q') = unat (capacity q) \<and> q_list q' = xs"
    if "q_list q = x # xs" for x xs
  proof -
    have "q_size q \<noteq> 0" using that q_list_length [of q] by auto
    then show ?thesis using pop_locked_list [OF ok] that by (auto simp: Pop_def)
  qed
  show "\<exists>q'. Extract p q = Some (if p \<in> set (q_list q) then p else NULL, q') \<and> queue_ok q' \<and>
      unat (capacity q') = unat (capacity q) \<and> q_list q' = filter (\<lambda>x. x \<noteq> p) (q_list q)"
    using Extract_list [OF ok, of p] by auto
qed

section \<open>Properties\<close>

lemma new_queue_ok:
  assumes "RopQueue_new mem n = Some (Some q)" "unat n < 2 ^ 30 - 4"
  shows "queue_ok q \<and> q_list q = [] \<and> capacity q = n"
proof -
  have "unat (n * 4) = unat n * 4" using unat_mult_lem [of n 4] assms(2) by simp
  then have "unat (QUEUE_BYTE_ALLOCATION n) = 16 + unat n * 4"
    using unat_add_lem [of 16 "n * 4"] assms(2) by (simp add: QUEUE_BYTE_ALLOCATION_def SIZEOF_QUEUE_def)
  then have "q = \<lparr>base = 0, q_size = 0, capacity = n, max_size = 0, q_data = replicate (unat n) NULL\<rparr>"
    using assms(1) by (auto simp: RopQueue_new_def SIZEOF_QUEUE_def Let_def split: if_splits)
  then show ?thesis using assms(2) by (auto simp: queue_ok_def q_list_def ring_def)
qed

text \<open>C26: run by one thread, a new queue behaves for every sequence of pushes, pops, extractions and counts as the list
  of its items does, first in, first out and bounded by the capacity: the same results, no access outside the
  array, and the items in the ring are the list at the end.\<close>

theorem queue_refines_list:
  assumes "RopQueue_new mem n = Some (Some q)" "unat n < 2 ^ 30 - 4"
  shows "\<exists>q'. run_ops queue_op ps q = Some (fst (spec_run (unat n) ps []), q') \<and> q_list q' = snd (spec_run (unat n) ps [])"
proof -
  have step: "queue_op = (\<lambda>p q. case p of QPush x \<Rightarrow> Push x q | QPop \<Rightarrow> Pop q | QExtract x \<Rightarrow> Extract x q
      | QCount \<Rightarrow> Some (unat (Count q), q))"
    by (intro ext) (simp split: q_op.splits)
  show ?thesis using ring_queue.run_spec [OF step, of q ps] new_queue_ok [OF assms] by auto
qed

theorem queue_refines_list_witness:
  "\<exists>q q'. RopQueue_new True 2 = Some (Some q) \<and>
     run_ops queue_op [QPush 7, QPush 8, QPush 9, QPop, QPush 7, QExtract 7, QCount, QPop] q = Some ([7, 8, 0, 7, 7, 7, 1, 8], q')"
proof -
  obtain q where q: "RopQueue_new True 2 = Some (Some q)"
    by (simp add: RopQueue_new_def QUEUE_BYTE_ALLOCATION_def SIZEOF_QUEUE_def Let_def)
  then show ?thesis
    using queue_refines_list [OF q, of "[QPush 7, QPush 8, QPush 9, QPop, QPush 7, QExtract 7, QCount, QPop]"] by auto
qed

text \<open>C27: \<open>Pop\<close> reads its item after it has left the critical section. When another thread pushes onto a full queue at
  that moment, \<open>Pop\<close> returns the new item, which stays in the queue and is returned a second time, and the
  item at the head is lost.\<close>

theorem pop_push_race:
  assumes "queue_ok q" "q_size q = capacity q" "capacity q \<noteq> 0" "pop_locked q = (oldbase, q1)"
  shows "\<exists>q2. Push p q1 = Some (p, q2) \<and> slot q2 oldbase = Some p \<and> q_list q2 = tl (q_list q) @ [p]"
proof -
  obtain x where q1: "oldbase = base q" "slot q1 (base q) = Some x" "queue_ok q1" "q_list q = x # q_list q1"
      "capacity q1 = capacity q" "q_data q1 = q_data q" "q_size q1 = q_size q - 1"
    using pop_locked_list [OF assms(1)] assms(2-4) by auto
  have ne: "q_size q1 \<noteq> capacity q1" using q1 assms(2) by simp
  obtain q2 where q2: "push_locked p q1 = Some q2" "q_list q2 = q_list q1 @ [p]"
      "q_data q2 = (q_data q1)[place q1 (unat (q_size q1)) := p]"
    using push_locked_list [OF q1(3) ne, of p] by blast
  let ?n = "length (q_data q)"
  have n: "unat (q_size q) = ?n" "0 < ?n" "unat (base q) < ?n"
    using assms(1-3) unat_gt_0 [of "capacity q"] by (auto simp: queue_ok_def)
  have "base q1 = QUEUE_ADD_INDEX q (base q) 1" using assms(4) by (auto simp: pop_locked_def)
  then have "unat (base q1) = place q 1" using add_place [of q "base q" 0] assms(1) n by (simp add: queue_ok_def)
  moreover have "unat (q_size q1) = ?n - 1" using q1(7) n assms(2,3) by (simp add: unat_minus_one)
  ultimately have "place q1 (unat (q_size q1)) = (place q 1 + (?n - 1)) mod ?n" using q1(6) by simp
  also have "\<dots> = (unat (base q) + 1 + (?n - 1)) mod ?n" by (rule mod_add_left_eq)
  also have "\<dots> = (unat (base q) + ?n) mod ?n" using n(2) by (intro arg_cong [of _ _ "\<lambda>i. i mod ?n"]) linarith
  also have "\<dots> = unat (base q)" using n(3) by simp
  finally have "place q1 (unat (q_size q1)) = unat (base q)" .
  then have "slot q2 oldbase = Some p" using q1 q2(3) n by (simp add: slot_def)
  then show ?thesis using ne q1 q2 by (simp add: Push_def)
qed

theorem pop_push_race_witness:
  "\<exists>q1 q2. pop_locked \<lparr>base = 1, q_size = 2, capacity = 2, max_size = 2, q_data = [6, 5]\<rparr> = (1, q1) \<and>
     Push 9 q1 = Some (9, q2) \<and> slot q2 1 = Some 9 \<and> q_list q2 = [6, 9]"
proof -
  let ?q = "\<lparr>base = 1, q_size = 2, capacity = 2, max_size = 2, q_data = [6, 5]\<rparr> :: queue"
  obtain q1 where q1: "pop_locked ?q = (1, q1)" by (simp add: pop_locked_def)
  have "q_list ?q = [5, 6]" by (simp add: q_list_def ring_def upt_rec)
  then show ?thesis using pop_push_race [OF _ _ _ q1, of 9] q1 by (auto simp: queue_ok_def)
qed

text \<open>Two threads that have both seen the last item: the size wraps, and the queue counts more items than it has places.\<close>

lemma pop_pop_race:
  assumes "q_size q = 1"
  shows "Count (snd (pop_locked (snd (pop_locked q)))) = - 1"
  using assms by (simp add: pop_locked_def Count_def)

text \<open>The size in bytes wraps for 2^30 places: the queue has none, and the first \<open>Push\<close> leaves the array.\<close>

lemma new_queue_wraps:
  "\<exists>q. RopQueue_new True (2 ^ 30) = Some (Some q) \<and> q_data q = [] \<and> Push p q = None"
  by (simp add: RopQueue_new_def QUEUE_BYTE_ALLOCATION_def SIZEOF_QUEUE_def Let_def Push_def push_locked_def set_slot_def)

end
