(* ===== verification/RopSession.thy ===== *)
theory RopSession imports LibSocket begin

text \<open>
  \<open>Client/RopCltLib/RopAsyncSession.cpp\<close> and the message format of \<open>RopModule.h\<close>: a buffer in which the pieces
  an asynchronous socket delivers are put together to messages. Writing past the buffer is \<open>None\<close>. The main
  result is that a reader gets the messages of the sender however the stream is cut.
\<close>

section \<open>Messages between modules\<close>

definition MAGIC_TAG :: "32 word" where "MAGIC_TAG = 0x09182736"
definition SIZEOF_ModMsg :: nat where "SIZEOF_ModMsg = 16"

record mod_msg =
  mm_tag :: "32 word"
  sModule :: "32 word"
  dModule :: "32 word"
  mm_len :: "32 word"
  mm_payload :: "byte list"

definition mod_frame :: "mod_msg \<Rightarrow> byte list" where
  "mod_frame m = le32 (mm_tag m) @ le32 (sModule m) @ le32 (dModule m) @ le32 (mm_len m) @ mm_payload m"

text \<open>The message a pointer into a buffer shows; its payload is what the buffer holds of it.\<close>

definition field_at :: "nat \<Rightarrow> byte list \<Rightarrow> 32 word" where
  "field_at i b = word_of_bytes (take 4 (drop i b))"

definition mod_msg_at :: "byte list \<Rightarrow> mod_msg" where
  "mod_msg_at b = \<lparr>mm_tag = field_at 0 b, sModule = field_at 4 b, dModule = field_at 8 b, mm_len = field_at 12 b,
     mm_payload = take (unat (field_at 12 b)) (drop 16 b)\<rparr>"

section \<open>The session\<close>

text \<open>Positions and lengths are unsigned 32-bit numbers; they stay within the buffer.\<close>

record session =
  m_pData :: "byte list"
  m_BufLen :: nat
  m_TailPos :: nat
  m_HeadPos :: nat

definition MAX_BUFLEN :: nat where "MAX_BUFLEN = 1024 * 1024"

text \<open>The contents of a new buffer are not initialised.\<close>

definition RopSession_new :: "byte list \<Rightarrow> session" where
  "RopSession_new garbage = \<lparr>m_pData = garbage, m_BufLen = length garbage, m_TailPos = 0, m_HeadPos = 0\<rparr>"

definition Reset :: "session \<Rightarrow> session" where
  "Reset s = s\<lparr>m_TailPos := 0, m_HeadPos := 0\<rparr>"

definition GetDataCount :: "session \<Rightarrow> nat" where
  "GetDataCount s = m_TailPos s - m_HeadPos s"

definition InputData :: "byte list \<Rightarrow> session \<Rightarrow> (nat \<times> session) option" where
  "InputData buf s =
     (let used = m_TailPos s - m_HeadPos s; available = m_BufLen s - used
      in if available < length buf then Some (0, s)
      else do {
        d \<leftarrow> put_bytes (m_TailPos s) buf (m_pData s);
        Some (length buf, s\<lparr>m_pData := d, m_TailPos := m_TailPos s + length buf\<rparr>) })"

text \<open>The result: is there a message, and the session. The size of the message is computed in 32 bits.\<close>

definition msg_size :: "mod_msg \<Rightarrow> nat" where
  "msg_size m = unat (mm_len m + of_nat SIZEOF_ModMsg)"

definition PeekMsg :: "session \<Rightarrow> mod_msg option \<times> session" where
  "PeekMsg s =
     (let used = m_TailPos s - m_HeadPos s
      in if used < SIZEOF_ModMsg then (None, s)
      else
        let m = mod_msg_at (drop (m_HeadPos s) (m_pData s))
        in if used < msg_size m then (None, s)
        else if mm_tag m \<noteq> MAGIC_TAG then (None, Reset s)
        else (Some m, s))"

definition DiscardData :: "nat \<Rightarrow> session \<Rightarrow> (nat \<times> session) option" where
  "DiscardData n s =
     (let used = m_TailPos s - m_HeadPos s
      in if used < n then Some (0, s)
      else
        let s = s\<lparr>m_TailPos := m_TailPos s - n\<rparr>;
            used = m_TailPos s - m_HeadPos s;
            h = m_HeadPos s
        in if 0 < used
        then do {
          d \<leftarrow> (if h + n + used \<le> length (m_pData s) then put_bytes h (take used (drop (h + n) (m_pData s))) (m_pData s) else None);
          Some (n, s\<lparr>m_pData := d\<rparr>) }
        else Some (n, s))"

section \<open>The buffer as a list of bytes\<close>

definition session_ok :: "session \<Rightarrow> bool" where
  "session_ok s \<longleftrightarrow> m_HeadPos s = 0 \<and> m_TailPos s \<le> m_BufLen s \<and> length (m_pData s) = m_BufLen s"

definition contents :: "session \<Rightarrow> byte list" where
  "contents s = take (m_TailPos s) (m_pData s)"

lemma contents_length: "session_ok s \<Longrightarrow> length (contents s) = m_TailPos s"
  by (simp add: session_ok_def contents_def)

lemma new_session: "session_ok (RopSession_new b) \<and> contents (RopSession_new b) = []"
  by (simp add: RopSession_new_def session_ok_def contents_def)

lemma InputData_ok:
  assumes "session_ok s" "length (contents s) + length buf \<le> m_BufLen s"
  shows "\<exists>s'. InputData buf s = Some (length buf, s') \<and> session_ok s' \<and> contents s' = contents s @ buf \<and> m_BufLen s' = m_BufLen s"
proof -
  have t: "m_TailPos s + length buf \<le> length (m_pData s)" "m_HeadPos s = 0"
    using assms contents_length [OF assms(1)] by (simp_all add: session_ok_def)
  then have "put_bytes (m_TailPos s) buf (m_pData s) =
      Some (take (m_TailPos s) (m_pData s) @ buf @ drop (m_TailPos s + length buf) (m_pData s))"
    by (simp add: put_bytes_def)
  moreover have "\<not> m_BufLen s - m_TailPos s < length buf"
    using assms contents_length [OF assms(1)] by linarith
  ultimately show ?thesis using assms t by (simp add: InputData_def session_ok_def contents_def Let_def)
qed

lemma InputData_full:
  "session_ok s \<Longrightarrow> m_BufLen s < length (contents s) + length buf \<Longrightarrow> InputData buf s = Some (0, s)"
  using contents_length [of s] by (auto simp: InputData_def session_ok_def Let_def)

lemma DiscardData_ok:
  assumes "session_ok s" "n \<le> length (contents s)"
  shows "\<exists>s'. DiscardData n s = Some (n, s') \<and> session_ok s' \<and> contents s' = drop n (contents s) \<and> m_BufLen s' = m_BufLen s"
proof (cases "n < m_TailPos s")
  case True
  let ?k = "m_TailPos s - n"
  have c: "m_HeadPos s = 0" "n + ?k \<le> length (m_pData s)" using assms(1) True by (simp_all add: session_ok_def)
  then have "put_bytes 0 (take ?k (drop n (m_pData s))) (m_pData s) =
      Some (take ?k (drop n (m_pData s)) @ drop ?k (m_pData s))"
    by (simp add: put_bytes_def)
  moreover have "min (m_BufLen s - n) ?k = ?k" using c(2) assms(1) by (simp add: session_ok_def)
  ultimately show ?thesis using assms c True
    by (simp add: DiscardData_def session_ok_def contents_def drop_take Let_def)
next
  case False
  then show ?thesis using assms contents_length [OF assms(1)]
    by (simp add: DiscardData_def session_ok_def contents_def Let_def)
qed

text \<open>A message whose length field is right, and of a length whose size fits into 32 bits.\<close>

definition msg_ok :: "mod_msg \<Rightarrow> bool" where
  "msg_ok m \<longleftrightarrow> mm_tag m = MAGIC_TAG \<and> unat (mm_len m) = length (mm_payload m) \<and> 16 + length (mm_payload m) < 2 ^ 32"

lemma frame_length: "length (mod_frame m) = 16 + length (mm_payload m)"
  by (simp add: mod_frame_def)

lemma msg_size_ok: "msg_ok m \<Longrightarrow> msg_size m = length (mod_frame m)"
  using unat_add_lem [of "mm_len m" 16] by (simp add: msg_ok_def msg_size_def SIZEOF_ModMsg_def frame_length)

text \<open>The head can be read as soon as its 16 bytes are there.\<close>

lemma mod_msg_at_head:
  assumes "16 \<le> length b" "\<exists>r. b @ r = mod_frame m @ rest"
  shows "mm_tag (mod_msg_at b) = mm_tag m" "mm_len (mod_msg_at b) = mm_len m"
proof -
  obtain r where r: "b @ r = mod_frame m @ rest" using assms(2) by blast
  have f: "field_at i b = field_at i (mod_frame m @ rest)" if "i + 4 \<le> 16" for i
    unfolding field_at_def r [symmetric] using assms(1) that by simp
  show "mm_tag (mod_msg_at b) = mm_tag m" "mm_len (mod_msg_at b) = mm_len m"
    using f [of 0] f [of 12] by (simp_all add: mod_msg_at_def field_at_def mod_frame_def)
qed

lemma mod_msg_at_frame: "msg_ok m \<Longrightarrow> mod_msg_at (mod_frame m @ rest) = m"
  by (cases m) (simp add: mod_msg_at_def field_at_def mod_frame_def msg_ok_def)

lemma PeekMsg_none:
  assumes "session_ok s" "contents s @ r = mod_frame m @ rest" "length (contents s) < length (mod_frame m)" "msg_ok m"
  shows "PeekMsg s = (None, s)"
proof (cases "length (contents s) < 16")
  case True
  then show ?thesis using assms(1) contents_length [OF assms(1)] by (simp add: PeekMsg_def session_ok_def SIZEOF_ModMsg_def)
next
  case False
  then have t: "16 \<le> m_TailPos s" using contents_length [OF assms(1)] by simp
  have "mm_len (mod_msg_at (m_pData s)) = mm_len (mod_msg_at (contents s))"
    using t by (simp add: mod_msg_at_def field_at_def contents_def drop_take)
  also have "\<dots> = mm_len m" using mod_msg_at_head(2) [of "contents s" m rest] False assms(2) by auto
  finally have "msg_size (mod_msg_at (m_pData s)) = length (mod_frame m)"
    using msg_size_ok [OF assms(4)] by (simp add: msg_size_def)
  then show ?thesis using assms contents_length [OF assms(1)] by (simp add: PeekMsg_def session_ok_def Let_def)
qed

lemma PeekMsg_some:
  assumes "session_ok s" "contents s = mod_frame m @ rest" "msg_ok m"
  shows "PeekMsg s = (Some m, s)"
proof -
  have "m_pData s = contents s @ drop (m_TailPos s) (m_pData s)" by (simp add: contents_def)
  then have "m_pData s = mod_frame m @ (rest @ drop (m_TailPos s) (m_pData s))" using assms(2) by simp
  then have at: "mod_msg_at (m_pData s) = m" using mod_msg_at_frame [OF assms(3)] by metis
  have "length (mod_frame m) \<le> m_TailPos s" "16 \<le> m_TailPos s"
    using contents_length [OF assms(1)] assms(2) frame_length [of m] by simp_all
  then show ?thesis using assms(1,3) at msg_size_ok [OF assms(3)]
    by (simp add: PeekMsg_def session_ok_def SIZEOF_ModMsg_def msg_ok_def)
qed

section \<open>Reading messages from a cut stream\<close>

text \<open>
  A reader that takes every message it can see, and one that does so after each piece it is given; pieces
  that do not fit are lost, which the condition of the property excludes.
\<close>

fun drain :: "nat \<Rightarrow> session \<Rightarrow> (mod_msg list \<times> session) option" where
  "drain 0 s = Some ([], s)"
| "drain (Suc k) s = (case PeekMsg s of
      (None, s) \<Rightarrow> Some ([], s)
    | (Some m, s) \<Rightarrow> do { (_, s) \<leftarrow> DiscardData (msg_size m) s; (ms, s) \<leftarrow> drain k s; Some (m # ms, s) })"

fun read_pieces :: "byte list list \<Rightarrow> session \<Rightarrow> (mod_msg list \<times> session) option" where
  "read_pieces [] s = Some ([], s)"
| "read_pieces (c # cs) s = do {
     (_, s) \<leftarrow> InputData c s;
     (ms, s) \<leftarrow> drain (GetDataCount s) s;
     (ms', s) \<leftarrow> read_pieces cs s;
     Some (ms @ ms', s) }"

definition frames :: "mod_msg list \<Rightarrow> byte list" where
  "frames ms = concat (map mod_frame ms)"

text \<open>What is in the buffer when the reader has taken all it can: less than the next message.\<close>

definition waiting :: "mod_msg list \<Rightarrow> session \<Rightarrow> bool" where
  "waiting ms s \<longleftrightarrow> session_ok s \<and> (case ms of [] \<Rightarrow> contents s = [] | m # _ \<Rightarrow> length (contents s) < length (mod_frame m))"

lemma drain_ok:
  "session_ok s \<Longrightarrow> contents s @ r = frames ms \<Longrightarrow> \<forall>m \<in> set ms. msg_ok m \<Longrightarrow> length (contents s) \<le> k \<Longrightarrow>
   \<exists>ms1 ms2 s'. ms = ms1 @ ms2 \<and> drain k s = Some (ms1, s') \<and> waiting ms2 s' \<and> contents s' @ r = frames ms2 \<and>
     m_BufLen s' = m_BufLen s"
proof (induction ms arbitrary: s k)
  case Nil
  then have c: "contents s = []" "GetDataCount s = 0"
    using contents_length [of s] by (simp_all add: frames_def GetDataCount_def session_ok_def)
  then have "drain k s = Some ([], s)" by (cases k) (simp_all add: PeekMsg_def GetDataCount_def SIZEOF_ModMsg_def)
  then show ?case using Nil c by (simp add: waiting_def)
next
  case (Cons m ms)
  have f: "contents s @ r = mod_frame m @ frames ms" using Cons.prems(2) by (simp add: frames_def)
  show ?case
  proof (cases "length (contents s) < length (mod_frame m)")
    case True
    then have "PeekMsg s = (None, s)" using PeekMsg_none Cons.prems(1,3) f by simp
    then have "drain k s = Some ([], s)" by (cases k) simp_all
    then show ?thesis using Cons.prems True by (intro exI [of _ "[]"] exI [of _ "m # ms"] exI [of _ s]) (simp add: waiting_def)
  next
    case False
    define c where "c = drop (length (mod_frame m)) (contents s)"
    have tk: "take (length (mod_frame m)) (contents s) = mod_frame m" "c @ r = frames ms"
      using arg_cong [OF f, of "take (length (mod_frame m))"] arg_cong [OF f, of "drop (length (mod_frame m))"] False
      by (simp_all add: c_def)
    then have c: "contents s = mod_frame m @ c" by (metis append_take_drop_id c_def)
    have pk: "PeekMsg s = (Some m, s)" using PeekMsg_some [OF Cons.prems(1) c] Cons.prems(3) by simp
    obtain k' where k: "k = Suc k'" using Cons.prems(4) c frame_length [of m] by (cases k) simp_all
    obtain s1 where s1: "DiscardData (msg_size m) s = Some (msg_size m, s1)" "session_ok s1" "contents s1 = c" "m_BufLen s1 = m_BufLen s"
      using DiscardData_ok [OF Cons.prems(1), of "msg_size m"] msg_size_ok [of m] Cons.prems(3) c by auto
    have le: "length (contents s1) \<le> k'" using Cons.prems(4) s1(3) c k frame_length [of m] by simp
    obtain ms1 ms2 s' where "ms = ms1 @ ms2" "drain k' s1 = Some (ms1, s')" "waiting ms2 s'" "contents s' @ r = frames ms2"
        "m_BufLen s' = m_BufLen s1"
      using Cons.IH [OF s1(2) _ _ le] tk(2) s1(3) Cons.prems(3) by auto
    then show ?thesis using pk k s1 by (intro exI [of _ "m # ms1"] exI [of _ ms2] exI [of _ s']) simp
  qed
qed

lemma read_pieces_ok:
  "waiting ms s \<Longrightarrow> contents s @ concat cs = frames ms \<Longrightarrow> \<forall>m \<in> set ms. msg_ok m \<and> length (mod_frame m) \<le> f \<Longrightarrow>
   \<forall>c \<in> set cs. length c \<le> n \<Longrightarrow> f + n \<le> m_BufLen s \<Longrightarrow>
   \<exists>s'. read_pieces cs s = Some (ms, s') \<and> waiting [] s'"
proof (induction cs arbitrary: ms s)
  case Nil
  then have "ms = []" using frame_length by (cases ms) (auto simp: waiting_def frames_def)
  then show ?case using Nil by simp
next
  case (Cons c cs)
  have ok: "session_ok s" using Cons.prems(1) by (simp add: waiting_def)
  have "length (contents s) + length c \<le> m_BufLen s"
    using Cons.prems by (cases ms) (auto simp: waiting_def)
  then obtain s1 where s1: "InputData c s = Some (length c, s1)" "session_ok s1" "contents s1 = contents s @ c" "m_BufLen s1 = m_BufLen s"
    using InputData_ok [OF ok] by blast
  have k: "length (contents s1) \<le> GetDataCount s1"
    using contents_length [OF s1(2)] s1(2) by (simp add: GetDataCount_def session_ok_def)
  obtain ms1 ms2 s2 where s2: "ms = ms1 @ ms2" "drain (GetDataCount s1) s1 = Some (ms1, s2)" "waiting ms2 s2"
      "contents s2 @ concat cs = frames ms2" "m_BufLen s2 = m_BufLen s1"
    using drain_ok [OF s1(2) _ _ k, of "concat cs" ms] Cons.prems(2,3) s1(3) by auto
  obtain s' where "read_pieces cs s2 = Some (ms2, s')" "waiting [] s'"
    using Cons.IH [OF s2(3,4)] Cons.prems(3-5) s2(1,5) s1(4) by auto
  then show ?case using s1 s2 by auto
qed

text \<open>C28: messages of at most \<open>f\<close> bytes, sent one after the other and received in pieces of at most \<open>n\<close> bytes, are all
  read, in order and nothing else, however the stream is cut, when the buffer has room for \<open>f + n\<close> bytes;
  afterwards the buffer is empty.\<close>

theorem session_reassembles:
  assumes "\<forall>m \<in> set ms. msg_ok m \<and> length (mod_frame m) \<le> f" "\<forall>c \<in> set cs. length c \<le> n"
    "concat cs = frames ms" "f + n \<le> length buffer"
  shows "\<exists>s'. read_pieces cs (RopSession_new buffer) = Some (ms, s') \<and> GetDataCount s' = 0"
proof (cases ms)
  case Nil
  then have "waiting ms (RopSession_new buffer)" using new_session by (simp add: waiting_def)
  then obtain s' where s': "read_pieces cs (RopSession_new buffer) = Some (ms, s')" "waiting [] s'"
    using read_pieces_ok [of ms "RopSession_new buffer" cs f n] assms new_session [of buffer] by (auto simp: RopSession_new_def)
  then have "m_TailPos s' = 0" using contents_length [of s'] by (auto simp: waiting_def)
  then show ?thesis using s' by (auto simp: GetDataCount_def)
next
  case (Cons m ms')
  then have "waiting ms (RopSession_new buffer)" using new_session [of buffer] frame_length [of m] by (simp add: waiting_def)
  then obtain s' where s': "read_pieces cs (RopSession_new buffer) = Some (ms, s')" "waiting [] s'"
    using read_pieces_ok [of ms "RopSession_new buffer" cs f n] assms new_session [of buffer] by (auto simp: RopSession_new_def)
  then have "m_TailPos s' = 0" using contents_length [of s'] by (auto simp: waiting_def)
  then show ?thesis using s' by (auto simp: GetDataCount_def)
qed

definition mod_demo :: mod_msg where
  "mod_demo = \<lparr>mm_tag = MAGIC_TAG, sModule = 2, dModule = 4, mm_len = 3, mm_payload = [7, 8, 9]\<rparr>"

theorem session_reassembles_witness:
  "\<exists>s'. read_pieces [take 5 (mod_frame mod_demo), drop 5 (mod_frame mod_demo) @ [0x36], tl (mod_frame mod_demo)]
      (RopSession_new (replicate 38 0)) = Some ([mod_demo, mod_demo], s') \<and> GetDataCount s' = 0"
proof -
  have ok: "msg_ok mod_demo" "length (mod_frame mod_demo) = 19" by (simp_all add: msg_ok_def mod_demo_def frame_length)
  have f: "mod_frame mod_demo = 0x36 # tl (mod_frame mod_demo)" by (simp add: mod_frame_def mod_demo_def MAGIC_TAG_def le32_def)
  let ?F = "mod_frame mod_demo"
  have "concat [take 5 ?F, drop 5 ?F @ [0x36], tl ?F] = (take 5 ?F @ drop 5 ?F) @ ([0x36] @ tl ?F)" by simp
  also have "\<dots> = frames [mod_demo, mod_demo]" unfolding append_take_drop_id using f by (simp add: frames_def)
  finally have "concat [take 5 ?F, drop 5 ?F @ [0x36], tl ?F] = frames [mod_demo, mod_demo]" .
  then show ?thesis
    by (rule session_reassembles [of "[mod_demo, mod_demo]" 19 _ 19 "replicate 38 0", rotated 2]) (simp_all add: ok)
qed

text \<open>A length field close to \<open>2 ^ 32\<close> makes the size wrap: 16 bytes are then shown as a complete message of 4 GB.\<close>

lemma peek_wraps:
  "fst (PeekMsg (RopSession_new (le32 MAGIC_TAG @ le32 2 @ le32 4 @ le32 0xFFFFFFF0) \<lparr>m_TailPos := 16\<rparr>)) \<noteq> None"
  by (simp add: PeekMsg_def RopSession_new_def SIZEOF_ModMsg_def mod_msg_at_def field_at_def msg_size_def Let_def)

end
