(* ===== verification/RopSyncMsg.thy ===== *)
theory RopSyncMsg imports RopSession begin

text \<open>
  \<open>Client/RopCltLib/RopSyncSocket.cpp\<close> and \<open>RopSyncMsg.cpp\<close>: the client's blocking socket and the messages it
  sends to and receives from the server and other modules. The answers of Winsock are part of the state. The
  properties compose the client with the server's side in LibSocket: a request the client has sent is received by
  \<open>lib_recv_msg\<close>, a reply of \<open>lib_send_msg\<close> by the client.
\<close>

section \<open>The socket\<close>

definition WSAETIMEDOUT :: int where "WSAETIMEDOUT = 10060"
definition WSAEINTR :: int where "WSAEINTR = 10004"
definition WSAECONNRESET :: int where "WSAECONNRESET = 10054"
definition SOCKET_ERROR :: int where "SOCKET_ERROR = - 1"
definition INFINITE :: "32 word" where "INFINITE = 0xFFFFFFFF"

text \<open>What \<open>recv\<close> finds: bytes (none: the peer has closed), or an error. The end of the list is the end of the stream.\<close>

datatype win_ev = Got "byte list" | Err int

text \<open>
  \<open>rs_in\<close>: what is to be received; \<open>rs_send\<close>: the coming answers of \<open>send\<close>, how many bytes it takes or \<open>- 1\<close>, and
  the error; \<open>rs_out\<close>: the bytes sent. The time-outs are those set on the socket, none by default.
\<close>

record sync_socket =
  m_Valid :: bool
  m_bIsOpened :: bool
  m_ShutdownIndicated :: bool
  m_Rx :: int
  m_Tx :: int
  rs_in :: "win_ev list"
  rs_send :: "answer list"
  rs_out :: "byte list"
  rcv_timeout :: "32 word option"
  snd_timeout :: "32 word option"

fun win_recv :: "nat \<Rightarrow> win_ev list \<Rightarrow> int \<times> int \<times> byte list \<times> win_ev list" where
  "win_recv n [] = (0, 0, [], [])"
| "win_recv n (Err e # es) = (SOCKET_ERROR, e, [], es)"
| "win_recv n (Got bs # es) =
     (if length bs \<le> n then (int (length bs), 0, bs, es) else (int n, 0, take n bs, Got (drop n bs) # es))"

text \<open>The two ways to receive: \<open>n\<close> bytes at most. Return value, bytes, socket.\<close>

definition ReceiveAndWait :: "nat \<Rightarrow> sync_socket \<Rightarrow> int \<times> byte list \<times> sync_socket" where
  "ReceiveAndWait n s =
     (if 0 < n \<and> m_Valid s
      then
        let (ret, err, bs, es) = win_recv n (rs_in s);
            s = s\<lparr>rs_in := es\<rparr>
        in if ret = 0 then (0, [], s)
        else if ret = SOCKET_ERROR
        then (if err \<in> {WSAETIMEDOUT, WSAEINTR, WSAECONNRESET} then - err else SOCKET_ERROR, [], s)
        else (ret, bs, s\<lparr>m_Rx := m_Rx s + ret\<rparr>)
      else (- 1, [], s))"

definition ReceiveAndWaitEx :: "nat \<Rightarrow> 32 word \<Rightarrow> sync_socket \<Rightarrow> int \<times> byte list \<times> sync_socket" where
  "ReceiveAndWaitEx n dwTimeOut s =
     (if 0 < n \<and> m_Valid s
      then
        let s = (if dwTimeOut \<noteq> INFINITE then s\<lparr>rcv_timeout := Some dwTimeOut\<rparr> else s);
            (ret, err, bs, es) = win_recv n (rs_in s);
            s = s\<lparr>rs_in := es\<rparr>
        in if ret = 0 then (0, [], s)
        else if ret = SOCKET_ERROR
        then (if err = WSAETIMEDOUT then - WSAETIMEDOUT else SOCKET_ERROR, [], s)
        else (ret, bs, s\<lparr>m_Rx := m_Rx s + ret\<rparr>)
      else (- 1, [], s))"

definition CheckAndDoShutdown :: "sync_socket \<Rightarrow> bool \<times> sync_socket" where
  "CheckAndDoShutdown s =
     (if m_ShutdownIndicated s \<and> m_Valid s then (True, s\<lparr>m_Valid := False, m_bIsOpened := False\<rparr>) else (False, s))"

definition ShutdownSilent :: "sync_socket \<Rightarrow> bool \<times> sync_socket" where
  "ShutdownSilent s = (True, if m_Valid s then s\<lparr>m_Valid := False, m_bIsOpened := False\<rparr> else s)"

text \<open>
  \<open>Open\<close>: an open socket is an exception (\<open>None\<close>). The parameters are the answers of the system: is there a socket,
  can the name be resolved, does the connection succeed. The socket stays open when the name cannot be resolved.
\<close>

definition Sync_Open :: "bool \<Rightarrow> bool \<Rightarrow> bool \<Rightarrow> sync_socket \<Rightarrow> (int \<times> sync_socket) option" where
  "Sync_Open have_socket resolved connected s =
     (if m_Valid s then None
      else if \<not> have_socket then Some (- 1, s)
      else
        let s = s\<lparr>m_Valid := True\<rparr>
        in if \<not> resolved then Some (- 1, s)
        else if connected then Some (0, s\<lparr>m_bIsOpened := True\<rparr>)
        else Some (- 1, s\<lparr>m_Valid := False\<rparr>))"

definition win_send :: "byte list \<Rightarrow> sync_socket \<Rightarrow> int \<times> int \<times> sync_socket" where
  "win_send bs s =
     (case rs_send s of
        [] \<Rightarrow> (0, 0, s)
      | (ret, err) # as \<Rightarrow>
          (if ret < 0 then (SOCKET_ERROR, err, s\<lparr>rs_send := as\<rparr>)
           else
             let n = min (nat ret) (length bs)
             in (int n, 0, s\<lparr>rs_send := as, rs_out := rs_out s @ take n bs\<rparr>)))"

text \<open>\<open>Send\<close> reports success whatever part of the bytes was taken.\<close>

definition Sync_Send :: "byte list \<Rightarrow> sync_socket \<Rightarrow> int \<times> sync_socket" where
  "Sync_Send bs s =
     (if bs \<noteq> [] \<and> m_Valid s
      then
        let (written, err, s) = win_send bs s;
            s = (if 0 < written then s\<lparr>m_Tx := m_Tx s + written\<rparr> else s)
        in (if written = SOCKET_ERROR then - 1 else 0, s)
      else (0, s))"

text \<open>The time-out is set when there is none.\<close>

definition SendEx :: "byte list \<Rightarrow> 32 word \<Rightarrow> sync_socket \<Rightarrow> int \<times> sync_socket" where
  "SendEx bs dwTimeOut s =
     (if bs \<noteq> [] \<and> m_Valid s
      then
        let s = (if dwTimeOut = INFINITE then s\<lparr>snd_timeout := Some dwTimeOut\<rparr> else s);
            (ret, err, s) = win_send bs s
        in if ret = SOCKET_ERROR
        then (if err = WSAETIMEDOUT then - WSAETIMEDOUT else SOCKET_ERROR, s)
        else (ret, s)
      else (- 1, s))"

section \<open>Messages\<close>

text \<open>The loops over \<open>iCur < iTotal\<close>, \<open>n\<close> bytes to go: the return value if the loop leaves the function, else \<open>None\<close>.\<close>

function recv_all :: "nat \<Rightarrow> 32 word \<Rightarrow> byte list \<Rightarrow> sync_socket \<Rightarrow> int option \<times> byte list \<times> sync_socket" where
  "recv_all n t got s =
     (if n = 0 then (None, got, s)
      else
        let (ret, bs, s) = ReceiveAndWaitEx n t s
        in if ret \<le> 0 then (Some ret, got, s) else recv_all (n - nat ret) t (got @ bs) s)"
  by auto
termination by (relation "measure (\<lambda>(n, t, got, s). n)") auto

declare recv_all.simps [simp del]

function send_all :: "byte list \<Rightarrow> 32 word \<Rightarrow> sync_socket \<Rightarrow> int option \<times> sync_socket" where
  "send_all bs t s =
     (if bs = [] then (None, s)
      else
        let (ret, s) = SendEx bs t s
        in if ret \<le> 0 then (Some ret, s) else send_all (drop (nat ret) bs) t s)"
  by auto
termination by (relation "measure (\<lambda>(bs, t, s). length bs)") auto

declare send_all.simps [simp del]

text \<open>
  The two forms of a message, with a head of \<open>h\<close> bytes: a test of the head, its length field at \<open>l\<close>. The room for
  the payload is computed in \<open>size_t\<close>, so that an array smaller than the head has 4 GB.
\<close>

definition recv_framed ::
  "nat \<Rightarrow> nat \<Rightarrow> (byte list \<Rightarrow> bool) \<Rightarrow> byte list \<Rightarrow> int \<Rightarrow> 32 word \<Rightarrow> sync_socket \<Rightarrow> (int \<times> byte list \<times> sync_socket) option"
where
  "recv_framed h l sane buf sz t s = do {
     let (out, bs, s) = recv_all h t [] s;
     buf \<leftarrow> put_bytes 0 bs buf;
     case out of
       Some r \<Rightarrow> Some (r, buf, s)
     | None \<Rightarrow>
         if \<not> sane buf then Some (- 1, buf, s)
         else
           let n = field_at l buf
           in if (sz - int h) mod 2 ^ 32 < uint n then Some (- 1, buf, s)
           else do {
             let (out, bs, s) = recv_all (unat n) t [] s;
             buf \<leftarrow> put_bytes h bs buf;
             Some (case out of Some r \<Rightarrow> r | None \<Rightarrow> int h + uint n, buf, s) } }"

text \<open>
  The payload's length goes through the \<open>int\<close> \<open>iTotal\<close>: from 2 GB on nothing of the payload is sent, and the sum that
  is returned wraps.
\<close>

definition send_framed :: "nat \<Rightarrow> nat \<Rightarrow> byte list \<Rightarrow> 32 word \<Rightarrow> sync_socket \<Rightarrow> (int \<times> sync_socket) option" where
  "send_framed h l buf t s =
     (if length buf < h then None
      else
        let (out, s) = send_all (take h buf) t s
        in case out of
          Some r \<Rightarrow> Some (r, s)
        | None \<Rightarrow>
            let n = field_at l buf; iTotal = nat (sint n)
            in if length buf < h + iTotal then None
            else
              let (out, s) = send_all (take iTotal (drop h buf)) t s
              in Some (case out of Some r \<Rightarrow> r | None \<Rightarrow> sint (of_nat h + n), s))"

definition MSG_HEAD_SANITY :: "byte list \<Rightarrow> bool" where
  "MSG_HEAD_SANITY b \<longleftrightarrow> uint (field_at 4 b) < LibSocket.MAX_MSG_LEN \<and> field_at 0 b \<noteq> 0"

definition MOD_HEAD_SANITY :: "byte list \<Rightarrow> bool" where
  "MOD_HEAD_SANITY b \<longleftrightarrow> uint (field_at 12 b) < LibSocket.MAX_MSG_LEN \<and> field_at 0 b = MAGIC_TAG"

text \<open>Without a socket every call answers \<open>- 1\<close>.\<close>

definition RecvAndWaitMsg_mod ::
  "byte list \<Rightarrow> int \<Rightarrow> 32 word \<Rightarrow> sync_socket option \<Rightarrow> (int \<times> byte list \<times> sync_socket option) option"
where
  "RecvAndWaitMsg_mod buf sz t sock =
     (case sock of
        None \<Rightarrow> Some (- 1, buf, None)
      | Some s \<Rightarrow> do { (r, buf, s) \<leftarrow> recv_framed SIZEOF_ModMsg 12 MOD_HEAD_SANITY buf sz t s; Some (r, buf, Some s) })"

definition RecvAndWaitMsg_head ::
  "byte list \<Rightarrow> int \<Rightarrow> 32 word \<Rightarrow> sync_socket option \<Rightarrow> (int \<times> byte list \<times> sync_socket option) option"
where
  "RecvAndWaitMsg_head buf sz t sock =
     (case sock of
        None \<Rightarrow> Some (- 1, buf, None)
      | Some s \<Rightarrow> do { (r, buf, s) \<leftarrow> recv_framed MSG_HEAD_LEN 4 MSG_HEAD_SANITY buf sz t s; Some (r, buf, Some s) })"

definition SendMsg_mod :: "byte list \<Rightarrow> 32 word \<Rightarrow> sync_socket option \<Rightarrow> (int \<times> sync_socket option) option" where
  "SendMsg_mod buf t sock =
     (case sock of
        None \<Rightarrow> Some (- 1, None)
      | Some s \<Rightarrow> do { (r, s) \<leftarrow> send_framed SIZEOF_ModMsg 12 buf t s; Some (r, Some s) })"

definition SendMsg_head :: "byte list \<Rightarrow> 32 word \<Rightarrow> sync_socket option \<Rightarrow> (int \<times> sync_socket option) option" where
  "SendMsg_head buf t sock =
     (case sock of
        None \<Rightarrow> Some (- 1, None)
      | Some s \<Rightarrow> do { (r, s) \<leftarrow> send_framed MSG_HEAD_LEN 4 buf t s; Some (r, Some s) })"

section \<open>Streams\<close>

fun win_stream :: "win_ev list \<Rightarrow> byte list" where
  "win_stream (Got bs # es) = bs @ win_stream es"
| "win_stream _ = []"

fun win_steady :: "win_ev list \<Rightarrow> bool" where
  "win_steady [] = True"
| "win_steady (Got bs # es) = (bs \<noteq> [] \<and> win_steady es)"
| "win_steady (Err e # es) = False"

lemma win_recv_steady:
  "win_steady es \<Longrightarrow> 0 < n \<Longrightarrow> win_stream es \<noteq> [] \<Longrightarrow>
   \<exists>k es'. win_recv n es = (int k, 0, take k (win_stream es), es') \<and> 0 < k \<and> k \<le> n \<and> k \<le> length (win_stream es) \<and>
     win_steady es' \<and> win_stream es' = drop k (win_stream es)"
  by (cases es rule: win_stream.cases) auto

lemma recv_all_steady:
  "m_Valid s \<Longrightarrow> win_steady (rs_in s) \<Longrightarrow> n \<le> length (win_stream (rs_in s)) \<Longrightarrow>
   \<exists>s'. recv_all n t got s = (None, got @ take n (win_stream (rs_in s)), s') \<and> m_Valid s' \<and> win_steady (rs_in s') \<and>
     win_stream (rs_in s') = drop n (win_stream (rs_in s))"
proof (induction n t got s rule: recv_all.induct)
  case (1 n t got s)
  show ?case
  proof (cases "n = 0")
    case True
    then show ?thesis using "1.prems" by (subst recv_all.simps) simp
  next
    case False
    let ?S = "win_stream (rs_in s)"
    obtain k es' where k: "win_recv n (rs_in s) = (int k, 0, take k ?S, es')" "0 < k" "k \<le> n" "k \<le> length ?S"
        "win_steady es'" "win_stream es' = drop k ?S"
    proof -
      have "win_stream (rs_in s) \<noteq> []" using "1.prems"(3) False by (metis le_zero_eq list.size(3))
      then show ?thesis using that win_recv_steady [of "rs_in s" n] "1.prems"(2) False by auto
    qed
    obtain s1 where s1: "ReceiveAndWaitEx n t s = (int k, take k ?S, s1)" "m_Valid s1" "rs_in s1 = es'"
      using k(1,2) False "1.prems"(1)
      by (cases "t = INFINITE") (simp_all add: ReceiveAndWaitEx_def SOCKET_ERROR_def Let_def)
    obtain s' where s': "recv_all (n - k) t (got @ take k ?S) s1 =
        (None, (got @ take k ?S) @ take (n - k) (drop k ?S), s')" "m_Valid s'" "win_steady (rs_in s')"
        "win_stream (rs_in s') = drop (n - k) (drop k ?S)"
    proof -
      have "n - k \<le> length ?S - k" using "1.prems"(3) by simp
      then show ?thesis using that "1.IH" [OF False s1(1) [symmetric] refl] s1 k by auto
    qed
    have "take k ?S @ take (n - k) (drop k ?S) = take n ?S"
      using k(3) by (simp add: take_add [symmetric])
    then show ?thesis using s' s1 k False by (subst recv_all.simps) simp
  qed
qed

lemma send_all_out: "send_all bs t s = (None, s') \<Longrightarrow> rs_out s' = rs_out s @ bs"
proof (induction bs t s rule: send_all.induct)
  case (1 bs t s)
  show ?case
  proof (cases "bs = []")
    case True
    then show ?thesis using "1.prems" by (simp add: send_all.simps)
  next
    case False
    obtain r s1 where r: "SendEx bs t s = (r, s1)" by fastforce
    then have pos: "0 < r" and rest: "send_all (drop (nat r) bs) t s1 = (None, s')"
      using "1.prems" False by (auto simp: send_all.simps [of bs] split: if_splits)
    have "rs_out s1 = rs_out s @ take (nat r) bs"
      using r pos by (auto simp: SendEx_def win_send_def SOCKET_ERROR_def WSAETIMEDOUT_def Let_def split: if_splits list.splits prod.splits)
    then show ?thesis using "1.IH" [OF False r [symmetric]] pos rest by simp
  qed
qed

lemma send_all_early: "send_all bs t s = (Some r, s') \<Longrightarrow> r \<le> 0"
  by (induction bs t s rule: send_all.induct)
    (subst (asm) send_all.simps, auto split: if_splits prod.splits)

text \<open>Below 2 GB the \<open>int\<close> is the length.\<close>

lemma sint_small:
  fixes w :: "32 word"
  assumes "uint w < 2 ^ 31"
  shows "sint w = uint w"
proof -
  have "- (2 ^ 31) \<le> uint w" by (rule order_trans [of _ 0]) simp_all
  then show ?thesis using assms by (simp add: sint_uint signed_take_bit_int_eq_self)
qed

lemma sint_head_sum:
  assumes "int h + uint w < 2 ^ 31"
  shows "sint (of_nat h + w :: 32 word) = int h + uint w"
proof -
  have "int (h + unat w) < 2 ^ 31" using assms by (simp only: uint_nat of_nat_add)
  then have "h + unat w < 2 ^ 32" unfolding nat_int_comparison(2) by (rule order_less_trans) simp
  then have "unat (of_nat h + w) = h + unat w"
    by (simp add: unat_word_ariths unat_of_nat take_bit_nat_eq_self)
  then have "uint (of_nat h + w) = int h + uint w" by (simp only: uint_nat of_nat_add)
  then show ?thesis using sint_small [of "of_nat h + w"] assms by simp
qed

lemma send_framed_ok:
  assumes "send_framed h l buf t s = Some (r, s')" "0 < r" "int h + uint (field_at l buf) < 2 ^ 31"
  shows "r = int h + uint (field_at l buf)" "h + unat (field_at l buf) \<le> length buf"
    "rs_out s' = rs_out s @ take (h + unat (field_at l buf)) buf"
proof -
  let ?n = "unat (field_at l buf)"
  have i: "nat (sint (field_at l buf)) = ?n" "sint (of_nat h + field_at l buf) = int h + uint (field_at l buf)"
    using sint_small [of "field_at l buf"] sint_head_sum [OF assms(3)] assms(3) by simp_all
  obtain s1 where s1: "send_all (take h buf) t s = (None, s1)" "h \<le> length buf"
    using assms(1,2) by (auto simp: send_framed_def dest: send_all_early split: if_splits prod.splits option.splits)
  then obtain out where out: "send_all (take ?n (drop h buf)) t s1 = (out, s')" "h + ?n \<le> length buf"
      "r = (case out of Some r \<Rightarrow> r | None \<Rightarrow> int h + uint (field_at l buf))"
    using assms(1) by (auto simp: send_framed_def Let_def i cong: option.case_cong split: if_splits prod.splits)
  then have "out = None" using assms(2) send_all_early by (cases out) fastforce+
  then show "r = int h + uint (field_at l buf)" "h + ?n \<le> length buf" using out by simp_all
  have "rs_out s' = (rs_out s @ take h buf) @ take ?n (drop h buf)"
    using send_all_out [OF s1(1)] send_all_out out(1) \<open>out = None\<close> by simp
  then show "rs_out s' = rs_out s @ take (h + ?n) buf" by (simp add: take_add)
qed

section \<open>Client and server\<close>

text \<open>The message in the client's buffer as the server's structure.\<close>

definition head_msg :: "byte list \<Rightarrow> msg_head" where
  "head_msg buf = \<lparr>msg = field_at 0 buf, len = field_at 4 buf, payload = drop 8 buf\<rparr>"

lemma le32_field: "i + 4 \<le> length b \<Longrightarrow> le32 (field_at i b) = take 4 (drop i b)"
  by (simp add: field_at_def le32_word_of_bytes)

lemma frame_head_msg:
  assumes "8 + unat (field_at 4 buf) \<le> length buf"
  shows "frame (head_msg buf) = take (8 + unat (field_at 4 buf)) buf"
proof -
  have "take 4 buf @ take 4 (drop 4 buf) = take 8 buf" using take_add [of 4 4 buf] by simp
  then show ?thesis
    using assms le32_field [of 0 buf] le32_field [of 4 buf]
    by (simp add: frame_def head_bytes_def head_msg_def take_add flip: append_assoc)
qed

lemma field_head: "field_at 0 b = msg_of b" "field_at 4 b = len_of b"
  by (simp_all add: field_at_def msg_of_def len_of_def)

text \<open>C29: a request with a payload of at most \<open>MAX_MSG_LEN\<close> bytes that the client reports as sent is received by the
  server's \<open>lib_recv_msg\<close> into an array of \<open>sz\<close> bytes (less than 2 GB) that has room for it, however it is cut on
  its way and if no error comes meanwhile: the same number of bytes, the same message, and the stream behind it
  untouched. A longer one, which \<open>SendMsg\<close> does not refuse, is outside the claim.\<close>

theorem client_request_received:
  assumes "SendMsg_head buf t (Some s) = Some (r, Some s')" "0 < r" "rs_out s' = rs_out s @ request"
    "uint (field_at 4 buf) \<le> LibSocket.MAX_MSG_LEN" "8 + uint (field_at 4 buf) \<le> sz" "sz < 2 ^ 31"
    "length array = nat sz" "0 < fd" "steady es" "stream_of es = request @ rest"
  shows "r = 8 + uint (field_at 4 buf) \<and> request = take (nat r) buf \<and>
    (\<exists>es'. lib_recv_msg fd (Some array) sz es = Some (r, Some (request @ drop (length request) array), es') \<and>
           steady es' \<and> stream_of es' = rest)"
proof -
  let ?n = "field_at 4 buf"
  have f: "send_framed 8 4 buf t s = Some (r, s')" using assms(1) by (auto simp: SendMsg_head_def MSG_HEAD_LEN_def split: Option.bind_splits)
  have "int 8 + uint ?n < 2 ^ 31" using assms(5,6) by simp
  note ok = send_framed_ok [OF f assms(2) this]
  have q: "request = take (8 + unat ?n) buf" using ok(3) assms(3) by simp
  have n: "nat r = 8 + unat ?n" using ok(1) by (simp add: nat_add_distrib)
  have fr: "frame (head_msg buf) = request" using frame_head_msg [OF ok(2)] q by simp
  have "fits (head_msg buf) sz" using ok(2) assms(4-6) by (simp add: fits_def head_msg_def)
  then show ?thesis
    using lib_recv_msg_steady [OF _ assms(9) _ assms(7,8), of "head_msg buf" rest] assms(10) fr q n ok(1)
    by (simp add: head_msg_def)
qed

text \<open>A message of \<open>3\<close> bytes sent in two pieces.\<close>

definition sock_demo :: sync_socket where
  "sock_demo = \<lparr>m_Valid = True, m_bIsOpened = True, m_ShutdownIndicated = False, m_Rx = 0, m_Tx = 0, rs_in = [],
     rs_send = [(5, 0), (3, 0), (3, 0)], rs_out = [], rcv_timeout = None, snd_timeout = None\<rparr>"

theorem client_request_received_witness:
  "\<exists>es'. lib_recv_msg 4 (Some (replicate 16 0)) 16 [Data (take 5 (frame msg_demo)), Data (drop 5 (frame msg_demo) @ [1])]
     = Some (11, Some (frame msg_demo @ replicate 5 0), es') \<and> stream_of es' = [1]"
proof -
  have f: "frame msg_demo = [1, 0, 1, 0, 3, 0, 0, 0, 7, 8, 9]" by code_simp
  have s: "SendMsg_head (frame msg_demo) INFINITE (Some sock_demo) =
      Some (11, Some (sock_demo\<lparr>rs_send := [], rs_out := frame msg_demo, snd_timeout := Some INFINITE\<rparr>))"
    by code_simp
  have n: "field_at 4 [1, 0, 1, 0, 3, 0, 0, 0, 7, 8, 9] = 3" by code_simp
  show ?thesis
    using client_request_received [OF s, of "frame msg_demo" 16 "replicate 16 0" 4
        "[Data (take 5 (frame msg_demo)), Data (drop 5 (frame msg_demo) @ [1])]" "[1]"]
    by (auto simp: sock_demo_def LibSocket.MAX_MSG_LEN_def n f drop_replicate)
qed

text \<open>A reply the server reports as sent is received by the client's \<open>RecvAndWaitMsg\<close> if its type is not 0 and its
  payload shorter than 1 MB (the server itself allows 1 MB), however it is cut: the same number of bytes, the
  same message, and the stream behind it untouched.\<close>

theorem server_reply_received:
  assumes "lib_send_msg fd (Some m) srv = Some (r, out, srv')" "r \<noteq> - 1" "fits m sz" "msg m \<noteq> 0"
    "uint (len m) < LibSocket.MAX_MSG_LEN" "length buf = nat sz" "m_Valid s" "win_steady (rs_in s)"
    "win_stream (rs_in s) = out @ rest"
  shows "\<exists>s'. RecvAndWaitMsg_head buf sz t (Some s) = Some (r, out @ drop (length out) buf, Some s') \<and>
    m_Valid s' \<and> win_stream (rs_in s') = rest"
proof -
  have r: "r = 8 + uint (len m)" and out: "out = frame m" using lib_send_msg_frame [OF assms(1-3)] by simp_all
  note fit = fitsD [OF assms(3)]
  let ?n = "unat (len m)"
  have hd: "take 8 (frame m) = head_bytes m" "length (frame m) = 8 + ?n" "drop 8 (frame m) = take ?n (payload m)"
    using fit(2) by (simp_all add: frame_def)
  obtain s1 where s1: "recv_all 8 t [] s = (None, head_bytes m, s1)" "m_Valid s1" "win_steady (rs_in s1)"
      "win_stream (rs_in s1) = take ?n (payload m) @ rest"
    using recv_all_steady [OF assms(7,8), of 8 t "[]"] assms(9) hd unfolding out by auto
  let ?b = "head_bytes m @ drop 8 buf"
  have b: "put_bytes 0 (head_bytes m) buf = Some ?b" using fit(1) assms(6) by (simp add: put_bytes_def)
  have fields: "field_at 0 ?b = msg m" "field_at 4 ?b = len m"
    using head_fields [of ?b m] unfolding field_head by simp_all
  have "0 \<le> sz - 8" using fit(4) unsigned_greater_eq [where 'a = int, of "len m"] by linarith
  then have room: "\<not> (sz - 8) mod 2 ^ 32 < uint (len m)" using fit(4,5) by simp
  obtain s2 where s2: "recv_all ?n t [] s1 = (None, take ?n (payload m), s2)" "m_Valid s2" "win_stream (rs_in s2) = rest"
    using recv_all_steady [OF s1(2,3), of ?n t "[]"] fit(2) s1(4) by auto
  have put: "put_bytes 8 (take ?n (payload m)) ?b = Some (frame m @ drop (length (frame m)) buf)"
    using fit(1,2) assms(6) by (simp add: put_bytes_def frame_def add.commute)
  have "recv_framed 8 4 MSG_HEAD_SANITY buf sz t s = Some (r, frame m @ drop (length (frame m)) buf, s2)"
    unfolding recv_framed_def using s1 s2 b put fields room assms(4,5) r by (simp add: MSG_HEAD_SANITY_def)
  then show ?thesis using s2 by (simp add: RecvAndWaitMsg_head_def MSG_HEAD_LEN_def out)
qed

theorem server_reply_received_witness:
  "\<exists>s'. RecvAndWaitMsg_head (replicate 16 0) 16 INFINITE
      (Some (sock_demo\<lparr>rs_in := [Got (take 5 (frame msg_demo)), Got (drop 5 (frame msg_demo) @ [1])]\<rparr>))
     = Some (11, frame msg_demo @ replicate 5 0, Some s') \<and> win_stream (rs_in s') = [1]"
proof -
  have f: "frame msg_demo = [1, 0, 1, 0, 3, 0, 0, 0, 7, 8, 9]" by code_simp
  have s: "lib_send_msg 5 (Some msg_demo) \<lparr>answers = [(4, 0), (- 1, EINTR), (7, 0)], closed = []\<rparr>
      = Some (11, frame msg_demo, \<lparr>answers = [], closed = []\<rparr>)"
    by code_simp
  have m: "msg msg_demo = 0x10001" "len msg_demo = 3" by (simp_all add: msg_demo_def)
  have fits: "fits msg_demo 16" by (simp add: fits_def msg_demo_def LibSocket.MAX_MSG_LEN_def)
  show ?thesis
    using server_reply_received [OF s _ fits, of "replicate 16 0"
        "sock_demo\<lparr>rs_in := [Got (take 5 (frame msg_demo)), Got (drop 5 (frame msg_demo) @ [1])]\<rparr>" "[1]" INFINITE]
    by (auto simp: sock_demo_def LibSocket.MAX_MSG_LEN_def f m drop_replicate)
qed

text \<open>A message of type 0, which both sides of the server accept, is refused with its payload left in the stream.\<close>

lemma reply_refused:
  assumes "m_Valid s" "win_steady (rs_in s)" "win_stream (rs_in s) = frame m @ rest" "msg m = 0" "8 \<le> length buf"
  shows "\<exists>s' b. RecvAndWaitMsg_head buf sz t (Some s) = Some (- 1, b, Some s') \<and>
    win_stream (rs_in s') = take (unat (len m)) (payload m) @ rest"
proof -
  obtain s1 where s1: "recv_all 8 t [] s = (None, head_bytes m, s1)" "win_stream (rs_in s1) = take (unat (len m)) (payload m) @ rest"
    using recv_all_steady [OF assms(1,2), of 8 t "[]"] assms(3) by (auto simp: frame_def)
  let ?b = "head_bytes m @ drop 8 buf"
  have "put_bytes 0 (head_bytes m) buf = Some ?b" using assms(5) by (simp add: put_bytes_def)
  moreover have "field_at 0 ?b = 0" using head_fields [of ?b m] assms(4) unfolding field_head by simp
  ultimately show ?thesis using s1
    by (simp add: RecvAndWaitMsg_head_def recv_framed_def MSG_HEAD_LEN_def MSG_HEAD_SANITY_def)
qed

end
