(* ===== verification/RopAsyncDll.thy ===== *)
theory RopAsyncDll imports RopQueue LibSocket begin

text \<open>
  \<open>Client/RopCltLib/RopAsyncDll.cpp\<close>: a module in a library, with a queue of messages to it and one from it. Messages
  are copied into buffers of their own, which the queues carry. The module's functions are parameters of which
  only the calls are recorded. Using a queue that is gone or a buffer that was freed is \<open>None\<close>. The last part
  interleaves the sender with the thread that hands messages to the module.
\<close>

section \<open>State\<close>

definition MAX_QUEUE_ITEM :: "32 word" where "MAX_QUEUE_ITEM = 10240"

text \<open>The handle of the library before it is opened, when it could not be loaded or was closed, and when it is loaded.\<close>

datatype lib_handle = InvalidHandle | NoHandle | LibHandle

text \<open>
  \<open>d_bufs\<close>: the allocated buffers with the bytes they hold; \<open>d_handled\<close> and \<open>d_events\<close>: what has been handed to the
  module and to the dispatcher; the Booleans are the events of Windows, is there a dispatcher, has the
  shutdown been asked for.
\<close>

record dll =
  MsgQ :: "queue option"
  SendQ :: "queue option"
  d_bufs :: "ptr \<Rightarrow> byte list option"
  d_brk :: ptr
  d_handled :: "byte list list"
  d_events :: "byte list list"
  m_SendEvent :: bool
  m_StopEvent :: bool
  d_EventHandle :: bool
  m_EventDispatcher :: bool
  m_Handle :: lib_handle
  d_shutdown :: bool

text \<open>The client's \<open>MemAlloc\<close> and \<open>MemFree\<close> of \<open>RopUtil.cpp\<close> for a buffer with a copy of a message.\<close>

definition MemAlloc :: "bool \<Rightarrow> byte list \<Rightarrow> dll \<Rightarrow> ptr \<times> dll" where
  "MemAlloc mem bs d =
     (if \<not> mem then (NULL, d)
      else (d_brk d, d\<lparr>d_bufs := (d_bufs d)(d_brk d \<mapsto> bs), d_brk := Suc (d_brk d)\<rparr>))"

definition MemFree :: "ptr \<Rightarrow> dll \<Rightarrow> dll option" where
  "MemFree p d =
     (if p = NULL then Some d
      else case d_bufs d p of None \<Rightarrow> None | Some _ \<Rightarrow> Some (d\<lparr>d_bufs := (d_bufs d)(p := None)\<rparr>))"

section \<open>Operations\<close>

text \<open>\<open>rc\<close>: does the library load, has it the five functions; the queues are set up in any case.\<close>

definition Dll_Open :: "bool \<Rightarrow> bool \<Rightarrow> bool \<Rightarrow> dll \<Rightarrow> (int \<times> dll) option" where
  "Dll_Open mem loads exported d = do {
     mq \<leftarrow> RopQueue_new mem MAX_QUEUE_ITEM;
     sq \<leftarrow> RopQueue_new mem MAX_QUEUE_ITEM;
     let d = d\<lparr>MsgQ := mq, SendQ := sq, m_Handle := if loads then LibHandle else NoHandle\<rparr>;
     Some (if \<not> loads then - 2 else if \<not> exported then - 3 else 0, d) }"

text \<open>The common end of \<open>Send\<close> and \<open>NotifyMsg\<close>: a buffer that the queue does not take is freed again.\<close>

definition push_or_free :: "ptr \<Rightarrow> queue \<Rightarrow> dll \<Rightarrow> (queue \<times> dll) option" where
  "push_or_free p q d = do {
     (r, q) \<leftarrow> Push p q;
     d \<leftarrow> (if r = NULL then MemFree p d else Some d);
     Some (q, d) }"

definition Dll_Send :: "bool \<Rightarrow> byte list \<Rightarrow> dll \<Rightarrow> (int \<times> dll) option" where
  "Dll_Send mem buf d =
     (if buf = [] then Some (- 1, d)
      else
        let (p, d) = MemAlloc mem buf d
        in if p = NULL then Some (- 2, d)
        else do {
          q \<leftarrow> SendQ d;
          (q, d) \<leftarrow> push_or_free p q d;
          Some (int (length buf), d\<lparr>SendQ := Some q, m_SendEvent := True\<rparr>) })"

definition NotifyMsg :: "bool \<Rightarrow> byte list \<Rightarrow> dll \<Rightarrow> (int \<times> dll) option" where
  "NotifyMsg mem buf d =
     (if buf = [] then Some (- 1, d)
      else
        let (p, d) = MemAlloc mem buf d
        in if p = NULL then Some (- 2, d)
        else do {
          q \<leftarrow> MsgQ d;
          (q, d) \<leftarrow> push_or_free p q d;
          Some (0, d\<lparr>MsgQ := Some q, d_EventHandle := True\<rparr>) })"

text \<open>\<open>OnSend\<close> in two stretches: one message is handed over; then the event is reset if the queue was found empty.\<close>

definition send_one :: "dll \<Rightarrow> (bool \<times> dll) option" where
  "send_one d = do {
     q \<leftarrow> SendQ d;
     (p, q) \<leftarrow> Pop q;
     let d = d\<lparr>SendQ := Some q\<rparr>;
     d \<leftarrow> (if p \<noteq> NULL
          then do {
            bs \<leftarrow> d_bufs d p;
            MemFree p (d\<lparr>d_handled := d_handled d @ [bs]\<rparr>) }
          else Some d);
     Some (Count q = 0, d) }"

definition reset_event :: "bool \<Rightarrow> dll \<Rightarrow> dll" where
  "reset_event found_empty d = (if found_empty then d\<lparr>m_SendEvent := False\<rparr> else d)"

definition OnSend :: "dll \<Rightarrow> (int \<times> dll) option" where
  "OnSend d = do { (e, d) \<leftarrow> send_one d; Some (1, reset_event e d) }"

lemma Pop_smaller: "Pop q = Some (p, q') \<Longrightarrow> p \<noteq> NULL \<Longrightarrow> unat (q_size q') < unat (q_size q)"
  by (auto simp: Pop_def pop_locked_def unat_minus_one unat_gt_0 split: if_splits Option.bind_splits)

text \<open>The loop of \<open>OnReceive\<close>, and the one that empties a queue: each message is used and freed.\<close>

function drain_loop :: "(byte list \<Rightarrow> dll \<Rightarrow> dll) \<Rightarrow> queue \<Rightarrow> dll \<Rightarrow> (queue \<times> dll) option" where
  "drain_loop f q d =
     (case Pop q of
        None \<Rightarrow> None
      | Some (p, q) \<Rightarrow>
          if p = NULL then Some (q, d)
          else case d_bufs d p of
            None \<Rightarrow> None
          | Some bs \<Rightarrow> (case MemFree p (f bs d) of None \<Rightarrow> None | Some d \<Rightarrow> drain_loop f q d))"
  by auto
termination by (relation "measure (\<lambda>(f, q, d). unat (q_size q))") (auto dest: Pop_smaller)

declare drain_loop.simps [simp del]

definition dispatch :: "byte list \<Rightarrow> dll \<Rightarrow> dll" where
  "dispatch bs d = (if m_EventDispatcher d then d\<lparr>d_events := d_events d @ [bs]\<rparr> else d)"

definition OnReceive :: "dll \<Rightarrow> (int \<times> dll) option" where
  "OnReceive d = do {
     q \<leftarrow> MsgQ d;
     (q, d) \<leftarrow> drain_loop dispatch q (d\<lparr>d_EventHandle := False\<rparr>);
     Some (1, d\<lparr>MsgQ := Some q\<rparr>) }"

definition purge :: "queue option \<Rightarrow> dll \<Rightarrow> dll option" where
  "purge mq d = (case mq of None \<Rightarrow> Some d | Some q \<Rightarrow> do { (_, d) \<leftarrow> drain_loop (\<lambda>_ d. d) q d; Some d })"

text \<open>A library that was never opened has no \<open>Finalize\<close> to call.\<close>

definition Dll_CheckAndDoShutdown :: "dll \<Rightarrow> (bool \<times> dll) option" where
  "Dll_CheckAndDoShutdown d =
     (if d_shutdown d \<and> m_Handle d \<noteq> NoHandle
      then
        if m_Handle d = InvalidHandle then None
        else do {
          let d = d\<lparr>m_StopEvent := True, m_Handle := NoHandle\<rparr>;
          d \<leftarrow> purge (MsgQ d) d;
          let d = d\<lparr>MsgQ := None\<rparr>;
          d \<leftarrow> purge (SendQ d) d;
          Some (True, d\<lparr>SendQ := None\<rparr>) }
      else Some (False, d))"

definition Receive :: "dll \<Rightarrow> dll option" where
  "Receive d = do {
     (closed, d) \<leftarrow> Dll_CheckAndDoShutdown d;
     if \<not> closed \<and> m_Handle d \<noteq> InvalidHandle
     then do { q \<leftarrow> MsgQ d; Some (if Count q \<noteq> 0 then d\<lparr>d_EventHandle := True\<rparr> else d) }
     else Some d }"

section \<open>The messages in the queues\<close>

text \<open>The messages waiting in a queue; every buffer in a queue is allocated, and in one queue at one place.\<close>

definition pending :: "dll \<Rightarrow> queue \<Rightarrow> byte list list" where
  "pending d q = map (\<lambda>p. the (d_bufs d p)) (q_list q)"

definition dll_ok :: "dll \<Rightarrow> queue \<Rightarrow> ptr list \<Rightarrow> bool" where
  "dll_ok d q others \<longleftrightarrow> queue_ok q \<and> distinct (q_list q @ others) \<and> 0 < d_brk d \<and>
     (\<forall>p. d_bufs d p \<noteq> None \<longleftrightarrow> p \<in> set (q_list q) \<union> set others) \<and> (\<forall>p \<in> set (q_list q) \<union> set others. 0 < p \<and> p < d_brk d)"

lemma Push_room:
  "queue_ok q \<Longrightarrow> length (q_list q) < unat (capacity q) \<Longrightarrow>
   \<exists>q'. Push p q = Some (p, q') \<and> queue_ok q' \<and> capacity q' = capacity q \<and> q_list q' = q_list q @ [p]"
  using ring_queue.push_room [of q p] by (auto simp: word_unat_eq_iff)

lemma Pop_first:
  "queue_ok q \<Longrightarrow> q_list q = x # xs \<Longrightarrow> \<exists>q'. Pop q = Some (x, q') \<and> queue_ok q' \<and> capacity q' = capacity q \<and> q_list q' = xs"
  using ring_queue.pop_item [of q x xs] by (auto simp: word_unat_eq_iff)

lemma Send_pending:
  assumes "dll_ok d q others" "SendQ d = Some q" "bs \<noteq> []" "length (q_list q) < unat (capacity q)"
  shows "\<exists>d' q'. Dll_Send True bs d = Some (int (length bs), d') \<and> SendQ d' = Some q' \<and> dll_ok d' q' others \<and>
    capacity q' = capacity q \<and> length (q_list q') = Suc (length (q_list q)) \<and> pending d' q' = pending d q @ [bs] \<and>
    d_handled d' = d_handled d \<and> m_SendEvent d' \<and> m_StopEvent d' = m_StopEvent d"
proof -
  let ?p = "d_brk d"
  obtain q' where q': "Push ?p q = Some (?p, q')" "queue_ok q'" "capacity q' = capacity q" "q_list q' = q_list q @ [?p]"
    using Push_room [of q "d_brk d"] assms(1,4) by (auto simp: dll_ok_def)
  have n: "?p \<noteq> 0" "?p \<notin> set (q_list q) \<union> set others" using assms(1) by (auto simp: dll_ok_def)
  let ?d = "d\<lparr>d_bufs := (d_bufs d)(?p \<mapsto> bs), d_brk := Suc ?p, SendQ := Some q', m_SendEvent := True\<rparr>"
  have "Dll_Send True bs d = Some (int (length bs), ?d)"
    using assms(2,3) q'(1) n by (simp add: Dll_Send_def MemAlloc_def push_or_free_def)
  moreover have "dll_ok ?d q' others" using assms(1) q' n by (auto simp: dll_ok_def less_SucI)
  moreover have "pending ?d q' = pending d q @ [bs]" using n by (auto simp: pending_def q'(4))
  ultimately show ?thesis using q' by (intro exI [of _ ?d] exI [of _ q']) simp
qed

lemma OnSend_pending:
  assumes "dll_ok d q others" "SendQ d = Some q" "pending d q = bs # rest"
  shows "\<exists>d' q'. OnSend d = Some (1, d') \<and> SendQ d' = Some q' \<and> dll_ok d' q' others \<and> pending d' q' = rest \<and>
    d_handled d' = d_handled d @ [bs] \<and> (rest = [] \<longrightarrow> \<not> m_SendEvent d')"
proof -
  obtain p ps where l: "q_list q = p # ps" using assms(3) by (cases "q_list q") (simp_all add: pending_def)
  obtain q' where q': "Pop q = Some (p, q')" "queue_ok q'" "q_list q' = ps"
    using Pop_first [of q p ps] assms(1) l by (auto simp: dll_ok_def)
  have p: "p \<noteq> 0" "d_bufs d p = Some bs" "p \<notin> set ps \<union> set others"
    using assms(1,3) l by (auto simp: dll_ok_def pending_def)
  let ?d = "d\<lparr>SendQ := Some q', d_handled := d_handled d @ [bs], d_bufs := (d_bufs d)(p := None)\<rparr>"
  have "send_one d = Some (Count q' = 0, ?d)"
    using assms(2) q'(1) p by (simp add: send_one_def MemFree_def)
  then have "OnSend d = Some (1, reset_event (Count q' = 0) ?d)" by (simp add: OnSend_def)
  moreover have "dll_ok ?d q' others" using assms(1) q' l p by (auto simp: dll_ok_def)
  moreover have "pending ?d q' = rest" using assms(3) l p by (auto simp: pending_def q'(3))
  moreover have "rest = [] \<longrightarrow> Count q' = 0"
    using assms(3) l q'(3) q_list_length [of q'] by (auto simp: pending_def Count_def unat_eq_0)
  ultimately show ?thesis
    by (intro exI [of _ "reset_event (Count q' = 0) ?d"] exI [of _ q']) (auto simp: reset_event_def dll_ok_def pending_def)
qed

text \<open>A number of messages sent, and a number of times the thread of the module runs.\<close>

fun send_all_msgs :: "byte list list \<Rightarrow> dll \<Rightarrow> dll option" where
  "send_all_msgs [] d = Some d"
| "send_all_msgs (bs # rest) d = do { (_, d) \<leftarrow> Dll_Send True bs d; send_all_msgs rest d }"

fun serve :: "nat \<Rightarrow> dll \<Rightarrow> dll option" where
  "serve 0 d = Some d"
| "serve (Suc n) d = do { (_, d) \<leftarrow> OnSend d; serve n d }"

lemma send_all_pending:
  "dll_ok d q others \<Longrightarrow> SendQ d = Some q \<Longrightarrow> [] \<notin> set ms \<Longrightarrow> length (q_list q) + length ms \<le> unat (capacity q) \<Longrightarrow>
   \<exists>d' q'. send_all_msgs ms d = Some d' \<and> SendQ d' = Some q' \<and> dll_ok d' q' others \<and> pending d' q' = pending d q @ ms \<and>
     d_handled d' = d_handled d"
proof (induction ms arbitrary: d q)
  case (Cons bs ms)
  obtain d1 q1 where d1: "Dll_Send True bs d = Some (int (length bs), d1)" "SendQ d1 = Some q1" "dll_ok d1 q1 others"
      "capacity q1 = capacity q" "length (q_list q1) = Suc (length (q_list q))" "pending d1 q1 = pending d q @ [bs]"
      "d_handled d1 = d_handled d"
    using Send_pending [OF Cons.prems(1,2), of bs] Cons.prems(3,4) by auto
  then show ?case using Cons.IH [OF d1(3,2)] Cons.prems by simp
qed simp

lemma serve_pending:
  "dll_ok d q others \<Longrightarrow> SendQ d = Some q \<Longrightarrow> pending d q = ms \<Longrightarrow> ms \<noteq> [] \<Longrightarrow>
   \<exists>d' q'. serve (length ms) d = Some d' \<and> SendQ d' = Some q' \<and> dll_ok d' q' others \<and> q_list q' = [] \<and>
     d_handled d' = d_handled d @ ms \<and> \<not> m_SendEvent d'"
proof (induction ms arbitrary: d q)
  case (Cons bs ms)
  obtain d1 q1 where d1: "OnSend d = Some (1, d1)" "SendQ d1 = Some q1" "dll_ok d1 q1 others" "pending d1 q1 = ms"
      "d_handled d1 = d_handled d @ [bs]" "ms = [] \<longrightarrow> \<not> m_SendEvent d1"
    using OnSend_pending [OF Cons.prems(1-3)] by blast
  show ?case
  proof (cases "ms = []")
    case True
    then have "q_list q1 = []" using d1(4) by (simp add: pending_def)
    then show ?thesis using d1 True by auto
  next
    case False
    then show ?thesis using Cons.IH [OF d1(3,2,4)] d1 by simp
  qed
qed simp

text \<open>\<open>OnReceive\<close> hands over everything that waits, and frees it.\<close>

lemma drain_pending:
  assumes "\<And>bs d. d_bufs (f bs d) = d_bufs d"
  shows "queue_ok q \<Longrightarrow> distinct (q_list q) \<Longrightarrow> \<forall>p \<in> set (q_list q). 0 < p \<and> d_bufs d p \<noteq> None \<Longrightarrow>
    \<exists>q' d'. drain_loop f q d = Some (q', d') \<and> queue_ok q' \<and> q_list q' = [] \<and>
      d_bufs d' = (\<lambda>p. if p \<in> set (q_list q) then None else d_bufs d p)"
proof (induction "q_list q" arbitrary: q d)
  case Nil
  then have "Pop q = Some (NULL, q)" using ring_queue.pop_empty [of q] by simp
  then show ?case using Nil by (subst drain_loop.simps) simp
next
  case (Cons p ps)
  obtain q1 where q1: "Pop q = Some (p, q1)" "queue_ok q1" "q_list q1 = ps"
    using Pop_first [of q p ps] Cons.prems(1) Cons.hyps(2) by auto
  obtain bs where bs: "d_bufs d p = Some bs" "0 < p" using Cons.prems(3) Cons.hyps(2) by (metis list.set_intros(1) not_None_eq)
  let ?d = "(f bs d)\<lparr>d_bufs := (d_bufs d)(p := None)\<rparr>"
  have ps: "p \<notin> set ps" "distinct ps" using Cons.prems(2) Cons.hyps(2) by (metis distinct.simps(2))+
  have live: "\<forall>r \<in> set (q_list q1). 0 < r \<and> d_bufs ?d r \<noteq> None"
    using Cons.prems(3) ps(1) q1(3) Cons.hyps(2) [symmetric] by auto
  obtain q' d' where "drain_loop f q1 ?d = Some (q', d')" "queue_ok q'" "q_list q' = []"
      "d_bufs d' = (\<lambda>r. if r \<in> set (q_list q1) then None else d_bufs ?d r)"
    using Cons.hyps(1) [of q1 ?d] q1 ps live by auto
  moreover have "MemFree p (f bs d) = Some ?d" using bs assms by (simp add: MemFree_def)
  moreover have "(\<lambda>r. if r \<in> set (q_list q1) then None else d_bufs ?d r) = (\<lambda>r. if r \<in> set (q_list q) then None else d_bufs d r)"
    using Cons.hyps(2) [symmetric] q1(3) by auto
  ultimately show ?case using q1(1) bs by (subst drain_loop.simps) simp
qed

section \<open>Properties\<close>

text \<open>The messages sent to a module whose queue is empty and has room for them are handed to the module in the order
  they were sent, each once; their buffers are freed, all others stay, and the event that wakes the thread is
  reset at the end.\<close>

theorem dll_send_order:
  assumes "dll_ok d q others" "SendQ d = Some q" "q_list q = []" "[] \<notin> set ms" "ms \<noteq> []" "length ms \<le> unat (capacity q)"
  shows "\<exists>d1 d2. send_all_msgs ms d = Some d1 \<and> serve (length ms) d1 = Some d2 \<and> d_handled d2 = d_handled d @ ms \<and>
    (\<forall>p. d_bufs d2 p \<noteq> None \<longleftrightarrow> p \<in> set others) \<and> \<not> m_SendEvent d2"
proof -
  obtain d1 q1 where d1: "send_all_msgs ms d = Some d1" "SendQ d1 = Some q1" "dll_ok d1 q1 others" "pending d1 q1 = ms"
      "d_handled d1 = d_handled d"
    using send_all_pending [OF assms(1,2,4)] assms(3,6) by (auto simp: pending_def)
  obtain d2 q2 where "serve (length ms) d1 = Some d2" "dll_ok d2 q2 others" "q_list q2 = []"
      "d_handled d2 = d_handled d1 @ ms" "\<not> m_SendEvent d2"
    using serve_pending [OF d1(3,2,4) assms(5)] by blast
  then show ?thesis using d1 by (auto simp: dll_ok_def)
qed

definition queue_demo :: queue where
  "queue_demo = \<lparr>base = 0, q_size = 0, capacity = 2, max_size = 0, q_data = [0, 0]\<rparr>"

definition dll_demo :: dll where
  "dll_demo = \<lparr>MsgQ = None, SendQ = Some queue_demo, d_bufs = (\<lambda>_. None), d_brk = 1, d_handled = [], d_events = [],
     m_SendEvent = False, m_StopEvent = False, d_EventHandle = False, m_EventDispatcher = True, m_Handle = LibHandle,
     d_shutdown = False\<rparr>"

lemma dll_demo_ok: "dll_ok dll_demo queue_demo []" "SendQ dll_demo = Some queue_demo" "q_list queue_demo = []"
  "capacity queue_demo = 2" "d_handled dll_demo = []"
  by (simp_all add: dll_ok_def dll_demo_def queue_demo_def queue_ok_def q_list_def ring_def)

theorem dll_send_order_witness:
  "\<exists>d1 d2. send_all_msgs [[1, 2], [3]] dll_demo = Some d1 \<and> serve (Suc (Suc 0)) d1 = Some d2 \<and> d_handled d2 = [[1, 2], [3]] \<and>
    (\<forall>p. d_bufs d2 p = None) \<and> \<not> m_SendEvent d2"
  using dll_send_order [OF dll_demo_ok(1-3), of "[[1, 2], [3]]"] unfolding dll_demo_ok(4,5) by simp

text \<open>
  The sender and the thread of the module, which waits for the event: it wakes up and hands one message over, and
  then resets the event if it found the queue empty.
\<close>

datatype send_pc = Waiting | Checked bool | Stopped

inductive dll_step :: "send_pc \<times> dll \<Rightarrow> send_pc \<times> dll \<Rightarrow> bool" where
  step_send: "Dll_Send True bs d = Some (r, d') \<Longrightarrow> dll_step (pc, d) (pc, d')"
| step_stop: "m_StopEvent d \<Longrightarrow> dll_step (Waiting, d) (Stopped, d)"
| step_wake: "m_SendEvent d \<Longrightarrow> \<not> m_StopEvent d \<Longrightarrow> send_one d = Some (e, d') \<Longrightarrow> dll_step (Waiting, d) (Checked e, d')"
| step_reset: "dll_step (Checked e, d) (Waiting, reset_event e d)"

inductive_cases dll_step_waiting: "dll_step (Waiting, d) s"

text \<open>C35: a wake-up can be lost: when a message is sent between the look at the empty queue and the reset of the event, it
  stays in the queue, and the thread does nothing about it, for nothing but another message wakes it.\<close>

theorem send_wakeup_lost:
  assumes "dll_ok d q others" "SendQ d = Some q" "pending d q = [old]" "m_SendEvent d" "\<not> m_StopEvent d" "bs \<noteq> []" "capacity q \<noteq> 0"
  shows "\<exists>d' q'. dll_step\<^sup>*\<^sup>* (Waiting, d) (Waiting, d') \<and> SendQ d' = Some q' \<and> pending d' q' = [bs] \<and>
    (\<forall>s. dll_step (Waiting, d') s \<longrightarrow> (\<exists>more r. Dll_Send True more d' = Some (r, snd s)))"
proof -
  obtain p where l: "q_list q = [p]" using assms(3) by (auto simp: pending_def)
  obtain q1 where q1: "Pop q = Some (p, q1)" "queue_ok q1" "q_list q1 = []" "capacity q1 = capacity q"
    using Pop_first [of q p "[]"] assms(1) l by (auto simp: dll_ok_def)
  have p: "p \<noteq> 0" "d_bufs d p = Some old" "p \<notin> set others" using assms(1,3) l by (auto simp: dll_ok_def pending_def)
  let ?d1 = "d\<lparr>SendQ := Some q1, d_handled := d_handled d @ [old], d_bufs := (d_bufs d)(p := None)\<rparr>"
  have "Count q1 = 0" using q_list_length [of q1] q1(3) by (simp add: Count_def unat_eq_0)
  then have wake: "send_one d = Some (True, ?d1)" using assms(2) q1(1) p by (simp add: send_one_def MemFree_def)
  have "dll_ok ?d1 q1 others" using assms(1) q1 l p by (auto simp: dll_ok_def)
  moreover have "length (q_list q1) < unat (capacity q1)" using q1 assms(7) by (simp add: unat_gt_0)
  ultimately obtain d2 q2 where d2: "Dll_Send True bs ?d1 = Some (int (length bs), d2)" "SendQ d2 = Some q2"
      "pending d2 q2 = [bs]" "\<not> m_StopEvent d2"
    using Send_pending [of ?d1 q1 others bs] assms(5,6) q1(3) by (auto simp: pending_def)
  let ?d3 = "reset_event True d2"
  have "dll_step (Waiting, d) (Checked True, ?d1)" "dll_step (Checked True, ?d1) (Checked True, d2)"
    "dll_step (Checked True, d2) (Waiting, ?d3)"
    by (rule step_wake [OF assms(4,5) wake], rule step_send [OF d2(1)], rule step_reset)
  then have "dll_step\<^sup>*\<^sup>* (Waiting, d) (Waiting, ?d3)"
    by (meson converse_rtranclp_into_rtranclp r_into_rtranclp)
  moreover have "SendQ ?d3 = Some q2" "pending ?d3 q2 = [bs]" "\<not> m_SendEvent ?d3" "\<not> m_StopEvent ?d3"
    using d2 by (simp_all add: reset_event_def pending_def)
  ultimately show ?thesis by (intro exI [of _ ?d3] exI [of _ q2]) (auto elim!: dll_step_waiting)
qed

theorem send_wakeup_lost_witness:
  "\<exists>d1 d' q'. Dll_Send True [1] dll_demo = Some (1, d1) \<and> dll_step\<^sup>*\<^sup>* (Waiting, d1) (Waiting, d') \<and>
    SendQ d' = Some q' \<and> pending d' q' = [[2]]"
proof -
  obtain d1 q1 where d1: "Dll_Send True [1] dll_demo = Some (1, d1)" "SendQ d1 = Some q1" "dll_ok d1 q1 []"
      "capacity q1 = 2" "pending d1 q1 = [[1]]" "m_SendEvent d1" "\<not> m_StopEvent d1"
    using Send_pending [OF dll_demo_ok(1,2), of "[1]"] dll_demo_ok(3,4) by (auto simp: pending_def dll_demo_def)
  then show ?thesis using send_wakeup_lost [OF d1(3,2,5,6,7), of "[2]"] by auto
qed

text \<open>A message the full queue does not take is dropped, and reported as sent.\<close>

lemma send_dropped:
  assumes "dll_ok d q others" "SendQ d = Some q" "bs \<noteq> []" "length (q_list q) = unat (capacity q)"
  shows "\<exists>d'. Dll_Send True bs d = Some (int (length bs), d') \<and> SendQ d' = Some q \<and> d_handled d' = d_handled d"
  using assms ring_queue.push_full [of q "d_brk d"]
  by (auto simp: Dll_Send_def MemAlloc_def push_or_free_def MemFree_def dll_ok_def)

text \<open>After the shutdown the thread of the module uses a queue that is gone.\<close>

lemma shutdown_then_send:
  "Dll_CheckAndDoShutdown d = Some (True, d') \<Longrightarrow> OnSend d' = None"
  by (auto simp: Dll_CheckAndDoShutdown_def OnSend_def send_one_def split: if_splits Option.bind_splits)

end
