(* ===== verification/RopExecuter.thy ===== *)
theory RopExecuter imports Prelude begin

text \<open>
  \<open>Client/RopCltLib/RopExecuter.cpp\<close> and \<open>RopIoQueue.cpp\<close>: the event loop of the client over a vector of IO
  objects, and the list of the sockets of the user interfaces. What an object does when it is served, which
  events are set, and what the wait for events returns are parameters.
\<close>

section \<open>State\<close>

datatype shutdown_state = STATE_RUNNING | STATE_PENDING | STATE_FORCE | STATE_STOPPED

definition MAX_DEVICE_NUM :: nat where "MAX_DEVICE_NUM = 64"

text \<open>
  \<open>objs\<close> is the vector; of an object we see whether it has an event handle, and whether its shutdown was asked
  for. \<open>io_deleted\<close> lists the objects deleted, in order.
\<close>

record executer =
  objs :: "ptr list"
  m_State :: shutdown_state
  io_handle :: "ptr \<Rightarrow> bool"
  io_shutdown :: "ptr \<Rightarrow> bool"
  io_deleted :: "ptr list"

definition RopExecuter_new :: "bool \<Rightarrow> executer option" where
  "RopExecuter_new winsock =
     (if winsock then Some \<lparr>objs = [], m_State = STATE_STOPPED, io_handle = (\<lambda>_. False), io_shutdown = (\<lambda>_. False), io_deleted = []\<rparr>
      else None)"

definition Exec_Add :: "ptr \<Rightarrow> 'a executer_scheme \<Rightarrow> 'a executer_scheme" where
  "Exec_Add p e = (if p \<noteq> NULL then e\<lparr>objs := objs e @ [p]\<rparr> else e)"

definition Exec_Del :: "ptr \<Rightarrow> 'a executer_scheme \<Rightarrow> 'a executer_scheme" where
  "Exec_Del p e = e\<lparr>objs := remove1 p (objs e)\<rparr>"

text \<open>The last one first.\<close>

definition Purge :: "'a executer_scheme \<Rightarrow> 'a executer_scheme" where
  "Purge e = e\<lparr>objs := [], io_deleted := io_deleted e @ rev (objs e)\<rparr>"

section \<open>One turn of the loop\<close>

text \<open>
  \<open>RopAsyncIO::CheckAndDoShutdown\<close>, which every class of objects ends with: the event handles are closed. The
  call back that tells the dispatcher of it is left out.
\<close>

definition IO_CheckAndDoShutdown :: "ptr \<Rightarrow> 'a executer_scheme \<Rightarrow> 'a executer_scheme" where
  "IO_CheckAndDoShutdown p e = (if io_shutdown e p then e\<lparr>io_handle := (io_handle e)(p := False)\<rparr> else e)"

text \<open>The objects still to be looked at; those kept.\<close>

fun valid_loop :: "ptr list \<Rightarrow> ptr list \<Rightarrow> 'a executer_scheme \<Rightarrow> ptr list \<times> 'a executer_scheme" where
  "valid_loop [] kept e = (kept, e)"
| "valid_loop (p # ps) kept e =
     (let e = IO_CheckAndDoShutdown p e
      in if io_handle e p then valid_loop ps (kept @ [p]) e
      else valid_loop ps kept (e\<lparr>io_deleted := io_deleted e @ [p]\<rparr>))"

definition HaveValidHandles :: "'a executer_scheme \<Rightarrow> bool \<times> 'a executer_scheme" where
  "HaveValidHandles e = (let (kept, e) = valid_loop (objs e) [] e in (kept \<noteq> [], e\<lparr>objs := kept\<rparr>))"

text \<open>What the wait returns: nothing within the time, the number of the first event that is set, or an error.\<close>

datatype wait_result = WaitTimeout | WaitObject nat | WaitFailed

text \<open>The table of handles has 64 places, and an object is put at the next one before its handle is looked at.\<close>

fun table_loop :: "(ptr \<Rightarrow> bool) \<Rightarrow> ptr list \<Rightarrow> ptr list \<Rightarrow> ptr list option" where
  "table_loop handle [] table = Some table"
| "table_loop handle (p # ps) table =
     (if length table < MAX_DEVICE_NUM then table_loop handle ps (if handle p then table @ [p] else table) else None)"

text \<open>The wait is over the objects in the table; None is a write beyond it.\<close>

definition EventSelect :: "(ptr list \<Rightarrow> wait_result) \<Rightarrow> 'a executer_scheme \<Rightarrow> wait_result option" where
  "EventSelect wait e =
     do { table \<leftarrow> table_loop (io_handle e) (objs e) []; Some (if table = [] then WaitTimeout else wait table) }"

text \<open>
  The objects from number \<open>i\<close> on, \<open>k\<close> of them; a number beyond the vector is an exception that is caught. The
  result lists the objects served. \<open>set_ev\<close> says which events are set, \<open>react\<close> what \<open>OnReceive\<close> and \<open>Receive\<close> do.
\<close>

fun serve_loop ::
  "(ptr \<Rightarrow> 'a executer_scheme \<Rightarrow> bool) \<Rightarrow> (ptr \<Rightarrow> 'a executer_scheme \<Rightarrow> 'a executer_scheme) \<Rightarrow> nat \<Rightarrow> nat \<Rightarrow> 'a executer_scheme \<Rightarrow>
   ptr list \<times> 'a executer_scheme"
where
  "serve_loop set_ev react 0 i e = ([], e)"
| "serve_loop set_ev react (Suc k) i e =
     (if i < length (objs e) \<and> io_handle e (objs e ! i) \<and> set_ev (objs e ! i) e
      then let (ps, e') = serve_loop set_ev react k (Suc i) (react (objs e ! i) e) in (objs e ! i # ps, e')
      else serve_loop set_ev react k (Suc i) e)"

text \<open>A time-out moves the state on; in the running state every object is told, the last one first.\<close>

definition on_timeout :: "(ptr \<Rightarrow> 'a executer_scheme \<Rightarrow> 'a executer_scheme) \<Rightarrow> 'a executer_scheme \<Rightarrow> 'a executer_scheme" where
  "on_timeout tick e =
     (case m_State e of
        STATE_PENDING \<Rightarrow> e\<lparr>m_State := STATE_FORCE\<rparr>
      | STATE_FORCE \<Rightarrow> Purge (e\<lparr>m_State := STATE_STOPPED\<rparr>)
      | STATE_RUNNING \<Rightarrow> foldr tick (objs e) e
      | STATE_STOPPED \<Rightarrow> e)"

definition loop_body ::
  "(ptr list \<Rightarrow> wait_result) \<Rightarrow> (ptr \<Rightarrow> 'a executer_scheme \<Rightarrow> bool) \<Rightarrow> (ptr \<Rightarrow> 'a executer_scheme \<Rightarrow> 'a executer_scheme) \<Rightarrow>
   (ptr \<Rightarrow> 'a executer_scheme \<Rightarrow> 'a executer_scheme) \<Rightarrow> 'a executer_scheme \<Rightarrow> (ptr list \<times> 'a executer_scheme) option"
where
  "loop_body wait set_ev react tick e = do {
     r \<leftarrow> EventSelect wait e;
     Some (case r of
        WaitTimeout \<Rightarrow> ([], on_timeout tick e)
      | WaitObject i \<Rightarrow> serve_loop set_ev react (length (objs e) - i) i e
      | WaitFailed \<Rightarrow> ([], e)) }"

text \<open>\<open>EventLoop\<close> for the answers of the coming waits: has it ended by itself, and the state.\<close>

definition exec_start :: "(ptr \<Rightarrow> 'a executer_scheme \<Rightarrow> 'a executer_scheme) \<Rightarrow> 'a executer_scheme \<Rightarrow> 'a executer_scheme" where
  "exec_start receive e = (let e = e\<lparr>m_State := STATE_RUNNING\<rparr> in foldr receive (objs e) e)"

fun event_rounds ::
  "(ptr list \<Rightarrow> wait_result) list \<Rightarrow> (ptr \<Rightarrow> 'a executer_scheme \<Rightarrow> bool) \<Rightarrow> (ptr \<Rightarrow> 'a executer_scheme \<Rightarrow> 'a executer_scheme) \<Rightarrow>
   (ptr \<Rightarrow> 'a executer_scheme \<Rightarrow> 'a executer_scheme) \<Rightarrow> 'a executer_scheme \<Rightarrow> (bool \<times> 'a executer_scheme) option"
where
  "event_rounds ws set_ev react tick e =
     (let (go, e) = HaveValidHandles e
      in if \<not> go then Some (True, e)
      else case ws of
        [] \<Rightarrow> Some (False, e)
      | w # ws \<Rightarrow> do { (_, e) \<leftarrow> loop_body w set_ev react tick e; event_rounds ws set_ev react tick e })"

definition EventLoop where
  "EventLoop receive ws set_ev react tick e = event_rounds ws set_ev react tick (exec_start receive e)"

text \<open>\<open>Shutdown\<close>, called from another thread while the loop runs: every object with a handle is marked.\<close>

definition Exec_Shutdown :: "'a executer_scheme \<Rightarrow> 'a executer_scheme" where
  "Exec_Shutdown e =
     (if m_State e = STATE_RUNNING
      then e\<lparr>io_shutdown := (\<lambda>p. io_shutdown e p \<or> p \<in> set (objs e) \<and> io_handle e p), m_State := STATE_PENDING\<rparr>
      else e)"

section \<open>The list of sockets\<close>

text \<open>
  \<open>RopIOQueue::BatchSend\<close> to one socket, \<open>sent\<close> bytes of \<open>n\<close> being sent: the answers of \<open>SendEx\<close> one after the
  other. An answer of 0 leaves the loop where it is.
\<close>

partial_function (option) send_loop :: "(nat \<Rightarrow> int) \<Rightarrow> nat \<Rightarrow> int \<Rightarrow> int \<Rightarrow> int option" where
  "send_loop answers k n sent =
     (if sent < n
      then (let tmp = answers k in if tmp < 0 then Some sent else send_loop answers (Suc k) n (sent + tmp))
      else Some sent)"

declare send_loop.simps [code]

fun batch_send :: "(ptr \<Rightarrow> bool) \<Rightarrow> (ptr \<Rightarrow> bool) \<Rightarrow> (ptr \<Rightarrow> nat \<Rightarrow> int) \<Rightarrow> int \<Rightarrow> ptr list \<Rightarrow> (ptr \<times> int) list option" where
  "batch_send handle blocked answers n [] = Some []"
| "batch_send handle blocked answers n (p # ps) =
     (if handle p \<and> \<not> blocked p
      then do { sent \<leftarrow> send_loop (answers p) 0 n 0; rest \<leftarrow> batch_send handle blocked answers n ps; Some ((p, sent) # rest) }
      else batch_send handle blocked answers n ps)"

section \<open>Shutting down\<close>

lemma valid_loop_closing:
  assumes "\<forall>p \<in> set ps. io_handle e p \<longrightarrow> io_shutdown e p"
  shows "fst (valid_loop ps kept e) = kept \<and> io_deleted (snd (valid_loop ps kept e)) = io_deleted e @ ps \<and>
    m_State (snd (valid_loop ps kept e)) = m_State e"
  using assms
proof (induction ps arbitrary: e)
  case (Cons p ps)
  let ?e = "IO_CheckAndDoShutdown p e"
  have "\<not> io_handle ?e p" "io_shutdown ?e = io_shutdown e" "m_State ?e = m_State e" "io_deleted ?e = io_deleted e"
    "\<forall>q \<in> set ps. io_handle ?e q \<longrightarrow> io_shutdown e q"
    using Cons.prems by (auto simp: IO_CheckAndDoShutdown_def)
  then show ?case by (simp add: Let_def Cons.IH)
qed simp

text \<open>After the shutdown of a running executer the next turn of the event loop deletes every object of the vector,
  in order, and the loop ends, without waiting and whatever the objects and the waits would do. The state stays
  PENDING: neither FORCE nor STOPPED is reached this way, so a later shutdown does nothing.
\<close>

theorem shutdown_ends_loop:
  assumes "m_State e = STATE_RUNNING"
  shows "\<exists>e'. event_rounds ws set_ev react tick (Exec_Shutdown e) = Some (True, e') \<and> objs e' = [] \<and>
    io_deleted e' = io_deleted e @ objs e \<and> m_State e' = STATE_PENDING \<and> Exec_Shutdown e' = e'"
proof -
  let ?s = "Exec_Shutdown e"
  have s: "objs ?s = objs e" "m_State ?s = STATE_PENDING" "io_deleted ?s = io_deleted e"
    "\<forall>p \<in> set (objs e). io_handle ?s p \<longrightarrow> io_shutdown ?s p"
    using assms by (simp_all add: Exec_Shutdown_def)
  obtain kept e' where v: "valid_loop (objs e) [] ?s = (kept, e')" by fastforce
  have "kept = []" "io_deleted e' = io_deleted e @ objs e" "m_State e' = STATE_PENDING"
    using valid_loop_closing [OF s(4), of "[]"] s v by simp_all
  then have "event_rounds ws set_ev react tick ?s = Some (True, e'\<lparr>objs := []\<rparr>)"
    by (subst event_rounds.simps) (simp add: HaveValidHandles_def s(1) v Let_def)
  moreover have "Exec_Shutdown (e'\<lparr>objs := []\<rparr>) = e'\<lparr>objs := []\<rparr>"
    using \<open>m_State e' = STATE_PENDING\<close> by (simp add: Exec_Shutdown_def)
  ultimately show ?thesis
    using \<open>io_deleted e' = io_deleted e @ objs e\<close> \<open>m_State e' = STATE_PENDING\<close> by auto
qed

theorem shutdown_ends_loop_witness:
  "\<exists>e' :: executer. event_rounds [] (\<lambda>_ _. False) (\<lambda>_ e. e) (\<lambda>_ e. e)
      (Exec_Shutdown \<lparr>objs = [8, 9], m_State = STATE_RUNNING, io_handle = (\<lambda>p. p = 8), io_shutdown = (\<lambda>_. False), io_deleted = []\<rparr>) =
      Some (True, e') \<and> io_deleted e' = [8, 9]"
  using shutdown_ends_loop [of "\<lparr>objs = [8, 9], m_State = STATE_RUNNING, io_handle = (\<lambda>p. p = 8),
      io_shutdown = (\<lambda>_. False), io_deleted = []\<rparr> :: executer" "[]" "\<lambda>_ _. False" "\<lambda>_ e. e" "\<lambda>_ e. e"] by auto

text \<open>An object that was marked while none of its handles was open is one the vector loses without a trace.\<close>

lemma Exec_Add_Del: "p \<noteq> NULL \<Longrightarrow> p \<notin> set (objs e) \<Longrightarrow> Exec_Del p (Exec_Add p e) = e"
  by (simp add: Exec_Add_def Exec_Del_def remove1_append)

section \<open>Sending to every socket\<close>

lemma send_loop_ends:
  assumes "\<forall>k. answers k \<noteq> 0"
  shows "\<exists>r. send_loop answers k n sent = Some r"
proof (induction "nat (n - sent)" arbitrary: k sent rule: less_induct)
  case less
  have "answers k \<noteq> 0" using assms by simp
  then show ?case using less [of "sent + answers k" "Suc k"] by (subst send_loop.simps) (auto simp: Let_def)
qed

lemma send_loop_stuck:
  assumes "send_loop answers k n sent = Some r" "\<forall>j \<ge> k. answers j = 0"
  shows "n \<le> sent"
proof -
  have "(\<forall>j \<ge> k. answers j = 0) \<longrightarrow> n \<le> sent"
  proof (rule send_loop.raw_induct [OF _ assms(1)])
    fix f :: "(nat \<Rightarrow> int) \<Rightarrow> nat \<Rightarrow> int \<Rightarrow> int \<Rightarrow> int option" and answers k n sent r
    assume IH: "\<And>answers k n sent r. f answers k n sent = Some r \<Longrightarrow> (\<forall>j \<ge> k. answers j = 0) \<longrightarrow> n \<le> sent"
      and eq: "(if sent < n then let tmp = answers k in if tmp < 0 then Some sent else f answers (Suc k) n (sent + tmp)
        else Some sent) = Some r"
    show "(\<forall>j \<ge> k. answers j = 0) \<longrightarrow> n \<le> sent"
    proof (intro impI, rule ccontr)
      assume z: "\<forall>j \<ge> k. answers j = 0" and "\<not> n \<le> sent"
      then have "f answers (Suc k) n sent = Some r" using eq z [rule_format, of k] by (simp add: Let_def)
      with IH z \<open>\<not> n \<le> sent\<close> show False by fastforce
    qed
  qed
  with assms(2) show ?thesis by simp
qed

text \<open>Sending to every socket ends when no send answers 0; and if one of the sockets that has a handle and is
  not blocked answers 0 from some point on, before the bytes are sent, the loop never ends.
\<close>

theorem batch_send_ends:
  "((\<forall>p \<in> set ps. \<forall>k. answers p k \<noteq> 0) \<longrightarrow> (\<exists>r. batch_send handle blocked answers n ps = Some r)) \<and>
   ((\<exists>p \<in> set ps. handle p \<and> \<not> blocked p \<and> (\<forall>k. answers p k = 0)) \<and> 0 < n \<longrightarrow>
     batch_send handle blocked answers n ps = None)"
proof (induction ps)
  case (Cons p ps)
  have stuck: "send_loop (answers p) 0 n 0 = None" if "\<forall>k. answers p k = 0" "0 < n"
    using send_loop_stuck [of "answers p" 0 n 0] that by (cases "send_loop (answers p) 0 n 0") auto
  have ends: "\<exists>r. send_loop (answers p) 0 n 0 = Some r" if "\<forall>k. answers p k \<noteq> 0"
    using send_loop_ends that by blast
  show ?case using Cons stuck ends by (auto split: Option.bind_splits)
qed simp

theorem batch_send_ends_witness:
  "batch_send (\<lambda>_. True) (\<lambda>_. False) (\<lambda>_ _. 0) 5 [8] = None \<and>
   (\<exists>r. batch_send (\<lambda>_. True) (\<lambda>_. False) (\<lambda>_ _. 2) 5 [8] = Some r)"
  using batch_send_ends [of "[8]" "\<lambda>_ _. 0" "\<lambda>_. True" "\<lambda>_. False" 5]
    batch_send_ends [of "[8]" "\<lambda>_ _. 2" "\<lambda>_. True" "\<lambda>_. False" 5] by simp

end
