(* ===== verification/RopCfg.thy ===== *)
theory RopCfg imports LibString begin

text \<open>
  \<open>Client/Update/RopCfgItem.cpp\<close> and \<open>RopCfgFile.cpp\<close>: the configuration file of the client's updater, a list of
  global parameters and of items (the components that are installed), each with the MD5 of its file. The
  functions of Windows are the fields of a record; a string that does not fit its array is \<open>None\<close>. The
  downloading and installing that the items end in is in RopUpdate.
\<close>

section \<open>Windows\<close>

text \<open>The files with their text, and the directories.\<close>

record win_disk =
  w_files :: "string \<Rightarrow> string option"
  w_dirs :: "string list"

text \<open>
  \<open>StrCmpNIA\<close> says whether the first characters agree; \<open>StrChrIA\<close> gives the place of a character, \<open>StrCpyNA\<close> what
  it copies. \<open>DeleteFileA\<close> and \<open>MoveFileExA\<close> give the error, 0 for none; a move can be put off to the next start of the
  system, and without a destination it is a deletion.
\<close>

record win_api =
  StrTrimA :: "string \<Rightarrow> string \<Rightarrow> string"
  StrCmpNIA :: "string \<Rightarrow> string \<Rightarrow> nat \<Rightarrow> bool"
  StrChrIA :: "string \<Rightarrow> char \<Rightarrow> nat option"
  StrCpyNA :: "nat \<Rightarrow> string \<Rightarrow> string"
  CreateDirectoryA :: "string \<Rightarrow> win_disk \<Rightarrow> win_disk"
  DeleteFileA :: "string \<Rightarrow> win_disk \<Rightarrow> int \<times> win_disk"
  MoveFileExA :: "string \<Rightarrow> string option \<Rightarrow> bool \<Rightarrow> win_disk \<Rightarrow> int \<times> win_disk"
  URLDownloadToFileA :: "string \<Rightarrow> string \<Rightarrow> win_disk \<Rightarrow> bool \<times> win_disk"
  has_urlmon :: bool
  module_path :: "string option"
  file_md5 :: "string \<Rightarrow> string"
  rand_now :: int
  time_stamp :: string

definition MD5_TEXT_LEN :: nat where "MD5_TEXT_LEN = 32"
definition CFG_ITEM_KEY :: string where "CFG_ITEM_KEY = ''CfgItem''"
definition BACKSLASH :: char where "BACKSLASH = CHR 0x5C"
definition BLANKS :: string where "BLANKS = [CHR '' '', CHR 0x09, CHR 0x0D, CHR 0x0A]"
definition TABS_EOL :: string where "TABS_EOL = [CHR 0x09, CHR 0x0D, CHR 0x0A]"

text \<open>A string printed into an array of \<open>n\<close> characters.\<close>

definition fits :: "nat \<Rightarrow> string \<Rightarrow> string option" where
  "fits n s = (if length s < n then Some s else None)"

text \<open>The current directory can be named before a file.\<close>

definition path_key :: "string \<Rightarrow> string" where
  "path_key p = (if take 2 p = [CHR ''.'', BACKSLASH] then drop 2 p else p)"

definition win_fopen :: "string \<Rightarrow> win_disk \<Rightarrow> string option" where
  "win_fopen name d = w_files d (path_key name)"

section \<open>Lines\<close>

text \<open>\<open>ReadLine\<close> is \<open>fgets\<close> into an array of \<open>n\<close> characters: the line and the rest of the file.\<close>

definition ReadLine :: "nat \<Rightarrow> string \<Rightarrow> (string \<times> string) option" where
  "ReadLine n s =
     (if s = [] then None
      else let k = min (n - 1) (Suc (length (takeWhile (\<lambda>c. c \<noteq> CHR 0x0A) s))) in Some (take k s, drop k s))"

lemma ReadLine_shorter: "ReadLine n s = Some (l, r) \<Longrightarrow> 2 \<le> n \<Longrightarrow> length r < length s"
  by (auto simp: ReadLine_def Let_def split: if_splits)

text \<open>
  \<open>ParseLine\<close> with arrays of \<open>nc\<close> and \<open>vc\<close> characters for name and value: the kind of the line, the trimmed line,
  and name and value, which stay as they were if the line has none.
\<close>

definition ParseLine ::
  "win_api \<Rightarrow> nat \<Rightarrow> nat \<Rightarrow> string \<Rightarrow> string \<times> string \<Rightarrow> (int \<times> string \<times> string \<times> string) option"
where
  "ParseLine api nc vc line nv =
     (let line = StrTrimA api line BLANKS; L = length line
      in if L = 0 then Some (1, line, nv)
      else if StrCmpNIA api line ''end'' 3 then Some (2, line, nv)
      else case StrChrIA api line (CHR ''='') of
        Some p \<Rightarrow>
          (if p + 1 < nc \<and> L - p < vc
           then Some (3, line, StrTrimA api (StrCpyNA api (p + 1) line) BLANKS, StrTrimA api (StrCpyNA api (L - p) (drop (p + 1) line)) BLANKS)
           else None)
      | None \<Rightarrow>
          (case StrChrIA api line (CHR '':'') of
             Some p \<Rightarrow>
               (if p + 1 < nc \<and> L - p + 1 < vc
                then Some (4, line, StrTrimA api (StrCpyNA api (p + 1) line) BLANKS, StrTrimA api (StrCpyNA api (L - p) (drop (p + 1) line)) BLANKS)
                else None)
           | None \<Rightarrow> Some (- 2, line, nv)))"

text \<open>A name is compared over its own length: every prefix of a key is the key.\<close>

definition is_key :: "win_api \<Rightarrow> string \<Rightarrow> string \<Rightarrow> bool" where
  "is_key api name key = StrCmpNIA api name key (length name)"

section \<open>Items\<close>

text \<open>\<open>i_Md5\<close> and the numbers are \<open>None\<close> until the file sets them: the constructor does not.\<close>

record cfg_item =
  i_Name :: string
  i_TmpPath :: string
  i_NeedUpdate :: bool
  i_Md5 :: "string option"
  NameOnServer :: string
  ExtOnServer :: string
  NameOnLocal :: string
  ExtOnLocal :: string
  LocalPath :: string
  ServerPath :: string
  VerOnServer :: string
  TmpSuffix :: string
  orgLocalPath :: "string option"
  i_Guid :: "string option"
  iFileType :: "int option"
  SupportOS :: "32 word list"
  DownloadMask :: "32 word option"
  SizeOnServer :: "32 word option"

definition RopCfgItem_new :: "win_api \<Rightarrow> string \<Rightarrow> cfg_item" where
  "RopCfgItem_new api name =
     \<lparr>i_Name = StrCpyNA api MAX_NAME_LEN name, i_TmpPath = [], i_NeedUpdate = False, i_Md5 = None, NameOnServer = [],
      ExtOnServer = [], NameOnLocal = [], ExtOnLocal = [], LocalPath = [], ServerPath = [], VerOnServer = [],
      TmpSuffix = ''tmp'', orgLocalPath = None, i_Guid = None, iFileType = None, SupportOS = [], DownloadMask = None,
      SizeOnServer = None\<rparr>"

definition SetPath :: "win_api \<Rightarrow> string \<Rightarrow> cfg_item \<Rightarrow> cfg_item" where
  "SetPath api tmp it = it\<lparr>i_TmpPath := StrCpyNA api MAX_NAME_LEN tmp\<rparr>"

definition streplace :: "char \<Rightarrow> char \<Rightarrow> string \<Rightarrow> string" where
  "streplace och nch s = map (\<lambda>c. if c = och then nch else c) s"

text \<open>\<open>strtok\<close> at the backslashes: the parts that are not empty.\<close>

function tokens :: "string \<Rightarrow> string list" where
  "tokens s =
     (let s = dropWhile (\<lambda>c. c = BACKSLASH) s
      in if s = [] then [] else takeWhile (\<lambda>c. c \<noteq> BACKSLASH) s # tokens (dropWhile (\<lambda>c. c \<noteq> BACKSLASH) s))"
  by auto
termination
proof (relation "measure length")
  fix s x :: string
  assume x: "x = dropWhile (\<lambda>c. c = BACKSLASH) s" "x \<noteq> []"
  then have "hd x \<noteq> BACKSLASH" using hd_dropWhile [of "\<lambda>c. c = BACKSLASH" s] by simp
  then have "length (dropWhile (\<lambda>c. c \<noteq> BACKSLASH) x) < length x"
    using x(2) length_dropWhile_le [of "\<lambda>c. c \<noteq> BACKSLASH" "tl x"] by (cases x) auto
  moreover have "length x \<le> length s" unfolding x(1) by (rule length_dropWhile_le)
  ultimately show "(dropWhile (\<lambda>c. c \<noteq> BACKSLASH) x, s) \<in> measure length" by simp
qed simp

declare tokens.simps [simp del]

text \<open>A directory that is not there is made.\<close>

definition need_dir :: "win_api \<Rightarrow> string \<Rightarrow> win_disk \<Rightarrow> win_disk" where
  "need_dir api p d = (if p \<in> set (w_dirs d) \<or> w_files d p \<noteq> None then d else CreateDirectoryA api p d)"

fun make_dirs :: "win_api \<Rightarrow> string \<Rightarrow> string list \<Rightarrow> win_disk \<Rightarrow> (string \<times> win_disk) option" where
  "make_dirs api p [] d = Some (p, d)"
| "make_dirs api p (t # ts) d = do {
     p \<leftarrow> fits (16 * MAX_NAME_LEN) (p @ BACKSLASH # t);
     make_dirs api p ts (need_dir api p d) }"

text \<open>
  The parameter \<open>LocalPath\<close>, in quotation marks: the path on the server, and with backslashes, below the directory
  of the program, the path of the file. \<open>memcpy\<close> of the first leaves what an earlier one had further on.
\<close>

definition set_local_path :: "win_api \<Rightarrow> string \<Rightarrow> string \<Rightarrow> cfg_item \<Rightarrow> win_disk \<Rightarrow> (cfg_item \<times> win_disk) option" where
  "set_local_path api prog v it d =
     (let it = it\<lparr>orgLocalPath := Some (StrCpyNA api MAX_NAME_LEN v)\<rparr>
      in if length v \<le> 2
      then do { p \<leftarrow> fits (16 * MAX_NAME_LEN) prog; Some (it\<lparr>LocalPath := p\<rparr>, d) }
      else do {
        q \<leftarrow> fits MAX_NAME_LEN (take (length v - 2) (drop 1 v));
        let it = it\<lparr>ServerPath := q @ drop (length q) (ServerPath it)\<rparr>;
        let path = streplace (CHR ''/'') BACKSLASH q;
        (p, d) \<leftarrow> (if tokens path = []
                  then do { p \<leftarrow> fits (16 * MAX_NAME_LEN) (prog @ BACKSLASH # path); Some (p, need_dir api p d) }
                  else make_dirs api prog (tokens path) d);
        Some (it\<lparr>LocalPath := p\<rparr>, d) })"

text \<open>\<open>RopCfgItem::SetParam\<close>: the keys in the order they are tried.\<close>

definition Item_SetParam ::
  "win_api \<Rightarrow> string \<Rightarrow> string \<Rightarrow> string \<Rightarrow> cfg_item \<Rightarrow> win_disk \<Rightarrow> (int \<times> cfg_item \<times> win_disk) option"
where
  "Item_SetParam api prog name val it d =
     (let name = StrTrimA api name TABS_EOL; val = StrTrimA api val TABS_EOL; v = StrCpyNA api MAX_NAME_LEN val
      in if is_key api name ''NameOnServer'' then Some (0, it\<lparr>NameOnServer := v\<rparr>, d)
      else if is_key api name ''ExtOnServer'' then Some (0, it\<lparr>ExtOnServer := v\<rparr>, d)
      else if is_key api name ''NameOnLocal'' then Some (0, it\<lparr>NameOnLocal := v\<rparr>, d)
      else if is_key api name ''ExtOnLocal'' then Some (0, it\<lparr>ExtOnLocal := v\<rparr>, d)
      else if is_key api name ''LocalPath''
      then do { (it, d) \<leftarrow> set_local_path api prog val it d; Some (0, it, d) }
      else if is_key api name ''Guid'' then Some (0, it\<lparr>i_Guid := Some v\<rparr>, d)
      else if is_key api name ''VerOnServer'' then Some (0, it\<lparr>VerOnServer := v\<rparr>, d)
      else if is_key api name ''FileType'' then Some (0, it\<lparr>iFileType := Some (atoi val)\<rparr>, d)
      else if is_key api name ''SupportOS''
      then (if length (SupportOS it) < 32 then Some (0, it\<lparr>SupportOS := SupportOS it @ [word_of_int (atoi val)]\<rparr>, d) else None)
      else if is_key api name ''DownloadMask'' then Some (0, it\<lparr>DownloadMask := Some (word_of_int (atoi val))\<rparr>, d)
      else if is_key api name ''SizeOnServer'' then Some (0, it\<lparr>SizeOnServer := Some (word_of_int (atoi val))\<rparr>, d)
      else if is_key api name ''MD5'' then Some (0, it\<lparr>i_Md5 := Some (StrCpyNA api (MD5_TEXT_LEN + 1) val)\<rparr>, d)
      else Some (- 1, it, d))"

text \<open>\<open>RopCfgItem::ReadAndInit\<close>: the directory of the program is everything before the last backslash of its path.\<close>

definition dir_of :: "string \<Rightarrow> string option" where
  "dir_of p = (if BACKSLASH \<in> set p then Some (rev (drop 1 (dropWhile (\<lambda>c. c \<noteq> BACKSLASH) (rev p)))) else None)"

text \<open>The loop over the lines of the item: return value, item, rest of the file.\<close>

function item_loop :: "win_api \<Rightarrow> string \<Rightarrow> string \<Rightarrow> cfg_item \<Rightarrow> win_disk \<Rightarrow> (int \<times> cfg_item \<times> string \<times> win_disk) option" where
  "item_loop api prog s it d =
     (case ReadLine 1023 s of
        None \<Rightarrow> Some (0, it, s, d)
      | Some (line, r) \<Rightarrow>
          (case ParseLine api 1024 1024 line ([], []) of
             None \<Rightarrow> None
           | Some (k, _, name, val) \<Rightarrow>
               if k = 1 then item_loop api prog r it d
               else if k = 2 then Some (0, it, r, d)
               else if k = 3
               then (case Item_SetParam api prog name val it d of
                       None \<Rightarrow> None
                     | Some (_, it, d) \<Rightarrow> item_loop api prog r it d)
               else if k = 4 then Some (- 1, it, r, d)
               else Some (- 2, it, r, d)))"
  by auto
termination by (relation "measure (\<lambda>(api, prog, s, it, d). length s)") (auto dest: ReadLine_shorter)

declare item_loop.simps [simp del]

lemma item_loop_shorter: "item_loop api prog s it d = Some (rc, it', r, d') \<Longrightarrow> length r \<le> length s"
proof (induction api prog s it d arbitrary: rc it' r d' rule: item_loop.induct)
  case (1 api prog s it d)
  show ?case
  proof (cases "ReadLine 1023 s")
    case None
    then show ?thesis using "1.prems" by (subst (asm) item_loop.simps) simp
  next
    case (Some lr)
    obtain line q where lr: "ReadLine 1023 s = Some (line, q)" using Some by (cases lr) simp
    have q: "length q < length s" using ReadLine_shorter [OF lr] by simp
    show ?thesis
      using "1.prems" "1.IH"(1) [OF lr [THEN trans, OF refl] refl] "1.IH"(2) [OF lr [THEN trans, OF refl] refl] q
      by (subst (asm) item_loop.simps) (fastforce simp: lr split: option.splits if_splits prod.splits)
  qed
qed

definition Item_ReadAndInit :: "win_api \<Rightarrow> string \<Rightarrow> cfg_item \<Rightarrow> win_disk \<Rightarrow> (int \<times> cfg_item \<times> string \<times> win_disk) option" where
  "Item_ReadAndInit api s it d =
     (case module_path api of
        None \<Rightarrow> Some (- 1, it, s, d)
      | Some p \<Rightarrow> do { prog \<leftarrow> dir_of p; item_loop api prog s it d })"

definition Item_CalcMD5 :: "win_api \<Rightarrow> win_disk \<Rightarrow> cfg_item \<Rightarrow> cfg_item" where
  "Item_CalcMD5 api d it =
     (case win_fopen (NameOnLocal it @ CHR ''.'' # ExtOnLocal it) d of
        None \<Rightarrow> it
      | Some c \<Rightarrow> it\<lparr>i_Md5 := Some (take MD5_TEXT_LEN (file_md5 api c))\<rparr>)"

text \<open>The seconds an update of the item is said to take; 0 for a type that is not known.\<close>

definition Item_CalcTime :: "cfg_item \<Rightarrow> int option" where
  "Item_CalcTime it = do { t \<leftarrow> iFileType it; Some (if t = 1 then 5 else if t = 4 then 10 else if t = 2 then 20 else 0) }"

section \<open>The file\<close>

record cfg_file =
  m_LocalPath :: string
  m_FileName :: string
  m_vItem :: "cfg_item list"
  f_NeedUpdate :: bool
  m_OEMCompany :: string
  m_OEMProduct :: string
  m_OEMProgmenu :: string
  m_Downloadmask :: "int option"
  m_ClientVersion :: "string option"
  m_HttpServerAddr :: "string option"
  m_ServerDownloadPort :: int
  m_ServerAddr :: string
  m_ServerServicePort :: int
  m_ServerDownloadPath :: string
  m_dwDialSleep :: "int option"
  m_UpdateMsg :: "string list"

definition RopCfgFile_new :: "string \<Rightarrow> string \<Rightarrow> cfg_file option" where
  "RopCfgFile_new path name = do {
     path \<leftarrow> fits MAX_NAME_LEN path;
     name \<leftarrow> fits MAX_NAME_LEN name;
     Some \<lparr>m_LocalPath = path, m_FileName = name, m_vItem = [], f_NeedUpdate = False, m_OEMCompany = [], m_OEMProduct = [],
       m_OEMProgmenu = [], m_Downloadmask = None, m_ClientVersion = None, m_HttpServerAddr = None, m_ServerDownloadPort = 0,
       m_ServerAddr = [], m_ServerServicePort = 0, m_ServerDownloadPath = [], m_dwDialSleep = None,
       m_UpdateMsg = replicate 5 []\<rparr> }"

definition OpenFile :: "cfg_file \<Rightarrow> win_disk \<Rightarrow> string option" where
  "OpenFile f d = win_fopen (m_LocalPath f @ m_FileName f) d"

definition File_SetParam :: "win_api \<Rightarrow> string \<Rightarrow> string \<Rightarrow> cfg_file \<Rightarrow> int \<times> cfg_file" where
  "File_SetParam api name val f =
     (let name = StrTrimA api name TABS_EOL; val = StrTrimA api val TABS_EOL;
          v = StrCpyNA api MAX_NAME_LEN val; w = StrCpyNA api (MAX_NAME_LEN * 10) val
      in if is_key api name ''OEMCompany'' then (0, f\<lparr>m_OEMCompany := v\<rparr>)
      else if is_key api name ''OEMProduct'' then (0, f\<lparr>m_OEMProduct := v\<rparr>)
      else if is_key api name ''OEMProgmenu'' then (0, f\<lparr>m_OEMProgmenu := v\<rparr>)
      else if is_key api name ''Downloadmask'' then (0, f\<lparr>m_Downloadmask := Some (atoi val)\<rparr>)
      else if is_key api name ''ClientVersion'' then (0, f\<lparr>m_ClientVersion := Some v\<rparr>)
      else if is_key api name ''HttpServerAddr'' then (0, f\<lparr>m_HttpServerAddr := Some v\<rparr>)
      else if is_key api name ''HttpServerDownloadPort'' then (0, f\<lparr>m_ServerDownloadPort := atoi val\<rparr>)
      else if is_key api name ''ServerAddr'' then (0, f\<lparr>m_ServerAddr := v\<rparr>)
      else if is_key api name ''ServerServicePort'' then (0, f\<lparr>m_ServerServicePort := atoi val\<rparr>)
      else if is_key api name ''ServerDownloadPath'' then (0, f\<lparr>m_ServerDownloadPath := v\<rparr>)
      else if is_key api name ''SleepBeforeDial'' then (0, f\<lparr>m_dwDialSleep := Some (atoi val)\<rparr>)
      else if is_key api name ''UpdateMsg1'' then (0, f\<lparr>m_UpdateMsg := (m_UpdateMsg f)[0 := w]\<rparr>)
      else if is_key api name ''UpdateMsg2'' then (0, f\<lparr>m_UpdateMsg := (m_UpdateMsg f)[1 := w]\<rparr>)
      else if is_key api name ''UpdateMsg3'' then (0, f\<lparr>m_UpdateMsg := (m_UpdateMsg f)[2 := w]\<rparr>)
      else if is_key api name ''UpdateMsg4'' then (0, f\<lparr>m_UpdateMsg := (m_UpdateMsg f)[3 := w]\<rparr>)
      else if is_key api name ''UpdateMsg5'' then (0, f\<lparr>m_UpdateMsg := (m_UpdateMsg f)[4 := w]\<rparr>)
      else (- 1, f))"

text \<open>An item is read by a loop of its own from the same stream; what it returns is not looked at.\<close>

definition read_item :: "win_api \<Rightarrow> string \<Rightarrow> string \<Rightarrow> cfg_file \<Rightarrow> win_disk \<Rightarrow> (string \<times> cfg_file \<times> win_disk) option" where
  "read_item api name s f d = do {
     (_, it, r, d) \<leftarrow> Item_ReadAndInit api s (SetPath api (m_LocalPath f) (RopCfgItem_new api name)) d;
     Some (r, f\<lparr>m_vItem := m_vItem f @ [it]\<rparr>, d) }"

lemma read_item_shorter: "read_item api name s f d = Some (r, f', d') \<Longrightarrow> length r \<le> length s"
  by (auto simp: read_item_def Item_ReadAndInit_def split: Option.bind_splits option.splits dest: item_loop_shorter)

function file_loop :: "win_api \<Rightarrow> string \<Rightarrow> cfg_file \<Rightarrow> win_disk \<Rightarrow> (int \<times> cfg_file \<times> win_disk) option" where
  "file_loop api s f d =
     (case ReadLine 512 s of
        None \<Rightarrow> Some (0, f, d)
      | Some (line, r) \<Rightarrow>
          (case ParseLine api 128 128 line ([], []) of
             None \<Rightarrow> None
           | Some (k, _, name, val) \<Rightarrow>
               if k = 1 then file_loop api r f d
               else if k = 2 then Some (0, f, d)
               else if k = 3 then file_loop api r (snd (File_SetParam api name val f)) d
               else if k = 4
               then (if is_key api val CFG_ITEM_KEY
                     then (case read_item api name r f d of
                             None \<Rightarrow> None
                           | Some (r, f, d) \<Rightarrow> file_loop api r f d)
                     else file_loop api r f d)
               else Some (- 2, f, d)))"
  by auto
termination
  by (relation "measure (\<lambda>(api, s, f, d). length s)") (auto dest!: ReadLine_shorter read_item_shorter)

declare file_loop.simps [simp del]

definition File_ReadAndInit :: "win_api \<Rightarrow> string \<Rightarrow> cfg_file \<Rightarrow> win_disk \<Rightarrow> (int \<times> cfg_file \<times> win_disk) option" where
  "File_ReadAndInit api s f d = file_loop api s f d"

fun time_loop :: "cfg_item list \<Rightarrow> int \<Rightarrow> int option" where
  "time_loop [] n = Some n"
| "time_loop (it # its) n = do { t \<leftarrow> Item_CalcTime it; time_loop its (n + t) }"

definition File_CalcTime :: "cfg_file \<Rightarrow> int option" where
  "File_CalcTime f = time_loop (m_vItem f) 0"

definition File_CalcMD5 :: "win_api \<Rightarrow> win_disk \<Rightarrow> cfg_file \<Rightarrow> cfg_file" where
  "File_CalcMD5 api d f = f\<lparr>m_vItem := map (Item_CalcMD5 api d) (m_vItem f)\<rparr>"

section \<open>Comparing two files\<close>

text \<open>
  \<open>memcmp\<close> of the two MD5s: the arrays are not set behind the terminator, so equal short strings have no answer.
\<close>

definition same_md5 :: "cfg_item \<Rightarrow> cfg_item \<Rightarrow> bool option" where
  "same_md5 a b = do {
     x \<leftarrow> i_Md5 a;
     y \<leftarrow> i_Md5 b;
     let n = min MD5_TEXT_LEN (min (Suc (length x)) (Suc (length y)));
     if take n (x @ [CHR 0x00]) \<noteq> take n (y @ [CHR 0x00]) then Some False
     else if n = MD5_TEXT_LEN then Some True else None }"

definition same_name :: "win_api \<Rightarrow> cfg_item \<Rightarrow> cfg_item \<Rightarrow> bool" where
  "same_name api a b \<longleftrightarrow> StrCmpNIA api (i_Name a) (i_Name b) (length (i_Name b)) \<and> length (i_Name a) = length (i_Name b)"

text \<open>\<open>IsItemSync\<close>, which is false when an item of that name has the same MD5, and \<open>FindItem\<close>.\<close>

fun sync_loop :: "win_api \<Rightarrow> cfg_item \<Rightarrow> cfg_item list \<Rightarrow> bool option" where
  "sync_loop api it [] = Some True"
| "sync_loop api it (t # ts) =
     (if same_name api it t
      then do { e \<leftarrow> same_md5 it t; if e then Some False else sync_loop api it ts }
      else sync_loop api it ts)"

definition IsItemSync :: "win_api \<Rightarrow> cfg_file \<Rightarrow> cfg_item \<Rightarrow> bool option" where
  "IsItemSync api f it = sync_loop api it (m_vItem f)"

definition FindItem :: "win_api \<Rightarrow> cfg_file \<Rightarrow> cfg_item \<Rightarrow> bool" where
  "FindItem api f it = list_ex (same_name api it) (m_vItem f)"

text \<open>The items with the new ones marked, and is there one.\<close>

fun compare_loop :: "win_api \<Rightarrow> cfg_file \<Rightarrow> cfg_item list \<Rightarrow> (cfg_item list \<times> bool) option" where
  "compare_loop api old [] = Some ([], False)"
| "compare_loop api old (it # its) = do {
     upd \<leftarrow> (if FindItem api old it then IsItemSync api old it else Some True);
     (its, b) \<leftarrow> compare_loop api old its;
     Some ((if upd then it\<lparr>i_NeedUpdate := True\<rparr> else it) # its, upd \<or> b) }"

definition CompareFile :: "win_api \<Rightarrow> cfg_file \<Rightarrow> cfg_file \<Rightarrow> (bool \<times> cfg_file) option" where
  "CompareFile api old f = do {
     (its, b) \<leftarrow> compare_loop api old (m_vItem f);
     let f = f\<lparr>m_vItem := its, f_NeedUpdate := f_NeedUpdate f \<or> b\<rparr>;
     Some (f_NeedUpdate f, f) }"

section \<open>Writing a file\<close>

text \<open>\<open>GenerateFile\<close> reads at most 1000 lines, puts the MD5 of every item behind its name and writes the lines to a new file.\<close>

function read_lines_512 :: "string \<Rightarrow> string list" where
  "read_lines_512 s = (case ReadLine 512 s of None \<Rightarrow> [] | Some (l, r) \<Rightarrow> l # read_lines_512 r)"
  by auto
termination by (relation "measure length") (auto dest: ReadLine_shorter)

declare read_lines_512.simps [simp del]

text \<open>The lines are trimmed where they are; name and value stay when a line has none.\<close>

fun gen_lines :: "win_api \<Rightarrow> cfg_item \<Rightarrow> bool \<Rightarrow> string list \<Rightarrow> string \<times> string \<Rightarrow> (string list \<times> string \<times> string) option" where
  "gen_lines api it flag [] nv = Some ([], nv)"
| "gen_lines api it flag (l # ls) nv = do {
     (_, l, nv) \<leftarrow> ParseLine api 256 256 l nv;
     let flag = flag \<or> StrCmpNIA api (i_Name it) (fst nv) (length (fst nv));
     if flag \<and> is_key api (fst nv) ''Md5''
     then do { m \<leftarrow> i_Md5 it; Some ((''Md5 = '' @ m) # ls, nv) }
     else do { (ls, nv) \<leftarrow> gen_lines api it flag ls nv; Some (l # ls, nv) } }"

fun gen_items :: "win_api \<Rightarrow> cfg_item list \<Rightarrow> string list \<Rightarrow> string \<times> string \<Rightarrow> string list option" where
  "gen_items api [] ls nv = Some ls"
| "gen_items api (it # its) ls nv = do { (ls, nv) \<leftarrow> gen_lines api it False ls nv; gen_items api its ls nv }"

definition GenerateFile :: "win_api \<Rightarrow> bool \<Rightarrow> string \<Rightarrow> cfg_file \<Rightarrow> win_disk \<Rightarrow> win_disk option" where
  "GenerateFile api can_write s f d =
     (let ls = read_lines_512 s
      in if 1000 < length ls then None
      else do {
        ls \<leftarrow> gen_items api (m_vItem f) ls ([], []);
        Some (if can_write
              then d\<lparr>w_files := (w_files d)(''CFG_New'' \<mapsto> concat (map (\<lambda>l. l @ [CHR 0x0A]) ls))\<rparr>
              else d) })"

section \<open>Which items are updated\<close>

text \<open>\<open>md5_set\<close>: every item has the 32 digits the comparison looks at.\<close>

definition md5_set :: "cfg_item list \<Rightarrow> bool" where
  "md5_set its \<longleftrightarrow> (\<forall>it \<in> set its. \<exists>m. i_Md5 it = Some m \<and> length m = MD5_TEXT_LEN)"

lemma same_md5_set:
  "i_Md5 a = Some x \<Longrightarrow> i_Md5 b = Some y \<Longrightarrow> length x = MD5_TEXT_LEN \<Longrightarrow> length y = MD5_TEXT_LEN \<Longrightarrow> same_md5 a b = Some (x = y)"
  by (simp add: same_md5_def)

lemma sync_loop_set:
  "i_Md5 it = Some m \<Longrightarrow> length m = MD5_TEXT_LEN \<Longrightarrow> md5_set ts \<Longrightarrow>
   sync_loop api it ts = Some (\<not> (\<exists>t \<in> set ts. same_name api it t \<and> i_Md5 t = i_Md5 it))"
  by (induction ts) (auto simp: md5_set_def same_md5_set)

text \<open>An item is installed as it is when the old file has one of its name with its MD5.\<close>

definition unchanged :: "win_api \<Rightarrow> cfg_file \<Rightarrow> cfg_item \<Rightarrow> bool" where
  "unchanged api old it \<longleftrightarrow> (\<exists>t \<in> set (m_vItem old). same_name api it t \<and> i_Md5 t = i_Md5 it)"

lemma compare_loop_marks:
  "md5_set its \<Longrightarrow> md5_set (m_vItem old) \<Longrightarrow>
   compare_loop api old its =
     Some (map (\<lambda>it. if unchanged api old it then it else it\<lparr>i_NeedUpdate := True\<rparr>) its, \<exists>it \<in> set its. \<not> unchanged api old it)"
proof (induction its)
  case (Cons it its)
  obtain m where m: "i_Md5 it = Some m" "length m = MD5_TEXT_LEN" using Cons.prems(1) by (auto simp: md5_set_def)
  have "(if FindItem api old it then IsItemSync api old it else Some True) = Some (\<not> unchanged api old it)"
    using sync_loop_set [OF m Cons.prems(2), of api]
    by (auto simp: FindItem_def IsItemSync_def unchanged_def list_ex_iff)
  then show ?case using Cons by (simp add: md5_set_def)
qed simp

text \<open>C11: The comparison of a new configuration with the installed one marks exactly the items to be updated: those for
  which the old file has no item of the same name with the same MD5. It reports whether there is one, changes no
  other field of an item and keeps their order.\<close>

theorem compare_marks_changed:
  assumes "md5_set (m_vItem f)" "md5_set (m_vItem old)" "\<not> f_NeedUpdate f" "\<forall>it \<in> set (m_vItem f). \<not> i_NeedUpdate it"
  shows "\<exists>f'. CompareFile api old f = Some (\<exists>it \<in> set (m_vItem f). \<not> unchanged api old it, f') \<and>
    f_NeedUpdate f' = (\<exists>it \<in> set (m_vItem f'). i_NeedUpdate it) \<and>
    m_vItem f' = map (\<lambda>it. it\<lparr>i_NeedUpdate := \<not> unchanged api old it\<rparr>) (m_vItem f)"
proof -
  have "map (\<lambda>it. if unchanged api old it then it else it\<lparr>i_NeedUpdate := True\<rparr>) (m_vItem f) =
      map (\<lambda>it. it\<lparr>i_NeedUpdate := \<not> unchanged api old it\<rparr>) (m_vItem f)"
    using assms(4) by (intro map_cong) auto
  then show ?thesis
    using compare_loop_marks [OF assms(1,2), of api] assms(3) by (simp add: CompareFile_def Let_def)
qed

section \<open>The text of a configuration\<close>

text \<open>The four string functions of Windows as they are documented, for the characters of a configuration.\<close>

definition to_lower :: "char \<Rightarrow> char" where
  "to_lower c = (if of_char c \<in> {65..90 :: nat} then char_of (of_char c + 32 :: nat) else c)"

definition trim_doc :: "string \<Rightarrow> string \<Rightarrow> string" where
  "trim_doc s cs = rev (dropWhile (\<lambda>c. c \<in> set cs) (rev (dropWhile (\<lambda>c. c \<in> set cs) s)))"

definition cmp_doc :: "string \<Rightarrow> string \<Rightarrow> nat \<Rightarrow> bool" where
  "cmp_doc s t n = (map to_lower (take n s) = map to_lower (take n t))"

definition chr_doc :: "string \<Rightarrow> char \<Rightarrow> nat option" where
  "chr_doc s c =
     (let k = length (takeWhile (\<lambda>x. to_lower x \<noteq> to_lower c) s) in if k < length s then Some k else None)"

definition str_ok :: "win_api \<Rightarrow> bool" where
  "str_ok api \<longleftrightarrow> StrTrimA api = trim_doc \<and> StrCmpNIA api = cmp_doc \<and> StrChrIA api = chr_doc \<and>
     StrCpyNA api = (\<lambda>n. take (n - 1))"

text \<open>A line with a parameter, and an item: its name, its parameters, \<open>end\<close>.\<close>

definition cfg_line :: "string \<times> string \<Rightarrow> string" where
  "cfg_line kv = fst kv @ CHR ''='' # snd kv @ [CHR 0x0A]"

definition item_text :: "string \<times> (string \<times> string) list \<Rightarrow> string" where
  "item_text sp = fst sp @ CHR '':'' # CFG_ITEM_KEY @ CHR 0x0A # concat (map cfg_line (snd sp)) @ ''end'' @ [CHR 0x0A]"

text \<open>\<open>tidy\<close>: nothing to trim, one line. A key also has no separator, and does not begin like \<open>end\<close>.\<close>

definition tidy :: "nat \<Rightarrow> string \<Rightarrow> bool" where
  "tidy n s \<longleftrightarrow> length s < n \<and> CHR 0x0A \<notin> set s \<and> (s \<noteq> [] \<longrightarrow> hd s \<notin> set BLANKS \<and> last s \<notin> set BLANKS)"

definition key_ok :: "nat \<Rightarrow> string \<Rightarrow> bool" where
  "key_ok n s \<longleftrightarrow> tidy n s \<and> s \<noteq> [] \<and> CHR ''='' \<notin> set s \<and> CHR '':'' \<notin> set s \<and> \<not> cmp_doc s ''end'' 3"

lemma dropWhile_hd: "(xs \<noteq> [] \<Longrightarrow> \<not> P (hd xs)) \<Longrightarrow> dropWhile P xs = xs"
  by (cases xs) simp_all

lemma trim_tidy: "tidy n s \<Longrightarrow> trim_doc s BLANKS = s"
proof -
  assume s: "tidy n s"
  then have "dropWhile (\<lambda>c. c \<in> set BLANKS) s = s" by (intro dropWhile_hd) (simp add: tidy_def)
  moreover have "dropWhile (\<lambda>c. c \<in> set BLANKS) (rev s) = rev s" using s by (intro dropWhile_hd) (simp add: tidy_def hd_rev)
  ultimately show ?thesis by (simp add: trim_doc_def)
qed

lemma trim_line:
  assumes "key_ok n k" "tidy m v" "c \<notin> set BLANKS"
  shows "trim_doc (k @ c # v @ [CHR 0x0A]) BLANKS = k @ c # v"
proof -
  obtain x k' where k: "k = x # k'" "x \<notin> set BLANKS" using assms(1) by (cases k) (auto simp: key_ok_def tidy_def)
  have nl: "CHR 0x0A \<in> set BLANKS" by (simp add: BLANKS_def)
  have "dropWhile (\<lambda>x. x \<in> set BLANKS) (rev v @ c # rev k) = rev v @ c # rev k"
    using assms(2,3) by (cases v rule: rev_cases) (auto simp: tidy_def)
  then show ?thesis using k nl by (simp add: trim_doc_def)
qed

lemma to_lower_sep: "to_lower x = CHR ''='' \<longleftrightarrow> x = CHR ''=''" "to_lower x = CHR '':'' \<longleftrightarrow> x = CHR '':''"
proof -
  have "to_lower x = c \<longleftrightarrow> x = c" if "of_char c \<notin> {97..122 :: nat}" "of_char c \<notin> {65..90 :: nat}" for c
  proof
    assume l: "to_lower x = c"
    show "x = c"
    proof (cases "of_char x \<in> {65..90 :: nat}")
      case True
      then have "(of_char c :: nat) = of_char x + 32" using l [symmetric] by (simp add: to_lower_def of_char_of)
      then show ?thesis using True that(1) by auto
    qed (use l in \<open>auto simp: to_lower_def split: if_splits\<close>)
  qed (use that(2) in \<open>auto simp: to_lower_def\<close>)
  then show "to_lower x = CHR ''='' \<longleftrightarrow> x = CHR ''=''" "to_lower x = CHR '':'' \<longleftrightarrow> x = CHR '':''" by simp_all
qed

lemma chr_doc_sep:
  "c \<in> {CHR ''='', CHR '':''} \<Longrightarrow> c \<notin> set k \<Longrightarrow> chr_doc (k @ c # v) c = Some (length k)"
  "c \<in> {CHR ''='', CHR '':''} \<Longrightarrow> c \<notin> set k \<Longrightarrow> chr_doc k c = None"
proof -
  assume c: "c \<in> {CHR ''='', CHR '':''}" "c \<notin> set k"
  have low: "to_lower x = to_lower c \<longleftrightarrow> x = c" for x
    using c(1) to_lower_sep [of x] to_lower_sep [of c] by auto
  have k: "takeWhile (\<lambda>x. to_lower x \<noteq> to_lower c) (k @ ys) = k @ takeWhile (\<lambda>x. to_lower x \<noteq> to_lower c) ys" for ys
    using c(2) by (intro takeWhile_append2) (auto simp: low)
  show "chr_doc (k @ c # v) c = Some (length k)" using k [of "c # v"] by (simp add: chr_doc_def)
  have "takeWhile (\<lambda>x. to_lower x \<noteq> to_lower c) k = k" using k [of "[]"] by (simp del: takeWhile_eq_all_conv)
  then show "chr_doc k c = None" by (simp add: chr_doc_def Let_def del: takeWhile_eq_all_conv)
qed

lemma not_end: "key_ok n k \<Longrightarrow> c \<in> {CHR ''='', CHR '':''} \<Longrightarrow> \<not> cmp_doc (k @ c # v) ''end'' 3"
proof -
  assume k: "key_ok n k" and c: "c \<in> {CHR ''='', CHR '':''}"
  have c: "to_lower c \<notin> {CHR ''e'', CHR ''n'', CHR ''d''}" "to_lower (CHR ''e'') = CHR ''e''"
    "to_lower (CHR ''n'') = CHR ''n''" "to_lower (CHR ''d'') = CHR ''d''"
    using c by (auto simp: to_lower_def)
  consider "k = []" | a where "k = [a]" | a b where "k = [a, b]" | a b e k' where "k = a # b # e # k'"
    by (metis neq_Nil_conv)
  then show ?thesis using k c by cases (auto simp: cmp_doc_def key_ok_def numeral_3_eq_3)
qed

lemma parse_param:
  assumes "str_ok api" "key_ok (nc - 2) k" "tidy (vc - 2) v"
  shows "ParseLine api nc vc (cfg_line (k, v)) nv = Some (3, k @ CHR ''='' # v, k, v)"
proof -
  have l: "trim_doc (cfg_line (k, v)) BLANKS = k @ CHR ''='' # v"
    using trim_line [OF assms(2,3), of "CHR ''=''"] by (simp add: cfg_line_def BLANKS_def)
  have "\<not> cmp_doc (k @ CHR ''='' # v) ''end'' 3" "chr_doc (k @ CHR ''='' # v) (CHR ''='') = Some (length k)"
    using not_end [OF assms(2)] chr_doc_sep(1) [of "CHR ''=''" k v] assms(2) by (simp_all add: key_ok_def)
  moreover have "trim_doc k BLANKS = k" "trim_doc v BLANKS = v" "length k + 1 < nc" "Suc (length v) < vc"
    using assms(2,3) trim_tidy by (auto simp: key_ok_def tidy_def)
  ultimately show ?thesis using assms(1) l by (simp add: ParseLine_def Let_def str_ok_def)
qed

lemma parse_head:
  assumes "str_ok api" "key_ok (nc - 2) k" "10 \<le> vc"
  shows "ParseLine api nc vc (k @ CHR '':'' # CFG_ITEM_KEY @ [CHR 0x0A]) nv = Some (4, k @ CHR '':'' # CFG_ITEM_KEY, k, CFG_ITEM_KEY)"
proof -
  have t: "tidy 8 CFG_ITEM_KEY" by (simp add: tidy_def CFG_ITEM_KEY_def BLANKS_def)
  then have l: "trim_doc (k @ CHR '':'' # CFG_ITEM_KEY @ [CHR 0x0A]) BLANKS = k @ CHR '':'' # CFG_ITEM_KEY"
    by (intro trim_line [OF assms(2)]) (simp_all add: BLANKS_def)
  have "\<not> cmp_doc (k @ CHR '':'' # CFG_ITEM_KEY) ''end'' 3" "chr_doc (k @ CHR '':'' # CFG_ITEM_KEY) (CHR '':'') = Some (length k)"
    "chr_doc (k @ CHR '':'' # CFG_ITEM_KEY) (CHR ''='') = None"
    using not_end [OF assms(2)] chr_doc_sep(1) [of "CHR '':''" k] chr_doc_sep(2) [of "CHR ''=''" "k @ CHR '':'' # CFG_ITEM_KEY"] assms(2)
    by (simp_all add: key_ok_def CFG_ITEM_KEY_def)
  moreover have "trim_doc k BLANKS = k" "length k + 1 < nc" "length CFG_ITEM_KEY + 2 < vc"
    using assms(2,3) trim_tidy by (auto simp: key_ok_def tidy_def CFG_ITEM_KEY_def)
  moreover have "trim_doc CFG_ITEM_KEY BLANKS = CFG_ITEM_KEY" using t by (rule trim_tidy)
  ultimately show ?thesis using assms(1) l by (simp add: ParseLine_def Let_def str_ok_def)
qed

lemma parse_end: "str_ok api \<Longrightarrow> ParseLine api nc vc (''end'' @ [CHR 0x0A]) nv = Some (2, ''end'', nv)"
  by (simp add: ParseLine_def Let_def str_ok_def trim_doc_def cmp_doc_def BLANKS_def)

lemma ReadLine_line:
  assumes "CHR 0x0A \<notin> set l" "length l + 2 \<le> n"
  shows "ReadLine n (l @ CHR 0x0A # r) = Some (l @ [CHR 0x0A], r)"
proof -
  have "takeWhile (\<lambda>c. c \<noteq> CHR 0x0A) (l @ CHR 0x0A # r) = l" using assms(1) by (simp add: takeWhile_append)
  moreover have "min (n - 1) (Suc (length l)) = Suc (length l)" using assms(2) by simp
  ultimately show ?thesis unfolding ReadLine_def by (simp only: Let_def) simp
qed

text \<open>What the parameters of an item, the global ones, and a list of items leave behind.\<close>

fun apply_params :: "win_api \<Rightarrow> string \<Rightarrow> (string \<times> string) list \<Rightarrow> cfg_item \<Rightarrow> win_disk \<Rightarrow> (cfg_item \<times> win_disk) option" where
  "apply_params api prog [] it d = Some (it, d)"
| "apply_params api prog (kv # kvs) it d = do {
     (_, it, d) \<leftarrow> Item_SetParam api prog (fst kv) (snd kv) it d;
     apply_params api prog kvs it d }"

fun build_items :: "win_api \<Rightarrow> string \<Rightarrow> (string \<times> (string \<times> string) list) list \<Rightarrow> cfg_file \<Rightarrow> win_disk \<Rightarrow> (cfg_file \<times> win_disk) option" where
  "build_items api prog [] f d = Some (f, d)"
| "build_items api prog (sp # sps) f d = do {
     (it, d) \<leftarrow> apply_params api prog (snd sp) (SetPath api (m_LocalPath f) (RopCfgItem_new api (fst sp))) d;
     build_items api prog sps (f\<lparr>m_vItem := m_vItem f @ [it]\<rparr>) d }"

definition globals_set :: "win_api \<Rightarrow> (string \<times> string) list \<Rightarrow> cfg_file \<Rightarrow> cfg_file" where
  "globals_set api kvs f = fold (\<lambda>kv f. snd (File_SetParam api (fst kv) (snd kv) f)) kvs f"

definition params_ok :: "nat \<Rightarrow> (string \<times> string) list \<Rightarrow> bool" where
  "params_ok n kvs \<longleftrightarrow> (\<forall>kv \<in> set kvs. key_ok n (fst kv) \<and> tidy n (snd kv))"

lemma ReadLine_param:
  "key_ok n (fst kv) \<Longrightarrow> tidy n (snd kv) \<Longrightarrow> 2 * n + 2 \<le> m \<Longrightarrow> ReadLine m (cfg_line kv @ r) = Some (cfg_line kv, r)"
  using ReadLine_line [of "fst kv @ CHR ''='' # snd kv" m r] by (auto simp: cfg_line_def key_ok_def tidy_def)

lemma item_loop_params:
  assumes "str_ok api"
  shows "params_ok 500 kvs \<Longrightarrow>
    item_loop api prog (concat (map cfg_line kvs) @ s) it d =
      do { (it, d) \<leftarrow> apply_params api prog kvs it d; item_loop api prog s it d }"
proof (induction kvs arbitrary: it d)
  case (Cons kv kvs)
  then have kv: "key_ok 500 (fst kv)" "tidy 500 (snd kv)" "params_ok 500 kvs" by (simp_all add: params_ok_def)
  then have p: "ParseLine api 1024 1024 (cfg_line kv) ([], []) = Some (3, fst kv @ CHR ''='' # snd kv, fst kv, snd kv)"
    using parse_param [OF assms, of 1024 "fst kv" 1024 "snd kv"] by (simp add: key_ok_def tidy_def)
  have "ReadLine 1023 (cfg_line kv @ s) = Some (cfg_line kv, s)" for s by (rule ReadLine_param [OF kv(1,2)]) simp
  then show ?case
    using Cons.IH [OF kv(3)] by (subst item_loop.simps) (simp add: p split: option.split prod.split Option.bind_split)
qed simp

lemma item_loop_text:
  assumes "str_ok api" "params_ok 500 kvs"
  shows "item_loop api prog (concat (map cfg_line kvs) @ ''end'' @ CHR 0x0A # r) it d =
      do { (it, d) \<leftarrow> apply_params api prog kvs it d; Some (0, it, r, d) }"
proof -
  have "ReadLine 1023 (''end'' @ CHR 0x0A # r) = Some (''end'' @ [CHR 0x0A], r)" by (rule ReadLine_line) simp_all
  then have "item_loop api prog (''end'' @ CHR 0x0A # r) it d = Some (0, it, r, d)" for it d
    using parse_end [OF assms(1), of 1024 1024 "([], [])"] by (subst item_loop.simps) simp
  then show ?thesis unfolding item_loop_params [OF assms] by (simp split: Option.bind_split)
qed

lemma item_loop_head:
  assumes "str_ok api" "key_ok 500 k"
  shows "item_loop api prog (k @ CHR '':'' # CFG_ITEM_KEY @ CHR 0x0A # r) it d = Some (- 1, it, r, d)"
proof -
  let ?head = "k @ CHR '':'' # CFG_ITEM_KEY"
  have "ReadLine 1023 (?head @ CHR 0x0A # r) = Some (?head @ [CHR 0x0A], r)"
    by (rule ReadLine_line) (use assms(2) in \<open>auto simp: key_ok_def tidy_def CFG_ITEM_KEY_def\<close>)
  moreover have "ParseLine api 1024 1024 (?head @ [CHR 0x0A]) ([], []) = Some (4, ?head, k, CFG_ITEM_KEY)"
    using parse_head [OF assms(1), of 1024 k 1024] assms(2) by (simp add: key_ok_def tidy_def)
  ultimately show ?thesis by (subst item_loop.simps) simp
qed

lemma file_loop_globals:
  assumes "str_ok api"
  shows "params_ok 126 kvs \<Longrightarrow>
    file_loop api (concat (map cfg_line kvs) @ r) f d = file_loop api r (globals_set api kvs f) d"
proof (induction kvs arbitrary: f)
  case (Cons kv kvs)
  then have kv: "key_ok 126 (fst kv)" "tidy 126 (snd kv)" "params_ok 126 kvs" by (simp_all add: params_ok_def)
  then have p: "ParseLine api 128 128 (cfg_line kv) ([], []) = Some (3, fst kv @ CHR ''='' # snd kv, fst kv, snd kv)"
    using parse_param [OF assms, of 128 "fst kv" 128 "snd kv"] by simp
  have "ReadLine 512 (cfg_line kv @ s) = Some (cfg_line kv, s)" for s by (rule ReadLine_param [OF kv(1,2)]) simp
  then show ?case using Cons.IH [OF kv(3)] p by (cases kv) (subst file_loop.simps, simp add: globals_set_def)
qed (simp add: globals_set_def)

lemma file_loop_head:
  assumes "str_ok api" "key_ok 126 k"
  shows "file_loop api (k @ CHR '':'' # CFG_ITEM_KEY @ CHR 0x0A # r) f d =
    do { (r, f, d) \<leftarrow> read_item api k r f d; file_loop api r f d }"
proof -
  let ?head = "k @ CHR '':'' # CFG_ITEM_KEY"
  have r: "ReadLine 512 (?head @ CHR 0x0A # r) = Some (?head @ [CHR 0x0A], r)"
    by (rule ReadLine_line) (use assms(2) in \<open>auto simp: key_ok_def tidy_def CFG_ITEM_KEY_def\<close>)
  have p: "ParseLine api 128 128 (?head @ [CHR 0x0A]) ([], []) = Some (4, ?head, k, CFG_ITEM_KEY)"
    using parse_head [OF assms(1), of 128 k 128] assms(2) by simp
  have k: "is_key api CFG_ITEM_KEY CFG_ITEM_KEY" using assms(1) by (simp add: is_key_def str_ok_def cmp_doc_def)
  show ?thesis
    using r p k by (subst file_loop.simps) (simp split: option.split Option.bind_split)
qed

lemma file_loop_end: "str_ok api \<Longrightarrow> file_loop api (''end'' @ CHR 0x0A # r) f d = Some (0, f, d)"
proof -
  assume api: "str_ok api"
  have "ReadLine 512 (''end'' @ CHR 0x0A # r) = Some (''end'' @ [CHR 0x0A], r)" by (rule ReadLine_line) simp_all
  then show ?thesis using parse_end [OF api, of 128 128 "([], [])"] by (subst file_loop.simps) simp
qed

lemma file_loop_items:
  assumes "str_ok api" "module_path api = Some m" "dir_of m = Some prog"
  shows "\<forall>sp \<in> set sps. key_ok 126 (fst sp) \<and> params_ok 500 (snd sp) \<Longrightarrow>
    file_loop api (concat (map item_text sps)) f d = do { (f, d) \<leftarrow> build_items api prog sps f d; Some (0, f, d) }"
proof (induction sps arbitrary: f d)
  case Nil
  show ?case by (subst file_loop.simps) (simp add: ReadLine_def)
next
  case (Cons sp sps)
  have sp: "key_ok 126 (fst sp)" "params_ok 500 (snd sp)" using Cons.prems by simp_all
  have "read_item api (fst sp) (concat (map cfg_line (snd sp)) @ ''end'' @ CHR 0x0A # concat (map item_text sps)) f d =
      do { (it, d) \<leftarrow> apply_params api prog (snd sp) (SetPath api (m_LocalPath f) (RopCfgItem_new api (fst sp))) d;
           Some (concat (map item_text sps), f\<lparr>m_vItem := m_vItem f @ [it]\<rparr>, d) }"
    by (simp add: read_item_def Item_ReadAndInit_def assms(2,3) item_loop_text [OF assms(1) sp(2), simplified] split: Option.bind_split)
  moreover have "concat (map item_text (sp # sps)) =
      fst sp @ CHR '':'' # CFG_ITEM_KEY @ CHR 0x0A # concat (map cfg_line (snd sp)) @ ''end'' @ CHR 0x0A # concat (map item_text sps)"
    by (simp add: item_text_def)
  ultimately show ?case
    using Cons file_loop_head [OF assms(1) sp(1), of "concat (map cfg_line (snd sp)) @ ''end'' @ CHR 0x0A # concat (map item_text sps)" f d]
    by (simp split: Option.bind_split)
qed

text \<open>
  Reading the text of global parameters and of any number of items sets the parameters one after the other; RopCfgEntry
  says what comes out, field by field.
\<close>

lemma cfg_text_read:
  assumes "str_ok api" "module_path api = Some m" "dir_of m = Some prog" "params_ok 126 gs"
    "\<forall>sp \<in> set sps. key_ok 126 (fst sp) \<and> params_ok 500 (snd sp)"
  shows "File_ReadAndInit api (concat (map cfg_line gs) @ concat (map item_text sps)) f d =
    do { (f, d) \<leftarrow> build_items api prog sps (globals_set api gs f) d; Some (0, f, d) }"
  by (simp add: File_ReadAndInit_def file_loop_globals [OF assms(1,4)] file_loop_items [OF assms(1-3,5)])

definition api_demo :: win_api where
  "api_demo = \<lparr>StrTrimA = trim_doc, StrCmpNIA = cmp_doc, StrChrIA = chr_doc, StrCpyNA = (\<lambda>n. take (n - 1)),
     CreateDirectoryA = (\<lambda>p d. d\<lparr>w_dirs := p # w_dirs d\<rparr>),
     DeleteFileA = (\<lambda>p d. (if w_files d (path_key p) = None then 2 else 0, d\<lparr>w_files := (w_files d)(path_key p := None)\<rparr>)),
     MoveFileExA = (\<lambda>p q later d. case (w_files d (path_key p), q) of
       (Some c, Some q) \<Rightarrow> (if later then (0, d) else (0, d\<lparr>w_files := (w_files d)(path_key p := None, path_key q \<mapsto> c)\<rparr>))
     | _ \<Rightarrow> (2, d)),
     URLDownloadToFileA = (\<lambda>u p d. if u = ''http://h:80//gendo?id=41'' then (True, d\<lparr>w_files := (w_files d)(path_key p \<mapsto> ''new'')\<rparr>) else (False, d)),
     has_urlmon = True, module_path = Some (''c'' @ BACKSLASH # ''up.exe''),
     file_md5 = (\<lambda>c. replicate MD5_TEXT_LEN (CHR ''0'')), rand_now = 41, time_stamp = ''11111''\<rparr>"

lemma api_demo_ok: "str_ok api_demo" "module_path api_demo = Some (''c'' @ BACKSLASH # ''up.exe'')"
  "dir_of (''c'' @ BACKSLASH # ''up.exe'') = Some ''c''"
  by (simp_all add: str_ok_def api_demo_def dir_of_def BACKSLASH_def)

lemma demo_keys: "\<not> cmp_doc ''Main'' ''end'' 3" "\<not> cmp_doc ''NameOnLocal'' ''end'' 3" "\<not> cmp_doc ''OEMProduct'' ''end'' 3"
  "\<not> cmp_doc (replicate 127 (CHR ''x'')) ''end'' 3"
  by code_simp+

text \<open>An item whose \<open>end\<close> is missing swallows the next one: the heading of the next item ends it, the parameters of the
  next item are taken for global ones, and its \<open>end\<close> for the end of the file, so whatever follows is ignored. The
  file is still read with success.\<close>

theorem cfg_missing_end:
  assumes "str_ok api" "module_path api = Some m" "dir_of m = Some prog" "key_ok 126 n1" "params_ok 500 kvs1"
    "key_ok 500 n2" "params_ok 126 kvs2"
  shows "File_ReadAndInit api (n1 @ CHR '':'' # CFG_ITEM_KEY @ CHR 0x0A # concat (map cfg_line kvs1) @ item_text (n2, kvs2) @ rest) f d =
    do { (it, d) \<leftarrow> apply_params api prog kvs1 (SetPath api (m_LocalPath f) (RopCfgItem_new api n1)) d;
         Some (0, globals_set api kvs2 (f\<lparr>m_vItem := m_vItem f @ [it]\<rparr>), d) }"
proof -
  let ?tail = "concat (map cfg_line kvs2) @ ''end'' @ CHR 0x0A # rest"
  have "read_item api n1 (concat (map cfg_line kvs1) @ n2 @ CHR '':'' # CFG_ITEM_KEY @ CHR 0x0A # ?tail) f d =
      do { (it, d) \<leftarrow> apply_params api prog kvs1 (SetPath api (m_LocalPath f) (RopCfgItem_new api n1)) d;
           Some (?tail, f\<lparr>m_vItem := m_vItem f @ [it]\<rparr>, d) }"
    by (simp add: read_item_def Item_ReadAndInit_def assms(2,3) item_loop_params [OF assms(1,5)] item_loop_head [OF assms(1,6)]
      split: Option.bind_split)
  moreover have "file_loop api ?tail f d = Some (0, globals_set api kvs2 f, d)" for f d
    using file_loop_globals [OF assms(1,7)] file_loop_end [OF assms(1)] by simp
  ultimately show ?thesis
    using file_loop_head [OF assms(1,4), of "concat (map cfg_line kvs1) @ n2 @ CHR '':'' # CFG_ITEM_KEY @ CHR 0x0A # ?tail" f d]
    by (simp add: File_ReadAndInit_def item_text_def split: Option.bind_split)
qed

theorem cfg_missing_end_witness:
  "\<forall>f d rest. File_ReadAndInit api_demo (''Main'' @ CHR '':'' # CFG_ITEM_KEY @ CHR 0x0A # concat (map cfg_line []) @
      item_text (''Main'', [(''OEMProduct'', ''x'')]) @ rest) f d =
    Some (0, globals_set api_demo [(''OEMProduct'', ''x'')]
      (f\<lparr>m_vItem := m_vItem f @ [SetPath api_demo (m_LocalPath f) (RopCfgItem_new api_demo ''Main'')]\<rparr>), d)"
  by (intro allI, subst cfg_missing_end [OF api_demo_ok])
    (simp_all add: params_ok_def key_ok_def tidy_def BLANKS_def demo_keys)

text \<open>The items and the whole file differ in the arrays they parse into.\<close>

lemma trim_doc_length: "length (trim_doc s cs) \<le> length s"
  by (simp add: trim_doc_def) (metis le_trans length_dropWhile_le length_rev)

lemma item_lines_fit:
  assumes "str_ok api" "ReadLine 1023 s = Some (line, r)"
  shows "ParseLine api 1024 1024 line nv \<noteq> None"
proof -
  have "length line \<le> 1022" using assms(2) by (auto simp: ReadLine_def Let_def split: if_splits)
  then have "length (trim_doc line BLANKS) \<le> 1022" using trim_doc_length [of line BLANKS] by simp
  then show ?thesis using assms(1) by (auto simp: ParseLine_def Let_def str_ok_def chr_doc_def split: if_splits)
qed

text \<open>C13: A global parameter whose name or value has 127 characters or more overruns the array it is parsed into, though the
  line was read whole; no line an item reads can do that.\<close>

theorem long_global_overflows:
  assumes "str_ok api" "key_ok 510 k" "tidy 510 v" "length k + length v \<le> 509" "127 \<le> length k \<or> 127 \<le> length v"
  shows "File_ReadAndInit api (cfg_line (k, v) @ r) f d = None \<and>
    (\<forall>s line r nv. ReadLine 1023 s = Some (line, r) \<longrightarrow> ParseLine api 1024 1024 line nv \<noteq> None)"
proof -
  have l: "trim_doc (cfg_line (k, v)) BLANKS = k @ CHR ''='' # v"
    using trim_line [OF assms(2,3), of "CHR ''=''"] by (simp add: cfg_line_def BLANKS_def)
  have "\<not> cmp_doc (k @ CHR ''='' # v) ''end'' 3" "chr_doc (k @ CHR ''='' # v) (CHR ''='') = Some (length k)"
    using not_end [OF assms(2)] chr_doc_sep(1) [of "CHR ''=''" k v] assms(2) by (simp_all add: key_ok_def)
  then have "ParseLine api 128 128 (cfg_line (k, v)) ([], []) = None"
    using assms(1,5) l by (auto simp: ParseLine_def Let_def str_ok_def)
  moreover have "ReadLine 512 (cfg_line (k, v) @ r) = Some (cfg_line (k, v), r)"
    using ReadLine_line [of "k @ CHR ''='' # v" 512 r] assms(2-4) by (auto simp: cfg_line_def key_ok_def tidy_def)
  ultimately have "file_loop api (cfg_line (k, v) @ r) f d = None" by (subst file_loop.simps) simp
  then show ?thesis using item_lines_fit [OF assms(1)] by (simp add: File_ReadAndInit_def)
qed

theorem long_global_overflows_witness:
  "\<forall>f d. File_ReadAndInit api_demo (cfg_line (replicate 127 (CHR ''x''), [])) f d = None"
proof -
  have "key_ok 510 (replicate 127 (CHR ''x''))" by (simp add: key_ok_def tidy_def BLANKS_def demo_keys)
  moreover have "tidy 510 []" by (simp add: tidy_def)
  ultimately show ?thesis
    using long_global_overflows [OF api_demo_ok(1), of "replicate 127 (CHR ''x'')" "[]" "[]"] by simp
qed

definition item_demo :: "char \<Rightarrow> cfg_item" where
  "item_demo c = (RopCfgItem_new api_demo ''Main'')\<lparr>i_Md5 := Some (replicate MD5_TEXT_LEN c)\<rparr>"

definition file_demo :: "cfg_item list \<Rightarrow> cfg_file" where
  "file_demo its = \<lparr>m_LocalPath = [], m_FileName = [], m_vItem = its, f_NeedUpdate = False, m_OEMCompany = [], m_OEMProduct = [],
     m_OEMProgmenu = [], m_Downloadmask = None, m_ClientVersion = None, m_HttpServerAddr = Some ''h'', m_ServerDownloadPort = 80,
     m_ServerAddr = [], m_ServerServicePort = 0, m_ServerDownloadPath = [], m_dwDialSleep = None, m_UpdateMsg = replicate 5 []\<rparr>"

theorem compare_marks_changed_witness:
  "\<exists>f'. CompareFile api_demo (file_demo [item_demo (CHR ''a'')]) (file_demo [item_demo (CHR ''b'')]) = Some (True, f') \<and>
    map i_NeedUpdate (m_vItem f') = [True]"
  using compare_marks_changed [of "file_demo [item_demo (CHR ''b'')]" "file_demo [item_demo (CHR ''a'')]" api_demo]
  by (auto simp: file_demo_def item_demo_def md5_set_def unchanged_def RopCfgItem_new_def MD5_TEXT_LEN_def)

end
