(* ===== verification/DecText.thy ===== *)
theory DecText imports LibString begin

text \<open>
  Printed decimal numbers and how they are read back: what \<open>%d\<close> prints is the longest prefix of digits of what follows
  it, and its value is the number. Shared by the components that read texts the program or its server has written.
\<close>

lemma digit_char_facts:
  assumes "d < 10"
  shows "digit_val (digit_char d) = int d" "\<not> isspace (digit_char d)" "digit_char d \<noteq> CHR ''-''" "digit_char d \<noteq> CHR ''+''"
    "digit_char d \<notin> {CHR '','', CHR ''='', CHR 0x00, CHR 0x0A}"
proof -
  have "\<forall>d \<in> set [0..<10]. digit_val (digit_char d) = int d \<and> \<not> isspace (digit_char d) \<and> digit_char d \<noteq> CHR ''-'' \<and>
      digit_char d \<noteq> CHR ''+'' \<and> digit_char d \<notin> {CHR '','', CHR ''='', CHR 0x00, CHR 0x0A}"
    by code_simp
  then show "digit_val (digit_char d) = int d" "\<not> isspace (digit_char d)" "digit_char d \<noteq> CHR ''-''" "digit_char d \<noteq> CHR ''+''"
    "digit_char d \<notin> {CHR '','', CHR ''='', CHR 0x00, CHR 0x0A}"
    using assms by auto
qed

lemma dec_digits_chars: "c \<in> set (dec_digits n) \<Longrightarrow> \<exists>d < 10. c = digit_char d"
proof (induction n rule: dec_digits.induct)
  case (1 n)
  show ?case
  proof (cases "n < 10")
    case True
    then show ?thesis using 1(2) by (subst (asm) dec_digits.simps) auto
  next
    case False
    then have "c \<in> set (dec_digits (n div 10)) \<or> c = digit_char (n mod 10)"
      using 1(2) by (subst (asm) dec_digits.simps) auto
    then show ?thesis using 1(1) False by (metis mod_less_divisor zero_less_numeral)
  qed
qed

lemma dec_digits_not_Nil [simp]: "dec_digits n \<noteq> []"
  by (subst dec_digits.simps) simp

lemma dec_digits_hd: "\<exists>d < 10. hd (dec_digits n) = digit_char d"
  by (rule dec_digits_chars [of _ n]) (rule hd_in_set [OF dec_digits_not_Nil])

lemma digits_value_snoc: "digits_value b (ds @ [c]) = digits_value b ds * b + digit_val c"
  by (simp add: digits_value_def)

lemma digits_value_dec: "digits_value 10 (dec_digits n) = int n"
proof (induction n rule: dec_digits.induct)
  case (1 n)
  show ?case
  proof (cases "n < 10")
    case True
    then show ?thesis by (subst dec_digits.simps) (simp add: digits_value_def digit_char_facts)
  next
    case False
    have "digits_value 10 (dec_digits n) = digits_value 10 (dec_digits (n div 10)) * 10 + digit_val (digit_char (n mod 10))"
      using False by (subst dec_digits.simps) (simp add: digits_value_snoc)
    also have "\<dots> = int (n div 10) * 10 + int (n mod 10)" using 1 False by (simp add: digit_char_facts)
    also have "\<dots> = int n" by presburger
    finally show ?thesis .
  qed
qed

lemma length_dec_digits: "n < 10 ^ k \<Longrightarrow> 0 < k \<Longrightarrow> length (dec_digits n) \<le> k"
proof (induction n arbitrary: k rule: dec_digits.induct)
  case (1 n)
  show ?case
  proof (cases "n < 10")
    case True
    then show ?thesis using 1(3) by (subst dec_digits.simps) simp
  next
    case False
    then obtain j where k: "k = Suc j" "0 < j" using 1(2,3) by (cases k; cases "k - 1") auto
    then have "n div 10 < 10 ^ j" using 1(2) by (simp add: less_mult_imp_div_less mult.commute)
    then have "length (dec_digits (n div 10)) \<le> j" using 1(1) False k by simp
    then show ?thesis using False k by (subst dec_digits.simps) simp
  qed
qed

lemma strtol_dec:
  assumes "rest = [] \<or> 10 \<le> digit_val (hd rest)" "int n < 2 ^ 63"
  shows "strtol 10 (dec_digits n @ rest) = (int n, rest)"
proof -
  obtain d where d: "d < 10" "hd (dec_digits n) = digit_char d" using dec_digits_hd by blast
  obtain x xs where xs: "dec_digits n = x # xs" by (cases "dec_digits n") auto
  have x: "x = digit_char d" using d xs by simp
  have "takeWhile (\<lambda>c. digit_val c < 10) (dec_digits n @ rest) = dec_digits n @ takeWhile (\<lambda>c. digit_val c < 10) rest"
    by (rule takeWhile_append2) (use dec_digits_chars digit_char_facts(1) in fastforce)
  also have "takeWhile (\<lambda>c. digit_val c < 10) rest = []" using assms(1) by (cases rest) auto
  finally have t: "digits_of 10 (dec_digits n @ rest) = dec_digits n" by (simp add: digits_of_def)
  have "dropWhile isspace (dec_digits n @ rest) = dec_digits n @ rest"
    using digit_char_facts(2) [OF d(1)] by (simp add: xs x)
  then show ?thesis
    using assms(2) t digits_value_dec [of n] digit_char_facts(3,4) [OF d(1)] by (simp add: strtol_def Let_def xs x)
qed

lemma fmt_d_nat: "fmt_d (int n) = dec_digits n"
  by (simp add: fmt_d_def)

lemma fmt_d_no_sep: "0 \<le> k \<Longrightarrow> c \<in> set (fmt_d k) \<Longrightarrow> c \<notin> {CHR '','', CHR ''='', CHR 0x00, CHR 0x0A}"
  using dec_digits_chars [of c "nat k"] digit_char_facts(5) by (auto simp: fmt_d_def)

end
