(* ===== verification/RopCfgEntry.thy ===== *)
theory RopCfgEntry imports RopCfg DecText begin

text \<open>
  What \<open>Client/Update\<close> reads from a configuration file, stated field by field: \<open>entry\<close> and \<open>globals\<close> are what an author of
  the file writes down, \<open>entry_params\<close> and \<open>globals_params\<close> the lines of the file, and \<open>entry_item\<close> and \<open>globals_file\<close> the
  objects that must come out, written without the functions that set the parameters.
\<close>

section \<open>Values\<close>

lemma trim_sub: "tidy n v \<Longrightarrow> set cs \<subseteq> set BLANKS \<Longrightarrow> trim_doc v cs = v"
proof -
  assume v: "tidy n v" "set cs \<subseteq> set BLANKS"
  have "dropWhile (\<lambda>c. c \<in> set cs) v = v" by (rule dropWhile_hd) (use v in \<open>auto simp: tidy_def\<close>)
  moreover have "dropWhile (\<lambda>c. c \<in> set cs) (rev v) = rev v"
    by (rule dropWhile_hd) (use v in \<open>auto simp: tidy_def hd_rev\<close>)
  ultimately show ?thesis by (simp add: trim_doc_def)
qed

lemma tabs_blank: "set TABS_EOL \<subseteq> set BLANKS"
  by (simp add: TABS_EOL_def BLANKS_def)

lemma tidy_take: "tidy MAX_NAME_LEN v \<Longrightarrow> take (MAX_NAME_LEN - 1) v = v"
  by (auto simp: tidy_def)

lemma tidy_dec:
  assumes "n < 2 ^ 31"
  shows "tidy MAX_NAME_LEN (dec_digits n)"
proof -
  have "length (dec_digits n) \<le> 10" using length_dec_digits [of n 10] assms by simp
  moreover have b: "c \<notin> set BLANKS \<and> c \<noteq> CHR 0x0A" if c: "c \<in> set (dec_digits n)" for c
  proof -
    obtain d where "d < 10" "c = digit_char d" using dec_digits_chars [OF c] by blast
    then have "\<not> isspace c" using digit_char_facts(2) by simp
    then show ?thesis by (auto simp: BLANKS_def isspace_def)
  qed
  moreover have "hd (dec_digits n) \<in> set (dec_digits n)" "last (dec_digits n) \<in> set (dec_digits n)" by simp_all
  ultimately show ?thesis using b [of "CHR 0x0A"] by (auto simp: tidy_def MAX_NAME_LEN_def)
qed

lemma atoi_dec: "n < 2 ^ 31 \<Longrightarrow> atoi (dec_digits n) = int n"
  using strtol_dec [of "[]" n] by (simp add: atoi_def c_int_id)

lemma tidy_longer: "tidy m v \<Longrightarrow> m \<le> n \<Longrightarrow> tidy n v"
  by (auto simp: tidy_def)

section \<open>An item\<close>

text \<open>What is written down for an item whose file lies in the directory of the program.\<close>

record entry =
  e_name :: string
  e_server :: string
  e_sext :: string
  e_local :: string
  e_lext :: string
  e_guid :: string
  e_ver :: string
  e_type :: nat
  e_os :: nat
  e_mask :: nat
  e_bytes :: nat
  e_md5 :: string

definition quotes :: string where "quotes = [CHR 0x22, CHR 0x22]"

definition entry_params :: "entry \<Rightarrow> (string \<times> string) list" where
  "entry_params e =
     [(''NameOnServer'', e_server e), (''ExtOnServer'', e_sext e), (''NameOnLocal'', e_local e), (''ExtOnLocal'', e_lext e),
      (''LocalPath'', quotes), (''Guid'', e_guid e), (''VerOnServer'', e_ver e), (''FileType'', dec_digits (e_type e)),
      (''SupportOS'', dec_digits (e_os e)), (''DownloadMask'', dec_digits (e_mask e)),
      (''SizeOnServer'', dec_digits (e_bytes e)), (''MD5'', e_md5 e)]"

definition entry_text :: "entry \<Rightarrow> string" where "entry_text e = item_text (e_name e, entry_params e)"

definition entry_item :: "string \<Rightarrow> string \<Rightarrow> entry \<Rightarrow> cfg_item" where
  "entry_item prog tmp e =
     \<lparr>i_Name = e_name e, i_TmpPath = tmp, i_NeedUpdate = False, i_Md5 = Some (e_md5 e), NameOnServer = e_server e,
      ExtOnServer = e_sext e, NameOnLocal = e_local e, ExtOnLocal = e_lext e, LocalPath = prog, ServerPath = [],
      VerOnServer = e_ver e, TmpSuffix = ''tmp'', orgLocalPath = Some quotes, i_Guid = Some (e_guid e),
      iFileType = Some (int (e_type e)), SupportOS = [word_of_nat (e_os e)], DownloadMask = Some (word_of_nat (e_mask e)),
      SizeOnServer = Some (word_of_nat (e_bytes e))\<rparr>"

text \<open>Names of at most 31 characters with nothing to trim, numbers below \<open>2 ^ 31\<close>, an MD5 of at most 32 characters.\<close>

definition entry_ok :: "entry \<Rightarrow> bool" where
  "entry_ok e \<longleftrightarrow> key_ok MAX_NAME_LEN (e_name e) \<and>
     (\<forall>v \<in> {e_server e, e_sext e, e_local e, e_lext e, e_guid e, e_ver e}. tidy MAX_NAME_LEN v) \<and>
     (\<forall>n \<in> {e_type e, e_os e, e_mask e, e_bytes e}. n < 2 ^ 31) \<and> tidy (Suc MD5_TEXT_LEN) (e_md5 e)"

lemmas key_compare = is_key_def cmp_doc_def to_lower_def Let_def

text \<open>The keys as \<open>SetParam\<close> trims them.\<close>

lemma trim_keys [simp]:
  "trim_doc ''NameOnServer'' TABS_EOL = ''NameOnServer''" "trim_doc ''ExtOnServer'' TABS_EOL = ''ExtOnServer''"
  "trim_doc ''NameOnLocal'' TABS_EOL = ''NameOnLocal''" "trim_doc ''ExtOnLocal'' TABS_EOL = ''ExtOnLocal''"
  "trim_doc ''LocalPath'' TABS_EOL = ''LocalPath''" "trim_doc ''Guid'' TABS_EOL = ''Guid''"
  "trim_doc ''VerOnServer'' TABS_EOL = ''VerOnServer''" "trim_doc ''FileType'' TABS_EOL = ''FileType''"
  "trim_doc ''SupportOS'' TABS_EOL = ''SupportOS''" "trim_doc ''DownloadMask'' TABS_EOL = ''DownloadMask''"
  "trim_doc ''SizeOnServer'' TABS_EOL = ''SizeOnServer''" "trim_doc ''MD5'' TABS_EOL = ''MD5''"
  "trim_doc quotes TABS_EOL = quotes"
  by (simp_all add: trim_doc_def TABS_EOL_def quotes_def)

lemma item_strings:
  assumes "str_ok api" "tidy MAX_NAME_LEN v"
  shows "Item_SetParam api prog ''NameOnServer'' v it d = Some (0, it\<lparr>NameOnServer := v\<rparr>, d)"
    "Item_SetParam api prog ''ExtOnServer'' v it d = Some (0, it\<lparr>ExtOnServer := v\<rparr>, d)"
    "Item_SetParam api prog ''NameOnLocal'' v it d = Some (0, it\<lparr>NameOnLocal := v\<rparr>, d)"
    "Item_SetParam api prog ''ExtOnLocal'' v it d = Some (0, it\<lparr>ExtOnLocal := v\<rparr>, d)"
    "Item_SetParam api prog ''Guid'' v it d = Some (0, it\<lparr>i_Guid := Some v\<rparr>, d)"
    "Item_SetParam api prog ''VerOnServer'' v it d = Some (0, it\<lparr>VerOnServer := v\<rparr>, d)"
  using assms trim_sub [OF assms(2) tabs_blank] tidy_take [OF assms(2)]
  by (simp_all add: Item_SetParam_def str_ok_def key_compare)

lemma item_others:
  assumes "str_ok api"
  shows "tidy (Suc MD5_TEXT_LEN) v \<Longrightarrow> Item_SetParam api prog ''MD5'' v it d = Some (0, it\<lparr>i_Md5 := Some v\<rparr>, d)"
    "length prog < 16 * MAX_NAME_LEN \<Longrightarrow>
      Item_SetParam api prog ''LocalPath'' quotes it d = Some (0, it\<lparr>orgLocalPath := Some quotes, LocalPath := prog\<rparr>, d)"
proof -
  show "Item_SetParam api prog ''MD5'' v it d = Some (0, it\<lparr>i_Md5 := Some v\<rparr>, d)" if "tidy (Suc MD5_TEXT_LEN) v"
  proof -
    have "take MD5_TEXT_LEN v = v" using that by (simp add: tidy_def)
    then show ?thesis using assms trim_sub [OF that tabs_blank] by (simp add: Item_SetParam_def str_ok_def key_compare)
  qed
  show "Item_SetParam api prog ''LocalPath'' quotes it d = Some (0, it\<lparr>orgLocalPath := Some quotes, LocalPath := prog\<rparr>, d)"
    if "length prog < 16 * MAX_NAME_LEN"
    using that assms
    by (simp add: Item_SetParam_def str_ok_def key_compare set_local_path_def fits_def quotes_def [symmetric])
      (simp add: quotes_def MAX_NAME_LEN_def)
qed

lemma item_numbers:
  assumes "str_ok api" "n < 2 ^ 31"
  shows "Item_SetParam api prog ''FileType'' (dec_digits n) it d = Some (0, it\<lparr>iFileType := Some (int n)\<rparr>, d)"
    "SupportOS it = [] \<Longrightarrow>
      Item_SetParam api prog ''SupportOS'' (dec_digits n) it d = Some (0, it\<lparr>SupportOS := [word_of_nat n]\<rparr>, d)"
    "Item_SetParam api prog ''DownloadMask'' (dec_digits n) it d = Some (0, it\<lparr>DownloadMask := Some (word_of_nat n)\<rparr>, d)"
    "Item_SetParam api prog ''SizeOnServer'' (dec_digits n) it d = Some (0, it\<lparr>SizeOnServer := Some (word_of_nat n)\<rparr>, d)"
  using assms trim_sub [OF tidy_dec [OF assms(2)] tabs_blank] atoi_dec [OF assms(2)]
  by (simp_all add: Item_SetParam_def str_ok_def key_compare)

lemma entry_applied:
  assumes "str_ok api" "entry_ok e" "length prog < 16 * MAX_NAME_LEN" "length tmp < MAX_NAME_LEN"
  shows "apply_params api prog (entry_params e) (SetPath api tmp (RopCfgItem_new api (e_name e))) d = Some (entry_item prog tmp e, d)"
proof -
  have "take (MAX_NAME_LEN - 1) (e_name e) = e_name e" "take (MAX_NAME_LEN - 1) tmp = tmp"
    using assms(2,4) by (auto simp: entry_ok_def key_ok_def tidy_def)
  then have new: "SetPath api tmp (RopCfgItem_new api (e_name e)) =
     \<lparr>i_Name = e_name e, i_TmpPath = tmp, i_NeedUpdate = False, i_Md5 = None, NameOnServer = [],
      ExtOnServer = [], NameOnLocal = [], ExtOnLocal = [], LocalPath = [], ServerPath = [], VerOnServer = [],
      TmpSuffix = ''tmp'', orgLocalPath = None, i_Guid = None, iFileType = None, SupportOS = [], DownloadMask = None,
      SizeOnServer = None\<rparr>"
    using assms(1) by (simp add: SetPath_def RopCfgItem_new_def str_ok_def)
  show ?thesis
    using assms(2,3) unfolding new entry_ok_def
    by (simp add: entry_params_def item_strings [OF assms(1)] item_others [OF assms(1)] item_numbers [OF assms(1)] entry_item_def)
qed

section \<open>The global parameters\<close>

record globals =
  o_company :: string
  o_product :: string
  o_menu :: string
  o_mask :: nat
  o_version :: string
  o_http :: string
  o_http_port :: nat
  o_server :: string
  o_service_port :: nat
  o_path :: string
  o_sleep :: nat
  o_messages :: "string list"

definition globals_params :: "globals \<Rightarrow> (string \<times> string) list" where
  "globals_params g =
     [(''OEMCompany'', o_company g), (''OEMProduct'', o_product g), (''OEMProgmenu'', o_menu g), (''Downloadmask'', dec_digits (o_mask g)),
      (''ClientVersion'', o_version g), (''HttpServerAddr'', o_http g), (''HttpServerDownloadPort'', dec_digits (o_http_port g)),
      (''ServerAddr'', o_server g), (''ServerServicePort'', dec_digits (o_service_port g)), (''ServerDownloadPath'', o_path g),
      (''SleepBeforeDial'', dec_digits (o_sleep g)), (''UpdateMsg1'', o_messages g ! 0), (''UpdateMsg2'', o_messages g ! 1),
      (''UpdateMsg3'', o_messages g ! 2), (''UpdateMsg4'', o_messages g ! 3), (''UpdateMsg5'', o_messages g ! 4)]"

definition globals_text :: "globals \<Rightarrow> string" where "globals_text g = concat (map cfg_line (globals_params g))"

definition globals_file :: "globals \<Rightarrow> cfg_file \<Rightarrow> cfg_file" where
  "globals_file g f =
     f\<lparr>m_OEMCompany := o_company g, m_OEMProduct := o_product g, m_OEMProgmenu := o_menu g, m_Downloadmask := Some (int (o_mask g)),
       m_ClientVersion := Some (o_version g), m_HttpServerAddr := Some (o_http g), m_ServerDownloadPort := int (o_http_port g),
       m_ServerAddr := o_server g, m_ServerServicePort := int (o_service_port g), m_ServerDownloadPath := o_path g,
       m_dwDialSleep := Some (int (o_sleep g)), m_UpdateMsg := o_messages g\<rparr>"

text \<open>A message may have up to 125 characters: the array that a line is parsed into is shorter than the one for a message.\<close>

definition globals_ok :: "globals \<Rightarrow> bool" where
  "globals_ok g \<longleftrightarrow>
     (\<forall>v \<in> {o_company g, o_product g, o_menu g, o_version g, o_http g, o_server g, o_path g}. tidy MAX_NAME_LEN v) \<and>
     (\<forall>n \<in> {o_mask g, o_http_port g, o_service_port g, o_sleep g}. n < 2 ^ 31) \<and>
     length (o_messages g) = 5 \<and> (\<forall>v \<in> set (o_messages g). tidy 126 v)"

lemma trim_global_keys [simp]:
  "trim_doc ''OEMCompany'' TABS_EOL = ''OEMCompany''" "trim_doc ''OEMProduct'' TABS_EOL = ''OEMProduct''"
  "trim_doc ''OEMProgmenu'' TABS_EOL = ''OEMProgmenu''" "trim_doc ''Downloadmask'' TABS_EOL = ''Downloadmask''"
  "trim_doc ''ClientVersion'' TABS_EOL = ''ClientVersion''" "trim_doc ''HttpServerAddr'' TABS_EOL = ''HttpServerAddr''"
  "trim_doc ''HttpServerDownloadPort'' TABS_EOL = ''HttpServerDownloadPort''" "trim_doc ''ServerAddr'' TABS_EOL = ''ServerAddr''"
  "trim_doc ''ServerServicePort'' TABS_EOL = ''ServerServicePort''" "trim_doc ''ServerDownloadPath'' TABS_EOL = ''ServerDownloadPath''"
  "trim_doc ''SleepBeforeDial'' TABS_EOL = ''SleepBeforeDial''" "trim_doc ''UpdateMsg1'' TABS_EOL = ''UpdateMsg1''"
  "trim_doc ''UpdateMsg2'' TABS_EOL = ''UpdateMsg2''" "trim_doc ''UpdateMsg3'' TABS_EOL = ''UpdateMsg3''"
  "trim_doc ''UpdateMsg4'' TABS_EOL = ''UpdateMsg4''" "trim_doc ''UpdateMsg5'' TABS_EOL = ''UpdateMsg5''"
  by (simp_all add: trim_doc_def TABS_EOL_def)

lemma file_strings:
  assumes "str_ok api" "tidy MAX_NAME_LEN v"
  shows "File_SetParam api ''OEMCompany'' v f = (0, f\<lparr>m_OEMCompany := v\<rparr>)"
    "File_SetParam api ''OEMProduct'' v f = (0, f\<lparr>m_OEMProduct := v\<rparr>)"
    "File_SetParam api ''OEMProgmenu'' v f = (0, f\<lparr>m_OEMProgmenu := v\<rparr>)"
    "File_SetParam api ''ClientVersion'' v f = (0, f\<lparr>m_ClientVersion := Some v\<rparr>)"
    "File_SetParam api ''HttpServerAddr'' v f = (0, f\<lparr>m_HttpServerAddr := Some v\<rparr>)"
    "File_SetParam api ''ServerAddr'' v f = (0, f\<lparr>m_ServerAddr := v\<rparr>)"
    "File_SetParam api ''ServerDownloadPath'' v f = (0, f\<lparr>m_ServerDownloadPath := v\<rparr>)"
  using assms trim_sub [OF assms(2) tabs_blank] tidy_take [OF assms(2)]
  by (simp_all add: File_SetParam_def str_ok_def key_compare)

lemma file_numbers:
  assumes "str_ok api" "n < 2 ^ 31"
  shows "File_SetParam api ''Downloadmask'' (dec_digits n) f = (0, f\<lparr>m_Downloadmask := Some (int n)\<rparr>)"
    "File_SetParam api ''HttpServerDownloadPort'' (dec_digits n) f = (0, f\<lparr>m_ServerDownloadPort := int n\<rparr>)"
    "File_SetParam api ''ServerServicePort'' (dec_digits n) f = (0, f\<lparr>m_ServerServicePort := int n\<rparr>)"
    "File_SetParam api ''SleepBeforeDial'' (dec_digits n) f = (0, f\<lparr>m_dwDialSleep := Some (int n)\<rparr>)"
  using assms trim_sub [OF tidy_dec [OF assms(2)] tabs_blank] atoi_dec [OF assms(2)]
  by (simp_all add: File_SetParam_def str_ok_def key_compare)

lemma file_messages:
  assumes "str_ok api" "tidy 126 v"
  shows "File_SetParam api ''UpdateMsg1'' v f = (0, f\<lparr>m_UpdateMsg := (m_UpdateMsg f)[0 := v]\<rparr>)"
    "File_SetParam api ''UpdateMsg2'' v f = (0, f\<lparr>m_UpdateMsg := (m_UpdateMsg f)[1 := v]\<rparr>)"
    "File_SetParam api ''UpdateMsg3'' v f = (0, f\<lparr>m_UpdateMsg := (m_UpdateMsg f)[2 := v]\<rparr>)"
    "File_SetParam api ''UpdateMsg4'' v f = (0, f\<lparr>m_UpdateMsg := (m_UpdateMsg f)[3 := v]\<rparr>)"
    "File_SetParam api ''UpdateMsg5'' v f = (0, f\<lparr>m_UpdateMsg := (m_UpdateMsg f)[4 := v]\<rparr>)"
proof -
  have "take (MAX_NAME_LEN * 10 - 1) v = v" using assms(2) by (simp add: tidy_def MAX_NAME_LEN_def)
  then show "File_SetParam api ''UpdateMsg1'' v f = (0, f\<lparr>m_UpdateMsg := (m_UpdateMsg f)[0 := v]\<rparr>)"
    "File_SetParam api ''UpdateMsg2'' v f = (0, f\<lparr>m_UpdateMsg := (m_UpdateMsg f)[1 := v]\<rparr>)"
    "File_SetParam api ''UpdateMsg3'' v f = (0, f\<lparr>m_UpdateMsg := (m_UpdateMsg f)[2 := v]\<rparr>)"
    "File_SetParam api ''UpdateMsg4'' v f = (0, f\<lparr>m_UpdateMsg := (m_UpdateMsg f)[3 := v]\<rparr>)"
    "File_SetParam api ''UpdateMsg5'' v f = (0, f\<lparr>m_UpdateMsg := (m_UpdateMsg f)[4 := v]\<rparr>)"
    using assms(1) trim_sub [OF assms(2) tabs_blank]
    by (simp_all add: File_SetParam_def str_ok_def key_compare)
qed

lemma five: "length xs = 5 \<Longrightarrow> \<exists>a b c d e. xs = [a, b, c, d, e]"
  by (auto simp: numeral_eq_Suc length_Suc_conv)

lemma messages_applied:
  assumes "str_ok api" "\<forall>v \<in> {a, b, c, d, e}. tidy 126 v" "length (m_UpdateMsg f) = 5"
  shows "globals_set api [(''UpdateMsg1'', a), (''UpdateMsg2'', b), (''UpdateMsg3'', c), (''UpdateMsg4'', d), (''UpdateMsg5'', e)] f =
    f\<lparr>m_UpdateMsg := [a, b, c, d, e]\<rparr>"
proof -
  have t: "tidy 126 a" "tidy 126 b" "tidy 126 c" "tidy 126 d" "tidy 126 e" using assms(2) by simp_all
  have set: "(us[0 := a])[1 := b, 2 := c, 3 := d, 4 := e] = [a, b, c, d, e]" if us: "length us = 5" for us
    using five [OF us] by auto
  show ?thesis
    unfolding globals_set_def
    by (simp only: file_messages [OF assms(1)] t fold_simps fst_conv snd_conv) (use set [OF assms(3)] in simp)
qed

lemma globals_applied:
  assumes "str_ok api" "globals_ok g" "length (m_UpdateMsg f) = 5"
  shows "globals_set api (globals_params g) f = globals_file g f"
proof -
  let ?first = "[(''OEMCompany'', o_company g), (''OEMProduct'', o_product g), (''OEMProgmenu'', o_menu g),
    (''Downloadmask'', dec_digits (o_mask g)), (''ClientVersion'', o_version g), (''HttpServerAddr'', o_http g),
    (''HttpServerDownloadPort'', dec_digits (o_http_port g)), (''ServerAddr'', o_server g),
    (''ServerServicePort'', dec_digits (o_service_port g)), (''ServerDownloadPath'', o_path g),
    (''SleepBeforeDial'', dec_digits (o_sleep g))]"
  have ok: "tidy MAX_NAME_LEN (o_company g)" "tidy MAX_NAME_LEN (o_product g)" "tidy MAX_NAME_LEN (o_menu g)"
    "tidy MAX_NAME_LEN (o_version g)" "tidy MAX_NAME_LEN (o_http g)" "tidy MAX_NAME_LEN (o_server g)" "tidy MAX_NAME_LEN (o_path g)"
    "o_mask g < 2 ^ 31" "o_http_port g < 2 ^ 31" "o_service_port g < 2 ^ 31" "o_sleep g < 2 ^ 31"
    using assms(2) by (simp_all add: globals_ok_def)
  have "length (o_messages g) = 5" using assms(2) by (simp add: globals_ok_def)
  then obtain a b c d e where m: "o_messages g = [a, b, c, d, e]" using five by blast
  have t: "\<forall>v \<in> {a, b, c, d, e}. tidy 126 v" using assms(2) by (simp add: globals_ok_def m)
  let ?f = "f\<lparr>m_OEMCompany := o_company g\<rparr>\<lparr>m_OEMProduct := o_product g\<rparr>\<lparr>m_OEMProgmenu := o_menu g\<rparr>
      \<lparr>m_Downloadmask := Some (int (o_mask g))\<rparr>\<lparr>m_ClientVersion := Some (o_version g)\<rparr>\<lparr>m_HttpServerAddr := Some (o_http g)\<rparr>
      \<lparr>m_ServerDownloadPort := int (o_http_port g)\<rparr>\<lparr>m_ServerAddr := o_server g\<rparr>\<lparr>m_ServerServicePort := int (o_service_port g)\<rparr>
      \<lparr>m_ServerDownloadPath := o_path g\<rparr>\<lparr>m_dwDialSleep := Some (int (o_sleep g))\<rparr>"
  have first: "globals_set api ?first f = ?f"
    unfolding globals_set_def
    by (simp only: file_strings [OF assms(1)] file_numbers [OF assms(1)] ok fold_simps fst_conv snd_conv)
  have "globals_params g = ?first @ [(''UpdateMsg1'', a), (''UpdateMsg2'', b), (''UpdateMsg3'', c), (''UpdateMsg4'', d), (''UpdateMsg5'', e)]"
    by (simp add: globals_params_def m)
  then have "globals_set api (globals_params g) f = ?f\<lparr>m_UpdateMsg := [a, b, c, d, e]\<rparr>"
    using messages_applied [OF assms(1) t, of ?f] assms(3) first by (simp add: globals_set_def)
  then show ?thesis by (simp add: globals_file_def m)
qed

section \<open>The file\<close>

lemma keys_ok:
  "\<forall>k \<in> {''OEMCompany'', ''OEMProduct'', ''OEMProgmenu'', ''Downloadmask'', ''ClientVersion'', ''HttpServerAddr'', ''HttpServerDownloadPort'',
     ''ServerAddr'', ''ServerServicePort'', ''ServerDownloadPath'', ''SleepBeforeDial'', ''UpdateMsg1'', ''UpdateMsg2'', ''UpdateMsg3'',
     ''UpdateMsg4'', ''UpdateMsg5''}. key_ok 126 k"
  "\<forall>k \<in> {''NameOnServer'', ''ExtOnServer'', ''NameOnLocal'', ''ExtOnLocal'', ''LocalPath'', ''Guid'', ''VerOnServer'', ''FileType'',
     ''SupportOS'', ''DownloadMask'', ''SizeOnServer'', ''MD5''}. key_ok 500 k"
  by code_simp+

lemma entry_lines: "entry_ok e \<Longrightarrow> key_ok 126 (e_name e) \<and> params_ok 500 (entry_params e)"
proof -
  assume ok: "entry_ok e"
  have "tidy 500 v" if "tidy MAX_NAME_LEN v \<or> tidy (Suc MD5_TEXT_LEN) v" for v
    using that by (auto simp: tidy_def MAX_NAME_LEN_def MD5_TEXT_LEN_def)
  moreover have "tidy 500 quotes" by (simp add: tidy_def quotes_def BLANKS_def)
  ultimately have "params_ok 500 (entry_params e)"
    using ok keys_ok(2) tidy_dec by (simp add: params_ok_def entry_params_def entry_ok_def)
  moreover have "key_ok 126 (e_name e)" using ok by (auto simp: entry_ok_def key_ok_def tidy_def MAX_NAME_LEN_def)
  ultimately show ?thesis by simp
qed

lemma globals_lines: "globals_ok g \<Longrightarrow> params_ok 126 (globals_params g)"
proof -
  assume ok: "globals_ok g"
  have "tidy 126 v" if "tidy MAX_NAME_LEN v" for v using that by (auto simp: tidy_def MAX_NAME_LEN_def)
  moreover have "\<forall>i < 5. tidy 126 (o_messages g ! i)" using ok by (simp add: globals_ok_def)
  ultimately show ?thesis using ok keys_ok(1) tidy_dec by (simp add: params_ok_def globals_params_def globals_ok_def)
qed

lemma entries_built:
  assumes "str_ok api" "length prog < 16 * MAX_NAME_LEN"
  shows "\<forall>e \<in> set es. entry_ok e \<Longrightarrow> length (m_LocalPath f) < MAX_NAME_LEN \<Longrightarrow>
    build_items api prog (map (\<lambda>e. (e_name e, entry_params e)) es) f d =
      Some (f\<lparr>m_vItem := m_vItem f @ map (entry_item prog (m_LocalPath f)) es\<rparr>, d)"
proof (induction es arbitrary: f)
  case (Cons e es)
  then show ?case using entry_applied [OF assms(1) _ assms(2), of e "m_LocalPath f" d] by simp
qed simp


definition demo_entry :: entry where
  "demo_entry = \<lparr>e_name = ''Main'', e_server = ''gendo'', e_sext = ''exe'', e_local = ''Gendo'', e_lext = ''exe'', e_guid = ''7'',
     e_ver = ''1.2'', e_type = 1, e_os = 3, e_mask = 5, e_bytes = 9, e_md5 = ''ab''\<rparr>"

definition demo_globals :: globals where
  "demo_globals = \<lparr>o_company = ''Rop'', o_product = ''Gendo'', o_menu = ''menu'', o_mask = 1, o_version = ''2.0'', o_http = ''h'',
     o_http_port = 80, o_server = ''s'', o_service_port = 90, o_path = ''p'', o_sleep = 4, o_messages = [''m1'', ''m2'', [], [], []]\<rparr>"


end
