(* ===== verification/RopUpdate.thy ===== *)
theory RopUpdate imports RopCfg begin

text \<open>
  \<open>Client/Update\<close>: downloading and installing the items of a configuration (\<open>RopFileUtil.cpp\<close>, \<open>RopCfgItem.cpp\<close>,
  \<open>RopCfgFile.cpp\<close>) and the interface of the updater (\<open>RopUpdate.cpp\<close>) with its two configurations, the installed
  and the new one. The main theorem says what is installed after an update, whatever the downloads did.
\<close>

section \<open>Downloading\<close>

definition CFG_NAME :: string where "CFG_NAME = ''version''"
definition TEMP_CFG_NAME :: string where "TEMP_CFG_NAME = ''_version_new_''"
definition LOCAL_CFG_PATH :: string where "LOCAL_CFG_PATH = [CHR ''.'', BACKSLASH]"
definition ERROR_ACCESS_DENIED :: int where "ERROR_ACCESS_DENIED = 5"

text \<open>
  The size of the file is looked up with the arguments of \<open>fseek\<close> swapped: offset \<open>SEEK_END\<close>, which is 2, from
  \<open>SEEK_SET\<close>, which is 0; so every file that can be opened has size 2.
\<close>

definition HttpDownloadFile :: "win_api \<Rightarrow> string \<Rightarrow> int \<Rightarrow> string \<Rightarrow> string \<Rightarrow> win_disk \<Rightarrow> (int \<times> win_disk) option" where
  "HttpDownloadFile api ip prt src dst d = do {
     addr \<leftarrow> fits MAX_NAME_LEN ip;
     url \<leftarrow> fits 4096 (''http://'' @ addr @ CHR '':'' # fmt_d prt @ CHR ''/'' # src);
     if \<not> has_urlmon api then Some (- 3, d)
     else
       let (ok, d) = URLDownloadToFileA api url dst d
       in if ok then Some (case win_fopen dst d of Some _ \<Rightarrow> 2 | None \<Rightarrow> 0, d) else Some (- 2, d) }"

definition DownLoadCfgFile :: "win_api \<Rightarrow> string \<Rightarrow> int \<Rightarrow> string \<Rightarrow> win_disk \<Rightarrow> (bool \<times> win_disk) option" where
  "DownLoadCfgFile api addr prt name d = do {
     loc \<leftarrow> fits 128 (LOCAL_CFG_PATH @ name);
     (ret, d) \<leftarrow> HttpDownloadFile api addr prt (''/download/'' @ CFG_NAME) loc d;
     Some (0 < ret, d) }"

section \<open>Items\<close>

definition src_path :: "cfg_file \<Rightarrow> cfg_item \<Rightarrow> string" where
  "src_path f it =
     m_ServerDownloadPath f @ ServerPath it @ CHR ''/'' # NameOnServer it @
       (if ExtOnServer it \<noteq> [] then CHR ''.'' # ExtOnServer it else [])"

definition dest_path :: "cfg_item \<Rightarrow> string" where
  "dest_path it = LocalPath it @ BACKSLASH # NameOnLocal it @ (if ExtOnLocal it \<noteq> [] then CHR ''.'' # ExtOnLocal it else [])"

definition tmp_path :: "cfg_item \<Rightarrow> string" where
  "tmp_path it = dest_path it @ CHR ''.'' # TmpSuffix it"

text \<open>\<open>DownloadFile\<close>: a temporary file left by an earlier try is deleted first.\<close>

definition Item_DownloadFile :: "win_api \<Rightarrow> cfg_file \<Rightarrow> string \<Rightarrow> int \<Rightarrow> cfg_item \<Rightarrow> win_disk \<Rightarrow> (int \<times> win_disk) option" where
  "Item_DownloadFile api f addr prt it d = do {
     src \<leftarrow> fits (16 * MAX_NAME_LEN) (src_path f it);
     dst \<leftarrow> fits (16 * MAX_NAME_LEN) (tmp_path it);
     let d = snd (DeleteFileA api dst d);
     src \<leftarrow> fits (16 * MAX_NAME_LEN) (src @ ''?id='' @ fmt_d (rand_now api));
     HttpDownloadFile api addr prt src dst d }"

definition Item_Update :: "win_api \<Rightarrow> cfg_file \<Rightarrow> cfg_item \<Rightarrow> win_disk \<Rightarrow> (int \<times> win_disk) option" where
  "Item_Update api f it d = do {
     addr \<leftarrow> m_HttpServerAddr f;
     (ret, d) \<leftarrow> Item_DownloadFile api f addr (m_ServerDownloadPort f) it d;
     Some (if ret = 0 then - 1 else 0, d) }"

text \<open>
  A file that cannot be replaced because it is in use is moved away, to be deleted at the next start; if the new one
  cannot be put in its place even then, that is put off as well.
\<close>

definition replace_in_use :: "win_api \<Rightarrow> string \<Rightarrow> string \<Rightarrow> string \<Rightarrow> win_disk \<Rightarrow> win_disk" where
  "replace_in_use api src dst away d =
     (let d = snd (MoveFileExA api dst (Some away) False d);
          d = snd (MoveFileExA api away None True d);
          (e, d) = MoveFileExA api src (Some dst) False d
      in if e \<noteq> 0 then snd (MoveFileExA api src (Some dst) True d) else d)"

definition Item_CopyFile :: "win_api \<Rightarrow> cfg_item \<Rightarrow> win_disk \<Rightarrow> win_disk option" where
  "Item_CopyFile api it d = do {
     src \<leftarrow> fits (16 * MAX_NAME_LEN) (tmp_path it);
     dst \<leftarrow> fits (16 * MAX_NAME_LEN) (dest_path it);
     let d = snd (DeleteFileA api dst d);
     let (e, d) = MoveFileExA api src (Some dst) False d;
     if e = ERROR_ACCESS_DENIED
     then do {
       away \<leftarrow> fits (16 * MAX_NAME_LEN) (i_TmpPath it @ BACKSLASH # NameOnLocal it @ CHR ''.'' # ExtOnLocal it @ CHR ''_'' # time_stamp api);
       Some (replace_in_use api src dst away d) }
     else Some d }"

text \<open>The paths are printed into arrays of a sixteenth of the size the others use.\<close>

definition Item_DeleteFile :: "win_api \<Rightarrow> cfg_item \<Rightarrow> win_disk \<Rightarrow> win_disk option" where
  "Item_DeleteFile api it d = do {
     _ \<leftarrow> fits MAX_NAME_LEN (i_TmpPath it @ BACKSLASH # NameOnServer it);
     dst \<leftarrow> fits MAX_NAME_LEN (LocalPath it @ BACKSLASH # NameOnLocal it @ CHR ''.'' # ExtOnLocal it);
     let (e, d) = DeleteFileA api dst d;
     if e = ERROR_ACCESS_DENIED
     then do {
       away \<leftarrow> fits MAX_NAME_LEN (dst @ CHR ''_'' # time_stamp api);
       let d = snd (MoveFileExA api dst (Some away) False d);
       Some (snd (MoveFileExA api away None True d)) }
     else Some d }"

section \<open>The file\<close>

text \<open>The items to be updated are downloaded one after the other until one fails; result, success, items, disk.\<close>

fun update_loop :: "win_api \<Rightarrow> cfg_file \<Rightarrow> cfg_item list \<Rightarrow> cfg_item list \<Rightarrow> win_disk \<Rightarrow> (int \<times> bool \<times> cfg_item list \<times> win_disk) option" where
  "update_loop api f [] upd d = Some (0, True, upd, d)"
| "update_loop api f (it # its) upd d =
     (if i_NeedUpdate it
      then do {
        (ret, d) \<leftarrow> Item_Update api f it d;
        if ret \<noteq> 0 then Some (ret, False, upd @ [it], d) else update_loop api f its (upd @ [it]) d }
      else update_loop api f its upd d)"

fun copy_loop :: "win_api \<Rightarrow> cfg_item list \<Rightarrow> win_disk \<Rightarrow> win_disk option" where
  "copy_loop api [] d = Some d"
| "copy_loop api (it # its) d = do { d \<leftarrow> Item_CopyFile api it d; copy_loop api its d }"

definition File_Update :: "win_api \<Rightarrow> cfg_file \<Rightarrow> win_disk \<Rightarrow> (int \<times> win_disk) option" where
  "File_Update api f d = do {
     (ret, ok, upd, d) \<leftarrow> update_loop api f (m_vItem f) [] d;
     d \<leftarrow> (if ok then copy_loop api upd d else Some d);
     Some (ret, d) }"

section \<open>The updater\<close>

record updater =
  pCfgCurrent :: "cfg_file option"
  pCfgNew :: "cfg_file option"

definition Upd_Init :: "win_api \<Rightarrow> bool \<Rightarrow> updater \<Rightarrow> win_disk \<Rightarrow> (int \<times> updater \<times> win_disk) option" where
  "Upd_Init api winsock u d =
     (if \<not> winsock then Some (- 1, u, d)
      else do {
        f \<leftarrow> RopCfgFile_new [] CFG_NAME;
        case OpenFile f d of
          None \<Rightarrow> Some (- 1, u\<lparr>pCfgCurrent := Some f\<rparr>, d)
        | Some s \<Rightarrow> do {
            (ret, f, d) \<leftarrow> File_ReadAndInit api s f d;
            Some (if ret \<noteq> 0 then - 2 else 0, u\<lparr>pCfgCurrent := Some f\<rparr>, d) } })"

definition Upd_IsServerAvaliable :: "updater \<Rightarrow> bool" where
  "Upd_IsServerAvaliable u = (pCfgCurrent u \<noteq> None)"

text \<open>The path on the server is put together in an array of \<open>MAX_NAME_LEN\<close> characters.\<close>

definition Upd_IsNeedUpdate :: "win_api \<Rightarrow> updater \<Rightarrow> win_disk \<Rightarrow> (bool \<times> updater \<times> win_disk) option" where
  "Upd_IsNeedUpdate api u d =
     (case pCfgCurrent u of
        None \<Rightarrow> Some (False, u, d)
      | Some c \<Rightarrow> do {
          addr \<leftarrow> m_HttpServerAddr c;
          remote \<leftarrow> fits MAX_NAME_LEN (m_ServerDownloadPath c @ CFG_NAME);
          remote \<leftarrow> fits MAX_NAME_LEN (remote @ ''?id='' @ fmt_d (rand_now api));
          (ret, d) \<leftarrow> HttpDownloadFile api addr (m_ServerDownloadPort c) remote (LOCAL_CFG_PATH @ TEMP_CFG_NAME) d;
          if ret \<le> 0 then Some (False, u, d)
          else do {
            f \<leftarrow> RopCfgFile_new LOCAL_CFG_PATH TEMP_CFG_NAME;
            case OpenFile f d of
              None \<Rightarrow> Some (False, u\<lparr>pCfgNew := Some f\<rparr>, d)
            | Some s \<Rightarrow> do {
                (ret, f, d) \<leftarrow> File_ReadAndInit api s f d;
                if ret \<noteq> 0 then Some (False, u\<lparr>pCfgNew := Some f\<rparr>, d)
                else do { (b, f) \<leftarrow> CompareFile api c f; Some (b, u\<lparr>pCfgNew := Some f\<rparr>, d) } } } })"

definition replace_cfg :: "win_api \<Rightarrow> win_disk \<Rightarrow> win_disk" where
  "replace_cfg api d =
     (let d = snd (DeleteFileA api CFG_NAME d);
          (e, d) = MoveFileExA api TEMP_CFG_NAME (Some CFG_NAME) False d
      in if e = ERROR_ACCESS_DENIED then replace_in_use api TEMP_CFG_NAME CFG_NAME (CFG_NAME @ CHR ''_'' # time_stamp api) d else d)"

definition Upd_Update :: "win_api \<Rightarrow> updater \<Rightarrow> win_disk \<Rightarrow> (bool \<times> updater \<times> win_disk) option" where
  "Upd_Update api u d =
     (case pCfgNew u of
        None \<Rightarrow> Some (False, u, d)
      | Some f \<Rightarrow> do {
          (ret, d) \<leftarrow> File_Update api f d;
          Some (ret = 0, u\<lparr>pCfgCurrent := None, pCfgNew := None\<rparr>, if ret = 0 then replace_cfg api d else d) })"

text \<open>\<open>UpdateNotice\<close>: the messages in five rows, whatever the number of rows of the caller; one that is too long is left out.\<close>

fun notice_loop :: "string list \<Rightarrow> nat \<Rightarrow> nat \<Rightarrow> string list \<Rightarrow> string list option" where
  "notice_loop [] i cols rows = Some rows"
| "notice_loop (m # ms) i cols rows =
     (if m = [] \<or> cols < Suc (length m) then notice_loop ms (Suc i) cols rows
      else if i < length rows then notice_loop ms (Suc i) cols (rows[i := m]) else None)"

definition Upd_UpdateNotice :: "nat \<Rightarrow> string list \<Rightarrow> updater \<Rightarrow> (int \<times> string list) option" where
  "Upd_UpdateNotice cols rows u =
     (case pCfgNew u of
        None \<Rightarrow> Some (- 1, rows)
      | Some f \<Rightarrow> do { rows \<leftarrow> notice_loop (m_UpdateMsg f) 0 cols rows; Some (0, rows) })"

definition Upd_Finl :: "updater \<Rightarrow> updater" where
  "Upd_Finl u = u\<lparr>pCfgCurrent := None, pCfgNew := None\<rparr>"

section \<open>What an update leaves behind\<close>

text \<open>
  The files as they are documented to behave when none is in use; \<open>server\<close> is what the server has under a URL, None
  when the download fails.
\<close>

definition files_ok :: "win_api \<Rightarrow> (string \<Rightarrow> string option) \<Rightarrow> bool" where
  "files_ok api server \<longleftrightarrow> has_urlmon api \<and>
     (\<forall>p d. snd (DeleteFileA api p d) = d\<lparr>w_files := (w_files d)(path_key p := None)\<rparr>) \<and>
     (\<forall>p q d. MoveFileExA api p (Some q) False d =
        (case w_files d (path_key p) of
           None \<Rightarrow> (2, d)
         | Some c \<Rightarrow> (0, d\<lparr>w_files := (w_files d)(path_key p := None, path_key q \<mapsto> c)\<rparr>))) \<and>
     (\<forall>u p d. URLDownloadToFileA api u p d =
        (case server u of None \<Rightarrow> (False, d) | Some c \<Rightarrow> (True, d\<lparr>w_files := (w_files d)(path_key p \<mapsto> c)\<rparr>)))"

definition dest_key :: "cfg_item \<Rightarrow> string" where "dest_key it = path_key (dest_path it)"
definition tmp_key :: "cfg_item \<Rightarrow> string" where "tmp_key it = path_key (tmp_path it)"

definition item_url :: "win_api \<Rightarrow> cfg_file \<Rightarrow> string \<Rightarrow> cfg_item \<Rightarrow> string" where
  "item_url api f addr it =
     ''http://'' @ addr @ CHR '':'' # fmt_d (m_ServerDownloadPort f) @ CHR ''/'' # src_path f it @ ''?id='' @ fmt_d (rand_now api)"

text \<open>The paths and the URL fit their arrays.\<close>

definition item_fits :: "win_api \<Rightarrow> cfg_file \<Rightarrow> string \<Rightarrow> cfg_item \<Rightarrow> bool" where
  "item_fits api f addr it \<longleftrightarrow> length addr < MAX_NAME_LEN \<and> length (item_url api f addr it) < 4096 \<and>
     length (tmp_path it) < 16 * MAX_NAME_LEN \<and> length (src_path f it @ ''?id='' @ fmt_d (rand_now api)) < 16 * MAX_NAME_LEN"

lemma fits_less [simp]: "length s < n \<Longrightarrow> fits n s = Some s"
  by (simp add: fits_def)

text \<open>Downloading an item succeeds whatever the server answers; afterwards the temporary file is the answer.\<close>

lemma Item_Update_any:
  assumes "files_ok api server" "m_HttpServerAddr f = Some addr" "item_fits api f addr it"
  shows "Item_Update api f it d = Some (0, d\<lparr>w_files := (w_files d)(tmp_key it := server (item_url api f addr it))\<rparr>)"
proof -
  have "length (src_path f it) < 16 * MAX_NAME_LEN" using assms(3) by (simp add: item_fits_def)
  then show ?thesis
    using assms by (simp add: Item_Update_def Item_DownloadFile_def HttpDownloadFile_def files_ok_def item_fits_def
      item_url_def tmp_key_def win_fopen_def Let_def split: option.split)
qed

lemma update_loop_any:
  assumes "files_ok api server" "m_HttpServerAddr f = Some addr"
  shows "\<forall>it \<in> set its. i_NeedUpdate it \<longrightarrow> item_fits api f addr it \<Longrightarrow> distinct (map tmp_key (filter i_NeedUpdate its)) \<Longrightarrow>
    \<exists>d'. update_loop api f its upd d = Some (0, True, upd @ filter i_NeedUpdate its, d') \<and>
      (\<forall>it \<in> set (filter i_NeedUpdate its). w_files d' (tmp_key it) = server (item_url api f addr it)) \<and>
      (\<forall>k. k \<notin> tmp_key ` set (filter i_NeedUpdate its) \<longrightarrow> w_files d' k = w_files d k)"
proof (induction its arbitrary: upd d)
  case (Cons it its)
  show ?case
  proof (cases "i_NeedUpdate it")
    case True
    let ?d = "d\<lparr>w_files := (w_files d)(tmp_key it := server (item_url api f addr it))\<rparr>"
    have u: "Item_Update api f it d = Some (0, ?d)" using Item_Update_any [OF assms] Cons.prems(1) True by simp
    obtain d' where "update_loop api f its (upd @ [it]) ?d = Some (0, True, (upd @ [it]) @ filter i_NeedUpdate its, d')"
        "\<forall>it \<in> set (filter i_NeedUpdate its). w_files d' (tmp_key it) = server (item_url api f addr it)"
        "\<forall>k. k \<notin> tmp_key ` set (filter i_NeedUpdate its) \<longrightarrow> w_files d' k = w_files ?d k"
      using Cons.IH [of "upd @ [it]" ?d] Cons.prems True by auto
    then show ?thesis using Cons.prems(2) True u by auto
  qed (use Cons in auto)
qed simp

lemma Item_CopyFile_any:
  assumes "files_ok api server" "length (tmp_path it) < 16 * MAX_NAME_LEN" "tmp_key it \<noteq> dest_key it"
  shows "Item_CopyFile api it d = Some (d\<lparr>w_files := (w_files d)(dest_key it := w_files d (tmp_key it), tmp_key it := None)\<rparr>)"
proof -
  have l: "length (dest_path it) < 16 * MAX_NAME_LEN" using assms(2) by (simp add: tmp_path_def)
  show ?thesis
  proof (cases "w_files d (tmp_key it)")
    case None
    then have "(w_files d)(dest_key it := None, tmp_key it := None) = (w_files d)(dest_key it := None)"
      using fun_upd_idem [of "(w_files d)(dest_key it := None)" "tmp_key it" None] assms(3) by simp
    then show ?thesis
      using None assms l by (simp add: Item_CopyFile_def files_ok_def tmp_key_def dest_key_def ERROR_ACCESS_DENIED_def Let_def)
  next
    case (Some c)
    then show ?thesis
      using assms l fun_upd_twist [OF assms(3), of "(w_files d)(dest_key it := None)" None "Some c"]
      by (simp add: Item_CopyFile_def files_ok_def tmp_key_def dest_key_def ERROR_ACCESS_DENIED_def Let_def)
  qed
qed

lemma copy_loop_any:
  assumes "files_ok api server"
  shows "\<forall>it \<in> set its. length (tmp_path it) < 16 * MAX_NAME_LEN \<Longrightarrow> distinct (map tmp_key its @ map dest_key its) \<Longrightarrow>
    \<exists>d'. copy_loop api its d = Some d' \<and> (\<forall>it \<in> set its. w_files d' (dest_key it) = w_files d (tmp_key it)) \<and>
      (\<forall>k. k \<notin> tmp_key ` set its \<union> dest_key ` set its \<longrightarrow> w_files d' k = w_files d k)"
proof (induction its arbitrary: d)
  case (Cons it its)
  let ?d = "d\<lparr>w_files := (w_files d)(dest_key it := w_files d (tmp_key it), tmp_key it := None)\<rparr>"
  have ne: "tmp_key it \<noteq> dest_key it" "\<forall>jt \<in> set its. tmp_key jt \<noteq> dest_key it \<and> tmp_key jt \<noteq> tmp_key it \<and> dest_key jt \<noteq> dest_key it"
      "dest_key it \<notin> tmp_key ` set its \<union> dest_key ` set its"
    using Cons.prems(2) by (auto simp: image_iff)
  have "Item_CopyFile api it d = Some ?d" using Item_CopyFile_any [OF assms _ ne(1)] Cons.prems(1) by simp
  moreover obtain d' where "copy_loop api its ?d = Some d'" "\<forall>jt \<in> set its. w_files d' (dest_key jt) = w_files ?d (tmp_key jt)"
      "\<forall>k. k \<notin> tmp_key ` set its \<union> dest_key ` set its \<longrightarrow> w_files d' k = w_files ?d k"
    using Cons.IH [of ?d] Cons.prems by auto
  ultimately show ?case using ne by auto
qed simp

lemma replace_cfg_any:
  assumes "files_ok api server"
  shows "w_files (replace_cfg api d) CFG_NAME = w_files d TEMP_CFG_NAME \<and>
    (\<forall>k. k \<noteq> CFG_NAME \<longrightarrow> k \<noteq> TEMP_CFG_NAME \<longrightarrow> w_files (replace_cfg api d) k = w_files d k)"
proof -
  have "path_key CFG_NAME = CFG_NAME" "path_key TEMP_CFG_NAME = TEMP_CFG_NAME" "CFG_NAME \<noteq> TEMP_CFG_NAME"
    by (simp_all add: path_key_def CFG_NAME_def TEMP_CFG_NAME_def BACKSLASH_def)
  then show ?thesis
    using assms by (auto simp: replace_cfg_def files_ok_def ERROR_ACCESS_DENIED_def Let_def split: option.split)
qed

text \<open>C10: when no file is in use (every deletion and every move of a file that is there succeeds), the URLs and paths fit
  their arrays and the files of the items are different from each other and from the two configurations, an update reports
  success whatever the server answered, and then the file of each item to be updated is what the server answered for it:
  a failed download counts as a success, so where the server answered nothing the installed file was deleted and nothing
  put in its place. The new configuration replaces the old one in any case.\<close>

theorem update_installs_answers:
  assumes "files_ok api server" "pCfgNew u = Some f" "m_HttpServerAddr f = Some addr"
    "\<forall>it \<in> set (m_vItem f). i_NeedUpdate it \<longrightarrow> item_fits api f addr it"
    "distinct (CFG_NAME # TEMP_CFG_NAME # map tmp_key (filter i_NeedUpdate (m_vItem f)) @ map dest_key (filter i_NeedUpdate (m_vItem f)))"
  shows "\<exists>u' d'. Upd_Update api u d = Some (True, u', d') \<and>
    (\<forall>it \<in> set (m_vItem f). i_NeedUpdate it \<longrightarrow> w_files d' (dest_key it) = server (item_url api f addr it)) \<and>
    w_files d' CFG_NAME = w_files d TEMP_CFG_NAME"
proof -
  let ?its = "filter i_NeedUpdate (m_vItem f)"
  obtain d1 where d1: "update_loop api f (m_vItem f) [] d = Some (0, True, ?its, d1)"
      "\<forall>it \<in> set ?its. w_files d1 (tmp_key it) = server (item_url api f addr it)"
      "\<forall>k. k \<notin> tmp_key ` set ?its \<longrightarrow> w_files d1 k = w_files d k"
    using update_loop_any [OF assms(1,3,4), of "[]" d] assms(5) by auto
  obtain d2 where d2: "copy_loop api ?its d1 = Some d2" "\<forall>it \<in> set ?its. w_files d2 (dest_key it) = w_files d1 (tmp_key it)"
      "\<forall>k. k \<notin> tmp_key ` set ?its \<union> dest_key ` set ?its \<longrightarrow> w_files d2 k = w_files d1 k"
    using copy_loop_any [OF assms(1), of ?its d1] assms(4,5) by (auto simp: item_fits_def)
  have "Upd_Update api u d = Some (True, u\<lparr>pCfgCurrent := None, pCfgNew := None\<rparr>, replace_cfg api d2)"
    using assms(2) d1(1) d2(1) by (simp add: Upd_Update_def File_Update_def)
  moreover have "w_files d2 TEMP_CFG_NAME = w_files d TEMP_CFG_NAME" using assms(5) d1(3) d2(3) by auto
  moreover have "\<forall>it \<in> set ?its. dest_key it \<noteq> CFG_NAME \<and> dest_key it \<noteq> TEMP_CFG_NAME"
    using assms(5) by (simp only: distinct.simps set_append set_map list.set Un_iff image_iff insert_iff) metis
  ultimately show ?thesis using replace_cfg_any [OF assms(1), of d2] d1(2) d2(2) by auto
qed

definition updater_demo :: "string \<Rightarrow> updater" where
  "updater_demo name =
     \<lparr>pCfgCurrent = None, pCfgNew = Some (file_demo [(item_demo (CHR ''a''))\<lparr>i_NeedUpdate := True, NameOnServer := name, NameOnLocal := ''gendo''\<rparr>])\<rparr>"

definition server_demo :: "string \<Rightarrow> string option" where
  "server_demo u = (if u = ''http://h:80//gendo?id=41'' then Some ''new'' else None)"

lemma files_ok_demo: "files_ok api_demo server_demo"
  by (simp add: files_ok_def api_demo_def server_demo_def split: option.split)

lemma demo_item:
  fixes name defines "it \<equiv> (item_demo (CHR ''a''))\<lparr>i_NeedUpdate := True, NameOnServer := name, NameOnLocal := ''gendo''\<rparr>"
  shows "dest_key it = BACKSLASH # ''gendo''" "tmp_key it = BACKSLASH # ''gendo.tmp''"
    "item_url api_demo (file_demo [it]) ''h'' it = ''http://h:80//'' @ name @ ''?id=41''"
    "length name < 32 \<Longrightarrow> item_fits api_demo (file_demo [it]) ''h'' it"
  by (simp_all add: it_def item_demo_def RopCfgItem_new_def dest_key_def tmp_key_def tmp_path_def dest_path_def path_key_def
    item_url_def file_demo_def api_demo_def src_path_def item_fits_def fmt_d_def dec_digits.simps digit_char_def MAX_NAME_LEN_def BACKSLASH_def)

theorem update_installs_answers_witness:
  "(\<exists>u' d'. Upd_Update api_demo (updater_demo ''lost'') \<lparr>w_files = [BACKSLASH # ''gendo'' \<mapsto> ''old''], w_dirs = []\<rparr> = Some (True, u', d') \<and>
      w_files d' (BACKSLASH # ''gendo'') = None) \<and>
   (\<exists>u' d'. Upd_Update api_demo (updater_demo ''gendo'') \<lparr>w_files = [BACKSLASH # ''gendo'' \<mapsto> ''old''], w_dirs = []\<rparr> = Some (True, u', d') \<and>
      w_files d' (BACKSLASH # ''gendo'') = Some ''new'')"
proof -
  let ?it = "\<lambda>name. (item_demo (CHR ''a''))\<lparr>i_NeedUpdate := True, NameOnServer := name, NameOnLocal := ''gendo''\<rparr>"
  have "\<exists>u' d'. Upd_Update api_demo (updater_demo name) d = Some (True, u', d') \<and>
      w_files d' (BACKSLASH # ''gendo'') = server_demo (''http://h:80//'' @ name @ ''?id=41'')" if "length name < 32" for name d
    using update_installs_answers [OF files_ok_demo, of "updater_demo name" "file_demo [?it name]" "''h''" d] demo_item [of name] that
    by (auto simp: updater_demo_def file_demo_def CFG_NAME_def TEMP_CFG_NAME_def BACKSLASH_def)
  from this [of "''lost''"] this [of "''gendo''"] show ?thesis by (simp add: server_demo_def)
qed

text \<open>The checks for an update overrun an array when the path on the server is long, though it was stored without loss.\<close>

lemma long_download_path_crashes:
  "pCfgCurrent u = Some c \<Longrightarrow> 21 \<le> length (m_ServerDownloadPath c) \<Longrightarrow> Upd_IsNeedUpdate api u d = None"
  by (cases "m_HttpServerAddr c") (simp_all add: Upd_IsNeedUpdate_def fits_def MAX_NAME_LEN_def CFG_NAME_def)

text \<open>The number of rows of the caller is not looked at.\<close>

lemma notice_overflows:
  "pCfgNew u = Some f \<Longrightarrow> m_UpdateMsg f = replicate 5 ''x'' \<Longrightarrow> 2 \<le> cols \<Longrightarrow> length rows < 5 \<Longrightarrow> Upd_UpdateNotice cols rows u = None"
  by (auto simp: Upd_UpdateNotice_def numeral_eq_Suc less_Suc_eq)

end
