(* ===== verification/RopProxy.thy ===== *)
theory RopProxy imports RopSyncMsg LibTicket begin

text \<open>
  \<open>Client/RopCltLib/RopProxy.cpp\<close>: the handshakes of the client with SOCKS4, SOCKS5 and HTTP proxies, and the
  base64 encoding of the credentials. Every handshake works in one array, into which requests are written and replies
  received, one over the other; only what was written there is known, and looking further is \<open>None\<close>.
\<close>

unbundle bit_operations_syntax

section \<open>Base64\<close>

definition base64digits :: string where
  "base64digits = ''ABCDEFGHIJKLMNOPQRSTUVWXYZabcdefghijklmnopqrstuvwxyz0123456789+/''"

definition b64 :: "byte \<Rightarrow> char" where "b64 w = base64digits ! unat w"

fun to64frombits :: "byte list \<Rightarrow> string" where
  "to64frombits (a # b # c # r) =
     b64 (drop_bit 2 a) # b64 ((push_bit 4 a AND 0x30) OR drop_bit 4 b) # b64 ((push_bit 2 b AND 0x3C) OR drop_bit 6 c) #
     b64 (c AND 0x3F) # to64frombits r"
| "to64frombits [a, b] =
     [b64 (drop_bit 2 a), b64 ((push_bit 4 a AND 0x30) OR drop_bit 4 b), b64 (push_bit 2 b AND 0x3C), CHR ''='']"
| "to64frombits [a] = [b64 (drop_bit 2 a), b64 (push_bit 4 a AND 0x30), CHR ''='', CHR ''='']"
| "to64frombits [] = []"

section \<open>The proxy\<close>

definition PROXY_NAME_LEN :: nat where "PROXY_NAME_LEN = 128"
definition INADDR_NONE :: "32 word" where "INADDR_NONE = 0xFFFFFFFF"

record proxy_param =
  p_Type :: int
  p_Host :: string
  p_Port :: int
  p_NeedPass :: bool
  p_User :: string
  p_Pass :: string

text \<open>What was sent, what is to be received, and whether the coming calls of \<open>send\<close> succeed (afterwards all do).\<close>

record proxy_io =
  px_sent :: "byte list list"
  px_in :: "win_ev list"
  px_ok :: "bool list"

definition proxy_send :: "byte list \<Rightarrow> proxy_io \<Rightarrow> bool \<times> proxy_io" where
  "proxy_send bs io =
     (case px_ok io of
        False # oks \<Rightarrow> (False, io\<lparr>px_ok := oks\<rparr>)
      | oks \<Rightarrow> (True, io\<lparr>px_sent := px_sent io @ [bs], px_ok := tl oks\<rparr>))"

text \<open>A reply of at most 200 bytes over what the array holds; None if there is an error.\<close>

definition proxy_recv :: "byte list \<Rightarrow> proxy_io \<Rightarrow> byte list option \<times> proxy_io" where
  "proxy_recv buf io =
     (let (ret, _, bs, es) = win_recv 200 (px_in io)
      in (if ret = SOCKET_ERROR then None else Some (bs @ drop (length bs) buf), io\<lparr>px_in := es\<rparr>))"

text \<open>One request and the reply to it: the result if the handshake ends here, or the array.\<close>

definition exchange :: "byte list \<Rightarrow> byte list \<Rightarrow> proxy_io \<Rightarrow> (int + byte list) \<times> proxy_io" where
  "exchange req rest io =
     (let (ok, io) = proxy_send req io
      in if \<not> ok then (Inl (- 1), io)
      else case proxy_recv (req @ rest) io of
        (None, io) \<Rightarrow> (Inl (- 2), io)
      | (Some buf, io) \<Rightarrow> (Inr buf, io))"

definition known :: "byte list \<Rightarrow> nat \<Rightarrow> byte option" where
  "known buf i = (if i < length buf then Some (buf ! i) else None)"

text \<open>A text put together in an array of \<open>n\<close> characters.\<close>

definition in_array :: "nat \<Rightarrow> string \<Rightarrow> byte list option" where
  "in_array n s = (if length s < n then Some (bytes_of s) else None)"

section \<open>HTTP\<close>

definition CRLF :: string where "CRLF = [CHR 0x0D, CHR 0x0A]"

text \<open>\<open>strstr\<close> in the array: a match that ends before the terminator, which must be there if there is no match.\<close>

fun has_sub :: "byte list \<Rightarrow> byte list \<Rightarrow> bool" where
  "has_sub pat [] = (pat = [])"
| "has_sub pat (x # xs) = (take (length pat) (x # xs) = pat \<or> has_sub pat xs)"

definition c_strstr :: "byte list \<Rightarrow> byte list \<Rightarrow> bool option" where
  "c_strstr buf pat =
     (if has_sub pat (takeWhile (\<lambda>b. b \<noteq> 0) buf) then Some True else if 0 \<in> set buf then Some False else None)"

definition http_request :: "proxy_param \<Rightarrow> string \<Rightarrow> int \<Rightarrow> byte list option" where
  "http_request proxy target prt =
     (if \<not> p_NeedPass proxy
      then in_array 2000 (''CONNECT '' @ target @ '':'' @ fmt_d prt @ '' HTTP/1.0'' @ CRLF @ ''User-Agent: sslvpn'' @ CRLF @ CRLF)
      else do {
        auth \<leftarrow> in_array 1025 (p_User proxy @ '':'' @ p_Pass proxy);
        _ \<leftarrow> in_array 1025 (to64frombits auth);
        in_array 2000 (''CONNECT '' @ target @ '':'' @ fmt_d prt @ '' HTTP/1.0'' @ CRLF @ ''Proxy-Authorization: Basic '' @
          to64frombits auth @ CRLF @ CRLF) })"

definition doHttp11Connect :: "proxy_param \<Rightarrow> string \<Rightarrow> int \<Rightarrow> proxy_io \<Rightarrow> (int \<times> proxy_io) option" where
  "doHttp11Connect proxy target prt io = do {
     req \<leftarrow> http_request proxy target prt;
     case exchange req [0] io of
       (Inl e, io) \<Rightarrow> Some (e, io)
     | (Inr buf, io) \<Rightarrow> do { ok \<leftarrow> c_strstr buf (bytes_of ''200''); Some (if ok then 0 else - 3, io) } }"

section \<open>SOCKS\<close>

text \<open>\<open>htons\<close>, and the address as \<open>inet_addr\<close> (a parameter) stores it.\<close>

definition port_bytes :: "int \<Rightarrow> byte list" where
  "port_bytes prt = (let w = word_of_int prt :: 16 word in [ucast (drop_bit 8 w), ucast w])"

definition doSock4Connect :: "(string \<Rightarrow> 32 word) \<Rightarrow> string \<Rightarrow> int \<Rightarrow> proxy_io \<Rightarrow> (int \<times> proxy_io) option" where
  "doSock4Connect inet_addr target prt io =
     (case exchange ([4, 1] @ port_bytes prt @ le32 (inet_addr target)) [] io of
        (Inl e, io) \<Rightarrow> Some (e, io)
      | (Inr buf, io) \<Rightarrow> do { b0 \<leftarrow> known buf 0; b1 \<leftarrow> known buf 1; Some (if b0 \<noteq> 0 \<or> b1 \<noteq> 90 then - 3 else 0, io) })"

definition auth_msg :: "proxy_param \<Rightarrow> byte list" where
  "auth_msg proxy =
     [1, of_nat (length (p_User proxy))] @ bytes_of (p_User proxy) @ [of_nat (length (p_Pass proxy))] @ bytes_of (p_Pass proxy)"

definition connect_msg :: "(string \<Rightarrow> 32 word) \<Rightarrow> string \<Rightarrow> int \<Rightarrow> byte list" where
  "connect_msg inet_addr target prt =
     (if inet_addr target \<noteq> INADDR_NONE then [5, 1, 0, 1] @ le32 (inet_addr target)
      else [5, 1, 0, 3, of_nat (length target)] @ bytes_of target) @ port_bytes prt"

definition sock5_request :: "(string \<Rightarrow> 32 word) \<Rightarrow> string \<Rightarrow> int \<Rightarrow> proxy_io \<Rightarrow> (int \<times> proxy_io) option" where
  "sock5_request inet_addr target prt io =
     (if inet_addr target = INADDR_NONE \<and> 2000 < length target + 7 then None
      else case exchange (connect_msg inet_addr target prt) [] io of
        (Inl e, io) \<Rightarrow> Some (e, io)
      | (Inr buf, io) \<Rightarrow> do { b0 \<leftarrow> known buf 0; b1 \<leftarrow> known buf 1; Some (if b0 \<noteq> 5 \<or> b1 \<noteq> 0 then - 3 else 0, io) })"

text \<open>The credentials are sent when the first bytes of the array are 5 and 2; only that answer is told from the others.\<close>

definition doSock5Connect :: "(string \<Rightarrow> 32 word) \<Rightarrow> proxy_param \<Rightarrow> string \<Rightarrow> int \<Rightarrow> proxy_io \<Rightarrow> (int \<times> proxy_io) option" where
  "doSock5Connect inet_addr proxy target prt io =
     (case exchange [5, 2, 0, 2] [] io of
        (Inl e, io) \<Rightarrow> Some (e, io)
      | (Inr buf, io) \<Rightarrow>
          if take 2 buf = [5, 2]
          then
            if 2000 \<le> length (auth_msg proxy) then None
            else case exchange (auth_msg proxy) [0] io of
              (Inl e, io) \<Rightarrow> Some (e, io)
            | (Inr buf, io) \<Rightarrow> do { b1 \<leftarrow> known buf 1; if b1 \<noteq> 0 then Some (- 3, io) else sock5_request inet_addr target prt io }
          else sock5_request inet_addr target prt io)"

section \<open>Base64 as it is specified\<close>

text \<open>Three bytes are one number of 24 bits, written as four digits of base 64; missing bytes count as 0 and leave out digits.\<close>

definition b64_group :: "nat \<Rightarrow> nat \<Rightarrow> nat \<Rightarrow> nat list" where
  "b64_group a b c = (let n = a * 65536 + b * 256 + c in [n div 262144, n div 4096 mod 64, n div 64 mod 64, n mod 64])"

definition b64_digits :: "nat list \<Rightarrow> string" where
  "b64_digits ds = map (\<lambda>d. base64digits ! d) ds"

fun b64_spec :: "nat list \<Rightarrow> string" where
  "b64_spec (a # b # c # r) = b64_digits (b64_group a b c) @ b64_spec r"
| "b64_spec [a, b] = b64_digits (take 3 (b64_group a b 0)) @ ''=''"
| "b64_spec [a] = b64_digits (take 2 (b64_group a 0 0)) @ ''==''"
| "b64_spec [] = []"

lemma byte_less: "unat (b :: byte) < 256"
  using unsigned_less [of b] by simp

lemma unat_shifted_mask: "k + m \<le> 8 \<Longrightarrow> unat (push_bit k (a :: byte) AND push_bit k (mask m)) = unat a mod 2 ^ m * 2 ^ k"
proof -
  assume k: "k + m \<le> 8"
  have "unat a mod 2 ^ m * 2 ^ k < 2 ^ m * 2 ^ k" by simp
  also have "\<dots> = 2 ^ (k + m)" by (simp add: power_add)
  also have "\<dots> \<le> 2 ^ 8" using k by (rule power_increasing) simp
  finally have less: "unat a mod 2 ^ m * 2 ^ k < 2 ^ 8" .
  have "push_bit k a AND push_bit k (mask m) = push_bit k (take_bit m a)"
    by (simp only: push_bit_and [symmetric] take_bit_eq_mask)
  also have "unat \<dots> = take_bit 8 (push_bit k (take_bit m (unat a)))"
    by (simp only: unsigned_push_bit_eq unsigned_take_bit_eq) simp
  also have "push_bit k (take_bit m (unat a)) = unat a mod 2 ^ m * 2 ^ k" by (simp only: push_bit_eq_mult take_bit_eq_mod)
  finally show ?thesis using less by (simp only: take_bit_nat_eq_self)
qed

lemma b64_parts:
  "unat (drop_bit k (a :: byte)) = unat a div 2 ^ k" "unat (push_bit 4 a AND 0x30) = unat a mod 4 * 16"
  "unat (push_bit 2 a AND 0x3C) = unat a mod 16 * 4" "unat (a AND 0x3F) = unat a mod 64"
proof -
  have "(0x30 :: byte) = push_bit 4 (mask 2)" "(0x3C :: byte) = push_bit 2 (mask 4)" "(0x3F :: byte) = push_bit 0 (mask 6)"
    by (simp_all add: mask_eq_exp_minus_1 push_bit_eq_mult)
  then show "unat (push_bit 4 a AND 0x30) = unat a mod 4 * 16" "unat (push_bit 2 a AND 0x3C) = unat a mod 16 * 4"
      "unat (a AND 0x3F) = unat a mod 64"
    using unat_shifted_mask [of 4 2 a] unat_shifted_mask [of 2 4 a] unat_shifted_mask [of 0 6 a] by simp_all
  show "unat (drop_bit k a) = unat a div 2 ^ k"
    using byte_less [of a] by (subst unsigned_drop_bit_eq) (simp add: drop_bit_eq_div take_bit_nat_eq_self)
qed

lemma unat_or_disjoint:
  fixes x y :: byte
  assumes "unat x mod 2 ^ k = 0" "unat y < 2 ^ k"
  shows "unat (x OR y) = unat x + unat y"
proof -
  have "unat (x OR y) = unat x OR unat y" by (simp add: unsigned_or_eq)
  also have "\<dots> = unat x + unat y"
  proof (rule disjunctive_add [symmetric])
    fix n
    show "\<not> bit (unat x) n \<or> \<not> bit (unat y) n"
    proof (cases "n < k")
      case True
      have "\<not> bit (take_bit k (unat x)) n" using assms(1) by (simp add: take_bit_eq_mod)
      then show ?thesis using True by (simp add: bit_take_bit_iff)
    next
      case False
      have "take_bit k (unat y) = unat y" using assms(2) by (simp add: take_bit_nat_eq_self)
      then show ?thesis using False by (metis bit_take_bit_iff)
    qed
  qed
  finally show ?thesis .
qed

lemma b64_or:
  "unat ((push_bit 4 (a :: byte) AND 0x30) OR drop_bit 4 b) = unat a mod 4 * 16 + unat b div 16"
  "unat ((push_bit 2 (a :: byte) AND 0x3C) OR drop_bit 6 b) = unat a mod 16 * 4 + unat b div 64"
proof -
  have "unat b div 16 < 16" "unat b div 64 < 4" using byte_less [of b] by (simp_all add: less_mult_imp_div_less)
  then show "unat ((push_bit 4 a AND 0x30) OR drop_bit 4 b) = unat a mod 4 * 16 + unat b div 16"
      "unat ((push_bit 2 a AND 0x3C) OR drop_bit 6 b) = unat a mod 16 * 4 + unat b div 64"
    using unat_or_disjoint [of "push_bit 4 a AND 0x30" 4 "drop_bit 4 b"] unat_or_disjoint [of "push_bit 2 a AND 0x3C" 2 "drop_bit 6 b"]
    by (simp_all add: b64_parts)
qed

lemma div_mod_parts: "n = m * q + r \<Longrightarrow> r < m \<Longrightarrow> n div m = q \<and> n mod m = (r :: nat)"
  by simp

lemma b64_group_digits:
  assumes "b < 256" "c < 256"
  shows "b64_group a b c = [a div 4, a mod 4 * 16 + b div 16, b mod 16 * 4 + c div 64, c mod 64]"
proof -
  obtain a1 a2 where a: "a = 4 * a1 + a2" "a2 < 4" by (metis mod_less_divisor mult_div_mod_eq zero_less_numeral)
  obtain b1 b2 where b: "b = 16 * b1 + b2" "b2 < 16" by (metis mod_less_divisor mult_div_mod_eq zero_less_numeral)
  obtain c1 c2 where c: "c = 64 * c1 + c2" "c2 < 64" by (metis mod_less_divisor mult_div_mod_eq zero_less_numeral)
  have less: "b1 < 16" "c1 < 4" using assms b c by linarith+
  let ?n = "a * 65536 + b * 256 + c"
  have n: "?n = 262144 * a1 + (65536 * a2 + 256 * b + c)" "?n = 4096 * (64 * a1 + (16 * a2 + b1)) + (256 * b2 + c)"
    "?n = 64 * (64 * (16 * a + b1) + (4 * b2 + c1)) + c2"
    unfolding a(1) b(1) c(1) by (simp_all add: algebra_simps)
  have r: "65536 * a2 + 256 * b + c < 262144" "256 * b2 + c < 4096" "16 * a2 + b1 < 64" "4 * b2 + c1 < 64"
    using assms a(2) b(2) c(2) less by linarith+
  have "?n div 262144 = a1" "?n div 4096 = 64 * a1 + (16 * a2 + b1)" "?n div 64 = 64 * (16 * a + b1) + (4 * b2 + c1)" "?n mod 64 = c2"
    using div_mod_parts [OF n(1) r(1)] div_mod_parts [OF n(2) r(2)] div_mod_parts [OF n(3) c(2)] by blast+
  moreover have "(64 * a1 + (16 * a2 + b1)) mod 64 = 16 * a2 + b1" "(64 * (16 * a + b1) + (4 * b2 + c1)) mod 64 = 4 * b2 + c1"
    using div_mod_parts [OF refl r(3)] div_mod_parts [OF refl r(4)] by blast+
  moreover have "a div 4 = a1 \<and> a mod 4 = a2" "b div 16 = b1 \<and> b mod 16 = b2" "c div 64 = c1 \<and> c mod 64 = c2"
    using div_mod_parts a b c by blast+
  ultimately show ?thesis by (simp add: b64_group_def Let_def mult.commute)
qed

text \<open>C31: The base64 encoding of the credentials, written with shifts and masks on bytes, is the encoding as it is specified:
  every three bytes are a number written with four digits of base 64, and the last group is filled up with
  equality signs.\<close>

theorem to64frombits_spec: "to64frombits bs = b64_spec (map unat bs)"
proof (induction bs rule: to64frombits.induct)
  case (1 a b c r)
  show ?case using 1 byte_less [of b] byte_less [of c] by (simp add: b64_def b64_digits_def b64_parts b64_or b64_group_digits)
next
  case (2 a b)
  show ?case using byte_less [of b] by (simp add: b64_def b64_digits_def b64_parts b64_or b64_group_digits)
qed (simp_all add: b64_def b64_digits_def b64_parts b64_group_digits)

section \<open>The handshakes\<close>

lemma proxy_recv_Got:
  "px_in io = Got bs # es \<Longrightarrow> length bs \<le> 200 \<Longrightarrow> proxy_recv buf io = (Some (bs @ drop (length bs) buf), io\<lparr>px_in := es\<rparr>)"
  by (simp add: proxy_recv_def SOCKET_ERROR_def)

lemma exchange_Got:
  "px_ok io = [] \<Longrightarrow> px_in io = Got bs # es \<Longrightarrow> length bs \<le> 200 \<Longrightarrow>
   exchange req rest io = (Inr (bs @ drop (length bs) (req @ rest)), io\<lparr>px_sent := px_sent io @ [req], px_in := es\<rparr>)"
  by (simp add: exchange_def proxy_send_def proxy_recv_Got)

lemma exchange_closed:
  "px_ok io = [] \<Longrightarrow> px_in io = [] \<Longrightarrow> exchange req rest io = (Inr (req @ rest), io\<lparr>px_sent := px_sent io @ [req]\<rparr>)"
  by (simp add: exchange_def proxy_send_def proxy_recv_def SOCKET_ERROR_def)

text \<open>A reply that is shorter than the request is judged together with the rest of the request, which is still in the array:
  the connection counts as established exactly when 200 occurs in the reply or in that rest, whatever the proxy
  answered, also when it refused or closed the connection without a word.\<close>

theorem http_verdict_reads_request:
  assumes "http_request proxy target prt = Some req" "0 \<notin> set req" "px_ok io = []" "px_in io = Got bs # es"
    "0 \<notin> set bs" "length bs \<le> 200" "length bs \<le> length req"
  shows "doHttp11Connect proxy target prt io =
    Some (if has_sub (bytes_of ''200'') (bs @ drop (length bs) req) then 0 else - 3, io\<lparr>px_sent := px_sent io @ [req], px_in := es\<rparr>)"
proof -
  have "takeWhile (\<lambda>b. b \<noteq> 0) (bs @ drop (length bs) (req @ [0])) = bs @ drop (length bs) req"
    using assms(2,5,7) by (subst append_assoc [symmetric, of bs "drop (length bs) req" "[0]", simplified] takeWhile_append2)
      (auto simp: takeWhile_append dest: in_set_dropD)
  moreover have "0 \<in> set (bs @ drop (length bs) (req @ [0]))" using assms(7) by simp
  ultimately show ?thesis
    using exchange_Got [OF assms(3,4,6)] assms(1) by (simp add: doHttp11Connect_def c_strstr_def)
qed

text \<open>What a SOCKS5 proxy reads in a connection request: an address or a name, and the port.\<close>

definition decode_connect :: "byte list \<Rightarrow> ((32 word + byte list) \<times> int) option" where
  "decode_connect m =
     (if take 3 m \<noteq> [5, 1, 0] \<or> length m < 5 then None
      else if m ! 3 = 1 \<and> length m = 10
      then Some (Inl (word_of_bytes (take 4 (drop 4 m))), int (unat (m ! 8) * 256 + unat (m ! 9)))
      else if m ! 3 = 3 \<and> length m = 7 + unat (m ! 4)
      then Some (Inr (take (unat (m ! 4)) (drop 5 m)), int (unat (m ! (5 + unat (m ! 4))) * 256 + unat (m ! (6 + unat (m ! 4)))))
      else None)"

lemma port_decoded:
  assumes "0 \<le> prt" "prt < 65536"
  shows "\<exists>x y. port_bytes prt = [x, y] \<and> int (unat x * 256 + unat y) = prt"
proof -
  let ?w = "word_of_int prt :: 16 word"
  have "uint ?w = prt" using assms by (simp add: unsigned_of_int take_bit_int_eq_self)
  then have w: "unat ?w = nat prt" by (simp add: nat_uint_eq [symmetric])
  have "take_bit 16 (unat ?w) = unat ?w" using w assms by (simp add: take_bit_nat_eq_self)
  then have "unat (drop_bit 8 ?w) = unat ?w div 256" by (subst unsigned_drop_bit_eq) (simp add: drop_bit_eq_div)
  moreover have "unat (ucast v :: byte) = unat v mod 256" for v :: "16 word"
    by (simp add: unsigned_ucast_eq take_bit_eq_mod)
  ultimately have "unat (ucast (drop_bit 8 ?w) :: byte) = unat ?w div 256 mod 256" "unat (ucast ?w :: byte) = unat ?w mod 256" by metis+
  moreover have "nat prt div 256 mod 256 = nat prt div 256" using assms by (intro mod_less) (simp add: less_mult_imp_div_less)
  ultimately have "unat (ucast (drop_bit 8 ?w) :: byte) * 256 + unat (ucast ?w :: byte) = nat prt" using w by simp
  then show ?thesis unfolding port_bytes_def Let_def using assms(1)
    by (intro exI [of _ "ucast (drop_bit 8 ?w)"] exI [of _ "ucast ?w"]) (simp only: nat_0_le simp_thms)
qed

text \<open>C32: With a proxy that asks for the password and accepts it and the request, each of whose three answers arrives whole
  in one \<open>recv\<close>, where every message can be sent, the user's name, the password and the target are shorter than 256
  characters and the port is one of 16 bits, the handshake of SOCKS5 succeeds after exactly three messages: the greeting,
  the credentials, and a request in which the proxy reads the very target and port, the target as an address if it is one
  and by its name otherwise. The code does not gather an answer that comes in pieces.\<close>

theorem socks5_connects:
  assumes "px_ok io = []" "px_in io = [Got [5, 2], Got [1, 0], Got ([5, 0] @ bs)]" "length bs \<le> 198"
    "length (p_User proxy) < 256" "length (p_Pass proxy) < 256" "length target < 256" "0 \<le> prt" "prt < 65536"
  shows "\<exists>io' m. doSock5Connect inet_addr proxy target prt io = Some (0, io') \<and>
    px_sent io' = px_sent io @ [[5, 2, 0, 2], auth_msg proxy, m] \<and>
    decode_connect m = Some (if inet_addr target \<noteq> INADDR_NONE then Inl (inet_addr target) else Inr (bytes_of target), prt)"
proof -
  let ?m = "connect_msg inet_addr target prt"
  have a: "length (auth_msg proxy) < 2000" using assms(4,5) by (simp add: auth_msg_def bytes_of_def)
  have "doSock5Connect inet_addr proxy target prt io =
      Some (0, io\<lparr>px_sent := px_sent io @ [[5, 2, 0, 2], auth_msg proxy, ?m], px_in := []\<rparr>)"
    using assms(1,2,3,6) a by (simp add: doSock5Connect_def exchange_Got sock5_request_def known_def)
  moreover obtain x y where p: "port_bytes prt = [x, y]" "int (unat x * 256 + unat y) = prt"
    using port_decoded [OF assms(7,8)] by blast
  have "decode_connect ?m = Some (if inet_addr target \<noteq> INADDR_NONE then Inl (inet_addr target) else Inr (bytes_of target), prt)"
  proof (cases "inet_addr target = INADDR_NONE")
    case False
    obtain b0 b1 b2 b3 where "le32 (inet_addr target) = [b0, b1, b2, b3]" by (simp add: le32_def)
    then have "?m = [5, 1, 0, 1, b0, b1, b2, b3, x, y]" "word_of_bytes [b0, b1, b2, b3] = inet_addr target"
      using False p(1) word_of_bytes_le32 [of "inet_addr target"] by (simp_all add: connect_msg_def)
    then show ?thesis using False p(2) by (simp add: decode_connect_def)
  next
    case True
    have n: "unat (of_nat (length target) :: byte) = length target" using assms(6) by (simp add: unsigned_of_nat take_bit_nat_eq_self)
    have "?m = [5, 1, 0, 3, of_nat (length target)] @ bytes_of target @ [x, y]" using True p(1) by (simp add: connect_msg_def)
    moreover have "length (bytes_of target) = length target" by (simp add: bytes_of_def)
    ultimately show ?thesis using True p(2) n by (simp add: decode_connect_def nth_append)
  qed
  ultimately show ?thesis by auto
qed

text \<open>C33: A proxy that closes the connection right after the greeting is sent the user's name and password all the same: the
  greeting itself, still in the array, is taken for the answer that asks for them.\<close>

theorem socks5_closed_sends_password:
  assumes "px_ok io = []" "px_in io = []" "0 < length (p_User proxy)" "length (p_User proxy) < 256" "length (p_Pass proxy) < 256"
  shows "\<exists>io'. doSock5Connect inet_addr proxy target prt io = Some (- 3, io') \<and>
    px_sent io' = px_sent io @ [[5, 2, 0, 2], auth_msg proxy]"
proof -
  have "length (auth_msg proxy) < 2000" using assms(4,5) by (simp add: auth_msg_def bytes_of_def)
  moreover have "unat (of_nat (length (p_User proxy)) :: byte) = length (p_User proxy)"
    using assms(4) by (simp add: unsigned_of_nat take_bit_nat_eq_self)
  then have "(of_nat (length (p_User proxy)) :: byte) \<noteq> 0" using assms(3) by auto
  then have "known (auth_msg proxy @ [0]) 1 = Some (of_nat (length (p_User proxy)))" "(of_nat (length (p_User proxy)) :: byte) \<noteq> 0"
    by (simp_all add: known_def auth_msg_def)
  ultimately show ?thesis using assms(1,2) by (simp add: doSock5Connect_def exchange_closed)
qed

text \<open>An answer that accepts none of the methods offered is not told from one that asks for none.\<close>

lemma socks5_refusal_ignored:
  assumes "px_ok io = []" "px_in io = Got [5, 0xFF] # es"
  shows "doSock5Connect inet_addr proxy target prt io =
    sock5_request inet_addr target prt (io\<lparr>px_sent := px_sent io @ [[5, 2, 0, 2]], px_in := es\<rparr>)"
  using assms by (simp add: doSock5Connect_def exchange_Got)

definition proxy_demo :: proxy_param where
  "proxy_demo = \<lparr>p_Type = 3, p_Host = ''10.0.0.1'', p_Port = 1080, p_NeedPass = False, p_User = ''user'', p_Pass = ''pw''\<rparr>"

definition io_demo :: "win_ev list \<Rightarrow> proxy_io" where
  "io_demo es = \<lparr>px_sent = [], px_in = es, px_ok = []\<rparr>"

lemma http_request_demo:
  "http_request proxy_demo ''10.0.0.200'' 443 =
     Some (bytes_of (''CONNECT 10.0.0.200:443 HTTP/1.0'' @ CRLF @ ''User-Agent: sslvpn'' @ CRLF @ CRLF))"
  by (simp add: http_request_def proxy_demo_def in_array_def CRLF_def fmt_d_def dec_digits.simps digit_char_def)

text \<open>A proxy that refuses the connection to 10.0.0.200, and is taken to have accepted it.\<close>

theorem http_verdict_reads_request_witness:
  "\<exists>io. doHttp11Connect proxy_demo ''10.0.0.200'' 443 (io_demo [Got (bytes_of ''HTTP/1.0 403'')]) = Some (0, io)"
proof -
  let ?req = "bytes_of (''CONNECT 10.0.0.200:443 HTTP/1.0'' @ CRLF @ ''User-Agent: sslvpn'' @ CRLF @ CRLF)"
  have "has_sub (bytes_of ''200'') (bytes_of ''HTTP/1.0 403'' @ drop (length (bytes_of ''HTTP/1.0 403'')) ?req)"
    by (simp add: bytes_of_def CRLF_def)
  then show ?thesis
    using http_verdict_reads_request [OF http_request_demo, of "io_demo [Got (bytes_of ''HTTP/1.0 403'')]" "bytes_of ''HTTP/1.0 403''" "[]"]
    by (simp add: io_demo_def bytes_of_def CRLF_def)
qed

theorem socks5_connects_witness:
  "\<exists>io m. doSock5Connect (\<lambda>_. INADDR_NONE) proxy_demo ''gendo'' 443 (io_demo [Got [5, 2], Got [1, 0], Got [5, 0]]) = Some (0, io) \<and>
    decode_connect m = Some (Inr (bytes_of ''gendo''), 443) \<and> last (px_sent io) = m"
proof -
  obtain io m where "doSock5Connect (\<lambda>_. INADDR_NONE) proxy_demo ''gendo'' 443 (io_demo [Got [5, 2], Got [1, 0], Got [5, 0]]) = Some (0, io)"
      "px_sent io = px_sent (io_demo [Got [5, 2], Got [1, 0], Got [5, 0]]) @ [[5, 2, 0, 2], auth_msg proxy_demo, m]"
      "decode_connect m = Some (Inr (bytes_of ''gendo''), 443)"
    using socks5_connects [of "io_demo [Got [5, 2], Got [1, 0], Got [5, 0]]" "[]" proxy_demo "''gendo''" 443 "\<lambda>_. INADDR_NONE"]
    by (auto simp: io_demo_def proxy_demo_def)
  then show ?thesis by (intro exI [of _ io] exI [of _ m]) simp
qed

theorem socks5_closed_sends_password_witness:
  "\<exists>io. doSock5Connect (\<lambda>_. INADDR_NONE) proxy_demo ''gendo'' 443 (io_demo []) = Some (- 3, io) \<and>
    px_sent io = [[5, 2, 0, 2], [1, 4] @ bytes_of ''user'' @ [2] @ bytes_of ''pw'']"
  using socks5_closed_sends_password [of "io_demo []" proxy_demo "\<lambda>_. INADDR_NONE" "''gendo''" 443]
  by (auto simp: io_demo_def proxy_demo_def auth_msg_def)

end
