(* ===== verification/RopAsyncSocket.thy ===== *)
theory RopAsyncSocket imports RopProxy begin

text \<open>
  \<open>Client/RopCltLib/RopAsyncSocket.cpp\<close> with its base class in \<open>RopAsyncIO.cpp\<close>, and \<open>RopAsyncAcceptor.cpp\<close>: the
  overlapped socket of the client and the listening one. What Winsock answers is a parameter of each call. The main
  property composes the socket with the session of RopSession, which gets what its events carry.
\<close>

section \<open>State\<close>

definition PACKET_LEN :: nat where "PACKET_LEN = 102400"
definition WAIT_TIMEOUT :: int where "WAIT_TIMEOUT = 258"

datatype io_event = SOCKETDATA_RECVED | SOCKET_FAILED | SOCKET_CLOSED | SOCKET_ACCEPTED | LSNSOCKET_ERROR

text \<open>
  \<open>as_buf\<close> is the data in \<open>m_Buf\<close>; \<open>as_open\<close>: the events of Windows exist, \<open>as_set\<close>: the one for reading is set;
  \<open>as_events\<close>: what the dispatcher was told, with the data.
\<close>

record async_socket =
  as_Valid :: bool
  as_IsOpened :: bool
  as_Shutdown :: bool
  as_Blocked :: bool
  as_Sync :: bool
  as_Status :: int
  as_buf :: "byte list"
  as_open :: bool
  as_set :: bool
  as_Tx :: int
  as_Rx :: int
  as_dispatcher :: bool
  as_events :: "(io_event \<times> byte list) list"
  as_proxy :: proxy_param

text \<open>The constructors, where the events can be made.\<close>

definition RopAsyncSocket_new :: "bool \<Rightarrow> async_socket option" where
  "RopAsyncSocket_new have_events =
     (if have_events
      then Some \<lparr>as_Valid = False, as_IsOpened = False, as_Shutdown = False, as_Blocked = False, as_Sync = False, as_Status = 0,
        as_buf = [], as_open = True, as_set = False, as_Tx = 0, as_Rx = 0, as_dispatcher = False, as_events = [],
        as_proxy = \<lparr>p_Type = 0, p_Host = [], p_Port = 1080, p_NeedPass = False, p_User = [], p_Pass = []\<rparr>\<rparr>
      else None)"

definition EventReset :: "async_socket \<Rightarrow> async_socket" where
  "EventReset s = s\<lparr>as_set := False\<rparr>"

definition set_event :: "async_socket \<Rightarrow> async_socket" where
  "set_event s = (if as_open s then s\<lparr>as_set := True\<rparr> else s)"

definition IO_Shutdown :: "async_socket \<Rightarrow> async_socket" where
  "IO_Shutdown s = s\<lparr>as_Shutdown := True, as_IsOpened := False\<rparr>"

definition OnEvent :: "io_event \<Rightarrow> async_socket \<Rightarrow> async_socket" where
  "OnEvent e s = (if as_dispatcher s then s\<lparr>as_events := as_events s @ [(e, as_buf s)]\<rparr> else s)"

definition IO_CheckAndDoShutdown :: "async_socket \<Rightarrow> bool \<times> async_socket" where
  "IO_CheckAndDoShutdown s = (if as_Shutdown s then (True, OnEvent SOCKET_CLOSED (s\<lparr>as_open := False\<rparr>)) else (False, s))"

section \<open>Opening\<close>

text \<open>The resolver and the network: \<open>connects a p\<close> says whether a connection to that address and port succeeds.\<close>

record net_api =
  inet_addr :: "string \<Rightarrow> 32 word"
  gethostbyname :: "string \<Rightarrow> 32 word option"
  inet_ntoa :: "32 word \<Rightarrow> string"
  connects :: "32 word \<Rightarrow> int \<Rightarrow> bool"

text \<open>A name becomes the text of its address.\<close>

definition resolve :: "net_api \<Rightarrow> string \<Rightarrow> string option" where
  "resolve net name =
     (if inet_addr net name = INADDR_NONE then map_option (inet_ntoa net) (gethostbyname net name) else Some name)"

definition SetProxy :: "net_api \<Rightarrow> int \<Rightarrow> string \<Rightarrow> int \<Rightarrow> bool \<Rightarrow> string option \<Rightarrow> string option \<Rightarrow> async_socket \<Rightarrow> async_socket option" where
  "SetProxy net typ host prt need user pass s =
     (if PROXY_NAME_LEN \<le> length host \<or> (need \<and> (\<exists>w \<in> set_option user \<union> set_option pass. PROXY_NAME_LEN \<le> length w)) then None
      else case resolve net host of
        None \<Rightarrow> Some s
      | Some ip \<Rightarrow>
          let p = (as_proxy s)\<lparr>p_Type := typ, p_Host := ip, p_Port := prt, p_NeedPass := need\<rparr>;
              p = (if need then p\<lparr>p_User := case_option (p_User p) id user, p_Pass := case_option (p_Pass p) id pass\<rparr> else p)
          in Some (s\<lparr>as_proxy := p\<rparr>))"

text \<open>The text of the server in an array of 128 characters, empty if it does not fit.\<close>

definition server_text :: "string \<Rightarrow> string" where
  "server_text name = (if Suc (length name) > 128 then [] else name)"

text \<open>A connection that fails closes the socket; a name that is not resolved does not.\<close>

definition close_if :: "bool \<Rightarrow> async_socket \<Rightarrow> async_socket" where
  "close_if c s = (if c then s\<lparr>as_Valid := False\<rparr> else s)"

definition OpenNoProxy :: "net_api \<Rightarrow> string \<Rightarrow> int \<Rightarrow> async_socket \<Rightarrow> int \<times> async_socket" where
  "OpenNoProxy net server prt s =
     (case resolve net (server_text server) of
        None \<Rightarrow> (- 1, s)
      | Some ip \<Rightarrow> let ok = connects net (inet_addr net ip) prt in (if ok then 0 else - 1, close_if (\<not> ok) s))"

text \<open>The three handshakes, after a connection to the proxy.\<close>

definition via_proxy ::
  "net_api \<Rightarrow> (proxy_io \<Rightarrow> (int \<times> proxy_io) option) \<Rightarrow> proxy_io \<Rightarrow> async_socket \<Rightarrow> (int \<times> proxy_io \<times> async_socket) option"
where
  "via_proxy net handshake io s =
     (if connects net (inet_addr net (p_Host (as_proxy s))) (p_Port (as_proxy s))
      then do { (r, io) \<leftarrow> handshake io; Some (r, io, close_if (r < 0) s) }
      else Some (- 1, io, close_if True s))"

definition OpenSocks4 :: "net_api \<Rightarrow> string \<Rightarrow> int \<Rightarrow> proxy_io \<Rightarrow> async_socket \<Rightarrow> (int \<times> proxy_io \<times> async_socket) option" where
  "OpenSocks4 net server prt io s =
     (case resolve net (server_text server) of
        None \<Rightarrow> Some (- 1, io, s)
      | Some ip \<Rightarrow> via_proxy net (doSock4Connect (inet_addr net) ip prt) io s)"

definition OpenSocks5 :: "net_api \<Rightarrow> string \<Rightarrow> int \<Rightarrow> proxy_io \<Rightarrow> async_socket \<Rightarrow> (int \<times> proxy_io \<times> async_socket) option" where
  "OpenSocks5 net server prt io s = via_proxy net (doSock5Connect (inet_addr net) (as_proxy s) (server_text server) prt) io s"

definition OpenHttp11 :: "net_api \<Rightarrow> string \<Rightarrow> int \<Rightarrow> proxy_io \<Rightarrow> async_socket \<Rightarrow> (int \<times> proxy_io \<times> async_socket) option" where
  "OpenHttp11 net server prt io s = via_proxy net (doHttp11Connect (as_proxy s) (server_text server) prt) io s"

text \<open>An open socket, or none to be had, is an exception. The flag is set whatever came of it.\<close>

definition Async_Open :: "net_api \<Rightarrow> bool \<Rightarrow> string \<Rightarrow> int \<Rightarrow> proxy_io \<Rightarrow> async_socket \<Rightarrow> (int \<times> proxy_io \<times> async_socket) option" where
  "Async_Open net have_socket server prt io s =
     (if as_Valid s \<or> \<not> have_socket then None
      else do {
        let s = s\<lparr>as_Valid := True\<rparr>;
        let typ = p_Type (as_proxy s);
        (r, io, s) \<leftarrow>
          (if typ = 1 \<or> typ = 2 then OpenSocks4 net server prt io s
           else if typ = 3 then OpenSocks5 net server prt io s
           else if typ = 4 then OpenHttp11 net server prt io s
           else let (r, s) = OpenNoProxy net server prt s in Some (r, io, s));
        Some (r, io, s\<lparr>as_IsOpened := True\<rparr>) })"

section \<open>Closing\<close>

definition Async_CheckAndDoShutdown :: "async_socket \<Rightarrow> bool \<times> async_socket" where
  "Async_CheckAndDoShutdown s =
     (let done = as_Shutdown s \<and> as_Valid s;
          s = (if done then s\<lparr>as_Valid := False, as_IsOpened := False\<rparr> else s)
      in (done, snd (IO_CheckAndDoShutdown s)))"

definition Async_ShutdownSilent :: "async_socket \<Rightarrow> bool \<times> async_socket" where
  "Async_ShutdownSilent s = (if as_Valid s then (True, s\<lparr>as_Valid := False, as_IsOpened := False\<rparr>) else (False, s))"

section \<open>Receiving\<close>

text \<open>What \<open>WSARecv\<close> does with the space it is given, and how an overlapped read has ended.\<close>

datatype recv_start = RecvDone "byte list" | RecvPending | RecvFailed int
datatype recv_end = Transferred "byte list" | NotComplete int

definition Async_Receive :: "recv_start \<Rightarrow> async_socket \<Rightarrow> async_socket" where
  "Async_Receive w s =
     (let (closed, s) = Async_CheckAndDoShutdown s
      in if closed \<or> \<not> as_Valid s then s
      else case w of
        RecvDone bs \<Rightarrow> set_event (s\<lparr>as_Status := 0, as_Sync := True, as_buf := as_buf s @ bs\<rparr>)
      | RecvPending \<Rightarrow> s\<lparr>as_Status := 0, as_Sync := False\<rparr>
      | RecvFailed e \<Rightarrow> set_event (s\<lparr>as_Status := e, as_Sync := False\<rparr>))"

text \<open>The end of \<open>OnReceive\<close>, when there is no error.\<close>

definition deliver :: "async_socket \<Rightarrow> int \<times> async_socket" where
  "deliver s =
     (if as_buf s = [] then (0, EventReset (OnEvent SOCKET_FAILED s))
      else let s = EventReset (OnEvent SOCKETDATA_RECVED s) in (1, s\<lparr>as_Rx := as_Rx s + int (length (as_buf s)), as_buf := []\<rparr>))"

definition Async_OnReceive :: "recv_end \<Rightarrow> async_socket \<Rightarrow> int \<times> async_socket" where
  "Async_OnReceive r s =
     (if as_Sync s then deliver s
      else if as_Status s \<noteq> 0 then (- 1, EventReset (OnEvent SOCKET_FAILED s))
      else case r of
        NotComplete e \<Rightarrow> (- 1, EventReset (OnEvent SOCKET_FAILED (s\<lparr>as_Status := e\<rparr>)))
      | Transferred bs \<Rightarrow>
          if bs = [] then (0, EventReset (OnEvent SOCKET_FAILED s))
          else deliver (s\<lparr>as_buf := as_buf s @ bs\<rparr>))"

text \<open>The blocking variants; how a wait for an event ends. Return value and bytes.\<close>

datatype wait_end = WaitSet | WaitTime | WaitOther

definition ReceiveAndWait :: "recv_start \<Rightarrow> recv_end \<Rightarrow> async_socket \<Rightarrow> int \<times> byte list \<times> async_socket" where
  "ReceiveAndWait w r s =
     (let (closed, s) = Async_CheckAndDoShutdown s
      in if closed \<or> \<not> as_Valid s then (0, [], s)
      else let (ret, bs) = (case w of
             RecvDone bs \<Rightarrow> (int (length bs), bs)
           | RecvPending \<Rightarrow> (case r of Transferred bs \<Rightarrow> (int (length bs), bs) | NotComplete _ \<Rightarrow> (0, []))
           | RecvFailed _ \<Rightarrow> (- 1, []))
        in (ret, bs, EventReset s))"

definition ReceiveAndWaitEx :: "recv_start \<Rightarrow> wait_end \<Rightarrow> recv_end \<Rightarrow> async_socket \<Rightarrow> int \<times> byte list \<times> async_socket" where
  "ReceiveAndWaitEx w wt r s =
     (let (closed, s) = Async_CheckAndDoShutdown s
      in if closed \<or> \<not> as_Valid s then (0, [], s)
      else let (ret, bs) = (case w of
             RecvDone bs \<Rightarrow> (int (length bs), bs)
           | RecvPending \<Rightarrow> (case wt of
               WaitSet \<Rightarrow> (case r of Transferred bs \<Rightarrow> (int (length bs), bs) | NotComplete e \<Rightarrow> (- e, []))
             | WaitTime \<Rightarrow> (- WAIT_TIMEOUT, [])
             | WaitOther \<Rightarrow> (0, []))
           | RecvFailed _ \<Rightarrow> (- 1, []))
        in (ret, bs, EventReset s))"

section \<open>Sending\<close>

datatype send_start = SentNow nat | SendPending | SendFailed
datatype send_end = Sent nat | NotSent int

definition count_sent :: "int \<Rightarrow> async_socket \<Rightarrow> int \<times> async_socket" where
  "count_sent n s = (n, if 0 < n then s\<lparr>as_Tx := as_Tx s + n\<rparr> else s)"

definition Async_Send :: "send_start \<Rightarrow> send_end \<Rightarrow> byte list \<Rightarrow> async_socket \<Rightarrow> int \<times> async_socket" where
  "Async_Send w r buf s =
     (if buf = [] \<or> \<not> as_Valid s then (0, s)
      else count_sent (case w of
          SentNow n \<Rightarrow> int n
        | SendPending \<Rightarrow> (case r of Sent n \<Rightarrow> int n | NotSent _ \<Rightarrow> 0)
        | SendFailed \<Rightarrow> - 1) s)"

text \<open>A time-out marks the socket as blocked; nothing takes the mark away.\<close>

definition Async_SendEx :: "send_start \<Rightarrow> wait_end \<Rightarrow> send_end \<Rightarrow> byte list \<Rightarrow> async_socket \<Rightarrow> int \<times> async_socket" where
  "Async_SendEx w wt r buf s =
     (if buf = [] \<or> \<not> as_Valid s then (0, s)
      else case w of
        SentNow n \<Rightarrow> count_sent (int n) s
      | SendPending \<Rightarrow> (case wt of
          WaitSet \<Rightarrow> count_sent (case r of Sent n \<Rightarrow> int n | NotSent e \<Rightarrow> - e) s
        | WaitTime \<Rightarrow> (- WAIT_TIMEOUT, s\<lparr>as_Blocked := True\<rparr>)
        | WaitOther \<Rightarrow> (0, s))
      | SendFailed \<Rightarrow> (- 1, s))"

section \<open>The listening socket\<close>

definition Acceptor_Open :: "bool \<Rightarrow> bool \<Rightarrow> bool \<Rightarrow> bool \<Rightarrow> int \<Rightarrow> async_socket \<Rightarrow> (int \<times> async_socket) option" where
  "Acceptor_Open have_socket binds named listens prt s =
     (if as_Valid s \<or> \<not> have_socket \<or> \<not> binds \<or> \<not> named \<or> \<not> listens then None else Some (prt, s\<lparr>as_Valid := True\<rparr>))"

definition Acceptor_CheckAndDoShutdown :: "async_socket \<Rightarrow> bool \<times> async_socket" where
  "Acceptor_CheckAndDoShutdown s =
     (let done = as_Shutdown s \<and> as_Valid s in (done, snd (IO_CheckAndDoShutdown (close_if done s))))"

definition Acceptor_Receive :: "async_socket \<Rightarrow> async_socket" where
  "Acceptor_Receive s = snd (Acceptor_CheckAndDoShutdown (s\<lparr>as_Status := 0\<rparr>))"

text \<open>What \<open>WSAEnumNetworkEvents\<close> reports, an accept before a close.\<close>

datatype net_event = AcceptReady | AcceptError | CloseReady | NoEvent

definition Acceptor_OnReceive :: "net_event \<Rightarrow> async_socket \<Rightarrow> int \<times> async_socket" where
  "Acceptor_OnReceive e s =
     (case e of
        AcceptError \<Rightarrow> (- 1, EventReset (OnEvent LSNSOCKET_ERROR s))
      | AcceptReady \<Rightarrow> (1, OnEvent SOCKET_ACCEPTED (EventReset s))
      | CloseReady \<Rightarrow> (- 5, EventReset (IO_Shutdown s))
      | NoEvent \<Rightarrow> (1, s))"

definition Accept :: "bool \<Rightarrow> bool \<Rightarrow> bool \<Rightarrow> async_socket option" where
  "Accept have_events accepted blocking_set = do {
     c \<leftarrow> RopAsyncSocket_new have_events;
     let c = c\<lparr>as_Valid := accepted\<rparr>;
     if \<not> blocking_set \<or> \<not> as_Valid c then None else Some c }"

section \<open>The stream of a socket\<close>

text \<open>
  A round of the event loop: a read is started; it delivers at once, or later. The pieces that the dispatcher is given.
\<close>

datatype round = AtOnce "byte list" | Later "byte list"

definition piece :: "round \<Rightarrow> byte list" where
  "piece r = (case r of AtOnce bs \<Rightarrow> bs | Later bs \<Rightarrow> bs)"

fun socket_rounds :: "round list \<Rightarrow> async_socket \<Rightarrow> async_socket" where
  "socket_rounds [] s = s"
| "socket_rounds (AtOnce bs # rs) s = socket_rounds rs (snd (Async_OnReceive (NotComplete 0) (Async_Receive (RecvDone bs) s)))"
| "socket_rounds (Later bs # rs) s = socket_rounds rs (snd (Async_OnReceive (Transferred bs) (Async_Receive RecvPending s)))"

text \<open>A socket that is open, was not told to shut down and has nothing in its buffer.\<close>

definition idle :: "async_socket \<Rightarrow> bool" where
  "idle s \<longleftrightarrow> as_Valid s \<and> \<not> as_Shutdown s \<and> as_buf s = [] \<and> as_dispatcher s"

lemmas receive_defs = Async_Receive_def Async_OnReceive_def Async_CheckAndDoShutdown_def IO_CheckAndDoShutdown_def deliver_def
  OnEvent_def EventReset_def set_event_def Let_def

lemma round_delivers:
  assumes "idle s" "piece r \<noteq> []"
  shows "\<exists>s'. (\<forall>rs. socket_rounds (r # rs) s = socket_rounds rs s') \<and> idle s' \<and>
    as_events s' = as_events s @ [(SOCKETDATA_RECVED, piece r)] \<and> as_Rx s' = as_Rx s + int (length (piece r))"
  using assms by (cases r) (auto simp: receive_defs idle_def piece_def)

lemma rounds_deliver:
  "idle s \<Longrightarrow> \<forall>r \<in> set rs. piece r \<noteq> [] \<Longrightarrow>
   idle (socket_rounds rs s) \<and> as_events (socket_rounds rs s) = as_events s @ map (\<lambda>r. (SOCKETDATA_RECVED, piece r)) rs \<and>
   as_Rx (socket_rounds rs s) = as_Rx s + int (length (concat (map piece rs)))"
proof (induction rs arbitrary: s)
  case (Cons r rs)
  obtain s' where "\<forall>rs. socket_rounds (r # rs) s = socket_rounds rs s'" "idle s'"
      "as_events s' = as_events s @ [(SOCKETDATA_RECVED, piece r)]" "as_Rx s' = as_Rx s + int (length (piece r))"
    using round_delivers [OF Cons.prems(1), of r] Cons.prems(2) by auto
  then show ?case using Cons.IH [of s'] Cons.prems by simp
qed simp

text \<open>C30: On an open socket with a dispatcher that was told nothing yet, not shut down and with an empty buffer of its own, where every read brings at
  least one byte and at most \<open>n\<close> and none fails, the messages, with the right tag and length and of at most \<open>f\<close> bytes each, that a peer sends reach the reader
  of a new session whose buffer has room for \<open>f + n\<close> bytes whole and in order, whether the reads deliver at once or later
  and however they cut the stream: the dispatcher is given every byte once and in order, the bytes are counted, and the
  session makes exactly the messages of them. With less room \<open>InputData\<close> refuses a read that does not fit, and its bytes
  are lost.\<close>

theorem socket_session_messages:
  assumes "idle s" "as_events s = []" "\<forall>r \<in> set rs. piece r \<noteq> [] \<and> length (piece r) \<le> n" "concat (map piece rs) = frames ms"
    "\<forall>m \<in> set ms. msg_ok m \<and> length (mod_frame m) \<le> f" "f + n \<le> length buffer"
  shows "\<exists>ss. read_pieces (map snd (as_events (socket_rounds rs s))) (RopSession_new buffer) = Some (ms, ss) \<and> contents ss = [] \<and>
    as_Rx (socket_rounds rs s) = as_Rx s + int (length (frames ms)) \<and> idle (socket_rounds rs s)"
proof -
  have r: "as_events (socket_rounds rs s) = map (\<lambda>r. (SOCKETDATA_RECVED, piece r)) rs" "idle (socket_rounds rs s)"
      "as_Rx (socket_rounds rs s) = as_Rx s + int (length (frames ms))"
    using rounds_deliver [OF assms(1), of rs] assms(2-4) by auto
  then have p: "map snd (as_events (socket_rounds rs s)) = map piece rs" by (simp add: comp_def)
  have w: "waiting ms (RopSession_new buffer)"
    using new_session [of buffer] frame_length by (cases ms) (simp_all add: waiting_def)
  obtain ss where "read_pieces (map piece rs) (RopSession_new buffer) = Some (ms, ss)" "waiting [] ss"
    using read_pieces_ok [OF w, of "map piece rs" f n] assms(3-6) new_session [of buffer] by (auto simp: RopSession_new_def)
  then show ?thesis unfolding p using r(2,3) by (auto simp: waiting_def)
qed

definition socket_demo :: async_socket where
  "socket_demo = (the (RopAsyncSocket_new True))\<lparr>as_Valid := True, as_dispatcher := True\<rparr>"

theorem socket_session_messages_witness:
  "\<exists>ss. read_pieces (map snd (as_events (socket_rounds [AtOnce (take 5 (mod_frame mod_demo)), Later (drop 5 (mod_frame mod_demo))] socket_demo)))
      (RopSession_new (replicate 38 0)) = Some ([mod_demo], ss) \<and> contents ss = []"
proof -
  have "msg_ok mod_demo" "length (mod_frame mod_demo) = 19" by (simp_all add: msg_ok_def mod_demo_def frame_length)
  moreover from this have "take 5 (mod_frame mod_demo) \<noteq> []" "drop 5 (mod_frame mod_demo) \<noteq> []"
    by (auto simp flip: length_0_conv)
  moreover have "idle socket_demo" "as_events socket_demo = []" by (simp_all add: socket_demo_def RopAsyncSocket_new_def idle_def)
  ultimately show ?thesis
    using socket_session_messages [of socket_demo "[AtOnce (take 5 (mod_frame mod_demo)), Later (drop 5 (mod_frame mod_demo))]" 19
        "[mod_demo]" 19 "replicate 38 0"]
    by (auto simp: piece_def frames_def)
qed

text \<open>A socket that could not be opened is marked as opened, and one whose server cannot be resolved stays allocated.\<close>

lemma failed_open_marked:
  assumes "resolve net (server_text server) = None" "p_Type (as_proxy s) = 0" "\<not> as_Valid s"
  shows "\<exists>s'. Async_Open net True server prt io s = Some (- 1, io, s') \<and> as_IsOpened s' \<and> as_Valid s'"
  using assms by (simp add: Async_Open_def OpenNoProxy_def)

text \<open>A time-out of one sending keeps the socket out of every later \<open>BatchSend\<close>.\<close>

lemma blocked_for_good:
  "as_Blocked s \<Longrightarrow> as_Blocked (snd (Async_SendEx w wt r buf s)) \<and> as_Blocked (snd (Async_OnReceive e s)) \<and> as_Blocked (Async_Receive b s)"
  by (auto simp: Async_SendEx_def count_sent_def receive_defs split: send_start.split wait_end.split recv_end.split recv_start.split)

end
