(* ===== verification/RopVpn.thy ===== *)
theory RopVpn imports LibString begin

text \<open>
  \<open>Client/RopCltLib/RopOpenVpn.cpp\<close> and \<open>RopRouteTable.cpp\<close>, with the two functions of \<open>RopProcess.cpp\<close> that start a
  command: the configuration and control of the OpenVPN process, its state read from the end of its log, and the
  routes of the system. Commands are only recorded; the routing table and the address functions are parameters.
\<close>

unbundle bit_operations_syntax

section \<open>The system\<close>

text \<open>
  \<open>os_cmds\<close>: the commands started; \<open>os_start\<close>: whether the coming commands can be started (afterwards all can);
  \<open>os_locked\<close>: the files that cannot be opened for writing; \<open>os_routes\<close>: destination, mask, next hop.
\<close>

record os =
  os_files :: "string \<Rightarrow> string option"
  os_locked :: "string \<Rightarrow> bool"
  os_cmds :: "string list"
  os_start :: "bool list"
  os_stopped :: "string list"
  os_routes :: "(32 word \<times> 32 word \<times> 32 word) list"

record addr_api =
  to_addr :: "string \<Rightarrow> 32 word"
  to_text :: "32 word \<Rightarrow> string"

text \<open>
  Between wide characters and bytes, by the code page of the machine (\<open>CP_ACP\<close>), into an array of \<open>n\<close> that was
  zeroed: a text that does not fit with its terminator leaves the array empty. ASCII is the same in every code page;
  what another text becomes depends on the machine and is outside the model (\<open>None\<close>).
\<close>

definition ascii :: "string \<Rightarrow> bool" where
  "ascii s \<longleftrightarrow> (\<forall>c \<in> set s. (of_char c :: nat) < 128)"

definition wc2mb :: "nat \<Rightarrow> string \<Rightarrow> string option" where
  "wc2mb n s = (if n < Suc (length s) then Some [] else if ascii s then Some s else None)"

definition mb2wc :: "nat \<Rightarrow> string \<Rightarrow> string option" where
  "mb2wc n s = (if n < Suc (length s) then Some [] else if ascii s then Some s else None)"

lemma ascii_simps [simp]:
  "ascii []" "ascii (c # s) \<longleftrightarrow> (of_char c :: nat) < 128 \<and> ascii s" "ascii (s @ t) \<longleftrightarrow> ascii s \<and> ascii t"
  by (auto simp: ascii_def)

lemma mb2wc_ascii: "ascii s \<Longrightarrow> mb2wc n s = Some (if length s < n then s else [])"
  and wc2mb_ascii: "ascii s \<Longrightarrow> wc2mb n s = Some (if length s < n then s else [])"
  by (simp_all add: mb2wc_def wc2mb_def less_Suc_eq_le)

definition in_buf :: "nat \<Rightarrow> string \<Rightarrow> string option" where
  "in_buf n s = (if length s < n then Some s else None)"

text \<open>\<open>RopCreateProcess\<close> copies the command into an array of 256; the result says whether it was started.\<close>

definition RopCreateProcess :: "string \<Rightarrow> os \<Rightarrow> (bool \<times> os) option" where
  "RopCreateProcess cmd z = do {
     cmd \<leftarrow> in_buf 256 cmd;
     Some (case os_start z of
        False # bs \<Rightarrow> (False, z\<lparr>os_start := bs\<rparr>)
      | bs \<Rightarrow> (True, z\<lparr>os_start := tl bs, os_cmds := os_cmds z @ [cmd]\<rparr>)) }"

text \<open>With a string of bytes: one that is too long becomes the empty command.\<close>

definition RopCreateProcessA :: "string \<Rightarrow> os \<Rightarrow> (bool \<times> os) option" where
  "RopCreateProcessA cmd z = do { cmd \<leftarrow> mb2wc 256 cmd; RopCreateProcess cmd z }"

section \<open>Routes\<close>

definition IsRouteExist :: "addr_api \<Rightarrow> string \<Rightarrow> string \<Rightarrow> string \<Rightarrow> os \<Rightarrow> bool option" where
  "IsRouteExist api dest msk gw z = do {
     net \<leftarrow> wc2mb 32 dest;
     m \<leftarrow> wc2mb 32 msk;
     gate \<leftarrow> wc2mb 32 gw;
     Some (list_ex (\<lambda>r. r = (to_addr api net, to_addr api m, to_addr api gate)) (os_routes z)) }"

definition GetIfIdByName :: "string \<Rightarrow> int" where "GetIfIdByName name = - 1"

text \<open>What starting the command returns is tested against 0 as if it were an exit code.\<close>

definition AddRoute :: "addr_api \<Rightarrow> string \<Rightarrow> string \<Rightarrow> string \<Rightarrow> int \<Rightarrow> string \<Rightarrow> os \<Rightarrow> (int \<times> os) option" where
  "AddRoute api dest msk gw metric ifname z = do {
     there \<leftarrow> IsRouteExist api dest msk gw z;
     if there then Some (0, z)
     else do {
        cmd \<leftarrow> in_buf 1024 (''route add '' @ dest @ '' MASK '' @ msk @ '' '' @ gw @ '' METRIC '' @ fmt_d metric @
          (if ifname = [] then [] else '' IF '' @ fmt_d (GetIfIdByName ifname)));
        (r, z) \<leftarrow> RopCreateProcess cmd z;
        Some (if r then - 1 else 0, z) } }"

definition DelRoute :: "addr_api \<Rightarrow> string \<Rightarrow> string \<Rightarrow> string \<Rightarrow> os \<Rightarrow> (int \<times> os) option" where
  "DelRoute api dest msk gw z = do {
     cmd \<leftarrow> in_buf 1024 (''route delete '' @ dest @ '' MASK '' @ msk @ '' '' @ gw);
     there \<leftarrow> IsRouteExist api dest msk gw z;
     if \<not> there then Some (0, z)
     else do { (r, z) \<leftarrow> RopCreateProcess cmd z; Some (if r then - 1 else 0, z) } }"

section \<open>OpenVPN\<close>

definition OPENVPN_TAP_NAME :: string where "OPENVPN_TAP_NAME = ''gendovpn''"
definition OPENVPN_CONFIG_FILE :: string where "OPENVPN_CONFIG_FILE = ''gendo.conf''"
definition OPENVPN_CONFIG_USERPWD :: string where "OPENVPN_CONFIG_USERPWD = ''gendo-pwd''"
definition OPENVPN_PROCESS_NAME :: string where "OPENVPN_PROCESS_NAME = ''openvpn.exe''"
definition OPENVPN_CMD_AUTH_USERPWD :: string where
  "OPENVPN_CMD_AUTH_USERPWD =
     ''openvpn.exe --config gendo.conf --auth-user-pass gendo-pwd  --log gendo.log --dhcp-pre-release --ip-win32 netsh''"

definition NL :: char where "NL = CHR 0x0A"

definition OPENVPN_CONF_CONTENT :: string where
  "OPENVPN_CONF_CONTENT = concat (map (\<lambda>l. l @ [NL])
     [''client'', ''dev tun'', ''resolv-retry infinite'', ''nobind'', ''persist-key'', ''persist-tun'', ''ca ca.crt'', ''auth-user-pass'',
      ''ns-cert-type server'', '';tls-auth ta.key 1'', '';cipher x'', ''comp-lzo'', ''verb 3'', ''route-delay'', ''obfs-salt Hello'',
      ''obfs-padlen 16'', ''mssfix 1386'', '';mute 20''])"

record vpn =
  m_sUser :: string
  m_sPwd :: string
  m_sIP :: string
  m_sSvrName :: string
  m_sProto :: string
  m_iPort :: int
  m_iProto :: int
  m_iSslAlgs :: int
  m_iAuthType :: int
  m_bFixedWin8 :: bool

definition write_lines :: "string \<Rightarrow> string list \<Rightarrow> os \<Rightarrow> int \<times> os" where
  "write_lines name ls z =
     (if os_locked z name then (- 1, z) else (0, z\<lparr>os_files := (os_files z)(name \<mapsto> concat (map (\<lambda>l. l @ [NL]) ls))\<rparr>))"

definition CreatePwdFile :: "vpn \<Rightarrow> os \<Rightarrow> (int \<times> os) option" where
  "CreatePwdFile v z =
     (if os_locked z OPENVPN_CONFIG_USERPWD then Some (- 1, z)
      else do {
        user \<leftarrow> wc2mb 32 (m_sUser v);
        pwd \<leftarrow> wc2mb 32 (m_sPwd v);
        Some (write_lines OPENVPN_CONFIG_USERPWD [user, pwd] z) })"

definition CreateConfFile :: "vpn \<Rightarrow> os \<Rightarrow> (int \<times> os) option" where
  "CreateConfFile v z = do {
     ip \<leftarrow> wc2mb 256 (m_sIP v);
     Some (write_lines OPENVPN_CONFIG_FILE
       [OPENVPN_CONF_CONTENT, ''dev-node '' @ OPENVPN_TAP_NAME, if m_iProto v = 0 then ''proto udp'' else ''proto tcp'',
        ''remote '' @ ip @ '' '' @ fmt_d (m_iPort v)] z) }"

text \<open>Four texts are copied into arrays of \<open>MAX_NAME_LEN\<close>; whether the files could be written is only logged.\<close>

definition SetParams :: "string \<Rightarrow> string \<Rightarrow> string \<Rightarrow> int \<Rightarrow> int \<Rightarrow> string \<Rightarrow> vpn \<Rightarrow> os \<Rightarrow> (vpn \<times> os) option" where
  "SetParams user pwd ip proto prt svr v z = do {
     user \<leftarrow> in_buf MAX_NAME_LEN user;
     pwd \<leftarrow> in_buf MAX_NAME_LEN pwd;
     ip \<leftarrow> in_buf MAX_NAME_LEN ip;
     svr \<leftarrow> in_buf MAX_NAME_LEN svr;
     let v = v\<lparr>m_sUser := user, m_sPwd := pwd, m_sIP := ip, m_sSvrName := svr, m_iPort := prt, m_iProto := proto,
       m_sProto := if proto = 0 then ''SSL-UDP'' else ''SSL-TCP''\<rparr>;
     (_, z) \<leftarrow> CreateConfFile v z;
     (_, z) \<leftarrow> CreatePwdFile v z;
     Some (v, z) }"

definition SetAuthTyp :: "int \<Rightarrow> int \<Rightarrow> vpn \<Rightarrow> vpn" where
  "SetAuthTyp typ alg v = v\<lparr>m_iAuthType := typ, m_iSslAlgs := alg\<rparr>"

text \<open>Both files are emptied; the second one also if the first cannot be opened.\<close>

definition Cleanup :: "os \<Rightarrow> os" where
  "Cleanup z = snd (write_lines OPENVPN_CONFIG_FILE [] (snd (write_lines OPENVPN_CONFIG_USERPWD [] z)))"

definition Connect :: "os \<Rightarrow> (int \<times> os) option" where
  "Connect z = do { (r, z) \<leftarrow> RopCreateProcessA OPENVPN_CMD_AUTH_USERPWD z; Some (if r then 0 else - 1, z) }"

subsection \<open>The routes of the VPN\<close>

definition IsGendoOvpnNet :: "addr_api \<Rightarrow> 32 word \<Rightarrow> bool" where
  "IsGendoOvpnNet api a \<longleftrightarrow>
     (a AND to_addr api ''255.255.0.0'') = (to_addr api ''172.18.0.0'' AND to_addr api ''255.255.0.0'')"

definition DelDefaultRoute :: "os \<Rightarrow> os option" where
  "DelDefaultRoute z = do {
     (_, z) \<leftarrow> RopCreateProcess ''route delete 0.0.0.0 MASK 128.0.0.0 -p'' z;
     (_, z) \<leftarrow> RopCreateProcess ''route delete 128.0.0.0 MASK 128.0.0.0 -p'' z;
     Some z }"

fun nic_loop :: "addr_api \<Rightarrow> (32 word \<times> 32 word \<times> 32 word) list \<Rightarrow> os \<Rightarrow> os option" where
  "nic_loop api [] z = Some z"
| "nic_loop api ((d, m, h) # rs) z =
     (if IsGendoOvpnNet api d
      then do {
        (_, z) \<leftarrow> RopCreateProcessA (''route delete '' @ to_text api d @ '' MASK '' @ to_text api m @ '' '' @ to_text api h) z;
        nic_loop api rs z }
      else nic_loop api rs z)"

definition DelNicRoute :: "addr_api \<Rightarrow> os \<Rightarrow> os option" where
  "DelNicRoute api z = nic_loop api (os_routes z) z"

definition DelHostIPRoute :: "vpn \<Rightarrow> os \<Rightarrow> os option" where
  "DelHostIPRoute v z = do { (_, z) \<leftarrow> RopCreateProcess (''route delete '' @ m_sIP v @ '' -p'') z; Some z }"

definition RestoreRoute :: "addr_api \<Rightarrow> vpn \<Rightarrow> os \<Rightarrow> os option" where
  "RestoreRoute api v z = do { z \<leftarrow> DelDefaultRoute z; z \<leftarrow> DelNicRoute api z; DelHostIPRoute v z }"

definition DisConnect :: "addr_api \<Rightarrow> vpn \<Rightarrow> os \<Rightarrow> (int \<times> os) option" where
  "DisConnect api v z = do {
     z \<leftarrow> RestoreRoute api v z;
     Some (0, z\<lparr>os_stopped := os_stopped z @ [OPENVPN_PROCESS_NAME]\<rparr>) }"

definition ReConnect :: "addr_api \<Rightarrow> vpn \<Rightarrow> os \<Rightarrow> (int \<times> os) option" where
  "ReConnect api v z = do { (_, z) \<leftarrow> DisConnect api v z; Connect z }"

subsection \<open>The log\<close>

definition FixWin8TapEnable :: "string \<Rightarrow> os \<Rightarrow> (int \<times> os) option" where
  "FixWin8TapEnable tap z = do {
     cmd \<leftarrow> in_buf 128 (''netsh interface set interface '' @ [CHR 0x22] @ tap @ [CHR 0x22] @ '' ENABLED'');
     (r, z) \<leftarrow> RopCreateProcessA cmd z;
     Some (if r then 0 else - 1, z) }"

definition FixWin8Up :: "string \<Rightarrow> os \<Rightarrow> (int \<times> os) option" where
  "FixWin8Up tap z = do {
     cmd \<leftarrow> in_buf 128 (''netsh interface set interface '' @ [CHR 0x22] @ tap @ [CHR 0x22] @ '' DISABLED'');
     (_, z) \<leftarrow> RopCreateProcessA cmd z;
     FixWin8TapEnable tap z }"

text \<open>
  The loop over \<open>getline\<close> with an array of 512: a line that does not fit sets the stream's error, after which
  nothing is read any more and the end is never seen. \<open>None\<close> is a loop that does not end.
\<close>

partial_function (option) log_lines :: "string \<Rightarrow> bool \<Rightarrow> bool \<Rightarrow> string list \<Rightarrow> string list option" where
  "log_lines s at_end failed acc =
     (if at_end then Some acc
      else if failed then log_lines s False True (acc @ [[]])
      else
        let l = takeWhile (\<lambda>c. c \<noteq> NL) s
        in if 511 < length l then log_lines (drop 511 s) False True (acc @ [take 511 l])
        else if l = s then log_lines [] True False (acc @ [l])
        else log_lines (drop (Suc (length l)) s) False False (acc @ [l]))"

fun contains :: "string \<Rightarrow> string \<Rightarrow> bool" where
  "contains pat [] = (pat = [])"
| "contains pat (x # xs) = (take (length pat) (x # xs) = pat \<or> contains pat xs)"

text \<open>The marks that are looked for in a line, in order, with the result each gives; \<open>line = buf\<close> ends at a zero byte.\<close>

definition marks :: "(string \<times> int) list" where
  "marks = [(''Data Channel MTU parms'', 1), (''TLS: Initial'', 2), (''VERIFY OK: nsCertType=SERVER'', 4),
     (''[server] Peer Connection Initiated with '', 5), (''TAP-Win32'', 6), (''FlushIpNetTable failed on interface'', - 1),
     (''Waiting for TUN/TAP interface to come up'', 6), (''Initialization Sequence Completed'', 0)]"

definition NEED_TOUCH :: string where "NEED_TOUCH = ''Waiting for TUN/TAP interface to come up''"

definition line_mark :: "string \<Rightarrow> (string \<times> int) option" where
  "line_mark l = find (\<lambda>(pat, _). contains pat (takeWhile (\<lambda>c. c \<noteq> CHR 0x00) l)) marks"

text \<open>From the last line backwards.\<close>

fun status_loop :: "string list \<Rightarrow> vpn \<Rightarrow> os \<Rightarrow> (int \<times> vpn \<times> os) option" where
  "status_loop [] v z = Some (1, v, z)"
| "status_loop (l # ls) v z =
     (case line_mark l of
        None \<Rightarrow> status_loop ls v z
      | Some (pat, ret) \<Rightarrow>
          if pat = NEED_TOUCH
          then do { (_, z) \<leftarrow> FixWin8TapEnable OPENVPN_TAP_NAME z; Some (ret, v\<lparr>m_bFixedWin8 := False\<rparr>, z) }
          else Some (ret, v, z))"

definition GetStatus :: "string \<Rightarrow> vpn \<Rightarrow> os \<Rightarrow> (int \<times> vpn \<times> os) option" where
  "GetStatus logfile v z =
     (case os_files z logfile of
        None \<Rightarrow> Some (- 1, v, z)
      | Some s \<Rightarrow> do { ls \<leftarrow> log_lines s False False []; status_loop (rev ls) v z })"

section \<open>What the commands report\<close>

lemma RopCreateProcess_started:
  assumes "length cmd < 256"
  shows "RopCreateProcess cmd z =
    Some (hd (os_start z @ [True]),
      z\<lparr>os_start := tl (os_start z), os_cmds := os_cmds z @ (if hd (os_start z @ [True]) then [cmd] else [])\<rparr>)"
  using assms by (cases "os_start z") (auto simp: RopCreateProcess_def in_buf_def split: bool.splits)

lemma AddRoute_missing:
  assumes "IsRouteExist api dest msk gw z = Some False"
    and "length dest + length msk + length gw < 100" "length (fmt_d metric) < 20"
  shows "AddRoute api dest msk gw metric [] z = Some (if hd (os_start z @ [True]) then - 1 else 0,
    z\<lparr>os_start := tl (os_start z), os_cmds := os_cmds z @ (if hd (os_start z @ [True])
      then [''route add '' @ dest @ '' MASK '' @ msk @ '' '' @ gw @ '' METRIC '' @ fmt_d metric] else [])\<rparr>)"
proof -
  define a where "a = ''route add '' @ dest @ '' MASK '' @ msk @ '' '' @ gw @ '' METRIC '' @ fmt_d metric"
  have "length a < 256" using assms by (simp add: a_def)
  moreover have "AddRoute api dest msk gw metric [] z = do {
      cmd \<leftarrow> in_buf 1024 a; (r, z) \<leftarrow> RopCreateProcess cmd z; Some (if r then - 1 else 0, z) }"
    using assms(1) by (simp add: AddRoute_def a_def)
  ultimately show ?thesis unfolding a_def [symmetric] by (simp add: RopCreateProcess_started in_buf_def)
qed

lemma DelRoute_present:
  assumes "IsRouteExist api dest msk gw z = Some True" "length dest + length msk + length gw < 100"
  shows "DelRoute api dest msk gw z = Some (if hd (os_start z @ [True]) then - 1 else 0,
    z\<lparr>os_start := tl (os_start z), os_cmds := os_cmds z @ (if hd (os_start z @ [True])
      then [''route delete '' @ dest @ '' MASK '' @ msk @ '' '' @ gw] else [])\<rparr>)"
proof -
  define d where "d = ''route delete '' @ dest @ '' MASK '' @ msk @ '' '' @ gw"
  have "length d < 256" using assms by (simp add: d_def)
  moreover have "DelRoute api dest msk gw z = do {
      cmd \<leftarrow> in_buf 1024 d; (r, z) \<leftarrow> RopCreateProcess cmd z; Some (if r then - 1 else 0, z) }"
    using assms(1) by (simp add: DelRoute_def d_def cong: Option.bind_cong)
  ultimately show ?thesis unfolding d_def [symmetric] by (simp add: RopCreateProcess_started in_buf_def)
qed

text \<open>Adding a route that is missing reports the opposite of what happened: the answer is the error -1 exactly
  when the command that adds it was started, and 0, for success, when it could not be and nothing was changed.\<close>
theorem route_answer_inverted:
  assumes "IsRouteExist api dest msk gw z = Some False"
    and "length dest + length msk + length gw < 100" "length (fmt_d metric) < 20"
  shows "\<exists>r z'. AddRoute api dest msk gw metric [] z = Some (r, z') \<and>
    (r = - 1 \<longleftrightarrow>
      os_cmds z' = os_cmds z @ [''route add '' @ dest @ '' MASK '' @ msk @ '' '' @ gw @ '' METRIC '' @ fmt_d metric]) \<and>
    (r = 0 \<longleftrightarrow> os_cmds z' = os_cmds z)"
  unfolding AddRoute_missing [OF assms] by simp

theorem route_answer_inverted_witness:
  "\<exists>r z'. AddRoute \<lparr>to_addr = (\<lambda>a. if a = ''10.1.0.0'' then 0x0A010000 else 0), to_text = (\<lambda>_. [])\<rparr>
      ''10.1.0.0'' ''0.0.0.0'' ''0.0.0.0'' 5 []
      \<lparr>os_files = (\<lambda>_. None), os_locked = (\<lambda>_. False), os_cmds = [], os_start = [], os_stopped = [], os_routes = []\<rparr>
      = Some (r, z') \<and>
    (r = - 1 \<longleftrightarrow> os_cmds z' = [] @ [''route add '' @ ''10.1.0.0'' @ '' MASK '' @ ''0.0.0.0'' @ '' '' @ ''0.0.0.0'' @ '' METRIC '' @ fmt_d 5]) \<and>
    (r = 0 \<longleftrightarrow> os_cmds z' = [])"
proof -
  let ?z = "\<lparr>os_files = (\<lambda>_. None), os_locked = (\<lambda>_. False), os_cmds = [], os_start = [], os_stopped = [], os_routes = []\<rparr>"
  let ?api = "\<lparr>to_addr = (\<lambda>a. if a = ''10.1.0.0'' then 0x0A010000 else 0), to_text = (\<lambda>_. [])\<rparr>"
  have a: "IsRouteExist ?api ''10.1.0.0'' ''0.0.0.0'' ''0.0.0.0'' ?z = Some False"
    by (simp add: IsRouteExist_def wc2mb_ascii)
  have b: "length ''10.1.0.0'' + length ''0.0.0.0'' + length ''0.0.0.0'' < 100" by simp
  have c: "length (fmt_d 5) < 20" by code_simp
  show ?thesis using route_answer_inverted [OF a b c] by (simp only: os.simps)
qed

section \<open>The state read from the log\<close>

lemma takeWhile_line: "NL \<notin> set l \<Longrightarrow> takeWhile (\<lambda>c. c \<noteq> NL) (l @ NL # s) = l"
  by (induction l) auto

lemma takeWhile_last_line: "NL \<notin> set l \<Longrightarrow> takeWhile (\<lambda>c. c \<noteq> NL) l = l"
  by (induction l) auto

lemma log_lines_short:
  assumes "NL \<notin> set l" "length l < 512"
  shows "log_lines (l @ NL # s) False False acc = log_lines s False False (acc @ [l])"
    "log_lines l False False acc = Some (acc @ [l])"
proof -
  show "log_lines (l @ NL # s) False False acc = log_lines s False False (acc @ [l])"
    unfolding log_lines.simps [of "l @ NL # s" False False acc] using assms(2) by (simp add: takeWhile_line [OF assms(1)] Let_def)
  have "log_lines [] True False (acc @ [l]) = Some (acc @ [l])" unfolding log_lines.simps [of "[]" True False "acc @ [l]"] by simp
  then show "log_lines l False False acc = Some (acc @ [l])"
    unfolding log_lines.simps [of l False False acc] using assms(2) by (simp add: takeWhile_last_line [OF assms(1)] Let_def)
qed

abbreviation log_text :: "string list \<Rightarrow> string \<Rightarrow> string" where
  "log_text ls l \<equiv> concat (map (\<lambda>x. x @ [NL]) ls) @ l"

lemma log_lines_text:
  assumes "\<forall>x \<in> set (ls @ [l]). NL \<notin> set x \<and> length x < 512"
  shows "log_lines (log_text ls l) False False acc = Some (acc @ ls @ [l])"
  using assms by (induction ls arbitrary: acc) (auto simp: log_lines_short)

lemma log_lines_failed:
  assumes "log_lines s at_end failed acc = Some r"
  shows "failed \<longrightarrow> at_end"
  by (rule log_lines.raw_induct [OF _ assms]) (fastforce split: if_splits simp: Let_def)

lemma log_lines_long:
  assumes "\<forall>x \<in> set ls. NL \<notin> set x" "NL \<notin> set x" "511 < length x"
  shows "log_lines (log_text ls (x @ s)) False False acc = None"
  using assms
proof (induction ls arbitrary: acc)
  case Nil
  have "511 < length (takeWhile (\<lambda>c. c \<noteq> NL) (x @ s))" using Nil.prems by (simp add: takeWhile_append)
  moreover have "log_lines w False True a = None" for w a
    using log_lines_failed [of w False True a] by (cases "log_lines w False True a") auto
  ultimately show ?case unfolding log_lines.simps [of "log_text [] (x @ s)" False False acc] by (simp add: Let_def)
next
  case (Cons y ls)
  show ?case
  proof (cases "length y < 512")
    case True
    then show ?thesis using Cons by (simp add: log_lines_short)
  next
    case False
    have "takeWhile (\<lambda>c. c \<noteq> NL) (y @ NL # log_text ls (x @ s)) = y" using Cons.prems by (intro takeWhile_line) simp
    moreover have "log_lines w False True a = None" for w a
      using log_lines_failed [of w False True a] by (cases "log_lines w False True a") auto
    ultimately show ?thesis using False unfolding log_lines.simps [of "log_text (y # ls) (x @ s)" False False acc] by (simp add: Let_def)
  qed
qed

lemma touch_runs: "\<exists>r z'. FixWin8TapEnable OPENVPN_TAP_NAME z = Some (r, z')"
proof -
  define c where "c = ''netsh interface set interface '' @ [CHR 0x22] @ OPENVPN_TAP_NAME @ [CHR 0x22] @ '' ENABLED''"
  have "length c < 128" by (simp add: c_def OPENVPN_TAP_NAME_def)
  moreover have "FixWin8TapEnable OPENVPN_TAP_NAME z =
      do { c \<leftarrow> in_buf 128 c; (r, z) \<leftarrow> RopCreateProcessA c z; Some (if r then 0 else - 1, z) }"
    by (simp add: FixWin8TapEnable_def c_def)
  moreover have "ascii c" by (simp add: c_def OPENVPN_TAP_NAME_def)
  ultimately show ?thesis by (simp add: RopCreateProcess_started in_buf_def RopCreateProcessA_def mb2wc_ascii)
qed

lemma status_loop_result:
  "map_option fst (status_loop ls v z) = Some (case List.map_filter line_mark ls of [] \<Rightarrow> 1 | (pat, ret) # _ \<Rightarrow> ret)"
proof (induction ls)
  case (Cons l ls)
  show ?case
  proof (cases "line_mark l")
    case (Some a)
    obtain r z' where "FixWin8TapEnable OPENVPN_TAP_NAME z = Some (r, z')" using touch_runs by blast
    with Some show ?thesis by (cases a) (auto simp: List.map_filter_simps)
  qed (use Cons in \<open>simp add: List.map_filter_simps\<close>)
qed (simp add: List.map_filter_simps)

text \<open>C34: Reading the state of the VPN from its log: the function returns if and only if no line of the log is longer
  than 511 characters, and then the result is the one of the last line that holds one of the marks, or 1 when none
  does; with a longer line anywhere in the log the loop over getline never ends.\<close>
theorem vpn_status_of_log:
  assumes "os_files z logfile = Some (log_text ls l)" "\<forall>x \<in> set (ls @ [l]). NL \<notin> set x"
  shows "map_option fst (GetStatus logfile v z) =
    (if \<forall>x \<in> set (ls @ [l]). length x < 512
     then Some (case List.map_filter line_mark (rev (ls @ [l])) of [] \<Rightarrow> 1 | (pat, ret) # _ \<Rightarrow> ret)
     else None)"
proof (cases "\<forall>x \<in> set (ls @ [l]). length x < 512")
  case True
  then have "log_lines (log_text ls l) False False [] = Some (ls @ [l])"
    using assms(2) log_lines_text [of ls l "[]"] by simp
  then show ?thesis using True status_loop_result [of "rev (ls @ [l])" v z] by (simp add: GetStatus_def assms(1))
next
  case False
  have "log_lines (log_text ls l) False False [] = None"
  proof (cases "length l < 512")
    case True
    with False obtain x where x: "x \<in> set ls" "511 < length x" by auto
    then obtain us ws where "ls = us @ x # ws" by (meson split_list)
    then show ?thesis using log_lines_long [of us x "NL # log_text ws l" "[]"] assms(2) x(2) by simp
  next
    case False
    then show ?thesis using log_lines_long [of ls l "[]" "[]"] assms(2) by simp
  qed
  then show ?thesis using False by (simp add: GetStatus_def assms(1))
qed

theorem vpn_status_of_log_witness:
  "\<forall>v z. map_option fst (GetStatus ''gendo.log'' v
    (z\<lparr>os_files := [''gendo.log'' \<mapsto> log_text [''TLS: Initial packet'', ''VERIFY OK: nsCertType=SERVER'', ''WRITE''] []]\<rparr>)) = Some 4"
proof (intro allI)
  fix v z
  have "\<forall>x \<in> set ([''TLS: Initial packet'', ''VERIFY OK: nsCertType=SERVER'', ''WRITE''] @ [[]]). NL \<notin> set x"
    by (simp add: NL_def)
  from vpn_status_of_log [OF _ this, of "z\<lparr>os_files := [''gendo.log'' \<mapsto>
      log_text [''TLS: Initial packet'', ''VERIFY OK: nsCertType=SERVER'', ''WRITE''] []]\<rparr>" "''gendo.log''" v]
  show "map_option fst (GetStatus ''gendo.log'' v
    (z\<lparr>os_files := [''gendo.log'' \<mapsto> log_text [''TLS: Initial packet'', ''VERIFY OK: nsCertType=SERVER'', ''WRITE''] []]\<rparr>)) = Some 4"
    by (simp add: List.map_filter_simps line_mark_def marks_def)
qed

end
