(* ===== verification/GendoServer.thy ===== *)
theory GendoServer imports DecText RopVpn begin

text \<open>
  \<open>Client/Gendo/GendoServer.cpp\<close> with \<open>StringSplit\<close> of \<open>RopUtil.cpp\<close>: the client's list of servers and the ports
  it takes from what the gateway sent. The array of ports is one block of memory in which a row may run into the next.
  \<open>None\<close> is an access outside an array or a step past the end of the list.
\<close>

section \<open>Splitting into rows\<close>

abbreviation NUL :: char where "NUL \<equiv> CHR 0x00"

text \<open>A piece and its terminator, copied to an offset of the array.\<close>

definition put_at :: "nat \<Rightarrow> string \<Rightarrow> string \<Rightarrow> string option" where
  "put_at off p arr =
     (if off + length p + 1 \<le> length arr then Some (take off arr @ p @ NUL # drop (off + length p + 1) arr) else None)"

function StringSplit_loop :: "char \<Rightarrow> nat \<Rightarrow> string \<Rightarrow> nat \<Rightarrow> string \<Rightarrow> int \<Rightarrow> (int \<times> string \<times> int) option" where
  "StringSplit_loop split row start i arr n =
     (if start \<noteq> [] \<and> split \<in> set start
      then if n < int i then Some (- 1, arr, n)
           else do {
             arr \<leftarrow> put_at (i * row) (takeWhile (\<lambda>c. c \<noteq> split) start) arr;
             StringSplit_loop split row (tl (dropWhile (\<lambda>c. c \<noteq> split) start)) (Suc i) arr n }
      else if start \<noteq> []
      then do { arr \<leftarrow> put_at (i * row) start arr; Some (0, arr, int (Suc i)) }
      else Some (0, arr, int i))"
  by auto
termination
  by (relation "measure (\<lambda>(split, row, start, i, arr, n). length start)") (auto simp: after_piece_shorter simp del: length_tl)

declare StringSplit_loop.simps [simp del]

definition StringSplit :: "string \<Rightarrow> char \<Rightarrow> nat \<Rightarrow> string \<Rightarrow> int \<Rightarrow> (int \<times> string \<times> int) option" where
  "StringSplit src split row arr n = (if split = NUL then Some (- 1, arr, n) else StringSplit_loop split row src 0 arr n)"

section \<open>Servers\<close>

definition PROTO_PPTP :: nat where "PROTO_PPTP = 1"
definition PROTO_L2TP :: nat where "PROTO_L2TP = 2"
definition PROTO_OPENVPN_UDP :: nat where "PROTO_OPENVPN_UDP = 4"
definition PROTO_OPENVPN_TCP :: nat where "PROTO_OPENVPN_TCP = 8"

text \<open>The fields that the client works with; the parts of the window that show a server are left out.\<close>

record server_info =
  si_ip :: string
  si_name :: string
  si_protocol :: nat
  si_ssl_port :: string

text \<open>\<open>gs_tcp\<close> and \<open>gs_udp\<close> are the used parts of the two arrays of ports.\<close>

record gendo_svr =
  gs_info :: server_info
  gs_ip :: string
  gs_proto :: nat
  gs_tcp :: "int list"
  gs_udp :: "int list"

text \<open>\<open>atoi\<close> where \<open>long\<close> has 32 bits.\<close>

definition win_atoi :: "string \<Rightarrow> int" where
  "win_atoi s = max (- (2 ^ 31)) (min (2 ^ 31 - 1) (fst (strtol 10 s)))"

definition row_text :: "nat \<Rightarrow> string \<Rightarrow> string option" where
  "row_text i arr =
     (let s = drop (i * MAX_NAME_LEN) arr in if NUL \<in> set s then Some (takeWhile (\<lambda>c. c \<noteq> NUL) s) else None)"

text \<open>The port of a row, if it has one, and the lists that it is appended to.\<close>

definition row_port :: "string \<Rightarrow> int option" where
  "row_port s =
     (if CHR ''='' \<notin> set s then None
      else let prt = win_atoi (tl (dropWhile (\<lambda>c. c \<noteq> CHR ''='') s))
        in if prt \<le> 0 \<or> 65535 \<le> prt then None else Some prt)"

definition add_port :: "string \<Rightarrow> int list \<times> int list \<Rightarrow> int list \<times> int list" where
  "add_port s ps =
     (case row_port s of
        None \<Rightarrow> ps
      | Some prt \<Rightarrow>
          if contains ''tcp'' s then (fst ps @ [prt], snd ps)
          else if contains ''udp'' s then (fst ps, snd ps @ [prt]) else ps)"

fun port_loop :: "nat list \<Rightarrow> string \<Rightarrow> int list \<times> int list \<Rightarrow> (int list \<times> int list) option" where
  "port_loop [] arr ps = Some ps"
| "port_loop (i # is) arr ps = do { s \<leftarrow> row_text i arr; port_loop is arr (add_port s ps) }"

definition PORT_ROWS :: nat where "PORT_ROWS = 10"

text \<open>The array on the stack starts with any content.\<close>

definition ParseServerIpPort :: "string \<Rightarrow> gendo_svr \<Rightarrow> (int \<times> gendo_svr) option" where
  "ParseServerIpPort arr svr = do {
     (r, arr, n) \<leftarrow> StringSplit (si_ssl_port (gs_info svr)) (CHR '','') MAX_NAME_LEN arr (int PORT_ROWS);
     if r \<noteq> 0 then Some (- 1, svr)
     else if n \<le> 0 \<or> int PORT_ROWS \<le> n then Some (- 1, svr)
     else do {
       (tcp, udp) \<leftarrow> port_loop [0..<nat n] arr ([], []);
       ip \<leftarrow> mb2wc MAX_NAME_LEN (si_ip (gs_info svr));
       Some (0, svr\<lparr>gs_tcp := tcp, gs_udp := udp, gs_ip := ip\<rparr>) } }"

text \<open>What the parsing returns is not looked at.\<close>

definition Svr_Insert :: "string \<Rightarrow> server_info \<Rightarrow> gendo_svr list \<Rightarrow> (int \<times> gendo_svr list) option" where
  "Svr_Insert arr info l = do {
     (_, svr) \<leftarrow> ParseServerIpPort arr \<lparr>gs_info = info, gs_ip = [], gs_proto = 0, gs_tcp = [], gs_udp = []\<rparr>;
     Some (0, l @ [svr]) }"

definition Svr_Get :: "int \<Rightarrow> 'a list \<Rightarrow> 'a option" where
  "Svr_Get index l = (if index < 0 \<or> int (length l) \<le> index then None else Some (l ! nat index))"

text \<open>
  The loop that looks for the place has no semicolon after it, so the erasing is its body: \<open>p\<close> is the place of the
  iterator, which is advanced once more after each erasing.
\<close>

function remove_loop :: "int \<Rightarrow> int \<Rightarrow> nat \<Rightarrow> 'a list \<Rightarrow> 'a list option" where
  "remove_loop index i p l =
     (if length l \<le> p \<or> i = index - 1 then Some l
      else let l = take p l @ drop (Suc p) l
        in if length l \<le> p then None else remove_loop index (i + 1) (Suc p) l)"
  by auto
termination
  by (relation "measure (\<lambda>(index, i, p, l). length l - p)") auto

declare remove_loop.simps [simp del]

definition Svr_Remove :: "int \<Rightarrow> 'a list \<Rightarrow> 'a list option" where
  "Svr_Remove index l = (if index < 0 \<or> int (length l) \<le> index then Some l else remove_loop index 0 0 l)"

fun remove_all_loop :: "'a list \<Rightarrow> 'a list" where
  "remove_all_loop [] = []"
| "remove_all_loop (x # l) = remove_all_loop l"

definition Svr_RemoveAll :: "'a list \<Rightarrow> 'a list" where "Svr_RemoveAll l = remove_all_loop l"

section \<open>Removing\<close>

text \<open>Every second element is kept, the first one is not.\<close>

fun every_second :: "'a list \<Rightarrow> 'a list" where
  "every_second [] = []"
| "every_second [x] = []"
| "every_second (x # y # l) = y # every_second l"

lemma remove_loop_stop [simp]: "remove_loop index (index - 1) p l = Some l"
  by (subst remove_loop.simps) simp

lemma remove_loop_steps:
  assumes "length k = p" "i = int p"
  shows "int p \<le> index - 1 \<Longrightarrow> 2 * (nat (index - 1) - p) \<le> length l \<Longrightarrow>
    remove_loop index i p (k @ l) =
      Some (k @ every_second (take (2 * (nat (index - 1) - p)) l) @ drop (2 * (nat (index - 1) - p)) l)"
  using assms
proof (induction l arbitrary: k p i rule: every_second.induct)
  case (3 x y l)
  show ?case
  proof (cases "i = index - 1")
    case True
    then have "nat (index - 1) - p = 0" using 3 by simp
    then show ?thesis using True by simp
  next
    case False
    then have less: "int (Suc p) \<le> index - 1" using 3 by simp
    then obtain m where m: "nat (index - 1) - p = Suc m" "nat (index - 1) - Suc p = m"
      using 3 by (cases "nat (index - 1) - p") auto
    have "remove_loop index i p (k @ x # y # l) = remove_loop index (i + 1) (Suc p) ((k @ [y]) @ l)"
      using False 3 by (subst remove_loop.simps) (simp add: Let_def)
    also have "\<dots> = Some ((k @ [y]) @ every_second (take (2 * m) l) @ drop (2 * m) l)"
      using 3(1) [of "Suc p" "k @ [y]" "i + 1"] 3 less m by simp
    finally show ?thesis using m by simp
  qed
next
  case 1
  then have "nat (index - 1) - p = 0" by simp
  with 1 show ?case by (subst remove_loop.simps) simp
next
  case (2 x)
  then have "i = index - 1" "nat (index - 1) - p = 0" by simp_all
  then show ?case by simp
qed

lemma remove_loop_end:
  "odd (length l) \<Longrightarrow> length k = p \<Longrightarrow> i = int p \<Longrightarrow> index \<le> 0 \<Longrightarrow> remove_loop index i p (k @ l) = None"
proof (induction l arbitrary: k p i rule: every_second.induct)
  case (3 x y l)
  have "remove_loop index i p (k @ x # y # l) = remove_loop index (i + 1) (Suc p) ((k @ [y]) @ l)"
    using 3 by (subst remove_loop.simps) (simp add: Let_def)
  then show ?case using 3(1) [of "k @ [y]" "Suc p" "i + 1"] 3 by simp
next
  case (2 x)
  then show ?case by (subst remove_loop.simps) simp
qed simp

text \<open>Removing a server from the list does not remove that server: with the place index, and enough servers in the
  list, every second of the first 2 (index - 1) servers is removed, which for index 1 is none; and with index 0 in a
  list of odd length the iterator is moved past the end.\<close>
theorem server_removal:
  "(1 \<le> index \<and> index < int (length l) \<and> 2 * nat (index - 1) \<le> length l \<longrightarrow>
      Svr_Remove index l = Some (every_second (take (2 * nat (index - 1)) l) @ drop (2 * nat (index - 1)) l)) \<and>
   (odd (length l) \<longrightarrow> Svr_Remove 0 l = None)"
  using remove_loop_steps [of "[]" 0 0 index l] remove_loop_end [of l "[]" 0 0 0]
  by (auto simp: Svr_Remove_def elim: oddE)

theorem server_removal_witness:
  "Svr_Remove 3 [10, 11, 12, 13, 14] = Some [11, 13, 14 :: nat] \<and> Svr_Remove 0 [10 :: nat] = None"
  using server_removal [of 3 "[10, 11, 12, 13, 14 :: nat]"] server_removal [of 3 "[10 :: nat]"]
  by (simp add: numeral_eq_Suc)

section \<open>Ports\<close>

fun comma_list :: "string list \<Rightarrow> string" where
  "comma_list [] = []"
| "comma_list [p] = p"
| "comma_list (p # q # ps) = p @ CHR '','' # comma_list (q # ps)"

definition piece_ok :: "string \<Rightarrow> bool" where
  "piece_ok p \<longleftrightarrow> p \<noteq> [] \<and> length p < MAX_NAME_LEN \<and> CHR '','' \<notin> set p \<and> NUL \<notin> set p"

definition row_is :: "nat \<Rightarrow> string \<Rightarrow> string \<Rightarrow> bool" where
  "row_is k p arr \<longleftrightarrow> take (Suc (length p)) (drop (k * MAX_NAME_LEN) arr) = p @ [NUL]"

lemma row_is_text:
  assumes "row_is k p arr" "NUL \<notin> set p"
  shows "row_text k arr = Some p"
proof -
  have "drop (k * MAX_NAME_LEN) arr = (p @ [NUL]) @ drop (Suc (length p)) (drop (k * MAX_NAME_LEN) arr)"
    using assms(1) append_take_drop_id [of "Suc (length p)" "drop (k * MAX_NAME_LEN) arr"] by (simp add: row_is_def)
  then obtain r where r: "drop (k * MAX_NAME_LEN) arr = p @ NUL # r" by simp
  have "takeWhile (\<lambda>c. c \<noteq> NUL) (p @ NUL # r) = p" using assms(2) by (induction p) auto
  then show ?thesis by (simp add: row_text_def r)
qed

lemma put_row:
  assumes "put_at (i * MAX_NAME_LEN) p arr = Some arr'"
  shows "length arr' = length arr" "row_is i p arr'"
    "k < i \<Longrightarrow> piece_ok q \<Longrightarrow> row_is k q arr \<Longrightarrow> row_is k q arr'"
proof -
  have l: "i * MAX_NAME_LEN + length p + 1 \<le> length arr"
    and a: "arr' = take (i * MAX_NAME_LEN) arr @ p @ NUL # drop (i * MAX_NAME_LEN + length p + 1) arr"
    using assms by (auto simp: put_at_def split: if_splits)
  show "length arr' = length arr" "row_is i p arr'" using l by (auto simp: a row_is_def)
  show "row_is k q arr'" if "k < i" "piece_ok q" "row_is k q arr"
  proof -
    have "Suc k * MAX_NAME_LEN \<le> i * MAX_NAME_LEN" using that(1) by (intro mult_le_mono) auto
    then have "Suc (length q) + k * MAX_NAME_LEN \<le> i * MAX_NAME_LEN" using that(2) by (simp add: piece_ok_def)
    then have "take (Suc (length q) + k * MAX_NAME_LEN) arr' = take (Suc (length q) + k * MAX_NAME_LEN) arr"
      using l by (simp add: a)
    then show ?thesis using that(3) by (simp add: row_is_def take_drop)
  qed
qed

lemma split_piece:
  assumes "piece_ok p"
  shows "takeWhile (\<lambda>c. c \<noteq> CHR '','') (p @ CHR '','' # s) = p" "tl (dropWhile (\<lambda>c. c \<noteq> CHR '','') (p @ CHR '','' # s)) = s"
proof -
  have "\<forall>c \<in> set p. c \<noteq> CHR '',''" using assms by (auto simp: piece_ok_def)
  then show "takeWhile (\<lambda>c. c \<noteq> CHR '','') (p @ CHR '','' # s) = p"
    "tl (dropWhile (\<lambda>c. c \<noteq> CHR '','') (p @ CHR '','' # s)) = s"
    by (induction p) auto
qed

lemma split_rows:
  assumes "\<forall>p \<in> set ps. piece_ok p" "(i + length ps) * MAX_NAME_LEN \<le> length arr" "int (i + length ps) \<le> n + 1"
  shows "\<exists>arr'. StringSplit_loop (CHR '','') MAX_NAME_LEN (comma_list ps) i arr n = Some (0, arr', int (i + length ps)) \<and>
    (\<forall>k q. k < i \<longrightarrow> piece_ok q \<longrightarrow> row_is k q arr \<longrightarrow> row_is k q arr') \<and> (\<forall>j < length ps. row_is (i + j) (ps ! j) arr')"
  using assms
proof (induction ps arbitrary: i arr rule: comma_list.induct)
  case 1
  then show ?case by (subst StringSplit_loop.simps) simp
next
  case (2 p)
  then have p: "p \<noteq> []" "CHR '','' \<notin> set p" "length p < MAX_NAME_LEN" by (auto simp: piece_ok_def)
  have "i * MAX_NAME_LEN + length p + 1 \<le> length arr" using 2(2) p(3) by simp
  then obtain arr' where put: "put_at (i * MAX_NAME_LEN) p arr = Some arr'" by (auto simp: put_at_def)
  then have "StringSplit_loop (CHR '','') MAX_NAME_LEN p i arr n = Some (0, arr', int (Suc i))"
    using p by (subst StringSplit_loop.simps) simp
  then show ?case using put_row [OF put] by auto
next
  case (3 p q ps)
  have p: "piece_ok p" and len: "length p < MAX_NAME_LEN" using 3(2) by (auto simp: piece_ok_def)
  have "i * MAX_NAME_LEN + length p + 1 \<le> length arr" using 3(3) len by (simp add: add_mult_distrib)
  then obtain arr1 where put: "put_at (i * MAX_NAME_LEN) p arr = Some arr1" by (auto simp: put_at_def)
  have step: "StringSplit_loop (CHR '','') MAX_NAME_LEN (comma_list (p # q # ps)) i arr n =
      StringSplit_loop (CHR '','') MAX_NAME_LEN (comma_list (q # ps)) (Suc i) arr1 n"
    using 3(4) split_piece [OF p] put by (subst StringSplit_loop.simps) simp
  obtain arr' where r: "StringSplit_loop (CHR '','') MAX_NAME_LEN (comma_list (q # ps)) (Suc i) arr1 n =
      Some (0, arr', int (Suc i + length (q # ps)))"
    and keep: "\<forall>k q. k < Suc i \<longrightarrow> piece_ok q \<longrightarrow> row_is k q arr1 \<longrightarrow> row_is k q arr'"
    and new: "\<forall>j < length (q # ps). row_is (Suc i + j) ((q # ps) ! j) arr'"
    using 3(1) [of "Suc i" arr1] 3(2-4) put_row(1) [OF put] by auto
  have "row_is (i + j) ((p # q # ps) ! j) arr'" if "j < length (p # q # ps)" for j
    using that keep new put_row(2) [OF put] p by (cases j) auto
  then show ?case using step r keep put_row(3) [OF put] by auto
qed

lemma split_overflow:
  assumes "\<forall>p \<in> set ps. piece_ok p" "length arr < (i + length ps) * MAX_NAME_LEN" "length arr = m * MAX_NAME_LEN"
    "i \<le> m" "int m \<le> n"
  shows "StringSplit_loop (CHR '','') MAX_NAME_LEN (comma_list ps) i arr n = None"
  using assms
proof (induction ps arbitrary: i arr rule: comma_list.induct)
  case (2 p)
  then have "m * MAX_NAME_LEN < Suc i * MAX_NAME_LEN" by simp
  then have "i = m" using 2(4) by (auto simp add: mult_less_cancel2 simp del: mult_Suc)
  moreover have "p \<noteq> []" "CHR '','' \<notin> set p" using 2 by (auto simp: piece_ok_def)
  ultimately show ?case using 2(3) by (subst StringSplit_loop.simps) (simp add: put_at_def)
next
  case (3 p q ps)
  have p: "piece_ok p" using 3(2) by simp
  have step: "StringSplit_loop (CHR '','') MAX_NAME_LEN (comma_list (p # q # ps)) i arr n =
      do { arr \<leftarrow> put_at (i * MAX_NAME_LEN) p arr; StringSplit_loop (CHR '','') MAX_NAME_LEN (comma_list (q # ps)) (Suc i) arr n }"
    using 3(5,6) split_piece [OF p] by (subst StringSplit_loop.simps) simp
  show ?case
  proof (cases "put_at (i * MAX_NAME_LEN) p arr")
    case (Some arr1)
    then have "i * MAX_NAME_LEN < length arr" by (auto simp: put_at_def split: if_splits)
    then have "Suc i \<le> m" using 3(4) by simp
    then show ?thesis using step Some 3 put_row(1) [OF Some] by simp
  qed (use step in simp)
qed simp

text \<open>A port as the gateway's table has it.\<close>

definition port_piece :: "bool \<times> int \<Rightarrow> string" where
  "port_piece p = (if fst p then ''tcp='' else ''udp='') @ fmt_d (snd p)"

definition valid_port :: "bool \<times> int \<Rightarrow> bool" where "valid_port p \<longleftrightarrow> 0 < snd p \<and> snd p < 65535"

lemma port_digits: "valid_port p \<Longrightarrow> length (fmt_d (snd p)) \<le> 5"
  using length_dec_digits [of "nat (snd p)" 5] by (simp add: valid_port_def fmt_d_def nat_less_iff)

lemma port_piece_ok: "valid_port p \<Longrightarrow> piece_ok (port_piece p)"
  using port_digits [of p] fmt_d_no_sep [of "snd p"] unfolding valid_port_def
  by (auto simp: piece_ok_def port_piece_def MAX_NAME_LEN_def)

lemma contains_prefix: "contains pat (pat @ s)"
proof (cases "pat @ s")
  case (Cons a l)
  then have "take (length pat) (a # l) = pat" by (metis append_eq_conv_conj)
  then show ?thesis by (simp add: Cons)
qed simp

lemma not_contains: "pat \<noteq> [] \<Longrightarrow> hd pat \<notin> set s \<Longrightarrow> \<not> contains pat s"
  by (induction s) (auto simp: neq_Nil_conv)

lemma row_port_piece:
  assumes "valid_port p"
  shows "row_port (port_piece p) = Some (snd p)"
proof -
  have "strtol 10 (dec_digits (nat (snd p)) @ []) = (snd p, [])"
    using assms by (subst strtol_dec) (auto simp: valid_port_def)
  then have "win_atoi (fmt_d (snd p)) = snd p" using assms by (simp add: win_atoi_def valid_port_def fmt_d_def)
  then show ?thesis using assms by (simp add: row_port_def port_piece_def valid_port_def)
qed

lemma add_port_piece:
  assumes "valid_port p"
  shows "add_port (port_piece p) ps = (if fst p then (fst ps @ [snd p], snd ps) else (fst ps, snd ps @ [snd p]))"
proof -
  have "CHR ''t'' \<notin> set (fmt_d (snd p))"
  proof
    assume "CHR ''t'' \<in> set (fmt_d (snd p))"
    then obtain d where "d < 10" "CHR ''t'' = digit_char d"
      using dec_digits_chars assms by (auto simp: fmt_d_def valid_port_def)
    moreover have "\<forall>d \<in> set [0..<10]. digit_char d \<noteq> CHR ''t''" by code_simp
    ultimately show False by auto
  qed
  then have "\<not> contains ''tcp'' (''udp='' @ fmt_d (snd p))" by (intro not_contains) auto
  moreover have "contains ''tcp'' (''tcp='' @ fmt_d (snd p))" "contains ''udp'' (''udp='' @ fmt_d (snd p))"
    using contains_prefix [of "''tcp''" "''='' @ fmt_d (snd p)"] contains_prefix [of "''udp''" "''='' @ fmt_d (snd p)"]
    by (simp_all del: contains.simps)
  ultimately have "contains ''tcp'' (port_piece p) = fst p" "\<not> fst p \<Longrightarrow> contains ''udp'' (port_piece p)"
    unfolding port_piece_def by (cases "fst p"; simp only: if_True if_False simp_thms)+
  then show ?thesis using row_port_piece [OF assms] by (simp add: add_port_def)
qed

lemma port_loop_rows:
  assumes "\<forall>j < length ps. row_is (i + j) (port_piece (ps ! j)) arr" "\<forall>p \<in> set ps. valid_port p"
  shows "port_loop [i..<i + length ps] arr acc =
    Some (fst acc @ map snd (filter fst ps), snd acc @ map snd (filter (\<lambda>p. \<not> fst p) ps))"
  using assms
proof (induction ps arbitrary: i acc)
  case (Cons p ps)
  have "row_is i (port_piece p) arr" using Cons.prems(1) [rule_format, of 0] by simp
  then have r: "row_text i arr = Some (port_piece p)"
    using row_is_text port_piece_ok Cons.prems(2) by (auto simp: piece_ok_def)
  have rest: "\<forall>j < length ps. row_is (Suc i + j) (port_piece (ps ! j)) arr"
    using Cons.prems(1) by (metis Suc_less_eq add_Suc_right add_Suc length_Cons nth_Cons_Suc)
  have "[i..<i + length (p # ps)] = i # [Suc i..<Suc i + length ps]" by (simp add: upt_rec)
  then show ?case using r Cons.IH [OF rest, of "add_port (port_piece p) acc"] Cons.prems(2)
    by (simp add: add_port_piece del: upt_Suc)
qed simp

text \<open>C40: The ports of a server, as the gateway sends them in one text: with one to nine valid ports both lists hold
  exactly the ports of their protocol, in order, and the address (an ASCII text) is taken over; with no port or with ten nothing is
  taken over, the address included; and more than ten ports are written past the array.\<close>
theorem server_ports_parsed:
  assumes "\<forall>p \<in> set ps. valid_port p" "si_ssl_port (gs_info svr) = comma_list (map port_piece ps)"
    and "length arr = PORT_ROWS * MAX_NAME_LEN"
  shows "ParseServerIpPort arr svr =
    (if length ps \<in> {1..9}
     then map_option (\<lambda>ip. (0, svr\<lparr>gs_tcp := map snd (filter fst ps), gs_udp := map snd (filter (\<lambda>p. \<not> fst p) ps),
       gs_ip := ip\<rparr>)) (mb2wc MAX_NAME_LEN (si_ip (gs_info svr)))
     else if length ps \<in> {0, 10} then Some (- 1, svr) else None)"
proof -
  have ok: "\<forall>p \<in> set (map port_piece ps). piece_ok p" using assms(1) by (simp add: port_piece_ok)
  show ?thesis
  proof (cases "length ps \<le> 10")
    case True
    then have "(0 + length (map port_piece ps)) * MAX_NAME_LEN \<le> length arr" using assms(3) by (simp add: PORT_ROWS_def)
    then obtain arr' where "StringSplit_loop (CHR '','') MAX_NAME_LEN (comma_list (map port_piece ps)) 0 arr (int PORT_ROWS) =
        Some (0, arr', int (length ps))"
      and rows: "\<forall>j < length ps. row_is j (port_piece (ps ! j)) arr'"
      using split_rows [OF ok, of 0 arr "int PORT_ROWS"] True by (auto simp: PORT_ROWS_def)
    then have s: "StringSplit (si_ssl_port (gs_info svr)) (CHR '','') MAX_NAME_LEN arr (int PORT_ROWS) =
        Some (0, arr', int (length ps))"
      by (simp add: StringSplit_def assms(2))
    show ?thesis using s True port_loop_rows [of ps 0 arr' "([], [])"] rows assms(1)
      by (auto simp: ParseServerIpPort_def PORT_ROWS_def Suc_le_eq map_option_case split: option.splits)
  next
    case False
    then have "StringSplit (si_ssl_port (gs_info svr)) (CHR '','') MAX_NAME_LEN arr (int PORT_ROWS) = None"
      using split_overflow [OF ok, of arr 0 PORT_ROWS "int PORT_ROWS"] assms(3)
      by (simp add: StringSplit_def assms(2) PORT_ROWS_def MAX_NAME_LEN_def)
    then show ?thesis using False by (auto simp: ParseServerIpPort_def)
  qed
qed

definition svr_demo :: gendo_svr where
  "svr_demo = \<lparr>gs_info = \<lparr>si_ip = ''10.0.0.1'', si_name = ''a'', si_protocol = 12, si_ssl_port = ''tcp=443,udp=53''\<rparr>, gs_ip = [],
     gs_proto = 0, gs_tcp = [], gs_udp = []\<rparr>"

theorem server_ports_parsed_witness:
  "ParseServerIpPort (replicate 320 NUL) svr_demo =
    Some (0, svr_demo\<lparr>gs_tcp := [443], gs_udp := [53], gs_ip := ''10.0.0.1''\<rparr>)"
proof -
  let ?ps = "[(True, 443), (False, 53)]"
  have v: "\<forall>p \<in> set ?ps. valid_port p" by (simp add: valid_port_def)
  have t: "si_ssl_port (gs_info svr_demo) = comma_list (map port_piece ?ps)" by code_simp
  have a: "length (replicate 320 NUL) = PORT_ROWS * MAX_NAME_LEN" by (simp add: PORT_ROWS_def MAX_NAME_LEN_def)
  show ?thesis using server_ports_parsed [OF v t a] by (simp add: svr_demo_def mb2wc_ascii MAX_NAME_LEN_def)
qed

end
