(* ===== verification/RopTap.thy ===== *)
theory RopTap imports RopVpn begin

text \<open>
  \<open>Client/RopCltLib/RopTap.cpp\<close>: the virtual network card that OpenVPN needs, with the functions that run an
  installer and wait (\<open>RopCreateProcessR\<close> of \<open>RopProcess.cpp\<close>) and that append to a file of the program
  (\<open>Write2File\<close> of \<open>RopUtil.cpp\<close>). The list of the network cards of Windows is a parameter: each look at it
  has its answer, the name of the card or none. \<open>TapSetIpDns\<close> is left out.
\<close>

section \<open>The card and its installer\<close>

text \<open>
  \<open>tp_found\<close>: the coming answers to the question for the card (afterwards there is none); \<open>tp_runs\<close>: the coming runs of
  the installer, with its exit code and what it prints, \<open>None\<close> if it cannot be started; \<open>tp_time\<close>: the time as text.
\<close>

record tap =
  tp_64 :: bool
  tp_found :: "string option list"
  tp_runs :: "(int \<times> string) option list"
  tp_time :: string

definition TAP32_INSTALL_CMD :: string where
  "TAP32_INSTALL_CMD = ''.'' @ [CHR 0x5C] @ ''driver_x86'' @ [CHR 0x5C] @ ''tapinstall.exe install .'' @ [CHR 0x5C] @ ''driver_x86'' @ [CHR 0x5C] @ ''OemWin2k.inf tap0901''"
definition TAP32_UNINSTALL_CMD :: string where
  "TAP32_UNINSTALL_CMD = ''.'' @ [CHR 0x5C] @ ''driver_x86'' @ [CHR 0x5C] @ ''tapinstall.exe remove tap0901''"
definition TAP64_INSTALL_CMD :: string where
  "TAP64_INSTALL_CMD = ''.'' @ [CHR 0x5C] @ ''driver_x64'' @ [CHR 0x5C] @ ''tapinstall.exe install .'' @ [CHR 0x5C] @ ''driver_x64'' @ [CHR 0x5C] @ ''OemWin2k.inf tap0901''"
definition TAP64_UNINSTALL_CMD :: string where
  "TAP64_UNINSTALL_CMD = ''.'' @ [CHR 0x5C] @ ''driver_x64'' @ [CHR 0x5C] @ ''tapinstall.exe remove tap0901''"

definition INSTALL_LOG :: string where "INSTALL_LOG = ''install.log''"
definition RESULT_LEN :: nat where "RESULT_LEN = 2048"

lemmas tap_cmds = TAP32_INSTALL_CMD_def TAP32_UNINSTALL_CMD_def TAP64_INSTALL_CMD_def TAP64_UNINSTALL_CMD_def

definition next_found :: "tap \<Rightarrow> string option \<times> tap" where
  "next_found t = (case tp_found t of [] \<Rightarrow> (None, t) | f # fs \<Rightarrow> (f, t\<lparr>tp_found := fs\<rparr>))"

definition TapStatus :: "tap \<Rightarrow> int \<times> tap" where
  "TapStatus t = (let (f, t) = next_found t in (if f = None then - 1 else 0, t))"

text \<open>What the command prints goes to an array of 2048 without a test; one that cannot be started answers \<open>- 1\<close>.\<close>

definition RopCreateProcessR :: "string \<Rightarrow> tap \<Rightarrow> os \<Rightarrow> (int \<times> string \<times> tap \<times> os) option" where
  "RopCreateProcessR cmd t z =
     (case tp_runs t of
        Some (rc, out) # rs \<Rightarrow> do {
          out \<leftarrow> in_buf RESULT_LEN out;
          Some (rc, out, t\<lparr>tp_runs := rs\<rparr>, z\<lparr>os_cmds := os_cmds z @ [cmd]\<rparr>) }
      | rs \<Rightarrow> Some (- 1, [], t\<lparr>tp_runs := tl rs\<rparr>, z))"

text \<open>A file of more than 2 MB is emptied first; one that cannot be opened stays as it is.\<close>

definition Write2File :: "string \<Rightarrow> string \<Rightarrow> string \<Rightarrow> os \<Rightarrow> os" where
  "Write2File name time text z =
     (if os_locked z name then z
      else
        let old = (case os_files z name of None \<Rightarrow> [] | Some s \<Rightarrow> if 2 * 1024 * 1024 < length s then [] else s)
        in z\<lparr>os_files := (os_files z)(name \<mapsto> old @ [NL] @ time @ ''  '' @ text)\<rparr>)"

definition TapInstall :: "tap \<Rightarrow> os \<Rightarrow> (int \<times> tap \<times> os) option" where
  "TapInstall t z =
     (let (s, t) = TapStatus t
      in if s = 0 then Some (0, t, z)
      else do {
        (rc, out, t, z) \<leftarrow> RopCreateProcessR (if tp_64 t then TAP64_INSTALL_CMD else TAP32_INSTALL_CMD) t z;
        let z = Write2File INSTALL_LOG (tp_time t) out z;
        if rc \<noteq> 0 then Some (- 1, t, z) else let (s, t) = TapStatus t in Some (s, t, z) })"

text \<open>A removal after which the card is still found is an error.\<close>

definition TapUnstall :: "tap \<Rightarrow> os \<Rightarrow> (int \<times> tap \<times> os) option" where
  "TapUnstall t z =
     (let (s, t) = TapStatus t
      in if s \<noteq> 0 then Some (0, t, z)
      else do {
        (rc, out, t, z) \<leftarrow> RopCreateProcessR (if tp_64 t then TAP64_UNINSTALL_CMD else TAP32_UNINSTALL_CMD) t z;
        let z = Write2File INSTALL_LOG (tp_time t) out z;
        if rc \<noteq> 0 then Some (- 1, t, z) else let (s, t) = TapStatus t in Some (if s = 0 then - 1 else 0, t, z) })"

definition TapRestore :: "tap \<Rightarrow> os \<Rightarrow> (int \<times> tap \<times> os) option" where
  "TapRestore t z = do {
     (r, t, z) \<leftarrow> TapUnstall t z;
     if r \<noteq> 0 then Some (- 1, t, z)
     else do { (r, t, z) \<leftarrow> TapInstall t z; Some (if r \<noteq> 0 then - 1 else 0, t, z) } }"

text \<open>The command is printed into an array of 128.\<close>

definition TAP_NAME_CHANGE_CMD :: "string \<Rightarrow> string \<Rightarrow> string" where
  "TAP_NAME_CHANGE_CMD old new =
     ''netsh interface set interface name='' @ [CHR 0x22] @ old @ [CHR 0x22] @ '' newname='' @ [CHR 0x22] @ new @ [CHR 0x22]"

definition TapSetName :: "string \<Rightarrow> tap \<Rightarrow> os \<Rightarrow> (int \<times> tap \<times> os) option" where
  "TapSetName name t z =
     (let (f, t) = next_found t
      in case f of
        None \<Rightarrow> Some (1, t, z)
      | Some old \<Rightarrow> do {
          new \<leftarrow> mb2wc 64 name;
          old \<leftarrow> mb2wc 64 old;
          cmd \<leftarrow> in_buf 128 (TAP_NAME_CHANGE_CMD old new);
          (b, z) \<leftarrow> RopCreateProcess cmd z;
          Some (if b then 0 else 2, t, z) })"

definition IsTapNameOK :: "string \<Rightarrow> tap \<Rightarrow> bool \<times> tap" where
  "IsTapNameOK name t = (let (f, t) = next_found t in (f = Some name, t))"

section \<open>What the set-up changes\<close>

text \<open>
  Every operation leaves the files except the log of the installer, the processes that were stopped, the locks and
  the routes as they are, and starts no command but the installer and the one that renames the card.
\<close>

definition tap_frame :: "os \<Rightarrow> os \<Rightarrow> bool" where
  "tap_frame z z' \<longleftrightarrow> (\<forall>f. f \<noteq> INSTALL_LOG \<longrightarrow> os_files z' f = os_files z f) \<and> os_stopped z' = os_stopped z \<and>
     os_locked z' = os_locked z \<and> os_routes z' = os_routes z \<and> (os_start z = [] \<longrightarrow> os_start z' = [])"

lemma tap_frame_refl [simp]: "tap_frame z z"
  by (simp add: tap_frame_def)

lemma tap_frame_trans: "tap_frame x y \<Longrightarrow> tap_frame y z \<Longrightarrow> tap_frame x z"
  by (simp add: tap_frame_def)

lemma RopCreateProcessR_frame: "RopCreateProcessR cmd t z = Some (rc, out, t', z') \<Longrightarrow> tap_frame z z'"
  by (auto simp: RopCreateProcessR_def tap_frame_def split: list.splits option.splits Option.bind_splits)

lemma Write2File_frame: "tap_frame z (Write2File INSTALL_LOG time text z)"
  by (simp add: Write2File_def tap_frame_def Let_def)

lemma RopCreateProcess_frame: "RopCreateProcess cmd z = Some (b, z') \<Longrightarrow> tap_frame z z'"
  by (auto simp: RopCreateProcess_def tap_frame_def split: list.splits bool.splits Option.bind_splits)

lemma TapInstall_frame: "TapInstall t z = Some (r, t', z') \<Longrightarrow> tap_frame z z'"
  by (auto simp: TapInstall_def Let_def split: prod.splits if_splits Option.bind_splits
      intro: tap_frame_trans [OF RopCreateProcessR_frame Write2File_frame])

lemma TapSetName_frame: "TapSetName name t z = Some (r, t', z') \<Longrightarrow> tap_frame z z'"
  by (auto simp: TapSetName_def Let_def split: prod.splits option.splits Option.bind_splits dest: RopCreateProcess_frame)

end
