(* ===== verification/GendoWnd.thy ===== *)
theory GendoWnd imports GendoServer RopTap begin

text \<open>
  \<open>Client/Gendo/GendoWnd.cpp\<close>: the part of the client's main window that chooses a server, connects and disconnects,
  follows the progress of OpenVPN and measures the servers. What is only shown (texts, colours, icons) is left out. The
  threads of a connection run beside the window without a lock: what they and the window's own thread call is a step,
  each round of the loop over the log is one, and so is each single write to the controls and to the lock.
\<close>

section \<open>State\<close>

datatype ras_call = DialPPTP string string string | DialL2TP string string string | HangUpPPTP | HangUpL2TP

text \<open>A thread of \<open>ThdOpvnVpnConnect\<close> that has not run yet, or that is following the log.\<close>

datatype worker = Starting | Polling

text \<open>
  \<open>w_calls\<close>: the calls of the classes for PPTP and L2TP; \<open>w_tray\<close>: whether the tray says that there is a connection.
  \<open>w_pptp\<close>, \<open>w_l2tp\<close>, \<open>w_udp\<close>: the option that is selected, \<open>w_can\<close> the protocols whose option is enabled.
\<close>

record wnd =
  w_login :: bool
  w_user :: string
  w_pwd :: string
  w_svrs :: "gendo_svr list"
  w_cur :: gendo_svr
  w_choise :: bool
  w_lock :: bool
  w_pptp :: bool
  w_l2tp :: bool
  w_udp :: bool
  w_can :: "nat list"
  w_connect_btn :: bool
  w_disconnect_btn :: bool
  w_tray :: bool
  w_progress :: int
  w_visible :: bool
  w_ovpn :: vpn
  w_calls :: "ras_call list"
  w_workers :: "worker list"

text \<open>What the virtual card and the dialling answer, and the random number.\<close>

record net_env =
  net_tap :: tap
  dial_pptp :: int
  dial_l2tp :: int
  rnd :: nat

definition OPENVPN_LOG_FILE :: string where "OPENVPN_LOG_FILE = ''gendo.log''"

section \<open>Choosing a server\<close>

text \<open>An index without a server is an assertion that fails.\<close>

definition OnItemClick :: "int \<Rightarrow> wnd \<Rightarrow> wnd option" where
  "OnItemClick index w =
     (if w_lock w then Some w
      else do {
        svr \<leftarrow> Svr_Get index (w_svrs w);
        let p = si_protocol (gs_info svr);
        let udp = p AND PROTO_OPENVPN_UDP \<noteq> 0;
        Some (w\<lparr>w_cur := svr, w_choise := True,
          w_can := filter (\<lambda>q. p AND q \<noteq> 0) [PROTO_PPTP, PROTO_L2TP, PROTO_OPENVPN_UDP],
          w_pptp := \<not> udp, w_l2tp := False, w_udp := udp\<rparr>) })"

text \<open>The window's options are a group: an enabled one is selected and the others are not; then the handler is called.\<close>

definition select_option :: "nat \<Rightarrow> wnd \<Rightarrow> wnd" where
  "select_option p w =
     (if p \<in> set (w_can w)
      then w\<lparr>w_pptp := (p = PROTO_PPTP), w_l2tp := (p = PROTO_L2TP), w_udp := (p = PROTO_OPENVPN_UDP)\<rparr> else w)"

definition OnClick_proto :: "nat \<Rightarrow> wnd \<Rightarrow> wnd" where
  "OnClick_proto p w = (if w_lock w then w else w\<lparr>w_cur := (w_cur w)\<lparr>gs_proto := p\<rparr>\<rparr>)"

definition Svr_Info :: "int \<Rightarrow> 'a list \<Rightarrow> 'a option" where
  "Svr_Info index svrs = (if index < 0 \<or> int (length svrs) \<le> index then None else if length svrs = 0 then None else Some (svrs ! nat index))"

section \<open>Connecting\<close>

text \<open>The remainder by a count of 0 is a division by zero.\<close>

definition GetRandomSSLPort :: "nat \<Rightarrow> int list \<Rightarrow> int option" where
  "GetRandomSSLPort r ports = (if ports = [] then None else Some (ports ! (r mod length ports)))"

definition set_ssl :: "net_env \<Rightarrow> nat \<Rightarrow> wnd \<Rightarrow> os \<Rightarrow> (wnd \<times> os) option" where
  "set_ssl env protocol w z = do {
     let tcp = (protocol = PROTO_OPENVPN_TCP);
     prt \<leftarrow> GetRandomSSLPort (rnd env) (if tcp then gs_tcp (w_cur w) else gs_udp (w_cur w));
     (v, z) \<leftarrow> SetParams (w_user w) (w_pwd w) (gs_ip (w_cur w)) (if tcp then 1 else 0) prt (si_name (gs_info (w_cur w)))
       (SetAuthTyp 0 0 (w_ovpn w)) z;
     Some (w\<lparr>w_ovpn := v\<rparr>, z) }"

text \<open>The virtual card is installed and named, or renamed; a name that cannot be changed in the second case is ignored.\<close>

definition setup_tap :: "tap \<Rightarrow> os \<Rightarrow> (int \<times> os) option" where
  "setup_tap t z =
     (let (s, t) = TapStatus t
      in if s \<noteq> 0
      then do {
        (r, t, z) \<leftarrow> TapInstall t z;
        if r \<noteq> 0 then Some (1, z)
        else do { (r, _, z) \<leftarrow> TapSetName OPENVPN_TAP_NAME t z; Some (if r \<noteq> 0 then 1 else 0, z) } }
      else
        let (good, t) = IsTapNameOK OPENVPN_TAP_NAME t
        in if good then Some (0, z) else do { (_, _, z) \<leftarrow> TapSetName OPENVPN_TAP_NAME t z; Some (0, z) })"

definition ConnectSSL :: "net_env \<Rightarrow> nat \<Rightarrow> wnd \<Rightarrow> os \<Rightarrow> (int \<times> wnd \<times> os) option" where
  "ConnectSSL env protocol w z = do {
     (r, z) \<leftarrow> setup_tap (net_tap env) z;
     if r \<noteq> 0 then Some (1, w, z)
     else do {
       (w, z) \<leftarrow> set_ssl env protocol w z;
       Some (0, w\<lparr>w_workers := w_workers w @ [Starting]\<rparr>, z) } }"

text \<open>
  The writes with which the functions end, in the order of the code; another thread can come between two of them.
\<close>

datatype wnd_write =
    LockSvr bool | EnableConnect bool | EnableDisconnect bool | TrayStatus bool | ShowProgress bool | SetProgress int

fun do_write :: "wnd_write \<Rightarrow> wnd \<Rightarrow> wnd" where
  "do_write (LockSvr b) w = w\<lparr>w_lock := b\<rparr>"
| "do_write (EnableConnect b) w = w\<lparr>w_connect_btn := b\<rparr>"
| "do_write (EnableDisconnect b) w = w\<lparr>w_disconnect_btn := b\<rparr>"
| "do_write (TrayStatus b) w = w\<lparr>w_tray := b\<rparr>"
| "do_write (ShowProgress b) w = w\<lparr>w_visible := b\<rparr>"
| "do_write (SetProgress n) w = w\<lparr>w_progress := n\<rparr>"

definition CONNECTED :: "wnd_write list" where
  "CONNECTED = [LockSvr True, EnableConnect False, EnableDisconnect True]"

definition DISCONNECTED :: "wnd_write list" where
  "DISCONNECTED = [LockSvr False, EnableConnect True, EnableDisconnect False, TrayStatus False]"

lemmas write_lists = CONNECTED_def DISCONNECTED_def

text \<open>\<open>Disconnect\<close> and \<open>Connect\<close> up to those writes.\<close>

definition Disconnect_calls :: "addr_api \<Rightarrow> wnd \<Rightarrow> os \<Rightarrow> (wnd \<times> os) option" where
  "Disconnect_calls api w z = do {
     (_, z) \<leftarrow> DisConnect api (w_ovpn w) z;
     Some (w\<lparr>w_calls := w_calls w @ [HangUpPPTP, HangUpL2TP]\<rparr>, z) }"

definition Disconnect :: "addr_api \<Rightarrow> wnd \<Rightarrow> os \<Rightarrow> (wnd \<times> os) option" where
  "Disconnect api w z = do { (w, z) \<leftarrow> Disconnect_calls api w z; Some (fold do_write DISCONNECTED w, z) }"

text \<open>The protocol is that of the selected option.\<close>

definition chosen_proto :: "wnd \<Rightarrow> nat option" where
  "chosen_proto w =
     (if w_pptp w then Some PROTO_PPTP else if w_l2tp w then Some PROTO_L2TP
      else if w_udp w then Some PROTO_OPENVPN_UDP else None)"

definition dial :: "net_env \<Rightarrow> nat \<Rightarrow> wnd \<Rightarrow> os \<Rightarrow> (int \<times> wnd \<times> os) option" where
  "dial env p w z =
     (let ip = gs_ip (w_cur w); user = w_user w; pwd = w_pwd w
      in if p = PROTO_PPTP then Some (dial_pptp env, w\<lparr>w_calls := w_calls w @ [DialPPTP ip user pwd]\<rparr>, z)
      else if p = PROTO_L2TP then Some (dial_l2tp env, w\<lparr>w_calls := w_calls w @ [DialL2TP ip user pwd]\<rparr>, z)
      else do { (_, w, z) \<leftarrow> ConnectSSL env p w z; Some (0, w, z) })"

definition Connect_calls :: "addr_api \<Rightarrow> net_env \<Rightarrow> wnd \<Rightarrow> os \<Rightarrow> (int \<times> wnd_write list \<times> wnd \<times> os) option" where
  "Connect_calls api env w z =
     (let w = w\<lparr>w_visible := True, w_progress := 0\<rparr>
      in if \<not> w_choise w \<or> \<not> w_login w then Some (- 1, [], w, z)
      else case chosen_proto w of
        None \<Rightarrow> Some (- 1, [], w, z)
      | Some p \<Rightarrow> do {
          (ret, w, z) \<leftarrow> dial env p (w\<lparr>w_cur := (w_cur w)\<lparr>gs_proto := p\<rparr>\<rparr>) z;
          if ret \<noteq> 0 then do { (w, z) \<leftarrow> Disconnect_calls api w z; Some (- 1, DISCONNECTED, w, z) }
          else
            let ws = (if p = PROTO_L2TP \<or> p = PROTO_PPTP then [SetProgress 100, TrayStatus True] else [])
            in Some (0, ws @ CONNECTED, w, z) })"

definition Wnd_Connect :: "addr_api \<Rightarrow> net_env \<Rightarrow> wnd \<Rightarrow> os \<Rightarrow> (int \<times> wnd \<times> os) option" where
  "Wnd_Connect api env w z = do { (r, ws, w, z) \<leftarrow> Connect_calls api env w z; Some (r, fold do_write ws w, z) }"

section \<open>The threads of a connection\<close>

text \<open>One round of \<open>ShowOpenVPNStatus\<close>: the log as it is then; the flag says whether the loop ends at that time.\<close>

definition status_round :: "string option \<Rightarrow> int \<Rightarrow> wnd \<Rightarrow> os \<Rightarrow> (int \<times> bool \<times> wnd \<times> os) option" where
  "status_round log time w z = do {
     (ret, v, z) \<leftarrow> GetStatus OPENVPN_LOG_FILE (w_ovpn w) (z\<lparr>os_files := (os_files z)(OPENVPN_LOG_FILE := log)\<rparr>);
     let w = w\<lparr>w_ovpn := v\<rparr>;
     Some (ret, 30 * 1000 < time \<or> ret = 0 \<or> ret = - 1, if 0 < ret then w\<lparr>w_progress := ret * 16\<rparr> else w, z) }"

text \<open>The loop over a script of rounds: the log and the time since the start. \<open>None\<close> is also a loop that still runs.\<close>

fun ShowOpenVPNStatus :: "(string option \<times> int) list \<Rightarrow> wnd \<Rightarrow> os \<Rightarrow> (int \<times> wnd \<times> os) option" where
  "ShowOpenVPNStatus [] w z = None"
| "ShowOpenVPNStatus ((log, time) # rs) w z = do {
     (ret, done, w, z) \<leftarrow> status_round log time w z;
     if done then Some (ret, w, z) else ShowOpenVPNStatus rs w z }"

definition thd_start :: "os \<Rightarrow> (int \<times> os) option" where
  "thd_start z = do { (ret, z) \<leftarrow> RopVpn.Connect z; Some (ret, Cleanup z) }"

definition finish_calls :: "addr_api \<Rightarrow> int \<Rightarrow> wnd \<Rightarrow> os \<Rightarrow> (wnd_write list \<times> wnd \<times> os) option" where
  "finish_calls api ret w z = do {
     (ws, w, z) \<leftarrow>
       (if ret = - 1 then do { (w, z) \<leftarrow> Disconnect_calls api w z; Some (DISCONNECTED, w, z) }
        else if ret = 6 then do {
          (_, z) \<leftarrow> FixWin8Up OPENVPN_TAP_NAME z;
          (w, z) \<leftarrow> Disconnect_calls api w z;
          Some (DISCONNECTED, w, z) }
        else if ret \<noteq> 0 then do { (w, z) \<leftarrow> Disconnect_calls api w z; Some (DISCONNECTED, w, z) }
        else do {
          cmd \<leftarrow> in_buf 128 (''ping '' @ m_sIP (w_ovpn w) @ '' -n 10'');
          (_, z) \<leftarrow> RopCreateProcess cmd z;
          Some ([], w, z) });
     Some (ws @ [ShowProgress False, TrayStatus True], w, z) }"

definition thd_finish :: "addr_api \<Rightarrow> int \<Rightarrow> wnd \<Rightarrow> os \<Rightarrow> (wnd \<times> os) option" where
  "thd_finish api ret w z = do { (ws, w, z) \<leftarrow> finish_calls api ret w z; Some (fold do_write ws w, z) }"

definition ThdOpvnVpnConnect :: "addr_api \<Rightarrow> (string option \<times> int) list \<Rightarrow> wnd \<Rightarrow> os \<Rightarrow> (int \<times> wnd \<times> os) option" where
  "ThdOpvnVpnConnect api rounds w z = do {
     (ret, z) \<leftarrow> thd_start z;
     if ret \<noteq> 0 then Some (- 1, w, z)
     else do {
       (ret, w, z) \<leftarrow> ShowOpenVPNStatus rounds w z;
       (w, z) \<leftarrow> thd_finish api ret w z;
       Some (ret, w, z) } }"

definition disconnect_calls :: "addr_api \<Rightarrow> wnd \<Rightarrow> os \<Rightarrow> (wnd_write list \<times> wnd \<times> os) option" where
  "disconnect_calls api w z = do {
     (w, z) \<leftarrow> Disconnect_calls api (w\<lparr>w_progress := 0, w_visible := True\<rparr>) z;
     Some (SetProgress 100 # DISCONNECTED @ [ShowProgress False], w, z) }"

definition ThdDisconnectVPN :: "addr_api \<Rightarrow> wnd \<Rightarrow> os \<Rightarrow> (wnd \<times> os) option" where
  "ThdDisconnectVPN api w z = do { (ws, w, z) \<leftarrow> disconnect_calls api w z; Some (fold do_write ws w, z) }"

section \<open>Measuring the servers\<close>

definition PING_EACH_THREAD :: nat where "PING_EACH_THREAD = 3"

text \<open>The places of the first and the last server of each thread; the last may be before the first.\<close>

definition ThdPingSvr2 :: "nat \<Rightarrow> (nat \<times> int) list" where
  "ThdPingSvr2 n =
     map (\<lambda>i. (i * PING_EACH_THREAD,
               let e = int ((i + 1) * PING_EACH_THREAD - 1) in if int n \<le> e then int n - 1 else e))
       [0..<n div PING_EACH_THREAD + n mod PING_EACH_THREAD]"

text \<open>The servers a thread measures, in order; a thread with a single one measures it before the loop and in it.\<close>

definition ThdPingSvr3 :: "nat \<Rightarrow> nat \<times> int \<Rightarrow> nat list" where
  "ThdPingSvr3 n ping =
     (case ping of (s, e) \<Rightarrow> (if int s = e then [s] else []) @ filter (\<lambda>i. int i \<le> e) [s..<n])"

section \<open>The window and its threads\<close>

text \<open>
  The state: the window, the writes that its own thread still has to do, those of the other threads, and the system.
  The window's thread handles the next click when it has done its writes.
\<close>

type_synonym wnd_state = "wnd \<times> wnd_write list \<times> wnd_write list list \<times> os"

inductive wnd_step :: "addr_api \<Rightarrow> wnd_state \<Rightarrow> wnd_state \<Rightarrow> bool" for api where
  item: "OnItemClick i w = Some w' \<Longrightarrow> wnd_step api (w, [], ts, z) (w', [], ts, z)"
| choose: "wnd_step api (w, [], ts, z) (OnClick_proto p (select_option p w), [], ts, z)"
| connect: "w_connect_btn w \<Longrightarrow> Connect_calls api env w z = Some (r, ui, w', z') \<Longrightarrow>
    wnd_step api (w, [], ts, z) (w', ui, ts, z')"
| disconnect: "w_disconnect_btn w \<Longrightarrow> disconnect_calls api w z = Some (ws, w', z') \<Longrightarrow>
    wnd_step api (w, [], ts, z) (w', [], ts @ [ws], z')"
| start: "w_workers w = us @ Starting # vs \<Longrightarrow> thd_start z = Some (r, z') \<Longrightarrow>
    wnd_step api (w, ui, ts, z) (w\<lparr>w_workers := (if r \<noteq> 0 then us @ vs else us @ Polling # vs)\<rparr>, ui, ts, z')"
| poll: "Polling \<in> set (w_workers w) \<Longrightarrow> status_round log time w z = Some (r, False, w', z') \<Longrightarrow>
    wnd_step api (w, ui, ts, z) (w', ui, ts, z')"
| finish: "w_workers w = us @ Polling # vs \<Longrightarrow> status_round log time w z = Some (r, True, w1, z1) \<Longrightarrow>
    finish_calls api r (w1\<lparr>w_workers := us @ vs\<rparr>) z1 = Some (ws, w', z') \<Longrightarrow>
    wnd_step api (w, ui, ts, z) (w', ui, ts @ [ws], z')"
| ui_write: "wnd_step api (w, x # ui, ts, z) (do_write x w, ui, ts, z)"
| thread_write: "wnd_step api (w, ui, us @ (x # ws) # vs, z) (do_write x w, ui, us @ ws # vs, z)"

inductive_cases wnd_stepE: "wnd_step api s t"

section \<open>Every server is measured\<close>

lemma filter_upto: "a \<le> Suc m \<Longrightarrow> Suc m \<le> n \<Longrightarrow> filter (\<lambda>i. int i \<le> int m) [a..<n] = [a..<Suc m]"
  using upt_add_eq_append [of a "Suc m" "n - Suc m"] by (auto simp: filter_empty_conv simp del: upt_Suc)

lemma full_range:
  assumes "Suc i * 3 \<le> n"
  shows "ThdPingSvr3 n (i * 3, int ((i + 1) * 3 - 1)) = [i * 3..<Suc i * 3]"
proof -
  have "(i + 1) * 3 - 1 = i * 3 + 2" by simp
  moreover have "Suc (i * 3 + 2) = Suc i * 3" by simp
  ultimately show ?thesis using assms filter_upto [of "i * 3" "i * 3 + 2" n]
    by (simp add: ThdPingSvr3_def numeral_2_eq_2 numeral_3_eq_3 del: upt_Suc)
qed

lemma full_ranges: "concat (map (\<lambda>i. [i * 3..<Suc i * 3]) [0..<k]) = [0..<k * 3]"
proof (induction k)
  case (Suc k)
  have "[0..<k * 3 + 3] = [0..<k * 3] @ [k * 3..<k * 3 + 3]" using upt_add_eq_append [of 0 "k * 3" 3] by simp
  with Suc show ?case by (simp add: add.commute)
qed simp

text \<open>Measuring the servers covers the whole list: put together, the threads measure every server, in order and
  once, except that the last server is measured a second time when it is alone in its thread.\<close>
theorem ping_covers_servers:
  "concat (map (ThdPingSvr3 n) (ThdPingSvr2 n)) = [0..<n] @ (if n mod 3 = 1 then [n - 1] else [])"
proof -
  define k r where "k = n div 3" and "r = n mod 3"
  then have n: "n = k * 3 + r" and r: "r \<in> {0, 1, 2}" by auto
  define t where "t = (\<lambda>i. ThdPingSvr3 n (i * 3, if int n \<le> int ((i + 1) * 3 - 1) then int n - 1 else int ((i + 1) * 3 - 1)))"
  have "concat (map (ThdPingSvr3 n) (ThdPingSvr2 n)) = concat (map t [0..<k + r])"
    by (simp only: ThdPingSvr2_def PING_EACH_THREAD_def t_def Let_def k_def r_def map_map comp_def)
  also have "\<dots> = concat (map t [0..<k]) @ concat (map t [k..<k + r])"
    using upt_add_eq_append [of 0 k r] by simp
  also have "map t [0..<k] = map (\<lambda>i. [i * 3..<Suc i * 3]) [0..<k]"
  proof (rule map_cong [OF refl])
    fix i assume "i \<in> set [0..<k]"
    then have "Suc i * 3 \<le> k * 3" by (intro mult_le_mono) auto
    then have "Suc i * 3 \<le> n" by (simp add: n)
    then show "t i = [i * 3..<Suc i * 3]" using full_range [of i n] by (simp add: t_def)
  qed
  also have "concat (map t [k..<k + r]) = [k * 3..<n] @ (if n mod 3 = 1 then [n - 1] else [])"
  proof -
    consider "r = 0" | "r = 1" | "r = 2" using r by auto
    then show ?thesis
    proof cases
      case 2
      then have "n mod 3 = 1" using r_def by simp
      then show ?thesis using 2 by (simp add: t_def ThdPingSvr3_def n)
    next
      case 3
      then have m: "n mod 3 \<noteq> 1" using r_def by simp
      have "t k = [k * 3, k * 3 + 1]" "t (Suc k) = []" using 3 by (auto simp: t_def ThdPingSvr3_def n numeral_2_eq_2)
      then show ?thesis using 3 m by (simp add: n numeral_2_eq_2)
    qed (auto simp: t_def ThdPingSvr3_def n)
  qed
  finally show ?thesis using upt_add_eq_append [of 0 "k * 3" r] full_ranges [of k] by (simp add: n)
qed

section \<open>Connecting\<close>

lemma setup_tap_frame: "setup_tap t z = Some (r, z') \<Longrightarrow> tap_frame z z'"
  by (auto simp: setup_tap_def Let_def split: prod.splits if_splits Option.bind_splits
      dest: TapInstall_frame TapSetName_frame intro: tap_frame_trans)

text \<open>When the virtual card that SSL needs cannot be installed or named, connecting with SSL still reports success: the
  window locks its server list and enables only the button that disconnects, although no thread was started, nothing was
  dialled and no configuration was written. What the installer itself has done (its log, the commands started, perhaps a
  card without the name) stays.\<close>
theorem ssl_setup_failure_locks:
  assumes "w_choise w" "w_login w" "chosen_proto w = Some PROTO_OPENVPN_UDP" "setup_tap (net_tap env) z = Some (1, z1)"
  shows "\<exists>w'. Wnd_Connect api env w z = Some (0, w', z1) \<and> w_lock w' \<and> \<not> w_connect_btn w' \<and> w_disconnect_btn w' \<and>
    w_workers w' = w_workers w \<and> w_calls w' = w_calls w \<and> os_stopped z1 = os_stopped z \<and>
    (\<forall>f. f \<noteq> INSTALL_LOG \<longrightarrow> os_files z1 f = os_files z f)"
proof -
  have "tap_frame z z1" by (rule setup_tap_frame [OF assms(4)])
  then show ?thesis using assms
    by (simp add: Wnd_Connect_def Connect_calls_def Let_def chosen_proto_def dial_def ConnectSSL_def PROTO_PPTP_def PROTO_L2TP_def
        PROTO_OPENVPN_UDP_def write_lists tap_frame_def split: if_splits)
qed

definition vpn_demo :: vpn where
  "vpn_demo = \<lparr>m_sUser = [], m_sPwd = [], m_sIP = ''10.0.0.1'', m_sSvrName = [], m_sProto = [], m_iPort = 0, m_iProto = 0, m_iSslAlgs = 0,
     m_iAuthType = 0, m_bFixedWin8 = False\<rparr>"

definition wnd_demo :: wnd where
  "wnd_demo = \<lparr>w_login = True, w_user = ''u'', w_pwd = ''p'', w_svrs = [svr_demo], w_cur = svr_demo, w_choise = True, w_lock = False,
     w_pptp = False, w_l2tp = False, w_udp = True, w_can = [4], w_connect_btn = True, w_disconnect_btn = False, w_tray = False,
     w_progress = 0, w_visible = False, w_ovpn = vpn_demo, w_calls = [], w_workers = []\<rparr>"

definition os_demo :: os where
  "os_demo = \<lparr>os_files = (\<lambda>_. None), os_locked = (\<lambda>_. False), os_cmds = [], os_start = [], os_stopped = [], os_routes = []\<rparr>"

text \<open>A machine without the card, whose installer answers \<open>2\<close>.\<close>

definition env_demo :: net_env where
  "env_demo = \<lparr>net_tap = \<lparr>tp_64 = True, tp_found = [], tp_runs = [Some (2, ''failed'')], tp_time = ''2013-5-1 0:0:0''\<rparr>,
     dial_pptp = 0, dial_l2tp = 0, rnd = 0\<rparr>"

definition addr_demo :: addr_api where
  "addr_demo = \<lparr>to_addr = (\<lambda>_. 0), to_text = (\<lambda>_. ''0.0.0.0'')\<rparr>"

theorem ssl_setup_failure_locks_witness:
  "\<exists>w' z'. Wnd_Connect addr_demo env_demo wnd_demo os_demo = Some (0, w', z') \<and> w_lock w' \<and> \<not> w_connect_btn w' \<and>
    w_disconnect_btn w' \<and> w_workers w' = [] \<and> os_cmds z' = [TAP64_INSTALL_CMD]"
proof -
  let ?z = "Write2File INSTALL_LOG ''2013-5-1 0:0:0'' ''failed'' (os_demo\<lparr>os_cmds := [TAP64_INSTALL_CMD]\<rparr>)"
  have "setup_tap (net_tap env_demo) os_demo = Some (1, ?z)"
    by (simp add: setup_tap_def TapStatus_def next_found_def TapInstall_def RopCreateProcessR_def env_demo_def in_buf_def
        RESULT_LEN_def os_demo_def)
  moreover have "os_cmds ?z = [TAP64_INSTALL_CMD]" by (simp add: Write2File_def os_demo_def)
  moreover have "w_choise wnd_demo" "w_login wnd_demo" "chosen_proto wnd_demo = Some PROTO_OPENVPN_UDP" "w_workers wnd_demo = []"
    by (simp_all add: wnd_demo_def chosen_proto_def)
  ultimately show ?thesis using ssl_setup_failure_locks [of wnd_demo env_demo os_demo ?z addr_demo] by auto
qed

text \<open>A server without ports for SSL keeps no address in the list.\<close>

lemma insert_portless:
  assumes "si_ssl_port info = []"
  shows "Svr_Insert arr info l = Some (0, l @ [\<lparr>gs_info = info, gs_ip = [], gs_proto = 0, gs_tcp = [], gs_udp = []\<rparr>])"
  using assms by (simp add: Svr_Insert_def ParseServerIpPort_def StringSplit_def StringSplit_loop.simps)

text \<open>A server that offers no SSL is never reached: its text of ports is empty, so its address is not taken over
  when the list is filled, and choosing it and connecting dials PPTP, whether the server offers it or not, with an empty
  address.\<close>
theorem portless_server_unreachable:
  assumes "si_ssl_port info = []" "si_protocol info AND PROTO_OPENVPN_UDP = 0" "\<not> w_lock w" "w_login w" "dial_pptp env = 0"
  shows "\<exists>w'. do { (_, svrs) \<leftarrow> Svr_Insert arr info (w_svrs w);
        w1 \<leftarrow> OnItemClick (int (length (w_svrs w))) (w\<lparr>w_svrs := svrs\<rparr>);
        Wnd_Connect api env w1 z } = Some (0, w', z) \<and>
      w_calls w' = w_calls w @ [DialPPTP [] (w_user w) (w_pwd w)] \<and> w_lock w' \<and> w_tray w'"
  using assms
  by (simp add: insert_portless OnItemClick_def Svr_Get_def Wnd_Connect_def Connect_calls_def Let_def chosen_proto_def dial_def
      write_lists)

theorem portless_server_unreachable_witness:
  "\<exists>w'. do { (_, svrs) \<leftarrow> Svr_Insert [] \<lparr>si_ip = ''10.0.0.9'', si_name = ''b'', si_protocol = 2, si_ssl_port = []\<rparr> (w_svrs wnd_demo);
        w1 \<leftarrow> OnItemClick (int (length (w_svrs wnd_demo))) (wnd_demo\<lparr>w_svrs := svrs\<rparr>);
        Wnd_Connect addr_demo env_demo w1 os_demo } = Some (0, w', os_demo) \<and>
      w_calls w' = w_calls wnd_demo @ [DialPPTP [] (w_user wnd_demo) (w_pwd wnd_demo)] \<and> w_lock w' \<and> w_tray w'"
  by (rule portless_server_unreachable) (simp_all add: wnd_demo_def env_demo_def PROTO_OPENVPN_UDP_def)

section \<open>The outcome of a session\<close>

text \<open>Starting commands changes neither the files nor what was stopped.\<close>

definition quiet :: "os \<Rightarrow> os \<Rightarrow> bool" where
  "quiet z z' \<longleftrightarrow> os_files z' = os_files z \<and> os_stopped z' = os_stopped z \<and> os_locked z' = os_locked z \<and>
     (os_start z = [] \<longrightarrow> os_start z' = [])"

lemma quiet_refl [simp]: "quiet z z" and quiet_trans: "quiet x y \<Longrightarrow> quiet y z \<Longrightarrow> quiet x z"
  by (simp_all add: quiet_def)

lemma RopCreateProcess_quiet: "length cmd < 256 \<Longrightarrow> \<exists>r z'. RopCreateProcess cmd z = Some (r, z') \<and> quiet z z'"
  using RopCreateProcess_started [of cmd z] by (simp add: quiet_def)

lemma RopCreateProcessA_quiet:
  assumes "ascii cmd"
  shows "\<exists>r z'. RopCreateProcessA cmd z = Some (r, z') \<and> quiet z z'"
proof -
  define c where "c = (if length cmd < 256 then cmd else [])"
  have "length c < 256" by (simp add: c_def)
  from RopCreateProcess_quiet [OF this] show ?thesis by (simp add: RopCreateProcessA_def mb2wc_ascii [OF assms] c_def)
qed

text \<open>\<open>inet_ntoa\<close> gives the dotted form of an address.\<close>

definition text_ok :: "addr_api \<Rightarrow> bool" where
  "text_ok api \<longleftrightarrow> (\<forall>a. ascii (to_text api a))"

lemma nic_loop_quiet: "text_ok api \<Longrightarrow> \<exists>z'. nic_loop api rs z = Some z' \<and> quiet z z'"
proof (induction rs arbitrary: z)
  case (Cons a rs)
  obtain d m h where a: "a = (d, m, h)" by (cases a)
  define cmd where "cmd = ''route delete '' @ to_text api d @ '' MASK '' @ to_text api m @ '' '' @ to_text api h"
  have "ascii cmd" using Cons.prems by (simp add: cmd_def text_ok_def)
  then obtain r z1 where z1: "RopCreateProcessA cmd z = Some (r, z1)" "quiet z z1" using RopCreateProcessA_quiet by blast
  obtain z2 where "nic_loop api rs z1 = Some z2" "quiet z1 z2" using Cons.IH Cons.prems by blast
  then have "nic_loop api (a # rs) z = Some z2 \<and> quiet z z2" if "IsGendoOvpnNet api d"
    using that z1 quiet_trans unfolding a nic_loop.simps cmd_def [symmetric] by auto
  moreover obtain z3 where "nic_loop api rs z = Some z3" "quiet z z3" using Cons.IH Cons.prems by blast
  then have "nic_loop api (a # rs) z = Some z3 \<and> quiet z z3" if "\<not> IsGendoOvpnNet api d" using that by (simp add: a)
  ultimately show ?case by blast
qed simp

lemma DelDefaultRoute_quiet: "\<exists>z'. DelDefaultRoute z = Some z' \<and> quiet z z'"
proof -
  obtain r1 z1 where 1: "RopCreateProcess ''route delete 0.0.0.0 MASK 128.0.0.0 -p'' z = Some (r1, z1)" "quiet z z1"
    using RopCreateProcess_quiet [of "''route delete 0.0.0.0 MASK 128.0.0.0 -p''" z] by auto
  obtain r2 z2 where 2: "RopCreateProcess ''route delete 128.0.0.0 MASK 128.0.0.0 -p'' z1 = Some (r2, z2)" "quiet z1 z2"
    using RopCreateProcess_quiet [of "''route delete 128.0.0.0 MASK 128.0.0.0 -p''" z1] by auto
  show ?thesis using 1 2 by (auto simp: DelDefaultRoute_def intro: quiet_trans)
qed

lemma DelHostIPRoute_quiet:
  assumes "length (m_sIP v) < 32"
  shows "\<exists>z'. DelHostIPRoute v z = Some z' \<and> quiet z z'"
proof -
  have "length (''route delete '' @ m_sIP v @ '' -p'') < 256" using assms by simp
  then obtain r z' where "RopCreateProcess (''route delete '' @ m_sIP v @ '' -p'') z = Some (r, z')" "quiet z z'"
    using RopCreateProcess_quiet by blast
  then show ?thesis by (simp add: DelHostIPRoute_def)
qed

lemma DisConnect_stops:
  assumes "length (m_sIP v) < 32" "text_ok api"
  shows "\<exists>z' z''. DisConnect api v z = Some (0, z') \<and> quiet z z'' \<and>
    z' = z''\<lparr>os_stopped := os_stopped z @ [OPENVPN_PROCESS_NAME]\<rparr>"
proof -
  obtain z1 where 1: "DelDefaultRoute z = Some z1" "quiet z z1" using DelDefaultRoute_quiet by blast
  obtain z2 where 2: "DelNicRoute api z1 = Some z2" "quiet z1 z2" unfolding DelNicRoute_def using nic_loop_quiet [OF assms(2)] by blast
  obtain z3 where 3: "DelHostIPRoute v z2 = Some z3" "quiet z2 z3" using DelHostIPRoute_quiet [OF assms(1)] by blast
  have q: "quiet z z3" using 1(2) 2(2) 3(2) quiet_trans by blast
  have "DisConnect api v z = Some (0, z3\<lparr>os_stopped := os_stopped z3 @ [OPENVPN_PROCESS_NAME]\<rparr>)"
    using 1(1) 2(1) 3(1) by (simp add: DisConnect_def RestoreRoute_def)
  then show ?thesis using q by (auto simp: quiet_def)
qed

lemma FixWin8TapEnable_quiet: "\<exists>r z'. FixWin8TapEnable OPENVPN_TAP_NAME z = Some (r, z') \<and> quiet z z'"
proof -
  define c where "c = ''netsh interface set interface '' @ [CHR 0x22] @ OPENVPN_TAP_NAME @ [CHR 0x22] @ '' ENABLED''"
  have "length c < 128" by (simp add: c_def OPENVPN_TAP_NAME_def)
  moreover have "FixWin8TapEnable OPENVPN_TAP_NAME z =
      do { c \<leftarrow> in_buf 128 c; (r, z) \<leftarrow> RopCreateProcessA c z; Some (if r then 0 else - 1, z) }"
    by (simp add: FixWin8TapEnable_def c_def)
  moreover have "ascii c" by (simp add: c_def OPENVPN_TAP_NAME_def)
  then obtain r z' where "RopCreateProcessA c z = Some (r, z')" "quiet z z'" using RopCreateProcessA_quiet by blast
  ultimately show ?thesis by (simp add: in_buf_def)
qed

lemma FixWin8Up_quiet: "\<exists>r z'. FixWin8Up OPENVPN_TAP_NAME z = Some (r, z') \<and> quiet z z'"
proof -
  define c where "c = ''netsh interface set interface '' @ [CHR 0x22] @ OPENVPN_TAP_NAME @ [CHR 0x22] @ '' DISABLED''"
  have "length c < 128" by (simp add: c_def OPENVPN_TAP_NAME_def)
  moreover have "FixWin8Up OPENVPN_TAP_NAME z =
      do { c \<leftarrow> in_buf 128 c; (_, z) \<leftarrow> RopCreateProcessA c z; FixWin8TapEnable OPENVPN_TAP_NAME z }"
    by (simp add: FixWin8Up_def c_def)
  moreover have "ascii c" by (simp add: c_def OPENVPN_TAP_NAME_def)
  then obtain r z1 where "RopCreateProcessA c z = Some (r, z1)" "quiet z z1" using RopCreateProcessA_quiet by blast
  moreover obtain r' z2 where "FixWin8TapEnable OPENVPN_TAP_NAME z1 = Some (r', z2)" "quiet z1 z2"
    using FixWin8TapEnable_quiet by blast
  ultimately show ?thesis by (auto simp: in_buf_def intro: quiet_trans)
qed

lemma status_loop_quiet:
  "\<exists>r v' z'. status_loop ls v z = Some (r, v', z') \<and> quiet z z' \<and> m_sIP v' = m_sIP v"
proof (induction ls)
  case (Cons l ls)
  show ?case
  proof (cases "line_mark l")
    case (Some a)
    obtain r z' where "FixWin8TapEnable OPENVPN_TAP_NAME z = Some (r, z')" "quiet z z'" using FixWin8TapEnable_quiet by blast
    with Some show ?thesis by (cases a) auto
  qed (use Cons in simp)
qed simp

text \<open>
  What a log says, by the mark in the last line that has one; \<open>None\<close> is a file that cannot be read. The lines
  are what \<open>getline\<close> makes of the text.
\<close>

definition status_of :: "string list option \<Rightarrow> int" where
  "status_of log =
     (case log of None \<Rightarrow> - 1
      | Some ls \<Rightarrow> (case List.map_filter line_mark (rev ls) of [] \<Rightarrow> 1 | (pat, ret) # _ \<Rightarrow> ret))"

definition log_of :: "string list option \<Rightarrow> string option" where
  "log_of = map_option (\<lambda>ls. log_text (butlast ls) (last ls))"

definition lines_ok :: "string list option \<Rightarrow> bool" where
  "lines_ok log \<longleftrightarrow> (case log of None \<Rightarrow> True | Some ls \<Rightarrow> ls \<noteq> [] \<and> (\<forall>x \<in> set ls. NL \<notin> set x \<and> length x < 512))"

text \<open>The result of a session: that of the first log which says \<open>0\<close> or \<open>- 1\<close> or is read after 30 seconds.\<close>

fun session_result :: "(string list option \<times> int) list \<Rightarrow> int" where
  "session_result [] = 1"
| "session_result ((log, t) # rs) =
     (if 30000 < t \<or> status_of log = 0 \<or> status_of log = - 1 then status_of log else session_result rs)"

lemma status_round_runs:
  assumes "lines_ok log"
  shows "\<exists>v n z'. status_round (log_of log) t w z =
      Some (status_of log, 30000 < t \<or> status_of log = 0 \<or> status_of log = - 1, w\<lparr>w_ovpn := v, w_progress := n\<rparr>, z') \<and>
    m_sIP v = m_sIP (w_ovpn w) \<and> quiet (z\<lparr>os_files := (os_files z)(OPENVPN_LOG_FILE := log_of log)\<rparr>) z'"
proof -
  let ?z = "z\<lparr>os_files := (os_files z)(OPENVPN_LOG_FILE := log_of log)\<rparr>"
  have "\<exists>v' z'. GetStatus OPENVPN_LOG_FILE (w_ovpn w) ?z = Some (status_of log, v', z') \<and> quiet ?z z' \<and> m_sIP v' = m_sIP (w_ovpn w)"
  proof (cases log)
    case None
    then show ?thesis by (simp add: GetStatus_def log_of_def status_of_def)
  next
    case (Some ls)
    then have ls: "butlast ls @ [last ls] = ls" "\<forall>x \<in> set ls. NL \<notin> set x \<and> length x < 512"
      using assms by (simp_all add: lines_ok_def)
    then have "log_lines (log_text (butlast ls) (last ls)) False False [] = Some ls"
      using log_lines_text [of "butlast ls" "last ls" "[]"] by simp
    moreover obtain r v' z' where s: "status_loop (rev ls) (w_ovpn w) ?z = Some (r, v', z')" "quiet ?z z'" "m_sIP v' = m_sIP (w_ovpn w)"
      using status_loop_quiet by blast
    moreover have "r = status_of log" using status_loop_result [of "rev ls" "w_ovpn w" ?z] s(1) Some by (simp add: status_of_def)
    ultimately show ?thesis using Some by (simp add: GetStatus_def log_of_def)
  qed
  then obtain v' z' where g: "GetStatus OPENVPN_LOG_FILE (w_ovpn w) ?z = Some (status_of log, v', z')" "quiet ?z z'" "m_sIP v' = m_sIP (w_ovpn w)"
    by blast
  let ?n = "if 0 < status_of log then status_of log * 16 else w_progress w"
  have "status_round (log_of log) t w z =
      Some (status_of log, 30000 < t \<or> status_of log = 0 \<or> status_of log = - 1, w\<lparr>w_ovpn := v', w_progress := ?n\<rparr>, z')"
    using g(1) by (auto simp: status_round_def Let_def)
  then show ?thesis using g(2,3) by blast
qed

text \<open>
  What a part of a session does to the system: the two files with what the user and the server are called stay, and
  \<open>ps\<close> are the processes it stops.
\<close>

definition runs_on :: "string list \<Rightarrow> os \<Rightarrow> os \<Rightarrow> bool" where
  "runs_on ps z z' \<longleftrightarrow> (\<forall>f \<in> {OPENVPN_CONFIG_FILE, OPENVPN_CONFIG_USERPWD}. os_files z' f = os_files z f) \<and>
     os_stopped z' = os_stopped z @ ps \<and> (os_start z = [] \<longrightarrow> os_start z' = [])"

lemma runs_on_trans: "runs_on ps x y \<Longrightarrow> runs_on qs y z \<Longrightarrow> runs_on (ps @ qs) x z"
  by (simp add: runs_on_def)

lemma quiet_runs_on: "quiet z z' \<Longrightarrow> runs_on [] z z'"
  by (simp add: quiet_def runs_on_def)

lemma log_runs_on: "quiet (z\<lparr>os_files := (os_files z)(OPENVPN_LOG_FILE := log)\<rparr>) z' \<Longrightarrow> runs_on [] z z'"
  by (simp add: quiet_def runs_on_def OPENVPN_LOG_FILE_def OPENVPN_CONFIG_FILE_def OPENVPN_CONFIG_USERPWD_def)

abbreviation log_script :: "(string list option \<times> int) list \<Rightarrow> (string option \<times> int) list" where
  "log_script rs \<equiv> map (\<lambda>(log, t). (log_of log, t)) rs"

lemma ShowOpenVPNStatus_ends:
  assumes "\<forall>(log, t) \<in> set rs. lines_ok log" "\<exists>(log, t) \<in> set rs. 30000 < t"
  shows "\<exists>v n z'. ShowOpenVPNStatus (log_script rs) w z = Some (session_result rs, w\<lparr>w_ovpn := v, w_progress := n\<rparr>, z') \<and>
    m_sIP v = m_sIP (w_ovpn w) \<and> runs_on [] z z'"
  using assms
proof (induction rs arbitrary: w z)
  case (Cons a rs)
  obtain log t where a: "a = (log, t)" by (cases a)
  then have "lines_ok log" using Cons.prems(1) by auto
  from status_round_runs [OF this, of t w z] obtain v n z1 where
    1: "status_round (log_of log) t w z =
        Some (status_of log, 30000 < t \<or> status_of log = 0 \<or> status_of log = - 1, w\<lparr>w_ovpn := v, w_progress := n\<rparr>, z1)"
      "m_sIP v = m_sIP (w_ovpn w)"
    and q: "quiet (z\<lparr>os_files := (os_files z)(OPENVPN_LOG_FILE := log_of log)\<rparr>) z1"
    by blast
  have k: "runs_on [] z z1" by (rule log_runs_on [OF q])
  show ?case
  proof (cases "30000 < t \<or> status_of log = 0 \<or> status_of log = - 1")
    case True
    then show ?thesis using 1 k by (auto simp: a)
  next
    case False
    then have "\<forall>(log, t) \<in> set rs. lines_ok log" "\<exists>(log, t) \<in> set rs. 30000 < t" using Cons.prems a by auto
    then obtain v2 n2 z2 where 2: "ShowOpenVPNStatus (log_script rs) (w\<lparr>w_ovpn := v, w_progress := n\<rparr>) z1 =
        Some (session_result rs, w\<lparr>w_ovpn := v2, w_progress := n2\<rparr>, z2)" "m_sIP v2 = m_sIP v" "runs_on [] z1 z2"
      using Cons.IH [of "w\<lparr>w_ovpn := v, w_progress := n\<rparr>" z1] by auto
    have "ShowOpenVPNStatus (log_script (a # rs)) w z = Some (session_result (a # rs), w\<lparr>w_ovpn := v2, w_progress := n2\<rparr>, z2)"
      using 1(1) 2(1) False by (simp add: a)
    then show ?thesis using 1(2) 2(2) runs_on_trans [OF k 2(3)] by auto
  qed
qed simp

lemma Disconnect_calls_runs:
  assumes "length (m_sIP (w_ovpn w)) < 32" "text_ok api"
  shows "\<exists>z'. Disconnect_calls api w z = Some (w\<lparr>w_calls := w_calls w @ [HangUpPPTP, HangUpL2TP]\<rparr>, z') \<and>
    runs_on [OPENVPN_PROCESS_NAME] z z'"
proof -
  obtain z' z'' where "DisConnect api (w_ovpn w) z = Some (0, z')" "quiet z z''"
    "z' = z''\<lparr>os_stopped := os_stopped z @ [OPENVPN_PROCESS_NAME]\<rparr>"
    using DisConnect_stops [OF assms, of z] by auto
  then show ?thesis by (auto simp: Disconnect_calls_def quiet_def runs_on_def)
qed

lemma finish_calls_runs:
  assumes "length (m_sIP (w_ovpn w)) < 32" "text_ok api"
  shows "\<exists>z'. finish_calls api ret w z =
      Some ((if ret = 0 then [] else DISCONNECTED) @ [ShowProgress False, TrayStatus True],
        if ret = 0 then w else w\<lparr>w_calls := w_calls w @ [HangUpPPTP, HangUpL2TP]\<rparr>, z') \<and>
    runs_on (if ret = 0 then [] else [OPENVPN_PROCESS_NAME]) z z'"
proof (cases "ret = 0")
  case True
  define c where "c = ''ping '' @ m_sIP (w_ovpn w) @ '' -n 10''"
  have "length c < 128" using assms(1) by (simp add: c_def)
  moreover from this obtain r z1 where "RopCreateProcess c z = Some (r, z1)" "quiet z z1" using RopCreateProcess_quiet [of c z] by auto
  moreover have "finish_calls api ret w z = do { c \<leftarrow> in_buf 128 c; (_, z) \<leftarrow> RopCreateProcess c z;
      Some ([ShowProgress False, TrayStatus True], w, z) }"
    using True by (auto simp: finish_calls_def c_def split: Option.bind_splits)
  ultimately show ?thesis using True quiet_runs_on by (simp add: in_buf_def)
next
  case False
  obtain r0 z0 where 0: "FixWin8Up OPENVPN_TAP_NAME z = Some (r0, z0)" "quiet z z0" using FixWin8Up_quiet by blast
  obtain z1 where 1: "Disconnect_calls api w z = Some (w\<lparr>w_calls := w_calls w @ [HangUpPPTP, HangUpL2TP]\<rparr>, z1)"
    "runs_on [OPENVPN_PROCESS_NAME] z z1"
    using Disconnect_calls_runs [OF assms] by blast
  obtain z2 where 2: "Disconnect_calls api w z0 = Some (w\<lparr>w_calls := w_calls w @ [HangUpPPTP, HangUpL2TP]\<rparr>, z2)"
    "runs_on [OPENVPN_PROCESS_NAME] z0 z2"
    using Disconnect_calls_runs [OF assms] by blast
  have r2: "runs_on [OPENVPN_PROCESS_NAME] z z2" using runs_on_trans [OF quiet_runs_on [OF 0(2)] 2(2)] by simp
  show ?thesis
  proof (cases "ret = 6")
    case True
    then show ?thesis using False 0 2 r2 by (simp add: finish_calls_def)
  next
    case no6: False
    then show ?thesis using False 1 by (simp add: finish_calls_def)
  qed
qed

lemma thd_start_runs:
  shows "\<exists>z'. thd_start z = Some (if hd (os_start z @ [True]) then 0 else - 1, z') \<and> os_stopped z' = os_stopped z \<and>
    (os_start z = [] \<longrightarrow> os_start z' = []) \<and>
    (\<forall>f \<in> {OPENVPN_CONFIG_FILE, OPENVPN_CONFIG_USERPWD}. \<not> os_locked z f \<longrightarrow> os_files z' f = Some [])"
proof -
  have "length OPENVPN_CMD_AUTH_USERPWD < 256" "ascii OPENVPN_CMD_AUTH_USERPWD"
    by (simp_all add: OPENVPN_CMD_AUTH_USERPWD_def)
  then show ?thesis using RopCreateProcess_started [of OPENVPN_CMD_AUTH_USERPWD z]
    by (simp add: thd_start_def RopVpn.Connect_def RopCreateProcessA_def Cleanup_def write_lines_def mb2wc_ascii
        OPENVPN_CONFIG_FILE_def OPENVPN_CONFIG_USERPWD_def)
qed



section \<open>The buttons and the lock\<close>

definition controls :: "wnd \<Rightarrow> bool \<times> bool \<times> bool" where
  "controls w = (w_lock w, w_connect_btn w, w_disconnect_btn w)"

text \<open>A user who is logged in and has chosen a server that offers SSL over UDP; all texts fit their arrays.\<close>

definition text32 :: "string \<Rightarrow> bool" where
  "text32 s \<longleftrightarrow> ascii s \<and> length s < 32"

definition ssl_ready :: "wnd \<Rightarrow> bool" where
  "ssl_ready w \<longleftrightarrow> w_choise w \<and> w_login w \<and> \<not> w_pptp w \<and> \<not> w_l2tp w \<and> w_udp w \<and> gs_udp (w_cur w) \<noteq> [] \<and>
     text32 (w_user w) \<and> text32 (w_pwd w) \<and> text32 (gs_ip (w_cur w)) \<and> text32 (si_name (gs_info (w_cur w))) \<and>
     length (m_sIP (w_ovpn w)) < 32"

lemma do_write_ready [simp]: "ssl_ready (do_write x w) = ssl_ready w" "w_workers (do_write x w) = w_workers w"
  by (cases x; simp add: ssl_ready_def)+

lemma conf_files_written:
  "ascii (m_sIP v) \<Longrightarrow> \<exists>r z'. CreateConfFile v z = Some (r, z') \<and> os_start z' = os_start z"
  "ascii (m_sUser v) \<Longrightarrow> ascii (m_sPwd v) \<Longrightarrow> \<exists>r z'. CreatePwdFile v z = Some (r, z') \<and> os_start z' = os_start z"
  by (simp_all add: CreateConfFile_def CreatePwdFile_def wc2mb_ascii write_lines_def)

lemma SetParams_fits:
  assumes "text32 user" "text32 pwd" "text32 ip" "text32 svr"
  shows "\<exists>v' z'. SetParams user pwd ip proto prt svr v z = Some (v', z') \<and> m_sIP v' = ip \<and> (os_start z = [] \<longrightarrow> os_start z' = [])"
proof -
  let ?v = "v\<lparr>m_sUser := user, m_sPwd := pwd, m_sIP := ip, m_sSvrName := svr, m_iPort := prt, m_iProto := proto,
       m_sProto := if proto = 0 then ''SSL-UDP'' else ''SSL-TCP''\<rparr>"
  have a: "ascii (m_sIP ?v)" "ascii (m_sUser ?v)" "ascii (m_sPwd ?v)" using assms by (simp_all add: text32_def)
  obtain r1 z1 where 1: "CreateConfFile ?v z = Some (r1, z1)" "os_start z1 = os_start z"
    using conf_files_written(1) [OF a(1)] by blast
  obtain r2 z2 where 2: "CreatePwdFile ?v z1 = Some (r2, z2)" "os_start z2 = os_start z1"
    using conf_files_written(2) [OF a(2,3)] by blast
  have "SetParams user pwd ip proto prt svr v z = Some (?v, z2)"
    using assms 1(1) 2(1) unfolding SetParams_def Let_def by (simp add: text32_def in_buf_def MAX_NAME_LEN_def del: if_split)
  then show ?thesis using 1(2) 2(2) by simp
qed

text \<open>A machine where the card is there, with its name.\<close>

definition env_card :: net_env where
  "env_card = \<lparr>net_tap = \<lparr>tp_64 = True, tp_found = [Some OPENVPN_TAP_NAME, Some OPENVPN_TAP_NAME], tp_runs = [], tp_time = []\<rparr>,
     dial_pptp = 0, dial_l2tp = 0, rnd = 0\<rparr>"

lemma setup_tap_card: "setup_tap (net_tap env_card) z = Some (0, z)"
  by (simp add: setup_tap_def env_card_def TapStatus_def next_found_def IsTapNameOK_def)

lemma connect_step:
  assumes "ssl_ready w" "w_connect_btn w" "os_start z = []"
  shows "\<exists>w' z'. wnd_step api (w, [], ts, z) (w', CONNECTED, ts, z') \<and> ssl_ready w' \<and> controls w' = controls w \<and>
    w_workers w' = w_workers w @ [Starting] \<and> os_start z' = []"
proof -
  let ?w = "w\<lparr>w_visible := True, w_progress := 0, w_cur := (w_cur w)\<lparr>gs_proto := PROTO_OPENVPN_UDP\<rparr>\<rparr>"
  have t: "text32 (w_user w)" "text32 (w_pwd w)" "text32 (gs_ip (w_cur w))" "text32 (si_name (gs_info (w_cur w)))"
    and p: "gs_udp (w_cur w) \<noteq> []" using assms(1) by (simp_all add: ssl_ready_def)
  obtain v z' where v: "SetParams (w_user w) (w_pwd w) (gs_ip (w_cur w)) 0 (gs_udp (w_cur w) ! (0 mod length (gs_udp (w_cur w))))
      (si_name (gs_info (w_cur w))) (SetAuthTyp 0 0 (w_ovpn w)) z = Some (v, z')" "m_sIP v = gs_ip (w_cur w)" "os_start z' = []"
    using SetParams_fits [OF t, of 0 "gs_udp (w_cur w) ! (0 mod length (gs_udp (w_cur w)))" "SetAuthTyp 0 0 (w_ovpn w)" z] assms(3)
    by blast
  let ?w' = "?w\<lparr>w_ovpn := v, w_workers := w_workers w @ [Starting]\<rparr>"
  have r: "rnd env_card = 0" by (simp add: env_card_def)
  have "ConnectSSL env_card PROTO_OPENVPN_UDP ?w z = Some (0, ?w', z')"
    using v(1) p by (simp add: ConnectSSL_def setup_tap_card set_ssl_def GetRandomSSLPort_def r PROTO_OPENVPN_UDP_def PROTO_OPENVPN_TCP_def)
  then have "Connect_calls api env_card w z = Some (0, CONNECTED, ?w', z')"
    using assms(1) by (simp add: Connect_calls_def Let_def ssl_ready_def chosen_proto_def dial_def
        PROTO_OPENVPN_UDP_def PROTO_L2TP_def PROTO_PPTP_def split: if_splits)
  then have "wnd_step api (w, [], ts, z) (?w', CONNECTED, ts, z')" by (rule wnd_step.connect [OF assms(2)])
  moreover have "ssl_ready ?w'" using assms(1) v(2) by (simp add: ssl_ready_def text32_def)
  ultimately show ?thesis using v(3) by (intro exI [of _ ?w'] exI [of _ z']) (simp add: controls_def)
qed

lemma start_step:
  assumes "w_workers w = us @ Starting # vs" "os_start z = []" "ssl_ready w"
  shows "\<exists>w' z'. wnd_step api (w, ui, ts, z) (w', ui, ts, z') \<and> ssl_ready w' \<and> controls w' = controls w \<and>
    w_workers w' = us @ Polling # vs \<and> os_start z' = []"
proof -
  obtain z' where z': "thd_start z = Some (0, z')" "os_start z' = []" using thd_start_runs [of z] assms(2) by auto
  have "wnd_step api (w, ui, ts, z) (w\<lparr>w_workers := us @ Polling # vs\<rparr>, ui, ts, z')"
    using wnd_step.start [OF assms(1) z'(1), of api ui ts] by simp
  moreover have "ssl_ready (w\<lparr>w_workers := us @ Polling # vs\<rparr>)" using assms(3) by (simp add: ssl_ready_def)
  ultimately show ?thesis using z'(2) by (intro exI [of _ "w\<lparr>w_workers := us @ Polling # vs\<rparr>"] exI [of _ z']) (simp add: controls_def)
qed

lemma disconnect_step:
  assumes "w_disconnect_btn w" "ssl_ready w" "text_ok api" "os_start z = []"
  shows "\<exists>w' z'. wnd_step api (w, [], ts, z) (w', [], ts @ [SetProgress 100 # DISCONNECTED @ [ShowProgress False]], z') \<and>
    ssl_ready w' \<and> controls w' = controls w \<and> w_workers w' = w_workers w \<and> os_start z' = []"
proof -
  let ?w = "w\<lparr>w_progress := 0, w_visible := True\<rparr>"
  have "length (m_sIP (w_ovpn ?w)) < 32" using assms(2) by (simp add: ssl_ready_def)
  from Disconnect_calls_runs [OF this assms(3), of z] obtain z' where
    d: "Disconnect_calls api ?w z = Some (?w\<lparr>w_calls := w_calls ?w @ [HangUpPPTP, HangUpL2TP]\<rparr>, z')"
      "runs_on [OPENVPN_PROCESS_NAME] z z'" by blast
  let ?w' = "?w\<lparr>w_calls := w_calls ?w @ [HangUpPPTP, HangUpL2TP]\<rparr>"
  have "disconnect_calls api w z = Some (SetProgress 100 # DISCONNECTED @ [ShowProgress False], ?w', z')"
    unfolding disconnect_calls_def d(1) by simp
  then have "wnd_step api (w, [], ts, z) (?w', [], ts @ [SetProgress 100 # DISCONNECTED @ [ShowProgress False]], z')"
    by (rule wnd_step.disconnect [OF assms(1)])
  moreover have "ssl_ready ?w'" using assms(2) by (simp add: ssl_ready_def)
  moreover have "os_start z' = []" using d(2) assms(4) by (simp add: runs_on_def)
  ultimately show ?thesis by (intro exI [of _ ?w'] exI [of _ z']) (simp add: controls_def)
qed

text \<open>The last round of a thread, with a log that can be read as \<open>log\<close>.\<close>

lemma finish_step:
  fixes t :: int
  assumes "w_workers w = us @ Polling # vs" "ssl_ready w" "text_ok api" "os_start z = []" "lines_ok log"
    and "30000 < t \<or> status_of log = 0 \<or> status_of log = - 1"
  shows "\<exists>w' z'. wnd_step api (w, ui, ts, z)
      (w', ui, ts @ [(if status_of log = 0 then [] else DISCONNECTED) @ [ShowProgress False, TrayStatus True]], z') \<and>
    ssl_ready w' \<and> controls w' = controls w \<and> w_workers w' = us @ vs \<and> os_start z' = []"
proof -
  obtain v n z1 where 1: "status_round (log_of log) t w z = Some (status_of log, True, w\<lparr>w_ovpn := v, w_progress := n\<rparr>, z1)"
    "m_sIP v = m_sIP (w_ovpn w)" "quiet (z\<lparr>os_files := (os_files z)(OPENVPN_LOG_FILE := log_of log)\<rparr>) z1"
    using status_round_runs [OF assms(5), of t w z] assms(6) by auto
  let ?w = "w\<lparr>w_ovpn := v, w_progress := n, w_workers := us @ vs\<rparr>"
  have "length (m_sIP (w_ovpn ?w)) < 32" using assms(2) 1(2) by (simp add: ssl_ready_def)
  from finish_calls_runs [OF this assms(3), of "status_of log" z1] obtain z' where
    f: "finish_calls api (status_of log) ?w z1 =
        Some ((if status_of log = 0 then [] else DISCONNECTED) @ [ShowProgress False, TrayStatus True],
          if status_of log = 0 then ?w else ?w\<lparr>w_calls := w_calls ?w @ [HangUpPPTP, HangUpL2TP]\<rparr>, z')"
      "runs_on (if status_of log = 0 then [] else [OPENVPN_PROCESS_NAME]) z1 z'" by blast
  let ?w' = "if status_of log = 0 then ?w else ?w\<lparr>w_calls := w_calls ?w @ [HangUpPPTP, HangUpL2TP]\<rparr>"
  have "wnd_step api (w, ui, ts, z)
      (?w', ui, ts @ [(if status_of log = 0 then [] else DISCONNECTED) @ [ShowProgress False, TrayStatus True]], z')"
    by (rule wnd_step.finish [OF assms(1) 1(1)]) (use f(1) in simp)
  moreover have "ssl_ready ?w'" using assms(2) 1(2) by (simp add: ssl_ready_def)
  moreover have "os_start z1 = []" using 1(3) assms(4) by (simp add: quiet_def)
  then have "os_start z' = []" using f(2) by (simp add: runs_on_def)
  ultimately show ?thesis by (intro exI [of _ ?w'] exI [of _ z']) (simp add: controls_def)
qed

text \<open>Several writes of one thread, one after the other.\<close>

lemma fold_write_frame [simp]: "ssl_ready (fold do_write ws w) = ssl_ready w" "w_workers (fold do_write ws w) = w_workers w"
  by (induction ws arbitrary: w) simp_all

lemma ui_writes: "(wnd_step api)\<^sup>*\<^sup>* (w, ws @ ui, ts, z) (fold do_write ws w, ui, ts, z)"
proof (induction ws arbitrary: w)
  case (Cons x ws)
  have "wnd_step api (w, (x # ws) @ ui, ts, z) (do_write x w, ws @ ui, ts, z)" by (simp add: wnd_step.ui_write)
  then show ?case using Cons.IH [of "do_write x w"] by (simp add: converse_rtranclp_into_rtranclp)
qed simp

lemma thread_writes:
  "(wnd_step api)\<^sup>*\<^sup>* (w, ui, us @ (ws @ rest) # vs, z) (fold do_write ws w, ui, us @ rest # vs, z)"
proof (induction ws arbitrary: w)
  case (Cons x ws)
  have "wnd_step api (w, ui, us @ ((x # ws) @ rest) # vs, z) (do_write x w, ui, us @ (ws @ rest) # vs, z)"
    using wnd_step.thread_write [of api w ui us x "ws @ rest" vs z] by simp
  then show ?case using Cons.IH [of "do_write x w"] by (simp add: converse_rtranclp_into_rtranclp)
qed simp

text \<open>A window without threads or writes whose buttons are both disabled keeps them so.\<close>

definition dead :: "wnd_state \<Rightarrow> bool" where
  "dead s \<longleftrightarrow> (case s of (w, ui, ts, z) \<Rightarrow>
     \<not> w_connect_btn w \<and> \<not> w_disconnect_btn w \<and> w_workers w = [] \<and> ui = [] \<and> (\<forall>ws \<in> set ts. ws = []))"

lemma dead_step: "wnd_step api s s' \<Longrightarrow> dead s \<Longrightarrow> dead s'"
  by (induction rule: wnd_step.induct)
    (auto simp: dead_def OnItemClick_def OnClick_proto_def select_option_def Let_def split: if_splits Option.bind_splits)

lemma dead_for_ever: "(wnd_step api)\<^sup>*\<^sup>* s s' \<Longrightarrow> dead s \<Longrightarrow> dead s'"
  by (induction rule: rtranclp_induct) (auto dest: dead_step)

lemma controls_write [simp]:
  "controls (do_write (LockSvr b) w) = (b, w_connect_btn w, w_disconnect_btn w)"
  "controls (do_write (EnableConnect b) w) = (w_lock w, b, w_disconnect_btn w)"
  "controls (do_write (EnableDisconnect b) w) = (w_lock w, w_connect_btn w, b)"
  "controls (do_write (TrayStatus b) w) = controls w" "controls (do_write (ShowProgress b) w) = controls w"
  "controls (do_write (SetProgress n) w) = controls w"
  by (simp_all add: controls_def)



end
