(* ===== verification/GendoLogin.thy ===== *)
theory GendoLogin imports GasMsg RopAESFile RopSyncMsg RopVpn begin

text \<open>
  \<open>Client/Gendo/GendoLoginWnd.cpp\<close>: logging in at the gateway, and the name and password that are kept in an encrypted
  file. The controls of the window are left out. The main property puts the client's request before the functions with
  which the gateway takes it apart (GasMsg).
\<close>

section \<open>The request\<close>

definition SIZEOF_USER_LOGIN :: nat where "SIZEOF_USER_LOGIN = 96"

text \<open>
  The array of 1024 bytes: the head, and behind it name, password and system, each copied with its terminator to its
  place in the structure.
\<close>

definition login_request :: "string \<Rightarrow> string \<Rightarrow> string \<Rightarrow> byte list option" where
  "login_request name pwd osname = do {
     name \<leftarrow> wc2mb MAX_NAME_LEN name;
     pwd \<leftarrow> wc2mb MAX_NAME_LEN pwd;
     buf \<leftarrow> put_bytes 0 (le32 MSG_GAS_USER_LOGIN) (replicate 1024 0);
     buf \<leftarrow> put_bytes 4 (le32 (of_nat SIZEOF_USER_LOGIN)) buf;
     buf \<leftarrow> put_bytes 8 (bytes_of name @ [0]) buf;
     buf \<leftarrow> put_bytes 40 (bytes_of pwd @ [0]) buf;
     put_bytes 88 (bytes_of osname @ [0]) buf }"

record session =
  u_bLogin :: bool
  u_sUser :: string
  u_sPwd :: string
  u_info :: "byte list"

text \<open>
  Only the field with the result is looked at, not the type of the reply. Name and password are copied into two arrays
  of \<open>MAX_NAME_LEN\<close> characters, past whose end a longer one would go. The texts that are only shown are left out.
\<close>

definition LoginGas ::
  "bool \<Rightarrow> bool \<Rightarrow> bool \<Rightarrow> string \<Rightarrow> string \<Rightarrow> string \<Rightarrow> sync_socket \<Rightarrow> session \<Rightarrow> (int \<times> session \<times> sync_socket option) option"
where
  "LoginGas have_socket resolved connected name pwd osname s u = do {
     (r, s) \<leftarrow> Sync_Open have_socket resolved connected s;
     if r \<noteq> 0 then Some (- 1, u, Some s)
     else do {
       buf \<leftarrow> login_request name pwd osname;
       (ret, sock) \<leftarrow> SendMsg_head buf INFINITE (Some s);
       if ret \<le> 0 then Some (- 1, u, sock)
       else do {
         (ret, buf, sock) \<leftarrow> RecvAndWaitMsg_head buf 1024 INFINITE sock;
         if ret \<le> 0 then Some (- 1, u, sock)
         else if field_at 8 buf \<noteq> 0 then Some (- 1, u, sock)
         else do {
           name \<leftarrow> in_buf MAX_NAME_LEN name;
           pwd \<leftarrow> in_buf MAX_NAME_LEN pwd;
           Some (0, u\<lparr>u_sUser := name, u_sPwd := pwd, u_info := take SIZEOF_USER (drop 16 buf), u_bLogin := True\<rparr>, sock) } } } }"

section \<open>The saved password\<close>

definition GENDO_LOGIN_SAVE_FILE :: string where "GENDO_LOGIN_SAVE_FILE = ''gendo.save''"
definition GENDO_LOGIN_SAVE_PATH :: string where "GENDO_LOGIN_SAVE_PATH = ''.''"

definition row32 :: "string \<Rightarrow> byte list option" where
  "row32 s = do { t \<leftarrow> wc2mb 32 s; Some (bytes_of t @ replicate (32 - length t) 0) }"

definition SaveUserPwd :: "ssl \<Rightarrow> string \<Rightarrow> string \<Rightarrow> 'a disk_scheme \<Rightarrow> 'a disk_scheme option" where
  "SaveUserPwd api user pwd d = do {
     aes \<leftarrow> RopAES_default api;
     user \<leftarrow> row32 user;
     pwd \<leftarrow> row32 pwd;
     (_, d) \<leftarrow> EncryptFileByBufAry api aes GENDO_LOGIN_SAVE_PATH GENDO_LOGIN_SAVE_FILE (user @ pwd) 2 32 d;
     Some d }"

definition read_saved :: "ssl \<Rightarrow> 'a disk_scheme \<Rightarrow> (int \<times> byte list) option" where
  "read_saved api d = do {
     aes \<leftarrow> RopAES_default api;
     (r, upw, _) \<leftarrow> DecryptFileToBufAry api aes GENDO_LOGIN_SAVE_PATH GENDO_LOGIN_SAVE_FILE (replicate 64 0) 2 32 d;
     Some (r, upw) }"

definition IsUserSaved :: "ssl \<Rightarrow> 'a disk_scheme \<Rightarrow> bool option" where
  "IsUserSaved api d = map_option (\<lambda>(r, _). r = 0) (read_saved api d)"

text \<open>Without a saved user the arrays of the caller stay as they are.\<close>

definition GetUserPwdSaved :: "ssl \<Rightarrow> string \<times> string \<Rightarrow> 'a disk_scheme \<Rightarrow> (int \<times> string \<times> string) option" where
  "GetUserPwdSaved api old d = do {
     (r, upw) \<leftarrow> read_saved api d;
     if r \<noteq> 0 then Some (- 1, old)
     else do {
       user \<leftarrow> mb2wc 32 (c_string upw);
       pwd \<leftarrow> mb2wc 32 (c_string (drop 32 upw));
       Some (0, user, pwd) } }"

definition Login ::
  "ssl \<Rightarrow> bool \<Rightarrow> bool \<Rightarrow> bool \<Rightarrow> bool \<Rightarrow> string \<Rightarrow> string \<Rightarrow> string \<Rightarrow> sync_socket \<Rightarrow> session \<Rightarrow> 'a disk_scheme \<Rightarrow>
   (int \<times> session \<times> 'a disk_scheme) option"
where
  "Login api have_socket resolved connected saveme user pwd osname s u d = do {
     (ret, u, _) \<leftarrow> LoginGas have_socket resolved connected user pwd osname s u;
     d \<leftarrow> (if saveme then SaveUserPwd api user pwd d else Some d);
     Some (ret, u, d) }"

section \<open>Rows read back\<close>

lemma c_str_put: "0 \<notin> set l \<Longrightarrow> off + length l < length buf \<Longrightarrow> put_bytes off (l @ [0]) buf = Some buf' \<Longrightarrow>
  c_str (drop off buf') = Some l \<and> take off buf' = take off buf \<and> length buf' = length buf"
  by (auto simp: put_bytes_def c_str_ends split: if_splits)

lemma c_str_take:
  assumes "c_str b = Some l" "length l < n"
  shows "c_str (take n b) = Some l"
proof -
  have b: "l = takeWhile (\<lambda>b. b \<noteq> 0) b" "0 \<in> set b" using assms(1) by (auto simp: c_str_def split: if_splits)
  then obtain r where r: "b = l @ 0 # r"
    by (metis (mono_tags, lifting) dropWhile_eq_Cons_conv dropWhile_eq_Nil_conv neq_Nil_conv takeWhile_dropWhile_id)
  have "0 \<notin> set l" by (rule c_str_no_zero [OF assms(1)])
  moreover have "take n b = l @ 0 # take (n - Suc (length l)) r" using assms(2) by (simp add: r take_Cons')
  ultimately show ?thesis by (simp add: c_str_ends)
qed

lemma c_str_untake:
  assumes "c_str (take n b) = Some l"
  shows "c_str b = Some l"
proof -
  have z: "0 \<in> set (take n b)" and l: "takeWhile (\<lambda>b. b \<noteq> 0) (take n b) = l"
    using assms by (auto simp: c_str_def split: if_splits)
  have "takeWhile (\<lambda>b. b \<noteq> 0) (take n b @ drop n b) = takeWhile (\<lambda>b. b \<noteq> 0) (take n b)"
    by (rule takeWhile_append1 [OF z]) simp
  then have "takeWhile (\<lambda>b. b \<noteq> 0) b = l" using l by simp
  then show ?thesis using in_set_takeD [OF z] by (simp add: c_str_def)
qed

lemma rows_read_back:
  assumes "ssl_ok api" "keyed a k"
  shows "rows_at buf col_size cur rows \<Longrightarrow> length line = 4096 \<Longrightarrow>
    \<exists>c. enc_rows api a buf col_size (length rows) cur line acc = Some (acc @ c) \<and>
        (\<forall>line' cur' n dest. length line' = 4096 \<longrightarrow> (cur' + length rows) * col_size \<le> length dest \<longrightarrow> int (cur' + length rows) \<le> n \<longrightarrow>
           (\<exists>dest'. dec_rows api a c col_size n cur' line' dest = Some (0, dest', int (cur' + length rows)) \<and>
              length dest' = length dest \<and> take (cur' * col_size) dest' = take (cur' * col_size) dest \<and>
              rows_at dest' col_size cur' rows))"
proof (induction rows arbitrary: cur line acc)
  case Nil
  have "dec_rows api a [] col_size n cur' line' dest = Some (0, dest, int cur')" for n cur' line' dest
    by (subst dec_rows.simps) (simp add: fgets_bytes_def)
  then show ?case by (simp add: rows_at_def)
next
  case (Cons l rows)
  have l: "c_str (drop (cur * col_size) buf) = Some l" "length l \<le> 2032" "length l < col_size" "0 \<notin> set l"
      "rows_at buf col_size (Suc cur) rows"
    using Cons.prems(1) c_str_no_zero by (auto simp: rows_at_Cons)
  let ?line = "put_line l line"
  let ?e = "digits api k ?line (length l)"
  have n: "length ?line = 4096" using put_line_facts(2) [of l line] l Cons.prems(2) by simp
  have max: "length l < MAX_FILE_TEXT_LINE_SIZE" using l(2) by (simp add: MAX_FILE_TEXT_LINE_SIZE_def)
  have enc: "enc_rows api a buf col_size (length (l # rows)) cur line acc =
      enc_rows api a buf col_size (length rows) (Suc cur) ?line (acc @ ?e @ [10])"
    by (rule enc_line_ok [OF assms l(4,2) Cons.prems(2)]) (simp add: Let_def l(1) max put_line_facts(1) [OF l(4)])
  obtain c where c: "enc_rows api a buf col_size (length rows) (Suc cur) ?line (acc @ ?e @ [10]) = Some ((acc @ ?e @ [10]) @ c)"
    "\<And>line' cur' n dest. length line' = 4096 \<Longrightarrow> (cur' + length rows) * col_size \<le> length dest \<Longrightarrow> int (cur' + length rows) \<le> n \<Longrightarrow>
       \<exists>dest'. dec_rows api a c col_size n cur' line' dest = Some (0, dest', int (cur' + length rows)) \<and>
         length dest' = length dest \<and> take (cur' * col_size) dest' = take (cur' * col_size) dest \<and> rows_at dest' col_size cur' rows"
    using Cons.IH [OF l(5) n, of "acc @ ?e @ [10]"] by blast
  have "\<exists>dest'. dec_rows api a (?e @ 10 # c) col_size m cur' line' dest = Some (0, dest', int (cur' + length (l # rows))) \<and>
      length dest' = length dest \<and> take (cur' * col_size) dest' = take (cur' * col_size) dest \<and> rows_at dest' col_size cur' (l # rows)"
    if a: "length line' = 4096" "(cur' + length (l # rows)) * col_size \<le> length dest" "int (cur' + length (l # rows)) \<le> m"
    for line' cur' m dest
  proof -
    have "cur' * col_size + col_size \<le> length dest" using a(2) by (simp add: algebra_simps)
    then have fits: "cur' * col_size + length l < length dest" using l(3) by simp
    then obtain d1 where d1: "put_bytes (cur' * col_size) (l @ [0]) dest = Some d1" by (simp add: put_bytes_def)
    note p = c_str_put [OF l(4) fits d1]
    define short where "short = (put_line (?e @ [10]) line')[length ?e := 0]"
    have short: "length short = 4096"
      unfolding short_def by (rule dec_step [OF assms l(4,2) Cons.prems(2) a(1), of c]) simp
    have step: "dec_rows api a (?e @ 10 # c) col_size m cur' line' dest = dec_rows api a c col_size m (Suc cur') short d1"
      unfolding short_def
      by (rule dec_step [OF assms l(4,2) Cons.prems(2) a(1), of c], subst dec_rows.simps) (use a(3) d1 in simp)
    have "(Suc cur' + length rows) * col_size \<le> length d1" "int (Suc cur' + length rows) \<le> m" using a p by simp_all
    from c(2) [OF short this] obtain d2 where d2: "dec_rows api a c col_size m (Suc cur') short d1 = Some (0, d2, int (Suc cur' + length rows))"
      "length d2 = length d1" "take (Suc cur' * col_size) d2 = take (Suc cur' * col_size) d1" "rows_at d2 col_size (Suc cur') rows"
      by blast
    have "take col_size (drop (cur' * col_size) d2) = take col_size (drop (cur' * col_size) d1)"
      using arg_cong [OF d2(3), of "drop (cur' * col_size)"] by (simp add: drop_take)
    moreover have "c_str (take col_size (drop (cur' * col_size) d1)) = Some l" using c_str_take p l(3) by blast
    ultimately have "c_str (drop (cur' * col_size) d2) = Some l" using c_str_untake by metis
    moreover have "take (cur' * col_size) d2 = take (cur' * col_size) d1"
      using arg_cong [OF d2(3), of "take (cur' * col_size)"] by (simp add: min_def)
    ultimately show ?thesis using step d2 p l by (auto simp: rows_at_Cons)
  qed
  then show ?case using enc c(1) by (intro exI [of _ "?e @ 10 # c"]) simp
qed

lemma rows_file_read:
  assumes "ssl_ok api" "keyed a k" "rows_at buf col_size 0 rows" "length rows * col_size \<le> length dest"
  shows "\<exists>c dest'. enc_rows api a buf col_size (length rows) 0 zeros [] = Some c \<and>
    dec_rows api a c col_size (int (length rows)) 0 zeros dest = Some (0, dest', int (length rows)) \<and>
    rows_at dest' col_size 0 rows"
proof -
  from rows_read_back [OF assms(1-3) zeros_length, of "[]"] obtain c where
    e: "enc_rows api a buf col_size (length rows) 0 zeros [] = Some ([] @ c)" and
    d: "\<forall>line' cur' n dest. length line' = 4096 \<longrightarrow> (cur' + length rows) * col_size \<le> length dest \<longrightarrow> int (cur' + length rows) \<le> n \<longrightarrow>
           (\<exists>dest'. dec_rows api a c col_size n cur' line' dest = Some (0, dest', int (cur' + length rows)) \<and>
              length dest' = length dest \<and> take (cur' * col_size) dest' = take (cur' * col_size) dest \<and>
              rows_at dest' col_size cur' rows)"
    by (elim exE conjE)
  have "length zeros = 4096" "(0 + length rows) * col_size \<le> length dest" "int (0 + length rows) \<le> int (length rows)"
    using assms(4) by simp_all
  then have "\<exists>dest'. dec_rows api a c col_size (int (length rows)) 0 zeros dest = Some (0, dest', int (0 + length rows)) \<and>
      length dest' = length dest \<and> take (0 * col_size) dest' = take (0 * col_size) dest \<and> rows_at dest' col_size 0 rows"
    using d by (elim allE impE) assumption+
  then show ?thesis using e by auto
qed

lemma bytes_no_zero: "CHR 0x00 \<notin> set s \<Longrightarrow> 0 \<notin> set (bytes_of s)"
  using of_char_zero by (fastforce simp: bytes_of_def)

lemma bytes_of_length [simp]: "length (bytes_of s) = length s"
  by (simp add: bytes_of_def)

lemma c_string_c_str:
  assumes "c_str b = Some (bytes_of s)" "CHR 0x00 \<notin> set s"
  shows "c_string b = s"
proof -
  have "takeWhile (\<lambda>b. b \<noteq> 0) b = bytes_of s" using assms(1) by (simp add: c_str_def split: if_splits)
  moreover have "takeWhile (\<lambda>b. b \<noteq> 0) (bytes_of s) = bytes_of s"
    using bytes_no_zero [OF assms(2)] by (metis (mono_tags, lifting) takeWhile_eq_all_conv)
  ultimately have "c_string b = c_string (bytes_of s)" by (simp only: c_string_def)
  then show ?thesis using c_string_bytes [OF assms(2), of 0] by simp
qed

text \<open>What an array of 32 bytes holds of an ASCII text.\<close>

definition fit32 :: "string \<Rightarrow> string" where
  "fit32 s = (if length s < 32 then s else [])"

lemma fit32_facts: "length (fit32 s) < 32" "CHR 0x00 \<notin> set s \<Longrightarrow> CHR 0x00 \<notin> set (fit32 s)"
    "ascii s \<Longrightarrow> ascii (fit32 s)" "fit32 (fit32 s) = fit32 s"
  by (auto simp: fit32_def)

lemma conv32: "ascii s \<Longrightarrow> wc2mb 32 s = Some (fit32 s)" "ascii s \<Longrightarrow> mb2wc 32 s = Some (fit32 s)"
  by (simp_all add: wc2mb_ascii mb2wc_ascii fit32_def)

definition row_of :: "string \<Rightarrow> byte list" where
  "row_of s = bytes_of (fit32 s) @ replicate (32 - length (fit32 s)) 0"

lemma row32_ascii: "ascii s \<Longrightarrow> row32 s = Some (row_of s)"
  by (simp add: row32_def row_of_def conv32)

lemma row_of_facts:
  assumes "CHR 0x00 \<notin> set s"
  shows "length (row_of s) = 32" "c_str (row_of s @ rest) = Some (bytes_of (fit32 s))"
proof -
  have l: "length (fit32 s) < 32" by (rule fit32_facts)
  then show "length (row_of s) = 32" by (simp add: row_of_def)
  have "row_of s @ rest = bytes_of (fit32 s) @ 0 # replicate (31 - length (fit32 s)) 0 @ rest"
    using l by (simp add: row_of_def replicate_Suc [symmetric] Suc_diff_le del: replicate_Suc)
  then show "c_str (row_of s @ rest) = Some (bytes_of (fit32 s))"
    using c_str_ends bytes_no_zero fit32_facts(2) [OF assms] by simp
qed

lemma default_keyed: "ssl_ok api \<Longrightarrow> \<exists>a k. RopAES_default api = Some a \<and> keyed a k"
  by (simp add: RopAES_default_def RopAES_new_def expand_key_def ssl_ok_def keyed_def ROP_AES_KEY_SIZE_def ROP_AES_KEY_DEFAULT_def Let_def)

lemma save_path: "full_path GENDO_LOGIN_SAVE_PATH GENDO_LOGIN_SAVE_FILE = Some (''.'' @ [CHR 0x5C] @ ''gendo.save'')"
  by (simp add: full_path_def GENDO_LOGIN_SAVE_PATH_def GENDO_LOGIN_SAVE_FILE_def MAX_FILE_PATH_SIZE_def)

text \<open>C39: A name and password of ASCII characters that were saved are filled in again, when the file can be written and no one
  changes it: reading the encrypted file gives exactly what was saved, unless it has 32 characters or more, in which case
  it comes back empty.\<close>
theorem saved_login_restored:
  assumes "ssl_ok api" "ascii user" "ascii pwd" "CHR 0x00 \<notin> set user" "CHR 0x00 \<notin> set pwd"
    and "\<not> dlocked d (''.'' @ [CHR 0x5C] @ ''gendo.save'')"
  shows "\<exists>d'. SaveUserPwd api user pwd d = Some d' \<and> IsUserSaved api d' = Some True \<and>
    GetUserPwdSaved api old d' =
      Some (0, if length user < 32 then user else [], if length pwd < 32 then pwd else [])"
proof -
  let ?rows = "[bytes_of (fit32 user), bytes_of (fit32 pwd)]"
  let ?f = "''.'' @ [CHR 0x5C] @ ''gendo.save''"
  obtain a k where a: "RopAES_default api = Some a" "keyed a k" using default_keyed [OF assms(1)] by blast
  have "rows_at (row_of user @ row_of pwd) 32 0 ?rows"
    using row_of_facts(2) [OF assms(4), of "row_of pwd"] row_of_facts(2) [OF assms(5), of "[]"] row_of_facts(1) [OF assms(4)]
      fit32_facts(1) [of user] fit32_facts(1) [of pwd]
    by (simp add: rows_at_Cons) (simp add: rows_at_def)
  moreover have "length ?rows * 32 \<le> length (replicate 64 (0 :: byte))" by simp
  ultimately obtain c dest' where "enc_rows api a (row_of user @ row_of pwd) 32 (length ?rows) 0 zeros [] = Some c"
    "dec_rows api a c 32 (int (length ?rows)) 0 zeros (replicate 64 0) = Some (0, dest', int (length ?rows))"
    and rows: "rows_at dest' 32 0 ?rows"
    using rows_file_read [OF assms(1) a(2)] by blast
  then have c: "enc_rows api a (row_of user @ row_of pwd) 32 2 0 zeros [] = Some c"
    and dec: "dec_rows api a c 32 2 0 zeros (replicate 64 0) = Some (0, dest', 2)"
    by (simp_all add: numeral_2_eq_2)
  let ?d = "write_file ?f c d"
  have s: "SaveUserPwd api user pwd d = Some ?d"
    using a(1) c assms(2,3,6) by (simp add: SaveUserPwd_def EncryptFileByBufAry_def save_path row32_ascii)
  have r: "read_saved api ?d = Some (0, dest')"
    using a(1) dec by (simp add: read_saved_def DecryptFileToBufAry_def save_path write_file_def)
  have "c_str dest' = Some (bytes_of (fit32 user))" "c_str (drop 32 dest') = Some (bytes_of (fit32 pwd))"
    using rows by (auto simp: rows_at_Cons)
  then have "c_string dest' = fit32 user" "c_string (drop 32 dest') = fit32 pwd"
    using c_string_c_str fit32_facts(2) assms(4,5) by blast+
  then have "GetUserPwdSaved api old ?d = Some (0, fit32 user, fit32 pwd)"
    using r assms(2,3) by (simp add: GetUserPwdSaved_def conv32 fit32_facts)
  then show ?thesis using s r by (auto simp: IsUserSaved_def fit32_def)
qed

theorem saved_login_restored_witness:
  "\<exists>d'. SaveUserPwd ssl_demo ''bob'' ''secret'' (disk_demo []) = Some d' \<and> IsUserSaved ssl_demo d' = Some True \<and>
    GetUserPwdSaved ssl_demo ([], []) d' = Some (0, ''bob'', ''secret'')"
proof -
  have u: "CHR 0x00 \<notin> set ''bob''" and p: "CHR 0x00 \<notin> set ''secret''" by simp_all
  have d: "\<not> dlocked (disk_demo []) (''.'' @ [CHR 0x5C] @ ''gendo.save'')" by (simp add: disk_demo_def)
  have a: "ascii ''bob''" "ascii ''secret''" by simp_all
  show ?thesis using saved_login_restored [OF ssl_demo_ok a u p d, of "([], [])"] by simp
qed

section \<open>The request at the gateway\<close>

lemma put_fields:
  "length bs + off \<le> length buf \<Longrightarrow> put_bytes off bs buf = Some (take off buf @ bs @ drop (off + length bs) buf)"
  by (simp add: put_bytes_def add.commute)

lemma login_request_layout:
  assumes "length osname < 32" "ascii name" "ascii pwd"
  shows "login_request name pwd osname =
    Some (le32 MSG_GAS_USER_LOGIN @ le32 (of_nat SIZEOF_USER_LOGIN) @
      login_msg (fit32 name) (fit32 pwd) (bytes_of osname @ replicate (936 - length osname) 0))"
proof -
  have l: "length (fit32 name) < 32" "length (fit32 pwd) < 32" by (rule fit32_facts)+
  let ?h = "le32 MSG_GAS_USER_LOGIN @ le32 (of_nat SIZEOF_USER_LOGIN)"
  let ?n = "bytes_of (fit32 name)" and ?p = "bytes_of (fit32 pwd)"
  have h: "length ?h = 8" "length (le32 w) = 4" for w by (simp_all add: le32_def)
  have z: "0 # replicate k (0 :: byte) = replicate (Suc k) 0" for k by simp
  have 1: "put_bytes 0 (le32 MSG_GAS_USER_LOGIN) (replicate 1024 0) = Some (le32 MSG_GAS_USER_LOGIN @ replicate 1020 0)"
    by (simp add: put_fields h)
  have 2: "put_bytes 4 (le32 (of_nat SIZEOF_USER_LOGIN)) (le32 MSG_GAS_USER_LOGIN @ replicate 1020 0) = Some (?h @ replicate 1016 0)"
    by (simp add: put_fields h)
  have 3: "put_bytes 8 (?n @ [0]) (?h @ replicate 1016 0) = Some (?h @ ?n @ replicate (1016 - length ?n) 0)"
    using l by (simp add: put_fields h z Suc_diff_Suc del: replicate_Suc)
  have 4: "put_bytes 40 (?p @ [0]) (?h @ ?n @ replicate (1016 - length ?n) 0) =
      Some (?h @ ?n @ replicate (32 - length ?n) 0 @ ?p @ replicate (984 - length ?p) 0)"
    using l by (simp add: put_fields h z Suc_diff_Suc del: replicate_Suc)
  have 5: "put_bytes 88 (bytes_of osname @ [0]) (?h @ ?n @ replicate (32 - length ?n) 0 @ ?p @ replicate (984 - length ?p) 0) =
      Some (?h @ ?n @ replicate (32 - length ?n) 0 @ ?p @ replicate (48 - length ?p) 0 @ bytes_of osname @
        replicate (936 - length osname) 0)"
    using l assms(1) by (simp add: put_fields h z Suc_diff_Suc del: replicate_Suc)
  show ?thesis using 1 2 3 4 5 conv32(1) [OF assms(2)] conv32(1) [OF assms(3)]
    by (simp add: login_request_def login_msg_def MAX_NAME_LEN_def)
qed

lemma ReceiveAndWaitEx_out: "ReceiveAndWaitEx n t s = (r, bs, s') \<Longrightarrow> rs_out s' = rs_out s"
  by (auto simp: ReceiveAndWaitEx_def Let_def split: if_splits prod.splits)

lemma recv_all_out: "recv_all n t got s = (r, bs, s') \<Longrightarrow> rs_out s' = rs_out s"
proof (induction n t got s rule: recv_all.induct)
  case (1 n t got s)
  show ?case
  proof (cases "n = 0")
    case True
    then show ?thesis using "1.prems" by (simp add: recv_all.simps)
  next
    case False
    obtain r1 b1 s1 where r1: "ReceiveAndWaitEx n t s = (r1, b1, s1)" by (metis prod_cases3)
    then have out: "rs_out s1 = rs_out s" by (rule ReceiveAndWaitEx_out)
    show ?thesis
    proof (cases "r1 \<le> 0")
      case True
      then show ?thesis using "1.prems" False r1 out by (simp add: recv_all.simps [of n t got s])
    next
      case pos: False
      then have "recv_all (n - nat r1) t (got @ b1) s1 = (r, bs, s')"
        using "1.prems" False r1 by (simp add: recv_all.simps [of n t got s])
      then show ?thesis using "1.IH" [OF False r1 [symmetric] refl refl pos] out by simp
    qed
  qed
qed

lemma recv_head_out: "RecvAndWaitMsg_head buf sz t (Some s) = Some (r, b, sock) \<Longrightarrow> \<exists>s'. sock = Some s' \<and> rs_out s' = rs_out s"
  by (auto simp: RecvAndWaitMsg_head_def recv_framed_def Let_def dest!: recv_all_out
      split: if_splits prod.splits option.splits Option.bind_splits)

lemma login_msg_take:
  assumes "length name < 32" "length pwd < 48" "16 \<le> length rest"
  shows "take 96 (login_msg name pwd rest) = login_msg name pwd (take 16 rest)"
  using assms by (simp add: login_msg_def MAX_NAME_LEN_def)

lemma Sync_Open_out: "Sync_Open a b c s = Some (r, s') \<Longrightarrow> rs_out s' = rs_out s"
  by (auto simp: Sync_Open_def Let_def split: if_splits)

text \<open>A login that succeeds was typed in ASCII and fits the arrays.\<close>

lemma LoginGas_fits:
  assumes "LoginGas have_socket resolved connected name pwd osname s u = Some (0, u', sock)"
  shows "length name < 32" "length pwd < 32" "ascii name" "ascii pwd"
proof -
  have f: "length name < 32 \<and> length pwd < 32"
    using assms by (auto simp: LoginGas_def in_buf_def MAX_NAME_LEN_def split: Option.bind_splits if_splits)
  then show "length name < 32" "length pwd < 32" by simp_all
  have "\<exists>buf. login_request name pwd osname = Some buf"
    using assms by (auto simp: LoginGas_def split: Option.bind_splits if_splits)
  then have "wc2mb 32 name \<noteq> None" "wc2mb 32 pwd \<noteq> None"
    by (auto simp: login_request_def MAX_NAME_LEN_def split: Option.bind_splits)
  then show "ascii name" "ascii pwd" using f by (auto simp: wc2mb_def split: if_splits)
qed

text \<open>C38: What the gateway reads of a login is what the user typed: when the client reports a login whose name and password,
  in ASCII, fit the arrays of 32 characters that they are copied to in the end, it has sent one message of the type and
  length of a login, from which the gateway's functions read exactly the name and the password, and these are the ones of
  the session. The name of the system is shorter than its array of 32.\<close>
theorem login_read_by_gateway:
  assumes "LoginGas have_socket resolved connected name pwd osname s u = Some (0, u', sock)"
    and "CHR 0x00 \<notin> set name" "CHR 0x00 \<notin> set pwd" "length osname < 32"
  shows "\<exists>s' request. sock = Some s' \<and> rs_out s' = rs_out s @ request \<and> length request = 8 + SIZEOF_USER_LOGIN \<and>
    field_at 0 request = MSG_GAS_USER_LOGIN \<and> unat (field_at 4 request) = SIZEOF_USER_LOGIN \<and>
    login_name (drop 8 request) = name \<and> login_pwd (drop 8 request) = pwd \<and>
    u_bLogin u' \<and> u_sUser u' = name \<and> u_sPwd u' = pwd"
proof -
  note fits = LoginGas_fits [OF assms(1)]
  let ?rest = "bytes_of osname @ replicate (936 - length osname) 0"
  let ?buf = "le32 MSG_GAS_USER_LOGIN @ le32 (of_nat SIZEOF_USER_LOGIN) @ login_msg name pwd ?rest"
  have h: "length (le32 w) = 4" for w by (simp add: le32_def)
  have req: "login_request name pwd osname = Some ?buf"
    using login_request_layout [OF assms(4) fits(3,4)] fits(1,2) by (simp add: fit32_def)
  obtain s0 where s0: "Sync_Open have_socket resolved connected s = Some (0, s0)"
    using assms(1) by (auto simp: LoginGas_def split: Option.bind_splits if_splits)
  obtain r s1 where send: "SendMsg_head ?buf INFINITE (Some s0) = Some (r, Some s1)" "0 < r"
    and r: "\<exists>ret buf. RecvAndWaitMsg_head ?buf 1024 INFINITE (Some s1) = Some (ret, buf, sock)"
    and u: "u_bLogin u'" "u_sUser u' = name" "u_sPwd u' = pwd"
    using assms(1) s0 req
    by (auto simp: LoginGas_def SendMsg_head_def in_buf_def split: Option.bind_splits if_splits)
  obtain s' where s': "sock = Some s'" "rs_out s' = rs_out s1" using r recv_head_out by blast
  have f: "field_at 0 ?buf = MSG_GAS_USER_LOGIN" "field_at 4 ?buf = of_nat SIZEOF_USER_LOGIN"
    by (simp_all add: field_at_def h)
  have n: "unat (of_nat SIZEOF_USER_LOGIN :: 32 word) = SIZEOF_USER_LOGIN"
    "int MSG_HEAD_LEN + uint (of_nat SIZEOF_USER_LOGIN :: 32 word) < 2 ^ 31"
    by (simp_all add: SIZEOF_USER_LOGIN_def MSG_HEAD_LEN_def)
  have "rs_out s1 = rs_out s0 @ take (8 + SIZEOF_USER_LOGIN) ?buf"
    using send send_framed_ok(3) [of MSG_HEAD_LEN 4 ?buf INFINITE s0 r s1] f n
    by (auto simp: SendMsg_head_def MSG_HEAD_LEN_def split: Option.bind_splits)
  moreover have "take (8 + SIZEOF_USER_LOGIN) ?buf =
      le32 MSG_GAS_USER_LOGIN @ le32 (of_nat SIZEOF_USER_LOGIN) @ login_msg name pwd (take 16 ?rest)" (is "_ = ?request")
    using login_msg_take [of name pwd ?rest] fits(1,2) assms(4) by (simp add: SIZEOF_USER_LOGIN_def h)
  moreover have "login_name (drop 8 ?request) = name" "login_pwd (drop 8 ?request) = pwd"
    using login_fields [of name pwd "take 16 ?rest"] assms(2,3) fits(1,2) by (simp_all add: h MAX_NAME_LEN_def)
  moreover have "length ?request = 8 + SIZEOF_USER_LOGIN"
    using fits(1,2) assms(4) by (simp add: h SIZEOF_USER_LOGIN_def login_msg_def MAX_NAME_LEN_def)
  moreover have "field_at 0 ?request = MSG_GAS_USER_LOGIN" "unat (field_at 4 ?request) = SIZEOF_USER_LOGIN"
    by (simp_all add: field_at_def h SIZEOF_USER_LOGIN_def)
  ultimately show ?thesis using s' u Sync_Open_out [OF s0] by auto
qed

definition login_sock :: sync_socket where
  "login_sock = \<lparr>m_Valid = False, m_bIsOpened = False, m_ShutdownIndicated = False, m_Rx = 0, m_Tx = 0,
     rs_in = [Got [1, 0, 1, 0, 4, 0, 0, 0], Got [0, 0, 0, 0]], rs_send = [(8, 0), (96, 0)], rs_out = [],
     rcv_timeout = None, snd_timeout = None\<rparr>"

lemma login_demo:
  "map_option fst (LoginGas True True True ''bob'' ''secret'' ''xp'' login_sock \<lparr>u_bLogin = False, u_sUser = [], u_sPwd = [], u_info = []\<rparr>) = Some 0"
  by code_simp

theorem login_read_by_gateway_witness:
  "\<exists>u u' s' request. LoginGas True True True ''bob'' ''secret'' ''xp'' login_sock u = Some (0, u', Some s') \<and>
    rs_out s' = rs_out login_sock @ request \<and> login_name (drop 8 request) = ''bob'' \<and> login_pwd (drop 8 request) = ''secret'' \<and> u_bLogin u'"
proof -
  obtain u u' sock where L: "LoginGas True True True ''bob'' ''secret'' ''xp'' login_sock u = Some (0, u', sock)"
    using login_demo by auto
  have n: "CHR 0x00 \<notin> set ''bob''" "CHR 0x00 \<notin> set ''secret''" "length ''xp'' < 32" by simp_all
  obtain s' request where "sock = Some s'" "rs_out s' = rs_out login_sock @ request" "login_name (drop 8 request) = ''bob''"
    "login_pwd (drop 8 request) = ''secret''" "u_bLogin u'"
    using login_read_by_gateway [OF L n] by auto
  then show ?thesis using L by blast
qed

end
