(* ===== verification/GendoDownload.thy ===== *)
theory GendoDownload imports DecText Bytes begin

text \<open>
  \<open>Client/Gendo/HttpDownload.cpp\<close>: the download of one file in pieces that are fetched by several threads at a time, and
  that can be stopped and taken up again later. WinInet is a parameter: how it takes a URL apart, and what it answers to
  a request. Each round of the thread that hands out the pieces, of a thread that fetches one, and of the thread that
  looks after them is a function; GendoDownloadSteps lets them run side by side. The texts for the debugger, the file
  names in answers and the estimates in floating point are left out. \<open>None\<close> is an access outside an array or to one
  that was given back.
\<close>

section \<open>Requests\<close>

record request =
  rq_host :: string
  rq_path :: string
  rq_headers :: "string list"

record answer =
  an_status :: int
  an_length :: "int option"
  an_body :: "byte list"

type_synonym crack = "string \<Rightarrow> (string \<times> string) option"
type_synonym answers = "request \<Rightarrow> answer option"

definition http_eol :: string where "http_eol = [CHR 0x0D, CHR 0x0A]"

definition Http_Return_206 :: int where "Http_Return_206 = 206"
definition Http_Return_200 :: int where "Http_Return_200 = 200"

text \<open>The names of a URL that is not taken apart stay empty, as \<open>Init\<close> left them; the path is copied into 1024 characters.\<close>

definition NvAnalyzeURL :: "crack \<Rightarrow> string \<Rightarrow> (string \<times> string) option" where
  "NvAnalyzeURL crack url =
     (case crack url of
        None \<Rightarrow> Some ([], [])
      | Some (host, path) \<Rightarrow> if length path < 1024 then Some (take 1023 host, path) else None)"

text \<open>\<open>NvHttpAddRequestHeaders\<close>: the range from \<open>mn\<close> to \<open>sz\<close> bytes after \<open>mx\<close>, or to the end.\<close>

definition open_range :: "int \<Rightarrow> string" where
  "open_range mn = ''Range:bytes='' @ fmt_d mn @ ''-'' @ http_eol"

definition closed_range :: "int \<Rightarrow> int \<Rightarrow> string" where
  "closed_range mn mx = ''Range:bytes='' @ fmt_d mn @ ''-'' @ fmt_d mx @ http_eol"

definition range_header :: "int \<Rightarrow> int \<Rightarrow> int \<Rightarrow> string" where
  "range_header sz mn mx =
     (if sz = 0 then open_range mn else let mx = (if mx = 0 then mn else mx) in closed_range mn (mx + sz))"

definition http_request :: "crack \<Rightarrow> string \<Rightarrow> string option \<Rightarrow> string list \<Rightarrow> request option" where
  "http_request crack url cookie hs = do {
     (host, path) \<leftarrow> NvAnalyzeURL crack url;
     Some \<lparr>rq_host = host, rq_path = path,
       rq_headers = (''Accept: */*'' @ http_eol) # (case cookie of None \<Rightarrow> [] | Some c \<Rightarrow> [c]) @ hs\<rparr> }"

definition GetHttpReturnData ::
  "crack \<Rightarrow> answers \<Rightarrow> string \<Rightarrow> int \<Rightarrow> int \<Rightarrow> int \<Rightarrow> string option \<Rightarrow> (int \<times> byte list) option"
where
  "GetHttpReturnData crack ans url sz mn mx cookie = do {
     rq \<leftarrow> http_request crack url cookie [range_header sz mn mx];
     Some (case ans rq of
        None \<Rightarrow> (0xFFFF, [])
      | Some a \<Rightarrow>
          if an_status a = Http_Return_206 then (Http_Return_206, an_body a)
          else if an_status a = Http_Return_200 then (Http_Return_200, an_body a) else (0xFFFF, [])) }"

definition get_UrlFileSize :: "crack \<Rightarrow> answers \<Rightarrow> string \<Rightarrow> string option \<Rightarrow> int option" where
  "get_UrlFileSize crack ans url cookie = do {
     rq \<leftarrow> http_request crack url cookie [];
     Some (case ans rq of
        None \<Rightarrow> 0
      | Some a \<Rightarrow> if an_status a = 403 \<or> an_status a = 404 then 0 else case an_length a of None \<Rightarrow> 0 | Some n \<Rightarrow> n) }"

section \<open>A thread that fetches a piece\<close>

datatype exit_code = Thread_download_Out | Thread_download_Ok

definition Thread_OK :: nat where "Thread_OK = 1"
definition Thread_ON :: nat where "Thread_ON = 2"

text \<open>
  \<open>t_pos\<close> is the place of the thread's own handle in the saved file, \<open>t_slot\<close> the place of its counter in the array of the
  download (\<open>None\<close>: the counter for a download by one thread), and \<open>t_body\<close> what of the answer was not read yet. The flag
  that stops the thread and its event are set together. What \<open>m_iGot\<close> and \<open>m_iLeft\<close> count follows from \<open>t_got\<close>.
\<close>

record task =
  t_x :: int
  t_size :: int
  t_got :: int
  t_pos :: nat
  t_links :: nat
  t_slot :: "nat option"
  t_body :: "byte list"
  t_ok :: nat
  t_stop :: bool
  t_started :: bool
  t_exit :: "exit_code option"

text \<open>The thread starts only when the answer to the range was 206. A place before the file leaves the handle at its start.\<close>

definition new_task :: "int \<Rightarrow> int \<Rightarrow> nat option \<Rightarrow> bool \<Rightarrow> byte list \<Rightarrow> task" where
  "new_task x sz slot started body =
     \<lparr>t_x = x, t_size = sz, t_got = 0, t_pos = nat x, t_links = 0, t_slot = slot, t_body = body, t_ok = 0, t_stop = False,
      t_started = started, t_exit = None\<rparr>"

definition write_at :: "nat \<Rightarrow> byte list \<Rightarrow> byte list \<Rightarrow> byte list" where
  "write_at off bs f =
     (if bs = [] then f else take off f @ replicate (off - length f) 0 @ bs @ drop (off + length bs) f)"

text \<open>
  What a round of the loop meets: the error of the last call, whether the reading succeeded, what it read, and how much
  of it was written (\<open>None\<close>: the writing failed).
\<close>

record reading =
  rd_error :: int
  rd_ok :: bool
  rd_data :: "byte list"
  rd_written :: "nat option"

text \<open>
  One round of the loop of \<open>NvDownload_Task\<close>: the result when it returns, and the number of bytes that it counts. The error
  of the last call is looked at even when the reading succeeded, and then what was read is dropped.
\<close>

definition task_round :: "reading \<Rightarrow> task \<Rightarrow> byte list \<Rightarrow> bool option \<times> task \<times> byte list \<times> nat" where
  "task_round rd t f =
     (let t = (if rd_ok rd then t\<lparr>t_body := drop (length (rd_data rd)) (t_body t)\<rparr> else t)
      in if rd_error rd = 12002 \<or> \<not> rd_ok rd
         then let t = t\<lparr>t_links := Suc (t_links t)\<rparr> in (if t_links t = 20 then Some False else None, t, f, 0)
         else case rd_written rd of
             None \<Rightarrow> (Some False, t, f, 0)
           | Some w \<Rightarrow>
               let f = write_at (t_pos t) (take w (rd_data rd)) f
               in if w \<noteq> length (rd_data rd) then (Some False, t, f, 0)
                  else if t_got t - 1 \<noteq> t_size t \<and> w = 0 then (Some False, t, f, 0)
                  else let t = t\<lparr>t_got := t_got t + int w, t_pos := t_pos t + w\<rparr>
                    in (if t_stop t \<or> w = 0 then Some True else None, t, f, w))"

text \<open>What \<open>Thread_Download_Task\<close> does with the result.\<close>

definition end_task :: "bool \<Rightarrow> task \<Rightarrow> task" where
  "end_task r t =
     (if \<not> r then t\<lparr>t_ok := Thread_ON, t_exit := Some Thread_download_Ok\<rparr>
      else if t_stop t then t\<lparr>t_exit := Some Thread_download_Out\<rparr>
      else t\<lparr>t_ok := Thread_OK, t_exit := Some Thread_download_Ok\<rparr>)"

definition stop_flag :: "task \<Rightarrow> task" where "stop_flag t = t\<lparr>t_stop := True\<rparr>"

section \<open>A download\<close>

text \<open>A piece: where it starts, how long it is and how much of it was fetched.\<close>

record tag =
  g_x :: int
  g_cnt :: int
  g_got :: int

text \<open>
  \<open>d_counts\<close> is the array of counters (\<open>None\<close> before it is made and after it was given back), \<open>d_copy\<close> the size of a piece
  that the thread which hands them out has put by, \<open>d_saved\<close> the file that is written; \<open>d_alive\<close> and \<open>d_detecting\<close>
  say that the two threads run.
\<close>

record download =
  d_url :: string
  d_path :: string
  d_cookie :: string
  d_threads :: nat
  d_chunk :: int
  d_copy :: int
  d_sion :: int
  d_size :: int
  d_tasks :: "task list"
  d_counts :: "int list option"
  d_ndata :: nat
  d_last :: int
  d_ji :: int
  d_tags :: "tag list"
  d_no :: "tag list"
  d_saved :: "byte list"
  d_quit :: bool
  d_detect_quit :: bool
  d_alive :: bool
  d_detecting :: bool
  d_cmd_out :: bool
  d_stopped :: bool
  d_one_mode :: bool
  d_one :: "task option"
  d_one_cnt :: int
  d_time :: int
  d_speed :: int

definition Init :: "byte list \<Rightarrow> download" where
  "Init saved =
     \<lparr>d_url = [], d_path = [], d_cookie = [], d_threads = 10, d_chunk = 204800, d_copy = 204800, d_sion = - 204800, d_size = 0,
      d_tasks = [], d_counts = None, d_ndata = 0, d_last = 0, d_ji = 0, d_tags = [], d_no = [], d_saved = saved,
      d_quit = False, d_detect_quit = False, d_alive = False, d_detecting = False, d_cmd_out = False, d_stopped = False,
      d_one_mode = False, d_one = None, d_one_cnt = 0, d_time = 0, d_speed = 0\<rparr>"

text \<open>Both take only what is out of bounds, and replace it.\<close>

definition set_ThreadCount :: "nat \<Rightarrow> download \<Rightarrow> download" where
  "set_ThreadCount n d = (if 12 < n then d\<lparr>d_threads := 12\<rparr> else if n = 0 then d\<lparr>d_threads := 6\<rparr> else d)"

definition set_DownloadTaskCnt :: "nat \<Rightarrow> download \<Rightarrow> download" where
  "set_DownloadTaskCnt n d =
     (if 1020000 div 3 < n then d\<lparr>d_chunk := 204800\<rparr> else if n = 0 then d\<lparr>d_chunk := 204800\<rparr> else d)"

definition get_DownloadCount :: "download \<Rightarrow> int \<times> download" where
  "get_DownloadCount d =
     (case d_counts d of
        None \<Rightarrow> (if \<not> d_one_mode d then d_last d else d_one_cnt d, d)
      | Some cs \<Rightarrow> let n = d_ji d + sum_list (take (d_ndata d) cs) in (n, d\<lparr>d_last := n\<rparr>))"

text \<open>With one thread the list of threads is looked at as far as there are counters.\<close>

definition GetDownloaded :: "download \<Rightarrow> (int \<times> download) option" where
  "GetDownloaded d =
     (if \<not> d_one_mode d then Some (d_last d, d)
      else if length (d_tasks d) < d_ndata d then None
      else let n = sum_list (map t_got (take (d_ndata d) (d_tasks d))) in Some (n, d\<lparr>d_last := n\<rparr>))"

text \<open>The difference is cut to 32 bits before it is divided.\<close>

definition set_TimeCount :: "download \<Rightarrow> download" where
  "set_TimeCount d = (let (n, d) = get_DownloadCount d in d\<lparr>d_time := n\<rparr>)"

definition get_DownloadSpeed :: "download \<Rightarrow> int \<times> download" where
  "get_DownloadSpeed d =
     (let (n, d) = get_DownloadCount d;
          v = ((n - d_time d) mod 2 ^ 32) div 1024;
          d = set_TimeCount (d\<lparr>d_speed := v\<rparr>)
      in (v, d))"

definition detect_TaskComplete :: "download \<Rightarrow> bool \<times> download" where
  "detect_TaskComplete d =
     (if d_size d \<noteq> 0 then let (n, d) = get_DownloadCount d in (d_size d = n, d) else (False, d))"

definition get_StopPrintf :: "download \<Rightarrow> bool \<times> download" where
  "get_StopPrintf d = (let (b, d) = detect_TaskComplete d in (b \<or> d_stopped d \<or> d_cmd_out d, d))"

section \<open>Handing out the pieces\<close>

definition call_AssignTasks :: "int \<Rightarrow> int \<Rightarrow> int \<Rightarrow> bool \<times> int \<times> int" where
  "call_AssignTasks n1 n2 n3 =
     (if n1 + n2 = n3 then (False, n1, n2)
      else if n1 + n2 < n3 - n2 then (True, n1 + n2, n2)
      else if n1 + n2 < n3 \<and> n3 < n1 + n2 + n2 then (True, n1 + n2, n3 - (n1 + n2))
      else (True, n1, n2))"

definition T_X :: int where "T_X = 1"
definition T_Z :: int where "T_Z = 3"

text \<open>The next piece of those that were put by, if there is one; the answer tells the last one by its place.\<close>

fun set_ThreadTaskData :: "tag list \<Rightarrow> int \<Rightarrow> int \<Rightarrow> int \<times> int \<times> int \<times> tag list" where
  "set_ThreadTaskData [] x cnt = (T_X, x, cnt, [])"
| "set_ThreadTaskData (g # gs) x cnt =
     (let x = g_x g + g_got g; cnt = g_cnt g - g_got g in if gs = [] then (x, x, cnt, []) else (T_Z, x, cnt, gs))"

definition cookie_arg :: "string \<Rightarrow> string option" where "cookie_arg c = (if c = [] then None else Some c)"

text \<open>A new thread with the next counter of the array.\<close>

definition create_task :: "crack \<Rightarrow> answers \<Rightarrow> int \<Rightarrow> int \<Rightarrow> download \<Rightarrow> download option" where
  "create_task crack ans x sz d = do {
     cs \<leftarrow> d_counts d;
     if length cs \<le> d_ndata d then None
     else do {
       (code, body) \<leftarrow> GetHttpReturnData crack ans (d_url d) sz x 0 (cookie_arg (d_cookie d));
       Some (d\<lparr>d_counts := Some (cs[d_ndata d := 0]), d_ndata := Suc (d_ndata d),
         d_tasks := d_tasks d @ [new_task x sz (Some (d_ndata d)) (code = Http_Return_206) body]\<rparr>) } }"

definition decete_TaskFailure :: "crack \<Rightarrow> answers \<Rightarrow> download \<Rightarrow> (bool \<times> download) option" where
  "decete_TaskFailure crack ans d =
     (case d_no d of
        [] \<Rightarrow> Some (False, d)
      | g # gs \<Rightarrow> do {
          d \<leftarrow> create_task crack ans (g_x g + g_got g) (g_cnt g - g_got g - 1) (d\<lparr>d_no := gs\<rparr>);
          Some (True, d) })"

definition stop_DetectTask :: "download \<Rightarrow> download" where "stop_DetectTask d = d\<lparr>d_detect_quit := True\<rparr>"

text \<open>A piece of those put by, or the next of the file, is given to a new thread.\<close>

definition hand_out :: "crack \<Rightarrow> answers \<Rightarrow> download \<Rightarrow> download option" where
  "hand_out crack ans d =
     (let (ret, x, cnt, gs) = set_ThreadTaskData (d_tags d) (d_sion d) (d_chunk d)
      in do {
        d \<leftarrow> create_task crack ans x (cnt - 1) (d\<lparr>d_sion := x, d_chunk := cnt, d_tags := gs\<rparr>);
        Some (if ret \<noteq> T_X \<and> ret \<noteq> T_Z then d\<lparr>d_sion := ret - d_copy d + d_chunk d, d_chunk := d_copy d\<rparr> else d) })"

text \<open>One round of the loop of \<open>thread_Task\<close>, and what follows the loop.\<close>

definition manage_round :: "crack \<Rightarrow> answers \<Rightarrow> download \<Rightarrow> download option" where
  "manage_round crack ans d =
     (if d_threads d \<le> length (d_tasks d) then Some d
      else if d_quit d then Some ((stop_DetectTask d)\<lparr>d_quit := False, d_alive := False\<rparr>)
      else do {
        (failed, d) \<leftarrow> decete_TaskFailure crack ans d;
        if failed then Some d
        else if d_tags d = [] \<and> d_copy d = d_chunk d
        then let (_, x, cnt) = call_AssignTasks (d_sion d) (d_chunk d) (d_size d)
          in hand_out crack ans (d\<lparr>d_sion := x, d_chunk := cnt\<rparr>)
        else if d_tags d = []
        then let (n, d) = get_DownloadCount d
          in Some (if n = d_size d
            then (stop_DetectTask d)\<lparr>d_cmd_out := True, d_counts := None, d_alive := False\<rparr> else d)
        else hand_out crack ans d })"

section \<open>The other threads\<close>

text \<open>The counter that a thread adds to.\<close>

definition add_count :: "nat option \<Rightarrow> nat \<Rightarrow> download \<Rightarrow> download option" where
  "add_count slot n d =
     (case slot of
        None \<Rightarrow> Some (d\<lparr>d_one_cnt := d_one_cnt d + int n\<rparr>)
      | Some k \<Rightarrow> do {
          cs \<leftarrow> d_counts d;
          if length cs \<le> k then None else Some (d\<lparr>d_counts := Some (cs[k := cs ! k + int n])\<rparr>) })"

definition tag_of :: "task \<Rightarrow> tag" where
  "tag_of t = \<lparr>g_x = t_x t, g_cnt = t_size t + 1, g_got = t_got t\<rparr>"

definition get_ThreadTaskData :: "task \<Rightarrow> download \<Rightarrow> download" where
  "get_ThreadTaskData t d = d\<lparr>d_tags := d_tags d @ [tag_of t]\<rparr>"

text \<open>A thread reads on only when it is running; the counter is touched only when something was written.\<close>

definition running :: "task \<Rightarrow> bool" where "running t \<longleftrightarrow> t_started t \<and> t_exit t = None"

definition work :: "reading \<Rightarrow> task \<Rightarrow> download \<Rightarrow> (task \<times> download) option" where
  "work rd t d =
     (let (r, t', f, n) = task_round rd t (d_saved d);
          d = d\<lparr>d_saved := f\<rparr>
      in do {
        d \<leftarrow> (if r = Some False \<or> rd_error rd = 12002 \<or> \<not> rd_ok rd then Some d else add_count (t_slot t) n d);
        Some (case r of
           None \<Rightarrow> (t', d)
         | Some b \<Rightarrow> (end_task b t', if b \<and> t_stop t' then get_ThreadTaskData t' d else d)) })"

text \<open>A file that cannot be opened ends the thread at once.\<close>

definition work_unopened :: "task \<Rightarrow> task" where "work_unopened t = end_task False t"

text \<open>The first thread of the list that has ended is taken out; what it did not fetch is put by.\<close>

fun detect_loop :: "task list \<Rightarrow> tag list \<times> task list" where
  "detect_loop [] = ([], [])"
| "detect_loop (t # ts) =
     (if t_ok t = Thread_ON then ([tag_of t], ts)
      else if t_ok t = Thread_OK then ([], ts)
      else let (gs, ts) = detect_loop ts in (gs, t # ts))"

definition detect_vtThread_Task :: "download \<Rightarrow> download" where
  "detect_vtThread_Task d = (let (gs, ts) = detect_loop (d_tasks d) in d\<lparr>d_no := d_no d @ gs, d_tasks := ts\<rparr>)"

definition detect_round :: "download \<Rightarrow> download" where
  "detect_round d = (if d_detect_quit d then d\<lparr>d_detecting := False\<rparr> else detect_vtThread_Task d)"

section \<open>A download by one thread\<close>

definition detect_vtThreadOne_Task :: "download \<Rightarrow> download" where
  "detect_vtThreadOne_Task d =
     (case d_one d of
        None \<Rightarrow> d
      | Some t \<Rightarrow> if t_ok t = Thread_ON \<or> t_ok t = Thread_OK then d\<lparr>d_one := None\<rparr> else d)"

text \<open>The thread starts whatever the answer, over what the request for the whole file gave.\<close>

definition one_round :: "byte list \<Rightarrow> download \<Rightarrow> download" where
  "one_round body d =
     (if d_quit d then (stop_DetectTask d)\<lparr>d_quit := False, d_alive := False\<rparr>
      else if d_one d = None
      then let (n, d) = get_DownloadCount d
        in if n = d_size d
           then (stop_DetectTask d)\<lparr>d_cmd_out := True, d_counts := None, d_alive := False\<rparr>
           else d\<lparr>d_one := Some (new_task 0 0 None True body), d_one_cnt := 0\<rparr>
      else d)"

section \<open>Stopping and taking up again\<close>

text \<open>\<open>%lld\<close> with the rest of the line, and how it is read: blanks are skipped before and after the number.\<close>

definition scan_d :: "string \<Rightarrow> int \<Rightarrow> int \<times> string" where
  "scan_d s old =
     (let s = dropWhile isspace s; (v, r) = strtol 10 s in if r = s then (old, s) else (v, dropWhile isspace r))"

definition line_d :: "int \<Rightarrow> string" where "line_d n = fmt_d n @ [CHR 0x0A]"

definition tag_text :: "tag \<Rightarrow> string" where
  "tag_text g = line_d (g_x g) @ line_d (g_cnt g) @ line_d (g_got g)"

text \<open>What \<open>create_DwonloadFile\<close> writes into the file next to the saved one.\<close>

definition create_DwonloadFile :: "download \<Rightarrow> string \<times> download" where
  "create_DwonloadFile d =
     (let (n, d) = get_DownloadCount d
      in (line_d (int (length (d_tags d))) @ line_d n @ concat (map tag_text (d_tags d)), d))"

text \<open>The records are read one after the other into the same variable.\<close>

fun read_tags :: "nat \<Rightarrow> string \<Rightarrow> tag \<Rightarrow> tag list" where
  "read_tags 0 s g = []"
| "read_tags (Suc n) s g =
     (let (x, s) = scan_d s (g_x g); (cnt, s) = scan_d s (g_cnt g); (got, s) = scan_d s (g_got g);
          g = \<lparr>g_x = x, g_cnt = cnt, g_got = got\<rparr>
      in g # read_tags n s g)"

definition read_DwonloadFile :: "string option \<Rightarrow> download \<Rightarrow> download" where
  "read_DwonloadFile txt d =
     (case txt of
        None \<Rightarrow> d
      | Some s \<Rightarrow>
          let (n, s) = scan_d s 0;
              (ji, s) = scan_d s (d_ji d)
          in d\<lparr>d_ji := ji,
               d_tags := sort_key g_x (d_tags d @ read_tags (nat (c_int n)) s \<lparr>g_x = 0, g_cnt = 0, g_got = 0\<rparr>)\<rparr>)"

text \<open>The start of a download; the probe for ranges never sends the cookie.\<close>

definition Download ::
  "crack \<Rightarrow> answers \<Rightarrow> string option \<Rightarrow> string \<Rightarrow> string \<Rightarrow> string option \<Rightarrow> download \<Rightarrow> download option"
where
  "Download crack ans resume url path cookie d = do {
     let d = (case cookie of None \<Rightarrow> d | Some c \<Rightarrow> d\<lparr>d_cookie := c\<rparr>);
     n \<leftarrow> get_UrlFileSize crack ans url (Some (d_cookie d));
     let d = read_DwonloadFile resume (d\<lparr>d_size := n, d_url := url, d_path := path\<rparr>);
     (code, _) \<leftarrow> GetHttpReturnData crack ans url 0 0 0 None;
     Some (if code = Http_Return_206
       then d\<lparr>d_counts := Some (replicate (if n < d_chunk d * 5 then 100 else nat (n div d_chunk d * 2)) 0),
              d_copy := d_chunk d, d_alive := True, d_detecting := True\<rparr>
       else d\<lparr>d_one_mode := True, d_alive := True, d_detecting := True\<rparr>) }"

text \<open>
  \<open>stop_Task\<close> waits for the thread: the rounds it still makes are a script; one that does not end it, or a thread that was
  never started, is waited for without end (\<open>None\<close>).
\<close>

fun stop_rounds :: "reading list \<Rightarrow> task \<Rightarrow> download \<Rightarrow> (task \<times> download) option" where
  "stop_rounds rds t d =
     (if t_exit t \<noteq> None then Some (t, d)
      else if \<not> t_started t then None
      else case rds of [] \<Rightarrow> None | rd # rds \<Rightarrow> do { (t, d) \<leftarrow> work rd t d; stop_rounds rds t d })"

declare stop_rounds.simps [simp del]

fun stop_tasks :: "reading list list \<Rightarrow> task list \<Rightarrow> download \<Rightarrow> download option" where
  "stop_tasks (rds # rdss) (t # ts) d = do { (_, d) \<leftarrow> stop_rounds rds (stop_flag t) d; stop_tasks rdss ts d }"
| "stop_tasks _ _ d = Some d"

text \<open>
  The part of \<open>thread_SecurityCloseTask\<close> after the thread that hands out pieces has ended, with the text that is kept. A
  download by one thread keeps none, and has no object to stop between two attempts.
\<close>

definition thread_SecurityCloseTask :: "reading list list \<Rightarrow> download \<Rightarrow> (string option \<times> download) option" where
  "thread_SecurityCloseTask rdss d =
     (let d = d\<lparr>d_tags := [], d_stopped := True\<rparr>
      in if \<not> d_one_mode d
         then do {
           d \<leftarrow> stop_tasks rdss (d_tasks d) d;
           let (txt, d) = create_DwonloadFile d;
           Some (Some txt, d\<lparr>d_tasks := []\<rparr>) }
         else do {
           t \<leftarrow> d_one d;
           (_, d) \<leftarrow> stop_rounds (concat rdss) (stop_flag t) d;
           Some (None, d\<lparr>d_one := None\<rparr>) })"

end
