(* ===== verification/GendoDownloadSteps.thy ===== *)
theory GendoDownloadSteps imports GendoDownload begin

text \<open>
  The threads of a download side by side: the one that hands out the pieces, those that fetch them, and the one that takes
  out those that have ended. The main property: when the download reports that it is complete, the saved file is what the
  server has, provided its size is no multiple of the size of a piece. The others say what happens otherwise.

  A step is a whole round of one thread. In the code the threads share the list of threads and the array of counters with
  no lock (\<open>detect_vtThread_Task\<close> erases from the list that \<open>thread_Task\<close> appends to), so two rounds can also overlap; what
  an overlap does to the list is not part of the relation, and the properties hold for rounds that do not overlap.
\<close>

section \<open>Steps\<close>

text \<open>What a reading may give: data only from what is left of the answer, none only at its end.\<close>

definition reads :: "(bool \<Rightarrow> int \<Rightarrow> bool) \<Rightarrow> reading \<Rightarrow> task \<Rightarrow> bool" where
  "reads errors rd t \<longleftrightarrow> errors (rd_ok rd) (rd_error rd) \<and>
     (rd_ok rd \<longrightarrow> length (rd_data rd) \<le> 2047 \<and> rd_data rd = take (length (rd_data rd)) (t_body t) \<and>
       (rd_data rd = [] \<longleftrightarrow> t_body t = [])) \<and>
     (case rd_written rd of None \<Rightarrow> True | Some w \<Rightarrow> w \<le> length (rd_data rd))"

definition allowed :: "(request \<Rightarrow> answer \<Rightarrow> bool) \<Rightarrow> answers \<Rightarrow> bool" where
  "allowed allows ans \<longleftrightarrow> (\<forall>rq a. ans rq = Some a \<longrightarrow> allows rq a)"

inductive dl_step :: "crack \<Rightarrow> (request \<Rightarrow> answer \<Rightarrow> bool) \<Rightarrow> (bool \<Rightarrow> int \<Rightarrow> bool) \<Rightarrow> download \<Rightarrow> download \<Rightarrow> bool"
  for crack allows errors where
  manage: "d_alive d \<Longrightarrow> allowed allows ans \<Longrightarrow> manage_round crack ans d = Some d' \<Longrightarrow> dl_step crack allows errors d d'"
| work: "i < length (d_tasks d) \<Longrightarrow> running (d_tasks d ! i) \<Longrightarrow> reads errors rd (d_tasks d ! i) \<Longrightarrow>
    work rd (d_tasks d ! i) d = Some (t, d') \<Longrightarrow> dl_step crack allows errors d (d'\<lparr>d_tasks := (d_tasks d')[i := t]\<rparr>)"
| unopened: "i < length (d_tasks d) \<Longrightarrow> running (d_tasks d ! i) \<Longrightarrow> t_got (d_tasks d ! i) = 0 \<Longrightarrow>
    dl_step crack allows errors d (d\<lparr>d_tasks := (d_tasks d)[i := work_unopened (d_tasks d ! i)]\<rparr>)"
| detect: "d_detecting d \<Longrightarrow> dl_step crack allows errors d (detect_round d)"
| ask: "dl_step crack allows errors d (d\<lparr>d_quit := True, d_stopped := True\<rparr>)"

inductive_cases dl_stepE: "dl_step crack allows errors d d'"

section \<open>What is written is right\<close>

definition right :: "byte list \<Rightarrow> byte list \<Rightarrow> nat \<Rightarrow> bool" where
  "right content f p \<longleftrightarrow> p < length f \<and> f ! p = content ! p"

lemma length_write_at: "bs \<noteq> [] \<Longrightarrow> length (write_at off bs f) = max (length f) (off + length bs)"
  by (simp add: write_at_def)

lemma nth_write_at:
  assumes "bs \<noteq> []" "p < length (write_at off bs f)"
  shows "write_at off bs f ! p = (if p < off then if p < length f then f ! p else 0 else if p < off + length bs then bs ! (p - off) else f ! p)"
  using assms by (auto simp: write_at_def nth_append min_def not_less)

text \<open>The bytes of the file from a place on.\<close>

definition lies :: "byte list \<Rightarrow> nat \<Rightarrow> byte list \<Rightarrow> bool" where
  "lies content off bs \<longleftrightarrow> (\<forall>j < length bs. off + j < length content \<and> bs ! j = content ! (off + j))"

lemma lies_take: "lies content off bs \<Longrightarrow> lies content off (take n bs)"
  by (simp add: lies_def)

lemma lies_drop: "lies content off bs \<Longrightarrow> lies content (off + n) (drop n bs)"
  unfolding lies_def
proof (intro allI impI)
  fix j assume all: "\<forall>j < length bs. off + j < length content \<and> bs ! j = content ! (off + j)" and j: "j < length (drop n bs)"
  then have "n + j < length bs" by simp
  then show "off + n + j < length content \<and> drop n bs ! j = content ! (off + n + j)"
    using all j by (simp add: add.assoc)
qed

lemma lies_Nil [simp]: "lies content off []"
  by (simp add: lies_def)

lemma lies_prefix:
  assumes "bs = take (length bs) (take k (drop off content))"
  shows "lies content off bs"
  unfolding lies_def
proof (intro allI impI)
  fix j assume j: "j < length bs"
  have "length bs = length (take (length bs) (take k (drop off content)))" using assms by (rule arg_cong)
  then have l: "length bs \<le> k" "length bs \<le> length content - off" by simp_all
  have "bs ! j = take (length bs) (take k (drop off content)) ! j" using assms by (rule arg_cong)
  also have "\<dots> = content ! (off + j)" using j l by simp
  finally show "off + j < length content \<and> bs ! j = content ! (off + j)" using j l by simp
qed

lemma written_byte: "lies content off bs \<Longrightarrow> off \<le> p \<Longrightarrow> p < off + length bs \<Longrightarrow> bs ! (p - off) = content ! p"
  unfolding lies_def by (drule spec [of _ "p - off"]) auto

lemma write_at_Nil [simp]: "write_at off [] f = f"
  by (simp add: write_at_def)

lemma right_write:
  assumes "lies content off bs" "right content f p"
  shows "right content (write_at off bs f) p"
proof (cases "bs = []")
  case False
  have p: "p < length f" "f ! p = content ! p" using assms(2) by (simp_all add: right_def)
  then have l: "p < length (write_at off bs f)" using length_write_at [OF False, of off f] by linarith
  show ?thesis using p l nth_write_at [OF False l] written_byte [OF assms(1), of p] by (simp add: right_def)
qed (use assms(2) in simp)

lemma right_written:
  assumes "lies content off bs" "off \<le> p" "p < off + length bs"
  shows "right content (write_at off bs f) p"
proof -
  have ne: "bs \<noteq> []" using assms(2,3) by auto
  then have l: "p < length (write_at off bs f)" using length_write_at [OF ne, of off f] assms(3) by linarith
  show ?thesis using assms(2,3) l nth_write_at [OF ne l] written_byte [OF assms] by (simp add: right_def)
qed

lemma all_right:
  assumes "\<forall>p < length content. right content f p"
  shows "take (length content) f = content"
proof (rule nth_equalityI)
  have "length content \<le> length f" using assms by (metis leI less_not_refl right_def)
  then show "length (take (length content) f) = length content" by simp
  show "\<And>i. i < length (take (length content) f) \<Longrightarrow> take (length content) f ! i = content ! i" using assms by (simp add: right_def)
qed

section \<open>Pieces\<close>

definition t_left :: "task \<Rightarrow> int \<times> int" where "t_left t = (t_x t + t_got t, t_size t + 1 - t_got t)"
definition g_left :: "tag \<Rightarrow> int \<times> int" where "g_left g = (g_x g + g_got g, g_cnt g - g_got g)"

definition open_pieces :: "download \<Rightarrow> (int \<times> int) list" where "open_pieces d = map t_left (d_tasks d) @ map g_left (d_no d)"

text \<open>A thread that is running has the bytes before it that belong to its place in the file.\<close>

definition task_ok :: "byte list \<Rightarrow> nat \<Rightarrow> task \<Rightarrow> bool" where
  "task_ok content m t \<longleftrightarrow> 0 \<le> t_x t \<and> 0 \<le> t_got t \<and> t_got t \<le> t_size t + 1 \<and> t_x t + t_size t + 1 \<le> int (length content) \<and>
     \<not> t_stop t \<and> (\<exists>k < m. t_slot t = Some k) \<and>
     (running t \<longrightarrow> t_ok t = 0 \<and> int (t_pos t) = t_x t + t_got t \<and> lies content (t_pos t) (t_body t) \<and>
       int (length (t_body t)) \<le> t_size t + 1 - t_got t) \<and>
     (t_ok t = Thread_OK \<longrightarrow> t_got t = t_size t + 1) \<and> (\<not> t_started t \<longrightarrow> t_got t = 0 \<and> t_ok t = 0)"

definition inside :: "byte list \<Rightarrow> int \<times> int \<Rightarrow> bool" where
  "inside content p \<longleftrightarrow> 0 \<le> fst p \<and> 0 \<le> snd p \<and> fst p + snd p \<le> int (length content)"

definition within :: "int \<Rightarrow> int \<times> int \<Rightarrow> bool" where "within p al \<longleftrightarrow> fst al \<le> p \<and> p < fst al + snd al"

text \<open>
  With the pieces \<open>ps\<close> that no thread has: every byte is right or in a piece that is still to be fetched, and what was
  counted and what is to be fetched add up to the size of the file.
\<close>

definition accounted :: "byte list \<Rightarrow> (int \<times> int) list \<Rightarrow> download \<Rightarrow> bool" where
  "accounted content ps d \<longleftrightarrow>
     (\<forall>p \<in> set ps \<union> g_left ` set (d_no d). inside content p) \<and>
     (\<forall>t \<in> set (d_tasks d). task_ok content (d_ndata d) t) \<and>
     (\<forall>cs. d_counts d = Some cs \<longrightarrow> d_ndata d \<le> length cs \<and>
        sum_list (take (d_ndata d) cs) + sum_list (map snd (open_pieces d @ ps)) = int (length content)) \<and>
     (\<forall>p < length content. right content (d_saved d) p \<or> (\<exists>q \<in> set (open_pieces d @ ps). within (int p) q))"

lemma task_inside: "task_ok content m t \<Longrightarrow> inside content (t_left t)"
  by (auto simp: task_ok_def inside_def t_left_def)

lemma accounted_inside:
  assumes "accounted content ps d" "q \<in> set (open_pieces d @ ps)"
  shows "inside content q"
  using assms task_inside unfolding accounted_def open_pieces_def by fastforce

lemma sum_list_nonneg_0: "\<forall>x \<in> set xs. 0 \<le> x \<Longrightarrow> sum_list xs = (0 :: int) \<Longrightarrow> x \<in> set xs \<Longrightarrow> x = 0"
  by (metis member_le_sum_list order_antisym)

lemma sum_list_set: "i < length xs \<Longrightarrow> sum_list (map f (xs[i := y])) = sum_list (map f xs) + f y - (f (xs ! i) :: int)"
  by (induction xs arbitrary: i) (auto split: nat.splits)

lemma sum_take_set: "k < m \<Longrightarrow> m \<le> length xs \<Longrightarrow> sum_list (take m (xs[k := y])) = sum_list (take m xs) + y - (xs ! k :: int)"
  using sum_list_set [of k "take m xs" "\<lambda>x. x" y] by (simp add: take_update_swap)

section \<open>A round of a thread\<close>

definition ended :: "bool option \<Rightarrow> task \<Rightarrow> task" where
  "ended r t = (case r of None \<Rightarrow> t | Some b \<Rightarrow> end_task b t)"

lemma end_task_ok:
  assumes "task_ok content m t" "running t" "b \<longrightarrow> t_got t = t_size t + 1"
  shows "task_ok content m (end_task b (t\<lparr>t_body := body\<rparr>))"
  using assms by (auto simp: task_ok_def end_task_def running_def Thread_ON_def Thread_OK_def)

lemma round_facts:
  assumes "task_ok content m t" "running t" "reads errors rd t" "\<forall>e. errors True e \<longrightarrow> e \<noteq> 12002"
    and "task_round rd t f = (r, t', f', w)"
  shows "t_x t' = t_x t \<and> t_size t' = t_size t \<and> t_slot t' = t_slot t \<and> \<not> t_stop t' \<and> t_got t' = t_got t + int w"
    and "task_ok content m (ended r t')"
    and "\<exists>bs. f' = write_at (t_pos t) bs f \<and> lies content (t_pos t) bs \<and> w \<le> length bs"
    and "w \<noteq> 0 \<Longrightarrow> \<not> (r = Some False \<or> rd_error rd = 12002 \<or> \<not> rd_ok rd)"
proof -
  have st: "\<not> t_stop t" "t_ok t = 0" "0 \<le> t_x t" "0 \<le> t_got t" "t_got t \<le> t_size t + 1"
    and pos: "int (t_pos t) = t_x t + t_got t" and body: "lies content (t_pos t) (t_body t)"
    and len: "int (length (t_body t)) \<le> t_size t + 1 - t_got t"
    using assms(1,2) by (auto simp: task_ok_def)
  have "(t_x t' = t_x t \<and> t_size t' = t_size t \<and> t_slot t' = t_slot t \<and> \<not> t_stop t' \<and> t_got t' = t_got t + int w) \<and>
      task_ok content m (ended r t') \<and>
      (\<exists>bs. f' = write_at (t_pos t) bs f \<and> lies content (t_pos t) bs \<and> w \<le> length bs) \<and>
      (w \<noteq> 0 \<longrightarrow> \<not> (r = Some False \<or> rd_error rd = 12002 \<or> \<not> rd_ok rd))"
  proof (cases "rd_error rd = 12002 \<or> \<not> rd_ok rd")
    case True
    then have no: "\<not> rd_ok rd" using assms(3,4) by (auto simp: reads_def)
    have t': "t' = t\<lparr>t_links := Suc (t_links t)\<rparr>" "f' = f" "w = 0" "r = None \<or> r = Some False"
      using assms(5) no by (auto simp: task_round_def Let_def split: if_splits)
    have ok: "task_ok content m t'" "running t'" using assms(1,2) by (auto simp: t'(1) task_ok_def running_def)
    then have "task_ok content m (ended r t')" using t'(4) end_task_ok [OF ok, of False "t_body t'"] by (auto simp: ended_def)
    then show ?thesis using t' st no by (auto intro: exI [of _ "[]"])
  next
    case False
    then have ok: "rd_ok rd" "rd_error rd \<noteq> 12002" by simp_all
    let ?n = "length (rd_data rd)"
    have data: "rd_data rd = take ?n (t_body t)" "rd_data rd = [] \<longleftrightarrow> t_body t = []" using False assms(3) by (auto simp: reads_def)
    then have n: "?n \<le> length (t_body t)" by (metis length_take min.cobounded1)
    have right: "lies content (t_pos t) (rd_data rd)" using lies_take [OF body, of ?n] data(1) by simp
    have fail: "task_ok content m (ended (Some False) (t\<lparr>t_body := drop ?n (t_body t)\<rparr>))"
      unfolding ended_def option.case by (rule end_task_ok [OF assms(1,2)]) simp
    show ?thesis
    proof (cases "rd_written rd")
      case None
      then have "t' = t\<lparr>t_body := drop ?n (t_body t)\<rparr>" "f' = f" "w = 0" "r = Some False"
        using assms(5) ok by (simp_all add: task_round_def)
      then show ?thesis using fail st by (auto intro: exI [of _ "[]"])
    next
      case (Some v)
      show ?thesis
      proof (cases "v \<noteq> ?n \<or> t_got t - 1 \<noteq> t_size t \<and> v = 0")
        case True
        then have "t' = t\<lparr>t_body := drop ?n (t_body t)\<rparr>" "f' = write_at (t_pos t) (take v (rd_data rd)) f" "w = 0" "r = Some False"
          using assms(5) ok Some True by (auto simp: task_round_def Let_def split: if_splits)
        then show ?thesis using fail st lies_take [OF right] by auto
      next
        case whole: False
        define t1 where "t1 = t\<lparr>t_body := drop ?n (t_body t), t_got := t_got t + int ?n, t_pos := t_pos t + ?n\<rparr>"
        have t': "t' = t1" "f' = write_at (t_pos t) (rd_data rd) f" "w = ?n" "r = (if ?n = 0 then Some True else None)"
          using assms(5) ok Some whole st by (auto simp: task_round_def Let_def t1_def split: if_splits)
        have t1: "task_ok content m t1" "running t1"
          using assms(1,2) n lies_drop [OF body, of ?n] by (auto simp: t1_def task_ok_def running_def)
        have "task_ok content m (ended r t')"
        proof (cases "?n = 0")
          case True
          then have "t_got t1 = t_size t1 + 1" using whole by (auto simp: t1_def)
          then show ?thesis using end_task_ok [OF t1, of True "t_body t1"] t' True by (simp add: ended_def)
        qed (use t' t1 in \<open>simp add: ended_def\<close>)
        then show ?thesis using t' right st False by (auto simp: t1_def)
      qed
    qed
  qed
  then show "t_x t' = t_x t \<and> t_size t' = t_size t \<and> t_slot t' = t_slot t \<and> \<not> t_stop t' \<and> t_got t' = t_got t + int w"
    "task_ok content m (ended r t')" "\<exists>bs. f' = write_at (t_pos t) bs f \<and> lies content (t_pos t) bs \<and> w \<le> length bs"
    "w \<noteq> 0 \<Longrightarrow> \<not> (r = Some False \<or> rd_error rd = 12002 \<or> \<not> rd_ok rd)"
    by blast+
qed

lemma work_effect:
  assumes "task_ok content m t" "running t" "reads errors rd t" "\<forall>e. errors True e \<longrightarrow> e \<noteq> 12002" "t_slot t = Some k"
    and "work rd t d = Some (t2, d2)"
  obtains n bs where "t_left t2 = (fst (t_left t) + int n, snd (t_left t) - int n)" "task_ok content m t2" "lies content (t_pos t) bs"
    "n \<le> length bs" "d2 = d\<lparr>d_saved := write_at (t_pos t) bs (d_saved d), d_counts := map_option (\<lambda>cs. cs[k := cs ! k + int n]) (d_counts d)\<rparr>"
    "d_counts d = None \<longrightarrow> n = 0"
proof -
  obtain r t' f n where r: "task_round rd t (d_saved d) = (r, t', f, n)" by (metis prod_cases4)
  note facts = round_facts [OF assms(1-4) r]
  obtain bs where bs: "f = write_at (t_pos t) bs (d_saved d)" "lies content (t_pos t) bs" "n \<le> length bs" using facts(3) by blast
  have same: "map_option (\<lambda>cs. cs[k := cs ! k + int 0]) c = c" for c :: "int list option" by (cases c) simp_all
  have t2: "t2 = ended r t'"
    and d2: "d2 = d\<lparr>d_saved := f, d_counts := map_option (\<lambda>cs. cs[k := cs ! k + int n]) (d_counts d)\<rparr>"
    and none: "d_counts d = None \<longrightarrow> n = 0"
  proof -
    let ?no = "r = Some False \<or> rd_error rd = 12002 \<or> \<not> rd_ok rd"
    have w: "do { d \<leftarrow> (if ?no then Some (d\<lparr>d_saved := f\<rparr>) else add_count (t_slot t) n (d\<lparr>d_saved := f\<rparr>));
        Some (ended r t', d) } = Some (t2, d2)"
      using assms(6) facts(1) by (auto simp: work_def r ended_def split: option.splits if_splits Option.bind_splits)
    show "t2 = ended r t'" using w by (auto split: if_splits Option.bind_splits)
    show "d2 = d\<lparr>d_saved := f, d_counts := map_option (\<lambda>cs. cs[k := cs ! k + int n]) (d_counts d)\<rparr>"
    proof (cases ?no)
      case True
      then have "n = 0" using facts(4) by blast
      then show ?thesis using w True same [of "d_counts d"] by auto
    next
      case False
      then show ?thesis using w assms(5) by (auto simp: add_count_def split: if_splits Option.bind_splits)
    qed
    show "d_counts d = None \<longrightarrow> n = 0" using w facts(4) assms(5) by (auto simp: add_count_def split: if_splits)
  qed
  have left: "t_left t2 = (fst (t_left t) + int n, snd (t_left t) - int n)"
    using facts(1) by (auto simp: t2 ended_def end_task_def t_left_def split: option.splits)
  show thesis by (rule that [OF left _ bs(2,3)]) (use t2 d2 none bs(1) facts(2) in simp_all)
qed

lemma set_but_one: "i < length xs \<Longrightarrow> xs ! i = x \<Longrightarrow> set xs \<subseteq> insert x (set (xs[i := y]))"
proof
  fix z assume i: "i < length xs" "xs ! i = x" and "z \<in> set xs"
  then obtain j where j: "j < length xs" "xs ! j = z" by (auto simp: in_set_conv_nth)
  show "z \<in> insert x (set (xs[i := y]))"
  proof (cases "j = i")
    case False
    then have "xs[i := y] ! j = z" using j by simp
    then show ?thesis using j by (metis insertI2 length_list_update nth_mem)
  qed (use i j in simp)
qed

lemma accounted_work:
  assumes acc: "accounted content ps d" and i: "i < length (d_tasks d)" and run: "running (d_tasks d ! i)"
    and "reads errors rd (d_tasks d ! i)" "\<forall>e. errors True e \<longrightarrow> e \<noteq> 12002" "work rd (d_tasks d ! i) d = Some (t, d')"
  shows "accounted content ps (d'\<lparr>d_tasks := (d_tasks d')[i := t]\<rparr>)"
proof -
  let ?t = "d_tasks d ! i"
  have ok: "task_ok content (d_ndata d) ?t" using acc i by (simp add: accounted_def)
  obtain k where k: "t_slot ?t = Some k" "k < d_ndata d" using ok by (auto simp: task_ok_def)
  have pos: "int (t_pos ?t) = fst (t_left ?t)" using ok run by (simp add: task_ok_def t_left_def)
  obtain n bs where left: "t_left t = (fst (t_left ?t) + int n, snd (t_left ?t) - int n)" and t: "task_ok content (d_ndata d) t"
    and bs: "lies content (t_pos ?t) bs" "n \<le> length bs"
    and d': "d' = d\<lparr>d_saved := write_at (t_pos ?t) bs (d_saved d), d_counts := map_option (\<lambda>cs. cs[k := cs ! k + int n]) (d_counts d)\<rparr>"
    by (rule work_effect [OF ok run assms(4,5) k(1) assms(6)]) blast
  let ?d = "d'\<lparr>d_tasks := (d_tasks d')[i := t]\<rparr>"
  have p: "open_pieces ?d = (map t_left (d_tasks d))[i := t_left t] @ map g_left (d_no d)"
    by (simp add: open_pieces_def d' map_update)
  have "sum_list (map snd (open_pieces ?d @ ps)) = sum_list (map snd (open_pieces d @ ps)) - int n"
    using sum_list_set [OF i, of "snd \<circ> t_left" t] left by (simp add: d' open_pieces_def)
  moreover have "\<forall>cs. d_counts d = Some cs \<longrightarrow> sum_list (take (d_ndata d) (cs[k := cs ! k + int n])) = sum_list (take (d_ndata d) cs) + int n"
    using acc k(2) by (auto simp: accounted_def sum_take_set)
  ultimately have sums: "\<forall>cs. d_counts ?d = Some cs \<longrightarrow> d_ndata ?d \<le> length cs \<and>
      sum_list (take (d_ndata ?d) cs) + sum_list (map snd (open_pieces ?d @ ps)) = int (length content)"
    using acc by (auto simp: accounted_def d')
  have "right content (d_saved ?d) p \<or> (\<exists>q \<in> set (open_pieces ?d @ ps). within (int p) q)" if "p < length content" for p
  proof -
    have "right content (d_saved d) p \<or> (\<exists>q \<in> set (open_pieces d @ ps). within (int p) q)" using acc that by (simp add: accounted_def)
    moreover have "set (map t_left (d_tasks d)) \<subseteq> insert (t_left ?t) (set ((map t_left (d_tasks d))[i := t_left t]))"
      by (rule set_but_one) (use i in simp_all)
    then have "set (open_pieces d @ ps) \<subseteq> insert (t_left ?t) (set (open_pieces ?d @ ps))"
      unfolding p unfolding open_pieces_def set_append by blast
    ultimately consider "right content (d_saved d) p" | "within (int p) (t_left ?t)" | q where "q \<in> set (open_pieces ?d @ ps)" "within (int p) q"
      by blast
    then show ?thesis
    proof cases
      case 1
      then show ?thesis using right_write [OF bs(1)] by (simp add: d')
    next
      case 2
      show ?thesis
      proof (cases "int p < fst (t_left ?t) + int n")
        case True
        then have "right content (d_saved ?d) p"
          using 2 pos bs(2) right_written [OF bs(1), of p] by (simp add: d' within_def)
        then show ?thesis ..
      next
        case False
        then have "within (int p) (t_left t)" using 2 left by (simp add: within_def)
        moreover have "t_left t \<in> set (open_pieces ?d @ ps)" using i by (simp add: p set_update_memI)
        ultimately show ?thesis by blast
      qed
    qed blast
  qed
  moreover have "\<forall>u \<in> set (d_tasks ?d). task_ok content (d_ndata ?d) u"
    using acc t set_update_subset_insert [of "d_tasks d" i t] by (auto simp: accounted_def d')
  ultimately show ?thesis using acc sums by (simp add: accounted_def d')
qed

section \<open>Rounds of the other threads\<close>

text \<open>
  The server: an answer of 206 to a range has bytes of that range, from its start on; fewer when the connection breaks.
\<close>

definition honest :: "(request \<Rightarrow> answer \<Rightarrow> bool) \<Rightarrow> byte list \<Rightarrow> bool" where
  "honest allows content \<longleftrightarrow> (\<forall>rq a x. allows rq a \<and> an_status a = 206 \<and> 0 \<le> x \<longrightarrow>
     (open_range x \<in> set (rq_headers rq) \<longrightarrow> (\<exists>k. an_body a = take k (drop (nat x) content))) \<and>
     (\<forall>y. closed_range x y \<in> set (rq_headers rq) \<longrightarrow> (\<exists>k. an_body a = take k (take (nat (y + 1 - x)) (drop (nat x) content)))))"

lemma lies_taken: "lies content off (take k (drop off content))"
  by (rule lies_prefix [of _ k]) (rule take_all [OF order_refl, symmetric])

lemma range_answered:
  assumes "honest allows content" "allowed allows ans" "0 \<le> x" "0 \<le> sz + 1" "sz = 0 \<longrightarrow> x = int (length content) - 1"
    and "GetHttpReturnData crack ans url sz x 0 cookie = Some (st, body)" "st = Http_Return_206"
  shows "lies content (nat x) body \<and> int (length body) \<le> sz + 1"
proof -
  obtain rq where rq: "http_request crack url cookie [range_header sz x 0] = Some rq"
    using assms(6) by (auto simp: GetHttpReturnData_def split: Option.bind_splits)
  then have h: "range_header sz x 0 \<in> set (rq_headers rq)" by (auto simp: http_request_def split: Option.bind_splits)
  obtain a where a: "ans rq = Some a" "an_status a = 206" "body = an_body a"
    using assms(6,7) rq by (auto simp: GetHttpReturnData_def Http_Return_206_def Http_Return_200_def split: option.splits if_splits)
  then have al: "allows rq a" using assms(2) by (simp add: allowed_def)
  show ?thesis
  proof (cases "sz = 0")
    case True
    then obtain k where "body = take k (drop (nat x) content)"
      using assms(1,3) h al a unfolding honest_def range_header_def by force
    then show ?thesis using lies_taken assms(3,5) True by (auto simp: min_def)
  next
    case False
    then have "closed_range x (x + sz) \<in> set (rq_headers rq)" using h by (simp add: range_header_def)
    then obtain k where b: "body = take k (take (nat (x + sz + 1 - x)) (drop (nat x) content))"
      using assms(1,3) al a unfolding honest_def by blast
    then show ?thesis using assms(4) lies_taken [of content "nat x" "min k (nat (x + sz + 1 - x))"] by (auto simp: min_def split: if_splits)
  qed
qed

lemma task_ok_mono: "task_ok content m t \<Longrightarrow> m \<le> m' \<Longrightarrow> task_ok content m' t"
  by (auto simp: task_ok_def)

lemma create_task_effect:
  assumes "create_task crack ans x sz d = Some d'"
  obtains cs st body where "d_counts d = Some cs" "d_ndata d < length cs"
    "GetHttpReturnData crack ans (d_url d) sz x 0 (cookie_arg (d_cookie d)) = Some (st, body)"
    "d' = d\<lparr>d_counts := Some (cs[d_ndata d := 0]), d_ndata := Suc (d_ndata d),
       d_tasks := d_tasks d @ [new_task x sz (Some (d_ndata d)) (st = Http_Return_206) body]\<rparr>"
  using assms by (auto simp: create_task_def split: Option.bind_splits if_splits)

lemma accounted_create:
  assumes "honest allows content" "allowed allows ans" "accounted content ((x, sz + 1) # ps) d"
    and "sz = 0 \<longrightarrow> x = int (length content) - 1" "create_task crack ans x sz d = Some d'"
  shows "accounted content ps d'"
proof -
  obtain cs st body where cs: "d_counts d = Some cs" "d_ndata d < length cs"
    and http: "GetHttpReturnData crack ans (d_url d) sz x 0 (cookie_arg (d_cookie d)) = Some (st, body)"
    and d': "d' = d\<lparr>d_counts := Some (cs[d_ndata d := 0]), d_ndata := Suc (d_ndata d),
       d_tasks := d_tasks d @ [new_task x sz (Some (d_ndata d)) (st = Http_Return_206) body]\<rparr>"
    by (rule create_task_effect [OF assms(5)])
  let ?t = "new_task x sz (Some (d_ndata d)) (st = Http_Return_206) body"
  have ins: "0 \<le> x" "0 \<le> sz + 1" "x + sz + 1 \<le> int (length content)" using assms(3) by (auto simp: accounted_def inside_def)
  have "task_ok content (Suc (d_ndata d)) ?t"
    using range_answered [OF assms(1,2) ins(1,2) assms(4) http] ins
    by (auto simp: task_ok_def new_task_def running_def Thread_OK_def)
  then have tasks: "\<forall>t \<in> set (d_tasks d'). task_ok content (d_ndata d') t"
    using assms(3) task_ok_mono [of content "d_ndata d" _ "Suc (d_ndata d)"] by (auto simp: accounted_def d')
  have left: "t_left ?t = (x, sz + 1)" by (simp add: t_left_def new_task_def)
  have "take (Suc (d_ndata d)) (cs[d_ndata d := 0]) = take (d_ndata d) cs @ [0]"
    using cs(2) by (simp add: take_Suc_conv_app_nth)
  then have "\<forall>c. d_counts d' = Some c \<longrightarrow> d_ndata d' \<le> length c \<and>
      sum_list (take (d_ndata d') c) + sum_list (map snd (open_pieces d' @ ps)) = int (length content)"
    using assms(3) cs left by (auto simp: accounted_def d' open_pieces_def)
  moreover have "set (open_pieces d @ (x, sz + 1) # ps) \<subseteq> set (open_pieces d' @ ps)" using left by (auto simp: open_pieces_def d')
  then have "\<forall>p < length content. right content (d_saved d') p \<or> (\<exists>q \<in> set (open_pieces d' @ ps). within (int p) q)"
    using assms(3) unfolding accounted_def d' by (auto 0 3)
  ultimately show ?thesis using assms(3) tasks by (auto simp: accounted_def d')
qed

lemma detect_loop_pieces:
  assumes "\<forall>t \<in> set ts. task_ok content m t" "detect_loop ts = (gs, ts')"
  shows "set ts' \<subseteq> set ts \<and> (\<forall>g \<in> set gs. inside content (g_left g)) \<and>
    sum_list (map (snd \<circ> t_left) ts') + sum_list (map (snd \<circ> g_left) gs) = sum_list (map (snd \<circ> t_left) ts) \<and>
    (\<forall>t \<in> set ts. t_ok t = 0 \<longrightarrow> t \<in> set ts') \<and>
    (\<forall>q \<in> t_left ` set ts. snd q = 0 \<or> q \<in> t_left ` set ts' \<union> g_left ` set gs)"
  using assms
proof (induction ts arbitrary: gs ts')
  case (Cons t ts)
  have ins: "inside content (t_left t)" using Cons.prems(1) task_inside by auto
  have tag: "g_left (tag_of t) = t_left t" by (simp add: g_left_def t_left_def tag_of_def)
  consider "t_ok t = Thread_ON" | "t_ok t = Thread_OK" | "t_ok t \<noteq> Thread_ON \<and> t_ok t \<noteq> Thread_OK" by blast
  then show ?case
  proof cases
    case 1
    then show ?thesis using Cons.prems ins tag by (auto simp: Thread_ON_def)
  next
    case 2
    then have "t_got t = t_size t + 1" using Cons.prems(1) by (simp add: task_ok_def)
    then have "snd (t_left t) = 0" by (simp add: t_left_def)
    then show ?thesis using Cons.prems 2 by (auto simp: Thread_ON_def Thread_OK_def)
  next
    case 3
    obtain gs0 ts0 where r: "detect_loop ts = (gs0, ts0)" by fastforce
    then have "gs = gs0" "ts' = t # ts0" using Cons.prems(2) 3 by auto
    then show ?thesis using Cons.IH [OF _ r] Cons.prems(1) by auto
  qed
qed simp

lemma accounted_detect:
  assumes "accounted content ps d"
  shows "accounted content ps (detect_vtThread_Task d)"
proof -
  obtain gs ts where r: "detect_loop (d_tasks d) = (gs, ts)" by fastforce
  have d: "detect_vtThread_Task d = d\<lparr>d_no := d_no d @ gs, d_tasks := ts\<rparr>" (is "_ = ?d") by (simp add: detect_vtThread_Task_def r)
  have tasks: "\<forall>t \<in> set (d_tasks d). task_ok content (d_ndata d) t" using assms by (simp add: accounted_def)
  have l: "set ts \<subseteq> set (d_tasks d)" "\<forall>g \<in> set gs. inside content (g_left g)"
    "sum_list (map (snd \<circ> t_left) ts) + sum_list (map (snd \<circ> g_left) gs) = sum_list (map (snd \<circ> t_left) (d_tasks d))"
    "\<forall>q \<in> t_left ` set (d_tasks d). snd q = 0 \<or> q \<in> t_left ` set ts \<union> g_left ` set gs"
    using detect_loop_pieces [OF tasks r] by blast+
  have "sum_list (map snd (open_pieces ?d @ ps)) = sum_list (map snd (open_pieces d @ ps))" using l(3) by (simp add: open_pieces_def)
  moreover have "\<forall>q \<in> set (open_pieces d @ ps). snd q = 0 \<or> q \<in> set (open_pieces ?d @ ps)" using l(4) by (auto simp: open_pieces_def)
  then have "\<forall>p. (\<exists>q \<in> set (open_pieces d @ ps). within (int p) q) \<longrightarrow> (\<exists>q \<in> set (open_pieces ?d @ ps). within (int p) q)"
    by (metis add.right_neutral not_less within_def)
  then have "\<forall>p < length content. right content (d_saved d) p \<or> (\<exists>q \<in> set (open_pieces ?d @ ps). within (int p) q)"
    using assms unfolding accounted_def by blast
  ultimately show ?thesis unfolding d using assms l(1,2) tasks unfolding accounted_def by auto
qed

section \<open>The pieces that are handed out\<close>

text \<open>What no thread was given yet.\<close>

definition rest :: "download \<Rightarrow> int \<times> int" where
  "rest d = (d_sion d + d_chunk d, d_size d - (d_sion d + d_chunk d))"

definition plan_ok :: "download \<Rightarrow> bool" where
  "plan_ok d \<longleftrightarrow>
     d_chunk d = d_copy d \<and> d_copy d dvd d_sion d \<and> 0 \<le> d_sion d + d_copy d \<and> d_sion d + d_copy d < d_size d \<or>
     d_chunk d \<noteq> d_copy d \<and> 0 \<le> d_sion d \<and> 0 < d_chunk d \<and> d_sion d + d_chunk d = d_size d"

lemma assign_next:
  assumes "c dvd x" "x + c < n" "\<not> c dvd n" "0 < (c :: int)"
  shows "\<exists>b cnt. call_AssignTasks x c n = (b, x + c, cnt) \<and> 0 < cnt \<and>
    (cnt = c \<and> x + c + c < n \<or> cnt \<noteq> c \<and> x + c + cnt = n)"
proof -
  have "x + c + c \<noteq> n" using assms(1,3) by auto
  then show ?thesis using assms(2,4) by (auto simp: call_AssignTasks_def)
qed

text \<open>A state without pieces that were put by.\<close>

definition dl_inv :: "byte list \<Rightarrow> download \<Rightarrow> bool" where
  "dl_inv content d \<longleftrightarrow> accounted content [rest d] d \<and> plan_ok d \<and> d_size d = int (length content) \<and> 0 < d_copy d \<and>
     \<not> d_copy d dvd int (length content) \<and> d_tags d = [] \<and> d_ji d = 0 \<and> \<not> d_one_mode d \<and>
     (d_alive d \<longrightarrow> d_counts d \<noteq> None) \<and> (d_counts d = None \<longrightarrow> d_cmd_out d) \<and>
     (d_cmd_out d \<longrightarrow> \<not> d_alive d \<and> d_counts d = None \<and> (\<forall>q \<in> set (open_pieces d @ [rest d]). snd q = 0))"

lemma accounted_cong:
  "accounted content ps d \<Longrightarrow> d_tasks d' = d_tasks d \<Longrightarrow> d_no d' = d_no d \<Longrightarrow> d_counts d' = d_counts d \<or> d_counts d' = None \<Longrightarrow>
   d_ndata d' = d_ndata d \<Longrightarrow> d_saved d' = d_saved d \<Longrightarrow> accounted content ps d'"
  by (auto simp: accounted_def open_pieces_def)

lemma accounted_split:
  assumes "accounted content [(x, l)] d" "0 \<le> k" "k \<le> l"
  shows "accounted content [(x, k), (x + k, l - k)] d"
proof -
  have "within p (x, l) \<Longrightarrow> within p (x, k) \<or> within p (x + k, l - k)" for p by (auto simp: within_def)
  then show ?thesis using assms by (fastforce simp: accounted_def inside_def)
qed

lemma manage_repair:
  assumes inv: "dl_inv content d" and al: "d_alive d" and http: "honest allows content" "allowed allows ans"
    and no: "d_no d = g # gs" "g_cnt g - g_got g \<noteq> 1"
    and cr: "create_task crack ans (g_x g + g_got g) (g_cnt g - g_got g - 1) (d\<lparr>d_no := gs\<rparr>) = Some d'"
  shows "dl_inv content d'"
proof -
  have "accounted content [g_left g, rest d] (d\<lparr>d_no := gs\<rparr>)"
    using inv no by (auto simp: dl_inv_def accounted_def open_pieces_def)
  then have acc: "accounted content [(g_x g + g_got g, (g_cnt g - g_got g - 1) + 1), rest d] (d\<lparr>d_no := gs\<rparr>)"
    by (simp add: g_left_def)
  have "accounted content [rest d] d'"
    by (rule accounted_create [OF http acc _ cr]) (use no(2) in simp)
  moreover obtain cs where "d_counts d' = Some cs" "rest d' = rest d" "plan_ok d' = plan_ok d" "d_size d' = d_size d" "d_copy d' = d_copy d"
    "d_tags d' = d_tags d" "d_ji d' = d_ji d" "d_one_mode d' = d_one_mode d" "d_alive d' = d_alive d" "d_cmd_out d' = d_cmd_out d"
    by (rule create_task_effect [OF cr]) (simp add: rest_def plan_ok_def)
  ultimately show ?thesis using inv al by (auto simp: dl_inv_def)
qed

lemma manage_assign:
  assumes inv: "dl_inv content d" and al: "d_alive d" and http: "honest allows content" "allowed allows ans"
    and chunk: "d_copy d = d_chunk d" and call: "call_AssignTasks (d_sion d) (d_chunk d) (d_size d) = (b, x, cnt)"
    and hand: "hand_out crack ans (d\<lparr>d_sion := x, d_chunk := cnt\<rparr>) = Some d'"
  shows "dl_inv content d'"
proof -
  let ?n = "d_size d" and ?c = "d_copy d"
  have plan: "?c dvd d_sion d" "0 \<le> d_sion d + ?c" "d_sion d + ?c < ?n"
    using inv chunk by (auto simp: dl_inv_def plan_ok_def)
  obtain b' cnt' where call': "call_AssignTasks (d_sion d) ?c ?n = (b', d_sion d + ?c, cnt')" "0 < cnt'"
    and next_: "cnt' = ?c \<and> d_sion d + ?c + ?c < ?n \<or> cnt' \<noteq> ?c \<and> d_sion d + ?c + cnt' = ?n"
    using assign_next [OF plan(1,3)] inv by (auto simp: dl_inv_def)
  then have x: "x = d_sion d + ?c" "cnt = cnt'" using call chunk by simp_all
  let ?d = "d\<lparr>d_sion := x, d_chunk := cnt, d_tags := []\<rparr>"
  have tags: "d_tags d = []" using inv by (simp add: dl_inv_def)
  have cr: "create_task crack ans x (cnt - 1) ?d = Some d'"
    using hand tags by (auto simp: hand_out_def T_X_def split: Option.bind_splits)
  have "rest d = (x, ?n - x)" by (simp add: rest_def x chunk)
  then have "accounted content [(x, ?n - x)] d" using inv unfolding dl_inv_def by metis
  then have "accounted content [(x, cnt), (x + cnt, ?n - x - cnt)] d"
    by (rule accounted_split) (use call'(2) next_ x plan in auto)
  then have acc: "accounted content [(x, (cnt - 1) + 1), rest ?d] ?d"
    by (simp add: rest_def algebra_simps accounted_cong)
  have one: "cnt - 1 = 0 \<longrightarrow> x = int (length content) - 1"
  proof
    assume "cnt - 1 = 0"
    moreover have "?c \<noteq> 1" using inv by (auto simp: dl_inv_def)
    ultimately show "x = int (length content) - 1" using next_ x inv by (auto simp: dl_inv_def)
  qed
  have "accounted content [rest ?d] d'" by (rule accounted_create [OF http acc one cr])
  moreover obtain cs where "d_counts d' = Some cs" "rest d' = rest ?d" "plan_ok d' = plan_ok ?d" "d_size d' = ?n" "d_copy d' = ?c"
    "d_tags d' = []" "d_ji d' = d_ji d" "d_one_mode d' = d_one_mode d" "d_alive d' = d_alive d" "d_cmd_out d' = d_cmd_out d"
    by (rule create_task_effect [OF cr]) (simp add: rest_def plan_ok_def)
  moreover have "plan_ok ?d" using next_ x plan call'(2) by (auto simp: plan_ok_def)
  ultimately show ?thesis using inv al by (auto simp: dl_inv_def)
qed

lemma manage_done:
  assumes inv: "dl_inv content d" and al: "d_alive d" and cs: "d_counts d = Some cs"
    and n: "sum_list (take (d_ndata d) cs) = d_size d"
  shows "\<forall>q \<in> set (open_pieces d @ [rest d]). snd q = 0"
proof -
  have acc: "accounted content [rest d] d" using inv by (simp add: dl_inv_def)
  have "sum_list (map snd (open_pieces d @ [rest d])) = 0" using acc cs n inv by (simp add: accounted_def dl_inv_def)
  moreover have "\<forall>l \<in> set (map snd (open_pieces d @ [rest d])). 0 \<le> l"
    using accounted_inside [OF acc] by (auto simp: inside_def)
  ultimately show ?thesis using sum_list_nonneg_0 by (metis (no_types, lifting) image_eqI list.set_map)
qed

lemma dl_inv_cong:
  assumes "dl_inv content d" "d_tasks d' = d_tasks d" "d_no d' = d_no d" "d_ndata d' = d_ndata d" "d_saved d' = d_saved d"
    and "d_chunk d' = d_chunk d" "d_copy d' = d_copy d" "d_sion d' = d_sion d" "d_size d' = d_size d" "d_tags d' = d_tags d"
    and "d_ji d' = d_ji d" "d_one_mode d' = d_one_mode d" "d_counts d' = d_counts d" "d_alive d' \<longrightarrow> d_alive d" "d_cmd_out d' = d_cmd_out d"
  shows "dl_inv content d'"
proof -
  have "rest d' = rest d" "plan_ok d' = plan_ok d" "open_pieces d' = open_pieces d"
    using assms by (simp_all add: rest_def plan_ok_def open_pieces_def)
  moreover from this have "accounted content [rest d'] d'"
    using assms accounted_cong [of content "[rest d]" d d'] by (simp add: dl_inv_def)
  ultimately show ?thesis using assms by (auto simp: dl_inv_def)
qed

lemma dl_inv_done:
  assumes "dl_inv content d" "\<forall>q \<in> set (open_pieces d @ [rest d]). snd q = 0"
  shows "dl_inv content (d\<lparr>d_last := n, d_detect_quit := True, d_cmd_out := True, d_counts := None, d_alive := False\<rparr>)" (is "dl_inv _ ?d")
proof -
  have "rest ?d = rest d" "plan_ok ?d = plan_ok d" "open_pieces ?d = open_pieces d"
    by (simp_all add: rest_def plan_ok_def open_pieces_def)
  moreover from this have "accounted content [rest ?d] ?d"
    using assms accounted_cong [of content "[rest d]" d ?d] by (simp add: dl_inv_def)
  ultimately show ?thesis using assms by (simp add: dl_inv_def)
qed

lemma manage_wait:
  assumes inv: "dl_inv content d" and al: "d_alive d" and get: "get_DownloadCount d = (n, d1)"
  shows "dl_inv content (if n = d_size d1 then (stop_DetectTask d1)\<lparr>d_cmd_out := True, d_counts := None, d_alive := False\<rparr> else d1)"
proof -
  obtain cs where cs: "d_counts d = Some cs" using inv al by (auto simp: dl_inv_def)
  have d1: "n = sum_list (take (d_ndata d) cs)" "d1 = d\<lparr>d_last := n\<rparr>"
    using get cs inv by (auto simp: get_DownloadCount_def dl_inv_def Let_def)
  show ?thesis
  proof (cases "n = d_size d1")
    case True
    then have "\<forall>q \<in> set (open_pieces d @ [rest d]). snd q = 0" using manage_done [OF inv al cs] d1 by simp
    then show ?thesis using True dl_inv_done [OF inv, of n] d1(2) by (simp add: stop_DetectTask_def)
  next
    case False
    then show ?thesis using d1(2) by (simp, intro dl_inv_cong [OF inv]) simp_all
  qed
qed

lemma manage_keeps:
  assumes inv: "dl_inv content d" and al: "d_alive d" and http: "honest allows content" "allowed allows ans"
    and clean: "\<forall>g \<in> set (d_no d). g_cnt g - g_got g \<noteq> 1" and m: "manage_round crack ans d = Some d'"
  shows "dl_inv content d'"
proof -
  have tags: "d_tags d = []" using inv by (simp add: dl_inv_def)
  show ?thesis
  proof (cases "d_threads d \<le> length (d_tasks d)")
    case True
    then show ?thesis using m inv by (simp add: manage_round_def)
  next
    case room: False
    show ?thesis
    proof (cases "d_quit d")
      case True
      then have "d' = (stop_DetectTask d)\<lparr>d_quit := False, d_alive := False\<rparr>" using m room by (simp add: manage_round_def)
      then show ?thesis by (intro dl_inv_cong [OF inv]) (simp_all add: stop_DetectTask_def)
    next
      case stay: False
      show ?thesis
      proof (cases "d_no d")
        case (Cons g gs)
        then have "create_task crack ans (g_x g + g_got g) (g_cnt g - g_got g - 1) (d\<lparr>d_no := gs\<rparr>) = Some d'"
          using m room stay by (auto simp: manage_round_def decete_TaskFailure_def split: Option.bind_splits)
        then show ?thesis using manage_repair [OF inv al http Cons] clean Cons by simp
      next
        case Nil
        obtain b x cnt where call: "call_AssignTasks (d_sion d) (d_chunk d) (d_size d) = (b, x, cnt)" by (metis prod_cases3)
        obtain n d1 where get: "get_DownloadCount d = (n, d1)" by fastforce
        show ?thesis
        proof (cases "d_copy d = d_chunk d")
          case True
          then have "hand_out crack ans (d\<lparr>d_sion := x, d_chunk := cnt\<rparr>) = Some d'"
            using m room stay Nil tags call by (simp add: manage_round_def decete_TaskFailure_def)
          then show ?thesis by (rule manage_assign [OF inv al http True call])
        next
          case False
          then show ?thesis using m room stay Nil tags get manage_wait [OF inv al get]
            by (simp add: manage_round_def decete_TaskFailure_def)
        qed
      qed
    qed
  qed
qed

section \<open>Every state\<close>

text \<open>No thread that failed has left exactly one byte of its piece: the request for it would have no end.\<close>

definition clean :: "download \<Rightarrow> bool" where
  "clean d \<longleftrightarrow> (\<forall>g \<in> set (d_no d). g_cnt g - g_got g \<noteq> 1)"

lemma keep_other:
  "t \<in> set ts \<Longrightarrow> i < length ts \<Longrightarrow> ts ! i \<noteq> t \<Longrightarrow> t \<in> set (ts[i := u])"
  by (metis insertE in_mono set_but_one)

lemma create_task_keeps: "create_task crack ans x sz d = Some d' \<Longrightarrow> set (d_tasks d) \<subseteq> set (d_tasks d')"
  by (rule create_task_effect, assumption) auto

lemma hand_out_tasks: "hand_out crack ans d = Some d' \<Longrightarrow> set (d_tasks d) \<subseteq> set (d_tasks d')"
  by (auto simp: hand_out_def split: prod.splits Option.bind_splits if_splits dest!: create_task_keeps)

lemma manage_tasks:
  assumes "manage_round crack ans d = Some d'"
  shows "set (d_tasks d) \<subseteq> set (d_tasks d')"
proof (cases "d_threads d \<le> length (d_tasks d) \<or> d_quit d")
  case True
  then show ?thesis using assms by (auto simp: manage_round_def stop_DetectTask_def split: if_splits)
next
  case False
  then have m: "do { (failed, d) \<leftarrow> decete_TaskFailure crack ans d;
      if failed then Some d
      else if d_tags d = [] \<and> d_copy d = d_chunk d
      then let (_, x, cnt) = call_AssignTasks (d_sion d) (d_chunk d) (d_size d)
        in hand_out crack ans (d\<lparr>d_sion := x, d_chunk := cnt\<rparr>)
      else if d_tags d = []
      then let (n, d) = get_DownloadCount d
        in Some (if n = d_size d
          then (stop_DetectTask d)\<lparr>d_cmd_out := True, d_counts := None, d_alive := False\<rparr> else d)
      else hand_out crack ans d } = Some d'"
    using assms by (simp add: manage_round_def)
  have get: "d_tasks (snd (get_DownloadCount d)) = d_tasks d" by (simp add: get_DownloadCount_def Let_def split: option.split)
  show ?thesis
  proof (cases "d_no d")
    case Nil
    then show ?thesis using m get
      by (auto simp: decete_TaskFailure_def stop_DetectTask_def split: if_splits prod.splits dest!: hand_out_tasks)
  next
    case (Cons g gs)
    then show ?thesis using m by (auto simp: decete_TaskFailure_def split: Option.bind_splits dest!: create_task_keeps)
  qed
qed

lemma work_keeps:
  assumes inv: "dl_inv content d" and i: "i < length (d_tasks d)" "running (d_tasks d ! i)" "reads errors rd (d_tasks d ! i)"
    and e: "\<forall>e. errors True e \<longrightarrow> e \<noteq> 12002" and w: "work rd (d_tasks d ! i) d = Some (t, d1)"
  shows "dl_inv content (d1\<lparr>d_tasks := (d_tasks d1)[i := t]\<rparr>) \<and> d_tasks d1 = d_tasks d" (is "dl_inv content ?d \<and> _")
proof -
  have acc: "accounted content [rest d] d" using inv by (simp add: dl_inv_def)
  have ok: "task_ok content (d_ndata d) (d_tasks d ! i)" using acc i(1) by (simp add: accounted_def)
  then obtain k where k: "t_slot (d_tasks d ! i) = Some k" by (auto simp: task_ok_def)
  obtain n bs where left: "t_left t = (fst (t_left (d_tasks d ! i)) + int n, snd (t_left (d_tasks d ! i)) - int n)"
    and d1: "d1 = d\<lparr>d_saved := write_at (t_pos (d_tasks d ! i)) bs (d_saved d),
        d_counts := map_option (\<lambda>cs. cs[k := cs ! k + int n]) (d_counts d)\<rparr>"
    and none: "d_counts d = None \<longrightarrow> n = 0"
    by (rule work_effect [OF ok i(2,3) e k w]) (rule that; assumption)
  have r: "rest ?d = rest d" "plan_ok ?d = plan_ok d" by (simp_all add: d1 rest_def plan_ok_def)
  have "accounted content [rest ?d] ?d" using accounted_work [OF acc i e w] r by simp
  moreover have "d_cmd_out d \<longrightarrow> open_pieces ?d = open_pieces d"
  proof
    assume "d_cmd_out d"
    then have "n = 0" using inv none by (auto simp: dl_inv_def)
    then have "t_left t = t_left (d_tasks d ! i)" using left by simp
    then show "open_pieces ?d = open_pieces d" using i(1) by (simp add: open_pieces_def d1 map_update list_update_same_conv)
  qed
  ultimately show ?thesis using inv r by (auto simp: dl_inv_def d1)
qed

lemma unopened_keeps:
  assumes inv: "dl_inv content d" and i: "i < length (d_tasks d)" "running (d_tasks d ! i)"
  shows "dl_inv content (d\<lparr>d_tasks := (d_tasks d)[i := work_unopened (d_tasks d ! i)]\<rparr>)" (is "dl_inv content ?d")
proof -
  let ?t = "d_tasks d ! i"
  have acc: "accounted content [rest d] d" using inv by (simp add: dl_inv_def)
  have ok: "task_ok content (d_ndata d) ?t" using acc i(1) by (simp add: accounted_def)
  have t: "task_ok content (d_ndata d) (work_unopened ?t)" "t_left (work_unopened ?t) = t_left ?t"
    using end_task_ok [OF ok i(2), of False "t_body ?t"] by (simp_all add: work_unopened_def t_left_def end_task_def)
  have "map t_left (d_tasks ?d) = map t_left (d_tasks d)"
    using i(1) t(2) by (simp add: map_update list_update_same_conv)
  then have p: "open_pieces ?d = open_pieces d" "rest ?d = rest d" "plan_ok ?d = plan_ok d"
    by (simp_all add: open_pieces_def rest_def plan_ok_def)
  have "\<forall>u \<in> set (d_tasks ?d). task_ok content (d_ndata d) u"
    using acc t(1) set_update_subset_insert [of "d_tasks d" i "work_unopened ?t"] by (auto simp: accounted_def)
  then have "accounted content [rest ?d] ?d" using acc p by (simp add: accounted_def)
  then show ?thesis using inv p by (simp add: dl_inv_def)
qed

lemma detect_keeps:
  assumes inv: "dl_inv content d"
  shows "dl_inv content (detect_round d) \<and> (\<forall>t \<in> set (d_tasks d). t_ok t = 0 \<longrightarrow> t \<in> set (d_tasks (detect_round d)))"
proof (cases "d_detect_quit d")
  case True
  then show ?thesis using dl_inv_cong [OF inv, of "d\<lparr>d_detecting := False\<rparr>"] by (simp add: detect_round_def)
next
  case False
  have acc: "accounted content [rest d] d" using inv by (simp add: dl_inv_def)
  obtain gs ts where r: "detect_loop (d_tasks d) = (gs, ts)" by fastforce
  let ?d = "d\<lparr>d_no := d_no d @ gs, d_tasks := ts\<rparr>"
  have d: "detect_round d = ?d" using False by (simp add: detect_round_def detect_vtThread_Task_def r)
  have tasks: "\<forall>t \<in> set (d_tasks d). task_ok content (d_ndata d) t" using acc by (simp add: accounted_def)
  have l: "set ts \<subseteq> set (d_tasks d)" "\<forall>g \<in> set gs. inside content (g_left g)"
    "sum_list (map (snd \<circ> t_left) ts) + sum_list (map (snd \<circ> g_left) gs) = sum_list (map (snd \<circ> t_left) (d_tasks d))"
    "\<forall>t \<in> set (d_tasks d). t_ok t = 0 \<longrightarrow> t \<in> set ts"
    using detect_loop_pieces [OF tasks r] by blast+
  have p: "rest ?d = rest d" "plan_ok ?d = plan_ok d" by (simp_all add: rest_def plan_ok_def)
  have acc': "accounted content [rest ?d] ?d"
    using accounted_detect [OF acc] p by (simp add: detect_vtThread_Task_def r)
  have "(\<forall>q \<in> set (open_pieces d). snd q = 0) \<longrightarrow> (\<forall>q \<in> set (open_pieces ?d). snd q = 0)"
  proof
    assume zero: "\<forall>q \<in> set (open_pieces d). snd q = 0"
    then have "map snd (open_pieces d) = map (\<lambda>_. 0) (open_pieces d)" by simp
    then have "sum_list (map snd (open_pieces d)) = sum_list (map (\<lambda>_. 0) (open_pieces d))" by (rule arg_cong)
    also have "\<dots> = 0" by simp
    finally have "sum_list (map snd (open_pieces d)) = 0" .
    then have "sum_list (map snd (open_pieces ?d)) = 0" using l(3) by (simp add: open_pieces_def)
    moreover have "\<forall>x \<in> set (map snd (open_pieces ?d)). 0 \<le> x"
      using accounted_inside [OF acc'] by (auto simp: inside_def)
    ultimately show "\<forall>q \<in> set (open_pieces ?d). snd q = 0"
      using sum_list_nonneg_0 by (metis (no_types, lifting) image_eqI list.set_map)
  qed
  then show ?thesis using inv acc' p l(4) by (auto simp: d dl_inv_def)
qed

lemma step_keeps:
  assumes "dl_step crack allows errors d d'" "dl_inv content d" "honest allows content" "\<forall>e. errors True e \<longrightarrow> e \<noteq> 12002" "clean d"
  shows "dl_inv content d' \<and> (\<forall>t \<in> set (d_tasks d). \<not> t_started t \<longrightarrow> t \<in> set (d_tasks d'))"
  using assms(1)
proof cases
  case (manage ans)
  then show ?thesis using manage_keeps [OF assms(2) manage(1) assms(3) manage(2)] assms(5) subsetD [OF manage_tasks [OF manage(3)]]
    by (simp add: clean_def)
next
  case (work i rd t d1)
  then have "dl_inv content d'" "d_tasks d' = (d_tasks d)[i := t]" using work_keeps [OF assms(2) work(2-4) assms(4) work(5)] by auto
  moreover have "t_started (d_tasks d ! i)" using work(3) by (simp add: running_def)
  ultimately show ?thesis using keep_other [of _ "d_tasks d" i t] work(2) by auto
next
  case (unopened i)
  then have "t_started (d_tasks d ! i)" by (simp add: running_def)
  then show ?thesis using unopened unopened_keeps [OF assms(2)] keep_other [of _ "d_tasks d" i] by auto
next
  case detect
  have "\<forall>t \<in> set (d_tasks d). \<not> t_started t \<longrightarrow> t_ok t = 0" using assms(2) by (auto simp: dl_inv_def accounted_def task_ok_def)
  then show ?thesis using detect detect_keeps [OF assms(2)] by blast
next
  case ask
  then show ?thesis using dl_inv_cong [OF assms(2), of d'] by simp
qed

definition clean_step :: "crack \<Rightarrow> (request \<Rightarrow> answer \<Rightarrow> bool) \<Rightarrow> (bool \<Rightarrow> int \<Rightarrow> bool) \<Rightarrow> download \<Rightarrow> download \<Rightarrow> bool" where
  "clean_step crack allows errors d d' \<longleftrightarrow> clean d \<and> dl_step crack allows errors d d'"

lemma reach_keeps:
  assumes "(clean_step crack allows errors)\<^sup>*\<^sup>* d d'" "dl_inv content d" "honest allows content" "\<forall>e. errors True e \<longrightarrow> e \<noteq> 12002"
  shows "dl_inv content d' \<and> (\<forall>t \<in> set (d_tasks d). \<not> t_started t \<longrightarrow> t \<in> set (d_tasks d'))"
  using assms(1)
proof (induction rule: rtranclp_induct)
  case (step a b)
  then have "dl_step crack allows errors a b" "clean a" by (simp_all add: clean_step_def)
  then show ?case using step_keeps [of crack allows errors a b content] assms(3,4) step.IH by blast
qed (use assms(2) in simp)

lemma read_none: "read_DwonloadFile None d = d"
  by (simp add: read_DwonloadFile_def)

lemma start_facts:
  assumes "Download crack ans None url path cookie (Init old) = Some d" "\<not> d_one_mode d"
  shows "\<exists>c. 10 \<le> c \<and> d_counts d = Some (replicate c 0)" "d_tasks d = []" "d_no d = []" "d_ndata d = 0" "d_sion d = - 204800" "d_chunk d = 204800"
    "d_copy d = 204800" "d_tags d = []" "d_ji d = 0" "d_alive d" "\<not> d_cmd_out d" "NvAnalyzeURL crack (d_url d) \<noteq> None"
    "d_threads d = 10" "\<not> d_quit d" "d_url d = url" "d_saved d = old"
proof -
  define d0 where "d0 = (case cookie of None \<Rightarrow> Init old | Some c \<Rightarrow> (Init old)\<lparr>d_cookie := c\<rparr>)"
  have f0: "d_tasks d0 = []" "d_no d0 = []" "d_ndata d0 = 0" "d_sion d0 = - 204800" "d_chunk d0 = 204800" "d_tags d0 = []" "d_ji d0 = 0"
    "\<not> d_cmd_out d0" "d_threads d0 = 10" "\<not> d_quit d0" "d_saved d0 = old"
    by (simp_all add: d0_def Init_def split: option.split)
  obtain n where n: "get_UrlFileSize crack ans url (Some (d_cookie d0)) = Some n"
    using assms(1) by (auto simp: Download_def d0_def [symmetric] split: Option.bind_splits)
  obtain st body where http: "GetHttpReturnData crack ans url 0 0 0 None = Some (st, body)"
    using assms(1) n by (auto simp: Download_def Let_def d0_def [symmetric] split: Option.bind_splits)
  let ?d0 = "d0\<lparr>d_size := n, d_url := url, d_path := path\<rparr>"
  have d: "d = ?d0\<lparr>d_counts := Some (replicate (if n < d_chunk ?d0 * 5 then 100 else nat (n div d_chunk ?d0 * 2)) 0),
      d_copy := d_chunk ?d0, d_alive := True, d_detecting := True\<rparr>"
  proof (cases "st = Http_Return_206")
    case False
    then have "d = ?d0\<lparr>d_one_mode := True, d_alive := True, d_detecting := True\<rparr>"
      using assms(1) by (simp add: Download_def Let_def d0_def [symmetric] n http read_none)
    then show ?thesis using assms(2) by simp
  next
    case True
    then show ?thesis using assms(1) by (simp add: Download_def Let_def d0_def [symmetric] n http read_none)
  qed
  have "\<not> n < 1024000 \<Longrightarrow> 5 \<le> n div 204800" by linarith
  then have "\<not> n < 1024000 \<Longrightarrow> 10 \<le> nat (n div 204800 * 2)" by linarith
  then have ten: "\<not> n < 1024000 \<longrightarrow> 10 \<le> nat (n div 204800 * 2)" by blast
  have url: "NvAnalyzeURL crack url \<noteq> None"
    using http by (auto simp: GetHttpReturnData_def http_request_def split: Option.bind_splits)
  show "\<exists>c. 10 \<le> c \<and> d_counts d = Some (replicate c 0)" "d_tasks d = []" "d_no d = []" "d_ndata d = 0" "d_sion d = - 204800" "d_chunk d = 204800"
    "d_copy d = 204800" "d_tags d = []" "d_ji d = 0" "d_alive d" "\<not> d_cmd_out d" "NvAnalyzeURL crack (d_url d) \<noteq> None"
    "d_threads d = 10" "\<not> d_quit d" "d_url d = url" "d_saved d = old"
    using f0 url ten unfolding d by simp_all
qed

lemma start_inv:
  assumes "Download crack ans None url path cookie (Init old) = Some d" "d_size d = int (length content)" "\<not> d_one_mode d"
    and "int (length content) mod 204800 \<noteq> 0"
  shows "dl_inv content d"
proof -
  have "int (length content) \<noteq> 0" by (rule notI) (use assms(4) in simp)
  then have pos: "0 < int (length content)" by linarith
  have div: "\<not> 204800 dvd int (length content)" using assms(4) by (simp only: dvd_eq_mod_eq_0 not_False_eq_True)
  note f = start_facts [OF assms(1,3)]
  have r: "rest d = (0, int (length content))" using f assms(2) by (simp add: rest_def)
  have "accounted content [rest d] d"
    unfolding r using f by (auto simp: accounted_def open_pieces_def inside_def within_def)
  then show ?thesis using f assms(2,3) pos div by (auto simp: dl_inv_def plan_ok_def)
qed


lemma piece_missing:
  assumes inv: "dl_inv content d" and p: "q \<in> set (open_pieces d)" "0 < snd q"
  shows "\<not> d_cmd_out d \<and> \<not> fst (detect_TaskComplete d)"
proof
  show out: "\<not> d_cmd_out d" using inv p by (auto simp: dl_inv_def)
  then obtain cs where cs: "d_counts d = Some cs" using inv by (auto simp: dl_inv_def)
  have acc: "accounted content [rest d] d" using inv by (simp add: dl_inv_def)
  have pos: "\<forall>x \<in> set (map snd (open_pieces d @ [rest d])). 0 \<le> x"
    using accounted_inside [OF acc] by (auto simp: inside_def)
  have "0 < sum_list (map snd (open_pieces d @ [rest d]))"
  proof (rule ccontr)
    assume neg: "\<not> 0 < sum_list (map snd (open_pieces d @ [rest d]))"
    have "0 \<le> sum_list (map snd (open_pieces d @ [rest d]))" by (rule sum_list_nonneg) (use pos in blast)
    then have "sum_list (map snd (open_pieces d @ [rest d])) = 0" using neg by linarith
    then have "snd q = 0" using sum_list_nonneg_0 [OF pos] p(1) by simp
    then show False using p(2) by simp
  qed
  then have "sum_list (take (d_ndata d) cs) < int (length content)" using acc cs unfolding accounted_def by fastforce
  then show "\<not> fst (detect_TaskComplete d)"
    using inv cs by (simp add: detect_TaskComplete_def get_DownloadCount_def dl_inv_def Let_def)
qed



section \<open>Sizes that are multiples\<close>

definition stuck_inv :: "crack \<Rightarrow> int \<Rightarrow> nat \<Rightarrow> download \<Rightarrow> bool" where
  "stuck_inv crack n m d \<longleftrightarrow> NvAnalyzeURL crack (d_url d) \<noteq> None \<and> d_ndata d \<le> m \<and> d_size d = n \<and> d_chunk d = 204800 \<and> d_copy d = 204800 \<and> 204800 dvd d_sion d \<and> d_sion d + 2 * 204800 \<le> n \<and>
     d_tags d = [] \<and> \<not> d_cmd_out d \<and> (\<exists>cs. d_counts d = Some cs \<and> length cs = m) \<and>
     (\<forall>t \<in> set (d_tasks d). \<not> t_stop t \<and> t_x t + t_size t + 1 \<le> n - 204800) \<and> (\<forall>g \<in> set (d_no d). g_x g + g_cnt g \<le> n - 204800)"

lemma stuck_assign:
  assumes "(c :: int) dvd n" "c dvd x" "x + 2 * c \<le> n" "0 < c"
  shows "\<exists>b. call_AssignTasks x c n = (b, min (x + c) (n - 2 * c), c) \<and> c dvd min (x + c) (n - 2 * c)"
proof (cases "x + c < n - c")
  case True
  have "c dvd n - (x + 2 * c)" using assms(1,2) by (simp add: dvd_add dvd_diff)
  moreover have "0 < n - (x + 2 * c)" using True by linarith
  ultimately have "c \<le> n - (x + 2 * c)" by (rule zdvd_imp_le)
  then show ?thesis using True assms(2,3,4) by (auto simp: call_AssignTasks_def min_def)
next
  case False
  then have "min (x + c) (n - 2 * c) = x" using assms(3,4) by (simp add: min_def)
  then show ?thesis using False assms by (auto simp: call_AssignTasks_def)
qed

lemma create_stuck:
  assumes "stuck_inv crack n m d" "x + sz + 1 \<le> n - 204800" "create_task crack ans x sz d = Some d'"
  shows "stuck_inv crack n m d' \<and> d_ndata d' = Suc (d_ndata d) \<and> d_ndata d' \<le> m"
  by (rule create_task_effect [OF assms(3)]) (use assms(1,2) in \<open>auto simp: stuck_inv_def new_task_def\<close>)

text \<open>A round that finds room and no failed piece hands out the next piece but the last, or that one again.\<close>

lemma hand_stuck:
  assumes inv: "stuck_inv crack n m d" and n: "204800 dvd n" and man: "manage_round crack ans d = r"
    and room: "length (d_tasks d) < d_threads d" "\<not> d_quit d" "d_no d = []"
  shows "r = create_task crack ans (min (d_sion d + 204800) (n - 2 * 204800)) 204799
      (d\<lparr>d_sion := min (d_sion d + 204800) (n - 2 * 204800)\<rparr>) \<and>
    stuck_inv crack n m (d\<lparr>d_sion := min (d_sion d + 204800) (n - 2 * 204800)\<rparr>)"
proof -
  let ?x = "min (d_sion d + 204800) (n - 2 * 204800)"
  have d: "204800 dvd d_sion d" "d_sion d + 2 * 204800 \<le> n" "d_tags d = []" "d_chunk d = 204800" "d_copy d = 204800" "d_size d = n"
    using inv by (simp_all add: stuck_inv_def)
  obtain b where call: "call_AssignTasks (d_sion d) 204800 n = (b, ?x, 204800)" "204800 dvd ?x"
    using stuck_assign [OF n d(1,2)] by auto
  have same: "d\<lparr>d_sion := y, d_chunk := 204800\<rparr> = d\<lparr>d_sion := y\<rparr>"
    "d\<lparr>d_sion := y, d_chunk := 204800, d_tags := []\<rparr> = d\<lparr>d_sion := y\<rparr>" for y using d by (cases d; simp)+
  have "manage_round crack ans d = hand_out crack ans (d\<lparr>d_sion := ?x\<rparr>)"
    using room d call(1) by (simp add: manage_round_def decete_TaskFailure_def same(1))
  also have "\<dots> = create_task crack ans ?x 204799 (d\<lparr>d_sion := ?x\<rparr>)"
    using d by (cases "create_task crack ans ?x 204799 (d\<lparr>d_sion := ?x\<rparr>)") (simp_all add: hand_out_def T_X_def same(2))
  finally show ?thesis using man inv call(2) by (simp add: stuck_inv_def)
qed

lemma manage_stuck:
  assumes inv: "stuck_inv crack n m d" and n: "204800 dvd n" and man: "manage_round crack ans d = Some d'"
    and room: "length (d_tasks d) < d_threads d" "\<not> d_quit d"
  shows "stuck_inv crack n m d'"
proof (cases "d_no d")
  case (Cons g gs)
  let ?d = "d\<lparr>d_no := gs\<rparr>"
  have cr: "create_task crack ans (g_x g + g_got g) (g_cnt g - g_got g - 1) ?d = Some d'"
    using man room Cons by (auto simp: manage_round_def decete_TaskFailure_def split: Option.bind_splits)
  have "stuck_inv crack n m ?d" "g_x g + g_cnt g \<le> n - 204800" using inv Cons by (auto simp: stuck_inv_def)
  then show ?thesis using create_stuck [of crack n m ?d, OF _ _ cr] by simp
next
  case Nil
  let ?x = "min (d_sion d + 204800) (n - 2 * 204800)"
  have h: "create_task crack ans ?x 204799 (d\<lparr>d_sion := ?x\<rparr>) = Some d'" "stuck_inv crack n m (d\<lparr>d_sion := ?x\<rparr>)"
    using hand_stuck [OF inv n man room Nil] by simp_all
  show ?thesis using create_stuck [OF h(2) _ h(1)] by simp
qed

text \<open>The thread is made as long as a counter is left for it.\<close>

lemma create_task_some:
  assumes "d_counts d = Some cs" "NvAnalyzeURL crack (d_url d) \<noteq> None"
  shows "create_task crack ans x sz d = None \<longleftrightarrow> length cs \<le> d_ndata d"
proof -
  obtain h p where "NvAnalyzeURL crack (d_url d) = Some (h, p)" using assms(2) by auto
  then have "GetHttpReturnData crack ans (d_url d) sz x 0 (cookie_arg (d_cookie d)) \<noteq> None"
    by (simp add: GetHttpReturnData_def http_request_def)
  then obtain st body where "GetHttpReturnData crack ans (d_url d) sz x 0 (cookie_arg (d_cookie d)) = Some (st, body)" by auto
  then show ?thesis using assms(1) by (simp add: create_task_def)
qed

lemma round_same: "task_round rd t f = (r, t', f', w) \<Longrightarrow> t_x t' = t_x t \<and> t_size t' = t_size t \<and> t_stop t' = t_stop t"
  by (auto simp: task_round_def Let_def split: if_splits option.splits)

lemma work_same:
  assumes "work rd t d = Some (t', d')" "\<not> t_stop t"
  shows "t_x t' = t_x t \<and> t_size t' = t_size t \<and> \<not> t_stop t'"
    and "\<exists>f cs. d' = d\<lparr>d_saved := f, d_counts := cs, d_one_cnt := d_one_cnt d'\<rparr> \<and> map_option length cs = map_option length (d_counts d)"
proof -
  obtain r t1 f w where r: "task_round rd t (d_saved d) = (r, t1, f, w)" by (metis prod_cases4)
  have t1: "t_x t1 = t_x t" "t_size t1 = t_size t" "\<not> t_stop t1" using round_same [OF r] assms(2) by simp_all
  obtain d1 where d1: "(if r = Some False \<or> rd_error rd = 12002 \<or> \<not> rd_ok rd then Some (d\<lparr>d_saved := f\<rparr>)
      else add_count (t_slot t) w (d\<lparr>d_saved := f\<rparr>)) = Some d1" "d' = d1" "t' = t1 \<or> (\<exists>b. t' = end_task b t1)"
    using assms(1) t1 by (auto simp: work_def r Let_def split: option.splits if_splits Option.bind_splits)
  show "t_x t' = t_x t \<and> t_size t' = t_size t \<and> \<not> t_stop t'" using d1(3) t1 by (auto simp: end_task_def split: if_splits)
  show "\<exists>f cs. d' = d\<lparr>d_saved := f, d_counts := cs, d_one_cnt := d_one_cnt d'\<rparr> \<and> map_option length cs = map_option length (d_counts d)"
    using d1 by (auto simp: add_count_def split: if_splits option.splits Option.bind_splits
        intro!: exI [of _ f] exI [of _ "d_counts d1"])
qed

lemma detect_loop_set:
  "detect_loop ts = (gs, ts') \<Longrightarrow> set ts' \<subseteq> set ts \<and> set gs \<subseteq> tag_of ` set ts"
proof (induction ts arbitrary: gs ts')
  case (Cons t ts)
  obtain gs0 ts0 where r: "detect_loop ts = (gs0, ts0)" by fastforce
  then show ?case using Cons.prems Cons.IH [OF r] by (auto split: if_splits)
qed simp

lemma step_stuck:
  assumes "dl_step crack allows errors d d'" and inv: "stuck_inv crack n m d" and n: "204800 dvd n"
  shows "stuck_inv crack n m d'"
  using assms(1)
proof cases
  case (manage ans)
  consider "d_threads d \<le> length (d_tasks d)" | "length (d_tasks d) < d_threads d" "d_quit d" | "length (d_tasks d) < d_threads d" "\<not> d_quit d"
    by linarith
  then show ?thesis
  proof cases
    case 3
    then show ?thesis using manage_stuck [OF inv n manage(3)] by blast
  next
    case 2
    then have "d' = d\<lparr>d_detect_quit := True, d_quit := False, d_alive := False\<rparr>"
      using manage(3) by (simp add: manage_round_def stop_DetectTask_def)
    then show ?thesis using inv by (simp add: stuck_inv_def)
  qed (use manage(3) inv in \<open>simp add: manage_round_def\<close>)
next
  case (work i rd t d1)
  have i: "\<not> t_stop (d_tasks d ! i)" "t_x (d_tasks d ! i) + t_size (d_tasks d ! i) + 1 \<le> n - 204800"
    using inv work(2) by (simp_all add: stuck_inv_def)
  obtain f cs where d1: "d1 = d\<lparr>d_saved := f, d_counts := cs, d_one_cnt := d_one_cnt d1\<rparr>" "map_option length cs = map_option length (d_counts d)"
    using work_same(2) [OF work(5) i(1)] by blast
  have t: "t_x t + t_size t + 1 \<le> n - 204800" "\<not> t_stop t" using work_same(1) [OF work(5) i(1)] i(2) by simp_all
  have f: "d_tasks d1 = d_tasks d" "d_counts d1 = cs" "d_size d1 = d_size d" "d_chunk d1 = d_chunk d" "d_copy d1 = d_copy d"
    "d_sion d1 = d_sion d" "d_tags d1 = d_tags d" "d_cmd_out d1 = d_cmd_out d" "d_no d1 = d_no d" "d_url d1 = d_url d" "d_ndata d1 = d_ndata d"
    by (subst d1(1), simp)+
  have "\<forall>u \<in> set ((d_tasks d)[i := t]). \<not> t_stop u \<and> t_x u + t_size u + 1 \<le> n - 204800"
    using inv t set_update_subset_insert [of "d_tasks d" i t] unfolding stuck_inv_def by blast
  then show ?thesis using inv d1(2) unfolding work(1) by (auto simp: stuck_inv_def f)
next
  case (unopened i)
  let ?t = "work_unopened (d_tasks d ! i)"
  have t: "t_x ?t + t_size ?t + 1 \<le> n - 204800" "\<not> t_stop ?t"
    using inv unopened(2) by (simp_all add: stuck_inv_def work_unopened_def end_task_def)
  have "\<forall>u \<in> set ((d_tasks d)[i := ?t]). \<not> t_stop u \<and> t_x u + t_size u + 1 \<le> n - 204800"
    using inv t set_update_subset_insert [of "d_tasks d" i ?t] unfolding stuck_inv_def by blast
  then show ?thesis using inv unfolding unopened(1) by (simp add: stuck_inv_def)
next
  case detect
  obtain gs ts where r: "detect_loop (d_tasks d) = (gs, ts)" by fastforce
  show ?thesis using inv detect_loop_set [OF r] unfolding detect(1)
    by (auto simp: detect_round_def detect_vtThread_Task_def r stuck_inv_def tag_of_def)
next
  case ask
  then show ?thesis using inv by (simp add: stuck_inv_def)
qed


text \<open>A thread that is running and is not stopped can read all that is left of its answer.\<close>

lemma read_piece:
  assumes "i < length (d_tasks d)" "d_tasks d ! i = t" "running t" "\<not> t_stop t" "t_slot t = Some k" "d_counts d = Some cs" "k < length cs"
    and "errors True 0"
  shows "\<exists>f t'. (dl_step crack allows errors)\<^sup>*\<^sup>* d (d\<lparr>d_saved := f,
      d_counts := Some (cs[k := cs ! k + int (length (t_body t))]), d_tasks := (d_tasks d)[i := t']\<rparr>) \<and>
    length f \<le> max (length (d_saved d)) (t_pos t + length (t_body t)) \<and> t_x t' = t_x t \<and> t_size t' = t_size t"
  using assms
proof (induction "length (t_body t)" arbitrary: d t cs rule: less_induct)
  case less
  note i = less.prems(1,2)
  show ?case
  proof (cases "t_body t = []")
    case True
    have "(d_tasks d)[i := t] = d_tasks d" using i by (simp add: list_update_same_conv)
    then have "d\<lparr>d_saved := d_saved d, d_counts := Some (cs[k := cs ! k + int (length (t_body t))]), d_tasks := (d_tasks d)[i := t]\<rparr> = d"
      using True less.prems(6) by simp
    then show ?thesis by (intro exI [of _ "d_saved d"] exI [of _ t]) simp
  next
    case False
    define bs where "bs = take 2047 (t_body t)"
    have bs: "bs \<noteq> []" "length bs \<le> 2047" "bs = take (length bs) (t_body t)" "length bs \<le> length (t_body t)"
      using False by (simp_all add: bs_def min_def)
    let ?rd = "\<lparr>rd_error = 0, rd_ok = True, rd_data = bs, rd_written = Some (length bs)\<rparr>"
    let ?t = "t\<lparr>t_body := drop (length bs) (t_body t), t_got := t_got t + int (length bs), t_pos := t_pos t + length bs\<rparr>"
    let ?f = "write_at (t_pos t) bs (d_saved d)"
    let ?cs = "cs[k := cs ! k + int (length bs)]"
    let ?d = "d\<lparr>d_saved := ?f, d_counts := Some ?cs, d_tasks := (d_tasks d)[i := ?t]\<rparr>"
    have "work ?rd t d = Some (?t, d\<lparr>d_saved := ?f, d_counts := Some ?cs\<rparr>)"
      using less.prems bs(1) by (simp add: work_def task_round_def add_count_def)
    moreover have "reads errors ?rd (d_tasks d ! i)" using less.prems bs False by (simp add: reads_def)
    ultimately have st: "dl_step crack allows errors d ?d"
      using dl_step.work [of i d errors ?rd ?t "d\<lparr>d_saved := ?f, d_counts := Some ?cs\<rparr>"] less.prems by simp
    have "\<exists>f t'. (dl_step crack allows errors)\<^sup>*\<^sup>* ?d (?d\<lparr>d_saved := f,
        d_counts := Some (?cs[k := ?cs ! k + int (length (t_body ?t))]), d_tasks := (d_tasks ?d)[i := t']\<rparr>) \<and>
      length f \<le> max (length (d_saved ?d)) (t_pos ?t + length (t_body ?t)) \<and> t_x t' = t_x ?t \<and> t_size t' = t_size ?t"
      by (rule less.hyps) (use less.prems bs False in \<open>simp_all add: running_def\<close>)
    then obtain f t' where u: "(dl_step crack allows errors)\<^sup>*\<^sup>* ?d (?d\<lparr>d_saved := f,
        d_counts := Some (?cs[k := ?cs ! k + int (length (t_body ?t))]), d_tasks := (d_tasks ?d)[i := t']\<rparr>)"
      "length f \<le> max (length ?f) (t_pos t + length bs + (length (t_body t) - length bs))" "t_x t' = t_x t" "t_size t' = t_size t"
      by auto
    have sum: "?cs[k := ?cs ! k + int (length (t_body ?t))] = cs[k := cs ! k + int (length (t_body t))]"
      using less.prems(7) bs(4) by (simp add: of_nat_diff)
    have "length f \<le> max (length (d_saved d)) (t_pos t + length (t_body t))"
      using u(2) bs(4) length_write_at [OF bs(1), of "t_pos t" "d_saved d"] by linarith
    moreover have "(dl_step crack allows errors)\<^sup>*\<^sup>* d (d\<lparr>d_saved := f,
        d_counts := Some (cs[k := cs ! k + int (length (t_body t))]), d_tasks := (d_tasks d)[i := t']\<rparr>)"
      using converse_rtranclp_into_rtranclp [of "dl_step crack allows errors", OF st u(1)] unfolding sum by simp
    ultimately show ?thesis using u(3,4) by blast
  qed
qed

section \<open>Two pieces\<close>

text \<open>A file of two pieces: the first piece is handed out again and fetched again.\<close>

lemma fetch_first:
  assumes inv: "stuck_inv crack 409600 m d" "d_sion d = - 204800 \<or> d_sion d = 0" and al: "d_alive d" "allowed allows ans" "errors True 0"
    and room: "length (d_tasks d) < d_threads d" "\<not> d_quit d" "d_no d = []" "d_counts d = Some cs" "d_ndata d < length cs"
    and http: "\<And>rq. closed_range 0 204799 \<in> set (rq_headers rq) \<Longrightarrow> \<exists>a. ans rq = Some a \<and> an_status a = 206 \<and> length (an_body a) = 204800"
  shows "\<exists>f t. (dl_step crack allows errors)\<^sup>*\<^sup>* d (d\<lparr>d_sion := 0, d_ndata := Suc (d_ndata d), d_saved := f,
      d_counts := Some (cs[d_ndata d := 204800]), d_tasks := d_tasks d @ [t]\<rparr>) \<and>
    length f \<le> max (length (d_saved d)) 204800 \<and> t_x t = 0 \<and> t_size t = 204799"
proof -
  have x: "min (d_sion d + 204800) (409600 - 2 * 204800) = 0" using inv(2) by auto
  have man: "manage_round crack ans d = create_task crack ans 0 204799 (d\<lparr>d_sion := 0\<rparr>)"
    using hand_stuck [OF inv(1) _ refl room(1-3), of ans] unfolding x by simp
  obtain h p where hp: "NvAnalyzeURL crack (d_url d) = Some (h, p)" using inv(1) by (auto simp: stuck_inv_def)
  define rq where "rq = \<lparr>rq_host = h, rq_path = p,
    rq_headers = (''Accept: */*'' @ http_eol) # (case cookie_arg (d_cookie d) of None \<Rightarrow> [] | Some c \<Rightarrow> [c]) @ [closed_range 0 204799]\<rparr>"
  have "closed_range 0 204799 \<in> set (rq_headers rq)" by (simp add: rq_def)
  then obtain a where a: "ans rq = Some a" "an_status a = 206" "length (an_body a) = 204800" using http by blast
  have "GetHttpReturnData crack ans (d_url d) 204799 0 0 (cookie_arg (d_cookie d)) = Some (206, an_body a)"
    using a(2,3) a(1) [unfolded rq_def] hp by (simp add: GetHttpReturnData_def http_request_def range_header_def Http_Return_206_def)
  then have cr: "manage_round crack ans d = Some (d\<lparr>d_sion := 0, d_counts := Some (cs[d_ndata d := 0]), d_ndata := Suc (d_ndata d),
      d_tasks := d_tasks d @ [new_task 0 204799 (Some (d_ndata d)) True (an_body a)]\<rparr>)" (is "_ = Some ?d1")
    using room unfolding man by (simp add: create_task_def Http_Return_206_def)
  have st: "dl_step crack allows errors d ?d1" by (rule dl_step.manage [OF al(1,2) cr])
  let ?t = "new_task 0 204799 (Some (d_ndata d)) True (an_body a)"
  let ?k = "d_ndata d"
  have t: "running ?t" "\<not> t_stop ?t" "t_slot ?t = Some ?k" "t_body ?t = an_body a" "t_pos ?t = 0" "t_x ?t = 0" "t_size ?t = 204799"
    by (simp_all add: new_task_def running_def)
  have "\<exists>f t'. (dl_step crack allows errors)\<^sup>*\<^sup>* ?d1 (?d1\<lparr>d_saved := f,
      d_counts := Some ((cs[?k := 0])[?k := cs[?k := 0] ! ?k + int (length (t_body ?t))]),
      d_tasks := (d_tasks ?d1)[length (d_tasks d) := t']\<rparr>) \<and>
    length f \<le> max (length (d_saved ?d1)) (t_pos ?t + length (t_body ?t)) \<and> t_x t' = t_x ?t \<and> t_size t' = t_size ?t"
    by (rule read_piece) (use t room(5) al(3) in \<open>simp_all\<close>)
  then obtain f t' where u: "(dl_step crack allows errors)\<^sup>*\<^sup>* ?d1 (?d1\<lparr>d_saved := f, d_counts := Some (cs[?k := 204800]),
      d_tasks := d_tasks d @ [t']\<rparr>)" "length f \<le> max (length (d_saved d)) 204800" "t_x t' = 0" "t_size t' = 204799"
    using t a(3) room(5) by auto
  show ?thesis using converse_rtranclp_into_rtranclp [of "dl_step crack allows errors", OF st u(1)] u(2-4)
    by (intro exI [of _ f] exI [of _ t']) simp
qed

text \<open>For a file of two pieces of exactly 204800 bytes, whose server answers the request for the first piece with its
  204800 bytes, a run exists after which \<open>detect_TaskComplete\<close>, which tells the caller when to stop showing progress,
  answers that the download is complete, although no thread was ever asked for the second piece and the saved file is no
  longer than the first piece (or than what was in it before): the first piece was fetched twice and counted twice.\<close>
theorem aligned_shown_complete:
  assumes "Download crack ans0 None url path cookie (Init old) = Some d" "\<not> d_one_mode d" "d_size d = 409600"
    and "allowed allows ans" "errors True 0"
    and "\<And>rq. closed_range 0 204799 \<in> set (rq_headers rq) \<Longrightarrow> \<exists>a. ans rq = Some a \<and> an_status a = 206 \<and> length (an_body a) = 204800"
  shows "\<exists>d'. (dl_step crack allows errors)\<^sup>*\<^sup>* d d' \<and> fst (detect_TaskComplete d') \<and>
    (\<forall>t \<in> set (d_tasks d'). t_x t + t_size t + 1 \<le> 204800) \<and> length (d_saved d') \<le> max (length old) 204800"
proof -
  note f = start_facts [OF assms(1,2)]
  obtain c where c: "10 \<le> c" "d_counts d = Some (replicate c 0)" using f(1) by blast
  have start: "stuck_inv crack 409600 c d" using f c assms(3) by (simp add: stuck_inv_def)
  obtain f1 t1 where u1: "(dl_step crack allows errors)\<^sup>*\<^sup>* d (d\<lparr>d_sion := 0, d_ndata := 1, d_saved := f1,
      d_counts := Some ((replicate c 0)[0 := 204800]), d_tasks := [t1]\<rparr>)"
    "length f1 \<le> max (length old) 204800" "t_x t1 = 0" "t_size t1 = 204799"
  proof -
    have "\<exists>f t. (dl_step crack allows errors)\<^sup>*\<^sup>* d (d\<lparr>d_sion := 0, d_ndata := Suc (d_ndata d), d_saved := f,
        d_counts := Some ((replicate c 0)[d_ndata d := 204800]), d_tasks := d_tasks d @ [t]\<rparr>) \<and>
      length f \<le> max (length (d_saved d)) 204800 \<and> t_x t = 0 \<and> t_size t = 204799"
      by (rule fetch_first [where ans = ans]) (use start f c assms(4,5,6) in simp_all)
    then show ?thesis using that f by auto
  qed
  let ?d1 = "d\<lparr>d_sion := 0, d_ndata := 1, d_saved := f1, d_counts := Some ((replicate c 0)[0 := 204800]), d_tasks := [t1]\<rparr>"
  have inv: "stuck_inv crack 409600 c ?d1"
    using u1(1) by (induction rule: rtranclp_induct) (use start step_stuck in \<open>fastforce+\<close>)
  have "\<exists>f t. (dl_step crack allows errors)\<^sup>*\<^sup>* ?d1 (?d1\<lparr>d_sion := 0, d_ndata := Suc (d_ndata ?d1), d_saved := f,
      d_counts := Some (((replicate c 0)[0 := 204800])[d_ndata ?d1 := 204800]), d_tasks := d_tasks ?d1 @ [t]\<rparr>) \<and>
    length f \<le> max (length (d_saved ?d1)) 204800 \<and> t_x t = 0 \<and> t_size t = 204799"
    by (rule fetch_first [where ans = ans and m = c]) (use inv f c(1) assms(4,5,6) in simp_all)
  then obtain f2 t2 where u2: "(dl_step crack allows errors)\<^sup>*\<^sup>* ?d1 (d\<lparr>d_sion := 0, d_ndata := 2, d_saved := f2,
      d_counts := Some (((replicate c 0)[0 := 204800])[1 := 204800]), d_tasks := [t1, t2]\<rparr>)"
    "length f2 \<le> max (length f1) 204800" "t_x t2 = 0" "t_size t2 = 204799"
    by (auto simp: numeral_2_eq_2)
  let ?d2 = "d\<lparr>d_sion := 0, d_ndata := 2, d_saved := f2, d_counts := Some (((replicate c 0)[0 := 204800])[1 := 204800]), d_tasks := [t1, t2]\<rparr>"
  have "take 2 (((replicate c 0)[0 := 204800])[1 := 204800]) = [204800, 204800 :: int]"
    using c(1) by (cases c; cases "c - 1") (auto simp: numeral_2_eq_2)
  then have "fst (detect_TaskComplete ?d2)"
    using f assms(3) by (simp add: detect_TaskComplete_def get_DownloadCount_def Let_def)
  moreover have "(dl_step crack allows errors)\<^sup>*\<^sup>* d ?d2" using u1(1) u2(1) by (rule rtranclp_trans)
  ultimately show ?thesis using u1(2-4) u2(2-4) by (intro exI [of _ ?d2]) auto
qed

section \<open>A download\<close>

text \<open>The texts of the ranges tell the ranges apart.\<close>

lemma fmt_d_no_dash: "0 \<le> x \<Longrightarrow> CHR ''-'' \<notin> set (fmt_d x)"
proof
  assume "0 \<le> x" "CHR ''-'' \<in> set (fmt_d x)"
  then obtain d where "d < 10" "CHR ''-'' = digit_char d" using dec_digits_chars [of "CHR ''-''" "nat x"] by (auto simp: fmt_d_def)
  then show False using digit_char_facts(3) [of d] by simp
qed

lemma same_until: "c \<notin> set a \<Longrightarrow> c \<notin> set b \<Longrightarrow> a @ c # r = b @ c # s \<Longrightarrow> a = b \<and> r = s"
proof (induction a arbitrary: b)
  case Nil
  then show ?case by (cases b) auto
next
  case (Cons x a)
  then show ?case by (cases b) auto
qed

lemma fmt_d_inj: "0 \<le> x \<Longrightarrow> fmt_d x = fmt_d y \<Longrightarrow> x = y"
proof -
  assume x: "0 \<le> x" and eq: "fmt_d x = fmt_d y"
  have y: "0 \<le> y"
  proof (rule ccontr)
    assume "\<not> 0 \<le> y"
    then have "CHR ''-'' \<in> set (fmt_d y)" by (simp add: fmt_d_def)
    then show False using fmt_d_no_dash [OF x] eq by simp
  qed
  have "dec_digits (nat x) = dec_digits (nat y)" using eq x y by (simp add: fmt_d_def)
  then have "int (nat x) = int (nat y)" using digits_value_dec by metis
  then show "x = y" using x y by simp
qed

lemma closed_range_inj:
  assumes "closed_range x y = closed_range a b" "0 \<le> x" "0 \<le> a" "0 \<le> b"
  shows "x = a \<and> y = b"
proof -
  have "fmt_d x = fmt_d a \<and> fmt_d y @ http_eol = fmt_d b @ http_eol"
    using assms(1) by (intro same_until [of "CHR ''-''"] fmt_d_no_dash assms(2,3)) (simp add: closed_range_def)
  then show ?thesis using fmt_d_inj assms(2,4) by (metis append_same_eq)
qed

lemma open_not_closed:
  assumes "0 \<le> x" "0 \<le> a"
  shows "open_range x \<noteq> closed_range a b"
proof
  assume eq: "open_range x = closed_range a b"
  have "fmt_d x = fmt_d a \<and> http_eol = fmt_d b @ http_eol"
    using eq by (intro same_until [of "CHR ''-''"] fmt_d_no_dash assms) (simp add: open_range_def closed_range_def)
  then show False by (simp add: fmt_d_def split: if_splits)
qed

text \<open>A server with three bytes, and its answers to the whole range and to any other request.\<close>

definition demo_bytes :: "byte list" where "demo_bytes = [7, 8, 9]"

definition demo_crack :: crack where "demo_crack url = Some (''host'', ''/file'')"

definition demo_whole :: answers where
  "demo_whole rq = Some \<lparr>an_status = 206, an_length = Some 3, an_body = demo_bytes\<rparr>"

definition demo_range :: answers where
  "demo_range rq = (if rq_headers rq = [''Accept: */*'' @ http_eol, closed_range 0 2]
     then Some \<lparr>an_status = 206, an_length = None, an_body = demo_bytes\<rparr> else None)"

definition demo_allows :: "request \<Rightarrow> answer \<Rightarrow> bool" where
  "demo_allows rq a \<longleftrightarrow> demo_range rq = Some a"

definition demo_errors :: "bool \<Rightarrow> int \<Rightarrow> bool" where "demo_errors ok e \<longleftrightarrow> e = 0"

lemma demo_honest: "honest demo_allows demo_bytes"
  unfolding honest_def
proof (intro allI impI conjI)
  fix rq a and x y :: int
  assume "demo_allows rq a \<and> an_status a = 206 \<and> 0 \<le> x"
  then have h: "rq_headers rq = [''Accept: */*'' @ http_eol, closed_range 0 2]" "an_body a = demo_bytes" and x: "0 \<le> x"
    by (auto simp: demo_allows_def demo_range_def split: if_splits)
  have no: "open_range x \<noteq> ''Accept: */*'' @ http_eol" "closed_range x y \<noteq> ''Accept: */*'' @ http_eol"
    by (simp_all add: open_range_def closed_range_def)
  show "\<exists>k. an_body a = take k (drop (nat x) demo_bytes)" if "open_range x \<in> set (rq_headers rq)"
    using that h(1) no(1) open_not_closed [OF x, of 0 2] by simp
  show "\<exists>k. an_body a = take k (take (nat (y + 1 - x)) (drop (nat x) demo_bytes))" if "closed_range x y \<in> set (rq_headers rq)"
  proof -
    have "x = 0 \<and> y = 2" using that h(1) no(2) closed_range_inj [of x y 0 2] x by auto
    then show ?thesis by (intro exI [of _ 3]) (simp add: h(2) demo_bytes_def)
  qed
qed

definition demo_rd :: "byte list \<Rightarrow> reading" where
  "demo_rd bs = \<lparr>rd_error = 0, rd_ok = True, rd_data = bs, rd_written = Some (length bs)\<rparr>"

definition demo_work :: "byte list \<Rightarrow> download \<Rightarrow> download" where
  "demo_work bs d = (case work (demo_rd bs) (d_tasks d ! 0) d of
     Some (t, d') \<Rightarrow> d'\<lparr>d_tasks := (d_tasks d')[0 := t]\<rparr> | None \<Rightarrow> d)"

definition demo0 :: download where "demo0 = the (Download demo_crack demo_whole None ''url'' ''file'' None (Init []))"
definition demo1 :: download where "demo1 = the (manage_round demo_crack demo_range demo0)"
definition demo2 :: download where "demo2 = demo_work demo_bytes demo1"
definition demo3 :: download where "demo3 = demo_work [] demo2"
definition demo4 :: download where "demo4 = the (manage_round demo_crack demo_range demo3)"

lemma demo_step:
  assumes "0 < length (d_tasks d)" "running (d_tasks d ! 0)" "reads demo_errors (demo_rd bs) (d_tasks d ! 0)"
    and "\<not> Option.is_none (work (demo_rd bs) (d_tasks d ! 0) d)"
  shows "dl_step demo_crack demo_allows demo_errors d (demo_work bs d)"
proof -
  obtain t d' where "work (demo_rd bs) (d_tasks d ! 0) d = Some (t, d')"
    using assms(4) by (cases "work (demo_rd bs) (d_tasks d ! 0) d") auto
  then show ?thesis using dl_step.work [OF assms(1-3)] by (simp add: demo_work_def)
qed

lemma demo_start:
  "Download demo_crack demo_whole None ''url'' ''file'' None (Init []) = Some demo0" "d_size demo0 = int (length demo_bytes)"
  "\<not> d_one_mode demo0"
proof -
  have "\<not> Option.is_none (Download demo_crack demo_whole None ''url'' ''file'' None (Init []))" by code_simp
  then show "Download demo_crack demo_whole None ''url'' ''file'' None (Init []) = Some demo0"
    by (cases "Download demo_crack demo_whole None ''url'' ''file'' None (Init [])") (simp_all add: demo0_def)
  show "d_size demo0 = int (length demo_bytes)" "\<not> d_one_mode demo0" by code_simp+
qed

lemma demo_run: "(clean_step demo_crack demo_allows demo_errors)\<^sup>*\<^sup>* demo0 demo4"
proof -
  have al: "allowed demo_allows demo_range" by (simp add: allowed_def demo_allows_def)
  have c: "clean demo0" "clean demo1" "clean demo2" "clean demo3" by code_simp+
  have m: "d_alive demo0" "\<not> Option.is_none (manage_round demo_crack demo_range demo0)"
    "d_alive demo3" "\<not> Option.is_none (manage_round demo_crack demo_range demo3)" by code_simp+
  have "manage_round demo_crack demo_range demo0 = Some demo1" "manage_round demo_crack demo_range demo3 = Some demo4"
    using m by (auto simp: demo1_def demo4_def Option.is_none_def)
  then have s0: "dl_step demo_crack demo_allows demo_errors demo0 demo1" and s3: "dl_step demo_crack demo_allows demo_errors demo3 demo4"
    using dl_step.manage m al by blast+
  have s1: "dl_step demo_crack demo_allows demo_errors demo1 demo2" unfolding demo2_def by (rule demo_step; code_simp)
  have s2: "dl_step demo_crack demo_allows demo_errors demo2 demo3" unfolding demo3_def by (rule demo_step; code_simp)
  let ?step = "clean_step demo_crack demo_allows demo_errors"
  have "?step demo0 demo1" "?step demo1 demo2" "?step demo2 demo3" "?step demo3 demo4"
    using s0 s1 s2 s3 c by (simp_all add: clean_step_def)
  then show ?thesis
    by (metis (no_types, lifting) converse_rtranclp_into_rtranclp r_into_rtranclp)
qed


text \<open>
  The same server, when the request for the piece is not answered; then the thread which hands out pieces and the one
  which looks after the threads make another round each.
\<close>

definition demo_refused :: download where "demo_refused = the (manage_round demo_crack (\<lambda>_. None) demo0)"
definition demo_later :: download where "demo_later = detect_round (the (manage_round demo_crack (\<lambda>_. None) demo_refused))"

lemma demo_refused_run:
  "(clean_step demo_crack demo_allows demo_errors)\<^sup>*\<^sup>* demo0 demo_refused"
  "(clean_step demo_crack demo_allows demo_errors)\<^sup>*\<^sup>* demo_refused demo_later"
proof -
  let ?step = "clean_step demo_crack demo_allows demo_errors"
  let ?d = "the (manage_round demo_crack (\<lambda>_. None) demo_refused)"
  have al: "allowed demo_allows (\<lambda>_. None)" by (simp add: allowed_def)
  have e: "d_alive demo0" "\<not> Option.is_none (manage_round demo_crack (\<lambda>_. None) demo0)" "clean demo0"
    "d_alive demo_refused" "\<not> Option.is_none (manage_round demo_crack (\<lambda>_. None) demo_refused)" "clean demo_refused"
    "d_detecting ?d" "clean ?d" by code_simp+
  have "manage_round demo_crack (\<lambda>_. None) demo0 = Some demo_refused" "manage_round demo_crack (\<lambda>_. None) demo_refused = Some ?d"
    using e by (auto simp: demo_refused_def Option.is_none_def)
  then have "?step demo0 demo_refused" "?step demo_refused ?d" using al e by (auto simp: clean_step_def intro: dl_step.manage)
  moreover have "?step ?d demo_later" using e by (auto simp: clean_step_def demo_later_def intro: dl_step.detect)
  ultimately show "?step\<^sup>*\<^sup>* demo0 demo_refused" "?step\<^sup>*\<^sup>* demo_refused demo_later" by (blast, auto intro: rtranclp_trans)
qed


definition demo_large :: answers where
  "demo_large rq = Some \<lparr>an_status = 206, an_length = Some 409600, an_body = []\<rparr>"

definition demo_aligned :: download where "demo_aligned = the (Download demo_crack demo_large None ''url'' ''file'' None (Init []))"

definition demo_first :: answers where
  "demo_first rq = (if closed_range 0 204799 \<in> set (rq_headers rq)
     then Some \<lparr>an_status = 206, an_length = None, an_body = replicate 204800 7\<rparr> else None)"

definition demo_handed :: download where "demo_handed = the (manage_round demo_crack (\<lambda>_. None) demo_aligned)"

lemma demo_aligned_facts:
  "Download demo_crack demo_large None ''url'' ''file'' None (Init []) = Some demo_aligned" "\<not> d_one_mode demo_aligned"
  "d_size demo_aligned mod 204800 = 0" "0 < d_size demo_aligned" "d_size demo_aligned = 409600"
proof -
  have "\<not> Option.is_none (Download demo_crack demo_large None ''url'' ''file'' None (Init []))" by code_simp
  then show "Download demo_crack demo_large None ''url'' ''file'' None (Init []) = Some demo_aligned"
    by (cases "Download demo_crack demo_large None ''url'' ''file'' None (Init [])") (simp_all add: demo_aligned_def)
  show "\<not> d_one_mode demo_aligned" "d_size demo_aligned mod 204800 = 0" "0 < d_size demo_aligned" "d_size demo_aligned = 409600"
    by code_simp+
qed


theorem aligned_shown_complete_witness:
  "\<exists>d'. (dl_step demo_crack (\<lambda>rq a. demo_first rq = Some a) demo_errors)\<^sup>*\<^sup>* demo_aligned d' \<and> fst (detect_TaskComplete d') \<and>
    length (d_saved d') \<le> 204800"
proof -
  have al: "allowed (\<lambda>rq a. demo_first rq = Some a) demo_first" "demo_errors True 0" by (simp_all add: allowed_def demo_errors_def)
  have body: "\<exists>a. demo_first rq = Some a \<and> an_status a = 206 \<and> length (an_body a) = 204800"
    if "closed_range 0 204799 \<in> set (rq_headers rq)" for rq using that by (simp add: demo_first_def)
  show ?thesis using aligned_shown_complete [where errors = demo_errors, OF demo_aligned_facts(1,2,5) al body] by auto
qed

end
