(* ===== verification/GendoResume.thy ===== *)
theory GendoResume imports GendoDownloadSteps begin

text \<open>
  Taking up a download again: the text that is kept of a stopped download is read back as it was written, its pieces are
  handed out first, and what comes after them depends on where the last of them ends.
\<close>

section \<open>The text\<close>

lemma scan_d_trim: "scan_d (dropWhile isspace s) old = scan_d s old"
  by (simp add: scan_d_def)

lemma scan_line:
  assumes "0 \<le> v" "v < 2 ^ 63"
  shows "scan_d (line_d v @ s) old = (v, dropWhile isspace s)"
proof -
  let ?r = "CHR 0x0A # s"
  have l: "line_d v @ s = dec_digits (nat v) @ ?r" using assms(1) by (simp add: line_d_def fmt_d_def)
  have n: "10 \<le> digit_val (hd ?r)" by code_simp
  have v: "strtol 10 (dec_digits (nat v) @ ?r) = (v, ?r)" using strtol_dec [of ?r "nat v"] n assms by simp
  obtain d where d: "d < 10" "hd (dec_digits (nat v)) = digit_char d" using dec_digits_hd by blast
  obtain y ys where ys: "dec_digits (nat v) = y # ys" by (cases "dec_digits (nat v)") auto
  have "\<not> isspace y" using d ys digit_char_facts(2) [OF d(1)] by simp
  then have t: "dropWhile isspace (dec_digits (nat v) @ ?r) = dec_digits (nat v) @ ?r" by (simp add: ys)
  have sp: "isspace (CHR 0x0A)" by code_simp
  have ne: "?r \<noteq> dec_digits (nat v) @ ?r" by simp
  show ?thesis unfolding scan_d_def l t Let_def v prod.case using ne sp by simp
qed

definition tag_fits :: "tag \<Rightarrow> bool" where
  "tag_fits g \<longleftrightarrow> (\<forall>v \<in> {g_x g, g_cnt g, g_got g}. 0 \<le> v \<and> v < 2 ^ 63)"

lemma read_tags_trim: "read_tags n (dropWhile isspace s) g = read_tags n s g"
  by (cases n) (simp_all add: scan_d_trim)

lemma read_tags_text:
  "\<forall>g \<in> set gs. tag_fits g \<Longrightarrow> read_tags (length gs) (concat (map tag_text gs) @ s) g0 = gs"
proof (induction gs arbitrary: g0)
  case (Cons g gs)
  let ?rest = "concat (map tag_text gs) @ s"
  have f: "0 \<le> g_x g" "g_x g < 2 ^ 63" "0 \<le> g_cnt g" "g_cnt g < 2 ^ 63" "0 \<le> g_got g" "g_got g < 2 ^ 63"
    using Cons.prems by (simp_all add: tag_fits_def)
  have t: "concat (map tag_text (g # gs)) @ s = line_d (g_x g) @ line_d (g_cnt g) @ line_d (g_got g) @ ?rest"
    by (simp add: tag_text_def)
  have "read_tags (length (g # gs)) (concat (map tag_text (g # gs)) @ s) g0 = g # read_tags (length gs) ?rest g"
    unfolding t length_Cons read_tags.simps scan_line [OF f(1,2)] Let_def prod.case scan_d_trim scan_line [OF f(3,4)] scan_line [OF f(5,6)]
    by (cases g) (simp add: read_tags_trim)
  then show ?case using Cons by simp
qed simp

lemma kept_text_read:
  assumes "\<forall>g \<in> set (d_tags d). tag_fits g" "length (d_tags d) < 2 ^ 31" "fst (get_DownloadCount d) = n" "0 \<le> n" "n < 2 ^ 63"
  shows "read_DwonloadFile (Some (fst (create_DwonloadFile d))) d0 = d0\<lparr>d_ji := n, d_tags := sort_key g_x (d_tags d0 @ d_tags d)\<rparr>"
proof -
  obtain d1 where d1: "get_DownloadCount d = (n, d1)" using assms(3) by (cases "get_DownloadCount d") simp
  then have tags: "d_tags d1 = d_tags d" by (auto simp: get_DownloadCount_def Let_def split: option.splits)
  let ?m = "int (length (d_tags d))"
  have m: "0 \<le> ?m" "?m < 2 ^ 63" "c_int ?m = ?m" using assms(2) by (auto simp: c_int_id)
  have kept: "fst (create_DwonloadFile d) = line_d ?m @ line_d n @ concat (map tag_text (d_tags d)) @ []"
    by (simp add: create_DwonloadFile_def d1 tags)
  show ?thesis
    unfolding kept read_DwonloadFile_def option.case scan_line [OF m(1,2)] Let_def prod.case scan_d_trim scan_line [OF assms(4,5)]
      read_tags_trim m(3) nat_int read_tags_text [OF assms(1)] ..
qed

section \<open>The pieces that were put by\<close>

fun rounds :: "crack \<Rightarrow> answers \<Rightarrow> nat \<Rightarrow> download \<Rightarrow> download option" where
  "rounds crack ans 0 d = Some d"
| "rounds crack ans (Suc n) d = do { d \<leftarrow> manage_round crack ans d; rounds crack ans n d }"

lemma create_task_works:
  assumes "d_counts d = Some cs" "d_ndata d < length cs" "NvAnalyzeURL crack (d_url d) \<noteq> None"
  shows "\<exists>cs' t. create_task crack ans x sz d = Some (d\<lparr>d_counts := Some cs', d_ndata := Suc (d_ndata d), d_tasks := d_tasks d @ [t]\<rparr>) \<and>
    length cs' = length cs \<and> t_x t = x \<and> t_size t = sz \<and> \<not> t_stop t"
proof -
  obtain h p where "NvAnalyzeURL crack (d_url d) = Some (h, p)" using assms(3) by auto
  then have "GetHttpReturnData crack ans (d_url d) sz x 0 (cookie_arg (d_cookie d)) \<noteq> None"
    by (simp add: GetHttpReturnData_def http_request_def)
  then obtain st body where "GetHttpReturnData crack ans (d_url d) sz x 0 (cookie_arg (d_cookie d)) = Some (st, body)" by auto
  then show ?thesis using assms(1,2)
    by (intro exI [of _ "cs[d_ndata d := 0]"] exI [of _ "new_task x sz (Some (d_ndata d)) (st = Http_Return_206) body"])
      (simp add: create_task_def new_task_def)
qed

definition g_end :: "tag \<Rightarrow> int" where "g_end g = g_x g + g_cnt g"

lemma hand_out_tags:
  assumes "d_tags d = gs" "gs \<noteq> []" "fst (g_left (last gs)) \<notin> {T_X, T_Z}" "d_no d = []" "\<not> d_quit d" "d_counts d = Some cs"
    and "length (d_tasks d) + length gs \<le> d_threads d" "d_ndata d + length gs \<le> length cs" "NvAnalyzeURL crack (d_url d) \<noteq> None"
  shows "\<exists>d'. rounds crack ans (length gs) d = Some d' \<and>
    map (\<lambda>t. (t_x t, t_size t)) (d_tasks d') =
      map (\<lambda>t. (t_x t, t_size t)) (d_tasks d) @ map (\<lambda>g. (fst (g_left g), snd (g_left g) - 1)) gs \<and>
    d_tags d' = [] \<and> d_chunk d' = d_copy d \<and> d_sion d' + d_copy d = g_end (last gs)"
  using assms
proof (induction gs arbitrary: d cs)
  case (Cons g gs)
  let ?x = "g_x g + g_got g" and ?cnt = "g_cnt g - g_got g"
  let ?d = "d\<lparr>d_sion := ?x, d_chunk := ?cnt, d_tags := gs\<rparr>"
  have "d_counts ?d = Some cs" "d_ndata ?d < length cs" "NvAnalyzeURL crack (d_url ?d) \<noteq> None" using Cons.prems by simp_all
  then obtain cs' t where cr: "create_task crack ans ?x (?cnt - 1) ?d =
      Some (?d\<lparr>d_counts := Some cs', d_ndata := Suc (d_ndata ?d), d_tasks := d_tasks ?d @ [t]\<rparr>)" (is "_ = Some ?d1")
    and t: "length cs' = length cs" "t_x t = ?x" "t_size t = ?cnt - 1"
    using create_task_works [of ?d cs crack ans ?x "?cnt - 1"] by blast
  let ?d2 = "if gs = [] then ?d1\<lparr>d_sion := ?x - d_copy d + ?cnt, d_chunk := d_copy d\<rparr> else ?d1"
  have "hand_out crack ans d = Some ?d2"
    using Cons.prems(1,3) cr by (cases "gs = []") (simp_all add: hand_out_def T_X_def T_Z_def g_left_def Let_def)
  then have m: "manage_round crack ans d = Some ?d2"
    using Cons.prems by (simp add: manage_round_def decete_TaskFailure_def)
  show ?case
  proof (cases "gs = []")
    case True
    have "rounds crack ans (length (g # gs)) d = Some ?d2" using m True by simp
    then show ?thesis using True t by (intro exI [of _ ?d2]) (simp add: g_left_def g_end_def)
  next
    case False
    have "\<exists>d'. rounds crack ans (length gs) ?d2 = Some d' \<and>
        map (\<lambda>t. (t_x t, t_size t)) (d_tasks d') =
          map (\<lambda>t. (t_x t, t_size t)) (d_tasks ?d2) @ map (\<lambda>g. (fst (g_left g), snd (g_left g) - 1)) gs \<and>
        d_tags d' = [] \<and> d_chunk d' = d_copy ?d2 \<and> d_sion d' + d_copy ?d2 = g_end (last gs)"
      by (rule Cons.IH [of ?d2 cs']) (use Cons.prems False t in simp_all)
    then show ?thesis using m False t by (simp add: g_left_def)
  qed
qed simp

section \<open>Starting again\<close>

lemma resume_facts:
  assumes "Download crack ans (Some s) url path cookie (Init old) = Some d" "\<not> d_one_mode d"
    and read: "\<And>d0. read_DwonloadFile (Some s) d0 = d0\<lparr>d_ji := k, d_tags := sort_key g_x (d_tags d0 @ gs)\<rparr>"
  shows "\<exists>c. d_counts d = Some (replicate c 0) \<and> 10 \<le> c" "d_tasks d = []" "d_no d = []" "d_ndata d = 0" "d_copy d = 204800"
    "d_tags d = sort_key g_x gs" "d_ji d = k" "\<not> d_quit d" "d_threads d = 10" "\<not> d_cmd_out d" "NvAnalyzeURL crack (d_url d) \<noteq> None"
proof -
  define d0 where "d0 = (case cookie of None \<Rightarrow> Init old | Some c \<Rightarrow> (Init old)\<lparr>d_cookie := c\<rparr>)"
  have f0: "d_tasks d0 = []" "d_no d0 = []" "d_ndata d0 = 0" "d_chunk d0 = 204800" "d_tags d0 = []" "\<not> d_quit d0" "d_threads d0 = 10"
    "\<not> d_cmd_out d0"
    by (simp_all add: d0_def Init_def split: option.split)
  obtain n where n: "get_UrlFileSize crack ans url (Some (d_cookie d0)) = Some n"
    using assms(1) by (auto simp: Download_def d0_def [symmetric] split: Option.bind_splits)
  obtain st body where http: "GetHttpReturnData crack ans url 0 0 0 None = Some (st, body)"
    using assms(1) n by (auto simp: Download_def Let_def d0_def [symmetric] split: Option.bind_splits)
  let ?d0 = "d0\<lparr>d_size := n, d_url := url, d_path := path, d_ji := k, d_tags := sort_key g_x gs\<rparr>"
  let ?c = "if n < 1024000 then 100 else nat (n div 204800 * 2)"
  have d: "d = ?d0\<lparr>d_counts := Some (replicate ?c 0), d_copy := 204800, d_alive := True, d_detecting := True\<rparr>"
  proof (cases "st = Http_Return_206")
    case False
    then have "d = ?d0\<lparr>d_one_mode := True, d_alive := True, d_detecting := True\<rparr>"
      using assms(1) by (simp add: Download_def Let_def d0_def [symmetric] n http read f0(5))
    then show ?thesis using assms(2) by simp
  next
    case True
    then show ?thesis using assms(1)
      by (cases "n < 1024000") (simp_all add: Download_def Let_def d0_def [symmetric] n http read f0(4,5))
  qed
  have "\<not> n < 1024000 \<Longrightarrow> 5 \<le> n div 204800" by linarith
  then have c: "10 \<le> ?c" by (auto simp: nat_le_iff)
  have url: "NvAnalyzeURL crack url \<noteq> None"
    using http by (auto simp: GetHttpReturnData_def http_request_def split: Option.bind_splits)
  have "d_counts d = Some (replicate ?c 0)" by (simp add: d)
  then show "\<exists>c. d_counts d = Some (replicate c 0) \<and> 10 \<le> c" using c by blast
  show "d_tasks d = []" "d_no d = []" "d_ndata d = 0" "d_copy d = 204800" "d_tags d = sort_key g_x gs" "d_ji d = k" "\<not> d_quit d"
    "d_threads d = 10" "\<not> d_cmd_out d" "NvAnalyzeURL crack (d_url d) \<noteq> None"
    using f0 url unfolding d by simp_all
qed

text \<open>
  A download that was stopped, with pieces whose numbers fit into 64 bits. The place where a piece is taken up is
  compared with the marks \<open>T_X\<close> and \<open>T_Z\<close>, so what follows depends on whether the last piece is taken up at one of them.
\<close>

definition put_by :: "tag list \<Rightarrow> int \<Rightarrow> download \<Rightarrow> bool" where
  "put_by gs k d \<longleftrightarrow> d_tags d = gs \<and> gs \<noteq> [] \<and> length gs \<le> 10 \<and> (\<forall>g \<in> set gs. tag_fits g) \<and>
     fst (get_DownloadCount d) = k \<and> 0 \<le> k \<and> k < 2 ^ 63"

definition last_start :: "tag list \<Rightarrow> int" where "last_start gs = fst (g_left (last (sort_key g_x gs)))"
definition last_length :: "tag list \<Rightarrow> int" where "last_length gs = snd (g_left (last (sort_key g_x gs)))"

definition stopped_with :: "tag list \<Rightarrow> int \<Rightarrow> download \<Rightarrow> bool" where
  "stopped_with gs k d \<longleftrightarrow> put_by gs k d \<and> last_start gs \<notin> {T_X, T_Z}"

lemma stopped_read:
  assumes "put_by gs k d"
  shows "read_DwonloadFile (Some (fst (create_DwonloadFile d))) d0 = d0\<lparr>d_ji := k, d_tags := sort_key g_x (d_tags d0 @ gs)\<rparr>"
  using assms kept_text_read [of d k d0] by (simp add: put_by_def)

text \<open>C7: a download that was stopped is taken up where it was: the text that is kept gives back how much was fetched and every
  piece that was not finished, and the first rounds hand out exactly what is left of these pieces, in the order of their
  places; after that the next new piece starts where the last of them ends. This is for one to ten pieces put by, with
  numbers that are not negative and below \<open>2 ^ 63\<close>, and a last piece that is taken up neither at place 1 nor at place 3 of
  the file, which the code takes for its marks.\<close>
theorem resume_plan:
  assumes "stopped_with gs k d" "\<not> d_one_mode d0"
    and "Download crack ans (Some (fst (create_DwonloadFile d))) url path cookie (Init old) = Some d0"
  shows "d_ji d0 = k \<and> (\<exists>d1. rounds crack ans' (length gs) d0 = Some d1 \<and>
    map (\<lambda>t. (t_x t, t_size t + 1)) (d_tasks d1) = map g_left (sort_key g_x gs) \<and>
    d_tags d1 = [] \<and> d_chunk d1 = 204800 \<and> d_sion d1 + d_chunk d1 = g_end (last (sort_key g_x gs)))"
proof -
  let ?gs = "sort_key g_x gs"
  have pb: "put_by gs k d" using assms(1) by (simp add: stopped_with_def)
  note f = resume_facts [OF assms(3,2) stopped_read [OF pb]]
  have gs: "?gs \<noteq> []" "length ?gs \<le> 10" "fst (g_left (last ?gs)) \<notin> {T_X, T_Z}"
    using assms(1) by (auto simp: stopped_with_def put_by_def last_start_def dest: arg_cong [of _ _ length])
  obtain c where c: "d_counts d0 = Some (replicate c 0)" "10 \<le> c" using f(1) by blast
  have "\<exists>d1. rounds crack ans' (length ?gs) d0 = Some d1 \<and>
      map (\<lambda>t. (t_x t, t_size t)) (d_tasks d1) =
        map (\<lambda>t. (t_x t, t_size t)) (d_tasks d0) @ map (\<lambda>g. (fst (g_left g), snd (g_left g) - 1)) ?gs \<and>
      d_tags d1 = [] \<and> d_chunk d1 = d_copy d0 \<and> d_sion d1 + d_copy d0 = g_end (last ?gs)"
    by (rule hand_out_tags [of d0 ?gs "replicate c 0"]) (use f gs c in simp_all)
  then obtain d1 where d1: "rounds crack ans' (length gs) d0 = Some d1"
    "map (\<lambda>t. (t_x t, t_size t)) (d_tasks d1) = map (\<lambda>g. (fst (g_left g), snd (g_left g) - 1)) ?gs"
    "d_tags d1 = []" "d_chunk d1 = 204800" "d_sion d1 + 204800 = g_end (last ?gs)"
    using f(2,5) by auto
  have "map (\<lambda>t. (t_x t, t_size t + 1)) (d_tasks d1) = map (\<lambda>p. (fst p, snd p + 1)) (map (\<lambda>t. (t_x t, t_size t)) (d_tasks d1))" by simp
  also have "\<dots> = map g_left ?gs" unfolding d1(2) by simp
  finally show ?thesis using d1 f(7) by auto
qed

section \<open>Stopped near the end\<close>

definition late_inv :: "crack \<Rightarrow> int \<Rightarrow> nat \<Rightarrow> download \<Rightarrow> bool" where
  "late_inv crack n m d \<longleftrightarrow> NvAnalyzeURL crack (d_url d) \<noteq> None \<and> (\<exists>cs. d_counts d = Some cs \<and> length cs = m) \<and> d_ndata d \<le> m \<and>
     d_size d = n \<and> d_copy d = 204800 \<and> \<not> d_cmd_out d \<and> (\<forall>t \<in> set (d_tasks d). \<not> t_stop t) \<and>
     (d_tags d = [] \<longrightarrow> d_chunk d = 204800 \<and> d_sion d + 204800 = n) \<and>
     (d_tags d \<noteq> [] \<longrightarrow> fst (g_left (last (d_tags d))) \<notin> {T_X, T_Z} \<and> g_end (last (d_tags d)) = n)"

lemma create_late: "create_task crack ans x sz d = Some d' \<Longrightarrow> late_inv crack n m d \<Longrightarrow> late_inv crack n m d'"
  by (erule create_task_effect) (auto simp: late_inv_def new_task_def)

text \<open>A round that finds room and nothing to repair, when nothing is put by any more.\<close>

lemma hand_end:
  assumes inv: "late_inv crack n m d" and tags: "d_tags d = []" and room: "length (d_tasks d) < d_threads d" "\<not> d_quit d" "d_no d = []"
  shows "manage_round crack ans d = create_task crack ans (n - 204800) 204799 d"
proof -
  have d: "d_sion d = n - 204800" "d_chunk d = 204800" "d_copy d = 204800" "d_size d = n" using inv tags by (auto simp: late_inv_def)
  then have call: "call_AssignTasks (d_sion d) (d_chunk d) (d_size d) = (False, d_sion d, d_chunk d)"
    by (simp add: call_AssignTasks_def)
  have same: "d\<lparr>d_sion := n - 204800, d_chunk := 204800\<rparr> = d" "d\<lparr>d_sion := n - 204800, d_chunk := 204800, d_tags := []\<rparr> = d"
    using d tags by (cases d; simp)+
  have "manage_round crack ans d = hand_out crack ans d"
    using call d room tags by (simp add: manage_round_def decete_TaskFailure_def same(1))
  also have "\<dots> = create_task crack ans (n - 204800) 204799 d"
    using d tags by (cases "create_task crack ans (n - 204800) 204799 d") (simp_all add: hand_out_def T_X_def same(2))
  finally show ?thesis .
qed

lemma hand_out_late:
  assumes "hand_out crack ans d = Some d'" "late_inv crack n m d" "d_tags d = g # gs"
  shows "late_inv crack n m d'"
proof -
  let ?d = "d\<lparr>d_sion := g_x g + g_got g, d_chunk := g_cnt g - g_got g, d_tags := gs\<rparr>"
  obtain d1 where cr: "create_task crack ans (g_x g + g_got g) (g_cnt g - g_got g - 1) ?d = Some d1"
    and d': "d' = (if gs = [] then d1\<lparr>d_sion := g_x g + g_got g - d_copy d1 + d_chunk d1, d_chunk := d_copy d1\<rparr> else d1)"
    using assms by (cases "gs = []")
      (auto simp: hand_out_def T_X_def T_Z_def Let_def late_inv_def g_left_def split: Option.bind_splits)
  show ?thesis
  proof (cases "gs = []")
    case True
    obtain t cs where d1: "d1 = ?d\<lparr>d_counts := Some cs, d_ndata := Suc (d_ndata d), d_tasks := d_tasks d @ [t]\<rparr>" "\<not> t_stop t"
      "length cs = length (the (d_counts d))" "d_ndata d < length cs"
      by (rule create_task_effect [OF cr]) (simp add: new_task_def)
    have "\<forall>u \<in> set (d_tasks d1). \<not> t_stop u" using assms(2) d1 by (auto simp: late_inv_def)
    then show ?thesis using assms(2,3) True d1(2-4) unfolding d' by (auto simp: late_inv_def d1(1) g_end_def)
  next
    case False
    then have "late_inv crack n m ?d" using assms(2,3) by (simp add: late_inv_def)
    then show ?thesis using create_late [OF cr] d' False by simp
  qed
qed

lemma manage_late:
  assumes "manage_round crack ans d = Some d'" "late_inv crack n m d"
  shows "late_inv crack n m d'"
proof (cases "d_threads d \<le> length (d_tasks d) \<or> d_quit d")
  case True
  then show ?thesis using assms by (auto simp: manage_round_def stop_DetectTask_def late_inv_def split: if_splits)
next
  case room: False
  consider (repair) g gs where "d_no d = g # gs" | (tag) g gs where "d_no d = []" "d_tags d = g # gs" | (behind) "d_no d = []" "d_tags d = []"
    by (cases "d_no d"; cases "d_tags d") auto
  then show ?thesis
  proof cases
    case (repair g gs)
    then have "create_task crack ans (g_x g + g_got g) (g_cnt g - g_got g - 1) (d\<lparr>d_no := gs\<rparr>) = Some d'"
      using assms(1) room by (auto simp: manage_round_def decete_TaskFailure_def split: Option.bind_splits)
    then show ?thesis by (rule create_late) (use assms(2) in \<open>simp add: late_inv_def\<close>)
  next
    case (tag g gs)
    then have "hand_out crack ans d = Some d'" using assms(1) room by (simp add: manage_round_def decete_TaskFailure_def)
    then show ?thesis using hand_out_late assms(2) tag(2) by blast
  next
    case behind
    then have "create_task crack ans (n - 204800) 204799 d = Some d'" using hand_end [OF assms(2)] room assms(1) by simp
    then show ?thesis using create_late assms(2) by blast
  qed
qed

lemma step_late:
  assumes "dl_step crack allows errors d d'" and inv: "late_inv crack n m d"
  shows "late_inv crack n m d'"
  using assms(1)
proof cases
  case (manage ans)
  then show ?thesis using manage_late inv by blast
next
  case (work i rd t d1)
  have i: "\<not> t_stop (d_tasks d ! i)" using inv work(2) by (simp add: late_inv_def)
  obtain f cs where d1: "d1 = d\<lparr>d_saved := f, d_counts := cs, d_one_cnt := d_one_cnt d1\<rparr>"
    "map_option length cs = map_option length (d_counts d)"
    using work_same(2) [OF work(5) i] by blast
  have f: "d_tasks d1 = d_tasks d" "d_size d1 = d_size d" "d_chunk d1 = d_chunk d" "d_copy d1 = d_copy d" "d_sion d1 = d_sion d"
    "d_tags d1 = d_tags d" "d_cmd_out d1 = d_cmd_out d" "d_counts d1 = cs" "d_url d1 = d_url d" "d_ndata d1 = d_ndata d"
    by (subst d1(1), simp)+
  have "\<forall>u \<in> set ((d_tasks d)[i := t]). \<not> t_stop u"
    using inv work_same(1) [OF work(5) i] set_update_subset_insert [of "d_tasks d" i t] unfolding late_inv_def by blast
  then show ?thesis using inv d1(2) unfolding work(1) by (auto simp: late_inv_def f)
next
  case (unopened i)
  let ?t = "work_unopened (d_tasks d ! i)"
  have "\<not> t_stop ?t" using inv unopened(2) by (simp add: late_inv_def work_unopened_def end_task_def)
  then have "\<forall>u \<in> set ((d_tasks d)[i := ?t]). \<not> t_stop u"
    using inv set_update_subset_insert [of "d_tasks d" i ?t] unfolding late_inv_def by blast
  then show ?thesis using inv unfolding unopened(1) by (simp add: late_inv_def)
next
  case detect
  obtain gs ts where r: "detect_loop (d_tasks d) = (gs, ts)" by fastforce
  show ?thesis using inv detect_loop_set [OF r] unfolding detect(1)
    by (auto simp: detect_round_def detect_vtThread_Task_def r late_inv_def)
next
  case ask
  then show ?thesis using inv by (simp add: late_inv_def)
qed

text \<open>C8: after a download is taken up that was stopped while the piece at the end of the file was handed out but not
  finished, \<open>thread_Task\<close> never leaves its loop by completing the download, in every order of the rounds and whatever the
  server answers: once the pieces put by are handed out, the end of the file counts as the place of the next piece, and
  every round that finds room and no failed piece asks for the last 204800 bytes up to the end of the file once more
  (from a place before its start, when it is smaller), until the counters are used up and the next round writes behind
  their array. This is for one to ten pieces put by with numbers below \<open>2 ^ 63\<close>, the last of them taken up neither at
  place 1 nor at place 3. That \<open>detect_TaskComplete\<close> answers no is not part of it: it compares a sum of counts only.\<close>
theorem resume_near_end_never_ends:
  assumes "stopped_with gs k d" "\<not> d_one_mode d0"
    and "Download crack ans (Some (fst (create_DwonloadFile d))) url path cookie (Init old) = Some d0"
    and "g_end (last (sort_key g_x gs)) = d_size d0" "(dl_step crack allows errors)\<^sup>*\<^sup>* d0 d'"
  shows "\<not> d_cmd_out d' \<and>
    (d_tags d' = [] \<and> length (d_tasks d') < d_threads d' \<and> \<not> d_quit d' \<and> d_no d' = [] \<longrightarrow>
      (case manage_round crack ans' d' of
         None \<Rightarrow> d_ndata d' = length (the (d_counts d0))
       | Some d'' \<Rightarrow> d_ndata d'' = Suc (d_ndata d') \<and> d_tags d'' = [] \<and>
           (\<exists>t. d_tasks d'' = d_tasks d' @ [t] \<and> t_x t = d_size d0 - 204800 \<and> t_size t + 1 = 204800)))"
proof -
  have pb: "put_by gs k d" using assms(1) by (simp add: stopped_with_def)
  note f = resume_facts [OF assms(3,2) stopped_read [OF pb]]
  obtain c where c: "d_counts d0 = Some (replicate c 0)" using f(1) by blast
  have "sort_key g_x gs \<noteq> []" using pb by (auto simp: put_by_def dest: arg_cong [of _ _ length])
  then have start: "late_inv crack (d_size d0) c d0" using f c assms(1,4) by (simp add: late_inv_def stopped_with_def last_start_def)
  have inv: "late_inv crack (d_size d0) c d'"
    using assms(5) by (induction rule: rtranclp_induct) (use start step_late in blast)+
  have "case manage_round crack ans' d' of
         None \<Rightarrow> d_ndata d' = c
       | Some d'' \<Rightarrow> d_ndata d'' = Suc (d_ndata d') \<and> d_tags d'' = [] \<and>
           (\<exists>t. d_tasks d'' = d_tasks d' @ [t] \<and> t_x t = d_size d0 - 204800 \<and> t_size t + 1 = 204800)"
    if room: "d_tags d' = []" "length (d_tasks d') < d_threads d'" "\<not> d_quit d'" "d_no d' = []"
  proof -
    obtain cs where cs: "d_counts d' = Some cs" "length cs = c" "d_ndata d' \<le> c" "NvAnalyzeURL crack (d_url d') \<noteq> None"
      using inv by (auto simp: late_inv_def)
    note m = hand_end [OF inv room, of ans']
    show ?thesis
    proof (cases "manage_round crack ans' d'")
      case None
      then show ?thesis using create_task_some [OF cs(1,4), of ans' "d_size d0 - 204800" 204799] cs m by simp
    next
      case (Some d'')
      then have "create_task crack ans' (d_size d0 - 204800) 204799 d' = Some d''" using m by simp
      then show ?thesis using Some room(1) by (auto elim!: create_task_effect simp: new_task_def)
    qed
  qed
  moreover have "length (the (d_counts d0)) = c" using c by simp
  moreover have "\<not> d_cmd_out d'" using inv by (simp add: late_inv_def)
  ultimately show ?thesis by metis
qed

section \<open>The marks\<close>

text \<open>Every thread and every failed piece ends where a piece that was put by ends.\<close>

definition mark_inv :: "int set \<Rightarrow> download \<Rightarrow> bool" where
  "mark_inv E d \<longleftrightarrow> d_copy d = 204800 \<and> (\<forall>t \<in> set (d_tasks d). \<not> t_stop t \<and> t_x t + t_size t + 1 \<in> E) \<and>
     (\<forall>g \<in> set (d_no d). g_end g \<in> E) \<and> (\<forall>g \<in> set (d_tags d). g_end g \<in> E) \<and> (d_tags d = [] \<longrightarrow> d_chunk d \<noteq> 204800) \<and>
     (d_tags d \<noteq> [] \<longrightarrow> fst (g_left (last (d_tags d))) \<in> {T_X, T_Z} \<and> snd (g_left (last (d_tags d))) \<noteq> 204800)"

lemma create_mark:
  "create_task crack ans x sz d = Some d' \<Longrightarrow> mark_inv E d \<Longrightarrow> x + sz + 1 \<in> E \<Longrightarrow> mark_inv E d'"
  by (erule create_task_effect) (auto simp: mark_inv_def new_task_def)

lemma manage_mark:
  assumes "manage_round crack ans d = Some d'" "mark_inv E d"
  shows "mark_inv E d'"
proof (cases "d_threads d \<le> length (d_tasks d) \<or> d_quit d")
  case True
  then show ?thesis using assms by (auto simp: manage_round_def stop_DetectTask_def mark_inv_def split: if_splits)
next
  case room: False
  consider (repair) g gs where "d_no d = g # gs" | (tag) g gs where "d_no d = []" "d_tags d = g # gs" | (behind) "d_no d = []" "d_tags d = []"
    by (cases "d_no d"; cases "d_tags d") auto
  then show ?thesis
  proof cases
    case (repair g gs)
    then have cr: "create_task crack ans (g_x g + g_got g) (g_cnt g - g_got g - 1) (d\<lparr>d_no := gs\<rparr>) = Some d'"
      using assms(1) room by (auto simp: manage_round_def decete_TaskFailure_def split: Option.bind_splits)
    show ?thesis by (rule create_mark [OF cr]) (use assms(2) repair in \<open>simp_all add: mark_inv_def g_end_def\<close>)
  next
    case (tag g gs)
    let ?d = "d\<lparr>d_sion := g_x g + g_got g, d_chunk := g_cnt g - g_got g, d_tags := gs\<rparr>"
    have "hand_out crack ans d = Some d'" using assms(1) room tag by (simp add: manage_round_def decete_TaskFailure_def)
    moreover have "gs = [] \<longrightarrow> g_x g + g_got g \<in> {T_X, T_Z}" using assms(2) tag by (cases "gs = []") (simp_all add: mark_inv_def g_left_def)
    ultimately have cr: "create_task crack ans (g_x g + g_got g) (g_cnt g - g_got g - 1) ?d = Some d'"
      using tag by (cases "gs = []") (auto simp: hand_out_def Let_def split: Option.bind_splits)
    have e: "g_x g + g_got g + (g_cnt g - g_got g - 1) + 1 = g_end g" by (simp add: g_end_def)
    have "mark_inv E ?d" using assms(2) tag by (cases "gs = []") (simp_all add: mark_inv_def g_left_def)
    moreover have "g_end g \<in> E" using assms(2) tag by (simp add: mark_inv_def)
    ultimately show ?thesis using create_mark [OF cr] unfolding e by blast
  next
    case behind
    obtain n d1 where get: "get_DownloadCount d = (n, d1)" by fastforce
    have d1: "mark_inv E d1"
      using assms(2) get by (auto simp: get_DownloadCount_def mark_inv_def Let_def split: option.splits)
    have "d_copy d \<noteq> d_chunk d" using assms(2) behind by (simp add: mark_inv_def)
    then have "d' = (if n = d_size d1 then (stop_DetectTask d1)\<lparr>d_cmd_out := True, d_counts := None, d_alive := False\<rparr> else d1)"
      using assms(1) room behind get by (simp add: manage_round_def decete_TaskFailure_def)
    then show ?thesis using d1 by (simp add: mark_inv_def stop_DetectTask_def)
  qed
qed

lemma step_mark:
  assumes "dl_step crack allows errors d d'" and inv: "mark_inv E d"
  shows "mark_inv E d'"
  using assms(1)
proof cases
  case (manage ans)
  then show ?thesis using manage_mark inv by blast
next
  case (work i rd t d1)
  have i: "\<not> t_stop (d_tasks d ! i)" using inv work(2) by (simp add: mark_inv_def)
  obtain f cs where d1: "d1 = d\<lparr>d_saved := f, d_counts := cs, d_one_cnt := d_one_cnt d1\<rparr>"
    using work_same(2) [OF work(5) i] by blast
  have f: "d_tasks d1 = d_tasks d" "d_chunk d1 = d_chunk d" "d_copy d1 = d_copy d" "d_tags d1 = d_tags d" "d_no d1 = d_no d"
    by (subst d1, simp)+
  have "t_x t + t_size t + 1 \<in> E" "\<not> t_stop t"
    using work_same(1) [OF work(5) i] inv work(2) by (auto simp: mark_inv_def)
  then have "\<forall>u \<in> set ((d_tasks d)[i := t]). \<not> t_stop u \<and> t_x u + t_size u + 1 \<in> E"
    using inv set_update_subset_insert [of "d_tasks d" i t] unfolding mark_inv_def by blast
  then show ?thesis using inv unfolding work(1) by (simp add: mark_inv_def f)
next
  case (unopened i)
  let ?t = "work_unopened (d_tasks d ! i)"
  have "t_x ?t + t_size ?t + 1 \<in> E" "\<not> t_stop ?t"
    using inv unopened(2) by (simp_all add: mark_inv_def work_unopened_def end_task_def)
  then have "\<forall>u \<in> set ((d_tasks d)[i := ?t]). \<not> t_stop u \<and> t_x u + t_size u + 1 \<in> E"
    using inv set_update_subset_insert [of "d_tasks d" i ?t] unfolding mark_inv_def by blast
  then show ?thesis using inv unfolding unopened(1) by (simp add: mark_inv_def)
next
  case detect
  obtain gs ts where r: "detect_loop (d_tasks d) = (gs, ts)" by fastforce
  have "\<forall>g \<in> set gs. g_end g \<in> E" using inv detect_loop_set [OF r] by (auto simp: mark_inv_def tag_of_def g_end_def add.assoc)
  then show ?thesis using inv detect_loop_set [OF r] unfolding detect(1)
    by (auto simp: detect_round_def detect_vtThread_Task_def r mark_inv_def)
next
  case ask
  then show ?thesis using inv by (simp add: mark_inv_def)
qed

text \<open>A download of which the last piece put by is taken up at place 1 or 3 of the file, and with another length than that
  of a whole piece, fetches nothing of the file but the pieces put by: the place is taken for one of the marks \<open>T_X\<close> and
  \<open>T_Z\<close>, so the place and the size for the next piece are not set back, and in every order of the rounds each thread is
  asked for a piece that ends where one of those put by ends.\<close>
theorem resume_at_mark_stops_short:
  assumes "put_by gs k d" "last_start gs \<in> {T_X, T_Z}" "last_length gs \<noteq> 204800" "\<not> d_one_mode d0"
    and "Download crack ans (Some (fst (create_DwonloadFile d))) url path cookie (Init old) = Some d0"
    and "(dl_step crack allows errors)\<^sup>*\<^sup>* d0 d'"
  shows "\<forall>t \<in> set (d_tasks d'). t_x t + t_size t + 1 \<in> g_end ` set gs"
proof -
  note f = resume_facts [OF assms(5,4) stopped_read [OF assms(1)]]
  have "sort_key g_x gs \<noteq> []" using assms(1) by (auto simp: put_by_def dest: arg_cong [of _ _ length])
  then have start: "mark_inv (g_end ` set gs) d0"
    using f assms(2,3) by (simp add: mark_inv_def last_start_def last_length_def)
  have "mark_inv (g_end ` set gs) d'"
    using assms(6) by (induction rule: rtranclp_induct) (use start step_mark in blast)+
  then show ?thesis by (simp add: mark_inv_def)
qed

text \<open>A file of nine bytes, stopped when four of its only piece were fetched.\<close>

definition demo_late :: answers where
  "demo_late rq = Some \<lparr>an_status = 206, an_length = Some 9, an_body = []\<rparr>"

definition demo_tag :: tag where "demo_tag = \<lparr>g_x = 0, g_cnt = 9, g_got = 4\<rparr>"

definition demo_stopped :: download where
  "demo_stopped = (Init [])\<lparr>d_tags := [demo_tag], d_last := 4\<rparr>"

definition demo_again :: download where
  "demo_again = the (Download demo_crack demo_late (Some (fst (create_DwonloadFile demo_stopped))) ''url'' ''file'' None (Init []))"

lemma demo_again:
  "stopped_with [demo_tag] 4 demo_stopped" "\<not> d_one_mode demo_again"
  "Download demo_crack demo_late (Some (fst (create_DwonloadFile demo_stopped))) ''url'' ''file'' None (Init []) = Some demo_again"
  "g_end (last (sort_key g_x [demo_tag])) = d_size demo_again"
proof -
  show "stopped_with [demo_tag] 4 demo_stopped"
    by (simp add: stopped_with_def put_by_def last_start_def T_X_def T_Z_def demo_stopped_def demo_tag_def tag_fits_def
        get_DownloadCount_def Init_def g_left_def)
  let ?d = "Download demo_crack demo_late (Some (fst (create_DwonloadFile demo_stopped))) ''url'' ''file'' None (Init [])"
  have "\<not> Option.is_none ?d" by code_simp
  then show "?d = Some demo_again" by (cases ?d) (simp_all add: demo_again_def)
  show "\<not> d_one_mode demo_again" by code_simp
  show "g_end (last (sort_key g_x [demo_tag])) = d_size demo_again" by code_simp
qed

theorem resume_plan_witness:
  "\<exists>d1. rounds demo_crack demo_late 1 demo_again = Some d1 \<and> map (\<lambda>t. (t_x t, t_size t + 1)) (d_tasks d1) = [(4, 5)] \<and>
    d_ji demo_again = 4"
  using resume_plan [OF demo_again(1-3), of demo_late] by (auto simp: demo_tag_def g_left_def)

definition demo_ended :: download where "demo_ended = the (manage_round demo_crack demo_late demo_again)"

theorem resume_near_end_never_ends_witness:
  "\<exists>d''. (dl_step demo_crack (\<lambda>_ _. True) demo_errors)\<^sup>*\<^sup>* demo_again demo_ended \<and> length (d_tasks demo_ended) = 1 \<and>
    \<not> d_cmd_out demo_ended \<and> manage_round demo_crack demo_late demo_ended = Some d'' \<and>
    (\<exists>t. d_tasks d'' = d_tasks demo_ended @ [t] \<and> t_x t = 9 - 204800 \<and> t_size t + 1 = 204800)"
proof -
  have m: "d_alive demo_again" "\<not> Option.is_none (manage_round demo_crack demo_late demo_again)"
    "\<not> Option.is_none (manage_round demo_crack demo_late demo_ended)" by code_simp+
  then have "manage_round demo_crack demo_late demo_again = Some demo_ended" by (auto simp: demo_ended_def Option.is_none_def)
  then have run: "(dl_step demo_crack (\<lambda>_ _. True) demo_errors)\<^sup>*\<^sup>* demo_again demo_ended"
    using dl_step.manage [of demo_again "\<lambda>_ _. True" demo_late] m(1) by (intro r_into_rtranclp) (simp add: allowed_def)
  have g: "d_tags demo_ended = []" "length (d_tasks demo_ended) < d_threads demo_ended" "\<not> d_quit demo_ended" "d_no demo_ended = []"
    "length (d_tasks demo_ended) = 1" "d_size demo_again = 9" by code_simp+
  obtain d'' where d'': "manage_round demo_crack demo_late demo_ended = Some d''" using m(3) by (auto simp: Option.is_none_def)
  show ?thesis
    using resume_near_end_never_ends [OF demo_again run, of demo_late] run g d'' by auto
qed

text \<open>A file of 300000 bytes, stopped when one byte of its first piece was fetched.\<close>

definition demo_longer :: answers where
  "demo_longer rq = Some \<lparr>an_status = 206, an_length = Some 300000, an_body = []\<rparr>"

definition demo_stopped_1 :: download where
  "demo_stopped_1 = (Init [])\<lparr>d_tags := [\<lparr>g_x = 0, g_cnt = 204800, g_got = 1\<rparr>], d_last := 1\<rparr>"

definition demo_marked :: download where
  "demo_marked = (Init [])\<lparr>d_size := 300000, d_url := ''url'', d_path := ''file'', d_ji := 1,
     d_tags := [\<lparr>g_x = 0, g_cnt = 204800, g_got = 1\<rparr>], d_counts := Some (replicate 100 0), d_alive := True, d_detecting := True\<rparr>"

definition demo_marked_1 :: download where
  "demo_marked_1 = demo_marked\<lparr>d_sion := 1, d_chunk := 204799, d_tags := [], d_counts := Some ((replicate 100 0)[0 := 0]),
     d_ndata := 1, d_tasks := [new_task 1 204798 (Some 0) True []]\<rparr>"

lemma demo_marked_start:
  assumes "put_by [\<lparr>g_x = 0, g_cnt = 204800, g_got = 1\<rparr>] 1 demo_stopped_1"
  shows "Download demo_crack demo_longer (Some (fst (create_DwonloadFile demo_stopped_1))) ''url'' ''file'' None (Init []) = Some demo_marked"
proof -
  have n: "get_UrlFileSize demo_crack demo_longer ''url'' c = Some 300000" for c
    by (simp add: get_UrlFileSize_def http_request_def NvAnalyzeURL_def demo_crack_def demo_longer_def)
  have h: "GetHttpReturnData demo_crack demo_longer ''url'' 0 0 0 None = Some (206, [])"
    by (simp add: GetHttpReturnData_def http_request_def NvAnalyzeURL_def demo_crack_def demo_longer_def Http_Return_206_def)
  show ?thesis
    by (simp add: Download_def n h stopped_read [OF assms] Http_Return_206_def demo_marked_def Init_def)
qed

lemma demo_marked_round: "manage_round demo_crack demo_longer demo_marked = Some demo_marked_1"
proof -
  have h: "GetHttpReturnData demo_crack demo_longer u sz x y c = Some (206, [])" for u sz x y c
    by (simp add: GetHttpReturnData_def http_request_def NvAnalyzeURL_def demo_crack_def demo_longer_def Http_Return_206_def)
  show ?thesis
    by (simp add: manage_round_def decete_TaskFailure_def hand_out_def create_task_def h demo_marked_def demo_marked_1_def Init_def
        T_X_def T_Z_def Http_Return_206_def)
qed

theorem resume_at_mark_stops_short_witness:
  "(dl_step demo_crack (\<lambda>_ _. True) demo_errors)\<^sup>*\<^sup>* demo_marked demo_marked_1 \<and> length (d_tasks demo_marked_1) = 1 \<and>
    (\<forall>t \<in> set (d_tasks demo_marked_1). t_x t + t_size t + 1 = 204800)"
proof -
  have p: "put_by [\<lparr>g_x = 0, g_cnt = 204800, g_got = 1\<rparr>] 1 demo_stopped_1"
    "last_start [\<lparr>g_x = 0, g_cnt = 204800, g_got = 1\<rparr>] \<in> {T_X, T_Z}" "last_length [\<lparr>g_x = 0, g_cnt = 204800, g_got = 1\<rparr>] \<noteq> 204800"
    by (simp_all add: put_by_def last_start_def last_length_def T_X_def demo_stopped_1_def tag_fits_def get_DownloadCount_def Init_def g_left_def)
  have m: "\<not> d_one_mode demo_marked" "d_alive demo_marked" "length (d_tasks demo_marked_1) = 1"
    by (simp_all add: demo_marked_def demo_marked_1_def Init_def)
  have run: "(dl_step demo_crack (\<lambda>_ _. True) demo_errors)\<^sup>*\<^sup>* demo_marked demo_marked_1"
    using dl_step.manage [of demo_marked "\<lambda>_ _. True" demo_longer] m(2) demo_marked_round by (intro r_into_rtranclp) (simp add: allowed_def)
  show ?thesis using resume_at_mark_stops_short [OF p m(1) demo_marked_start [OF p(1)] run] run m(3) by (simp add: g_end_def)
qed

end
