(* ===== verification/Spec2Isabelle.thy ===== *)
theory Spec2Isabelle imports LibConfig LibTicket LibSocket LibIo LibMem LibHash LibIndexCache LibTimer MsgPoolSteps LibPollTimers LibHandlePool LibDb LibThreadSteps GasMain RopAESFile RopQueue RopSyncMsg RopAsyncDll RopExecuter RopCfgEntry RopUpdate RopAsyncSocket GendoWnd GendoLogin GendoResume begin

text \<open>
  Gendo: a service of virtual private networks. A gateway (\<open>Server/gas\<close>), written in C on a library of its own
  (\<open>Server/Lib\<close>), answers the logins of Windows clients (\<open>Client/Gendo\<close>), which are written in C++ on a library of
  theirs (\<open>Client/RopCltLib\<close>) and keep themselves up to date with a program of their own (\<open>Client/Update\<close>). This
  development models both libraries, the gateway, the client and the updater, as far as the C and C++ code decides what
  happens; this theory only gathers the others.

  \<^bold>\<open>How the model is made.\<close> \<open>Prelude\<close> has the record \<open>heap\<close>: which blocks are live, the outcomes of the coming
  allocations, and the two links of each list node. The components of the server extend it, so that one operation on
  lists serves them all. A function of the code is a function of the same name that takes its arguments and the state and
  returns its result and the new state; \<open>None\<close> stands for a call that does not come back in a defined way: an access
  outside a block or an array, a failed assertion, a loop that does not end. Integers of the code are words of their width
  where they can wrap, and \<open>int\<close> or \<open>nat\<close> where they cannot; strings are lists of characters. What the program does not
  define is an argument of the functions that use it (the functions a caller passes in, OpenSSL, libmysqlclient, libevent,
  the API of Windows, the answers of a server), or a script of coming answers in the state (sockets, \<open>malloc\<close>).
  \<open>Bytes\<close> has integers as bytes and network order, \<open>DecText\<close> printed numbers, \<open>FdTable\<close> tables by descriptor.

  \<^bold>\<open>Containers of the server.\<close> \<open>LibList\<close> (\<open>lib-list.h\<close>), \<open>LibHash\<close> (\<open>lib-hash.c\<close>), \<open>LibIndexCache\<close>
  (\<open>lib-index-cache.c\<close>), \<open>LibMem\<close> (\<open>lib-mem.c\<close>), \<open>LibTimer\<close> (\<open>lib-timer.c\<close>) and \<open>LibHandlePool\<close>
  (\<open>lib-handle-pool.c\<close>), with the shape of each structure as a predicate on the heap (\<open>list_rep\<close>, \<open>table_rep\<close>, and
  such) and the effect of each operation on what the structure stands for. The locale \<open>keyed_table\<close> is the contract of the
  hash table, and \<open>fd_registry\<close> the one of a registry by descriptor, which both the set of IO objects (\<open>LibIo\<close>,
  \<open>lib-io.c\<close>) and the reactor (\<open>LibPoll\<close>) fulfil.

  \<^bold>\<open>Messages and threads of the server.\<close> \<open>LibMsgPool\<close> (\<open>lib-msgpool.c\<close>) is a pool of buffers; \<open>MsgPoolSteps\<close> lets
  consumers and producers run side by side, an operation under the lock or the part of a consumer on either side of its
  wait being a step. A wait can return without a signal; such steps are counted, and the properties say whether they are
  free of them or about them. \<open>LibThread\<close> (\<open>lib-thread.c\<close>) has the stretches of the pool of threads between its waits,
  and \<open>LibThreadSteps\<close> runs them side by side, with the same counter. \<open>LibMsgConsumer\<close> (\<open>lib-msg-consumer.c\<close>) joins
  two pools with a function that handles messages. \<open>LibPoll\<close>, \<open>LibPollLoop\<close> and \<open>LibPollTimers\<close> are the reactor
  over epoll (\<open>lib-poll.c\<close>): registration, the rounds of the loop, the timers and the cleaning. \<open>LibEvt\<close>
  (\<open>lib-libevt.c\<close>) is the other layer for events, over libevent.

  \<^bold>\<open>Texts, files, sockets and tickets of the server.\<close> \<open>LibString\<close>, \<open>LibFile\<close> and \<open>LibFileLines\<close> (\<open>lib-string.c\<close>,
  \<open>lib-file.c\<close>) split and edit lines, the latter over a map from paths to contents; \<open>LibConfig\<close> (\<open>lib-config.c\<close>) keeps
  parameters in such a file. \<open>LibSocket\<close> (\<open>lib-socket.c\<close>) sends and receives messages, however the kernel cuts them.
  \<open>LibTicket\<close> (\<open>lib-ticket.c\<close>) makes and checks tickets. \<open>LibDb\<close> (\<open>lib-db.c\<close>) is the pool of database connections.

  \<^bold>\<open>The gateway.\<close> \<open>GasUser\<close> (\<open>gas-user.c\<close>) asks the database, \<open>GasMsg\<close> (\<open>gas-user-msg.c\<close>) receives messages, hands
  them to the workers and answers them, \<open>GasMain\<close> (\<open>gas-main.c\<close>) puts the parts together.

  \<^bold>\<open>Client library.\<close> \<open>RopAES\<close> and \<open>RopAESFile\<close> (\<open>RopAES.cpp\<close>) encrypt buffers and files, \<open>RopQueue\<close> is a ring in an
  array, whose contract is the locale \<open>bounded_queue\<close>; \<open>RopSession\<close> (\<open>RopAsyncSession.cpp\<close>) makes messages of a stream;
  \<open>RopSyncMsg\<close> (\<open>RopSyncSocket.cpp\<close>, \<open>RopSyncMsg.cpp\<close>) is the blocking socket with the messages to the gateway;
  \<open>RopAsyncSocket\<close> the overlapped one, \<open>RopExecuter\<close> the loop over such objects, \<open>RopAsyncDll\<close> a module with two queues,
  with the interleaving of its thread as \<open>dll_step\<close>; \<open>RopProxy\<close> the handshakes with proxies; \<open>RopVpn\<close>
  (\<open>RopOpenVpn.cpp\<close>, \<open>RopRouteTable.cpp\<close>) starts OpenVPN, reads its log and sets routes; \<open>RopTap\<close> (\<open>RopTap.cpp\<close>) installs
  the virtual network card.

  \<^bold>\<open>Client and updater.\<close> \<open>GendoServer\<close> keeps the list of servers, \<open>GendoLogin\<close> logs in, \<open>GendoWnd\<close> connects and
  disconnects; its \<open>wnd_step\<close> interleaves the user, the threads that follow a connection and each of their single writes
  to the window. \<open>GendoDownload\<close> (\<open>HttpDownload.cpp\<close>) downloads a file in pieces, \<open>GendoDownloadSteps\<close> interleaves its
  threads, \<open>GendoResume\<close> is about taking a download up again. \<open>RopCfg\<close> and \<open>RopCfgEntry\<close> (\<open>RopCfgItem.cpp\<close>,
  \<open>RopCfgFile.cpp\<close>) read and compare the configuration of the updater, \<open>RopUpdate\<close> installs it.
\<close>

text \<open>
  \<^bold>\<open>What the lemmas show.\<close> In each theory the operations come first, then what each does on every branch, then what
  holds of sequences of them, and last the claims, each behind a text with its number and with a witness where it has
  hypotheses. They are of these kinds. Round trips: a value stored in the configuration, a ticket, a message over a cut
  stream, an encrypted file, a saved login, an entry of the updater's configuration, a download taken up again.
  Refinements: the reactor's registration against a map, a round of the reactor against a function on that map, the ring
  against a bounded list, base64 against its specification. Properties of all interleavings: the pool of messages with one
  consumer, the download by several threads, the shutdown of the pool of threads. Runs that go wrong: two consumers, a
  wake-up without a signal, a lost signal, a queue read outside its lock, a window without buttons. Where code leaves its
  arrays or does not end, the claim says for which inputs exactly.

  \<^bold>\<open>Loops.\<close> Most loops are recursive functions that end. Those that need not end are partial functions whose value is
  then \<open>None\<close>: following the links of a list, copying a file, reading the log of OpenVPN, sending from the queue of an
  object. The loop of a consumer gets a number of rounds, and \<open>consumer_handles_in_order\<close> says how many are enough. The
  loops of sockets, of the reactor and of the executer use up a script of the answers and events to come.

  \<^bold>\<open>Limits of the model.\<close> A round of a thread of a download is one step, although the list of threads and the counters
  are not locked; overlapping rounds, which can damage the list (see \<open>HttpDownload.cpp:1586\<close>), are outside the model.
  The conversions between the character sets of Windows are those of ASCII texts, and texts with other characters give
  \<open>None\<close> where a conversion comes in. Files are opened in text mode on Windows; that translation of line ends and of
  Ctrl-Z is outside the model, which works on the bytes the stream delivers. Sleeping only passes time where a function
  compares times, and is left out elsewhere. What is only shown or logged is left out. Addresses are numbers that
  \<open>malloc\<close> gives; memory that was not initialised holds what an argument says.

  \<^bold>\<open>Not modelled.\<close> The web shop and the administration site (PHP, Python), DuiLib, OpenSSL and MD5 (third-party code),
  the windows that only show something (\<open>HttpDownloadMng.cpp\<close>, \<open>UpdateWnd.cpp\<close>), the thin wrappers of Linux
  (\<open>lib-time.c\<close>, \<open>lib-log.c\<close>, \<open>lib-debug.c\<close>, \<open>lib-process.c\<close>, \<open>lib-sys.c\<close>, \<open>lib-regex.c\<close>) and of Windows (\<open>RopPing.cpp\<close>,
  \<open>RopPDH.cpp\<close>, \<open>RopRegistry.cpp\<close>, \<open>RopService.cpp\<close>, \<open>RopError.cpp\<close>, \<open>RopNet.cpp\<close>, \<open>RopNetState.cpp\<close>,
  \<open>RopAsyncDevice.cpp\<close>), the dial-up connections (\<open>RopPPTP.cpp\<close>, \<open>RopL2TP.cpp\<close>, \<open>RopPPPoE.cpp\<close>; the window records
  which of their operations it calls), and \<open>RopAsyncSSLSocket.cpp\<close> and \<open>RopEncryptFile.cpp\<close>, which nothing uses. Of the modelled
  files: \<open>lib_gethostbyname\<close>, functions that print to the log, \<open>SaveMD5\<close>, \<open>TapSetIpDns\<close>, and what the main
  window only shows or fetches for showing.
\<close>

end
